(* ===== verification/Prelude.thy ===== *)
theory Prelude
  imports Main "HOL-Library.Word" "HOL-Library.Monad_Syntax"
begin

section \<open>Shared types, codes and lemmas\<close>

text \<open>
  The vocabulary of the development: machine integers of the C program as words, the status
  codes of \<open>gf_core.h\<close>, the behaviour of \<open>ASSERT\<close> under the three builds of
  \<open>gf_util.h\<close>, and the collections and generic lemmas on lists, options and words that
  the component theories share.  The target is the one the build scripts configure on
  Linux/x86-64: LP64, little endian, signed \<open>char\<close>, arithmetic of unsigned types modulo
  a power of two.
\<close>

unbundle bit_operations_syntax

type_synonym u8 = "8 word"
type_synonym u16 = "16 word"
type_synonym u32 = "32 word"
type_synonym u64 = "64 word"

subsection \<open>Status codes (\<open>gf_core.h\<close>)\<close>

abbreviation (input) GF_OK :: int where "GF_OK \<equiv> 0"
abbreviation (input) GF_ERROR :: int where "GF_ERROR \<equiv> - 1"
abbreviation (input) GF_EAGAIN :: int where "GF_EAGAIN \<equiv> - 2"
abbreviation (input) GF_ENOMEM :: int where "GF_ENOMEM \<equiv> - 3"

subsection \<open>Collections\<close>

named_theorems gf_simps \<open>simplification rules the component proofs share\<close>
named_theorems gf_len \<open>length facts of the byte-level models\<close>

subsection \<open>A \<open>char\<close> as an unsigned 32 or 64 bit operand\<close>

text \<open>
  \<open>char\<close> is signed on the target, so \<open>(uint32_t)key[x]\<close> sign-extends.
\<close>

abbreviation char_u32 :: "u8 \<Rightarrow> u32" where "char_u32 c \<equiv> scast c"
abbreviation char_u64 :: "u8 \<Rightarrow> u64" where "char_u64 c \<equiv> scast c"

subsection \<open>Generic lemmas\<close>

lemma foldl_invariant:
  assumes "P s" and "\<And>s x. P s \<Longrightarrow> P (f s x)"
  shows "P (foldl f s xs)"
  using assms(1) by (induction xs arbitrary: s) (auto intro: assms(2))

lemma foldl_homomorphism:
  assumes "\<And>s x. h (f s x) = g (h s) x"
  shows "h (foldl f s xs) = foldl g (h s) xs"
  by (induction xs arbitrary: s) (simp_all add: assms)

lemma foldl_relation:
  assumes "R s t" and "\<And>s t x. R s t \<Longrightarrow> R (f s x) (g t x)"
  shows "R (foldl f s xs) (foldl g t xs)"
  using assms(1) by (induction xs arbitrary: s t) (auto intro: assms(2))

lemma bind_Some_iff [gf_simps]:
  "Option.bind m f = Some y \<longleftrightarrow> (\<exists>x. m = Some x \<and> f x = Some y)"
  by (cases m) auto

lemma bind_SomeE: "Option.bind m f = Some y \<Longrightarrow> (\<And>x. m = Some x \<Longrightarrow> f x = Some y \<Longrightarrow> thesis) \<Longrightarrow> thesis"
  by (cases m) auto

lemma pair_SomeE: "(case x of (a, b) \<Rightarrow> f a b) = Some y \<Longrightarrow> (\<And>a b. x = (a, b) \<Longrightarrow> f a b = Some y \<Longrightarrow> thesis) \<Longrightarrow> thesis"
  by (cases x) auto

lemmas some_elims = bind_SomeE pair_SomeE

subsection \<open>Insertion by key\<close>

text \<open>The place \<open>rbtree_insert\<close> gives a node among the nodes in order: before the first greater key.\<close>

primrec tmo_ins :: "int \<Rightarrow> nat \<Rightarrow> (int \<times> nat) list \<Rightarrow> (int \<times> nat) list" where
  "tmo_ins k m [] = [(k, m)]"
| "tmo_ins k m (x # xs) = (if k < fst x then (k, m) # x # xs else x # tmo_ins k m xs)"

lemma set_tmo_ins [simp]: "set (tmo_ins k m xs) = insert (k, m) (set xs)"
  by (induction xs) auto

lemma sorted_tmo_ins: "sorted (map fst xs) \<Longrightarrow> sorted (map fst (tmo_ins k m xs))"
  by (induction xs) (auto simp: order.strict_implies_order intro: order_trans less_imp_le)

lemma distinct_tmo_ins: "distinct (map snd (tmo_ins k m xs)) \<longleftrightarrow> distinct (map snd xs) \<and> m \<notin> snd ` set xs"
  by (induction xs) auto

subsection \<open>Partial correctness of the handlers\<close>

text \<open>Every result of a computation that may have none satisfies \<open>Q\<close>.\<close>

definition post :: "('a \<Rightarrow> bool) \<Rightarrow> 'a option \<Rightarrow> bool" where
  "post Q m \<longleftrightarrow> (\<forall>y. m = Some y \<longrightarrow> Q y)"

named_theorems post_intros \<open>rules of computations for \<open>post\<close>\<close>

lemma postD: "post Q m \<Longrightarrow> m = Some y \<Longrightarrow> Q y"
  by (simp add: post_def)

lemma postI: "(\<And>y. m = Some y \<Longrightarrow> Q y) \<Longrightarrow> post Q m"
  by (simp add: post_def)

lemma post_bind [post_intros]: "(\<And>x. m = Some x \<Longrightarrow> post Q (f x)) \<Longrightarrow> post Q (Option.bind m f)"
  by (cases m) (auto simp: post_def)

lemma post_Let [post_intros]: "(\<And>x. v = x \<Longrightarrow> post Q (f x)) \<Longrightarrow> post Q (Let v f)"
  by simp

lemma post_if [post_intros]: "(b \<Longrightarrow> post Q m) \<Longrightarrow> (\<not> b \<Longrightarrow> post Q n) \<Longrightarrow> post Q (if b then m else n)"
  by simp

lemma post_prod [post_intros]: "(\<And>a b. r = (a, b) \<Longrightarrow> post Q (f a b)) \<Longrightarrow> post Q (case r of (a, b) \<Rightarrow> f a b)"
  by (cases r) simp

lemma post_option [post_intros]:
  "(r = None \<Longrightarrow> post Q m) \<Longrightarrow> (\<And>x. r = Some x \<Longrightarrow> post Q (f x)) \<Longrightarrow> post Q (case r of None \<Rightarrow> m | Some x \<Rightarrow> f x)"
  by (cases r) simp_all

lemma post_list [post_intros]:
  "(r = [] \<Longrightarrow> post Q m) \<Longrightarrow> (\<And>x xs. r = x # xs \<Longrightarrow> post Q (f x xs)) \<Longrightarrow> post Q (case r of [] \<Rightarrow> m | x # xs \<Rightarrow> f x xs)"
  by (cases r) simp_all

lemma post_sum [post_intros]:
  "(\<And>p. r = Inl p \<Longrightarrow> post Q (f p)) \<Longrightarrow> (\<And>s. r = Inr s \<Longrightarrow> post Q (g s)) \<Longrightarrow>
    post Q (case r of Inl p \<Rightarrow> f p | Inr s \<Rightarrow> g s)"
  by (cases r) simp_all

lemma post_Some [post_intros]: "Q y \<Longrightarrow> post Q (Some y)"
  by (simp add: post_def)

lemma post_None [post_intros]: "post Q None"
  by (simp add: post_def)

subsection \<open>Texts\<close>

text \<open>The bytes of a literal.\<close>

definition bytes_of_string :: "string \<Rightarrow> u8 list" where
  "bytes_of_string = map of_char"

text \<open>Decimal digits, as \<open>%u\<close> prints them.\<close>

fun decimal :: "nat \<Rightarrow> u8 list" where
  "decimal n = (if n < 10 then [48 + word_of_nat n] else decimal (n div 10) @ [48 + word_of_nat (n mod 10)])"

declare decimal.simps [simp del]

text \<open>\<open>%d\<close> and its relatives.\<close>

definition decimal_int :: "int \<Rightarrow> u8 list" where
  "decimal_int n = (if n < 0 then 45 # decimal (nat (- n)) else decimal (nat n))"

text \<open>What \<open>%s\<close>, or \<open>%.*s\<close> with the length of the string, prints: the bytes before a NUL.\<close>

definition cstr :: "u8 list \<Rightarrow> u8 list" where
  "cstr s = takeWhile (\<lambda>b. b \<noteq> 0) s"

lemma length_cstr [gf_len]: "length (cstr s) \<le> length s"
  by (simp add: cstr_def length_takeWhile_le)

lemma decimal_length: "n < 10 ^ k \<Longrightarrow> 0 < k \<Longrightarrow> length (decimal n) \<le> k"
proof (induction n arbitrary: k rule: decimal.induct)
  case (1 n)
  show ?case
  proof (cases "n < 10")
    case False
    with 1(2) have "k \<noteq> 1" by auto
    then have k: "1 < k" using 1(3) by simp
    then have "n div 10 < 10 ^ (k - 1)" using 1(2) by (cases k) (auto simp: less_mult_imp_div_less)
    with 1(1) [OF False this] k have "length (decimal (n div 10)) \<le> k - 1" by simp
    then show ?thesis using False k by (subst decimal.simps) auto
  qed (use 1(3) in \<open>simp add: decimal.simps\<close>)
qed

lemma decimal_int_length: "- (2 ^ 63) \<le> n \<Longrightarrow> n < 2 ^ 63 \<Longrightarrow> length (decimal_int n) \<le> 20"
  using decimal_length [of "nat n" 20] decimal_length [of "nat (- n)" 19] by (auto simp: decimal_int_def)

end
