(* ===== verification/Queue.thy ===== *)
theory Queue
  imports Prelude
begin

section \<open>Tail queues (\<open>gf_queue.h\<close>)\<close>

text \<open>
  The two queue families the proxy uses, at the level of their links.  A queue head and a
  queue entry have the same shape, a forward pointer and a pointer to a link, and
  \<open>TAILQ_LAST\<close> and \<open>TAILQ_PREV\<close> rely on it by casting an entry to a head; the model
  therefore addresses both by a \<open>link\<close>: \<open>qlink\<close> is the first word at a link
  (\<open>tqh_first\<close>, \<open>tqe_next\<close>, \<open>stqh_first\<close>, \<open>stqe_next\<close>), \<open>qback\<close> the second one
  (\<open>tqh_last\<close>, \<open>tqe_prev\<close>, \<open>stqh_last\<close>).  NULL is \<open>None\<close>, and an operation that
  dereferences NULL has no result.  Each operation is shown to implement the list
  operation of the same meaning, and to leave the queues with other elements alone.
\<close>

datatype link = Head nat | Elem nat

record qmem =
  qlink :: "link \<Rightarrow> nat option"
  qback :: "link \<Rightarrow> link option"

definition set_link :: "link \<Rightarrow> nat option \<Rightarrow> qmem \<Rightarrow> qmem" where
  "set_link l v m = m\<lparr>qlink := (qlink m)(l := v)\<rparr>"

definition set_back :: "link \<Rightarrow> link option \<Rightarrow> qmem \<Rightarrow> qmem" where
  "set_back l v m = m\<lparr>qback := (qback m)(l := v)\<rparr>"

lemma link_back_simps [simp]:
  "qlink (set_link l v m) = (qlink m)(l := v)" "qback (set_link l v m) = qback m"
  "qback (set_back l b m) = (qback m)(l := b)" "qlink (set_back l b m) = qlink m"
  by (simp_all add: set_link_def set_back_def)

subsection \<open>\<open>TAILQ\<close>\<close>

definition TAILQ_EMPTY :: "nat \<Rightarrow> qmem \<Rightarrow> bool" where
  "TAILQ_EMPTY h m \<longleftrightarrow> qlink m (Head h) = None"

definition TAILQ_FIRST :: "nat \<Rightarrow> qmem \<Rightarrow> nat option" where
  "TAILQ_FIRST h m = qlink m (Head h)"

definition TAILQ_NEXT :: "nat \<Rightarrow> qmem \<Rightarrow> nat option" where
  "TAILQ_NEXT x m = qlink m (Elem x)"

definition TAILQ_LAST :: "nat \<Rightarrow> qmem \<Rightarrow> nat option option" where
  "TAILQ_LAST h m = do { l \<leftarrow> qback m (Head h); b \<leftarrow> qback m l; Some (qlink m b) }"

definition TAILQ_PREV :: "nat \<Rightarrow> qmem \<Rightarrow> nat option option" where
  "TAILQ_PREV x m = do { l \<leftarrow> qback m (Elem x); b \<leftarrow> qback m l; Some (qlink m b) }"

definition TAILQ_INIT :: "nat \<Rightarrow> qmem \<Rightarrow> qmem" where
  "TAILQ_INIT h m = set_back (Head h) (Some (Head h)) (set_link (Head h) None m)"

definition TAILQ_INSERT_HEAD :: "nat \<Rightarrow> nat \<Rightarrow> qmem \<Rightarrow> qmem" where
  "TAILQ_INSERT_HEAD h x m =
     (let m = set_link (Elem x) (TAILQ_FIRST h m) m;
          m = (case TAILQ_NEXT x m of
                 Some f \<Rightarrow> set_back (Elem f) (Some (Elem x)) m
               | None \<Rightarrow> set_back (Head h) (Some (Elem x)) m);
          m = set_link (Head h) (Some x) m
      in set_back (Elem x) (Some (Head h)) m)"

definition TAILQ_INSERT_TAIL :: "nat \<Rightarrow> nat \<Rightarrow> qmem \<Rightarrow> qmem option" where
  "TAILQ_INSERT_TAIL h x m = do {
     let m = set_link (Elem x) None m;
     let m = set_back (Elem x) (qback m (Head h)) m;
     l \<leftarrow> qback m (Head h);
     let m = set_link l (Some x) m;
     Some (set_back (Head h) (Some (Elem x)) m) }"

definition TAILQ_INSERT_AFTER :: "nat \<Rightarrow> nat \<Rightarrow> nat \<Rightarrow> qmem \<Rightarrow> qmem" where
  "TAILQ_INSERT_AFTER h y x m =
     (let m = set_link (Elem x) (TAILQ_NEXT y m) m;
          m = (case TAILQ_NEXT x m of
                 Some n \<Rightarrow> set_back (Elem n) (Some (Elem x)) m
               | None \<Rightarrow> set_back (Head h) (Some (Elem x)) m);
          m = set_link (Elem y) (Some x) m
      in set_back (Elem x) (Some (Elem y)) m)"

definition TAILQ_INSERT_BEFORE :: "nat \<Rightarrow> nat \<Rightarrow> qmem \<Rightarrow> qmem option" where
  "TAILQ_INSERT_BEFORE y x m = do {
     let m = set_back (Elem x) (qback m (Elem y)) m;
     let m = set_link (Elem x) (Some y) m;
     l \<leftarrow> qback m (Elem y);
     let m = set_link l (Some x) m;
     Some (set_back (Elem y) (Some (Elem x)) m) }"

text \<open>\<open>QUEUE_MACRO_SCRUB\<close> is defined: the pointers of a removed entry are cleared.\<close>

definition TAILQ_REMOVE :: "nat \<Rightarrow> nat \<Rightarrow> qmem \<Rightarrow> qmem option" where
  "TAILQ_REMOVE h x m = do {
     let m = (case TAILQ_NEXT x m of
                Some n \<Rightarrow> set_back (Elem n) (qback m (Elem x)) m
              | None \<Rightarrow> set_back (Head h) (qback m (Elem x)) m);
     l \<leftarrow> qback m (Elem x);
     let m = set_link l (TAILQ_NEXT x m) m;
     let m = set_link (Elem x) None m;
     Some (set_back (Elem x) None m) }"

definition TAILQ_CONCAT :: "nat \<Rightarrow> nat \<Rightarrow> qmem \<Rightarrow> qmem option" where
  "TAILQ_CONCAT h1 h2 m =
     (case TAILQ_FIRST h2 m of
        None \<Rightarrow> Some m
      | Some f \<Rightarrow> do {
          l \<leftarrow> qback m (Head h1);
          let m = set_link l (Some f) m;
          let m = set_back (Elem f) (qback m (Head h1)) m;
          let m = set_back (Head h1) (qback m (Head h2)) m;
          Some (TAILQ_INIT h2 m) })"

text \<open>
  \<open>TAILQ_FOREACH\<close> visits the elements along the forward pointers; the fuel bounds the
  number of elements, \<open>None\<close> is a walk that is still under way.
\<close>

primrec TAILQ_FOREACH :: "nat \<Rightarrow> link \<Rightarrow> qmem \<Rightarrow> nat list option" where
  "TAILQ_FOREACH 0 l m = (if qlink m l = None then Some [] else None)"
| "TAILQ_FOREACH (Suc n) l m =
     (case qlink m l of
        None \<Rightarrow> Some []
      | Some x \<Rightarrow> map_option ((#) x) (TAILQ_FOREACH n (Elem x) m))"

subsection \<open>What a queue represents\<close>

primrec end_link :: "link \<Rightarrow> nat list \<Rightarrow> link" where
  "end_link l [] = l"
| "end_link l (x # xs) = end_link (Elem x) xs"

text \<open>A path of doubly linked elements from a link, without what follows it.\<close>

primrec path :: "qmem \<Rightarrow> link \<Rightarrow> nat list \<Rightarrow> bool" where
  "path m l [] \<longleftrightarrow> True"
| "path m l (x # xs) \<longleftrightarrow> qlink m l = Some x \<and> qback m (Elem x) = Some l \<and> path m (Elem x) xs"

definition tailq :: "qmem \<Rightarrow> nat \<Rightarrow> nat list \<Rightarrow> bool" where
  "tailq m h xs \<longleftrightarrow> distinct xs \<and> path m (Head h) xs \<and>
     qlink m (end_link (Head h) xs) = None \<and> qback m (Head h) = Some (end_link (Head h) xs)"

lemma end_link_append [simp]: "end_link l (xs @ ys) = end_link (end_link l xs) ys"
  by (induction xs arbitrary: l) simp_all

lemma end_link_cases: "end_link l xs = (if xs = [] then l else Elem (last xs))"
  by (induction xs arbitrary: l) simp_all

lemma end_link_Elem_iff [simp]:
  "end_link (Head h) xs = Elem x \<longleftrightarrow> xs \<noteq> [] \<and> x = last xs"
  "end_link (Head h) xs = Head h' \<longleftrightarrow> xs = [] \<and> h' = h"
  "Elem x = end_link (Head h) xs \<longleftrightarrow> xs \<noteq> [] \<and> x = last xs"
  "Head h' = end_link (Head h) xs \<longleftrightarrow> xs = [] \<and> h' = h"
  by (auto simp: end_link_cases)

lemma last_disjoint: "xs \<noteq> [] \<Longrightarrow> set xs \<inter> set ys = {} \<Longrightarrow> last xs \<notin> set ys"
  using last_in_set [of xs] by blast

lemma lasts_differ:
  "xs \<noteq> [] \<Longrightarrow> ys \<noteq> [] \<Longrightarrow> set xs \<inter> set ys = {} \<Longrightarrow> last ys \<noteq> last xs \<and> last xs \<noteq> last ys"
  using last_in_set [of xs] last_in_set [of ys] by fastforce

lemma path_append [simp]: "path m l (xs @ ys) \<longleftrightarrow> path m l xs \<and> path m (end_link l xs) ys"
  by (induction xs arbitrary: l) auto

text \<open>The links whose forward pointer a path reads: its start and its elements but the last.\<close>

definition path_links :: "link \<Rightarrow> nat list \<Rightarrow> link set" where
  "path_links l xs = (if xs = [] then {} else insert l (Elem ` set (butlast xs)))"

lemma path_cong:
  assumes "\<And>k. k \<in> path_links l xs \<Longrightarrow> qlink m' k = qlink m k"
    and "\<And>x. x \<in> set xs \<Longrightarrow> qback m' (Elem x) = qback m (Elem x)"
  shows "path m' l xs = path m l xs"
  using assms
proof (induction xs arbitrary: l)
  case (Cons x xs)
  have "path m' (Elem x) xs = path m (Elem x) xs"
    by (rule Cons.IH) (use Cons.prems in \<open>auto simp: path_links_def split: if_splits\<close>)
  moreover have "qlink m' l = qlink m l" "qback m' (Elem x) = qback m (Elem x)"
    using Cons.prems by (auto simp: path_links_def)
  ultimately show ?case
    by simp
qed simp

text \<open>Everything a queue reads is at its head or at one of its elements.\<close>

definition footprint :: "nat \<Rightarrow> nat list \<Rightarrow> link set" where
  "footprint h xs = insert (Head h) (Elem ` set xs)"

lemma path_links_subset: "path_links (Head h) xs \<subseteq> footprint h xs"
  by (auto simp: path_links_def footprint_def dest: in_set_butlastD)

lemma end_link_footprint: "end_link (Head h) xs \<in> footprint h xs"
  by (simp add: end_link_cases footprint_def)

lemma tailq_frame:
  assumes "\<And>k. k \<in> footprint h xs \<Longrightarrow> qlink m' k = qlink m k \<and> qback m' k = qback m k"
  shows "tailq m' h xs = tailq m h xs"
proof -
  have "path m' (Head h) xs = path m (Head h) xs"
    using assms path_links_subset [of h xs] by (intro path_cong) (auto simp: footprint_def)
  then show ?thesis
    using assms [OF end_link_footprint] assms [of "Head h"] by (simp add: tailq_def footprint_def)
qed

subsection \<open>The operations on a represented queue\<close>

lemma tailq_init: "tailq (TAILQ_INIT h m) h []"
  by (simp add: tailq_def TAILQ_INIT_def)

lemma tailq_first: "tailq m h xs \<Longrightarrow> TAILQ_FIRST h m = (case xs of [] \<Rightarrow> None | x # _ \<Rightarrow> Some x)"
  by (cases xs) (simp_all add: tailq_def TAILQ_FIRST_def)

lemma tailq_empty: "tailq m h xs \<Longrightarrow> TAILQ_EMPTY h m \<longleftrightarrow> xs = []"
  using tailq_first [of m h xs] by (simp add: TAILQ_EMPTY_def TAILQ_FIRST_def split: list.splits)

lemma tailq_next:
  "tailq m h (xs @ x # ys) \<Longrightarrow> TAILQ_NEXT x m = (case ys of [] \<Rightarrow> None | y # _ \<Rightarrow> Some y)"
  by (cases ys) (simp_all add: tailq_def TAILQ_NEXT_def)

lemma tailq_last: "tailq m h xs \<Longrightarrow> TAILQ_LAST h m = Some (if xs = [] then None else Some (last xs))"
  by (cases xs rule: rev_cases) (simp_all add: tailq_def TAILQ_LAST_def)

lemma tailq_prev:
  "tailq m h (xs @ x # ys) \<Longrightarrow> TAILQ_PREV x m = Some (if xs = [] then None else Some (last xs))"
  by (cases xs rule: rev_cases) (auto simp: tailq_def TAILQ_PREV_def)

lemma tailq_insert_head:
  assumes "tailq m h xs" and "x \<notin> set xs"
  shows "tailq (TAILQ_INSERT_HEAD h x m) h (x # xs)"
proof (cases xs)
  case Nil
  with assms show ?thesis
    by (simp add: tailq_def TAILQ_INSERT_HEAD_def TAILQ_FIRST_def TAILQ_NEXT_def)
next
  case (Cons y ys)
  then have f: "qlink m (Head h) = Some y"
    using assms by (simp add: tailq_def)
  let ?m = "TAILQ_INSERT_HEAD h x m"
  have l: "qlink ?m = (qlink m)(Elem x := Some y, Head h := Some x)"
    and b: "qback ?m = (qback m)(Elem y := Some (Elem x), Elem x := Some (Head h))"
    by (simp_all add: TAILQ_INSERT_HEAD_def TAILQ_FIRST_def TAILQ_NEXT_def f Let_def)
  have "y \<notin> set ys"
    using assms Cons by (simp add: tailq_def)
  then have "path ?m (Elem y) ys = path m (Elem y) ys"
    using assms Cons by (intro path_cong) (auto simp: l b path_links_def split: if_splits dest: in_set_butlastD)
  with assms Cons show ?thesis
    by (auto simp: tailq_def l b end_link_cases)
qed

lemma tailq_insert_tail:
  assumes "tailq m h xs" and "x \<notin> set xs"
  shows "\<exists>m'. TAILQ_INSERT_TAIL h x m = Some m' \<and> tailq m' h (xs @ [x])"
proof -
  let ?e = "end_link (Head h) xs"
  have e: "qback m (Head h) = Some ?e" "?e \<noteq> Elem x" "path m (Head h) xs" "distinct xs"
    using assms by (auto simp: tailq_def)
  define m' where "m' = set_back (Head h) (Some (Elem x))
    (set_link ?e (Some x) (set_back (Elem x) (Some ?e) (set_link (Elem x) None m)))"
  have run: "TAILQ_INSERT_TAIL h x m = Some m'"
    using e by (simp add: TAILQ_INSERT_TAIL_def Let_def m'_def)
  have l: "qlink m' = (qlink m)(Elem x := None, ?e := Some x)"
    and b: "qback m' = (qback m)(Elem x := Some ?e, Head h := Some (Elem x))"
    by (simp_all add: m'_def)
  have "path m' (Head h) xs = path m (Head h) xs"
    using assms e
    by (intro path_cong)
      (auto simp: l b path_links_def split: if_splits dest: in_set_butlastD,
        metis append_butlast_last_id distinct_butlast not_distinct_conv_prefix)
  with assms e show ?thesis
    by (simp add: run tailq_def) (simp add: l b)
qed

lemma tailq_remove:
  assumes "tailq m h (xs @ x # ys)"
  shows "\<exists>m'. TAILQ_REMOVE h x m = Some m' \<and> tailq m' h (xs @ ys)"
proof -
  let ?e = "end_link (Head h) xs"
  have d: "distinct (xs @ x # ys)" and p: "path m (Head h) xs" "path m (Elem x) ys"
    and lx: "qlink m ?e = Some x" "qback m (Elem x) = Some ?e"
    and en: "qlink m (end_link (Elem x) ys) = None" "qback m (Head h) = Some (end_link (Elem x) ys)"
    using assms by (simp_all add: tailq_def)
  have ne: "?e \<noteq> Elem x"
    using d by auto
  have xs: "path m' (Head h) xs = path m (Head h) xs"
    if "\<And>k. k \<noteq> ?e \<Longrightarrow> k \<noteq> Elem x \<Longrightarrow> qlink m' k = qlink m k"
      "\<And>z. z \<in> set xs \<Longrightarrow> qback m' (Elem z) = qback m (Elem z)" for m'
  proof (rule path_cong)
    fix k assume "k \<in> path_links (Head h) xs"
    then have "k \<noteq> ?e \<and> k \<noteq> Elem x"
      using d by (cases xs rule: rev_cases) (auto simp: path_links_def)
    then show "qlink m' k = qlink m k"
      using that by blast
  qed (use that in blast)
  show ?thesis
  proof (cases ys)
    case Nil
    let ?m = "set_back (Elem x) None (set_link (Elem x) None (set_link ?e None (set_back (Head h) (Some ?e) m)))"
    have "TAILQ_REMOVE h x m = Some ?m"
      using en lx Nil by (simp add: TAILQ_REMOVE_def TAILQ_NEXT_def Let_def)
    moreover have "path ?m (Head h) xs"
      using p d by (subst xs) auto
    ultimately show ?thesis
      using d Nil ne by (simp add: tailq_def)
  next
    case (Cons y zs)
    let ?m = "set_back (Elem x) None (set_link (Elem x) None (set_link ?e (Some y) (set_back (Elem y) (Some ?e) m)))"
    have "TAILQ_REMOVE h x m = Some ?m"
      using p lx Cons d by (simp add: TAILQ_REMOVE_def TAILQ_NEXT_def Let_def)
    moreover have "path ?m (Head h) xs"
      using p d Cons by (subst xs) auto
    moreover have "path ?m (Elem y) zs"
    proof -
      have "path ?m (Elem y) zs = path m (Elem y) zs"
        using d Cons last_disjoint [of xs zs]
        by (intro path_cong) (auto simp: path_links_def end_link_cases split: if_splits dest!: in_set_butlastD)
      then show ?thesis
        using p Cons by simp
    qed
    moreover have "qlink ?m (end_link (Elem y) zs) = None"
      using en Cons d lasts_differ [of xs zs] last_in_set [of zs] by (auto simp: end_link_cases split: if_splits)
    ultimately show ?thesis
      using d Cons ne en by (simp add: tailq_def)
  qed
qed

lemma tailq_insert_before:
  assumes "tailq m h (xs @ y # ys)" and "x \<notin> set (xs @ y # ys)"
  shows "\<exists>m'. TAILQ_INSERT_BEFORE y x m = Some m' \<and> tailq m' h (xs @ x # y # ys)"
proof -
  let ?e = "end_link (Head h) xs"
  have d: "distinct (xs @ y # ys)" and p: "path m (Head h) xs" "path m (Elem y) ys"
    and ly: "qlink m ?e = Some y" "qback m (Elem y) = Some ?e"
    and en: "qlink m (end_link (Elem y) ys) = None" "qback m (Head h) = Some (end_link (Elem y) ys)"
    using assms by (simp_all add: tailq_def)
  let ?m = "set_back (Elem y) (Some (Elem x)) (set_link ?e (Some x)
    (set_link (Elem x) (Some y) (set_back (Elem x) (Some ?e) m)))"
  have "TAILQ_INSERT_BEFORE y x m = Some ?m"
    using assms ly by (simp add: TAILQ_INSERT_BEFORE_def Let_def)
  moreover have "path ?m (Head h) xs"
  proof -
    have "path ?m (Head h) xs = path m (Head h) xs"
    proof (rule path_cong)
      fix k assume "k \<in> path_links (Head h) xs"
      then have "k \<noteq> ?e \<and> k \<noteq> Elem x"
        using d assms by (cases xs rule: rev_cases) (auto simp: path_links_def)
      then show "qlink ?m k = qlink m k"
        by simp
    qed (use assms d in auto)
    then show ?thesis
      using p by simp
  qed
  moreover have "path ?m (Elem y) ys"
  proof -
    have "path ?m (Elem y) ys = path m (Elem y) ys"
      using d assms last_disjoint [of xs ys]
      by (intro path_cong) (auto simp: path_links_def end_link_cases split: if_splits dest!: in_set_butlastD)
    then show ?thesis
      using p by simp
  qed
  moreover have "qlink ?m (end_link (Elem y) ys) = None"
    using en d assms lasts_differ [of xs ys] last_in_set [of ys] by (auto simp: end_link_cases split: if_splits)
  moreover have "?e \<noteq> Elem x"
    using assms by auto
  ultimately show ?thesis
    using d en assms by (simp add: tailq_def)
qed

lemma tailq_insert_after:
  assumes "tailq m h (xs @ y # ys)" and "x \<notin> set (xs @ y # ys)"
  shows "tailq (TAILQ_INSERT_AFTER h y x m) h (xs @ y # x # ys)"
proof -
  let ?e = "end_link (Head h) xs"
  have d: "distinct (xs @ y # ys)" and p: "path m (Head h) xs" "path m (Elem y) ys"
    and ly: "qlink m ?e = Some y" "qback m (Elem y) = Some ?e"
    and en: "qlink m (end_link (Elem y) ys) = None" "qback m (Head h) = Some (end_link (Elem y) ys)"
    using assms by (simp_all add: tailq_def)
  have e: "?e \<noteq> Elem x" "?e \<noteq> Elem y"
    using assms d by auto
  have xs: "path m' (Head h) xs"
    if "\<And>k. k \<noteq> Elem x \<Longrightarrow> k \<noteq> Elem y \<Longrightarrow> qlink m' k = qlink m k"
      "\<And>z. z \<in> set xs \<Longrightarrow> qback m' (Elem z) = qback m (Elem z)" for m'
  proof -
    have "path m' (Head h) xs = path m (Head h) xs"
    proof (rule path_cong)
      fix k assume "k \<in> path_links (Head h) xs"
      then have "k \<noteq> Elem x \<and> k \<noteq> Elem y"
        using d assms by (auto simp: path_links_def split: if_splits dest!: in_set_butlastD)
      then show "qlink m' k = qlink m k"
        using that by blast
    qed (use that in blast)
    with p show ?thesis
      by simp
  qed
  show ?thesis
  proof (cases ys)
    case Nil
    let ?m = "set_back (Elem x) (Some (Elem y)) (set_link (Elem y) (Some x)
      (set_back (Head h) (Some (Elem x)) (set_link (Elem x) None m)))"
    have "TAILQ_INSERT_AFTER h y x m = ?m"
      using en Nil assms by (simp add: TAILQ_INSERT_AFTER_def TAILQ_NEXT_def Let_def)
    moreover have "path ?m (Head h) xs"
      by (rule xs) (use assms in auto)
    ultimately show ?thesis
      using Nil d assms e ly by (simp add: tailq_def)
  next
    case (Cons z zs)
    let ?m = "set_back (Elem x) (Some (Elem y)) (set_link (Elem y) (Some x)
      (set_back (Elem z) (Some (Elem x)) (set_link (Elem x) (Some z) m)))"
    have "TAILQ_INSERT_AFTER h y x m = ?m"
      using p Cons assms by (simp add: TAILQ_INSERT_AFTER_def TAILQ_NEXT_def Let_def)
    moreover have "path ?m (Head h) xs"
      by (rule xs) (use assms d Cons in auto)
    moreover have "path ?m (Elem z) zs"
    proof -
      have "path ?m (Elem z) zs = path m (Elem z) zs"
        using d assms Cons
        by (intro path_cong) (auto simp: path_links_def split: if_splits dest!: in_set_butlastD)
      then show ?thesis
        using p Cons by simp
    qed
    moreover have "qlink ?m (end_link (Elem z) zs) = None"
      using en d assms Cons last_in_set [of zs] by (auto simp: end_link_cases split: if_splits)
    ultimately show ?thesis
      using Cons d assms e ly en by (auto simp: tailq_def)
  qed
qed

lemma tailq_concat:
  assumes "tailq m h1 xs" and "tailq m h2 ys" and "h1 \<noteq> h2" and "set xs \<inter> set ys = {}"
  shows "\<exists>m'. TAILQ_CONCAT h1 h2 m = Some m' \<and> tailq m' h1 (xs @ ys) \<and> tailq m' h2 []"
proof (cases ys)
  case Nil
  with assms show ?thesis
    by (simp add: TAILQ_CONCAT_def TAILQ_FIRST_def tailq_def)
next
  case (Cons y zs)
  let ?e = "end_link (Head h1) xs"
  have p: "path m (Head h1) xs" "path m (Elem y) zs" "qback m (Head h1) = Some ?e"
    "qlink m (Head h2) = Some y" "qback m (Head h2) = Some (end_link (Elem y) zs)"
    "qlink m (end_link (Elem y) zs) = None" "distinct (y # zs)" "distinct xs"
    using assms Cons by (simp_all add: tailq_def)
  let ?m = "TAILQ_INIT h2 (set_back (Head h1) (Some (end_link (Elem y) zs))
    (set_back (Elem y) (Some ?e) (set_link ?e (Some y) m)))"
  have "TAILQ_CONCAT h1 h2 m = Some ?m"
    using p assms by (simp add: TAILQ_CONCAT_def TAILQ_FIRST_def Let_def)
  moreover have "path ?m (Head h1) xs"
  proof -
    have "path ?m (Head h1) xs = path m (Head h1) xs"
    proof (rule path_cong)
      fix k assume "k \<in> path_links (Head h1) xs"
      then have "k \<noteq> ?e \<and> k \<noteq> Head h2"
        using p assms by (cases xs rule: rev_cases) (auto simp: path_links_def)
      then show "qlink ?m k = qlink m k"
        by (simp add: TAILQ_INIT_def)
    qed (use assms Cons in \<open>auto simp: TAILQ_INIT_def\<close>)
    then show ?thesis
      using p by simp
  qed
  moreover have "path ?m (Elem y) zs"
  proof -
    have "path ?m (Elem y) zs = path m (Elem y) zs"
      using p assms Cons last_disjoint [of xs zs]
      by (intro path_cong)
        (auto simp: TAILQ_INIT_def path_links_def end_link_cases split: if_splits dest!: in_set_butlastD)
    then show ?thesis
      using p by simp
  qed
  moreover have "?e \<noteq> Head h2"
    using assms by auto
  moreover have "qlink ?m (end_link (Elem y) zs) = None"
    using p assms Cons lasts_differ [of xs zs] last_in_set [of zs]
    by (auto simp: TAILQ_INIT_def end_link_cases split: if_splits)
  moreover have "tailq ?m h2 []"
    by (rule tailq_init)
  ultimately show ?thesis
    using assms Cons p by (auto simp: tailq_def TAILQ_INIT_def)
qed

lemma tailq_foreach_path:
  "path m l xs \<Longrightarrow> qlink m (end_link l xs) = None \<Longrightarrow> length xs \<le> n \<Longrightarrow> TAILQ_FOREACH n l m = Some xs"
proof (induction xs arbitrary: l n)
  case Nil
  then show ?case
    by (cases n) simp_all
next
  case (Cons x xs)
  then show ?case
    by (cases n) auto
qed

lemma tailq_foreach: "tailq m h xs \<Longrightarrow> length xs \<le> n \<Longrightarrow> TAILQ_FOREACH n (Head h) m = Some xs"
  by (simp add: tailq_def tailq_foreach_path)

text \<open>An operation on one queue leaves the queues with other heads and elements alone.\<close>

definition same_outside :: "link set \<Rightarrow> qmem \<Rightarrow> qmem \<Rightarrow> bool" where
  "same_outside L m m' \<longleftrightarrow> (\<forall>k. k \<notin> L \<longrightarrow> qlink m' k = qlink m k \<and> qback m' k = qback m k)"

lemma tailq_other:
  assumes "same_outside (footprint h xs) m m'" and "tailq m h' ys" and "h' \<noteq> h" and "set xs \<inter> set ys = {}"
  shows "tailq m' h' ys"
proof -
  have "tailq m' h' ys = tailq m h' ys"
    using assms by (intro tailq_frame) (auto simp: footprint_def same_outside_def)
  with assms(2) show ?thesis
    by simp
qed

lemma tailq_insert_head_outside:
  "tailq m h xs \<Longrightarrow> same_outside (footprint h (x # xs)) m (TAILQ_INSERT_HEAD h x m)"
  by (cases xs) (auto simp: TAILQ_INSERT_HEAD_def TAILQ_FIRST_def TAILQ_NEXT_def Let_def tailq_def
      same_outside_def footprint_def)

lemma tailq_insert_tail_outside:
  assumes "tailq m h xs" and "x \<notin> set xs" and "TAILQ_INSERT_TAIL h x m = Some m'"
  shows "same_outside (footprint h (x # xs)) m m'"
  using assms end_link_footprint [of h xs]
  by (auto simp: TAILQ_INSERT_TAIL_def Let_def tailq_def same_outside_def footprint_def)

lemma tailq_remove_outside:
  assumes "tailq m h (xs @ x # ys)" and "TAILQ_REMOVE h x m = Some m'"
  shows "same_outside (footprint h (xs @ x # ys)) m m'"
proof -
  have "path m (Elem x) ys" "qback m (Elem x) = Some (end_link (Head h) xs)" "qlink m (end_link (Elem x) ys) = None"
    "x \<notin> set ys"
    using assms(1) by (simp_all add: tailq_def)
  then show ?thesis
    using assms(2) end_link_footprint [of h xs]
    by (cases ys) (auto simp: TAILQ_REMOVE_def TAILQ_NEXT_def Let_def same_outside_def footprint_def)
qed

subsection \<open>\<open>STAILQ\<close>\<close>

definition STAILQ_EMPTY :: "nat \<Rightarrow> qmem \<Rightarrow> bool" where
  "STAILQ_EMPTY h m \<longleftrightarrow> qlink m (Head h) = None"

definition STAILQ_FIRST :: "nat \<Rightarrow> qmem \<Rightarrow> nat option" where
  "STAILQ_FIRST h m = qlink m (Head h)"

definition STAILQ_NEXT :: "nat \<Rightarrow> qmem \<Rightarrow> nat option" where
  "STAILQ_NEXT x m = qlink m (Elem x)"

definition STAILQ_INIT :: "nat \<Rightarrow> qmem \<Rightarrow> qmem" where
  "STAILQ_INIT h m = set_back (Head h) (Some (Head h)) (set_link (Head h) None m)"

text \<open>
  \<open>stqh_last\<close> is the address of the link in the last element; taking the offset of the
  link from it gives the element.  An address of a head has no element: the macro tests
  for the empty queue first.
\<close>

definition STAILQ_LAST :: "nat \<Rightarrow> qmem \<Rightarrow> nat option" where
  "STAILQ_LAST h m =
     (if STAILQ_EMPTY h m then None
      else (case qback m (Head h) of Some (Elem x) \<Rightarrow> Some x | _ \<Rightarrow> None))"

definition STAILQ_INSERT_HEAD :: "nat \<Rightarrow> nat \<Rightarrow> qmem \<Rightarrow> qmem" where
  "STAILQ_INSERT_HEAD h x m =
     (let m = set_link (Elem x) (STAILQ_FIRST h m) m;
          m = (if STAILQ_NEXT x m = None then set_back (Head h) (Some (Elem x)) m else m)
      in set_link (Head h) (Some x) m)"

definition STAILQ_INSERT_TAIL :: "nat \<Rightarrow> nat \<Rightarrow> qmem \<Rightarrow> qmem option" where
  "STAILQ_INSERT_TAIL h x m = do {
     let m = set_link (Elem x) None m;
     l \<leftarrow> qback m (Head h);
     let m = set_link l (Some x) m;
     Some (set_back (Head h) (Some (Elem x)) m) }"

definition STAILQ_REMOVE_HEAD :: "nat \<Rightarrow> qmem \<Rightarrow> qmem option" where
  "STAILQ_REMOVE_HEAD h m = do {
     old \<leftarrow> STAILQ_FIRST h m;
     let m = set_link (Head h) (STAILQ_NEXT old m) m;
     let m = (if STAILQ_FIRST h m = None then set_back (Head h) (Some (Head h)) m else m);
     Some (set_link (Elem old) None m) }"

definition STAILQ_REMOVE_AFTER :: "nat \<Rightarrow> nat \<Rightarrow> qmem \<Rightarrow> qmem option" where
  "STAILQ_REMOVE_AFTER h y m = do {
     old \<leftarrow> STAILQ_NEXT y m;
     let m = set_link (Elem y) (STAILQ_NEXT old m) m;
     let m = (if STAILQ_NEXT y m = None then set_back (Head h) (Some (Elem y)) m else m);
     Some (set_link (Elem old) None m) }"

text \<open>The search for the predecessor; it dereferences NULL when the element is missing.\<close>

primrec stailq_before :: "nat \<Rightarrow> nat option \<Rightarrow> nat \<Rightarrow> qmem \<Rightarrow> nat option" where
  "stailq_before 0 cur x m = None"
| "stailq_before (Suc n) cur x m =
     (case cur of
        None \<Rightarrow> None
      | Some c \<Rightarrow> if STAILQ_NEXT c m = Some x then Some c else stailq_before n (STAILQ_NEXT c m) x m)"

definition STAILQ_REMOVE :: "nat \<Rightarrow> nat \<Rightarrow> nat \<Rightarrow> qmem \<Rightarrow> qmem option" where
  "STAILQ_REMOVE n h x m =
     (if STAILQ_FIRST h m = Some x then STAILQ_REMOVE_HEAD h m
      else do { cur \<leftarrow> stailq_before n (STAILQ_FIRST h m) x m; STAILQ_REMOVE_AFTER h cur m })"

definition STAILQ_CONCAT :: "nat \<Rightarrow> nat \<Rightarrow> qmem \<Rightarrow> qmem option" where
  "STAILQ_CONCAT h1 h2 m =
     (if STAILQ_EMPTY h2 m then Some m
      else do {
        l \<leftarrow> qback m (Head h1);
        let m = set_link l (STAILQ_FIRST h2 m) m;
        let m = set_back (Head h1) (qback m (Head h2)) m;
        Some (STAILQ_INIT h2 m) })"

primrec spath :: "qmem \<Rightarrow> link \<Rightarrow> nat list \<Rightarrow> bool" where
  "spath m l [] \<longleftrightarrow> True"
| "spath m l (x # xs) \<longleftrightarrow> qlink m l = Some x \<and> spath m (Elem x) xs"

definition stailq :: "qmem \<Rightarrow> nat \<Rightarrow> nat list \<Rightarrow> bool" where
  "stailq m h xs \<longleftrightarrow> distinct xs \<and> spath m (Head h) xs \<and>
     qlink m (end_link (Head h) xs) = None \<and> qback m (Head h) = Some (end_link (Head h) xs)"

lemma spath_append [simp]: "spath m l (xs @ ys) \<longleftrightarrow> spath m l xs \<and> spath m (end_link l xs) ys"
  by (induction xs arbitrary: l) auto

lemma spath_cong:
  assumes "\<And>k. k \<in> path_links l xs \<Longrightarrow> qlink m' k = qlink m k"
  shows "spath m' l xs = spath m l xs"
  using assms
proof (induction xs arbitrary: l)
  case (Cons x xs)
  have "spath m' (Elem x) xs = spath m (Elem x) xs"
    by (rule Cons.IH) (use Cons.prems in \<open>auto simp: path_links_def split: if_splits\<close>)
  moreover have "qlink m' l = qlink m l"
    using Cons.prems by (auto simp: path_links_def)
  ultimately show ?case
    by simp
qed simp

lemma stailq_init: "stailq (STAILQ_INIT h m) h []"
  by (simp add: stailq_def STAILQ_INIT_def)

lemma stailq_first: "stailq m h xs \<Longrightarrow> STAILQ_FIRST h m = (case xs of [] \<Rightarrow> None | x # _ \<Rightarrow> Some x)"
  by (cases xs) (simp_all add: stailq_def STAILQ_FIRST_def)

lemma stailq_last: "stailq m h xs \<Longrightarrow> STAILQ_LAST h m = (if xs = [] then None else Some (last xs))"
  using stailq_first [of m h xs]
  by (cases xs rule: rev_cases) (auto simp: stailq_def STAILQ_LAST_def STAILQ_EMPTY_def STAILQ_FIRST_def split: list.splits)

lemma stailq_insert_head:
  assumes "stailq m h xs" and "x \<notin> set xs"
  shows "stailq (STAILQ_INSERT_HEAD h x m) h (x # xs)"
proof (cases xs)
  case Nil
  with assms show ?thesis
    by (simp add: stailq_def STAILQ_INSERT_HEAD_def STAILQ_FIRST_def STAILQ_NEXT_def)
next
  case (Cons y ys)
  then have f: "qlink m (Head h) = Some y"
    using assms by (simp add: stailq_def)
  let ?m = "STAILQ_INSERT_HEAD h x m"
  have l: "qlink ?m = (qlink m)(Elem x := Some y, Head h := Some x)" and b: "qback ?m = qback m"
    by (simp_all add: STAILQ_INSERT_HEAD_def STAILQ_FIRST_def STAILQ_NEXT_def f Let_def)
  have "spath ?m (Elem y) ys = spath m (Elem y) ys"
    using assms Cons by (intro spath_cong) (auto simp: l path_links_def split: if_splits dest: in_set_butlastD)
  with assms Cons show ?thesis
    by (auto simp: stailq_def l b end_link_cases)
qed

lemma stailq_insert_tail:
  assumes "stailq m h xs" and "x \<notin> set xs"
  shows "\<exists>m'. STAILQ_INSERT_TAIL h x m = Some m' \<and> stailq m' h (xs @ [x])"
proof -
  let ?e = "end_link (Head h) xs"
  have e: "qback m (Head h) = Some ?e" "?e \<noteq> Elem x" "spath m (Head h) xs" "distinct xs"
    using assms by (auto simp: stailq_def)
  let ?m = "set_back (Head h) (Some (Elem x)) (set_link ?e (Some x) (set_link (Elem x) None m))"
  have run: "STAILQ_INSERT_TAIL h x m = Some ?m"
    using e by (simp add: STAILQ_INSERT_TAIL_def Let_def)
  have "spath ?m (Head h) xs = spath m (Head h) xs"
  proof (rule spath_cong)
    fix k assume "k \<in> path_links (Head h) xs"
    then have "k \<noteq> ?e \<and> k \<noteq> Elem x"
      using assms e by (cases xs rule: rev_cases) (auto simp: path_links_def)
    then show "qlink ?m k = qlink m k"
      by simp
  qed
  with assms e run show ?thesis
    by (simp add: stailq_def)
qed

lemma stailq_remove_head:
  assumes "stailq m h (x # xs)"
  shows "\<exists>m'. STAILQ_REMOVE_HEAD h m = Some m' \<and> stailq m' h xs"
proof (cases xs)
  case Nil
  with assms show ?thesis
    by (simp add: stailq_def STAILQ_REMOVE_HEAD_def STAILQ_FIRST_def STAILQ_NEXT_def Let_def)
next
  case (Cons y ys)
  let ?m = "set_link (Elem x) None (set_link (Head h) (Some y) m)"
  have "STAILQ_REMOVE_HEAD h m = Some ?m"
    using assms Cons by (simp add: stailq_def STAILQ_REMOVE_HEAD_def STAILQ_FIRST_def STAILQ_NEXT_def Let_def)
  moreover have "spath ?m (Elem y) ys = spath m (Elem y) ys"
    using assms Cons
    by (intro spath_cong) (auto simp: stailq_def path_links_def split: if_splits dest: in_set_butlastD)
  ultimately show ?thesis
    using assms Cons by (auto simp: stailq_def end_link_cases)
qed

lemma stailq_remove_after:
  assumes "stailq m h (xs @ y # x # ys)"
  shows "\<exists>m'. STAILQ_REMOVE_AFTER h y m = Some m' \<and> stailq m' h (xs @ y # ys)"
proof -
  have d: "distinct (xs @ y # x # ys)" and p: "spath m (Head h) xs" "qlink m (end_link (Head h) xs) = Some y"
    "qlink m (Elem y) = Some x" "spath m (Elem x) ys" "qlink m (end_link (Elem x) ys) = None"
    "qback m (Head h) = Some (end_link (Elem x) ys)"
    using assms by (simp_all add: stailq_def)
  have e: "end_link (Head h) xs \<noteq> Elem y" "end_link (Head h) xs \<noteq> Elem x"
    using d by auto
  have sp: "spath m' (Head h) xs" if "\<And>k. k \<noteq> Elem x \<Longrightarrow> k \<noteq> Elem y \<Longrightarrow> qlink m' k = qlink m k" for m'
  proof -
    have "spath m' (Head h) xs = spath m (Head h) xs"
    proof (rule spath_cong)
      fix k assume "k \<in> path_links (Head h) xs"
      then have "k \<noteq> Elem x \<and> k \<noteq> Elem y"
        using d by (auto simp: path_links_def split: if_splits dest!: in_set_butlastD)
      then show "qlink m' k = qlink m k"
        using that by blast
    qed
    with p show ?thesis
      by simp
  qed
  show ?thesis
  proof (cases ys)
    case Nil
    let ?m = "set_link (Elem x) None (set_back (Head h) (Some (Elem y)) (set_link (Elem y) None m))"
    have "STAILQ_REMOVE_AFTER h y m = Some ?m"
      using p Nil by (simp add: STAILQ_REMOVE_AFTER_def STAILQ_NEXT_def Let_def)
    with Nil show ?thesis
      using d p e by (simp add: stailq_def sp)
  next
    case (Cons z zs)
    let ?m = "set_link (Elem x) None (set_link (Elem y) (Some z) m)"
    have "STAILQ_REMOVE_AFTER h y m = Some ?m"
      using p Cons d by (auto simp: STAILQ_REMOVE_AFTER_def STAILQ_NEXT_def Let_def)
    moreover have "spath ?m (Elem z) zs = spath m (Elem z) zs"
      using d Cons by (intro spath_cong) (auto simp: path_links_def split: if_splits dest!: in_set_butlastD)
    moreover have "qlink ?m (end_link (Elem z) zs) = None"
      using p d Cons last_in_set [of zs] by (auto simp: end_link_cases split: if_splits)
    moreover have "spath ?m (Head h) xs"
      by (rule sp) simp
    ultimately show ?thesis
      using d p e Cons by (auto simp: stailq_def)
  qed
qed

lemma stailq_before_path:
  assumes "spath m l (xs @ y # x # ys)" and "x \<notin> set xs" and "x \<noteq> y" and "length xs < n"
  shows "stailq_before n (qlink m l) x m = Some y"
  using assms
proof (induction xs arbitrary: l n)
  case Nil
  then show ?case
    by (cases n) (simp_all add: STAILQ_NEXT_def)
next
  case (Cons a xs)
  then obtain k where n: "n = Suc k" "length xs < k"
    by (cases n) auto
  have "stailq_before k (qlink m (Elem a)) x m = Some y"
    using Cons.prems n by (intro Cons.IH) simp_all
  moreover have "qlink m (Elem a) \<noteq> Some x"
    using Cons.prems by (cases xs) auto
  ultimately show ?case
    using Cons.prems n by (simp add: STAILQ_NEXT_def)
qed

lemma stailq_remove:
  assumes "stailq m h (xs @ x # ys)" and "length xs \<le> n"
  shows "\<exists>m'. STAILQ_REMOVE n h x m = Some m' \<and> stailq m' h (xs @ ys)"
proof (cases xs rule: rev_cases)
  case Nil
  then show ?thesis
    using assms stailq_remove_head [of m h x ys] by (simp add: STAILQ_REMOVE_def stailq_first)
next
  case (snoc zs y)
  have q: "stailq m h (zs @ y # x # ys)"
    using assms snoc by simp
  then have "spath m (Head h) (zs @ y # x # ys)" "x \<notin> set zs" "x \<noteq> y"
    by (auto simp: stailq_def)
  then have "stailq_before n (qlink m (Head h)) x m = Some y"
    using assms snoc by (intro stailq_before_path [of m "Head h" zs y x ys]) simp_all
  moreover have "qlink m (Head h) \<noteq> Some x"
    using q by (cases zs) (auto simp: stailq_def)
  ultimately show ?thesis
    using stailq_remove_after [OF q] snoc by (simp add: STAILQ_REMOVE_def STAILQ_FIRST_def)
qed

subsection \<open>The queue interface\<close>

text \<open>
  What the message, connection and buffer code relies on: the first element, insertion at
  the tail and removal of the first element.  The two loops of the callers are stated over
  it: filling a queue, and the draining loop
  \<open>while (!EMPTY(q)) { x = FIRST(q); REMOVE(q, x); ... }\<close> of \<open>msg_deinit\<close>,
  \<open>mbuf_deinit\<close>, \<open>msg_put\<close> and \<open>conn_deinit\<close>.
\<close>

locale fifo =
  fixes rep :: "'m \<Rightarrow> nat \<Rightarrow> nat list \<Rightarrow> bool"
    and init :: "nat \<Rightarrow> 'm \<Rightarrow> 'm"
    and first :: "nat \<Rightarrow> 'm \<Rightarrow> nat option"
    and enq :: "nat \<Rightarrow> nat \<Rightarrow> 'm \<Rightarrow> 'm option"
    and deq :: "nat \<Rightarrow> nat \<Rightarrow> 'm \<Rightarrow> 'm option"
  assumes rep_init: "rep (init h m) h []"
    and rep_first: "rep m h xs \<Longrightarrow> first h m = (case xs of [] \<Rightarrow> None | x # _ \<Rightarrow> Some x)"
    and rep_enq: "rep m h xs \<Longrightarrow> x \<notin> set xs \<Longrightarrow> \<exists>m'. enq h x m = Some m' \<and> rep m' h (xs @ [x])"
    and rep_deq: "rep m h (x # xs) \<Longrightarrow> \<exists>m'. deq h x m = Some m' \<and> rep m' h xs"
begin

primrec fill :: "nat \<Rightarrow> nat list \<Rightarrow> 'm \<Rightarrow> 'm option" where
  "fill h [] m = Some m"
| "fill h (x # xs) m = Option.bind (enq h x m) (fill h xs)"

primrec drain :: "nat \<Rightarrow> nat \<Rightarrow> 'm \<Rightarrow> (nat list \<times> 'm) option" where
  "drain 0 h m = None"
| "drain (Suc n) h m =
     (case first h m of
        None \<Rightarrow> Some ([], m)
      | Some x \<Rightarrow> Option.bind (deq h x m) (\<lambda>m. map_option (apfst ((#) x)) (drain n h m)))"

lemma fill_rep:
  "rep m h xs \<Longrightarrow> distinct (xs @ ys) \<Longrightarrow> \<exists>m'. fill h ys m = Some m' \<and> rep m' h (xs @ ys)"
proof (induction ys arbitrary: xs m)
  case (Cons y ys)
  then obtain m' where "enq h y m = Some m'" "rep m' h (xs @ [y])"
    using rep_enq [of m h xs y] by auto
  with Cons.IH [of m' "xs @ [y]"] Cons.prems show ?case
    by simp
qed simp

lemma drain_rep:
  "rep m h xs \<Longrightarrow> length xs < n \<Longrightarrow> \<exists>m'. drain n h m = Some (xs, m') \<and> rep m' h []"
proof (induction xs arbitrary: n m)
  case Nil
  then show ?case
    by (cases n) (simp_all add: rep_first)
next
  case (Cons x xs)
  then obtain k where n: "n = Suc k" "length xs < k"
    by (cases n) auto
  obtain m' where d: "deq h x m = Some m'" "rep m' h xs"
    using rep_deq [OF Cons.prems(1)] by blast
  then obtain m'' where "drain k h m' = Some (xs, m'')" "rep m'' h []"
    using Cons.IH n by blast
  with d n Cons.prems(1) show ?case
    by (simp add: rep_first)
qed

lemma fifo_order:
  assumes "distinct xs" and "length xs < n"
  shows "\<exists>m'. Option.bind (fill h xs (init h m)) (drain n h) = Some (xs, m')"
  using fill_rep [OF rep_init [of h m], of xs] drain_rep assms by fastforce

end

interpretation tq: fifo tailq TAILQ_INIT TAILQ_FIRST TAILQ_INSERT_TAIL TAILQ_REMOVE
proof
  fix m h x xs
  assume "tailq m h (x # xs)"
  then show "\<exists>m'. TAILQ_REMOVE h x m = Some m' \<and> tailq m' h xs"
    using tailq_remove [of m h "[]" x xs] by simp
qed (simp_all add: tailq_init tailq_first tailq_insert_tail)

interpretation sq: fifo stailq STAILQ_INIT STAILQ_FIRST STAILQ_INSERT_TAIL "\<lambda>h x. STAILQ_REMOVE_HEAD h"
  by unfold_locales (simp_all add: stailq_init stailq_first stailq_insert_tail stailq_remove_head)

interpretation sr: fifo stailq STAILQ_INIT STAILQ_FIRST STAILQ_INSERT_TAIL "STAILQ_REMOVE 0"
proof
  fix m h x xs
  assume "stailq m h (x # xs)"
  then show "\<exists>m'. STAILQ_REMOVE 0 h x m = Some m' \<and> stailq m' h xs"
    using stailq_remove [of m h "[]" x xs 0] by simp
qed (simp_all add: stailq_init stailq_first stailq_insert_tail)

text \<open>on a well-formed tail queue, \<open>TAILQ_REMOVE\<close> of any of its elements never follows a
  NULL link, leaves the other elements in their order, and does not disturb a queue with another head and
  other elements.\<close>

theorem tailq_remove_ok:
  assumes "tailq m h (xs @ x # ys)"
  shows "\<exists>m'. TAILQ_REMOVE h x m = Some m' \<and> tailq m' h (xs @ ys) \<and>
    (\<forall>h' zs. tailq m h' zs \<longrightarrow> h' \<noteq> h \<longrightarrow> set (xs @ x # ys) \<inter> set zs = {} \<longrightarrow> tailq m' h' zs)"
proof -
  obtain m' where m': "TAILQ_REMOVE h x m = Some m'" "tailq m' h (xs @ ys)"
    using tailq_remove [OF assms] by blast
  then show ?thesis
    using tailq_other [OF tailq_remove_outside [OF assms m'(1)]] by blast
qed

definition sample_qmem :: qmem where
  "sample_qmem = \<lparr>qlink = (\<lambda>l. case l of Head _ \<Rightarrow> Some 3 | Elem e \<Rightarrow> (if e = 3 then Some 5 else None)),
     qback = (\<lambda>l. case l of Head _ \<Rightarrow> Some (Elem 5) | Elem e \<Rightarrow> (if e = 3 then Some (Head 0) else Some (Elem 3)))\<rparr>"

lemma tailq_remove_ok_witness:
  "tailq sample_qmem 0 [3, 5] \<and> (\<exists>m'. TAILQ_REMOVE 0 3 sample_qmem = Some m' \<and> tailq m' 0 [5])"
proof -
  have q: "tailq sample_qmem 0 ([] @ 3 # [5])"
    by (simp add: tailq_def sample_qmem_def)
  from tailq_remove_ok [OF q] q show ?thesis
    by auto
qed

text \<open>C27: both queue families, filled with \<open>INSERT_TAIL\<close> after \<open>INIT\<close> and emptied by removing
  the first element while the queue is not empty, hand out the elements in the order of insertion.\<close>

theorem queues_are_fifo:
  assumes "distinct xs" and "length xs < n"
  shows "(\<exists>m'. Option.bind (tq.fill h xs (TAILQ_INIT h m)) (tq.drain n h) = Some (xs, m')) \<and>
    (\<exists>m'. Option.bind (sq.fill h xs (STAILQ_INIT h m)) (sq.drain n h) = Some (xs, m')) \<and>
    (\<exists>m'. Option.bind (sr.fill h xs (STAILQ_INIT h m)) (sr.drain n h) = Some (xs, m'))"
  using tq.fifo_order [OF assms] sq.fifo_order [OF assms] sr.fifo_order [OF assms] by blast

lemma queues_are_fifo_witness:
  "\<exists>m'. Option.bind (tq.fill 0 [4, 2, 9] (TAILQ_INIT 0 sample_qmem)) (tq.drain 4 0) = Some ([4, 2, 9], m')"
  using queues_are_fifo [of "[4, 2, 9]" 4 0 sample_qmem] by simp

end
