(* ===== verification/World.thy ===== *)
theory World
  imports Queue
begin

section \<open>The state of the proxy\<close>

text \<open>
  The records of \<open>gf_message.h\<close>, \<open>gf_mbuf.h\<close>, \<open>gf_connection.h\<close>, \<open>gf_server.h\<close> and
  \<open>gf_core.h\<close>, and the one state the handlers of the single threaded event loop share.
  A message, a connection and an mbuf are addressed by a number; the pools of free objects
  keep them allocated, so an address stays valid.  A pointer that may be NULL is an
  \<open>option\<close>, and a function that dereferences NULL has no result (\<open>None\<close>).  Queues are the
  lists theory \<open>Queue\<close> shows the macros to implement.

  The kernel is an oracle: the \<open>n\<close>-th system call gets the \<open>n\<close>-th result, and the calls
  and results are recorded in a trace, so that what the proxy asks of the kernel can be
  stated.  The protocol callbacks of a message and of a server connection, which no file
  of the repository defines, are the parameter \<open>ext\<close>.
\<close>

subsection \<open>System calls\<close>

datatype epoll_op = EPOLL_CTL_ADD | EPOLL_CTL_MOD | EPOLL_CTL_DEL

text \<open>An event of \<open>kqueue\<close>; the user data is a connection or NULL.\<close>

record kevent =
  ke_ident :: int
  ke_filter :: int
  ke_flags :: u16
  ke_data :: int
  ke_udata :: "nat option"

datatype sysop =
    Sys_malloc
  | Sys_gettimeofday
  | Sys_time
  | Sys_srandom
  | Sys_random
  | Sys_read int nat
  | Sys_writev int "u8 list list"
  | Sys_close int
  | Sys_socket int
  | Sys_connect int "u8 list" nat
  | Sys_bind int "u8 list" nat
  | Sys_listen int int
  | Sys_accept int
  | Sys_unlink "u8 list"
  | Sys_chmod "u8 list" nat
  | Sys_getfl int
  | Sys_setfl int int bool
  | Sys_setsockopt int string int
  | Sys_getsockopt int string
  | Sys_getaddrinfo "u8 list" int
  | Sys_getrlimit
  | Sys_epoll_create int
  | Sys_epoll_ctl int epoll_op int nat u32
  | Sys_epoll_wait int int int
  | Sys_kqueue
  | Sys_kevent int "kevent list" int int
  | Sys_port_create
  | Sys_port_associate int int u32 "nat option"
  | Sys_port_dissociate int int
  | Sys_port_getn int int int
  | Sys_send int "u8 list"
  | Sys_recv int nat
  | Sys_open "u8 list"
  | Sys_write int "u8 list"
  | Sys_dup2 int int
  | Sys_sigaction int bool
  | Sys_call string

text \<open>
  What a call returns: its value, \<open>errno\<close> when it fails, the bytes it stores (\<open>read\<close>,
  an address), a second value (\<open>tv_sec\<close>, \<open>SO_ERROR\<close>, \<open>rlim_cur\<close>, an address family),
  a third (\<open>tv_usec\<close>) and the events of \<open>epoll_wait\<close>, \<open>port_getn\<close> and \<open>kevent\<close>.
\<close>

record sysres =
  r_ret :: int
  r_errno :: int
  r_data :: "u8 list"
  r_val :: int
  r_val2 :: int
  r_events :: "(nat \<times> u32) list"
  r_kevents :: "kevent list"

subsection \<open>Messages\<close>

text \<open>A pointer to message bytes: an offset in an mbuf, or into the literal \<open>placeholder\<close>.\<close>

datatype ptr = PBuf nat nat | PLit nat

datatype msg_parse_result = MSG_PARSE_OK | MSG_PARSE_ERROR | MSG_PARSE_REPAIR | MSG_PARSE_AGAIN

record mbuf =
  b_magic :: u32
  b_pos :: nat
  b_last :: nat
  b_start :: nat
  b_end :: nat
  b_mem :: "nat \<Rightarrow> u8"

record msg =
  m_id :: u64
  m_peer :: "nat option"
  m_owner :: "nat option"
  m_tmo_key :: int
  m_tmo_data :: "nat option"
  m_mhdr :: "nat list"
  m_mlen :: u32
  m_start_ts :: int
  m_state :: int
  m_pos :: "ptr option"
  m_token :: "ptr option"
  m_parser :: "nat option"
  m_result :: msg_parse_result
  m_fragment :: "nat option"
  m_reply :: "nat option"
  m_add_auth :: "nat option"
  m_failure :: "nat option"
  m_pre_coalesce :: "nat option"
  m_post_coalesce :: "nat option"
  m_keys :: "(ptr \<times> ptr) list option"
  m_vlen :: u32
  m_end :: "ptr option"
  m_narg_start :: "ptr option"
  m_narg_end :: "ptr option"
  m_narg :: u32
  m_rnarg :: u32
  m_rlen :: u32
  m_integer :: u32
  m_frag_owner :: "nat option"
  m_nfrag :: u32
  m_nfrag_done :: u32
  m_frag_id :: u64
  m_frag_seq :: "nat option list option"
  m_err :: int
  m_error :: bool
  m_ferror :: bool
  m_request :: bool
  m_quit :: bool
  m_noreply :: bool
  m_noforward :: bool
  m_done :: bool
  m_fdone :: bool
  m_swallow :: bool
  m_redis :: bool

subsection \<open>Connections\<close>

text \<open>The functions the handler fields of a connection point to.\<close>

datatype handler =
    H_msg_recv | H_proxy_recv
  | H_req_recv_next | H_rsp_recv_next
  | H_req_recv_done | H_rsp_recv_done
  | H_msg_send
  | H_req_send_next | H_rsp_send_next
  | H_req_send_done | H_rsp_send_done
  | H_client_close | H_server_close | H_proxy_close
  | H_client_active | H_server_active
  | H_client_ref | H_server_ref | H_proxy_ref
  | H_client_unref | H_server_unref | H_proxy_unref
  | H_req_server_enqueue_imsgq | H_req_server_dequeue_imsgq
  | H_req_client_enqueue_omsgq | H_req_client_dequeue_omsgq
  | H_req_server_enqueue_omsgq | H_req_server_dequeue_omsgq
  | H_protocol nat

text \<open>
  \<open>void *owner\<close>: a pool for client and proxy connections, a server for the others.  The
  pointer \<open>addr\<close> of a connection points to the address in the \<open>info\<close> of a pool or a server.
\<close>

datatype owner = OPool nat | OServer nat nat

record conn =
  c_owner :: "owner option"
  c_sd :: int
  c_family :: int
  c_addrlen :: nat
  c_addr :: "owner option"
  c_imsg_q :: "nat list"
  c_omsg_q :: "nat list"
  c_rmsg :: "nat option"
  c_smsg :: "nat option"
  c_recv :: "handler option"
  c_recv_next :: "handler option"
  c_recv_done :: "handler option"
  c_send :: "handler option"
  c_send_next :: "handler option"
  c_send_done :: "handler option"
  c_close :: "handler option"
  c_active :: "handler option"
  c_post_connect :: "handler option"
  c_swallow_msg :: "handler option"
  c_ref :: "handler option"
  c_unref :: "handler option"
  c_enqueue_inq :: "handler option"
  c_dequeue_inq :: "handler option"
  c_enqueue_outq :: "handler option"
  c_dequeue_outq :: "handler option"
  c_recv_bytes :: u64
  c_send_bytes :: u64
  c_events :: u32
  c_err :: int
  c_recv_active :: bool
  c_recv_ready :: bool
  c_send_active :: bool
  c_send_ready :: bool
  c_client :: bool
  c_proxy :: bool
  c_connecting :: bool
  c_connected :: bool
  c_eof :: bool
  c_done :: bool
  c_redis :: bool
  c_authenticated :: bool

subsection \<open>Servers and pools\<close>

record sockinfo =
  si_family :: int
  si_addrlen :: nat
  si_addr :: "u8 list"

record continuum =
  k_index :: u32
  k_value :: u32

record server =
  s_idx :: u32
  s_pname :: "u8 list"
  s_name :: "u8 list"
  s_addrstr :: "u8 list"
  s_port :: u16
  s_weight :: u32
  s_info :: sockinfo
  s_ns_conn_q :: u32
  s_conn_q :: "nat list"
  s_next_retry :: int
  s_failure_count :: u32

datatype dist_type = DIST_KETAMA | DIST_MODULA | DIST_RANDOM

datatype hash_type =
    HASH_ONE_AT_A_TIME | HASH_MD5 | HASH_CRC16 | HASH_CRC32 | HASH_CRC32A
  | HASH_FNV1_64 | HASH_FNV1A_64 | HASH_FNV1_32 | HASH_FNV1A_32
  | HASH_HSIEH | HASH_MURMUR | HASH_JENKINS

record server_pool =
  p_idx :: u32
  p_p_conn :: "nat option"
  p_nc_conn_q :: u32
  p_c_conn_q :: "nat list"
  p_server :: "server list"
  p_ncontinuum :: u32
  p_nserver_continuum :: u32
  p_continuum :: "continuum list option"
  p_nlive_server :: u32
  p_next_rebuild :: int
  p_name :: "u8 list"
  p_addrstr :: "u8 list"
  p_port :: u16
  p_info :: sockinfo
  p_perm :: nat
  p_dist_type :: dist_type
  p_key_hash_type :: hash_type
  p_hash_tag :: "u8 list"
  p_timeout :: int
  p_backlog :: int
  p_redis_db :: int
  p_client_connections :: u32
  p_server_connections :: u32
  p_server_retry_timeout :: int
  p_server_failure_limit :: u32
  p_redis_auth :: "u8 list"
  p_require_auth :: bool
  p_auto_eject_hosts :: bool
  p_preconnect :: bool
  p_redis :: bool
  p_tcpkeepalive :: bool
  p_reuseport :: bool

subsection \<open>Statistics\<close>

datatype pool_field =
    P_client_eof | P_client_err | P_client_connections | P_server_ejects | P_forward_error | P_fragments

datatype server_field =
    S_server_eof | S_server_err | S_server_timedout | S_server_connections | S_server_ejected_at
  | S_requests | S_request_bytes | S_responses | S_response_bytes
  | S_in_queue | S_in_queue_bytes | S_out_queue | S_out_queue_bytes

record stats_data =
  sd_pool :: "nat \<Rightarrow> pool_field \<Rightarrow> int"
  sd_server :: "nat \<Rightarrow> nat \<Rightarrow> server_field \<Rightarrow> int"

record stats =
  st_current :: stats_data
  st_shadow :: stats_data
  st_sum :: stats_data
  st_aggregate :: bool
  st_updated :: bool

subsection \<open>The state\<close>

record world =
  w_os :: "nat \<Rightarrow> sysres"
  w_tick :: nat
  w_trace :: "(sysop \<times> sysres) list"
  w_errno :: int
  w_panic :: bool
  w_log_notice :: bool
  w_mbufs :: "nat \<Rightarrow> mbuf"
  w_nmbuf :: nat
  w_free_mbufq :: "nat list"
  w_nfree_mbufq :: u32
  w_mbuf_chunk_size :: nat
  w_mbuf_offset :: nat
  w_msgs :: "nat \<Rightarrow> msg"
  w_nmsg :: nat
  w_free_msgq :: "nat list"
  w_nfree_msgq :: u32
  w_msg_id :: u64
  w_frag_id :: u64
  w_tmo :: "(int \<times> nat) list"
  w_conns :: "nat \<Rightarrow> conn"
  w_nconn :: nat
  w_free_connq :: "nat list"
  w_nfree_connq :: u32
  w_ntotal_conn :: u64
  w_ncurr_conn :: u32
  w_ncurr_cconn :: u32
  w_pools :: "nat \<Rightarrow> server_pool"
  w_npool :: nat
  w_max_timeout :: int
  w_timeout :: int
  w_max_nfd :: u32
  w_max_ncconn :: u32
  w_max_nsconn :: u32
  w_ep :: int
  w_nevent :: int
  w_stats :: stats

lemma post_owner [post_intros]:
  "(\<And>p. r = OPool p \<Longrightarrow> post Q (f p)) \<Longrightarrow> (\<And>p s. r = OServer p s \<Longrightarrow> post Q (g p s)) \<Longrightarrow>
    post Q (case r of OPool p \<Rightarrow> f p | OServer p s \<Rightarrow> g p s)"
  by (cases r) simp_all

text \<open>
  The protocol callbacks: what the function a field points to does; and the text of
  \<open>strerror\<close>.
\<close>

record ext =
  x_parser :: "nat \<Rightarrow> nat \<Rightarrow> world \<Rightarrow> world option"
  x_fragment :: "nat \<Rightarrow> nat \<Rightarrow> u32 \<Rightarrow> world \<Rightarrow> (int \<times> nat list \<times> world) option"
  x_reply :: "nat \<Rightarrow> nat \<Rightarrow> world \<Rightarrow> (int \<times> world) option"
  x_add_auth :: "nat \<Rightarrow> nat \<Rightarrow> nat \<Rightarrow> world \<Rightarrow> (int \<times> world) option"
  x_failure :: "nat \<Rightarrow> nat \<Rightarrow> world \<Rightarrow> bool"
  x_pre_coalesce :: "nat \<Rightarrow> nat \<Rightarrow> world \<Rightarrow> world option"
  x_post_coalesce :: "nat \<Rightarrow> nat \<Rightarrow> world \<Rightarrow> world option"
  x_post_connect :: "nat \<Rightarrow> nat \<Rightarrow> world \<Rightarrow> world option"
  x_swallow_msg :: "nat \<Rightarrow> nat \<Rightarrow> nat \<Rightarrow> nat \<Rightarrow> world \<Rightarrow> world option"
  x_strerror :: "int \<Rightarrow> u8 list"

subsection \<open>Access\<close>

abbreviation msg :: "world \<Rightarrow> nat \<Rightarrow> msg" where "msg w m \<equiv> w_msgs w m"
abbreviation conn :: "world \<Rightarrow> nat \<Rightarrow> conn" where "conn w c \<equiv> w_conns w c"
abbreviation mbuf :: "world \<Rightarrow> nat \<Rightarrow> mbuf" where "mbuf w b \<equiv> w_mbufs w b"
abbreviation pool :: "world \<Rightarrow> nat \<Rightarrow> server_pool" where "pool w p \<equiv> w_pools w p"
abbreviation server :: "world \<Rightarrow> nat \<Rightarrow> nat \<Rightarrow> server" where "server w p s \<equiv> p_server (w_pools w p) ! s"

definition upd_msg :: "nat \<Rightarrow> (msg \<Rightarrow> msg) \<Rightarrow> world \<Rightarrow> world" where
  "upd_msg m f w = w\<lparr>w_msgs := (w_msgs w)(m := f (w_msgs w m))\<rparr>"

definition upd_conn :: "nat \<Rightarrow> (conn \<Rightarrow> conn) \<Rightarrow> world \<Rightarrow> world" where
  "upd_conn c f w = w\<lparr>w_conns := (w_conns w)(c := f (w_conns w c))\<rparr>"

definition upd_mbuf :: "nat \<Rightarrow> (mbuf \<Rightarrow> mbuf) \<Rightarrow> world \<Rightarrow> world" where
  "upd_mbuf b f w = w\<lparr>w_mbufs := (w_mbufs w)(b := f (w_mbufs w b))\<rparr>"

definition upd_pool :: "nat \<Rightarrow> (server_pool \<Rightarrow> server_pool) \<Rightarrow> world \<Rightarrow> world" where
  "upd_pool p f w = w\<lparr>w_pools := (w_pools w)(p := f (w_pools w p))\<rparr>"

definition upd_server :: "nat \<Rightarrow> nat \<Rightarrow> (server \<Rightarrow> server) \<Rightarrow> world \<Rightarrow> world" where
  "upd_server p s f = upd_pool p (\<lambda>sp. sp\<lparr>p_server := (p_server sp)[s := f (p_server sp ! s)]\<rparr>)"

text \<open>
  \<open>ASSERT\<close>: without \<open>HAVE_ASSERT_PANIC\<close> it is empty or writes to the log; with it a
  failed assertion aborts the process.
\<close>

definition ASSERT :: "bool \<Rightarrow> world \<Rightarrow> unit option" where
  "ASSERT b w = (if w_panic w \<and> \<not> b then None else Some ())"

lemma ASSERT_True [simp]: "ASSERT True w = Some ()"
  by (simp add: ASSERT_def)

lemma ASSERT_Some [simp]: "ASSERT b w = Some u \<longleftrightarrow> (w_panic w \<longrightarrow> b)"
  by (auto simp: ASSERT_def)

lemma ASSERT_no_panic: "\<not> w_panic w \<Longrightarrow> ASSERT b w = Some ()"
  by (simp add: ASSERT_def)

definition sys :: "sysop \<Rightarrow> world \<Rightarrow> sysres \<times> world" where
  "sys op w =
     (let r = w_os w (w_tick w)
      in (r, w\<lparr>w_tick := Suc (w_tick w), w_trace := w_trace w @ [(op, r)],
               w_errno := (if r_ret r < 0 then r_errno r else w_errno w)\<rparr>))"

text \<open>\<open>malloc\<close> and \<open>realloc\<close>: 0 is NULL, and the allocation then sets \<open>errno\<close>.\<close>

definition gf_alloc :: "world \<Rightarrow> bool \<times> world" where
  "gf_alloc w =
     (let (r, w) = sys Sys_malloc w
      in (r_ret r \<noteq> 0, if r_ret r = 0 then w\<lparr>w_errno := r_errno r\<rparr> else w))"

definition gf_usec_now :: "world \<Rightarrow> int \<times> world" where
  "gf_usec_now w =
     (let (r, w) = sys Sys_gettimeofday w
      in (if r_ret r < 0 then - 1 else r_val r * 1000000 + r_val2 r, w))"

text \<open>C division truncates: \<open>-1 / 1000\<close> is 0.\<close>

definition gf_msec_now :: "world \<Rightarrow> int \<times> world" where
  "gf_msec_now w = (let (t, w) = gf_usec_now w in (if t < 0 then - (- t div 1000) else t div 1000, w))"

subsection \<open>The error numbers\<close>

abbreviation (input) EINTR :: int where "EINTR \<equiv> 4"
abbreviation (input) EAGAIN :: int where "EAGAIN \<equiv> 11"
abbreviation (input) EWOULDBLOCK :: int where "EWOULDBLOCK \<equiv> 11"
abbreviation (input) EINVAL :: int where "EINVAL \<equiv> 22"
abbreviation (input) ENFILE :: int where "ENFILE \<equiv> 23"
abbreviation (input) EMFILE :: int where "EMFILE \<equiv> 24"
abbreviation (input) ECONNABORTED :: int where "ECONNABORTED \<equiv> 103"
abbreviation (input) ETIMEDOUT :: int where "ETIMEDOUT \<equiv> 110"
abbreviation (input) ECONNREFUSED :: int where "ECONNREFUSED \<equiv> 111"
abbreviation (input) EINPROGRESS :: int where "EINPROGRESS \<equiv> 115"

abbreviation (input) AF_UNIX :: int where "AF_UNIX \<equiv> 1"
abbreviation (input) AF_INET :: int where "AF_INET \<equiv> 2"
abbreviation (input) AF_INET6 :: int where "AF_INET6 \<equiv> 10"

end
