(* ===== verification/Sample.thy ===== *)
theory Sample
  imports World
begin

section \<open>A concrete state\<close>

text \<open>
  A small state the theorems are applied to: one pool with two servers, one client and one
  server connection, and a kernel whose every call returns the same result.
\<close>

definition sample_res :: "int \<Rightarrow> u8 list \<Rightarrow> sysres" where
  "sample_res ret bs = \<lparr>r_ret = ret, r_errno = 0, r_data = bs, r_val = 10, r_val2 = 0, r_events = [], r_kevents = []\<rparr>"

definition sample_server :: "u32 \<Rightarrow> u32 \<Rightarrow> server" where
  "sample_server i weight = \<lparr>s_idx = i, s_pname = [47, 97], s_name = [97], s_addrstr = [47, 97], s_port = 11211,
     s_weight = weight, s_info = \<lparr>si_family = 1, si_addrlen = 110, si_addr = [47, 97]\<rparr>, s_ns_conn_q = 0, s_conn_q = [],
     s_next_retry = 0, s_failure_count = 0\<rparr>"

definition sample_pool :: server_pool where
  "sample_pool = \<lparr>p_idx = 0, p_p_conn = None, p_nc_conn_q = 0, p_c_conn_q = [],
     p_server = [sample_server 0 1, sample_server 1 2], p_ncontinuum = 0, p_nserver_continuum = 0,
     p_continuum = None, p_nlive_server = 0, p_next_rebuild = 0, p_name = [112], p_addrstr = [104], p_port = 22121,
     p_info = \<lparr>si_family = 2, si_addrlen = 16, si_addr = []\<rparr>, p_perm = 0, p_dist_type = DIST_MODULA,
     p_key_hash_type = HASH_FNV1A_32, p_hash_tag = [123, 125], p_timeout = 400, p_backlog = 512, p_redis_db = 0,
     p_client_connections = 0, p_server_connections = 1, p_server_retry_timeout = 2000000,
     p_server_failure_limit = 2, p_redis_auth = [], p_require_auth = False, p_auto_eject_hosts = True, p_preconnect = False,
     p_redis = True, p_tcpkeepalive = False, p_reuseport = False\<rparr>"

definition sample_mbuf :: mbuf where
  "sample_mbuf = \<lparr>b_magic = 0xdeadbeef, b_pos = 0, b_last = 0, b_start = 0, b_end = 16, b_mem = (\<lambda>_. 0)\<rparr>"

definition sample_msg :: msg where
  "sample_msg = \<lparr>m_id = 0, m_peer = None, m_owner = None, m_tmo_key = 0, m_tmo_data = None, m_mhdr = [], m_mlen = 0,
     m_start_ts = 0, m_state = 0, m_pos = None, m_token = None, m_parser = None, m_result = MSG_PARSE_OK,
     m_fragment = None, m_reply = None, m_add_auth = None, m_failure = None, m_pre_coalesce = None,
     m_post_coalesce = None, m_keys = None, m_vlen = 0, m_end = None, m_narg_start = None, m_narg_end = None,
     m_narg = 0, m_rnarg = 0, m_rlen = 0, m_integer = 0, m_frag_owner = None, m_nfrag = 0, m_nfrag_done = 0,
     m_frag_id = 0, m_frag_seq = None, m_err = 0, m_error = False, m_ferror = False, m_request = False,
     m_quit = False, m_noreply = False, m_noforward = False, m_done = False, m_fdone = False, m_swallow = False,
     m_redis = False\<rparr>"

definition sample_conn :: conn where
  "sample_conn = \<lparr>c_owner = None, c_sd = 5, c_family = 0, c_addrlen = 0, c_addr = None, c_imsg_q = [], c_omsg_q = [],
     c_rmsg = None, c_smsg = None, c_recv = None, c_recv_next = None, c_recv_done = None, c_send = None,
     c_send_next = None, c_send_done = None, c_close = None, c_active = None, c_post_connect = None,
     c_swallow_msg = None, c_ref = None, c_unref = None, c_enqueue_inq = None, c_dequeue_inq = None,
     c_enqueue_outq = None, c_dequeue_outq = None, c_recv_bytes = 0, c_send_bytes = 0, c_events = 0, c_err = 0,
     c_recv_active = True, c_recv_ready = True, c_send_active = False, c_send_ready = True, c_client = False,
     c_proxy = False, c_connecting = False, c_connected = False, c_eof = False, c_done = False, c_redis = True,
     c_authenticated = False\<rparr>"

definition sample_stats_data :: stats_data where
  "sample_stats_data = \<lparr>sd_pool = (\<lambda>_ _. 0), sd_server = (\<lambda>_ _ _. 0)\<rparr>"

definition sample_world :: "(nat \<Rightarrow> sysres) \<Rightarrow> world" where
  "sample_world os = \<lparr>w_os = os, w_tick = 0, w_trace = [], w_errno = 0, w_panic = False, w_log_notice = False,
     w_mbufs = (\<lambda>_. sample_mbuf), w_nmbuf = 0, w_free_mbufq = [], w_nfree_mbufq = 0, w_mbuf_chunk_size = 64,
     w_mbuf_offset = 16, w_msgs = (\<lambda>_. sample_msg), w_nmsg = 0, w_free_msgq = [], w_nfree_msgq = 0, w_msg_id = 0,
     w_frag_id = 0, w_tmo = [], w_conns = (\<lambda>_. sample_conn), w_nconn = 0, w_free_connq = [], w_nfree_connq = 0,
     w_ntotal_conn = 0, w_ncurr_conn = 0, w_ncurr_cconn = 0, w_pools = (\<lambda>_. sample_pool), w_npool = 1,
     w_max_timeout = 30000, w_timeout = 30000, w_max_nfd = 1024, w_max_ncconn = 900, w_max_nsconn = 3,
     w_ep = 4, w_nevent = 1024,
     w_stats = \<lparr>st_current = sample_stats_data, st_shadow = sample_stats_data, st_sum = sample_stats_data,
       st_aggregate = False, st_updated = False\<rparr>\<rparr>"

definition sample_ext :: ext where
  "sample_ext = \<lparr>x_parser = (\<lambda>_ _. Some), x_fragment = (\<lambda>_ _ _ w. Some (0, [], w)), x_reply = (\<lambda>_ _ w. Some (0, w)),
     x_add_auth = (\<lambda>_ _ _ w. Some (0, w)), x_failure = (\<lambda>_ _ _. False), x_pre_coalesce = (\<lambda>_ _. Some),
     x_post_coalesce = (\<lambda>_ _. Some), x_post_connect = (\<lambda>_ _. Some), x_swallow_msg = (\<lambda>_ _ _ _. Some),
     x_strerror = (\<lambda>_. [69, 82, 82])\<rparr>"

definition w0 :: world where
  "w0 = sample_world (\<lambda>_. sample_res 1 [120])"

lemma w0_simps [simp]:
  "w_os w0 = (\<lambda>_. sample_res 1 [120])" "w_tick w0 = 0" "w_trace w0 = []" "w_panic w0 = False"
  "w_pools w0 = (\<lambda>_. sample_pool)" "w_conns w0 = (\<lambda>_. sample_conn)" "w_msgs w0 = (\<lambda>_. sample_msg)"
  "w_mbufs w0 = (\<lambda>_. sample_mbuf)" "w_mbuf_offset w0 = 16"
  by (simp_all add: w0_def sample_world_def)

end
