(* ===== verification/Hash_Crc.thy ===== *)
theory Hash_Crc
  imports Prelude
begin

section \<open>Cyclic redundancy checks (\<open>hashkit/gf_crc16.c\<close>, \<open>hashkit/gf_crc32.c\<close>)\<close>

text \<open>
  The table-driven key hashers, with their tables as in the source, and the bitwise
  shift-register definitions of the same polynomials.  The tables are shown to hold the
  register's value for every byte, and the hashers to compute the checksum those registers
  define: all of it for the 32 bit variants, the low 16 bits for \<open>hash_crc16\<close>, whose
  accumulator is a \<open>uint32_t\<close> that is never reduced to 16 bits.
\<close>

unbundle bit_operations_syntax

subsection \<open>\<open>gf_crc16.c\<close>\<close>

definition crc16tab :: "u16 list" where
  "crc16tab = [
    0x0000, 0x1021, 0x2042, 0x3063, 0x4084, 0x50a5, 0x60c6, 0x70e7,
    0x8108, 0x9129, 0xa14a, 0xb16b, 0xc18c, 0xd1ad, 0xe1ce, 0xf1ef,
    0x1231, 0x0210, 0x3273, 0x2252, 0x52b5, 0x4294, 0x72f7, 0x62d6,
    0x9339, 0x8318, 0xb37b, 0xa35a, 0xd3bd, 0xc39c, 0xf3ff, 0xe3de,
    0x2462, 0x3443, 0x0420, 0x1401, 0x64e6, 0x74c7, 0x44a4, 0x5485,
    0xa56a, 0xb54b, 0x8528, 0x9509, 0xe5ee, 0xf5cf, 0xc5ac, 0xd58d,
    0x3653, 0x2672, 0x1611, 0x0630, 0x76d7, 0x66f6, 0x5695, 0x46b4,
    0xb75b, 0xa77a, 0x9719, 0x8738, 0xf7df, 0xe7fe, 0xd79d, 0xc7bc,
    0x48c4, 0x58e5, 0x6886, 0x78a7, 0x0840, 0x1861, 0x2802, 0x3823,
    0xc9cc, 0xd9ed, 0xe98e, 0xf9af, 0x8948, 0x9969, 0xa90a, 0xb92b,
    0x5af5, 0x4ad4, 0x7ab7, 0x6a96, 0x1a71, 0x0a50, 0x3a33, 0x2a12,
    0xdbfd, 0xcbdc, 0xfbbf, 0xeb9e, 0x9b79, 0x8b58, 0xbb3b, 0xab1a,
    0x6ca6, 0x7c87, 0x4ce4, 0x5cc5, 0x2c22, 0x3c03, 0x0c60, 0x1c41,
    0xedae, 0xfd8f, 0xcdec, 0xddcd, 0xad2a, 0xbd0b, 0x8d68, 0x9d49,
    0x7e97, 0x6eb6, 0x5ed5, 0x4ef4, 0x3e13, 0x2e32, 0x1e51, 0x0e70,
    0xff9f, 0xefbe, 0xdfdd, 0xcffc, 0xbf1b, 0xaf3a, 0x9f59, 0x8f78,
    0x9188, 0x81a9, 0xb1ca, 0xa1eb, 0xd10c, 0xc12d, 0xf14e, 0xe16f,
    0x1080, 0x00a1, 0x30c2, 0x20e3, 0x5004, 0x4025, 0x7046, 0x6067,
    0x83b9, 0x9398, 0xa3fb, 0xb3da, 0xc33d, 0xd31c, 0xe37f, 0xf35e,
    0x02b1, 0x1290, 0x22f3, 0x32d2, 0x4235, 0x5214, 0x6277, 0x7256,
    0xb5ea, 0xa5cb, 0x95a8, 0x8589, 0xf56e, 0xe54f, 0xd52c, 0xc50d,
    0x34e2, 0x24c3, 0x14a0, 0x0481, 0x7466, 0x6447, 0x5424, 0x4405,
    0xa7db, 0xb7fa, 0x8799, 0x97b8, 0xe75f, 0xf77e, 0xc71d, 0xd73c,
    0x26d3, 0x36f2, 0x0691, 0x16b0, 0x6657, 0x7676, 0x4615, 0x5634,
    0xd94c, 0xc96d, 0xf90e, 0xe92f, 0x99c8, 0x89e9, 0xb98a, 0xa9ab,
    0x5844, 0x4865, 0x7806, 0x6827, 0x18c0, 0x08e1, 0x3882, 0x28a3,
    0xcb7d, 0xdb5c, 0xeb3f, 0xfb1e, 0x8bf9, 0x9bd8, 0xabbb, 0xbb9a,
    0x4a75, 0x5a54, 0x6a37, 0x7a16, 0x0af1, 0x1ad0, 0x2ab3, 0x3a92,
    0xfd2e, 0xed0f, 0xdd6c, 0xcd4d, 0xbdaa, 0xad8b, 0x9de8, 0x8dc9,
    0x7c26, 0x6c07, 0x5c64, 0x4c45, 0x3ca2, 0x2c83, 0x1ce0, 0x0cc1,
    0xef1f, 0xff3e, 0xcf5d, 0xdf7c, 0xaf9b, 0xbfba, 0x8fd9, 0x9ff8,
    0x6e17, 0x7e36, 0x4e55, 0x5e74, 0x2e93, 0x3eb2, 0x0ed1, 0x1ef0]"

definition crc16_step :: "u32 \<Rightarrow> u8 \<Rightarrow> u32" where
  "crc16_step crc c =
     push_bit 8 crc XOR ucast (crc16tab ! unat ((drop_bit 8 crc XOR char_u32 c) AND 0x00ff))"

definition hash_crc16 :: "u8 list \<Rightarrow> u32" where
  "hash_crc16 key = foldl crc16_step 0 key"

subsection \<open>\<open>gf_crc32.c\<close>\<close>

definition crc32tab :: "u32 list" where
  "crc32tab = [
    0x00000000, 0x77073096, 0xee0e612c, 0x990951ba,
    0x076dc419, 0x706af48f, 0xe963a535, 0x9e6495a3,
    0x0edb8832, 0x79dcb8a4, 0xe0d5e91e, 0x97d2d988,
    0x09b64c2b, 0x7eb17cbd, 0xe7b82d07, 0x90bf1d91,
    0x1db71064, 0x6ab020f2, 0xf3b97148, 0x84be41de,
    0x1adad47d, 0x6ddde4eb, 0xf4d4b551, 0x83d385c7,
    0x136c9856, 0x646ba8c0, 0xfd62f97a, 0x8a65c9ec,
    0x14015c4f, 0x63066cd9, 0xfa0f3d63, 0x8d080df5,
    0x3b6e20c8, 0x4c69105e, 0xd56041e4, 0xa2677172,
    0x3c03e4d1, 0x4b04d447, 0xd20d85fd, 0xa50ab56b,
    0x35b5a8fa, 0x42b2986c, 0xdbbbc9d6, 0xacbcf940,
    0x32d86ce3, 0x45df5c75, 0xdcd60dcf, 0xabd13d59,
    0x26d930ac, 0x51de003a, 0xc8d75180, 0xbfd06116,
    0x21b4f4b5, 0x56b3c423, 0xcfba9599, 0xb8bda50f,
    0x2802b89e, 0x5f058808, 0xc60cd9b2, 0xb10be924,
    0x2f6f7c87, 0x58684c11, 0xc1611dab, 0xb6662d3d,
    0x76dc4190, 0x01db7106, 0x98d220bc, 0xefd5102a,
    0x71b18589, 0x06b6b51f, 0x9fbfe4a5, 0xe8b8d433,
    0x7807c9a2, 0x0f00f934, 0x9609a88e, 0xe10e9818,
    0x7f6a0dbb, 0x086d3d2d, 0x91646c97, 0xe6635c01,
    0x6b6b51f4, 0x1c6c6162, 0x856530d8, 0xf262004e,
    0x6c0695ed, 0x1b01a57b, 0x8208f4c1, 0xf50fc457,
    0x65b0d9c6, 0x12b7e950, 0x8bbeb8ea, 0xfcb9887c,
    0x62dd1ddf, 0x15da2d49, 0x8cd37cf3, 0xfbd44c65,
    0x4db26158, 0x3ab551ce, 0xa3bc0074, 0xd4bb30e2,
    0x4adfa541, 0x3dd895d7, 0xa4d1c46d, 0xd3d6f4fb,
    0x4369e96a, 0x346ed9fc, 0xad678846, 0xda60b8d0,
    0x44042d73, 0x33031de5, 0xaa0a4c5f, 0xdd0d7cc9,
    0x5005713c, 0x270241aa, 0xbe0b1010, 0xc90c2086,
    0x5768b525, 0x206f85b3, 0xb966d409, 0xce61e49f,
    0x5edef90e, 0x29d9c998, 0xb0d09822, 0xc7d7a8b4,
    0x59b33d17, 0x2eb40d81, 0xb7bd5c3b, 0xc0ba6cad,
    0xedb88320, 0x9abfb3b6, 0x03b6e20c, 0x74b1d29a,
    0xead54739, 0x9dd277af, 0x04db2615, 0x73dc1683,
    0xe3630b12, 0x94643b84, 0x0d6d6a3e, 0x7a6a5aa8,
    0xe40ecf0b, 0x9309ff9d, 0x0a00ae27, 0x7d079eb1,
    0xf00f9344, 0x8708a3d2, 0x1e01f268, 0x6906c2fe,
    0xf762575d, 0x806567cb, 0x196c3671, 0x6e6b06e7,
    0xfed41b76, 0x89d32be0, 0x10da7a5a, 0x67dd4acc,
    0xf9b9df6f, 0x8ebeeff9, 0x17b7be43, 0x60b08ed5,
    0xd6d6a3e8, 0xa1d1937e, 0x38d8c2c4, 0x4fdff252,
    0xd1bb67f1, 0xa6bc5767, 0x3fb506dd, 0x48b2364b,
    0xd80d2bda, 0xaf0a1b4c, 0x36034af6, 0x41047a60,
    0xdf60efc3, 0xa867df55, 0x316e8eef, 0x4669be79,
    0xcb61b38c, 0xbc66831a, 0x256fd2a0, 0x5268e236,
    0xcc0c7795, 0xbb0b4703, 0x220216b9, 0x5505262f,
    0xc5ba3bbe, 0xb2bd0b28, 0x2bb45a92, 0x5cb36a04,
    0xc2d7ffa7, 0xb5d0cf31, 0x2cd99e8b, 0x5bdeae1d,
    0x9b64c2b0, 0xec63f226, 0x756aa39c, 0x026d930a,
    0x9c0906a9, 0xeb0e363f, 0x72076785, 0x05005713,
    0x95bf4a82, 0xe2b87a14, 0x7bb12bae, 0x0cb61b38,
    0x92d28e9b, 0xe5d5be0d, 0x7cdcefb7, 0x0bdbdf21,
    0x86d3d2d4, 0xf1d4e242, 0x68ddb3f8, 0x1fda836e,
    0x81be16cd, 0xf6b9265b, 0x6fb077e1, 0x18b74777,
    0x88085ae6, 0xff0f6a70, 0x66063bca, 0x11010b5c,
    0x8f659eff, 0xf862ae69, 0x616bffd3, 0x166ccf45,
    0xa00ae278, 0xd70dd2ee, 0x4e048354, 0x3903b3c2,
    0xa7672661, 0xd06016f7, 0x4969474d, 0x3e6e77db,
    0xaed16a4a, 0xd9d65adc, 0x40df0b66, 0x37d83bf0,
    0xa9bcae53, 0xdebb9ec5, 0x47b2cf7f, 0x30b5ffe9,
    0xbdbdf21c, 0xcabac28a, 0x53b39330, 0x24b4a3a6,
    0xbad03605, 0xcdd70693, 0x54de5729, 0x23d967bf,
    0xb3667a2e, 0xc4614ab8, 0x5d681b02, 0x2a6f2b94,
    0xb40bbe37, 0xc30c8ea1, 0x5a05df1b, 0x2d02ef8d]"

text \<open>
  \<open>hash_crc32\<close> indexes the table with \<open>(crc ^ (uint64_t)key[x]) & 0xff\<close>, a 64 bit
  expression over a sign-extended \<open>char\<close>; \<open>hash_crc32a\<close> reads the key through a
  \<open>uint8_t\<close> pointer.
\<close>

definition crc32_step :: "u32 \<Rightarrow> u8 \<Rightarrow> u32" where
  "crc32_step crc c =
     drop_bit 8 crc XOR crc32tab ! unat ((ucast crc XOR char_u64 c) AND 0xff :: u64)"

definition hash_crc32 :: "u8 list \<Rightarrow> u32" where
  "hash_crc32 key = (drop_bit 16 (NOT (foldl crc32_step (- 1) key))) AND 0x7fff"

definition crc32a_step :: "u32 \<Rightarrow> u8 \<Rightarrow> u32" where
  "crc32a_step crc c = crc32tab ! unat ((crc XOR ucast c) AND 0xFF) XOR drop_bit 8 crc"

definition hash_crc32a :: "u8 list \<Rightarrow> u32" where
  "hash_crc32a key = foldl crc32a_step (NOT 0) key XOR NOT 0"

subsection \<open>Shift-register reference\<close>

text \<open>
  One bit of the 16 bit register of the polynomial \<open>0x1021\<close>, most significant bit first,
  and of the reflected 32 bit register of \<open>0xEDB88320\<close>; a byte is eight of them.
\<close>

definition crc16_bit :: "u16 \<Rightarrow> u16" where
  "crc16_bit r = (if bit r 15 then push_bit 1 r XOR 0x1021 else push_bit 1 r)"

definition crc16_ref_byte :: "u16 \<Rightarrow> u8 \<Rightarrow> u16" where
  "crc16_ref_byte r c = (crc16_bit ^^ 8) (r XOR push_bit 8 (ucast c))"

definition crc16_ref :: "u8 list \<Rightarrow> u16" where
  "crc16_ref key = foldl crc16_ref_byte 0 key"

definition crc32_bit :: "u32 \<Rightarrow> u32" where
  "crc32_bit r = (if bit r 0 then drop_bit 1 r XOR 0xEDB88320 else drop_bit 1 r)"

definition crc32_ref_byte :: "u32 \<Rightarrow> u8 \<Rightarrow> u32" where
  "crc32_ref_byte r c = (crc32_bit ^^ 8) (r XOR ucast c)"

definition crc32_ref :: "u8 list \<Rightarrow> u32" where
  "crc32_ref key = NOT (foldl crc32_ref_byte (- 1) key)"

subsection \<open>The tables hold the register's values\<close>

text \<open>
  The register steps are linear over exclusive or, so the table of a linear map doubles
  from one power of two to the next (\<open>linear_table\<close>); the tables of the source are
  checked against eight doublings.
\<close>

definition xor_grow :: "'a::len word list \<Rightarrow> 'a word \<Rightarrow> 'a word list" where
  "xor_grow xs b = xs @ map (\<lambda>x. x XOR b) xs"

lemma funpow_xor_linear:
  fixes f :: "'a::len word \<Rightarrow> 'a word"
  assumes "\<And>x y. f (x XOR y) = f x XOR f y"
  shows "(f ^^ n) (x XOR y) = (f ^^ n) x XOR (f ^^ n) y"
  by (induction n) (simp_all add: assms)

lemma word_of_nat_power_add:
  assumes "m < 2 ^ k"
  shows "(word_of_nat (2 ^ k + m) :: 'a::len word) = word_of_nat m XOR word_of_nat (2 ^ k)"
proof -
  have "(word_of_nat m :: 'a word) + word_of_nat (2 ^ k) = word_of_nat m XOR word_of_nat (2 ^ k)"
  proof (rule disjunctive_add_eq_xor, rule bit_eqI)
    fix n
    assume "possible_bit TYPE('a word) n"
    have "\<not> bit m k"
      using assms by (simp add: bit_iff_odd)
    then show "bit ((word_of_nat m :: 'a word) AND word_of_nat (2 ^ k)) n = bit (0 :: 'a word) n"
      by (auto simp: bit_simps)
  qed
  then show ?thesis
    by (simp add: add.commute)
qed

lemma linear_table:
  fixes f :: "'a::len word \<Rightarrow> 'a word"
  assumes "\<And>x y. f (x XOR y) = f x XOR f y"
  shows "map (\<lambda>n. f (word_of_nat n)) [0..<2 ^ Suc k]
    = xor_grow (map (\<lambda>n. f (word_of_nat n)) [0..<2 ^ k]) (f (word_of_nat (2 ^ k)))"
proof -
  have split: "[0..<2 ^ Suc k] = [0..<2 ^ k] @ map (\<lambda>m. 2 ^ k + m) [0..<2 ^ k]"
  proof -
    have "[0..<2 ^ k + 2 ^ k] = [0..<2 ^ k] @ [2 ^ k..<2 ^ k + 2 ^ k]"
      by (rule upt_add_eq_append) simp
    moreover have "[2 ^ k..<2 ^ k + 2 ^ k] = map (\<lambda>m. 2 ^ k + m) [0..<2 ^ k]"
      by (simp add: map_add_upt add.commute)
    ultimately show ?thesis
      by (simp add: mult_2)
  qed
  have "map (\<lambda>n. f (word_of_nat n)) (map (\<lambda>m. 2 ^ k + m) [0..<2 ^ k])
    = map (\<lambda>x. x XOR f (word_of_nat (2 ^ k))) (map (\<lambda>n. f (word_of_nat n)) [0..<2 ^ k])"
    by (auto simp only: map_map o_def map_eq_conv set_upt atLeastLessThan_iff
        word_of_nat_power_add assms)
  then show ?thesis
    by (simp only: split map_append xor_grow_def)
qed

lemma crc32_bit_xor: "crc32_bit (x XOR y) = crc32_bit x XOR crc32_bit y"
  by (rule bit_word_eqI) (auto simp: crc32_bit_def bit_simps)

lemma crc16_bit_xor: "crc16_bit (x XOR y) = crc16_bit x XOR crc16_bit y"
  by (rule bit_word_eqI) (auto simp: crc16_bit_def bit_simps)

lemmas crc32_byte_xor = funpow_xor_linear [where f = crc32_bit, OF crc32_bit_xor]
lemmas crc16_byte_xor = funpow_xor_linear [where f = crc16_bit, OF crc16_bit_xor]

lemma push_bit_xor_linear:
  "(crc16_bit ^^ 8) (push_bit 8 (x XOR y)) = (crc16_bit ^^ 8) (push_bit 8 x) XOR (crc16_bit ^^ 8) (push_bit 8 y)"
  by (simp add: push_bit_xor crc16_byte_xor)

lemma map_256_doublings:
  fixes f :: "'a::len word \<Rightarrow> 'a word"
  assumes "\<And>x y. f (x XOR y) = f x XOR f y"
  shows "map (\<lambda>n. f (word_of_nat n)) [0..<256]
    = xor_grow (xor_grow (xor_grow (xor_grow (xor_grow (xor_grow (xor_grow (xor_grow [f 0]
        (f 1)) (f 2)) (f 4)) (f 8)) (f 16)) (f 32)) (f 64)) (f 128)"
proof -
  note L = linear_table [where f = f, OF assms]
  show ?thesis
    using L [of 0] L [of 1] L [of 2] L [of 3] L [of 4] L [of 5] L [of 6] L [of 7]
    by (simp add: upt_rec [of 0 "Suc 0"] del: upt_Suc)
qed

lemma funpow_8: "(f ^^ 8) x = f (f (f (f (f (f (f (f x)))))))"
  by (simp add: eval_nat_numeral)

lemma crc32_basis:
  "(crc32_bit ^^ 8) 0 = 0"
  "(crc32_bit ^^ 8) 1 = 0x77073096"
  "(crc32_bit ^^ 8) 2 = 0xee0e612c"
  "(crc32_bit ^^ 8) 4 = 0x076dc419"
  "(crc32_bit ^^ 8) 8 = 0x0edb8832"
  "(crc32_bit ^^ 8) 16 = 0x1db71064"
  "(crc32_bit ^^ 8) 32 = 0x3b6e20c8"
  "(crc32_bit ^^ 8) 64 = 0x76dc4190"
  "(crc32_bit ^^ 8) 128 = 0xedb88320"
  by (simp_all add: crc32_bit_def funpow_8)

lemma crc16_basis:
  "(crc16_bit ^^ 8) (push_bit 8 0) = 0"
  "(crc16_bit ^^ 8) (push_bit 8 1) = 0x1021"
  "(crc16_bit ^^ 8) (push_bit 8 2) = 0x2042"
  "(crc16_bit ^^ 8) (push_bit 8 4) = 0x4084"
  "(crc16_bit ^^ 8) (push_bit 8 8) = 0x8108"
  "(crc16_bit ^^ 8) (push_bit 8 16) = 0x1231"
  "(crc16_bit ^^ 8) (push_bit 8 32) = 0x2462"
  "(crc16_bit ^^ 8) (push_bit 8 64) = 0x48c4"
  "(crc16_bit ^^ 8) (push_bit 8 128) = 0x9188"
  by (simp_all add: crc16_bit_def funpow_8)

lemma crc32tab_eq: "crc32tab = map (\<lambda>n. (crc32_bit ^^ 8) (word_of_nat n)) [0..<256]"
  by (simp only: map_256_doublings [where f = "crc32_bit ^^ 8", OF crc32_byte_xor] crc32_basis)
    (simp add: xor_grow_def crc32tab_def)

lemma crc16tab_eq: "crc16tab = map (\<lambda>n. (crc16_bit ^^ 8) (push_bit 8 (word_of_nat n))) [0..<256]"
  by (simp only: map_256_doublings [where f = "\<lambda>x. (crc16_bit ^^ 8) (push_bit 8 x)", OF push_bit_xor_linear] crc16_basis)
    (simp add: xor_grow_def crc16tab_def)

lemma ff_mask: "(0xff :: 'a::len word) = mask 8"
  by (simp add: mask_eq_exp_minus_1)

lemma unat_and_ff: "unat (x AND mask 8 :: u32) < 256"
  using take_bit_nat_less_exp [of 8 "unat x"]
  by (simp add: take_bit_eq_mask [symmetric] unsigned_take_bit_eq)

lemma nth_crc32tab: "crc32tab ! unat (x AND mask 8 :: u32) = (crc32_bit ^^ 8) (x AND mask 8)"
  using unat_and_ff [of x] by (simp add: crc32tab_eq)

lemma nth_crc16tab:
  "crc16tab ! unat (x AND mask 8 :: u32) = (crc16_bit ^^ 8) (push_bit 8 (ucast (x AND mask 8)))"
proof -
  have "(word_of_nat (unat (x AND mask 8)) :: u16) = ucast (x AND mask 8)"
    by (simp add: unsigned_ucast_eq word_of_nat_eq_iff)
  then show ?thesis
    using unat_and_ff [of x] by (simp add: crc16tab_eq)
qed

lemma crc32_bit_low_zero:
  assumes "\<And>i. i < k \<Longrightarrow> \<not> bit r i"
  shows "(crc32_bit ^^ k) r = drop_bit k r"
  using assms
proof (induction k)
  case (Suc k)
  then have "\<not> bit (drop_bit k r) 0"
    by (simp add: bit_simps)
  with Suc show ?case
    by (simp add: crc32_bit_def)
qed simp

lemma crc16_bit_high_zero:
  assumes "\<And>i. i < k \<Longrightarrow> \<not> bit r (15 - i)" and "k \<le> 15"
  shows "(crc16_bit ^^ k) r = push_bit k r"
  using assms
proof (induction k)
  case (Suc k)
  then have "\<not> bit (push_bit k r) 15"
    by (auto simp: bit_simps)
  with Suc show ?case
    by (simp add: crc16_bit_def)
qed simp

lemma crc32a_step_ref: "crc32a_step r c = crc32_ref_byte r c"
proof -
  let ?x = "r XOR ucast c"
  have "?x = (?x AND mask 8) XOR (?x AND NOT (mask 8))"
    by (rule bit_word_eqI) (auto simp: bit_simps)
  then have "(crc32_bit ^^ 8) ?x = (crc32_bit ^^ 8) (?x AND mask 8) XOR (crc32_bit ^^ 8) (?x AND NOT (mask 8))"
    by (metis crc32_byte_xor)
  also have "(crc32_bit ^^ 8) (?x AND NOT (mask 8)) = drop_bit 8 (?x AND NOT (mask 8))"
    by (rule crc32_bit_low_zero) (simp add: bit_simps)
  also have "drop_bit 8 (?x AND NOT (mask 8)) = drop_bit 8 r"
    by (rule bit_word_eqI) (auto simp: bit_simps dest: bit_imp_le_length)
  finally show ?thesis
    by (simp add: crc32a_step_def crc32_ref_byte_def nth_crc32tab ff_mask)
qed

lemma crc32_step_ref: "crc32_step r c = crc32_ref_byte r c"
proof -
  have "(ucast r XOR char_u64 c) AND 0xff = ucast ((r XOR ucast c) AND 0xff)"
    unfolding ff_mask by (rule bit_word_eqI) (auto simp: bit_simps)
  moreover have "take_bit 64 (unat ((r XOR ucast c) AND 0xff)) = unat ((r XOR ucast c) AND 0xff)"
    using unat_and_ff [of "r XOR ucast c"] by (simp add: ff_mask take_bit_nat_eq_self_iff)
  ultimately show ?thesis
    by (simp add: crc32_step_def crc32a_step_ref [symmetric] crc32a_step_def unsigned_ucast_eq xor.commute)
qed

lemma crc16_step_low: "ucast (crc16_step r c) = crc16_ref_byte (ucast r) c"
proof -
  let ?x = "drop_bit 8 r XOR char_u32 c"
  let ?y = "ucast r XOR push_bit 8 (ucast c) :: u16"
  have split: "?y = push_bit 8 (ucast (?x AND mask 8)) XOR (?y AND mask 8)"
    by (rule bit_word_eqI) (auto simp: bit_simps)
  have "(crc16_bit ^^ 8) ?y = (crc16_bit ^^ 8) (push_bit 8 (ucast (?x AND mask 8))) XOR (crc16_bit ^^ 8) (?y AND mask 8)"
    by (subst split) (rule crc16_byte_xor)
  also have "(crc16_bit ^^ 8) (?y AND mask 8) = push_bit 8 (?y AND mask 8)"
    by (rule crc16_bit_high_zero) (auto simp: bit_simps)
  also have "push_bit 8 (?y AND mask 8) = push_bit 8 (ucast r)"
    by (rule bit_word_eqI) (auto simp: bit_simps)
  finally show ?thesis
    by (simp add: crc16_step_def crc16_ref_byte_def nth_crc16tab ff_mask xor.commute)
      (rule bit_word_eqI, auto simp: bit_simps)
qed

subsection \<open>The hashers compute the register's checksum\<close>

text \<open>C29: the table driven CRC hashers compute the bitwise shift register definitions:
  \<open>hash_crc32a\<close> is the reflected CRC-32, \<open>hash_crc32\<close> is 15 bits from its upper half, as libmemcached has
  it, and the low 16 bits of \<open>hash_crc16\<close> are the CRC-16/XMODEM of the key.\<close>

theorem crc_hashers_eq_ref:
  "hash_crc32a key = crc32_ref key \<and>
   hash_crc32 key = drop_bit 16 (crc32_ref key) AND 0x7fff \<and>
   ucast (hash_crc16 key) = crc16_ref key"
proof (intro conjI)
  show "hash_crc32a key = crc32_ref key"
    by (simp add: hash_crc32a_def crc32_ref_def crc32a_step_ref [abs_def])
  show "hash_crc32 key = drop_bit 16 (crc32_ref key) AND 0x7fff"
    by (simp add: hash_crc32_def crc32_ref_def crc32_step_ref [abs_def])
  show "ucast (hash_crc16 key) = crc16_ref key"
    unfolding hash_crc16_def crc16_ref_def
    by (subst foldl_homomorphism [where g = crc16_ref_byte]) (simp_all add: crc16_step_low)
qed

end
