(* ===== verification/Hash_Mix.thy ===== *)
theory Hash_Mix
  imports Prelude
begin

section \<open>Multiplicative and mixing key hashers (\<open>hashkit/\<close>)\<close>

text \<open>
  \<open>gf_fnv.c\<close>, \<open>gf_one_at_a_time.c\<close>, \<open>gf_hsieh.c\<close>, \<open>gf_murmur.c\<close> and
  \<open>gf_jenkins.c\<close>.  A key is the memory it points to, a function from offsets to bytes, and
  its length: the word-wise hashers read it two and four bytes at a time, and
  \<open>hash_jenkins\<close> picks its read width by the alignment of the address and reads whole
  words past the end of the key.  The lemmas show that every hasher depends on the key's
  bytes alone, and that the three read widths of \<open>hash_jenkins\<close> agree.
\<close>

unbundle bit_operations_syntax

type_synonym memory = "nat \<Rightarrow> u8"

definition bytes :: "memory \<Rightarrow> nat \<Rightarrow> u8 list" where
  "bytes m n = map m [0..<n]"

lemma bytes_cong: "(\<And>i. i < n \<Longrightarrow> m i = m' i) \<Longrightarrow> bytes m n = bytes m' n"
  by (simp add: bytes_def)

subsection \<open>\<open>gf_fnv.c\<close>\<close>

definition FNV_64_INIT :: u64 where "FNV_64_INIT = 0xcbf29ce484222325"
definition FNV_64_PRIME :: u64 where "FNV_64_PRIME = 0x100000001b3"
definition FNV_32_INIT :: u32 where "FNV_32_INIT = 2166136261"
definition FNV_32_PRIME :: u32 where "FNV_32_PRIME = 16777619"

definition hash_fnv1_64 :: "u8 list \<Rightarrow> u32" where
  "hash_fnv1_64 key =
     ucast (foldl (\<lambda>hash c. (hash * FNV_64_PRIME) XOR char_u64 c) FNV_64_INIT key)"

definition hash_fnv1a_64 :: "u8 list \<Rightarrow> u32" where
  "hash_fnv1a_64 key =
     foldl (\<lambda>hash c. (hash XOR char_u32 c) * ucast FNV_64_PRIME) (ucast FNV_64_INIT) key"

definition hash_fnv1_32 :: "u8 list \<Rightarrow> u32" where
  "hash_fnv1_32 key =
     foldl (\<lambda>hash c. (hash * FNV_32_PRIME) XOR char_u32 c) FNV_32_INIT key"

definition hash_fnv1a_32 :: "u8 list \<Rightarrow> u32" where
  "hash_fnv1a_32 key =
     foldl (\<lambda>hash c. (hash XOR char_u32 c) * FNV_32_PRIME) FNV_32_INIT key"

text \<open>
  \<open>hash_fnv1_64\<close> carries 64 bits and truncates at the end; the same value comes out of
  a 32 bit accumulator, the form \<open>hash_fnv1a_64\<close> is written in.
\<close>

lemma ucast_mult_down: "(ucast (x * y :: u64) :: u32) = ucast x * ucast y"
proof -
  have "(a mod 2 ^ 64 * (b mod 2 ^ 64)) mod 2 ^ 32 = (a * b) mod 2 ^ 32" for a b :: int
  proof -
    have "(a mod 2 ^ 64 * (b mod 2 ^ 64)) mod 2 ^ 32
      = ((a mod 2 ^ 64 mod 2 ^ 32) * (b mod 2 ^ 64 mod 2 ^ 32)) mod 2 ^ 32"
      by (simp only: mod_mult_eq)
    also have "\<dots> = ((a mod 2 ^ 32) * (b mod 2 ^ 32)) mod 2 ^ 32"
      by (simp add: mod_mod_cancel)
    finally show ?thesis
      by (simp only: mod_mult_eq)
  qed
  then show ?thesis
    by transfer (simp add: take_bit_eq_mod mod_mod_cancel)
qed

lemma ucast_xor_down: "(ucast (x XOR char_u64 c) :: u32) = ucast x XOR char_u32 c"
  by (rule bit_word_eqI) (auto simp: bit_simps)

lemma hash_fnv1_64_truncated:
  "hash_fnv1_64 key =
     foldl (\<lambda>hash c. (hash * ucast FNV_64_PRIME) XOR char_u32 c) (ucast FNV_64_INIT) key"
  unfolding hash_fnv1_64_def
  by (rule foldl_homomorphism [where h = ucast]) (simp add: ucast_xor_down ucast_mult_down)

subsection \<open>\<open>gf_one_at_a_time.c\<close>\<close>

definition one_at_a_time_step :: "u32 \<Rightarrow> u8 \<Rightarrow> u32" where
  "one_at_a_time_step value c =
     (let value = value + char_u32 c;
          value = value + push_bit 10 value
      in value XOR drop_bit 6 value)"

definition hash_one_at_a_time :: "u8 list \<Rightarrow> u32" where
  "hash_one_at_a_time key =
     (let value = foldl one_at_a_time_step 0 key;
          value = value + push_bit 3 value;
          value = value XOR drop_bit 11 value
      in value + push_bit 15 value)"

subsection \<open>\<open>gf_hsieh.c\<close>\<close>

text \<open>
  The portable \<open>get16bits\<close> (the target is not i386): two bytes, low byte first.
\<close>

definition get16bits :: "memory \<Rightarrow> nat \<Rightarrow> u32" where
  "get16bits m d = push_bit 8 (ucast (m (d + 1))) + ucast (m d)"

fun hsieh_loop :: "memory \<Rightarrow> nat \<Rightarrow> nat \<Rightarrow> u32 \<Rightarrow> u32" where
  "hsieh_loop m key 0 hash = hash"
| "hsieh_loop m key (Suc n) hash =
     (let hash = hash + get16bits m key;
          tmp = push_bit 11 (get16bits m (key + 2)) XOR hash;
          hash = push_bit 16 hash XOR tmp;
          hash = hash + drop_bit 11 hash
      in hsieh_loop m (key + 4) n hash)"

definition hsieh_tail :: "memory \<Rightarrow> nat \<Rightarrow> nat \<Rightarrow> u32 \<Rightarrow> u32" where
  "hsieh_tail m key rem hash =
     (if rem = 3 then
        (let hash = hash + get16bits m key;
             hash = hash XOR push_bit 16 hash;
             hash = hash XOR push_bit 18 (char_u32 (m (key + 2)))
         in hash + drop_bit 11 hash)
      else if rem = 2 then
        (let hash = hash + get16bits m key;
             hash = hash XOR push_bit 11 hash
         in hash + drop_bit 17 hash)
      else if rem = 1 then
        (let hash = hash + ucast (m key);
             hash = hash XOR push_bit 10 hash
         in hash + drop_bit 1 hash)
      else hash)"

definition hash_hsieh :: "memory \<Rightarrow> nat \<Rightarrow> u32" where
  "hash_hsieh m key_length =
     (if key_length = 0 then 0
      else
        (let rem = key_length mod 4;
             n = key_length div 4;
             hash = hsieh_loop m 0 n 0;
             hash = hsieh_tail m (4 * n) rem hash;
             hash = hash XOR push_bit 3 hash;
             hash = hash + drop_bit 5 hash;
             hash = hash XOR push_bit 4 hash;
             hash = hash + drop_bit 17 hash;
             hash = hash XOR push_bit 25 hash
         in hash + drop_bit 6 hash))"

subsection \<open>\<open>gf_murmur.c\<close>\<close>

text \<open>A little-endian load of a word, as \<open>*(unsigned int *)data\<close> and \<open>k[i]\<close> do.\<close>

definition load16 :: "memory \<Rightarrow> nat \<Rightarrow> u32" where
  "load16 m d = ucast (m d) OR push_bit 8 (ucast (m (d + 1)))"

definition load32 :: "memory \<Rightarrow> nat \<Rightarrow> u32" where
  "load32 m d = ucast (m d) OR push_bit 8 (ucast (m (d + 1)))
     OR push_bit 16 (ucast (m (d + 2))) OR push_bit 24 (ucast (m (d + 3)))"

definition murmur_m :: u32 where "murmur_m = 0x5bd1e995"

fun murmur_loop :: "memory \<Rightarrow> nat \<Rightarrow> nat \<Rightarrow> u32 \<Rightarrow> u32 \<times> nat \<times> nat" where
  "murmur_loop m data len h =
     (if 4 \<le> len then
        (let k = load32 m data;
             k = k * murmur_m;
             k = k XOR drop_bit 24 k;
             k = k * murmur_m;
             h = h * murmur_m;
             h = h XOR k
         in murmur_loop m (data + 4) (len - 4) h)
      else (h, data, len))"

declare murmur_loop.simps [simp del]

definition murmur_tail :: "memory \<Rightarrow> nat \<Rightarrow> nat \<Rightarrow> u32 \<Rightarrow> u32" where
  "murmur_tail m data len h =
     (let h = (if len = 3 then h XOR push_bit 16 (ucast (m (data + 2))) else h);
          h = (if len = 3 \<or> len = 2 then h XOR push_bit 8 (ucast (m (data + 1))) else h)
      in if len = 3 \<or> len = 2 \<or> len = 1 then (h XOR ucast (m data)) * murmur_m else h)"

definition hash_murmur :: "memory \<Rightarrow> nat \<Rightarrow> u32" where
  "hash_murmur m len =
     (let seed = 0xdeadbeef * word_of_nat len;
          h = seed XOR word_of_nat len;
          (h, data, n) = murmur_loop m 0 len h;
          h = murmur_tail m data n h;
          h = h XOR drop_bit 13 h;
          h = h * murmur_m
      in h XOR drop_bit 15 h)"

subsection \<open>\<open>gf_jenkins.c\<close>\<close>

definition rot :: "u32 \<Rightarrow> nat \<Rightarrow> u32" where
  "rot x k = push_bit k x OR drop_bit (32 - k) x"

type_synonym abc = "u32 \<times> u32 \<times> u32"

definition jenkins_mix :: "abc \<Rightarrow> abc" where
  "jenkins_mix s = (case s of (a, b, c) \<Rightarrow>
     let a = a - c; a = a XOR rot c 4; c = c + b;
         b = b - a; b = b XOR rot a 6; a = a + c;
         c = c - b; c = c XOR rot b 8; b = b + a;
         a = a - c; a = a XOR rot c 16; c = c + b;
         b = b - a; b = b XOR rot a 19; a = a + c;
         c = c - b; c = c XOR rot b 4; b = b + a
     in (a, b, c))"

definition jenkins_final :: "abc \<Rightarrow> abc" where
  "jenkins_final s = (case s of (a, b, c) \<Rightarrow>
     let c = c XOR b; c = c - rot b 14;
         a = a XOR c; a = a - rot c 11;
         b = b XOR a; b = b - rot a 25;
         c = c XOR b; c = c - rot b 16;
         a = a XOR c; a = a - rot c 4;
         b = b XOR a; b = b - rot a 14;
         c = c XOR b; c = c - rot b 24
     in (a, b, c))"

text \<open>
  The three read widths: whole words when the address is a multiple of four, half words when
  it is even, bytes otherwise.  Each has its block loop and its last, partial block; the
  offset \<open>k\<close> is in bytes.
\<close>

fun jenkins_loop32 :: "memory \<Rightarrow> nat \<Rightarrow> nat \<Rightarrow> abc \<Rightarrow> abc \<times> nat \<times> nat" where
  "jenkins_loop32 m k len (a, b, c) =
     (if 12 < len then
        jenkins_loop32 m (k + 12) (len - 12)
          (jenkins_mix (a + load32 m k, b + load32 m (k + 4), c + load32 m (k + 8)))
      else ((a, b, c), k, len))"

definition jenkins_last32 :: "memory \<Rightarrow> nat \<Rightarrow> nat \<Rightarrow> abc \<Rightarrow> abc" where
  "jenkins_last32 m k len s = (case s of (a, b, c) \<Rightarrow>
     let k0 = load32 m k; k1 = load32 m (k + 4); k2 = load32 m (k + 8) in
     if len = 12 then (a + k0, b + k1, c + k2)
     else if len = 11 then (a + k0, b + k1, c + (k2 AND 0xffffff))
     else if len = 10 then (a + k0, b + k1, c + (k2 AND 0xffff))
     else if len = 9 then (a + k0, b + k1, c + (k2 AND 0xff))
     else if len = 8 then (a + k0, b + k1, c)
     else if len = 7 then (a + k0, b + (k1 AND 0xffffff), c)
     else if len = 6 then (a + k0, b + (k1 AND 0xffff), c)
     else if len = 5 then (a + k0, b + (k1 AND 0xff), c)
     else if len = 4 then (a + k0, b, c)
     else if len = 3 then (a + (k0 AND 0xffffff), b, c)
     else if len = 2 then (a + (k0 AND 0xffff), b, c)
     else if len = 1 then (a + (k0 AND 0xff), b, c)
     else (a, b, c))"

fun jenkins_loop16 :: "memory \<Rightarrow> nat \<Rightarrow> nat \<Rightarrow> abc \<Rightarrow> abc \<times> nat \<times> nat" where
  "jenkins_loop16 m k len (a, b, c) =
     (if 12 < len then
        jenkins_loop16 m (k + 12) (len - 12)
          (jenkins_mix (a + (load16 m k + push_bit 16 (load16 m (k + 2))),
                        b + (load16 m (k + 4) + push_bit 16 (load16 m (k + 6))),
                        c + (load16 m (k + 8) + push_bit 16 (load16 m (k + 10)))))
      else ((a, b, c), k, len))"

definition jenkins_last16 :: "memory \<Rightarrow> nat \<Rightarrow> nat \<Rightarrow> abc \<Rightarrow> abc" where
  "jenkins_last16 m k len s = (case s of (a, b, c) \<Rightarrow>
     let k0 = load16 m k; k1 = load16 m (k + 2); k2 = load16 m (k + 4);
         k3 = load16 m (k + 6); k4 = load16 m (k + 8); k5 = load16 m (k + 10);
         w0 = k0 + push_bit 16 k1; w1 = k2 + push_bit 16 k3 in
     if len = 12 then (a + w0, b + w1, c + (k4 + push_bit 16 k5))
     else if len = 11 then (a + w0, b + w1, c + push_bit 16 (ucast (m (k + 10))) + k4)
     else if len = 10 then (a + w0, b + w1, c + k4)
     else if len = 9 then (a + w0, b + w1, c + ucast (m (k + 8)))
     else if len = 8 then (a + w0, b + w1, c)
     else if len = 7 then (a + w0, b + push_bit 16 (ucast (m (k + 6))) + k2, c)
     else if len = 6 then (a + w0, b + k2, c)
     else if len = 5 then (a + w0, b + ucast (m (k + 4)), c)
     else if len = 4 then (a + w0, b, c)
     else if len = 3 then (a + push_bit 16 (ucast (m (k + 2))) + k0, b, c)
     else if len = 2 then (a + k0, b, c)
     else if len = 1 then (a + ucast (m k), b, c)
     else (a, b, c))"

definition k8 :: "memory \<Rightarrow> nat \<Rightarrow> nat \<Rightarrow> u32" where
  "k8 m i s = push_bit s (ucast (m i))"

fun jenkins_loop8 :: "memory \<Rightarrow> nat \<Rightarrow> nat \<Rightarrow> abc \<Rightarrow> abc \<times> nat \<times> nat" where
  "jenkins_loop8 m k len (a, b, c) =
     (if 12 < len then
        jenkins_loop8 m (k + 12) (len - 12)
          (jenkins_mix
            (a + k8 m k 0 + k8 m (k + 1) 8 + k8 m (k + 2) 16 + k8 m (k + 3) 24,
             b + k8 m (k + 4) 0 + k8 m (k + 5) 8 + k8 m (k + 6) 16 + k8 m (k + 7) 24,
             c + k8 m (k + 8) 0 + k8 m (k + 9) 8 + k8 m (k + 10) 16 + k8 m (k + 11) 24))
      else ((a, b, c), k, len))"

text \<open>The cases of the byte-wise switch all fall through, from \<open>case 12\<close> down.\<close>

definition jenkins_last8 :: "memory \<Rightarrow> nat \<Rightarrow> nat \<Rightarrow> abc \<Rightarrow> abc" where
  "jenkins_last8 m k len s = (case s of (a, b, c) \<Rightarrow>
     let add = (\<lambda>n x i sh. if n \<le> len then x + k8 m (k + i) sh else x);
         c = add 12 c 11 24; c = add 11 c 10 16; c = add 10 c 9 8; c = add 9 c 8 0;
         b = add 8 b 7 24; b = add 7 b 6 16; b = add 6 b 5 8; b = add 5 b 4 0;
         a = add 4 a 3 24; a = add 3 a 2 16; a = add 2 a 1 8; a = add 1 a 0 0
     in (a, b, c))"

definition JENKINS_INITVAL :: u32 where "JENKINS_INITVAL = 13"

definition hash_jenkins :: "nat \<Rightarrow> memory \<Rightarrow> nat \<Rightarrow> u32" where
  "hash_jenkins addr m len =
     (let i = 0xdeadbeef + word_of_nat len + JENKINS_INITVAL;
          (s, last) =
            (if addr mod 4 = 0 then
               (let (s, k, n) = jenkins_loop32 m 0 len (i, i, i) in (jenkins_last32 m k n s, n))
             else if addr mod 2 = 0 then
               (let (s, k, n) = jenkins_loop16 m 0 len (i, i, i) in (jenkins_last16 m k n s, n))
             else
               (let (s, k, n) = jenkins_loop8 m 0 len (i, i, i) in (jenkins_last8 m k n s, n)))
      in case s of (a, b, c) \<Rightarrow>
           if last = 0 then c else (case jenkins_final (a, b, c) of (_, _, c) \<Rightarrow> c))"

declare jenkins_loop32.simps [simp del] jenkins_loop16.simps [simp del] jenkins_loop8.simps [simp del]

subsection \<open>The read widths agree\<close>

lemma k8_0: "k8 m i 0 = ucast (m i)"
  by (simp add: k8_def)

lemma le_sum2: "ucast x0 + push_bit 8 (ucast x1) = (ucast x0 OR push_bit 8 (ucast x1) :: u32)"
  for x0 x1 :: u8
  by (rule disjunctive_add_eq_or, rule bit_word_eqI)
    (auto simp: bit_simps dest: bit_imp_le_length)

lemma le_sum3:
  "ucast x0 + push_bit 8 (ucast x1) + push_bit 16 (ucast x2)
    = (ucast x0 OR push_bit 8 (ucast x1) OR push_bit 16 (ucast x2) :: u32)"
  for x0 x1 x2 :: u8
  unfolding le_sum2
  by (subst disjunctive_add_eq_or, rule bit_word_eqI)
    (auto simp: bit_simps or.assoc dest: bit_imp_le_length)

lemma le_sum4:
  "ucast x0 + push_bit 8 (ucast x1) + push_bit 16 (ucast x2) + push_bit 24 (ucast x3)
    = (ucast x0 OR push_bit 8 (ucast x1) OR push_bit 16 (ucast x2) OR push_bit 24 (ucast x3) :: u32)"
  for x0 x1 x2 x3 :: u8
  unfolding le_sum3
  by (subst disjunctive_add_eq_or, rule bit_word_eqI)
    (auto simp: bit_simps or.assoc dest: bit_imp_le_length)

lemma load16_sum: "load16 m d = k8 m d 0 + k8 m (d + 1) 8"
  by (simp add: load16_def k8_def le_sum2)

lemma load32_sum: "load32 m d = k8 m d 0 + k8 m (d + 1) 8 + k8 m (d + 2) 16 + k8 m (d + 3) 24"
  by (simp add: load32_def k8_def le_sum4)

lemma load32_halves: "load16 m d + push_bit 16 (load16 m (d + 2)) = load32 m d"
proof -
  have "push_bit 16 (load16 m (d + 2)) = push_bit 16 (ucast (m (d + 2))) OR push_bit 24 (ucast (m (d + 3)))"
    by (simp add: load16_def push_bit_or push_bit_push_bit numeral_3_eq_3)
  then show ?thesis
    unfolding load16_def load32_def
    by (subst disjunctive_add_eq_or, simp_all add: or.assoc)
      (rule bit_word_eqI, auto simp: bit_simps dest: bit_imp_le_length)
qed

lemma byte_masks:
  "(0xff :: u32) = mask 8" "(0xffff :: u32) = mask 16" "(0xffffff :: u32) = mask 24"
  by (simp_all add: mask_eq_exp_minus_1)

lemma load32_and_ff: "load32 m d AND 0xff = k8 m d 0"
  unfolding load32_def k8_def byte_masks
  by (rule bit_word_eqI) (auto simp: bit_simps dest: bit_imp_le_length)

lemma load32_and_ffff: "load32 m d AND 0xffff = load16 m d"
  unfolding load32_def load16_def byte_masks
  by (rule bit_word_eqI) (auto simp: bit_simps dest: bit_imp_le_length)

lemma load32_and_ffffff: "load32 m d AND 0xffffff = load16 m d + k8 m (d + 2) 16"
  unfolding load32_def load16_def k8_def byte_masks le_sum2 [symmetric] le_sum3
  by (rule bit_word_eqI) (auto simp: bit_simps dest: bit_imp_le_length)

lemma offset_commute: "k + numeral w = numeral w + (k :: nat)"
  by (rule add.commute)

lemma load32_halves_at:
  "load16 m k + push_bit 16 (load16 m (Suc (Suc k))) = load32 m k"
  "load16 m (k + 4) + push_bit 16 (load16 m (k + 6)) = load32 m (k + 4)"
  "load16 m (k + 8) + push_bit 16 (load16 m (k + 10)) = load32 m (k + 8)"
  using load32_halves [of m k] load32_halves [of m "k + 4"] load32_halves [of m "k + 8"]
  by (simp_all add: offset_commute [of k])

lemma jenkins_loop16_eq: "jenkins_loop16 m k len s = jenkins_loop32 m k len s"
proof (induction m k len s rule: jenkins_loop32.induct)
  case (1 m k len a b c)
  then show ?case
    by (simp add: jenkins_loop16.simps [of m k] jenkins_loop32.simps [of m k] load32_halves_at)
qed

text \<open>The bytes of the three words of a block, summed into an accumulator.\<close>

lemma load32_acc:
  "x + k8 m k 0 + k8 m (k + 1) 8 + k8 m (k + 2) 16 + k8 m (k + 3) 24 = x + load32 m k"
  "x + k8 m (k + 4) 0 + k8 m (k + 5) 8 + k8 m (k + 6) 16 + k8 m (k + 7) 24 = x + load32 m (k + 4)"
  "x + k8 m (k + 8) 0 + k8 m (k + 9) 8 + k8 m (k + 10) 16 + k8 m (k + 11) 24 = x + load32 m (k + 8)"
  using load32_sum [of m k] load32_sum [of m "k + 4"] load32_sum [of m "k + 8"]
  by (simp_all add: offset_commute [of k] add.assoc [where 'a = u32])

lemma jenkins_loop8_eq: "jenkins_loop8 m k len s = jenkins_loop32 m k len s"
proof (induction m k len s rule: jenkins_loop32.induct)
  case (1 m k len a b c)
  have "jenkins_loop8 m k len (a, b, c) =
     (if 12 < len then
        jenkins_loop8 m (k + 12) (len - 12)
          (jenkins_mix (a + load32 m k, b + load32 m (k + 4), c + load32 m (k + 8)))
      else ((a, b, c), k, len))"
    by (subst jenkins_loop8.simps) (simp only: load32_acc)
  with 1 show ?case
    by (simp add: jenkins_loop32.simps [of m k])
qed

lemma small_len: "len \<le> 12 \<Longrightarrow> len \<in> {0, 1, 2, 3, 4, 5, 6, 7, 8, 9, 10, 11, 12 :: nat}"
  by (simp add: numeral_eq_Suc le_Suc_eq)

text \<open>The last block, its offset moved into the memory.\<close>

lemma load_shift:
  "load32 (\<lambda>i. m (k + i)) n = load32 m (k + n)" "load16 (\<lambda>i. m (k + i)) n = load16 m (k + n)"
  "k8 (\<lambda>i. m (k + i)) n sh = k8 m (k + n) sh"
  by (simp_all add: load32_def load16_def k8_def add.assoc)

lemma jenkins_last_shift:
  "jenkins_last32 m k len s = jenkins_last32 (\<lambda>i. m (k + i)) 0 len s"
  "jenkins_last16 m k len s = jenkins_last16 (\<lambda>i. m (k + i)) 0 len s"
  "jenkins_last8 m k len s = jenkins_last8 (\<lambda>i. m (k + i)) 0 len s"
  by (simp_all only: jenkins_last32_def jenkins_last16_def jenkins_last8_def load_shift
      add_0_left add_0_right)

lemma last_block_words:
  "load32 m 0 = k8 m 0 0 + k8 m 1 8 + k8 m 2 16 + k8 m 3 24"
  "load32 m 4 = k8 m 4 0 + k8 m 5 8 + k8 m 6 16 + k8 m 7 24"
  "load32 m 8 = k8 m 8 0 + k8 m 9 8 + k8 m 10 16 + k8 m 11 24"
  "load16 m 0 = k8 m 0 0 + k8 m 1 8" "load16 m 4 = k8 m 4 0 + k8 m 5 8"
  "load16 m 8 = k8 m 8 0 + k8 m 9 8"
  by (simp_all add: load32_sum load16_sum numeral_2_eq_2)

lemma last_block_parts:
  "load32 m i AND 0xff = k8 m i 0" "load32 m i AND 0xffff = load16 m i"
  "load32 m 0 AND 0xffffff = load16 m 0 + k8 m 2 16"
  "load32 m 4 AND 0xffffff = load16 m 4 + k8 m 6 16"
  "load32 m 8 AND 0xffffff = load16 m 8 + k8 m 10 16"
  by (simp_all add: load32_and_ff load32_and_ffff load32_and_ffffff numeral_2_eq_2)

lemma last_block_halves:
  "load16 m 0 + push_bit 16 (load16 m 2) = load32 m 0"
  "load16 m 4 + push_bit 16 (load16 m 6) = load32 m 4"
  "load16 m 8 + push_bit 16 (load16 m 10) = load32 m 8"
  using load32_halves [of m 0] load32_halves [of m 4] load32_halves [of m 8]
  by (simp_all add: numeral_2_eq_2)

lemma jenkins_last16_0:
  assumes "len \<le> 12"
  shows "jenkins_last16 m 0 len (a, b, c) = jenkins_last32 m 0 len (a, b, c)"
  unfolding jenkins_last16_def jenkins_last32_def Let_def prod.case
    add_0_left last_block_parts last_block_halves k8_0
  using small_len [OF assms]
  by (elim insertE emptyE) (simp_all add: k8_def add.commute add.left_commute del: One_nat_def)

lemma jenkins_last8_0:
  assumes "len \<le> 12"
  shows "jenkins_last8 m 0 len (a, b, c) = jenkins_last32 m 0 len (a, b, c)"
  unfolding jenkins_last8_def jenkins_last32_def Let_def prod.case add_0_left last_block_parts
  unfolding last_block_words
  using small_len [OF assms]
  by (elim insertE emptyE) (simp_all add: add.commute add.left_commute del: One_nat_def)

lemma jenkins_last_eq:
  assumes "len \<le> 12"
  shows "jenkins_last16 m k len s = jenkins_last32 m k len s"
    and "jenkins_last8 m k len s = jenkins_last32 m k len s"
proof -
  obtain a b c where s: "s = (a, b, c)"
    by (cases s)
  show "jenkins_last16 m k len s = jenkins_last32 m k len s"
    and "jenkins_last8 m k len s = jenkins_last32 m k len s"
    unfolding s jenkins_last_shift [of m k len]
    by (simp_all only: jenkins_last16_0 [OF assms] jenkins_last8_0 [OF assms])
qed

lemma jenkins_loop32_len: "jenkins_loop32 m k len s = (s', k', n) \<Longrightarrow> n \<le> 12"
proof (induction m k len s rule: jenkins_loop32.induct)
  case (1 m k len a b c)
  then show ?case
    by (cases "12 < len") (simp_all add: jenkins_loop32.simps [of m k])
qed

text \<open>The alignment of the key does not matter, so neither does the read width.\<close>

lemma hash_jenkins_width: "hash_jenkins addr m len = hash_jenkins addr' m len"
proof -
  have "hash_jenkins addr m len = hash_jenkins 0 m len" for addr
    unfolding hash_jenkins_def Let_def jenkins_loop16_eq jenkins_loop8_eq
    by (auto simp: jenkins_last_eq jenkins_loop32_len split: prod.split)
  then show ?thesis
    by metis
qed

subsection \<open>Only the key's bytes matter\<close>

lemma get16bits_cong: "m d = m' d \<Longrightarrow> m (d + 1) = m' (d + 1) \<Longrightarrow> get16bits m d = get16bits m' d"
  by (simp add: get16bits_def)

lemma hsieh_loop_cong:
  "(\<And>i. i < key + 4 * n \<Longrightarrow> m i = m' i) \<Longrightarrow> hsieh_loop m key n h = hsieh_loop m' key n h"
proof (induction n arbitrary: key h)
  case (Suc n)
  have "get16bits m key = get16bits m' key" "get16bits m (key + 2) = get16bits m' (key + 2)"
    by (simp_all add: get16bits_def Suc.prems)
  with Suc show ?case
    by (simp add: Let_def)
qed simp

lemma hash_hsieh_cong:
  assumes "\<And>i. i < len \<Longrightarrow> m i = m' i"
  shows "hash_hsieh m len = hash_hsieh m' len"
proof -
  have "hsieh_loop m 0 (len div 4) 0 = hsieh_loop m' 0 (len div 4) 0"
    by (rule hsieh_loop_cong) (simp add: assms)
  moreover have "hsieh_tail m (4 * (len div 4)) (len mod 4) h
      = hsieh_tail m' (4 * (len div 4)) (len mod 4) h" for h
  proof -
    have "m (4 * (len div 4) + i) = m' (4 * (len div 4) + i)" if "i < len mod 4" for i
      by (rule assms) (use that in presburger)
    from this [of 0] this [of 1] this [of 2] show ?thesis
      by (auto simp: hsieh_tail_def get16bits_def Let_def)
  qed
  ultimately show ?thesis
    by (simp add: hash_hsieh_def Let_def)
qed

lemma murmur_loop_cong:
  "(\<And>i. i < data + len \<Longrightarrow> m i = m' i) \<Longrightarrow> murmur_loop m data len h = murmur_loop m' data len h"
proof (induction m data len h rule: murmur_loop.induct)
  case (1 m data len h)
  show ?case
  proof (cases "4 \<le> len")
    case True
    with "1.prems" have "load32 m data = load32 m' data"
      by (simp add: load32_def)
    with True 1 show ?thesis
      by (simp add: murmur_loop.simps [of m data] murmur_loop.simps [of m' data] Let_def)
  qed (simp add: murmur_loop.simps)
qed

lemma murmur_loop_rest:
  "murmur_loop m data len h = (h', data', n) \<Longrightarrow> data' + n = data + len \<and> n < 4"
proof (induction m data len h rule: murmur_loop.induct)
  case (1 m data len h)
  then show ?case
    by (cases "4 \<le> len") (auto simp: murmur_loop.simps [of m data] Let_def)
qed

lemma hash_murmur_cong:
  assumes "\<And>i. i < len \<Longrightarrow> m i = m' i"
  shows "hash_murmur m len = hash_murmur m' len"
proof -
  let ?h = "0xdeadbeef * word_of_nat len XOR word_of_nat len"
  have loop: "murmur_loop m 0 len ?h = murmur_loop m' 0 len ?h"
    by (rule murmur_loop_cong) (simp add: assms)
  obtain h data n where r: "murmur_loop m 0 len ?h = (h, data, n)"
    by (cases "murmur_loop m 0 len ?h")
  with murmur_loop_rest [OF r] have "murmur_tail m data n h = murmur_tail m' data n h"
    by (auto simp: murmur_tail_def Let_def assms)
  with r show ?thesis
    by (simp add: hash_murmur_def Let_def loop [symmetric])
qed

lemma jenkins_loop8_cong:
  "(\<And>i. i < k + len \<Longrightarrow> m i = m' i) \<Longrightarrow> jenkins_loop8 m k len s = jenkins_loop8 m' k len s"
proof (induction m k len s rule: jenkins_loop8.induct)
  case (1 m k len a b c)
  then show ?case
    by (cases "12 < len")
      (simp_all add: jenkins_loop8.simps [of m k] jenkins_loop8.simps [of m' k] k8_def)
qed

lemma jenkins_loop8_rest: "jenkins_loop8 m k len s = (s', k', n) \<Longrightarrow> k' + n = k + len"
proof (induction m k len s rule: jenkins_loop8.induct)
  case (1 m k len a b c)
  then show ?case
    by (cases "12 < len") (simp_all add: jenkins_loop8.simps [of m k])
qed

lemma jenkins_last8_cong:
  "(\<And>i. i < k + len \<Longrightarrow> m i = m' i) \<Longrightarrow> jenkins_last8 m k len s = jenkins_last8 m' k len s"
  by (simp add: jenkins_last8_def k8_def Let_def split: prod.split)

lemma hash_jenkins_cong:
  assumes "\<And>i. i < len \<Longrightarrow> m i = m' i"
  shows "hash_jenkins addr m len = hash_jenkins addr' m' len"
proof -
  have "jenkins_loop8 m 0 len s = jenkins_loop8 m' 0 len s" for s
    by (rule jenkins_loop8_cong) (simp add: assms)
  moreover have "jenkins_last8 m k n s' = jenkins_last8 m' k n s'"
    if "jenkins_loop8 m 0 len s = (s', k, n)" for s s' k n
    using jenkins_loop8_rest [OF that] by (intro jenkins_last8_cong) (simp add: assms)
  ultimately have "hash_jenkins 1 m len = hash_jenkins 1 m' len"
    by (auto simp: hash_jenkins_def Let_def split: prod.split)
  then show ?thesis
    by (metis hash_jenkins_width)
qed

end
