(* ===== verification/Hash_Md5.thy ===== *)
theory Hash_Md5
  imports Hash_Mix
begin

section \<open>MD5 (\<open>hashkit/gf_md5.c\<close>)\<close>

text \<open>
  The message digest that keys the ketama continuum: the 64-step transformation, the
  incremental context (byte counters \<open>lo\<close>/\<open>hi\<close>, a 64 byte carry-over buffer) and its
  three operations.  The reference is the one-shot definition: pad the message with a one
  bit, zeros and its bit length, and fold the transformation over the 64 byte blocks.  An
  update extends the represented message, and \<open>md5_signature\<close> is the digest of the padded
  message.  \<open>SET\<close> and \<open>GET\<close> load little-endian words straight from the data, as on
  x86-64, where the \<open>block\<close> field of the context is unused.
\<close>

unbundle bit_operations_syntax

subsection \<open>The transformation\<close>

type_synonym abcd = "u32 \<times> u32 \<times> u32 \<times> u32"

definition md5_F :: "u32 \<Rightarrow> u32 \<Rightarrow> u32 \<Rightarrow> u32" where
  "md5_F x y z = z XOR (x AND (y XOR z))"

definition md5_G :: "u32 \<Rightarrow> u32 \<Rightarrow> u32 \<Rightarrow> u32" where
  "md5_G x y z = y XOR (z AND (x XOR y))"

definition md5_H :: "u32 \<Rightarrow> u32 \<Rightarrow> u32 \<Rightarrow> u32" where
  "md5_H x y z = x XOR y XOR z"

definition md5_I :: "u32 \<Rightarrow> u32 \<Rightarrow> u32 \<Rightarrow> u32" where
  "md5_I x y z = y XOR (x OR NOT z)"

definition md5_STEP ::
  "(u32 \<Rightarrow> u32 \<Rightarrow> u32 \<Rightarrow> u32) \<Rightarrow> u32 \<Rightarrow> u32 \<Rightarrow> u32 \<Rightarrow> u32 \<Rightarrow> u32 \<Rightarrow> u32 \<Rightarrow> nat \<Rightarrow> u32" where
  "md5_STEP f a b c d x t s =
     (let a = a + (f b c d + x + t);
          a = push_bit s a OR drop_bit (32 - s) (a AND 0xffffffff)
      in a + b)"

definition md5_round1 :: "(nat \<Rightarrow> u32) \<Rightarrow> abcd \<Rightarrow> abcd" where
  "md5_round1 x s = (case s of (a, b, c, d) \<Rightarrow>
     let a = md5_STEP md5_F a b c d (x 0) 0xd76aa478 7;
         d = md5_STEP md5_F d a b c (x 1) 0xe8c7b756 12;
         c = md5_STEP md5_F c d a b (x 2) 0x242070db 17;
         b = md5_STEP md5_F b c d a (x 3) 0xc1bdceee 22;
         a = md5_STEP md5_F a b c d (x 4) 0xf57c0faf 7;
         d = md5_STEP md5_F d a b c (x 5) 0x4787c62a 12;
         c = md5_STEP md5_F c d a b (x 6) 0xa8304613 17;
         b = md5_STEP md5_F b c d a (x 7) 0xfd469501 22;
         a = md5_STEP md5_F a b c d (x 8) 0x698098d8 7;
         d = md5_STEP md5_F d a b c (x 9) 0x8b44f7af 12;
         c = md5_STEP md5_F c d a b (x 10) 0xffff5bb1 17;
         b = md5_STEP md5_F b c d a (x 11) 0x895cd7be 22;
         a = md5_STEP md5_F a b c d (x 12) 0x6b901122 7;
         d = md5_STEP md5_F d a b c (x 13) 0xfd987193 12;
         c = md5_STEP md5_F c d a b (x 14) 0xa679438e 17;
         b = md5_STEP md5_F b c d a (x 15) 0x49b40821 22
     in (a, b, c, d))"

definition md5_round2 :: "(nat \<Rightarrow> u32) \<Rightarrow> abcd \<Rightarrow> abcd" where
  "md5_round2 x s = (case s of (a, b, c, d) \<Rightarrow>
     let a = md5_STEP md5_G a b c d (x 1) 0xf61e2562 5;
         d = md5_STEP md5_G d a b c (x 6) 0xc040b340 9;
         c = md5_STEP md5_G c d a b (x 11) 0x265e5a51 14;
         b = md5_STEP md5_G b c d a (x 0) 0xe9b6c7aa 20;
         a = md5_STEP md5_G a b c d (x 5) 0xd62f105d 5;
         d = md5_STEP md5_G d a b c (x 10) 0x02441453 9;
         c = md5_STEP md5_G c d a b (x 15) 0xd8a1e681 14;
         b = md5_STEP md5_G b c d a (x 4) 0xe7d3fbc8 20;
         a = md5_STEP md5_G a b c d (x 9) 0x21e1cde6 5;
         d = md5_STEP md5_G d a b c (x 14) 0xc33707d6 9;
         c = md5_STEP md5_G c d a b (x 3) 0xf4d50d87 14;
         b = md5_STEP md5_G b c d a (x 8) 0x455a14ed 20;
         a = md5_STEP md5_G a b c d (x 13) 0xa9e3e905 5;
         d = md5_STEP md5_G d a b c (x 2) 0xfcefa3f8 9;
         c = md5_STEP md5_G c d a b (x 7) 0x676f02d9 14;
         b = md5_STEP md5_G b c d a (x 12) 0x8d2a4c8a 20
     in (a, b, c, d))"

definition md5_round3 :: "(nat \<Rightarrow> u32) \<Rightarrow> abcd \<Rightarrow> abcd" where
  "md5_round3 x s = (case s of (a, b, c, d) \<Rightarrow>
     let a = md5_STEP md5_H a b c d (x 5) 0xfffa3942 4;
         d = md5_STEP md5_H d a b c (x 8) 0x8771f681 11;
         c = md5_STEP md5_H c d a b (x 11) 0x6d9d6122 16;
         b = md5_STEP md5_H b c d a (x 14) 0xfde5380c 23;
         a = md5_STEP md5_H a b c d (x 1) 0xa4beea44 4;
         d = md5_STEP md5_H d a b c (x 4) 0x4bdecfa9 11;
         c = md5_STEP md5_H c d a b (x 7) 0xf6bb4b60 16;
         b = md5_STEP md5_H b c d a (x 10) 0xbebfbc70 23;
         a = md5_STEP md5_H a b c d (x 13) 0x289b7ec6 4;
         d = md5_STEP md5_H d a b c (x 0) 0xeaa127fa 11;
         c = md5_STEP md5_H c d a b (x 3) 0xd4ef3085 16;
         b = md5_STEP md5_H b c d a (x 6) 0x04881d05 23;
         a = md5_STEP md5_H a b c d (x 9) 0xd9d4d039 4;
         d = md5_STEP md5_H d a b c (x 12) 0xe6db99e5 11;
         c = md5_STEP md5_H c d a b (x 15) 0x1fa27cf8 16;
         b = md5_STEP md5_H b c d a (x 2) 0xc4ac5665 23
     in (a, b, c, d))"

definition md5_round4 :: "(nat \<Rightarrow> u32) \<Rightarrow> abcd \<Rightarrow> abcd" where
  "md5_round4 x s = (case s of (a, b, c, d) \<Rightarrow>
     let a = md5_STEP md5_I a b c d (x 0) 0xf4292244 6;
         d = md5_STEP md5_I d a b c (x 7) 0x432aff97 10;
         c = md5_STEP md5_I c d a b (x 14) 0xab9423a7 15;
         b = md5_STEP md5_I b c d a (x 5) 0xfc93a039 21;
         a = md5_STEP md5_I a b c d (x 12) 0x655b59c3 6;
         d = md5_STEP md5_I d a b c (x 3) 0x8f0ccc92 10;
         c = md5_STEP md5_I c d a b (x 10) 0xffeff47d 15;
         b = md5_STEP md5_I b c d a (x 1) 0x85845dd1 21;
         a = md5_STEP md5_I a b c d (x 8) 0x6fa87e4f 6;
         d = md5_STEP md5_I d a b c (x 15) 0xfe2ce6e0 10;
         c = md5_STEP md5_I c d a b (x 6) 0xa3014314 15;
         b = md5_STEP md5_I b c d a (x 13) 0x4e0811a1 21;
         a = md5_STEP md5_I a b c d (x 4) 0xf7537e82 6;
         d = md5_STEP md5_I d a b c (x 11) 0xbd3af235 10;
         c = md5_STEP md5_I c d a b (x 2) 0x2ad7d2bb 15;
         b = md5_STEP md5_I b c d a (x 9) 0xeb86d391 21
     in (a, b, c, d))"

definition md5_block :: "abcd \<Rightarrow> u8 list \<Rightarrow> abcd" where
  "md5_block s data =
     (let x = (\<lambda>n. load32 (\<lambda>i. data ! i) (4 * n)) in
      case (s, md5_round4 x (md5_round3 x (md5_round2 x (md5_round1 x s)))) of
        ((saved_a, saved_b, saved_c, saved_d), (a, b, c, d)) \<Rightarrow>
          (a + saved_a, b + saved_b, c + saved_c, d + saved_d))"

subsection \<open>The context and its operations\<close>

record md5_ctx =
  md5_lo :: u32
  md5_hi :: u32
  md5_abcd :: abcd
  md5_buffer :: "u8 list"

text \<open>
  \<open>body\<close> is called with a positive multiple of 64 as its size; the loop runs once per
  block and stops when the size reaches 0.
\<close>

fun md5_body_loop :: "abcd \<Rightarrow> u8 list \<Rightarrow> nat \<Rightarrow> abcd" where
  "md5_body_loop s ptr sz =
     (let s = md5_block s (take 64 ptr) in
      if sz - 64 \<noteq> 0 then md5_body_loop s (drop 64 ptr) (sz - 64) else s)"

declare md5_body_loop.simps [simp del]

definition md5_body :: "md5_ctx \<Rightarrow> u8 list \<Rightarrow> nat \<Rightarrow> md5_ctx" where
  "md5_body ctx data sz = ctx\<lparr>md5_abcd := md5_body_loop (md5_abcd ctx) data sz\<rparr>"

text \<open>\<open>memcpy\<close> and \<open>memset\<close> into the buffer at an offset.\<close>

definition buf_write :: "u8 list \<Rightarrow> nat \<Rightarrow> u8 list \<Rightarrow> u8 list" where
  "buf_write buf off src = take off buf @ src @ drop (off + length src) buf"

definition MD5_Init :: "md5_ctx \<Rightarrow> md5_ctx" where
  "MD5_Init ctx = ctx\<lparr>md5_abcd := (0x67452301, 0xefcdab89, 0x98badcfe, 0x10325476),
     md5_lo := 0, md5_hi := 0\<rparr>"

definition md5_count :: "md5_ctx \<Rightarrow> nat \<Rightarrow> md5_ctx" where
  "md5_count ctx sz =
     (let saved_lo = md5_lo ctx;
          lo = ucast ((ucast saved_lo + word_of_nat sz :: u64) AND 0x1fffffff);
          hi = (if lo < saved_lo then md5_hi ctx + 1 else md5_hi ctx);
          hi = hi + ucast (drop_bit 29 (word_of_nat sz :: u64))
      in ctx\<lparr>md5_lo := lo, md5_hi := hi\<rparr>)"

definition md5_update_tail :: "md5_ctx \<Rightarrow> u8 list \<Rightarrow> md5_ctx" where
  "md5_update_tail ctx data =
     (let sz = length data;
          whole = 64 * (sz div 64);
          ctx = (if 64 \<le> sz then md5_body ctx data whole else ctx);
          data = (if 64 \<le> sz then drop whole data else data)
      in ctx\<lparr>md5_buffer := buf_write (md5_buffer ctx) 0 data\<rparr>)"

definition MD5_Update :: "md5_ctx \<Rightarrow> u8 list \<Rightarrow> md5_ctx" where
  "MD5_Update ctx data =
     (let used = unat (md5_lo ctx AND 0x3f);
          ctx = md5_count ctx (length data);
          free = 64 - used
      in if used \<noteq> 0 then
           (if length data < free then
              ctx\<lparr>md5_buffer := buf_write (md5_buffer ctx) used data\<rparr>
            else
              (let ctx = ctx\<lparr>md5_buffer := buf_write (md5_buffer ctx) used (take free data)\<rparr>;
                   ctx = md5_body ctx (md5_buffer ctx) 64
               in md5_update_tail ctx (drop free data)))
         else md5_update_tail ctx data)"

text \<open>The bytes of a word, low byte first.\<close>

definition le_bytes :: "u32 \<Rightarrow> u8 list" where
  "le_bytes w = [ucast w, ucast (drop_bit 8 w), ucast (drop_bit 16 w), ucast (drop_bit 24 w)]"

definition MD5_Final :: "md5_ctx \<Rightarrow> u8 list" where
  "MD5_Final ctx =
     (let used = unat (md5_lo ctx AND 0x3f);
          ctx = ctx\<lparr>md5_buffer := (md5_buffer ctx)[used := 0x80]\<rparr>;
          used = used + 1;
          free = 64 - used;
          (ctx, used, free) =
            (if free < 8 then
               (let ctx = ctx\<lparr>md5_buffer := buf_write (md5_buffer ctx) used (replicate free 0)\<rparr>
                in (md5_body ctx (md5_buffer ctx) 64, 0, 64))
             else (ctx, used, free));
          ctx = ctx\<lparr>md5_buffer := buf_write (md5_buffer ctx) used (replicate (free - 8) 0)\<rparr>;
          lo = push_bit 3 (md5_lo ctx);
          ctx = ctx\<lparr>md5_buffer := buf_write (md5_buffer ctx) 56 (le_bytes lo @ le_bytes (md5_hi ctx))\<rparr>;
          ctx = md5_body ctx (md5_buffer ctx) 64
      in case md5_abcd ctx of (a, b, c, d) \<Rightarrow>
           le_bytes a @ le_bytes b @ le_bytes c @ le_bytes d)"

text \<open>
  The context of \<open>md5_signature\<close> is an uninitialised local: \<open>my_md5\<close> stands for its
  contents, whose buffer is a 64 byte array.
\<close>

definition md5_signature :: "md5_ctx \<Rightarrow> u8 list \<Rightarrow> u8 list" where
  "md5_signature my_md5 key = MD5_Final (MD5_Update (MD5_Init my_md5) key)"

definition digest_u32 :: "u8 list \<Rightarrow> nat \<Rightarrow> u32" where
  "digest_u32 results al =
     push_bit 24 (ucast (results ! (3 + al * 4))) OR push_bit 16 (ucast (results ! (2 + al * 4)))
     OR push_bit 8 (ucast (results ! (1 + al * 4))) OR ucast (results ! (0 + al * 4))"

definition hash_md5 :: "md5_ctx \<Rightarrow> u8 list \<Rightarrow> u32" where
  "hash_md5 my_md5 key = digest_u32 (md5_signature my_md5 key) 0"

subsection \<open>The reference digest\<close>

fun md5_fold :: "abcd \<Rightarrow> u8 list \<Rightarrow> abcd" where
  "md5_fold s data =
     (if length data < 64 then s else md5_fold (md5_block s (take 64 data)) (drop 64 data))"

declare md5_fold.simps [simp del]

definition md5_iv :: abcd where
  "md5_iv = (0x67452301, 0xefcdab89, 0x98badcfe, 0x10325476)"

definition le64 :: "u64 \<Rightarrow> u8 list" where
  "le64 w = map (\<lambda>i. ucast (drop_bit (8 * i) w)) [0..<8]"

definition md5_pad :: "u8 list \<Rightarrow> u8 list" where
  "md5_pad msg =
     msg @ 0x80 # replicate ((119 - length msg mod 64) mod 64) 0 @ le64 (word_of_nat (8 * length msg))"

definition md5_spec :: "u8 list \<Rightarrow> u8 list" where
  "md5_spec msg = (case md5_fold md5_iv (md5_pad msg) of (a, b, c, d) \<Rightarrow>
     le_bytes a @ le_bytes b @ le_bytes c @ le_bytes d)"

definition tail64 :: "u8 list \<Rightarrow> u8 list" where
  "tail64 xs = drop (64 * (length xs div 64)) xs"

lemma length_tail64: "length (tail64 xs) = length xs mod 64"
  by (simp add: tail64_def minus_mult_div_eq_mod)

lemma tail64_small: "length xs < 64 \<Longrightarrow> tail64 xs = xs"
  by (simp add: tail64_def)

lemma tail64_drop: "64 \<le> length xs \<Longrightarrow> tail64 (drop 64 xs) = tail64 xs"
proof -
  assume "64 \<le> length xs"
  then have "length xs div 64 = Suc ((length xs - 64) div 64)"
    by (simp add: le_div_geq)
  then show ?thesis
    by (simp add: tail64_def add.commute)
qed

lemma md5_fold_small: "length xs < 64 \<Longrightarrow> md5_fold s xs = s"
  by (simp add: md5_fold.simps)

lemma md5_fold_block:
  "64 \<le> length xs \<Longrightarrow> md5_fold s xs = md5_fold (md5_block s (take 64 xs)) (drop 64 xs)"
  by (subst md5_fold.simps) simp

lemma md5_fold_one: "length x = 64 \<Longrightarrow> md5_fold s (x @ y) = md5_fold (md5_block s x) y"
  by (simp add: md5_fold_block)

lemma md5_fold_append: "md5_fold s (xs @ ys) = md5_fold (md5_fold s xs) (tail64 xs @ ys)"
proof (induction s xs rule: md5_fold.induct)
  case (1 s xs)
  show ?case
  proof (cases "length xs < 64")
    case False
    with 1 show ?thesis
      by (simp add: md5_fold_block [of xs] md5_fold_block [of "xs @ ys"] tail64_drop)
  qed (simp add: md5_fold_small tail64_small)
qed

lemma tail64_append: "tail64 (xs @ ys) = tail64 (tail64 xs @ ys)"
proof (induction xs rule: measure_induct_rule [where f = length])
  case (less xs)
  show ?case
  proof (cases "length xs < 64")
    case False
    then have "tail64 (drop 64 xs @ ys) = tail64 (tail64 (drop 64 xs) @ ys)"
      by (intro less.IH) simp
    with False show ?thesis
      by (simp add: tail64_drop [of xs] tail64_drop [of "xs @ ys", symmetric])
  qed (simp add: tail64_small)
qed

lemma md5_body_loop_eq:
  "64 * Suc k \<le> length ptr \<Longrightarrow> md5_body_loop s ptr (64 * Suc k) = md5_fold s (take (64 * Suc k) ptr)"
proof (induction k arbitrary: s ptr)
  case 0
  then show ?case
    by (simp add: md5_body_loop.simps md5_fold_block md5_fold_small Let_def)
next
  case (Suc k)
  have "md5_body_loop s ptr (64 * Suc (Suc k))
    = md5_body_loop (md5_block s (take 64 ptr)) (drop 64 ptr) (64 * Suc k)"
    by (subst md5_body_loop.simps) (simp add: Let_def)
  also have "\<dots> = md5_fold (md5_block s (take 64 ptr)) (take (64 * Suc k) (drop 64 ptr))"
    using Suc.prems by (intro Suc.IH) simp
  also have "\<dots> = md5_fold s (take (64 * Suc (Suc k)) ptr)"
    using Suc.prems by (simp add: md5_fold_block [of "take (128 + 64 * k) ptr"] drop_take min_def)
  finally show ?case .
qed

lemma md5_fold_whole: "md5_fold s (take (64 * (length xs div 64)) xs) = md5_fold s xs"
proof -
  let ?w = "take (64 * (length xs div 64)) xs"
  have "tail64 ?w = []"
    by (simp add: tail64_def min_def)
  moreover have "length (drop (64 * (length xs div 64)) xs) < 64"
    using length_tail64 [of xs] by (simp add: tail64_def)
  ultimately show ?thesis
    using md5_fold_append [of s ?w "drop (64 * (length xs div 64)) xs"]
    by (simp add: md5_fold_small)
qed

text \<open>What a context represents: the message given to the updates so far.\<close>

definition md5_rep :: "md5_ctx \<Rightarrow> u8 list \<Rightarrow> bool" where
  "md5_rep ctx msg \<longleftrightarrow>
     md5_abcd ctx = md5_fold md5_iv msg \<and>
     length (md5_buffer ctx) = 64 \<and> take (length msg mod 64) (md5_buffer ctx) = tail64 msg \<and>
     md5_lo ctx = word_of_nat (length msg mod 2 ^ 29) \<and>
     md5_hi ctx = word_of_nat (length msg div 2 ^ 29)"

lemma md5_rep_init: "length (md5_buffer ctx) = 64 \<Longrightarrow> md5_rep (MD5_Init ctx) []"
  by (simp add: md5_rep_def MD5_Init_def md5_iv_def md5_fold_small tail64_def)

lemma buf_write_prefix:
  "off + length src \<le> length buf \<Longrightarrow> take (off + length src) (buf_write buf off src) = take off buf @ src"
  "off + length src \<le> length buf \<Longrightarrow> length (buf_write buf off src) = length buf"
  by (simp_all add: buf_write_def)

lemma md5_update_tail_eq:
  assumes "length (md5_buffer ctx) = 64"
  shows "md5_abcd (md5_update_tail ctx data) = md5_fold (md5_abcd ctx) data"
    and "length (md5_buffer (md5_update_tail ctx data)) = 64"
    and "take (length data mod 64) (md5_buffer (md5_update_tail ctx data)) = tail64 data"
    and "md5_lo (md5_update_tail ctx data) = md5_lo ctx"
    and "md5_hi (md5_update_tail ctx data) = md5_hi ctx"
proof -
  have body: "md5_body_loop s data (64 * (length data div 64)) = md5_fold s data" if "64 \<le> length data" for s
  proof -
    from that obtain k where "length data div 64 = Suc k"
      by (metis Suc_pred div_greater_zero_iff zero_less_numeral)
    then show ?thesis
      using md5_body_loop_eq [of k data s] md5_fold_whole [of s data]
      by (metis div_times_less_eq_dividend mult.commute)
  qed
  then show "md5_abcd (md5_update_tail ctx data) = md5_fold (md5_abcd ctx) data"
    by (simp add: md5_update_tail_def md5_body_def Let_def md5_fold_small)
  have src: "(if 64 \<le> length data then drop (64 * (length data div 64)) data else data) = tail64 data"
    by (simp add: tail64_def)
  have le: "0 + length (tail64 data) \<le> length (md5_buffer ctx)"
    using assms by (simp add: length_tail64 less_imp_le)
  have buf: "md5_buffer (md5_update_tail ctx data) = buf_write (md5_buffer ctx) 0 (tail64 data)"
    by (simp add: md5_update_tail_def md5_body_def Let_def src)
  show "length (md5_buffer (md5_update_tail ctx data)) = 64"
    using buf_write_prefix(2) [OF le] assms by (simp add: buf)
  show "take (length data mod 64) (md5_buffer (md5_update_tail ctx data)) = tail64 data"
    using buf_write_prefix(1) [OF le] by (simp only: buf length_tail64 add_0_left take_0 append_Nil)
  show "md5_lo (md5_update_tail ctx data) = md5_lo ctx"
    and "md5_hi (md5_update_tail ctx data) = md5_hi ctx"
    by (simp_all add: md5_update_tail_def md5_body_def Let_def)
qed

lemma unat_and_mask: "unat (w AND mask k) = unat w mod 2 ^ k" for w :: "'a::len word"
  unfolding take_bit_eq_mask [symmetric] unsigned_take_bit_eq by (rule take_bit_eq_mod)

lemma carry_div:
  fixes n sz M :: nat
  assumes M: "0 < M"
  shows "(n + sz) div M = n div M + sz div M + (if (n + sz) mod M < n mod M then 1 else 0)"
proof -
  let ?r = "n mod M" and ?t = "sz mod M"
  have lt: "?r < M" "?t < M"
    using M by simp_all
  have d: "(n + sz) div M = n div M + sz div M + (?r + ?t) div M"
    by (rule div_add1_eq)
  have m: "(n + sz) mod M = (?r + ?t) mod M"
    by (rule mod_add_eq [symmetric])
  show ?thesis
  proof (cases "?r + ?t < M")
    case True
    then have "(?r + ?t) mod M = ?r + ?t" "(?r + ?t) div M = 0"
      by (rule mod_less, rule div_less)
    then show ?thesis
      unfolding d m by (simp only:) simp
  next
    case False
    then have ge: "M \<le> ?r + ?t" and small: "?r + ?t - M < M"
      using lt by linarith+
    have "(?r + ?t) mod M = ?r + ?t - M" "(?r + ?t) div M = Suc 0"
      using ge small M by (simp_all only: le_mod_geq le_div_geq mod_less div_less)
    with lt ge show ?thesis
      unfolding d m by (simp only:) simp
  qed
qed

lemma md5_count_eq:
  assumes lo: "md5_lo ctx = word_of_nat (n mod 2 ^ 29)" and hi: "md5_hi ctx = word_of_nat (n div 2 ^ 29)"
    and sz: "sz < 2 ^ 64"
  shows "md5_lo (md5_count ctx sz) = word_of_nat ((n + sz) mod 2 ^ 29)"
    and "md5_hi (md5_count ctx sz) = word_of_nat ((n + sz) div 2 ^ 29)"
proof -
  let ?r = "n mod 2 ^ 29"
  let ?lo = "ucast ((ucast (md5_lo ctx) + word_of_nat sz :: u64) AND 0x1fffffff) :: u32"
  have r: "?r < 2 ^ 29"
    by simp
  have unat_lo: "unat (md5_lo ctx) = ?r"
    using r by (simp add: lo unat_of_nat)
  have m: "(0x1fffffff :: u64) = mask 29"
    by (simp add: mask_eq_exp_minus_1)
  have u: "(ucast (md5_lo ctx) :: u64) = word_of_nat ?r"
    by (metis unat_lo of_nat_unat)
  have "unat ((ucast (md5_lo ctx) + word_of_nat sz :: u64) AND mask 29) = (?r + sz) mod 2 ^ 64 mod 2 ^ 29"
    unfolding u unat_and_mask of_nat_add [symmetric] unat_of_nat by simp
  also have "\<dots> = (?r + sz) mod 2 ^ 29"
    by (rule mod_mod_cancel) (simp add: le_imp_power_dvd)
  also have "\<dots> = (n + sz) mod 2 ^ 29"
    by (rule mod_add_left_eq)
  finally have *: "unat ((ucast (md5_lo ctx) + word_of_nat sz :: u64) AND mask 29) = (n + sz) mod 2 ^ 29" .
  have lo': "?lo = word_of_nat ((n + sz) mod 2 ^ 29)"
    unfolding m by (metis * of_nat_unat)
  then show "md5_lo (md5_count ctx sz) = word_of_nat ((n + sz) mod 2 ^ 29)"
    by (simp add: md5_count_def Let_def)
  have unat_lo': "unat ?lo = (n + sz) mod 2 ^ 29"
    unfolding lo' unat_of_nat by (simp add: mod_less order_less_trans [OF mod_less_divisor])
  have less: "?lo < md5_lo ctx \<longleftrightarrow> (n + sz) mod 2 ^ 29 < n mod 2 ^ 29"
    by (simp only: word_less_nat_alt unat_lo' unat_lo)
  have "unat (drop_bit 29 (word_of_nat sz :: u64)) = sz div 2 ^ 29"
    using sz by (simp add: drop_bit_eq_div unat_div unat_of_nat)
  then have hi': "(ucast (drop_bit 29 (word_of_nat sz :: u64)) :: u32) = word_of_nat (sz div 2 ^ 29)"
    by (metis of_nat_unat)
  have "md5_hi (md5_count ctx sz) =
    (if ?lo < md5_lo ctx then md5_hi ctx + 1 else md5_hi ctx) + ucast (drop_bit 29 (word_of_nat sz :: u64))"
    by (simp add: md5_count_def Let_def)
  also have "\<dots> = word_of_nat (n div 2 ^ 29 + sz div 2 ^ 29 + (if (n + sz) mod 2 ^ 29 < n mod 2 ^ 29 then 1 else 0))"
    unfolding less hi' hi by simp
  finally show "md5_hi (md5_count ctx sz) = word_of_nat ((n + sz) div 2 ^ 29)"
    by (subst carry_div) simp_all
qed

lemma md5_used_eq: "md5_rep ctx msg \<Longrightarrow> unat (md5_lo ctx AND 0x3f) = length msg mod 64"
proof -
  assume "md5_rep ctx msg"
  then have "unat (md5_lo ctx) = length msg mod 2 ^ 29"
    unfolding md5_rep_def
    by (simp only: unat_of_nat) (simp add: mod_less order_less_trans [OF mod_less_divisor])
  moreover have "(0x3f :: u32) = mask 6"
    by (simp add: mask_eq_exp_minus_1)
  ultimately show ?thesis
    by (simp only: unat_and_mask) (simp add: mod_mod_cancel)
qed

lemma md5_rep_extend:
  assumes rep: "md5_rep ctx msg" and sz: "length data < 2 ^ 64"
    and lo: "md5_lo ctx' = md5_lo (md5_count ctx (length data))"
    and hi: "md5_hi ctx' = md5_hi (md5_count ctx (length data))"
    and abcd: "md5_abcd ctx' = md5_fold (md5_abcd ctx) (tail64 msg @ data)"
    and buf: "length (md5_buffer ctx') = 64"
      "take ((length msg mod 64 + length data) mod 64) (md5_buffer ctx') = tail64 (tail64 msg @ data)"
  shows "md5_rep ctx' (msg @ data)"
proof -
  have m: "(length msg + length data) mod 64 = (length msg mod 64 + length data) mod 64"
    by (rule mod_add_left_eq [symmetric])
  show ?thesis
    unfolding md5_rep_def length_append m tail64_append [of msg data] md5_fold_append [of md5_iv msg data]
    using rep buf md5_count_eq [of ctx "length msg" "length data"] sz
    by (simp only: lo hi abcd md5_rep_def)
qed

lemma md5_count_fields:
  "md5_abcd (md5_count ctx n) = md5_abcd ctx" "md5_buffer (md5_count ctx n) = md5_buffer ctx"
  by (simp_all add: md5_count_def Let_def)

lemma md5_body_one:
  "length buf = 64 \<Longrightarrow> md5_body ctx buf 64 = ctx\<lparr>md5_abcd := md5_block (md5_abcd ctx) buf\<rparr>"
  by (simp add: md5_body_def md5_body_loop.simps Let_def)

lemma buf_write_end:
  "off + length src = length buf \<Longrightarrow> buf_write buf off src = take off buf @ src"
  by (simp add: buf_write_def)

lemma md5_rep_update:
  assumes rep: "md5_rep ctx msg" and sz: "length data < 2 ^ 64"
  shows "md5_rep (MD5_Update ctx data) (msg @ data)"
proof -
  let ?u = "length msg mod 64"
  let ?c = "md5_count ctx (length data)"
  have u: "unat (md5_lo ctx AND 0x3f) = ?u"
    using rep by (rule md5_used_eq)
  have u64: "?u < 64"
    by simp
  have buf: "length (md5_buffer ctx) = 64" "take ?u (md5_buffer ctx) = tail64 msg"
    using rep by (simp_all add: md5_rep_def)
  consider (zero) "?u = 0" | (short) "?u \<noteq> 0" "length data < 64 - ?u" | (long) "?u \<noteq> 0" "64 - ?u \<le> length data"
    by linarith
  then show ?thesis
  proof cases
    case zero
    then have t: "tail64 msg = []"
      by (metis length_0_conv length_tail64)
    have "MD5_Update ctx data = md5_update_tail ?c data"
      by (simp only: MD5_Update_def u zero Let_def) simp
    with buf zero t show ?thesis
      by (intro md5_rep_extend [OF rep sz]) (simp_all add: md5_update_tail_eq md5_count_fields)
  next
    case short
    have eq: "MD5_Update ctx data = ?c\<lparr>md5_buffer := buf_write (md5_buffer ctx) ?u data\<rparr>"
      using short by (simp only: MD5_Update_def u Let_def) (simp add: md5_count_fields)
    have le: "?u + length data \<le> length (md5_buffer ctx)" "?u + length data < 64"
      using short u64 by (simp_all add: buf)
    then have m: "(?u + length data) mod 64 = ?u + length data"
      by simp
    have s: "length (tail64 msg @ data) < 64"
      using le by (simp add: length_tail64)
    show ?thesis
      unfolding eq using buf_write_prefix [OF le(1)] buf
      by (intro md5_rep_extend [OF rep sz])
        (simp_all only: m tail64_small [OF s] md5_fold_small [OF s], simp_all add: md5_count_fields)
  next
    case long
    let ?f = "64 - ?u"
    have blk: "buf_write (md5_buffer ctx) ?u (take ?f data) = tail64 msg @ take ?f data"
      using long u64 by (subst buf_write_end) (simp_all add: buf)
    have len: "length (tail64 msg @ take ?f data) = 64"
      using long u64 by (simp add: length_tail64)
    let ?d = "?c\<lparr>md5_buffer := tail64 msg @ take ?f data,
      md5_abcd := md5_block (md5_abcd ctx) (tail64 msg @ take ?f data)\<rparr>"
    have eq: "MD5_Update ctx data = md5_update_tail ?d (drop ?f data)"
      using long
      by (simp only: MD5_Update_def u Let_def md5_count_fields blk md5_ctx.simps) (simp add: md5_body_one [OF len] md5_count_fields)
    have cut: "take 64 (tail64 msg @ data) = tail64 msg @ take ?f data"
      "drop 64 (tail64 msg @ data) = drop ?f data" "64 \<le> length (tail64 msg @ data)"
      using long u64 by (simp_all add: length_tail64)
    have fold: "md5_fold s (tail64 msg @ data) = md5_fold (md5_block s (tail64 msg @ take ?f data)) (drop ?f data)" for s
      using md5_fold_block [OF cut(3)] by (simp only: cut)
    have tl: "tail64 (tail64 msg @ data) = tail64 (drop ?f data)"
      using tail64_drop [OF cut(3)] by (simp only: cut)
    have m: "(?u + length data) mod 64 = length (drop ?f data) mod 64"
    proof -
      have "?u + length data = length (drop ?f data) + 64"
        using long u64 by simp
      then show ?thesis
        by (simp only: mod_add_self2)
    qed
    have dl: "length (md5_buffer ?d) = 64"
      using len by simp
    show ?thesis
      unfolding eq
      by (intro md5_rep_extend [OF rep sz])
        (simp_all only: md5_update_tail_eq [OF dl] fold tl m, simp_all add: md5_count_fields)
  qed
qed

lemma le_bytes_pair:
  "le_bytes (ucast w) @ le_bytes (ucast (drop_bit 32 w)) = le64 w" for w :: u64
proof -
  have n: "[0..<8] = [0, 1, 2, 3, 4, 5, 6, 7::nat]"
    by (simp add: upt_rec)
  show ?thesis
    unfolding le64_def le_bytes_def n
    by (simp, intro conjI; (intro bit_word_eqI, auto simp: bit_simps dest: bit_imp_le_length))
qed

lemma word_of_unat: "unat w = n \<Longrightarrow> w = word_of_nat n" for w :: "'a::len word"
  by (drule arg_cong [where f = "word_of_nat :: nat \<Rightarrow> 'a word"]) simp

lemma md5_length_bytes:
  assumes lo: "lo = word_of_nat (n mod 2 ^ 29)" and hi: "hi = word_of_nat (n div 2 ^ 29)"
  shows "le_bytes (push_bit 3 lo) @ le_bytes hi = le64 (word_of_nat (8 * n))"
proof -
  let ?w = "word_of_nat (8 * n) :: u64"
  have w: "unat ?w = 8 * n mod 2 ^ 64"
    by (simp only: unat_of_nat) simp
  have "8 * n mod 2 ^ 32 = 8 * (n mod 2 ^ 29)"
    by (simp add: mult_mod_right)
  moreover have "unat (ucast ?w :: u32) = 8 * n mod 2 ^ 64 mod 2 ^ 32"
    by (simp only: unsigned_ucast_eq w take_bit_eq_mod) simp
  moreover have "8 * n mod 2 ^ 64 mod 2 ^ 32 = 8 * n mod 2 ^ 32"
    by (rule mod_mod_cancel) (simp add: le_imp_power_dvd)
  ultimately have "unat (ucast ?w :: u32) = 8 * (n mod 2 ^ 29)"
    by simp
  then have "(ucast ?w :: u32) = word_of_nat (8 * (n mod 2 ^ 29))"
    by (rule word_of_unat)
  also have "\<dots> = push_bit 3 lo"
    by (simp add: lo push_bit_eq_mult)
  finally have 1: "push_bit 3 lo = ucast ?w" ..
  have "unat (drop_bit 32 ?w) = 8 * n mod 2 ^ 64 div 2 ^ 32"
    by (simp only: drop_bit_eq_div unat_div w) simp
  also have "\<dots> = 8 * n div 2 ^ 32 mod 2 ^ 32"
    using div_exp_mod_exp_eq [of "8 * n" 32 32] by simp
  also have "8 * n div 2 ^ 32 = n div 2 ^ 29"
    using div_mult_mult1 [of 8 n "2 ^ 29"] by simp
  finally have "unat (drop_bit 32 ?w) = n div 2 ^ 29 mod 2 ^ 32" .
  then have "unat (ucast (drop_bit 32 ?w) :: u32) = n div 2 ^ 29 mod 2 ^ 32"
    by (simp only: unsigned_ucast_eq take_bit_eq_mod) simp
  then have 2: "hi = ucast (drop_bit 32 ?w)"
    by (intro word_unat_eq_iff [THEN iffD2]) (simp add: hi unat_of_nat)
  show ?thesis
    unfolding 1 2 by (rule le_bytes_pair)
qed

lemma take_update_Suc: "u < length xs \<Longrightarrow> take (Suc u) (xs[u := x]) = take u xs @ [x]"
  by (simp add: take_Suc_conv_app_nth)

lemma MD5_Final_eq:
  assumes rep: "md5_rep ctx msg"
  shows "MD5_Final ctx = md5_spec msg"
proof -
  let ?u = "length msg mod 64"
  let ?L = "le_bytes (push_bit 3 (md5_lo ctx)) @ le_bytes (md5_hi ctx)"
  have u: "unat (md5_lo ctx AND 0x3f) = ?u"
    using rep by (rule md5_used_eq)
  have u64: "?u < 64"
    by simp
  have buf: "length (md5_buffer ctx) = 64" "take ?u (md5_buffer ctx) = tail64 msg"
    and abcd: "md5_abcd ctx = md5_fold md5_iv msg"
    using rep by (simp_all add: md5_rep_def)
  have L: "le64 (word_of_nat (8 * length msg)) = ?L"
    using rep by (intro md5_length_bytes [symmetric]) (simp_all add: md5_rep_def)
  have lenL: "length ?L = 8"
    by (simp add: le_bytes_def)
  let ?z = "\<lambda>n. replicate n 0 :: u8 list"
  have pad: "md5_fold md5_iv (md5_pad msg) =
    md5_fold (md5_abcd ctx) (tail64 msg @ 0x80 # ?z ((119 - ?u) mod 64) @ ?L)"
    by (simp only: md5_pad_def md5_fold_append [of md5_iv msg] L abcd)
  let ?b = "(md5_buffer ctx)[?u := 0x80]"
  have b: "length ?b = 64" "take (Suc ?u) ?b = tail64 msg @ [0x80]"
    using buf u64 by (simp_all add: take_update_Suc)
  show ?thesis
  proof (cases "?u < 56")
    case True
    have z: "(119 - ?u) mod 64 = 55 - ?u"
    proof -
      have "119 - ?u = 55 - ?u + 64"
        using True by simp
      then show ?thesis
        using True by (simp only: mod_add_self2) simp
    qed
    let ?x = "tail64 msg @ 0x80 # ?z (55 - ?u)"
    have w1: "take 56 (buf_write ?b (Suc ?u) (?z (55 - ?u))) = ?x"
      and w1': "length (buf_write ?b (Suc ?u) (?z (55 - ?u))) = 64"
      using buf_write_prefix [of "Suc ?u" "?z (55 - ?u)" ?b] True b by simp_all
    have w2: "buf_write (buf_write ?b (Suc ?u) (?z (55 - ?u))) 56 ?L = ?x @ ?L"
      using w1' lenL by (subst buf_write_end) (simp_all add: w1)
    have len: "length (?x @ ?L) = 64"
      using True lenL by (simp add: length_tail64)
    have fold: "md5_fold s (?x @ ?L) = md5_block s (?x @ ?L)" for s
      using len by (simp add: md5_fold_block md5_fold_small)
    have free: "\<not> 63 - ?u < 8"
      using True by simp
    show ?thesis
      using len free
      by (simp add: MD5_Final_def u [simplified] Let_def md5_spec_def pad [simplified] z [simplified]
          w2 [simplified] md5_body_one fold [simplified])
  next
    case False
    have z: "?z ((119 - ?u) mod 64) = ?z (63 - ?u) @ ?z 56"
    proof -
      have "119 - ?u < 64" "119 - ?u = 63 - ?u + 56"
        using False u64 by simp_all
      then show ?thesis
        by (simp only: mod_less replicate_add)
    qed
    let ?x = "tail64 msg @ 0x80 # ?z (63 - ?u)"
    have w1: "buf_write ?b (Suc ?u) (?z (63 - ?u)) = ?x"
      using b False u64 by (subst buf_write_end) simp_all
    have lenx: "length ?x = 64"
      using u64 by (simp add: length_tail64)
    have w2: "take 56 (buf_write ?x 0 (?z 56)) = ?z 56" "length (buf_write ?x 0 (?z 56)) = 64"
      using buf_write_prefix [of 0 "?z 56" ?x] lenx by simp_all
    have w3: "buf_write (buf_write ?x 0 (?z 56)) 56 ?L = ?z 56 @ ?L"
      using w2 lenL by (subst buf_write_end) (simp_all only: length_replicate)
    have len: "length (?z 56 @ ?L) = 64"
      using lenL by simp
    have fold: "md5_fold s (tail64 msg @ 0x80 # (?z (63 - ?u) @ ?z 56) @ ?L) = md5_block (md5_block s ?x) (?z 56 @ ?L)" for s
    proof -
      have "md5_fold s (?x @ (?z 56 @ ?L)) = md5_fold (md5_block s ?x) (?z 56 @ ?L)"
        using lenx by (rule md5_fold_one)
      also have "\<dots> = md5_block (md5_block s ?x) (?z 56 @ ?L)"
        using len by (simp add: md5_fold_block md5_fold_small)
      finally show ?thesis
        by simp
    qed
    have "MD5_Final ctx = (case md5_block (md5_block (md5_abcd ctx) ?x) (?z 56 @ ?L) of (a, b, c, d) \<Rightarrow>
         le_bytes a @ le_bytes b @ le_bytes c @ le_bytes d)"
    proof -
      have f: "64 - (?u + 1) = 63 - ?u" "(64::nat) - 8 = 56" "?u + 1 = Suc ?u"
        by simp_all
      have f2: "63 - ?u < 8"
        using False by simp
      show ?thesis
        using f2
        by (simp only: MD5_Final_def u f Let_def prod.case w1 lenx md5_body_one md5_ctx.simps w3 len
            simp_thms) (simp add: w1 [simplified] lenx [simplified] md5_body_one w3 [simplified] len [simplified])
    qed
    then show ?thesis
      by (simp only: md5_spec_def pad z fold)
  qed
qed

text \<open>C28: for every key (of a length a 64 bit counter can hold) and every initial
  content of the context, \<open>md5_signature\<close> is the digest of the padded key: one bit, zeros up to a multiple
  of 64 bytes, the bit length in little-endian, and one transformation for each block.\<close>

theorem md5_signature_eq_spec:
  "length (md5_buffer my_md5) = 64 \<Longrightarrow> length key < 2 ^ 64 \<Longrightarrow> md5_signature my_md5 key = md5_spec key"
  using md5_rep_update [OF md5_rep_init] MD5_Final_eq
  by (simp add: md5_signature_def)

lemma md5_signature_eq_spec_witness:
  "md5_signature \<lparr>md5_lo = 7, md5_hi = 9, md5_abcd = (1, 2, 3, 4), md5_buffer = replicate 64 85\<rparr> (replicate 70 97)
   = md5_spec (replicate 70 97)"
  by (rule md5_signature_eq_spec) simp_all

end
