(* ===== verification/Floats.thy ===== *)
theory Floats
  imports Prelude "HOL-Library.Log_Nat"
begin

section \<open>Binary floating point\<close>

text \<open>
  The one floating point computation of the program, the share of a server in the ketama
  continuum, stays in the range of normal numbers, so a value of C's \<open>float\<close> or \<open>double\<close> is
  the rational it stands for and each operation rounds the exact result to 24 or 53
  significant bits, to the nearest and half way to the even one.
\<close>

text \<open>The exponent \<open>e\<close> of a positive number: \<open>2^e \<le> x < 2^(e+1)\<close>.\<close>

definition float_exp :: "rat \<Rightarrow> int" where
  "float_exp x = (let (a, b) = quotient_of x; k = bitlen a - bitlen b in if 2 powi k \<le> x then k else k - 1)"

definition round_even :: "rat \<Rightarrow> int" where
  "round_even y = (let n = \<lfloor>y\<rfloor>; r = y - of_int n in if r < 1 / 2 \<or> r = 1 / 2 \<and> even n then n else n + 1)"

definition float_round :: "int \<Rightarrow> rat \<Rightarrow> rat" where
  "float_round p x = (if x \<le> 0 then 0 else let u = 2 powi (float_exp x - p + 1) in of_int (round_even (x / u)) * u)"

abbreviation single :: "rat \<Rightarrow> rat" where "single \<equiv> float_round 24"
abbreviation double :: "rat \<Rightarrow> rat" where "double \<equiv> float_round 53"

lemma round_even_error: "\<bar>of_int (round_even y) - y\<bar> \<le> 1 / 2"
proof -
  have "of_int \<lfloor>y\<rfloor> \<le> y" "y < of_int \<lfloor>y\<rfloor> + 1" by linarith+
  then show ?thesis by (auto simp: round_even_def Let_def abs_if; linarith)
qed

lemma round_even_int [simp]: "round_even (of_int n) = n"
  by (simp add: round_even_def)

lemma float_exp_bounds:
  assumes "0 < x"
  shows "2 powi float_exp x \<le> x" "x < 2 powi (float_exp x + 1)"
proof -
  obtain a b where q: "quotient_of x = (a, b)" by (cases "quotient_of x")
  have b: "0 < b" and x: "x = of_int a / of_int b" using quotient_of_denom_pos [OF q] quotient_of_div [OF q] by auto
  have a: "0 < a" using assms b x by (simp add: zero_less_divide_iff)
  have bits: "2 powi (bitlen v - 1) \<le> (of_int v :: rat) \<and> (of_int v :: rat) < 2 powi bitlen v" if "0 < v" for v
  proof -
    have "(of_int (2 ^ nat (bitlen v - 1)) :: rat) \<le> of_int v" "(of_int v :: rat) < of_int (2 ^ nat (bitlen v))"
      using bitlen_bounds [OF that] by (simp_all only: of_int_le_iff of_int_less_iff)
    moreover have "0 < bitlen v" using that bitlen_eq_zero_iff [of v] bitlen_nonneg [of v] by linarith
    ultimately show ?thesis by (simp add: power_int_def)
  qed
  let ?k = "bitlen a - bitlen b"
  have "2 powi ?k = (2 powi bitlen a / 2 powi bitlen b :: rat)" by (simp add: power_int_diff)
  moreover have "(2 powi bitlen b :: rat) = 2 * 2 powi (bitlen b - 1)" "(2 powi bitlen a :: rat) = 2 * 2 powi (bitlen a - 1)"
    "(2 powi (?k - 1) :: rat) * 2 = 2 powi ?k" "(2 powi (?k + 1) :: rat) = 2 * 2 powi ?k"
    by (simp_all add: power_int_diff power_int_add)
  moreover have "of_int a / of_int b < (2 powi bitlen a / 2 powi (bitlen b - 1) :: rat)"
    using bits [OF a] bits [OF b] a b by (intro frac_less) auto
  moreover have "(2 powi (bitlen a - 1) / 2 powi bitlen b :: rat) \<le> of_int a / of_int b"
    using bits [OF a] bits [OF b] a b by (intro frac_le) auto
  ultimately have "2 powi (?k - 1) \<le> x" "x < 2 powi (?k + 1)" unfolding x by simp_all
  then show "2 powi float_exp x \<le> x" "x < 2 powi (float_exp x + 1)"
    by (auto simp: float_exp_def q Let_def)
qed

lemma float_round_error:
  assumes "0 \<le> x"
  shows "\<bar>float_round p x - x\<bar> \<le> x * 2 powi (- p)"
proof (cases "x = 0")
  case False
  with assms have x: "0 < x" by simp
  define u :: rat where "u = 2 powi (float_exp x - p + 1)"
  have u: "0 < u" by (simp add: u_def)
  have "float_round p x - x = (of_int (round_even (x / u)) - x / u) * u"
    using x u by (simp add: float_round_def u_def [symmetric] Let_def left_diff_distrib)
  then have "\<bar>float_round p x - x\<bar> = \<bar>of_int (round_even (x / u)) - x / u\<bar> * u" using u by (simp add: abs_mult)
  also have "\<dots> \<le> 1 / 2 * u" using round_even_error u by (intro mult_right_mono) auto
  also have "\<dots> = 2 powi float_exp x * 2 powi (- p)" by (simp add: u_def power_int_add power_int_diff power_int_minus field_simps)
  also have "\<dots> \<le> x * 2 powi (- p)" using float_exp_bounds(1) [OF x] by (intro mult_right_mono) auto
  finally show ?thesis .
qed (simp add: float_round_def)

lemma float_round_exact:
  assumes "0 \<le> m" "m < 2 ^ nat p" "0 \<le> p"
  shows "float_round p (of_int m) = of_int m"
proof (cases "m = 0")
  case False
  with assms(1) have x: "0 < (of_int m :: rat)" by simp
  let ?e = "float_exp (of_int m)"
  have "(2 powi ?e :: rat) < 2 powi p"
    using float_exp_bounds(1) [OF x] assms(2,3) by (rule_tac le_less_trans) (auto simp: power_int_def simp flip: of_int_power of_int_less_iff)
  then have "?e < p" using power_int_increasing [of p ?e "2 :: rat"] by (cases "?e < p") auto
  define k where "k = nat (p - 1 - ?e)"
  have k: "?e - p + 1 = - int k" using \<open>?e < p\<close> by (simp add: k_def)
  have "(of_int m :: rat) / 2 powi (?e - p + 1) = of_int (m * 2 ^ k)" by (simp add: k power_int_minus divide_inverse)
  then show ?thesis using x round_even_int [of "m * 2 ^ k"] by (simp add: float_round_def Let_def k power_int_minus)
qed (simp add: float_round_def)

lemma float_round_nonneg: "0 \<le> x \<Longrightarrow> 1 \<le> p \<Longrightarrow> 0 \<le> float_round p x"
proof -
  assume "0 \<le> x" "1 \<le> p"
  moreover have "(2 powi (- p) :: rat) \<le> 1" using \<open>1 \<le> p\<close> power_int_increasing [of "- p" 0 "2 :: rat"] by simp
  ultimately have "x * 2 powi (- p) \<le> x" using mult_left_le by blast
  then show "0 \<le> float_round p x" using float_round_error [OF \<open>0 \<le> x\<close>, of p] by linarith
qed

text \<open>Bounds that chain: the relative error of every operation is at most \<open>2^-24\<close>.\<close>

definition up :: rat where "up = 1 + 1 / 2 ^ 24"
definition down :: rat where "down = 1 - 1 / 2 ^ 24"

lemma float_round_bounds:
  assumes "0 \<le> x" "24 \<le> p"
  shows "x * down \<le> float_round p x" "float_round p x \<le> x * up"
proof -
  have "(2 powi (- p) :: rat) \<le> 2 powi (- 24)" using assms(2) by (intro power_int_increasing) auto
  also have "\<dots> = 1 / 16777216" by (simp add: power_int_minus)
  finally have "x * 2 powi (- p) \<le> x * (1 / 16777216)" using assms(1) by (intro mult_left_mono)
  then have e: "\<bar>float_round p x - x\<bar> \<le> x * (1 / 16777216)" using float_round_error [OF assms(1), of p] by linarith
  show "x * down \<le> float_round p x" using abs_le_D2 [OF e] by (simp add: down_def field_simps)
  show "float_round p x \<le> x * up" using abs_le_D1 [OF e] by (simp add: up_def field_simps)
qed

lemma float_round_le: "0 \<le> x \<Longrightarrow> x \<le> y \<Longrightarrow> 24 \<le> p \<Longrightarrow> float_round p x \<le> y * up"
  using float_round_bounds(2) [of x p] mult_right_mono [of x y up] by (simp add: up_def)

lemma float_round_ge: "0 \<le> y \<Longrightarrow> y \<le> x \<Longrightarrow> 24 \<le> p \<Longrightarrow> y * down \<le> float_round p x"
  using float_round_bounds(1) [of x p] mult_right_mono [of y x down] by (simp add: down_def)

lemma float_round_pos: "0 < x \<Longrightarrow> 24 \<le> p \<Longrightarrow> 0 < float_round p x"
  using float_round_bounds(1) [of x p] mult_pos_pos [of x down] by (simp add: down_def)

end
