(* ===== verification/Ketama_Share.thy ===== *)
theory Ketama_Share
  imports Floats
begin

section \<open>The share of a server in the ketama continuum (\<open>hashkit/gf_ketama.c\<close>)\<close>

text \<open>
  \<open>pointer_per_server\<close> of \<open>ketama_update\<close>.  The integer operands are converted to \<open>float\<close>, the
  literal is a \<open>double\<close> and so is the addition; the conversion of the result to \<open>uint32_t\<close> is
  defined when it fits.  A total weight that wrapped to 0 makes \<open>pct\<close> infinite, and the
  conversion undefined.
\<close>

definition ketama_pct :: "u32 \<Rightarrow> u32 \<Rightarrow> rat" where
  "ketama_pct weight total_weight = single (single (of_int (uint weight)) / single (of_int (uint total_weight)))"

definition ketama_floor :: "u32 \<Rightarrow> u32 \<Rightarrow> u32 \<Rightarrow> int" where
  "ketama_floor weight total_weight nlive_server =
     \<lfloor>single (double (single (single (single (ketama_pct weight total_weight * 160) / 4) * single (of_int (uint nlive_server)))
        + double (1 / 10 ^ 10)))\<rfloor>"

definition ketama_share :: "u32 \<Rightarrow> u32 \<Rightarrow> u32 \<Rightarrow> u32 option" where
  "ketama_share weight total_weight nlive_server =
     (if total_weight = 0 then None
      else let n = \<lfloor>single (of_int (ketama_floor weight total_weight nlive_server * 4))\<rfloor>
           in if n < 2 ^ 32 then Some (word_of_int n) else None)"

text \<open>What the loop adds to the counter; used where the conversion is defined.\<close>

definition ketama_pointers :: "u32 \<Rightarrow> u32 \<Rightarrow> u32 \<Rightarrow> u32" where
  "ketama_pointers weight total_weight nlive_server =
     (case ketama_share weight total_weight nlive_server of None \<Rightarrow> 0 | Some n \<Rightarrow> n)"

text \<open>
  What the rest of \<open>ketama_update\<close> relies on: the shares are multiples of 4, the servers
  together get at most 160 points each on average, and at least one point.
\<close>

definition ketama_points_ok :: "u32 list \<Rightarrow> bool" where
  "ketama_points_ok ws \<longleftrightarrow>
     (let tw = sum_list ws; n = word_of_nat (length ws); pts = map (\<lambda>v. unat (ketama_pointers v tw n)) ws
      in (\<forall>v \<in> set ws. ketama_share v tw n \<noteq> None) \<and> (\<forall>k \<in> set pts. k mod 4 = 0)
        \<and> sum_list pts \<le> 160 * length ws \<and> 0 < sum_list pts)"

text \<open>The value before \<open>floorf\<close>, as a function of the exact ratio of the weights.\<close>

definition ketama_real :: "rat \<Rightarrow> rat \<Rightarrow> rat \<Rightarrow> rat" where
  "ketama_real w W n = single (double (single (single (single (single (single w / single W) * 160) / 4) * single n) + double (1 / 10 ^ 10)))"

lemma ketama_floor_real: "ketama_floor w W n = \<lfloor>ketama_real (of_int (uint w)) (of_int (uint W)) (of_int (uint n))\<rfloor>"
  by (simp add: ketama_floor_def ketama_pct_def ketama_real_def)

lemma up_down: "0 < up" "0 < down" "0 \<le> up" "0 \<le> down"
  by (simp_all add: up_def down_def)

lemma ketama_real_le:
  assumes "0 \<le> w" "0 < W" "0 \<le> n" "single n = n"
  shows "ketama_real w W n \<le> 40 * n * (w / W) * (1 + 9 / 2 ^ 24) + 1 / 10 ^ 9"
proof -
  have a: "0 \<le> single w" "single w \<le> w * up" "W * down \<le> single W" "0 < single W"
    using assms float_round_nonneg [of w 24] float_round_bounds [of w 24] float_round_bounds [of W 24] float_round_pos [of W 24] by auto
  define A where "A = (w * up) / (W * down)"
  have A: "single w / single W \<le> A" "0 \<le> single w / single W" unfolding A_def using a assms up_down by (auto intro!: frac_le)
  define p where "p = single (single w / single W)"
  have p: "p \<le> A * up" "0 \<le> p" unfolding p_def by (rule float_round_le float_round_nonneg; use A in simp)+
  define t1 where "t1 = single (p * 160)"
  have t1: "t1 \<le> A * up * 160 * up" "0 \<le> t1" unfolding t1_def by (rule float_round_le float_round_nonneg; use p in simp)+
  define t2 where "t2 = single (t1 / 4)"
  have t2: "t2 \<le> A * up * 160 * up / 4 * up" "0 \<le> t2" unfolding t2_def by (rule float_round_le float_round_nonneg; use t1 in simp)+
  define t3 where "t3 = single (t2 * n)"
  have t2n: "t2 * n \<le> A * up * 160 * up / 4 * up * n" "0 \<le> t2 * n" using t2 assms by (auto intro!: mult_right_mono)
  then have t3: "t3 \<le> A * up * 160 * up / 4 * up * n * up" "0 \<le> t3"
    unfolding t3_def by - (rule float_round_le float_round_nonneg; use t2n in simp)+
  define l where "l = double (1 / 10 ^ 10)"
  have l: "l \<le> 1 / 10 ^ 10 * up" "0 \<le> l" unfolding l_def by (rule float_round_le float_round_nonneg; simp)+
  have d: "double (t3 + l) \<le> (t3 + l) * up" "0 \<le> double (t3 + l)" by (rule float_round_le float_round_nonneg; use t3 l in simp)+
  have "single (double (t3 + l)) \<le> (t3 + l) * up * up" by (rule float_round_le) (use d in simp_all)
  also have "\<dots> \<le> (A * up * 160 * up / 4 * up * n * up + 1 / 10 ^ 10 * up) * up * up"
    using t3 l up_down by (intro mult_right_mono add_mono) auto
  also have "\<dots> = 40 * n * (w / W) * (up ^ 7 / down) + up ^ 3 / 10 ^ 10"
    by (simp add: A_def field_simps power_numeral_reduce)
  also have "\<dots> \<le> 40 * n * (w / W) * (1 + 9 / 2 ^ 24) + 1 / 10 ^ 9"
    using assms by (intro add_mono mult_left_mono) (simp_all add: up_def down_def power_divide)
  finally show ?thesis using assms(4) by (simp add: ketama_real_def p_def t1_def t2_def t3_def l_def)
qed

lemma ketama_real_ge:
  assumes "0 \<le> w" "0 < W" "0 \<le> n" "single n = n"
  shows "40 * n * (w / W) * (1 - 9 / 2 ^ 24) \<le> ketama_real w W n"
proof -
  have a: "0 \<le> single w" "w * down \<le> single w" "single W \<le> W * up" "0 < single W"
    using assms float_round_nonneg [of w 24] float_round_bounds [of w 24] float_round_bounds [of W 24] float_round_pos [of W 24] by auto
  define A where "A = (w * down) / (W * up)"
  have A: "A \<le> single w / single W" "0 \<le> A" unfolding A_def using a assms up_down by (auto intro!: frac_le)
  define p where "p = single (single w / single W)"
  have p: "A * down \<le> p" unfolding p_def by (rule float_round_ge) (use A in simp_all)
  define t1 where "t1 = single (p * 160)"
  have t1: "A * down * 160 * down \<le> t1" unfolding t1_def by (rule float_round_ge) (use A p up_down in simp_all)
  define t2 where "t2 = single (t1 / 4)"
  have t2: "A * down * 160 * down / 4 * down \<le> t2" unfolding t2_def by (rule float_round_ge) (use A t1 up_down in simp_all)
  define t3 where "t3 = single (t2 * n)"
  have "A * down * 160 * down / 4 * down * n \<le> t2 * n" using t2 assms by (intro mult_right_mono) auto
  then have t3: "A * down * 160 * down / 4 * down * n * down \<le> t3" unfolding t3_def by (rule float_round_ge [rotated]) (use A assms up_down in simp_all)
  define l where "l = double (1 / 10 ^ 10)"
  have l: "0 \<le> l" unfolding l_def by (rule float_round_nonneg) simp_all
  have d: "A * down * 160 * down / 4 * down * n * down * down \<le> double (t3 + l)"
    by (rule float_round_ge) (use A t3 l assms up_down in simp_all)
  have "A * down * 160 * down / 4 * down * n * down * down * down \<le> single (double (t3 + l))"
    by (rule float_round_ge) (use A d assms up_down in simp_all)
  moreover have "A * down * 160 * down / 4 * down * n * down * down * down = 40 * n * (w / W) * (down ^ 7 / up)"
    by (simp add: A_def field_simps power_numeral_reduce)
  moreover have "40 * n * (w / W) * (1 - 9 / 2 ^ 24) \<le> 40 * n * (w / W) * (down ^ 7 / up)"
    using assms by (intro mult_left_mono) (simp_all add: up_def down_def power_divide)
  ultimately show ?thesis using assms(4) by (simp add: ketama_real_def p_def t1_def t2_def t3_def l_def)
qed

lemma rat_ratio: "0 < a \<Longrightarrow> a \<le> b \<Longrightarrow> 0 \<le> of_int a / (of_int b :: rat) \<and> of_int a / of_int b \<le> (1 :: rat)" for a b :: int
  by simp

subsection \<open>The shares fit\<close>

lemma ketama_share_floor:
  assumes "0 < uint v" "uint v \<le> uint tw" "0 < n" "uint n \<le> 2 ^ 15"
  defines "f \<equiv> ketama_floor v tw n" and "r \<equiv> of_int (uint v) / of_int (uint tw) :: rat"
  shows "ketama_share v tw n = Some (word_of_int (f * 4))" "0 \<le> f" "f < 2 ^ 22"
    "of_int f \<le> 40 * of_int (uint n) * r * (1 + 9 / 2 ^ 24) + 1 / 10 ^ 9"
    "40 * of_int (uint n) * r * (1 - 9 / 2 ^ 24) < of_int f + 1"
proof -
  let ?t = "ketama_real (of_int (uint v)) (of_int (uint tw)) (of_int (uint n))"
  have s: "single (of_int (uint n)) = of_int (uint n)" using assms(4) by (intro float_round_exact) auto
  have tw: "0 < uint tw" using assms(1,2) by simp
  have nn: "0 \<le> uint v" "0 \<le> uint n" by simp_all
  have le: "?t \<le> 40 * of_int (uint n) * r * (1 + 9 / 2 ^ 24) + 1 / 10 ^ 9" unfolding r_def
    by (intro ketama_real_le) (use tw nn s in \<open>simp_all only: of_int_0_le_iff of_int_0_less_iff\<close>)
  have ge: "40 * of_int (uint n) * r * (1 - 9 / 2 ^ 24) \<le> ?t" unfolding r_def
    by (intro ketama_real_ge) (use tw nn s in \<open>simp_all only: of_int_0_le_iff of_int_0_less_iff\<close>)
  have f: "f = \<lfloor>?t\<rfloor>" by (simp add: f_def ketama_floor_real)
  have r: "0 \<le> r" "r \<le> 1" unfolding r_def using rat_ratio [OF assms(1,2)] by (simp_all only:)
  show "of_int f \<le> 40 * of_int (uint n) * r * (1 + 9 / 2 ^ 24) + 1 / 10 ^ 9" using le f by linarith
  show "40 * of_int (uint n) * r * (1 - 9 / 2 ^ 24) < of_int f + 1" using ge f by linarith
  have "(0 :: rat) \<le> of_int (uint n)" by (simp only: of_int_0_le_iff nn)
  then have "0 \<le> 40 * of_int (uint n) * r * (1 - 9 / 2 ^ 24)" using r by (intro mult_nonneg_nonneg) simp_all
  then show f0: "0 \<le> f" using ge f by linarith
  have "of_int (uint n) \<le> (of_int (2 ^ 15) :: rat)" using assms(4) by (simp only: of_int_le_iff)
  then have "(of_int (uint n) :: rat) \<le> 2 ^ 15" by (simp only: of_int_power of_int_numeral)
  then have "40 * of_int (uint n) * r * (1 + 9 / 2 ^ 24) \<le> 40 * 2 ^ 15 * 1 * (1 + 9 / 2 ^ 24)"
    using r \<open>(0 :: rat) \<le> of_int (uint n)\<close> by (intro mult_right_mono mult_mono) simp_all
  then have "?t < 2 ^ 22" using le by simp
  then show f1: "f < 2 ^ 22" by (simp add: f floor_less_iff)
  have "single (of_int (f * 4)) = of_int (f * 4)" using f0 f1 by (intro float_round_exact) auto
  then have "\<lfloor>single (of_int (f * 4))\<rfloor> = f * 4" by (simp only: floor_of_int)
  moreover have "tw \<noteq> 0" using tw by auto
  moreover have "f * 4 < 2 ^ 32" using f1 by simp
  ultimately show "ketama_share v tw n = Some (word_of_int (f * 4))" by (simp only: ketama_share_def f_def [symmetric] Let_def if_False if_True)
qed

lemma unat_word_of_int: "0 \<le> x \<Longrightarrow> x < 2 ^ 32 \<Longrightarrow> unat (word_of_int x :: u32) = nat x"
  by (simp add: unsigned_of_int take_bit_int_eq_self)

lemma unat_sum_list:
  "sum_list (map unat ws) < 2 ^ 32 \<Longrightarrow> unat (sum_list ws) = sum_list (map unat ws)" for ws :: "u32 list"
proof (induction ws)
  case (Cons x xs)
  then have "unat (sum_list xs) = sum_list (map unat xs)"
    by simp
  with Cons.prems show ?case
    by (simp add: unat_word_ariths)
qed simp

lemma sum_floor_bound:
  assumes "\<And>v. v \<in> set ws \<Longrightarrow> of_int (f v) \<le> c * g v + (e :: rat)" "sum_list (map g ws) = 1" "c + of_nat (length ws) * e < of_nat (m + 1)"
  shows "sum_list (map f ws) \<le> int m"
proof -
  have "(of_int (sum_list (map f ws)) :: rat) \<le> c * sum_list (map g ws) + of_nat (length ws) * e"
    using assms(1)
  proof (induction ws)
    case (Cons v ws)
    then have "of_int (f v) \<le> c * g v + e" "of_int (sum_list (map f ws)) \<le> c * sum_list (map g ws) + of_nat (length ws) * e" by auto
    then show ?case by (simp add: algebra_simps)
  qed simp
  also have "\<dots> < of_nat (m + 1)" using assms(2,3) by simp
  finally have "(of_int (sum_list (map f ws)) :: rat) < of_int (int m + 1)" by simp
  then show ?thesis by (simp only: of_int_less_iff)
qed

lemma ketama_points_ok_weights:
  assumes "ws \<noteq> []" "\<forall>v\<in>set ws. 0 < v" "sum_list (map unat ws) < 2 ^ 32" "length ws \<le> 2 ^ 15"
  shows "ketama_points_ok ws"
proof -
  define tw n where "tw = sum_list ws" and "n = (word_of_nat (length ws) :: u32)"
  let ?W = "of_int (uint tw) :: rat" and ?f = "\<lambda>v. ketama_floor v tw n" and ?g = "\<lambda>v :: u32. of_int (uint v) / (of_int (uint tw)) :: rat"
  have W: "unat tw = sum_list (map unat ws)" unfolding tw_def by (rule unat_sum_list [OF assms(3)])
  have n: "uint n = int (length ws)" "0 < n" using assms(1,4) by (auto simp: n_def unsigned_of_nat take_bit_nat_eq_self word_less_nat_alt)
  have v: "0 < uint v" "uint v \<le> uint tw" if "v \<in> set ws" for v
  proof -
    show "0 < uint v" using assms(2) that by (simp add: word_less_def)
    have "unat v \<le> unat tw" unfolding W using that by (intro member_le_sum_list) auto
    then show "uint v \<le> uint tw" by (simp add: word_le_nat_alt flip: word_le_def)
  qed
  note sh = ketama_share_floor [OF v, of _ n]
  have n15: "uint n \<le> 2 ^ 15" using n assms(4) by simp
  have k: "ketama_share v tw n = Some (word_of_int (?f v * 4)) \<and> unat (ketama_pointers v tw n) = nat (?f v) * 4" if "v \<in> set ws" for v
  proof -
    note s = sh [OF that that n(2) n15]
    have "0 \<le> ?f v * 4" "?f v * 4 < 2 ^ 32" using s(2,3) by simp_all
    then have "unat (ketama_pointers v tw n) = nat (?f v * 4)" by (simp only: ketama_pointers_def s(1) option.case unat_word_of_int)
    then show ?thesis using s(1,2) by (simp only: nat_mult_distrib) simp
  qed
  have g: "sum_list (map ?g ws) = 1"
  proof -
    have "sum_list (map ?g ws) = of_int (sum_list (map uint ws)) / ?W" by (induction ws) (simp_all add: add_divide_distrib)
    moreover have "sum_list (map uint ws) = uint tw"
    proof -
      have "sum_list (map uint ws) = int (sum_list (map unat ws))" by (induction ws) simp_all
      then show ?thesis by (simp add: W [symmetric])
    qed
    moreover have "uint tw \<noteq> 0" using v assms(1) by (cases ws) force+
    then have "?W \<noteq> 0" by (simp only: of_int_eq_0_iff not_False_eq_True)
    ultimately show ?thesis using divide_self [of ?W] by metis
  qed
  let ?n = "of_nat (length ws) :: rat"
  have N: "of_int (uint n) = ?n" by (simp only: n(1) of_int_of_nat_eq)
  have le: "sum_list (map ?f ws) \<le> int (40 * length ws)"
  proof (rule sum_floor_bound [OF _ g])
    show "of_int (?f v) \<le> (40 * ?n * (1 + 9 / 2 ^ 24)) * ?g v + 1 / 10 ^ 9" if "v \<in> set ws" for v
      using sh(4) [OF that that n(2) n15] unfolding N by (simp only: mult.assoc mult.commute mult.left_commute)
    have "?n \<le> of_nat (2 ^ 15)" using assms(4) by (simp only: of_nat_le_iff)
    then show "40 * ?n * (1 + 9 / 2 ^ 24) + ?n * (1 / 10 ^ 9) < of_nat (40 * length ws + 1)" by simp
  qed
  have pos: "\<exists>v\<in>set ws. 0 < ?f v"
  proof (rule ccontr)
    assume "\<not> ?thesis"
    then have z: "?f v \<le> 0" if "v \<in> set ws" for v using that by force
    have "40 * ?n * (1 - 9 / 2 ^ 24) * ?g v < 1" if "v \<in> set ws" for v
    proof -
      have "40 * of_int (uint n) * ?g v * (1 - 9 / 2 ^ 24) < of_int (?f v) + 1" by (rule sh(5) [OF that that n(2) n15])
      moreover have "of_int (?f v) \<le> (0 :: rat)" using z [OF that] by simp
      ultimately have "40 * of_int (uint n) * ?g v * (1 - 9 / 2 ^ 24) < 1" by linarith
      then show ?thesis unfolding N by (simp only: mult.assoc mult.commute mult.left_commute)
    qed
    then have "sum_list (map (\<lambda>v. 40 * ?n * (1 - 9 / 2 ^ 24) * ?g v) ws) \<le> sum_list (map (\<lambda>_. 1) ws)"
      by (intro sum_list_mono) force
    moreover have "sum_list (map (\<lambda>_. 1 :: rat) ws) = ?n" by (simp add: sum_list_triv)
    ultimately have "40 * ?n * (1 - 9 / 2 ^ 24) * sum_list (map ?g ws) \<le> ?n" by (simp only: sum_list_const_mult)
    then show False using assms(1) unfolding g by (cases ws) auto
  qed
  have pts: "map (\<lambda>v. unat (ketama_pointers v tw n)) ws = map (\<lambda>v. nat (?f v) * 4) ws" using k by simp
  have f0: "0 \<le> ?f v" if "v \<in> set ws" for v using sh(2) [OF that that n(2) n15] .
  have "int (sum_list (map (\<lambda>v. nat (?f v) * 4) ws)) = sum_list (map ?f ws) * 4"
    using f0 by (induction ws) (auto simp: algebra_simps)
  then have "sum_list (map (\<lambda>v. nat (?f v) * 4) ws) \<le> 160 * length ws" using le by simp
  moreover have "0 < sum_list (map (\<lambda>v. nat (?f v) * 4) ws)"
  proof -
    obtain v where "v \<in> set ws" "0 < ?f v" using pos by blast
    then have "nat (?f v) * 4 \<le> sum_list (map (\<lambda>v. nat (?f v) * 4) ws)" "0 < nat (?f v) * 4" by (auto intro: member_le_sum_list)
    then show ?thesis by linarith
  qed
  ultimately show ?thesis
    using k unfolding ketama_points_ok_def tw_def [symmetric] n_def [symmetric] Let_def pts by auto
qed

end
