(* ===== verification/Dispatch.thy ===== *)
theory Dispatch
  imports Sample Hash_Crc Hash_Md5 Ketama_Share
begin

section \<open>Key hashing and distribution (\<open>hashkit/\<close>, \<open>gf_server.c\<close>)\<close>

text \<open>
  From a key to a server: the hasher of the pool, the part of the key inside the hash tag,
  and the three distributions, each an \<open>update\<close> that builds the continuum from the live
  servers and a \<open>dispatch\<close> that picks a point of it.  The number of points ketama gives a
  server is that of theory \<open>Ketama_Share\<close>.
  Results: the binary search finds the first point that is not smaller than the hash, the
  built continuum holds exactly the points of the live servers, writing it never leaves the
  allocation, and the chosen index is that of a server of the pool.
\<close>

unbundle bit_operations_syntax

subsection \<open>The hashers\<close>

text \<open>
  A key hasher may only read the bytes of the key.  \<open>hash_jenkins\<close> also looks at the
  address of the key, to choose how wide its loads are.
\<close>

definition hash_at :: "(memory \<Rightarrow> nat \<Rightarrow> u32) \<Rightarrow> memory \<Rightarrow> nat \<Rightarrow> nat \<Rightarrow> u32" where
  "hash_at h m key keylen = h (\<lambda>i. m (key + i)) keylen"

definition md5_zero :: md5_ctx where
  "md5_zero = \<lparr>md5_lo = 0, md5_hi = 0, md5_abcd = (0, 0, 0, 0), md5_buffer = replicate 64 0\<rparr>"

definition key_hash :: "hash_type \<Rightarrow> memory \<Rightarrow> nat \<Rightarrow> nat \<Rightarrow> u32" where
  "key_hash t m key keylen =
     (let mk = (\<lambda>i. m (key + i)); bs = bytes mk keylen in
      case t of
        HASH_ONE_AT_A_TIME \<Rightarrow> hash_one_at_a_time bs
      | HASH_MD5 \<Rightarrow> hash_md5 md5_zero bs
      | HASH_CRC16 \<Rightarrow> hash_crc16 bs
      | HASH_CRC32 \<Rightarrow> hash_crc32 bs
      | HASH_CRC32A \<Rightarrow> hash_crc32a bs
      | HASH_FNV1_64 \<Rightarrow> hash_fnv1_64 bs
      | HASH_FNV1A_64 \<Rightarrow> hash_fnv1a_64 bs
      | HASH_FNV1_32 \<Rightarrow> hash_fnv1_32 bs
      | HASH_FNV1A_32 \<Rightarrow> hash_fnv1a_32 bs
      | HASH_HSIEH \<Rightarrow> hash_hsieh mk keylen
      | HASH_MURMUR \<Rightarrow> hash_murmur mk keylen
      | HASH_JENKINS \<Rightarrow> hash_jenkins key mk keylen)"

locale key_hasher =
  fixes h :: "memory \<Rightarrow> nat \<Rightarrow> nat \<Rightarrow> u32"
  assumes reads_key_only:
    "(\<And>i. i < n \<Longrightarrow> m (a + i) = m' (a' + i)) \<Longrightarrow> h m a n = h m' a' n"
begin

lemma same_bytes: "bytes (\<lambda>i. m (a + i)) n = bytes (\<lambda>i. m' (a' + i)) n \<Longrightarrow> h m a n = h m' a' n"
  by (rule reads_key_only) (simp add: bytes_def)

end

interpretation kh: key_hasher "key_hash t" for t
proof
  fix n a a' :: nat and m m' :: memory
  assume eq: "\<And>i. i < n \<Longrightarrow> m (a + i) = m' (a' + i)"
  have b: "bytes (\<lambda>i. m (a + i)) n = bytes (\<lambda>i. m' (a' + i)) n"
    by (rule bytes_cong) (rule eq)
  have h: "hash_hsieh (\<lambda>i. m (a + i)) n = hash_hsieh (\<lambda>i. m' (a' + i)) n"
    by (rule hash_hsieh_cong) (rule eq)
  have u: "hash_murmur (\<lambda>i. m (a + i)) n = hash_murmur (\<lambda>i. m' (a' + i)) n"
    by (rule hash_murmur_cong) (rule eq)
  have "hash_jenkins a (\<lambda>i. m (a + i)) n = hash_jenkins a (\<lambda>i. m' (a' + i)) n"
    by (rule hash_jenkins_cong) (rule eq)
  also have "\<dots> = hash_jenkins a' (\<lambda>i. m' (a' + i)) n"
    by (rule hash_jenkins_width)
  finally show "key_hash t m a n = key_hash t m' a' n"
    unfolding key_hash_def Let_def by (simp only: b h u)
qed

text \<open>each of the twelve hashers depends on the bytes of the key and on its
  length only: not on what follows the key in memory, and not on its address, although \<open>hash_jenkins\<close>
  loads words of 4, 2 or 1 bytes by the alignment of the address.\<close>

theorem key_hash_reads_key_only:
  "bytes (\<lambda>i. m (a + i)) n = bytes (\<lambda>i. m' (a' + i)) n \<Longrightarrow> key_hash t m a n = key_hash t m' a' n"
  by (rule kh.same_bytes)

lemma key_hash_reads_key_only_witness:
  "key_hash HASH_JENKINS (\<lambda>i. word_of_nat i) 4 3 = key_hash HASH_JENKINS (\<lambda>i. word_of_nat (i - 1)) 5 3"
  by (rule key_hash_reads_key_only) (simp add: bytes_def upt_rec)

subsection \<open>The ketama continuum\<close>

definition ketama_hash :: "u8 list \<Rightarrow> nat \<Rightarrow> u32" where
  "ketama_hash key al = digest_u32 (md5_signature md5_zero key) al"

definition KETAMA_CONTINUUM_ADDITION :: u32 where "KETAMA_CONTINUUM_ADDITION = 10"
definition KETAMA_POINTS_PER_SERVER :: u32 where "KETAMA_POINTS_PER_SERVER = 160"
definition KETAMA_MAX_HOSTLEN :: nat where "KETAMA_MAX_HOSTLEN = 273"

text \<open>\<open>snprintf(host, KETAMA_MAX_HOSTLEN, "%.*s-%u", ...)\<close>, cut at the size of the buffer.\<close>

definition ketama_host :: "u8 list \<Rightarrow> nat \<Rightarrow> u8 list" where
  "ketama_host name i =
     take (KETAMA_MAX_HOSTLEN - 1) (takeWhile (\<lambda>b. b \<noteq> 0) name @ [45] @ decimal i)"

text \<open>
  The first loop of the updates: count the live servers and their weight, let an ejected
  server whose time has come back in, and find the time of the next rebuild.
\<close>

primrec live_scan ::
  "bool \<Rightarrow> int \<Rightarrow> server list \<Rightarrow> u32 \<Rightarrow> u32 \<Rightarrow> int \<Rightarrow> server list \<times> u32 \<times> u32 \<times> int" where
  "live_scan auto now [] nlive weight rebuild = ([], nlive, weight, rebuild)"
| "live_scan auto now (s # ss) nlive weight rebuild =
     (let (s, nlive, rebuild) =
        (if auto then
           (if s_next_retry s \<le> now then (s\<lparr>s_next_retry := 0\<rparr>, nlive + 1, rebuild)
            else if rebuild = 0 \<or> s_next_retry s < rebuild then (s, nlive, s_next_retry s)
            else (s, nlive, rebuild))
         else (s, nlive + 1, rebuild));
        weight = (if \<not> auto \<or> s_next_retry s \<le> now then weight + s_weight s else weight);
        (ss, res) = live_scan auto now ss nlive weight rebuild
      in (s # ss, res))"

text \<open>The servers the second loop does not skip, with their index.\<close>

definition live_servers :: "bool \<Rightarrow> int \<Rightarrow> server list \<Rightarrow> (nat \<times> server) list" where
  "live_servers auto now ss = filter (\<lambda>(i, s). \<not> (auto \<and> now < s_next_retry s)) (enumerate 0 ss)"

definition ketama_server_points :: "nat \<Rightarrow> server \<Rightarrow> u32 \<Rightarrow> continuum list" where
  "ketama_server_points i s n =
     concat (map (\<lambda>j. map (\<lambda>x. \<lparr>k_index = word_of_nat i, k_value = ketama_hash (ketama_host (s_name s) j) x\<rparr>) [0..<4])
       [0..<unat (n div 4)])"

definition ketama_points :: "u32 \<Rightarrow> u32 \<Rightarrow> (nat \<times> server) list \<Rightarrow> continuum list" where
  "ketama_points tw nlive live =
     concat (map (\<lambda>(i, s). ketama_server_points i s (ketama_pointers (s_weight s) tw nlive)) live)"

definition ketama_count :: "u32 \<Rightarrow> u32 \<Rightarrow> (nat \<times> server) list \<Rightarrow> u32" where
  "ketama_count tw nlive live = sum_list (map (\<lambda>(i, s). ketama_pointers (s_weight s) tw nlive) live)"

text \<open>Stores to the continuum, one after the other; one past the allocation has no result.\<close>

primrec put_points :: "continuum list \<Rightarrow> nat \<Rightarrow> continuum list \<Rightarrow> continuum list option" where
  "put_points c i [] = Some c"
| "put_points c i (e # es) = (if i < length c then put_points (c[i := e]) (Suc i) es else None)"

text \<open>
  \<open>realloc\<close> of the continuum: the old points are kept, the new slots hold anything, here 0.
\<close>

definition grow_to :: "nat \<Rightarrow> continuum list option \<Rightarrow> continuum list" where
  "grow_to n c = (let old = (case c of None \<Rightarrow> [] | Some c \<Rightarrow> c)
     in take n old @ replicate (n - length old) \<lparr>k_index = 0, k_value = 0\<rparr>)"

definition realloc_continuum :: "nat \<Rightarrow> u32 \<Rightarrow> u32 \<Rightarrow> world \<Rightarrow> int \<times> world" where
  "realloc_continuum p nserver_continuum ncontinuum w =
     (let (ok, w) = gf_alloc w
      in if ok then
           (GF_OK, upd_pool p (\<lambda>sp. sp\<lparr>p_continuum := Some (grow_to (unat ncontinuum) (p_continuum sp)),
              p_nserver_continuum := nserver_continuum\<rparr>) w)
         else (GF_ENOMEM, w))"

text \<open>
  The reallocation step of the updates: the first time, and when more servers (or units of
  weight) are live than the continuum was allocated for.
\<close>

definition grow_continuum :: "nat \<Rightarrow> u32 \<Rightarrow> u32 \<Rightarrow> u32 \<Rightarrow> world \<Rightarrow> int \<times> world" where
  "grow_continuum p used addition per w =
     (if p_nserver_continuum (pool w p) < used
      then realloc_continuum p (used + addition) ((used + addition) * per) w
      else (GF_OK, w))"

definition ketama_update :: "nat \<Rightarrow> world \<Rightarrow> (int \<times> world) option" where
  "ketama_update p w = do {
     ASSERT (0 < length (p_server (pool w p))) w;
     let (now, w) = gf_usec_now w;
     if now < 0 then Some (GF_ERROR, w)
     else do {
       let auto = p_auto_eject_hosts (pool w p);
       let (ss, nlive, tw, rebuild) = live_scan auto now (p_server (pool w p)) 0 0 0;
       ASSERT (\<forall>s \<in> set ss. 0 < s_weight s) w;
       let w = upd_pool p (\<lambda>sp. sp\<lparr>p_server := ss, p_next_rebuild := rebuild, p_nlive_server := nlive\<rparr>) w;
       if nlive = 0 then Some (GF_OK, w)
       else do {
         let (status, w) = grow_continuum p nlive KETAMA_CONTINUUM_ADDITION KETAMA_POINTS_PER_SERVER w;
         if status \<noteq> GF_OK then Some (status, w)
         else do {
           let live = live_servers auto now ss;
           c \<leftarrow> p_continuum (pool w p);
           c \<leftarrow> (if list_all (\<lambda>(i, s). ketama_share (s_weight s) tw nlive \<noteq> None) live
                then put_points c 0 (ketama_points tw nlive live) else None);
           let cnt = ketama_count tw nlive live;
           let c = sort_key k_value (take (unat cnt) c) @ drop (unat cnt) c;
           let w = upd_pool p (\<lambda>sp. sp\<lparr>p_continuum := Some c, p_ncontinuum := cnt\<rparr>) w;
           ASSERT (sorted (map k_value (take (unat cnt) c))) w;
           Some (GF_OK, w) } } } }"

text \<open>The binary search; \<open>left\<close> and \<open>right\<close> are offsets from \<open>continuum\<close>.\<close>

function ketama_search :: "continuum list \<Rightarrow> u32 \<Rightarrow> nat \<Rightarrow> nat \<Rightarrow> nat" where
  "ketama_search c hash left right =
     (if left < right then
        (let middle = left + (right - left) div 2 in
         if k_value (c ! middle) < hash then ketama_search c hash (middle + 1) right
         else ketama_search c hash left middle)
      else right)"
  by pat_completeness auto
termination
  by (relation "measure (\<lambda>(c, hash, left, right). right - left)") auto

declare ketama_search.simps [simp del]

text \<open>A load from the continuum; outside the allocation it has no result.\<close>

definition point_index :: "continuum list \<Rightarrow> nat \<Rightarrow> u32 option" where
  "point_index c i = (if i < length c then Some (k_index (c ! i)) else None)"

definition ketama_dispatch :: "continuum list \<Rightarrow> u32 \<Rightarrow> u32 \<Rightarrow> u32 option" where
  "ketama_dispatch c ncontinuum hash =
     (let right = ketama_search c hash 0 (unat ncontinuum);
          right = (if right = unat ncontinuum then 0 else right)
      in point_index c right)"

subsection \<open>The modula and random distributions\<close>

definition MODULA_CONTINUUM_ADDITION :: u32 where "MODULA_CONTINUUM_ADDITION = 10"
definition MODULA_POINTS_PER_SERVER :: u32 where "MODULA_POINTS_PER_SERVER = 1"
definition RANDOM_CONTINUUM_ADDITION :: u32 where "RANDOM_CONTINUUM_ADDITION = 10"
definition RANDOM_POINTS_PER_SERVER :: u32 where "RANDOM_POINTS_PER_SERVER = 1"

definition modula_points :: "(nat \<times> server) list \<Rightarrow> continuum list" where
  "modula_points live =
     concat (map (\<lambda>(i, s). replicate (unat (s_weight s)) \<lparr>k_index = word_of_nat i, k_value = 0\<rparr>) live)"

definition modula_update :: "nat \<Rightarrow> world \<Rightarrow> (int \<times> world) option" where
  "modula_update p w = do {
     let (now, w) = gf_usec_now w;
     if now < 0 then Some (GF_ERROR, w)
     else do {
       let auto = p_auto_eject_hosts (pool w p);
       let (ss, nlive, tw, rebuild) = live_scan auto now (p_server (pool w p)) 0 0 0;
       ASSERT (\<forall>s \<in> set ss. 0 < s_weight s) w;
       let w = upd_pool p (\<lambda>sp. sp\<lparr>p_server := ss, p_next_rebuild := rebuild, p_nlive_server := nlive\<rparr>) w;
       if nlive = 0 then do {
         ASSERT (p_continuum (pool w p) \<noteq> None) w;
         ASSERT (p_ncontinuum (pool w p) \<noteq> 0) w;
         Some (GF_OK, w) }
       else do {
         let (status, w) = grow_continuum p tw MODULA_CONTINUUM_ADDITION MODULA_POINTS_PER_SERVER w;
         if status \<noteq> GF_OK then Some (status, w)
         else do {
           let points = modula_points (live_servers auto now ss);
           c \<leftarrow> p_continuum (pool w p);
           c \<leftarrow> put_points c 0 points;
           Some (GF_OK, upd_pool p (\<lambda>sp. sp\<lparr>p_continuum := Some c,
             p_ncontinuum := word_of_nat (length points)\<rparr>) w) } } } }"

text \<open>A remainder by 0 traps.\<close>

definition modula_dispatch :: "continuum list \<Rightarrow> u32 \<Rightarrow> u32 \<Rightarrow> u32 option" where
  "modula_dispatch c ncontinuum hash =
     (if ncontinuum = 0 then None else point_index c (unat (hash mod ncontinuum)))"

definition random_points :: "(nat \<times> server) list \<Rightarrow> continuum list" where
  "random_points live = map (\<lambda>(i, s). \<lparr>k_index = word_of_nat i, k_value = 0\<rparr>) live"

definition random_update :: "nat \<Rightarrow> world \<Rightarrow> (int \<times> world) option" where
  "random_update p w = do {
     let (now, w) = gf_usec_now w;
     if now < 0 then Some (GF_ERROR, w)
     else do {
       let auto = p_auto_eject_hosts (pool w p);
       let (ss, nlive, tw, rebuild) = live_scan auto now (p_server (pool w p)) 0 0 0;
       let w = upd_pool p (\<lambda>sp. sp\<lparr>p_server := ss, p_next_rebuild := rebuild, p_nlive_server := nlive\<rparr>) w;
       if nlive = 0 then do {
         ASSERT (p_continuum (pool w p) \<noteq> None) w;
         ASSERT (p_ncontinuum (pool w p) \<noteq> 0) w;
         Some (GF_OK, w) }
       else do {
         let grow = p_nserver_continuum (pool w p) < nlive;
         let (status, w) = grow_continuum p nlive RANDOM_CONTINUUM_ADDITION RANDOM_POINTS_PER_SERVER w;
         if status \<noteq> GF_OK then Some (status, w)
         else do {
           let w = (if grow then snd (sys Sys_srandom (snd (sys Sys_time w))) else w);
           let points = random_points (live_servers auto now ss);
           c \<leftarrow> p_continuum (pool w p);
           c \<leftarrow> put_points c 0 points;
           Some (GF_OK, upd_pool p (\<lambda>sp. sp\<lparr>p_continuum := Some c,
             p_ncontinuum := word_of_nat (length points)\<rparr>) w) } } } }"

text \<open>\<open>random()\<close> is a non-negative \<open>long\<close>; the remainder is taken at that width.\<close>

definition random_dispatch :: "continuum list \<Rightarrow> u32 \<Rightarrow> world \<Rightarrow> (u32 \<times> world) option" where
  "random_dispatch c ncontinuum w = do {
     let (r, w) = sys Sys_random w;
     if ncontinuum = 0 then None
     else do {
       idx \<leftarrow> point_index c (nat (r_ret r) mod unat ncontinuum);
       Some (idx, w) } }"

definition server_pool_run :: "nat \<Rightarrow> world \<Rightarrow> (int \<times> world) option" where
  "server_pool_run p w = do {
     ASSERT (length (p_server (pool w p)) \<noteq> 0) w;
     case p_dist_type (pool w p) of
       DIST_KETAMA \<Rightarrow> ketama_update p w
     | DIST_MODULA \<Rightarrow> modula_update p w
     | DIST_RANDOM \<Rightarrow> random_update p w }"

subsection \<open>From a key to a server index\<close>

text \<open>\<open>_gf_strchr\<close>: the first occurrence of a byte between two addresses.\<close>

function gf_strchr :: "memory \<Rightarrow> nat \<Rightarrow> nat \<Rightarrow> u8 \<Rightarrow> nat option" where
  "gf_strchr m p l c = (if p < l then (if m p = c then Some p else gf_strchr m (p + 1) l c) else None)"
  by pat_completeness auto
termination
  by (relation "measure (\<lambda>(m, p, l, c). l - p)") auto

declare gf_strchr.simps [simp del]

definition server_pool_hash :: "server_pool \<Rightarrow> memory \<Rightarrow> nat \<Rightarrow> nat \<Rightarrow> u32" where
  "server_pool_hash sp m key keylen =
     (if length (p_server sp) = 1 then 0
      else if keylen = 0 then 0
      else key_hash (p_key_hash_type sp) m key keylen)"

text \<open>
  The part of the key between the two bytes of the hash tag.  The string of a one byte tag
  ends with a NUL, which is then the second byte.
\<close>

definition tagged_key :: "u8 list \<Rightarrow> memory \<Rightarrow> nat \<Rightarrow> nat \<Rightarrow> nat \<times> nat" where
  "tagged_key tag m key keylen =
     (if tag = [] then (key, keylen)
      else case gf_strchr m key (key + keylen) (tag ! 0) of
        None \<Rightarrow> (key, keylen)
      | Some tag_start \<Rightarrow>
          (case gf_strchr m (tag_start + 1) (key + keylen) ((tag @ [0]) ! 1) of
             None \<Rightarrow> (key, keylen)
           | Some tag_end \<Rightarrow>
               if 1 < tag_end - tag_start then (tag_start + 1, tag_end - (tag_start + 1))
               else (key, keylen)))"

definition server_pool_idx ::
  "server_pool \<Rightarrow> memory \<Rightarrow> nat \<Rightarrow> nat \<Rightarrow> world \<Rightarrow> (u32 \<times> world) option" where
  "server_pool_idx sp m key keylen w = do {
     let nserver = length (p_server sp);
     ASSERT (nserver \<noteq> 0) w;
     if nserver = 1 then Some (0, w)
     else do {
       let (key, keylen) = tagged_key (p_hash_tag sp) m key keylen;
       c \<leftarrow> p_continuum sp;
       (idx, w) \<leftarrow> (case p_dist_type sp of
           DIST_KETAMA \<Rightarrow> do {
             idx \<leftarrow> ketama_dispatch c (p_ncontinuum sp) (server_pool_hash sp m key keylen);
             Some (idx, w) }
         | DIST_MODULA \<Rightarrow> do {
             idx \<leftarrow> modula_dispatch c (p_ncontinuum sp) (server_pool_hash sp m key keylen);
             Some (idx, w) }
         | DIST_RANDOM \<Rightarrow> random_dispatch c (p_ncontinuum sp) w);
       ASSERT (unat idx < nserver) w;
       Some (idx, w) } }"

subsection \<open>Dispatching on a continuum\<close>

lemma ketama_search_bounds:
  assumes "left \<le> right" and "right \<le> n"
    and "\<And>i. i < left \<Longrightarrow> k_value (c ! i) < h" and "\<And>i. right \<le> i \<Longrightarrow> i < n \<Longrightarrow> \<not> k_value (c ! i) < h"
    and sorted: "\<And>i j. i \<le> j \<Longrightarrow> j < n \<Longrightarrow> k_value (c ! i) \<le> k_value (c ! j)"
  shows "ketama_search c h left right \<le> n \<and>
    (\<forall>i < ketama_search c h left right. k_value (c ! i) < h) \<and>
    (\<forall>i. ketama_search c h left right \<le> i \<longrightarrow> i < n \<longrightarrow> \<not> k_value (c ! i) < h)"
  using assms
proof (induction c h left right rule: ketama_search.induct)
  case (1 c h left right)
  let ?m = "left + (right - left) div 2"
  show ?case
  proof (cases "left < right")
    case False
    with "1.prems" show ?thesis
      by (simp add: ketama_search.simps)
  next
    case True
    then have m: "left \<le> ?m" "?m < right"
      by auto
    have step: "ketama_search c h left right =
      (if k_value (c ! ?m) < h then ketama_search c h (?m + 1) right else ketama_search c h left ?m)"
      using True by (subst ketama_search.simps) (simp add: Let_def)
    show ?thesis
    proof (cases "k_value (c ! ?m) < h")
      case less: True
      have "k_value (c ! i) < h" if "i < ?m + 1" for i
        using that less "1.prems"(5) [of i ?m] m "1.prems"(2) by (cases "i = ?m") auto
      then show ?thesis
        unfolding step using less m "1.prems" True by (simp only: if_True) (rule "1.IH"(1) [OF True refl less], auto)
    next
      case ge: False
      have "\<not> k_value (c ! i) < h" if "?m \<le> i" "i < n" for i
        using that ge "1.prems"(5) [of ?m i] by auto
      then show ?thesis
        unfolding step using ge m "1.prems" True by (simp only: if_False) (rule "1.IH"(2) [OF True refl ge], auto)
    qed
  qed
qed

lemma search_takeWhile:
  assumes "r \<le> length xs" and "\<And>i. i < r \<Longrightarrow> P (xs ! i)" and "\<And>i. r \<le> i \<Longrightarrow> i < length xs \<Longrightarrow> \<not> P (xs ! i)"
  shows "takeWhile P xs = take r xs" and "dropWhile P xs = drop r xs"
proof -
  show *: "takeWhile P xs = take r xs"
  proof (cases "r < length xs")
    case True
    then show ?thesis
      using assms by (intro takeWhile_eq_take_P_nth) auto
  next
    case False
    with assms show ?thesis
      by (auto simp: takeWhile_eq_all_conv in_set_conv_nth)
  qed
  show "dropWhile P xs = drop r xs"
    using takeWhile_dropWhile_id [of P xs] append_take_drop_id [of r xs] unfolding * by (metis same_append_eq)
qed

lemma ketama_search_first:
  assumes "sorted (map k_value (take n c))" and "n \<le> length c"
  shows "dropWhile (\<lambda>e. k_value e < h) (take n c) = drop (ketama_search c h 0 n) (take n c)"
    and "ketama_search c h 0 n \<le> n"
proof -
  have s: "k_value (c ! i) \<le> k_value (c ! j)" if "i \<le> j" "j < n" for i j
    using sorted_nth_mono [OF assms(1), of i j] that assms(2) by simp
  note b = ketama_search_bounds [of 0 n n c h, OF _ _ _ _ s, simplified]
  show "ketama_search c h 0 n \<le> n"
    using b by simp
  show "dropWhile (\<lambda>e. k_value e < h) (take n c) = drop (ketama_search c h 0 n) (take n c)"
    using b assms(2) by (intro search_takeWhile) auto
qed

text \<open>C19: on a continuum whose first \<open>ncontinuum\<close> points are sorted, the binary
  search of \<open>ketama_dispatch\<close> picks the first point that is not smaller than the hash, and wraps to the
  first point when there is none.\<close>

theorem ketama_dispatch_first:
  assumes "sorted (map k_value (take (unat n) c))" and "unat n \<le> length c" and "n \<noteq> 0"
  shows "ketama_dispatch c n h =
    Some (k_index (hd (dropWhile (\<lambda>e. k_value e < h) (take (unat n) c) @ [c ! 0])))"
proof -
  let ?r = "ketama_search c h 0 (unat n)"
  have n: "0 < unat n"
    using assms(3) by (simp add: unat_gt_0)
  note f = ketama_search_first [OF assms(1,2), of h]
  show ?thesis
  proof (cases "?r = unat n")
    case True
    with f assms(2) have "dropWhile (\<lambda>e. k_value e < h) (take (unat n) c) = []"
      by simp
    moreover have "c \<noteq> []"
      using n assms(2) by auto
    ultimately show ?thesis
      using True by (simp add: ketama_dispatch_def point_index_def Let_def del: dropWhile_eq_Nil_conv)
  next
    case False
    with f have r: "?r < unat n"
      by simp
    then have "hd (drop ?r (take (unat n) c) @ [c ! 0]) = c ! ?r"
      using assms(2) by (simp add: hd_append hd_drop_conv_nth)
    with f r assms(2) show ?thesis
      by (simp add: ketama_dispatch_def point_index_def Let_def)
  qed
qed

text \<open>
  What the pool relies on: a distribution picks one of the first \<open>ncontinuum\<close> points,
  whatever the hash.
\<close>

locale distribution =
  fixes dispatch :: "continuum list \<Rightarrow> u32 \<Rightarrow> u32 \<Rightarrow> u32 option"
  assumes picks_point:
    "0 < unat n \<Longrightarrow> unat n \<le> length c \<Longrightarrow> \<exists>i < unat n. dispatch c n h = Some (k_index (c ! i))"
begin

lemma picks_live:
  assumes "0 < unat n" and "unat n \<le> length c" and "\<And>e. e \<in> set (take (unat n) c) \<Longrightarrow> P (k_index e)"
  shows "\<exists>idx. dispatch c n h = Some idx \<and> P idx"
proof -
  obtain i where i: "i < unat n" "dispatch c n h = Some (k_index (c ! i))"
    using picks_point assms by blast
  then have "c ! i \<in> set (take (unat n) c)"
    using assms(2) by (auto simp: in_set_conv_nth)
  with i assms(3) show ?thesis
    by auto
qed

end

lemma ketama_search_le: "left \<le> right \<Longrightarrow> ketama_search c h left right \<le> right"
proof (induction c h left right rule: ketama_search.induct)
  case (1 c h left right)
  show ?case
  proof (cases "left < right")
    case True
    then have "left + (right - left) div 2 + 1 \<le> right" "left + (right - left) div 2 \<le> right"
      by auto
    then show ?thesis
      using "1.IH"(1) [OF True refl] "1.IH"(2) [OF True refl] True
      by (subst ketama_search.simps) (auto simp: Let_def)
  qed (simp add: ketama_search.simps)
qed

interpretation ketama: distribution ketama_dispatch
proof
  fix n h :: u32 and c :: "continuum list"
  assume n: "0 < unat n" "unat n \<le> length c"
  let ?r = "ketama_search c h 0 (unat n)"
  have r: "?r \<le> unat n"
    by (rule ketama_search_le) simp
  show "\<exists>i < unat n. ketama_dispatch c n h = Some (k_index (c ! i))"
  proof (cases "?r = unat n")
    case True
    with n show ?thesis
      by (intro exI [of _ 0]) (auto simp: ketama_dispatch_def point_index_def Let_def)
  next
    case False
    with r n show ?thesis
      by (intro exI [of _ ?r]) (simp add: ketama_dispatch_def point_index_def Let_def)
  qed
qed

interpretation modula: distribution modula_dispatch
proof
  fix n h :: u32 and c :: "continuum list"
  assume n: "0 < unat n" "unat n \<le> length c"
  then have "n \<noteq> 0" "unat (h mod n) < unat n"
    by (auto simp: unat_mod)
  with n show "\<exists>i < unat n. modula_dispatch c n h = Some (k_index (c ! i))"
    by (intro exI [of _ "unat (h mod n)"]) (simp add: modula_dispatch_def point_index_def)
qed

subsection \<open>Building a continuum\<close>

lemma put_points_fits:
  "i + length es \<le> length c \<Longrightarrow> put_points c i es = Some (take i c @ es @ drop (i + length es) c)"
proof (induction es arbitrary: c i)
  case (Cons e es)
  then have "put_points c i (e # es) = put_points (c[i := e]) (Suc i) es"
    by simp
  also have "\<dots> = Some (take (Suc i) (c[i := e]) @ es @ drop (Suc i + length es) (c[i := e]))"
    using Cons.prems by (intro Cons.IH) simp
  also have "take (Suc i) (c[i := e]) = take i c @ [e]"
    using Cons.prems by (simp add: take_update_Suc)
  finally show ?case
    by simp
qed simp

lemma put_points_overflow: "i \<le> length c \<Longrightarrow> length c < i + length es \<Longrightarrow> put_points c i es = None"
  by (induction es arbitrary: c i) auto

definition revive :: "bool \<Rightarrow> int \<Rightarrow> server \<Rightarrow> server" where
  "revive auto now s = (if auto \<and> s_next_retry s \<le> now then s\<lparr>s_next_retry := 0\<rparr> else s)"

definition is_live :: "bool \<Rightarrow> int \<Rightarrow> server \<Rightarrow> bool" where
  "is_live auto now s \<longleftrightarrow> \<not> auto \<or> s_next_retry s \<le> now"

lemma live_scan_servers:
  "fst (live_scan auto now ss nlive tw rebuild) = map (revive auto now) ss"
  by (induction ss arbitrary: nlive tw rebuild) (auto simp: revive_def Let_def split_beta)

lemma live_scan_nlive:
  "fst (snd (live_scan auto now ss nlive tw rebuild)) = nlive + word_of_nat (length (filter (is_live auto now) ss))"
  by (induction ss arbitrary: nlive tw rebuild) (auto simp: is_live_def Let_def split_beta ac_simps)

lemma live_scan_weight:
  assumes "0 \<le> now"
  shows "fst (snd (snd (live_scan auto now ss nlive tw rebuild))) =
    tw + sum_list (map s_weight (filter (is_live auto now) ss))"
  using assms
  by (induction ss arbitrary: nlive tw rebuild) (auto simp: is_live_def Let_def split_beta ac_simps)

text \<open>The next rebuild is the earliest retry of an ejected server; 0 when there is none.\<close>

definition earliest :: "int \<Rightarrow> int list \<Rightarrow> int" where
  "earliest r ts = foldl (\<lambda>r t. if r = 0 \<or> t < r then t else r) r ts"

lemma live_scan_rebuild:
  "snd (snd (snd (live_scan auto now ss nlive tw rebuild))) =
    earliest rebuild (map s_next_retry (filter (\<lambda>s. \<not> is_live auto now s) ss))"
  by (induction ss arbitrary: nlive tw rebuild) (auto simp: is_live_def earliest_def Let_def split_beta)

lemma earliest_bounds:
  assumes "\<And>t. t \<in> set ts \<Longrightarrow> 0 < t" and "0 \<le> r"
  shows "(earliest r ts = 0 \<longleftrightarrow> r = 0 \<and> ts = []) \<and> (earliest r ts \<noteq> 0 \<longrightarrow> earliest r ts \<in> set (r # ts))
    \<and> (r \<noteq> 0 \<longrightarrow> earliest r ts \<le> r) \<and> (\<forall>t \<in> set ts. earliest r ts \<le> t) \<and> 0 \<le> earliest r ts"
  using assms
proof (induction ts arbitrary: r)
  case (Cons t ts)
  let ?r = "if r = 0 \<or> t < r then t else r"
  have e: "earliest r (t # ts) = earliest ?r ts"
    by (simp add: earliest_def)
  have pos: "0 < t"
    using Cons.prems(1) [of t] by simp
  have r0: "0 \<le> r"
    by (rule Cons.prems(2))
  with pos have t: "0 < t" "0 \<le> r" "0 \<le> ?r"
    by simp_all
  have ts: "\<And>t. t \<in> set ts \<Longrightarrow> 0 < t"
    using Cons.prems(1) by simp
  show ?case
    unfolding e using Cons.IH [OF ts t(3)] t(1,2) by (auto split: if_splits)
qed (simp add: earliest_def)

lemma live_scan_eq:
  assumes "0 \<le> now"
  shows "live_scan auto now ss 0 0 0 =
    (map (revive auto now) ss, word_of_nat (length (filter (is_live auto now) ss)),
     sum_list (map s_weight (filter (is_live auto now) ss)),
     earliest 0 (map s_next_retry (filter (\<lambda>s. \<not> is_live auto now s) ss)))"
  by (simp add: prod_eq_iff live_scan_servers live_scan_nlive live_scan_weight [OF assms] live_scan_rebuild)

lemma revive_simps [simp]:
  "s_weight (revive auto now s) = s_weight s" "s_name (revive auto now s) = s_name s"
  by (simp_all add: revive_def)

lemma live_servers_revive:
  assumes "0 \<le> now"
  shows "map (apsnd s_weight) (live_servers auto now (map (revive auto now) ss)) =
    map (apsnd s_weight) (filter (\<lambda>(i, s). is_live auto now s) (enumerate 0 ss))"
proof -
  have "map (apsnd s_weight) (filter (\<lambda>(i, s). \<not> (auto \<and> now < s_next_retry s)) (enumerate k (map (revive auto now) ss)))
    = map (apsnd s_weight) (filter (\<lambda>(i, s). is_live auto now s) (enumerate k ss))" for k
    using assms by (induction ss arbitrary: k) (auto simp: revive_def is_live_def)
  then show ?thesis
    by (simp add: live_servers_def)
qed

lemma live_servers_index: "(i, s) \<in> set (live_servers auto now ss) \<Longrightarrow> i < length ss"
  by (auto simp: live_servers_def in_set_enumerate_eq)

text \<open>The points modula and random write, by the weight of the live servers.\<close>

lemma modula_points_length:
  "length (modula_points live) = sum_list (map (\<lambda>(i, s). unat (s_weight s)) live)"
  by (induction live) (auto simp: modula_points_def)

lemma modula_points_index:
  assumes "e \<in> set (modula_points (live_servers auto now ss))"
  shows "\<exists>i < length ss. k_index e = word_of_nat i"
  using assms by (auto simp: modula_points_def dest!: live_servers_index)

subsection \<open>The updates of the pool\<close>

lemma pool_upd_pool [simp]: "pool (upd_pool p f w) q = (if q = p then f (pool w p) else pool w q)"
  by (simp add: upd_pool_def)

lemma w_panic_simps [simp]:
  "w_panic (upd_pool p f w) = w_panic w" "w_panic (snd (sys op w)) = w_panic w"
  "w_panic (snd (gf_usec_now w)) = w_panic w" "w_panic (snd (gf_alloc w)) = w_panic w"
  by (simp_all add: upd_pool_def sys_def gf_usec_now_def gf_alloc_def Let_def split_beta)

lemma w_pools_sys [simp]:
  "w_pools (snd (sys op w)) = w_pools w" "w_pools (snd (gf_usec_now w)) = w_pools w"
  "w_pools (snd (gf_alloc w)) = w_pools w"
  by (simp_all add: sys_def gf_usec_now_def gf_alloc_def Let_def split_beta)

text \<open>
  \<open>capacity_ok k\<close>: the allocation has room for \<open>k\<close> points for each of the servers (or
  units of weight) it was made for.  \<open>continuum_ok\<close>: there are points, and every point is
  a server of the pool.
\<close>

definition capacity_ok :: "nat \<Rightarrow> server_pool \<Rightarrow> bool" where
  "capacity_ok k sp \<longleftrightarrow> (case p_continuum sp of
     None \<Rightarrow> p_nserver_continuum sp = 0
   | Some c \<Rightarrow> unat (p_nserver_continuum sp) * k \<le> length c)"

definition continuum_ok :: "server_pool \<Rightarrow> bool" where
  "continuum_ok sp \<longleftrightarrow> (case p_continuum sp of
     None \<Rightarrow> False
   | Some c \<Rightarrow> 0 < unat (p_ncontinuum sp) \<and> unat (p_ncontinuum sp) \<le> length c \<and>
       (\<forall>e \<in> set (take (unat (p_ncontinuum sp)) c). unat (k_index e) < length (p_server sp)))"

lemma length_grow_to [simp]: "length (grow_to n c) = n"
  by (simp add: grow_to_def Let_def split: option.splits)

lemma realloc_continuum_pool:
  "fst (realloc_continuum p n k w) \<noteq> GF_OK \<Longrightarrow> pool (snd (realloc_continuum p n k w)) p = pool w p"
  "fst (realloc_continuum p n k w) = GF_OK \<Longrightarrow> pool (snd (realloc_continuum p n k w)) p =
     (pool w p)\<lparr>p_continuum := Some (grow_to (unat k) (p_continuum (pool w p))), p_nserver_continuum := n\<rparr>"
  by (simp_all add: realloc_continuum_def Let_def split_beta split: if_splits)

lemma realloc_continuum_panic [simp]: "w_panic (snd (realloc_continuum p n k w)) = w_panic w"
  by (simp add: realloc_continuum_def Let_def split_beta)

text \<open>After the reallocation step there is room for \<open>u\<close> units of \<open>k\<close> points.\<close>

lemma grown_capacity:
  assumes cap: "capacity_ok (unat k) (pool w p)" and u: "0 < u" and k: "0 < k"
    and fits: "(unat u + unat a) * unat k < 2 ^ 32"
    and run: "grow_continuum p u a k w = (status, w')"
  shows "w_panic w' = w_panic w"
    and "capacity_ok (unat k) (pool w' p)"
    and "p_server (pool w' p) = p_server (pool w p)"
    and "p_nlive_server (pool w' p) = p_nlive_server (pool w p)"
    and "status = GF_OK \<Longrightarrow> \<exists>c. p_continuum (pool w' p) = Some c \<and> unat u * unat k \<le> length c"
proof -
  have k0: "0 < unat k"
    using k by (simp add: unat_gt_0)
  have less: "unat u + unat a < 2 ^ 32"
  proof -
    have "unat u + unat a \<le> (unat u + unat a) * unat k"
      using k0 by (cases "unat k") auto
    also have "\<dots> < 2 ^ 32"
      by (rule fits)
    finally show ?thesis .
  qed
  then have ua: "unat (u + a) = unat u + unat a"
    by (simp add: unat_word_ariths)
  have uak: "unat ((u + a) * k) = (unat u + unat a) * unat k"
    using fits by (simp add: unat_word_ariths(2) ua)
  have "w_panic w' = w_panic w \<and> capacity_ok (unat k) (pool w' p) \<and>
    p_server (pool w' p) = p_server (pool w p) \<and> p_nlive_server (pool w' p) = p_nlive_server (pool w p) \<and>
    (status = GF_OK \<longrightarrow> (\<exists>c. p_continuum (pool w' p) = Some c \<and> unat u * unat k \<le> length c))"
  proof (cases "p_nserver_continuum (pool w p) < u")
    case False
    then have w': "w' = w"
      using run by (simp add: grow_continuum_def)
    have "p_nserver_continuum (pool w p) \<noteq> 0"
      using False u by auto
    with cap obtain c where c: "p_continuum (pool w p) = Some c"
      "unat (p_nserver_continuum (pool w p)) * unat k \<le> length c"
      by (auto simp: capacity_ok_def split: option.splits)
    have "unat u * unat k \<le> unat (p_nserver_continuum (pool w p)) * unat k"
      using False by (intro mult_le_mono1) (simp add: word_le_nat_alt [symmetric])
    then have "unat u * unat k \<le> length c"
      using c(2) by (rule order_trans)
    with c(1) cap show ?thesis
      by (simp add: w')
  next
    case True
    then have r: "status = fst (realloc_continuum p (u + a) ((u + a) * k) w)"
      "w' = snd (realloc_continuum p (u + a) ((u + a) * k) w)"
      using run by (simp_all add: grow_continuum_def)
    show ?thesis
    proof (cases "status = GF_OK")
      case True
      have "unat u * unat k \<le> (unat u + unat a) * unat k"
        by simp
      with True show ?thesis
        using realloc_continuum_pool(2) [of p "u + a" "(u + a) * k" w]
        by (simp add: r capacity_ok_def ua uak)
    next
      case False
      then show ?thesis
        using realloc_continuum_pool(1) [of p "u + a" "(u + a) * k" w] cap by (simp add: r)
    qed
  qed
  then show "w_panic w' = w_panic w"
    and "capacity_ok (unat k) (pool w' p)"
    and "p_server (pool w' p) = p_server (pool w p)"
    and "p_nlive_server (pool w' p) = p_nlive_server (pool w p)"
    and "status = GF_OK \<Longrightarrow> \<exists>c. p_continuum (pool w' p) = Some c \<and> unat u * unat k \<le> length c"
    by blast+
qed

lemma sum_list_pos: "x \<in> set xs \<Longrightarrow> 0 < x \<Longrightarrow> 0 < sum_list xs" for x :: nat
  using member_le_sum_list [of x xs] by linarith

lemma filter_enumerate_snd: "map snd (filter (\<lambda>(i, s). P s) (enumerate k ss)) = filter P ss"
  by (induction ss arbitrary: k) auto

lemma live_weights:
  assumes "0 \<le> now"
  shows "map (s_weight \<circ> snd) (live_servers auto now (map (revive auto now) ss)) =
    map s_weight (filter (is_live auto now) ss)"
proof -
  have "map snd (map (apsnd s_weight) (live_servers auto now (map (revive auto now) ss)))
    = map s_weight (map snd (filter (\<lambda>(i, s). is_live auto now s) (enumerate 0 ss)))"
    unfolding live_servers_revive [OF assms] by (simp add: o_def)
  then show ?thesis
    unfolding filter_enumerate_snd by (simp add: o_def)
qed

lemma sum_list_filter_le: "sum_list (map f (filter P xs)) \<le> sum_list (map f xs)" for f :: "'a \<Rightarrow> nat"
  by (induction xs) auto

text \<open>The live points of modula, computed from the servers before the update.\<close>

definition modula_live :: "bool \<Rightarrow> int \<Rightarrow> server list \<Rightarrow> continuum list" where
  "modula_live auto now ss = modula_points (live_servers auto now (map (revive auto now) ss))"

lemma modula_live_length:
  assumes "0 \<le> now"
  shows "length (modula_live auto now ss) = sum_list (map (unat \<circ> s_weight) (filter (is_live auto now) ss))"
proof -
  have "length (modula_live auto now ss) = sum_list (map unat (map (s_weight \<circ> snd) (live_servers auto now (map (revive auto now) ss))))"
    by (simp add: modula_live_def modula_points_length o_def split_def)
  also have "\<dots> = sum_list (map (unat \<circ> s_weight) (filter (is_live auto now) ss))"
    unfolding live_weights [OF assms] by (simp add: o_def)
  finally show ?thesis .
qed

lemma modula_live_index:
  "e \<in> set (modula_live auto now ss) \<Longrightarrow> length ss < 2 ^ 32 \<Longrightarrow> unat (k_index e) < length ss"
  unfolding modula_live_def using modula_points_index [of e auto now "map (revive auto now) ss"]
  by (auto simp: unat_of_nat)

lemma modula_update_run:
  assumes np: "\<not> w_panic w" and cap: "capacity_ok 1 (pool w p)"
    and pos: "\<And>s. s \<in> set (p_server (pool w p)) \<Longrightarrow> 0 < s_weight s"
    and few: "sum_list (map (unat \<circ> s_weight) (p_server (pool w p))) + 10 < 2 ^ 32"
    and len: "length (p_server (pool w p)) < 2 ^ 32"
  shows "\<exists>st w'. modula_update p w = Some (st, w') \<and> capacity_ok 1 (pool w' p) \<and>
    length (p_server (pool w' p)) = length (p_server (pool w p)) \<and>
    (st = GF_OK \<and> p_nlive_server (pool w' p) \<noteq> 0 \<longrightarrow> continuum_ok (pool w' p) \<and>
      (let sp = pool w p; sp' = pool w' p in
       take (unat (p_ncontinuum sp')) (the (p_continuum sp'))
         = modula_live (p_auto_eject_hosts sp) (fst (gf_usec_now w)) (p_server sp)))"
proof -
  let ?sp = "pool w p"
  let ?auto = "p_auto_eject_hosts ?sp"
  define now where "now = fst (gf_usec_now w)"
  define w1 where "w1 = snd (gf_usec_now w)"
  have clk: "gf_usec_now w = (now, w1)"
    by (simp add: now_def w1_def)
  have w1: "pool w1 p = ?sp" "\<not> w_panic w1"
    using np by (simp_all add: w1_def)
  show ?thesis
  proof (cases "now < 0")
    case True
    then show ?thesis
      using cap w1 by (simp add: modula_update_def clk)
  next
    case False
    then have now: "0 \<le> now"
      by simp
    let ?ss = "map (revive ?auto now) (p_server ?sp)"
    let ?L = "filter (is_live ?auto now) (p_server ?sp)"
    let ?nl = "word_of_nat (length ?L) :: u32"
    let ?tw = "sum_list (map s_weight ?L)"
    let ?rb = "earliest 0 (map s_next_retry (filter (\<lambda>s. \<not> is_live ?auto now s) (p_server ?sp)))"
    have scan: "live_scan ?auto now (p_server ?sp) 0 0 0 = (?ss, ?nl, ?tw, ?rb)"
      by (rule live_scan_eq [OF now])
    define w2 where "w2 = upd_pool p (\<lambda>sp. sp\<lparr>p_server := ?ss, p_next_rebuild := ?rb, p_nlive_server := ?nl\<rparr>) w1"
    have w2: "\<not> w_panic w2" "capacity_ok 1 (pool w2 p)" "p_server (pool w2 p) = ?ss" "p_nlive_server (pool w2 p) = ?nl"
      using w1 cap by (simp_all add: w2_def capacity_ok_def split: option.splits)
    have twle: "sum_list (map (unat \<circ> s_weight) ?L) \<le> sum_list (map (unat \<circ> s_weight) (p_server ?sp))"
      by (rule sum_list_filter_le)
    have "unat ?tw = sum_list (map unat (map s_weight ?L))"
      by (rule unat_sum_list) (use twle few in \<open>simp add: o_def\<close>)
    then have tw: "unat ?tw = length (modula_live ?auto now (p_server ?sp))"
      by (simp add: modula_live_length [OF now] o_def)
    show ?thesis
    proof (cases "?nl = 0")
      case True
      have "modula_update p w = Some (GF_OK, w2)"
        using w1 True by (simp add: modula_update_def clk scan ASSERT_no_panic False w2_def Let_def)
      then show ?thesis
        using w2 True by simp
    next
      case live: False
      then have "?L \<noteq> []"
        by auto
      then obtain s where "s \<in> set ?L"
        by (meson last_in_set)
      then have "0 < unat (s_weight s)" "s \<in> set ?L"
        using pos [of s] by (auto simp: unat_gt_0)
      then have "0 < sum_list (map (unat \<circ> s_weight) ?L)"
        by (intro sum_list_pos [of "(unat \<circ> s_weight) s"]) auto
      then have "0 < unat ?tw"
        unfolding tw modula_live_length [OF now] .
      then have tw0: "0 < ?tw"
        by (simp only: unat_gt_0 word_neq_0_conv)
      obtain st w3 where grow:
        "grow_continuum p ?tw MODULA_CONTINUUM_ADDITION MODULA_POINTS_PER_SERVER w2 = (st, w3)"
        by (cases "grow_continuum p ?tw MODULA_CONTINUUM_ADDITION MODULA_POINTS_PER_SERVER w2")
      have fits: "(unat ?tw + unat MODULA_CONTINUUM_ADDITION) * unat MODULA_POINTS_PER_SERVER < 2 ^ 32"
        using few twle tw modula_live_length [OF now]
        by (simp add: MODULA_CONTINUUM_ADDITION_def MODULA_POINTS_PER_SERVER_def o_def)
      note g = grown_capacity [where k = MODULA_POINTS_PER_SERVER, OF _ tw0 _ fits grow]
      have g: "w_panic w3 = w_panic w2" "capacity_ok 1 (pool w3 p)" "p_server (pool w3 p) = ?ss"
        "p_nlive_server (pool w3 p) = ?nl"
        "st = GF_OK \<Longrightarrow> \<exists>c. p_continuum (pool w3 p) = Some c \<and> unat ?tw \<le> length c"
        using g w2 by (simp_all add: MODULA_POINTS_PER_SERVER_def)
      have run: "modula_update p w = (if st \<noteq> GF_OK then Some (st, w3) else do {
          c \<leftarrow> p_continuum (pool w3 p);
          c \<leftarrow> put_points c 0 (modula_live ?auto now (p_server ?sp));
          Some (GF_OK, upd_pool p (\<lambda>sp. sp\<lparr>p_continuum := Some c,
             p_ncontinuum := word_of_nat (length (modula_live ?auto now (p_server ?sp)))\<rparr>) w3) })"
        using w1 w2(1) live
        by (simp add: modula_update_def clk scan ASSERT_no_panic False w2_def [symmetric] grow modula_live_def Let_def)
      show ?thesis
      proof (cases "st = GF_OK")
        case False
        then show ?thesis
          using run g by simp
      next
        case True
        obtain c where c: "p_continuum (pool w3 p) = Some c" "unat ?tw \<le> length c"
          using g(5) True by blast
        let ?pts = "modula_live ?auto now (p_server ?sp)"
        have put: "put_points c 0 ?pts = Some (?pts @ drop (length ?pts) c)"
          using put_points_fits [of 0 ?pts c] c tw by simp
        have cnt: "unat (word_of_nat (length ?pts) :: u32) = length ?pts"
          unfolding tw [symmetric] by simp
        have "0 < length ?pts"
          using tw tw0 by (metis unat_gt_0 word_neq_0_conv)
        then have "continuum_ok (pool w3 p\<lparr>p_continuum := Some (?pts @ drop (length ?pts) c),
          p_ncontinuum := word_of_nat (length ?pts)\<rparr>)"
          using cnt modula_live_index [OF _ len] g(3)
          by (auto simp: continuum_ok_def)
        moreover have "capacity_ok 1 (pool w3 p\<lparr>p_continuum := Some (?pts @ drop (length ?pts) c),
          p_ncontinuum := word_of_nat (length ?pts)\<rparr>)"
          using g(2) c tw by (auto simp: capacity_ok_def)
        ultimately show ?thesis
          using run True c put g cnt by (simp add: now_def [symmetric])
      qed
    qed
  qed
qed

text \<open>Random writes one point for each live server.\<close>

definition random_live :: "bool \<Rightarrow> int \<Rightarrow> server list \<Rightarrow> continuum list" where
  "random_live auto now ss = random_points (live_servers auto now (map (revive auto now) ss))"

lemma live_servers_length:
  assumes "0 \<le> now"
  shows "length (live_servers auto now (map (revive auto now) ss)) = length (filter (is_live auto now) ss)"
  using arg_cong [OF live_weights [OF assms, of auto ss], of length] by simp

lemma random_live_index:
  assumes "e \<in> set (random_live auto now ss)" and "length ss < 2 ^ 32"
  shows "unat (k_index e) < length ss"
  using assms
  by (auto simp: random_live_def random_points_def unat_of_nat dest!: live_servers_index
      intro: le_less_trans [OF mod_less_eq_dividend])

lemma sys_pool [simp]: "w_pools (if b then snd (sys op (snd (sys op' w))) else w) = w_pools w"
  by simp

lemma random_update_run:
  assumes np: "\<not> w_panic w" and cap: "capacity_ok 1 (pool w p)"
    and few: "length (p_server (pool w p)) + 10 < 2 ^ 32"
  shows "\<exists>st w'. random_update p w = Some (st, w') \<and> capacity_ok 1 (pool w' p) \<and>
    length (p_server (pool w' p)) = length (p_server (pool w p)) \<and>
    (st = GF_OK \<and> p_nlive_server (pool w' p) \<noteq> 0 \<longrightarrow> continuum_ok (pool w' p) \<and>
      (let sp = pool w p; sp' = pool w' p in
       take (unat (p_ncontinuum sp')) (the (p_continuum sp'))
         = random_live (p_auto_eject_hosts sp) (fst (gf_usec_now w)) (p_server sp)))"
proof -
  let ?sp = "pool w p"
  let ?auto = "p_auto_eject_hosts ?sp"
  define now where "now = fst (gf_usec_now w)"
  define w1 where "w1 = snd (gf_usec_now w)"
  have clk: "gf_usec_now w = (now, w1)"
    by (simp add: now_def w1_def)
  have w1: "pool w1 p = ?sp" "\<not> w_panic w1"
    using np by (simp_all add: w1_def)
  show ?thesis
  proof (cases "now < 0")
    case True
    then show ?thesis
      using cap w1 by (simp add: random_update_def clk)
  next
    case False
    then have now: "0 \<le> now"
      by simp
    let ?ss = "map (revive ?auto now) (p_server ?sp)"
    let ?L = "filter (is_live ?auto now) (p_server ?sp)"
    let ?nl = "word_of_nat (length ?L) :: u32"
    let ?tw = "sum_list (map s_weight ?L)"
    let ?rb = "earliest 0 (map s_next_retry (filter (\<lambda>s. \<not> is_live ?auto now s) (p_server ?sp)))"
    let ?pts = "random_live ?auto now (p_server ?sp)"
    have scan: "live_scan ?auto now (p_server ?sp) 0 0 0 = (?ss, ?nl, ?tw, ?rb)"
      by (rule live_scan_eq [OF now])
    define w2 where "w2 = upd_pool p (\<lambda>sp. sp\<lparr>p_server := ?ss, p_next_rebuild := ?rb, p_nlive_server := ?nl\<rparr>) w1"
    have w2: "\<not> w_panic w2" "capacity_ok 1 (pool w2 p)" "p_server (pool w2 p) = ?ss" "p_nlive_server (pool w2 p) = ?nl"
      using w1 cap by (simp_all add: w2_def capacity_ok_def split: option.splits)
    have less: "length ?L + 10 < 2 ^ 32"
      using few length_filter_le [of "is_live ?auto now" "p_server ?sp"] by linarith
    then have nl: "unat ?nl = length ?pts"
      by (simp add: unat_of_nat random_live_def random_points_def live_servers_length [OF now])
    show ?thesis
    proof (cases "?nl = 0")
      case True
      have "random_update p w = Some (GF_OK, w2)"
        using w1 True by (simp add: random_update_def clk scan ASSERT_no_panic False w2_def Let_def)
      then show ?thesis
        using w2 True by simp
    next
      case live: False
      then have nl0: "0 < ?nl"
        by (simp only: word_neq_0_conv)
      obtain st w3 where grow:
        "grow_continuum p ?nl RANDOM_CONTINUUM_ADDITION RANDOM_POINTS_PER_SERVER w2 = (st, w3)"
        by (cases "grow_continuum p ?nl RANDOM_CONTINUUM_ADDITION RANDOM_POINTS_PER_SERVER w2")
      have fits: "(unat ?nl + unat RANDOM_CONTINUUM_ADDITION) * unat RANDOM_POINTS_PER_SERVER < 2 ^ 32"
        using less nl
        by (simp add: RANDOM_CONTINUUM_ADDITION_def RANDOM_POINTS_PER_SERVER_def random_live_def random_points_def
            live_servers_length [OF now])
      note g = grown_capacity [where k = RANDOM_POINTS_PER_SERVER, OF _ nl0 _ fits grow]
      have g: "w_panic w3 = w_panic w2" "capacity_ok 1 (pool w3 p)" "p_server (pool w3 p) = ?ss"
        "p_nlive_server (pool w3 p) = ?nl"
        "st = GF_OK \<Longrightarrow> \<exists>c. p_continuum (pool w3 p) = Some c \<and> unat ?nl \<le> length c"
        using g w2 by (simp_all add: RANDOM_POINTS_PER_SERVER_def)
      let ?w4 = "if p_nserver_continuum ?sp < ?nl then snd (sys Sys_srandom (snd (sys Sys_time w3))) else w3"
      have run: "random_update p w = (if st \<noteq> GF_OK then Some (st, w3) else do {
          c \<leftarrow> p_continuum (pool w3 p);
          c \<leftarrow> put_points c 0 ?pts;
          Some (GF_OK, upd_pool p (\<lambda>sp. sp\<lparr>p_continuum := Some c, p_ncontinuum := word_of_nat (length ?pts)\<rparr>) ?w4) })"
        using w1 w2(1) live
        by (simp add: random_update_def clk scan ASSERT_no_panic False w2_def [symmetric] grow random_live_def Let_def
            cong: if_cong)
      show ?thesis
      proof (cases "st = GF_OK")
        case False
        then show ?thesis
          using run g by simp
      next
        case True
        obtain c where c: "p_continuum (pool w3 p) = Some c" "unat ?nl \<le> length c"
          using g(5) True by blast
        have put: "put_points c 0 ?pts = Some (?pts @ drop (length ?pts) c)"
          using put_points_fits [of 0 ?pts c] c nl by simp
        have cnt: "unat (word_of_nat (length ?pts) :: u32) = length ?pts"
          unfolding nl [symmetric] by simp
        have "0 < length ?pts"
          using nl nl0 by (metis unat_gt_0 word_neq_0_conv)
        then have "continuum_ok (pool w3 p\<lparr>p_continuum := Some (?pts @ drop (length ?pts) c),
          p_ncontinuum := word_of_nat (length ?pts)\<rparr>)"
          using cnt random_live_index [of _ ?auto now "p_server ?sp"] few g(3)
          by (auto simp: continuum_ok_def)
        moreover have "capacity_ok 1 (pool w3 p\<lparr>p_continuum := Some (?pts @ drop (length ?pts) c),
          p_ncontinuum := word_of_nat (length ?pts)\<rparr>)"
          using g(2) c nl by (auto simp: capacity_ok_def)
        ultimately show ?thesis
          using run True c put g cnt by (simp add: now_def [symmetric])
      qed
    qed
  qed
qed

definition ketama_live :: "bool \<Rightarrow> int \<Rightarrow> server list \<Rightarrow> continuum list" where
  "ketama_live auto now ss =
     (let ws = map s_weight (filter (is_live auto now) ss) in
      ketama_points (sum_list ws) (word_of_nat (length ws)) (live_servers auto now (map (revive auto now) ss)))"

lemma ketama_server_points_length: "length (ketama_server_points i s n) = 4 * unat (n div 4)"
  by (simp add: ketama_server_points_def length_concat o_def sum_list_triv)

lemma ketama_live_length:
  assumes now: "0 \<le> now" and ok: "ketama_points_ok (map s_weight (filter (is_live auto now) ss))"
  shows "length (ketama_live auto now ss) = (let ws = map s_weight (filter (is_live auto now) ss) in
    sum_list (map (\<lambda>v. unat (ketama_pointers v (sum_list ws) (word_of_nat (length ws)))) ws))"
proof -
  let ?ws = "map s_weight (filter (is_live auto now) ss)"
  let ?f = "\<lambda>v. ketama_pointers v (sum_list ?ws) (word_of_nat (length ?ws))"
  let ?live = "live_servers auto now (map (revive auto now) ss)"
  have four: "4 * unat (?f v div 4) = unat (?f v)" if "v \<in> set ?ws" for v
  proof -
    have "unat (?f v) mod 4 = 0"
      using ok that by (auto simp: ketama_points_ok_def Let_def)
    moreover have "4 * (unat (?f v) div 4) + unat (?f v) mod 4 = unat (?f v)"
      by (rule mult_div_mod_eq)
    ultimately show ?thesis
      by (simp only: unat_div) simp
  qed
  have "length (ketama_live auto now ss) = sum_list (map (\<lambda>v. 4 * unat (?f v div 4)) (map (s_weight \<circ> snd) ?live))"
    by (simp add: ketama_live_def ketama_points_def Let_def length_concat o_def split_def ketama_server_points_length)
  also have "\<dots> = sum_list (map (\<lambda>v. unat (?f v)) ?ws)"
    unfolding live_weights [OF now] using four by (intro arg_cong [where f = sum_list] map_cong) auto
  finally show ?thesis
    by (simp add: Let_def)
qed

lemma ketama_count_eq:
  assumes now: "0 \<le> now"
  shows "ketama_count tw n (live_servers auto now (map (revive auto now) ss)) =
    sum_list (map (\<lambda>v. ketama_pointers v tw n) (map s_weight (filter (is_live auto now) ss)))"
  unfolding live_weights [OF now, symmetric] by (simp add: ketama_count_def o_def split_def)

lemma ketama_live_index:
  assumes "e \<in> set (ketama_live auto now ss)" and "length ss < 2 ^ 32"
  shows "unat (k_index e) < length ss"
  using assms
  by (auto simp: ketama_live_def ketama_points_def ketama_server_points_def Let_def unat_of_nat
      dest!: live_servers_index intro: le_less_trans [OF mod_less_eq_dividend])

lemma ketama_update_run:
  assumes np: "\<not> w_panic w" and cap: "capacity_ok 160 (pool w p)"
    and few: "160 * (length (p_server (pool w p)) + 10) < 2 ^ 32"
    and ok: "let sp = pool w p; live = filter (is_live (p_auto_eject_hosts sp) (fst (gf_usec_now w))) (p_server sp)
      in live \<noteq> [] \<longrightarrow> ketama_points_ok (map s_weight live)"
  shows "\<exists>st w'. ketama_update p w = Some (st, w') \<and> capacity_ok 160 (pool w' p) \<and>
    length (p_server (pool w' p)) = length (p_server (pool w p)) \<and>
    (st = GF_OK \<and> p_nlive_server (pool w' p) \<noteq> 0 \<longrightarrow> continuum_ok (pool w' p) \<and>
      (let sp = pool w p; sp' = pool w' p in
       take (unat (p_ncontinuum sp')) (the (p_continuum sp'))
         = sort_key k_value (ketama_live (p_auto_eject_hosts sp) (fst (gf_usec_now w)) (p_server sp))))"
proof -
  let ?sp = "pool w p"
  let ?auto = "p_auto_eject_hosts ?sp"
  define now where "now = fst (gf_usec_now w)"
  define w1 where "w1 = snd (gf_usec_now w)"
  have clk: "gf_usec_now w = (now, w1)"
    by (simp add: now_def w1_def)
  have w1: "pool w1 p = ?sp" "\<not> w_panic w1"
    using np by (simp_all add: w1_def)
  show ?thesis
  proof (cases "now < 0")
    case True
    then show ?thesis
      using cap w1 np by (simp add: ketama_update_def clk ASSERT_no_panic)
  next
    case False
    then have now: "0 \<le> now"
      by simp
    let ?ss = "map (revive ?auto now) (p_server ?sp)"
    let ?L = "filter (is_live ?auto now) (p_server ?sp)"
    let ?nl = "word_of_nat (length ?L) :: u32"
    let ?tw = "sum_list (map s_weight ?L)"
    let ?rb = "earliest 0 (map s_next_retry (filter (\<lambda>s. \<not> is_live ?auto now s) (p_server ?sp)))"
    let ?pts = "ketama_live ?auto now (p_server ?sp)"
    have scan: "live_scan ?auto now (p_server ?sp) 0 0 0 = (?ss, ?nl, ?tw, ?rb)"
      by (rule live_scan_eq [OF now])
    define w2 where "w2 = upd_pool p (\<lambda>sp. sp\<lparr>p_server := ?ss, p_next_rebuild := ?rb, p_nlive_server := ?nl\<rparr>) w1"
    have w2: "\<not> w_panic w2" "capacity_ok 160 (pool w2 p)" "p_server (pool w2 p) = ?ss" "p_nlive_server (pool w2 p) = ?nl"
      using w1 cap by (simp_all add: w2_def capacity_ok_def split: option.splits)
    have "160 * (length ?L + 10) \<le> 160 * (length (p_server ?sp) + 10)"
      by simp
    then have less: "160 * (length ?L + 10) < 2 ^ 32"
      using few by (rule le_less_trans)
    then have nl: "unat ?nl = length ?L"
      by (simp add: unat_of_nat)
    show ?thesis
    proof (cases "?nl = 0")
      case True
      have "ketama_update p w = Some (GF_OK, w2)"
        using w1 True np by (simp add: ketama_update_def clk scan ASSERT_no_panic False w2_def Let_def)
      then show ?thesis
        using w2 True by simp
    next
      case live: False
      then have nl0: "0 < ?nl"
        by (simp only: word_neq_0_conv)
      have pok: "ketama_points_ok (map s_weight ?L)"
        using ok live unfolding now_def [symmetric] Let_def by force
      have len: "length ?pts \<le> 160 * length ?L" "0 < length ?pts"
        using pok ketama_live_length [OF now pok] by (simp_all add: ketama_points_ok_def Let_def)
      have cnt: "unat (ketama_count ?tw ?nl (live_servers ?auto now ?ss)) = length ?pts"
      proof -
        have "unat (sum_list (map (\<lambda>v. ketama_pointers v ?tw ?nl) (map s_weight ?L)))
          = sum_list (map unat (map (\<lambda>v. ketama_pointers v ?tw ?nl) (map s_weight ?L)))"
          by (rule unat_sum_list) (use pok less in \<open>simp add: ketama_points_ok_def Let_def o_def\<close>)
        then show ?thesis
          unfolding ketama_count_eq [OF now] ketama_live_length [OF now pok] by (simp add: Let_def o_def)
      qed
      have guard: "list_all (\<lambda>(i, s). ketama_share (s_weight s) ?tw ?nl \<noteq> None) (live_servers ?auto now ?ss)"
      proof -
        have "\<forall>v\<in>set (map (s_weight \<circ> snd) (live_servers ?auto now ?ss)). ketama_share v ?tw ?nl \<noteq> None"
          unfolding live_weights [OF now] using pok by (simp add: ketama_points_ok_def Let_def)
        then show ?thesis by (auto simp: list_all_iff)
      qed
      obtain st w3 where grow:
        "grow_continuum p ?nl KETAMA_CONTINUUM_ADDITION KETAMA_POINTS_PER_SERVER w2 = (st, w3)"
        by (cases "grow_continuum p ?nl KETAMA_CONTINUUM_ADDITION KETAMA_POINTS_PER_SERVER w2")
      have fits: "(unat ?nl + unat KETAMA_CONTINUUM_ADDITION) * unat KETAMA_POINTS_PER_SERVER < 2 ^ 32"
        using less unfolding nl by (simp add: KETAMA_CONTINUUM_ADDITION_def KETAMA_POINTS_PER_SERVER_def)
      note g = grown_capacity [where k = KETAMA_POINTS_PER_SERVER, OF _ nl0 _ fits grow]
      have g: "w_panic w3 = w_panic w2" "capacity_ok 160 (pool w3 p)" "p_server (pool w3 p) = ?ss"
        "p_nlive_server (pool w3 p) = ?nl"
        "st = GF_OK \<Longrightarrow> \<exists>c. p_continuum (pool w3 p) = Some c \<and> unat ?nl * 160 \<le> length c"
        using g w2 by (simp_all add: KETAMA_POINTS_PER_SERVER_def)
      let ?cnt = "ketama_count ?tw ?nl (live_servers ?auto now ?ss)"
      have run: "ketama_update p w = (if st \<noteq> GF_OK then Some (st, w3) else do {
          c \<leftarrow> p_continuum (pool w3 p);
          c \<leftarrow> put_points c 0 ?pts;
          Some (GF_OK, upd_pool p (\<lambda>sp. sp\<lparr>p_continuum := Some (sort_key k_value (take (unat ?cnt) c) @ drop (unat ?cnt) c),
            p_ncontinuum := ?cnt\<rparr>) w3) })"
        using w1 w2(1) live np g(1)
        by (simp add: ketama_update_def clk scan ASSERT_no_panic False w2_def [symmetric] grow ketama_live_def Let_def guard [simplified])
      show ?thesis
      proof (cases "st = GF_OK")
        case False
        then show ?thesis
          using run g by simp
      next
        case True
        obtain c where c: "p_continuum (pool w3 p) = Some c" "unat ?nl * 160 \<le> length c"
          using g(5) True by blast
        have fit: "length ?pts \<le> length c"
          using c(2) len(1) unfolding nl by linarith
        have put: "put_points c 0 ?pts = Some (?pts @ drop (length ?pts) c)"
          using put_points_fits [of 0 ?pts c] fit by simp
        let ?c = "sort_key k_value ?pts @ drop (length ?pts) c"
        have "continuum_ok (pool w3 p\<lparr>p_continuum := Some ?c, p_ncontinuum := ?cnt\<rparr>)"
          using len cnt ketama_live_index [of _ ?auto now "p_server ?sp"] few g(3)
          by (auto simp: continuum_ok_def)
        moreover have "capacity_ok 160 (pool w3 p\<lparr>p_continuum := Some ?c, p_ncontinuum := ?cnt\<rparr>)"
          using g(2) c fit by (auto simp: capacity_ok_def)
        ultimately show ?thesis
          using run True c put g cnt by (simp add: now_def [symmetric])
      qed
    qed
  qed
qed

subsection \<open>Properties of the distribution\<close>

lemma ketama_dispatch_first_witness:
  "ketama_dispatch [\<lparr>k_index = 1, k_value = 10\<rparr>, \<lparr>k_index = 0, k_value = 20\<rparr>, \<lparr>k_index = 7, k_value = 0\<rparr>] 2 15 = Some 0 \<and>
   ketama_dispatch [\<lparr>k_index = 1, k_value = 10\<rparr>, \<lparr>k_index = 0, k_value = 20\<rparr>, \<lparr>k_index = 7, k_value = 0\<rparr>] 2 21 = Some 1"
proof -
  let ?c = "[\<lparr>k_index = 1, k_value = 10\<rparr>, \<lparr>k_index = 0, k_value = 20\<rparr>, \<lparr>k_index = 7, k_value = 0\<rparr>] :: continuum list"
  have "sorted (map k_value (take (unat (2 :: u32)) ?c))" "unat (2 :: u32) \<le> length ?c" "(2 :: u32) \<noteq> 0"
    by simp_all
  from ketama_dispatch_first [OF this, of 15] ketama_dispatch_first [OF this, of 21] show ?thesis
    by simp
qed

text \<open>What an update needs: room in the allocation, weights that are positive and a pool that is not too large.\<close>

definition points_per_unit :: "server_pool \<Rightarrow> nat" where
  "points_per_unit sp = (case p_dist_type sp of DIST_KETAMA \<Rightarrow> 160 | _ \<Rightarrow> 1)"

definition pool_fit :: "server_pool \<Rightarrow> bool" where
  "pool_fit sp \<longleftrightarrow>
     p_server sp \<noteq> [] \<and> (\<forall>s \<in> set (p_server sp). 0 < s_weight s) \<and>
     capacity_ok (points_per_unit sp) sp \<and>
     160 * (length (p_server sp) + 10) < 2 ^ 32 \<and>
     sum_list (map (unat \<circ> s_weight) (p_server sp)) + 10 < 2 ^ 32 \<and>
     (p_dist_type sp = DIST_KETAMA \<longrightarrow> length (p_server sp) \<le> 2 ^ 15)"

lemma sum_list_filter: "sum_list (map f (filter P xs)) \<le> sum_list (map f xs)" for f :: "'a \<Rightarrow> nat"
  by (induction xs) auto

lemma pool_fit_ketama:
  assumes "pool_fit sp" "p_dist_type sp = DIST_KETAMA" "filter P (p_server sp) \<noteq> []"
  shows "ketama_points_ok (map s_weight (filter P (p_server sp)))"
proof (rule ketama_points_ok_weights)
  show "map s_weight (filter P (p_server sp)) \<noteq> []" using assms(3) by simp
  show "\<forall>v\<in>set (map s_weight (filter P (p_server sp))). 0 < v" using assms(1) by (auto simp: pool_fit_def)
  show "sum_list (map unat (map s_weight (filter P (p_server sp)))) < 2 ^ 32"
    using assms(1) sum_list_filter [of "unat \<circ> s_weight" P "p_server sp"] by (simp add: pool_fit_def)
  show "length (map s_weight (filter P (p_server sp))) \<le> 2 ^ 15"
    using assms(1,2) le_trans [OF length_filter_le [of P "p_server sp"]] by (simp add: pool_fit_def)
qed

lemma server_pool_run_total:
  assumes "\<not> w_panic w" and "pool_fit (pool w p)"
  shows "\<exists>st w'. server_pool_run p w = Some (st, w') \<and>
    capacity_ok (points_per_unit (pool w p)) (pool w' p) \<and>
    length (p_server (pool w' p)) = length (p_server (pool w p)) \<and>
    (st = GF_OK \<and> p_nlive_server (pool w' p) \<noteq> 0 \<longrightarrow> continuum_ok (pool w' p))"
proof (cases "p_dist_type (pool w p)")
  case DIST_KETAMA
  with assms ketama_update_run [of w p] pool_fit_ketama [OF assms(2)] show ?thesis
    by (fastforce simp: server_pool_run_def pool_fit_def points_per_unit_def Let_def)
next
  case DIST_MODULA
  with assms modula_update_run [of w p] show ?thesis
    by (fastforce simp: server_pool_run_def pool_fit_def points_per_unit_def Let_def)
next
  case DIST_RANDOM
  with assms random_update_run [of w p] show ?thesis
    by (fastforce simp: server_pool_run_def pool_fit_def points_per_unit_def Let_def)
qed

text \<open>
  C18: for a pool that fits (it has servers, of positive weights that add up to less than
  2^32 - 10, at most 2^15 of them with ketama, and a continuum with the room its counter says)
  and in a build where failed assertions do not abort, rebuilding the distribution has a result (no store leaves
  the allocated continuum), keeps the room in the allocation, and, when it succeeds with a live server,
  leaves a continuum with at least one point, every point of which is a server of the pool.  Without the
  bound on the weights a store can leave the allocation.
\<close>

theorem server_pool_run_ok:
  assumes "\<not> w_panic w" and "pool_fit (pool w p)"
  shows "\<exists>st w'. server_pool_run p w = Some (st, w') \<and>
    capacity_ok (points_per_unit (pool w p)) (pool w' p) \<and>
    length (p_server (pool w' p)) = length (p_server (pool w p)) \<and>
    (st = GF_OK \<and> p_nlive_server (pool w' p) \<noteq> 0 \<longrightarrow> continuum_ok (pool w' p))"
  by (rule server_pool_run_total [OF assms])

lemma server_pool_run_ok_witness:
  "\<exists>st w'. server_pool_run 0 w0 = Some (st, w') \<and>
    capacity_ok (points_per_unit (pool w0 0)) (pool w' 0) \<and>
    length (p_server (pool w' 0)) = length (p_server (pool w0 0)) \<and>
    (st = GF_OK \<and> p_nlive_server (pool w' 0) \<noteq> 0 \<longrightarrow> continuum_ok (pool w' 0))"
  by (rule server_pool_run_ok)
    (simp_all add: pool_fit_def sample_pool_def sample_server_def points_per_unit_def capacity_ok_def)

lemma modula_points_append: "modula_points (xs @ ys) = modula_points xs @ modula_points ys"
  by (simp add: modula_points_def)

lemma count_list_replicate: "count_list (replicate n x) y = (if x = y then n else 0)"
  by (induction n) auto

lemma modula_points_count:
  assumes "k + length ss \<le> 2 ^ 32" and "i < length ss"
  shows "count_list (map k_index (modula_points (filter (\<lambda>(i, s). P s) (enumerate k ss)))) (word_of_nat (k + i))
    = (if P (ss ! i) then unat (s_weight (ss ! i)) else 0)"
  using assms
proof (induction ss arbitrary: k i)
  case (Cons s ss)
  let ?rest = "filter (\<lambda>(i, s). P s) (enumerate (Suc k) ss)"
  have step: "map k_index (modula_points (filter (\<lambda>(i, s). P s) (enumerate k (s # ss)))) =
    replicate (if P s then unat (s_weight s) else 0) (word_of_nat k) @ map k_index (modula_points ?rest)"
    by (simp add: modula_points_def)
  have other: "(word_of_nat j :: u32) \<noteq> word_of_nat k" if "k < j" "j < 2 ^ 32" for j
    using that by (simp add: word_of_nat_eq_iff take_bit_eq_mod)
  show ?case
  proof (cases i)
    case 0
    have "word_of_nat k \<notin> set (map k_index (modula_points ?rest))"
    proof
      assume "(word_of_nat k :: u32) \<in> set (map k_index (modula_points ?rest))"
      then obtain j where "Suc k \<le> j" "j < Suc k + length ss" "(word_of_nat j :: u32) = word_of_nat k"
        by (auto simp: modula_points_def in_set_enumerate_eq)
      with other [of j] Cons.prems show False
        by simp
    qed
    then have "count_list (map k_index (modula_points ?rest)) (word_of_nat k) = 0"
      by (simp add: count_list_0_iff)
    then show ?thesis
      unfolding step using 0 by (simp add: count_list_replicate)
  next
    case (Suc j)
    have "(word_of_nat (k + i) :: u32) \<noteq> word_of_nat k"
      using Cons.prems Suc by (intro other) auto
    moreover have "count_list (map k_index (modula_points ?rest)) (word_of_nat (Suc k + j)) =
      (if P (ss ! j) then unat (s_weight (ss ! j)) else 0)"
      using Cons.prems Suc by (intro Cons.IH) auto
    ultimately show ?thesis
      unfolding step using Suc by (simp add: count_list_replicate del: of_nat_Suc)
  qed
qed simp

text \<open>after a successful modula update the continuum gives every live server as many
  points as its weight, and an ejected server none.\<close>

theorem modula_weight_share:
  assumes "\<not> w_panic w" and "pool_fit (pool w p)" and "p_dist_type (pool w p) = DIST_MODULA"
    and "server_pool_run p w = Some (GF_OK, w')" and "p_nlive_server (pool w' p) \<noteq> 0"
    and "i < length (p_server (pool w p))"
  shows "count_list (map k_index (take (unat (p_ncontinuum (pool w' p))) (the (p_continuum (pool w' p))))) (word_of_nat i)
    = (let sp = pool w p; s = p_server sp ! i in
       if is_live (p_auto_eject_hosts sp) (fst (gf_usec_now w)) s then unat (s_weight s) else 0)"
proof -
  let ?sp = "pool w p"
  let ?auto = "p_auto_eject_hosts ?sp"
  let ?now = "fst (gf_usec_now w)"
  have run: "modula_update p w = Some (GF_OK, w')"
    using assms by (simp add: server_pool_run_def ASSERT_no_panic)
  then have now: "0 \<le> ?now"
    by (auto simp: modula_update_def split_beta split: if_splits)
  have len: "length (p_server ?sp) < 2 ^ 32"
    using assms(2) by (simp add: pool_fit_def)
  have "take (unat (p_ncontinuum (pool w' p))) (the (p_continuum (pool w' p))) = modula_live ?auto ?now (p_server ?sp)"
    using modula_update_run [of w p] run assms by (auto simp: pool_fit_def points_per_unit_def Let_def)
  also have "map k_index \<dots> = map k_index (modula_points (filter (\<lambda>(i, s). is_live ?auto ?now s) (enumerate 0 (p_server ?sp))))"
  proof -
    have "map k_index (modula_points xs) = map k_index (modula_points ys)"
      if "map (apsnd s_weight) xs = map (apsnd s_weight) ys" for xs ys
    proof -
      have "map k_index (modula_points zs) = concat (map (\<lambda>(i, v). replicate (unat v) (word_of_nat i)) (map (apsnd s_weight) zs))" for zs
        by (induction zs) (auto simp: modula_points_def)
      then show ?thesis
        by (simp only: that)
    qed
    from this [OF live_servers_revive [OF now]] show ?thesis
      by (simp add: modula_live_def)
  qed
  also have "count_list \<dots> (word_of_nat i) = (if is_live ?auto ?now (p_server ?sp ! i) then unat (s_weight (p_server ?sp ! i)) else 0)"
    using modula_points_count [of 0 "p_server ?sp" i "is_live ?auto ?now"] len assms(6) by simp
  finally show ?thesis
    by (simp add: Let_def)
qed

lemma modula_weight_share_witness:
  "\<exists>w'. server_pool_run 0 w0 = Some (GF_OK, w') \<and>
    count_list (map k_index (take (unat (p_ncontinuum (pool w' 0))) (the (p_continuum (pool w' 0))))) 1 = 2"
proof -
  have "\<exists>w'. server_pool_run 0 w0 = Some (GF_OK, w') \<and> p_nlive_server (pool w' 0) \<noteq> 0"
    by (simp add: server_pool_run_def modula_update_def gf_usec_now_def sys_def sample_res_def Let_def
        sample_pool_def sample_server_def grow_continuum_def realloc_continuum_def gf_alloc_def upd_pool_def
        grow_to_def live_servers_def modula_points_def MODULA_CONTINUUM_ADDITION_def MODULA_POINTS_PER_SERVER_def
        ASSERT_def put_points_fits)
  then obtain w' where w': "server_pool_run 0 w0 = Some (GF_OK, w')" "p_nlive_server (pool w' 0) \<noteq> 0"
    by blast
  have "pool_fit (pool w0 0)" "p_dist_type (pool w0 0) = DIST_MODULA"
    by (simp_all add: pool_fit_def sample_pool_def sample_server_def points_per_unit_def capacity_ok_def)
  from modula_weight_share [OF _ this w', of 1] w'(1) show ?thesis
    by (simp add: sample_pool_def sample_server_def is_live_def gf_usec_now_def sys_def sample_res_def Let_def)
qed

lemma server_pool_idx_bound:
  assumes "p_server sp \<noteq> []" and "continuum_ok sp"
  shows "\<exists>idx w'. server_pool_idx sp m key keylen w = Some (idx, w') \<and> unat idx < length (p_server sp)"
proof (cases "length (p_server sp) = 1")
  case True
  then show ?thesis
    by (simp add: server_pool_idx_def)
next
  case False
  obtain c where c: "p_continuum sp = Some c" "0 < unat (p_ncontinuum sp)" "unat (p_ncontinuum sp) \<le> length c"
    "\<And>e. e \<in> set (take (unat (p_ncontinuum sp)) c) \<Longrightarrow> unat (k_index e) < length (p_server sp)"
    using assms(2) by (auto simp: continuum_ok_def split: option.splits)
  obtain key' keylen' where t: "tagged_key (p_hash_tag sp) m key keylen = (key', keylen')"
    by fastforce
  note pick =
    ketama.picks_live [where P = "\<lambda>i. unat i < length (p_server sp)", OF c(2,3,4)]
    modula.picks_live [where P = "\<lambda>i. unat i < length (p_server sp)", OF c(2,3,4)]
  have "\<exists>idx w'. random_dispatch c (p_ncontinuum sp) w = Some (idx, w') \<and> unat idx < length (p_server sp)"
  proof -
    let ?i = "nat (r_ret (fst (sys Sys_random w))) mod unat (p_ncontinuum sp)"
    have i: "?i < unat (p_ncontinuum sp)"
      using c(2) by simp
    then have "c ! ?i \<in> set (take (unat (p_ncontinuum sp)) c)"
      using c(3) by (auto simp: in_set_conv_nth)
    moreover have "?i < length c"
      using i c(3) by (rule less_le_trans)
    ultimately show ?thesis
      using c(1,2) c(4) [of "c ! ?i"]
      by (auto simp: random_dispatch_def point_index_def split_beta unat_gt_0)
  qed
  then obtain r w' where r: "random_dispatch c (p_ncontinuum sp) w = Some (r, w')" "unat r < length (p_server sp)"
    by blast
  let ?h = "server_pool_hash sp m key' keylen'"
  obtain k where k: "ketama_dispatch c (p_ncontinuum sp) ?h = Some k" "unat k < length (p_server sp)"
    using pick(1) by blast
  obtain u where u: "modula_dispatch c (p_ncontinuum sp) ?h = Some u" "unat u < length (p_server sp)"
    using pick(2) by blast
  show ?thesis
    using False assms(1) c(1) t r k u
    by (cases "p_dist_type sp") (simp_all add: server_pool_idx_def Let_def)
qed

text \<open>C17: with such a continuum every key, of any length, is given the index
  of a server of the pool.\<close>

theorem server_pool_idx_in_range:
  assumes "p_server sp \<noteq> []" and "continuum_ok sp"
  shows "\<exists>idx w'. server_pool_idx sp m key keylen w = Some (idx, w') \<and> unat idx < length (p_server sp)"
  by (rule server_pool_idx_bound [OF assms])

lemma server_pool_idx_in_range_witness:
  "\<exists>idx w'. server_pool_idx (sample_pool\<lparr>p_continuum := Some [\<lparr>k_index = 1, k_value = 7\<rparr>], p_ncontinuum := 1\<rparr>)
     (\<lambda>_. 0) 3 4 w0 = Some (idx, w') \<and> unat idx < 2"
  using server_pool_idx_in_range
    [of "sample_pool\<lparr>p_continuum := Some [\<lparr>k_index = 1, k_value = 7\<rparr>], p_ncontinuum := 1\<rparr>" "\<lambda>_. 0" 3 4 w0]
  by (simp add: sample_pool_def continuum_ok_def numeral_2_eq_2)

lemma gf_strchr_first:
  assumes "p \<le> q" and "q < l" and "m q = c" and "\<And>i. p \<le> i \<Longrightarrow> i < q \<Longrightarrow> m i \<noteq> c"
  shows "gf_strchr m p l c = Some q"
  using assms
proof (induction m p l c rule: gf_strchr.induct)
  case (1 m p l c)
  show ?case
  proof (cases "p = q")
    case True
    with "1.prems" show ?thesis
      by (simp add: gf_strchr.simps)
  next
    case False
    then have "p < l" "m p \<noteq> c"
      using "1.prems" by auto
    moreover from this have "gf_strchr m (p + 1) l c = Some q"
      using "1.prems" False by (intro "1.IH") auto
    ultimately show ?thesis
      by (subst gf_strchr.simps) simp
  qed
qed

lemma bytes_nth: "i < n \<Longrightarrow> bytes m n ! i = m i"
  by (simp add: bytes_def)

lemma bytes_length [simp]: "length (bytes m n) = n"
  by (simp add: bytes_def)

lemma tagged_key_bytes:
  assumes key: "bytes (\<lambda>i. m (key + i)) keylen = pre @ [t0] @ tag @ [t1] @ suf"
    and "t0 \<notin> set pre" and "t1 \<notin> set tag" and "tag \<noteq> []"
  shows "tagged_key [t0, t1] m key keylen = (key + length pre + 1, length tag)"
proof -
  have len: "keylen = length pre + length tag + length suf + 2"
    using arg_cong [OF key, of length] by simp
  have at: "m (key + i) = (pre @ [t0] @ tag @ [t1] @ suf) ! i" if "i < keylen" for i
    using bytes_nth [OF that, of "\<lambda>i. m (key + i)"] unfolding key by simp
  let ?s = "key + length pre" and ?e = "key + length pre + 1 + length tag"
  have s: "gf_strchr m key (key + keylen) t0 = Some ?s"
  proof (rule gf_strchr_first)
    show "m ?s = t0"
      using at [of "length pre"] len by simp
    fix i
    assume i: "key \<le> i" "i < ?s"
    then have "m (key + (i - key)) = (pre @ [t0] @ tag @ [t1] @ suf) ! (i - key)"
      using len by (intro at) auto
    moreover have "i - key < length pre"
      using i by linarith
    ultimately have "m i = pre ! (i - key)"
      using i by (simp add: nth_append)
    moreover have "pre ! (i - key) \<in> set pre"
      using i by (intro nth_mem) auto
    ultimately show "m i \<noteq> t0"
      using assms(2) by auto
  qed (use len in auto)
  have e: "gf_strchr m (?s + 1) (key + keylen) t1 = Some ?e"
  proof (rule gf_strchr_first)
    show "m ?e = t1"
      using at [of "length pre + 1 + length tag"] len by (simp add: nth_append add.assoc)
    fix i
    assume i: "?s + 1 \<le> i" "i < ?e"
    define j where "j = i - (?s + 1)"
    have j: "i = key + (length pre + 1 + j)" "j < length tag"
      using i by (auto simp: j_def)
    have "m i = (pre @ [t0] @ tag @ [t1] @ suf) ! (length pre + 1 + j)"
      unfolding j(1) using len j(2) by (intro at) auto
    also have "\<dots> = tag ! j"
      using j(2) by (simp add: nth_append)
    finally show "m i \<noteq> t1"
      using nth_mem [OF j(2)] assms(3) by auto
  qed (use len in auto)
  have "0 < length tag"
    using assms(4) by simp
  then show ?thesis
    using s e by (simp add: tagged_key_def)
qed

text \<open>when the pool has a two byte hash tag, keys that carry the same non-empty
  tag are mapped to the same server, wherever they are in memory and whatever the rest of the key is.\<close>

theorem hash_tag_same_server:
  assumes "p_hash_tag sp = [t0, t1]"
    and "bytes (\<lambda>i. m (key + i)) keylen = pre @ [t0] @ tag @ [t1] @ suf"
    and "bytes (\<lambda>i. m' (key' + i)) keylen' = pre' @ [t0] @ tag @ [t1] @ suf'"
    and "t0 \<notin> set pre" and "t0 \<notin> set pre'" and "t1 \<notin> set tag" and "tag \<noteq> []"
  shows "server_pool_idx sp m key keylen w = server_pool_idx sp m' key' keylen' w"
proof -
  let ?k = "key + length pre + 1" and ?k' = "key' + length pre' + 1"
  have inner: "bytes (\<lambda>i. m (a + length p + 1 + i)) (length tag) = tag"
    if b: "bytes (\<lambda>i. m (a + i)) n = p @ [t0] @ tag @ [t1] @ s" for m a n p s
  proof (rule nth_equalityI)
    fix i
    assume i: "i < length (bytes (\<lambda>i. m (a + length p + 1 + i)) (length tag))"
    have "n = length p + length tag + length s + 2"
      using arg_cong [OF b, of length] by simp
    then have "m (a + (length p + 1 + i)) = (p @ [t0] @ tag @ [t1] @ s) ! (length p + 1 + i)"
      using bytes_nth [of "length p + 1 + i" n "\<lambda>i. m (a + i)"] i b by simp
    then show "bytes (\<lambda>i. m (a + length p + 1 + i)) (length tag) ! i = tag ! i"
      using i by (simp add: bytes_nth nth_append add.assoc)
  qed simp
  have "server_pool_hash sp m ?k (length tag) = server_pool_hash sp m' ?k' (length tag)"
    using kh.same_bytes [of m ?k "length tag" m' ?k'] inner [OF assms(2)] inner [OF assms(3)]
    by (simp add: server_pool_hash_def)
  moreover have "tagged_key (p_hash_tag sp) m key keylen = (?k, length tag)"
    unfolding assms(1) by (rule tagged_key_bytes [OF assms(2,4,6,7)])
  moreover have "tagged_key (p_hash_tag sp) m' key' keylen' = (?k', length tag)"
    unfolding assms(1) by (rule tagged_key_bytes [OF assms(3,5,6,7)])
  ultimately show ?thesis
    by (cases "p_dist_type sp") (simp_all add: server_pool_idx_def Let_def cong: if_cong)
qed

lemma hash_tag_same_server_witness:
  "server_pool_idx sample_pool (\<lambda>i. [123, 65, 125, 66] ! i) 0 4 w0 =
   server_pool_idx sample_pool (\<lambda>i. [67, 68, 123, 65, 125] ! (i - 9)) 9 5 w0"
proof (rule hash_tag_same_server [where ?t0.0 = 123 and ?t1.0 = 125 and tag = "[65]" and pre = "[]" and suf = "[66]"
      and pre' = "[67, 68]" and suf' = "[]"])
  show "bytes (\<lambda>i. [123, 65, 125, 66] ! (0 + i)) 4 = [] @ [123] @ [65] @ [125] @ [66]"
    by (simp add: bytes_def upt_rec)
  show "bytes (\<lambda>i. [67, 68, 123, 65, 125] ! (9 + i - 9)) 5 = [67, 68] @ [123] @ [65] @ [125] @ []"
    by (simp add: bytes_def upt_rec)
qed (simp_all add: sample_pool_def)

subsection \<open>Weights that wrap around\<close>

text \<open>A pool of five servers of the greatest weight the configuration accepts.\<close>

definition overweight :: "server_pool \<Rightarrow> bool" where
  "overweight sp \<longleftrightarrow> map s_weight (p_server sp) = replicate 5 (2 ^ 31 - 1) \<and> \<not> p_auto_eject_hosts sp
     \<and> p_continuum sp = None \<and> p_nserver_continuum sp = 0"

lemma five: "replicate 5 x = [x, x, x, x, x]"
  by (simp add: numeral_eq_Suc)

lemma overweight_length: "overweight sp \<Longrightarrow> length (p_server sp) = 5"
  unfolding overweight_def by (metis length_map length_replicate)

lemma overweight_points:
  assumes "overweight sp" "0 \<le> now"
  shows "length (ketama_live False now (p_server sp)) = 4000"
proof -
  let ?live = "live_servers False now (map (revive False now) (p_server sp))"
  have ws: "map (s_weight \<circ> snd) ?live = replicate 5 (2 ^ 31 - 1)"
    unfolding live_weights [OF assms(2)] using assms(1) by (simp add: is_live_def overweight_def)
  have n: "length (p_server sp) = 5" by (rule overweight_length [OF assms(1)])
  have share: "ketama_pointers (2 ^ 31 - 1) (5 * (2 ^ 31 - 1)) 5 = 800" by code_simp
  have tot: "sum_list (map s_weight (p_server sp)) = 5 * (2 ^ 31 - 1)" using assms(1) by (simp add: overweight_def five)
  have "length (ketama_live False now (p_server sp))
    = sum_list (map (\<lambda>v. 4 * unat (ketama_pointers v (5 * (2 ^ 31 - 1)) 5 div 4)) (map (s_weight \<circ> snd) ?live))"
    using tot n by (simp add: ketama_live_def ketama_points_def is_live_def Let_def length_concat o_def split_def ketama_server_points_length)
  also have "\<dots> = 4000" unfolding ws by (simp add: share [simplified] five)
  finally show ?thesis .
qed

text \<open>
  C20: the total weight is a 32 bit sum that wraps around for five servers of the
  greatest weight a configuration accepts, 2^31 - 1.  On the first update of a pool of these five, which
  ejects no server, with the clock and the allocation working, the shares make 4000 points for the 2400 places
  allocated, and the update writes outside the allocation: it has no result.
\<close>

theorem ketama_weights_overflow:
  assumes "overweight (pool w p)" "\<not> w_panic w" "0 \<le> fst (gf_usec_now w)" "fst (gf_alloc (snd (gf_usec_now w)))"
  shows "ketama_update p w = None"
proof -
  let ?ss = "p_server (pool w p)"
  define now w1 where "now = fst (gf_usec_now w)" and "w1 = snd (gf_usec_now w)"
  have clk: "gf_usec_now w = (now, w1)" by (simp add: now_def w1_def)
  have w1: "pool w1 p = pool w p" "\<not> w_panic w1" using assms(2) by (simp_all add: w1_def)
  have now: "0 \<le> now" using assms(3) by (simp add: now_def)
  note len = overweight_length [OF assms(1)]
  let ?tw = "sum_list (map s_weight ?ss)"
  have scan: "live_scan False now ?ss 0 0 0 = (map (revive False now) ?ss, 5, ?tw, 0)"
    using now len by (simp add: live_scan_eq is_live_def earliest_def)
  define w2 where "w2 = upd_pool p (\<lambda>sp. sp\<lparr>p_server := map (revive False now) ?ss, p_next_rebuild := 0, p_nlive_server := 5\<rparr>) w1"
  define w3 where "w3 = snd (grow_continuum p 5 KETAMA_CONTINUUM_ADDITION KETAMA_POINTS_PER_SERVER w2)"
  have "fst (gf_alloc w2)" using assms(4) by (simp add: w2_def w1_def upd_pool_def gf_alloc_def sys_def split_def Let_def)
  then have g: "grow_continuum p 5 KETAMA_CONTINUUM_ADDITION KETAMA_POINTS_PER_SERVER w2 = (GF_OK, w3)"
    "\<exists>c. p_continuum (pool w3 p) = Some c \<and> length c = 2400"
    using assms(1) w1 by (simp_all add: w3_def w2_def overweight_def grow_continuum_def realloc_continuum_def split_def grow_to_def Let_def
      KETAMA_CONTINUUM_ADDITION_def KETAMA_POINTS_PER_SERVER_def)
  obtain c where c: "p_continuum (pool w3 p) = Some c" "length c = 2400" using g(2) by blast
  have "ketama_points ?tw 5 (live_servers False now (map (revive False now) ?ss)) = ketama_live False now ?ss"
    using len by (simp add: ketama_live_def is_live_def)
  then have put: "put_points c 0 (ketama_points ?tw 5 (live_servers False now (map (revive False now) ?ss))) = None"
    using c overweight_points [OF assms(1) now] by (simp add: put_points_overflow)
  have auto: "\<not> p_auto_eject_hosts (pool w p)" using assms(1) by (simp add: overweight_def)
  show ?thesis
    using clk w1 now assms(2) len scan g(1) c put auto by (simp add: ketama_update_def ASSERT_no_panic w2_def Let_def)
qed

lemma ketama_weights_overflow_witness:
  "\<exists>w. overweight (pool w 0) \<and> ketama_update 0 w = None"
proof -
  let ?sp = "sample_pool\<lparr>p_server := replicate 5 (sample_server 0 (2 ^ 31 - 1)), p_auto_eject_hosts := False\<rparr>"
  define w where "w = w0\<lparr>w_pools := (w_pools w0)(0 := ?sp)\<rparr>"
  have o: "overweight (pool w 0)" by (simp add: w_def overweight_def sample_pool_def sample_server_def)
  have "\<not> w_panic w" "0 \<le> fst (gf_usec_now w)" "fst (gf_alloc (snd (gf_usec_now w)))"
    by (simp_all add: w_def gf_usec_now_def gf_alloc_def sys_def sample_res_def split_def Let_def)
  from ketama_weights_overflow [OF o this] o show ?thesis by blast
qed

end
