(* ===== verification/Frames.thy ===== *)
theory Frames
  imports Sample
begin

section \<open>What the state updates change and what they leave alone\<close>

text \<open>
  Lookup after update for the updates of one message, connection, mbuf, pool or server, and
  the fields a system call leaves alone.  These rules are the automation the proofs about
  the handlers rest on.
\<close>

subsection \<open>Lookup of the updated object\<close>

lemma msg_upd_msg [simp]: "msg (upd_msg m f w) n = (if n = m then f (msg w m) else msg w n)"
  by (simp add: upd_msg_def)

lemma conn_upd_conn [simp]: "conn (upd_conn c f w) d = (if d = c then f (conn w c) else conn w d)"
  by (simp add: upd_conn_def)

lemma mbuf_upd_mbuf [simp]: "mbuf (upd_mbuf b f w) d = (if d = b then f (mbuf w b) else mbuf w d)"
  by (simp add: upd_mbuf_def)

lemma pool_upd_server:
  "pool (upd_server p s f w) q =
     (if q = p then (pool w p)\<lparr>p_server := (p_server (pool w p))[s := f (p_server (pool w p) ! s)]\<rparr> else pool w q)"
  by (simp add: upd_server_def upd_pool_def)

lemma server_upd_server [simp]:
  "s < length (p_server (pool w p)) \<Longrightarrow>
     server (upd_server p s f w) q r = (if q = p \<and> r = s then f (server w p s) else server w q r)"
  by (auto simp: pool_upd_server nth_list_update)

lemma length_server_upd_server [simp]:
  "length (p_server (pool (upd_server p s f w) q)) = length (p_server (pool w q))"
  by (simp add: pool_upd_server)

subsection \<open>The fields an update leaves alone\<close>

lemma upd_msg_frame [simp]:
  "w_os (upd_msg m f w) = w_os w" "w_tick (upd_msg m f w) = w_tick w" "w_trace (upd_msg m f w) = w_trace w"
  "w_errno (upd_msg m f w) = w_errno w" "w_panic (upd_msg m f w) = w_panic w" "w_log_notice (upd_msg m f w) = w_log_notice w"
  "w_mbufs (upd_msg m f w) = w_mbufs w" "w_nmbuf (upd_msg m f w) = w_nmbuf w" "w_free_mbufq (upd_msg m f w) = w_free_mbufq w"
  "w_nfree_mbufq (upd_msg m f w) = w_nfree_mbufq w" "w_mbuf_chunk_size (upd_msg m f w) = w_mbuf_chunk_size w"
  "w_mbuf_offset (upd_msg m f w) = w_mbuf_offset w" "w_nmsg (upd_msg m f w) = w_nmsg w"
  "w_free_msgq (upd_msg m f w) = w_free_msgq w" "w_nfree_msgq (upd_msg m f w) = w_nfree_msgq w"
  "w_msg_id (upd_msg m f w) = w_msg_id w" "w_frag_id (upd_msg m f w) = w_frag_id w" "w_tmo (upd_msg m f w) = w_tmo w"
  "w_conns (upd_msg m f w) = w_conns w" "w_nconn (upd_msg m f w) = w_nconn w" "w_free_connq (upd_msg m f w) = w_free_connq w"
  "w_nfree_connq (upd_msg m f w) = w_nfree_connq w" "w_ntotal_conn (upd_msg m f w) = w_ntotal_conn w"
  "w_ncurr_conn (upd_msg m f w) = w_ncurr_conn w" "w_ncurr_cconn (upd_msg m f w) = w_ncurr_cconn w"
  "w_pools (upd_msg m f w) = w_pools w" "w_npool (upd_msg m f w) = w_npool w" "w_max_timeout (upd_msg m f w) = w_max_timeout w"
  "w_timeout (upd_msg m f w) = w_timeout w" "w_max_nfd (upd_msg m f w) = w_max_nfd w"
  "w_max_ncconn (upd_msg m f w) = w_max_ncconn w" "w_max_nsconn (upd_msg m f w) = w_max_nsconn w" "w_ep (upd_msg m f w) = w_ep w"
  "w_nevent (upd_msg m f w) = w_nevent w" "w_stats (upd_msg m f w) = w_stats w"
  by (simp_all add: upd_msg_def)

lemma upd_conn_frame [simp]:
  "w_os (upd_conn c f w) = w_os w" "w_tick (upd_conn c f w) = w_tick w" "w_trace (upd_conn c f w) = w_trace w"
  "w_errno (upd_conn c f w) = w_errno w" "w_panic (upd_conn c f w) = w_panic w" "w_log_notice (upd_conn c f w) = w_log_notice w"
  "w_mbufs (upd_conn c f w) = w_mbufs w" "w_nmbuf (upd_conn c f w) = w_nmbuf w" "w_free_mbufq (upd_conn c f w) = w_free_mbufq w"
  "w_nfree_mbufq (upd_conn c f w) = w_nfree_mbufq w" "w_mbuf_chunk_size (upd_conn c f w) = w_mbuf_chunk_size w"
  "w_mbuf_offset (upd_conn c f w) = w_mbuf_offset w" "w_msgs (upd_conn c f w) = w_msgs w" "w_nmsg (upd_conn c f w) = w_nmsg w"
  "w_free_msgq (upd_conn c f w) = w_free_msgq w" "w_nfree_msgq (upd_conn c f w) = w_nfree_msgq w"
  "w_msg_id (upd_conn c f w) = w_msg_id w" "w_frag_id (upd_conn c f w) = w_frag_id w" "w_tmo (upd_conn c f w) = w_tmo w"
  "w_nconn (upd_conn c f w) = w_nconn w" "w_free_connq (upd_conn c f w) = w_free_connq w"
  "w_nfree_connq (upd_conn c f w) = w_nfree_connq w" "w_ntotal_conn (upd_conn c f w) = w_ntotal_conn w"
  "w_ncurr_conn (upd_conn c f w) = w_ncurr_conn w" "w_ncurr_cconn (upd_conn c f w) = w_ncurr_cconn w"
  "w_pools (upd_conn c f w) = w_pools w" "w_npool (upd_conn c f w) = w_npool w" "w_max_timeout (upd_conn c f w) = w_max_timeout w"
  "w_timeout (upd_conn c f w) = w_timeout w" "w_max_nfd (upd_conn c f w) = w_max_nfd w"
  "w_max_ncconn (upd_conn c f w) = w_max_ncconn w" "w_max_nsconn (upd_conn c f w) = w_max_nsconn w"
  "w_ep (upd_conn c f w) = w_ep w" "w_nevent (upd_conn c f w) = w_nevent w" "w_stats (upd_conn c f w) = w_stats w"
  by (simp_all add: upd_conn_def)

lemma upd_mbuf_frame [simp]:
  "w_os (upd_mbuf b f w) = w_os w" "w_tick (upd_mbuf b f w) = w_tick w" "w_trace (upd_mbuf b f w) = w_trace w"
  "w_errno (upd_mbuf b f w) = w_errno w" "w_panic (upd_mbuf b f w) = w_panic w" "w_log_notice (upd_mbuf b f w) = w_log_notice w"
  "w_nmbuf (upd_mbuf b f w) = w_nmbuf w" "w_free_mbufq (upd_mbuf b f w) = w_free_mbufq w"
  "w_nfree_mbufq (upd_mbuf b f w) = w_nfree_mbufq w" "w_mbuf_chunk_size (upd_mbuf b f w) = w_mbuf_chunk_size w"
  "w_mbuf_offset (upd_mbuf b f w) = w_mbuf_offset w" "w_msgs (upd_mbuf b f w) = w_msgs w" "w_nmsg (upd_mbuf b f w) = w_nmsg w"
  "w_free_msgq (upd_mbuf b f w) = w_free_msgq w" "w_nfree_msgq (upd_mbuf b f w) = w_nfree_msgq w"
  "w_msg_id (upd_mbuf b f w) = w_msg_id w" "w_frag_id (upd_mbuf b f w) = w_frag_id w" "w_tmo (upd_mbuf b f w) = w_tmo w"
  "w_conns (upd_mbuf b f w) = w_conns w" "w_nconn (upd_mbuf b f w) = w_nconn w" "w_free_connq (upd_mbuf b f w) = w_free_connq w"
  "w_nfree_connq (upd_mbuf b f w) = w_nfree_connq w" "w_ntotal_conn (upd_mbuf b f w) = w_ntotal_conn w"
  "w_ncurr_conn (upd_mbuf b f w) = w_ncurr_conn w" "w_ncurr_cconn (upd_mbuf b f w) = w_ncurr_cconn w"
  "w_pools (upd_mbuf b f w) = w_pools w" "w_npool (upd_mbuf b f w) = w_npool w" "w_max_timeout (upd_mbuf b f w) = w_max_timeout w"
  "w_timeout (upd_mbuf b f w) = w_timeout w" "w_max_nfd (upd_mbuf b f w) = w_max_nfd w"
  "w_max_ncconn (upd_mbuf b f w) = w_max_ncconn w" "w_max_nsconn (upd_mbuf b f w) = w_max_nsconn w"
  "w_ep (upd_mbuf b f w) = w_ep w" "w_nevent (upd_mbuf b f w) = w_nevent w" "w_stats (upd_mbuf b f w) = w_stats w"
  by (simp_all add: upd_mbuf_def)

lemma upd_pool_frame [simp]:
  "w_os (upd_pool p f w) = w_os w" "w_tick (upd_pool p f w) = w_tick w" "w_trace (upd_pool p f w) = w_trace w"
  "w_errno (upd_pool p f w) = w_errno w" "w_panic (upd_pool p f w) = w_panic w" "w_log_notice (upd_pool p f w) = w_log_notice w"
  "w_mbufs (upd_pool p f w) = w_mbufs w" "w_nmbuf (upd_pool p f w) = w_nmbuf w" "w_free_mbufq (upd_pool p f w) = w_free_mbufq w"
  "w_nfree_mbufq (upd_pool p f w) = w_nfree_mbufq w" "w_mbuf_chunk_size (upd_pool p f w) = w_mbuf_chunk_size w"
  "w_mbuf_offset (upd_pool p f w) = w_mbuf_offset w" "w_msgs (upd_pool p f w) = w_msgs w" "w_nmsg (upd_pool p f w) = w_nmsg w"
  "w_free_msgq (upd_pool p f w) = w_free_msgq w" "w_nfree_msgq (upd_pool p f w) = w_nfree_msgq w"
  "w_msg_id (upd_pool p f w) = w_msg_id w" "w_frag_id (upd_pool p f w) = w_frag_id w" "w_tmo (upd_pool p f w) = w_tmo w"
  "w_conns (upd_pool p f w) = w_conns w" "w_nconn (upd_pool p f w) = w_nconn w" "w_free_connq (upd_pool p f w) = w_free_connq w"
  "w_nfree_connq (upd_pool p f w) = w_nfree_connq w" "w_ntotal_conn (upd_pool p f w) = w_ntotal_conn w"
  "w_ncurr_conn (upd_pool p f w) = w_ncurr_conn w" "w_ncurr_cconn (upd_pool p f w) = w_ncurr_cconn w"
  "w_npool (upd_pool p f w) = w_npool w" "w_max_timeout (upd_pool p f w) = w_max_timeout w"
  "w_timeout (upd_pool p f w) = w_timeout w" "w_max_nfd (upd_pool p f w) = w_max_nfd w"
  "w_max_ncconn (upd_pool p f w) = w_max_ncconn w" "w_max_nsconn (upd_pool p f w) = w_max_nsconn w"
  "w_ep (upd_pool p f w) = w_ep w" "w_nevent (upd_pool p f w) = w_nevent w" "w_stats (upd_pool p f w) = w_stats w"
  by (simp_all add: upd_pool_def)

lemma upd_server_frame [simp]:
  "w_os (upd_server p s f w) = w_os w" "w_tick (upd_server p s f w) = w_tick w" "w_trace (upd_server p s f w) = w_trace w"
  "w_errno (upd_server p s f w) = w_errno w" "w_panic (upd_server p s f w) = w_panic w"
  "w_log_notice (upd_server p s f w) = w_log_notice w" "w_mbufs (upd_server p s f w) = w_mbufs w"
  "w_nmbuf (upd_server p s f w) = w_nmbuf w" "w_free_mbufq (upd_server p s f w) = w_free_mbufq w"
  "w_nfree_mbufq (upd_server p s f w) = w_nfree_mbufq w" "w_mbuf_chunk_size (upd_server p s f w) = w_mbuf_chunk_size w"
  "w_mbuf_offset (upd_server p s f w) = w_mbuf_offset w" "w_msgs (upd_server p s f w) = w_msgs w"
  "w_nmsg (upd_server p s f w) = w_nmsg w" "w_free_msgq (upd_server p s f w) = w_free_msgq w"
  "w_nfree_msgq (upd_server p s f w) = w_nfree_msgq w" "w_msg_id (upd_server p s f w) = w_msg_id w"
  "w_frag_id (upd_server p s f w) = w_frag_id w" "w_tmo (upd_server p s f w) = w_tmo w" "w_conns (upd_server p s f w) = w_conns w"
  "w_nconn (upd_server p s f w) = w_nconn w" "w_free_connq (upd_server p s f w) = w_free_connq w"
  "w_nfree_connq (upd_server p s f w) = w_nfree_connq w" "w_ntotal_conn (upd_server p s f w) = w_ntotal_conn w"
  "w_ncurr_conn (upd_server p s f w) = w_ncurr_conn w" "w_ncurr_cconn (upd_server p s f w) = w_ncurr_cconn w"
  "w_npool (upd_server p s f w) = w_npool w" "w_max_timeout (upd_server p s f w) = w_max_timeout w"
  "w_timeout (upd_server p s f w) = w_timeout w" "w_max_nfd (upd_server p s f w) = w_max_nfd w"
  "w_max_ncconn (upd_server p s f w) = w_max_ncconn w" "w_max_nsconn (upd_server p s f w) = w_max_nsconn w"
  "w_ep (upd_server p s f w) = w_ep w" "w_nevent (upd_server p s f w) = w_nevent w" "w_stats (upd_server p s f w) = w_stats w"
  by (simp_all add: upd_server_def)

subsection \<open>System calls\<close>

lemma sys_frame [simp]:
  "w_os (snd (sys op w)) = w_os w" "w_panic (snd (sys op w)) = w_panic w" "w_log_notice (snd (sys op w)) = w_log_notice w"
  "w_mbufs (snd (sys op w)) = w_mbufs w" "w_nmbuf (snd (sys op w)) = w_nmbuf w" "w_free_mbufq (snd (sys op w)) = w_free_mbufq w"
  "w_nfree_mbufq (snd (sys op w)) = w_nfree_mbufq w" "w_mbuf_chunk_size (snd (sys op w)) = w_mbuf_chunk_size w"
  "w_mbuf_offset (snd (sys op w)) = w_mbuf_offset w" "w_msgs (snd (sys op w)) = w_msgs w" "w_nmsg (snd (sys op w)) = w_nmsg w"
  "w_free_msgq (snd (sys op w)) = w_free_msgq w" "w_nfree_msgq (snd (sys op w)) = w_nfree_msgq w"
  "w_msg_id (snd (sys op w)) = w_msg_id w" "w_frag_id (snd (sys op w)) = w_frag_id w" "w_tmo (snd (sys op w)) = w_tmo w"
  "w_conns (snd (sys op w)) = w_conns w" "w_nconn (snd (sys op w)) = w_nconn w" "w_free_connq (snd (sys op w)) = w_free_connq w"
  "w_nfree_connq (snd (sys op w)) = w_nfree_connq w" "w_ntotal_conn (snd (sys op w)) = w_ntotal_conn w"
  "w_ncurr_conn (snd (sys op w)) = w_ncurr_conn w" "w_ncurr_cconn (snd (sys op w)) = w_ncurr_cconn w"
  "w_pools (snd (sys op w)) = w_pools w" "w_npool (snd (sys op w)) = w_npool w" "w_max_timeout (snd (sys op w)) = w_max_timeout w"
  "w_timeout (snd (sys op w)) = w_timeout w" "w_max_nfd (snd (sys op w)) = w_max_nfd w"
  "w_max_ncconn (snd (sys op w)) = w_max_ncconn w" "w_max_nsconn (snd (sys op w)) = w_max_nsconn w"
  "w_ep (snd (sys op w)) = w_ep w" "w_nevent (snd (sys op w)) = w_nevent w" "w_stats (snd (sys op w)) = w_stats w"
  "w_tick (snd (sys op w)) = Suc (w_tick w)" "w_trace (snd (sys op w)) = w_trace w @ [(op, fst (sys op w))]"
  by (simp_all add: sys_def Let_def)

lemma fst_sys [simp]: "fst (sys op w) = w_os w (w_tick w)"
  by (simp add: sys_def Let_def)

lemma errno_sys [simp]:
  "w_errno (snd (sys op w)) = (if r_ret (w_os w (w_tick w)) < 0 then r_errno (w_os w (w_tick w)) else w_errno w)"
  by (simp add: sys_def Let_def)

lemma sys_eq: "sys op w = (w_os w (w_tick w), snd (sys op w))"
  by (simp add: sys_def Let_def)

lemma gf_alloc_frame [simp]:
  "w_os (snd (gf_alloc w)) = w_os w" "w_panic (snd (gf_alloc w)) = w_panic w" "w_log_notice (snd (gf_alloc w)) = w_log_notice w"
  "w_mbufs (snd (gf_alloc w)) = w_mbufs w" "w_nmbuf (snd (gf_alloc w)) = w_nmbuf w"
  "w_free_mbufq (snd (gf_alloc w)) = w_free_mbufq w" "w_nfree_mbufq (snd (gf_alloc w)) = w_nfree_mbufq w"
  "w_mbuf_chunk_size (snd (gf_alloc w)) = w_mbuf_chunk_size w" "w_mbuf_offset (snd (gf_alloc w)) = w_mbuf_offset w"
  "w_msgs (snd (gf_alloc w)) = w_msgs w" "w_nmsg (snd (gf_alloc w)) = w_nmsg w" "w_free_msgq (snd (gf_alloc w)) = w_free_msgq w"
  "w_nfree_msgq (snd (gf_alloc w)) = w_nfree_msgq w" "w_msg_id (snd (gf_alloc w)) = w_msg_id w"
  "w_frag_id (snd (gf_alloc w)) = w_frag_id w" "w_tmo (snd (gf_alloc w)) = w_tmo w" "w_conns (snd (gf_alloc w)) = w_conns w"
  "w_nconn (snd (gf_alloc w)) = w_nconn w" "w_free_connq (snd (gf_alloc w)) = w_free_connq w"
  "w_nfree_connq (snd (gf_alloc w)) = w_nfree_connq w" "w_ntotal_conn (snd (gf_alloc w)) = w_ntotal_conn w"
  "w_ncurr_conn (snd (gf_alloc w)) = w_ncurr_conn w" "w_ncurr_cconn (snd (gf_alloc w)) = w_ncurr_cconn w"
  "w_pools (snd (gf_alloc w)) = w_pools w" "w_npool (snd (gf_alloc w)) = w_npool w"
  "w_max_timeout (snd (gf_alloc w)) = w_max_timeout w" "w_timeout (snd (gf_alloc w)) = w_timeout w"
  "w_max_nfd (snd (gf_alloc w)) = w_max_nfd w" "w_max_ncconn (snd (gf_alloc w)) = w_max_ncconn w"
  "w_max_nsconn (snd (gf_alloc w)) = w_max_nsconn w" "w_ep (snd (gf_alloc w)) = w_ep w" "w_nevent (snd (gf_alloc w)) = w_nevent w"
  "w_stats (snd (gf_alloc w)) = w_stats w"
  "w_tick (snd (gf_alloc w)) = Suc (w_tick w)"
  by (simp_all add: gf_alloc_def sys_def Let_def)

lemma gf_usec_now_frame [simp]:
  "w_os (snd (gf_usec_now w)) = w_os w" "w_panic (snd (gf_usec_now w)) = w_panic w"
  "w_log_notice (snd (gf_usec_now w)) = w_log_notice w" "w_mbufs (snd (gf_usec_now w)) = w_mbufs w"
  "w_nmbuf (snd (gf_usec_now w)) = w_nmbuf w" "w_free_mbufq (snd (gf_usec_now w)) = w_free_mbufq w"
  "w_nfree_mbufq (snd (gf_usec_now w)) = w_nfree_mbufq w" "w_mbuf_chunk_size (snd (gf_usec_now w)) = w_mbuf_chunk_size w"
  "w_mbuf_offset (snd (gf_usec_now w)) = w_mbuf_offset w" "w_msgs (snd (gf_usec_now w)) = w_msgs w"
  "w_nmsg (snd (gf_usec_now w)) = w_nmsg w" "w_free_msgq (snd (gf_usec_now w)) = w_free_msgq w"
  "w_nfree_msgq (snd (gf_usec_now w)) = w_nfree_msgq w" "w_msg_id (snd (gf_usec_now w)) = w_msg_id w"
  "w_frag_id (snd (gf_usec_now w)) = w_frag_id w" "w_tmo (snd (gf_usec_now w)) = w_tmo w"
  "w_conns (snd (gf_usec_now w)) = w_conns w" "w_nconn (snd (gf_usec_now w)) = w_nconn w"
  "w_free_connq (snd (gf_usec_now w)) = w_free_connq w" "w_nfree_connq (snd (gf_usec_now w)) = w_nfree_connq w"
  "w_ntotal_conn (snd (gf_usec_now w)) = w_ntotal_conn w" "w_ncurr_conn (snd (gf_usec_now w)) = w_ncurr_conn w"
  "w_ncurr_cconn (snd (gf_usec_now w)) = w_ncurr_cconn w" "w_pools (snd (gf_usec_now w)) = w_pools w"
  "w_npool (snd (gf_usec_now w)) = w_npool w" "w_max_timeout (snd (gf_usec_now w)) = w_max_timeout w"
  "w_timeout (snd (gf_usec_now w)) = w_timeout w" "w_max_nfd (snd (gf_usec_now w)) = w_max_nfd w"
  "w_max_ncconn (snd (gf_usec_now w)) = w_max_ncconn w" "w_max_nsconn (snd (gf_usec_now w)) = w_max_nsconn w"
  "w_ep (snd (gf_usec_now w)) = w_ep w" "w_nevent (snd (gf_usec_now w)) = w_nevent w" "w_stats (snd (gf_usec_now w)) = w_stats w"
  "w_tick (snd (gf_usec_now w)) = Suc (w_tick w)"
  by (simp_all add: gf_usec_now_def sys_def Let_def)

lemma gf_msec_now_frame [simp]:
  "w_os (snd (gf_msec_now w)) = w_os w" "w_panic (snd (gf_msec_now w)) = w_panic w"
  "w_log_notice (snd (gf_msec_now w)) = w_log_notice w" "w_mbufs (snd (gf_msec_now w)) = w_mbufs w"
  "w_nmbuf (snd (gf_msec_now w)) = w_nmbuf w" "w_free_mbufq (snd (gf_msec_now w)) = w_free_mbufq w"
  "w_nfree_mbufq (snd (gf_msec_now w)) = w_nfree_mbufq w" "w_mbuf_chunk_size (snd (gf_msec_now w)) = w_mbuf_chunk_size w"
  "w_mbuf_offset (snd (gf_msec_now w)) = w_mbuf_offset w" "w_msgs (snd (gf_msec_now w)) = w_msgs w"
  "w_nmsg (snd (gf_msec_now w)) = w_nmsg w" "w_free_msgq (snd (gf_msec_now w)) = w_free_msgq w"
  "w_nfree_msgq (snd (gf_msec_now w)) = w_nfree_msgq w" "w_msg_id (snd (gf_msec_now w)) = w_msg_id w"
  "w_frag_id (snd (gf_msec_now w)) = w_frag_id w" "w_tmo (snd (gf_msec_now w)) = w_tmo w"
  "w_conns (snd (gf_msec_now w)) = w_conns w" "w_nconn (snd (gf_msec_now w)) = w_nconn w"
  "w_free_connq (snd (gf_msec_now w)) = w_free_connq w" "w_nfree_connq (snd (gf_msec_now w)) = w_nfree_connq w"
  "w_ntotal_conn (snd (gf_msec_now w)) = w_ntotal_conn w" "w_ncurr_conn (snd (gf_msec_now w)) = w_ncurr_conn w"
  "w_ncurr_cconn (snd (gf_msec_now w)) = w_ncurr_cconn w" "w_pools (snd (gf_msec_now w)) = w_pools w"
  "w_npool (snd (gf_msec_now w)) = w_npool w" "w_max_timeout (snd (gf_msec_now w)) = w_max_timeout w"
  "w_timeout (snd (gf_msec_now w)) = w_timeout w" "w_max_nfd (snd (gf_msec_now w)) = w_max_nfd w"
  "w_max_ncconn (snd (gf_msec_now w)) = w_max_ncconn w" "w_max_nsconn (snd (gf_msec_now w)) = w_max_nsconn w"
  "w_ep (snd (gf_msec_now w)) = w_ep w" "w_nevent (snd (gf_msec_now w)) = w_nevent w" "w_stats (snd (gf_msec_now w)) = w_stats w"
  "w_tick (snd (gf_msec_now w)) = Suc (w_tick w)"
  by (simp_all add: gf_msec_now_def gf_usec_now_def sys_def Let_def)

lemma fst_gf_alloc [simp]: "fst (gf_alloc w) \<longleftrightarrow> r_ret (w_os w (w_tick w)) \<noteq> 0"
  by (simp add: gf_alloc_def sys_def Let_def)

end
