(* ===== verification/Stats.thy ===== *)
theory Stats
  imports Frames
begin

section \<open>Statistics (\<open>gf_stats.c\<close>)\<close>

text \<open>
  The counters the proxy thread updates and the three copies (current, shadow, sum) it
  exchanges with the aggregator.  Counters are \<open>int64_t\<close> in the code and unbounded here: a
  signed overflow is undefined behaviour in C and needs 2^63 events.  The arrays of metrics
  are functions of the pool and server index and of the field; \<open>stats_pool_map\<close> gives them
  one entry for each pool and server of the configuration.
\<close>

datatype stats_type = STATS_COUNTER | STATS_GAUGE | STATS_TIMESTAMP

fun pool_type :: "pool_field \<Rightarrow> stats_type" where
  "pool_type P_client_connections = STATS_GAUGE"
| "pool_type _ = STATS_COUNTER"

fun server_type :: "server_field \<Rightarrow> stats_type" where
  "server_type S_server_connections = STATS_GAUGE"
| "server_type S_server_ejected_at = STATS_TIMESTAMP"
| "server_type S_in_queue = STATS_GAUGE"
| "server_type S_in_queue_bytes = STATS_GAUGE"
| "server_type S_out_queue = STATS_GAUGE"
| "server_type S_out_queue_bytes = STATS_GAUGE"
| "server_type _ = STATS_COUNTER"

subsection \<open>Updates by the proxy\<close>

text \<open>\<open>stats_pool_to_metric\<close> and \<open>stats_server_to_metric\<close>: find a metric and mark the current copy as updated.\<close>

definition stats_pool_to_metric :: "nat \<Rightarrow> pool_field \<Rightarrow> (int \<Rightarrow> int) \<Rightarrow> world \<Rightarrow> world" where
  "stats_pool_to_metric p fidx f w =
     (let pidx = unat (p_idx (pool w p)); st = w_stats w; cur = st_current st
      in w\<lparr>w_stats := st\<lparr>st_current := cur\<lparr>sd_pool := (sd_pool cur)(pidx := (sd_pool cur pidx)(fidx := f (sd_pool cur pidx fidx)))\<rparr>,
                         st_updated := True\<rparr>\<rparr>)"

definition stats_server_to_metric :: "nat \<Rightarrow> nat \<Rightarrow> server_field \<Rightarrow> (int \<Rightarrow> int) \<Rightarrow> world \<Rightarrow> world" where
  "stats_server_to_metric p s fidx f w =
     (let sidx = unat (s_idx (server w p s)); pidx = unat (p_idx (pool w p)); st = w_stats w; cur = st_current st
      in w\<lparr>w_stats := st\<lparr>st_current := cur\<lparr>sd_server := (sd_server cur)(pidx := (sd_server cur pidx)(sidx :=
                            (sd_server cur pidx sidx)(fidx := f (sd_server cur pidx sidx fidx))))\<rparr>,
                         st_updated := True\<rparr>\<rparr>)"

definition stats_pool_incr :: "nat \<Rightarrow> pool_field \<Rightarrow> world \<Rightarrow> world option" where
  "stats_pool_incr p fidx w = do {
     ASSERT (pool_type fidx = STATS_COUNTER \<or> pool_type fidx = STATS_GAUGE) w;
     Some (stats_pool_to_metric p fidx (\<lambda>n. n + 1) w) }"

definition stats_pool_decr :: "nat \<Rightarrow> pool_field \<Rightarrow> world \<Rightarrow> world option" where
  "stats_pool_decr p fidx w = do {
     ASSERT (pool_type fidx = STATS_GAUGE) w;
     Some (stats_pool_to_metric p fidx (\<lambda>n. n - 1) w) }"

definition stats_pool_incr_by :: "nat \<Rightarrow> pool_field \<Rightarrow> int \<Rightarrow> world \<Rightarrow> world option" where
  "stats_pool_incr_by p fidx val w = do {
     ASSERT (pool_type fidx = STATS_COUNTER \<or> pool_type fidx = STATS_GAUGE) w;
     Some (stats_pool_to_metric p fidx (\<lambda>n. n + val) w) }"

definition stats_pool_decr_by :: "nat \<Rightarrow> pool_field \<Rightarrow> int \<Rightarrow> world \<Rightarrow> world option" where
  "stats_pool_decr_by p fidx val w = do {
     ASSERT (pool_type fidx = STATS_GAUGE) w;
     Some (stats_pool_to_metric p fidx (\<lambda>n. n - val) w) }"

definition stats_pool_set_ts :: "nat \<Rightarrow> pool_field \<Rightarrow> int \<Rightarrow> world \<Rightarrow> world option" where
  "stats_pool_set_ts p fidx val w = do {
     ASSERT (pool_type fidx = STATS_TIMESTAMP) w;
     Some (stats_pool_to_metric p fidx (\<lambda>_. val) w) }"

definition stats_server_incr :: "nat \<Rightarrow> nat \<Rightarrow> server_field \<Rightarrow> world \<Rightarrow> world option" where
  "stats_server_incr p s fidx w = do {
     ASSERT (server_type fidx = STATS_COUNTER \<or> server_type fidx = STATS_GAUGE) w;
     Some (stats_server_to_metric p s fidx (\<lambda>n. n + 1) w) }"

definition stats_server_decr :: "nat \<Rightarrow> nat \<Rightarrow> server_field \<Rightarrow> world \<Rightarrow> world option" where
  "stats_server_decr p s fidx w = do {
     ASSERT (server_type fidx = STATS_GAUGE) w;
     Some (stats_server_to_metric p s fidx (\<lambda>n. n - 1) w) }"

definition stats_server_incr_by :: "nat \<Rightarrow> nat \<Rightarrow> server_field \<Rightarrow> int \<Rightarrow> world \<Rightarrow> world option" where
  "stats_server_incr_by p s fidx val w = do {
     ASSERT (server_type fidx = STATS_COUNTER \<or> server_type fidx = STATS_GAUGE) w;
     Some (stats_server_to_metric p s fidx (\<lambda>n. n + val) w) }"

definition stats_server_decr_by :: "nat \<Rightarrow> nat \<Rightarrow> server_field \<Rightarrow> int \<Rightarrow> world \<Rightarrow> world option" where
  "stats_server_decr_by p s fidx val w = do {
     ASSERT (server_type fidx = STATS_GAUGE) w;
     Some (stats_server_to_metric p s fidx (\<lambda>n. n - val) w) }"

definition stats_server_set_ts :: "nat \<Rightarrow> nat \<Rightarrow> server_field \<Rightarrow> int \<Rightarrow> world \<Rightarrow> world option" where
  "stats_server_set_ts p s fidx val w = do {
     ASSERT (server_type fidx = STATS_TIMESTAMP) w;
     Some (stats_server_to_metric p s fidx (\<lambda>_. val) w) }"

subsection \<open>Exchange with the aggregator\<close>

definition stats_metric_init :: "stats_type \<Rightarrow> int" where
  "stats_metric_init t = (case t of STATS_COUNTER \<Rightarrow> 0 | STATS_GAUGE \<Rightarrow> 0 | STATS_TIMESTAMP \<Rightarrow> 0)"

definition stats_pool_reset :: "stats_data \<Rightarrow> stats_data" where
  "stats_pool_reset sd = sd\<lparr>sd_pool := (\<lambda>i f. stats_metric_init (pool_type f)),
                            sd_server := (\<lambda>i j f. stats_metric_init (server_type f))\<rparr>"

definition stats_swap :: "stats \<Rightarrow> stats" where
  "stats_swap st =
     (if st_aggregate st then st
      else if \<not> st_updated st then st
      else
        let st = st\<lparr>st_current := st_shadow st, st_shadow := st_current st\<rparr>;
            st = st\<lparr>st_current := stats_pool_reset (st_current st)\<rparr>;
            st = st\<lparr>st_updated := False\<rparr>
        in st\<lparr>st_aggregate := True\<rparr>)"

definition stats_aggregate_metric :: "stats_type \<Rightarrow> int \<Rightarrow> int \<Rightarrow> int" where
  "stats_aggregate_metric t dst src = (case t of
     STATS_COUNTER \<Rightarrow> dst + src
   | STATS_GAUGE \<Rightarrow> dst + src
   | STATS_TIMESTAMP \<Rightarrow> if src \<noteq> 0 then src else dst)"

definition stats_aggregate :: "stats \<Rightarrow> stats" where
  "stats_aggregate st =
     (if \<not> st_aggregate st then st
      else st\<lparr>st_sum :=
             \<lparr>sd_pool = (\<lambda>i f. stats_aggregate_metric (pool_type f) (sd_pool (st_sum st) i f) (sd_pool (st_shadow st) i f)),
              sd_server = (\<lambda>i j f. stats_aggregate_metric (server_type f) (sd_server (st_sum st) i j f) (sd_server (st_shadow st) i j f))\<rparr>,
             st_aggregate := False\<rparr>)"

subsection \<open>What the updates leave alone\<close>

lemma stats_to_metric_simps [simp]:
  "w_conns (stats_pool_to_metric p i f w) = w_conns w" "w_conns (stats_server_to_metric p s j f w) = w_conns w"
  "w_msgs (stats_pool_to_metric p i f w) = w_msgs w" "w_msgs (stats_server_to_metric p s j f w) = w_msgs w"
  "w_mbufs (stats_pool_to_metric p i f w) = w_mbufs w" "w_mbufs (stats_server_to_metric p s j f w) = w_mbufs w"
  "w_pools (stats_pool_to_metric p i f w) = w_pools w" "w_pools (stats_server_to_metric p s j f w) = w_pools w"
  "w_panic (stats_pool_to_metric p i f w) = w_panic w" "w_panic (stats_server_to_metric p s j f w) = w_panic w"
  "w_tmo (stats_pool_to_metric p i f w) = w_tmo w" "w_tmo (stats_server_to_metric p s j f w) = w_tmo w"
  "w_os (stats_pool_to_metric p i f w) = w_os w" "w_os (stats_server_to_metric p s j f w) = w_os w"
  "w_tick (stats_pool_to_metric p i f w) = w_tick w" "w_tick (stats_server_to_metric p s j f w) = w_tick w"
  "w_trace (stats_pool_to_metric p i f w) = w_trace w" "w_trace (stats_server_to_metric p s j f w) = w_trace w"
  "w_free_msgq (stats_pool_to_metric p i f w) = w_free_msgq w" "w_free_msgq (stats_server_to_metric p s j f w) = w_free_msgq w"
  "w_nfree_msgq (stats_pool_to_metric p i f w) = w_nfree_msgq w" "w_nfree_msgq (stats_server_to_metric p s j f w) = w_nfree_msgq w"
  "w_free_mbufq (stats_pool_to_metric p i f w) = w_free_mbufq w" "w_free_mbufq (stats_server_to_metric p s j f w) = w_free_mbufq w"
  "w_nfree_mbufq (stats_pool_to_metric p i f w) = w_nfree_mbufq w" "w_nfree_mbufq (stats_server_to_metric p s j f w) = w_nfree_mbufq w"
  by (simp_all add: stats_pool_to_metric_def stats_server_to_metric_def Let_def)

text \<open>Every update of a field the code gives it the right type for succeeds.\<close>

lemma stats_pool_ops [simp]:
  "pool_type i \<noteq> STATS_TIMESTAMP \<Longrightarrow> stats_pool_incr p i w = Some (stats_pool_to_metric p i (\<lambda>n. n + 1) w)"
  "pool_type i \<noteq> STATS_TIMESTAMP \<Longrightarrow> stats_pool_incr_by p i v w = Some (stats_pool_to_metric p i (\<lambda>n. n + v) w)"
  "pool_type i = STATS_GAUGE \<Longrightarrow> stats_pool_decr p i w = Some (stats_pool_to_metric p i (\<lambda>n. n - 1) w)"
  "pool_type i = STATS_GAUGE \<Longrightarrow> stats_pool_decr_by p i v w = Some (stats_pool_to_metric p i (\<lambda>n. n - v) w)"
  "pool_type i = STATS_TIMESTAMP \<Longrightarrow> stats_pool_set_ts p i v w = Some (stats_pool_to_metric p i (\<lambda>_. v) w)"
  by (cases "pool_type i"; simp add: stats_pool_incr_def stats_pool_incr_by_def stats_pool_decr_def
        stats_pool_decr_by_def stats_pool_set_ts_def)+

lemma stats_server_ops [simp]:
  "server_type j \<noteq> STATS_TIMESTAMP \<Longrightarrow> stats_server_incr p s j w = Some (stats_server_to_metric p s j (\<lambda>n. n + 1) w)"
  "server_type j \<noteq> STATS_TIMESTAMP \<Longrightarrow> stats_server_incr_by p s j v w = Some (stats_server_to_metric p s j (\<lambda>n. n + v) w)"
  "server_type j = STATS_GAUGE \<Longrightarrow> stats_server_decr p s j w = Some (stats_server_to_metric p s j (\<lambda>n. n - 1) w)"
  "server_type j = STATS_GAUGE \<Longrightarrow> stats_server_decr_by p s j v w = Some (stats_server_to_metric p s j (\<lambda>n. n - v) w)"
  "server_type j = STATS_TIMESTAMP \<Longrightarrow> stats_server_set_ts p s j v w = Some (stats_server_to_metric p s j (\<lambda>_. v) w)"
  by (cases "server_type j"; simp add: stats_server_incr_def stats_server_incr_by_def stats_server_decr_def
        stats_server_decr_by_def stats_server_set_ts_def)+

subsection \<open>Interleavings\<close>

text \<open>Steps of the proxy thread and of the aggregator, as the arrays of metrics are compared with.\<close>

datatype stats_step = Swap | Aggregate | Pool_add nat pool_field int | Server_add nat nat server_field int

definition stats_do :: "stats_step \<Rightarrow> world \<Rightarrow> world option" where
  "stats_do step w = (case step of
     Swap \<Rightarrow> Some (w\<lparr>w_stats := stats_swap (w_stats w)\<rparr>)
   | Aggregate \<Rightarrow> Some (w\<lparr>w_stats := stats_aggregate (w_stats w)\<rparr>)
   | Pool_add p f v \<Rightarrow> stats_pool_incr_by p f v w
   | Server_add p s f v \<Rightarrow> stats_server_incr_by p s f v w)"

primrec stats_run :: "stats_step list \<Rightarrow> world \<Rightarrow> world option" where
  "stats_run [] w = Some w"
| "stats_run (x # xs) w = do { w \<leftarrow> stats_do x w; stats_run xs w }"

end
