(* ===== verification/Net.thy ===== *)
theory Net
  imports Frames
begin

section \<open>Descriptors and addresses (\<open>gf_util.c\<close>)\<close>

text \<open>
  The wrappers of the socket calls the handlers use and the resolution of an address.  The
  functions that only build a text for the log (\<open>gf_unresolve_*\<close>) are not modelled.
\<close>

definition fcntl_setfl :: "int \<Rightarrow> int \<Rightarrow> bool \<Rightarrow> world \<Rightarrow> int \<times> world" where
  "fcntl_setfl sd flags nonblock w = (let (r, w) = sys (Sys_setfl sd flags nonblock) w in (r_ret r, w))"

text \<open>\<open>F_SETFL\<close> gets the old flags with \<open>O_NONBLOCK\<close> set or cleared.\<close>

definition gf_set_blocking :: "int \<Rightarrow> world \<Rightarrow> int \<times> world" where
  "gf_set_blocking sd w =
     (let (r, w) = sys (Sys_getfl sd) w; flags = r_ret r
      in if flags < 0 then (flags, w) else fcntl_setfl sd flags False w)"

definition gf_set_nonblocking :: "int \<Rightarrow> world \<Rightarrow> int \<times> world" where
  "gf_set_nonblocking sd w =
     (let (r, w) = sys (Sys_getfl sd) w; flags = r_ret r
      in if flags < 0 then (flags, w) else fcntl_setfl sd flags True w)"

definition setsockopt :: "int \<Rightarrow> string \<Rightarrow> int \<Rightarrow> world \<Rightarrow> int \<times> world" where
  "setsockopt sd opt val w = (let (r, w) = sys (Sys_setsockopt sd opt val) w in (r_ret r, w))"

definition gf_set_reuseaddr :: "int \<Rightarrow> world \<Rightarrow> int \<times> world" where
  "gf_set_reuseaddr sd = setsockopt sd ''SO_REUSEADDR'' 1"

definition gf_set_reuseport :: "int \<Rightarrow> world \<Rightarrow> int \<times> world" where
  "gf_set_reuseport sd = setsockopt sd ''SO_REUSEPORT'' 1"

definition gf_set_tcpnodelay :: "int \<Rightarrow> world \<Rightarrow> int \<times> world" where
  "gf_set_tcpnodelay sd = setsockopt sd ''TCP_NODELAY'' 1"

definition gf_set_linger :: "int \<Rightarrow> int \<Rightarrow> world \<Rightarrow> int \<times> world" where
  "gf_set_linger sd timeout = setsockopt sd ''SO_LINGER'' timeout"

definition gf_set_tcpkeepalive :: "int \<Rightarrow> world \<Rightarrow> int \<times> world" where
  "gf_set_tcpkeepalive sd = setsockopt sd ''SO_KEEPALIVE'' 1"

definition gf_set_sndbuf :: "int \<Rightarrow> int \<Rightarrow> world \<Rightarrow> int \<times> world" where
  "gf_set_sndbuf sd n = setsockopt sd ''SO_SNDBUF'' n"

definition gf_set_rcvbuf :: "int \<Rightarrow> int \<Rightarrow> world \<Rightarrow> int \<times> world" where
  "gf_set_rcvbuf sd n = setsockopt sd ''SO_RCVBUF'' n"

text \<open>A successful query moves the pending error of the socket to \<open>errno\<close>.\<close>

definition gf_get_soerror :: "int \<Rightarrow> world \<Rightarrow> int \<times> world" where
  "gf_get_soerror sd w =
     (let (r, w) = sys (Sys_getsockopt sd ''SO_ERROR'') w
      in (r_ret r, if r_ret r = 0 then w\<lparr>w_errno := r_val r\<rparr> else w))"

definition gf_get_sndbuf :: "int \<Rightarrow> world \<Rightarrow> int \<times> world" where
  "gf_get_sndbuf sd w =
     (let (r, w) = sys (Sys_getsockopt sd ''SO_SNDBUF'') w in (if r_ret r < 0 then r_ret r else r_val r, w))"

definition gf_get_rcvbuf :: "int \<Rightarrow> world \<Rightarrow> int \<times> world" where
  "gf_get_rcvbuf sd w =
     (let (r, w) = sys (Sys_getsockopt sd ''SO_RCVBUF'') w in (if r_ret r < 0 then r_ret r else r_val r, w))"

definition sys_close :: "int \<Rightarrow> world \<Rightarrow> int \<times> world" where
  "sys_close sd w = (let (r, w) = sys (Sys_close sd) w in (r_ret r, w))"

definition gf_valid_port :: "int \<Rightarrow> bool" where
  "gf_valid_port n = (if n < 1 \<or> 65535 < n then False else True)"

subsection \<open>Resolution\<close>

text \<open>A store of \<open>bs\<close> at the start of an address; the rest keeps its bytes.\<close>

definition addr_store :: "u8 list \<Rightarrow> u8 list \<Rightarrow> u8 list" where
  "addr_store bs old = bs @ drop (length bs) old"

text \<open>
  \<open>getaddrinfo\<close> reports a status, and the family, length and bytes of its first address.
\<close>

definition gf_resolve_inet :: "u8 list \<Rightarrow> int \<Rightarrow> sockinfo \<Rightarrow> world \<Rightarrow> (int \<times> sockinfo \<times> world) option" where
  "gf_resolve_inet name port si w = do {
     ASSERT (gf_valid_port port) w;
     let (r, w) = sys (Sys_getaddrinfo name port) w;
     if r_ret r \<noteq> 0 then Some (- 1, si, w)
     else Some (0, si\<lparr>si_family := r_val r, si_addrlen := nat (r_val2 r),
                      si_addr := addr_store (take (nat (r_val2 r)) (r_data r)) (si_addr si)\<rparr>, w) }"

abbreviation (input) GF_UNIX_ADDRSTRLEN :: nat where "GF_UNIX_ADDRSTRLEN \<equiv> 108"

definition gf_resolve_unix :: "u8 list \<Rightarrow> sockinfo \<Rightarrow> int \<times> sockinfo" where
  "gf_resolve_unix name si =
     (if GF_UNIX_ADDRSTRLEN \<le> length name then (- 1, si)
      else (0, si\<lparr>si_addr := addr_store ([1, 0] @ name @ [0]) (si_addr si), si_family := AF_UNIX, si_addrlen := 110\<rparr>))"

definition gf_resolve :: "u8 list \<Rightarrow> int \<Rightarrow> sockinfo \<Rightarrow> world \<Rightarrow> (int \<times> sockinfo \<times> world) option" where
  "gf_resolve name port si w =
     (if name \<noteq> [] \<and> hd name = 47 then (let (st, si) = gf_resolve_unix name si in Some (st, si, w))
      else gf_resolve_inet name port si w)"

subsection \<open>What they leave alone\<close>

lemma fcntl_setfl_frame [simp]:
  "w_os (snd (fcntl_setfl sd n b w)) = w_os w" "w_panic (snd (fcntl_setfl sd n b w)) = w_panic w"
  "w_log_notice (snd (fcntl_setfl sd n b w)) = w_log_notice w" "w_mbufs (snd (fcntl_setfl sd n b w)) = w_mbufs w"
  "w_nmbuf (snd (fcntl_setfl sd n b w)) = w_nmbuf w" "w_free_mbufq (snd (fcntl_setfl sd n b w)) = w_free_mbufq w"
  "w_nfree_mbufq (snd (fcntl_setfl sd n b w)) = w_nfree_mbufq w"
  "w_mbuf_chunk_size (snd (fcntl_setfl sd n b w)) = w_mbuf_chunk_size w"
  "w_mbuf_offset (snd (fcntl_setfl sd n b w)) = w_mbuf_offset w" "w_msgs (snd (fcntl_setfl sd n b w)) = w_msgs w"
  "w_nmsg (snd (fcntl_setfl sd n b w)) = w_nmsg w" "w_free_msgq (snd (fcntl_setfl sd n b w)) = w_free_msgq w"
  "w_nfree_msgq (snd (fcntl_setfl sd n b w)) = w_nfree_msgq w" "w_msg_id (snd (fcntl_setfl sd n b w)) = w_msg_id w"
  "w_frag_id (snd (fcntl_setfl sd n b w)) = w_frag_id w" "w_tmo (snd (fcntl_setfl sd n b w)) = w_tmo w"
  "w_conns (snd (fcntl_setfl sd n b w)) = w_conns w" "w_nconn (snd (fcntl_setfl sd n b w)) = w_nconn w"
  "w_free_connq (snd (fcntl_setfl sd n b w)) = w_free_connq w" "w_nfree_connq (snd (fcntl_setfl sd n b w)) = w_nfree_connq w"
  "w_ntotal_conn (snd (fcntl_setfl sd n b w)) = w_ntotal_conn w" "w_ncurr_conn (snd (fcntl_setfl sd n b w)) = w_ncurr_conn w"
  "w_ncurr_cconn (snd (fcntl_setfl sd n b w)) = w_ncurr_cconn w" "w_pools (snd (fcntl_setfl sd n b w)) = w_pools w"
  "w_npool (snd (fcntl_setfl sd n b w)) = w_npool w" "w_max_timeout (snd (fcntl_setfl sd n b w)) = w_max_timeout w"
  "w_timeout (snd (fcntl_setfl sd n b w)) = w_timeout w" "w_max_nfd (snd (fcntl_setfl sd n b w)) = w_max_nfd w"
  "w_max_ncconn (snd (fcntl_setfl sd n b w)) = w_max_ncconn w" "w_max_nsconn (snd (fcntl_setfl sd n b w)) = w_max_nsconn w"
  "w_ep (snd (fcntl_setfl sd n b w)) = w_ep w" "w_nevent (snd (fcntl_setfl sd n b w)) = w_nevent w"
  "w_stats (snd (fcntl_setfl sd n b w)) = w_stats w"
  by (simp_all add: fcntl_setfl_def split_def Let_def)

lemma setsockopt_frame [simp]:
  "w_os (snd (setsockopt sd opt v w)) = w_os w" "w_panic (snd (setsockopt sd opt v w)) = w_panic w"
  "w_log_notice (snd (setsockopt sd opt v w)) = w_log_notice w" "w_mbufs (snd (setsockopt sd opt v w)) = w_mbufs w"
  "w_nmbuf (snd (setsockopt sd opt v w)) = w_nmbuf w" "w_free_mbufq (snd (setsockopt sd opt v w)) = w_free_mbufq w"
  "w_nfree_mbufq (snd (setsockopt sd opt v w)) = w_nfree_mbufq w"
  "w_mbuf_chunk_size (snd (setsockopt sd opt v w)) = w_mbuf_chunk_size w"
  "w_mbuf_offset (snd (setsockopt sd opt v w)) = w_mbuf_offset w" "w_msgs (snd (setsockopt sd opt v w)) = w_msgs w"
  "w_nmsg (snd (setsockopt sd opt v w)) = w_nmsg w" "w_free_msgq (snd (setsockopt sd opt v w)) = w_free_msgq w"
  "w_nfree_msgq (snd (setsockopt sd opt v w)) = w_nfree_msgq w" "w_msg_id (snd (setsockopt sd opt v w)) = w_msg_id w"
  "w_frag_id (snd (setsockopt sd opt v w)) = w_frag_id w" "w_tmo (snd (setsockopt sd opt v w)) = w_tmo w"
  "w_conns (snd (setsockopt sd opt v w)) = w_conns w" "w_nconn (snd (setsockopt sd opt v w)) = w_nconn w"
  "w_free_connq (snd (setsockopt sd opt v w)) = w_free_connq w" "w_nfree_connq (snd (setsockopt sd opt v w)) = w_nfree_connq w"
  "w_ntotal_conn (snd (setsockopt sd opt v w)) = w_ntotal_conn w" "w_ncurr_conn (snd (setsockopt sd opt v w)) = w_ncurr_conn w"
  "w_ncurr_cconn (snd (setsockopt sd opt v w)) = w_ncurr_cconn w" "w_pools (snd (setsockopt sd opt v w)) = w_pools w"
  "w_npool (snd (setsockopt sd opt v w)) = w_npool w" "w_max_timeout (snd (setsockopt sd opt v w)) = w_max_timeout w"
  "w_timeout (snd (setsockopt sd opt v w)) = w_timeout w" "w_max_nfd (snd (setsockopt sd opt v w)) = w_max_nfd w"
  "w_max_ncconn (snd (setsockopt sd opt v w)) = w_max_ncconn w" "w_max_nsconn (snd (setsockopt sd opt v w)) = w_max_nsconn w"
  "w_ep (snd (setsockopt sd opt v w)) = w_ep w" "w_nevent (snd (setsockopt sd opt v w)) = w_nevent w"
  "w_stats (snd (setsockopt sd opt v w)) = w_stats w"
  by (simp_all add: setsockopt_def split_def Let_def)

lemma sys_close_frame [simp]:
  "w_os (snd (sys_close sd w)) = w_os w" "w_panic (snd (sys_close sd w)) = w_panic w"
  "w_log_notice (snd (sys_close sd w)) = w_log_notice w" "w_mbufs (snd (sys_close sd w)) = w_mbufs w"
  "w_nmbuf (snd (sys_close sd w)) = w_nmbuf w" "w_free_mbufq (snd (sys_close sd w)) = w_free_mbufq w"
  "w_nfree_mbufq (snd (sys_close sd w)) = w_nfree_mbufq w" "w_mbuf_chunk_size (snd (sys_close sd w)) = w_mbuf_chunk_size w"
  "w_mbuf_offset (snd (sys_close sd w)) = w_mbuf_offset w" "w_msgs (snd (sys_close sd w)) = w_msgs w"
  "w_nmsg (snd (sys_close sd w)) = w_nmsg w" "w_free_msgq (snd (sys_close sd w)) = w_free_msgq w"
  "w_nfree_msgq (snd (sys_close sd w)) = w_nfree_msgq w" "w_msg_id (snd (sys_close sd w)) = w_msg_id w"
  "w_frag_id (snd (sys_close sd w)) = w_frag_id w" "w_tmo (snd (sys_close sd w)) = w_tmo w"
  "w_conns (snd (sys_close sd w)) = w_conns w" "w_nconn (snd (sys_close sd w)) = w_nconn w"
  "w_free_connq (snd (sys_close sd w)) = w_free_connq w" "w_nfree_connq (snd (sys_close sd w)) = w_nfree_connq w"
  "w_ntotal_conn (snd (sys_close sd w)) = w_ntotal_conn w" "w_ncurr_conn (snd (sys_close sd w)) = w_ncurr_conn w"
  "w_ncurr_cconn (snd (sys_close sd w)) = w_ncurr_cconn w" "w_pools (snd (sys_close sd w)) = w_pools w"
  "w_npool (snd (sys_close sd w)) = w_npool w" "w_max_timeout (snd (sys_close sd w)) = w_max_timeout w"
  "w_timeout (snd (sys_close sd w)) = w_timeout w" "w_max_nfd (snd (sys_close sd w)) = w_max_nfd w"
  "w_max_ncconn (snd (sys_close sd w)) = w_max_ncconn w" "w_max_nsconn (snd (sys_close sd w)) = w_max_nsconn w"
  "w_ep (snd (sys_close sd w)) = w_ep w" "w_nevent (snd (sys_close sd w)) = w_nevent w"
  "w_stats (snd (sys_close sd w)) = w_stats w"
  by (simp_all add: sys_close_def split_def Let_def)

lemma gf_set_nonblocking_frame [simp]:
  "w_os (snd (gf_set_nonblocking sd w)) = w_os w" "w_panic (snd (gf_set_nonblocking sd w)) = w_panic w"
  "w_log_notice (snd (gf_set_nonblocking sd w)) = w_log_notice w" "w_mbufs (snd (gf_set_nonblocking sd w)) = w_mbufs w"
  "w_nmbuf (snd (gf_set_nonblocking sd w)) = w_nmbuf w" "w_free_mbufq (snd (gf_set_nonblocking sd w)) = w_free_mbufq w"
  "w_nfree_mbufq (snd (gf_set_nonblocking sd w)) = w_nfree_mbufq w"
  "w_mbuf_chunk_size (snd (gf_set_nonblocking sd w)) = w_mbuf_chunk_size w"
  "w_mbuf_offset (snd (gf_set_nonblocking sd w)) = w_mbuf_offset w" "w_msgs (snd (gf_set_nonblocking sd w)) = w_msgs w"
  "w_nmsg (snd (gf_set_nonblocking sd w)) = w_nmsg w" "w_free_msgq (snd (gf_set_nonblocking sd w)) = w_free_msgq w"
  "w_nfree_msgq (snd (gf_set_nonblocking sd w)) = w_nfree_msgq w" "w_msg_id (snd (gf_set_nonblocking sd w)) = w_msg_id w"
  "w_frag_id (snd (gf_set_nonblocking sd w)) = w_frag_id w" "w_tmo (snd (gf_set_nonblocking sd w)) = w_tmo w"
  "w_conns (snd (gf_set_nonblocking sd w)) = w_conns w" "w_nconn (snd (gf_set_nonblocking sd w)) = w_nconn w"
  "w_free_connq (snd (gf_set_nonblocking sd w)) = w_free_connq w"
  "w_nfree_connq (snd (gf_set_nonblocking sd w)) = w_nfree_connq w"
  "w_ntotal_conn (snd (gf_set_nonblocking sd w)) = w_ntotal_conn w"
  "w_ncurr_conn (snd (gf_set_nonblocking sd w)) = w_ncurr_conn w"
  "w_ncurr_cconn (snd (gf_set_nonblocking sd w)) = w_ncurr_cconn w" "w_pools (snd (gf_set_nonblocking sd w)) = w_pools w"
  "w_npool (snd (gf_set_nonblocking sd w)) = w_npool w" "w_max_timeout (snd (gf_set_nonblocking sd w)) = w_max_timeout w"
  "w_timeout (snd (gf_set_nonblocking sd w)) = w_timeout w" "w_max_nfd (snd (gf_set_nonblocking sd w)) = w_max_nfd w"
  "w_max_ncconn (snd (gf_set_nonblocking sd w)) = w_max_ncconn w" "w_max_nsconn (snd (gf_set_nonblocking sd w)) = w_max_nsconn w"
  "w_ep (snd (gf_set_nonblocking sd w)) = w_ep w" "w_nevent (snd (gf_set_nonblocking sd w)) = w_nevent w"
  "w_stats (snd (gf_set_nonblocking sd w)) = w_stats w"
  by (simp_all add: gf_set_nonblocking_def split_def Let_def)

lemma gf_get_soerror_frame [simp]:
  "w_os (snd (gf_get_soerror sd w)) = w_os w" "w_panic (snd (gf_get_soerror sd w)) = w_panic w"
  "w_log_notice (snd (gf_get_soerror sd w)) = w_log_notice w" "w_mbufs (snd (gf_get_soerror sd w)) = w_mbufs w"
  "w_nmbuf (snd (gf_get_soerror sd w)) = w_nmbuf w" "w_free_mbufq (snd (gf_get_soerror sd w)) = w_free_mbufq w"
  "w_nfree_mbufq (snd (gf_get_soerror sd w)) = w_nfree_mbufq w"
  "w_mbuf_chunk_size (snd (gf_get_soerror sd w)) = w_mbuf_chunk_size w"
  "w_mbuf_offset (snd (gf_get_soerror sd w)) = w_mbuf_offset w" "w_msgs (snd (gf_get_soerror sd w)) = w_msgs w"
  "w_nmsg (snd (gf_get_soerror sd w)) = w_nmsg w" "w_free_msgq (snd (gf_get_soerror sd w)) = w_free_msgq w"
  "w_nfree_msgq (snd (gf_get_soerror sd w)) = w_nfree_msgq w" "w_msg_id (snd (gf_get_soerror sd w)) = w_msg_id w"
  "w_frag_id (snd (gf_get_soerror sd w)) = w_frag_id w" "w_tmo (snd (gf_get_soerror sd w)) = w_tmo w"
  "w_conns (snd (gf_get_soerror sd w)) = w_conns w" "w_nconn (snd (gf_get_soerror sd w)) = w_nconn w"
  "w_free_connq (snd (gf_get_soerror sd w)) = w_free_connq w" "w_nfree_connq (snd (gf_get_soerror sd w)) = w_nfree_connq w"
  "w_ntotal_conn (snd (gf_get_soerror sd w)) = w_ntotal_conn w" "w_ncurr_conn (snd (gf_get_soerror sd w)) = w_ncurr_conn w"
  "w_ncurr_cconn (snd (gf_get_soerror sd w)) = w_ncurr_cconn w" "w_pools (snd (gf_get_soerror sd w)) = w_pools w"
  "w_npool (snd (gf_get_soerror sd w)) = w_npool w" "w_max_timeout (snd (gf_get_soerror sd w)) = w_max_timeout w"
  "w_timeout (snd (gf_get_soerror sd w)) = w_timeout w" "w_max_nfd (snd (gf_get_soerror sd w)) = w_max_nfd w"
  "w_max_ncconn (snd (gf_get_soerror sd w)) = w_max_ncconn w" "w_max_nsconn (snd (gf_get_soerror sd w)) = w_max_nsconn w"
  "w_ep (snd (gf_get_soerror sd w)) = w_ep w" "w_nevent (snd (gf_get_soerror sd w)) = w_nevent w"
  "w_stats (snd (gf_get_soerror sd w)) = w_stats w"
  by (simp_all add: gf_get_soerror_def split_def Let_def)

lemmas sockopt_defs = gf_set_reuseaddr_def gf_set_reuseport_def gf_set_tcpnodelay_def gf_set_tcpkeepalive_def

end
