(* ===== verification/Transfers.thy ===== *)
theory Transfers
  imports Net
begin

section \<open>Whole transfers (\<open>gf_util.c\<close>)\<close>

text \<open>
  \<open>_gf_sendn\<close> and \<open>_gf_recvn\<close> repeat a call on a blocking descriptor until all bytes are moved.
  The fuel bounds the number of calls; with none left there is no result.
\<close>

primrec gf_sendn_loop :: "nat \<Rightarrow> int \<Rightarrow> u8 list \<Rightarrow> nat \<Rightarrow> world \<Rightarrow> (int \<times> world) option" where
  "gf_sendn_loop 0 sd ptr n w = None"
| "gf_sendn_loop (Suc k) sd ptr n w =
     (if ptr = [] then Some (int n, w)
      else do {
        let (r, w) = sys (Sys_send sd ptr) w;
        let nsend = r_ret r;
        if nsend < 0 then (if w_errno w = EINTR then gf_sendn_loop k sd ptr n w else Some (nsend, w))
        else if nsend = 0 then Some (- 1, w)
        else if length ptr < nat nsend then None
        else gf_sendn_loop k sd (drop (nat nsend) ptr) n w })"

definition gf_sendn :: "nat \<Rightarrow> int \<Rightarrow> u8 list \<Rightarrow> world \<Rightarrow> (int \<times> world) option" where
  "gf_sendn k sd vptr w = gf_sendn_loop k sd vptr (length vptr) w"

text \<open>The bytes received so far are \<open>got\<close>; the kernel stores at most what it was asked for.\<close>

primrec gf_recvn_loop :: "nat \<Rightarrow> int \<Rightarrow> u8 list \<Rightarrow> nat \<Rightarrow> nat \<Rightarrow> world \<Rightarrow> (int \<times> u8 list \<times> world) option" where
  "gf_recvn_loop 0 sd got nleft n w = None"
| "gf_recvn_loop (Suc k) sd got nleft n w =
     (if nleft = 0 then Some (int (n - nleft), got, w)
      else do {
        let (r, w) = sys (Sys_recv sd nleft) w;
        let nrecv = r_ret r;
        if nrecv < 0 then (if w_errno w = EINTR then gf_recvn_loop k sd got nleft n w else Some (nrecv, got, w))
        else if nrecv = 0 then Some (int (n - nleft), got, w)
        else if nleft < nat nrecv then None
        else gf_recvn_loop k sd (got @ take (nat nrecv) (r_data r)) (nleft - nat nrecv) n w })"

definition gf_recvn :: "nat \<Rightarrow> int \<Rightarrow> nat \<Rightarrow> world \<Rightarrow> (int \<times> u8 list \<times> world) option" where
  "gf_recvn k sd n w = gf_recvn_loop k sd [] n n w"

subsection \<open>What the peer gets\<close>

text \<open>The bytes a call moved, and those of a trace.\<close>

definition bytes_sent :: "int \<Rightarrow> sysop \<times> sysres \<Rightarrow> u8 list" where
  "bytes_sent sd ev = (case ev of (Sys_send sd' bs, r) \<Rightarrow> if sd' = sd then take (nat (r_ret r)) bs else [] | _ \<Rightarrow> [])"

definition sent_on :: "int \<Rightarrow> (sysop \<times> sysres) list \<Rightarrow> u8 list" where
  "sent_on sd tr = concat (map (bytes_sent sd) tr)"

definition received_on :: "int \<Rightarrow> (sysop \<times> sysres) list \<Rightarrow> u8 list" where
  "received_on sd tr = concat (map (\<lambda>ev. case ev of (Sys_recv sd' n, r) \<Rightarrow> if sd' = sd then take (nat (r_ret r)) (r_data r) else [] | _ \<Rightarrow> []) tr)"

text \<open>From the call \<open>t\<close> on the kernel moves \<open>n\<close> bytes in at most \<open>k\<close> calls, interrupted ones included.\<close>

fun serves :: "(nat \<Rightarrow> sysres) \<Rightarrow> nat \<Rightarrow> nat \<Rightarrow> nat \<Rightarrow> bool" where
  "serves os t k 0 = True"
| "serves os t 0 (Suc n) = False"
| "serves os t (Suc k) (Suc n) =
     (let r = os t in if r_ret r < 0 then r_errno r = EINTR \<and> serves os (Suc t) k (Suc n)
        else 0 < r_ret r \<and> r_ret r \<le> int (Suc n) \<and> serves os (Suc t) k (Suc n - nat (r_ret r)))"

lemma sys_parts [simp]:
  "fst (sys op w) = w_os w (w_tick w)" "w_os (snd (sys op w)) = w_os w" "w_tick (snd (sys op w)) = Suc (w_tick w)"
  "w_trace (snd (sys op w)) = w_trace w @ [(op, w_os w (w_tick w))]"
  "r_ret (w_os w (w_tick w)) < 0 \<Longrightarrow> w_errno (snd (sys op w)) = r_errno (w_os w (w_tick w))"
  by (simp_all add: sys_def Let_def)

lemma sendn_loop_serves:
  assumes "serves (w_os w) (w_tick w) k (length ptr)"
  shows "\<exists>w'. gf_sendn_loop (Suc k) sd ptr n w = Some (int n, w') \<and>
    (\<exists>tr. w_trace w' = w_trace w @ tr \<and> sent_on sd tr = ptr)"
  using assms
proof (induction k arbitrary: ptr w)
  case 0
  then have "ptr = []" by (cases ptr) auto
  then show ?case by (simp add: sent_on_def)
next
  case (Suc k)
  show ?case
  proof (cases "ptr = []")
    case False
    let ?r = "w_os w (w_tick w)" and ?w = "snd (sys (Sys_send sd ptr) w)"
    obtain m where m: "length ptr = Suc m" using False by (cases ptr) auto
    let ?step = "\<lambda>ptr'. gf_sendn_loop (Suc (Suc k)) sd ptr n w = gf_sendn_loop (Suc k) sd ptr' n ?w"
    show ?thesis
    proof (cases "r_ret ?r < 0")
      case True
      with Suc.prems m have e: "r_errno ?r = EINTR" "serves (w_os ?w) (w_tick ?w) k (length ptr)" by (simp_all add: Let_def)
      have step: "?step ptr" using e(1) True False by (subst gf_sendn_loop.simps(2)) (simp add: split_def Let_def del: gf_sendn_loop.simps)
      from Suc.IH [OF e(2)] obtain w' tr where "gf_sendn_loop (Suc k) sd ptr n ?w = Some (int n, w')"
        "w_trace w' = w_trace ?w @ tr" "sent_on sd tr = ptr" by blast
      then show ?thesis unfolding step using True by (intro exI [of _ w']) (simp add: sent_on_def bytes_sent_def del: gf_sendn_loop.simps)
    next
      case pos: False
      let ?ptr = "drop (nat (r_ret ?r)) ptr"
      have r: "0 < r_ret ?r" "r_ret ?r \<le> int (length ptr)" "serves (w_os ?w) (w_tick ?w) k (length ?ptr)"
        using Suc.prems m pos by (simp_all add: Let_def)
      have step: "?step ?ptr" using r(1,2) nat_le_iff [of "r_ret ?r" "length ptr"] False by (subst gf_sendn_loop.simps(2)) (simp add: not_less [symmetric] split_def Let_def del: gf_sendn_loop.simps)
      from Suc.IH [OF r(3)] obtain w' tr where "gf_sendn_loop (Suc k) sd ?ptr n ?w = Some (int n, w')"
        "w_trace w' = w_trace ?w @ tr" "sent_on sd tr = ?ptr" by blast
      then show ?thesis unfolding step by (intro exI [of _ w']) (simp add: sent_on_def bytes_sent_def del: gf_sendn_loop.simps)
    qed
  qed (simp add: sent_on_def)
qed

text \<open>
  C37: as long as the kernel only interrupts calls and goes on taking bytes, whatever
  part of the rest each call takes, the transfer ends with every byte sent, in order and once.
\<close>

theorem sendn_completes:
  assumes "serves (w_os w) (w_tick w) k (length bs)"
  shows "\<exists>w' tr. gf_sendn (Suc k) sd bs w = Some (int (length bs), w') \<and> w_trace w' = w_trace w @ tr \<and> sent_on sd tr = bs"
  using sendn_loop_serves [OF assms] unfolding gf_sendn_def by blast

lemma sendn_completes_witness:
  "\<exists>w' tr. gf_sendn (Suc 3) 7 [1, 2, 3] w0 = Some (3, w') \<and> w_trace w' = w_trace w0 @ tr \<and> sent_on 7 tr = [1, 2, 3]"
  using sendn_completes [of w0 3 "[1, 2, 3]" 7] by (simp add: sample_res_def numeral_eq_Suc)

lemma recvn_loop_bytes:
  "gf_recvn_loop k sd got nleft n w = Some (st, bs, w') \<Longrightarrow> nleft \<le> n \<Longrightarrow> length got = n - nleft \<Longrightarrow>
    (\<And>t. r_ret (w_os w t) \<le> int (length (r_data (w_os w t)))) \<Longrightarrow>
    (\<exists>tr. w_trace w' = w_trace w @ tr \<and> bs = got @ received_on sd tr) \<and> length bs \<le> n \<and> (0 \<le> st \<longrightarrow> st = int (length bs))"
proof (induction k arbitrary: got nleft w)
  case (Suc k)
  show ?case
  proof (cases "nleft = 0")
    case False
    let ?r = "w_os w (w_tick w)" and ?w = "snd (sys (Sys_recv sd nleft) w)"
    have os: "r_ret (w_os ?w t) \<le> int (length (r_data (w_os ?w t)))" for t using Suc.prems(4) by simp
    show ?thesis
    proof (cases "r_ret ?r < 0")
      case True
      show ?thesis
      proof (cases "r_errno ?r = EINTR")
        case eintr: True
        then have "gf_recvn_loop k sd got nleft n ?w = Some (st, bs, w')" using Suc.prems(1) True False by (simp add: split_def Let_def)
        from Suc.IH [OF this Suc.prems(2,3) os] True show ?thesis by (auto simp: received_on_def)
      qed (use Suc.prems True False in \<open>auto simp: split_def Let_def received_on_def\<close>)
    next
      case pos: False
      show ?thesis
      proof (cases "r_ret ?r = 0")
        case zero: False
        then have le: "nat (r_ret ?r) \<le> nleft" and run: "gf_recvn_loop k sd (got @ take (nat (r_ret ?r)) (r_data ?r)) (nleft - nat (r_ret ?r)) n ?w = Some (st, bs, w')"
          using Suc.prems(1) pos False by (auto simp: split_def Let_def split: if_splits)
        have len: "length (got @ take (nat (r_ret ?r)) (r_data ?r)) = n - (nleft - nat (r_ret ?r))"
          using Suc.prems(2,3) iffD2 [OF nat_le_iff Suc.prems(4) [of "w_tick w"]] le by simp
        have "nleft - nat (r_ret ?r) \<le> n" using Suc.prems(2) by simp
        from Suc.IH [OF run this len os] obtain tr where "w_trace w' = w_trace ?w @ tr"
          "bs = got @ take (nat (r_ret ?r)) (r_data ?r) @ received_on sd tr" "length bs \<le> n" "0 \<le> st \<longrightarrow> st = int (length bs)" unfolding append_assoc by blast
        then show ?thesis by (intro conjI exI [of _ "(Sys_recv sd nleft, ?r) # tr"]) (simp_all add: received_on_def)
      qed (use Suc.prems False pos in \<open>auto simp: split_def Let_def received_on_def\<close>)
    qed
  qed (use Suc.prems in \<open>auto simp: received_on_def\<close>)
qed simp

text \<open>
  A transfer in the other direction returns exactly the bytes the kernel delivered, in order,
  and never more than asked for; fewer when the peer closes.
\<close>

lemma recvn_bytes:
  assumes "gf_recvn k sd n w = Some (st, bs, w')" "\<And>t. r_ret (w_os w t) \<le> int (length (r_data (w_os w t)))"
  shows "\<exists>tr. w_trace w' = w_trace w @ tr \<and> bs = received_on sd tr \<and> length bs \<le> n \<and> (0 \<le> st \<longrightarrow> st = int (length bs))"
  using recvn_loop_bytes [of k sd "[]" n n w st bs w'] assms unfolding gf_recvn_def by auto

end
