(* ===== verification/Event_Backend.thy ===== *)
theory Event_Backend
  imports World
begin

section \<open>The interface of event notification (\<open>event/gf_event.h\<close>)\<close>

text \<open>
  A build has one of three implementations of this interface.  They share the operations on a
  connection and a contract: the flags \<open>recv_active\<close> and \<open>send_active\<close> of a connection say what
  the kernel has been asked to watch its descriptor for.
\<close>

datatype event_op = Add_in | Del_in | Add_out | Del_out | Add_conn | Del_conn

abbreviation (input) EVENT_READ :: u32 where "EVENT_READ \<equiv> 0x0000ff"
abbreviation (input) EVENT_WRITE :: u32 where "EVENT_WRITE \<equiv> 0x00ff00"
abbreviation (input) EVENT_ERR :: u32 where "EVENT_ERR \<equiv> 0xff0000"

text \<open>A sequence of operations, failed ones included.\<close>

primrec run_ops :: "(event_op \<Rightarrow> 's \<Rightarrow> (int \<times> 's) option) \<Rightarrow> event_op list \<Rightarrow> 's \<Rightarrow> 's option" where
  "run_ops exec [] s = Some s"
| "run_ops exec (op # ops) s = do { (st, s) \<leftarrow> exec op s; run_ops exec ops s }"

text \<open>
  \<open>agrees\<close> relates the flags to what the kernel was asked for; \<open>fine\<close> says that the kernel has
  kept its own rules so far.
\<close>

locale event_backend =
  fixes exec :: "event_op \<Rightarrow> 's \<Rightarrow> (int \<times> 's) option"
    and agrees :: "'s \<Rightarrow> bool"
    and fine :: "'s \<Rightarrow> bool"
  assumes exec_agrees: "exec op s = Some (st, s') \<Longrightarrow> agrees s \<Longrightarrow> fine s' \<Longrightarrow> agrees s'"
    and exec_fine: "exec op s = Some (st, s') \<Longrightarrow> fine s' \<Longrightarrow> fine s"
begin

lemma run_fine: "run_ops exec ops s = Some s' \<Longrightarrow> fine s' \<Longrightarrow> fine s"
  by (induction ops arbitrary: s) (auto simp: gf_simps dest: exec_fine)

lemma run_agrees: "run_ops exec ops s = Some s' \<Longrightarrow> agrees s \<Longrightarrow> fine s' \<Longrightarrow> agrees s'"
proof (induction ops arbitrary: s)
  case (Cons op ops)
  then obtain st s1 where 1: "exec op s = Some (st, s1)" "run_ops exec ops s1 = Some s'" by (auto simp: gf_simps)
  from exec_agrees [OF 1(1) Cons.prems(2) run_fine [OF 1(2) Cons.prems(3)]] Cons.IH [OF 1(2)] Cons.prems(3) show ?case by simp
qed simp

end

end
