(* ===== verification/Event.thy ===== *)
theory Event
  imports Frames Event_Backend
begin

section \<open>Event notification (\<open>event/gf_epoll.c\<close>)\<close>

text \<open>
  Registration of a connection with epoll.  The flags \<open>recv_active\<close> and \<open>send_active\<close> of
  a connection stand for the events the kernel watches its descriptor for; the lemmas
  compare them with the interest set computed from the trace of \<open>epoll_ctl\<close> calls.
\<close>

unbundle bit_operations_syntax

abbreviation (input) EPOLLIN :: u32 where "EPOLLIN \<equiv> 0x1"
abbreviation (input) EPOLLOUT :: u32 where "EPOLLOUT \<equiv> 0x4"
abbreviation (input) EPOLLERR :: u32 where "EPOLLERR \<equiv> 0x8"
abbreviation (input) EPOLLHUP :: u32 where "EPOLLHUP \<equiv> 0x10"
abbreviation (input) EPOLLET :: u32 where "EPOLLET \<equiv> 0x80000000"

text \<open>The event carries the address of the connection.\<close>

definition epoll_ctl :: "epoll_op \<Rightarrow> int \<Rightarrow> nat \<Rightarrow> u32 \<Rightarrow> world \<Rightarrow> int \<times> world" where
  "epoll_ctl op sd c events w =
     (let (r, w) = sys (Sys_epoll_ctl (w_ep w) op sd c events) w in (r_ret r, w))"

definition event_add_in :: "nat \<Rightarrow> world \<Rightarrow> (int \<times> world) option" where
  "event_add_in c w = do {
     ASSERT (0 < w_ep w) w;
     ASSERT (0 < c_sd (conn w c)) w;
     if c_recv_active (conn w c) then Some (0, w)
     else do {
       let (status, w) = epoll_ctl EPOLL_CTL_MOD (c_sd (conn w c)) c (EPOLLIN OR EPOLLET) w;
       Some (status, if status < 0 then w else upd_conn c (\<lambda>s. s\<lparr>c_recv_active := True\<rparr>) w) } }"

definition event_del_in :: "nat \<Rightarrow> world \<Rightarrow> (int \<times> world) option" where
  "event_del_in c w = Some (0, w)"

definition event_add_out :: "nat \<Rightarrow> world \<Rightarrow> (int \<times> world) option" where
  "event_add_out c w = do {
     ASSERT (0 < w_ep w) w;
     ASSERT (0 < c_sd (conn w c)) w;
     ASSERT (c_recv_active (conn w c)) w;
     if c_send_active (conn w c) then Some (0, w)
     else do {
       let (status, w) = epoll_ctl EPOLL_CTL_MOD (c_sd (conn w c)) c (EPOLLIN OR EPOLLOUT OR EPOLLET) w;
       Some (status, if status < 0 then w else upd_conn c (\<lambda>s. s\<lparr>c_send_active := True\<rparr>) w) } }"

definition event_del_out :: "nat \<Rightarrow> world \<Rightarrow> (int \<times> world) option" where
  "event_del_out c w = do {
     ASSERT (0 < w_ep w) w;
     ASSERT (0 < c_sd (conn w c)) w;
     ASSERT (c_recv_active (conn w c)) w;
     if \<not> c_send_active (conn w c) then Some (0, w)
     else do {
       let (status, w) = epoll_ctl EPOLL_CTL_MOD (c_sd (conn w c)) c (EPOLLIN OR EPOLLET) w;
       Some (status, if status < 0 then w else upd_conn c (\<lambda>s. s\<lparr>c_send_active := False\<rparr>) w) } }"

definition event_add_conn :: "nat \<Rightarrow> world \<Rightarrow> (int \<times> world) option" where
  "event_add_conn c w = do {
     ASSERT (0 < w_ep w) w;
     ASSERT (0 < c_sd (conn w c)) w;
     let (status, w) = epoll_ctl EPOLL_CTL_ADD (c_sd (conn w c)) c (EPOLLIN OR EPOLLOUT OR EPOLLET) w;
     Some (status, if status < 0 then w
                   else upd_conn c (\<lambda>s. s\<lparr>c_send_active := True, c_recv_active := True\<rparr>) w) }"

definition event_del_conn :: "nat \<Rightarrow> world \<Rightarrow> (int \<times> world) option" where
  "event_del_conn c w = do {
     ASSERT (0 < w_ep w) w;
     ASSERT (0 < c_sd (conn w c)) w;
     let (status, w) = epoll_ctl EPOLL_CTL_DEL (c_sd (conn w c)) c 0 w;
     Some (status, if status < 0 then w
                   else upd_conn c (\<lambda>s. s\<lparr>c_recv_active := False, c_send_active := False\<rparr>) w) }"

text \<open>
  Creation and destruction of the event base; the event array is not part of the state,
  only its size is.
\<close>

definition event_base_create :: "int \<Rightarrow> world \<Rightarrow> (bool \<times> world) option" where
  "event_base_create nevent w = do {
     ASSERT (0 < nevent) w;
     let (r, w) = sys (Sys_epoll_create nevent) w;
     let ep = r_ret r;
     if ep < 0 then Some (False, w)
     else do {
       let (ok, w) = gf_alloc w;
       if \<not> ok then Some (False, snd (sys (Sys_close ep) w))
       else do {
         let (ok, w) = gf_alloc w;
         if \<not> ok then Some (False, snd (sys (Sys_close ep) w))
         else Some (True, w\<lparr>w_ep := ep, w_nevent := nevent\<rparr>) } } }"

definition event_base_destroy :: "world \<Rightarrow> world option" where
  "event_base_destroy w = do {
     ASSERT (0 < w_ep w) w;
     let (r, w) = sys (Sys_close (w_ep w)) w;
     Some (w\<lparr>w_ep := - 1\<rparr>) }"

text \<open>The events handed to the callback, from those epoll reports.\<close>

definition event_mask :: "u32 \<Rightarrow> u32" where
  "event_mask ev =
     (let events = 0;
          events = (if ev AND EPOLLERR \<noteq> 0 then events OR EVENT_ERR else events);
          events = (if ev AND (EPOLLIN OR EPOLLHUP) \<noteq> 0 then events OR EVENT_READ else events);
          events = (if ev AND EPOLLOUT \<noteq> 0 then events OR EVENT_WRITE else events)
      in events)"

text \<open>
  \<open>event_wait\<close>: retry on \<open>EINTR\<close>, then run the callback on every reported event.  The fuel
  bounds the number of interruptions; with none left there is no result.
\<close>

primrec event_dispatch :: "(nat \<Rightarrow> u32 \<Rightarrow> world \<Rightarrow> (int \<times> world) option) \<Rightarrow> (nat \<times> u32) list \<Rightarrow> world \<Rightarrow> world option" where
  "event_dispatch cb [] w = Some w"
| "event_dispatch cb (ev # evs) w = do {
     (status, w) \<leftarrow> cb (fst ev) (event_mask (snd ev)) w;
     event_dispatch cb evs w }"

primrec event_wait ::
  "nat \<Rightarrow> (nat \<Rightarrow> u32 \<Rightarrow> world \<Rightarrow> (int \<times> world) option) \<Rightarrow> int \<Rightarrow> world \<Rightarrow> (int \<times> world) option" where
  "event_wait 0 cb timeout w = None"
| "event_wait (Suc n) cb timeout w = do {
     ASSERT (0 < w_ep w) w;
     ASSERT (0 < w_nevent w) w;
     let (r, w) = sys (Sys_epoll_wait (w_ep w) (w_nevent w) timeout) w;
     let nsd = r_ret r;
     if 0 < nsd then do {
       w \<leftarrow> event_dispatch cb (take (nat nsd) (r_events r)) w;
       Some (nsd, w) }
     else if nsd = 0 then Some (if timeout = - 1 then - 1 else 0, w)
     else if w_errno w = EINTR then event_wait n cb timeout w
     else Some (- 1, w) }"

subsection \<open>The interest set of the kernel\<close>

definition interest_step :: "int \<Rightarrow> u32 option \<Rightarrow> sysop \<times> sysres \<Rightarrow> u32 option" where
  "interest_step sd i ev = (case ev of
     (Sys_epoll_ctl ep op sd' c events, r) \<Rightarrow>
       if sd' = sd \<and> 0 \<le> r_ret r then (case op of EPOLL_CTL_DEL \<Rightarrow> None | _ \<Rightarrow> Some events) else i
   | (Sys_close sd', r) \<Rightarrow> if sd' = sd then None else i
   | _ \<Rightarrow> i)"

definition interest :: "int \<Rightarrow> (sysop \<times> sysres) list \<Rightarrow> u32 option" where
  "interest sd tr = foldl (interest_step sd) None tr"

definition watched :: "conn \<Rightarrow> u32 option" where
  "watched s =
     (if c_recv_active s then Some (EPOLLIN OR (if c_send_active s then EPOLLOUT else 0) OR EPOLLET) else None)"

text \<open>The flags of the connection say what the kernel watches.\<close>

definition flags_match :: "world \<Rightarrow> nat \<Rightarrow> bool" where
  "flags_match w c \<longleftrightarrow> interest (c_sd (conn w c)) (w_trace w) = watched (conn w c) \<and>
     (c_send_active (conn w c) \<longrightarrow> c_recv_active (conn w c))"

lemma epoll_ctl_simps [simp]:
  "w_conns (snd (epoll_ctl op sd c ev w)) = w_conns w" "w_msgs (snd (epoll_ctl op sd c ev w)) = w_msgs w"
  "w_pools (snd (epoll_ctl op sd c ev w)) = w_pools w" "w_mbufs (snd (epoll_ctl op sd c ev w)) = w_mbufs w"
  "w_panic (snd (epoll_ctl op sd c ev w)) = w_panic w"
  by (simp_all add: epoll_ctl_def sys_def Let_def)

lemma epoll_ctl_interest:
  "interest sd (w_trace (snd (epoll_ctl op sd c ev w))) =
     (if fst (epoll_ctl op sd c ev w) < 0 then interest sd (w_trace w)
      else case op of EPOLL_CTL_DEL \<Rightarrow> None | _ \<Rightarrow> Some ev)"
  by (simp add: epoll_ctl_def sys_def interest_def interest_step_def Let_def)

text \<open>The part of an operation after its guards, and the invariant it keeps.\<close>

lemma interest_trace_ctl:
  "epoll_ctl op (c_sd (conn w c)) c ev w = (st, w1) \<Longrightarrow>
     interest (c_sd (conn w c)) (w_trace w1) =
       (if st < 0 then interest (c_sd (conn w c)) (w_trace w) else case op of EPOLL_CTL_DEL \<Rightarrow> None | _ \<Rightarrow> Some ev)
     \<and> w_conns w1 = w_conns w"
  using epoll_ctl_interest [of "c_sd (conn w c)" op c ev w] epoll_ctl_simps(1) [of op "c_sd (conn w c)" c ev w]
  by simp

lemma event_add_in_flags:
  "event_add_in c w = Some (st, w') \<Longrightarrow> flags_match w c \<Longrightarrow> flags_match w' c"
  by (auto simp: event_add_in_def flags_match_def watched_def gf_simps split: if_splits prod.splits
      dest!: interest_trace_ctl)

lemma event_add_out_flags:
  "event_add_out c w = Some (st, w') \<Longrightarrow> flags_match w c \<Longrightarrow> c_recv_active (conn w c) \<Longrightarrow> flags_match w' c"
  by (auto simp: event_add_out_def flags_match_def watched_def gf_simps split: if_splits prod.splits
      dest!: interest_trace_ctl)

lemma event_del_out_flags:
  "event_del_out c w = Some (st, w') \<Longrightarrow> flags_match w c \<Longrightarrow> flags_match w' c"
  by (auto simp: event_del_out_def flags_match_def watched_def gf_simps split: if_splits prod.splits
      dest!: interest_trace_ctl)

lemma event_add_conn_flags:
  "event_add_conn c w = Some (st, w') \<Longrightarrow> flags_match w c \<Longrightarrow> flags_match w' c"
  by (auto simp: event_add_conn_def flags_match_def watched_def gf_simps split: if_splits prod.splits
      dest!: interest_trace_ctl)

lemma event_del_conn_flags:
  "event_del_conn c w = Some (st, w') \<Longrightarrow> flags_match w c \<Longrightarrow> flags_match w' c"
  by (auto simp: event_del_conn_def flags_match_def watched_def gf_simps split: if_splits prod.splits
      dest!: interest_trace_ctl)


subsection \<open>Sequences of operations\<close>

definition event_do :: "event_op \<Rightarrow> nat \<Rightarrow> world \<Rightarrow> (int \<times> world) option" where
  "event_do op c = (case op of Add_in \<Rightarrow> event_add_in c | Del_in \<Rightarrow> event_del_in c | Add_out \<Rightarrow> event_add_out c
     | Del_out \<Rightarrow> event_del_out c | Add_conn \<Rightarrow> event_add_conn c | Del_conn \<Rightarrow> event_del_conn c)"

definition event_run :: "event_op list \<Rightarrow> nat \<Rightarrow> world \<Rightarrow> world option" where
  "event_run ops c = run_ops (\<lambda>op. event_do op c) ops"

text \<open>\<open>EPOLL_CTL_MOD\<close> of a descriptor that is not registered fails (\<open>ENOENT\<close>).\<close>

definition mod_call_ok :: "(sysop \<times> sysres) list \<Rightarrow> sysop \<times> sysres \<Rightarrow> bool" where
  "mod_call_ok tr ev = (case ev of
     (Sys_epoll_ctl ep op sd c events, r) \<Rightarrow> op = EPOLL_CTL_MOD \<and> interest sd tr = None \<longrightarrow> r_ret r < 0
   | _ \<Rightarrow> True)"

definition mod_needs_add :: "(sysop \<times> sysres) list \<Rightarrow> bool" where
  "mod_needs_add tr \<longleftrightarrow> (\<forall>i<length tr. mod_call_ok (take i tr) (tr ! i))"

lemma mod_needs_add_append: 
  assumes "mod_needs_add (tr @ tr')" shows "mod_needs_add tr"
  unfolding mod_needs_add_def
proof (intro allI impI)
  fix i assume "i < length tr"
  with assms show "mod_call_ok (take i tr) (tr ! i)"
    using spec [of "\<lambda>i. i < length (tr @ tr') \<longrightarrow> mod_call_ok (take i (tr @ tr')) ((tr @ tr') ! i)" i]
    by (simp add: mod_needs_add_def nth_append)
qed

lemma mod_needs_add_last:
  "mod_needs_add (tr @ [(Sys_epoll_ctl ep EPOLL_CTL_MOD sd c ev, r)]) \<Longrightarrow> interest sd tr = None \<Longrightarrow> r_ret r < 0"
  unfolding mod_needs_add_def mod_call_ok_def by (drule spec [of _ "length tr"]) simp

lemma epoll_ctl_trace:
  "epoll_ctl op sd c ev w = (st, w1) \<Longrightarrow>
     \<exists>r. w_trace w1 = w_trace w @ [(Sys_epoll_ctl (w_ep w) op sd c ev, r)] \<and> st = r_ret r"
  by (auto simp: epoll_ctl_def sys_def Let_def)

lemma event_do_trace:
  "event_do op c w = Some (st, w') \<Longrightarrow> \<exists>tr. w_trace w' = w_trace w @ tr"
  by (cases op) (auto simp: event_do_def event_add_in_def event_del_in_def event_add_out_def event_del_out_def
    event_add_conn_def event_del_conn_def gf_simps split: if_splits prod.splits dest!: epoll_ctl_trace)

lemma epoll_mod_unregistered:
  assumes "epoll_ctl EPOLL_CTL_MOD sd c ev w = (st, w1)" "interest sd (w_trace w) = None" "mod_needs_add (w_trace w1)"
  shows "st < 0"
  using epoll_ctl_trace [OF assms(1)] assms(2,3) by (auto dest: mod_needs_add_last)

lemma event_add_out_unregistered:
  assumes "event_add_out c w = Some (st, w')" "flags_match w c" "\<not> c_recv_active (conn w c)"
    and "mod_needs_add (w_trace w')"
  shows "flags_match w' c"
proof -
  obtain st1 w1 where 1: "epoll_ctl EPOLL_CTL_MOD (c_sd (conn w c)) c (EPOLLIN OR EPOLLOUT OR EPOLLET) w = (st1, w1)"
    by fastforce
  have "w_trace w' = w_trace w1" using assms 1
    by (auto simp: event_add_out_def flags_match_def gf_simps split: if_splits)
  then have "st1 < 0" using epoll_mod_unregistered [OF 1] assms(2,3,4)
    by (simp add: flags_match_def watched_def)
  with assms 1 show ?thesis using interest_trace_ctl [OF 1]
    by (auto simp: event_add_out_def flags_match_def gf_simps watched_def split: if_splits)
qed

lemma event_do_flags:
  assumes "event_do op c w = Some (st, w')" "flags_match w c" "mod_needs_add (w_trace w')"
  shows "flags_match w' c"
  using assms event_add_in_flags event_add_out_flags event_del_out_flags event_add_conn_flags event_del_conn_flags
    event_add_out_unregistered
  by (cases op; cases "c_recv_active (conn w c)") (auto simp: event_do_def event_del_in_def)

text \<open>The operations on one connection are a backend.\<close>

interpretation ep: event_backend "\<lambda>op. event_do op c" "\<lambda>w. flags_match w c" "\<lambda>w. mod_needs_add (w_trace w)" for c
proof
  show "event_do op c w = Some (st, w') \<Longrightarrow> flags_match w c \<Longrightarrow> mod_needs_add (w_trace w') \<Longrightarrow> flags_match w' c" for op st w w'
    by (rule event_do_flags)
  show "event_do op c w = Some (st, w') \<Longrightarrow> mod_needs_add (w_trace w') \<Longrightarrow> mod_needs_add (w_trace w)" for op st w w'
    by (auto dest!: event_do_trace dest: mod_needs_add_append)
qed

text \<open>
  C33: through any sequence of event operations on a connection, failed ones
  included, its flags \<open>recv_active\<close> and \<open>send_active\<close> say exactly which events the kernel
  watches its descriptor for, provided the kernel refuses to modify a descriptor that was
  never added.
\<close>

theorem event_flags_agree:
  assumes "event_run ops c w = Some w'" "flags_match w c" "mod_needs_add (w_trace w')"
  shows "interest (c_sd (conn w' c)) (w_trace w') = watched (conn w' c)"
  using ep.run_agrees [OF assms(1) [unfolded event_run_def] assms(2,3)] by (simp add: flags_match_def)

definition event_w :: world where
  "event_w = upd_conn 0 (\<lambda>s. s\<lparr>c_recv_active := False\<rparr>) (w0\<lparr>w_ep := 4\<rparr>)"

definition event_w' :: world where
  "event_w' = the (event_run [Add_conn, Del_out, Add_out, Del_out] 0 event_w)"

lemmas event_sample_defs = event_run_def event_w_def event_w'_def event_do_def event_add_conn_def event_del_out_def event_add_out_def
  epoll_ctl_def sys_def ASSERT_def upd_conn_def sample_conn_def sample_res_def Let_def split_def

lemma event_flags_agree_witness:
  "interest (c_sd (conn event_w' 0)) (w_trace event_w') = watched (conn event_w' 0)"
proof (rule event_flags_agree)
  show "event_run [Add_conn, Del_out, Add_out, Del_out] 0 event_w = Some event_w'"
    by (simp add: event_sample_defs)
  show "flags_match event_w 0"
    by (simp add: event_sample_defs flags_match_def watched_def interest_def)
  show "mod_needs_add (w_trace event_w')"
    by (simp add: event_sample_defs mod_needs_add_def mod_call_ok_def interest_def interest_step_def less_Suc_eq numeral_eq_Suc)
qed

text \<open>The callback of a wait that is interrupted \<open>k\<close> times.\<close>

primrec waited :: "int \<Rightarrow> nat \<Rightarrow> world \<Rightarrow> world" where
  "waited timeout 0 w = w"
| "waited timeout (Suc k) w = waited timeout k (snd (sys (Sys_epoll_wait (w_ep w) (w_nevent w) timeout) w))"

lemma waited_simps [simp]:
  "w_os (waited timeout k w) = w_os w" "w_tick (waited timeout k w) = w_tick w + k"
  "w_ep (waited timeout k w) = w_ep w" "w_nevent (waited timeout k w) = w_nevent w"
  "w_panic (waited timeout k w) = w_panic w"
  by (induction k arbitrary: w) (simp_all add: sys_def Let_def)

text \<open>
  a wait interrupted by signals is repeated; when events arrive every
  one the kernel reported, and no more, is handed to the callback, in the order reported,
  with the mask of its event bits, and the number of events is returned.
\<close>

theorem event_wait_retries:
  assumes "0 < w_ep w" "0 < w_nevent w"
    and "\<forall>i<k. r_ret (w_os w (w_tick w + i)) < 0 \<and> r_errno (w_os w (w_tick w + i)) = EINTR"
    and "r_ret (w_os w (w_tick w + k)) = int (length (r_events (w_os w (w_tick w + k))))"
    and "r_events (w_os w (w_tick w + k)) \<noteq> []"
    and "k < n"
  shows "event_wait n cb timeout w =
     map_option (Pair (int (length (r_events (w_os w (w_tick w + k))))))
       (event_dispatch cb (r_events (w_os w (w_tick w + k))) (waited timeout (Suc k) w))"
  using assms
proof (induction n arbitrary: w k)
  case (Suc n)
  show ?case
  proof (cases k)
    case 0
    then show ?thesis using Suc.prems
      by (auto simp: sys_def Let_def bind_eq_None_conv split: Option.bind_splits)
  next
    case (Suc j)
    let ?w = "snd (sys (Sys_epoll_wait (w_ep w) (w_nevent w) timeout) w)"
    have "event_wait (Suc n) cb timeout w = event_wait n cb timeout ?w"
      using Suc.prems Suc by (auto simp: sys_def Let_def)
    moreover have "r_ret (w_os w (Suc (w_tick w + i))) < 0 \<and> r_errno (w_os w (Suc (w_tick w + i))) = EINTR"
      if "i < j" for i using Suc.prems(3) Suc that by (auto dest: spec [of _ "Suc i"])
    moreover have "w_os ?w = w_os w" "w_tick ?w = Suc (w_tick w)" "w_ep ?w = w_ep w" "w_nevent ?w = w_nevent w"
      by (simp_all add: sys_def Let_def)
    ultimately show ?thesis using Suc.IH [of ?w j] Suc.prems Suc
      by simp
  qed
qed simp

definition wait_w :: world where
  "wait_w = w0\<lparr>w_ep := 4, w_nevent := 8,
     w_os := (\<lambda>i. if i < 2 then (sample_res (- 1) [])\<lparr>r_errno := EINTR\<rparr>
                    else (sample_res 2 [])\<lparr>r_events := [(0, EPOLLIN), (3, EPOLLHUP)]\<rparr>)\<rparr>"

lemma event_wait_retries_witness:
  "event_wait 4 (\<lambda>c ev w. Some (0, w)) 100 wait_w = Some (2, waited 100 3 wait_w)"
  using event_wait_retries [of wait_w 2 4 "\<lambda>c ev w. Some (0, w)" 100]
  by (simp add: wait_w_def sample_res_def numeral_3_eq_3)

end
