(* ===== verification/Stats_Report.thy ===== *)
theory Stats_Report
  imports Stats Transfers Event
begin

section \<open>The statistics report (\<open>gf_stats.c\<close>)\<close>

text \<open>
  The arrays of metrics, the buffer of the report and its JSON text.  The buffer has its
  allocation as a list of bytes; a store or load outside it has no result.  The arrays are
  allocated for exactly the elements pushed, so they are lists.
\<close>

subsection \<open>Metrics\<close>

record stats_metric =
  sm_type :: stats_type
  sm_name :: "u8 list"
  sm_value :: int

record stats_server =
  ss_name :: "u8 list"
  ss_metric :: "stats_metric list"

record stats_pool =
  sp_name :: "u8 list"
  sp_metric :: "stats_metric list"
  sp_server :: "stats_server list"

definition metric_of :: "string \<Rightarrow> stats_type \<Rightarrow> stats_metric" where
  "metric_of name t = \<lparr>sm_type = t, sm_name = bytes_of_string name, sm_value = 0\<rparr>"

definition stats_pool_codec :: "stats_metric list" where
  "stats_pool_codec =
     [metric_of ''client_eof'' STATS_COUNTER, metric_of ''client_err'' STATS_COUNTER,
      metric_of ''client_connections'' STATS_GAUGE, metric_of ''server_ejects'' STATS_COUNTER,
      metric_of ''forward_error'' STATS_COUNTER, metric_of ''fragments'' STATS_COUNTER]"

definition stats_server_codec :: "stats_metric list" where
  "stats_server_codec =
     [metric_of ''server_eof'' STATS_COUNTER, metric_of ''server_err'' STATS_COUNTER,
      metric_of ''server_timedout'' STATS_COUNTER, metric_of ''server_connections'' STATS_GAUGE,
      metric_of ''server_ejected_at'' STATS_TIMESTAMP, metric_of ''requests'' STATS_COUNTER,
      metric_of ''request_bytes'' STATS_COUNTER, metric_of ''responses'' STATS_COUNTER,
      metric_of ''response_bytes'' STATS_COUNTER, metric_of ''in_queue'' STATS_GAUGE,
      metric_of ''in_queue_bytes'' STATS_GAUGE, metric_of ''out_queue'' STATS_GAUGE,
      metric_of ''out_queue_bytes'' STATS_GAUGE]"

text \<open>The fields in the order of the enumerations, which index the arrays.\<close>

definition pool_fields :: "pool_field list" where
  "pool_fields = [P_client_eof, P_client_err, P_client_connections, P_server_ejects, P_forward_error, P_fragments]"

definition server_fields_of :: "server_field list" where
  "server_fields_of =
     [S_server_eof, S_server_err, S_server_timedout, S_server_connections, S_server_ejected_at, S_requests, S_request_bytes,
      S_responses, S_response_bytes, S_in_queue, S_in_queue_bytes, S_out_queue, S_out_queue_bytes]"

lemma codec_types: "map sm_type stats_pool_codec = map pool_type pool_fields"
  "map sm_type stats_server_codec = map server_type server_fields_of"
  by (simp_all add: stats_pool_codec_def stats_server_codec_def pool_fields_def server_fields_of_def metric_of_def)

definition metric_init :: "stats_metric \<Rightarrow> stats_metric" where
  "metric_init sm = sm\<lparr>sm_value := stats_metric_init (sm_type sm)\<rparr>"

definition stats_metric_reset :: "stats_metric list \<Rightarrow> world \<Rightarrow> stats_metric list option" where
  "stats_metric_reset ms w = do {
     ASSERT (length ms = length stats_pool_codec \<or> length ms = length stats_server_codec) w;
     Some (map metric_init ms) }"

text \<open>\<open>array_init\<close>: the elements pushed later fit the allocation.\<close>

definition array_alloc :: "nat \<Rightarrow> world \<Rightarrow> (int \<times> world) option" where
  "array_alloc n w = do {
     ASSERT (n \<noteq> 0) w;
     let (ok, w) = gf_alloc w;
     Some (if ok then GF_OK else GF_ENOMEM, w) }"

definition stats_pool_metric_init :: "world \<Rightarrow> (int \<times> stats_metric list \<times> world) option" where
  "stats_pool_metric_init w = do {
     (status, w) \<leftarrow> array_alloc (length stats_pool_codec) w;
     Some (if status \<noteq> GF_OK then (status, [], w) else (GF_OK, map metric_init stats_pool_codec, w)) }"

definition stats_server_metric_init :: "world \<Rightarrow> (int \<times> stats_metric list \<times> world) option" where
  "stats_server_metric_init w = do {
     (status, w) \<leftarrow> array_alloc (length stats_server_codec) w;
     Some (if status \<noteq> GF_OK then (status, [], w) else (GF_OK, map metric_init stats_server_codec, w)) }"

definition stats_server_init :: "server \<Rightarrow> world \<Rightarrow> (int \<times> stats_server \<times> world) option" where
  "stats_server_init s w = do {
     (status, ms, w) \<leftarrow> stats_server_metric_init w;
     Some (status, \<lparr>ss_name = s_name s, ss_metric = ms\<rparr>, w) }"

text \<open>The element that failed stays in the array, without metrics.\<close>

primrec server_map_loop :: "server list \<Rightarrow> world \<Rightarrow> (int \<times> stats_server list \<times> world) option" where
  "server_map_loop [] w = Some (GF_OK, [], w)"
| "server_map_loop (s # ss) w = do {
     (status, sts, w) \<leftarrow> stats_server_init s w;
     if status \<noteq> GF_OK then Some (status, [sts], w)
     else do {
       (status, rest, w) \<leftarrow> server_map_loop ss w;
       Some (status, sts # rest, w) } }"

definition stats_server_map :: "server list \<Rightarrow> world \<Rightarrow> (int \<times> stats_server list \<times> world) option" where
  "stats_server_map ss w = do {
     ASSERT (length ss \<noteq> 0) w;
     (status, w) \<leftarrow> array_alloc (length ss) w;
     if status \<noteq> GF_OK then Some (status, [], w) else server_map_loop ss w }"

definition stats_pool_init :: "server_pool \<Rightarrow> world \<Rightarrow> (int \<times> stats_pool \<times> world) option" where
  "stats_pool_init sp w = do {
     let stp = \<lparr>sp_name = p_name sp, sp_metric = [], sp_server = []\<rparr>;
     (status, ms, w) \<leftarrow> stats_pool_metric_init w;
     if status \<noteq> GF_OK then Some (status, stp, w)
     else do {
       (status, sts, w) \<leftarrow> stats_server_map (p_server sp) w;
       Some (if status \<noteq> GF_OK then (status, stp\<lparr>sp_server := sts\<rparr>, w)
             else (GF_OK, stp\<lparr>sp_metric := ms, sp_server := sts\<rparr>, w)) } }"

primrec pool_map_loop :: "server_pool list \<Rightarrow> world \<Rightarrow> (int \<times> stats_pool list \<times> world) option" where
  "pool_map_loop [] w = Some (GF_OK, [], w)"
| "pool_map_loop (sp # sps) w = do {
     (status, stp, w) \<leftarrow> stats_pool_init sp w;
     if status \<noteq> GF_OK then Some (status, [stp], w)
     else do {
       (status, rest, w) \<leftarrow> pool_map_loop sps w;
       Some (status, stp # rest, w) } }"

definition stats_pool_map :: "server_pool list \<Rightarrow> world \<Rightarrow> (int \<times> stats_pool list \<times> world) option" where
  "stats_pool_map sps w = do {
     ASSERT (length sps \<noteq> 0) w;
     (status, w) \<leftarrow> array_alloc (length sps) w;
     if status \<noteq> GF_OK then Some (status, [], w) else pool_map_loop sps w }"

subsection \<open>The buffer\<close>

record stats_buffer =
  sb_len :: nat
  sb_data :: "u8 list option"
  sb_size :: nat

text \<open>The rest of \<open>struct stats\<close>; \<open>w_stats\<close> has the values of the three copies.\<close>

record stats_ctx =
  sx_port :: int
  sx_interval :: int
  sx_addr :: "u8 list"
  sx_start_ts :: int
  sx_buf :: stats_buffer
  sx_current :: "stats_pool list"
  sx_shadow :: "stats_pool list"
  sx_sum :: "stats_pool list"
  sx_sd :: int
  sx_service_str :: "u8 list"
  sx_service :: "u8 list"
  sx_source_str :: "u8 list"
  sx_source :: "u8 list"
  sx_version_str :: "u8 list"
  sx_version :: "u8 list"
  sx_uptime_str :: "u8 list"
  sx_timestamp_str :: "u8 list"
  sx_ntotal_conn_str :: "u8 list"
  sx_ncurr_conn_str :: "u8 list"
  sx_aggregate :: bool
  sx_updated :: bool

abbreviation (input) int64_max_digits :: nat where "int64_max_digits \<equiv> 20"
abbreviation (input) key_value_extra :: nat where "key_value_extra \<equiv> 8"
abbreviation (input) pool_extra :: nat where "pool_extra \<equiv> 8"
abbreviation (input) server_extra :: nat where "server_extra \<equiv> 8"

definition metric_size :: "stats_metric \<Rightarrow> nat" where
  "metric_size sm = length (sm_name sm) + int64_max_digits + key_value_extra"

definition server_size :: "stats_server \<Rightarrow> nat" where
  "server_size sts = length (ss_name sts) + server_extra + sum_list (map metric_size (ss_metric sts))"

definition pool_size :: "stats_pool \<Rightarrow> nat" where
  "pool_size stp = length (sp_name stp) + pool_extra + sum_list (map metric_size (sp_metric stp))
     + sum_list (map server_size (sp_server stp))"

definition header_size :: "stats_ctx \<Rightarrow> nat" where
  "header_size st = 1
     + (length (sx_service_str st) + length (sx_service st) + key_value_extra)
     + (length (sx_source_str st) + length (sx_source st) + key_value_extra)
     + (length (sx_version_str st) + length (sx_version st) + key_value_extra)
     + (length (sx_uptime_str st) + int64_max_digits + key_value_extra)
     + (length (sx_timestamp_str st) + int64_max_digits + key_value_extra)
     + (length (sx_ntotal_conn_str st) + int64_max_digits + key_value_extra)
     + (length (sx_ncurr_conn_str st) + int64_max_digits + key_value_extra)"

text \<open>\<open>GF_ALIGN(size, GF_ALIGNMENT)\<close>, to a multiple of 8.\<close>

definition gf_align :: "nat \<Rightarrow> nat" where
  "gf_align n = (n + 7) div 8 * 8"

definition stats_create_buf :: "stats_ctx \<Rightarrow> world \<Rightarrow> (int \<times> stats_ctx \<times> world) option" where
  "stats_create_buf st w = do {
     ASSERT (sb_data (sx_buf st) = None \<and> sb_size (sx_buf st) = 0) w;
     let size = gf_align (header_size st + sum_list (map pool_size (sx_sum st)) + 2);
     let (ok, w) = gf_alloc w;
     Some (if \<not> ok then (GF_ENOMEM, st, w)
           else (GF_OK, st\<lparr>sx_buf := (sx_buf st)\<lparr>sb_data := Some (replicate size 0), sb_size := size\<rparr>\<rparr>, w)) }"

definition stats_destroy_buf :: "stats_ctx \<Rightarrow> world \<Rightarrow> stats_ctx option" where
  "stats_destroy_buf st w =
     (if sb_size (sx_buf st) \<noteq> 0 then do {
        ASSERT (sb_data (sx_buf st) \<noteq> None) w;
        Some (st\<lparr>sx_buf := (sx_buf st)\<lparr>sb_data := None, sb_size := 0\<rparr>\<rparr>) }
      else Some st)"

text \<open>
  \<open>gf_snprintf(pos, room, ...)\<close> at the end of the buffer: at most \<open>room - 1\<close> bytes and a NUL
  are stored, in a \<open>room\<close> that is a \<open>size_t\<close> and is compared as an \<open>int\<close>; a text longer than
  an \<open>int\<close> can count is an error.
\<close>

definition store_at :: "u8 list \<Rightarrow> nat \<Rightarrow> u8 list \<Rightarrow> u8 list option" where
  "store_at d i bs = (if i + length bs \<le> length d then Some (take i d @ bs @ drop (i + length bs) d) else None)"

definition buf_print :: "u8 list \<Rightarrow> stats_buffer \<Rightarrow> (int \<times> stats_buffer) option" where
  "buf_print text buf = do {
     data \<leftarrow> sb_data buf;
     let room = (word_of_nat (sb_size buf) - word_of_nat (sb_len buf) - 1 :: u64);
     let n = (if length text < 2 ^ 31 then int (length text) else - 1);
     data \<leftarrow> (if room = 0 \<or> n < 0 then Some data else store_at data (sb_len buf) (take (unat room - 1) text @ [0]));
     let buf = buf\<lparr>sb_data := Some data\<rparr>;
     if n < 0 \<or> sint (ucast room :: u32) \<le> n then Some (GF_ERROR, buf)
     else Some (GF_OK, buf\<lparr>sb_len := sb_len buf + nat n\<rparr>) }"

definition stats_add_string :: "u8 list \<Rightarrow> u8 list \<Rightarrow> stats_buffer \<Rightarrow> (int \<times> stats_buffer) option" where
  "stats_add_string key val = buf_print ([34] @ cstr key @ [34, 58, 34] @ cstr val @ [34, 44, 32])"

definition stats_add_num :: "u8 list \<Rightarrow> int \<Rightarrow> stats_buffer \<Rightarrow> (int \<times> stats_buffer) option" where
  "stats_add_num key val = buf_print ([34] @ cstr key @ [34, 58] @ decimal_int val @ [44, 32])"

definition stats_begin_nesting :: "u8 list \<Rightarrow> stats_buffer \<Rightarrow> (int \<times> stats_buffer) option" where
  "stats_begin_nesting key = buf_print ([34] @ cstr key @ [34, 58, 32, 123])"

definition stats_end_nesting :: "bool \<Rightarrow> stats_buffer \<Rightarrow> (int \<times> stats_buffer) option" where
  "stats_end_nesting panic buf = do {
     data \<leftarrow> sb_data buf;
     let pos = sb_len buf - 2;
     if sb_len buf < 2 \<or> length data \<le> pos then None
     else if data ! pos = 44 then do {
       if panic \<and> \<not> (pos + 1 < length data \<and> data ! (pos + 1) = 32) then None
       else do {
         data \<leftarrow> store_at data pos [125, 44];
         Some (GF_OK, buf\<lparr>sb_data := Some data\<rparr>) } }
     else if data ! pos = 125 then do {
       if sb_len buf = sb_size buf then Some (GF_ERROR, buf)
       else if panic \<and> \<not> (pos + 1 < length data \<and> data ! (pos + 1) = 44) then None
       else do {
         data \<leftarrow> store_at data (pos + 1) [125, 44];
         Some (GF_OK, buf\<lparr>sb_data := Some data, sb_len := sb_len buf + 1\<rparr>) } }
     else if panic then None else Some (GF_OK, buf) }"

definition stats_add_footer :: "stats_buffer \<Rightarrow> (int \<times> stats_buffer) option" where
  "stats_add_footer buf = do {
     data \<leftarrow> sb_data buf;
     if sb_len buf = sb_size buf then Some (GF_ERROR, buf)
     else if sb_len buf = 0 then None
     else do {
       data \<leftarrow> store_at data (sb_len buf - 1) [125, 10];
       Some (GF_OK, buf\<lparr>sb_data := Some data, sb_len := sb_len buf + 1\<rparr>) } }"

text \<open>\<open>status = f; if (status != GF_OK) return status;\<close> and go on.\<close>

definition and_then :: "('a \<Rightarrow> (int \<times> 'a) option) \<Rightarrow> ('a \<Rightarrow> (int \<times> 'a) option) \<Rightarrow> 'a \<Rightarrow> (int \<times> 'a) option" where
  "and_then f g a = do { (status, a) \<leftarrow> f a; if status \<noteq> GF_OK then Some (status, a) else g a }"

definition all_of :: "('b \<Rightarrow> 'a \<Rightarrow> (int \<times> 'a) option) \<Rightarrow> 'b list \<Rightarrow> 'a \<Rightarrow> (int \<times> 'a) option" where
  "all_of f xs = foldr (\<lambda>x. and_then (f x)) xs (\<lambda>a. Some (GF_OK, a))"

definition stats_copy_metric :: "stats_metric list \<Rightarrow> stats_buffer \<Rightarrow> (int \<times> stats_buffer) option" where
  "stats_copy_metric = all_of (\<lambda>sm. stats_add_num (sm_name sm) (sm_value sm))"

text \<open>The numbers are passed as \<open>int64_t\<close>.\<close>

definition stats_add_header :: "stats_ctx \<Rightarrow> int \<Rightarrow> u64 \<Rightarrow> u32 \<Rightarrow> stats_buffer \<Rightarrow> (int \<times> stats_buffer) option" where
  "stats_add_header st cur_ts ntotal ncurr buf = do {
     data \<leftarrow> sb_data buf;
     data \<leftarrow> store_at data 0 [123];
     let buf = buf\<lparr>sb_data := Some data, sb_len := 1\<rparr>;
     let uptime = cur_ts - sx_start_ts st;
     and_then (stats_add_string (sx_service_str st) (sx_service st))
      (and_then (stats_add_string (sx_source_str st) (sx_source st))
      (and_then (stats_add_string (sx_version_str st) (sx_version st))
      (and_then (stats_add_num (sx_uptime_str st) uptime)
      (and_then (stats_add_num (sx_timestamp_str st) cur_ts)
      (and_then (stats_add_num (sx_ntotal_conn_str st) (sint ntotal))
        (stats_add_num (sx_ncurr_conn_str st) (uint ncurr))))))) buf }"

definition print_server :: "bool \<Rightarrow> stats_server \<Rightarrow> stats_buffer \<Rightarrow> (int \<times> stats_buffer) option" where
  "print_server panic sts =
     and_then (stats_begin_nesting (ss_name sts)) (and_then (stats_copy_metric (ss_metric sts)) (stats_end_nesting panic))"

definition print_pool :: "bool \<Rightarrow> stats_pool \<Rightarrow> stats_buffer \<Rightarrow> (int \<times> stats_buffer) option" where
  "print_pool panic stp =
     and_then (stats_begin_nesting (sp_name stp)) (and_then (stats_copy_metric (sp_metric stp))
       (and_then (all_of (print_server panic) (sp_server stp)) (stats_end_nesting panic)))"

definition stats_make_rsp :: "stats_ctx \<Rightarrow> world \<Rightarrow> (int \<times> stats_ctx \<times> world) option" where
  "stats_make_rsp st w = do {
     let (r, w) = sys Sys_time w;
     (status, buf) \<leftarrow> and_then (stats_add_header st (r_ret r) (w_ntotal_conn w) (w_ncurr_conn w))
       (and_then (all_of (print_pool (w_panic w)) (sx_sum st)) stats_add_footer) (sx_buf st);
     Some (status, st\<lparr>sx_buf := buf\<rparr>, w) }"

subsection \<open>The copies\<close>

text \<open>A walk over the source array with the element of the destination at the same index.\<close>

fun each_src :: "('a \<Rightarrow> 'b \<Rightarrow> 'a option) \<Rightarrow> 'a list \<Rightarrow> 'b list \<Rightarrow> 'a list option" where
  "each_src f dst [] = Some dst"
| "each_src f [] (s # ss) = None"
| "each_src f (d # ds) (s # ss) = do { d \<leftarrow> f d s; ds \<leftarrow> each_src f ds ss; Some (d # ds) }"

definition aggregate_metric :: "bool \<Rightarrow> stats_metric \<Rightarrow> stats_metric \<Rightarrow> stats_metric option" where
  "aggregate_metric panic stm2 stm1 =
     (if panic \<and> sm_type stm1 \<noteq> sm_type stm2 then None
      else Some (stm2\<lparr>sm_value := stats_aggregate_metric (sm_type stm1) (sm_value stm2) (sm_value stm1)\<rparr>))"

definition aggregate_server :: "bool \<Rightarrow> stats_server \<Rightarrow> stats_server \<Rightarrow> stats_server option" where
  "aggregate_server panic sts2 sts1 = do {
     ms \<leftarrow> each_src (aggregate_metric panic) (ss_metric sts2) (ss_metric sts1);
     Some (sts2\<lparr>ss_metric := ms\<rparr>) }"

definition aggregate_pool :: "bool \<Rightarrow> stats_pool \<Rightarrow> stats_pool \<Rightarrow> stats_pool option" where
  "aggregate_pool panic stp2 stp1 = do {
     ms \<leftarrow> each_src (aggregate_metric panic) (sp_metric stp2) (sp_metric stp1);
     ss \<leftarrow> each_src (aggregate_server panic) (sp_server stp2) (sp_server stp1);
     Some (stp2\<lparr>sp_metric := ms, sp_server := ss\<rparr>) }"

definition sx_stats_aggregate :: "bool \<Rightarrow> stats_ctx \<Rightarrow> stats_ctx option" where
  "sx_stats_aggregate panic st =
     (if \<not> sx_aggregate st then Some st
      else do {
        ps \<leftarrow> each_src (aggregate_pool panic) (sx_sum st) (sx_shadow st);
        Some (st\<lparr>sx_sum := ps, sx_aggregate := False\<rparr>) })"

definition reset_pool :: "stats_pool \<Rightarrow> stats_pool" where
  "reset_pool stp = stp\<lparr>sp_metric := map metric_init (sp_metric stp),
     sp_server := map (\<lambda>sts. sts\<lparr>ss_metric := map metric_init (ss_metric sts)\<rparr>) (sp_server stp)\<rparr>"

definition sx_stats_swap :: "stats_ctx \<Rightarrow> stats_ctx" where
  "sx_stats_swap st =
     (if sx_aggregate st then st
      else if \<not> sx_updated st then st
      else st\<lparr>sx_current := map reset_pool (sx_shadow st), sx_shadow := sx_current st, sx_updated := False, sx_aggregate := True\<rparr>)"

text \<open>The update of a metric found by its indices.\<close>

definition upd_metric :: "nat \<Rightarrow> (int \<Rightarrow> int) \<Rightarrow> stats_metric list \<Rightarrow> stats_metric list option" where
  "upd_metric fidx f ms = (if fidx < length ms then Some (ms[fidx := (ms ! fidx)\<lparr>sm_value := f (sm_value (ms ! fidx))\<rparr>]) else None)"

definition sx_pool_to_metric :: "nat \<Rightarrow> nat \<Rightarrow> (int \<Rightarrow> int) \<Rightarrow> stats_ctx \<Rightarrow> stats_ctx option" where
  "sx_pool_to_metric pidx fidx f st =
     (if length (sx_current st) \<le> pidx then None
      else do {
        let stp = sx_current st ! pidx;
        ms \<leftarrow> upd_metric fidx f (sp_metric stp);
        Some (st\<lparr>sx_current := (sx_current st)[pidx := stp\<lparr>sp_metric := ms\<rparr>], sx_updated := True\<rparr>) })"

definition sx_server_to_metric :: "nat \<Rightarrow> nat \<Rightarrow> nat \<Rightarrow> (int \<Rightarrow> int) \<Rightarrow> stats_ctx \<Rightarrow> stats_ctx option" where
  "sx_server_to_metric pidx sidx fidx f st =
     (if length (sx_current st) \<le> pidx \<or> length (sp_server (sx_current st ! pidx)) \<le> sidx then None
      else do {
        let stp = sx_current st ! pidx; let sts = sp_server stp ! sidx;
        ms \<leftarrow> upd_metric fidx f (ss_metric sts);
        Some (st\<lparr>sx_current := (sx_current st)[pidx := stp\<lparr>sp_server := (sp_server stp)[sidx := sts\<lparr>ss_metric := ms\<rparr>]\<rparr>],
                 sx_updated := True\<rparr>) })"

subsection \<open>The aggregator\<close>

text \<open>The fuel is that of \<open>gf_sendn\<close>.\<close>

definition stats_send_rsp :: "nat \<Rightarrow> stats_ctx \<Rightarrow> world \<Rightarrow> (int \<times> stats_ctx \<times> world) option" where
  "stats_send_rsp k st w = do {
     (status, st, w) \<leftarrow> stats_make_rsp st w;
     if status \<noteq> GF_OK then Some (status, st, w)
     else do {
       let (r, w) = sys (Sys_accept (sx_sd st)) w;
       let sd = r_ret r;
       if sd < 0 then Some (GF_ERROR, st, w)
       else do {
         data \<leftarrow> sb_data (sx_buf st);
         (n, w) \<leftarrow> gf_sendn k sd (take (sb_len (sx_buf st)) data) w;
         let (r, w) = sys (Sys_close sd) w;
         Some (if n < 0 then GF_ERROR else GF_OK, st, w) } } }"

definition stats_loop_callback :: "nat \<Rightarrow> stats_ctx \<Rightarrow> int \<Rightarrow> world \<Rightarrow> (stats_ctx \<times> world) option" where
  "stats_loop_callback k st n w = do {
     st \<leftarrow> sx_stats_aggregate (w_panic w) st;
     if n = 0 then Some (st, w)
     else do { (status, st, w) \<leftarrow> stats_send_rsp k st w; Some (st, w) } }"

text \<open>\<open>event_loop_stats\<close> of \<open>event/gf_epoll.c\<close>; with the fuel used up it is still running.\<close>

primrec stats_wait :: "nat \<Rightarrow> nat \<Rightarrow> int \<Rightarrow> stats_ctx \<Rightarrow> world \<Rightarrow> (bool \<times> stats_ctx \<times> world) option" where
  "stats_wait 0 k ep st w = Some (True, st, w)"
| "stats_wait (Suc j) k ep st w = do {
     let (r, w) = sys (Sys_epoll_wait ep 1 (sx_interval st)) w;
     let n = r_ret r;
     if n < 0 then (if w_errno w = EINTR then stats_wait j k ep st w else Some (False, st, w))
     else do { (st, w) \<leftarrow> stats_loop_callback k st n w; stats_wait j k ep st w } }"

definition event_loop_stats :: "nat \<Rightarrow> nat \<Rightarrow> stats_ctx \<Rightarrow> world \<Rightarrow> (stats_ctx \<times> world) option" where
  "event_loop_stats j k st w = do {
     let (r, w) = sys (Sys_epoll_create 1) w;
     let ep = r_ret r;
     if ep < 0 then Some (st, w)
     else do {
       let (r, w) = sys (Sys_epoll_ctl ep EPOLL_CTL_ADD (sx_sd st) (nat (sx_sd st)) EPOLLIN) w;
       (running, st, w) \<leftarrow> (if r_ret r < 0 then Some (False, st, w) else stats_wait j k ep st w);
       Some (st, if running then w else snd (sys (Sys_close ep) w)) } }"

subsection \<open>Creation and destruction\<close>

abbreviation (input) SOMAXCONN :: int where "SOMAXCONN \<equiv> 4096"

definition stats_listen :: "stats_ctx \<Rightarrow> world \<Rightarrow> (int \<times> stats_ctx \<times> world) option" where
  "stats_listen st w = do {
     (status, si, w) \<leftarrow> gf_resolve (sx_addr st) (sx_port st) \<lparr>si_family = 0, si_addrlen = 0, si_addr = []\<rparr> w;
     if status < 0 then Some (status, st, w)
     else do {
       let (r, w) = sys (Sys_socket (si_family si)) w;
       let st = st\<lparr>sx_sd := r_ret r\<rparr>;
       if sx_sd st < 0 then Some (GF_ERROR, st, w)
       else do {
         let (status, w) = gf_set_reuseport (sx_sd st) w;
         let (status, w) = gf_set_reuseaddr (sx_sd st) w;
         if status < 0 then Some (GF_ERROR, st, w)
         else do {
           let (r, w) = sys (Sys_bind (sx_sd st) (si_addr si) (si_addrlen si)) w;
           if r_ret r < 0 then Some (GF_ERROR, st, w)
           else do {
             let (r, w) = sys (Sys_listen (sx_sd st) SOMAXCONN) w;
             Some (if r_ret r < 0 then GF_ERROR else GF_OK, st, w) } } } } }"

definition stats_start_aggregator :: "stats_ctx \<Rightarrow> world \<Rightarrow> (int \<times> stats_ctx \<times> world) option" where
  "stats_start_aggregator st w = do {
     (status, st, w) \<leftarrow> stats_listen st w;
     if status \<noteq> GF_OK then Some (status, st, w)
     else do {
       let (r, w) = sys (Sys_call ''pthread_create'') w;
       Some (if r_ret r < 0 then GF_ERROR else GF_OK, st, w) } }"

definition stats_stop_aggregator :: "stats_ctx \<Rightarrow> world \<Rightarrow> world" where
  "stats_stop_aggregator st w = snd (sys (Sys_close (sx_sd st)) w)"

definition stats_destroy :: "stats_ctx \<Rightarrow> world \<Rightarrow> world option" where
  "stats_destroy st w = do {
     let w = stats_stop_aggregator st w;
     let st = st\<lparr>sx_sum := [], sx_shadow := [], sx_current := []\<rparr>;
     st \<leftarrow> stats_destroy_buf st w;
     Some w }"

definition stats_init :: "int \<Rightarrow> u8 list \<Rightarrow> int \<Rightarrow> u8 list \<Rightarrow> u8 list \<Rightarrow> int \<Rightarrow> stats_ctx" where
  "stats_init stats_port stats_ip stats_interval source version start_ts =
     \<lparr>sx_port = stats_port, sx_interval = stats_interval, sx_addr = stats_ip, sx_start_ts = start_ts,
      sx_buf = \<lparr>sb_len = 0, sb_data = None, sb_size = 0\<rparr>, sx_current = [], sx_shadow = [], sx_sum = [], sx_sd = - 1,
      sx_service_str = bytes_of_string ''service'', sx_service = bytes_of_string ''nutcracker'',
      sx_source_str = bytes_of_string ''source'', sx_source = source,
      sx_version_str = bytes_of_string ''version'', sx_version = version,
      sx_uptime_str = bytes_of_string ''uptime'', sx_timestamp_str = bytes_of_string ''timestamp'',
      sx_ntotal_conn_str = bytes_of_string ''total_connections'', sx_ncurr_conn_str = bytes_of_string ''curr_connections'',
      sx_aggregate = False, sx_updated = False\<rparr>"

text \<open>The maps of the three copies and the buffer, up to the first that fails; the version is that of the build.\<close>

definition map_copy ::
  "server_pool list \<Rightarrow> (stats_pool list \<Rightarrow> stats_ctx \<Rightarrow> stats_ctx) \<Rightarrow> stats_ctx \<times> world \<Rightarrow> (int \<times> stats_ctx \<times> world) option" where
  "map_copy sps put = (\<lambda>(st, w). do { (status, ps, w) \<leftarrow> stats_pool_map sps w; Some (status, put ps st, w) })"

definition stats_map :: "stats_ctx \<Rightarrow> world \<Rightarrow> (int \<times> stats_ctx \<times> world) option" where
  "stats_map st w =
     (let sps = map (w_pools w) [0..<w_npool w]
      in and_then (map_copy sps (\<lambda>ps st. st\<lparr>sx_current := ps\<rparr>))
          (and_then (map_copy sps (\<lambda>ps st. st\<lparr>sx_shadow := ps\<rparr>))
          (and_then (map_copy sps (\<lambda>ps st. st\<lparr>sx_sum := ps\<rparr>))
            (\<lambda>(st, w). stats_create_buf st w))) (st, w))"

definition stats_create ::
  "int \<Rightarrow> u8 list \<Rightarrow> int \<Rightarrow> u8 list \<Rightarrow> u8 list \<Rightarrow> world \<Rightarrow> (stats_ctx option \<times> world) option" where
  "stats_create stats_port stats_ip stats_interval source version w = do {
     let (ok, w) = gf_alloc w;
     if \<not> ok then Some (None, w)
     else do {
       let (r, w) = sys Sys_time w;
       let st = stats_init stats_port stats_ip stats_interval source version (r_ret r);
       (status, st, w) \<leftarrow> stats_map st w;
       (status, st, w) \<leftarrow> (if status \<noteq> GF_OK then Some (status, st, w) else stats_start_aggregator st w);
       if status \<noteq> GF_OK then do { w \<leftarrow> stats_destroy st w; Some (None, w) }
       else Some (Some st, w) } }"

end
