(* ===== verification/Stats_Json.thy ===== *)
theory Stats_Json
  imports Stats_Report
begin

section \<open>The report is JSON and fits its buffer\<close>

text \<open>
  Each operation on the buffer of the report is described by what it does to the contents and
  how much it may add (\<open>prints\<close>); the rules follow the structure of \<open>stats_make_rsp\<close>.  The text is that
  of a JSON value with the numbers of the sums, and a reader gets the value back.
\<close>

subsection \<open>What an operation does to the contents\<close>

definition buf_ok :: "stats_buffer \<Rightarrow> bool" where
  "buf_ok b \<longleftrightarrow> sb_len b \<le> sb_size b \<and> sb_size b < 2 ^ 31 \<and> (case sb_data b of None \<Rightarrow> False | Some d \<Rightarrow> length d = sb_size b)"

definition contents :: "stats_buffer \<Rightarrow> u8 list" where
  "contents b = take (sb_len b) (the (sb_data b))"

lemma contents_length: "buf_ok b \<Longrightarrow> length (contents b) = sb_len b"
  by (auto simp: buf_ok_def contents_def split: option.splits)

lemma store_at_take: "i + length bs \<le> length d \<Longrightarrow> store_at d i bs = Some (take i d @ bs @ drop (i + length bs) d)"
  by (simp add: store_at_def)

lemma sint_of_nat32: "k < 2 ^ 31 \<Longrightarrow> sint (word_of_nat k :: u32) = int k"
  by (subst signed_of_nat) (simp add: signed_take_bit_int_eq_self)

lemma buf_room:
  assumes "len < sz" "sz < 2 ^ 31"
  shows "unat (word_of_nat sz - word_of_nat len - 1 :: u64) = sz - len - 1"
    and "sint (ucast (word_of_nat sz - word_of_nat len - 1 :: u64) :: u32) = int (sz - len - 1)"
proof -
  have "word_of_nat sz - word_of_nat len - 1 = (word_of_nat (sz - len - 1) :: u64)"
    using assms(1) by (simp add: of_nat_diff)
  moreover have "sz - len - 1 < 2 ^ 31" using assms by simp
  ultimately show "unat (word_of_nat sz - word_of_nat len - 1 :: u64) = sz - len - 1"
    by (simp add: unsigned_of_nat take_bit_nat_eq_self)
  have "uint (word_of_nat k :: u64) = int k" if "k < 2 ^ 31" for k
    using that by (simp add: uint_nat unsigned_of_nat take_bit_nat_eq_self)
  then have "sint (ucast (word_of_nat k :: u64) :: u32) = int k" if "k < 2 ^ 31" for k
    using that sint_of_nat32 [of k] by (simp add: ucast_eq)
  then show "sint (ucast (word_of_nat sz - word_of_nat len - 1 :: u64) :: u32) = int (sz - len - 1)"
    using \<open>sz - len - 1 < 2 ^ 31\<close> \<open>word_of_nat sz - word_of_nat len - 1 = word_of_nat (sz - len - 1)\<close> by metis
qed

definition prints :: "(u8 list \<Rightarrow> bool) \<Rightarrow> nat \<Rightarrow> (stats_buffer \<Rightarrow> (int \<times> stats_buffer) option) \<Rightarrow> (u8 list \<Rightarrow> u8 list) \<Rightarrow> bool" where
  "prints P n f g \<longleftrightarrow> (\<forall>b. buf_ok b \<longrightarrow> P (contents b) \<longrightarrow> sb_len b + n < sb_size b \<longrightarrow>
     (\<exists>b'. f b = Some (GF_OK, b') \<and> buf_ok b' \<and> sb_size b' = sb_size b \<and> contents b' = g (contents b)
        \<and> sb_len b' \<le> sb_len b + n))"

lemma prints_text:
  assumes "length text + 1 \<le> n"
  shows "prints P n (buf_print text) (\<lambda>c. c @ text)"
  unfolding prints_def
proof (intro allI impI)
  fix b assume b: "buf_ok b" "sb_len b + n < sb_size b"
  then obtain d where d: "sb_data b = Some d" "length d = sb_size b" "sb_size b < 2 ^ 31" by (auto simp: buf_ok_def split: option.splits)
  have lt: "sb_len b < sb_size b" "length text < sb_size b - sb_len b - 1" using assms b(2) by auto
  note room = buf_room [OF lt(1) d(3)]
  have "word_of_nat (sb_size b) - word_of_nat (sb_len b) - 1 \<noteq> (0 :: u64)" using room(1) lt(2) by auto
  then have "buf_print text b = Some (GF_OK, b\<lparr>sb_data := Some (take (sb_len b) d @ (text @ [0]) @ drop (sb_len b + length (text @ [0])) d),
      sb_len := sb_len b + length text\<rparr>)"
    using d lt room by (simp add: buf_print_def store_at_def Let_def)
  then show "\<exists>b'. buf_print text b = Some (GF_OK, b') \<and> buf_ok b' \<and> sb_size b' = sb_size b \<and> contents b' = contents b @ text
      \<and> sb_len b' \<le> sb_len b + n"
    using b d lt assms by (auto simp: buf_ok_def contents_def)
qed

lemma prints_seq:
  assumes "prints P n f g" "prints Q m f' g'" "\<And>c. P c \<Longrightarrow> Q (g c)"
  shows "prints P (n + m) (and_then f f') (\<lambda>c. g' (g c))"
  unfolding prints_def
proof (intro allI impI)
  fix b assume b: "buf_ok b" "P (contents b)" "sb_len b + (n + m) < sb_size b"
  then obtain b1 where 1: "f b = Some (GF_OK, b1)" "buf_ok b1" "sb_size b1 = sb_size b" "contents b1 = g (contents b)"
    "sb_len b1 \<le> sb_len b + n" using assms(1) unfolding prints_def by (metis add_lessD1 add.assoc)
  then obtain b2 where "f' b1 = Some (GF_OK, b2)" "buf_ok b2" "sb_size b2 = sb_size b1" "contents b2 = g' (contents b1)"
    "sb_len b2 \<le> sb_len b1 + m" using assms(2,3) b unfolding prints_def by (metis (full_types) add.assoc add_le_mono1 le_less_trans)
  with 1 show "\<exists>b'. and_then f f' b = Some (GF_OK, b') \<and> buf_ok b' \<and> sb_size b' = sb_size b \<and> contents b' = g' (g (contents b))
      \<and> sb_len b' \<le> sb_len b + (n + m)" by (intro exI [of _ b2]) (simp add: and_then_def)
qed

lemma prints_mono: "prints P n f g \<Longrightarrow> n \<le> m \<Longrightarrow> (\<And>c. Q c \<Longrightarrow> P c) \<Longrightarrow> (\<And>c. Q c \<Longrightarrow> g c = h c) \<Longrightarrow> prints Q m f h"
  unfolding prints_def by (metis add_le_mono1 le_less_trans add.commute order_trans)

lemma prints_all:
  assumes "\<And>x. x \<in> set xs \<Longrightarrow> prints (\<lambda>_. True) (n x) (f x) (\<lambda>c. c @ t x)"
  shows "prints (\<lambda>_. True) (sum_list (map n xs)) (all_of f xs) (\<lambda>c. c @ concat (map t xs))"
  using assms
proof (induction xs)
  case Nil
  then show ?case by (simp add: prints_def all_of_def)
next
  case (Cons x xs)
  have "prints (\<lambda>_. True) (n x + sum_list (map n xs)) (and_then (f x) (all_of f xs)) (\<lambda>c. (c @ t x) @ concat (map t xs))"
    using Cons by (intro prints_seq) auto
  then show ?case by (simp add: all_of_def)
qed


subsection \<open>JSON\<close>

datatype json = JStr "u8 list" | JNum int | JObj "(u8 list \<times> json) list"

text \<open>The text of a member, with the separator the report puts behind it.\<close>

definition key_text :: "u8 list \<Rightarrow> json \<Rightarrow> u8 list" where
  "key_text k v = [34] @ k @ [34, 58] @ (case v of JObj _ \<Rightarrow> [32] | _ \<Rightarrow> [])"

definition separator :: "json \<Rightarrow> u8 list" where
  "separator v = (case v of JObj _ \<Rightarrow> [44] | _ \<Rightarrow> [44, 32])"

fun join :: "(u8 list \<times> u8 list) list \<Rightarrow> u8 list" where
  "join [] = []"
| "join [(t, s)] = t"
| "join ((t, s) # xs) = t @ s @ join xs"

fun json_text :: "json \<Rightarrow> u8 list" where
  "json_text (JStr s) = [34] @ s @ [34]"
| "json_text (JNum n) = decimal_int n"
| "json_text (JObj ms) = [123] @ join (map (\<lambda>(k, v). (key_text k v @ json_text v, separator v)) ms) @ [125]"

definition member_text :: "u8 list \<times> json \<Rightarrow> u8 list" where
  "member_text m = key_text (fst m) (snd m) @ json_text (snd m) @ separator (snd m)"

lemma join_snoc: "join (xs @ [(t, s)]) = concat (map (\<lambda>(t, s). t @ s) xs) @ t"
proof (induction xs)
  case (Cons x xs)
  then show ?case by (cases x; cases xs) auto
qed simp

lemma object_text: "json_text (JObj (ms @ [(k, v)])) = [123] @ concat (map member_text ms) @ key_text k v @ json_text v @ [125]"
proof -
  have "concat (map (\<lambda>(t, s). t @ s) (map (\<lambda>(k, v). (key_text k v @ json_text v, separator v)) ms)) = concat (map member_text ms)"
    by (induction ms) (auto simp: member_text_def)
  then show ?thesis by (simp add: join_snoc)
qed

definition metric_json :: "stats_metric \<Rightarrow> u8 list \<times> json" where
  "metric_json sm = (cstr (sm_name sm), JNum (sm_value sm))"

definition server_json :: "stats_server \<Rightarrow> u8 list \<times> json" where
  "server_json sts = (cstr (ss_name sts), JObj (map metric_json (ss_metric sts)))"

definition pool_json :: "stats_pool \<Rightarrow> u8 list \<times> json" where
  "pool_json stp = (cstr (sp_name stp), JObj (map metric_json (sp_metric stp) @ map server_json (sp_server stp)))"

definition header_json :: "stats_ctx \<Rightarrow> int \<Rightarrow> u64 \<Rightarrow> u32 \<Rightarrow> (u8 list \<times> json) list" where
  "header_json st cur_ts ntotal ncurr =
     [(cstr (sx_service_str st), JStr (cstr (sx_service st))), (cstr (sx_source_str st), JStr (cstr (sx_source st))),
      (cstr (sx_version_str st), JStr (cstr (sx_version st))), (cstr (sx_uptime_str st), JNum (cur_ts - sx_start_ts st)),
      (cstr (sx_timestamp_str st), JNum cur_ts), (cstr (sx_ntotal_conn_str st), JNum (sint ntotal)),
      (cstr (sx_ncurr_conn_str st), JNum (uint ncurr))]"

definition report_json :: "stats_ctx \<Rightarrow> int \<Rightarrow> u64 \<Rightarrow> u32 \<Rightarrow> json" where
  "report_json st cur_ts ntotal ncurr = JObj (header_json st cur_ts ntotal ncurr @ map pool_json (sx_sum st))"

subsection \<open>The parts of the report\<close>

definition int64 :: "int \<Rightarrow> bool" where
  "int64 n \<longleftrightarrow> - (2 ^ 63) \<le> n \<and> n < 2 ^ 63"

lemma int64_small: "0 \<le> n \<Longrightarrow> n < 2 ^ 32 \<Longrightarrow> int64 n"
  by (simp add: int64_def)

lemma prints_string:
  "prints (\<lambda>_. True) (length key + length val + key_value_extra) (stats_add_string key val) (\<lambda>c. c @ member_text (cstr key, JStr (cstr val)))"
  using prints_text [of "[34] @ cstr key @ [34, 58, 34] @ cstr val @ [34, 44, 32]"] length_cstr [of key] length_cstr [of val]
  by (simp add: stats_add_string_def [abs_def] member_text_def key_text_def separator_def prints_def)

lemma prints_num:
  "int64 val \<Longrightarrow> prints (\<lambda>_. True) (length key + int64_max_digits + key_value_extra) (stats_add_num key val)
     (\<lambda>c. c @ member_text (cstr key, JNum val))"
  using prints_text [of "[34] @ cstr key @ [34, 58] @ decimal_int val @ [44, 32]"] length_cstr [of key] decimal_int_length [of val]
  by (simp add: stats_add_num_def [abs_def] member_text_def key_text_def separator_def prints_def int64_def)

lemma prints_begin:
  "length key + 6 \<le> n \<Longrightarrow> prints (\<lambda>_. True) n (stats_begin_nesting key) (\<lambda>c. c @ key_text (cstr key) (JObj ms) @ [123])"
  using prints_text [of "[34] @ cstr key @ [34, 58, 32, 123]" n] length_cstr [of key]
  by (simp add: stats_begin_nesting_def [abs_def] key_text_def prints_def)

lemma contents_last:
  assumes "buf_ok b" "contents b = c @ [x, y]" "sb_data b = Some d"
  shows "sb_len b = length c + 2" "take (length c) d = c" "d ! length c = x" "d ! Suc (length c) = y" "length c + 2 \<le> length d"
proof -
  show l: "sb_len b = length c + 2" using contents_length [OF assms(1)] assms(2) by simp
  then have t: "take (length c + 2) d = c @ [x, y]" and le: "length c + 2 \<le> length d"
    using assms by (auto simp: contents_def buf_ok_def)
  show "length c + 2 \<le> length d" by (rule le)
  have "take (length c) (take (length c + 2) d) = c" by (simp only: t) simp
  then show "take (length c) d = c" by (simp add: min_def)
  have "take (length c + 2) d ! length c = x" "take (length c + 2) d ! Suc (length c) = y" by (simp_all only: t) (simp_all add: nth_append)
  then show "d ! length c = x" "d ! Suc (length c) = y" by simp_all
qed

text \<open>The end of an object drops the separator of the last member.\<close>

lemma prints_end:
  assumes "s = [44, 32] \<and> n = 0 \<or> s = [44] \<and> n = 1 \<and> (\<exists>c'. c = c' @ [125])"
  shows "prints (\<lambda>c'. c' = c @ s) n (stats_end_nesting panic) (\<lambda>_. c @ [125, 44])"
  unfolding prints_def
proof (intro allI impI)
  fix b assume b: "buf_ok b" "contents b = c @ s" "sb_len b + n < sb_size b"
  then obtain d where d: "sb_data b = Some d" "length d = sb_size b" by (auto simp: buf_ok_def split: option.splits)
  show "\<exists>b'. stats_end_nesting panic b = Some (GF_OK, b') \<and> buf_ok b' \<and> sb_size b' = sb_size b \<and> contents b' = c @ [125, 44]
      \<and> sb_len b' \<le> sb_len b + n"
    using assms
  proof (elim disjE conjE exE)
    assume s: "s = [44, 32]" "n = 0"
    note l = contents_last [OF b(1) b(2) [unfolded s] d(1)]
    then show ?thesis using b d s
      by (auto simp: stats_end_nesting_def store_at_def Let_def buf_ok_def contents_def)
  next
    fix c' assume s: "s = [44]" "n = 1" "c = c' @ [125]"
    have "contents b = c' @ [125, 44]" using b(2) s by simp
    note l = contents_last [OF b(1) this d(1)]
    have "take (Suc (length c')) d = c' @ [125]" using l(2,3,5) by (simp add: take_Suc_conv_app_nth)
    then show ?thesis using b d s l
      by (auto simp: stats_end_nesting_def store_at_def Let_def buf_ok_def contents_def)
  qed
qed

definition metrics_ok :: "stats_metric list \<Rightarrow> bool" where
  "metrics_ok ms \<longleftrightarrow> ms \<noteq> [] \<and> (\<forall>sm\<in>set ms. int64 (sm_value sm))"

definition pool_ok :: "stats_pool \<Rightarrow> bool" where
  "pool_ok stp \<longleftrightarrow> metrics_ok (sp_metric stp) \<and> sp_server stp \<noteq> []
     \<and> (\<forall>sts\<in>set (sp_server stp). metrics_ok (ss_metric sts))"

lemma prints_metrics:
  assumes "metrics_ok ms"
  shows "prints (\<lambda>_. True) (sum_list (map metric_size ms)) (stats_copy_metric ms) (\<lambda>c. c @ concat (map (member_text \<circ> metric_json) ms))"
  unfolding stats_copy_metric_def
  by (rule prints_all) (use assms prints_num in \<open>auto simp: metrics_ok_def metric_size_def metric_json_def\<close>)

text \<open>The members of an object, the last one a number, up to its end.\<close>

lemma members_scalar:
  assumes "metrics_ok ms"
  shows "\<exists>t. concat (map (member_text \<circ> metric_json) ms) = t @ [44, 32] \<and> json_text (JObj (map metric_json ms)) = [123] @ t @ [125]"
proof -
  obtain ms' sm where ms: "ms = ms' @ [sm]" using assms by (auto simp: metrics_ok_def intro: rev_cases)
  let ?m = "metric_json sm"
  have "json_text (JObj (map metric_json ms)) = [123] @ (concat (map member_text (map metric_json ms')) @ key_text (fst ?m) (snd ?m) @ json_text (snd ?m)) @ [125]"
    using object_text [of "map metric_json ms'" "fst ?m" "snd ?m"] by (simp add: ms)
  moreover have "concat (map (member_text \<circ> metric_json) ms) = (concat (map member_text (map metric_json ms')) @ key_text (fst ?m) (snd ?m) @ json_text (snd ?m)) @ [44, 32]"
    by (simp add: ms member_text_def metric_json_def separator_def)
  ultimately show ?thesis by blast
qed

lemma prints_server:
  assumes "metrics_ok (ss_metric sts)"
  shows "prints (\<lambda>_. True) (server_size sts) (print_server panic sts) (\<lambda>c. c @ member_text (server_json sts))"
proof -
  obtain t where t: "concat (map (member_text \<circ> metric_json) (ss_metric sts)) = t @ [44, 32]"
    "json_text (JObj (map metric_json (ss_metric sts))) = [123] @ t @ [125]" using members_scalar [OF assms] by (elim exE conjE)
  let ?k = "key_text (cstr (ss_name sts)) (JObj (map metric_json (ss_metric sts)))"
  have "prints (\<lambda>c'. c' = c) (server_size sts) (print_server panic sts) (\<lambda>_. c @ member_text (server_json sts))" for c
  proof -
    have "prints (\<lambda>c'. c' = c) (length (ss_name sts) + server_extra + (sum_list (map metric_size (ss_metric sts)) + 0)) (print_server panic sts)
      (\<lambda>_. (c @ ?k @ [123] @ t) @ [125, 44])"
      unfolding print_server_def
    proof (rule prints_seq [where Q = "\<lambda>c'. c' = c @ ?k @ [123]" and g = "\<lambda>_. c @ ?k @ [123]"])
      show "prints (\<lambda>c'. c' = c) (length (ss_name sts) + server_extra) (stats_begin_nesting (ss_name sts)) (\<lambda>_. c @ ?k @ [123])"
        by (rule prints_mono [OF prints_begin [of _ "length (ss_name sts) + server_extra"]]) simp_all
      show "prints (\<lambda>c'. c' = c @ ?k @ [123]) (sum_list (map metric_size (ss_metric sts)) + 0) (and_then (stats_copy_metric (ss_metric sts)) (stats_end_nesting panic))
         (\<lambda>_. (c @ ?k @ [123] @ t) @ [125, 44])"
      proof (rule prints_seq [where Q = "\<lambda>c'. c' = (c @ ?k @ [123] @ t) @ [44, 32]" and g = "\<lambda>_. (c @ ?k @ [123] @ t) @ [44, 32]"])
        show "prints (\<lambda>c'. c' = c @ ?k @ [123]) (sum_list (map metric_size (ss_metric sts))) (stats_copy_metric (ss_metric sts))
          (\<lambda>_. (c @ ?k @ [123] @ t) @ [44, 32])"
          by (rule prints_mono [OF prints_metrics [OF assms] order_refl]) (simp_all add: t(1))
        show "prints (\<lambda>c'. c' = (c @ ?k @ [123] @ t) @ [44, 32]) 0 (stats_end_nesting panic) (\<lambda>_. (c @ ?k @ [123] @ t) @ [125, 44])"
          by (rule prints_end) simp
      qed simp
    qed simp
    moreover have "member_text (server_json sts) = ?k @ [123] @ t @ [125, 44]"
      by (simp add: server_json_def member_text_def t(2) separator_def del: json_text.simps)
    ultimately show ?thesis by (simp add: server_size_def)
  qed
  then show ?thesis unfolding prints_def by blast
qed

text \<open>The members of an object, the last one an object.\<close>

lemma object_last:
  assumes "ms \<noteq> []" "\<And>m. m \<in> set ms \<Longrightarrow> \<exists>k ms'. m = (k, JObj ms')"
  shows "\<exists>t. concat (map member_text (as @ ms)) = t @ [125, 44] \<and> json_text (JObj (as @ ms)) = [123] @ t @ [125, 125]"
proof -
  obtain ms1 m where ms: "ms = ms1 @ [m]" using assms(1) by (auto intro: rev_cases)
  then obtain k ms' where m: "m = (k, JObj ms')" using assms(2) [of m] by auto
  let ?t = "concat (map member_text (as @ ms1)) @ key_text k (JObj ms') @ [123] @ join (map (\<lambda>(k, v). (key_text k v @ json_text v, separator v)) ms')"
  have "concat (map member_text (as @ ms)) = ?t @ [125, 44]" by (simp add: ms m member_text_def separator_def)
  moreover have "json_text (JObj (as @ ms)) = [123] @ ?t @ [125, 125]"
    using object_text [of "as @ ms1" k "JObj ms'"] by (simp add: ms m)
  ultimately show ?thesis by blast
qed

lemma prints_pool:
  assumes "pool_ok stp"
  shows "prints (\<lambda>_. True) (pool_size stp) (print_pool panic stp) (\<lambda>c. c @ member_text (pool_json stp))"
proof -
  let ?ms = "map metric_json (sp_metric stp)" and ?ss = "map server_json (sp_server stp)"
  have "m \<in> set ?ss \<Longrightarrow> \<exists>k ms'. m = (k, JObj ms')" for m by (auto simp: server_json_def)
  then obtain t where t: "concat (map member_text (?ms @ ?ss)) = t @ [125, 44]" "json_text (JObj (?ms @ ?ss)) = [123] @ t @ [125, 125]"
    using object_last [of ?ss ?ms] assms by (auto simp: pool_ok_def)
  let ?k = "key_text (cstr (sp_name stp)) (JObj (?ms @ ?ss))"
  have "prints (\<lambda>c'. c' = c) (pool_size stp) (print_pool panic stp) (\<lambda>_. c @ member_text (pool_json stp))" for c
  proof -
    let ?c = "c @ ?k @ [123]" and ?n = "length (sp_name stp) + (pool_extra - 1)"
    let ?m = "sum_list (map metric_size (sp_metric stp))" and ?s = "sum_list (map server_size (sp_server stp))"
    have servers: "prints (\<lambda>_. True) ?s (all_of (print_server panic) (sp_server stp)) (\<lambda>c. c @ concat (map (member_text \<circ> server_json) (sp_server stp)))"
      by (rule prints_all) (use assms prints_server in \<open>auto simp: pool_ok_def\<close>)
    have metrics: "prints (\<lambda>_. True) ?m (stats_copy_metric (sp_metric stp)) (\<lambda>c. c @ concat (map (member_text \<circ> metric_json) (sp_metric stp)))"
      by (rule prints_metrics) (use assms in \<open>simp add: pool_ok_def\<close>)
    have last: "prints (\<lambda>c'. c' = (?c @ t @ [125]) @ [44]) 1 (stats_end_nesting panic) (\<lambda>_. (?c @ t @ [125]) @ [125, 44])"
      by (rule prints_end) simp
    have body: "?c @ concat (map (member_text \<circ> metric_json) (sp_metric stp)) @ concat (map (member_text \<circ> server_json) (sp_server stp))
      = (?c @ t @ [125]) @ [44]" using t(1) by simp
    have "prints (\<lambda>c'. c' = c) (?n + (?m + (?s + 1))) (print_pool panic stp) (\<lambda>_. (?c @ t @ [125]) @ [125, 44])"
      unfolding print_pool_def
    proof (rule prints_seq [where Q = "\<lambda>c'. c' = ?c" and g = "\<lambda>_. ?c"
        and g' = "\<lambda>_. (?c @ t @ [125]) @ [125, 44]"])
      show "prints (\<lambda>c'. c' = c) ?n (stats_begin_nesting (sp_name stp)) (\<lambda>_. ?c)"
        by (rule prints_mono [OF prints_begin [of _ ?n]]) simp_all
      let ?c' = "?c @ concat (map (member_text \<circ> metric_json) (sp_metric stp))"
      show "prints (\<lambda>c'. c' = ?c) (?m + (?s + 1)) (and_then (stats_copy_metric (sp_metric stp))
         (and_then (all_of (print_server panic) (sp_server stp)) (stats_end_nesting panic))) (\<lambda>_. (?c @ t @ [125]) @ [125, 44])"
      proof (rule prints_seq [where Q = "\<lambda>c'. c' = ?c'" and g = "\<lambda>_. ?c'"
          and g' = "\<lambda>_. (?c @ t @ [125]) @ [125, 44]"])
        show "prints (\<lambda>c'. c' = ?c) ?m (stats_copy_metric (sp_metric stp)) (\<lambda>_. ?c')"
          by (rule prints_mono [OF metrics order_refl]) simp_all
        show "prints (\<lambda>c'. c' = ?c') (?s + 1) (and_then (all_of (print_server panic) (sp_server stp)) (stats_end_nesting panic))
          (\<lambda>_. (?c @ t @ [125]) @ [125, 44])"
        proof (rule prints_seq [OF _ last, where g = "\<lambda>_. (?c @ t @ [125]) @ [44]"])
          show "prints (\<lambda>c'. c' = ?c') ?s (all_of (print_server panic) (sp_server stp)) (\<lambda>_. (?c @ t @ [125]) @ [44])"
            by (rule prints_mono [OF servers order_refl]) (simp_all add: body [simplified])
        qed simp
      qed simp
    qed simp
    moreover have "member_text (pool_json stp) = ?k @ [123] @ t @ [125, 125, 44]"
      by (simp add: pool_json_def member_text_def t(2) separator_def del: json_text.simps)
    ultimately show ?thesis by (simp add: pool_size_def ac_simps)
  qed
  then show ?thesis unfolding prints_def by blast
qed

lemma prints_then:
  assumes "prints (\<lambda>_. True) n f (\<lambda>c. c @ t)" "prints (\<lambda>_. True) m f' (\<lambda>c. c @ t')"
  shows "prints (\<lambda>_. True) (n + m) (and_then f f') (\<lambda>c. c @ t @ t')"
  using prints_seq [OF assms] by simp

definition header_ok :: "stats_ctx \<Rightarrow> int \<Rightarrow> bool" where
  "header_ok st cur_ts \<longleftrightarrow> int64 cur_ts \<and> int64 (cur_ts - sx_start_ts st)"

lemma prints_header:
  assumes "header_ok st cur_ts"
  shows "prints (\<lambda>_. True) (header_size st - 1)
    (and_then (stats_add_string (sx_service_str st) (sx_service st))
      (and_then (stats_add_string (sx_source_str st) (sx_source st))
      (and_then (stats_add_string (sx_version_str st) (sx_version st))
      (and_then (stats_add_num (sx_uptime_str st) (cur_ts - sx_start_ts st))
      (and_then (stats_add_num (sx_timestamp_str st) cur_ts)
      (and_then (stats_add_num (sx_ntotal_conn_str st) (sint ntotal))
        (stats_add_num (sx_ncurr_conn_str st) (uint ncurr))))))))
    (\<lambda>c. c @ concat (map member_text (header_json st cur_ts ntotal ncurr)))"
proof -
  have "0 \<le> uint ncurr" "uint ncurr < 2 ^ 32" using uint_range_size [of ncurr] by (simp_all add: word_size)
  then have nc: "int64 (uint ncurr)" by (rule int64_small)
  have n: "int64 (cur_ts - sx_start_ts st)" "int64 cur_ts" "int64 (sint ntotal)"
    using assms sint_range_size [of ntotal] by (simp_all add: header_ok_def int64_def word_size)
  show ?thesis
    by (rule prints_mono [OF prints_then [OF prints_string prints_then [OF prints_string prints_then [OF prints_string
      prints_then [OF prints_num [OF n(1)] prints_then [OF prints_num [OF n(2)] prints_then [OF prints_num [OF n(3)] prints_num [OF nc]]]]]]]])
      (simp_all add: header_size_def header_json_def)
qed

lemma prints_footer:
  "c \<noteq> [] \<Longrightarrow> prints (\<lambda>c'. c' = c @ [44]) 1 stats_add_footer (\<lambda>_. c @ [125, 10])"
  unfolding prints_def
proof (intro allI impI)
  fix b assume c: "c \<noteq> []" and b: "buf_ok b" "contents b = c @ [44]" "sb_len b + 1 < sb_size b"
  then obtain d where d: "sb_data b = Some d" "length d = sb_size b" by (auto simp: buf_ok_def split: option.splits)
  have l: "sb_len b = Suc (length c)" using contents_length [OF b(1)] b(2) by simp
  then have "take (Suc (length c)) d = c @ [44]" using b(2) d by (simp add: contents_def)
  then have "take (length c) d = c" by (metis append_eq_conv_conj le_add2 min.absorb1 plus_1_eq_Suc take_take)
  then show "\<exists>b'. stats_add_footer b = Some (GF_OK, b') \<and> buf_ok b' \<and> sb_size b' = sb_size b \<and> contents b' = c @ [125, 10]
      \<and> sb_len b' \<le> sb_len b + 1"
    using b d l by (auto simp: stats_add_footer_def store_at_def buf_ok_def contents_def)
qed

subsection \<open>The report fits its buffer\<close>

definition report_ok :: "stats_ctx \<Rightarrow> bool" where
  "report_ok st \<longleftrightarrow> sx_sum st \<noteq> [] \<and> (\<forall>stp\<in>set (sx_sum st). pool_ok stp)
     \<and> (case sb_data (sx_buf st) of None \<Rightarrow> False | Some d \<Rightarrow> length d = sb_size (sx_buf st))
     \<and> header_size st + sum_list (map pool_size (sx_sum st)) + 2 \<le> sb_size (sx_buf st) \<and> sb_size (sx_buf st) < 2 ^ 31"

lemma report_text:
  assumes "sx_sum st \<noteq> []"
  shows "\<exists>t. [123] @ concat (map member_text (header_json st cur_ts nt nc @ map pool_json (sx_sum st))) = t @ [44] \<and> t \<noteq> []
    \<and> json_text (report_json st cur_ts nt nc) = t @ [125]"
proof -
  have "m \<in> set (map pool_json (sx_sum st)) \<Longrightarrow> \<exists>k ms'. m = (k, JObj ms')" for m by (auto simp: pool_json_def)
  from object_last [of "map pool_json (sx_sum st)", OF _ this] assms
  obtain t where "concat (map member_text (header_json st cur_ts nt nc @ map pool_json (sx_sum st))) = t @ [125, 44]"
    "json_text (report_json st cur_ts nt nc) = [123] @ t @ [125, 125]" unfolding report_json_def by (metis map_is_Nil_conv)
  then show ?thesis by (intro exI [of _ "[123] @ t @ [125]"]) simp
qed

lemma make_rsp_text:
  assumes "report_ok st" "header_ok st (r_ret (w_os w (w_tick w)))"
  shows "\<exists>st' w'. stats_make_rsp st w = Some (GF_OK, st', w') \<and> buf_ok (sx_buf st')
    \<and> contents (sx_buf st') = json_text (report_json st (r_ret (w_os w (w_tick w))) (w_ntotal_conn w) (w_ncurr_conn w)) @ [10]"
proof -
  let ?ts = "r_ret (w_os w (w_tick w))" and ?nt = "w_ntotal_conn w" and ?nc = "w_ncurr_conn w"
  let ?pools = "sx_sum st" and ?b = "sx_buf st"
  let ?hdr = "concat (map member_text (header_json st ?ts ?nt ?nc))"
  obtain t where t: "[123] @ concat (map member_text (header_json st ?ts ?nt ?nc @ map pool_json ?pools)) = t @ [44]" "t \<noteq> []"
    "json_text (report_json st ?ts ?nt ?nc) = t @ [125]" using report_text assms(1) unfolding report_ok_def by metis
  obtain d where d: "sb_data ?b = Some d" "length d = sb_size ?b"
    "header_size st + sum_list (map pool_size ?pools) + 2 \<le> sb_size ?b" "sb_size ?b < 2 ^ 31"
    using assms(1) by (auto simp: report_ok_def split: option.splits)
  have pos: "0 < header_size st" by (simp add: header_size_def)
  define b1 where "b1 = ?b\<lparr>sb_data := Some ([123] @ drop 1 d), sb_len := 1\<rparr>"
  have b1: "buf_ok b1" "contents b1 = [123]" "sb_size b1 = sb_size ?b" "sb_len b1 = 1" using d pos by (auto simp: b1_def buf_ok_def contents_def)
  have pools: "prints (\<lambda>_. True) (sum_list (map pool_size ?pools)) (all_of (print_pool p) ?pools)
      (\<lambda>c. c @ concat (map (member_text \<circ> pool_json) ?pools))" for p
    by (rule prints_all) (use assms(1) prints_pool in \<open>auto simp: report_ok_def\<close>)
  have body: "prints (\<lambda>c. c = [123] @ ?hdr) (sum_list (map pool_size ?pools) + 1) (and_then (all_of (print_pool p) ?pools) stats_add_footer)
      (\<lambda>_. t @ [125, 10])" for p
    by (rule prints_seq [OF _ prints_footer [OF t(2)], where g = "\<lambda>_. t @ [44]"], rule prints_mono [OF pools order_refl])
      (use t(1) in simp_all)
  let ?head = "and_then (stats_add_string (sx_service_str st) (sx_service st))
      (and_then (stats_add_string (sx_source_str st) (sx_source st))
      (and_then (stats_add_string (sx_version_str st) (sx_version st))
      (and_then (stats_add_num (sx_uptime_str st) (?ts - sx_start_ts st))
      (and_then (stats_add_num (sx_timestamp_str st) ?ts)
      (and_then (stats_add_num (sx_ntotal_conn_str st) (sint ?nt))
        (stats_add_num (sx_ncurr_conn_str st) (uint ?nc)))))))"
  have all: "prints (\<lambda>c. c = [123]) (header_size st - 1 + (sum_list (map pool_size ?pools) + 1)) (and_then ?head (and_then (all_of (print_pool p) ?pools) stats_add_footer))
      (\<lambda>_. t @ [125, 10])" for p
    by (rule prints_seq [OF _ body, where g = "\<lambda>_. [123] @ ?hdr"], rule prints_mono [OF prints_header [OF assms(2)] order_refl]) simp_all
  have "sb_len b1 + (header_size st - 1 + (sum_list (map pool_size ?pools) + 1)) < sb_size b1" using d(3) pos b1 by simp
  with all [of "w_panic w"] b1 obtain b' where b': "and_then ?head (and_then (all_of (print_pool (w_panic w)) ?pools) stats_add_footer) b1 = Some (GF_OK, b')"
    "buf_ok b'" "contents b' = t @ [125, 10]" unfolding prints_def by metis
  have "1 \<le> length d" using d pos by simp
  then have "stats_add_header st ?ts ?nt ?nc ?b = ?head b1" using d(1) by (simp add: stats_add_header_def store_at_def b1_def Let_def)
  then have "and_then (stats_add_header st ?ts ?nt ?nc) (and_then (all_of (print_pool (w_panic w)) ?pools) stats_add_footer) ?b = Some (GF_OK, b')"
    using b'(1) by (simp add: and_then_def)
  then show ?thesis using b' t(3) by (simp add: stats_make_rsp_def split_def Let_def)
qed

subsection \<open>Reading the report back\<close>

text \<open>
  A reader of JSON objects, strings and integers.  In a string a backslash begins an escape, a control character is
  an error, and so, for the texts considered here, are \<open>\u\<close> escapes and bytes outside ASCII; a number has no leading
  zero.  The fuel bounds the nesting and the number of members.
\<close>

definition plain :: "u8 \<Rightarrow> bool" where
  "plain b \<longleftrightarrow> 32 \<le> b \<and> b < 128 \<and> b \<noteq> 34 \<and> b \<noteq> 92"

definition escape :: "u8 \<Rightarrow> u8 option" where
  "escape b = map_of [(34, 34), (92, 92), (47, 47), (98, 8), (102, 12), (110, 10), (114, 13), (116, 9)] b"

definition digit :: "u8 \<Rightarrow> bool" where
  "digit b \<longleftrightarrow> 48 \<le> b \<and> b \<le> 57"

definition value_of :: "u8 list \<Rightarrow> nat" where
  "value_of ds = foldl (\<lambda>v d. v * 10 + (unat d - 48)) 0 ds"

definition read_number :: "u8 list \<Rightarrow> (int \<times> u8 list) option" where
  "read_number bs =
     (let neg = (bs \<noteq> [] \<and> hd bs = 45); ds = (if neg then tl bs else bs); n = takeWhile digit ds
      in if n = [] \<or> hd n = 48 \<and> tl n \<noteq> [] then None else Some (if neg then - int (value_of n) else int (value_of n), dropWhile digit ds))"

fun read_string :: "u8 list \<Rightarrow> (u8 list \<times> u8 list) option" where
  "read_string [] = None"
| "read_string (b # r) =
     (if b = 34 then Some ([], r)
      else if b = 92 then (case r of [] \<Rightarrow> None | e # r \<Rightarrow> do { c \<leftarrow> escape e; (s, r) \<leftarrow> read_string r; Some (c # s, r) })
      else if plain b then do { (s, r) \<leftarrow> read_string r; Some (b # s, r) }
      else None)"

definition expect :: "u8 \<Rightarrow> u8 list \<Rightarrow> u8 list option" where
  "expect c bs = (case bs of [] \<Rightarrow> None | b # r \<Rightarrow> if b = c then Some r else None)"

definition skip_space :: "u8 list \<Rightarrow> u8 list" where
  "skip_space = dropWhile (\<lambda>b. b = 32)"

fun read_json :: "nat \<Rightarrow> u8 list \<Rightarrow> (json \<times> u8 list) option"
  and read_members :: "nat \<Rightarrow> u8 list \<Rightarrow> ((u8 list \<times> json) list \<times> u8 list) option" where
  "read_json 0 bs = None"
| "read_json (Suc k) bs =
     (case bs of [] \<Rightarrow> None | b # r \<Rightarrow>
        if b = 34 then do { (s, r) \<leftarrow> read_string r; Some (JStr s, r) }
        else if b = 123 then do { (ms, r) \<leftarrow> read_members k r; Some (JObj ms, r) }
        else do { (n, r) \<leftarrow> read_number bs; Some (JNum n, r) })"
| "read_members 0 bs = None"
| "read_members (Suc k) bs = do {
     r \<leftarrow> expect 34 bs;
     (key, r) \<leftarrow> read_string r;
     r \<leftarrow> expect 58 r;
     (v, r) \<leftarrow> read_json k (skip_space r);
     case r of [] \<Rightarrow> None | b # r \<Rightarrow>
       if b = 44 then do { (ms, r) \<leftarrow> read_members k (skip_space r); Some ((key, v) # ms, r) }
       else if b = 125 then Some ([(key, v)], r) else None }"

definition parse_json :: "u8 list \<Rightarrow> (json \<times> u8 list) option" where
  "parse_json bs = read_json (length bs) bs"

text \<open>Every name and string in the value is plain: printable ASCII without quotes and backslashes.\<close>

fun json_ok :: "json \<Rightarrow> bool" where
  "json_ok (JStr s) \<longleftrightarrow> list_all plain s"
| "json_ok (JNum n) \<longleftrightarrow> True"
| "json_ok (JObj ms) \<longleftrightarrow> ms \<noteq> [] \<and> (\<forall>(k, v)\<in>set ms. list_all plain k \<and> json_ok v)"

fun json_fuel :: "json \<Rightarrow> nat" where
  "json_fuel (JStr s) = 1"
| "json_fuel (JNum n) = 1"
| "json_fuel (JObj ms) = 1 + sum_list (map (\<lambda>(k, v). 1 + json_fuel v) ms)"

lemma decimal_digits: "decimal n \<noteq> [] \<and> list_all digit (decimal n) \<and> value_of (decimal n) = n"
proof (induction n rule: decimal.induct)
  case (1 n)
  have d: "unat (48 + word_of_nat k :: u8) = 48 + k" if "k < 10" for k
    using that by (simp add: unat_word_ariths unsigned_of_nat take_bit_nat_eq_self)
  have dig: "digit (48 + word_of_nat k)" if "k < 10" for k
    using d [OF that] that by (simp add: digit_def word_le_nat_alt)
  show ?case
  proof (cases "n < 10")
    case True
    then show ?thesis using d [OF True] dig [OF True] by (simp add: decimal.simps value_of_def)
  next
    case False
    have m: "n mod 10 < 10" by simp
    show ?thesis using 1 [OF False] False d [OF m] dig [OF m] by (subst (1 2 3) decimal.simps) (simp add: value_of_def)
  qed
qed

lemma decimal_head: "hd (decimal n) = 48 \<Longrightarrow> tl (decimal n) = []"
proof (induction n rule: decimal.induct)
  case (1 n)
  show ?case
  proof (cases "n < 10")
    case False
    have ne: "decimal (n div 10) \<noteq> []" using decimal_digits by blast
    have e: "decimal n = decimal (n div 10) @ [48 + word_of_nat (n mod 10)]" using False by (subst decimal.simps) simp
    then have "hd (decimal (n div 10)) = 48" using 1(2) ne by simp
    then have "tl (decimal (n div 10)) = []" using 1(1) False by blast
    then have "decimal (n div 10) = [48]" using ne \<open>hd (decimal (n div 10)) = 48\<close> by (cases "decimal (n div 10)") auto
    then have "n div 10 = 0" using decimal_digits [of "n div 10"] by (simp add: value_of_def)
    with False show ?thesis by simp
  qed (simp add: decimal.simps)
qed

definition no_digit :: "u8 list \<Rightarrow> bool" where
  "no_digit r \<longleftrightarrow> r = [] \<or> \<not> digit (hd r)"

lemma takeWhile_digits: "list_all digit ds \<Longrightarrow> no_digit r \<Longrightarrow> takeWhile digit (ds @ r) = ds \<and> dropWhile digit (ds @ r) = r"
  by (induction ds) (auto simp: no_digit_def takeWhile_eq_Nil_iff dropWhile_eq_self_iff)

lemma read_number_decimal: "no_digit r \<Longrightarrow> read_number (decimal_int n @ r) = Some (n, r)"
proof -
  assume r: "no_digit r"
  have d: "decimal k \<noteq> []" "takeWhile digit (decimal k @ r) = decimal k" "dropWhile digit (decimal k @ r) = r" "value_of (decimal k) = k" for k
    using decimal_digits [of k] takeWhile_digits [of "decimal k" r] r by auto
  have "hd (decimal k) \<noteq> 45" for k
    using decimal_digits [of k] by (cases "decimal k") (auto simp: digit_def)
  then show ?thesis using d decimal_head by (auto simp: read_number_def decimal_int_def Let_def)
qed

lemma read_string_text: "list_all plain s \<Longrightarrow> read_string (s @ 34 # r) = Some (s, r)"
  by (induction s) (auto simp: plain_def)

lemma decimal_int_head: "decimal_int n \<noteq> [] \<and> hd (decimal_int n) \<noteq> 34 \<and> hd (decimal_int n) \<noteq> 123 \<and> hd (decimal_int n) \<noteq> 32"
  using decimal_digits [of "nat n"] by (cases "decimal (nat n)") (auto simp: decimal_int_def digit_def)

lemma json_text_head: "json_text v \<noteq> [] \<and> hd (json_text v) \<noteq> 32"
  using decimal_int_head by (cases v) auto

lemma skip_space_text: "skip_space ((case v of JObj _ \<Rightarrow> [32] | _ \<Rightarrow> []) @ json_text v @ r) = json_text v @ r"
  using json_text_head [of v] by (cases "json_text v"; cases v) (auto simp: skip_space_def)

lemma json_fuel_pos: "0 < json_fuel v"
  by (cases v) auto

text \<open>The members of an object, if each value is read back.\<close>

lemma read_members_text:
  assumes "ms \<noteq> []" "\<And>k v. (k, v) \<in> set ms \<Longrightarrow> list_all plain k"
    and "\<And>k v n r. (k, v) \<in> set ms \<Longrightarrow> json_fuel v \<le> n \<Longrightarrow> no_digit r \<Longrightarrow> read_json n (json_text v @ r) = Some (v, r)"
    and "sum_list (map (\<lambda>(k, v). 1 + json_fuel v) ms) \<le> n"
  shows "read_members n (join (map (\<lambda>(k, v). (key_text k v @ json_text v, separator v)) ms) @ 125 # r) = Some (ms, r)"
  using assms
proof (induction ms arbitrary: n)
  case (Cons m ms)
  obtain k v where m: "m = (k, v)" by (cases m)
  obtain n' where n: "n = Suc n'" using Cons.prems(4) by (cases n) (auto simp: m)
  have fuel: "json_fuel v \<le> n'" "sum_list (map (\<lambda>(k, v). 1 + json_fuel v) ms) \<le> n'"
    using Cons.prems(4) by (auto simp: m n)
  have key: "read_members n (key_text k v @ json_text v @ r') = (case r' of [] \<Rightarrow> None | b # r \<Rightarrow>
       if b = 44 then do { (ms, r) \<leftarrow> read_members n' (skip_space r); Some ((k, v) # ms, r) }
       else if b = 125 then Some ([(k, v)], r) else None)" if "no_digit r'" for r'
    using Cons.prems(2) [of k v] Cons.prems(3) [OF _ fuel(1) that, of k] read_string_text [of k] skip_space_text [of v r']
    by (simp add: n m key_text_def expect_def)
  show ?case
  proof (cases ms)
    case Nil
    have "no_digit (125 # r)" by (simp add: no_digit_def digit_def)
    from key [OF this] show ?thesis by (simp add: m Nil)
  next
    case (Cons m' ms')
    let ?rest = "join (map (\<lambda>(k, v). (key_text k v @ json_text v, separator v)) ms) @ 125 # r"
    have "no_digit (separator v @ ?rest)" by (cases v) (simp_all add: separator_def no_digit_def digit_def)
    note key = key [OF this]
    have "skip_space ?rest = ?rest" using Cons by (cases m'; cases ms') (auto simp: skip_space_def key_text_def)
    then obtain q where q: "separator v @ ?rest = 44 # q" "skip_space q = ?rest"
      by (cases v) (simp_all add: separator_def skip_space_def)
    have join: "join (map (\<lambda>(k, v). (key_text k v @ json_text v, separator v)) (m # ms)) @ 125 # r = key_text k v @ json_text v @ separator v @ ?rest"
      using Cons by (cases m') (simp add: m)
    moreover have "read_members n' ?rest = Some (ms, r)"
    proof (rule Cons.IH [OF _ _ _ fuel(2)])
      show "list_all plain k" if "(k, v) \<in> set ms" for k v using Cons.prems(2) [of k v] that by simp
      show "read_json n (json_text v @ r) = Some (v, r)" if "(k, v) \<in> set ms" "json_fuel v \<le> n" "no_digit r" for k v n r
        using Cons.prems(3) [of k v n r] that by simp
    qed (use Cons in simp)
    ultimately show ?thesis unfolding join key unfolding q(1) by (simp add: q(2) m)
  qed
qed simp

lemma read_json_text: "json_ok v \<Longrightarrow> json_fuel v \<le> n \<Longrightarrow> no_digit r \<Longrightarrow> read_json n (json_text v @ r) = Some (v, r)"
proof (induction v arbitrary: n r rule: json_ok.induct)
  case (1 s)
  then show ?case by (cases n) (auto simp: read_string_text)
next
  case (2 i)
  then obtain n' b ds where "n = Suc n'" "decimal_int i = b # ds" using decimal_int_head [of i] by (cases n; cases "decimal_int i") auto
  then show ?case using read_number_decimal [OF 2(3), of i] decimal_int_head [of i] by simp
next
  case (3 ms)
  then obtain n' where n: "n = Suc n'" by (cases n) auto
  have "read_members n' (join (map (\<lambda>(k, v). (key_text k v @ json_text v, separator v)) ms) @ 125 # r) = Some (ms, r)"
  proof (rule read_members_text)
    show "read_json n (json_text v @ r) = Some (v, r)" if "(k, v) \<in> set ms" "json_fuel v \<le> n" "no_digit r" for k v n r
      using 3 that by auto
  qed (use 3 n in auto)
  then show ?case by (simp add: n)
qed

lemma json_fuel_length: "json_fuel v \<le> length (json_text v)"
proof (induction v rule: json_fuel.induct)
  case (2 n)
  then show ?case using decimal_int_head [of n] by (cases "decimal_int n") auto
next
  case (3 ms)
  have "sum_list (map (\<lambda>(k, v). 1 + json_fuel v) ms) \<le> length (join (map (\<lambda>(k, v). (key_text k v @ json_text v, separator v)) ms))"
    using 3
  proof (induction ms)
    case (Cons m ms)
    obtain k v where m: "m = (k, v)" by (cases m)
    have "json_fuel v \<le> length (json_text v)" using Cons.prems by (auto simp: m)
    moreover have "sum_list (map (\<lambda>(k, v). 1 + json_fuel v) ms) \<le> length (join (map (\<lambda>(k, v). (key_text k v @ json_text v, separator v)) ms))"
      by (rule Cons.IH) (use Cons.prems in auto)
    ultimately show ?case by (cases ms) (auto simp: m key_text_def)
  qed simp
  then show ?case by simp
qed simp

lemma parse_json_text: "json_ok v \<Longrightarrow> no_digit r \<Longrightarrow> parse_json (json_text v @ r) = Some (v, r)"
  unfolding parse_json_def by (rule read_json_text) (use json_fuel_length [of v] in auto)

text \<open>
  The buffer \<open>stats_create_buf\<close> allocates, whatever earlier reports have left in it: its size is
  computed from the names alone.
\<close>

definition buffer_for :: "stats_ctx \<Rightarrow> bool" where
  "buffer_for st \<longleftrightarrow> sb_size (sx_buf st) = gf_align (header_size st + sum_list (map pool_size (sx_sum st)) + 2)
     \<and> (case sb_data (sx_buf st) of None \<Rightarrow> False | Some d \<Rightarrow> length d = sb_size (sx_buf st))"

lemma create_buf_for: "stats_create_buf st w = Some (GF_OK, st', w') \<Longrightarrow> buffer_for st'"
proof -
  have "header_size (st\<lparr>sx_buf := b\<rparr>) = header_size st" for b by (simp add: header_size_def)
  then show "stats_create_buf st w = Some (GF_OK, st', w') \<Longrightarrow> buffer_for st'"
    by (auto simp: stats_create_buf_def buffer_for_def gf_simps Let_def split: if_splits prod.splits)
qed

lemma gf_align_le: "n \<le> gf_align n"
  unfolding gf_align_def by presburger

lemma join_set: "set (join xs) \<subseteq> (\<Union>(t, s)\<in>set xs. set t \<union> set s)"
  by (induction xs rule: join.induct) auto

lemma json_text_line: "json_ok v \<Longrightarrow> 10 \<notin> set (json_text v)"
proof (induction v rule: json_ok.induct)
  case (1 s)
  then show ?case by (auto simp: list_all_iff plain_def)
next
  case (2 n)
  have "10 \<notin> set (decimal k)" for k using decimal_digits [of k] by (auto simp: list_all_iff digit_def)
  then show ?case by (auto simp: decimal_int_def)
next
  case (3 ms)
  have "10 \<notin> set (key_text k v @ json_text v) \<union> set (separator v)" if "(k, v) \<in> set ms" for k v
  proof -
    have "list_all plain k" "json_ok v" using 3(2) that by auto
    then have "10 \<notin> set k" "10 \<notin> set (json_text v)" using 3(1) [OF that refl] by (auto simp: list_all_iff plain_def)
    then show ?thesis by (auto simp: key_text_def separator_def split: json.splits)
  qed
  then show ?case using join_set [of "map (\<lambda>(k, v). (key_text k v @ json_text v, separator v)) ms"] by fastforce
qed

text \<open>
  C35: with the buffer allocated at creation, of a size below 2^31, the report of any pools with
  servers, whose sums and times are 64 bit integers, is built without an error and without a store outside the
  buffer.  What is sent is the text of the header, the pools and their servers with exactly their numbers, and a line
  feed.  When every name in it is printable ASCII without quotes and backslashes, it is one line
  of JSON that reads back as this value; nothing is escaped, so other names need not give JSON.
\<close>

theorem stats_report_reads_back:
  assumes "buffer_for st" "sb_size (sx_buf st) < 2 ^ 31" "sx_sum st \<noteq> []" "\<forall>stp\<in>set (sx_sum st). pool_ok stp"
    and "header_ok st (r_ret (w_os w (w_tick w)))"
  defines "report \<equiv> report_json st (r_ret (w_os w (w_tick w))) (w_ntotal_conn w) (w_ncurr_conn w)"
  shows "\<exists>st' w'. stats_make_rsp st w = Some (GF_OK, st', w') \<and> contents (sx_buf st') = json_text report @ [10] \<and>
    (json_ok report \<longrightarrow> 10 \<notin> set (json_text report) \<and> parse_json (contents (sx_buf st')) = Some (report, [10]))"
proof -
  have "report_ok st" using assms(1-4) gf_align_le [of "header_size st + sum_list (map pool_size (sx_sum st)) + 2"]
    by (simp add: report_ok_def buffer_for_def)
  moreover have "no_digit [10]" by (simp add: no_digit_def digit_def)
  ultimately show ?thesis
    using make_rsp_text [OF _ assms(5)] parse_json_text [of report "[10]"] json_text_line [of report] unfolding report_def by fastforce
qed

definition sample_ctx :: stats_ctx where
  "sample_ctx = (let st = (stats_init 22222 [] 30000 [104] [48, 46, 53] 1)\<lparr>sx_sum := [\<lparr>sp_name = [112], sp_metric = stats_pool_codec,
     sp_server = [\<lparr>ss_name = [97], ss_metric = [(metric_of ''requests'' STATS_COUNTER)\<lparr>sm_value := 42\<rparr>]\<rparr>]\<rparr>]\<rparr>
   in case stats_create_buf st w0 of Some (_, st, _) \<Rightarrow> st | None \<Rightarrow> st)"

lemma sample_ctx_ok:
  "buffer_for sample_ctx" "sb_size (sx_buf sample_ctx) < 2 ^ 31" "sx_sum sample_ctx \<noteq> []"
  "\<forall>stp\<in>set (sx_sum sample_ctx). pool_ok stp" "header_ok sample_ctx 1"
  "json_ok (report_json sample_ctx 1 0 0)"
  by (simp_all add: sample_ctx_def stats_create_buf_def stats_init_def gf_alloc_def sys_def sample_res_def buffer_for_def
      header_size_def header_ok_def int64_def pool_ok_def metrics_ok_def stats_pool_codec_def metric_of_def bytes_of_string_def
      report_json_def header_json_def pool_json_def server_json_def metric_json_def cstr_def pool_size_def server_size_def
      metric_size_def gf_align_def plain_def Let_def)

lemma stats_report_reads_back_witness:
  "\<exists>st' w'. stats_make_rsp sample_ctx w0 = Some (GF_OK, st', w') \<and> parse_json (contents (sx_buf st')) = Some (report_json sample_ctx 1 0 0, [10])"
proof -
  have w: "r_ret (w_os w0 (w_tick w0)) = 1" "w_ntotal_conn w0 = 0" "w_ncurr_conn w0 = 0"
    by (simp_all add: sample_res_def w0_def sample_world_def)
  from stats_report_reads_back [of sample_ctx w0, unfolded w, OF sample_ctx_ok(1-5)] sample_ctx_ok(6) show ?thesis by blast
qed

text \<open>A name that ends in a backslash hides the quote after it: the report is no JSON.\<close>

lemma backslash_breaks_report: "parse_json (json_text (JObj [([92], JNum 1)]) @ [10]) = None"
proof -
  have "json_text (JObj [([92], JNum 1)]) @ [10] = [123, 34, 92, 34, 58, 49, 125, 10]"
    by (simp add: key_text_def decimal_int_def decimal.simps)
  moreover have "parse_json [123, 34, 92, 34, 58, 49, 125, 10] = None" by code_simp
  ultimately show ?thesis by simp
qed

end
