(* ===== verification/Stats_Arrays.thy ===== *)
theory Stats_Arrays
  imports Stats_Report
begin

section \<open>The arrays of metrics implement the counters\<close>

text \<open>
  Theory \<open>Stats\<close>, and with it the handlers, has the counters as functions of pool, server and
  field.  The arrays of \<open>gf_stats.c\<close> implement them: every operation on the arrays stays inside
  them and is matched by the operation on the functions.
\<close>

subsection \<open>The counters an array of pools holds\<close>

definition pool_index :: "pool_field \<Rightarrow> nat" where
  "pool_index f = (case f of P_client_eof \<Rightarrow> 0 | P_client_err \<Rightarrow> 1 | P_client_connections \<Rightarrow> 2 | P_server_ejects \<Rightarrow> 3
     | P_forward_error \<Rightarrow> 4 | P_fragments \<Rightarrow> 5)"

definition server_index :: "server_field \<Rightarrow> nat" where
  "server_index f = (case f of S_server_eof \<Rightarrow> 0 | S_server_err \<Rightarrow> 1 | S_server_timedout \<Rightarrow> 2 | S_server_connections \<Rightarrow> 3
     | S_server_ejected_at \<Rightarrow> 4 | S_requests \<Rightarrow> 5 | S_request_bytes \<Rightarrow> 6 | S_responses \<Rightarrow> 7 | S_response_bytes \<Rightarrow> 8
     | S_in_queue \<Rightarrow> 9 | S_in_queue_bytes \<Rightarrow> 10 | S_out_queue \<Rightarrow> 11 | S_out_queue_bytes \<Rightarrow> 12)"

lemma codec_index [simp]:
  "pool_index f < length stats_pool_codec" "sm_type (stats_pool_codec ! pool_index f) = pool_type f"
  "server_index g < length stats_server_codec" "sm_type (stats_server_codec ! server_index g) = server_type g"
proof -
  show "pool_index f < length stats_pool_codec" "sm_type (stats_pool_codec ! pool_index f) = pool_type f"
    by (cases f; simp add: pool_index_def stats_pool_codec_def metric_of_def)+
  show "server_index g < length stats_server_codec" "sm_type (stats_server_codec ! server_index g) = server_type g"
    by (cases g; simp add: server_index_def stats_server_codec_def metric_of_def)+
qed

lemma codec_not_nil [simp]: "stats_pool_codec \<noteq> []" "stats_server_codec \<noteq> []"
  by (simp_all add: stats_pool_codec_def stats_server_codec_def)

lemma index_inj [simp]: "pool_index f = pool_index f' \<longleftrightarrow> f = f'" "server_index g = server_index g' \<longleftrightarrow> g = g'"
  by (cases f; cases f'; simp add: pool_index_def) (cases g; cases g'; simp add: server_index_def)

definition metric_value :: "stats_metric list \<Rightarrow> nat \<Rightarrow> int" where
  "metric_value ms k = (if k < length ms then sm_value (ms ! k) else 0)"

definition server_value :: "stats_server list \<Rightarrow> nat \<Rightarrow> nat \<Rightarrow> int" where
  "server_value ss j k = (if j < length ss then metric_value (ss_metric (ss ! j)) k else 0)"

definition data_of :: "stats_pool list \<Rightarrow> stats_data" where
  "data_of ps = \<lparr>sd_pool = (\<lambda>i f. if i < length ps then metric_value (sp_metric (ps ! i)) (pool_index f) else 0),
     sd_server = (\<lambda>i j f. if i < length ps then server_value (sp_server (ps ! i)) j (server_index f) else 0)\<rparr>"

definition stats_of :: "stats_ctx \<Rightarrow> stats" where
  "stats_of st = \<lparr>st_current = data_of (sx_current st), st_shadow = data_of (sx_shadow st), st_sum = data_of (sx_sum st),
     st_aggregate = sx_aggregate st, st_updated = sx_updated st\<rparr>"

text \<open>The arrays of pools with the given numbers of servers.\<close>

definition types_of :: "stats_metric list \<Rightarrow> stats_metric list \<Rightarrow> bool" where
  "types_of codec ms \<longleftrightarrow> map sm_type ms = map sm_type codec"

definition pool_shape :: "nat \<Rightarrow> stats_pool \<Rightarrow> bool" where
  "pool_shape n stp \<longleftrightarrow> types_of stats_pool_codec (sp_metric stp) \<and> length (sp_server stp) = n
     \<and> (\<forall>sts\<in>set (sp_server stp). types_of stats_server_codec (ss_metric sts))"

definition shape :: "nat list \<Rightarrow> stats_pool list \<Rightarrow> bool" where
  "shape ns ps = list_all2 pool_shape ns ps"

definition shaped :: "nat list \<Rightarrow> stats_ctx \<Rightarrow> bool" where
  "shaped ns st \<longleftrightarrow> shape ns (sx_current st) \<and> shape ns (sx_shadow st) \<and> shape ns (sx_sum st)"

lemma types_ofD: "types_of codec ms \<Longrightarrow> length ms = length codec \<and> (\<forall>k<length codec. sm_type (ms ! k) = sm_type (codec ! k))"
  unfolding types_of_def by (metis length_map nth_map)

lemma types_ofI: "length ms = length codec \<Longrightarrow> (\<And>k. k < length codec \<Longrightarrow> sm_type (ms ! k) = sm_type (codec ! k)) \<Longrightarrow> types_of codec ms"
  unfolding types_of_def by (intro nth_equalityI) auto

lemma shape_nth: "shape ns ps \<Longrightarrow> i < length ps \<Longrightarrow> pool_shape (ns ! i) (ps ! i)"
  by (simp add: shape_def list_all2_conv_all_nth)

lemma shape_length: "shape ns ps \<Longrightarrow> length ps = length ns"
  by (simp add: shape_def list_all2_lengthD)

lemma shape_update: "shape ns ps \<Longrightarrow> i < length ps \<Longrightarrow> pool_shape (ns ! i) stp \<Longrightarrow> shape ns (ps[i := stp])"
  by (auto simp: shape_def list_all2_conv_all_nth nth_list_update)

subsection \<open>Swap\<close>

lemma metric_init_simps [simp]: "sm_value (metric_init sm) = 0" "sm_type (metric_init sm) = sm_type sm"
  by (cases "sm_type sm"; simp add: metric_init_def stats_metric_init_def)+

lemma metric_value_init [simp]: "metric_value (map metric_init ms) k = 0"
  by (simp add: metric_value_def)

lemma reset_pools: "data_of (map reset_pool ps) = stats_pool_reset sd" "shape ns ps \<Longrightarrow> shape ns (map reset_pool ps)"
proof -
  have z: "stats_metric_init t = 0" for t by (cases t) (simp_all add: stats_metric_init_def)
  show "data_of (map reset_pool ps) = stats_pool_reset sd"
    by (auto simp: data_of_def stats_pool_reset_def reset_pool_def server_value_def fun_eq_iff z)
  show "shape ns ps \<Longrightarrow> shape ns (map reset_pool ps)"
    by (auto simp: shape_def list_all2_conv_all_nth pool_shape_def reset_pool_def types_of_def comp_def)
qed

lemma swap_refines: "shaped ns st \<Longrightarrow> stats_of (sx_stats_swap st) = stats_swap (stats_of st) \<and> shaped ns (sx_stats_swap st)"
  using reset_pools [where ps = "sx_shadow st"] by (auto simp: sx_stats_swap_def stats_swap_def stats_of_def shaped_def Let_def)

subsection \<open>Aggregation\<close>

lemma each_src_total:
  assumes "length ds = length ss" "\<And>i. i < length ds \<Longrightarrow> \<exists>r. f (ds ! i) (ss ! i) = Some r"
  shows "\<exists>rs. each_src f ds ss = Some rs \<and> length rs = length ds \<and> (\<forall>i<length ds. f (ds ! i) (ss ! i) = Some (rs ! i))"
  using assms
proof (induction f ds ss rule: each_src.induct)
  case (3 f d ds s ss)
  from 3(3) [of 0] obtain r where r: "f d s = Some r" by auto
  obtain rs where rs: "each_src f ds ss = Some rs" "length rs = length ds" "\<forall>i<length ds. f (ds ! i) (ss ! i) = Some (rs ! i)"
    using 3(1) [of r] 3(2) 3(3) [of "Suc _"] r by auto
  have "\<forall>i<Suc (length ds). f ((d # ds) ! i) ((s # ss) ! i) = Some ((r # rs) ! i)"
    using r rs(3) by (auto simp: less_Suc_eq_0_disj)
  with r rs show ?case by simp
qed auto

lemma aggregate_metrics:
  assumes "types_of codec ms2" "types_of codec ms1"
  shows "\<exists>ms. each_src (aggregate_metric panic) ms2 ms1 = Some ms \<and> types_of codec ms
    \<and> (\<forall>k<length codec. metric_value ms k = stats_aggregate_metric (sm_type (codec ! k)) (metric_value ms2 k) (metric_value ms1 k))"
proof -
  note t = types_ofD [OF assms(1)] types_ofD [OF assms(2)]
  obtain ms where ms: "each_src (aggregate_metric panic) ms2 ms1 = Some ms" "length ms = length ms2"
    "\<forall>i<length ms2. aggregate_metric panic (ms2 ! i) (ms1 ! i) = Some (ms ! i)"
    using each_src_total [of ms2 ms1 "aggregate_metric panic"] t by (auto simp: aggregate_metric_def)
  have "ms ! k = (ms2 ! k)\<lparr>sm_value := stats_aggregate_metric (sm_type (codec ! k)) (sm_value (ms2 ! k)) (sm_value (ms1 ! k))\<rparr>"
    if "k < length codec" for k using ms(3) t that by (auto simp: aggregate_metric_def split: if_splits)
  then show ?thesis using t ms(1,2) by (intro exI [of _ ms]) (auto simp: metric_value_def intro!: types_ofI)
qed

lemma aggregate_zero [simp]: "stats_aggregate_metric t 0 0 = 0"
  by (cases t) (simp_all add: stats_aggregate_metric_def)

lemma aggregate_servers:
  assumes "length ss2 = n" "\<forall>sts\<in>set ss2. types_of stats_server_codec (ss_metric sts)"
    and "length ss1 = n" "\<forall>sts\<in>set ss1. types_of stats_server_codec (ss_metric sts)"
  shows "\<exists>ss. each_src (aggregate_server panic) ss2 ss1 = Some ss \<and> length ss = n \<and> (\<forall>sts\<in>set ss. types_of stats_server_codec (ss_metric sts))
    \<and> (\<forall>j f. server_value ss j (server_index f) = stats_aggregate_metric (server_type f) (server_value ss2 j (server_index f)) (server_value ss1 j (server_index f)))"
proof -
  have a: "\<exists>ms. aggregate_server panic (ss2 ! j) (ss1 ! j) = Some ((ss2 ! j)\<lparr>ss_metric := ms\<rparr>) \<and> types_of stats_server_codec ms
      \<and> (\<forall>k<length stats_server_codec. metric_value ms k = stats_aggregate_metric (sm_type (stats_server_codec ! k))
            (metric_value (ss_metric (ss2 ! j)) k) (metric_value (ss_metric (ss1 ! j)) k))" if "j < n" for j
    using aggregate_metrics [of stats_server_codec "ss_metric (ss2 ! j)" "ss_metric (ss1 ! j)" panic] that assms
    by (auto simp: aggregate_server_def)
  obtain ss where ss: "each_src (aggregate_server panic) ss2 ss1 = Some ss" "length ss = n"
    "\<And>j. j < n \<Longrightarrow> aggregate_server panic (ss2 ! j) (ss1 ! j) = Some (ss ! j)"
    using each_src_total [of ss2 ss1 "aggregate_server panic"] a assms(1,3) by metis
  have "types_of stats_server_codec (ss_metric (ss ! j))" if "j < n" for j using a [OF that] ss(3) [OF that] by auto
  moreover have "server_value ss j (server_index f) = stats_aggregate_metric (server_type f) (server_value ss2 j (server_index f)) (server_value ss1 j (server_index f))" for j f
    using a [of j] ss(2) ss(3) [of j] assms(1,3) codec_index(3,4) [of f] by (cases "j < n") (auto simp: server_value_def)
  ultimately show ?thesis using ss(1,2) by (auto simp: in_set_conv_nth)
qed

lemma aggregate_pools:
  assumes "pool_shape n stp2" "pool_shape n stp1"
  shows "\<exists>stp. aggregate_pool panic stp2 stp1 = Some stp \<and> pool_shape n stp
    \<and> (\<forall>f. metric_value (sp_metric stp) (pool_index f) = stats_aggregate_metric (pool_type f) (metric_value (sp_metric stp2) (pool_index f))
          (metric_value (sp_metric stp1) (pool_index f)))
    \<and> (\<forall>j f. server_value (sp_server stp) j (server_index f) = stats_aggregate_metric (server_type f)
          (server_value (sp_server stp2) j (server_index f)) (server_value (sp_server stp1) j (server_index f)))"
proof -
  obtain ms where "each_src (aggregate_metric panic) (sp_metric stp2) (sp_metric stp1) = Some ms" "types_of stats_pool_codec ms"
    "\<forall>k<length stats_pool_codec. metric_value ms k = stats_aggregate_metric (sm_type (stats_pool_codec ! k))
      (metric_value (sp_metric stp2) k) (metric_value (sp_metric stp1) k)"
    using aggregate_metrics assms unfolding pool_shape_def by blast
  moreover obtain ss where "each_src (aggregate_server panic) (sp_server stp2) (sp_server stp1) = Some ss" "length ss = n"
    "\<forall>sts\<in>set ss. types_of stats_server_codec (ss_metric sts)"
    "\<forall>j f. server_value ss j (server_index f) = stats_aggregate_metric (server_type f) (server_value (sp_server stp2) j (server_index f))
      (server_value (sp_server stp1) j (server_index f))"
    using aggregate_servers assms unfolding pool_shape_def by blast
  ultimately show ?thesis by (auto simp: aggregate_pool_def pool_shape_def)
qed

lemma aggregate_refines:
  assumes "shaped ns st"
  shows "\<exists>st'. sx_stats_aggregate panic st = Some st' \<and> stats_of st' = stats_aggregate (stats_of st) \<and> shaped ns st'"
proof (cases "sx_aggregate st")
  case True
  note sh = assms [unfolded shaped_def]
  have len: "length (sx_sum st) = length ns" "length (sx_shadow st) = length ns" using sh by (simp_all add: shape_length)
  have a: "\<exists>stp. aggregate_pool panic (sx_sum st ! i) (sx_shadow st ! i) = Some stp \<and> pool_shape (ns ! i) stp
    \<and> (\<forall>f. metric_value (sp_metric stp) (pool_index f) = stats_aggregate_metric (pool_type f) (metric_value (sp_metric (sx_sum st ! i)) (pool_index f))
          (metric_value (sp_metric (sx_shadow st ! i)) (pool_index f)))
    \<and> (\<forall>j f. server_value (sp_server stp) j (server_index f) = stats_aggregate_metric (server_type f)
          (server_value (sp_server (sx_sum st ! i)) j (server_index f)) (server_value (sp_server (sx_shadow st ! i)) j (server_index f)))"
    if "i < length ns" for i using sh that len by (intro aggregate_pools) (simp_all add: shape_nth)
  obtain ps where ps: "each_src (aggregate_pool panic) (sx_sum st) (sx_shadow st) = Some ps" "length ps = length ns"
    "\<And>i. i < length ns \<Longrightarrow> aggregate_pool panic (sx_sum st ! i) (sx_shadow st ! i) = Some (ps ! i)"
    using each_src_total [of "sx_sum st" "sx_shadow st" "aggregate_pool panic"] a len by metis
  have "shape ns ps" unfolding shape_def list_all2_conv_all_nth using a ps(2,3) by (metis option.inject)
  moreover have "data_of ps = \<lparr>sd_pool = (\<lambda>i f. stats_aggregate_metric (pool_type f) (sd_pool (data_of (sx_sum st)) i f) (sd_pool (data_of (sx_shadow st)) i f)),
      sd_server = (\<lambda>i j f. stats_aggregate_metric (server_type f) (sd_server (data_of (sx_sum st)) i j f) (sd_server (data_of (sx_shadow st)) i j f))\<rparr>"
    using a ps(2,3) len by (auto simp: data_of_def fun_eq_iff)
  ultimately show ?thesis using True ps(1) sh by (auto simp: sx_stats_aggregate_def stats_aggregate_def stats_of_def shaped_def)
qed (use assms in \<open>simp add: sx_stats_aggregate_def stats_aggregate_def stats_of_def\<close>)

subsection \<open>Updates\<close>

lemma upd_metric_value:
  assumes "types_of codec ms" "k < length codec"
  shows "\<exists>ms'. upd_metric k f ms = Some ms' \<and> types_of codec ms' \<and> (\<forall>l. metric_value ms' l = (if l = k then f (metric_value ms k) else metric_value ms l))"
proof -
  note t = types_ofD [OF assms(1)]
  let ?ms = "ms[k := (ms ! k)\<lparr>sm_value := f (sm_value (ms ! k))\<rparr>]"
  have "types_of codec ?ms" using t assms(2) by (intro types_ofI) (simp_all add: nth_list_update)
  then show ?thesis using t assms(2) by (auto simp: upd_metric_def metric_value_def nth_list_update)
qed

lemma pool_update_refines:
  assumes "shaped ns st" "i < length ns"
  shows "\<exists>st'. sx_pool_to_metric i (pool_index f) g st = Some st' \<and> shaped ns st' \<and>
    stats_of st' = (let st = stats_of st; cur = st_current st
      in st\<lparr>st_current := cur\<lparr>sd_pool := (sd_pool cur)(i := (sd_pool cur i)(f := g (sd_pool cur i f)))\<rparr>, st_updated := True\<rparr>)"
proof -
  let ?ps = "sx_current st"
  have sh: "shape ns ?ps" "length ?ps = length ns" using assms(1) by (simp_all add: shaped_def shape_length)
  then have p: "pool_shape (ns ! i) (?ps ! i)" using assms(2) by (simp add: shape_nth)
  obtain ms where ms: "upd_metric (pool_index f) g (sp_metric (?ps ! i)) = Some ms" "types_of stats_pool_codec ms"
    "\<And>l. metric_value ms l = (if l = pool_index f then g (metric_value (sp_metric (?ps ! i)) (pool_index f)) else metric_value (sp_metric (?ps ! i)) l)"
    using upd_metric_value [of stats_pool_codec "sp_metric (?ps ! i)" "pool_index f" g] p by (auto simp: pool_shape_def)
  have "pool_shape (ns ! i) ((?ps ! i)\<lparr>sp_metric := ms\<rparr>)" using p ms(2) by (simp add: pool_shape_def)
  then show ?thesis using assms ms sh shape_update [OF sh(1)]
    by (auto simp: sx_pool_to_metric_def stats_of_def data_of_def shaped_def Let_def fun_eq_iff nth_list_update)
qed

lemma server_update_refines:
  assumes "shaped ns st" "i < length ns" "j < ns ! i"
  shows "\<exists>st'. sx_server_to_metric i j (server_index f) g st = Some st' \<and> shaped ns st' \<and>
    stats_of st' = (let st = stats_of st; cur = st_current st
      in st\<lparr>st_current := cur\<lparr>sd_server := (sd_server cur)(i := (sd_server cur i)(j := (sd_server cur i j)(f := g (sd_server cur i j f))))\<rparr>,
            st_updated := True\<rparr>)"
proof -
  let ?ps = "sx_current st"
  let ?ss = "sp_server (?ps ! i)"
  have sh: "shape ns ?ps" "length ?ps = length ns" using assms(1) by (simp_all add: shaped_def shape_length)
  then have p: "pool_shape (ns ! i) (?ps ! i)" using assms(2) by (simp add: shape_nth)
  then have s: "j < length ?ss" "types_of stats_server_codec (ss_metric (?ss ! j))" using assms(3) by (auto simp: pool_shape_def)
  obtain ms where ms: "upd_metric (server_index f) g (ss_metric (?ss ! j)) = Some ms" "types_of stats_server_codec ms"
    "\<And>l. metric_value ms l = (if l = server_index f then g (metric_value (ss_metric (?ss ! j)) (server_index f)) else metric_value (ss_metric (?ss ! j)) l)"
    using upd_metric_value [OF s(2), of "server_index f" g] by auto
  let ?stp = "(?ps ! i)\<lparr>sp_server := ?ss[j := (?ss ! j)\<lparr>ss_metric := ms\<rparr>]\<rparr>"
  have "pool_shape (ns ! i) ?stp" using p ms(2) by (auto simp: pool_shape_def dest!: subsetD [OF set_update_subset_insert])
  then show ?thesis using assms ms s sh shape_update [OF sh(1)]
    by (auto simp: sx_server_to_metric_def stats_of_def data_of_def shaped_def Let_def fun_eq_iff nth_list_update server_value_def)
qed

subsection \<open>The arrays made at creation\<close>

definition zero_data :: stats_data where
  "zero_data = \<lparr>sd_pool = (\<lambda>i f. 0), sd_server = (\<lambda>i j f. 0)\<rparr>"

definition all_zero :: "stats_pool \<Rightarrow> bool" where
  "all_zero stp \<longleftrightarrow> (\<forall>sm\<in>set (sp_metric stp). sm_value sm = 0) \<and> (\<forall>sts\<in>set (sp_server stp). \<forall>sm\<in>set (ss_metric sts). sm_value sm = 0)"

lemma data_zero: "\<forall>stp\<in>set ps. all_zero stp \<Longrightarrow> data_of ps = zero_data"
proof -
  assume z: "\<forall>stp\<in>set ps. all_zero stp"
  have v: "metric_value ms k = 0" if "\<forall>sm\<in>set ms. sm_value sm = 0" for ms k using that by (simp add: metric_value_def)
  have "metric_value (sp_metric (ps ! i)) k = 0" "server_value (sp_server (ps ! i)) j k = 0" if "i < length ps" for i j k
  proof -
    have a: "all_zero (ps ! i)" using z that by simp
    then show "metric_value (sp_metric (ps ! i)) k = 0" by (intro v) (simp add: all_zero_def)
    have "\<forall>sm\<in>set (ss_metric (sp_server (ps ! i) ! j)). sm_value sm = 0" if "j < length (sp_server (ps ! i))" using a nth_mem [OF that] unfolding all_zero_def by blast
    then show "server_value (sp_server (ps ! i)) j k = 0" by (simp add: server_value_def v)
  qed
  then show "data_of ps = zero_data" by (auto simp: data_of_def zero_data_def fun_eq_iff)
qed

lemma server_map_shape:
  "server_map_loop ss w = Some (GF_OK, sts, w') \<Longrightarrow> length sts = length ss
     \<and> (\<forall>x\<in>set sts. types_of stats_server_codec (ss_metric x) \<and> (\<forall>sm\<in>set (ss_metric x). sm_value sm = 0))"
proof (induction ss arbitrary: w sts)
  case (Cons s ss)
  then obtain x w1 rest where 1: "stats_server_init s w = Some (GF_OK, x, w1)" "server_map_loop ss w1 = Some (GF_OK, rest, w')" "sts = x # rest"
    by (auto simp: gf_simps split: if_splits)
  have "types_of stats_server_codec (ss_metric x) \<and> (\<forall>sm\<in>set (ss_metric x). sm_value sm = 0)"
    using 1(1) by (auto simp: stats_server_init_def stats_server_metric_init_def types_of_def comp_def gf_simps split: if_splits)
  with Cons.IH [OF 1(2)] 1(3) show ?case by simp
qed simp

lemma pool_map_shape:
  "pool_map_loop sps w = Some (GF_OK, ps, w') \<Longrightarrow> shape (map (\<lambda>sp. length (p_server sp)) sps) ps \<and> (\<forall>stp\<in>set ps. all_zero stp)"
proof (induction sps arbitrary: w ps)
  case (Cons sp sps)
  then obtain stp w1 rest where 1: "stats_pool_init sp w = Some (GF_OK, stp, w1)" "pool_map_loop sps w1 = Some (GF_OK, rest, w')" "ps = stp # rest"
    by (auto simp: gf_simps split: if_splits)
  have "pool_shape (length (p_server sp)) stp \<and> all_zero stp"
    using 1(1) by (auto simp: stats_pool_init_def stats_pool_metric_init_def stats_server_map_def pool_shape_def all_zero_def types_of_def comp_def
        gf_simps Let_def split: if_splits dest!: server_map_shape)
  with Cons.IH [OF 1(2)] 1(3) show ?case by (simp add: shape_def)
qed (simp add: shape_def)

lemma and_then_OK: "and_then f g a = Some (GF_OK, r) \<longleftrightarrow> (\<exists>a'. f a = Some (GF_OK, a') \<and> g a' = Some (GF_OK, r))"
  by (auto simp: and_then_def gf_simps split: if_splits)

lemma create_buf_only: "stats_create_buf st w = Some (status, st', w') \<Longrightarrow> \<exists>b. st' = st\<lparr>sx_buf := b\<rparr>"
  by (auto simp: stats_create_buf_def gf_simps Let_def split: if_splits prod.splits intro: exI [of _ "sx_buf st"])

lemma stats_map_shape:
  assumes "stats_map st w = Some (GF_OK, st', w')"
  shows "shaped (map (\<lambda>p. length (p_server (pool w p))) [0..<w_npool w]) st'"
    and "stats_of st' = \<lparr>st_current = zero_data, st_shadow = zero_data, st_sum = zero_data, st_aggregate = sx_aggregate st, st_updated = sx_updated st\<rparr>"
proof -
  let ?sps = "map (w_pools w) [0..<w_npool w]"
  have m: "stats_pool_map ?sps u = Some (GF_OK, ps, u') \<Longrightarrow> shape (map (\<lambda>sp. length (p_server sp)) ?sps) ps \<and> data_of ps = zero_data" for u ps u'
    using pool_map_shape data_zero by (fastforce simp: stats_pool_map_def gf_simps split: if_splits)
  obtain ps1 ps2 ps3 u1 u2 u3 b where ps: "stats_pool_map ?sps w = Some (GF_OK, ps1, u1)" "stats_pool_map ?sps u1 = Some (GF_OK, ps2, u2)"
    "stats_pool_map ?sps u2 = Some (GF_OK, ps3, u3)" "st' = st\<lparr>sx_current := ps1, sx_shadow := ps2, sx_sum := ps3, sx_buf := b\<rparr>"
    using assms by (auto simp: stats_map_def Let_def map_copy_def and_then_OK gf_simps dest!: create_buf_only)
  note m [OF ps(1)] m [OF ps(2)] m [OF ps(3)]
  then show "shaped (map (\<lambda>p. length (p_server (pool w p))) [0..<w_npool w]) st'"
    "stats_of st' = \<lparr>st_current = zero_data, st_shadow = zero_data, st_sum = zero_data, st_aggregate = sx_aggregate st, st_updated = sx_updated st\<rparr>"
    using ps(4) by (auto simp: shaped_def stats_of_def comp_def)
qed

subsection \<open>Runs\<close>

definition sx_pool_incr_by :: "nat \<Rightarrow> pool_field \<Rightarrow> int \<Rightarrow> world \<Rightarrow> stats_ctx \<Rightarrow> stats_ctx option" where
  "sx_pool_incr_by p fidx val w st = do {
     ASSERT (pool_type fidx = STATS_COUNTER \<or> pool_type fidx = STATS_GAUGE) w;
     sx_pool_to_metric (unat (p_idx (pool w p))) (pool_index fidx) (\<lambda>n. n + val) st }"

definition sx_server_incr_by :: "nat \<Rightarrow> nat \<Rightarrow> server_field \<Rightarrow> int \<Rightarrow> world \<Rightarrow> stats_ctx \<Rightarrow> stats_ctx option" where
  "sx_server_incr_by p s fidx val w st = do {
     ASSERT (server_type fidx = STATS_COUNTER \<or> server_type fidx = STATS_GAUGE) w;
     sx_server_to_metric (unat (p_idx (pool w p))) (unat (s_idx (server w p s))) (server_index fidx) (\<lambda>n. n + val) st }"

definition sx_do :: "world \<Rightarrow> stats_step \<Rightarrow> stats_ctx \<Rightarrow> stats_ctx option" where
  "sx_do w step st = (case step of
     Swap \<Rightarrow> Some (sx_stats_swap st)
   | Aggregate \<Rightarrow> sx_stats_aggregate (w_panic w) st
   | Pool_add p f v \<Rightarrow> sx_pool_incr_by p f v w st
   | Server_add p s f v \<Rightarrow> sx_server_incr_by p s f v w st)"

primrec sx_run :: "world \<Rightarrow> stats_step list \<Rightarrow> stats_ctx \<Rightarrow> stats_ctx option" where
  "sx_run w [] st = Some st"
| "sx_run w (x # xs) st = do { st \<leftarrow> sx_do w x st; sx_run w xs st }"

text \<open>The indices of a step are those of a pool and a server the arrays were made for.\<close>

definition step_known :: "world \<Rightarrow> nat list \<Rightarrow> stats_step \<Rightarrow> bool" where
  "step_known w ns x = (case x of
     Pool_add p f v \<Rightarrow> unat (p_idx (pool w p)) < length ns
   | Server_add p s f v \<Rightarrow> unat (p_idx (pool w p)) < length ns \<and> unat (s_idx (server w p s)) < ns ! unat (p_idx (pool w p))
   | _ \<Rightarrow> True)"

lemma sx_do_refines:
  assumes "stats_do x w = Some w'" "shaped ns st" "stats_of st = w_stats w" "step_known w ns x"
  shows "\<exists>st'. sx_do w x st = Some st' \<and> shaped ns st' \<and> stats_of st' = w_stats w' \<and> w_pools w' = w_pools w \<and> w_panic w' = w_panic w"
proof (cases x)
  case Swap
  with assms swap_refines [of ns st] show ?thesis by (auto simp: stats_do_def sx_do_def)
next
  case Aggregate
  with assms aggregate_refines [of ns st "w_panic w"] show ?thesis by (auto simp: stats_do_def sx_do_def)
next
  case (Pool_add p f v)
  with assms pool_update_refines [of ns st "unat (p_idx (pool w p))" f "\<lambda>n. n + v"] show ?thesis
    by (auto simp: stats_do_def sx_do_def sx_pool_incr_by_def stats_pool_incr_by_def step_known_def stats_pool_to_metric_def Let_def gf_simps)
next
  case (Server_add p s f v)
  with assms server_update_refines [of ns st "unat (p_idx (pool w p))" "unat (s_idx (server w p s))" f "\<lambda>n. n + v"] show ?thesis
    by (auto simp: stats_do_def sx_do_def sx_server_incr_by_def stats_server_incr_by_def step_known_def stats_server_to_metric_def Let_def gf_simps)
qed

lemma sx_do_world: "w_pools w' = w_pools w \<Longrightarrow> w_panic w' = w_panic w \<Longrightarrow> sx_do w' x = sx_do w x"
  by (rule ext) (auto simp: sx_do_def sx_pool_incr_by_def sx_server_incr_by_def ASSERT_def split: stats_step.splits)

lemma sx_run_world: "w_pools w' = w_pools w \<Longrightarrow> w_panic w' = w_panic w \<Longrightarrow> sx_run w' xs st = sx_run w xs st"
  by (induction xs arbitrary: st) (simp_all add: sx_do_world [of w' w])

lemma sx_run_refines:
  "stats_run xs w = Some w' \<Longrightarrow> shaped ns st \<Longrightarrow> stats_of st = w_stats w \<Longrightarrow> \<forall>x\<in>set xs. step_known w ns x \<Longrightarrow>
    \<exists>st'. sx_run w xs st = Some st' \<and> shaped ns st' \<and> stats_of st' = w_stats w'"
proof (induction xs arbitrary: w st)
  case (Cons x xs)
  then obtain w1 where 1: "stats_do x w = Some w1" "stats_run xs w1 = Some w'" by (auto simp: gf_simps)
  obtain st1 where 2: "sx_do w x st = Some st1" "shaped ns st1" "stats_of st1 = w_stats w1" "w_pools w1 = w_pools w" "w_panic w1 = w_panic w"
    using sx_do_refines [OF 1(1) Cons.prems(2,3)] Cons.prems(4) by auto
  have "step_known w1 ns y = step_known w ns y" for y using 2(4) by (cases y) (simp_all add: step_known_def)
  then have "\<forall>x\<in>set xs. step_known w1 ns x" using Cons.prems(4) by simp
  from Cons.IH [OF 1(2) 2(2,3) this] 2(1) show ?case by (simp add: sx_run_world [OF 2(4,5)])
qed simp

text \<open>
  C36: the three copies made at creation have an entry for each pool and server of the
  configuration and start at 0, and from there every interleaving of updates, swaps and
  aggregations stays inside the arrays and leaves in them exactly the counters of the
  functional model.
\<close>

theorem stats_arrays_refine:
  assumes "stats_map (stats_init port ip interval source version start) w0' = Some (GF_OK, st, w1)"
    and "w_pools w = w_pools w0'" "w_stats w = stats_of st" "stats_run xs w = Some w'"
    and "\<forall>x\<in>set xs. step_known w (map (\<lambda>p. length (p_server (pool w p))) [0..<w_npool w0']) x"
  shows "st_sum (w_stats w) = zero_data \<and> (\<exists>st'. sx_run w xs st = Some st' \<and> stats_of st' = w_stats w')"
  using stats_map_shape [OF assms(1)] sx_run_refines [OF assms(4) _ _ assms(5)] assms(2,3) by auto

lemma stats_arrays_refine_witness:
  "\<exists>st w1 st' w'. stats_map (stats_init 22222 [] 30000 [] [] 1) w0 = Some (GF_OK, st, w1)
     \<and> stats_run [Server_add 0 1 S_requests 3, Swap, Aggregate] (w0\<lparr>w_stats := stats_of st\<rparr>) = Some w'
     \<and> sx_run (w0\<lparr>w_stats := stats_of st\<rparr>) [Server_add 0 1 S_requests 3, Swap, Aggregate] st = Some st' \<and> stats_of st' = w_stats w'"
proof -
  have np: "w_npool w0 = 1" by (simp add: w0_def sample_world_def)
  obtain st w1 where m: "stats_map (stats_init 22222 [] 30000 [] [] 1) w0 = Some (GF_OK, st, w1)"
    by (simp add: stats_map_def map_copy_def and_then_def stats_pool_map_def array_alloc_def stats_pool_init_def stats_pool_metric_init_def
        stats_server_map_def stats_server_init_def stats_server_metric_init_def stats_create_buf_def stats_init_def gf_alloc_def sys_def
        sample_res_def sample_pool_def np Let_def)
  let ?w = "w0\<lparr>w_stats := stats_of st\<rparr>" and ?xs = "[Server_add 0 1 S_requests 3, Swap, Aggregate]"
  obtain w' where r: "stats_run ?xs ?w = Some w'" by (simp add: stats_do_def stats_server_incr_by_def)
  have k: "\<forall>x\<in>set ?xs. step_known ?w (map (\<lambda>p. length (p_server (pool ?w p))) [0..<w_npool w0]) x"
    by (simp add: step_known_def np sample_pool_def sample_server_def)
  show ?thesis using stats_arrays_refine [OF m _ _ r k] m r by simp
qed

end
