(* ===== verification/Stats_Kept.thy ===== *)
theory Stats_Kept
  imports Stats Sample
begin

section \<open>No update of the statistics is lost\<close>

text \<open>
  Every operation of the proxy on a metric, with the exchange and the aggregation in between.  A metric of a pool or
  of a server has its value spread over the sum, the shadow while it waits for the aggregator, and the
  current copy: the three add up for counters and gauges; of a timestamp the newest one that is set counts.
\<close>

datatype metric = Pool_metric nat pool_field | Server_metric nat nat server_field

definition metric_in :: "stats_data \<Rightarrow> metric \<Rightarrow> int" where
  "metric_in sd k = (case k of Pool_metric i f \<Rightarrow> sd_pool sd i f | Server_metric i j f \<Rightarrow> sd_server sd i j f)"

definition metric_type :: "metric \<Rightarrow> stats_type" where
  "metric_type k = (case k of Pool_metric i f \<Rightarrow> pool_type f | Server_metric i j f \<Rightarrow> server_type f)"

definition metric_total :: "stats \<Rightarrow> metric \<Rightarrow> int" where
  "metric_total st k =
     (let old = metric_in (st_sum st) k; pending = (if st_aggregate st then metric_in (st_shadow st) k else 0);
          new = metric_in (st_current st) k
      in if metric_type k = STATS_TIMESTAMP then (if new \<noteq> 0 then new else if pending \<noteq> 0 then pending else old)
         else old + pending + new)"

datatype stats_op = Incr | Decr | Incr_by int | Decr_by int | Set_ts int

datatype stats_call = On_pool nat pool_field stats_op | On_server nat nat server_field stats_op | Swap_now | Aggregate_now

definition stats_call :: "stats_call \<Rightarrow> world \<Rightarrow> world option" where
  "stats_call x w = (case x of
     On_pool p f op \<Rightarrow> (case op of Incr \<Rightarrow> stats_pool_incr p f w | Decr \<Rightarrow> stats_pool_decr p f w
       | Incr_by v \<Rightarrow> stats_pool_incr_by p f v w | Decr_by v \<Rightarrow> stats_pool_decr_by p f v w | Set_ts v \<Rightarrow> stats_pool_set_ts p f v w)
   | On_server p s f op \<Rightarrow> (case op of Incr \<Rightarrow> stats_server_incr p s f w | Decr \<Rightarrow> stats_server_decr p s f w
       | Incr_by v \<Rightarrow> stats_server_incr_by p s f v w | Decr_by v \<Rightarrow> stats_server_decr_by p s f v w | Set_ts v \<Rightarrow> stats_server_set_ts p s f v w)
   | Swap_now \<Rightarrow> Some (w\<lparr>w_stats := stats_swap (w_stats w)\<rparr>)
   | Aggregate_now \<Rightarrow> Some (w\<lparr>w_stats := stats_aggregate (w_stats w)\<rparr>))"

primrec stats_calls :: "stats_call list \<Rightarrow> world \<Rightarrow> world option" where
  "stats_calls [] w = Some w"
| "stats_calls (x # xs) w = do { w \<leftarrow> stats_call x w; stats_calls xs w }"

text \<open>An operation suits the type of its metric; a time that is set is not 0.\<close>

definition op_suits :: "stats_type \<Rightarrow> stats_op \<Rightarrow> bool" where
  "op_suits t op = (case op of Incr \<Rightarrow> t \<noteq> STATS_TIMESTAMP | Incr_by v \<Rightarrow> t \<noteq> STATS_TIMESTAMP
     | Decr \<Rightarrow> t = STATS_GAUGE | Decr_by v \<Rightarrow> t = STATS_GAUGE | Set_ts v \<Rightarrow> t = STATS_TIMESTAMP \<and> v \<noteq> 0)"

definition call_suits :: "stats_call \<Rightarrow> bool" where
  "call_suits x = (case x of On_pool p f op \<Rightarrow> op_suits (pool_type f) op | On_server p s f op \<Rightarrow> op_suits (server_type f) op | _ \<Rightarrow> True)"

definition op_value :: "stats_op \<Rightarrow> int \<Rightarrow> int" where
  "op_value op n = (case op of Incr \<Rightarrow> n + 1 | Decr \<Rightarrow> n - 1 | Incr_by v \<Rightarrow> n + v | Decr_by v \<Rightarrow> n - v | Set_ts v \<Rightarrow> v)"

text \<open>What a call is meant to do to the value of a metric.\<close>

definition call_value :: "world \<Rightarrow> metric \<Rightarrow> stats_call \<Rightarrow> int \<Rightarrow> int" where
  "call_value w k x n = (case x of
     On_pool p f op \<Rightarrow> if k = Pool_metric (unat (p_idx (pool w p))) f then op_value op n else n
   | On_server p s f op \<Rightarrow> if k = Server_metric (unat (p_idx (pool w p))) (unat (s_idx (server w p s))) f then op_value op n else n
   | _ \<Rightarrow> n)"

lemma metric_total_swap: "metric_total (stats_swap st) k = metric_total st k"
  by (cases k) (auto simp: metric_total_def metric_in_def metric_type_def stats_swap_def stats_pool_reset_def stats_metric_init_def Let_def
      split: stats_type.splits)

lemma metric_total_aggregate: "metric_total (stats_aggregate st) k = metric_total st k"
  by (cases k) (auto simp: metric_total_def metric_in_def metric_type_def stats_aggregate_def stats_aggregate_metric_def Let_def
      split: stats_type.splits)

lemma pool_call:
  "op_suits (pool_type f) op \<Longrightarrow> stats_call (On_pool p f op) w = Some (stats_pool_to_metric p f (op_value op) w)"
  by (cases op) (simp_all add: stats_call_def op_suits_def op_value_def [abs_def])

lemma server_call:
  "op_suits (server_type f) op \<Longrightarrow> stats_call (On_server p s f op) w = Some (stats_server_to_metric p s f (op_value op) w)"
  by (cases op) (simp_all add: stats_call_def op_suits_def op_value_def [abs_def])

lemma metric_total_pool:
  "op_suits (pool_type f) op \<Longrightarrow>
     metric_total (w_stats (stats_pool_to_metric p f (op_value op) w)) k = call_value w k (On_pool p f op) (metric_total (w_stats w) k)"
  by (cases op; cases k) (auto simp: metric_total_def metric_in_def metric_type_def call_value_def op_value_def op_suits_def
      stats_pool_to_metric_def Let_def)

lemma metric_total_server:
  "op_suits (server_type f) op \<Longrightarrow>
     metric_total (w_stats (stats_server_to_metric p s f (op_value op) w)) k = call_value w k (On_server p s f op) (metric_total (w_stats w) k)"
  by (cases op; cases k) (auto simp: metric_total_def metric_in_def metric_type_def call_value_def op_value_def op_suits_def
      stats_server_to_metric_def Let_def)

lemma stats_call_value:
  assumes "call_suits x"
  shows "\<exists>w'. stats_call x w = Some w' \<and> w_pools w' = w_pools w \<and> (\<forall>k. metric_total (w_stats w') k = call_value w k x (metric_total (w_stats w) k))"
proof (cases x)
  case (On_pool p f op)
  with assms show ?thesis by (simp add: pool_call metric_total_pool call_suits_def)
next
  case (On_server p s f op)
  with assms show ?thesis by (simp add: server_call metric_total_server call_suits_def)
next
  case Swap_now
  then show ?thesis by (simp add: stats_call_def metric_total_swap call_value_def)
next
  case Aggregate_now
  then show ?thesis by (simp add: stats_call_def metric_total_aggregate call_value_def)
qed

text \<open>
  C34: in every interleaving of updates of pool and server metrics by the proxy, of \<open>stats_swap\<close> and of
  the aggregator, whether or not either finds the other busy, no assertion fails and every metric has exactly the
  value its updates give it in their order: for a counter or gauge the sum, the pending shadow and the current copy
  add up to it, for a timestamp the newest of them is it.  No update is lost or counted twice.  The operations suit
  the type of their metric, and a time that is set is not 0; values are unbounded integers.
\<close>

theorem stats_conserved:
  assumes "\<forall>x\<in>set xs. call_suits x"
  shows "\<exists>w'. stats_calls xs w = Some w' \<and>
    (\<forall>k. metric_total (w_stats w') k = fold (call_value w k) xs (metric_total (w_stats w) k))"
  using assms
proof (induction xs arbitrary: w)
  case (Cons x xs)
  then obtain w1 where w1: "stats_call x w = Some w1" "w_pools w1 = w_pools w"
    "\<forall>k. metric_total (w_stats w1) k = call_value w k x (metric_total (w_stats w) k)" using stats_call_value [of x w] by auto
  have "call_value w1 k = call_value w k" for k
    using w1(2) by (auto simp: call_value_def fun_eq_iff split: stats_call.splits)
  with Cons.IH [of w1] Cons.prems w1 show ?case by simp
qed simp

lemma stats_conserved_witness:
  "\<exists>w'. stats_calls [On_server 0 1 S_requests (Incr_by 3), Swap_now, On_server 0 1 S_requests Incr, Aggregate_now,
       On_pool 0 P_client_connections Incr, Swap_now, On_server 0 1 S_server_ejected_at (Set_ts 9), On_pool 0 P_client_connections Decr] w0 = Some w'
     \<and> metric_total (w_stats w') (Server_metric 0 1 S_requests) = 4
     \<and> metric_total (w_stats w') (Server_metric 0 1 S_server_ejected_at) = 9
     \<and> metric_total (w_stats w') (Pool_metric 0 P_client_connections) = 0"
proof -
  let ?xs = "[On_server 0 1 S_requests (Incr_by 3), Swap_now, On_server 0 1 S_requests Incr, Aggregate_now,
       On_pool 0 P_client_connections Incr, Swap_now, On_server 0 1 S_server_ejected_at (Set_ts 9), On_pool 0 P_client_connections Decr]"
  have "\<forall>x\<in>set ?xs. call_suits x" by (simp add: call_suits_def op_suits_def)
  from stats_conserved [OF this, of w0] obtain w' where w': "stats_calls ?xs w0 = Some w'"
    "\<forall>k. metric_total (w_stats w') k = fold (call_value w0 k) ?xs (metric_total (w_stats w0) k)" by blast
  have "metric_total (w_stats w0) k = 0" for k
    by (cases k) (simp_all add: metric_total_def metric_in_def w0_def sample_world_def sample_stats_data_def)
  then have "fold (call_value w0 (Server_metric 0 1 S_requests)) ?xs (metric_total (w_stats w0) (Server_metric 0 1 S_requests)) = 4"
    "fold (call_value w0 (Server_metric 0 1 S_server_ejected_at)) ?xs (metric_total (w_stats w0) (Server_metric 0 1 S_server_ejected_at)) = 9"
    "fold (call_value w0 (Pool_metric 0 P_client_connections)) ?xs (metric_total (w_stats w0) (Pool_metric 0 P_client_connections)) = 0"
    by (simp_all add: call_value_def op_value_def sample_pool_def sample_server_def)
  with w' show ?thesis by metis
qed

end
