(* ===== verification/Event_Kqueue.thy ===== *)
theory Event_Kqueue
  imports Event_Backend Stats_Report Sample
begin

section \<open>Event notification with kqueue (\<open>event/gf_kqueue.c\<close>)\<close>

text \<open>
  The event base gathers changes in an array that the next wait hands to the kernel, and has
  the array of returned events, which the operations of the callback may still change.  A store
  beyond either array has no result.  The operations that clash with those of epoll have the
  prefix \<open>kq_\<close>.
\<close>

unbundle bit_operations_syntax

abbreviation (input) EVFILT_READ :: int where "EVFILT_READ \<equiv> - 1"
abbreviation (input) EVFILT_WRITE :: int where "EVFILT_WRITE \<equiv> - 2"
abbreviation (input) EV_ADD :: u16 where "EV_ADD \<equiv> 0x1"
abbreviation (input) EV_DELETE :: u16 where "EV_DELETE \<equiv> 0x2"
abbreviation (input) EV_CLEAR :: u16 where "EV_CLEAR \<equiv> 0x20"
abbreviation (input) EV_ERROR :: u16 where "EV_ERROR \<equiv> 0x4000"
abbreviation (input) EBADF :: int where "EBADF \<equiv> 9"
abbreviation (input) ENOENT :: int where "ENOENT \<equiv> 2"

record kq_base =
  kb_kq :: int
  kb_change :: "kevent list"
  kb_event :: "kevent list"
  kb_nevent :: nat
  kb_nreturned :: nat
  kb_nprocessed :: nat

type_synonym kq_state = "kq_base \<times> world"

definition kq_base_create :: "nat \<Rightarrow> world \<Rightarrow> (kq_base option \<times> world) option" where
  "kq_base_create nevent w = do {
     ASSERT (0 < nevent) w;
     let (r, w) = sys Sys_kqueue w;
     let kq = r_ret r;
     if kq < 0 then Some (None, w)
     else do {
       let (ok, w) = gf_alloc w;
       if \<not> ok then Some (None, snd (sys (Sys_close kq) w))
       else do {
         let (ok, w) = gf_alloc w;
         if \<not> ok then Some (None, snd (sys (Sys_close kq) w))
         else do {
           let (ok, w) = gf_alloc w;
           if \<not> ok then Some (None, snd (sys (Sys_close kq) w))
           else Some (Some \<lparr>kb_kq = kq, kb_change = [], kb_event = [], kb_nevent = nevent, kb_nreturned = 0, kb_nprocessed = 0\<rparr>, w) } } } }"

definition kq_base_destroy :: "kq_base option \<Rightarrow> world \<Rightarrow> world option" where
  "kq_base_destroy evb w = (case evb of
     None \<Rightarrow> Some w
   | Some b \<Rightarrow> do { ASSERT (0 < kb_kq b) w; Some (snd (sys (Sys_close (kb_kq b)) w)) })"

text \<open>\<open>EV_SET\<close> of the next change.\<close>

definition push_change :: "int \<Rightarrow> int \<Rightarrow> u16 \<Rightarrow> nat \<Rightarrow> kq_base \<Rightarrow> kq_base option" where
  "push_change sd filt flags c b =
     (if length (kb_change b) < kb_nevent b
      then Some (b\<lparr>kb_change := kb_change b @ [\<lparr>ke_ident = sd, ke_filter = filt, ke_flags = flags, ke_data = 0, ke_udata = Some c\<rparr>]\<rparr>)
      else None)"

definition kq_add_in :: "nat \<Rightarrow> kq_state \<Rightarrow> (int \<times> kq_state) option" where
  "kq_add_in c = (\<lambda>(b, w). do {
     ASSERT (0 < kb_kq b) w;
     ASSERT (0 < c_sd (conn w c)) w;
     ASSERT (length (kb_change b) < kb_nevent b) w;
     if c_recv_active (conn w c) then Some (0, b, w)
     else do {
       b \<leftarrow> push_change (c_sd (conn w c)) EVFILT_READ (EV_ADD OR EV_CLEAR) c b;
       Some (0, b, upd_conn c (\<lambda>s. s\<lparr>c_recv_active := True\<rparr>) w) } })"

definition kq_del_in :: "nat \<Rightarrow> kq_state \<Rightarrow> (int \<times> kq_state) option" where
  "kq_del_in c = (\<lambda>(b, w). do {
     ASSERT (0 < kb_kq b) w;
     ASSERT (0 < c_sd (conn w c)) w;
     ASSERT (length (kb_change b) < kb_nevent b) w;
     if \<not> c_recv_active (conn w c) then Some (0, b, w)
     else do {
       b \<leftarrow> push_change (c_sd (conn w c)) EVFILT_READ EV_DELETE c b;
       Some (0, b, upd_conn c (\<lambda>s. s\<lparr>c_recv_active := False\<rparr>) w) } })"

definition kq_add_out :: "nat \<Rightarrow> kq_state \<Rightarrow> (int \<times> kq_state) option" where
  "kq_add_out c = (\<lambda>(b, w). do {
     ASSERT (0 < kb_kq b) w;
     ASSERT (0 < c_sd (conn w c)) w;
     ASSERT (c_recv_active (conn w c)) w;
     ASSERT (length (kb_change b) < kb_nevent b) w;
     if c_send_active (conn w c) then Some (0, b, w)
     else do {
       b \<leftarrow> push_change (c_sd (conn w c)) EVFILT_WRITE (EV_ADD OR EV_CLEAR) c b;
       Some (0, b, upd_conn c (\<lambda>s. s\<lparr>c_send_active := True\<rparr>) w) } })"

definition kq_del_out :: "nat \<Rightarrow> kq_state \<Rightarrow> (int \<times> kq_state) option" where
  "kq_del_out c = (\<lambda>(b, w). do {
     ASSERT (0 < kb_kq b) w;
     ASSERT (0 < c_sd (conn w c)) w;
     ASSERT (c_recv_active (conn w c)) w;
     ASSERT (length (kb_change b) < kb_nevent b) w;
     if \<not> c_send_active (conn w c) then Some (0, b, w)
     else do {
       b \<leftarrow> push_change (c_sd (conn w c)) EVFILT_WRITE EV_DELETE c b;
       Some (0, b, upd_conn c (\<lambda>s. s\<lparr>c_send_active := False\<rparr>) w) } })"

definition kq_add_conn :: "nat \<Rightarrow> kq_state \<Rightarrow> (int \<times> kq_state) option" where
  "kq_add_conn c = (\<lambda>(b, w). do {
     ASSERT (0 < kb_kq b) w;
     ASSERT (0 < c_sd (conn w c)) w;
     ASSERT (\<not> c_recv_active (conn w c)) w;
     ASSERT (\<not> c_send_active (conn w c)) w;
     ASSERT (length (kb_change b) < kb_nevent b) w;
     (st, b, w) \<leftarrow> kq_add_in c (b, w);
     (st, b, w) \<leftarrow> kq_add_out c (b, w);
     Some (0, b, w) })"

text \<open>The first pending event of the descriptor is made one without filter.\<close>

fun cancel_first :: "int \<Rightarrow> kevent list \<Rightarrow> kevent list" where
  "cancel_first sd [] = []"
| "cancel_first sd (ev # evs) = (if ke_ident ev = sd then ev\<lparr>ke_flags := 0, ke_filter := 0\<rparr> # evs else ev # cancel_first sd evs)"

definition cancel_pending :: "int \<Rightarrow> kq_base \<Rightarrow> kq_base" where
  "cancel_pending sd b =
     (let i = kb_nprocessed b + 1; n = kb_nreturned b
      in b\<lparr>kb_event := take i (kb_event b) @ cancel_first sd (take (n - i) (drop i (kb_event b))) @ drop (max i n) (kb_event b)\<rparr>)"

definition kq_del_conn :: "nat \<Rightarrow> kq_state \<Rightarrow> (int \<times> kq_state) option" where
  "kq_del_conn c = (\<lambda>(b, w). do {
     ASSERT (0 < kb_kq b) w;
     ASSERT (0 < c_sd (conn w c)) w;
     ASSERT (length (kb_change b) < kb_nevent b) w;
     (st, b, w) \<leftarrow> kq_del_out c (b, w);
     (st, b, w) \<leftarrow> kq_del_in c (b, w);
     Some (0, cancel_pending (c_sd (conn w c)) b, w) })"

text \<open>The events handed to the callback; nothing for the errors the code ignores.\<close>

definition kq_mask :: "kevent \<Rightarrow> u32" where
  "kq_mask ev =
     (if ke_flags ev AND EV_ERROR \<noteq> 0 \<and> (ke_data ev = EBADF \<or> ke_data ev = EINVAL \<or> ke_data ev = ENOENT \<or> ke_data ev = EINTR) then 0
      else (let events = 0;
                events = (if ke_flags ev AND EV_ERROR \<noteq> 0 then events OR EVENT_ERR else events);
                events = (if ke_filter ev = EVFILT_READ then events OR EVENT_READ else events);
                events = (if ke_filter ev = EVFILT_WRITE then events OR EVENT_WRITE else events)
            in events))"

text \<open>
  The loop over the returned events; \<open>m\<close> is what is left of them, and a callback that changes the
  base is seen by the next turn.
\<close>

type_synonym kq_callback = "nat option \<Rightarrow> u32 \<Rightarrow> kq_state \<Rightarrow> (int \<times> kq_state) option"

primrec kq_dispatch :: "nat \<Rightarrow> kq_callback \<Rightarrow> kq_state \<Rightarrow> kq_state option" where
  "kq_dispatch 0 cb s = Some s"
| "kq_dispatch (Suc m) cb s =
     (case s of (b, w) \<Rightarrow>
        if kb_nreturned b \<le> kb_nprocessed b then Some s
        else if length (kb_event b) \<le> kb_nprocessed b then None
        else do {
          let ev = kb_event b ! kb_nprocessed b;
          (st, b, w) \<leftarrow> (if kq_mask ev = 0 then Some (0, b, w) else cb (ke_udata ev) (kq_mask ev) (b, w));
          kq_dispatch m cb (b\<lparr>kb_nprocessed := kb_nprocessed b + 1\<rparr>, w) })"

text \<open>The kernel writes at most \<open>nevent\<close> events; the fuel bounds the interruptions.\<close>

primrec kq_wait :: "nat \<Rightarrow> kq_callback \<Rightarrow> int \<Rightarrow> kq_state \<Rightarrow> (int \<times> kq_state) option" where
  "kq_wait 0 cb timeout s = None"
| "kq_wait (Suc k) cb timeout s = (case s of (b, w) \<Rightarrow> do {
     ASSERT (0 < kb_kq b) w;
     let (r, w) = sys (Sys_kevent (kb_kq b) (kb_change b) (int (kb_nevent b)) timeout) w;
     let b = b\<lparr>kb_change := []\<rparr>;
     if 0 < r_ret r then do {
       let b = b\<lparr>kb_nreturned := nat (r_ret r), kb_nprocessed := 0, kb_event := take (kb_nevent b) (r_kevents r)\<rparr>;
       (b, w) \<leftarrow> kq_dispatch (nat (r_ret r)) cb (b, w);
       Some (r_ret r, b, w) }
     else do {
       let b = b\<lparr>kb_nreturned := 0\<rparr>;
       if r_ret r = 0 then Some (if timeout = - 1 then - 1 else 0, b, w)
       else if w_errno w = EINTR then kq_wait k cb timeout (b, w)
       else Some (- 1, b, w) } })"

subsection \<open>The loop of the statistics\<close>

primrec kq_stats_wait :: "nat \<Rightarrow> nat \<Rightarrow> int \<Rightarrow> kevent \<Rightarrow> stats_ctx \<Rightarrow> world \<Rightarrow> (bool \<times> stats_ctx \<times> world) option" where
  "kq_stats_wait 0 k kq change st w = Some (True, st, w)"
| "kq_stats_wait (Suc j) k kq change st w = do {
     let (r, w) = sys (Sys_kevent kq [change] 1 (sx_interval st)) w;
     let nreturned = r_ret r;
     if nreturned < 0 then (if w_errno w = EINTR then kq_stats_wait j k kq change st w else Some (False, st, w))
     else do {
       ASSERT (nreturned \<le> 1) w;
       let evs = r_kevents r;
       if nreturned = 1 \<and> evs = [] then None
       else if nreturned = 1 \<and> ke_flags (hd evs) AND EV_ERROR \<noteq> 0 then
         (if ke_data (hd evs) = EINTR then kq_stats_wait j k kq change st w else Some (False, st, w))
       else do { (st, w) \<leftarrow> stats_loop_callback k st nreturned w; kq_stats_wait j k kq change st w } } }"

definition kq_loop_stats :: "nat \<Rightarrow> nat \<Rightarrow> stats_ctx \<Rightarrow> world \<Rightarrow> (stats_ctx \<times> world) option" where
  "kq_loop_stats j k st w = do {
     let (r, w) = sys Sys_kqueue w;
     let kq = r_ret r;
     if kq < 0 then Some (st, w)
     else do {
       let change = \<lparr>ke_ident = sx_sd st, ke_filter = EVFILT_READ, ke_flags = EV_ADD OR EV_CLEAR, ke_data = 0, ke_udata = None\<rparr>;
       (running, st, w) \<leftarrow> kq_stats_wait j k kq change st w;
       Some (st, if running then w else snd (sys (Sys_close kq) w)) } }"

subsection \<open>The flags and what the kernel is asked for\<close>

text \<open>The registered filters of each descriptor, after the changes of a list or of a trace.\<close>

definition apply_change :: "(int \<times> int) set \<Rightarrow> kevent \<Rightarrow> (int \<times> int) set" where
  "apply_change S ev =
     (if ke_flags ev AND EV_ADD \<noteq> 0 then insert (ke_ident ev, ke_filter ev) S
      else if ke_flags ev AND EV_DELETE \<noteq> 0 then S - {(ke_ident ev, ke_filter ev)} else S)"

definition registered :: "(sysop \<times> sysres) list \<Rightarrow> (int \<times> int) set" where
  "registered tr = foldl (\<lambda>S ev. case ev of
     (Sys_kevent kq changes n t, r) \<Rightarrow> foldl apply_change S changes
   | (Sys_close sd, r) \<Rightarrow> {x \<in> S. fst x \<noteq> sd}
   | _ \<Rightarrow> S) {} tr"

definition requested :: "kq_state \<Rightarrow> (int \<times> int) set" where
  "requested s = foldl apply_change (registered (w_trace (snd s))) (kb_change (fst s))"

definition kq_agrees :: "nat \<Rightarrow> kq_state \<Rightarrow> bool" where
  "kq_agrees c s \<longleftrightarrow> (let x = conn (snd s) c in
     ((c_sd x, EVFILT_READ) \<in> requested s \<longleftrightarrow> c_recv_active x) \<and> ((c_sd x, EVFILT_WRITE) \<in> requested s \<longleftrightarrow> c_send_active x))"

definition kq_do :: "nat \<Rightarrow> event_op \<Rightarrow> kq_state \<Rightarrow> (int \<times> kq_state) option" where
  "kq_do c op = (case op of Add_in \<Rightarrow> kq_add_in c | Del_in \<Rightarrow> kq_del_in c | Add_out \<Rightarrow> kq_add_out c
     | Del_out \<Rightarrow> kq_del_out c | Add_conn \<Rightarrow> kq_add_conn c | Del_conn \<Rightarrow> kq_del_conn c)"

lemma requested_push:
  "push_change sd filt flags c b = Some b' \<Longrightarrow> requested (b', w) = apply_change (requested (b, w))
     \<lparr>ke_ident = sd, ke_filter = filt, ke_flags = flags, ke_data = 0, ke_udata = Some c\<rparr>"
  by (auto simp: push_change_def requested_def split: if_splits)

lemma requested_frame [simp]:
  "requested (b, upd_conn c f w) = requested (b, w)" "requested (cancel_pending sd b, w) = requested (b, w)"
  by (simp_all add: requested_def cancel_pending_def Let_def)

lemma push_adds:
  assumes "push_change sd filt flags c b = Some b'" "flags = EV_ADD OR EV_CLEAR"
  shows "requested (b', w) = insert (sd, filt) (requested (b, w))"
  unfolding requested_push [OF assms(1)] by (simp add: apply_change_def assms(2))

lemma push_deletes:
  assumes "push_change sd filt flags c b = Some b'" "flags = EV_DELETE"
  shows "requested (b', w) = requested (b, w) - {(sd, filt)}"
  unfolding requested_push [OF assms(1)] by (simp add: apply_change_def assms(2))

lemma kq_add_in_agrees: "kq_add_in c (b, w) = Some (st, s') \<Longrightarrow> kq_agrees c (b, w) \<Longrightarrow> kq_agrees c s'"
  unfolding kq_add_in_def by (auto simp: gf_simps kq_agrees_def Let_def push_adds split: if_splits)

lemma kq_del_in_agrees: "kq_del_in c (b, w) = Some (st, s') \<Longrightarrow> kq_agrees c (b, w) \<Longrightarrow> kq_agrees c s'"
  unfolding kq_del_in_def by (auto simp: gf_simps kq_agrees_def Let_def push_deletes split: if_splits)

lemma kq_add_out_agrees: "kq_add_out c (b, w) = Some (st, s') \<Longrightarrow> kq_agrees c (b, w) \<Longrightarrow> kq_agrees c s'"
  unfolding kq_add_out_def by (auto simp: gf_simps kq_agrees_def Let_def push_adds split: if_splits)

lemma kq_del_out_agrees: "kq_del_out c (b, w) = Some (st, s') \<Longrightarrow> kq_agrees c (b, w) \<Longrightarrow> kq_agrees c s'"
  unfolding kq_del_out_def by (auto simp: gf_simps kq_agrees_def Let_def push_deletes split: if_splits)

lemmas kq_in_out_agrees = kq_add_in_agrees kq_del_in_agrees kq_add_out_agrees kq_del_out_agrees

lemma kq_do_agrees: "kq_do c op s = Some (st, s') \<Longrightarrow> kq_agrees c s \<Longrightarrow> kq_agrees c s'"
proof (cases op)
  case Add_conn
  assume "kq_do c op s = Some (st, s')" "kq_agrees c s"
  then show ?thesis using Add_conn by (cases s) (auto simp: kq_do_def kq_add_conn_def gf_simps dest!: kq_in_out_agrees)
next
  case Del_conn
  assume a: "kq_do c op s = Some (st, s')" "kq_agrees c s"
  have "kq_agrees c (cancel_pending sd b, w) = kq_agrees c (b, w)" for sd b w by (simp add: kq_agrees_def)
  then show ?thesis using Del_conn a by (cases s) (auto simp: kq_do_def kq_del_conn_def gf_simps dest!: kq_in_out_agrees)
qed (cases s; auto simp: kq_do_def dest: kq_in_out_agrees)+

interpretation kq: event_backend "kq_do c" "kq_agrees c" "\<lambda>_. True" for c
  by unfold_locales (auto dest: kq_do_agrees)

subsection \<open>A wait hands the changes over\<close>

lemma registered_kevent:
  "sys (Sys_kevent kq changes n t) w = (r, w') \<Longrightarrow> registered (w_trace w') = foldl apply_change (registered (w_trace w)) changes"
  by (auto simp: sys_def registered_def Let_def)

text \<open>
  A wait that does not fail has handed the gathered changes over when it looks at the events: the dispatch starts
  with no change left.
\<close>

lemma kq_wait_hands_over:
  "kq_wait k cb t (b, w) = Some (n, b', w') \<Longrightarrow> 0 \<le> n \<Longrightarrow>
     \<exists>b1 w1. kb_change b1 = [] \<and> registered (w_trace w1) = requested (b, w) \<and> w_conns w1 = w_conns w
       \<and> kq_dispatch (nat n) cb (b1, w1) = Some (b', w')"
proof (induction k arbitrary: b w)
  case (Suc k)
  obtain r w1 where 1: "sys (Sys_kevent (kb_kq b) (kb_change b) (int (kb_nevent b)) t) w = (r, w1)" by fastforce
  have w1: "registered (w_trace w1) = requested (b, w)" "w_conns w1 = w_conns w"
    using registered_kevent [OF 1] 1 by (auto simp: requested_def sys_def Let_def)
  let ?b = "b\<lparr>kb_change := [], kb_nreturned := 0\<rparr>"
  let ?b' = "b\<lparr>kb_change := [], kb_nreturned := nat (r_ret r), kb_nprocessed := 0, kb_event := take (kb_nevent b) (r_kevents r)\<rparr>"
  from Suc.prems consider "n = 0" "b' = ?b" "w' = w1" | "0 < n" "kq_dispatch (nat n) cb (?b', w1) = Some (b', w')"
    | "kq_wait k cb t (?b, w1) = Some (n, b', w')"
    by (auto simp: 1 gf_simps Let_def split: if_splits)
  then show ?case
  proof cases
    case 1
    with w1 show ?thesis by (intro exI [of _ ?b] exI [of _ w1]) simp
  next
    case 2
    with w1 show ?thesis by (intro exI [of _ ?b'] exI [of _ w1]) simp
  next
    case 3
    from Suc.IH [OF this Suc.prems(2)] w1 show ?thesis by (simp add: requested_def)
  qed
qed simp

text \<open>The callbacks keep the agreement when what they do to the connection is a sequence of its operations.\<close>

definition callback_agrees :: "nat \<Rightarrow> kq_callback \<Rightarrow> bool" where
  "callback_agrees c cb \<longleftrightarrow> (\<forall>u m s st s'. cb u m s = Some (st, s') \<longrightarrow> kq_agrees c s \<longrightarrow> kq_agrees c s')"

lemma kq_dispatch_agrees:
  "kq_dispatch m cb s = Some s' \<Longrightarrow> callback_agrees c cb \<Longrightarrow> kq_agrees c s \<Longrightarrow> kq_agrees c s'"
proof (induction m arbitrary: s)
  case (Suc m)
  obtain b w where s: "s = (b, w)" by fastforce
  show ?case
  proof (cases "kb_nreturned b \<le> kb_nprocessed b")
    case False
    with Suc.prems(1) obtain st b2 w2 where 1: "(if kq_mask (kb_event b ! kb_nprocessed b) = 0 then Some (0, b, w)
          else cb (ke_udata (kb_event b ! kb_nprocessed b)) (kq_mask (kb_event b ! kb_nprocessed b)) (b, w)) = Some (st, b2, w2)"
      "kq_dispatch m cb (b2\<lparr>kb_nprocessed := kb_nprocessed b2 + 1\<rparr>, w2) = Some s'"
      by (auto simp: s gf_simps Let_def split: if_splits)
    then have "kq_agrees c (b2, w2)" using Suc.prems(2,3) by (auto simp: s callback_agrees_def split: if_splits)
    then have "kq_agrees c (b2\<lparr>kb_nprocessed := kb_nprocessed b2 + 1\<rparr>, w2)" by (simp add: kq_agrees_def requested_def)
    with Suc.IH [OF 1(2) Suc.prems(2)] show ?thesis by blast
  qed (use Suc.prems s in simp)
qed simp

text \<open>
  C16: with kqueue the operations only gather changes.  After any sequence of operations
  on a connection, the next wait that does not fail, interrupted or not and with or without events, has
  handed every change to the kernel before the first event is looked at; the kernel then watches the descriptor
  for reading and for writing exactly as the flags \<open>recv_active\<close> and \<open>send_active\<close> of the connection say.
  The callbacks of the events may go on operating on the connection: afterwards the flags
  agree again with what the kernel watches together with the changes gathered for the wait that follows.
\<close>

theorem kq_flags_registered:
  assumes "run_ops (kq_do c) ops s = Some s'" "kq_agrees c s" "kq_wait k cb t s' = Some (n, b, w)" "0 \<le> n"
  shows "\<exists>b1 w1. kb_change b1 = [] \<and> w_conns w1 = w_conns (snd s')
    \<and> ((c_sd (conn w1 c), EVFILT_READ) \<in> registered (w_trace w1) \<longleftrightarrow> c_recv_active (conn w1 c))
    \<and> ((c_sd (conn w1 c), EVFILT_WRITE) \<in> registered (w_trace w1) \<longleftrightarrow> c_send_active (conn w1 c))
    \<and> kq_dispatch (nat n) cb (b1, w1) = Some (b, w)
    \<and> (callback_agrees c cb \<longrightarrow> kq_agrees c (b, w))"
proof -
  obtain b0 w0 where s': "s' = (b0, w0)" by fastforce
  obtain b1 w1 where n: "kb_change b1 = []" "registered (w_trace w1) = requested s'" "w_conns w1 = w_conns w0"
    "kq_dispatch (nat n) cb (b1, w1) = Some (b, w)" using kq_wait_hands_over assms(3,4) unfolding s' by blast
  have "kq_agrees c s'" using kq.run_agrees [OF assms(1,2) TrueI] .
  then have "kq_agrees c (b1, w1)" using n(1-3) by (simp add: kq_agrees_def Let_def s' requested_def)
  moreover have "requested (b1, w1) = registered (w_trace w1)" using n(1) by (simp add: requested_def)
  ultimately show ?thesis using n(1,3,4) kq_dispatch_agrees [OF n(4)] s'
    by (intro exI [of _ b1] exI [of _ w1]) (auto simp: kq_agrees_def Let_def)
qed

definition kq_sample :: kq_state where
  "kq_sample = (\<lparr>kb_kq = 4, kb_change = [], kb_event = [], kb_nevent = 1024, kb_nreturned = 0, kb_nprocessed = 0\<rparr>,
     upd_conn 0 (\<lambda>s. s\<lparr>c_recv_active := False\<rparr>)
       (w0\<lparr>w_os := (\<lambda>i. if i = 0 then (sample_res (- 1) [])\<lparr>r_errno := EINTR\<rparr>
         else (sample_res 1 [])\<lparr>r_kevents := [\<lparr>ke_ident = 0, ke_filter = EVFILT_READ, ke_flags = 0, ke_data = 1, ke_udata = Some 0\<rparr>]\<rparr>)\<rparr>))"

definition kq_sample_cb :: kq_callback where
  "kq_sample_cb u e s = Some (0, s)"

lemmas kq_sample_defs = kq_sample_def kq_sample_cb_def kq_do_def kq_add_conn_def kq_add_in_def kq_add_out_def kq_del_out_def push_change_def
  sys_def ASSERT_def upd_conn_def sample_conn_def sample_res_def Let_def split_def

text \<open>Between the two operations and the wait nothing is registered; the wait is interrupted once and then returns an event.\<close>

lemma kq_flags_registered_witness:
  "\<exists>s b w b1 w1. run_ops (kq_do 0) [Add_conn, Del_out] kq_sample = Some s \<and> kq_wait 2 kq_sample_cb 100 s = Some (1, b, w)
     \<and> kb_change b1 = [] \<and> (c_sd (conn w1 0), EVFILT_READ) \<in> registered (w_trace w1)
     \<and> (c_sd (conn w1 0), EVFILT_WRITE) \<notin> registered (w_trace w1)
     \<and> kq_dispatch (nat 1) kq_sample_cb (b1, w1) = Some (b, w) \<and> kq_agrees 0 (b, w)"
proof -
  obtain s b w where s: "run_ops (kq_do 0) [Add_conn, Del_out] kq_sample = Some s" and r: "kq_wait 2 kq_sample_cb 100 s = Some (1, b, w)"
    and f: "c_recv_active (conn (snd s) 0)" "\<not> c_send_active (conn (snd s) 0)"
    by (simp add: kq_sample_defs numeral_2_eq_2)
  have "kq_agrees 0 kq_sample" by (simp add: kq_sample_defs kq_agrees_def requested_def registered_def)
  from kq_flags_registered [OF s this r zero_le_one] obtain b1 w1 where 1: "kb_change b1 = []" "w_conns w1 = w_conns (snd s)"
    "(c_sd (conn w1 0), EVFILT_READ) \<in> registered (w_trace w1) \<longleftrightarrow> c_recv_active (conn w1 0)"
    "(c_sd (conn w1 0), EVFILT_WRITE) \<in> registered (w_trace w1) \<longleftrightarrow> c_send_active (conn w1 0)"
    "kq_dispatch (nat 1) kq_sample_cb (b1, w1) = Some (b, w)" "callback_agrees 0 kq_sample_cb \<longrightarrow> kq_agrees 0 (b, w)" by blast
  moreover have "callback_agrees 0 kq_sample_cb" by (simp add: callback_agrees_def kq_sample_cb_def)
  ultimately show ?thesis using s r f by (intro exI [of _ s] exI [of _ b] exI [of _ w] exI [of _ b1] exI [of _ w1]) simp
qed

subsection \<open>The room for changes\<close>

text \<open>The connections a listening socket accepts in one go are added one after the other.\<close>

primrec kq_add_conns :: "nat list \<Rightarrow> kq_state \<Rightarrow> kq_state option" where
  "kq_add_conns [] s = Some s"
| "kq_add_conns (c # cs) s = do { (st, s) \<leftarrow> kq_add_conn c s; kq_add_conns cs s }"

lemma kq_add_conn_room:
  assumes "0 < kb_kq b" "0 < c_sd (conn w c)" "\<not> c_recv_active (conn w c)" "\<not> c_send_active (conn w c)"
  shows "kq_add_conn c (b, w) =
     (if length (kb_change b) + 2 \<le> kb_nevent b
      then Some (0, b\<lparr>kb_change := kb_change b @
          [\<lparr>ke_ident = c_sd (conn w c), ke_filter = EVFILT_READ, ke_flags = EV_ADD OR EV_CLEAR, ke_data = 0, ke_udata = Some c\<rparr>,
           \<lparr>ke_ident = c_sd (conn w c), ke_filter = EVFILT_WRITE, ke_flags = EV_ADD OR EV_CLEAR, ke_data = 0, ke_udata = Some c\<rparr>]\<rparr>,
        upd_conn c (\<lambda>s. s\<lparr>c_send_active := True\<rparr>) (upd_conn c (\<lambda>s. s\<lparr>c_recv_active := True\<rparr>) w))
      else None)"
  using assms by (auto simp: kq_add_conn_def kq_add_in_def kq_add_out_def push_change_def ASSERT_def)

text \<open>
  every new connection takes two of the \<open>nevent\<close> places for changes, which
  only the next wait frees.  Adding a batch of new connections works exactly when two places for
  each are left; one more connection (the 513th for an empty array of 1024, as the core makes it)
  has no result: the assertion fails or the change is stored beyond the array.
\<close>

theorem kq_add_conns_fit:
  assumes "0 < kb_kq b" "distinct cs" "length (kb_change b) \<le> kb_nevent b"
    and "\<forall>c\<in>set cs. 0 < c_sd (conn w c) \<and> \<not> c_recv_active (conn w c) \<and> \<not> c_send_active (conn w c)"
  shows "(kq_add_conns cs (b, w) \<noteq> None) \<longleftrightarrow> length (kb_change b) + 2 * length cs \<le> kb_nevent b"
  using assms
proof (induction cs arbitrary: b w)
  case (Cons c cs)
  show ?case
  proof (cases "length (kb_change b) + 2 \<le> kb_nevent b")
    case True
    obtain b1 w1 where 1: "kq_add_conn c (b, w) = Some (0, b1, w1)"
      "length (kb_change b1) = length (kb_change b) + 2" "kb_nevent b1 = kb_nevent b" "kb_kq b1 = kb_kq b"
      "\<forall>d. d \<noteq> c \<longrightarrow> conn w1 d = conn w d"
      using Cons.prems True by (simp add: kq_add_conn_room)
    have "(kq_add_conns cs (b1, w1) \<noteq> None) \<longleftrightarrow> length (kb_change b1) + 2 * length cs \<le> kb_nevent b1"
    proof (rule Cons.IH)
      show "\<forall>d\<in>set cs. 0 < c_sd (conn w1 d) \<and> \<not> c_recv_active (conn w1 d) \<and> \<not> c_send_active (conn w1 d)"
        using 1(5) Cons.prems(2,4) by auto
    qed (use 1 Cons.prems True in auto)
    with 1 show ?thesis by simp
  qed (use Cons.prems in \<open>simp add: kq_add_conn_room\<close>)
qed auto

lemma kq_add_conns_fit_witness:
  "kq_add_conns [0] kq_sample \<noteq> None \<and> kq_add_conns [0] ((fst kq_sample)\<lparr>kb_nevent := 1\<rparr>, snd kq_sample) = None"
  using kq_add_conns_fit [of "fst kq_sample" "[0]" "snd kq_sample"]
    kq_add_conns_fit [of "(fst kq_sample)\<lparr>kb_nevent := 1\<rparr>" "[0]" "snd kq_sample"]
  by (simp add: kq_sample_defs)

end
