(* ===== verification/Event_Port.thy ===== *)
theory Event_Port
  imports Event_Backend Stats_Report Sample
begin

section \<open>Event notification with event ports (\<open>event/gf_evport.c\<close>)\<close>

text \<open>
  A descriptor is associated with the port together with the address of its connection.  An
  event that has been retrieved ends the association, so the wait renews it after the callback.
  The operations have the prefix \<open>port_\<close>; the port is \<open>w_ep\<close>.
\<close>

unbundle bit_operations_syntax

abbreviation (input) POLLIN :: u32 where "POLLIN \<equiv> 0x1"
abbreviation (input) POLLOUT :: u32 where "POLLOUT \<equiv> 0x4"
abbreviation (input) POLLERR :: u32 where "POLLERR \<equiv> 0x8"
abbreviation (input) POLLHUP :: u32 where "POLLHUP \<equiv> 0x10"
abbreviation (input) ETIME :: int where "ETIME \<equiv> 62"
abbreviation (input) ENOENT :: int where "ENOENT \<equiv> 2"

definition port_base_create :: "int \<Rightarrow> world \<Rightarrow> (bool \<times> world) option" where
  "port_base_create nevent w = do {
     ASSERT (0 < nevent) w;
     let (r, w) = sys Sys_port_create w;
     let evp = r_ret r;
     if evp < 0 then Some (False, w)
     else do {
       let (ok, w) = gf_alloc w;
       if \<not> ok then Some (False, snd (sys (Sys_close evp) w))
       else do {
         let (ok, w) = gf_alloc w;
         if \<not> ok then Some (False, snd (sys (Sys_close evp) w))
         else Some (True, w\<lparr>w_ep := evp, w_nevent := nevent\<rparr>) } } }"

definition port_base_destroy :: "world \<Rightarrow> world option" where
  "port_base_destroy w = do {
     ASSERT (0 \<le> w_ep w) w;
     let (r, w) = sys (Sys_close (w_ep w)) w;
     Some (w\<lparr>w_ep := - 1\<rparr>) }"

definition port_associate :: "int \<Rightarrow> u32 \<Rightarrow> nat \<Rightarrow> world \<Rightarrow> int \<times> world" where
  "port_associate sd events c w =
     (let (r, w) = sys (Sys_port_associate (w_ep w) sd events (Some c)) w in (r_ret r, w))"

definition port_add_in :: "nat \<Rightarrow> world \<Rightarrow> (int \<times> world) option" where
  "port_add_in c w = Some (0, w)"

definition port_del_in :: "nat \<Rightarrow> world \<Rightarrow> (int \<times> world) option" where
  "port_del_in c w = Some (0, w)"

definition port_add_out :: "nat \<Rightarrow> world \<Rightarrow> (int \<times> world) option" where
  "port_add_out c w = do {
     ASSERT (0 < w_ep w) w;
     ASSERT (0 < c_sd (conn w c)) w;
     ASSERT (c_recv_active (conn w c)) w;
     if c_send_active (conn w c) then Some (0, w)
     else do {
       let (status, w) = port_associate (c_sd (conn w c)) (POLLIN OR POLLOUT) c w;
       Some (status, if status < 0 then w else upd_conn c (\<lambda>s. s\<lparr>c_send_active := True\<rparr>) w) } }"

definition port_del_out :: "nat \<Rightarrow> world \<Rightarrow> (int \<times> world) option" where
  "port_del_out c w = do {
     ASSERT (0 < w_ep w) w;
     ASSERT (0 < c_sd (conn w c)) w;
     ASSERT (c_recv_active (conn w c)) w;
     if \<not> c_send_active (conn w c) then Some (0, w)
     else do {
       let (status, w) = port_associate (c_sd (conn w c)) POLLIN c w;
       Some (status, if status < 0 then w else upd_conn c (\<lambda>s. s\<lparr>c_send_active := False\<rparr>) w) } }"

definition port_add_conn :: "nat \<Rightarrow> world \<Rightarrow> (int \<times> world) option" where
  "port_add_conn c w = do {
     ASSERT (0 < w_ep w) w;
     ASSERT (0 < c_sd (conn w c)) w;
     ASSERT (\<not> c_recv_active (conn w c)) w;
     ASSERT (\<not> c_send_active (conn w c)) w;
     let (status, w) = port_associate (c_sd (conn w c)) (POLLIN OR POLLOUT) c w;
     Some (status, if status < 0 then w
                   else upd_conn c (\<lambda>s. s\<lparr>c_send_active := True, c_recv_active := True\<rparr>) w) }"

definition port_del_conn :: "nat \<Rightarrow> world \<Rightarrow> (int \<times> world) option" where
  "port_del_conn c w = do {
     ASSERT (0 < w_ep w) w;
     ASSERT (0 < c_sd (conn w c)) w;
     if \<not> c_send_active (conn w c) \<and> \<not> c_recv_active (conn w c) then Some (0, w)
     else do {
       let (r, w) = sys (Sys_port_dissociate (w_ep w) (c_sd (conn w c))) w;
       if r_ret r < 0 \<and> w_errno w \<noteq> ENOENT then Some (r_ret r, w)
       else Some (0, upd_conn c (\<lambda>s. s\<lparr>c_recv_active := False, c_send_active := False\<rparr>) w) } }"

definition port_reassociate :: "nat \<Rightarrow> world \<Rightarrow> (int \<times> world) option" where
  "port_reassociate c w = do {
     ASSERT (0 < w_ep w) w;
     ASSERT (0 < c_sd (conn w c)) w;
     ASSERT (c_recv_active (conn w c)) w;
     Some (port_associate (c_sd (conn w c)) (if c_send_active (conn w c) then POLLIN OR POLLOUT else POLLIN) c w) }"

text \<open>The events handed to the callback.\<close>

definition port_mask :: "u32 \<Rightarrow> u32" where
  "port_mask ev =
     (let events = 0;
          events = (if ev AND POLLERR \<noteq> 0 then events OR EVENT_ERR else events);
          events = (if ev AND POLLIN \<noteq> 0 then events OR EVENT_READ else events);
          events = (if ev AND POLLOUT \<noteq> 0 then events OR EVENT_WRITE else events)
      in events)"

primrec port_dispatch :: "(nat \<Rightarrow> u32 \<Rightarrow> world \<Rightarrow> (int \<times> world) option) \<Rightarrow> (nat \<times> u32) list \<Rightarrow> world \<Rightarrow> world option" where
  "port_dispatch cb [] w = Some w"
| "port_dispatch cb (ev # evs) w =
     (if port_mask (snd ev) = 0 then port_dispatch cb evs w
      else do {
        (status, w) \<leftarrow> cb (fst ev) (port_mask (snd ev)) w;
        if status < 0 then port_dispatch cb evs w
        else do { (st, w) \<leftarrow> port_reassociate (fst ev) w; port_dispatch cb evs w } })"

text \<open>
  The number of events is \<open>r_val\<close>, which is set when the time has passed too; the fuel bounds
  the interruptions.
\<close>

primrec port_wait ::
  "nat \<Rightarrow> (nat \<Rightarrow> u32 \<Rightarrow> world \<Rightarrow> (int \<times> world) option) \<Rightarrow> int \<Rightarrow> world \<Rightarrow> (int \<times> world) option" where
  "port_wait 0 cb timeout w = None"
| "port_wait (Suc k) cb timeout w = do {
     ASSERT (0 < w_ep w) w;
     ASSERT (0 < w_nevent w) w;
     let (r, w) = sys (Sys_port_getn (w_ep w) (w_nevent w) timeout) w;
     if r_ret r < 0 \<and> (w_errno w = EINTR \<or> w_errno w = EAGAIN) then port_wait k cb timeout w
     else if r_ret r < 0 \<and> w_errno w \<noteq> ETIME then Some (- 1, w)
     else do {
       let nreturned = r_val r;
       if 0 < nreturned then do {
         w \<leftarrow> port_dispatch cb (take (nat nreturned) (r_events r)) w;
         Some (nreturned, w) }
       else Some (if timeout = - 1 then - 1 else 0, w) } }"

subsection \<open>The loop of the statistics\<close>

primrec port_stats_wait :: "nat \<Rightarrow> nat \<Rightarrow> int \<Rightarrow> stats_ctx \<Rightarrow> world \<Rightarrow> (bool \<times> stats_ctx \<times> world) option" where
  "port_stats_wait 0 k evp st w = Some (True, st, w)"
| "port_stats_wait (Suc j) k evp st w = do {
     let (r, w) = sys (Sys_port_getn evp 1 (sx_interval st)) w;
     if r_ret r \<noteq> GF_OK \<and> (w_errno w = EINTR \<or> w_errno w = EAGAIN) then port_stats_wait j k evp st w
     else if r_ret r \<noteq> GF_OK \<and> w_errno w \<noteq> ETIME then Some (False, st, w)
     else do {
       let nreturned = r_val r;
       ASSERT (nreturned \<le> 1) w;
       let w = (if nreturned = 1 then snd (sys (Sys_port_associate evp (sx_sd st) POLLIN None) w) else w);
       (st, w) \<leftarrow> stats_loop_callback k st nreturned w;
       port_stats_wait j k evp st w } }"

definition port_loop_stats :: "nat \<Rightarrow> nat \<Rightarrow> stats_ctx \<Rightarrow> world \<Rightarrow> (stats_ctx \<times> world) option" where
  "port_loop_stats j k st w = do {
     let (r, w) = sys Sys_port_create w;
     let evp = r_ret r;
     if evp < 0 then Some (st, w)
     else do {
       let (r, w) = sys (Sys_port_associate evp (sx_sd st) POLLIN None) w;
       (running, st, w) \<leftarrow> (if r_ret r < 0 then Some (False, st, w) else port_stats_wait j k evp st w);
       Some (st, if running then w else snd (sys (Sys_close evp) w)) } }"

subsection \<open>The associations\<close>

text \<open>
  What the port watches a descriptor for, and for which connection, after a trace: an event
  that was retrieved ends the association of its connection.
\<close>

definition assoc_step :: "int \<Rightarrow> (u32 \<times> nat option) option \<Rightarrow> sysop \<times> sysres \<Rightarrow> (u32 \<times> nat option) option" where
  "assoc_step sd a ev = (case ev of
     (Sys_port_associate evp sd' events u, r) \<Rightarrow> if sd' = sd \<and> 0 \<le> r_ret r then Some (events, u) else a
   | (Sys_port_dissociate evp sd', r) \<Rightarrow> if sd' = sd \<and> 0 \<le> r_ret r then None else a
   | (Sys_port_getn evp n t, r) \<Rightarrow>
       (case a of Some (e, Some c) \<Rightarrow> if c \<in> fst ` set (take (nat (r_val r)) (r_events r)) then None else a | _ \<Rightarrow> a)
   | (Sys_close sd', r) \<Rightarrow> if sd' = sd then None else a
   | _ \<Rightarrow> a)"

definition association :: "int \<Rightarrow> (sysop \<times> sysres) list \<Rightarrow> (u32 \<times> nat option) option" where
  "association sd tr = foldl (assoc_step sd) None tr"

text \<open>The association the flags of a connection ask for.\<close>

definition asked :: "conn \<Rightarrow> nat \<Rightarrow> (u32 \<times> nat option) option" where
  "asked s c = (if c_recv_active s then Some (POLLIN OR (if c_send_active s then POLLOUT else 0), Some c) else None)"

definition port_agrees :: "nat \<Rightarrow> world \<Rightarrow> bool" where
  "port_agrees c w \<longleftrightarrow> association (c_sd (conn w c)) (w_trace w) = asked (conn w c) c
     \<and> (c_send_active (conn w c) \<longrightarrow> c_recv_active (conn w c))"

definition port_do :: "nat \<Rightarrow> event_op \<Rightarrow> world \<Rightarrow> (int \<times> world) option" where
  "port_do c op = (case op of Add_in \<Rightarrow> port_add_in c | Del_in \<Rightarrow> port_del_in c | Add_out \<Rightarrow> port_add_out c
     | Del_out \<Rightarrow> port_del_out c | Add_conn \<Rightarrow> port_add_conn c | Del_conn \<Rightarrow> port_del_conn c)"

text \<open>While the callback of a retrieved event runs, the association may be missing.\<close>

definition port_agrees_or_none :: "nat \<Rightarrow> world \<Rightarrow> bool" where
  "port_agrees_or_none c w \<longleftrightarrow>
     (association (c_sd (conn w c)) (w_trace w) = None \<or> association (c_sd (conn w c)) (w_trace w) = asked (conn w c) c)
     \<and> (c_send_active (conn w c) \<longrightarrow> c_recv_active (conn w c))"

text \<open>
  The rules: the assertions are on (adding or removing the interest in writing of a connection
  that is not watched is the caller's mistake), and \<open>port_dissociate\<close> fails with \<open>ENOENT\<close> only
  when there is no association.
\<close>

definition enoent_ok :: "(sysop \<times> sysres) list \<Rightarrow> sysop \<times> sysres \<Rightarrow> bool" where
  "enoent_ok tr ev = (case ev of
     (Sys_port_dissociate evp sd, r) \<Rightarrow> r_ret r < 0 \<and> r_errno r = ENOENT \<longrightarrow> association sd tr = None
   | _ \<Rightarrow> True)"

definition port_fine :: "world \<Rightarrow> bool" where
  "port_fine w \<longleftrightarrow> w_panic w \<and> (\<forall>i<length (w_trace w). enoent_ok (take i (w_trace w)) (w_trace w ! i))"

lemma association_snoc: "association sd (tr @ [ev]) = assoc_step sd (association sd tr) ev"
  by (simp add: association_def)

lemma port_fine_append:
  assumes "port_fine w'" "w_trace w' = w_trace w @ tr" "w_panic w' = w_panic w"
  shows "port_fine w"
  unfolding port_fine_def
proof (intro conjI allI impI)
  show "w_panic w" using assms by (simp add: port_fine_def)
  fix i assume "i < length (w_trace w)"
  with assms show "enoent_ok (take i (w_trace w)) (w_trace w ! i)"
    unfolding port_fine_def by (elim conjE allE [of _ i]) (simp add: nth_append)
qed

lemma port_fine_last:
  "port_fine w \<Longrightarrow> w_trace w = tr @ [(Sys_port_dissociate evp sd, r)] \<Longrightarrow> r_ret r < 0 \<Longrightarrow> r_errno r = ENOENT \<Longrightarrow> association sd tr = None"
  unfolding port_fine_def by (elim conjE allE [of _ "length tr"]) (simp add: enoent_ok_def)

lemma port_associate_result:
  "port_associate sd events c w = (st, w') \<Longrightarrow> \<exists>r. r_ret r = st \<and> w_trace w' = w_trace w @ [(Sys_port_associate (w_ep w) sd events (Some c), r)]
     \<and> w_conns w' = w_conns w \<and> w_panic w' = w_panic w"
  by (auto simp: port_associate_def sys_def Let_def)

lemma port_do_trace:
  "port_do c op w = Some (st, w') \<Longrightarrow> w_panic w' = w_panic w \<and> (\<exists>tr. w_trace w' = w_trace w @ tr)"
  by (cases op) (auto simp: port_do_def port_add_in_def port_del_in_def port_add_out_def port_del_out_def port_add_conn_def
    port_del_conn_def gf_simps sys_def Let_def split: if_splits prod.splits dest!: port_associate_result)

lemma port_do_fine: "port_do c op w = Some (st, w') \<Longrightarrow> port_fine w' \<Longrightarrow> port_fine w"
  by (auto dest!: port_do_trace dest: port_fine_append)

lemma port_add_out_agrees:
  assumes "port_add_out c w = Some (st, w')" "port_fine w'"
  shows "port_agrees c w \<Longrightarrow> port_agrees c w'" "port_agrees_or_none c w \<Longrightarrow> port_agrees_or_none c w'"
  using assms
  by (auto simp: port_add_out_def port_agrees_def port_agrees_or_none_def asked_def gf_simps port_fine_def association_snoc assoc_step_def
      split: if_splits prod.splits dest!: port_associate_result)

lemma port_del_out_agrees:
  assumes "port_del_out c w = Some (st, w')" "port_fine w'"
  shows "port_agrees c w \<Longrightarrow> port_agrees c w'" "port_agrees_or_none c w \<Longrightarrow> port_agrees_or_none c w'"
  using assms
  by (auto simp: port_del_out_def port_agrees_def port_agrees_or_none_def asked_def gf_simps port_fine_def association_snoc assoc_step_def
      split: if_splits prod.splits dest!: port_associate_result)

lemma port_add_conn_agrees:
  assumes "port_add_conn c w = Some (st, w')"
  shows "port_agrees c w \<Longrightarrow> port_agrees c w'" "port_agrees_or_none c w \<Longrightarrow> port_agrees_or_none c w'"
  using assms
  by (auto simp: port_add_conn_def port_agrees_def port_agrees_or_none_def asked_def gf_simps association_snoc assoc_step_def
      split: if_splits prod.splits dest!: port_associate_result)

lemma port_del_conn_cases:
  assumes "port_del_conn c w = Some (st, w')" "port_fine w'"
  obtains "w_trace w' = w_trace w" "w_conns w' = w_conns w"
  | "association (c_sd (conn w c)) (w_trace w') = association (c_sd (conn w c)) (w_trace w)" "w_conns w' = w_conns w"
  | "association (c_sd (conn w c)) (w_trace w') = None" "conn w' c = (conn w c)\<lparr>c_recv_active := False, c_send_active := False\<rparr>"
proof (cases "\<not> c_send_active (conn w c) \<and> \<not> c_recv_active (conn w c)")
  case False
  let ?r = "w_os w (w_tick w)" and ?ev = "Sys_port_dissociate (w_ep w) (c_sd (conn w c))"
  have tr: "w_trace w' = w_trace w @ [(?ev, ?r)]"
    and cs: "if r_ret ?r < 0 \<and> r_errno ?r \<noteq> ENOENT then w_conns w' = w_conns w
       else conn w' c = (conn w c)\<lparr>c_recv_active := False, c_send_active := False\<rparr>"
    using assms(1) False by (auto simp: port_del_conn_def gf_simps sys_def Let_def split: if_splits)
  have assoc: "association (c_sd (conn w c)) (w_trace w') = (if 0 \<le> r_ret ?r then None else association (c_sd (conn w c)) (w_trace w))"
    unfolding tr association_snoc by (simp add: assoc_step_def)
  show ?thesis
  proof (cases "r_ret ?r < 0 \<and> r_errno ?r \<noteq> ENOENT")
    case True
    with assoc cs show ?thesis by (intro that(2)) auto
  next
    case False
    then have "association (c_sd (conn w c)) (w_trace w') = None" using assoc port_fine_last [OF assms(2) tr] by auto
    with False cs show ?thesis by (intro that(3)) auto
  qed
next
  case True
  then have "w' = w" using assms(1) by (auto simp: port_del_conn_def gf_simps)
  then show ?thesis using that(1) by simp
qed

lemma port_do_agrees:
  assumes "port_do c op w = Some (st, w')" "port_fine w'"
  shows "port_agrees c w \<Longrightarrow> port_agrees c w'" "port_agrees_or_none c w \<Longrightarrow> port_agrees_or_none c w'"
proof -
  have "port_del_conn c w = Some (st, w') \<Longrightarrow> (port_agrees c w \<longrightarrow> port_agrees c w') \<and> (port_agrees_or_none c w \<longrightarrow> port_agrees_or_none c w')"
    by (erule port_del_conn_cases [OF _ assms(2)]) (auto simp: port_agrees_def port_agrees_or_none_def asked_def)
  then show "port_agrees c w \<Longrightarrow> port_agrees c w'" "port_agrees_or_none c w \<Longrightarrow> port_agrees_or_none c w'"
    using assms port_add_out_agrees port_del_out_agrees port_add_conn_agrees
    by (cases op; auto simp: port_do_def port_add_in_def port_del_in_def)+
qed

interpretation port: event_backend "port_do c" "port_agrees c" port_fine for c
  by unfold_locales (blast intro: port_do_agrees(1) port_do_fine)+

text \<open>The same operations in a callback, when the association may be missing.\<close>

interpretation port_retrieved: event_backend "port_do c" "port_agrees_or_none c" port_fine for c
  by unfold_locales (blast intro: port_do_agrees(2) port_do_fine)+

subsection \<open>An event and its renewal\<close>

lemma getn_ends_association:
  assumes "sys (Sys_port_getn (w_ep w) n t) w = (r, w')" "r_val r = 1" "r_events r = [(c, ev)]" "port_agrees c w"
  shows "association (c_sd (conn w' c)) (w_trace w') = None \<and> w_conns w' = w_conns w \<and> w_panic w' = w_panic w
    \<and> (\<exists>tr. w_trace w' = w_trace w @ tr)"
  using assms by (auto simp: sys_def Let_def port_agrees_def asked_def association_snoc assoc_step_def)

lemma reassociate_agrees:
  assumes "port_reassociate c w = Some (st, w')" "port_agrees_or_none c w" "w_panic w" "0 \<le> st"
  shows "port_agrees c w'"
  using assms
  by (auto simp: port_reassociate_def port_agrees_or_none_def port_agrees_def asked_def gf_simps association_snoc assoc_step_def
      split: if_splits dest!: port_associate_result)

lemma reassociate_result:
  "port_reassociate c w = Some (st, w') \<Longrightarrow> \<exists>ev r. w_trace w' = w_trace w @ [(ev, r)] \<and> r_ret r = st \<and> w_panic w' = w_panic w"
  by (auto simp: port_reassociate_def gf_simps dest!: port_associate_result)

text \<open>
  C26: with event ports a retrieved event ends the association of its
  connection.  When the event has one of the bits for error, reading or writing, the callback
  runs, and whatever operations on the connection it made, the association is renewed and again
  what the flags say (if the kernel accepts it).  An event with none of them, such as a hang-up
  alone, skips the renewal with the callback: the flag says the connection is watched for
  reading, and no association is left.
\<close>

theorem port_event_rearms:
  assumes "port_wait (Suc k) cb timeout w = Some (1, w')" "port_agrees c w" "c_recv_active (conn w c)" "port_fine w'"
    and "0 \<le> r_ret (w_os w (w_tick w))" "r_val (w_os w (w_tick w)) = 1" "r_events (w_os w (w_tick w)) = [(c, ev)]"
    and "\<And>w. cb c (port_mask ev) w = map_option (Pair 0) (run_ops (port_do c) ops w)"
    and "port_mask ev \<noteq> 0 \<longrightarrow> 0 \<le> r_ret (snd (last (w_trace w')))"
  shows "if port_mask ev = 0 then c_recv_active (conn w' c) \<and> association (c_sd (conn w' c)) (w_trace w') = None
    else port_agrees c w'"
proof -
  obtain w1 where s: "sys (Sys_port_getn (w_ep w) (w_nevent w) timeout) w = (w_os w (w_tick w), w1)" by (simp add: sys_def Let_def)
  from getn_ends_association [OF s assms(6,7,2)] have
    1: "association (c_sd (conn w1 c)) (w_trace w1) = None" "w_conns w1 = w_conns w" by auto
  from assms(1) have d: "port_dispatch cb [(c, ev)] w1 = Some w'"
    using assms(5-7) by (auto simp: s gf_simps Let_def)
  show ?thesis
  proof (cases "port_mask ev = 0")
    case False
    from d False obtain w2 st where 2: "run_ops (port_do c) ops w1 = Some w2" "port_reassociate c w2 = Some (st, w')"
      by (auto simp: assms(8) gf_simps)
    from reassociate_result [OF 2(2)] assms(9) False have st: "0 \<le> st" and tr: "\<exists>tr. w_trace w' = w_trace w2 @ tr" "w_panic w' = w_panic w2"
      by auto
    then have "port_fine w2" using port_fine_append [OF assms(4)] by blast
    moreover have "port_agrees_or_none c w1" using 1 assms(2) by (simp add: port_agrees_or_none_def port_agrees_def)
    ultimately have "port_agrees_or_none c w2" using port_retrieved.run_agrees [OF 2(1)] by simp
    from reassociate_agrees [OF 2(2) this] \<open>port_fine w2\<close> st False show ?thesis by (simp add: port_fine_def)
  qed (use d 1 assms(3) in simp)
qed

definition port_w :: "u32 \<Rightarrow> world" where
  "port_w ev = upd_conn 0 (\<lambda>s. s\<lparr>c_send_active := True\<rparr>) (w0\<lparr>w_ep := 4, w_nevent := 8, w_panic := True,
     w_trace := [(Sys_port_associate 4 5 (POLLIN OR POLLOUT) (Some 0), sample_res 0 [])],
     w_os := (\<lambda>i. if i = 0 then (sample_res 0 [])\<lparr>r_val := 1, r_events := [(0, ev)]\<rparr> else sample_res 0 [])\<rparr>)"

definition port_cb :: "nat \<Rightarrow> u32 \<Rightarrow> world \<Rightarrow> (int \<times> world) option" where
  "port_cb c m w = map_option (Pair 0) (run_ops (port_do c) [Del_out] w)"

lemma port_mask_values: "port_mask POLLIN = EVENT_READ" "port_mask POLLHUP = 0"
  by (simp_all add: port_mask_def Let_def)

lemmas port_sample_defs = port_w_def port_cb_def port_do_def port_del_out_def port_associate_def port_reassociate_def port_mask_values
  sys_def ASSERT_def upd_conn_def sample_conn_def sample_res_def Let_def split_def

lemma port_w_ready:
  "port_agrees 0 (port_w ev)" "c_recv_active (conn (port_w ev) 0)" "0 \<le> r_ret (w_os (port_w ev) (w_tick (port_w ev)))"
  "r_val (w_os (port_w ev) (w_tick (port_w ev))) = 1" "r_events (w_os (port_w ev) (w_tick (port_w ev))) = [(0, ev)]"
  by (simp_all add: port_sample_defs port_agrees_def asked_def association_def assoc_step_def)

lemma port_event_rearms_witness:
  "(\<exists>w'. port_wait 1 port_cb 100 (port_w POLLIN) = Some (1, w') \<and> port_agrees 0 w')
   \<and> (\<exists>w'. port_wait 1 port_cb 100 (port_w POLLHUP) = Some (1, w') \<and> c_recv_active (conn w' 0)
        \<and> association (c_sd (conn w' 0)) (w_trace w') = None)"
proof (intro conjI)
  obtain w' where 1: "port_wait (Suc 0) port_cb 100 (port_w POLLIN) = Some (1, w')" "port_fine w'" "0 \<le> r_ret (snd (last (w_trace w')))"
    by (simp add: port_sample_defs port_fine_def enoent_ok_def less_Suc_eq)
  have "port_agrees 0 w'"
    using port_event_rearms [OF 1(1) port_w_ready(1,2) 1(2) port_w_ready(3-5), of "[Del_out]"] 1(3)
    by (simp add: port_cb_def port_mask_values)
  with 1 show "\<exists>w'. port_wait 1 port_cb 100 (port_w POLLIN) = Some (1, w') \<and> port_agrees 0 w'" by auto
next
  obtain w' where 1: "port_wait (Suc 0) port_cb 100 (port_w POLLHUP) = Some (1, w')" "port_fine w'"
    by (simp add: port_sample_defs port_fine_def enoent_ok_def less_Suc_eq)
  have "c_recv_active (conn w' 0) \<and> association (c_sd (conn w' 0)) (w_trace w') = None"
    using port_event_rearms [OF 1(1) port_w_ready(1,2) 1(2) port_w_ready(3-5), of "[Del_out]"]
    by (simp add: port_cb_def port_mask_values)
  with 1 show "\<exists>w'. port_wait 1 port_cb 100 (port_w POLLHUP) = Some (1, w') \<and> c_recv_active (conn w' 0)
        \<and> association (c_sd (conn w' 0)) (w_trace w') = None" by auto
qed

end
