(* ===== verification/Object_Pool.thy ===== *)
theory Object_Pool
  imports Prelude
begin

section \<open>Pools of reusable objects\<close>

text \<open>
  The contract that the free lists of mbufs, messages and connections share: \<open>get\<close> hands
  out an object that nobody holds, \<open>put\<close> takes one back, and nothing else changes hands.
  The clients of a pool rest on the consequence proved here: in every run of gets and puts
  of held objects, the held objects are distinct.
\<close>

datatype pool_op = Get | Put nat

text \<open>A run of a client that puts back only what it holds; \<open>None\<close> is a failed assertion.\<close>

fun pool_run ::
  "('s \<Rightarrow> (nat option \<times> 's) option) \<Rightarrow> (nat \<Rightarrow> 's \<Rightarrow> 's option) \<Rightarrow> pool_op list \<Rightarrow> nat list \<Rightarrow> 's \<Rightarrow> (nat list \<times> 's) option"
where
  "pool_run get put [] held s = Some (held, s)"
| "pool_run get put (Get # ops) held s = do {
     (r, s) \<leftarrow> get s;
     pool_run get put ops (case r of None \<Rightarrow> held | Some x \<Rightarrow> x # held) s }"
| "pool_run get put (Put x # ops) held s =
     (if x \<in> set held then do { s \<leftarrow> put x s; pool_run get put ops (remove1 x held) s }
      else pool_run get put ops held s)"

text \<open>
  \<open>count\<close> is the number of objects ever allocated: the counters of free objects are 32 bits
  wide, so the contract holds below \<open>2^32\<close> of them.
\<close>

locale object_pool =
  fixes get :: "'s \<Rightarrow> (nat option \<times> 's) option"
    and put :: "nat \<Rightarrow> 's \<Rightarrow> 's option"
    and live :: "'s \<Rightarrow> nat set"
    and count :: "'s \<Rightarrow> nat"
    and inv :: "'s \<Rightarrow> bool"
  assumes get_total: "inv s \<Longrightarrow> count s < 2 ^ 32 \<Longrightarrow> get s \<noteq> None"
    and get_inv: "inv s \<Longrightarrow> count s < 2 ^ 32 \<Longrightarrow> get s = Some (r, s') \<Longrightarrow> inv s' \<and> count s' \<le> Suc (count s)"
    and get_fresh: "inv s \<Longrightarrow> count s < 2 ^ 32 \<Longrightarrow> get s = Some (Some x, s') \<Longrightarrow> x \<notin> live s \<and> live s' = insert x (live s)"
    and get_fail: "inv s \<Longrightarrow> count s < 2 ^ 32 \<Longrightarrow> get s = Some (None, s') \<Longrightarrow> live s \<subseteq> live s'"
    and put_ok: "inv s \<Longrightarrow> x \<in> live s \<Longrightarrow> \<exists>s'. put x s = Some s' \<and> live s' = live s - {x} \<and> inv s' \<and> count s' = count s"
begin

lemma run_step_get:
  assumes "inv s" "count s < 2 ^ 32" "distinct held" "set held \<subseteq> live s" "get s = Some (r, s')"
  defines "held' \<equiv> (case r of None \<Rightarrow> held | Some x \<Rightarrow> x # held)"
  shows "distinct held' \<and> set held' \<subseteq> live s'"
proof (cases r)
  case None
  with assms get_fail [OF assms(1,2), of s'] show ?thesis by auto
next
  case (Some x)
  with assms get_fresh [OF assms(1,2), of x s'] show ?thesis by auto
qed

lemma run_distinct:
  assumes "inv s" "count s + length ops < 2 ^ 32" "distinct held" "set held \<subseteq> live s"
  shows "\<exists>held' s'. pool_run get put ops held s = Some (held', s') \<and> inv s' \<and> distinct held' \<and> set held' \<subseteq> live s'"
  using assms
proof (induction ops arbitrary: held s)
  case (Cons op ops)
  have c: "count s < 2 ^ 32" using Cons.prems(2) by simp
  show ?case
  proof (cases op)
    case Get
    obtain r s1 where 1: "get s = Some (r, s1)" using get_total [OF Cons.prems(1) c] by fastforce
    have "inv s1" "count s1 + length ops < 2 ^ 32"
      using get_inv [OF Cons.prems(1) c 1] Cons.prems(2) by auto
    with run_step_get [OF Cons.prems(1) c Cons.prems(3,4) 1] Cons.IH [of s1] show ?thesis
      by (auto simp: Get 1)
  next
    case (Put x)
    show ?thesis
    proof (cases "x \<in> set held")
      case True
      with Cons.prems put_ok [of s x] obtain s1 where
        2: "put x s = Some s1" "live s1 = live s - {x}" "inv s1" "count s1 = count s" by auto
      have "count s1 + length ops < 2 ^ 32" "distinct (remove1 x held)" "set (remove1 x held) \<subseteq> live s1"
        using Cons.prems 2 by auto
      from Cons.IH [OF 2(3) this] show ?thesis by (simp add: Put True 2)
    next
      case False
      then show ?thesis using Cons by (simp add: Put)
    qed
  qed
qed simp

text \<open>A run of a client that starts with nothing never gets an object another holds.\<close>

lemma run_fresh:
  assumes "inv s" "count s + length ops < 2 ^ 32"
  shows "\<exists>held s'. pool_run get put ops [] s = Some (held, s') \<and> inv s' \<and> distinct held \<and> set held \<subseteq> live s'"
  by (rule run_distinct) (use assms in simp_all)

end

end
