(* ===== verification/Mbuf.thy ===== *)
theory Mbuf
  imports Frames Object_Pool
begin

section \<open>Message buffers (\<open>gf_mbuf.c\<close>)\<close>

text \<open>
  An mbuf is a chunk of \<open>mbuf_chunk_size\<close> bytes with its header at the end: \<open>start\<close> is offset
  0 and \<open>end\<close> is \<open>mbuf_offset\<close>, and \<open>pos\<close> and \<open>last\<close> are offsets between them.  A store at
  or beyond \<open>end\<close> would overwrite the header and has no result.  That the \<open>next\<close> link of an
  mbuf outside a queue is NULL is a fact of the link fields, which theory \<open>Queue\<close> models; the
  assertions about it are not repeated here.
\<close>

abbreviation (input) MBUF_MAGIC :: u32 where "MBUF_MAGIC \<equiv> 0xdeadbeef"
abbreviation (input) MBUF_HSIZE :: nat where "MBUF_HSIZE \<equiv> 48"

subsection \<open>The free list\<close>

text \<open>\<open>_mbuf_get\<close>\<close>

definition mbuf_take :: "world \<Rightarrow> (nat option \<times> world) option" where
  "mbuf_take w = (case w_free_mbufq w of
     b # q \<Rightarrow> do {
       ASSERT (0 < w_nfree_mbufq w) w;
       let w = w\<lparr>w_nfree_mbufq := w_nfree_mbufq w - 1, w_free_mbufq := q\<rparr>;
       ASSERT (b_magic (mbuf w b) = MBUF_MAGIC) w;
       Some (Some b, w) }
   | [] \<Rightarrow> do {
       let (ok, w) = gf_alloc w;
       if \<not> ok then Some (None, w)
       else do {
         let b = w_nmbuf w;
         let w = w\<lparr>w_nmbuf := Suc b\<rparr>;
         Some (Some b, upd_mbuf b (\<lambda>s. s\<lparr>b_magic := MBUF_MAGIC\<rparr>) w) } })"

definition mbuf_get :: "world \<Rightarrow> (nat option \<times> world) option" where
  "mbuf_get w = do {
     (r, w) \<leftarrow> mbuf_take w;
     case r of None \<Rightarrow> Some (None, w)
     | Some b \<Rightarrow> do {
         let w = upd_mbuf b (\<lambda>s. s\<lparr>b_start := 0, b_end := w_mbuf_offset w\<rparr>) w;
         ASSERT (b_end (mbuf w b) - b_start (mbuf w b) = w_mbuf_offset w) w;
         ASSERT (b_start (mbuf w b) < b_end (mbuf w b)) w;
         let w = upd_mbuf b (\<lambda>s. s\<lparr>b_pos := b_start s, b_last := b_start s\<rparr>) w;
         Some (Some b, w) } }"

definition mbuf_free :: "nat \<Rightarrow> world \<Rightarrow> world option" where
  "mbuf_free b w = do { ASSERT (b_magic (mbuf w b) = MBUF_MAGIC) w; Some w }"

definition mbuf_put :: "nat \<Rightarrow> world \<Rightarrow> world option" where
  "mbuf_put b w = do {
     ASSERT (b_magic (mbuf w b) = MBUF_MAGIC) w;
     Some (w\<lparr>w_nfree_mbufq := w_nfree_mbufq w + 1, w_free_mbufq := b # w_free_mbufq w\<rparr>) }"

subsection \<open>Reading and writing\<close>

definition mbuf_rewind :: "nat \<Rightarrow> world \<Rightarrow> world" where
  "mbuf_rewind b w = upd_mbuf b (\<lambda>s. s\<lparr>b_pos := b_start s, b_last := b_start s\<rparr>) w"

definition mbuf_empty :: "mbuf \<Rightarrow> bool" where
  "mbuf_empty s = (b_pos s = b_last s)"

definition mbuf_full :: "mbuf \<Rightarrow> bool" where
  "mbuf_full s = (b_last s = b_end s)"

definition mbuf_length :: "nat \<Rightarrow> world \<Rightarrow> u32 option" where
  "mbuf_length b w = do {
     ASSERT (b_pos (mbuf w b) \<le> b_last (mbuf w b)) w;
     Some (word_of_int (int (b_last (mbuf w b)) - int (b_pos (mbuf w b)))) }"

definition mbuf_size :: "nat \<Rightarrow> world \<Rightarrow> u32 option" where
  "mbuf_size b w = do {
     ASSERT (b_last (mbuf w b) \<le> b_end (mbuf w b)) w;
     Some (word_of_int (int (b_end (mbuf w b)) - int (b_last (mbuf w b)))) }"

definition mbuf_data_size :: "world \<Rightarrow> nat" where
  "mbuf_data_size w = w_mbuf_offset w"

definition mbuf_insert :: "nat list \<Rightarrow> nat \<Rightarrow> nat list" where
  "mbuf_insert h b = h @ [b]"

text \<open>\<open>STAILQ_REMOVE\<close> of an element that is not in the queue runs into NULL.\<close>

definition mbuf_remove :: "nat list \<Rightarrow> nat \<Rightarrow> nat list option" where
  "mbuf_remove h b = (if b \<in> set h then Some (remove1 b h) else None)"

text \<open>The bytes from \<open>pos\<close> to \<open>last\<close>, and a store of bytes at an offset.\<close>

definition mbuf_bytes :: "mbuf \<Rightarrow> u8 list" where
  "mbuf_bytes s = map (b_mem s) [b_pos s..<b_last s]"

definition mem_store :: "nat \<Rightarrow> u8 list \<Rightarrow> (nat \<Rightarrow> u8) \<Rightarrow> nat \<Rightarrow> u8" where
  "mem_store off bs mem = (\<lambda>i. if off \<le> i \<and> i < off + length bs then bs ! (i - off) else mem i)"

text \<open>
  \<open>mbuf_copy\<close> copies the \<open>n\<close> bytes \<open>bs\<close>; \<open>src\<close> is the mbuf they lie in, if they do.
\<close>

definition mbuf_copy :: "nat \<Rightarrow> nat option \<Rightarrow> u8 list \<Rightarrow> world \<Rightarrow> world option" where
  "mbuf_copy b src bs w =
     (if length bs = 0 then Some w
      else do {
        size \<leftarrow> mbuf_size b w;
        ASSERT (\<not> mbuf_full (mbuf w b) \<and> length bs \<le> unat size) w;
        ASSERT (src \<noteq> Some b) w;
        if b_end (mbuf w b) < b_last (mbuf w b) + length bs then None
        else Some (upd_mbuf b (\<lambda>s. s\<lparr>b_mem := mem_store (b_last s) bs (b_mem s), b_last := b_last s + length bs\<rparr>) w) })"

text \<open>
  \<open>mbuf_split\<close> of the queue \<open>h\<close> at \<open>pos\<close>, a position in its last mbuf; the pre-copy handler
  writes to the new mbuf before the rest of the last one is moved there.
\<close>

definition mbuf_split :: "nat list \<Rightarrow> ptr option \<Rightarrow> (nat \<Rightarrow> world \<Rightarrow> world option) option \<Rightarrow> world \<Rightarrow> (nat option \<times> world) option" where
  "mbuf_split h pos cb w = do {
     ASSERT (h \<noteq> []) w;
     case pos of Some (PBuf b off) \<Rightarrow>
       if h = [] \<or> b \<noteq> last h then None
       else do {
         ASSERT (b_pos (mbuf w b) \<le> off \<and> off \<le> b_last (mbuf w b)) w;
         (r, w) \<leftarrow> mbuf_get w;
         case r of None \<Rightarrow> Some (None, w)
         | Some nb \<Rightarrow> do {
             w \<leftarrow> (case cb of None \<Rightarrow> Some w | Some f \<Rightarrow> f nb w);
             if b_last (mbuf w b) < off then None
             else do {
               w \<leftarrow> mbuf_copy nb (Some b) (map (b_mem (mbuf w b)) [off..<b_last (mbuf w b)]) w;
               Some (Some nb, upd_mbuf b (\<lambda>s. s\<lparr>b_last := off\<rparr>) w) } } }
     | _ \<Rightarrow> None }"

definition mbuf_init :: "nat \<Rightarrow> world \<Rightarrow> world" where
  "mbuf_init cksize w = w\<lparr>w_nfree_mbufq := 0, w_free_mbufq := [], w_mbuf_chunk_size := cksize,
     w_mbuf_offset := cksize - MBUF_HSIZE\<rparr>"

text \<open>\<open>mbuf_deinit\<close> takes the free mbufs off the list one by one.\<close>

primrec mbuf_deinit_loop :: "nat list \<Rightarrow> world \<Rightarrow> world option" where
  "mbuf_deinit_loop [] w = Some w"
| "mbuf_deinit_loop (b # q) w = do {
     h \<leftarrow> mbuf_remove (w_free_mbufq w) b;
     let w = w\<lparr>w_free_mbufq := h\<rparr>;
     w \<leftarrow> mbuf_free b w;
     let w = w\<lparr>w_nfree_mbufq := w_nfree_mbufq w - 1\<rparr>;
     mbuf_deinit_loop q w }"

definition mbuf_deinit :: "world \<Rightarrow> world option" where
  "mbuf_deinit w = do {
     w \<leftarrow> mbuf_deinit_loop (w_free_mbufq w) w;
     ASSERT (w_nfree_mbufq w = 0) w;
     Some w }"

subsection \<open>The invariant\<close>

definition mbuf_ok :: "world \<Rightarrow> nat \<Rightarrow> bool" where
  "mbuf_ok w b \<longleftrightarrow> b < w_nmbuf w \<and> b_start (mbuf w b) = 0 \<and> b_end (mbuf w b) = w_mbuf_offset w
     \<and> b_pos (mbuf w b) \<le> b_last (mbuf w b) \<and> b_last (mbuf w b) \<le> w_mbuf_offset w"

text \<open>
  The free list has no duplicates, its counter is its length, and every mbuf ever allocated
  carries the magic number.
\<close>

definition mbufs_inv :: "world \<Rightarrow> bool" where
  "mbufs_inv w \<longleftrightarrow> distinct (w_free_mbufq w) \<and> set (w_free_mbufq w) \<subseteq> {..<w_nmbuf w}
     \<and> w_nfree_mbufq w = word_of_nat (length (w_free_mbufq w))
     \<and> 0 < w_mbuf_offset w \<and> w_mbuf_offset w < 2 ^ 32
     \<and> (\<forall>b<w_nmbuf w. b_magic (mbuf w b) = MBUF_MAGIC)"

definition live_mbufs :: "world \<Rightarrow> nat set" where
  "live_mbufs w = {..<w_nmbuf w} - set (w_free_mbufq w)"

lemma free_counter_pos:
  fixes q :: "nat list"
  assumes "distinct q" "set q \<subseteq> {..<n}" "n < 2 ^ 32" "q \<noteq> []"
  shows "(0 :: u32) < word_of_nat (length q)"
proof -
  have "length q \<le> n" using assms(1,2) by (metis card_lessThan card_mono distinct_card finite_lessThan)
  then have "unat (word_of_nat (length q) :: u32) = length q"
    using assms(3) by (simp add: unat_of_nat take_bit_nat_eq_self)
  with assms(4) show ?thesis by (metis length_greater_0_conv unat_gt_0 word_neq_0_conv)
qed

lemma mbuf_get_reuse:
  assumes "mbufs_inv w" "w_nmbuf w < 2 ^ 32" "w_free_mbufq w = b # q"
  shows "mbuf_get w = Some (Some b, upd_mbuf b (\<lambda>s. s\<lparr>b_start := 0, b_end := w_mbuf_offset w, b_pos := 0, b_last := 0\<rparr>)
           (w\<lparr>w_nfree_mbufq := w_nfree_mbufq w - 1, w_free_mbufq := q\<rparr>))"
proof -
  have "0 < w_nfree_mbufq w" using assms free_counter_pos [of "b # q" "w_nmbuf w"] by (simp add: mbufs_inv_def)
  with assms show ?thesis
    by (simp add: mbuf_get_def mbuf_take_def mbufs_inv_def upd_mbuf_def)
qed

lemma mbuf_get_alloc:
  assumes "mbufs_inv w" "w_free_mbufq w = []"
  shows "mbuf_get w = (if fst (gf_alloc w) then
           Some (Some (w_nmbuf w), upd_mbuf (w_nmbuf w)
             (\<lambda>s. s\<lparr>b_magic := MBUF_MAGIC, b_start := 0, b_end := w_mbuf_offset w, b_pos := 0, b_last := 0\<rparr>)
             ((snd (gf_alloc w))\<lparr>w_nmbuf := Suc (w_nmbuf w)\<rparr>))
         else Some (None, snd (gf_alloc w)))"
  using assms by (simp add: mbuf_get_def mbuf_take_def mbufs_inv_def upd_mbuf_def split_def Let_def cong: if_cong)

lemma mbuf_get_cases:
  assumes "mbufs_inv w" "w_nmbuf w < 2 ^ 32" "mbuf_get w = Some (r, w')"
  obtains (reuse) b q where "r = Some b" "w_free_mbufq w = b # q"
      "w' = upd_mbuf b (\<lambda>s. s\<lparr>b_start := 0, b_end := w_mbuf_offset w, b_pos := 0, b_last := 0\<rparr>)
           (w\<lparr>w_nfree_mbufq := w_nfree_mbufq w - 1, w_free_mbufq := q\<rparr>)"
    | (alloc) "r = Some (w_nmbuf w)" "w_free_mbufq w = []"
      "w' = upd_mbuf (w_nmbuf w) (\<lambda>s. s\<lparr>b_magic := MBUF_MAGIC, b_start := 0, b_end := w_mbuf_offset w, b_pos := 0, b_last := 0\<rparr>)
             ((snd (gf_alloc w))\<lparr>w_nmbuf := Suc (w_nmbuf w)\<rparr>)"
    | (nomem) "r = None" "w_free_mbufq w = []" "w' = snd (gf_alloc w)"
proof (cases "w_free_mbufq w")
  case Nil
  with assms mbuf_get_alloc [OF assms(1)] that(2,3) show ?thesis by (auto split: if_splits)
next
  case (Cons b q)
  with assms mbuf_get_reuse [OF assms(1,2)] that(1) show ?thesis by auto
qed

lemma mbuf_get_total: "mbufs_inv w \<Longrightarrow> w_nmbuf w < 2 ^ 32 \<Longrightarrow> \<exists>r w'. mbuf_get w = Some (r, w')"
  using mbuf_get_alloc [of w] mbuf_get_reuse [of w] by (cases "w_free_mbufq w") auto

lemma mbuf_get_inv:
  assumes "mbufs_inv w" "w_nmbuf w < 2 ^ 32" "mbuf_get w = Some (r, w')"
  shows "mbufs_inv w' \<and> w_nmbuf w' \<le> Suc (w_nmbuf w) \<and> w_nmbuf w \<le> w_nmbuf w'"
  by (rule mbuf_get_cases [OF assms]; use assms(1) in \<open>auto simp: mbufs_inv_def less_Suc_eq\<close>)

lemma mbuf_get_live:
  assumes "mbufs_inv w" "w_nmbuf w < 2 ^ 32" "mbuf_get w = Some (Some b, w')"
  shows "b \<notin> live_mbufs w \<and> live_mbufs w' = insert b (live_mbufs w)"
  by (rule mbuf_get_cases [OF assms]; use assms(1) in \<open>auto simp: mbufs_inv_def live_mbufs_def less_Suc_eq\<close>)

text \<open>A new mbuf is empty and has room for \<open>mbuf_offset\<close> bytes; the others are untouched.\<close>

lemma mbuf_get_new:
  assumes "mbufs_inv w" "w_nmbuf w < 2 ^ 32" "mbuf_get w = Some (Some b, w')"
  shows "mbuf_ok w' b" "b_pos (mbuf w' b) = 0" "b_last (mbuf w' b) = 0" "b_end (mbuf w' b) = w_mbuf_offset w"
    "\<forall>d. d \<noteq> b \<longrightarrow> mbuf w' d = mbuf w d"
  by (rule mbuf_get_cases [OF assms]; use assms(1) in \<open>auto simp: mbufs_inv_def mbuf_ok_def\<close>)+

lemma mbuf_get_frame:
  assumes "mbufs_inv w" "w_nmbuf w < 2 ^ 32" "mbuf_get w = Some (r, w')"
  shows "w_msgs w' = w_msgs w" "w_conns w' = w_conns w" "w_pools w' = w_pools w" "w_panic w' = w_panic w"
    "w_mbuf_offset w' = w_mbuf_offset w" "w_os w' = w_os w" "w_stats w' = w_stats w" "w_tmo w' = w_tmo w"
    "w_free_msgq w' = w_free_msgq w" "w_nfree_msgq w' = w_nfree_msgq w" "w_nmsg w' = w_nmsg w"
    "w_free_connq w' = w_free_connq w" "w_nfree_connq w' = w_nfree_connq w" "w_nconn w' = w_nconn w"
  by (rule mbuf_get_cases [OF assms]; simp)+

lemma mbuf_put_ok:
  assumes "mbufs_inv w" "b \<in> live_mbufs w"
  shows "\<exists>w'. mbuf_put b w = Some w' \<and> live_mbufs w' = live_mbufs w - {b} \<and> mbufs_inv w' \<and> w_nmbuf w' = w_nmbuf w"
  using assms by (auto simp: mbuf_put_def mbufs_inv_def live_mbufs_def)

interpretation mp: object_pool mbuf_get mbuf_put live_mbufs w_nmbuf mbufs_inv
proof unfold_locales
  fix w :: world assume i: "mbufs_inv w" "w_nmbuf w < 2 ^ 32"
  show "mbuf_get w \<noteq> None" using mbuf_get_total [OF i] by auto
  fix r w' assume g: "mbuf_get w = Some (r, w')"
  show "mbufs_inv w' \<and> w_nmbuf w' \<le> Suc (w_nmbuf w)" using mbuf_get_inv [OF i g] by simp
next
  fix w x w' assume i: "mbufs_inv w" "w_nmbuf w < 2 ^ 32" "mbuf_get w = Some (Some x, w')"
  show "x \<notin> live_mbufs w \<and> live_mbufs w' = insert x (live_mbufs w)" by (rule mbuf_get_live [OF i])
next
  fix w w' assume i: "mbufs_inv w" "w_nmbuf w < 2 ^ 32" "mbuf_get w = Some (None, w')"
  show "live_mbufs w \<subseteq> live_mbufs w'"
    by (rule mbuf_get_cases [OF i]; use i(1) in \<open>auto simp: live_mbufs_def\<close>)
qed (rule mbuf_put_ok)

text \<open>
  from the empty pool, in every sequence of gets and puts, with any
  number of allocations failing, the mbufs held are pairwise distinct and none of them is on
  the free list; no assertion of the pool fails.
\<close>

theorem mbufs_never_shared:
  assumes "mbufs_inv w" "w_nmbuf w + length ops < 2 ^ 32"
  shows "\<exists>held w'. pool_run mbuf_get mbuf_put ops [] w = Some (held, w') \<and> distinct held
     \<and> set held \<inter> set (w_free_mbufq w') = {} \<and> (\<forall>b\<in>set held. b < w_nmbuf w')"
  using mp.run_fresh [OF assms] by (auto simp: live_mbufs_def)

subsection \<open>Copying\<close>

lemma mem_store_in [simp]: "i < length bs \<Longrightarrow> mem_store off bs mem (off + i) = bs ! i"
  by (simp add: mem_store_def)

lemma mem_store_below [simp]: "i < off \<Longrightarrow> mem_store off bs mem i = mem i"
  by (simp add: mem_store_def)

lemma map_mem_store_new [simp]: "map (mem_store off bs mem) [off..<off + length bs] = bs"
  by (rule nth_equalityI) simp_all

lemma map_mem_store_old [simp]: "n \<le> off \<Longrightarrow> map (mem_store off bs mem) [i..<n] = map mem [i..<n]"
  by (rule map_cong) auto

lemma mbuf_bytes_store:
  assumes "b_pos s \<le> b_last s"
  shows "mbuf_bytes (s\<lparr>b_mem := mem_store (b_last s) bs (b_mem s), b_last := b_last s + length bs\<rparr>) = mbuf_bytes s @ bs"
proof -
  have "[b_pos s..<b_last s + length bs] = [b_pos s..<b_last s] @ [b_last s..<b_last s + length bs]"
    using assms by (metis le_add1 upt_add_eq_append add_diff_inverse_nat not_le)
  then show ?thesis by (simp add: mbuf_bytes_def)
qed

lemma mbuf_size_ok: "mbuf_ok w b \<Longrightarrow> w_mbuf_offset w < 2 ^ 32 \<Longrightarrow>
    \<exists>n. mbuf_size b w = Some n \<and> unat n = w_mbuf_offset w - b_last (mbuf w b)"
  by (auto simp: mbuf_size_def mbuf_ok_def of_nat_diff [symmetric] unat_of_nat take_bit_nat_eq_self simp del: of_nat_diff)

lemma mbuf_length_ok: "mbuf_ok w b \<Longrightarrow> w_mbuf_offset w < 2 ^ 32 \<Longrightarrow>
    mbuf_length b w = Some (word_of_nat (length (mbuf_bytes (mbuf w b))))"
  by (auto simp: mbuf_length_def mbuf_ok_def mbuf_bytes_def of_nat_diff)

lemma mbuf_copy_ok:
  assumes "mbuf_ok w b" "w_mbuf_offset w < 2 ^ 32" "length bs \<le> w_mbuf_offset w - b_last (mbuf w b)" "src \<noteq> Some b"
  shows "mbuf_copy b src bs w =
     Some (upd_mbuf b (\<lambda>s. s\<lparr>b_mem := mem_store (b_last s) bs (b_mem s), b_last := b_last s + length bs\<rparr>) w)"
proof (cases "bs = []")
  case True
  have "mem_store n [] m = m" for n m by (rule ext) (auto simp: mem_store_def)
  with True show ?thesis by (simp add: mbuf_copy_def upd_mbuf_def fun_upd_idem)
next
  case False
  with assms(1,3) have "b_last (mbuf w b) \<noteq> w_mbuf_offset w" by auto
  with False assms mbuf_size_ok [OF assms(1,2)] show ?thesis
    by (auto simp: mbuf_copy_def mbuf_full_def mbuf_ok_def)
qed

subsection \<open>Splitting\<close>

lemma live_mbufs_below: "b \<in> live_mbufs w \<Longrightarrow> b < w_nmbuf w"
  by (simp add: live_mbufs_def)

lemma upt_map_split: "i \<le> j \<Longrightarrow> j \<le> k \<Longrightarrow> map f [i..<k] = map f [i..<j] @ map f [j..<k]"
  by (metis le_add_diff_inverse map_append upt_add_eq_append)

text \<open>The state after a successful split, with the new mbuf.\<close>

definition split_state :: "nat \<Rightarrow> nat \<Rightarrow> nat \<Rightarrow> world \<Rightarrow> world" where
  "split_state b off nb w = upd_mbuf b (\<lambda>s. s\<lparr>b_last := off\<rparr>) (upd_mbuf nb
     (\<lambda>s. s\<lparr>b_mem := mem_store 0 (map (b_mem (mbuf w b)) [off..<b_last (mbuf w b)]) (b_mem s),
            b_last := b_last (mbuf w b) - off\<rparr>) w)"

lemma mbuf_split_eq:
  assumes inv: "mbufs_inv w" "w_nmbuf w < 2 ^ 32" and b: "h \<noteq> []" "last h = b" "mbuf_ok w b" "b \<in> live_mbufs w"
    and off: "b_pos (mbuf w b) \<le> off" "off \<le> b_last (mbuf w b)"
    and get: "mbuf_get w = Some (r, w1)"
  shows "mbuf_split h (Some (PBuf b off)) None w =
     Some (r, case r of None \<Rightarrow> w1 | Some nb \<Rightarrow> split_state b off nb w1)"
proof (cases r)
  case None
  with assms show ?thesis by (simp add: mbuf_split_def)
next
  case (Some nb)
  note g = get [unfolded Some]
  have nb: "nb \<noteq> b" using mbuf_get_live [OF inv g] b(4) by auto
  have old: "mbuf w1 b = mbuf w b" using mbuf_get_new(5) [OF inv g] nb by simp
  have lt: "w_mbuf_offset w1 = w_mbuf_offset w" "w_mbuf_offset w1 < 2 ^ 32" "w_panic w1 = w_panic w"
    using mbuf_get_frame [OF inv get] inv(1) by (simp_all add: mbufs_inv_def)
  have "mbuf_copy nb (Some b) (map (b_mem (mbuf w b)) [off..<b_last (mbuf w b)]) w1 =
      Some (upd_mbuf nb (\<lambda>s. s\<lparr>b_mem := mem_store (b_last s) (map (b_mem (mbuf w b)) [off..<b_last (mbuf w b)]) (b_mem s),
            b_last := b_last s + length (map (b_mem (mbuf w b)) [off..<b_last (mbuf w b)])\<rparr>) w1)"
    by (rule mbuf_copy_ok) (use mbuf_get_new [OF inv g] lt nb b(3) in \<open>auto simp: mbuf_ok_def\<close>)
  then show ?thesis using Some g assms old nb lt mbuf_get_new(3) [OF inv g]
    by (simp add: mbuf_split_def split_state_def upd_mbuf_def)
qed

text \<open>
  splitting the last mbuf of a message at a position in its data, or
  at either end, always returns; without memory it changes no buffer, otherwise the old mbuf
  keeps exactly the bytes before the position, the new one has exactly those after it, both
  are within bounds, the new one is not in use elsewhere and no other mbuf changes.
\<close>

theorem mbuf_split_bytes:
  assumes "mbufs_inv w" "w_nmbuf w < 2 ^ 32" "h \<noteq> []" "last h = b" "mbuf_ok w b" "b \<in> live_mbufs w"
    and "b_pos (mbuf w b) \<le> off" "off \<le> b_last (mbuf w b)"
  shows "\<exists>r w'. mbuf_split h (Some (PBuf b off)) None w = Some (r, w') \<and> mbufs_inv w' \<and>
     (case r of None \<Rightarrow> w_mbufs w' = w_mbufs w
      | Some nb \<Rightarrow> mbuf_bytes (mbuf w' b) = take (off - b_pos (mbuf w b)) (mbuf_bytes (mbuf w b))
          \<and> mbuf_bytes (mbuf w' nb) = drop (off - b_pos (mbuf w b)) (mbuf_bytes (mbuf w b))
          \<and> mbuf_ok w' b \<and> mbuf_ok w' nb \<and> nb \<notin> live_mbufs w
          \<and> (\<forall>d. d \<noteq> b \<and> d \<noteq> nb \<longrightarrow> mbuf w' d = mbuf w d))"
proof -
  note inv = assms(1,2)
  obtain r w1 where g: "mbuf_get w = Some (r, w1)" using mbuf_get_total [OF inv] by blast
  note eq = mbuf_split_eq [OF assms g]
  show ?thesis
  proof (cases r)
    case None
    have "w_mbufs w1 = w_mbufs w" by (rule mbuf_get_cases [OF inv g]) (simp_all add: None)
    with eq None mbuf_get_inv [OF inv g] show ?thesis by simp
  next
    case (Some nb)
    note g' = g [unfolded Some]
    let ?w = "split_state b off nb w1"
    have nb: "nb \<noteq> b" using mbuf_get_live [OF inv g'] assms(6) by auto
    have old: "mbuf w1 b = mbuf w b" using mbuf_get_new(5) [OF inv g'] nb by simp
    have i: "mbufs_inv ?w" using mbuf_get_inv [OF inv g] by (simp add: split_state_def mbufs_inv_def)
    have spl: "map f [b_pos (mbuf w b)..<b_last (mbuf w b)] = map f [b_pos (mbuf w b)..<off] @ map f [off..<b_last (mbuf w b)]"
      for f :: "nat \<Rightarrow> u8" by (rule upt_map_split) (use assms(7,8) in auto)
    have 1: "mbuf_bytes (mbuf ?w b) = take (off - b_pos (mbuf w b)) (mbuf_bytes (mbuf w b))"
      using assms(7,8) nb old
      by (simp add: split_state_def mbuf_bytes_def spl)
    have 2: "mbuf_bytes (mbuf ?w nb) = drop (off - b_pos (mbuf w b)) (mbuf_bytes (mbuf w b))"
      using assms(7,8) nb old mbuf_get_new(2) [OF inv g'] map_mem_store_new [of 0 "map (b_mem (mbuf w b)) [off..<b_last (mbuf w b)]"]
      by (simp add: split_state_def mbuf_bytes_def spl)
    have 3: "mbuf_ok ?w b" "mbuf_ok ?w nb"
      using assms(5,7,8) nb old mbuf_get_new [OF inv g'] mbuf_get_inv [OF inv g] mbuf_get_frame [OF inv g]
      by (auto simp: split_state_def mbuf_ok_def)
    have 4: "\<forall>d. d \<noteq> b \<and> d \<noteq> nb \<longrightarrow> mbuf ?w d = mbuf w d"
      using mbuf_get_new(5) [OF inv g'] by (simp add: split_state_def)
    show ?thesis using eq Some i 1 2 3 4 mbuf_get_live [OF inv g'] by simp
  qed
qed

subsection \<open>A concrete state\<close>

text \<open>One mbuf in use, with four bytes, and one on the free list.\<close>

definition mbuf_w :: world where
  "mbuf_w = w0\<lparr>w_nmbuf := 2, w_free_mbufq := [1], w_nfree_mbufq := 1,
     w_mbufs := (\<lambda>b. if b = 0 then sample_mbuf\<lparr>b_last := 4, b_mem := mem_store 0 [80, 73, 78, 71] (\<lambda>_. 0)\<rparr> else sample_mbuf)\<rparr>"

lemma mbuf_w_ok: "mbufs_inv mbuf_w" "mbuf_ok mbuf_w 0" "0 \<in> live_mbufs mbuf_w" "w_nmbuf mbuf_w = 2"
  by (simp_all add: mbufs_inv_def mbuf_ok_def live_mbufs_def mbuf_w_def sample_mbuf_def)

lemma mbufs_never_shared_witness:
  "\<exists>held w'. pool_run mbuf_get mbuf_put [Get, Get, Put 1, Get] [] mbuf_w = Some (held, w') \<and> distinct held
     \<and> set held \<inter> set (w_free_mbufq w') = {} \<and> (\<forall>b\<in>set held. b < w_nmbuf w')"
  by (rule mbufs_never_shared) (simp_all add: mbuf_w_ok)

lemma mbuf_split_bytes_witness:
  "\<exists>r w'. mbuf_split [0] (Some (PBuf 0 1)) None mbuf_w = Some (r, w') \<and> mbufs_inv w' \<and>
     (case r of None \<Rightarrow> w_mbufs w' = w_mbufs mbuf_w
      | Some nb \<Rightarrow> mbuf_bytes (mbuf w' 0) = [80] \<and> mbuf_bytes (mbuf w' nb) = [73, 78, 71])"
proof -
  have "[0..<4] = [0, 1, 2, 3::nat]" by (simp add: upt_rec)
  then have 1: "mbuf_bytes (mbuf mbuf_w 0) = [80, 73, 78, 71]"
    by (simp add: mbuf_w_def mbuf_bytes_def sample_mbuf_def mem_store_def)
  have 2: "b_pos (mbuf mbuf_w 0) = 0" "b_last (mbuf mbuf_w 0) = 4" "w_nmbuf mbuf_w < 2 ^ 32"
    by (simp_all add: mbuf_w_def sample_mbuf_def)
  have 3: "[0] \<noteq> ([] :: nat list)" "last [0 :: nat] = 0" "b_pos (mbuf mbuf_w 0) \<le> 1" "1 \<le> b_last (mbuf mbuf_w 0)"
    by (simp_all add: 2)
  from mbuf_split_bytes [OF mbuf_w_ok(1) 2(3) 3(1,2) mbuf_w_ok(2,3) 3(3,4)]
  obtain r w' where s: "mbuf_split [0] (Some (PBuf 0 1)) None mbuf_w = Some (r, w')" "mbufs_inv w'"
     and r: "case r of None \<Rightarrow> w_mbufs w' = w_mbufs mbuf_w
      | Some nb \<Rightarrow> mbuf_bytes (mbuf w' 0) = take (1 - 0) [80, 73, 78, 71] \<and> mbuf_bytes (mbuf w' nb) = drop (1 - 0) [80, 73, 78, 71]
          \<and> mbuf_ok w' 0 \<and> mbuf_ok w' nb \<and> nb \<notin> live_mbufs mbuf_w \<and> (\<forall>d. d \<noteq> 0 \<and> d \<noteq> nb \<longrightarrow> mbuf w' d = mbuf mbuf_w d)"
    unfolding 1 2(1) by blast
  from r have "case r of None \<Rightarrow> w_mbufs w' = w_mbufs mbuf_w
      | Some nb \<Rightarrow> mbuf_bytes (mbuf w' 0) = [80] \<and> mbuf_bytes (mbuf w' nb) = [73, 78, 71]"
    by (cases r) simp_all
  with s show ?thesis by blast
qed

end
