(* ===== verification/Message.thy ===== *)
theory Message
  imports Mbuf Dispatch Event Stats
begin

section \<open>Messages (\<open>gf_message.c\<close>): allocation, timeouts and contents\<close>

text \<open>
  The pool of messages, the tree of request timeouts and the operations that put bytes into
  a message.  The timeout tree is the list of its nodes in key order here, a node equal
  in key to older ones after them; theory \<open>Timeout_Tree\<close> shows that the red-black tree of
  \<open>gf_rbtree.c\<close> implements that list.
\<close>

subsection \<open>The timeout tree\<close>

definition msg_tmo_min :: "world \<Rightarrow> nat option" where
  "msg_tmo_min w = (case w_tmo w of [] \<Rightarrow> None | x # _ \<Rightarrow> Some (snd x))"

text \<open>\<open>server_timeout\<close> of \<open>gf_server.c\<close>\<close>

definition server_timeout :: "nat \<Rightarrow> world \<Rightarrow> int option" where
  "server_timeout c w = do {
     ASSERT (\<not> c_client (conn w c) \<and> \<not> c_proxy (conn w c)) w;
     case c_owner (conn w c) of Some (OServer p s) \<Rightarrow> Some (p_timeout (pool w p)) | _ \<Rightarrow> None }"

definition msg_tmo_insert :: "nat \<Rightarrow> nat \<Rightarrow> world \<Rightarrow> world option" where
  "msg_tmo_insert m c w = do {
     ASSERT (m_request (msg w m)) w;
     ASSERT (\<not> m_quit (msg w m) \<and> \<not> m_noreply (msg w m)) w;
     timeout \<leftarrow> server_timeout c w;
     if timeout < 0 then Some w
     else do {
       let (now, w) = gf_msec_now w;
       let w = upd_msg m (\<lambda>s. s\<lparr>m_tmo_key := now + timeout, m_tmo_data := Some c\<rparr>) w;
       Some (w\<lparr>w_tmo := tmo_ins (now + timeout) m (w_tmo w)\<rparr>) } }"

definition msg_tmo_delete :: "nat \<Rightarrow> world \<Rightarrow> world" where
  "msg_tmo_delete m w =
     (if m_tmo_data (msg w m) = None then w
      else let w = w\<lparr>w_tmo := filter (\<lambda>x. snd x \<noteq> m) (w_tmo w)\<rparr>
           in upd_msg m (\<lambda>s. s\<lparr>m_tmo_key := 0, m_tmo_data := None\<rparr>) w)"

subsection \<open>The pool of messages\<close>

text \<open>\<open>array_create(1, sizeof(struct keypos))\<close>: the array and its elements are two allocations.\<close>

definition keys_create :: "world \<Rightarrow> bool \<times> world" where
  "keys_create w = (let (ok, w) = gf_alloc w in if \<not> ok then (False, w) else gf_alloc w)"

text \<open>\<open>_msg_get\<close>; \<open>failure\<close> is not among the fields it sets.\<close>

definition msg_reset :: "u64 \<Rightarrow> msg \<Rightarrow> msg" where
  "msg_reset i s = s\<lparr>m_id := i, m_peer := None, m_owner := None, m_tmo_key := 0, m_tmo_data := None,
     m_mhdr := [], m_mlen := 0, m_start_ts := 0, m_state := 0, m_pos := None, m_token := None,
     m_parser := None, m_add_auth := None, m_result := MSG_PARSE_OK, m_fragment := None, m_reply := None,
     m_pre_coalesce := None, m_post_coalesce := None\<rparr>"

definition msg_reset2 :: "msg \<Rightarrow> msg" where
  "msg_reset2 s = s\<lparr>m_keys := Some [], m_vlen := 0, m_end := None, m_frag_owner := None, m_frag_seq := None,
     m_nfrag := 0, m_nfrag_done := 0, m_frag_id := 0, m_narg_start := None, m_narg_end := None, m_narg := 0,
     m_rnarg := 0, m_rlen := 0, m_integer := 0, m_err := 0, m_error := False, m_ferror := False,
     m_request := False, m_quit := False, m_noreply := False, m_noforward := False, m_done := False,
     m_fdone := False, m_swallow := False, m_redis := False\<rparr>"

definition msg_setup :: "nat \<Rightarrow> world \<Rightarrow> nat option \<times> world" where
  "msg_setup m w =
     (let w = w\<lparr>w_msg_id := w_msg_id w + 1\<rparr>;
          w = upd_msg m (msg_reset (w_msg_id w)) w;
          (ok, w) = keys_create w
      in if \<not> ok then (None, upd_msg m (\<lambda>s. s\<lparr>m_keys := None\<rparr>) w) else (Some m, upd_msg m msg_reset2 w))"

definition msg_take :: "world \<Rightarrow> (nat option \<times> world) option" where
  "msg_take w = (case w_free_msgq w of
     m # q \<Rightarrow> do {
       ASSERT (0 < w_nfree_msgq w) w;
       Some (msg_setup m (w\<lparr>w_nfree_msgq := w_nfree_msgq w - 1, w_free_msgq := q\<rparr>)) }
   | [] \<Rightarrow> do {
       let (ok, w) = gf_alloc w;
       if \<not> ok then Some (None, w) else Some (msg_setup (w_nmsg w) (w\<lparr>w_nmsg := Suc (w_nmsg w)\<rparr>)) })"

definition msg_get :: "nat \<Rightarrow> bool \<Rightarrow> bool \<Rightarrow> world \<Rightarrow> (nat option \<times> world) option" where
  "msg_get c request redis w = do {
     (r, w) \<leftarrow> msg_take w;
     case r of None \<Rightarrow> Some (None, w)
     | Some m \<Rightarrow> do {
         let w = upd_msg m (\<lambda>s. s\<lparr>m_owner := Some c, m_request := request, m_parser := None, m_add_auth := None,
                   m_fragment := None, m_reply := None, m_failure := None, m_pre_coalesce := None, m_post_coalesce := None\<rparr>) w;
         let w = (if w_log_notice w
                  then let (t, w) = gf_usec_now w in upd_msg m (\<lambda>s. s\<lparr>m_start_ts := t\<rparr>) w else w);
         Some (Some m, w) } }"

text \<open>\<open>msg_put\<close> returns the mbufs of the message one by one.\<close>

primrec put_mbufs :: "nat list \<Rightarrow> nat \<Rightarrow> world \<Rightarrow> world option" where
  "put_mbufs [] m w = Some w"
| "put_mbufs (b # bs) m w = do {
     h \<leftarrow> mbuf_remove (m_mhdr (msg w m)) b;
     let w = upd_msg m (\<lambda>s. s\<lparr>m_mhdr := h\<rparr>) w;
     w \<leftarrow> mbuf_put b w;
     put_mbufs bs m w }"

definition msg_put :: "nat \<Rightarrow> world \<Rightarrow> world option" where
  "msg_put m w = do {
     w \<leftarrow> put_mbufs (m_mhdr (msg w m)) m w;
     let w = upd_msg m (\<lambda>s. s\<lparr>m_frag_seq := None, m_keys := None\<rparr>) w;
     Some (w\<lparr>w_nfree_msgq := w_nfree_msgq w + 1, w_free_msgq := m # w_free_msgq w\<rparr>) }"

definition msg_free :: "nat \<Rightarrow> world \<Rightarrow> world option" where
  "msg_free m w = do { ASSERT (m_mhdr (msg w m) = []) w; Some w }"

definition msg_init :: "world \<Rightarrow> world" where
  "msg_init w = w\<lparr>w_msg_id := 0, w_frag_id := 0, w_nfree_msgq := 0, w_free_msgq := [], w_tmo := []\<rparr>"

text \<open>\<open>msg_deinit\<close> frees the messages without unlinking them.\<close>

primrec msg_deinit_loop :: "nat list \<Rightarrow> world \<Rightarrow> world option" where
  "msg_deinit_loop [] w = Some w"
| "msg_deinit_loop (m # q) w = do {
     ASSERT (0 < w_nfree_msgq w) w;
     w \<leftarrow> msg_free m w;
     msg_deinit_loop q (w\<lparr>w_nfree_msgq := w_nfree_msgq w - 1\<rparr>) }"

definition msg_deinit :: "world \<Rightarrow> world option" where
  "msg_deinit w = do {
     w \<leftarrow> msg_deinit_loop (w_free_msgq w) w;
     ASSERT (w_nfree_msgq w = 0) w;
     Some w }"

subsection \<open>Contents\<close>

definition msg_empty :: "nat \<Rightarrow> world \<Rightarrow> bool" where
  "msg_empty m w = (m_mlen (msg w m) = 0)"

definition mhdr_insert :: "nat \<Rightarrow> nat \<Rightarrow> world \<Rightarrow> world" where
  "mhdr_insert m b w = upd_msg m (\<lambda>s. s\<lparr>m_mhdr := mbuf_insert (m_mhdr s) b\<rparr>) w"

definition msg_ensure_mbuf :: "nat \<Rightarrow> nat \<Rightarrow> world \<Rightarrow> (nat option \<times> world) option" where
  "msg_ensure_mbuf m len w = do {
     let h = m_mhdr (msg w m);
     full \<leftarrow> (if h = [] then Some True else do { size \<leftarrow> mbuf_size (last h) w; Some (unat size < len) });
     if full then do {
       (r, w) \<leftarrow> mbuf_get w;
       case r of None \<Rightarrow> Some (None, w) | Some b \<Rightarrow> Some (Some b, mhdr_insert m b w) }
     else Some (Some (last h), w) }"

text \<open>\<open>bs\<close> are the \<open>n\<close> bytes at \<open>pos\<close>, \<open>src\<close> the mbuf they lie in, if they do.\<close>

definition msg_append :: "nat \<Rightarrow> nat option \<Rightarrow> u8 list \<Rightarrow> world \<Rightarrow> (int \<times> world) option" where
  "msg_append m src bs w = do {
     ASSERT (length bs \<le> mbuf_data_size w) w;
     (r, w) \<leftarrow> msg_ensure_mbuf m (length bs) w;
     case r of None \<Rightarrow> Some (GF_ENOMEM, w)
     | Some b \<Rightarrow> do {
         size \<leftarrow> mbuf_size b w;
         ASSERT (length bs \<le> unat size) w;
         w \<leftarrow> mbuf_copy b src bs w;
         Some (GF_OK, upd_msg m (\<lambda>s. s\<lparr>m_mlen := m_mlen s + word_of_nat (length bs)\<rparr>) w) } }"

definition msg_prepend :: "nat \<Rightarrow> nat option \<Rightarrow> u8 list \<Rightarrow> world \<Rightarrow> (int \<times> world) option" where
  "msg_prepend m src bs w = do {
     (r, w) \<leftarrow> mbuf_get w;
     case r of None \<Rightarrow> Some (GF_ENOMEM, w)
     | Some b \<Rightarrow> do {
         size \<leftarrow> mbuf_size b w;
         ASSERT (length bs \<le> unat size) w;
         w \<leftarrow> mbuf_copy b src bs w;
         Some (GF_OK, upd_msg m (\<lambda>s. s\<lparr>m_mlen := m_mlen s + word_of_nat (length bs), m_mhdr := b # m_mhdr s\<rparr>) w) } }"

text \<open>
  \<open>gf_scnprintf\<close> and \<open>gf_vsnprintf\<close> into an mbuf: at most \<open>size - 1\<close> bytes of the text and
  a terminating NUL are stored at \<open>last\<close>.
\<close>

definition mbuf_print :: "nat \<Rightarrow> nat \<Rightarrow> u8 list \<Rightarrow> world \<Rightarrow> world" where
  "mbuf_print b n txt w =
     (if n = 0 then w
      else upd_mbuf b (\<lambda>s. s\<lparr>b_mem := mem_store (b_last s) (take (n - 1) txt @ [0]) (b_mem s)\<rparr>) w)"

text \<open>\<open>txt\<close> is the formatted text, \<open>None\<close> when \<open>vsnprintf\<close> fails.\<close>

definition msg_prepend_format :: "nat \<Rightarrow> u8 list option \<Rightarrow> world \<Rightarrow> (int \<times> world) option" where
  "msg_prepend_format m txt w = do {
     (r, w) \<leftarrow> mbuf_get w;
     case r of None \<Rightarrow> Some (GF_ENOMEM, w)
     | Some b \<Rightarrow> do {
         size \<leftarrow> mbuf_size b w;
         case txt of None \<Rightarrow> Some (GF_ERROR, w)
         | Some t \<Rightarrow> do {
             let w = mbuf_print b (unat size) t w;
             if unat size \<le> length t then Some (GF_ERROR, w)
             else do {
               let w = upd_mbuf b (\<lambda>s. s\<lparr>b_last := b_last s + length t\<rparr>) w;
               Some (GF_OK, upd_msg m (\<lambda>s. s\<lparr>m_mlen := m_mlen s + word_of_nat (length t), m_mhdr := b # m_mhdr s\<rparr>) w) } } } }"

definition msg_gen_frag_id :: "world \<Rightarrow> u64 \<times> world" where
  "msg_gen_frag_id w = (let i = w_frag_id w + 1 in (i, w\<lparr>w_frag_id := i\<rparr>))"

text \<open>The text of an error response: \<open>"-ERR <error>\r\n"\<close> or \<open>"SERVER_ERROR <error>\r\n"\<close>.\<close>

definition error_text :: "ext \<Rightarrow> bool \<Rightarrow> int \<Rightarrow> u8 list" where
  "error_text X redis err =
     (let errstr = (if err \<noteq> 0 then x_strerror X err else [117, 110, 107, 110, 111, 119, 110]);
          protstr = (if redis then [45, 69, 82, 82] else [83, 69, 82, 86, 69, 82, 95, 69, 82, 82, 79, 82])
      in protstr @ [32] @ errstr @ [13, 10])"

definition msg_get_error :: "ext \<Rightarrow> bool \<Rightarrow> int \<Rightarrow> world \<Rightarrow> (nat option \<times> world) option" where
  "msg_get_error X redis err w = do {
     (r, w) \<leftarrow> msg_take w;
     case r of None \<Rightarrow> Some (None, w)
     | Some m \<Rightarrow> do {
         let w = upd_msg m (\<lambda>s. s\<lparr>m_state := 0\<rparr>) w;
         (rb, w) \<leftarrow> mbuf_get w;
         case rb of None \<Rightarrow> do { w \<leftarrow> msg_put m w; Some (None, w) }
         | Some b \<Rightarrow> do {
             let w = mhdr_insert m b w;
             size \<leftarrow> mbuf_size b w;
             let txt = error_text X redis err;
             let n = (if unat size = 0 then 0 else min (length txt) (unat size - 1));
             let w = mbuf_print b (unat size) txt w;
             let w = upd_mbuf b (\<lambda>s. s\<lparr>b_last := b_last s + n\<rparr>) w;
             Some (Some m, upd_msg m (\<lambda>s. s\<lparr>m_mlen := word_of_nat n\<rparr>) w) } } }"

text \<open>The memory a pointer points into and its address there.\<close>

definition placeholder :: "u8 list" where
  "placeholder = [112, 108, 97, 99, 101, 104, 111, 108, 100, 101, 114]"

definition ptr_mem :: "ptr \<Rightarrow> world \<Rightarrow> nat \<Rightarrow> u8" where
  "ptr_mem q w = (case q of PBuf b off \<Rightarrow> b_mem (mbuf w b) | PLit off \<Rightarrow> mem_store 0 placeholder (\<lambda>_. 0))"

primrec ptr_off :: "ptr \<Rightarrow> nat" where
  "ptr_off (PBuf b off) = off"
| "ptr_off (PLit off) = off"

text \<open>
  \<open>array_push\<close> on the keys: the array starts with one element allocated and doubles, so it
  is full exactly when the number of keys is a power of two.
\<close>

definition keys_push :: "nat \<Rightarrow> ptr \<times> ptr \<Rightarrow> world \<Rightarrow> (bool \<times> world) option" where
  "keys_push m k w = (case m_keys (msg w m) of None \<Rightarrow> None
     | Some ks \<Rightarrow> do {
         let n = length ks;
         let (ok, w) = (if n \<noteq> 0 \<and> (n AND (n - 1)) = 0 then gf_alloc w else (True, w));
         if \<not> ok then Some (False, w)
         else Some (True, upd_msg m (\<lambda>s. s\<lparr>m_keys := Some (ks @ [k])\<rparr>) w) })"

definition msg_set_placeholder_key :: "nat \<Rightarrow> world \<Rightarrow> (bool \<times> world) option" where
  "msg_set_placeholder_key m w = (case m_keys (msg w m) of None \<Rightarrow> None
     | Some ks \<Rightarrow> do {
         ASSERT (length ks = 0) w;
         keys_push m (PLit 0, PLit (length placeholder)) w })"

definition msg_backend_idx :: "nat \<Rightarrow> ptr \<Rightarrow> nat \<Rightarrow> world \<Rightarrow> (u32 \<times> world) option" where
  "msg_backend_idx m key keylen w = do {
     c \<leftarrow> m_owner (msg w m);
     case c_owner (conn w c) of
       Some (OPool p) \<Rightarrow> server_pool_idx (pool w p) (ptr_mem key w) (ptr_off key) keylen w
     | _ \<Rightarrow> None }"

subsection \<open>The timeout tree keeps the earliest deadline first\<close>

definition tmo_inv :: "world \<Rightarrow> bool" where
  "tmo_inv w \<longleftrightarrow> sorted (map fst (w_tmo w)) \<and> distinct (map snd (w_tmo w))
     \<and> (\<forall>k m. (k, m) \<in> set (w_tmo w) \<longleftrightarrow> m_tmo_data (msg w m) \<noteq> None \<and> m_tmo_key (msg w m) = k)"

lemma sorted_map_filter: "sorted (map f xs) \<Longrightarrow> sorted (map f (filter P xs))"
  by (induction xs) auto

lemma tmo_inv_delete: "tmo_inv w \<Longrightarrow> tmo_inv (msg_tmo_delete m w)"
  by (auto simp: tmo_inv_def msg_tmo_delete_def Let_def sorted_map_filter distinct_map_filter)

definition tmo_armed :: "int \<Rightarrow> nat \<Rightarrow> nat \<Rightarrow> world \<Rightarrow> world" where
  "tmo_armed k m c w = (upd_msg m (\<lambda>s. s\<lparr>m_tmo_key := k, m_tmo_data := Some c\<rparr>) w)\<lparr>w_tmo := tmo_ins k m (w_tmo w)\<rparr>"

lemma msg_tmo_insert_eq:
  "msg_tmo_insert m c w = do {
     ASSERT (m_request (msg w m)) w;
     ASSERT (\<not> m_quit (msg w m) \<and> \<not> m_noreply (msg w m)) w;
     timeout \<leftarrow> server_timeout c w;
     if timeout < 0 then Some w else Some (tmo_armed (fst (gf_msec_now w) + timeout) m c (snd (gf_msec_now w))) }"
  by (simp add: msg_tmo_insert_def tmo_armed_def split_def Let_def cong: if_cong)

lemma msg_tmo_insert_cases:
  assumes "msg_tmo_insert m c w = Some w'"
  shows "w' = w \<or> (\<exists>k. w' = tmo_armed k m c (snd (gf_msec_now w)))"
proof -
  from assms obtain t where "(if t < 0 then Some w else Some (tmo_armed (fst (gf_msec_now w) + t) m c (snd (gf_msec_now w)))) = Some w'"
    unfolding msg_tmo_insert_eq gf_simps by blast
  then show ?thesis by (cases "t < 0") auto
qed

lemma tmo_inv_insert:
  assumes "tmo_inv w" "m_tmo_data (msg w m) = None" "msg_tmo_insert m c w = Some w'"
  shows "tmo_inv w'"
proof -
  have "m \<notin> snd ` set (w_tmo w)" using assms(1,2) by (auto simp: tmo_inv_def)
  with assms(1,2) have "tmo_inv (tmo_armed k m c (snd (gf_msec_now w)))" for k
    by (auto simp: tmo_inv_def tmo_armed_def sorted_tmo_ins distinct_tmo_ins)
  with msg_tmo_insert_cases [OF assms(3)] assms(1) show ?thesis by auto
qed

lemma msg_tmo_min_least:
  assumes "tmo_inv w"
  shows "case msg_tmo_min w of
      None \<Rightarrow> \<forall>n. m_tmo_data (msg w n) = None
    | Some m \<Rightarrow> m_tmo_data (msg w m) \<noteq> None
        \<and> (\<forall>n. m_tmo_data (msg w n) \<noteq> None \<longrightarrow> m_tmo_key (msg w m) \<le> m_tmo_key (msg w n))"
proof (cases "w_tmo w")
  case Nil
  with assms show ?thesis by (auto simp: tmo_inv_def msg_tmo_min_def)
next
  case (Cons x xs)
  have 1: "(fst x, snd x) \<in> set (w_tmo w)" by (simp add: Cons)
  have 2: "m_tmo_key (msg w (snd x)) \<le> m_tmo_key (msg w n)" if "m_tmo_data (msg w n) \<noteq> None" for n
  proof -
    from that assms have "(m_tmo_key (msg w n), n) \<in> set (w_tmo w)" by (simp add: tmo_inv_def)
    moreover have "fst x \<le> fst y" if "y \<in> set (w_tmo w)" for y using assms Cons that by (auto simp: tmo_inv_def)
    ultimately have "fst x \<le> m_tmo_key (msg w n)" by fastforce
    moreover from 1 assms have "m_tmo_key (msg w (snd x)) = fst x" unfolding tmo_inv_def by blast
    ultimately show ?thesis by simp
  qed
  have "m_tmo_data (msg w (snd x)) \<noteq> None" using assms 1 unfolding tmo_inv_def by blast
  with 2 show ?thesis by (simp add: msg_tmo_min_def Cons)
qed

datatype tmo_op = Tmo_insert nat nat | Tmo_delete nat

text \<open>The callers insert a request once, when it enters a server queue.\<close>

primrec tmo_run :: "tmo_op list \<Rightarrow> world \<Rightarrow> world option" where
  "tmo_run [] w = Some w"
| "tmo_run (x # xs) w = (case x of
     Tmo_insert m c \<Rightarrow>
       if m_tmo_data (msg w m) = None then do { w \<leftarrow> msg_tmo_insert m c w; tmo_run xs w } else tmo_run xs w
   | Tmo_delete m \<Rightarrow> tmo_run xs (msg_tmo_delete m w))"

text \<open>
  after any sequence of timeout insertions and deletions, whatever the
  clock returned, \<open>msg_tmo_min\<close> is a request with an armed timeout and none has an earlier
  deadline; it is NULL exactly when no request has an armed timeout.
\<close>

theorem tmo_min_earliest:
  assumes "tmo_run xs w = Some w'" "tmo_inv w"
  shows "case msg_tmo_min w' of
      None \<Rightarrow> \<forall>n. m_tmo_data (msg w' n) = None
    | Some m \<Rightarrow> m_tmo_data (msg w' m) \<noteq> None
        \<and> (\<forall>n. m_tmo_data (msg w' n) \<noteq> None \<longrightarrow> m_tmo_key (msg w' m) \<le> m_tmo_key (msg w' n))"
proof -
  have "tmo_inv w'" using assms
  proof (induction xs arbitrary: w)
    case (Cons x xs)
    then show ?case
      by (cases x) (auto simp: gf_simps tmo_inv_delete tmo_inv_insert split: if_splits)
  qed simp
  then show ?thesis by (rule msg_tmo_min_least)
qed

subsection \<open>Messages own their buffers\<close>

definition live_msgs :: "world \<Rightarrow> nat set" where
  "live_msgs w = {..<w_nmsg w} - set (w_free_msgq w)"

definition mhdr_ok :: "world \<Rightarrow> nat \<Rightarrow> bool" where
  "mhdr_ok w m \<longleftrightarrow> distinct (m_mhdr (msg w m)) \<and> (\<forall>b\<in>set (m_mhdr (msg w m)). b \<in> live_mbufs w \<and> mbuf_ok w b)"

text \<open>
  The free list of messages has no duplicates and its counter is its length; a message in
  use owns its mbufs: they are in use, well formed and belong to no other message.
\<close>

definition msgs_inv :: "world \<Rightarrow> bool" where
  "msgs_inv w \<longleftrightarrow> mbufs_inv w \<and> distinct (w_free_msgq w) \<and> set (w_free_msgq w) \<subseteq> {..<w_nmsg w}
     \<and> w_nfree_msgq w = word_of_nat (length (w_free_msgq w))
     \<and> (\<forall>m\<in>live_msgs w. mhdr_ok w m)
     \<and> (\<forall>m\<in>live_msgs w. \<forall>n\<in>live_msgs w. m \<noteq> n \<longrightarrow> set (m_mhdr (msg w m)) \<inter> set (m_mhdr (msg w n)) = {})"

definition msg_bytes :: "world \<Rightarrow> nat \<Rightarrow> u8 list" where
  "msg_bytes w m = concat (map (\<lambda>b. mbuf_bytes (mbuf w b)) (m_mhdr (msg w m)))"

lemma msg_reset_simps [simp]:
  "m_mhdr (msg_reset i s) = []" "m_mhdr (msg_reset2 s) = m_mhdr s" "m_owner (msg_reset2 s) = m_owner s"
  "m_peer (msg_reset2 s) = m_peer s" "m_mlen (msg_reset2 s) = m_mlen s"
  "m_peer (msg_reset i s) = None" "m_mlen (msg_reset i s) = 0"
  by (simp_all add: msg_reset_def msg_reset2_def)

text \<open>What \<open>_msg_get\<close> does, on each branch.\<close>

definition keys_tried :: "world \<Rightarrow> world" where
  "keys_tried w = snd (keys_create w)"

lemma keys_create_cases: "keys_tried w = snd (gf_alloc w) \<or> keys_tried w = snd (gf_alloc (snd (gf_alloc w)))"
  by (auto simp: keys_tried_def keys_create_def split_def Let_def)

lemma keys_tried_frame [simp]:
  "w_mbufs (keys_tried w) = w_mbufs w" "w_nmbuf (keys_tried w) = w_nmbuf w" "w_free_mbufq (keys_tried w) = w_free_mbufq w"
  "w_nfree_mbufq (keys_tried w) = w_nfree_mbufq w" "w_mbuf_offset (keys_tried w) = w_mbuf_offset w"
  "w_msgs (keys_tried w) = w_msgs w" "w_nmsg (keys_tried w) = w_nmsg w" "w_free_msgq (keys_tried w) = w_free_msgq w"
  "w_nfree_msgq (keys_tried w) = w_nfree_msgq w" "w_conns (keys_tried w) = w_conns w" "w_pools (keys_tried w) = w_pools w"
  "w_panic (keys_tried w) = w_panic w" "w_tmo (keys_tried w) = w_tmo w" "w_os (keys_tried w) = w_os w"
  "w_log_notice (keys_tried w) = w_log_notice w" "w_msg_id (keys_tried w) = w_msg_id w"
  "w_free_connq (keys_tried w) = w_free_connq w" "w_nconn (keys_tried w) = w_nconn w" "w_stats (keys_tried w) = w_stats w"
  using keys_create_cases [of w] by auto

definition msg_fresh :: "nat \<Rightarrow> world \<Rightarrow> world" where
  "msg_fresh m w = upd_msg m msg_reset2 (keys_tried (upd_msg m (msg_reset (w_msg_id w + 1)) (w\<lparr>w_msg_id := w_msg_id w + 1\<rparr>)))"

definition msg_failed :: "nat \<Rightarrow> world \<Rightarrow> world" where
  "msg_failed m w = upd_msg m (\<lambda>s. s\<lparr>m_keys := None\<rparr>)
     (keys_tried (upd_msg m (msg_reset (w_msg_id w + 1)) (w\<lparr>w_msg_id := w_msg_id w + 1\<rparr>)))"

lemma msg_setup_cases: "msg_setup m w = (Some m, msg_fresh m w) \<or> msg_setup m w = (None, msg_failed m w)"
  by (auto simp: msg_setup_def msg_fresh_def msg_failed_def keys_tried_def split_def Let_def)

definition msg_popped :: "world \<Rightarrow> world" where
  "msg_popped w = (if w_free_msgq w = [] then (snd (gf_alloc w))\<lparr>w_nmsg := Suc (w_nmsg w)\<rparr>
     else w\<lparr>w_nfree_msgq := w_nfree_msgq w - 1, w_free_msgq := tl (w_free_msgq w)\<rparr>)"

definition msg_next :: "world \<Rightarrow> nat" where
  "msg_next w = (if w_free_msgq w = [] then w_nmsg w else hd (w_free_msgq w))"

lemma msg_take_cases:
  assumes "msgs_inv w" "w_nmsg w < 2 ^ 32"
  obtains (got) "msg_take w = Some (Some (msg_next w), msg_fresh (msg_next w) (msg_popped w))"
    | (failed) "msg_take w = Some (None, msg_failed (msg_next w) (msg_popped w))"
    | (nomem) "w_free_msgq w = []" "msg_take w = Some (None, snd (gf_alloc w))"
proof -
  have c: "0 < w_nfree_msgq w" if "w_free_msgq w \<noteq> []"
    using assms that free_counter_pos [of "w_free_msgq w" "w_nmsg w"] by (simp add: msgs_inv_def)
  show ?thesis
  proof (cases "w_free_msgq w = [] \<and> \<not> fst (gf_alloc w)")
    case True
    then show ?thesis by (intro nomem) (auto simp: msg_take_def split_def)
  next
    case False
    then have "msg_take w = Some (msg_setup (msg_next w) (msg_popped w))"
      using c by (auto simp: msg_take_def msg_next_def msg_popped_def split_def neq_Nil_conv)
    then show ?thesis using msg_setup_cases [of "msg_next w" "msg_popped w"] got failed by auto
  qed
qed

lemma msg_popped_simps [simp]:
  "w_mbufs (msg_popped w) = w_mbufs w" "w_nmbuf (msg_popped w) = w_nmbuf w" "w_free_mbufq (msg_popped w) = w_free_mbufq w"
  "w_nfree_mbufq (msg_popped w) = w_nfree_mbufq w" "w_mbuf_offset (msg_popped w) = w_mbuf_offset w"
  "w_msgs (msg_popped w) = w_msgs w" "w_conns (msg_popped w) = w_conns w" "w_pools (msg_popped w) = w_pools w"
  "w_panic (msg_popped w) = w_panic w" "w_tmo (msg_popped w) = w_tmo w" "w_os (msg_popped w) = w_os w"
  "w_log_notice (msg_popped w) = w_log_notice w" "w_msg_id (msg_popped w) = w_msg_id w" "w_stats (msg_popped w) = w_stats w"
  by (simp_all add: msg_popped_def)

text \<open>A message state in which the messages in use and their buffers do not change.\<close>

lemma live_mbufs_cong: "w_nmbuf w' = w_nmbuf w \<Longrightarrow> w_free_mbufq w' = w_free_mbufq w \<Longrightarrow> live_mbufs w' = live_mbufs w"
  by (simp add: live_mbufs_def)

lemma msgs_inv_popped:
  assumes "msgs_inv w" "w_free_msgq w' = w_free_msgq (msg_popped w)" "w_nmsg w' = w_nmsg (msg_popped w)"
    and "w_nfree_msgq w' = w_nfree_msgq (msg_popped w)" "w_mbufs w' = w_mbufs w" "w_nmbuf w' = w_nmbuf w"
    and "w_free_mbufq w' = w_free_mbufq w" "w_nfree_mbufq w' = w_nfree_mbufq w" "w_mbuf_offset w' = w_mbuf_offset w"
    and "m_mhdr (msg w' (msg_next w)) = []" "\<forall>n. n \<noteq> msg_next w \<longrightarrow> msg w' n = msg w n"
  shows "msgs_inv w' \<and> msg_next w \<notin> live_msgs w \<and> live_msgs w' = insert (msg_next w) (live_msgs w)"
proof -
  have live: "live_msgs w' = insert (msg_next w) (live_msgs w) \<and> msg_next w \<notin> live_msgs w"
    using assms(1-3) by (cases "w_free_msgq w") (auto simp: live_msgs_def msg_popped_def msg_next_def msgs_inv_def less_Suc_eq)
  have lb: "live_mbufs w' = live_mbufs w" by (rule live_mbufs_cong) (simp_all add: assms)
  have mi: "mbufs_inv w'" using assms(1,5-9) by (simp add: msgs_inv_def mbufs_inv_def)
  have fr: "distinct (w_free_msgq w')" "set (w_free_msgq w') \<subseteq> {..<w_nmsg w'}"
     "w_nfree_msgq w' = word_of_nat (length (w_free_msgq w'))"
    using assms(1-4) by (cases "w_free_msgq w"; auto simp: msg_popped_def msgs_inv_def)+
  have mh: "mhdr_ok w' m" if "m \<in> live_msgs w'" for m
    using that assms(1,5-11) live lb by (cases "m = msg_next w") (auto simp: mhdr_ok_def mbuf_ok_def msgs_inv_def)
  have dj: "set (m_mhdr (msg w' m)) \<inter> set (m_mhdr (msg w' n)) = {}" if "m \<in> live_msgs w'" "n \<in> live_msgs w'" "m \<noteq> n" for m n
    using that assms(1,10,11) live by (cases "m = msg_next w"; cases "n = msg_next w") (auto simp: msgs_inv_def)
  from mi fr mh dj live show ?thesis unfolding msgs_inv_def by blast
qed

lemma msg_fresh_simps [simp]:
  "w_free_msgq (msg_fresh m w) = w_free_msgq w" "w_nmsg (msg_fresh m w) = w_nmsg w" "w_nfree_msgq (msg_fresh m w) = w_nfree_msgq w"
  "w_mbufs (msg_fresh m w) = w_mbufs w" "w_nmbuf (msg_fresh m w) = w_nmbuf w" "w_free_mbufq (msg_fresh m w) = w_free_mbufq w"
  "w_nfree_mbufq (msg_fresh m w) = w_nfree_mbufq w" "w_mbuf_offset (msg_fresh m w) = w_mbuf_offset w"
  "w_log_notice (msg_fresh m w) = w_log_notice w" "w_tmo (msg_fresh m w) = w_tmo w" "w_panic (msg_fresh m w) = w_panic w"
  "w_conns (msg_fresh m w) = w_conns w" "w_pools (msg_fresh m w) = w_pools w" "w_stats (msg_fresh m w) = w_stats w"
  "msg (msg_fresh m w) n = (if n = m then msg_reset2 (msg_reset (w_msg_id w + 1) (msg w m)) else msg w n)"
  by (simp_all add: msg_fresh_def)

lemma msg_failed_simps [simp]:
  "w_free_msgq (msg_failed m w) = w_free_msgq w" "w_nmsg (msg_failed m w) = w_nmsg w" "w_nfree_msgq (msg_failed m w) = w_nfree_msgq w"
  "w_mbufs (msg_failed m w) = w_mbufs w" "w_nmbuf (msg_failed m w) = w_nmbuf w" "w_free_mbufq (msg_failed m w) = w_free_mbufq w"
  "w_nfree_mbufq (msg_failed m w) = w_nfree_mbufq w" "w_mbuf_offset (msg_failed m w) = w_mbuf_offset w"
  "w_tmo (msg_failed m w) = w_tmo w" "w_panic (msg_failed m w) = w_panic w"
  "w_conns (msg_failed m w) = w_conns w" "w_pools (msg_failed m w) = w_pools w" "w_stats (msg_failed m w) = w_stats w"
  "msg (msg_failed m w) n = (if n = m then (msg_reset (w_msg_id w + 1) (msg w m))\<lparr>m_keys := None\<rparr> else msg w n)"
  by (simp_all add: msg_failed_def)

lemma msg_take_inv:
  assumes "msgs_inv w" "w_nmsg w < 2 ^ 32" "msg_take w = Some (r, w')"
  shows "msgs_inv w' \<and> w_nmsg w' \<le> Suc (w_nmsg w) \<and> live_msgs w \<subseteq> live_msgs w'
     \<and> (case r of None \<Rightarrow> True | Some m \<Rightarrow> m \<notin> live_msgs w \<and> live_msgs w' = insert m (live_msgs w))"
  using assms(1,2)
proof (cases rule: msg_take_cases)
  case got
  then have "r = Some (msg_next w)" "w' = msg_fresh (msg_next w) (msg_popped w)" using assms(3) by simp_all
  then show ?thesis using msgs_inv_popped [OF assms(1), of w'] by (auto simp: msg_popped_def)
next
  case failed
  then have "r = None" "w' = msg_failed (msg_next w) (msg_popped w)" using assms(3) by simp_all
  then show ?thesis using msgs_inv_popped [OF assms(1), of w'] by (auto simp: msg_popped_def)
next
  case nomem
  then have "r = None" "w' = snd (gf_alloc w)" using assms(3) by simp_all
  then show ?thesis using assms(1) by (simp add: msgs_inv_def mbufs_inv_def live_msgs_def mhdr_ok_def mbuf_ok_def live_mbufs_def)
qed

lemma msg_take_total: "msgs_inv w \<Longrightarrow> w_nmsg w < 2 ^ 32 \<Longrightarrow> msg_take w \<noteq> None"
  by (cases rule: msg_take_cases [of w]) auto

text \<open>Only the fields of messages, the pool of messages and the clock differ after \<open>msg_get\<close>.\<close>

lemma msgs_inv_cong:
  assumes "w_free_msgq w' = w_free_msgq w" "w_nmsg w' = w_nmsg w" "w_nfree_msgq w' = w_nfree_msgq w"
    and "w_mbufs w' = w_mbufs w" "w_nmbuf w' = w_nmbuf w" "w_free_mbufq w' = w_free_mbufq w"
    and "w_nfree_mbufq w' = w_nfree_mbufq w" "w_mbuf_offset w' = w_mbuf_offset w"
    and "\<forall>m. m_mhdr (msg w' m) = m_mhdr (msg w m)"
  shows "msgs_inv w' = msgs_inv w \<and> live_msgs w' = live_msgs w \<and> live_mbufs w' = live_mbufs w"
proof -
  have "live_msgs w' = live_msgs w" "live_mbufs w' = live_mbufs w" using assms by (simp_all add: live_msgs_def live_mbufs_def)
  moreover have "mhdr_ok w' m = mhdr_ok w m" for m using assms calculation by (simp add: mhdr_ok_def mbuf_ok_def)
  ultimately show ?thesis using assms by (simp add: msgs_inv_def mbufs_inv_def)
qed

definition msg_owned :: "nat \<Rightarrow> bool \<Rightarrow> nat \<Rightarrow> world \<Rightarrow> world" where
  "msg_owned c request m w =
     (let w = upd_msg m (\<lambda>s. s\<lparr>m_owner := Some c, m_request := request, m_parser := None, m_add_auth := None,
                   m_fragment := None, m_reply := None, m_failure := None, m_pre_coalesce := None, m_post_coalesce := None\<rparr>) w
      in if w_log_notice w then upd_msg m (\<lambda>s. s\<lparr>m_start_ts := fst (gf_usec_now w)\<rparr>) (snd (gf_usec_now w)) else w)"

lemma msg_get_eq:
  "msg_get c request redis w = do { (r, w) \<leftarrow> msg_take w;
     Some (r, case r of None \<Rightarrow> w | Some m \<Rightarrow> msg_owned c request m w) }"
  by (simp add: msg_get_def msg_owned_def split_def Let_def option.case_distrib [of Some] option.case_distrib [of "Pair _"]
      cong: if_cong option.case_cong)

lemma msg_owned_inv:
  "msgs_inv (msg_owned c request m w) = msgs_inv w \<and> live_msgs (msg_owned c request m w) = live_msgs w
     \<and> live_mbufs (msg_owned c request m w) = live_mbufs w"
  by (rule msgs_inv_cong) (simp_all add: msg_owned_def Let_def)

lemma msg_owned_nmsg [simp]: "w_nmsg (msg_owned c request m w) = w_nmsg w"
  by (simp add: msg_owned_def Let_def)

lemma msg_get_inv:
  assumes "msgs_inv w" "w_nmsg w < 2 ^ 32" "msg_get c request redis w = Some (r, w')"
  shows "msgs_inv w' \<and> w_nmsg w' \<le> Suc (w_nmsg w) \<and> live_msgs w \<subseteq> live_msgs w'
     \<and> (case r of None \<Rightarrow> True | Some m \<Rightarrow> m \<notin> live_msgs w \<and> live_msgs w' = insert m (live_msgs w))"
proof -
  obtain w1 where 1: "msg_take w = Some (r, w1)" and w': "w' = (case r of None \<Rightarrow> w1 | Some m \<Rightarrow> msg_owned c request m w1)"
    using assms(3) by (auto simp: msg_get_eq gf_simps)
  from msg_take_inv [OF assms(1,2) 1] show ?thesis
    by (cases r) (auto simp: w' msg_owned_inv)
qed

subsection \<open>Returning a message\<close>

lemma put_mbufs_eq:
  assumes "m_mhdr (msg w m) = bs" "\<forall>b\<in>set bs. b_magic (mbuf w b) = MBUF_MAGIC"
  shows "put_mbufs bs m w = Some ((upd_msg m (\<lambda>s. s\<lparr>m_mhdr := []\<rparr>) w)
     \<lparr>w_nfree_mbufq := w_nfree_mbufq w + word_of_nat (length bs), w_free_mbufq := rev bs @ w_free_mbufq w\<rparr>)"
  using assms
proof (induction bs arbitrary: w)
  case Nil
  then have "upd_msg m (\<lambda>s. s\<lparr>m_mhdr := []\<rparr>) w = w" by (simp add: upd_msg_def fun_upd_idem)
  then show ?case by simp
next
  case (Cons b bs)
  let ?w = "(upd_msg m (\<lambda>s. s\<lparr>m_mhdr := bs\<rparr>) w)\<lparr>w_nfree_mbufq := w_nfree_mbufq w + 1, w_free_mbufq := b # w_free_mbufq w\<rparr>"
  have "put_mbufs (b # bs) m w = put_mbufs bs m ?w"
    using Cons.prems by (simp add: mbuf_remove_def mbuf_put_def)
  also have "\<dots> = Some ((upd_msg m (\<lambda>s. s\<lparr>m_mhdr := []\<rparr>) ?w)
     \<lparr>w_nfree_mbufq := w_nfree_mbufq ?w + word_of_nat (length bs), w_free_mbufq := rev bs @ w_free_mbufq ?w\<rparr>)"
    by (rule Cons.IH) (use Cons.prems in simp_all)
  finally show ?case by (simp add: upd_msg_def)
qed

definition msg_freed :: "nat \<Rightarrow> world \<Rightarrow> world" where
  "msg_freed m w = (upd_msg m (\<lambda>s. s\<lparr>m_mhdr := [], m_frag_seq := None, m_keys := None\<rparr>) w)
     \<lparr>w_nfree_mbufq := w_nfree_mbufq w + word_of_nat (length (m_mhdr (msg w m))),
      w_free_mbufq := rev (m_mhdr (msg w m)) @ w_free_mbufq w,
      w_nfree_msgq := w_nfree_msgq w + 1, w_free_msgq := m # w_free_msgq w\<rparr>"

lemma msg_put_eq:
  assumes "msgs_inv w" "m \<in> live_msgs w"
  shows "msg_put m w = Some (msg_freed m w)"
proof -
  have "\<forall>b\<in>set (m_mhdr (msg w m)). b_magic (mbuf w b) = MBUF_MAGIC"
    using assms by (auto simp: msgs_inv_def mhdr_ok_def mbuf_ok_def mbufs_inv_def)
  then show ?thesis by (simp add: msg_put_def put_mbufs_eq msg_freed_def upd_msg_def)
qed

lemma msg_freed_live:
  assumes "msgs_inv w" "m \<in> live_msgs w"
  shows "live_msgs (msg_freed m w) = live_msgs w - {m}"
    and "live_mbufs (msg_freed m w) = live_mbufs w - set (m_mhdr (msg w m))"
  by (auto simp: live_msgs_def live_mbufs_def msg_freed_def)

lemma msg_freed_inv:
  assumes "msgs_inv w" "m \<in> live_msgs w"
  shows "msgs_inv (msg_freed m w)"
proof -
  have own: "mhdr_ok w m" "set (m_mhdr (msg w m)) \<subseteq> live_mbufs w" using assms by (auto simp: msgs_inv_def mhdr_ok_def)
  have "mbufs_inv (msg_freed m w)"
    using assms own by (auto simp: msgs_inv_def mbufs_inv_def msg_freed_def mhdr_ok_def live_mbufs_def add.commute)
  moreover have "mhdr_ok (msg_freed m w) n" if "n \<in> live_msgs (msg_freed m w)" for n
  proof -
    have n: "n \<in> live_msgs w" "n \<noteq> m" using that msg_freed_live [OF assms] by auto
    then have "set (m_mhdr (msg w n)) \<inter> set (m_mhdr (msg w m)) = {}" "mhdr_ok w n" using assms by (auto simp: msgs_inv_def)
    with n show ?thesis unfolding mhdr_ok_def msg_freed_live(2) [OF assms]
      by (auto simp: msg_freed_def mbuf_ok_def)
  qed
  moreover have "distinct (w_free_msgq (msg_freed m w))" "set (w_free_msgq (msg_freed m w)) \<subseteq> {..<w_nmsg (msg_freed m w)}"
    "w_nfree_msgq (msg_freed m w) = word_of_nat (length (w_free_msgq (msg_freed m w)))"
    using assms by (auto simp: msgs_inv_def msg_freed_def live_msgs_def)
  moreover have "set (m_mhdr (msg (msg_freed m w) n)) \<inter> set (m_mhdr (msg (msg_freed m w) k)) = {}"
    if "n \<in> live_msgs (msg_freed m w)" "k \<in> live_msgs (msg_freed m w)" "n \<noteq> k" for n k
    using that assms msg_freed_live [OF assms] by (auto simp: msgs_inv_def msg_freed_def)
  ultimately show ?thesis unfolding msgs_inv_def by blast
qed

interpretation mq: object_pool "msg_get c request redis" msg_put live_msgs w_nmsg msgs_inv for c request redis
proof unfold_locales
  fix w :: world assume i: "msgs_inv w" "w_nmsg w < 2 ^ 32"
  show "msg_get c request redis w \<noteq> None" using msg_take_total [OF i] by (auto simp: msg_get_eq)
  fix r w' assume g: "msg_get c request redis w = Some (r, w')"
  show "msgs_inv w' \<and> w_nmsg w' \<le> Suc (w_nmsg w)" using msg_get_inv [OF i g] by simp
next
  fix w x w' assume i: "msgs_inv w" "w_nmsg w < 2 ^ 32" "msg_get c request redis w = Some (Some x, w')"
  show "x \<notin> live_msgs w \<and> live_msgs w' = insert x (live_msgs w)" using msg_get_inv [OF i] by simp
next
  fix w w' assume i: "msgs_inv w" "w_nmsg w < 2 ^ 32" "msg_get c request redis w = Some (None, w')"
  show "live_msgs w \<subseteq> live_msgs w'" using msg_get_inv [OF i] by simp
next
  fix w x assume i: "msgs_inv w" "x \<in> live_msgs w"
  show "\<exists>w'. msg_put x w = Some w' \<and> live_msgs w' = live_msgs w - {x} \<and> msgs_inv w' \<and> w_nmsg w' = w_nmsg w"
    using msg_put_eq [OF i] msg_freed_live(1) [OF i] msg_freed_inv [OF i] by (simp add: msg_freed_def)
qed

subsection \<open>Putting bytes into a message\<close>

definition unowned :: "world \<Rightarrow> nat \<Rightarrow> bool" where
  "unowned w b \<longleftrightarrow> b \<in> live_mbufs w \<and> mbuf_ok w b \<and> (\<forall>m\<in>live_msgs w. b \<notin> set (m_mhdr (msg w m)))"

lemma mhdr_mbuf: "msgs_inv w \<Longrightarrow> m \<in> live_msgs w \<Longrightarrow> b \<in> set (m_mhdr (msg w m)) \<Longrightarrow> b \<in> live_mbufs w \<and> mbuf_ok w b"
  by (auto simp: msgs_inv_def mhdr_ok_def)

lemma msgs_inv_mbuf_get:
  assumes "msgs_inv w" "w_nmbuf w < 2 ^ 32" "mbuf_get w = Some (r, w')"
  shows "msgs_inv w' \<and> live_msgs w' = live_msgs w \<and> (\<forall>m\<in>live_msgs w. msg_bytes w' m = msg_bytes w m)
    \<and> (case r of None \<Rightarrow> True | Some b \<Rightarrow> unowned w' b \<and> b \<notin> live_mbufs w)"
proof -
  have mi: "mbufs_inv w" using assms(1) by (simp add: msgs_inv_def)
  note fr = mbuf_get_frame [OF mi assms(2,3)]
  have live: "live_msgs w' = live_msgs w" using fr by (simp add: live_msgs_def)
  have same: "mbuf w' d = mbuf w d" if "d \<in> live_mbufs w" for d
    by (rule mbuf_get_cases [OF mi assms(2,3)]; use that mi in \<open>auto simp: live_mbufs_def mbufs_inv_def\<close>)
  have sub: "live_mbufs w \<subseteq> live_mbufs w'" using mbuf_get_live [OF mi assms(2)] assms(3) mp.get_fail [OF mi assms(2)]
    by (cases r) auto
  have ok: "mhdr_ok w' m \<and> msg_bytes w' m = msg_bytes w m" if "m \<in> live_msgs w" for m
  proof -
    have o: "\<forall>b\<in>set (m_mhdr (msg w m)). b \<in> live_mbufs w \<and> mbuf_ok w b" "distinct (m_mhdr (msg w m))"
      using that assms(1) by (auto simp: msgs_inv_def mhdr_ok_def)
    have "w_nmbuf w \<le> w_nmbuf w'" using mbuf_get_inv [OF mi assms(2,3)] by simp
    with o same sub fr have "mhdr_ok w' m" by (auto simp: mhdr_ok_def mbuf_ok_def)
    moreover have "msg_bytes w' m = msg_bytes w m" using o same fr
      by (auto simp: msg_bytes_def intro!: arg_cong [of _ _ concat] map_cong)
    ultimately show ?thesis by simp
  qed
  have inv: "msgs_inv w'" using assms(1) fr live ok mbuf_get_inv [OF mi assms(2,3)] by (auto simp: msgs_inv_def)
  have "unowned w' b \<and> b \<notin> live_mbufs w" if "r = Some b" for b
    using mbuf_get_live [OF mi assms(2)] mbuf_get_new(1) [OF mi assms(2)] assms(1,3) that live fr
    by (auto simp: unowned_def msgs_inv_def mhdr_ok_def)
  with inv live ok show ?thesis by (auto split: option.splits)
qed

lemma msgs_inv_insert:
  assumes "msgs_inv w" "m \<in> live_msgs w" "unowned w b" "set h = insert b (set (m_mhdr (msg w m)))" "distinct h"
  defines "w' \<equiv> upd_msg m (\<lambda>s. s\<lparr>m_mhdr := h\<rparr>) w"
  shows "msgs_inv w' \<and> live_msgs w' = live_msgs w"
proof -
  have l: "live_msgs w' = live_msgs w" "live_mbufs w' = live_mbufs w" by (simp_all add: w'_def live_msgs_def live_mbufs_def)
  have "mhdr_ok w' n" if "n \<in> live_msgs w" for n
    using that assms l by (auto simp: mhdr_ok_def mbuf_ok_def msgs_inv_def unowned_def)
  moreover have "set (m_mhdr (msg w' n)) \<inter> set (m_mhdr (msg w' k)) = {}" if "n \<in> live_msgs w" "k \<in> live_msgs w" "n \<noteq> k" for n k
    using that assms(1-4) unfolding w'_def msgs_inv_def unowned_def by auto
  ultimately show ?thesis using assms(1) l unfolding msgs_inv_def by (auto simp: w'_def mbufs_inv_def)
qed

lemma msgs_inv_write:
  assumes "msgs_inv w" "mbuf_ok (upd_mbuf b f w) b" "b_magic (f (mbuf w b)) = b_magic (mbuf w b)"
  shows "msgs_inv (upd_mbuf b f w) \<and> live_msgs (upd_mbuf b f w) = live_msgs w"
proof -
  have l: "live_msgs (upd_mbuf b f w) = live_msgs w" "live_mbufs (upd_mbuf b f w) = live_mbufs w"
    by (simp_all add: live_msgs_def live_mbufs_def)
  have "mhdr_ok (upd_mbuf b f w) n" if "n \<in> live_msgs w" for n
    using that assms l by (auto simp: mhdr_ok_def msgs_inv_def mbuf_ok_def)
  with assms l show ?thesis by (auto simp: msgs_inv_def mbufs_inv_def)
qed

lemma msgs_inv_mlen:
  "(\<And>s. m_mhdr (f s) = m_mhdr s) \<Longrightarrow> msgs_inv (upd_msg m f w) = msgs_inv w \<and> live_msgs (upd_msg m f w) = live_msgs w"
  using msgs_inv_cong [of "upd_msg m f w" w] by simp

text \<open>Copying bytes to the end of an mbuf that is not in use elsewhere or is the last of its message.\<close>

definition mbuf_filled :: "nat \<Rightarrow> u8 list \<Rightarrow> world \<Rightarrow> world" where
  "mbuf_filled b bs w =
     upd_mbuf b (\<lambda>s. s\<lparr>b_mem := mem_store (b_last s) bs (b_mem s), b_last := b_last s + length bs\<rparr>) w"

lemma mbuf_filled_inv:
  assumes "msgs_inv w" "mbuf_ok w b" "length bs \<le> w_mbuf_offset w - b_last (mbuf w b)"
  shows "msgs_inv (mbuf_filled b bs w) \<and> live_msgs (mbuf_filled b bs w) = live_msgs w"
  unfolding mbuf_filled_def by (rule msgs_inv_write) (use assms in \<open>auto simp: mbuf_ok_def\<close>)

lemma mbuf_filled_bytes:
  "mbuf_ok w b \<Longrightarrow> mbuf_bytes (mbuf (mbuf_filled b bs w) d) = (if d = b then mbuf_bytes (mbuf w b) @ bs else mbuf_bytes (mbuf w d))"
  by (simp add: mbuf_filled_def mbuf_bytes_store mbuf_ok_def)

lemma mbuf_filled_frame [simp]: "w_msgs (mbuf_filled b bs w) = w_msgs w" "w_panic (mbuf_filled b bs w) = w_panic w"
  "w_mbuf_offset (mbuf_filled b bs w) = w_mbuf_offset w"
  by (simp_all add: mbuf_filled_def)

lemma msg_bytes_filled_other:
  assumes "msgs_inv w" "mbuf_ok w b" "n \<in> live_msgs w" "b \<notin> set (m_mhdr (msg w n))"
  shows "msg_bytes (mbuf_filled b bs w) n = msg_bytes w n"
  using assms by (auto simp: msg_bytes_def mbuf_filled_bytes intro!: arg_cong [of _ _ concat] map_cong)

lemma msg_bytes_filled_last:
  assumes "mbuf_ok w b" "m_mhdr (msg w m) = h @ [b]" "b \<notin> set h"
  shows "msg_bytes (mbuf_filled b bs w) m = msg_bytes w m @ bs"
proof -
  have "map (\<lambda>d. mbuf_bytes (mbuf (mbuf_filled b bs w) d)) h = map (\<lambda>d. mbuf_bytes (mbuf w d)) h"
    by (rule map_cong) (use assms in \<open>auto simp: mbuf_filled_bytes\<close>)
  then show ?thesis using mbuf_filled_bytes [OF assms(1), of bs b] by (simp add: msg_bytes_def assms(2) del: map_eq_conv)
qed

lemma mbuf_put_bytes:
  assumes "mbuf_ok w b" "w_mbuf_offset w < 2 ^ 32" "length bs \<le> w_mbuf_offset w - b_last (mbuf w b)" "src \<noteq> Some b"
  shows "do { size \<leftarrow> mbuf_size b w; ASSERT (length bs \<le> unat size) w; w \<leftarrow> mbuf_copy b src bs w; f w } = f (mbuf_filled b bs w)"
proof -
  obtain n where "mbuf_size b w = Some n" "unat n = w_mbuf_offset w - b_last (mbuf w b)"
    using mbuf_size_ok [OF assms(1,2)] by blast
  with mbuf_copy_ok [OF assms] assms(3) show ?thesis by (simp add: mbuf_filled_def)
qed

text \<open>The mbuf \<open>msg_ensure_mbuf\<close> returns is the last of the message and has the room asked for.\<close>

lemma msg_ensure_mbuf_ok:
  assumes "msgs_inv w" "m \<in> live_msgs w" "w_nmbuf w < 2 ^ 32" "n \<le> w_mbuf_offset w"
  shows "\<exists>r w'. msg_ensure_mbuf m n w = Some (r, w') \<and> msgs_inv w' \<and> live_msgs w' = live_msgs w
    \<and> w_mbuf_offset w' = w_mbuf_offset w \<and> m_mlen (msg w' m) = m_mlen (msg w m)
    \<and> (\<forall>k\<in>live_msgs w. msg_bytes w' k = msg_bytes w k)
    \<and> (case r of None \<Rightarrow> True | Some b \<Rightarrow> mbuf_ok w' b \<and> n \<le> w_mbuf_offset w - b_last (mbuf w' b)
        \<and> (\<exists>h. m_mhdr (msg w' m) = h @ [b] \<and> b \<notin> set h) \<and> (b \<in> set (m_mhdr (msg w m)) \<or> b \<notin> live_mbufs w))"
proof -
  have mi: "mbufs_inv w" and off: "w_mbuf_offset w < 2 ^ 32" using assms(1) by (simp_all add: msgs_inv_def mbufs_inv_def)
  let ?h = "m_mhdr (msg w m)"
  have own: "distinct ?h" "\<forall>b\<in>set ?h. b \<in> live_mbufs w \<and> mbuf_ok w b" using assms(1,2) by (auto simp: msgs_inv_def mhdr_ok_def)
  show ?thesis
  proof (cases "?h = [] \<or> w_mbuf_offset w - b_last (mbuf w (last ?h)) < n")
    case False
    then have "mbuf_ok w (last ?h)" using own by simp
    then obtain k where k: "mbuf_size (last ?h) w = Some k" "unat k = w_mbuf_offset w - b_last (mbuf w (last ?h))"
      using mbuf_size_ok off by blast
    have "msg_ensure_mbuf m n w = Some (Some (last ?h), w)" using False k by (simp add: msg_ensure_mbuf_def)
    moreover have "\<exists>h. ?h = h @ [last ?h] \<and> last ?h \<notin> set h"
      using False own(1) by (cases ?h rule: rev_cases) auto
    ultimately show ?thesis using False assms(1) \<open>mbuf_ok w (last ?h)\<close> by auto
  next
    case True
    obtain r w1 where g: "mbuf_get w = Some (r, w1)" using mbuf_get_total [OF mi assms(3)] by blast
    note fr = mbuf_get_frame [OF mi assms(3) g] and mg = msgs_inv_mbuf_get [OF assms(1,3) g]
    have eq: "msg_ensure_mbuf m n w = Some (r, case r of None \<Rightarrow> w1 | Some b \<Rightarrow> mhdr_insert m b w1)"
    proof (cases "?h = []")
      case False
      then obtain k where "mbuf_size (last ?h) w = Some k" "unat k = w_mbuf_offset w - b_last (mbuf w (last ?h))"
        using mbuf_size_ok [of w "last ?h"] own off by auto
      with True False g show ?thesis by (cases r) (simp_all add: msg_ensure_mbuf_def)
    qed (cases r; simp add: msg_ensure_mbuf_def g)
    show ?thesis
    proof (cases r)
      case None
      with eq mg fr show ?thesis by simp
    next
      case (Some b)
      note g' = g [unfolded Some]
      have b: "unowned w1 b" "b \<notin> live_mbufs w" "m \<in> live_msgs w1" using mg Some assms(2) by auto
      then have nb: "b \<notin> set ?h" using own by auto
      have new: "mbuf_ok w1 b" "b_last (mbuf w1 b) = 0" using mbuf_get_new [OF mi assms(3) g'] by auto
      have 1: "msgs_inv (mhdr_insert m b w1) \<and> live_msgs (mhdr_insert m b w1) = live_msgs w1"
        using msgs_inv_insert [of w1 m b "?h @ [b]"] mg b nb own fr by (simp add: mhdr_insert_def mbuf_insert_def upd_msg_def)
      have 2: "msg_bytes (mhdr_insert m b w1) k = msg_bytes w k" if "k \<in> live_msgs w" for k
        using mg that mbuf_get_new(2,3) [OF mi assms(3) g']
        by (auto simp: msg_bytes_def mhdr_insert_def mbuf_insert_def mbuf_bytes_def)
      have 3: "mbuf_ok (mhdr_insert m b w1) b" using new by (simp add: mbuf_ok_def mhdr_insert_def)
      show ?thesis using eq Some 1 2 3 mg fr b nb new assms(4)
        by (auto simp: mhdr_insert_def mbuf_insert_def)
    qed
  qed
qed

lemma msg_append_runs:
  assumes "msgs_inv w" "m \<in> live_msgs w" "w_nmbuf w < 2 ^ 32" "length bs \<le> w_mbuf_offset w"
    and "case src of None \<Rightarrow> True | Some b \<Rightarrow> b \<in> live_mbufs w \<and> b \<notin> set (m_mhdr (msg w m))"
  shows "\<exists>st w'. msg_append m src bs w = Some (st, w') \<and> msgs_inv w' \<and> live_msgs w' = live_msgs w
    \<and> (\<forall>k\<in>live_msgs w - {m}. msg_bytes w' k = msg_bytes w k)
    \<and> (st = GF_OK \<and> msg_bytes w' m = msg_bytes w m @ bs \<and> m_mlen (msg w' m) = m_mlen (msg w m) + word_of_nat (length bs)
       \<or> st = GF_ENOMEM \<and> msg_bytes w' m = msg_bytes w m \<and> m_mlen (msg w' m) = m_mlen (msg w m))"
proof -
  obtain r w1 where e: "msg_ensure_mbuf m (length bs) w = Some (r, w1)" and
    i: "msgs_inv w1" "live_msgs w1 = live_msgs w" "w_mbuf_offset w1 = w_mbuf_offset w" "m_mlen (msg w1 m) = m_mlen (msg w m)"
      "\<forall>k\<in>live_msgs w. msg_bytes w1 k = msg_bytes w k" and
    b: "case r of None \<Rightarrow> True | Some b \<Rightarrow> mbuf_ok w1 b \<and> length bs \<le> w_mbuf_offset w - b_last (mbuf w1 b)
        \<and> (\<exists>h. m_mhdr (msg w1 m) = h @ [b] \<and> b \<notin> set h) \<and> (b \<in> set (m_mhdr (msg w m)) \<or> b \<notin> live_mbufs w)"
    using msg_ensure_mbuf_ok [OF assms(1-4)] by blast
  show ?thesis
  proof (cases r)
    case None
    with e i assms(2,4) show ?thesis by (simp add: msg_append_def mbuf_data_size_def)
  next
    case (Some d)
    then obtain h where d: "mbuf_ok w1 d" "length bs \<le> w_mbuf_offset w1 - b_last (mbuf w1 d)" "src \<noteq> Some d"
      "m_mhdr (msg w1 m) = h @ [d]" "d \<notin> set h" using b i(3) assms(5) by (auto split: option.splits)
    have off: "w_mbuf_offset w1 < 2 ^ 32" using i(1) by (simp add: msgs_inv_def mbufs_inv_def)
    let ?w2 = "mbuf_filled d bs w1"
    let ?w = "upd_msg m (\<lambda>s. s\<lparr>m_mlen := m_mlen s + word_of_nat (length bs)\<rparr>) ?w2"
    have eq: "msg_append m src bs w = Some (GF_OK, ?w)"
      using e Some assms(4) mbuf_put_bytes [OF d(1) off d(2,3)] by (simp add: msg_append_def mbuf_data_size_def)
    have inv: "msgs_inv ?w \<and> live_msgs ?w = live_msgs w"
      using msgs_inv_mlen [of "\<lambda>s. s\<lparr>m_mlen := m_mlen s + word_of_nat (length bs)\<rparr>" m ?w2]
        mbuf_filled_inv [OF i(1) d(1,2)] i(2) by simp
    have bytes: "msg_bytes ?w k = msg_bytes ?w2 k" for k by (simp add: msg_bytes_def)
    have "msg_bytes ?w2 m = msg_bytes w m @ bs" using msg_bytes_filled_last [OF d(1,4,5)] i(5) assms(2) by simp
    moreover have "msg_bytes ?w2 k = msg_bytes w k" if "k \<in> live_msgs w - {m}" for k
    proof -
      have "set (m_mhdr (msg w1 k)) \<inter> set (m_mhdr (msg w1 m)) = {}"
        using i(1,2) that assms(2) unfolding msgs_inv_def by blast
      then have "d \<notin> set (m_mhdr (msg w1 k))" using d(4) by auto
      with msg_bytes_filled_other [OF i(1) d(1)] i(2,5) that show ?thesis by auto
    qed
    ultimately show ?thesis using eq inv bytes i(4) by simp
  qed
qed

text \<open>
  C31: appending bytes that fit in an mbuf to a message in use always returns.
  It returns \<open>GF_OK\<close> with the bytes at the end of the message, its length raised by their
  number, or \<open>GF_ENOMEM\<close> with the message unchanged; no other message changes, and every
  mbuf still belongs to one message.
\<close>

theorem msg_append_ok:
  assumes "msgs_inv w" "m \<in> live_msgs w" "w_nmbuf w < 2 ^ 32" "length bs \<le> w_mbuf_offset w"
    and "case src of None \<Rightarrow> True | Some b \<Rightarrow> b \<in> live_mbufs w \<and> b \<notin> set (m_mhdr (msg w m))"
  shows "\<exists>st w'. msg_append m src bs w = Some (st, w') \<and> msgs_inv w' \<and> live_msgs w' = live_msgs w
    \<and> (\<forall>k\<in>live_msgs w - {m}. msg_bytes w' k = msg_bytes w k)
    \<and> (st = GF_OK \<and> msg_bytes w' m = msg_bytes w m @ bs \<and> m_mlen (msg w' m) = m_mlen (msg w m) + word_of_nat (length bs)
       \<or> st = GF_ENOMEM \<and> msg_bytes w' m = msg_bytes w m \<and> m_mlen (msg w' m) = m_mlen (msg w m))"
  by (rule msg_append_runs [OF assms])

text \<open>
  prepending bytes that fit in an mbuf always returns: with the bytes, in a
  new mbuf, before the data of the message and its length raised by their number, or with
  \<open>GF_ENOMEM\<close> and the message unchanged; no other message changes.
\<close>

theorem msg_prepend_ok:
  assumes "msgs_inv w" "m \<in> live_msgs w" "w_nmbuf w < 2 ^ 32" "length bs \<le> w_mbuf_offset w"
    and "case src of None \<Rightarrow> True | Some b \<Rightarrow> b \<in> live_mbufs w"
  shows "\<exists>st w'. msg_prepend m src bs w = Some (st, w') \<and> msgs_inv w' \<and> live_msgs w' = live_msgs w
    \<and> (\<forall>k\<in>live_msgs w - {m}. msg_bytes w' k = msg_bytes w k)
    \<and> (st = GF_OK \<and> msg_bytes w' m = bs @ msg_bytes w m \<and> m_mlen (msg w' m) = m_mlen (msg w m) + word_of_nat (length bs)
       \<or> st = GF_ENOMEM \<and> msg_bytes w' m = msg_bytes w m \<and> m_mlen (msg w' m) = m_mlen (msg w m))"
proof -
  have mi: "mbufs_inv w" and off: "w_mbuf_offset w < 2 ^ 32" using assms(1) by (simp_all add: msgs_inv_def mbufs_inv_def)
  obtain r w1 where g: "mbuf_get w = Some (r, w1)" using mbuf_get_total [OF mi assms(3)] by blast
  note fr = mbuf_get_frame [OF mi assms(3) g] and mg = msgs_inv_mbuf_get [OF assms(1,3) g]
  show ?thesis
  proof (cases r)
    case None
    with g mg fr assms(2) show ?thesis by (simp add: msg_prepend_def)
  next
    case (Some b)
    note new = mbuf_get_new [OF mi assms(3) g [unfolded Some]]
    have b: "unowned w1 b" "b \<notin> live_mbufs w" "m \<in> live_msgs w1" using mg Some assms(2) by auto
    have d: "mbuf_ok w1 b" "length bs \<le> w_mbuf_offset w1 - b_last (mbuf w1 b)" "src \<noteq> Some b"
      using new fr assms(4,5) b(2) by (auto split: option.splits)
    let ?w2 = "mbuf_filled b bs w1"
    let ?w3 = "upd_msg m (\<lambda>s. s\<lparr>m_mhdr := b # m_mhdr (msg ?w2 m)\<rparr>) ?w2"
    let ?w = "upd_msg m (\<lambda>s. s\<lparr>m_mlen := m_mlen s + word_of_nat (length bs), m_mhdr := b # m_mhdr s\<rparr>) ?w2"
    have eq: "msg_prepend m src bs w = Some (GF_OK, ?w)"
      using g Some off fr mbuf_put_bytes [OF d(1) _ d(2,3)] by (simp add: msg_prepend_def)
    have i2: "msgs_inv ?w2 \<and> live_msgs ?w2 = live_msgs w" using mbuf_filled_inv [OF _ d(1,2)] mg by simp
    have u: "unowned ?w2 b" using b(1) i2 mg d(2) unfolding unowned_def
      by (auto simp: mbuf_filled_def live_mbufs_def mbuf_ok_def)
    have nb: "b \<notin> set (m_mhdr (msg w1 k))" if "k \<in> live_msgs w" for k using b(1) mg that by (auto simp: unowned_def)
    have "distinct (m_mhdr (msg w1 m))" using mg assms(2) by (auto simp: msgs_inv_def mhdr_ok_def)
    then have "msgs_inv ?w3 \<and> live_msgs ?w3 = live_msgs ?w2"
      using msgs_inv_insert [of ?w2 m b "b # m_mhdr (msg ?w2 m)"] i2 u assms(2) nb by simp
    moreover have "msgs_inv ?w = msgs_inv ?w3 \<and> live_msgs ?w = live_msgs ?w3 \<and> live_mbufs ?w = live_mbufs ?w3"
      by (rule msgs_inv_cong) simp_all
    ultimately have inv: "msgs_inv ?w \<and> live_msgs ?w = live_msgs w" using i2 by simp
    have old: "msg_bytes ?w2 k = msg_bytes w k" if "k \<in> live_msgs w" for k
      using msg_bytes_filled_other [OF _ d(1)] mg nb that by simp
    have "mbuf_bytes (mbuf w1 b) = []" using new by (simp add: mbuf_bytes_def)
    then have "msg_bytes ?w m = bs @ msg_bytes ?w2 m" by (simp add: msg_bytes_def mbuf_filled_bytes [OF d(1)])
    moreover have "msg_bytes ?w k = msg_bytes ?w2 k" if "k \<noteq> m" for k using that by (simp add: msg_bytes_def)
    ultimately show ?thesis using eq inv old assms(2) fr by auto
  qed
qed

subsection \<open>A concrete state\<close>

text \<open>One message in use with the mbuf of \<open>mbuf_w\<close>, one message on the free list.\<close>

definition msg_w :: world where
  "msg_w = mbuf_w\<lparr>w_nmsg := 2, w_free_msgq := [1], w_nfree_msgq := 1,
     w_msgs := (\<lambda>m. if m = 0 then sample_msg\<lparr>m_mhdr := [0], m_mlen := 4, m_owner := Some 0, m_request := True\<rparr> else sample_msg)\<rparr>"

lemma msg_w_ok: "msgs_inv msg_w" "live_msgs msg_w = {0}" "w_nmsg msg_w = 2" "w_nmbuf msg_w = 2" "w_mbuf_offset msg_w = 16"
proof -
  show l: "live_msgs msg_w = {0}" by (auto simp: live_msgs_def msg_w_def)
  show "w_nmsg msg_w = 2" "w_nmbuf msg_w = 2" "w_mbuf_offset msg_w = 16" by (simp_all add: msg_w_def mbuf_w_def)
  show "msgs_inv msg_w" using l
    by (simp add: msgs_inv_def mhdr_ok_def mbufs_inv_def mbuf_ok_def live_mbufs_def msg_w_def mbuf_w_def sample_mbuf_def)
qed

lemma msg_w_bytes: "msg_bytes msg_w 0 = [80, 73, 78, 71]"
proof -
  have "[0..<4] = [0, 1, 2, 3::nat]" by (simp add: upt_rec)
  then show ?thesis by (simp add: msg_bytes_def msg_w_def mbuf_w_def mbuf_bytes_def sample_mbuf_def mem_store_def)
qed

lemma msg_append_ok_witness:
  "\<exists>st w'. msg_append 0 None [13, 10] msg_w = Some (st, w')
    \<and> (st = GF_OK \<and> msg_bytes w' 0 = [80, 73, 78, 71, 13, 10] \<or> st = GF_ENOMEM \<and> msg_bytes w' 0 = [80, 73, 78, 71])"
  using msg_append_ok [of msg_w 0 "[13, 10]" None] by (auto simp: msg_w_ok msg_w_bytes)

lemma msg_prepend_ok_witness:
  "\<exists>st w'. msg_prepend 0 None [42] msg_w = Some (st, w')
    \<and> (st = GF_OK \<and> msg_bytes w' 0 = [42, 80, 73, 78, 71] \<or> st = GF_ENOMEM \<and> msg_bytes w' 0 = [80, 73, 78, 71])"
  using msg_prepend_ok [of msg_w 0 "[42]" None] by (auto simp: msg_w_ok msg_w_bytes)

definition tmo_w :: world where
  "tmo_w = upd_conn 0 (\<lambda>s. s\<lparr>c_owner := Some (OServer 0 0)\<rparr>)
     (w0\<lparr>w_msgs := (\<lambda>_. sample_msg\<lparr>m_request := True\<rparr>)\<rparr>)"

lemma tmo_min_earliest_witness:
  "\<exists>w'. tmo_run [Tmo_insert 3 0, Tmo_insert 5 0, Tmo_delete 3] tmo_w = Some w' \<and> msg_tmo_min w' = Some 5 \<and>
     (\<forall>n. m_tmo_data (msg w' n) \<noteq> None \<longrightarrow> m_tmo_key (msg w' 5) \<le> m_tmo_key (msg w' n))"
proof -
  obtain w' where w': "tmo_run [Tmo_insert 3 0, Tmo_insert 5 0, Tmo_delete 3] tmo_w = Some w'" and m: "msg_tmo_min w' = Some 5"
    by (simp add: tmo_w_def msg_tmo_insert_eq server_timeout_def sample_msg_def sample_conn_def sample_pool_def
        tmo_armed_def msg_tmo_delete_def gf_msec_now_def gf_usec_now_def sys_def sample_res_def msg_tmo_min_def Let_def
        w0_def sample_world_def)
  have "tmo_inv tmo_w" by (simp add: tmo_inv_def tmo_w_def w0_def sample_world_def sample_msg_def)
  from tmo_min_earliest [OF w' this] m w' show ?thesis by auto
qed

end
