(* ===== verification/Message_Runs.thy ===== *)
theory Message_Runs
  imports Message
begin

section \<open>Messages and their buffers over time\<close>

text \<open>
  Runs of a client of the message pool that takes messages, writes into the ones it holds and returns
  them.  The contents of a held message are followed beside the run as plain bytes.
\<close>

datatype msg_op = Take | Give nat | Append nat "u8 list" | Prepend nat "u8 list"

type_synonym msg_run_state = "nat list \<times> (nat \<Rightarrow> u8 list) \<times> world"

definition msg_write :: "(nat \<Rightarrow> nat option \<Rightarrow> u8 list \<Rightarrow> world \<Rightarrow> (int \<times> world) option) \<Rightarrow> nat \<Rightarrow> u8 list \<Rightarrow> u8 list \<Rightarrow> msg_run_state \<Rightarrow> msg_run_state option" where
  "msg_write f m bs new s = (case s of (held, val, w) \<Rightarrow>
     if m \<in> set held \<and> length bs \<le> w_mbuf_offset w
     then do { (st, w) \<leftarrow> f m None bs w; Some (held, if st = GF_OK then val(m := new) else val, w) }
     else Some s)"

definition msg_step :: "nat \<Rightarrow> bool \<Rightarrow> bool \<Rightarrow> msg_op \<Rightarrow> msg_run_state \<Rightarrow> msg_run_state option" where
  "msg_step c request redis x s = (case s of (held, val, w) \<Rightarrow> (case x of
     Take \<Rightarrow> do { (r, w) \<leftarrow> msg_get c request redis w; Some (case r of None \<Rightarrow> (held, val, w) | Some m \<Rightarrow> (m # held, val(m := []), w)) }
   | Give m \<Rightarrow> if m \<in> set held then do { w \<leftarrow> msg_put m w; Some (remove1 m held, val, w) } else Some s
   | Append m bs \<Rightarrow> msg_write msg_append m bs (val m @ bs) s
   | Prepend m bs \<Rightarrow> msg_write msg_prepend m bs (bs @ val m) s))"

primrec msg_run :: "nat \<Rightarrow> bool \<Rightarrow> bool \<Rightarrow> msg_op list \<Rightarrow> msg_run_state \<Rightarrow> msg_run_state option" where
  "msg_run c request redis [] s = Some s"
| "msg_run c request redis (x # xs) s = do { s \<leftarrow> msg_step c request redis x s; msg_run c request redis xs s }"

text \<open>Every mbuf in use belongs to a message in use: none is lost.\<close>

definition mbufs_owned :: "world \<Rightarrow> bool" where
  "mbufs_owned w \<longleftrightarrow> live_mbufs w = (\<Union>m\<in>live_msgs w. set (m_mhdr (msg w m)))"

lemma mbufs_ownedI:
  "msgs_inv w \<Longrightarrow> (\<And>b. b \<in> live_mbufs w \<Longrightarrow> \<exists>m\<in>live_msgs w. b \<in> set (m_mhdr (msg w m))) \<Longrightarrow> mbufs_owned w"
  by (auto simp: mbufs_owned_def msgs_inv_def mhdr_ok_def)

lemma mbufs_ownedD: "mbufs_owned w \<Longrightarrow> b \<in> live_mbufs w \<Longrightarrow> \<exists>m\<in>live_msgs w. b \<in> set (m_mhdr (msg w m))"
  by (auto simp: mbufs_owned_def)

subsection \<open>Taking and returning\<close>

lemma msg_take_buffers:
  assumes "msgs_inv w" "w_nmsg w < 2 ^ 32" "msg_take w = Some (r, w')"
  shows "live_mbufs w' = live_mbufs w \<and> w_mbufs w' = w_mbufs w \<and> w_nmbuf w' = w_nmbuf w \<and> w_mbuf_offset w' = w_mbuf_offset w
    \<and> (\<forall>m\<in>live_msgs w. m_mhdr (msg w' m) = m_mhdr (msg w m)) \<and> (\<forall>m. r = Some m \<longrightarrow> m_mhdr (msg w' m) = [])"
  using assms(1,2)
proof (cases rule: msg_take_cases)
  case got
  have "msg_next w \<notin> live_msgs w" using msgs_inv_popped [OF assms(1), of "msg_fresh (msg_next w) (msg_popped w)"] by simp
  with got assms(3) show ?thesis by (auto simp: live_mbufs_def)
next
  case failed
  have "msg_next w \<notin> live_msgs w" using msgs_inv_popped [OF assms(1), of "msg_failed (msg_next w) (msg_popped w)"] by simp
  with failed assms(3) show ?thesis by (auto simp: live_mbufs_def)
next
  case nomem
  with assms(3) show ?thesis by (auto simp: live_mbufs_def)
qed

lemma msg_get_buffers:
  assumes "msgs_inv w" "w_nmsg w < 2 ^ 32" "msg_get c request redis w = Some (r, w')"
  shows "live_mbufs w' = live_mbufs w \<and> w_mbufs w' = w_mbufs w \<and> w_nmbuf w' = w_nmbuf w \<and> w_mbuf_offset w' = w_mbuf_offset w
    \<and> (\<forall>m\<in>live_msgs w. m_mhdr (msg w' m) = m_mhdr (msg w m)) \<and> (\<forall>m. r = Some m \<longrightarrow> m_mhdr (msg w' m) = [])"
proof -
  obtain w1 where 1: "msg_take w = Some (r, w1)" and w': "w' = (case r of None \<Rightarrow> w1 | Some m \<Rightarrow> msg_owned c request m w1)"
    using assms(3) by (auto simp: msg_get_eq gf_simps)
  have o: "live_mbufs (msg_owned c request m w1) = live_mbufs w1" "w_mbufs (msg_owned c request m w1) = w_mbufs w1"
    "w_nmbuf (msg_owned c request m w1) = w_nmbuf w1" "w_mbuf_offset (msg_owned c request m w1) = w_mbuf_offset w1"
    "m_mhdr (msg (msg_owned c request m w1) n) = m_mhdr (msg w1 n)" for m n
    using msg_owned_inv [of c request m w1] by (simp_all add: msg_owned_def Let_def)
  from msg_take_buffers [OF assms(1,2) 1] show ?thesis by (cases r) (auto simp: w' o)
qed

lemma msg_bytes_cong: "w_mbufs w' = w_mbufs w \<Longrightarrow> m_mhdr (msg w' m) = m_mhdr (msg w m) \<Longrightarrow> msg_bytes w' m = msg_bytes w m"
  by (simp add: msg_bytes_def)

definition run_ok :: "msg_run_state \<Rightarrow> bool" where
  "run_ok s \<longleftrightarrow> (case s of (held, val, w) \<Rightarrow> msgs_inv w \<and> mbufs_owned w \<and> distinct held \<and> set held \<subseteq> live_msgs w
     \<and> (\<forall>m\<in>set held. msg_bytes w m = val m))"

lemma take_step:
  assumes "run_ok (held, val, w)" "w_nmsg w < 2 ^ 32"
  shows "\<exists>r w'. msg_get c request redis w = Some (r, w')
    \<and> run_ok (case r of None \<Rightarrow> (held, val, w') | Some m \<Rightarrow> (m # held, val(m := []), w'))
    \<and> w_nmsg w' \<le> Suc (w_nmsg w) \<and> w_nmbuf w' = w_nmbuf w"
proof -
  have i: "msgs_inv w" "mbufs_owned w" "distinct held" "set held \<subseteq> live_msgs w" "\<forall>m\<in>set held. msg_bytes w m = val m"
    using assms(1) by (simp_all add: run_ok_def)
  obtain r w' where g: "msg_get c request redis w = Some (r, w')" using mq.get_total [OF i(1) assms(2)] by fastforce
  note g' = msg_get_inv [OF i(1) assms(2) g] and b = msg_get_buffers [OF i(1) assms(2) g]
  have live: "live_msgs w \<subseteq> live_msgs w'" using g' by simp
  have "mbufs_owned w'"
    by (rule mbufs_ownedI) (use g' b live mbufs_ownedD [OF i(2)] in \<open>auto, metis subsetD\<close>)
  moreover have "msg_bytes w' m = msg_bytes w m" if "m \<in> live_msgs w" for m
    using b that by (intro msg_bytes_cong) simp_all
  ultimately have "run_ok (case r of None \<Rightarrow> (held, val, w') | Some m \<Rightarrow> (m # held, val(m := []), w'))"
    using g' b i by (cases r) (auto simp: run_ok_def msg_bytes_def subset_iff)
  with g g' b show ?thesis by blast
qed

lemma give_step:
  assumes "run_ok (held, val, w)" "m \<in> set held"
  shows "\<exists>w'. msg_put m w = Some w' \<and> run_ok (remove1 m held, val, w') \<and> w_nmsg w' = w_nmsg w \<and> w_nmbuf w' = w_nmbuf w"
proof -
  have i: "msgs_inv w" "mbufs_owned w" "distinct held" "set held \<subseteq> live_msgs w" "\<forall>m\<in>set held. msg_bytes w m = val m" "m \<in> live_msgs w"
    using assms by (auto simp: run_ok_def)
  let ?w = "msg_freed m w"
  note l = msg_freed_live [OF i(1,6)] and inv = msg_freed_inv [OF i(1,6)]
  have old: "m_mhdr (msg ?w n) = m_mhdr (msg w n)" if "n \<noteq> m" for n using that by (simp add: msg_freed_def)
  have "mbufs_owned ?w"
  proof (rule mbufs_ownedI [OF inv])
    fix b assume b: "b \<in> live_mbufs ?w"
    then obtain n where n: "n \<in> live_msgs w" "b \<in> set (m_mhdr (msg w n))" using l mbufs_ownedD [OF i(2), of b] by auto
    then have "n \<noteq> m" using b l(2) by auto
    with n show "\<exists>n\<in>live_msgs ?w. b \<in> set (m_mhdr (msg ?w n))" using l(1) old by (intro bexI [of _ n]) simp_all
  qed
  moreover have "msg_bytes ?w n = msg_bytes w n" if "n \<noteq> m" for n
    using old [OF that] by (intro msg_bytes_cong) (simp_all add: msg_freed_def)
  ultimately have "run_ok (remove1 m held, val, ?w)" using i inv l by (auto simp: run_ok_def)
  with msg_put_eq [OF i(1,6)] show ?thesis by (simp add: msg_freed_def)
qed

subsection \<open>Writing\<close>

lemma mbuf_get_owned:
  assumes "msgs_inv w" "mbufs_owned w" "m \<in> live_msgs w" "w_nmbuf w < 2 ^ 32" "mbuf_get w = Some (r, w1)"
  shows "case r of None \<Rightarrow> live_mbufs w1 = live_mbufs w \<and> w_msgs w1 = w_msgs w | Some b \<Rightarrow> live_mbufs w1 = insert b (live_mbufs w) \<and> w_msgs w1 = w_msgs w"
proof -
  have mi: "mbufs_inv w" using assms(1) by (simp add: msgs_inv_def)
  show ?thesis
  proof (cases r)
    case None
    have "live_mbufs w1 = live_mbufs w" by (rule mbuf_get_cases [OF mi assms(4,5)]; use None in \<open>auto simp: live_mbufs_def\<close>)
    with None mbuf_get_frame(1) [OF mi assms(4,5)] show ?thesis by simp
  next
    case (Some b)
    with mbuf_get_live [OF mi assms(4)] mbuf_get_frame(1) [OF mi assms(4,5)] assms(5) show ?thesis by simp
  qed
qed

text \<open>Storing bytes and raising lengths moves no mbuf.\<close>

lemma mbuf_copy_frame:
  "mbuf_copy b src bs w = Some w' \<Longrightarrow> live_mbufs w' = live_mbufs w \<and> live_msgs w' = live_msgs w \<and> w_msgs w' = w_msgs w
     \<and> w_nmbuf w' = w_nmbuf w \<and> w_nmsg w' = w_nmsg w \<and> w_mbuf_offset w' = w_mbuf_offset w"
  by (auto simp: mbuf_copy_def gf_simps live_mbufs_def live_msgs_def split: if_splits)

definition kept_owned :: "world \<Rightarrow> world \<Rightarrow> bool" where
  "kept_owned w w' \<longleftrightarrow> (\<forall>b\<in>live_mbufs w'. \<exists>m\<in>live_msgs w. b \<in> set (m_mhdr (msg w' m)))
     \<and> w_nmbuf w' \<le> Suc (w_nmbuf w) \<and> w_nmsg w' = w_nmsg w"

lemma ensure_owned:
  assumes "msgs_inv w" "mbufs_owned w" "m \<in> live_msgs w" "w_nmbuf w < 2 ^ 32" "msg_ensure_mbuf m n w = Some (r, w1)"
  shows "kept_owned w w1"
proof -
  have mi: "mbufs_inv w" using assms(1) by (simp add: msgs_inv_def)
  consider "w1 = w" | w2 where "mbuf_get w = Some (r, w2)" "w1 = (case r of None \<Rightarrow> w2 | Some b \<Rightarrow> mhdr_insert m b w2)"
    using assms(5) by (auto simp: msg_ensure_mbuf_def gf_simps Let_def split: if_splits option.splits)
  then show ?thesis
  proof cases
    case 1
    with mbufs_ownedD [OF assms(2)] show ?thesis by (simp add: kept_owned_def)
  next
    case (2 w2)
    note g = mbuf_get_owned [OF assms(1-4) 2(1)] and f = mbuf_get_frame [OF mi assms(4) 2(1)] mbuf_get_inv [OF mi assms(4) 2(1)]
    show ?thesis
    proof (cases r)
      case None
      with 2 g f mbufs_ownedD [OF assms(2)] show ?thesis by (simp add: kept_owned_def)
    next
      case (Some b)
      have e: "live_mbufs w1 = insert b (live_mbufs w)" "w_nmbuf w1 = w_nmbuf w2" "w_nmsg w1 = w_nmsg w2"
        "m_mhdr (msg w1 k) = (if k = m then m_mhdr (msg w m) @ [b] else m_mhdr (msg w k))" for k
        using 2(2) Some g by (simp_all add: mhdr_insert_def mbuf_insert_def live_mbufs_def)
      have "\<exists>k\<in>live_msgs w. d \<in> set (m_mhdr (msg w1 k))" if "d \<in> live_mbufs w1" for d
      proof (cases "d = b")
        case True
        with assms(3) show ?thesis by (intro bexI [of _ m]) (simp_all add: e)
      next
        case False
        then have "d \<in> live_mbufs w" using that e(1) by simp
        then obtain k where "k \<in> live_msgs w" "d \<in> set (m_mhdr (msg w k))" using mbufs_ownedD [OF assms(2)] by blast
        then show ?thesis by (intro bexI [of _ k]) (auto simp: e)
      qed
      with f e show ?thesis by (simp add: kept_owned_def)
    qed
  qed
qed

lemma append_owned:
  assumes "msgs_inv w" "mbufs_owned w" "m \<in> live_msgs w" "w_nmbuf w < 2 ^ 32" "msg_append m src bs w = Some (st, w')"
  shows "kept_owned w w'"
proof -
  obtain r w1 where e: "msg_ensure_mbuf m (length bs) w = Some (r, w1)"
    and r: "case r of None \<Rightarrow> w' = w1 | Some b \<Rightarrow> \<exists>w2. mbuf_copy b src bs w1 = Some w2
       \<and> w' = upd_msg m (\<lambda>s. s\<lparr>m_mlen := m_mlen s + word_of_nat (length bs)\<rparr>) w2"
    using assms(5) by (auto simp: msg_append_def gf_simps split: option.splits)
  note k = ensure_owned [OF assms(1-4) e]
  show ?thesis
  proof (cases r)
    case None
    with r k show ?thesis by simp
  next
    case (Some b)
    then obtain w2 where "mbuf_copy b src bs w1 = Some w2" "w' = upd_msg m (\<lambda>s. s\<lparr>m_mlen := m_mlen s + word_of_nat (length bs)\<rparr>) w2"
      using r by auto
    with mbuf_copy_frame [OF this(1)] live_mbufs_cong [of w' w2]
    have "live_mbufs w' = live_mbufs w1" "m_mhdr (msg w' x) = m_mhdr (msg w1 x)" "w_nmbuf w' = w_nmbuf w1" "w_nmsg w' = w_nmsg w1" for x by simp_all
    with k show ?thesis by (simp add: kept_owned_def)
  qed
qed

lemma prepend_owned:
  assumes "msgs_inv w" "mbufs_owned w" "m \<in> live_msgs w" "w_nmbuf w < 2 ^ 32" "msg_prepend m src bs w = Some (st, w')"
  shows "kept_owned w w'"
proof -
  have mi: "mbufs_inv w" using assms(1) by (simp add: msgs_inv_def)
  obtain r w1 where e: "mbuf_get w = Some (r, w1)"
    and r: "case r of None \<Rightarrow> w' = w1 | Some b \<Rightarrow> \<exists>w2. mbuf_copy b src bs w1 = Some w2
       \<and> w' = upd_msg m (\<lambda>s. s\<lparr>m_mlen := m_mlen s + word_of_nat (length bs), m_mhdr := b # m_mhdr s\<rparr>) w2"
    using assms(5) by (auto simp: msg_prepend_def gf_simps split: option.splits)
  note g = mbuf_get_owned [OF assms(1-4) e] and f = mbuf_get_frame [OF mi assms(4) e] mbuf_get_inv [OF mi assms(4) e]
  show ?thesis
  proof (cases r)
    case None
    with r g f mbufs_ownedD [OF assms(2)] show ?thesis by (simp add: kept_owned_def)
  next
    case (Some b)
    then obtain w2 where c: "mbuf_copy b src bs w1 = Some w2"
      and w': "w' = upd_msg m (\<lambda>s. s\<lparr>m_mlen := m_mlen s + word_of_nat (length bs), m_mhdr := b # m_mhdr s\<rparr>) w2" using r by auto
    have l: "live_mbufs w' = insert b (live_mbufs w)" "w_nmbuf w' = w_nmbuf w1" "w_nmsg w' = w_nmsg w1"
      "m_mhdr (msg w' k) = (if k = m then b # m_mhdr (msg w m) else m_mhdr (msg w k))" for k
      using mbuf_copy_frame [OF c] g Some live_mbufs_cong [of w' w2] by (simp_all add: w')
    have "\<exists>k\<in>live_msgs w. d \<in> set (m_mhdr (msg w' k))" if "d \<in> live_mbufs w'" for d
    proof (cases "d = b")
      case True
      with assms(3) show ?thesis by (intro bexI [of _ m]) (simp_all add: l)
    next
      case False
      then have "d \<in> live_mbufs w" using that l(1) by simp
      then obtain k where "k \<in> live_msgs w" "d \<in> set (m_mhdr (msg w k))" using mbufs_ownedD [OF assms(2)] by blast
      then show ?thesis by (intro bexI [of _ k]) (auto simp: l)
    qed
    with f l show ?thesis by (simp add: kept_owned_def)
  qed
qed

lemma write_step:
  assumes "run_ok (held, val, w)" "w_nmbuf w < 2 ^ 32"
    and f: "\<And>st w'. m \<in> live_msgs w \<Longrightarrow> f m None bs w = Some (st, w') \<Longrightarrow> kept_owned w w'"
    and g: "m \<in> live_msgs w \<Longrightarrow> length bs \<le> w_mbuf_offset w \<Longrightarrow> \<exists>st w'. f m None bs w = Some (st, w') \<and> msgs_inv w' \<and> live_msgs w' = live_msgs w
      \<and> (\<forall>k\<in>live_msgs w - {m}. msg_bytes w' k = msg_bytes w k)
      \<and> (st = GF_OK \<and> msg_bytes w' m = new \<or> st = GF_ENOMEM \<and> msg_bytes w' m = msg_bytes w m)"
  shows "\<exists>s. msg_write f m bs new (held, val, w) = Some s \<and> run_ok s \<and> w_nmsg (snd (snd s)) = w_nmsg w \<and> w_nmbuf (snd (snd s)) \<le> Suc (w_nmbuf w)"
proof (cases "m \<in> set held \<and> length bs \<le> w_mbuf_offset w")
  case True
  have i: "msgs_inv w" "mbufs_owned w" "distinct held" "set held \<subseteq> live_msgs w" "\<forall>m\<in>set held. msg_bytes w m = val m" "m \<in> live_msgs w"
    using assms(1) True by (auto simp: run_ok_def)
  obtain st w' where w': "f m None bs w = Some (st, w')" "msgs_inv w'" "live_msgs w' = live_msgs w"
    "\<forall>k\<in>live_msgs w - {m}. msg_bytes w' k = msg_bytes w k"
    "st = GF_OK \<and> msg_bytes w' m = new \<or> st = GF_ENOMEM \<and> msg_bytes w' m = msg_bytes w m" using g i(6) True by blast
  have k: "kept_owned w w'" by (rule f [OF i(6) w'(1)])
  have "mbufs_owned w'" by (rule mbufs_ownedI [OF w'(2)]) (use k w'(3) in \<open>simp add: kept_owned_def\<close>)
  then have "run_ok (held, if st = GF_OK then val(m := new) else val, w')"
  proof -
    have "msg_bytes w' k = (if st = GF_OK then val(m := new) else val) k" if "k \<in> set held" for k
      using that i(4,5) w'(4,5) True by (cases "k = m") (auto simp: subset_iff)
    with \<open>mbufs_owned w'\<close> i w'(2,3) show ?thesis by (simp add: run_ok_def)
  qed
  with True w'(1) k show ?thesis by (simp add: msg_write_def kept_owned_def)
qed (use assms(1) in \<open>auto simp: msg_write_def\<close>)

lemma step_ok:
  assumes "run_ok s" "w_nmsg (snd (snd s)) < 2 ^ 32" "w_nmbuf (snd (snd s)) < 2 ^ 32"
  shows "\<exists>s'. msg_step c request redis x s = Some s' \<and> run_ok s' \<and> w_nmsg (snd (snd s')) \<le> Suc (w_nmsg (snd (snd s)))
    \<and> w_nmbuf (snd (snd s')) \<le> Suc (w_nmbuf (snd (snd s)))"
proof -
  obtain held val w where s: "s = (held, val, w)" by (cases s)
  have ok: "run_ok (held, val, w)" "w_nmsg w < 2 ^ 32" "w_nmbuf w < 2 ^ 32" using assms by (simp_all add: s)
  then have i: "msgs_inv w" "mbufs_owned w" "\<forall>m\<in>set held. msg_bytes w m = val m" "set held \<subseteq> live_msgs w" by (simp_all add: run_ok_def)
  show ?thesis
  proof (cases x)
    case Take
    with take_step [OF ok(1,2), of c request redis] show ?thesis by (fastforce simp: s msg_step_def split: option.splits)
  next
    case (Give m)
    with give_step [OF ok(1), of m] ok(1) show ?thesis by (cases "m \<in> set held") (auto simp: s msg_step_def)
  next
    case (Append m bs)
    show ?thesis
    proof (cases "m \<in> set held")
      case True
      have "\<exists>s'. msg_write msg_append m bs (val m @ bs) (held, val, w) = Some s' \<and> run_ok s' \<and> w_nmsg (snd (snd s')) = w_nmsg w
          \<and> w_nmbuf (snd (snd s')) \<le> Suc (w_nmbuf w)"
        by (rule write_step [OF ok(1,3)]) (use append_owned [OF i(1,2) _ ok(3)] msg_append_runs [OF i(1) _ ok(3), of m bs None] True i(3) in \<open>auto\<close>)
      then show ?thesis by (auto simp: s msg_step_def Append)
    qed (use ok(1) in \<open>simp add: s msg_step_def Append msg_write_def\<close>)
  next
    case (Prepend m bs)
    show ?thesis
    proof (cases "m \<in> set held")
      case True
      have "\<exists>s'. msg_write msg_prepend m bs (bs @ val m) (held, val, w) = Some s' \<and> run_ok s' \<and> w_nmsg (snd (snd s')) = w_nmsg w
          \<and> w_nmbuf (snd (snd s')) \<le> Suc (w_nmbuf w)"
        by (rule write_step [OF ok(1,3)]) (use prepend_owned [OF i(1,2) _ ok(3)] msg_prepend_ok [OF i(1) _ ok(3), of m bs None] True i(3) in \<open>auto\<close>)
      then show ?thesis by (auto simp: s msg_step_def Prepend)
    qed (use ok(1) in \<open>simp add: s msg_step_def Prepend msg_write_def\<close>)
  qed
qed

lemma msg_run_ok:
  assumes "run_ok s" "w_nmsg (snd (snd s)) + length ops < 2 ^ 32" "w_nmbuf (snd (snd s)) + length ops < 2 ^ 32"
  shows "\<exists>s'. msg_run c request redis ops s = Some s' \<and> run_ok s'"
  using assms
proof (induction ops arbitrary: s)
  case (Cons x ops)
  then obtain s1 where "msg_step c request redis x s = Some s1" "run_ok s1" "w_nmsg (snd (snd s1)) \<le> Suc (w_nmsg (snd (snd s)))"
    "w_nmbuf (snd (snd s1)) \<le> Suc (w_nmbuf (snd (snd s)))" using step_ok [of s c request redis x] by auto
  with Cons.IH [of s1] Cons.prems(2,3) show ?case by simp
qed simp

text \<open>
  C30: in every sequence of taking messages, writing at either end of the held ones and returning
  them, with any allocation failing, no assertion fails; the messages held are pairwise distinct, none is on the free
  list, and each contains exactly the bytes written into it; no mbuf belongs to two messages or to a message and the free
  list; and every mbuf in use belongs to a message in use, so that none is lost when a message is returned.
\<close>

theorem msgs_never_shared:
  assumes "msgs_inv w" "mbufs_owned w" "w_nmsg w + length ops < 2 ^ 32" "w_nmbuf w + length ops < 2 ^ 32"
  shows "\<exists>held val w'. msg_run c request redis ops ([], \<lambda>_. [], w) = Some (held, val, w') \<and> distinct held
     \<and> set held \<inter> set (w_free_msgq w') = {}
     \<and> (\<forall>m\<in>set held. msg_bytes w' m = val m \<and> set (m_mhdr (msg w' m)) \<inter> set (w_free_mbufq w') = {}
          \<and> (\<forall>n\<in>set held. m \<noteq> n \<longrightarrow> set (m_mhdr (msg w' m)) \<inter> set (m_mhdr (msg w' n)) = {}))
     \<and> {..<w_nmbuf w'} - set (w_free_mbufq w') = (\<Union>m\<in>{..<w_nmsg w'} - set (w_free_msgq w'). set (m_mhdr (msg w' m)))"
proof -
  have "run_ok ([], \<lambda>_. [], w)" using assms(1,2) by (simp add: run_ok_def)
  from msg_run_ok [OF this, of ops c request redis] assms(3,4) obtain held val w' where
    1: "msg_run c request redis ops ([], \<lambda>_. [], w) = Some (held, val, w')" "msgs_inv w'" "mbufs_owned w'" "distinct held"
    "set held \<subseteq> live_msgs w'" "\<forall>m\<in>set held. msg_bytes w' m = val m" by (auto simp: run_ok_def)
  have "set held \<inter> set (w_free_msgq w') = {}" using 1(5) by (auto simp: live_msgs_def)
  moreover have "set (m_mhdr (msg w' m)) \<inter> set (w_free_mbufq w') = {}" if "m \<in> set held" for m
    using that 1(2,5) by (auto simp: msgs_inv_def mhdr_ok_def live_mbufs_def)
  moreover have "set (m_mhdr (msg w' m)) \<inter> set (m_mhdr (msg w' n)) = {}" if "m \<in> set held" "n \<in> set held" "m \<noteq> n" for m n
    using that 1(2,5) unfolding msgs_inv_def by blast
  moreover have "{..<w_nmbuf w'} - set (w_free_mbufq w') = (\<Union>m\<in>{..<w_nmsg w'} - set (w_free_msgq w'). set (m_mhdr (msg w' m)))"
    using 1(3) by (simp add: mbufs_owned_def live_mbufs_def live_msgs_def)
  ultimately show ?thesis using 1(1,4,6) by blast
qed

lemma msgs_never_shared_witness:
  "\<exists>held val w'. msg_run 0 True True [Take, Append 1 [80, 73], Take, Prepend 1 [42], Give 1, Take] ([], \<lambda>_. [], msg_w) = Some (held, val, w') \<and> distinct held
     \<and> set held \<inter> set (w_free_msgq w') = {}"
proof -
  have "mbufs_owned msg_w" by (auto simp: mbufs_owned_def live_mbufs_def msg_w_ok) (auto simp: msg_w_def mbuf_w_def)
  from msgs_never_shared [OF msg_w_ok(1) this, of "[Take, Append 1 [80, 73], Take, Prepend 1 [42], Give 1, Take]" 0 True True]
  show ?thesis by (auto simp: msg_w_ok)
qed

end
