(* ===== verification/Connection.thy ===== *)
theory Connection
  imports Net Object_Pool
begin

section \<open>Connections (\<open>gf_connection.c\<close>): the pool and the transfers\<close>

text \<open>
  The free list of connections with its counters, the reads and writes with their retry on
  \<open>EINTR\<close> and their readiness flags, and the check of authentication.  \<open>conn_get\<close>, which
  calls a handler of the new connection, is in theory \<open>Owners\<close>.
\<close>

subsection \<open>The pool\<close>

text \<open>
  \<open>_conn_get\<close>: the fields it sets; \<open>{family, addrlen, addr}\<close> and the callbacks keep what the
  object had.
\<close>

definition conn_reset :: "conn \<Rightarrow> conn" where
  "conn_reset s = s\<lparr>c_owner := None, c_sd := - 1, c_imsg_q := [], c_omsg_q := [], c_rmsg := None, c_smsg := None,
     c_send_bytes := 0, c_recv_bytes := 0, c_events := 0, c_err := 0, c_recv_active := False, c_recv_ready := False,
     c_send_active := False, c_send_ready := False, c_client := False, c_proxy := False, c_connecting := False,
     c_connected := False, c_eof := False, c_done := False, c_redis := False, c_authenticated := False\<rparr>"

definition conn_setup :: "nat \<Rightarrow> world \<Rightarrow> world" where
  "conn_setup c w = (upd_conn c conn_reset w)\<lparr>w_ntotal_conn := w_ntotal_conn w + 1, w_ncurr_conn := w_ncurr_conn w + 1\<rparr>"

definition conn_take :: "world \<Rightarrow> (nat option \<times> world) option" where
  "conn_take w = (case w_free_connq w of
     c # q \<Rightarrow> do {
       ASSERT (0 < w_nfree_connq w) w;
       Some (Some c, conn_setup c (w\<lparr>w_nfree_connq := w_nfree_connq w - 1, w_free_connq := q\<rparr>)) }
   | [] \<Rightarrow> do {
       let (ok, w) = gf_alloc w;
       if \<not> ok then Some (None, w)
       else Some (Some (w_nconn w), conn_setup (w_nconn w) (w\<lparr>w_nconn := Suc (w_nconn w)\<rparr>)) })"

definition conn_put :: "nat \<Rightarrow> world \<Rightarrow> world option" where
  "conn_put c w = do {
     ASSERT (c_sd (conn w c) < 0) w;
     ASSERT (c_owner (conn w c) = None) w;
     let w = w\<lparr>w_nfree_connq := w_nfree_connq w + 1, w_free_connq := c # w_free_connq w\<rparr>;
     let w = (if c_client (conn w c) then w\<lparr>w_ncurr_cconn := w_ncurr_cconn w - 1\<rparr> else w);
     Some (w\<lparr>w_ncurr_conn := w_ncurr_conn w - 1\<rparr>) }"

definition conn_init :: "world \<Rightarrow> world" where
  "conn_init w = w\<lparr>w_nfree_connq := 0, w_free_connq := []\<rparr>"

text \<open>\<open>conn_deinit\<close> frees the connections without unlinking them.\<close>

primrec conn_deinit_loop :: "nat list \<Rightarrow> world \<Rightarrow> world option" where
  "conn_deinit_loop [] w = Some w"
| "conn_deinit_loop (c # q) w = do {
     ASSERT (0 < w_nfree_connq w) w;
     conn_deinit_loop q (w\<lparr>w_nfree_connq := w_nfree_connq w - 1\<rparr>) }"

definition conn_deinit :: "world \<Rightarrow> world option" where
  "conn_deinit w = do {
     w \<leftarrow> conn_deinit_loop (w_free_connq w) w;
     ASSERT (w_nfree_connq w = 0) w;
     Some w }"

definition conn_ncurr_conn :: "world \<Rightarrow> u32" where "conn_ncurr_conn w = w_ncurr_conn w"
definition conn_ntotal_conn :: "world \<Rightarrow> u64" where "conn_ntotal_conn w = w_ntotal_conn w"
definition conn_ncurr_cconn :: "world \<Rightarrow> u32" where "conn_ncurr_cconn w = w_ncurr_cconn w"

subsection \<open>The pool of a connection\<close>

text \<open>
  \<open>conn_to_ctx\<close> follows the owner to its pool; there is one context, so the pool is what
  the model keeps.  An owner of the other kind would be read at a wrong type.
\<close>

definition conn_to_ctx :: "nat \<Rightarrow> world \<Rightarrow> nat option" where
  "conn_to_ctx c w =
     (if c_proxy (conn w c) \<or> c_client (conn w c)
      then (case c_owner (conn w c) of Some (OPool p) \<Rightarrow> Some p | _ \<Rightarrow> None)
      else (case c_owner (conn w c) of Some (OServer p s) \<Rightarrow> Some p | _ \<Rightarrow> None))"

definition conn_authenticated :: "nat \<Rightarrow> world \<Rightarrow> bool option" where
  "conn_authenticated c w = do {
     ASSERT (\<not> c_proxy (conn w c)) w;
     p \<leftarrow> (if c_client (conn w c)
           then (case c_owner (conn w c) of Some (OPool p) \<Rightarrow> Some p | _ \<Rightarrow> None)
           else (case c_owner (conn w c) of Some (OServer p s) \<Rightarrow> Some p | _ \<Rightarrow> None));
     if \<not> p_require_auth (pool w p) then Some True
     else if \<not> c_authenticated (conn w c) then Some False
     else Some True }"

subsection \<open>Transfers\<close>

text \<open>The bytes a read of \<open>r\<close> stores: as many as it reports.\<close>

definition read_bytes :: "sysres \<Rightarrow> u8 list" where
  "read_bytes r = take (nat (r_ret r)) (r_data r @ replicate (nat (r_ret r)) 0)"

text \<open>
  The loops retry on \<open>EINTR\<close>; the fuel bounds the number of interruptions, and with none left
  there is no result.  \<open>conn_recv\<close> returns its status and the bytes it stored.
\<close>

primrec conn_recv_loop :: "nat \<Rightarrow> nat \<Rightarrow> nat \<Rightarrow> world \<Rightarrow> (int \<times> u8 list \<times> world) option" where
  "conn_recv_loop 0 c sz w = None"
| "conn_recv_loop (Suc k) c sz w =
     (let (r, w) = sys (Sys_read (c_sd (conn w c)) sz) w; n = r_ret r
      in if 0 < n then
           (let w = (if n < int sz then upd_conn c (\<lambda>s. s\<lparr>c_recv_ready := False\<rparr>) w else w)
            in Some (n, read_bytes r, upd_conn c (\<lambda>s. s\<lparr>c_recv_bytes := c_recv_bytes s + word_of_int n\<rparr>) w))
         else if n = 0 then Some (n, [], upd_conn c (\<lambda>s. s\<lparr>c_recv_ready := False, c_eof := True\<rparr>) w)
         else if w_errno w = EINTR then conn_recv_loop k c sz w
         else if w_errno w = EAGAIN \<or> w_errno w = EWOULDBLOCK
           then Some (GF_EAGAIN, [], upd_conn c (\<lambda>s. s\<lparr>c_recv_ready := False\<rparr>) w)
         else Some (GF_ERROR, [], upd_conn c (\<lambda>s. s\<lparr>c_recv_ready := False, c_err := w_errno w\<rparr>) w))"

definition conn_recv :: "nat \<Rightarrow> nat \<Rightarrow> nat \<Rightarrow> world \<Rightarrow> (int \<times> u8 list \<times> world) option" where
  "conn_recv fuel c sz w = do {
     ASSERT (0 < sz) w;
     ASSERT (c_recv_ready (conn w c)) w;
     conn_recv_loop fuel c sz w }"

text \<open>The buffers of \<open>sendv\<close> are the byte strings to send.\<close>

primrec conn_sendv_loop :: "nat \<Rightarrow> nat \<Rightarrow> u8 list list \<Rightarrow> nat \<Rightarrow> world \<Rightarrow> (int \<times> world) option" where
  "conn_sendv_loop 0 c sendv nsend w = None"
| "conn_sendv_loop (Suc k) c sendv nsend w =
     (let (r, w) = sys (Sys_writev (c_sd (conn w c)) sendv) w; n = r_ret r
      in if 0 < n then
           (let w = (if n < int nsend then upd_conn c (\<lambda>s. s\<lparr>c_send_ready := False\<rparr>) w else w)
            in Some (n, upd_conn c (\<lambda>s. s\<lparr>c_send_bytes := c_send_bytes s + word_of_int n\<rparr>) w))
         else if n = 0 then Some (0, upd_conn c (\<lambda>s. s\<lparr>c_send_ready := False\<rparr>) w)
         else if w_errno w = EINTR then conn_sendv_loop k c sendv nsend w
         else if w_errno w = EAGAIN \<or> w_errno w = EWOULDBLOCK
           then Some (GF_EAGAIN, upd_conn c (\<lambda>s. s\<lparr>c_send_ready := False\<rparr>) w)
         else Some (GF_ERROR, upd_conn c (\<lambda>s. s\<lparr>c_send_ready := False, c_err := w_errno w\<rparr>) w))"

definition conn_sendv :: "nat \<Rightarrow> nat \<Rightarrow> u8 list list \<Rightarrow> nat \<Rightarrow> world \<Rightarrow> (int \<times> world) option" where
  "conn_sendv fuel c sendv nsend w = do {
     ASSERT (sendv \<noteq> []) w;
     ASSERT (nsend \<noteq> 0) w;
     ASSERT (c_send_ready (conn w c)) w;
     conn_sendv_loop fuel c sendv nsend w }"

subsection \<open>The pool never shares a connection\<close>

definition live_conns :: "world \<Rightarrow> nat set" where
  "live_conns w = {..<w_nconn w} - set (w_free_connq w)"

text \<open>
  The counters: the free ones, all of them, and the clients, which are the connections in use
  that carry the flag.
\<close>

definition conns_inv :: "world \<Rightarrow> bool" where
  "conns_inv w \<longleftrightarrow> distinct (w_free_connq w) \<and> set (w_free_connq w) \<subseteq> {..<w_nconn w}
     \<and> w_nfree_connq w = word_of_nat (length (w_free_connq w))
     \<and> w_ncurr_conn w = word_of_nat (card (live_conns w))
     \<and> w_ncurr_cconn w = word_of_nat (card {c \<in> live_conns w. c_client (conn w c)})"

definition conn_popped :: "world \<Rightarrow> world" where
  "conn_popped w = (if w_free_connq w = [] then (snd (gf_alloc w))\<lparr>w_nconn := Suc (w_nconn w)\<rparr>
     else w\<lparr>w_nfree_connq := w_nfree_connq w - 1, w_free_connq := tl (w_free_connq w)\<rparr>)"

definition conn_next :: "world \<Rightarrow> nat" where
  "conn_next w = (if w_free_connq w = [] then w_nconn w else hd (w_free_connq w))"

lemma free_counter_nonzero:
  fixes q :: "nat list"
  assumes "distinct q" "set q \<subseteq> {..<n}" "n < 2 ^ 32" "q \<noteq> []"
  shows "(0 :: u32) < word_of_nat (length q)"
proof -
  have "length q \<le> n" using assms(1,2) by (metis card_lessThan card_mono distinct_card finite_lessThan)
  then have "unat (word_of_nat (length q) :: u32) = length q"
    using assms(3) by (simp add: unat_of_nat take_bit_nat_eq_self)
  with assms(4) show ?thesis by (metis length_greater_0_conv unat_gt_0 word_neq_0_conv)
qed

lemma conn_take_cases:
  assumes "conns_inv w" "w_nconn w < 2 ^ 32"
  obtains (got) "conn_take w = Some (Some (conn_next w), conn_setup (conn_next w) (conn_popped w))"
    | (nomem) "w_free_connq w = []" "conn_take w = Some (None, snd (gf_alloc w))"
proof -
  have c: "0 < w_nfree_connq w" if "w_free_connq w \<noteq> []"
    using assms that free_counter_nonzero [of "w_free_connq w" "w_nconn w"] by (simp add: conns_inv_def)
  show ?thesis
  proof (cases "w_free_connq w = [] \<and> \<not> fst (gf_alloc w)")
    case True
    then show ?thesis by (intro nomem) (auto simp: conn_take_def split_def)
  next
    case False
    then show ?thesis using c
      by (intro got) (auto simp: conn_take_def conn_next_def conn_popped_def split_def neq_Nil_conv)
  qed
qed

lemma conn_popped_live:
  assumes "conns_inv w"
  shows "conn_next w \<notin> live_conns w" "live_conns (conn_popped w) = insert (conn_next w) (live_conns w)"
  using assms by (cases "w_free_connq w"; auto simp: live_conns_def conn_popped_def conn_next_def conns_inv_def less_Suc_eq)+

lemma finite_live_conns [simp]: "finite (live_conns w)"
  by (simp add: live_conns_def)

lemma conn_setup_simps [simp]:
  "w_nconn (conn_setup c w) = w_nconn w" "w_free_connq (conn_setup c w) = w_free_connq w"
  "w_nfree_connq (conn_setup c w) = w_nfree_connq w" "w_ncurr_cconn (conn_setup c w) = w_ncurr_cconn w"
  "w_ncurr_conn (conn_setup c w) = w_ncurr_conn w + 1" "live_conns (conn_setup c w) = live_conns w"
  "conn (conn_setup c w) d = (if d = c then conn_reset (conn w c) else conn w d)"
  by (simp_all add: conn_setup_def live_conns_def)

lemma conn_setup_inv:
  assumes "conns_inv w"
  shows "conns_inv (conn_setup (conn_next w) (conn_popped w))"
proof -
  let ?c = "conn_next w" and ?w = "conn_setup (conn_next w) (conn_popped w)"
  note live = conn_popped_live [OF assms]
  have old: "w_conns (conn_popped w) = w_conns w" "w_ncurr_conn (conn_popped w) = w_ncurr_conn w"
      "w_ncurr_cconn (conn_popped w) = w_ncurr_cconn w" by (simp_all add: conn_popped_def)
  have "{c \<in> live_conns ?w. c_client (conn ?w c)} = {c \<in> live_conns w. c_client (conn w c)}"
    using live old by (auto simp: conn_reset_def)
  moreover have "card (live_conns ?w) = Suc (card (live_conns w))" using live by simp
  moreover have "distinct (w_free_connq ?w)" "set (w_free_connq ?w) \<subseteq> {..<w_nconn ?w}"
     "w_nfree_connq ?w = word_of_nat (length (w_free_connq ?w))"
    using assms by (cases "w_free_connq w"; auto simp: conn_popped_def conns_inv_def)+
  ultimately show ?thesis using assms old by (simp add: conns_inv_def)
qed

lemma card_minus_one_word: "finite A \<Longrightarrow> c \<in> A \<Longrightarrow> word_of_nat (card (A - {c})) = (word_of_nat (card A) - 1 :: u32)"
  using card_gt_0_iff [of A] by (auto simp: card_Diff_singleton of_nat_diff)

lemma conn_put_inv:
  assumes "conns_inv w" "c \<in> live_conns w" "c_sd (conn w c) < 0" "c_owner (conn w c) = None"
  shows "\<exists>w'. conn_put c w = Some w' \<and> live_conns w' = live_conns w - {c} \<and> conns_inv w' \<and> w_nconn w' = w_nconn w
    \<and> w_conns w' = w_conns w"
proof -
  let ?cl = "{d \<in> live_conns w. c_client (conn w d)}"
  let ?w = "w\<lparr>w_nfree_connq := w_nfree_connq w + 1, w_free_connq := c # w_free_connq w,
       w_ncurr_cconn := (if c_client (conn w c) then w_ncurr_cconn w - 1 else w_ncurr_cconn w),
       w_ncurr_conn := w_ncurr_conn w - 1\<rparr>"
  have eq: "conn_put c w = Some ?w" using assms(3,4) by (simp add: conn_put_def)
  have live: "live_conns ?w = live_conns w - {c}" by (auto simp: live_conns_def)
  have 1: "word_of_nat (card (live_conns w - {c})) = (word_of_nat (card (live_conns w)) - 1 :: u32)"
    by (rule card_minus_one_word) (simp_all add: assms(2))
  have 2: "{d \<in> live_conns w - {c}. c_client (conn w d)} = (if c_client (conn w c) then ?cl - {c} else ?cl)"
    by auto
  have 3: "word_of_nat (card (?cl - {c})) = (word_of_nat (card ?cl) - 1 :: u32)" if "c_client (conn w c)"
    by (rule card_minus_one_word) (use that assms(2) in auto)
  have "c \<notin> set (w_free_connq w)" "c < w_nconn w" using assms(2) by (simp_all add: live_conns_def)
  then have fr: "distinct (w_free_connq ?w)" "set (w_free_connq ?w) \<subseteq> {..<w_nconn ?w}"
     "w_nfree_connq ?w = word_of_nat (length (w_free_connq ?w))"
    using assms(1) by (simp_all add: conns_inv_def)
  have "w_ncurr_cconn ?w = word_of_nat (card {d \<in> live_conns w - {c}. c_client (conn w d)})"
    using assms(1) 3 unfolding 2 by (simp add: conns_inv_def)
  moreover have "w_ncurr_conn ?w = word_of_nat (card (live_conns w - {c}))" using assms(1) 1 by (simp add: conns_inv_def)
  ultimately have "conns_inv ?w" using fr unfolding conns_inv_def live by simp
  with eq live show ?thesis by simp
qed

text \<open>Connections that are handed out and not yet opened or bound to an owner.\<close>

definition conns_idle :: "world \<Rightarrow> bool" where
  "conns_idle w \<longleftrightarrow> conns_inv w \<and> (\<forall>c\<in>live_conns w. c_sd (conn w c) < 0 \<and> c_owner (conn w c) = None)"

lemma conn_take_inv:
  assumes "conns_inv w" "w_nconn w < 2 ^ 32" "conn_take w = Some (r, w')"
  shows "conns_inv w' \<and> w_nconn w' \<le> Suc (w_nconn w) \<and>
    (case r of None \<Rightarrow> live_conns w' = live_conns w \<and> w_conns w' = w_conns w
     | Some c \<Rightarrow> c \<notin> live_conns w \<and> live_conns w' = insert c (live_conns w) \<and> c_sd (conn w' c) = - 1 \<and> c_owner (conn w' c) = None
         \<and> (\<forall>d\<in>live_conns w. conn w' d = conn w d))"
  using assms(1,2)
proof (cases rule: conn_take_cases)
  case got
  have "conn (conn_popped w) d = conn w d" for d by (simp add: conn_popped_def)
  with got assms(3) conn_setup_inv [OF assms(1)] conn_popped_live [OF assms(1)] show ?thesis
    by (auto simp: conn_reset_def) (simp add: conn_popped_def)
next
  case nomem
  with assms(1,3) show ?thesis by (auto simp: conns_inv_def live_conns_def)
qed

interpretation cq: object_pool conn_take conn_put live_conns w_nconn conns_idle
proof unfold_locales
  fix w assume i: "conns_idle w" "w_nconn w < 2 ^ 32"
  then have c: "conns_inv w" by (simp add: conns_idle_def)
  show "conn_take w \<noteq> None" using c i(2) by (cases rule: conn_take_cases) auto
  fix r w' assume g: "conn_take w = Some (r, w')"
  show "conns_idle w' \<and> w_nconn w' \<le> Suc (w_nconn w)"
    using conn_take_inv [OF c i(2) g] i(1) by (auto simp: conns_idle_def split: option.splits)
next
  fix w x w' assume i: "conns_idle w" "w_nconn w < 2 ^ 32" "conn_take w = Some (Some x, w')"
  show "x \<notin> live_conns w \<and> live_conns w' = insert x (live_conns w)"
    using conn_take_inv [OF _ i(2,3)] i(1) by (simp add: conns_idle_def)
next
  fix w w' assume i: "conns_idle w" "w_nconn w < 2 ^ 32" "conn_take w = Some (None, w')"
  show "live_conns w \<subseteq> live_conns w'" using conn_take_inv [OF _ i(2,3)] i(1) by (simp add: conns_idle_def)
next
  fix w x assume i: "conns_idle w" "x \<in> live_conns w"
  then have "conns_inv w" "c_sd (conn w x) < 0" "c_owner (conn w x) = None" by (auto simp: conns_idle_def)
  then obtain w' where "conn_put x w = Some w'" "live_conns w' = live_conns w - {x}" "conns_inv w'" "w_nconn w' = w_nconn w"
    "w_conns w' = w_conns w" using conn_put_inv [of w x] i(2) by blast
  with i show "\<exists>w'. conn_put x w = Some w' \<and> live_conns w' = live_conns w - {x} \<and> conns_idle w' \<and> w_nconn w' = w_nconn w"
    by (auto simp: conns_idle_def)
qed

subsection \<open>What a transfer does\<close>

text \<open>The state after \<open>k\<close> calls of the same kind.\<close>

primrec called :: "sysop \<Rightarrow> nat \<Rightarrow> world \<Rightarrow> world" where
  "called op 0 w = w"
| "called op (Suc k) w = called op k (snd (sys op w))"

lemma called_simps [simp]:
  "w_os (called op k w) = w_os w" "w_tick (called op k w) = w_tick w + k" "w_conns (called op k w) = w_conns w"
  "w_panic (called op k w) = w_panic w"
  by (induction k arbitrary: w) simp_all

definition interrupted :: "nat \<Rightarrow> world \<Rightarrow> bool" where
  "interrupted k w \<longleftrightarrow> (\<forall>i<k. r_ret (w_os w (w_tick w + i)) < 0 \<and> r_errno (w_os w (w_tick w + i)) = EINTR)"

lemma interrupted_Suc:
  "interrupted (Suc k) w \<longleftrightarrow> r_ret (w_os w (w_tick w)) < 0 \<and> r_errno (w_os w (w_tick w)) = EINTR \<and> interrupted k (snd (sys op w))"
  by (auto simp: interrupted_def All_less_Suc2)

text \<open>The effect of a call that is not interrupted, for \<open>want\<close> bytes asked.\<close>

definition recv_effect :: "nat \<Rightarrow> sysres \<Rightarrow> conn \<Rightarrow> conn" where
  "recv_effect want r s =
     (if 0 < r_ret r then s\<lparr>c_recv_ready := c_recv_ready s \<and> \<not> r_ret r < int want,
                            c_recv_bytes := c_recv_bytes s + word_of_int (r_ret r)\<rparr>
      else if r_ret r = 0 then s\<lparr>c_recv_ready := False, c_eof := True\<rparr>
      else if r_errno r = EAGAIN then s\<lparr>c_recv_ready := False\<rparr>
      else s\<lparr>c_recv_ready := False, c_err := r_errno r\<rparr>)"

definition send_effect :: "nat \<Rightarrow> sysres \<Rightarrow> conn \<Rightarrow> conn" where
  "send_effect want r s =
     (if 0 < r_ret r then s\<lparr>c_send_ready := c_send_ready s \<and> \<not> r_ret r < int want,
                            c_send_bytes := c_send_bytes s + word_of_int (r_ret r)\<rparr>
      else if r_ret r = 0 then s\<lparr>c_send_ready := False\<rparr>
      else if r_errno r = EAGAIN then s\<lparr>c_send_ready := False\<rparr>
      else s\<lparr>c_send_ready := False, c_err := r_errno r\<rparr>)"

definition transfer_status :: "sysres \<Rightarrow> int" where
  "transfer_status r = (if 0 \<le> r_ret r then r_ret r else if r_errno r = EAGAIN then GF_EAGAIN else GF_ERROR)"

lemma upd_conn_upd_conn [simp]: "upd_conn c f (upd_conn c g w) = upd_conn c (\<lambda>s. f (g s)) w"
  by (simp add: upd_conn_def)

lemma upd_conn_cong: "f (conn w c) = g (conn w c) \<Longrightarrow> upd_conn c f w = upd_conn c g w"
  by (simp add: upd_conn_def)

lemma conn_recv_loop_eq:
  assumes "interrupted k w" "\<not> (r_ret r < 0 \<and> r_errno r = EINTR)" "r = w_os w (w_tick w + k)" "k < fuel"
  shows "conn_recv_loop fuel c sz w = Some (transfer_status r, if 0 < r_ret r then read_bytes r else [],
           upd_conn c (recv_effect sz r) (called (Sys_read (c_sd (conn w c)) sz) (Suc k) w))"
  using assms
proof (induction fuel arbitrary: w k)
  case (Suc n)
  show ?case
  proof (cases k)
    case 0
    then show ?thesis using Suc.prems
      by (auto simp: split_def recv_effect_def transfer_status_def Let_def intro!: upd_conn_cong)
  next
    case (Suc j)
    let ?op = "Sys_read (c_sd (conn w c)) sz"
    have "interrupted j (snd (sys ?op w))" "r = w_os (snd (sys ?op w)) (w_tick (snd (sys ?op w)) + j)" "j < n"
      using Suc.prems Suc interrupted_Suc by auto
    from Suc.IH [OF this(1) Suc.prems(2) this(2,3)] Suc.prems Suc show ?thesis
      by (simp add: split_def Let_def interrupted_Suc [of _ w ?op])
  qed
qed simp

lemma conn_sendv_loop_eq:
  assumes "interrupted k w" "\<not> (r_ret r < 0 \<and> r_errno r = EINTR)" "r = w_os w (w_tick w + k)" "k < fuel"
  shows "conn_sendv_loop fuel c iov n w = Some (transfer_status r, upd_conn c (send_effect n r) (called (Sys_writev (c_sd (conn w c)) iov) (Suc k) w))"
  using assms
proof (induction fuel arbitrary: w k)
  case (Suc m)
  show ?case
  proof (cases k)
    case 0
    then show ?thesis using Suc.prems
      by (auto simp: split_def send_effect_def transfer_status_def Let_def intro!: upd_conn_cong)
  next
    case (Suc j)
    let ?op = "Sys_writev (c_sd (conn w c)) iov"
    have "interrupted j (snd (sys ?op w))" "r = w_os (snd (sys ?op w)) (w_tick (snd (sys ?op w)) + j)" "j < m"
      using Suc.prems Suc interrupted_Suc by auto
    from Suc.IH [OF this(1) Suc.prems(2) this(2,3)] Suc.prems Suc show ?thesis
      by (simp add: split_def Let_def interrupted_Suc [of _ w ?op])
  qed
qed simp

text \<open>
  a read that is interrupted \<open>k\<close> times is repeated \<open>k\<close> times with the
  same descriptor and size and then returns what the last call returned: the bytes and
  their count, with \<open>recv_ready\<close> cleared exactly when fewer bytes than asked came; 0 with the
  end of file noted; \<open>GF_EAGAIN\<close>; or \<open>GF_ERROR\<close> with the error number kept in the connection.
\<close>

theorem conn_recv_outcome:
  assumes "interrupted k w" "\<not> (r_ret r < 0 \<and> r_errno r = EINTR)" "r = w_os w (w_tick w + k)" "k < fuel"
    and "0 < sz" "c_recv_ready (conn w c)"
  shows "conn_recv fuel c sz w = Some (transfer_status r, if 0 < r_ret r then read_bytes r else [],
           upd_conn c (recv_effect sz r) (called (Sys_read (c_sd (conn w c)) sz) (Suc k) w))"
  using assms conn_recv_loop_eq [OF assms(1-4)] by (simp add: conn_recv_def)

lemma conn_sendv_outcome:
  assumes "interrupted k w" "\<not> (r_ret r < 0 \<and> r_errno r = EINTR)" "r = w_os w (w_tick w + k)" "k < fuel"
    and "iov \<noteq> []" "n \<noteq> 0" "c_send_ready (conn w c)"
  shows "conn_sendv fuel c iov n w = Some (transfer_status r,
           upd_conn c (send_effect n r) (called (Sys_writev (c_sd (conn w c)) iov) (Suc k) w))"
  using assms conn_sendv_loop_eq [OF assms(1-4)] by (simp add: conn_sendv_def)

definition recv_w :: world where
  "recv_w = w0\<lparr>w_os := (\<lambda>i. if i < 1 then (sample_res (- 1) [])\<lparr>r_errno := EINTR\<rparr> else sample_res 2 [79, 75])\<rparr>"

lemma conn_recv_outcome_witness:
  "\<exists>w'. conn_recv 3 0 16 recv_w = Some (2, [79, 75], w') \<and> \<not> c_recv_ready (conn w' 0) \<and> c_recv_bytes (conn w' 0) = 2"
  using conn_recv_outcome [of 1 recv_w "sample_res 2 [79, 75]" 3 16 0]
  by (simp add: interrupted_def recv_w_def sample_res_def transfer_status_def recv_effect_def read_bytes_def sample_conn_def)

end
