(* ===== verification/Owners.thy ===== *)
theory Owners
  imports Connection
begin

section \<open>Owners of connections (\<open>*_ref\<close>, \<open>*_unref\<close>, \<open>conn_get\<close>)\<close>

text \<open>
  A connection is bound to its owner when it is taken from the pool and unbound when it is
  closed: a client to the queue of its pool, a server connection to the queue of its server,
  whose name is resolved then, a listening connection to its pool.  A handler that is NULL or
  of another type than the call expects has no result.
\<close>

subsection \<open>Clients (\<open>gf_client.c\<close>)\<close>

definition client_ref :: "nat \<Rightarrow> nat \<Rightarrow> world \<Rightarrow> world option" where
  "client_ref c p w = do {
     ASSERT (c_client (conn w c) \<and> \<not> c_proxy (conn w c)) w;
     ASSERT (c_owner (conn w c) = None) w;
     let w = upd_conn c (\<lambda>s. s\<lparr>c_family := 0, c_addrlen := 0, c_addr := None\<rparr>) w;
     let w = upd_pool p (\<lambda>sp. sp\<lparr>p_nc_conn_q := p_nc_conn_q sp + 1, p_c_conn_q := p_c_conn_q sp @ [c]\<rparr>) w;
     Some (upd_conn c (\<lambda>s. s\<lparr>c_owner := Some (OPool p)\<rparr>) w) }"

text \<open>\<open>TAILQ_REMOVE\<close> of an element of the queue.\<close>

definition q_remove :: "nat \<Rightarrow> nat list \<Rightarrow> nat list option" where
  "q_remove x q = (if x \<in> set q then Some (remove1 x q) else None)"

definition client_unref :: "nat \<Rightarrow> world \<Rightarrow> world option" where
  "client_unref c w = do {
     ASSERT (c_client (conn w c) \<and> \<not> c_proxy (conn w c)) w;
     ASSERT (c_owner (conn w c) \<noteq> None) w;
     case c_owner (conn w c) of Some (OPool p) \<Rightarrow> do {
       let w = upd_conn c (\<lambda>s. s\<lparr>c_owner := None\<rparr>) w;
       ASSERT (p_nc_conn_q (pool w p) \<noteq> 0) w;
       q \<leftarrow> q_remove c (p_c_conn_q (pool w p));
       Some (upd_pool p (\<lambda>sp. sp\<lparr>p_nc_conn_q := p_nc_conn_q sp - 1, p_c_conn_q := q\<rparr>) w) }
     | _ \<Rightarrow> None }"

subsection \<open>Servers (\<open>gf_server.c\<close>)\<close>

definition server_resolve :: "nat \<Rightarrow> nat \<Rightarrow> nat \<Rightarrow> world \<Rightarrow> world option" where
  "server_resolve p s c w = do {
     (status, si, w) \<leftarrow> gf_resolve (s_addrstr (server w p s)) (uint (s_port (server w p s))) (s_info (server w p s)) w;
     let w = upd_server p s (\<lambda>sv. sv\<lparr>s_info := si\<rparr>) w;
     if status \<noteq> GF_OK then Some (upd_conn c (\<lambda>x. x\<lparr>c_err := status, c_done := True\<rparr>) w)
     else Some (upd_conn c (\<lambda>x. x\<lparr>c_family := si_family si, c_addrlen := si_addrlen si, c_addr := Some (OServer p s)\<rparr>) w) }"

definition server_ref :: "nat \<Rightarrow> nat \<Rightarrow> nat \<Rightarrow> world \<Rightarrow> world option" where
  "server_ref c p s w = do {
     ASSERT (\<not> c_client (conn w c) \<and> \<not> c_proxy (conn w c)) w;
     ASSERT (c_owner (conn w c) = None) w;
     w \<leftarrow> server_resolve p s c w;
     let w = upd_server p s (\<lambda>sv. sv\<lparr>s_ns_conn_q := s_ns_conn_q sv + 1, s_conn_q := s_conn_q sv @ [c]\<rparr>) w;
     Some (upd_conn c (\<lambda>x. x\<lparr>c_owner := Some (OServer p s)\<rparr>) w) }"

definition server_unref :: "nat \<Rightarrow> world \<Rightarrow> world option" where
  "server_unref c w = do {
     ASSERT (\<not> c_client (conn w c) \<and> \<not> c_proxy (conn w c)) w;
     ASSERT (c_owner (conn w c) \<noteq> None) w;
     case c_owner (conn w c) of Some (OServer p s) \<Rightarrow> do {
       let w = upd_conn c (\<lambda>x. x\<lparr>c_owner := None\<rparr>) w;
       ASSERT (0 < s_ns_conn_q (server w p s)) w;
       q \<leftarrow> q_remove c (s_conn_q (server w p s));
       Some (upd_server p s (\<lambda>sv. sv\<lparr>s_ns_conn_q := s_ns_conn_q sv - 1, s_conn_q := q\<rparr>) w) }
     | _ \<Rightarrow> None }"

subsection \<open>Listening connections (\<open>gf_proxy.c\<close>)\<close>

definition proxy_ref :: "nat \<Rightarrow> nat \<Rightarrow> world \<Rightarrow> world option" where
  "proxy_ref c p w = do {
     ASSERT (\<not> c_client (conn w c) \<and> c_proxy (conn w c)) w;
     ASSERT (c_owner (conn w c) = None) w;
     let w = upd_conn c (\<lambda>s. s\<lparr>c_family := si_family (p_info (pool w p)), c_addrlen := si_addrlen (p_info (pool w p)),
                               c_addr := Some (OPool p)\<rparr>) w;
     let w = upd_pool p (\<lambda>sp. sp\<lparr>p_p_conn := Some c\<rparr>) w;
     Some (upd_conn c (\<lambda>s. s\<lparr>c_owner := Some (OPool p)\<rparr>) w) }"

definition proxy_unref :: "nat \<Rightarrow> world \<Rightarrow> world option" where
  "proxy_unref c w = do {
     ASSERT (\<not> c_client (conn w c) \<and> c_proxy (conn w c)) w;
     ASSERT (c_owner (conn w c) \<noteq> None) w;
     case c_owner (conn w c) of Some (OPool p) \<Rightarrow> do {
       let w = upd_conn c (\<lambda>s. s\<lparr>c_owner := None\<rparr>) w;
       Some (upd_pool p (\<lambda>sp. sp\<lparr>p_p_conn := None\<rparr>) w) }
     | _ \<Rightarrow> None }"

subsection \<open>Handlers\<close>

definition call_ref :: "handler option \<Rightarrow> nat \<Rightarrow> owner \<Rightarrow> world \<Rightarrow> world option" where
  "call_ref h c ow w = (case (h, ow) of
     (Some H_client_ref, OPool p) \<Rightarrow> client_ref c p w
   | (Some H_server_ref, OServer p s) \<Rightarrow> server_ref c p s w
   | (Some H_proxy_ref, OPool p) \<Rightarrow> proxy_ref c p w
   | _ \<Rightarrow> None)"

definition call_unref :: "nat \<Rightarrow> world \<Rightarrow> world option" where
  "call_unref c w = (case c_unref (conn w c) of
     Some H_client_unref \<Rightarrow> client_unref c w
   | Some H_server_unref \<Rightarrow> server_unref c w
   | Some H_proxy_unref \<Rightarrow> proxy_unref c w
   | _ \<Rightarrow> None)"

text \<open>
  \<open>conn_get\<close>: \<open>post_connect\<close> and \<open>swallow_msg\<close> are set for clients only; a server connection
  keeps what the object had.
\<close>

definition client_handlers :: "conn \<Rightarrow> conn" where
  "client_handlers s = s\<lparr>c_recv := Some H_msg_recv, c_recv_next := Some H_req_recv_next, c_recv_done := Some H_req_recv_done,
     c_send := Some H_msg_send, c_send_next := Some H_rsp_send_next, c_send_done := Some H_rsp_send_done,
     c_close := Some H_client_close, c_active := Some H_client_active,
     c_ref := Some H_client_ref, c_unref := Some H_client_unref,
     c_enqueue_inq := None, c_dequeue_inq := None,
     c_enqueue_outq := Some H_req_client_enqueue_omsgq, c_dequeue_outq := Some H_req_client_dequeue_omsgq,
     c_post_connect := None, c_swallow_msg := None\<rparr>"

definition server_handlers :: "conn \<Rightarrow> conn" where
  "server_handlers s = s\<lparr>c_recv := Some H_msg_recv, c_recv_next := Some H_rsp_recv_next, c_recv_done := Some H_rsp_recv_done,
     c_send := Some H_msg_send, c_send_next := Some H_req_send_next, c_send_done := Some H_req_send_done,
     c_close := Some H_server_close, c_active := Some H_server_active,
     c_ref := Some H_server_ref, c_unref := Some H_server_unref,
     c_enqueue_inq := Some H_req_server_enqueue_imsgq, c_dequeue_inq := Some H_req_server_dequeue_imsgq,
     c_enqueue_outq := Some H_req_server_enqueue_omsgq, c_dequeue_outq := Some H_req_server_dequeue_omsgq\<rparr>"

definition proxy_handlers :: "conn \<Rightarrow> conn" where
  "proxy_handlers s = s\<lparr>c_recv := Some H_proxy_recv, c_recv_next := None, c_recv_done := None,
     c_send := None, c_send_next := None, c_send_done := None,
     c_close := Some H_proxy_close, c_active := None,
     c_ref := Some H_proxy_ref, c_unref := Some H_proxy_unref,
     c_enqueue_inq := None, c_dequeue_inq := None, c_enqueue_outq := None, c_dequeue_outq := None\<rparr>"

definition conn_get :: "owner \<Rightarrow> bool \<Rightarrow> bool \<Rightarrow> world \<Rightarrow> (nat option \<times> world) option" where
  "conn_get ow client redis w = do {
     (r, w) \<leftarrow> conn_take w;
     case r of None \<Rightarrow> Some (None, w)
     | Some c \<Rightarrow> do {
         let w = upd_conn c (\<lambda>s. s\<lparr>c_redis := redis, c_client := client\<rparr>) w;
         let w = (if c_client (conn w c)
                  then (upd_conn c client_handlers w)\<lparr>w_ncurr_cconn := w_ncurr_cconn w + 1\<rparr>
                  else upd_conn c server_handlers w);
         w \<leftarrow> call_ref (c_ref (conn w c)) c ow w;
         Some (Some c, w) } }"

definition conn_get_proxy :: "nat \<Rightarrow> world \<Rightarrow> (nat option \<times> world) option" where
  "conn_get_proxy p w = do {
     (r, w) \<leftarrow> conn_take w;
     case r of None \<Rightarrow> Some (None, w)
     | Some c \<Rightarrow> do {
         let w = upd_conn c (\<lambda>s. s\<lparr>c_redis := p_redis (pool w p), c_proxy := True\<rparr>) w;
         let w = upd_conn c proxy_handlers w;
         w \<leftarrow> call_ref (c_ref (conn w c)) c (OPool p) w;
         Some (Some c, w) } }"

end
