(* ===== verification/Request_Queue.thy ===== *)
theory Request_Queue
  imports Message Owners
begin

section \<open>Requests in their queues (\<open>gf_request.c\<close>, \<open>gf_response.c\<close>)\<close>

text \<open>
  A request waits in the queue \<open>omsg_q\<close> of its client until its response can be sent, and
  meanwhile in the queues \<open>imsg_q\<close> and then \<open>omsg_q\<close> of a server connection.  This theory has
  the release of requests and responses, the tests whether a request, with all fragments of
  its vector, is done or in error, the queue handlers, and the activity tests.
\<close>

definition q_first :: "nat list \<Rightarrow> nat option" where
  "q_first q = (case q of [] \<Rightarrow> None | x # _ \<Rightarrow> Some x)"

text \<open>The element after \<open>x\<close>; the link of an element that is in no queue is not known.\<close>

definition q_next :: "nat \<Rightarrow> nat list \<Rightarrow> nat option option" where
  "q_next x q = (if x \<in> set q then Some (q_first (tl (dropWhile (\<lambda>y. y \<noteq> x) q))) else None)"

subsection \<open>Release\<close>

text \<open>What \<open>req_log\<close> does besides writing to the log: it reads the clock and follows \<open>owner\<close>.\<close>

definition req_log :: "nat \<Rightarrow> world \<Rightarrow> world option" where
  "req_log m w =
     (if \<not> w_log_notice w then Some w
      else if m_frag_id (msg w m) \<noteq> 0 \<and> m_frag_owner (msg w m) \<noteq> Some m then Some w
      else if m_mlen (msg w m) = 0 then Some w
      else if m_start_ts (msg w m) = 0 then Some w
      else do {
        let w = snd (gf_usec_now w);
        ks \<leftarrow> m_keys (msg w m);
        if length ks < 1 then Some w else do { c \<leftarrow> m_owner (msg w m); Some w } })"

definition rsp_put :: "nat \<Rightarrow> world \<Rightarrow> world option" where
  "rsp_put m w = do {
     ASSERT (\<not> m_request (msg w m)) w;
     ASSERT (m_peer (msg w m) = None) w;
     msg_put m w }"

text \<open>Cutting the link between a request and its response, and releasing the response.\<close>

definition drop_peer :: "nat \<Rightarrow> world \<Rightarrow> world option" where
  "drop_peer m w = (case m_peer (msg w m) of None \<Rightarrow> Some w
     | Some pm \<Rightarrow> do {
         ASSERT (\<not> m_request (msg w pm) \<and> m_peer (msg w pm) = Some m) w;
         let w = upd_msg m (\<lambda>s. s\<lparr>m_peer := None\<rparr>) w;
         let w = upd_msg pm (\<lambda>s. s\<lparr>m_peer := None\<rparr>) w;
         rsp_put pm w })"

definition req_put :: "nat \<Rightarrow> world \<Rightarrow> world option" where
  "req_put m w = do {
     ASSERT (m_request (msg w m)) w;
     w \<leftarrow> req_log m w;
     w \<leftarrow> drop_peer m w;
     let w = msg_tmo_delete m w;
     msg_put m w }"

subsection \<open>Done and in error\<close>

text \<open>
  The fragments of a vector are neighbours in the queue of the client: the walks along
  \<open>TAILQ_PREV\<close> and \<open>TAILQ_NEXT\<close> while the fragment id is the same.
\<close>

definition frags_before :: "nat list \<Rightarrow> nat \<Rightarrow> world \<Rightarrow> nat list" where
  "frags_before q m w =
     takeWhile (\<lambda>x. m_frag_id (msg w x) = m_frag_id (msg w m)) (rev (takeWhile (\<lambda>x. x \<noteq> m) q))"

definition frags_after :: "nat list \<Rightarrow> nat \<Rightarrow> world \<Rightarrow> nat list" where
  "frags_after q m w =
     takeWhile (\<lambda>x. m_frag_id (msg w x) = m_frag_id (msg w m)) (tl (dropWhile (\<lambda>x. x \<noteq> m) q))"

definition call_post_coalesce :: "ext \<Rightarrow> nat option \<Rightarrow> nat option \<Rightarrow> world \<Rightarrow> world option" where
  "call_post_coalesce X f m w = do { k \<leftarrow> f; m \<leftarrow> m; x_post_coalesce X k m w }"

definition mark_fdone :: "nat list \<Rightarrow> world \<Rightarrow> world" where
  "mark_fdone ms w = fold (\<lambda>x. upd_msg x (\<lambda>s. s\<lparr>m_fdone := True\<rparr>)) ms w"

definition mark_ferror :: "nat list \<Rightarrow> world \<Rightarrow> world" where
  "mark_ferror ms w = fold (\<lambda>x. upd_msg x (\<lambda>s. s\<lparr>m_ferror := True\<rparr>)) ms w"

definition req_done :: "ext \<Rightarrow> nat \<Rightarrow> nat option \<Rightarrow> world \<Rightarrow> (bool \<times> world) option" where
  "req_done X c mo w = (case mo of None \<Rightarrow> None
     | Some m \<Rightarrow> do {
         ASSERT (c_client (conn w c) \<and> \<not> c_proxy (conn w c)) w;
         ASSERT (m_request (msg w m)) w;
         if \<not> m_done (msg w m) then Some (False, w)
         else if m_frag_id (msg w m) = 0 then Some (True, w)
         else if m_fdone (msg w m) then Some (True, w)
         else if m_nfrag_done (msg w m) < m_nfrag (msg w m) then Some (False, w)
         else if m \<notin> set (c_omsg_q (conn w c)) then None
         else do {
           let before = frags_before (c_omsg_q (conn w c)) m w;
           let after = frags_after (c_omsg_q (conn w c)) m w;
           if \<exists>x\<in>set before. \<not> m_done (msg w x) then Some (False, w)
           else if \<exists>x\<in>set after. \<not> m_done (msg w x) then Some (False, w)
           else do {
             let w = upd_msg m (\<lambda>s. s\<lparr>m_fdone := True\<rparr>) w;
             let w = mark_fdone before w;
             let w = mark_fdone after w;
             let nfragment = length before + length after;
             ASSERT (case m_frag_owner (msg w m) of None \<Rightarrow> False
                     | Some f \<Rightarrow> m_nfrag (msg w f) = word_of_nat nfragment) w;
             w \<leftarrow> call_post_coalesce X (m_post_coalesce (msg w m)) (m_frag_owner (msg w m)) w;
             Some (True, w) } } })"

text \<open>The test inside \<open>ASSERT\<close>, with its effect, exists in the builds that compile assertions.\<close>

definition assert_req_done :: "ext \<Rightarrow> nat \<Rightarrow> nat \<Rightarrow> world \<Rightarrow> world option" where
  "assert_req_done X c m w =
     (if w_panic w then do {
        ASSERT (m_request (msg w m)) w;
        (d, w) \<leftarrow> req_done X c (Some m) w;
        ASSERT d w;
        Some w }
      else Some w)"

definition req_error :: "ext \<Rightarrow> nat \<Rightarrow> nat \<Rightarrow> world \<Rightarrow> (bool \<times> world) option" where
  "req_error X c m w = do {
     w \<leftarrow> assert_req_done X c m w;
     if m_error (msg w m) then Some (True, w)
     else if m_frag_id (msg w m) = 0 then Some (False, w)
     else if m_ferror (msg w m) then Some (True, w)
     else if m \<notin> set (c_omsg_q (conn w c)) then None
     else do {
       let before = frags_before (c_omsg_q (conn w c)) m w;
       let after = frags_after (c_omsg_q (conn w c)) m w;
       if (\<exists>x\<in>set before. m_error (msg w x)) \<or> (\<exists>x\<in>set after. m_error (msg w x)) then do {
         let w = upd_msg m (\<lambda>s. s\<lparr>m_ferror := True\<rparr>) w;
         let w = mark_ferror before w;
         let w = mark_ferror after w;
         Some (True, w) }
       else Some (False, w) } }"

subsection \<open>The queue handlers\<close>

definition conn_server :: "nat \<Rightarrow> world \<Rightarrow> (nat \<times> nat) option" where
  "conn_server c w = (case c_owner (conn w c) of Some (OServer p s) \<Rightarrow> Some (p, s) | _ \<Rightarrow> None)"

definition conn_pool :: "nat \<Rightarrow> world \<Rightarrow> nat option" where
  "conn_pool c w = (case c_owner (conn w c) of Some (OPool p) \<Rightarrow> Some p | _ \<Rightarrow> None)"

definition is_server_conn :: "conn \<Rightarrow> bool" where
  "is_server_conn s \<longleftrightarrow> \<not> c_client s \<and> \<not> c_proxy s"

definition is_client_conn :: "conn \<Rightarrow> bool" where
  "is_client_conn s \<longleftrightarrow> c_client s \<and> \<not> c_proxy s"

definition req_server_enqueue_imsgq :: "nat \<Rightarrow> nat \<Rightarrow> world \<Rightarrow> world option" where
  "req_server_enqueue_imsgq c m w = do {
     ASSERT (m_request (msg w m)) w;
     ASSERT (is_server_conn (conn w c)) w;
     w \<leftarrow> (if \<not> m_noreply (msg w m) then msg_tmo_insert m c w else Some w);
     let w = upd_conn c (\<lambda>s. s\<lparr>c_imsg_q := c_imsg_q s @ [m]\<rparr>) w;
     (p, s) \<leftarrow> conn_server c w;
     w \<leftarrow> stats_server_incr p s S_in_queue w;
     stats_server_incr_by p s S_in_queue_bytes (uint (m_mlen (msg w m))) w }"

definition req_server_enqueue_imsgq_head :: "nat \<Rightarrow> nat \<Rightarrow> world \<Rightarrow> world option" where
  "req_server_enqueue_imsgq_head c m w = do {
     ASSERT (m_request (msg w m)) w;
     ASSERT (is_server_conn (conn w c)) w;
     w \<leftarrow> (if \<not> m_noreply (msg w m) then msg_tmo_insert m c w else Some w);
     let w = upd_conn c (\<lambda>s. s\<lparr>c_imsg_q := m # c_imsg_q s\<rparr>) w;
     (p, s) \<leftarrow> conn_server c w;
     w \<leftarrow> stats_server_incr p s S_in_queue w;
     stats_server_incr_by p s S_in_queue_bytes (uint (m_mlen (msg w m))) w }"

definition req_server_dequeue_imsgq :: "nat \<Rightarrow> nat \<Rightarrow> world \<Rightarrow> world option" where
  "req_server_dequeue_imsgq c m w = do {
     ASSERT (m_request (msg w m)) w;
     ASSERT (is_server_conn (conn w c)) w;
     q \<leftarrow> q_remove m (c_imsg_q (conn w c));
     let w = upd_conn c (\<lambda>s. s\<lparr>c_imsg_q := q\<rparr>) w;
     (p, s) \<leftarrow> conn_server c w;
     w \<leftarrow> stats_server_decr p s S_in_queue w;
     stats_server_decr_by p s S_in_queue_bytes (uint (m_mlen (msg w m))) w }"

definition req_client_enqueue_omsgq :: "nat \<Rightarrow> nat \<Rightarrow> world \<Rightarrow> world option" where
  "req_client_enqueue_omsgq c m w = do {
     ASSERT (m_request (msg w m)) w;
     ASSERT (is_client_conn (conn w c)) w;
     Some (upd_conn c (\<lambda>s. s\<lparr>c_omsg_q := c_omsg_q s @ [m]\<rparr>) w) }"

definition req_server_enqueue_omsgq :: "nat \<Rightarrow> nat \<Rightarrow> world \<Rightarrow> world option" where
  "req_server_enqueue_omsgq c m w = do {
     ASSERT (m_request (msg w m)) w;
     ASSERT (is_server_conn (conn w c)) w;
     let w = upd_conn c (\<lambda>s. s\<lparr>c_omsg_q := c_omsg_q s @ [m]\<rparr>) w;
     (p, s) \<leftarrow> conn_server c w;
     w \<leftarrow> stats_server_incr p s S_out_queue w;
     stats_server_incr_by p s S_out_queue_bytes (uint (m_mlen (msg w m))) w }"

definition req_client_dequeue_omsgq :: "nat \<Rightarrow> nat \<Rightarrow> world \<Rightarrow> world option" where
  "req_client_dequeue_omsgq c m w = do {
     ASSERT (m_request (msg w m)) w;
     ASSERT (is_client_conn (conn w c)) w;
     q \<leftarrow> q_remove m (c_omsg_q (conn w c));
     Some (upd_conn c (\<lambda>s. s\<lparr>c_omsg_q := q\<rparr>) w) }"

definition req_server_dequeue_omsgq :: "nat \<Rightarrow> nat \<Rightarrow> world \<Rightarrow> world option" where
  "req_server_dequeue_omsgq c m w = do {
     ASSERT (m_request (msg w m)) w;
     ASSERT (is_server_conn (conn w c)) w;
     let w = msg_tmo_delete m w;
     q \<leftarrow> q_remove m (c_omsg_q (conn w c));
     let w = upd_conn c (\<lambda>s. s\<lparr>c_omsg_q := q\<rparr>) w;
     (p, s) \<leftarrow> conn_server c w;
     w \<leftarrow> stats_server_decr p s S_out_queue w;
     stats_server_decr_by p s S_out_queue_bytes (uint (m_mlen (msg w m))) w }"

definition call_enqueue_inq :: "nat \<Rightarrow> nat \<Rightarrow> world \<Rightarrow> world option" where
  "call_enqueue_inq c m w = (case c_enqueue_inq (conn w c) of
     Some H_req_server_enqueue_imsgq \<Rightarrow> req_server_enqueue_imsgq c m w | _ \<Rightarrow> None)"

definition call_dequeue_inq :: "nat \<Rightarrow> nat \<Rightarrow> world \<Rightarrow> world option" where
  "call_dequeue_inq c m w = (case c_dequeue_inq (conn w c) of
     Some H_req_server_dequeue_imsgq \<Rightarrow> req_server_dequeue_imsgq c m w | _ \<Rightarrow> None)"

definition call_enqueue_outq :: "nat \<Rightarrow> nat \<Rightarrow> world \<Rightarrow> world option" where
  "call_enqueue_outq c m w = (case c_enqueue_outq (conn w c) of
     Some H_req_client_enqueue_omsgq \<Rightarrow> req_client_enqueue_omsgq c m w
   | Some H_req_server_enqueue_omsgq \<Rightarrow> req_server_enqueue_omsgq c m w
   | _ \<Rightarrow> None)"

definition call_dequeue_outq :: "nat \<Rightarrow> nat \<Rightarrow> world \<Rightarrow> world option" where
  "call_dequeue_outq c m w = (case c_dequeue_outq (conn w c) of
     Some H_req_client_dequeue_omsgq \<Rightarrow> req_client_dequeue_omsgq c m w
   | Some H_req_server_dequeue_omsgq \<Rightarrow> req_server_dequeue_omsgq c m w
   | _ \<Rightarrow> None)"

subsection \<open>Activity\<close>

definition client_active :: "nat \<Rightarrow> world \<Rightarrow> bool option" where
  "client_active c w = do {
     ASSERT (is_client_conn (conn w c)) w;
     ASSERT (c_imsg_q (conn w c) = []) w;
     if c_omsg_q (conn w c) \<noteq> [] then Some True
     else if c_rmsg (conn w c) \<noteq> None then Some True
     else if c_smsg (conn w c) \<noteq> None then Some True
     else Some False }"

definition server_active :: "nat \<Rightarrow> world \<Rightarrow> bool option" where
  "server_active c w = do {
     ASSERT (is_server_conn (conn w c)) w;
     if c_imsg_q (conn w c) \<noteq> [] then Some True
     else if c_omsg_q (conn w c) \<noteq> [] then Some True
     else if c_rmsg (conn w c) \<noteq> None then Some True
     else if c_smsg (conn w c) \<noteq> None then Some True
     else Some False }"

definition call_active :: "nat \<Rightarrow> world \<Rightarrow> bool option" where
  "call_active c w = (case c_active (conn w c) of
     Some H_client_active \<Rightarrow> client_active c w
   | Some H_server_active \<Rightarrow> server_active c w
   | _ \<Rightarrow> None)"

end
