(* ===== verification/Closing.thy ===== *)
theory Closing
  imports Request_Queue
begin

section \<open>Closing connections and ejecting servers\<close>

text \<open>
  \<open>client_close\<close>, \<open>proxy_close\<close> and \<open>server_close\<close> with the statistics they keep and the
  failure accounting of servers.  The loops over a queue visit the messages it has when the
  loop starts; their bodies remove the visited message and no other.
\<close>

abbreviation (input) EPIPE :: int where "EPIPE \<equiv> 32"

subsection \<open>Clients (\<open>gf_client.c\<close>)\<close>

text \<open>Every error number has the same effect.\<close>

definition client_close_stats :: "nat \<Rightarrow> int \<Rightarrow> bool \<Rightarrow> world \<Rightarrow> world option" where
  "client_close_stats p err eof w = do {
     w \<leftarrow> stats_pool_decr p P_client_connections w;
     if eof then stats_pool_incr p P_client_eof w
     else stats_pool_incr p P_client_err w }"

primrec client_close_omsgs :: "nat list \<Rightarrow> nat \<Rightarrow> world \<Rightarrow> world option" where
  "client_close_omsgs [] c w = Some w"
| "client_close_omsgs (m # ms) c w = do {
     w \<leftarrow> call_dequeue_outq c m w;
     w \<leftarrow> (if m_done (msg w m) then req_put m w
          else do {
            let w = upd_msg m (\<lambda>s. s\<lparr>m_swallow := True\<rparr>) w;
            ASSERT (m_request (msg w m)) w;
            ASSERT (m_peer (msg w m) = None) w;
            Some w });
     client_close_omsgs ms c w }"

definition client_close :: "nat \<Rightarrow> world \<Rightarrow> world option" where
  "client_close c w = do {
     ASSERT (is_client_conn (conn w c)) w;
     p \<leftarrow> conn_pool c w;
     w \<leftarrow> client_close_stats p (c_err (conn w c)) (c_eof (conn w c)) w;
     if c_sd (conn w c) < 0 then do { w \<leftarrow> call_unref c w; conn_put c w }
     else do {
       w \<leftarrow> (case c_rmsg (conn w c) of None \<Rightarrow> Some w
            | Some m \<Rightarrow> do {
                let w = upd_conn c (\<lambda>s. s\<lparr>c_rmsg := None\<rparr>) w;
                ASSERT (m_peer (msg w m) = None) w;
                ASSERT (m_request (msg w m) \<and> \<not> m_done (msg w m)) w;
                req_put m w });
       ASSERT (c_smsg (conn w c) = None) w;
       ASSERT (c_imsg_q (conn w c) = []) w;
       w \<leftarrow> client_close_omsgs (c_omsg_q (conn w c)) c w;
       ASSERT (c_omsg_q (conn w c) = []) w;
       w \<leftarrow> call_unref c w;
       let (status, w) = sys_close (c_sd (conn w c)) w;
       let w = upd_conn c (\<lambda>s. s\<lparr>c_sd := - 1\<rparr>) w;
       conn_put c w } }"

subsection \<open>Listening connections (\<open>gf_proxy.c\<close>)\<close>

definition proxy_close :: "nat \<Rightarrow> world \<Rightarrow> world option" where
  "proxy_close c w = do {
     ASSERT (\<not> c_client (conn w c) \<and> c_proxy (conn w c)) w;
     if c_sd (conn w c) < 0 then do { w \<leftarrow> call_unref c w; conn_put c w }
     else do {
       ASSERT (c_rmsg (conn w c) = None) w;
       ASSERT (c_smsg (conn w c) = None) w;
       ASSERT (c_imsg_q (conn w c) = []) w;
       ASSERT (c_omsg_q (conn w c) = []) w;
       w \<leftarrow> call_unref c w;
       let (status, w) = sys_close (c_sd (conn w c)) w;
       let w = upd_conn c (\<lambda>s. s\<lparr>c_sd := - 1\<rparr>) w;
       conn_put c w } }"

subsection \<open>Servers (\<open>gf_server.c\<close>)\<close>

text \<open>
  \<open>server_failure\<close>: at the limit the server is ejected: its next retry is set and the
  distribution of the pool rebuilt without it.
\<close>

definition server_failure :: "nat \<Rightarrow> nat \<Rightarrow> world \<Rightarrow> world option" where
  "server_failure p s w =
     (if \<not> p_auto_eject_hosts (pool w p) then Some w
      else do {
        let w = upd_server p s (\<lambda>sv. sv\<lparr>s_failure_count := s_failure_count sv + 1\<rparr>) w;
        if s_failure_count (server w p s) < p_server_failure_limit (pool w p) then Some w
        else do {
          let (now, w) = gf_usec_now w;
          if now < 0 then Some w
          else do {
            w \<leftarrow> stats_server_set_ts p s S_server_ejected_at now w;
            let next = now + p_server_retry_timeout (pool w p);
            w \<leftarrow> stats_pool_incr p P_server_ejects w;
            let w = upd_server p s (\<lambda>sv. sv\<lparr>s_failure_count := 0, s_next_retry := next\<rparr>) w;
            (status, w) \<leftarrow> server_pool_run p w;
            Some w } } })"

definition server_close_stats :: "nat \<Rightarrow> nat \<Rightarrow> int \<Rightarrow> bool \<Rightarrow> bool \<Rightarrow> world \<Rightarrow> world option" where
  "server_close_stats p s err eof was_connected w = do {
     w \<leftarrow> (if was_connected then stats_server_decr p s S_server_connections w else Some w);
     if eof then stats_server_incr p s S_server_eof w
     else if err = ETIMEDOUT then stats_server_incr p s S_server_timedout w
     else stats_server_incr p s S_server_err w }"

text \<open>The error given to the client of a request that waits on a closed connection.\<close>

definition close_with_error :: "ext \<Rightarrow> nat \<Rightarrow> nat \<Rightarrow> world \<Rightarrow> world option" where
  "close_with_error X c m w = do {
     cc \<leftarrow> m_owner (msg w m);
     ASSERT (is_client_conn (conn w cc)) w;
     let w = upd_msg m (\<lambda>x. x\<lparr>m_done := True, m_error := True, m_err := c_err (conn w c)\<rparr>) w;
     let w = (case m_frag_owner (msg w m) of None \<Rightarrow> w
              | Some f \<Rightarrow> upd_msg f (\<lambda>x. x\<lparr>m_nfrag_done := m_nfrag_done x + 1\<rparr>) w);
     (d, w) \<leftarrow> req_done X cc (q_first (c_omsg_q (conn w cc))) w;
     if d then do { (st, w) \<leftarrow> event_add_out cc w; Some w } else Some w }"

primrec server_close_imsgs :: "nat list \<Rightarrow> ext \<Rightarrow> nat \<Rightarrow> world \<Rightarrow> world option" where
  "server_close_imsgs [] X c w = Some w"
| "server_close_imsgs (m # ms) X c w = do {
     w \<leftarrow> call_dequeue_inq c m w;
     w \<leftarrow> (if m_swallow (msg w m) \<or> m_noreply (msg w m) then req_put m w else close_with_error X c m w);
     server_close_imsgs ms X c w }"

primrec server_close_omsgs :: "nat list \<Rightarrow> ext \<Rightarrow> nat \<Rightarrow> world \<Rightarrow> world option" where
  "server_close_omsgs [] X c w = Some w"
| "server_close_omsgs (m # ms) X c w = do {
     w \<leftarrow> call_dequeue_outq c m w;
     w \<leftarrow> (if m_swallow (msg w m) then req_put m w else close_with_error X c m w);
     server_close_omsgs ms X c w }"

text \<open>An open connection, \<open>sd > 0\<close>, takes the early return.\<close>

definition server_close :: "ext \<Rightarrow> nat \<Rightarrow> world \<Rightarrow> world option" where
  "server_close X c w = do {
     ASSERT (is_server_conn (conn w c)) w;
     (p, s) \<leftarrow> conn_server c w;
     w \<leftarrow> server_close_stats p s (c_err (conn w c)) (c_eof (conn w c)) (c_connected (conn w c)) w;
     let w = upd_conn c (\<lambda>x. x\<lparr>c_connected := False\<rparr>) w;
     if 0 < c_sd (conn w c) then do {
       w \<leftarrow> server_failure p s w;
       w \<leftarrow> call_unref c w;
       conn_put c w }
     else do {
       w \<leftarrow> server_close_imsgs (c_imsg_q (conn w c)) X c w;
       ASSERT (c_imsg_q (conn w c) = []) w;
       w \<leftarrow> server_close_omsgs (c_omsg_q (conn w c)) X c w;
       ASSERT (c_omsg_q (conn w c) = []) w;
       w \<leftarrow> (case c_rmsg (conn w c) of None \<Rightarrow> Some w
            | Some m \<Rightarrow> do {
                let w = upd_conn c (\<lambda>x. x\<lparr>c_rmsg := None\<rparr>) w;
                ASSERT (\<not> m_request (msg w m)) w;
                ASSERT (m_peer (msg w m) = None) w;
                rsp_put m w });
       ASSERT (c_smsg (conn w c) = None) w;
       (p, s) \<leftarrow> conn_server c w;
       w \<leftarrow> server_failure p s w;
       w \<leftarrow> call_unref c w;
       let (status, w) = sys_close (c_sd (conn w c)) w;
       let w = upd_conn c (\<lambda>x. x\<lparr>c_sd := - 1\<rparr>) w;
       conn_put c w } }"

definition call_close :: "ext \<Rightarrow> nat \<Rightarrow> world \<Rightarrow> world option" where
  "call_close X c w = (case c_close (conn w c) of
     Some H_client_close \<Rightarrow> client_close c w
   | Some H_server_close \<Rightarrow> server_close X c w
   | Some H_proxy_close \<Rightarrow> proxy_close c w
   | _ \<Rightarrow> None)"

end
