(* ===== verification/Server.thy ===== *)
theory Server
  imports Closing
begin

section \<open>Server connections (\<open>gf_server.c\<close>)\<close>

text \<open>
  Picking or opening a connection to the server a key maps to, the transitions of a
  connection from opened to connected, the failure count and its reset, and the walks over
  all servers of all pools.
\<close>

subsection \<open>Opening\<close>

definition server_conn :: "nat \<Rightarrow> nat \<Rightarrow> world \<Rightarrow> (nat option \<times> world) option" where
  "server_conn p s w =
     (if s_ns_conn_q (server w p s) < p_server_connections (pool w p)
      then conn_get (OServer p s) False (p_redis (pool w p)) w
      else do {
        ASSERT (s_ns_conn_q (server w p s) = p_server_connections (pool w p)) w;
        case s_conn_q (server w p s) of [] \<Rightarrow> None
        | c # q \<Rightarrow> do {
            ASSERT (is_server_conn (conn w c)) w;
            let w = upd_server p s (\<lambda>sv. sv\<lparr>s_conn_q := q\<rparr>) w;
            let w = upd_server p s (\<lambda>sv. sv\<lparr>s_conn_q := s_conn_q sv @ [c]\<rparr>) w;
            Some (Some c, w) } })"

text \<open>The bytes \<open>addr\<close> points to.\<close>

definition conn_addr :: "nat \<Rightarrow> world \<Rightarrow> u8 list" where
  "conn_addr c w = (case c_addr (conn w c) of
     None \<Rightarrow> []
   | Some (OPool p) \<Rightarrow> si_addr (p_info (pool w p))
   | Some (OServer p s) \<Rightarrow> si_addr (s_info (server w p s)))"

text \<open>The \<open>error\<close> label: \<open>errno\<close> is kept in the connection.\<close>

definition connect_error :: "nat \<Rightarrow> int \<Rightarrow> world \<Rightarrow> (int \<times> world) option" where
  "connect_error c status w = Some (status, upd_conn c (\<lambda>x. x\<lparr>c_err := w_errno w\<rparr>) w)"

definition server_connect :: "nat \<Rightarrow> nat \<Rightarrow> nat \<Rightarrow> world \<Rightarrow> (int \<times> world) option" where
  "server_connect p s c w = do {
     ASSERT (is_server_conn (conn w c)) w;
     if c_err (conn w c) \<noteq> 0 then do {
       ASSERT (c_done (conn w c) \<and> c_sd (conn w c) < 0) w;
       Some (GF_ERROR, w\<lparr>w_errno := c_err (conn w c)\<rparr>) }
     else if 0 < c_sd (conn w c) then Some (GF_OK, w)
     else do {
       let (r, w) = sys (Sys_socket (c_family (conn w c))) w;
       let w = upd_conn c (\<lambda>x. x\<lparr>c_sd := r_ret r\<rparr>) w;
       if c_sd (conn w c) < 0 then connect_error c GF_ERROR w
       else do {
         let (status, w) = gf_set_nonblocking (c_sd (conn w c)) w;
         if status \<noteq> GF_OK then connect_error c status w
         else do {
           let pname = s_pname (server w p s);
           let w = (if pname = [] \<or> hd pname \<noteq> 47 then snd (gf_set_tcpnodelay (c_sd (conn w c)) w) else w);
           (status, w) \<leftarrow> event_add_conn c w;
           if status \<noteq> GF_OK then connect_error c status w
           else do {
             ASSERT (\<not> c_connecting (conn w c) \<and> \<not> c_connected (conn w c)) w;
             let (r, w) = sys (Sys_connect (c_sd (conn w c)) (conn_addr c w) (c_addrlen (conn w c))) w;
             let status = r_ret r;
             if status \<noteq> GF_OK then
               (if w_errno w = EINPROGRESS then Some (GF_OK, upd_conn c (\<lambda>x. x\<lparr>c_connecting := True\<rparr>) w)
                else connect_error c status w)
             else do {
               ASSERT (\<not> c_connecting (conn w c)) w;
               Some (GF_OK, upd_conn c (\<lambda>x. x\<lparr>c_connected := True\<rparr>) w) } } } } } }"

definition call_post_connect :: "ext \<Rightarrow> nat \<Rightarrow> world \<Rightarrow> world option" where
  "call_post_connect X c w = (case c_post_connect (conn w c) of
     Some (H_protocol k) \<Rightarrow> x_post_connect X k c w | _ \<Rightarrow> None)"

definition server_connected :: "ext \<Rightarrow> nat \<Rightarrow> world \<Rightarrow> world option" where
  "server_connected X c w = do {
     ASSERT (is_server_conn (conn w c)) w;
     ASSERT (c_connecting (conn w c) \<and> \<not> c_connected (conn w c)) w;
     (p, s) \<leftarrow> conn_server c w;
     w \<leftarrow> stats_server_incr p s S_server_connections w;
     let w = upd_conn c (\<lambda>x. x\<lparr>c_connecting := False, c_connected := True\<rparr>) w;
     call_post_connect X c w }"

definition server_ok :: "nat \<Rightarrow> world \<Rightarrow> world option" where
  "server_ok c w = do {
     ASSERT (is_server_conn (conn w c)) w;
     ASSERT (c_connected (conn w c)) w;
     (p, s) \<leftarrow> conn_server c w;
     if s_failure_count (server w p s) \<noteq> 0
     then Some (upd_server p s (\<lambda>sv. sv\<lparr>s_failure_count := 0, s_next_retry := 0\<rparr>) w)
     else Some w }"

subsection \<open>Picking\<close>

definition server_pool_update :: "nat \<Rightarrow> world \<Rightarrow> (int \<times> world) option" where
  "server_pool_update p w =
     (if \<not> p_auto_eject_hosts (pool w p) then Some (GF_OK, w)
      else if p_next_rebuild (pool w p) = 0 then Some (GF_OK, w)
      else do {
        let (now, w) = gf_usec_now w;
        if now < 0 then Some (GF_ERROR, w)
        else if now \<le> p_next_rebuild (pool w p) then
          (if p_nlive_server (pool w p) = 0 then Some (GF_ERROR, w\<lparr>w_errno := ECONNREFUSED\<rparr>) else Some (GF_OK, w))
        else do {
          (status, w) \<leftarrow> server_pool_run p w;
          if status \<noteq> GF_OK then Some (status, w) else Some (GF_OK, w) } })"

definition server_pool_server :: "nat \<Rightarrow> ptr \<Rightarrow> nat \<Rightarrow> world \<Rightarrow> (nat \<times> world) option" where
  "server_pool_server p key keylen w = do {
     (idx, w) \<leftarrow> server_pool_idx (pool w p) (ptr_mem key w) (ptr_off key) keylen w;
     Some (unat idx, w) }"

definition server_pool_conn :: "ext \<Rightarrow> nat \<Rightarrow> ptr \<Rightarrow> nat \<Rightarrow> world \<Rightarrow> (nat option \<times> world) option" where
  "server_pool_conn X p key keylen w = do {
     (status, w) \<leftarrow> server_pool_update p w;
     if status \<noteq> GF_OK then Some (None, w)
     else do {
       (s, w) \<leftarrow> server_pool_server p key keylen w;
       (r, w) \<leftarrow> server_conn p s w;
       case r of None \<Rightarrow> Some (None, w)
       | Some c \<Rightarrow> do {
           (status, w) \<leftarrow> server_connect p s c w;
           if status \<noteq> GF_OK then do { w \<leftarrow> server_close X c w; Some (None, w) }
           else Some (Some c, w) } } }"

subsection \<open>All servers\<close>

text \<open>\<open>array_each\<close>: the elements in order until one fails.\<close>

primrec array_each :: "nat list \<Rightarrow> (nat \<Rightarrow> world \<Rightarrow> (int \<times> world) option) \<Rightarrow> world \<Rightarrow> (int \<times> world) option" where
  "array_each [] f w = Some (GF_OK, w)"
| "array_each (x # xs) f w = do {
     (status, w) \<leftarrow> f x w;
     if status \<noteq> GF_OK then Some (status, w) else array_each xs f w }"

definition pool_each :: "(nat \<Rightarrow> world \<Rightarrow> (int \<times> world) option) \<Rightarrow> world \<Rightarrow> (int \<times> world) option" where
  "pool_each f w = do { ASSERT (w_npool w \<noteq> 0) w; array_each [0..<w_npool w] f w }"

definition server_each :: "nat \<Rightarrow> (nat \<Rightarrow> world \<Rightarrow> (int \<times> world) option) \<Rightarrow> world \<Rightarrow> (int \<times> world) option" where
  "server_each p f w = do {
     ASSERT (p_server (pool w p) \<noteq> []) w;
     array_each [0..<length (p_server (pool w p))] f w }"

definition server_each_preconnect :: "ext \<Rightarrow> nat \<Rightarrow> nat \<Rightarrow> world \<Rightarrow> (int \<times> world) option" where
  "server_each_preconnect X p s w = do {
     (r, w) \<leftarrow> server_conn p s w;
     case r of None \<Rightarrow> Some (GF_ENOMEM, w)
     | Some c \<Rightarrow> do {
         (status, w) \<leftarrow> server_connect p s c w;
         w \<leftarrow> (if status \<noteq> GF_OK then server_close X c w else Some w);
         Some (GF_OK, w) } }"

text \<open>The loop takes the first connection until the queue is empty; the fuel bounds it.\<close>

primrec server_each_disconnect :: "nat \<Rightarrow> ext \<Rightarrow> nat \<Rightarrow> nat \<Rightarrow> world \<Rightarrow> (int \<times> world) option" where
  "server_each_disconnect 0 X p s w = (if s_conn_q (server w p s) = [] then Some (GF_OK, w) else None)"
| "server_each_disconnect (Suc k) X p s w = (case s_conn_q (server w p s) of [] \<Rightarrow> Some (GF_OK, w)
     | c # q \<Rightarrow> do {
         ASSERT (0 < s_ns_conn_q (server w p s)) w;
         w \<leftarrow> call_close X c w;
         server_each_disconnect k X p s w })"

definition server_pool_each_preconnect :: "ext \<Rightarrow> nat \<Rightarrow> world \<Rightarrow> (int \<times> world) option" where
  "server_pool_each_preconnect X p w =
     (if \<not> p_preconnect (pool w p) then Some (GF_OK, w)
      else server_each p (server_each_preconnect X p) w)"

definition server_pool_preconnect :: "ext \<Rightarrow> world \<Rightarrow> (int \<times> world) option" where
  "server_pool_preconnect X w = pool_each (server_pool_each_preconnect X) w"

definition server_pool_each_disconnect :: "nat \<Rightarrow> ext \<Rightarrow> nat \<Rightarrow> world \<Rightarrow> (int \<times> world) option" where
  "server_pool_each_disconnect fuel X p w = server_each p (server_each_disconnect fuel X p) w"

definition server_pool_disconnect :: "nat \<Rightarrow> ext \<Rightarrow> world \<Rightarrow> world option" where
  "server_pool_disconnect fuel X w = do { (st, w) \<leftarrow> pool_each (server_pool_each_disconnect fuel X) w; Some w }"

definition server_pool_each_calc_connections :: "nat \<Rightarrow> world \<Rightarrow> (int \<times> world) option" where
  "server_pool_each_calc_connections p w =
     (let w = w\<lparr>w_max_nsconn := w_max_nsconn w + p_server_connections (pool w p) * word_of_nat (length (p_server (pool w p)))\<rparr>
      in Some (GF_OK, w\<lparr>w_max_nsconn := w_max_nsconn w + 1\<rparr>))"

definition server_pool_each_run :: "nat \<Rightarrow> world \<Rightarrow> (int \<times> world) option" where
  "server_pool_each_run p w = server_pool_run p w"

end
