(* ===== verification/Response.thy ===== *)
theory Response
  imports Server
begin

section \<open>Responses (\<open>gf_response.c\<close>)\<close>

text \<open>
  Receiving a response on a server connection, pairing it with the request at the head of
  the queue of the connection, and choosing the next response to send to a client.
\<close>

definition rsp_get :: "nat \<Rightarrow> world \<Rightarrow> (nat option \<times> world) option" where
  "rsp_get c w = do {
     ASSERT (is_server_conn (conn w c)) w;
     (r, w) \<leftarrow> msg_get c False (c_redis (conn w c)) w;
     case r of None \<Rightarrow> Some (None, upd_conn c (\<lambda>s. s\<lparr>c_err := w_errno w\<rparr>) w)
     | Some m \<Rightarrow> Some (Some m, w) }"

text \<open>
  The other fragments of a vector in error leave the queue of the client and are released;
  the first error number found among them is the one reported.  The walk goes on from the
  queue the removal leaves.
\<close>

primrec drop_error_frags :: "nat list \<Rightarrow> nat \<Rightarrow> int \<Rightarrow> world \<Rightarrow> (int \<times> world) option" where
  "drop_error_frags [] c err w = Some (err, w)"
| "drop_error_frags (m # ms) c err w = do {
     w \<leftarrow> call_dequeue_outq c m w;
     let err = (if err = 0 \<and> m_err (msg w m) \<noteq> 0 then m_err (msg w m) else err);
     w \<leftarrow> req_put m w;
     drop_error_frags ms c err w }"

definition assert_req_error :: "ext \<Rightarrow> nat \<Rightarrow> nat \<Rightarrow> world \<Rightarrow> world option" where
  "assert_req_error X c m w =
     (if w_panic w then do {
        ASSERT (m_request (msg w m)) w;
        (e, w) \<leftarrow> req_error X c m w;
        ASSERT e w;
        Some w }
      else Some w)"

definition rsp_make_error :: "ext \<Rightarrow> nat \<Rightarrow> nat \<Rightarrow> world \<Rightarrow> (nat option \<times> world) option" where
  "rsp_make_error X c m w = do {
     ASSERT (is_client_conn (conn w c)) w;
     w \<leftarrow> assert_req_error X c m w;
     ASSERT (m_owner (msg w m) = Some c) w;
     (err, w) \<leftarrow>
       (if m_frag_id (msg w m) \<noteq> 0 then
          (if m \<in> set (c_omsg_q (conn w c)) then drop_error_frags (frags_after (c_omsg_q (conn w c)) m w) c 0 w else None)
        else Some (m_err (msg w m), w));
     w \<leftarrow> drop_peer m w;
     msg_get_error X (c_redis (conn w c)) err w }"

definition rsp_recv_next :: "nat \<Rightarrow> bool \<Rightarrow> world \<Rightarrow> (nat option \<times> world) option" where
  "rsp_recv_next c alloc w = do {
     ASSERT (is_server_conn (conn w c)) w;
     if c_eof (conn w c) then do {
       w \<leftarrow> (case c_rmsg (conn w c) of None \<Rightarrow> Some w
            | Some m \<Rightarrow> do {
                let w = upd_conn c (\<lambda>s. s\<lparr>c_rmsg := None\<rparr>) w;
                ASSERT (m_peer (msg w m) = None) w;
                ASSERT (\<not> m_request (msg w m)) w;
                rsp_put m w });
       let w = upd_conn c (\<lambda>s. s\<lparr>c_done := True\<rparr>) w;
       a \<leftarrow> call_active c w;
       Some (None, w) }
     else (case c_rmsg (conn w c) of
       Some m \<Rightarrow> do { ASSERT (\<not> m_request (msg w m)) w; Some (Some m, w) }
     | None \<Rightarrow>
         if \<not> alloc then Some (None, w)
         else do {
           (r, w) \<leftarrow> rsp_get c w;
           Some (r, case r of None \<Rightarrow> w | Some m \<Rightarrow> upd_conn c (\<lambda>s. s\<lparr>c_rmsg := Some m\<rparr>) w) }) }"

definition call_failure :: "ext \<Rightarrow> nat option \<Rightarrow> nat \<Rightarrow> world \<Rightarrow> bool option" where
  "call_failure X f m w = map_option (\<lambda>k. x_failure X k m w) f"

definition call_swallow_msg :: "ext \<Rightarrow> nat \<Rightarrow> nat \<Rightarrow> nat \<Rightarrow> world \<Rightarrow> world option" where
  "call_swallow_msg X c pm m w = (case c_swallow_msg (conn w c) of
     Some (H_protocol k) \<Rightarrow> x_swallow_msg X k c pm m w | _ \<Rightarrow> None)"

abbreviation (input) close_as_invalid :: "nat \<Rightarrow> world \<Rightarrow> world" where
  "close_as_invalid c w \<equiv> upd_conn c (\<lambda>s. s\<lparr>c_err := EINVAL, c_done := True\<rparr>) w"

definition rsp_filter :: "ext \<Rightarrow> nat \<Rightarrow> nat \<Rightarrow> world \<Rightarrow> (bool \<times> world) option" where
  "rsp_filter X c m w = do {
     ASSERT (is_server_conn (conn w c)) w;
     if msg_empty m w then do {
       ASSERT (c_rmsg (conn w c) = None) w;
       w \<leftarrow> rsp_put m w;
       Some (True, w) }
     else (case q_first (c_omsg_q (conn w c)) of
       None \<Rightarrow> do {
         w \<leftarrow> rsp_put m w;
         Some (True, close_as_invalid c w) }
     | Some pm \<Rightarrow> do {
         ASSERT (m_peer (msg w pm) = None) w;
         ASSERT (m_request (msg w pm) \<and> \<not> m_done (msg w pm)) w;
         failed \<leftarrow> call_failure X (m_failure (msg w m)) m w;
         if failed then do {
           w \<leftarrow> rsp_put m w;
           Some (True, close_as_invalid c w) }
         else if m_swallow (msg w pm) then do {
           w \<leftarrow> call_swallow_msg X c pm m w;
           w \<leftarrow> call_dequeue_outq c pm w;
           let w = upd_msg pm (\<lambda>s. s\<lparr>m_done := True\<rparr>) w;
           w \<leftarrow> rsp_put m w;
           w \<leftarrow> req_put pm w;
           Some (True, w) }
         else Some (False, w) }) }"

definition rsp_forward_stats :: "nat \<Rightarrow> nat \<Rightarrow> nat \<Rightarrow> u32 \<Rightarrow> world \<Rightarrow> world option" where
  "rsp_forward_stats p s m msgsize w = do {
     ASSERT (\<not> m_request (msg w m)) w;
     w \<leftarrow> stats_server_incr p s S_responses w;
     stats_server_incr_by p s S_response_bytes (uint msgsize) w }"

definition call_pre_coalesce :: "ext \<Rightarrow> nat option \<Rightarrow> nat \<Rightarrow> world \<Rightarrow> world option" where
  "call_pre_coalesce X f m w = do { k \<leftarrow> f; x_pre_coalesce X k m w }"

text \<open>Waking the client when the request at the head of its queue is done.\<close>

definition wake_client :: "ext \<Rightarrow> nat \<Rightarrow> world \<Rightarrow> world option" where
  "wake_client X cc w = do {
     (d, w) \<leftarrow> req_done X cc (q_first (c_omsg_q (conn w cc))) w;
     if d then do {
       (status, w) \<leftarrow> event_add_out cc w;
       Some (if status \<noteq> GF_OK then upd_conn cc (\<lambda>s. s\<lparr>c_err := w_errno w\<rparr>) w else w) }
     else Some w }"

definition rsp_forward :: "ext \<Rightarrow> nat \<Rightarrow> nat \<Rightarrow> world \<Rightarrow> world option" where
  "rsp_forward X c m w = do {
     ASSERT (is_server_conn (conn w c)) w;
     let msgsize = m_mlen (msg w m);
     w \<leftarrow> server_ok c w;
     pm \<leftarrow> q_first (c_omsg_q (conn w c));
     ASSERT (m_peer (msg w pm) = None) w;
     ASSERT (m_request (msg w pm) \<and> \<not> m_done (msg w pm)) w;
     w \<leftarrow> call_dequeue_outq c pm w;
     let w = upd_msg pm (\<lambda>s. s\<lparr>m_done := True\<rparr>) w;
     let w = upd_msg pm (\<lambda>s. s\<lparr>m_peer := Some m\<rparr>) w;
     let w = upd_msg m (\<lambda>s. s\<lparr>m_peer := Some pm\<rparr>) w;
     w \<leftarrow> call_pre_coalesce X (m_pre_coalesce (msg w m)) m w;
     cc \<leftarrow> m_owner (msg w pm);
     ASSERT (is_client_conn (conn w cc)) w;
     w \<leftarrow> wake_client X cc w;
     (p, s) \<leftarrow> conn_server c w;
     rsp_forward_stats p s m msgsize w }"

definition rsp_recv_done :: "ext \<Rightarrow> nat \<Rightarrow> nat \<Rightarrow> nat option \<Rightarrow> world \<Rightarrow> world option" where
  "rsp_recv_done X c m nm w = do {
     ASSERT (is_server_conn (conn w c)) w;
     ASSERT (c_rmsg (conn w c) = Some m) w;
     ASSERT (\<not> m_request (msg w m)) w;
     ASSERT (m_owner (msg w m) = Some c) w;
     ASSERT (case nm of None \<Rightarrow> True | Some n \<Rightarrow> \<not> m_request (msg w n)) w;
     let w = upd_conn c (\<lambda>s. s\<lparr>c_rmsg := nm\<rparr>) w;
     (filtered, w) \<leftarrow> rsp_filter X c m w;
     if filtered then Some w else rsp_forward X c m w }"

text \<open>
  The first test calls \<open>req_done\<close> only when the queue is empty, and then on NULL.
\<close>

definition rsp_send_next :: "ext \<Rightarrow> nat \<Rightarrow> world \<Rightarrow> (nat option \<times> world) option" where
  "rsp_send_next X c w = do {
     ASSERT (is_client_conn (conn w c)) w;
     let pm = q_first (c_omsg_q (conn w c));
     (idle, w) \<leftarrow> (if pm = None then do { (d, w) \<leftarrow> req_done X c pm w; Some (\<not> d, w) } else Some (False, w));
     if idle then do {
       let w = (if pm = None \<and> c_eof (conn w c) then upd_conn c (\<lambda>s. s\<lparr>c_done := True\<rparr>) w else w);
       (status, w) \<leftarrow> event_del_out c w;
       let w = (if status \<noteq> GF_OK then upd_conn c (\<lambda>s. s\<lparr>c_err := w_errno w\<rparr>) w else w);
       Some (None, w) }
     else do {
       (pm, w) \<leftarrow> (case c_smsg (conn w c) of None \<Rightarrow> Some (pm, w)
           | Some m \<Rightarrow> do {
               ASSERT (\<not> m_request (msg w m) \<and> m_peer (msg w m) \<noteq> None) w;
               q \<leftarrow> m_peer (msg w m);
               w \<leftarrow> assert_req_done X c q w;
               n \<leftarrow> q_next q (c_omsg_q (conn w c));
               Some (n, w) });
       (ready, w) \<leftarrow> (if pm = None then Some (False, w) else req_done X c pm w);
       if \<not> ready then Some (None, upd_conn c (\<lambda>s. s\<lparr>c_smsg := None\<rparr>) w)
       else do {
         q \<leftarrow> pm;
         ASSERT (m_request (msg w q) \<and> \<not> m_swallow (msg w q)) w;
         (e, w) \<leftarrow> req_error X c q w;
         if e then do {
           (r, w) \<leftarrow> rsp_make_error X c q w;
           case r of None \<Rightarrow> Some (None, upd_conn c (\<lambda>s. s\<lparr>c_err := w_errno w\<rparr>) w)
           | Some m \<Rightarrow> do {
               let w = upd_msg m (\<lambda>s. s\<lparr>m_peer := Some q\<rparr>) w;
               let w = upd_msg q (\<lambda>s. s\<lparr>m_peer := Some m\<rparr>) w;
               p \<leftarrow> conn_pool c w;
               w \<leftarrow> stats_pool_incr p P_forward_error w;
               ASSERT (\<not> m_request (msg w m)) w;
               Some (Some m, upd_conn c (\<lambda>s. s\<lparr>c_smsg := Some m\<rparr>) w) } }
         else do {
           let r = m_peer (msg w q);
           ASSERT (case r of None \<Rightarrow> False | Some m \<Rightarrow> \<not> m_request (msg w m)) w;
           Some (r, upd_conn c (\<lambda>s. s\<lparr>c_smsg := r\<rparr>) w) } } } }"

definition rsp_send_done :: "nat \<Rightarrow> nat \<Rightarrow> world \<Rightarrow> world option" where
  "rsp_send_done c m w = do {
     ASSERT (is_client_conn (conn w c)) w;
     ASSERT (c_smsg (conn w c) = None) w;
     pm \<leftarrow> m_peer (msg w m);
     ASSERT (\<not> m_request (msg w m) \<and> m_request (msg w pm)) w;
     ASSERT (m_peer (msg w pm) = Some m) w;
     ASSERT (m_done (msg w pm) \<and> \<not> m_swallow (msg w pm)) w;
     w \<leftarrow> call_dequeue_outq c pm w;
     req_put pm w }"

end
