(* ===== verification/Request.thy ===== *)
theory Request
  imports Response
begin

section \<open>Requests (\<open>gf_request.c\<close>)\<close>

text \<open>
  Receiving a request on a client connection, filtering, fragmenting and forwarding it to
  the server its key maps to, and choosing the next request to send to a server.
\<close>

definition req_get :: "nat \<Rightarrow> world \<Rightarrow> (nat option \<times> world) option" where
  "req_get c w = do {
     ASSERT (is_client_conn (conn w c)) w;
     (r, w) \<leftarrow> msg_get c True (c_redis (conn w c)) w;
     case r of None \<Rightarrow> Some (None, upd_conn c (\<lambda>s. s\<lparr>c_err := w_errno w\<rparr>) w)
     | Some m \<Rightarrow> Some (Some m, w) }"

definition req_recv_next :: "nat \<Rightarrow> bool \<Rightarrow> world \<Rightarrow> (nat option \<times> world) option" where
  "req_recv_next c alloc w = do {
     ASSERT (c_client (conn w c) \<or> \<not> c_proxy (conn w c)) w;
     if c_eof (conn w c) then do {
       w \<leftarrow> (case c_rmsg (conn w c) of None \<Rightarrow> Some w
            | Some m \<Rightarrow> do {
                let w = upd_conn c (\<lambda>s. s\<lparr>c_rmsg := None\<rparr>) w;
                ASSERT (m_peer (msg w m) = None) w;
                ASSERT (m_request (msg w m) \<and> \<not> m_done (msg w m)) w;
                req_put m w });
       a \<leftarrow> call_active c w;
       Some (None, if \<not> a then upd_conn c (\<lambda>s. s\<lparr>c_done := True\<rparr>) w else w) }
     else (case c_rmsg (conn w c) of
       Some m \<Rightarrow> do { ASSERT (m_request (msg w m)) w; Some (Some m, w) }
     | None \<Rightarrow>
         if \<not> alloc then Some (None, w)
         else do {
           (r, w) \<leftarrow> req_get c w;
           Some (r, case r of None \<Rightarrow> w | Some m \<Rightarrow> upd_conn c (\<lambda>s. s\<lparr>c_rmsg := Some m\<rparr>) w) }) }"

definition req_make_reply :: "nat \<Rightarrow> nat \<Rightarrow> world \<Rightarrow> (int \<times> world) option" where
  "req_make_reply c m w = do {
     (r, w) \<leftarrow> msg_get c False (c_redis (conn w c)) w;
     case r of None \<Rightarrow> Some (GF_ENOMEM, upd_conn c (\<lambda>s. s\<lparr>c_err := w_errno w\<rparr>) w)
     | Some rsp \<Rightarrow> do {
         let w = upd_msg m (\<lambda>s. s\<lparr>m_peer := Some rsp\<rparr>) w;
         let w = upd_msg rsp (\<lambda>s. s\<lparr>m_peer := Some m, m_request := False\<rparr>) w;
         let w = upd_msg m (\<lambda>s. s\<lparr>m_done := True\<rparr>) w;
         w \<leftarrow> call_enqueue_outq c m w;
         Some (GF_OK, w) } }"

definition req_filter :: "nat \<Rightarrow> nat \<Rightarrow> world \<Rightarrow> (bool \<times> world) option" where
  "req_filter c m w = do {
     ASSERT (is_client_conn (conn w c)) w;
     if msg_empty m w then do {
       ASSERT (c_rmsg (conn w c) = None) w;
       w \<leftarrow> req_put m w;
       Some (True, w) }
     else if m_quit (msg w m) then do {
       let w = upd_conn c (\<lambda>s. s\<lparr>c_eof := True, c_recv_ready := False\<rparr>) w;
       w \<leftarrow> req_put m w;
       Some (True, w) }
     else do {
       auth \<leftarrow> conn_authenticated c w;
       Some (False, if \<not> auth then upd_msg m (\<lambda>s. s\<lparr>m_noforward := True\<rparr>) w else w) } }"

definition req_forward_error :: "ext \<Rightarrow> nat \<Rightarrow> nat \<Rightarrow> world \<Rightarrow> world option" where
  "req_forward_error X c m w = do {
     ASSERT (is_client_conn (conn w c)) w;
     let w = upd_msg m (\<lambda>s. s\<lparr>m_done := True, m_error := True, m_err := w_errno w\<rparr>) w;
     if m_noreply (msg w m) then req_put m w
     else wake_client X c w }"

definition req_forward_stats :: "nat \<Rightarrow> nat \<Rightarrow> nat \<Rightarrow> world \<Rightarrow> world option" where
  "req_forward_stats p s m w = do {
     ASSERT (m_request (msg w m)) w;
     w \<leftarrow> stats_server_incr p s S_requests w;
     stats_server_incr_by p s S_request_bytes (uint (m_mlen (msg w m))) w }"

definition call_add_auth :: "ext \<Rightarrow> nat option \<Rightarrow> nat \<Rightarrow> nat \<Rightarrow> world \<Rightarrow> (int \<times> world) option" where
  "call_add_auth X f c sc w = do { k \<leftarrow> f; x_add_auth X k c sc w }"

text \<open>The length of a key, \<open>(uint32_t)(end - start)\<close>; the two lie in the same object.\<close>

definition key_length :: "ptr \<times> ptr \<Rightarrow> nat" where
  "key_length k = unat (word_of_int (int (ptr_off (snd k)) - int (ptr_off (fst k))) :: u32)"

text \<open>\<open>array_get(msg->keys, 0)\<close>\<close>

definition q_first_key :: "(ptr \<times> ptr) list \<Rightarrow> (ptr \<times> ptr) option" where
  "q_first_key ks = (case ks of [] \<Rightarrow> None | k # _ \<Rightarrow> Some k)"

definition req_forward :: "ext \<Rightarrow> nat \<Rightarrow> nat \<Rightarrow> world \<Rightarrow> world option" where
  "req_forward X c m w = do {
     ASSERT (is_client_conn (conn w c)) w;
     w \<leftarrow> (if \<not> m_noreply (msg w m) then call_enqueue_outq c m w else Some w);
     ks \<leftarrow> m_keys (msg w m);
     ASSERT (0 < length ks) w;
     k \<leftarrow> q_first_key ks;
     p \<leftarrow> conn_pool c w;
     (r, w) \<leftarrow> server_pool_conn X p (fst k) (key_length k) w;
     case r of None \<Rightarrow> do {
         let w = (case m_frag_owner (msg w m) of None \<Rightarrow> w
                  | Some f \<Rightarrow> upd_msg f (\<lambda>s. s\<lparr>m_nfrag_done := m_nfrag_done s + 1\<rparr>) w);
         req_forward_error X c m w }
     | Some sc \<Rightarrow> do {
         ASSERT (is_server_conn (conn w sc)) w;
         (status, w) \<leftarrow> (if c_imsg_q (conn w sc) = [] then event_add_out sc w else Some (GF_OK, w));
         if status \<noteq> GF_OK then do {
           w \<leftarrow> req_forward_error X c m w;
           Some (upd_conn sc (\<lambda>s. s\<lparr>c_err := w_errno w\<rparr>) w) }
         else do {
           auth \<leftarrow> conn_authenticated sc w;
           (status, w) \<leftarrow> (if \<not> auth then call_add_auth X (m_add_auth (msg w m)) c sc w else Some (GF_OK, w));
           if status \<noteq> GF_OK then do {
             w \<leftarrow> req_forward_error X c m w;
             Some (upd_conn sc (\<lambda>s. s\<lparr>c_err := w_errno w\<rparr>) w) }
           else do {
             w \<leftarrow> call_enqueue_inq sc m w;
             (p, s) \<leftarrow> conn_server sc w;
             req_forward_stats p s m w } } } }"

definition call_reply :: "ext \<Rightarrow> nat option \<Rightarrow> nat \<Rightarrow> world \<Rightarrow> (int \<times> world) option" where
  "call_reply X f m w = do { k \<leftarrow> f; x_reply X k m w }"

definition call_fragment :: "ext \<Rightarrow> nat option \<Rightarrow> nat \<Rightarrow> u32 \<Rightarrow> world \<Rightarrow> (int \<times> nat list \<times> world) option" where
  "call_fragment X f m n w = do { k \<leftarrow> f; x_fragment X k m n w }"

primrec forward_frags :: "nat list \<Rightarrow> ext \<Rightarrow> nat \<Rightarrow> world \<Rightarrow> world option" where
  "forward_frags [] X c w = Some w"
| "forward_frags (m # ms) X c w = do {
     w \<leftarrow> req_forward X c m w;
     forward_frags ms X c w }"

text \<open>After a failed fragmentation or reply the handler goes on with the request.\<close>

definition enqueue_in_error :: "ext \<Rightarrow> nat \<Rightarrow> nat \<Rightarrow> world \<Rightarrow> world option" where
  "enqueue_in_error X c m w = do {
     w \<leftarrow> (if \<not> m_noreply (msg w m) then call_enqueue_outq c m w else Some w);
     req_forward_error X c m w }"

definition req_recv_done :: "ext \<Rightarrow> nat \<Rightarrow> nat \<Rightarrow> nat option \<Rightarrow> world \<Rightarrow> world option" where
  "req_recv_done X c m nm w = do {
     ASSERT (is_client_conn (conn w c)) w;
     ASSERT (m_request (msg w m)) w;
     ASSERT (m_owner (msg w m) = Some c) w;
     ASSERT (c_rmsg (conn w c) = Some m) w;
     ASSERT (case nm of None \<Rightarrow> True | Some n \<Rightarrow> m_request (msg w n)) w;
     let w = upd_conn c (\<lambda>s. s\<lparr>c_rmsg := nm\<rparr>) w;
     (filtered, w) \<leftarrow> req_filter c m w;
     if filtered then Some w
     else if m_noforward (msg w m) then do {
       (status, w) \<leftarrow> req_make_reply c m w;
       if status \<noteq> GF_OK then Some (upd_conn c (\<lambda>s. s\<lparr>c_err := w_errno w\<rparr>) w)
       else do {
         (status, w) \<leftarrow> call_reply X (m_reply (msg w m)) m w;
         if status \<noteq> GF_OK then Some (upd_conn c (\<lambda>s. s\<lparr>c_err := w_errno w\<rparr>) w)
         else do {
           (status, w) \<leftarrow> event_add_out c w;
           Some (if status \<noteq> GF_OK then upd_conn c (\<lambda>s. s\<lparr>c_err := w_errno w\<rparr>) w else w) } } }
     else do {
       p \<leftarrow> conn_pool c w;
       (status, frags, w) \<leftarrow> call_fragment X (m_fragment (msg w m)) m (word_of_nat (length (p_server (pool w p)))) w;
       w \<leftarrow> (if status \<noteq> GF_OK then enqueue_in_error X c m w else Some w);
       if frags = [] then req_forward X c m w
       else do {
         (status, w) \<leftarrow> req_make_reply c m w;
         w \<leftarrow> (if status \<noteq> GF_OK then enqueue_in_error X c m w else Some w);
         forward_frags frags X c w } } }"

definition req_send_next :: "ext \<Rightarrow> nat \<Rightarrow> world \<Rightarrow> (nat option \<times> world) option" where
  "req_send_next X c w = do {
     ASSERT (is_server_conn (conn w c)) w;
     w \<leftarrow> (if c_connecting (conn w c) then server_connected X c w else Some w);
     case q_first (c_imsg_q (conn w c)) of None \<Rightarrow> do {
         (status, w) \<leftarrow> event_del_out c w;
         Some (None, if status \<noteq> GF_OK then upd_conn c (\<lambda>s. s\<lparr>c_err := w_errno w\<rparr>) w else w) }
     | Some first \<Rightarrow> do {
         nm \<leftarrow> (case c_smsg (conn w c) of None \<Rightarrow> Some (Some first)
              | Some m \<Rightarrow> do {
                  ASSERT (m_request (msg w m) \<and> \<not> m_done (msg w m)) w;
                  q_next m (c_imsg_q (conn w c)) });
         let w = upd_conn c (\<lambda>s. s\<lparr>c_smsg := nm\<rparr>) w;
         case nm of None \<Rightarrow> Some (None, w)
         | Some n \<Rightarrow> do { ASSERT (m_request (msg w n) \<and> \<not> m_done (msg w n)) w; Some (Some n, w) } } }"

definition req_send_done :: "nat \<Rightarrow> nat \<Rightarrow> world \<Rightarrow> world option" where
  "req_send_done c m w = do {
     ASSERT (is_server_conn (conn w c)) w;
     ASSERT (c_smsg (conn w c) = None) w;
     ASSERT (m_request (msg w m) \<and> \<not> m_done (msg w m)) w;
     ASSERT (m_owner (msg w m) \<noteq> Some c) w;
     w \<leftarrow> call_dequeue_inq c m w;
     if \<not> m_noreply (msg w m) then call_enqueue_outq c m w else req_put m w }"

end
