(* ===== verification/Message_IO.thy ===== *)
theory Message_IO
  imports Request
begin

section \<open>Receiving and sending messages (\<open>gf_message.c\<close>)\<close>

text \<open>
  The chains of handlers of a read and of a write event: a read fills the last mbuf of the
  message being received and hands every complete message to \<open>recv_done\<close>; a write gathers
  the mbufs of as many messages as fit in one \<open>writev\<close> and finalises those sent completely.
  The fuel of a loop bounds its iterations.
\<close>

subsection \<open>Handlers\<close>

definition call_recv_next :: "nat \<Rightarrow> bool \<Rightarrow> world \<Rightarrow> (nat option \<times> world) option" where
  "call_recv_next c alloc w = (case c_recv_next (conn w c) of
     Some H_req_recv_next \<Rightarrow> req_recv_next c alloc w
   | Some H_rsp_recv_next \<Rightarrow> rsp_recv_next c alloc w
   | _ \<Rightarrow> None)"

definition call_recv_done :: "ext \<Rightarrow> nat \<Rightarrow> nat \<Rightarrow> nat option \<Rightarrow> world \<Rightarrow> world option" where
  "call_recv_done X c m nm w = (case c_recv_done (conn w c) of
     Some H_req_recv_done \<Rightarrow> req_recv_done X c m nm w
   | Some H_rsp_recv_done \<Rightarrow> rsp_recv_done X c m nm w
   | _ \<Rightarrow> None)"

definition call_send_next :: "ext \<Rightarrow> nat \<Rightarrow> world \<Rightarrow> (nat option \<times> world) option" where
  "call_send_next X c w = (case c_send_next (conn w c) of
     Some H_req_send_next \<Rightarrow> req_send_next X c w
   | Some H_rsp_send_next \<Rightarrow> rsp_send_next X c w
   | _ \<Rightarrow> None)"

definition call_send_done :: "nat \<Rightarrow> nat \<Rightarrow> world \<Rightarrow> world option" where
  "call_send_done c m w = (case c_send_done (conn w c) of
     Some H_req_send_done \<Rightarrow> req_send_done c m w
   | Some H_rsp_send_done \<Rightarrow> rsp_send_done c m w
   | _ \<Rightarrow> None)"

definition call_parser :: "ext \<Rightarrow> nat option \<Rightarrow> nat \<Rightarrow> world \<Rightarrow> world option" where
  "call_parser X f m w = do { k \<leftarrow> f; x_parser X k m w }"

subsection \<open>Receiving\<close>

definition msg_parsed :: "ext \<Rightarrow> nat \<Rightarrow> nat \<Rightarrow> world \<Rightarrow> (int \<times> world) option" where
  "msg_parsed X c m w = do {
     let h = m_mhdr (msg w m);
     if h = [] then None
     else if m_pos (msg w m) = Some (PBuf (last h) (b_last (mbuf w (last h)))) then do {
       w \<leftarrow> call_recv_done X c m None w;
       Some (GF_OK, w) }
     else do {
       (r, w) \<leftarrow> mbuf_split h (m_pos (msg w m)) None w;
       case r of None \<Rightarrow> Some (GF_ENOMEM, w)
       | Some nb \<Rightarrow> do {
           ow \<leftarrow> m_owner (msg w m);
           (r, w) \<leftarrow> msg_get ow (m_request (msg w m)) (c_redis (conn w c)) w;
           case r of None \<Rightarrow> do { w \<leftarrow> mbuf_put nb w; Some (GF_ENOMEM, w) }
           | Some nm \<Rightarrow> do {
               let w = mhdr_insert nm nb w;
               let w = upd_msg nm (\<lambda>s. s\<lparr>m_pos := Some (PBuf nb (b_pos (mbuf w nb)))\<rparr>) w;
               len \<leftarrow> mbuf_length nb w;
               let w = upd_msg nm (\<lambda>s. s\<lparr>m_mlen := len\<rparr>) w;
               let w = upd_msg m (\<lambda>s. s\<lparr>m_mlen := m_mlen s - m_mlen (msg w nm)\<rparr>) w;
               w \<leftarrow> call_recv_done X c m (Some nm) w;
               Some (GF_OK, w) } } } }"

definition msg_repair :: "nat \<Rightarrow> world \<Rightarrow> (int \<times> world) option" where
  "msg_repair m w = do {
     (r, w) \<leftarrow> mbuf_split (m_mhdr (msg w m)) (m_pos (msg w m)) None w;
     case r of None \<Rightarrow> Some (GF_ENOMEM, w)
     | Some nb \<Rightarrow> do {
         let w = mhdr_insert m nb w;
         Some (GF_OK, upd_msg m (\<lambda>s. s\<lparr>m_pos := Some (PBuf nb (b_pos (mbuf w nb)))\<rparr>) w) } }"

definition msg_parse :: "ext \<Rightarrow> nat \<Rightarrow> nat \<Rightarrow> world \<Rightarrow> (int \<times> world) option" where
  "msg_parse X c m w =
     (if msg_empty m w then do { w \<leftarrow> call_recv_done X c m None w; Some (GF_OK, w) }
      else do {
        w \<leftarrow> call_parser X (m_parser (msg w m)) m w;
        (status, w) \<leftarrow> (case m_result (msg w m) of
            MSG_PARSE_OK \<Rightarrow> msg_parsed X c m w
          | MSG_PARSE_REPAIR \<Rightarrow> msg_repair m w
          | MSG_PARSE_AGAIN \<Rightarrow> Some (GF_OK, w)
          | MSG_PARSE_ERROR \<Rightarrow> Some (GF_ERROR, upd_conn c (\<lambda>s. s\<lparr>c_err := w_errno w\<rparr>) w));
        Some (if c_err (conn w c) \<noteq> 0 then GF_ERROR else status, w) })"

text \<open>The mbuf the next read goes to.\<close>

definition recv_mbuf :: "nat \<Rightarrow> world \<Rightarrow> (nat option \<times> world) option" where
  "recv_mbuf m w =
     (let h = m_mhdr (msg w m) in
      if h = [] \<or> mbuf_full (mbuf w (last h)) then do {
        (r, w) \<leftarrow> mbuf_get w;
        case r of None \<Rightarrow> Some (None, w)
        | Some b \<Rightarrow> do {
            let w = mhdr_insert m b w;
            Some (Some b, upd_msg m (\<lambda>s. s\<lparr>m_pos := Some (PBuf b (b_pos (mbuf w b)))\<rparr>) w) } }
      else Some (Some (last h), w))"

primrec parse_loop :: "nat \<Rightarrow> ext \<Rightarrow> nat \<Rightarrow> nat \<Rightarrow> world \<Rightarrow> (int \<times> world) option" where
  "parse_loop 0 X c m w = None"
| "parse_loop (Suc k) X c m w = do {
     (status, w) \<leftarrow> msg_parse X c m w;
     if status \<noteq> GF_OK then Some (status, w)
     else do {
       (nm, w) \<leftarrow> call_recv_next c False w;
       case nm of None \<Rightarrow> Some (GF_OK, w)
       | Some n \<Rightarrow> if n = m then Some (GF_OK, w) else parse_loop k X c n w } }"

definition msg_recv_chain :: "nat \<Rightarrow> ext \<Rightarrow> nat \<Rightarrow> nat \<Rightarrow> world \<Rightarrow> (int \<times> world) option" where
  "msg_recv_chain fuel X c m w = do {
     (r, w) \<leftarrow> recv_mbuf m w;
     case r of None \<Rightarrow> Some (GF_ENOMEM, w)
     | Some b \<Rightarrow> do {
         ASSERT (b_last (mbuf w b) < b_end (mbuf w b)) w;
         msize \<leftarrow> mbuf_size b w;
         (n, bs, w) \<leftarrow> conn_recv fuel c (unat msize) w;
         if n < 0 then Some (if n = GF_EAGAIN then GF_OK else GF_ERROR, w)
         else if b_end (mbuf w b) < b_last (mbuf w b) + length bs then None
         else do {
           let w = upd_mbuf b (\<lambda>s. s\<lparr>b_mem := mem_store (b_last s) bs (b_mem s), b_last := b_last s + length bs\<rparr>) w;
           let w = upd_msg m (\<lambda>s. s\<lparr>m_mlen := m_mlen s + word_of_nat (length bs)\<rparr>) w;
           parse_loop fuel X c m w } } }"

primrec recv_loop :: "nat \<Rightarrow> nat \<Rightarrow> ext \<Rightarrow> nat \<Rightarrow> world \<Rightarrow> (int \<times> world) option" where
  "recv_loop 0 fuel X c w = None"
| "recv_loop (Suc k) fuel X c w = do {
     (r, w) \<leftarrow> call_recv_next c True w;
     case r of None \<Rightarrow> Some (GF_OK, w)
     | Some m \<Rightarrow> do {
         (status, w) \<leftarrow> msg_recv_chain fuel X c m w;
         if status \<noteq> GF_OK then Some (status, w)
         else if c_recv_ready (conn w c) then recv_loop k fuel X c w
         else Some (GF_OK, w) } }"

definition msg_recv :: "nat \<Rightarrow> ext \<Rightarrow> nat \<Rightarrow> world \<Rightarrow> (int \<times> world) option" where
  "msg_recv fuel X c w = do {
     ASSERT (c_recv_active (conn w c)) w;
     let w = upd_conn c (\<lambda>s. s\<lparr>c_recv_ready := True\<rparr>) w;
     recv_loop fuel fuel X c w }"

subsection \<open>Sending\<close>

abbreviation (input) GF_IOV_MAX :: nat where "GF_IOV_MAX \<equiv> 128"
abbreviation (input) SSIZE_MAX :: nat where "SSIZE_MAX \<equiv> 9223372036854775807"

text \<open>A buffer of the vector: mbuf, offset and length.\<close>

type_synonym iov = "nat \<times> nat \<times> nat"

primrec gather_mbufs :: "nat list \<Rightarrow> iov list \<Rightarrow> nat \<Rightarrow> world \<Rightarrow> (iov list \<times> nat) option" where
  "gather_mbufs [] sendv nsend w = Some (sendv, nsend)"
| "gather_mbufs (b # bs) sendv nsend w =
     (if length sendv < GF_IOV_MAX \<and> nsend < SSIZE_MAX then
        (if mbuf_empty (mbuf w b) then gather_mbufs bs sendv nsend w
         else do {
           len \<leftarrow> mbuf_length b w;
           let mlen = unat len;
           let mlen = (if SSIZE_MAX < nsend + mlen then SSIZE_MAX - nsend else mlen);
           gather_mbufs bs (sendv @ [(b, b_pos (mbuf w b), mlen)]) (nsend + mlen) w })
      else Some (sendv, nsend))"

text \<open>Preprocessing: the messages to send and the vector of their mbufs.\<close>

primrec build_sendv :: "nat \<Rightarrow> ext \<Rightarrow> nat \<Rightarrow> nat \<Rightarrow> nat list \<Rightarrow> iov list \<Rightarrow> nat \<Rightarrow> world \<Rightarrow> (nat list \<times> iov list \<times> nat \<times> world) option" where
  "build_sendv 0 X c m q sendv nsend w = None"
| "build_sendv (Suc k) X c m q sendv nsend w = do {
     ASSERT (c_smsg (conn w c) = Some m) w;
     let q = q @ [m];
     (sendv, nsend) \<leftarrow> gather_mbufs (m_mhdr (msg w m)) sendv nsend w;
     if GF_IOV_MAX \<le> length sendv \<or> SSIZE_MAX \<le> nsend then Some (q, sendv, nsend, w)
     else do {
       (r, w) \<leftarrow> call_send_next X c w;
       case r of None \<Rightarrow> Some (q, sendv, nsend, w)
       | Some n \<Rightarrow> build_sendv k X c n q sendv nsend w } }"

definition iov_bytes :: "world \<Rightarrow> iov \<Rightarrow> u8 list" where
  "iov_bytes w v = (case v of (b, off, len) \<Rightarrow> map (b_mem (mbuf w b)) [off..<off + len])"

text \<open>
  Postprocessing: the sent bytes leave the mbufs of a message; the result tells whether
  every mbuf was passed, and the bytes left for the messages after it.
\<close>

primrec consume_mbufs :: "nat list \<Rightarrow> nat \<Rightarrow> world \<Rightarrow> (bool \<times> nat \<times> world) option" where
  "consume_mbufs [] nsent w = Some (True, nsent, w)"
| "consume_mbufs (b # bs) nsent w =
     (if mbuf_empty (mbuf w b) then consume_mbufs bs nsent w
      else do {
        len \<leftarrow> mbuf_length b w;
        let mlen = unat len;
        if nsent < mlen then do {
          let w = upd_mbuf b (\<lambda>s. s\<lparr>b_pos := b_pos s + nsent\<rparr>) w;
          ASSERT (b_pos (mbuf w b) < b_last (mbuf w b)) w;
          Some (False, 0, w) }
        else consume_mbufs bs (nsent - mlen) (upd_mbuf b (\<lambda>s. s\<lparr>b_pos := b_last s\<rparr>) w) })"

primrec post_send :: "nat list \<Rightarrow> nat \<Rightarrow> nat \<Rightarrow> world \<Rightarrow> world option" where
  "post_send [] c nsent w = Some w"
| "post_send (m # q) c nsent w =
     (if nsent = 0 then do {
        w \<leftarrow> (if m_mlen (msg w m) = 0 then call_send_done c m w else Some w);
        post_send q c nsent w }
      else do {
        (complete, nsent, w) \<leftarrow> consume_mbufs (m_mhdr (msg w m)) nsent w;
        w \<leftarrow> (if complete then call_send_done c m w else Some w);
        post_send q c nsent w })"

definition msg_send_chain :: "nat \<Rightarrow> ext \<Rightarrow> nat \<Rightarrow> nat \<Rightarrow> world \<Rightarrow> (int \<times> world) option" where
  "msg_send_chain fuel X c m w = do {
     (q, sendv, nsend, w) \<leftarrow> build_sendv fuel X c m [] [] 0 w;
     let w = upd_conn c (\<lambda>s. s\<lparr>c_smsg := None\<rparr>) w;
     (n, w) \<leftarrow> (if q \<noteq> [] \<and> nsend \<noteq> 0 then conn_sendv fuel c (map (iov_bytes w) sendv) nsend w else Some (0, w));
     let nsent = (if 0 < n then nat n else 0);
     w \<leftarrow> post_send q c nsent w;
     if 0 \<le> n then Some (GF_OK, w)
     else Some (if n = GF_EAGAIN then GF_OK else GF_ERROR, w) }"

primrec send_loop :: "nat \<Rightarrow> nat \<Rightarrow> ext \<Rightarrow> nat \<Rightarrow> world \<Rightarrow> (int \<times> world) option" where
  "send_loop 0 fuel X c w = None"
| "send_loop (Suc k) fuel X c w = do {
     (r, w) \<leftarrow> call_send_next X c w;
     case r of None \<Rightarrow> Some (GF_OK, w)
     | Some m \<Rightarrow> do {
         (status, w) \<leftarrow> msg_send_chain fuel X c m w;
         if status \<noteq> GF_OK then Some (status, w)
         else if c_send_ready (conn w c) then send_loop k fuel X c w
         else Some (GF_OK, w) } }"

definition msg_send :: "nat \<Rightarrow> ext \<Rightarrow> nat \<Rightarrow> world \<Rightarrow> (int \<times> world) option" where
  "msg_send fuel X c w = do {
     ASSERT (c_send_active (conn w c)) w;
     let w = upd_conn c (\<lambda>s. s\<lparr>c_send_ready := True\<rparr>) w;
     send_loop fuel fuel X c w }"

end
