(* ===== verification/Proxy.thy ===== *)
theory Proxy
  imports Message_IO
begin

section \<open>Listening (\<open>gf_proxy.c\<close>)\<close>

text \<open>Opening the listening socket of each pool and accepting clients on it.\<close>

text \<open>The path of a UNIX address, up to its NUL.\<close>

definition sun_path :: "u8 list \<Rightarrow> u8 list" where
  "sun_path addr = takeWhile (\<lambda>b. b \<noteq> 0) (drop 2 addr)"

definition proxy_reuse :: "nat \<Rightarrow> world \<Rightarrow> (int \<times> world) option" where
  "proxy_reuse c w =
     (if c_family (conn w c) = AF_INET \<or> c_family (conn w c) = AF_INET6 then Some (gf_set_reuseaddr (c_sd (conn w c)) w)
      else if c_family (conn w c) = AF_UNIX then
        Some (GF_OK, snd (sys (Sys_unlink (sun_path (conn_addr c w))) w))
      else do { ASSERT False w; Some (GF_ERROR, w) })"

text \<open>\<open>proxy_listen\<close>: each step that fails ends it with \<open>GF_ERROR\<close>.\<close>

definition proxy_listen :: "nat \<Rightarrow> world \<Rightarrow> (int \<times> world) option" where
  "proxy_listen c w = do {
     p \<leftarrow> conn_pool c w;
     ASSERT (c_proxy (conn w c)) w;
     let (r, w) = sys (Sys_socket (c_family (conn w c))) w;
     let w = upd_conn c (\<lambda>s. s\<lparr>c_sd := r_ret r\<rparr>) w;
     let sd = c_sd (conn w c);
     if sd < 0 then Some (GF_ERROR, w) else do {
     (status, w) \<leftarrow> proxy_reuse c w;
     if status < 0 then Some (GF_ERROR, w) else do {
     let (status, w) = (if p_reuseport (pool w p) then gf_set_reuseport sd w else (0, w));
     if status < 0 then Some (GF_ERROR, w) else do {
     let (r, w) = sys (Sys_bind sd (conn_addr c w) (c_addrlen (conn w c))) w;
     if r_ret r < 0 then Some (GF_ERROR, w) else do {
     let (status, w) = (if c_family (conn w c) = AF_UNIX \<and> p_perm (pool w p) \<noteq> 0
       then (let (r, w) = sys (Sys_chmod (sun_path (conn_addr c w)) (p_perm (pool w p))) w in (r_ret r, w)) else (0, w));
     if status < 0 then Some (GF_ERROR, w) else do {
     let (r, w) = sys (Sys_listen sd (p_backlog (pool w p))) w;
     if r_ret r < 0 then Some (GF_ERROR, w) else do {
     let (status, w) = gf_set_nonblocking sd w;
     if status < 0 then Some (GF_ERROR, w) else do {
     (status, w) \<leftarrow> event_add_conn c w;
     if status < 0 then Some (GF_ERROR, w) else do {
     (status, w) \<leftarrow> event_del_out c w;
     if status < 0 then Some (GF_ERROR, w) else Some (GF_OK, w) } } } } } } } } }"

definition proxy_each_init :: "ext \<Rightarrow> nat \<Rightarrow> world \<Rightarrow> (int \<times> world) option" where
  "proxy_each_init X p w = do {
     (r, w) \<leftarrow> conn_get_proxy p w;
     case r of None \<Rightarrow> Some (GF_ENOMEM, w)
     | Some c \<Rightarrow> do {
         (status, w) \<leftarrow> proxy_listen c w;
         if status \<noteq> GF_OK then do { w \<leftarrow> call_close X c w; Some (status, w) }
         else Some (GF_OK, w) } }"

definition proxy_each_deinit :: "ext \<Rightarrow> nat \<Rightarrow> world \<Rightarrow> (int \<times> world) option" where
  "proxy_each_deinit X p w = (case p_p_conn (pool w p) of None \<Rightarrow> Some (GF_OK, w)
     | Some c \<Rightarrow> do { w \<leftarrow> call_close X c w; Some (GF_OK, w) })"

definition proxy_deinit :: "ext \<Rightarrow> world \<Rightarrow> world option" where
  "proxy_deinit X w = do {
     ASSERT (w_npool w \<noteq> 0) w;
     (status, w) \<leftarrow> pool_each (proxy_each_deinit X) w;
     Some w }"

definition proxy_init :: "ext \<Rightarrow> world \<Rightarrow> (int \<times> world) option" where
  "proxy_init X w = do {
     ASSERT (w_npool w \<noteq> 0) w;
     (status, w) \<leftarrow> pool_each (proxy_each_init X) w;
     if status \<noteq> GF_OK then do { w \<leftarrow> proxy_deinit X w; Some (status, w) }
     else Some (GF_OK, w) }"

subsection \<open>Accepting\<close>

text \<open>The retry of \<open>accept\<close>: the descriptor, or the status \<open>proxy_accept\<close> returns at once.\<close>

primrec accept_loop :: "nat \<Rightarrow> nat \<Rightarrow> world \<Rightarrow> ((int + int) \<times> world) option" where
  "accept_loop 0 c w = None"
| "accept_loop (Suc k) c w =
     (let (r, w) = sys (Sys_accept (c_sd (conn w c))) w; sd = r_ret r
      in if sd < 0 then
           (if w_errno w = EINTR then accept_loop k c w
            else if w_errno w = EAGAIN \<or> w_errno w = EWOULDBLOCK \<or> w_errno w = ECONNABORTED
              then Some (Inl GF_OK, upd_conn c (\<lambda>s. s\<lparr>c_recv_ready := False\<rparr>) w)
            else if w_errno w = EMFILE \<or> w_errno w = ENFILE
              then Some (Inl GF_OK, upd_conn c (\<lambda>s. s\<lparr>c_recv_ready := False\<rparr>) w)
            else Some (Inl GF_ERROR, w))
         else Some (Inr sd, w))"

definition proxy_accept :: "nat \<Rightarrow> ext \<Rightarrow> nat \<Rightarrow> world \<Rightarrow> (int \<times> world) option" where
  "proxy_accept fuel X c w = do {
     p \<leftarrow> conn_pool c w;
     ASSERT (c_proxy (conn w c) \<and> \<not> c_client (conn w c)) w;
     ASSERT (0 < c_sd (conn w c)) w;
     ASSERT (c_recv_active (conn w c) \<and> c_recv_ready (conn w c)) w;
     (r, w) \<leftarrow> accept_loop fuel c w;
     case r of Inl status \<Rightarrow> Some (status, w)
     | Inr sd \<Rightarrow>
         if w_max_ncconn w \<le> conn_ncurr_cconn w then Some (GF_OK, snd (sys_close sd w))
         else do {
           (r, w) \<leftarrow> conn_get (OPool p) True (c_redis (conn w c)) w;
           case r of None \<Rightarrow> Some (GF_ENOMEM, snd (sys_close sd w))
           | Some cc \<Rightarrow> do {
               let w = upd_conn cc (\<lambda>s. s\<lparr>c_sd := sd\<rparr>) w;
               cp \<leftarrow> conn_pool cc w;
               w \<leftarrow> stats_pool_incr cp P_client_connections w;
               let (status, w) = gf_set_nonblocking (c_sd (conn w cc)) w;
               if status < 0 then do { w \<leftarrow> call_close X cc w; Some (status, w) }
               else do {
                 let w = (if p_tcpkeepalive (pool w p) then snd (gf_set_tcpkeepalive (c_sd (conn w cc)) w) else w);
                 let w = (if c_family (conn w c) = AF_INET \<or> c_family (conn w c) = AF_INET6
                          then snd (gf_set_tcpnodelay (c_sd (conn w cc)) w) else w);
                 (status, w) \<leftarrow> event_add_conn cc w;
                 if status < 0 then do { w \<leftarrow> call_close X cc w; Some (status, w) }
                 else Some (GF_OK, w) } } } }"

primrec proxy_recv_loop :: "nat \<Rightarrow> nat \<Rightarrow> ext \<Rightarrow> nat \<Rightarrow> world \<Rightarrow> (int \<times> world) option" where
  "proxy_recv_loop 0 fuel X c w = None"
| "proxy_recv_loop (Suc k) fuel X c w = do {
     (status, w) \<leftarrow> proxy_accept fuel X c w;
     if status \<noteq> GF_OK then Some (status, w)
     else if c_recv_ready (conn w c) then proxy_recv_loop k fuel X c w
     else Some (GF_OK, w) }"

definition proxy_recv :: "nat \<Rightarrow> ext \<Rightarrow> nat \<Rightarrow> world \<Rightarrow> (int \<times> world) option" where
  "proxy_recv fuel X c w = do {
     ASSERT (c_proxy (conn w c) \<and> \<not> c_client (conn w c)) w;
     ASSERT (c_recv_active (conn w c)) w;
     let w = upd_conn c (\<lambda>s. s\<lparr>c_recv_ready := True\<rparr>) w;
     proxy_recv_loop fuel fuel X c w }"

end
