(* ===== verification/Core.thy ===== *)
theory Core
  imports Proxy
begin

section \<open>The event loop (\<open>gf_core.c\<close>)\<close>

text \<open>
  Dispatch of the events of a connection, closing of connections that are done or in error,
  and the expiry of requests.  The texts \<open>core_close\<close> builds for its log line are not
  modelled.
\<close>

abbreviation (input) RESERVED_FDS :: u32 where "RESERVED_FDS \<equiv> 32"

definition core_calc_connections :: "world \<Rightarrow> int \<times> world" where
  "core_calc_connections w =
     (let (r, w) = sys Sys_getrlimit w
      in if r_ret r < 0 then (GF_ERROR, w)
         else (let w = w\<lparr>w_max_nfd := word_of_int (r_val r)\<rparr>
               in (GF_OK, w\<lparr>w_max_ncconn := w_max_nfd w - w_max_nsconn w - RESERVED_FDS\<rparr>)))"

definition core_recv :: "nat \<Rightarrow> ext \<Rightarrow> nat \<Rightarrow> world \<Rightarrow> (int \<times> world) option" where
  "core_recv fuel X c w = (case c_recv (conn w c) of
     Some H_msg_recv \<Rightarrow> msg_recv fuel X c w
   | Some H_proxy_recv \<Rightarrow> proxy_recv fuel X c w
   | _ \<Rightarrow> None)"

definition core_send :: "nat \<Rightarrow> ext \<Rightarrow> nat \<Rightarrow> world \<Rightarrow> (int \<times> world) option" where
  "core_send fuel X c w = (case c_send (conn w c) of
     Some H_msg_send \<Rightarrow> msg_send fuel X c w
   | _ \<Rightarrow> None)"

definition core_close :: "ext \<Rightarrow> nat \<Rightarrow> world \<Rightarrow> world option" where
  "core_close X c w = do {
     ASSERT (0 < c_sd (conn w c)) w;
     (status, w) \<leftarrow> event_del_conn c w;
     call_close X c w }"

definition core_error :: "ext \<Rightarrow> nat \<Rightarrow> world \<Rightarrow> world option" where
  "core_error X c w =
     (let (status, w) = gf_get_soerror (c_sd (conn w c)) w;
          w = upd_conn c (\<lambda>s. s\<lparr>c_err := w_errno w\<rparr>) w
      in core_close X c w)"

text \<open>\<open>(int)(then - now)\<close> keeps the low 32 bits.\<close>

definition tmo_delta :: "int \<Rightarrow> int \<Rightarrow> int" where
  "tmo_delta expiry now = sint (word_of_int (expiry - now) :: 32 word)"

primrec core_timeout :: "nat \<Rightarrow> ext \<Rightarrow> world \<Rightarrow> world option" where
  "core_timeout 0 X w = None"
| "core_timeout (Suc k) X w = (case msg_tmo_min w of
     None \<Rightarrow> Some (w\<lparr>w_timeout := w_max_timeout w\<rparr>)
   | Some m \<Rightarrow>
       if m_error (msg w m) \<or> m_done (msg w m) then core_timeout k X (msg_tmo_delete m w)
       else do {
         c \<leftarrow> m_tmo_data (msg w m);
         let expiry = m_tmo_key (msg w m);
         let (now, w) = gf_msec_now w;
         if now < expiry then Some (w\<lparr>w_timeout := min (tmo_delta expiry now) (w_max_timeout w)\<rparr>)
         else do {
           let w = msg_tmo_delete m w;
           let w = upd_conn c (\<lambda>s. s\<lparr>c_err := ETIMEDOUT\<rparr>) w;
           w \<leftarrow> core_close X c w;
           core_timeout k X w } })"

text \<open>One phase of \<open>core_core\<close>: run the handler, close on failure, on \<open>done\<close> or on \<open>err\<close>.\<close>

definition core_phase ::
  "(nat \<Rightarrow> world \<Rightarrow> (int \<times> world) option) \<Rightarrow> ext \<Rightarrow> nat \<Rightarrow> world \<Rightarrow> (bool \<times> world) option" where
  "core_phase f X c w = do {
     (status, w) \<leftarrow> f c w;
     if status \<noteq> GF_OK \<or> c_done (conn w c) \<or> c_err (conn w c) \<noteq> 0
     then do { w \<leftarrow> core_close X c w; Some (False, w) }
     else Some (True, w) }"

definition core_core :: "nat \<Rightarrow> ext \<Rightarrow> nat \<Rightarrow> u32 \<Rightarrow> world \<Rightarrow> (int \<times> world) option" where
  "core_core fuel X c events w =
     (if c_owner (conn w c) = None then Some (GF_OK, w)
      else do {
        p \<leftarrow> conn_to_ctx c w;
        let w = upd_conn c (\<lambda>s. s\<lparr>c_events := events\<rparr>) w;
        if events AND EVENT_ERR \<noteq> 0 then do { w \<leftarrow> core_error X c w; Some (GF_ERROR, w) }
        else do {
          (go, w) \<leftarrow> (if events AND EVENT_READ \<noteq> 0 then core_phase (core_recv fuel X) X c w else Some (True, w));
          if \<not> go then Some (GF_ERROR, w)
          else do {
            (go, w) \<leftarrow> (if events AND EVENT_WRITE \<noteq> 0 then core_phase (core_send fuel X) X c w else Some (True, w));
            Some (if go then GF_OK else GF_ERROR, w) } } })"

definition core_loop :: "nat \<Rightarrow> ext \<Rightarrow> world \<Rightarrow> (int \<times> world) option" where
  "core_loop fuel X w = do {
     (nsd, w) \<leftarrow> event_wait fuel (core_core fuel X) (w_timeout w) w;
     if nsd < 0 then Some (nsd, w)
     else do {
       w \<leftarrow> core_timeout fuel X w;
       Some (GF_OK, w\<lparr>w_stats := stats_swap (w_stats w)\<rparr>) } }"

end
