(* ===== verification/Sending.thy ===== *)
theory Sending
  imports Core
begin

text \<open>
  Sending to a server: what \<open>msg_send_chain\<close> gathers from the queue of a connection, what the
  kernel accepts of it, and what is left in the queues and buffers (\<open>gf_message.c\<close>).
\<close>

subsection \<open>Gathering\<close>

definition span_ok :: "world \<Rightarrow> nat \<Rightarrow> bool" where
  "span_ok w b \<longleftrightarrow> b_pos (mbuf w b) \<le> b_last (mbuf w b) \<and> b_last (mbuf w b) < 2 ^ 32"





definition vec_bytes :: "world \<Rightarrow> iov list \<Rightarrow> u8 list" where
  "vec_bytes w sendv = concat (map (iov_bytes w) sendv)"



subsection \<open>Consuming what was sent\<close>

definition span_upd :: "nat \<Rightarrow> nat \<Rightarrow> world \<Rightarrow> world" where
  "span_upd b n w = upd_mbuf b (\<lambda>s. s\<lparr>b_pos := b_pos s + n\<rparr>) w"







subsection \<open>Choosing the requests to send\<close>

text \<open>A server connection with the handlers \<open>conn_get\<close> gives it, not waiting for its connect.\<close>

definition server_sender :: "nat \<Rightarrow> nat \<Rightarrow> nat \<Rightarrow> world \<Rightarrow> bool" where
  "server_sender c p s w \<longleftrightarrow> is_server_conn (conn w c) \<and> \<not> c_connecting (conn w c) \<and> c_owner (conn w c) = Some (OServer p s)
     \<and> c_send_next (conn w c) = Some H_req_send_next \<and> c_send_done (conn w c) = Some H_req_send_done
     \<and> c_dequeue_inq (conn w c) = Some H_req_server_dequeue_imsgq \<and> c_enqueue_outq (conn w c) = Some H_req_server_enqueue_omsgq"

text \<open>A request that waits to be sent and expects a response.\<close>

definition sendable :: "nat \<Rightarrow> world \<Rightarrow> nat \<Rightarrow> bool" where
  "sendable c w m \<longleftrightarrow> m_request (msg w m) \<and> \<not> m_done (msg w m) \<and> \<not> m_noreply (msg w m) \<and> m_owner (msg w m) \<noteq> Some c
     \<and> m_mlen (msg w m) \<noteq> 0"




lemma server_sender_smsg [simp]: "server_sender c p s (upd_conn c (\<lambda>x. x\<lparr>c_smsg := v\<rparr>) w) = server_sender c p s w"
  by (simp add: server_sender_def is_server_conn_def)

lemma msg_bytes_conn [simp]: "msg_bytes (upd_conn c f w) = msg_bytes w"
  by (rule ext) (simp add: msg_bytes_def)

lemma sendable_conn [simp]: "sendable c (upd_conn d f w) m = sendable c w m"
  by (simp add: sendable_def)

lemma vec_bytes_conn [simp]: "vec_bytes (upd_conn c f w) = vec_bytes w"
  by (rule ext) (simp add: vec_bytes_def iov_bytes_def cong: map_cong)

lemma span_ok_conn [simp]: "span_ok (upd_conn c f w) b = span_ok w b"
  by (simp add: span_ok_def)



subsection \<open>After the write\<close>












end
