(* ===== verification/Effects.thy ===== *)
theory Effects
  imports Dispatch
begin

section \<open>What a rebuild of the distribution leaves alone\<close>

text \<open>Rebuilding the distribution changes the pool, and the rest of the state only by its system calls.\<close>

definition only_pools :: "world \<Rightarrow> world \<Rightarrow> bool" where
  "only_pools w w' \<longleftrightarrow> (\<exists>ps k tr e. w' = w\<lparr>w_pools := ps, w_tick := k, w_trace := tr, w_errno := e\<rparr>)"

lemma only_pools_refl [simp]: "only_pools w w"
  unfolding only_pools_def by (rule exI [of _ "w_pools w"], rule exI [of _ "w_tick w"], rule exI [of _ "w_trace w"], rule exI [of _ "w_errno w"]) simp

lemma only_pools_trans: "only_pools u v \<Longrightarrow> only_pools v w \<Longrightarrow> only_pools u w"
  unfolding only_pools_def by (elim exE, hypsubst, simp) blast

lemma only_pools_step [simp]:
  "only_pools w (snd (sys op w))" "only_pools w (snd (gf_usec_now w))" "only_pools w (snd (gf_alloc w))"
  "only_pools w (upd_pool p f w)" "only_pools w (upd_server p s g w)"
proof -
  show sys: "only_pools w (snd (sys op w))" for op w
    unfolding only_pools_def sys_def Let_def snd_conv
    by (rule exI [of _ "w_pools w"], (rule exI)+, rule world.equality) simp_all
  show "only_pools w (snd (gf_usec_now w))" using sys by (simp add: gf_usec_now_def split_def Let_def)
  have e: "only_pools v (v\<lparr>w_errno := e\<rparr>)" for e v
    unfolding only_pools_def
    by (rule exI [of _ "w_pools v"], rule exI [of _ "w_tick v"], rule exI [of _ "w_trace v"], rule exI [of _ e]) simp
  show "only_pools w (snd (gf_alloc w))" by (auto simp: gf_alloc_def split_def Let_def sys intro: only_pools_trans [OF sys e])
  show up: "only_pools w (upd_pool p f w)" for p f
    unfolding only_pools_def upd_pool_def
    by (rule exI, rule exI [of _ "w_tick w"], rule exI [of _ "w_trace w"], rule exI [of _ "w_errno w"]) simp
  show "only_pools w (upd_server p s g w)" unfolding upd_server_def by (rule up)
qed

lemma only_pools_errno [simp]: "only_pools v (v\<lparr>w_errno := e\<rparr>)"
    unfolding only_pools_def
    by (rule exI [of _ "w_pools v"], rule exI [of _ "w_tick v"], rule exI [of _ "w_trace v"], rule exI [of _ e]) simp

lemma only_pools_fields:
  "only_pools w w' \<Longrightarrow> w_msgs w' = w_msgs w \<and> w_tmo w' = w_tmo w \<and> w_conns w' = w_conns w \<and> w_mbufs w' = w_mbufs w
     \<and> w_stats w' = w_stats w \<and> w_panic w' = w_panic w \<and> w_free_connq w' = w_free_connq w \<and> w_free_msgq w' = w_free_msgq w
     \<and> w_free_mbufq w' = w_free_mbufq w \<and> w_os w' = w_os w \<and> w_ep w' = w_ep w \<and> w_nconn w' = w_nconn w \<and> w_log_notice w' = w_log_notice w"
  by (auto simp: only_pools_def)

lemma grow_continuum_only: "only_pools w (snd (grow_continuum p u a b w))"
  unfolding grow_continuum_def realloc_continuum_def Let_def split_def
  by (auto intro: only_pools_trans [OF only_pools_step(3)])

lemma only_pools_pair:
  "sys op w = (r, w') \<Longrightarrow> only_pools w w'" "gf_usec_now w = (t, w') \<Longrightarrow> only_pools w w'"
  "grow_continuum p u a b w = (st, w') \<Longrightarrow> only_pools w w'"
  using only_pools_step(1) [of w op] only_pools_step(2) [of w] grow_continuum_only [of w p u a b] by auto

lemma only_pools_next:
  "only_pools u w \<Longrightarrow> only_pools u (upd_pool p f w)" "only_pools u w \<Longrightarrow> only_pools u (upd_server p s g w)"
  "only_pools u w \<Longrightarrow> only_pools u (snd (sys op w))" 
  by (blast intro: only_pools_trans only_pools_step)+

lemma only_pools_pair2:
  "sys op w = (r, w') \<Longrightarrow> only_pools u w \<Longrightarrow> only_pools u w'" "gf_usec_now w = (t, w') \<Longrightarrow> only_pools u w \<Longrightarrow> only_pools u w'"
  "grow_continuum p k a b w = (st, w') \<Longrightarrow> only_pools u w \<Longrightarrow> only_pools u w'"
  by (blast dest: only_pools_pair intro: only_pools_trans)+

lemmas only_pools_rules = only_pools_next only_pools_pair2 only_pools_refl

lemma modula_update_only: "post (\<lambda>(st, w'). only_pools w w') (modula_update p w)"
  unfolding modula_update_def
  by (intro post_intros) (auto 2 8 intro: only_pools_rules)

lemma random_update_only: "post (\<lambda>(st, w'). only_pools w w') (random_update p w)"
  unfolding random_update_def
  by (intro post_intros) (auto 2 8 intro: only_pools_rules)

lemma ketama_update_only: "post (\<lambda>(st, w'). only_pools w w') (ketama_update p w)"
  unfolding ketama_update_def
  by (intro post_intros) (auto 2 8 intro: only_pools_rules)

lemma server_pool_run_only: "server_pool_run p w = Some (st, w') \<Longrightarrow> only_pools w w'"
  by (auto simp: server_pool_run_def gf_simps split: dist_type.splits
      dest: postD [OF modula_update_only] postD [OF random_update_only] postD [OF ketama_update_only])

end
