(* ===== verification/Responses.thy ===== *)
theory Responses
  imports Core Effects
begin

text \<open>
  Requests and their responses: what a freshly taken message lacks, when the fragments of a
  request are done (\<open>req_done\<close>), which response a client is sent next (\<open>rsp_send_next\<close>) and
  which request a response from a server belongs to (\<open>rsp_forward\<close>).
\<close>

subsection \<open>A message without a parser\<close>

lemma msg_get_no_parser:
  assumes "msg_get c request redis w = Some (Some m, w')"
  shows "m_parser (msg w' m) = None \<and> m_pre_coalesce (msg w' m) = None \<and> m_fragment (msg w' m) = None \<and> m_failure (msg w' m) = None"
proof -
  let ?Q = "\<lambda>v. m_parser (msg v m) = None \<and> m_pre_coalesce (msg v m) = None \<and> m_fragment (msg v m) = None \<and> m_failure (msg v m) = None"
  have u: "w_msgs v' = w_msgs v" if "gf_usec_now v = (t, v')" for v t v' using that by (auto simp: gf_usec_now_def split_def Let_def)
  have "post (\<lambda>(r, v). r = Some m \<longrightarrow> ?Q v) (msg_get c request redis w)"
    unfolding msg_get_def by (intro post_intros) (auto split: prod.splits dest!: u)
  from postD [OF this assms] show ?thesis by simp
qed

lemma recv_mbuf_msg:
  assumes "recv_mbuf m w = Some (Some b, v)"
  shows "m_parser (msg v m) = m_parser (msg w m) \<and> m_mlen (msg v m) = m_mlen (msg w m)"
proof -
  have g: "w_msgs v' = w_msgs w" if "mbuf_get w = Some (r, v')" for r v'
  proof -
    have a: "w_msgs v' = w_msgs v" if "gf_alloc v = (ok, v')" for v ok v'
      using that by (auto simp: gf_alloc_def split_def Let_def)
    have "post (\<lambda>(r, v). w_msgs v = w_msgs w) (mbuf_take w)"
      unfolding mbuf_take_def by (intro post_intros) (auto dest!: a)
    then have "post (\<lambda>(r, v). w_msgs v = w_msgs w) (mbuf_get w)"
      unfolding mbuf_get_def by (intro post_intros) (auto dest!: postD)
    from postD [OF this that] show ?thesis by simp
  qed
  show ?thesis using assms g
    by (auto simp: recv_mbuf_def gf_simps Let_def mhdr_insert_def split: option.splits if_splits)
qed

lemma conn_recv_msgs: "conn_recv_loop k c sz w = Some (n, bs, w') \<Longrightarrow> w_msgs w' = w_msgs w \<and> (0 < n \<longrightarrow> length bs = nat n)"
  by (induction k arbitrary: w) (auto simp: Let_def split_def read_bytes_def split: if_splits)


text \<open>
  C39: \<open>msg_get\<close> sets the parser of every message to NULL, and no file of
  the repository sets it to anything else; \<open>msg_parse\<close> calls it without a test.  So the first
  read that brings bytes into a message obtained by \<open>msg_get\<close>, on a client or a server
  connection, faults.
\<close>

theorem received_bytes_fault:
  assumes "msg_get d request redis u = Some (Some m, w)"
    and "recv_mbuf m w = Some (Some b, v)" "mbuf_size b v = Some sz"
    and "conn_recv fuel c (unat sz) v = Some (n, bs, v')" "0 < n" "m_mlen (msg w m) + word_of_int n \<noteq> 0"
  shows "msg_recv_chain fuel X c m w = None"
proof -
  have m: "m_parser (msg v' m) = None" "m_mlen (msg v' m) = m_mlen (msg w m)" and len: "length bs = nat n"
    using msg_get_no_parser [OF assms(1)] recv_mbuf_msg [OF assms(2)] conn_recv_msgs [of fuel c "unat sz" v n bs v'] assms(4,5)
    by (auto simp: conn_recv_def gf_simps)
  have n: "(word_of_nat (nat n) :: u32) = word_of_int n" using assms(5) by simp
  have "msg_parse X c m u = None" if "m_parser (msg u m) = None" "m_mlen (msg u m) \<noteq> 0" for u
    using that by (simp add: msg_parse_def msg_empty_def call_parser_def)
  then have p: "parse_loop k X c m u = None" if "m_parser (msg u m) = None" "m_mlen (msg u m) \<noteq> 0" for k u
    using that by (cases k) simp_all
  show ?thesis
  proof (cases "b_end (mbuf v' b) < b_last (mbuf v' b) + length bs")
    case True
    with assms show ?thesis by (simp add: msg_recv_chain_def ASSERT_def)
  next
    case False
    with assms m len n show ?thesis by (simp add: msg_recv_chain_def ASSERT_def p)
  qed
qed

definition recv_fault_w :: world where
  "recv_fault_w = (sample_world (\<lambda>_. sample_res 3 [71, 69, 84]))\<lparr>w_mbuf_offset := 64\<rparr>"

lemma received_bytes_fault_witness:
  "\<exists>m w. msg_get 0 True True recv_fault_w = Some (Some m, w) \<and> msg_recv_chain 1 sample_ext 0 m w = None"
proof -
  have "\<exists>m w b v sz n bs v'. msg_get 0 True True recv_fault_w = Some (Some m, w) \<and> recv_mbuf m w = Some (Some b, v)
     \<and> mbuf_size b v = Some sz \<and> conn_recv 1 0 (unat sz) v = Some (n, bs, v') \<and> 0 < n \<and> m_mlen (msg w m) + word_of_int n \<noteq> 0"
    by (simp add: recv_fault_w_def msg_get_def msg_take_def msg_setup_def keys_create_def gf_alloc_def sys_def sample_world_def
        sample_res_def Let_def split_def recv_mbuf_def mbuf_get_def mbuf_take_def mhdr_insert_def mbuf_size_def conn_recv_def
        upd_msg_def upd_mbuf_def upd_conn_def msg_reset_def msg_reset2_def sample_msg_def sample_mbuf_def sample_conn_def ASSERT_def)
  with received_bytes_fault show ?thesis by blast
qed

subsection \<open>When all fragments of a request are done\<close>

definition marked :: "nat list \<Rightarrow> world \<Rightarrow> world" where
  "marked ms w = w\<lparr>w_msgs := (\<lambda>x. if x \<in> set ms then (msg w x)\<lparr>m_fdone := True\<rparr> else msg w x)\<rparr>"

lemma marked_upd: "marked ms (upd_msg m (\<lambda>s. s\<lparr>m_fdone := True\<rparr>) w) = marked (m # ms) w"
  by (rule world.equality) (auto simp: marked_def upd_msg_def)

lemma mark_fdone_marked: "mark_fdone ms w = marked ms w"
proof (induction ms arbitrary: w)
  case Nil
  have "(\<lambda>x. if x \<in> set [] then (msg w x)\<lparr>m_fdone := True\<rparr> else msg w x) = w_msgs w" by simp
  then show ?case by (simp add: mark_fdone_def marked_def)
next
  case (Cons m ms)
  then show ?case by (simp add: mark_fdone_def marked_upd)
qed

lemma marked_append: "marked ms (marked ns w) = marked (ms @ ns) w"
  by (rule world.equality) (auto simp: marked_def)

lemma marked_set: "set ms = set ns \<Longrightarrow> marked ms w = marked ns w"
  by (simp add: marked_def)

lemma takeWhile_run:
  assumes "\<forall>x\<in>set xs. P x" "\<forall>x\<in>set ys. \<not> P x"
  shows "takeWhile P (xs @ ys) = xs"
  using assms by (induction xs) (cases ys; auto)+

lemma frag_neighbours:
  assumes "q = pre @ fs @ suf" "distinct q" "fs = as @ m # bs"
    and "\<forall>x\<in>set fs. m_frag_id (msg w x) = i" "\<forall>x\<in>set pre \<union> set suf. m_frag_id (msg w x) \<noteq> i"
  shows "frags_before q m w = rev as" "frags_after q m w = bs"
proof -
  have m: "m \<notin> set (pre @ as)" using assms(1-3) by auto
  have tw: "takeWhile (\<lambda>x. x \<noteq> m) ((pre @ as) @ m # bs @ suf) = pre @ as" using m by (intro takeWhile_tail [THEN trans]) auto
  have dw: "dropWhile (\<lambda>x. x \<noteq> m) ((pre @ as) @ m # bs @ suf) = m # bs @ suf" using m by (induction "pre @ as") (auto simp: dropWhile_append)
  have i: "m_frag_id (msg w m) = i" using assms(3,4) by simp
  show "frags_before q m w = rev as"
    using takeWhile_run [of "rev as" "\<lambda>x. m_frag_id (msg w x) = i" "rev pre"] assms tw i by (simp add: frags_before_def)
  show "frags_after q m w = bs"
    using takeWhile_run [of bs "\<lambda>x. m_frag_id (msg w x) = i" suf] assms dw i by (simp add: frags_after_def)
qed

text \<open>
  What the protocol's \<open>post_coalesce\<close> leaves alone: it combines the responses of the fragments and does not touch the
  marks of the requests.
\<close>

definition coalesce_keeps_marks :: "ext \<Rightarrow> bool" where
  "coalesce_keeps_marks X \<longleftrightarrow> (\<forall>k m w w'. x_post_coalesce X k m w = Some w' \<longrightarrow> w_panic w' = w_panic w
     \<and> (\<forall>x. m_done (msg w' x) = m_done (msg w x) \<and> m_fdone (msg w' x) = m_fdone (msg w x) \<and> m_frag_id (msg w' x) = m_frag_id (msg w x)))"

definition fragments :: "nat \<Rightarrow> nat list \<Rightarrow> world \<Rightarrow> bool" where
  "fragments c fs w \<longleftrightarrow> (\<exists>pre suf i. c_omsg_q (conn w c) = pre @ fs @ suf \<and> distinct (pre @ fs @ suf) \<and> i \<noteq> 0
     \<and> (\<forall>x\<in>set fs. m_frag_id (msg w x) = i) \<and> (\<forall>x\<in>set pre \<union> set suf. m_frag_id (msg w x) \<noteq> i))"

lemma req_done_eq:
  assumes "\<not> w_panic w" "fragments c fs w" "m \<in> set fs"
  shows "req_done X c (Some m) w =
    (if \<not> m_done (msg w m) then Some (False, w)
     else if m_fdone (msg w m) then Some (True, w)
     else if m_nfrag_done (msg w m) < m_nfrag (msg w m) \<or> (\<exists>x\<in>set fs. \<not> m_done (msg w x)) then Some (False, w)
     else map_option (Pair True) (call_post_coalesce X (m_post_coalesce (msg w m)) (m_frag_owner (msg w m)) (marked fs w)))"
proof -
  obtain pre suf i where q: "c_omsg_q (conn w c) = pre @ fs @ suf" "distinct (pre @ fs @ suf)" "i \<noteq> 0"
    "\<forall>x\<in>set fs. m_frag_id (msg w x) = i" "\<forall>x\<in>set pre \<union> set suf. m_frag_id (msg w x) \<noteq> i" using assms(2) by (auto simp: fragments_def)
  obtain as bs where fs: "fs = as @ m # bs" using assms(3) by (auto simp: in_set_conv_decomp)
  have b: "frags_before (c_omsg_q (conn w c)) m w = rev as" "frags_after (c_omsg_q (conn w c)) m w = bs"
    using frag_neighbours [OF q(1) _ fs, of w i] q by simp_all
  have mk: "mark_fdone bs (mark_fdone (rev as) (upd_msg m (\<lambda>s. s\<lparr>m_fdone := True\<rparr>) w)) = marked fs w"
    unfolding mark_fdone_marked marked_upd marked_append by (rule marked_set) (auto simp: fs)
  have f: "m_post_coalesce (msg (marked fs w) m) = m_post_coalesce (msg w m)" "m_frag_owner (msg (marked fs w) m) = m_frag_owner (msg w m)"
    "w_panic (marked fs w) = w_panic w" by (simp_all add: marked_def)
  have m: "m \<in> set (c_omsg_q (conn w c))" "m_frag_id (msg w m) = i" using q assms(3) by simp_all
  have all: "(\<exists>x\<in>set fs. \<not> m_done (msg w x)) \<longleftrightarrow> (\<exists>x\<in>set (rev as). \<not> m_done (msg w x)) \<or> (\<exists>x\<in>set bs. \<not> m_done (msg w x))"
    if "m_done (msg w m)" using that by (auto simp: fs)
  let ?co = "call_post_coalesce X (m_post_coalesce (msg w m)) (m_frag_owner (msg w m)) (marked fs w)"
  show ?thesis
    using assms(1) q(3) b mk f m all by (cases ?co) (auto simp: req_done_def ASSERT_def Let_def not_less)
qed

text \<open>
  C15: the fragments of a request lie side by side in the outgoing queue of the client.  A
  fragment of it counts as done when it is and has been marked before, or when all fragments have been
  received and all are done, and not otherwise.  In the second case every fragment is marked and the responses are
  coalesced into the request that owns the fragments; from then on every fragment counts as done
  with no further effect, so they are coalesced once.  In all other cases nothing changes.
\<close>

theorem req_done_all_fragments:
  assumes "\<not> w_panic w" "fragments c fs w" "m \<in> set fs" "coalesce_keeps_marks X"
  shows "req_done X c (Some m) w =
      (if \<not> m_done (msg w m) then Some (False, w)
       else if m_fdone (msg w m) then Some (True, w)
       else if m_nfrag_done (msg w m) < m_nfrag (msg w m) \<or> (\<exists>x\<in>set fs. \<not> m_done (msg w x)) then Some (False, w)
       else map_option (Pair True) (call_post_coalesce X (m_post_coalesce (msg w m)) (m_frag_owner (msg w m)) (marked fs w)))
    \<and> (\<forall>v x. req_done X c (Some m) w = Some (True, v) \<and> \<not> m_fdone (msg w m) \<and> x \<in> set fs
         \<longrightarrow> req_done X c (Some x) v = Some (True, v))"
proof -
  note e = req_done_eq [OF assms(1-3)]
  have "req_done X c (Some x) v = Some (True, v)"
    if r: "req_done X c (Some m) w = Some (True, v)" "\<not> m_fdone (msg w m)" "x \<in> set fs" for v x
  proof -
    have d: "\<forall>x\<in>set fs. m_done (msg w x)"
      and c: "call_post_coalesce X (m_post_coalesce (msg w m)) (m_frag_owner (msg w m)) (marked fs w) = Some v"
      using r(1,2) by (auto simp: e split: if_splits)
    have "m_frag_id (msg w x) \<noteq> 0" using assms(2) r(3) by (auto simp: fragments_def)
    then have "\<not> w_panic v \<and> m_done (msg v x) \<and> m_fdone (msg v x) \<and> m_frag_id (msg v x) \<noteq> 0"
      using c assms(1,4) d r(3) by (auto simp: call_post_coalesce_def gf_simps coalesce_keeps_marks_def marked_def)
    then show ?thesis by (simp add: req_done_def ASSERT_def)
  qed
  with e show ?thesis by blast
qed

definition frag_w :: world where
  "frag_w = w0\<lparr>w_conns := (\<lambda>_. sample_conn\<lparr>c_client := True, c_omsg_q := [4, 5, 6, 7]\<rparr>),
     w_msgs := (\<lambda>n. sample_msg\<lparr>m_request := True, m_done := True, m_nfrag := 2, m_nfrag_done := 2, m_frag_owner := Some 9,
       m_post_coalesce := Some 1, m_frag_id := (if n = 5 \<or> n = 6 then 3 else 0)\<rparr>)\<rparr>"

lemma req_done_all_fragments_witness:
  "req_done sample_ext 0 (Some 6) frag_w = Some (True, marked [5, 6] frag_w)
    \<and> req_done sample_ext 0 (Some 5) (marked [5, 6] frag_w) = Some (True, marked [5, 6] frag_w)"
proof -
  have "fragments 0 [5, 6] frag_w"
    unfolding fragments_def by (intro exI [of _ "[4]"] exI [of _ "[7]"] exI [of _ 3]) (simp add: frag_w_def)
  moreover have "coalesce_keeps_marks sample_ext" by (simp add: coalesce_keeps_marks_def sample_ext_def)
  ultimately show ?thesis
    using req_done_all_fragments [of frag_w 0 "[5, 6]" 6 sample_ext]
    by (simp add: frag_w_def sample_msg_def call_post_coalesce_def sample_ext_def)
qed

subsection \<open>The next response to a client\<close>

text \<open>
  The request whose response is sent next: the oldest one of the client, or, while a batch is
  put together, the one after the request whose response was chosen last.
\<close>

definition next_request :: "nat \<Rightarrow> world \<Rightarrow> nat option" where
  "next_request c w = (case c_smsg (conn w c) of
     None \<Rightarrow> q_first (c_omsg_q (conn w c))
   | Some m \<Rightarrow> do { q \<leftarrow> m_peer (msg w m); n \<leftarrow> q_next q (c_omsg_q (conn w c)); n })"

text \<open>The last part of \<open>rsp_send_next\<close>, for a request that is done.\<close>

definition send_response :: "ext \<Rightarrow> nat \<Rightarrow> nat \<Rightarrow> world \<Rightarrow> (nat option \<times> world) option" where
  "send_response X c q w = do {
     (e, w) \<leftarrow> req_error X c q w;
     if e then do {
       (r, w) \<leftarrow> rsp_make_error X c q w;
       case r of None \<Rightarrow> Some (None, upd_conn c (\<lambda>s. s\<lparr>c_err := w_errno w\<rparr>) w)
       | Some m \<Rightarrow> do {
           let w = upd_msg m (\<lambda>s. s\<lparr>m_peer := Some q\<rparr>) w;
           let w = upd_msg q (\<lambda>s. s\<lparr>m_peer := Some m\<rparr>) w;
           p \<leftarrow> conn_pool c w;
           w \<leftarrow> stats_pool_incr p P_forward_error w;
           ASSERT (\<not> m_request (msg w m)) w;
           Some (Some m, upd_conn c (\<lambda>s. s\<lparr>c_smsg := Some m\<rparr>) w) } }
     else do {
       let r = m_peer (msg w q);
       ASSERT (case r of None \<Rightarrow> False | Some m \<Rightarrow> \<not> m_request (msg w m)) w;
       Some (r, upd_conn c (\<lambda>s. s\<lparr>c_smsg := r\<rparr>) w) } }"

lemma rsp_send_next_eq:
  assumes "\<not> w_panic w" "c_omsg_q (conn w c) \<noteq> []" "c_smsg (conn w c) = None \<or> next_request c w \<noteq> None"
  shows "rsp_send_next X c w = (case next_request c w of
      None \<Rightarrow> Some (None, upd_conn c (\<lambda>s. s\<lparr>c_smsg := None\<rparr>) w)
    | Some q \<Rightarrow> do {
        (ready, w) \<leftarrow> req_done X c (Some q) w;
        if \<not> ready then Some (None, upd_conn c (\<lambda>s. s\<lparr>c_smsg := None\<rparr>) w)
        else do { ASSERT (m_request (msg w q) \<and> \<not> m_swallow (msg w q)) w; send_response X c q w } })"
proof -
  obtain f where f: "q_first (c_omsg_q (conn w c)) = Some f" using assms(2) by (cases "c_omsg_q (conn w c)") (simp_all add: q_first_def)
  show ?thesis
  proof (cases "c_smsg (conn w c)")
    case None
    then show ?thesis using assms(1) f
      by (simp add: rsp_send_next_def next_request_def send_response_def ASSERT_no_panic split_def Let_def cong: if_cong option.case_cong)
  next
    case (Some m)
    then obtain q n where q: "m_peer (msg w m) = Some q" "q_next q (c_omsg_q (conn w c)) = Some (Some n)"
      using assms(3) by (auto simp: next_request_def bind_eq_None_conv split: option.splits)
    then show ?thesis using assms(1) f Some
      by (simp add: rsp_send_next_def next_request_def send_response_def ASSERT_no_panic split_def assert_req_done_def Let_def cong: if_cong option.case_cong)
  qed
qed


lemma rsp_send_next_chosen:
  assumes "\<not> w_panic w" "rsp_send_next X c w = Some (r, w')"
  shows "c_omsg_q (conn w c) \<noteq> [] \<and> (c_smsg (conn w c) = None \<or> next_request c w \<noteq> None \<or> r = None)"
proof (intro conjI)
  show ne: "c_omsg_q (conn w c) \<noteq> []" using assms(2) by (auto simp: rsp_send_next_def q_first_def req_done_def)
  obtain f where f: "q_first (c_omsg_q (conn w c)) = Some f" using ne by (cases "c_omsg_q (conn w c)") (simp_all add: q_first_def)
  show "c_smsg (conn w c) = None \<or> next_request c w \<noteq> None \<or> r = None"
  proof (cases "c_smsg (conn w c)")
    case (Some m)
    then show ?thesis using assms f
      by (cases "m_peer (msg w m)"; cases "next_request c w")
        (auto simp: rsp_send_next_def next_request_def assert_req_done_def ASSERT_no_panic gf_simps split: option.splits if_splits)
  qed simp
qed

lemma req_error_same:
  "\<not> w_panic w \<Longrightarrow> m_error (msg w q) \<Longrightarrow> req_error X c q w = Some (True, w)"
  "\<not> w_panic w \<Longrightarrow> \<not> m_error (msg w q) \<Longrightarrow> m_frag_id (msg w q) = 0 \<Longrightarrow> req_error X c q w = Some (False, w)"
  by (simp_all add: req_error_def assert_req_done_def)

lemma send_response_peer:
  assumes "send_response X c q w = Some (Some m, w')"
  shows "m_peer (msg w' q) = Some m \<and> c_smsg (conn w' c) = Some m"
proof -
  have "post (\<lambda>(r, w'). r = Some m \<longrightarrow> m_peer (msg w' q) = Some m \<and> c_smsg (conn w' c) = Some m) (send_response X c q w)"
    unfolding send_response_def by (intro post_intros) (auto simp: stats_pool_incr_def gf_simps)
  from postD [OF this assms] show ?thesis by simp
qed

text \<open>
  C9: \<open>rsp_send_next\<close> answers the requests of a client in the order they arrived: the
  response chosen is that of the oldest unanswered request, or of the one after the request
  answered last in the batch; while that request is not done nothing later is sent, and a done
  request without error or fragments is answered with its own response.
\<close>

theorem rsp_send_in_order:
  assumes "\<not> w_panic w" "rsp_send_next X c w = Some (r, w')"
  shows "case next_request c w of
      None \<Rightarrow> r = None
    | Some q \<Rightarrow>
        (\<not> m_done (msg w q) \<longrightarrow> r = None \<and> w' = upd_conn c (\<lambda>s. s\<lparr>c_smsg := None\<rparr>) w)
      \<and> (m_done (msg w q) \<and> m_frag_id (msg w q) = 0 \<and> \<not> m_error (msg w q) \<longrightarrow>
           r = m_peer (msg w q) \<and> w' = upd_conn c (\<lambda>s. s\<lparr>c_smsg := r\<rparr>) w)
      \<and> (\<forall>m. r = Some m \<longrightarrow> m_done (msg w q) \<and> m_peer (msg w' q) = Some m \<and> c_smsg (conn w' c) = Some m)"
proof (cases "next_request c w")
  case None
  show ?thesis
  proof (cases "c_smsg (conn w c) = None")
    case True
    with None rsp_send_next_chosen [OF assms] rsp_send_next_eq [OF assms(1), of c X] assms(2) show ?thesis by simp
  next
    case False
    with None rsp_send_next_chosen [OF assms] show ?thesis by simp
  qed
next
  case (Some q)
  have eq: "rsp_send_next X c w = do {
        (ready, w) \<leftarrow> req_done X c (Some q) w;
        if \<not> ready then Some (None, upd_conn c (\<lambda>s. s\<lparr>c_smsg := None\<rparr>) w)
        else do { ASSERT (m_request (msg w q) \<and> \<not> m_swallow (msg w q)) w; send_response X c q w } }"
    using rsp_send_next_eq [OF assms(1), of c X] rsp_send_next_chosen [OF assms] Some by simp
  have nd: "req_done X c (Some q) w = Some (False, w)" if "\<not> m_done (msg w q)"
    using that assms(1) by (simp add: req_done_def ASSERT_no_panic)
  have d: "req_done X c (Some q) w = Some (True, w)" if "m_done (msg w q)" "m_frag_id (msg w q) = 0"
    using that assms(1) by (simp add: req_done_def ASSERT_no_panic)
  have 1: "r = None \<and> w' = upd_conn c (\<lambda>s. s\<lparr>c_smsg := None\<rparr>) w" if "\<not> m_done (msg w q)"
    using assms(2) eq nd [OF that] by simp
  have 2: "r = m_peer (msg w q) \<and> w' = upd_conn c (\<lambda>s. s\<lparr>c_smsg := r\<rparr>) w"
    if "m_done (msg w q)" "m_frag_id (msg w q) = 0" "\<not> m_error (msg w q)"
    using assms eq d [OF that(1,2)] req_error_same(2) [OF assms(1) that(3,2), of X c]
    by (simp add: send_response_def ASSERT_no_panic Let_def) auto
  have 3: "m_done (msg w q) \<and> m_peer (msg w' q) = Some m \<and> c_smsg (conn w' c) = Some m" if rm: "r = Some m" for m
  proof -
    have "m_done (msg w q)" using 1 rm by auto
    moreover obtain v where "send_response X c q v = Some (Some m, w')"
      using assms(2) eq rm by (auto simp: gf_simps split: if_splits)
    ultimately show ?thesis using send_response_peer by blast
  qed
  show ?thesis unfolding Some option.case using 1 2 3 by blast
qed

definition respond_w :: world where
  "respond_w = w0\<lparr>w_conns := (\<lambda>_. client_handlers (sample_conn\<lparr>c_client := True, c_owner := Some (OPool 0), c_omsg_q := [4, 5]\<rparr>)),
     w_msgs := (\<lambda>n. sample_msg\<lparr>m_request := (n < 6), m_done := True, m_peer := (if n < 6 then Some (n + 6) else Some (n - 6))\<rparr>)\<rparr>"

lemma rsp_send_in_order_witness: "\<exists>w'. rsp_send_next sample_ext 0 respond_w = Some (Some 10, w') \<and> c_smsg (conn w' 0) = Some 10"
proof -
  have n: "next_request 0 respond_w = Some 4" "\<not> w_panic respond_w" "m_done (msg respond_w 4)" "m_frag_id (msg respond_w 4) = 0"
    "\<not> m_error (msg respond_w 4)" "m_peer (msg respond_w 4) = Some 10" "c_omsg_q (conn respond_w 0) \<noteq> []"
    by (simp_all add: respond_w_def next_request_def client_handlers_def sample_conn_def q_first_def sample_msg_def)
  have "rsp_send_next sample_ext 0 respond_w \<noteq> None"
    using n rsp_send_next_eq [of respond_w 0 sample_ext] req_error_same(2) [of respond_w 4 sample_ext 0]
    by (simp add: req_done_def send_response_def ASSERT_no_panic Let_def)
  then obtain r w' where "rsp_send_next sample_ext 0 respond_w = Some (r, w')" by auto
  with rsp_send_in_order [OF n(2) this] n show ?thesis by simp
qed

subsection \<open>A write event on a client that waits for nothing\<close>

text \<open>
  C40: a write event on a client connection that has no request outstanding makes
  \<open>rsp_send_next\<close> use the missing first request: the guard that should stop there joins its two
  conditions with "and", so it never holds for a missing request.
\<close>

theorem idle_client_write_faults:
  assumes "c_send (conn w c) = Some H_msg_send" "c_send_next (conn w c) = Some H_rsp_send_next" "c_omsg_q (conn w c) = []"
    and "c_owner (conn w c) \<noteq> None" "ev AND EVENT_ERR = 0" "ev AND EVENT_READ = 0" "ev AND EVENT_WRITE \<noteq> 0"
  shows "core_core fuel X c ev w = None"
proof -
  have "rsp_send_next X c (upd_conn c f w) = None" if "\<And>s. c_omsg_q (f s) = c_omsg_q s" for f
    using assms(3) that by (simp add: rsp_send_next_def q_first_def req_done_def)
  then have "send_loop k fuel X c (upd_conn c f w) = None"
    if "\<And>s. c_omsg_q (f s) = c_omsg_q s \<and> c_send_next (f s) = c_send_next s" for k f
    using assms(2) that by (cases k) (simp_all add: call_send_next_def)
  then have "core_send fuel X c (upd_conn c (\<lambda>s. s\<lparr>c_events := ev\<rparr>) w) = None"
    using assms(1) by (simp add: core_send_def msg_send_def ASSERT_def Let_def)
  with assms(4-7) show ?thesis
    by (simp add: core_core_def core_phase_def Let_def)
qed

lemma idle_client_write_faults_witness:
  "core_core 9 sample_ext 0 EVENT_WRITE
     (w0\<lparr>w_conns := (\<lambda>_. client_handlers (sample_conn\<lparr>c_client := True, c_owner := Some (OPool 0)\<rparr>))\<rparr>) = None"
  by (rule idle_client_write_faults) (simp_all add: client_handlers_def sample_conn_def)

subsection \<open>A response belongs to the oldest request\<close>

text \<open>What the queues and the pairing of requests and responses depend on.\<close>

definition keeps_links :: "world \<Rightarrow> world \<Rightarrow> bool" where
  "keeps_links w w' \<longleftrightarrow> (\<forall>c. c_imsg_q (conn w' c) = c_imsg_q (conn w c) \<and> c_omsg_q (conn w' c) = c_omsg_q (conn w c))
     \<and> (\<forall>m. m_peer (msg w' m) = m_peer (msg w m) \<and> m_done (msg w' m) = m_done (msg w m) \<and> m_tmo_data (msg w' m) = m_tmo_data (msg w m))"

lemma keeps_links_refl [simp]: "keeps_links w w"
  by (simp add: keeps_links_def)

lemma keeps_links_trans: "keeps_links u v \<Longrightarrow> keeps_links v w \<Longrightarrow> keeps_links u w"
  by (simp add: keeps_links_def)

lemma keeps_links_frame: "w_conns w' = w_conns w \<Longrightarrow> w_msgs w' = w_msgs w \<Longrightarrow> keeps_links w w'"
  by (simp add: keeps_links_def)

lemma keeps_links_upd [simp]:
  "(\<And>s. c_imsg_q (f s) = c_imsg_q s \<and> c_omsg_q (f s) = c_omsg_q s) \<Longrightarrow> keeps_links w (upd_conn c f w)"
  "(\<And>s. m_peer (g s) = m_peer s \<and> m_done (g s) = m_done s \<and> m_tmo_data (g s) = m_tmo_data s) \<Longrightarrow> keeps_links w (upd_msg m g w)"
  "keeps_links w (upd_server p s h w)" "keeps_links w (stats_server_to_metric p s j u w)"
  by (simp_all add: keeps_links_def)

text \<open>
  The coalescing functions of a protocol work on the contents of messages and on counts of
  fragments; they move no message between queues and pair or finish none.
\<close>

definition coalesce_keeps_links :: "ext \<Rightarrow> bool" where
  "coalesce_keeps_links X \<longleftrightarrow> (\<forall>k m w w'. (x_pre_coalesce X k m w = Some w' \<longrightarrow> keeps_links w w')
     \<and> (x_post_coalesce X k m w = Some w' \<longrightarrow> keeps_links w w'))"

lemma mark_fdone_links: "keeps_links w (mark_fdone ms w)"
proof (induction ms arbitrary: w)
  case (Cons m ms)
  have "keeps_links w (upd_msg m (\<lambda>s. s\<lparr>m_fdone := True\<rparr>) w)" by simp
  from keeps_links_trans [OF this Cons] show ?case by (simp add: mark_fdone_def)
qed (simp add: mark_fdone_def)

lemma req_done_links:
  assumes "req_done X c mo w = Some (d, w')" "coalesce_keeps_links X"
  shows "keeps_links w w'"
proof -
  have co: "keeps_links v v'" if "call_post_coalesce X f m v = Some v'" for f m v v'
    using that assms(2) by (auto simp: call_post_coalesce_def gf_simps coalesce_keeps_links_def)
  have mk: "keeps_links w (mark_fdone as (mark_fdone bs (upd_msg m (\<lambda>s. s\<lparr>m_fdone := True\<rparr>) w)))" for as bs m
    using keeps_links_trans [OF keeps_links_trans [OF keeps_links_upd(2) mark_fdone_links] mark_fdone_links] by simp
  have "post (\<lambda>(d, w'). keeps_links w w') (req_done X c mo w)"
    unfolding req_done_def
    by (intro post_intros) (auto simp del: ASSERT_Some dest!: co intro: keeps_links_trans [OF mk])
  from postD [OF this assms(1)] show ?thesis by simp
qed

lemma event_add_out_links: "event_add_out c w = Some (st, w') \<Longrightarrow> keeps_links w w'"
  by (auto simp: event_add_out_def gf_simps epoll_ctl_def split_def Let_def keeps_links_def split: if_splits)

lemma wake_client_links:
  assumes "wake_client X c w = Some w'" "coalesce_keeps_links X"
  shows "keeps_links w w'"
proof -
  have "post (keeps_links w) (wake_client X c w)"
    unfolding wake_client_def
    by (intro post_intros)
      (auto dest!: req_done_links [OF _ assms(2)] event_add_out_links intro: keeps_links_trans keeps_links_trans [OF _ keeps_links_trans [OF _ keeps_links_upd(1)]])
  from postD [OF this assms(1)] show ?thesis .
qed

lemma server_ok_frame:
  assumes "server_ok c w = Some w'"
  shows "w_conns w' = w_conns w \<and> w_msgs w' = w_msgs w"
proof -
  have "post (\<lambda>w'. w_conns w' = w_conns w \<and> w_msgs w' = w_msgs w) (server_ok c w)"
    unfolding server_ok_def by (intro post_intros) (simp_all del: ASSERT_Some)
  from postD [OF this assms] show ?thesis .
qed

lemma req_server_dequeue_omsgq_links:
  assumes "req_server_dequeue_omsgq c pm w = Some w'" "c_omsg_q (conn w c) = pm # q"
  shows "c_omsg_q (conn w' c) = q \<and> (\<forall>d. d \<noteq> c \<longrightarrow> c_omsg_q (conn w' d) = c_omsg_q (conn w d)) \<and> (\<forall>d. c_imsg_q (conn w' d) = c_imsg_q (conn w d))
    \<and> m_tmo_data (msg w' pm) = None \<and> (\<forall>n. n \<noteq> pm \<longrightarrow> msg w' n = msg w n) \<and> m_peer (msg w' pm) = m_peer (msg w pm)"
proof -
  let ?w = "msg_tmo_delete pm w"
  have t: "w_conns ?w = w_conns w" "m_tmo_data (msg ?w pm) = None" "\<And>n. n \<noteq> pm \<Longrightarrow> msg ?w n = msg w n"
    "m_peer (msg ?w pm) = m_peer (msg w pm)"
    by (auto simp: msg_tmo_delete_def Let_def)
  have "q_remove pm (c_omsg_q (conn ?w c)) = Some q" using t(1) assms(2) by (simp add: q_remove_def)
  then obtain p s where v: "w' = stats_server_to_metric p s S_out_queue_bytes (\<lambda>n. n - uint (m_mlen (msg ?w pm)))
      (stats_server_to_metric p s S_out_queue (\<lambda>n. n - 1) (upd_conn c (c_omsg_q_update (\<lambda>_. q)) ?w))"
    using assms(1) unfolding req_server_dequeue_omsgq_def Let_def stats_server_decr_def stats_server_decr_by_def
    by (elim some_elims) auto
  have m: "w_msgs w' = w_msgs ?w" "w_conns w' = (w_conns ?w)(c := (conn ?w c)\<lparr>c_omsg_q := q\<rparr>)"
    unfolding v by (simp_all add: upd_conn_def)
  show ?thesis using m t assms(2) by auto
qed

text \<open>
  C2: a response that arrives from a server is paired with the oldest request outstanding on
  that connection: that request leaves the queue and the timeout tree, becomes done, and the two
  are each other's peers; no other request is finished, paired or moved, on any connection.
\<close>

theorem rsp_forward_pairs_head:
  assumes "rsp_forward X c m w = Some w'" "c_omsg_q (conn w c) = pm # q" "coalesce_keeps_links X" "m \<noteq> pm"
    and "c_dequeue_outq (conn w c) = Some H_req_server_dequeue_omsgq"
  shows "c_omsg_q (conn w' c) = q \<and> m_done (msg w' pm) \<and> m_peer (msg w' pm) = Some m \<and> m_peer (msg w' m) = Some pm
    \<and> m_tmo_data (msg w' pm) = None
    \<and> (\<forall>d. d \<noteq> c \<longrightarrow> c_omsg_q (conn w' d) = c_omsg_q (conn w d)) \<and> (\<forall>d. c_imsg_q (conn w' d) = c_imsg_q (conn w d))
    \<and> (\<forall>n. n \<noteq> pm \<longrightarrow> m_done (msg w' n) = m_done (msg w n) \<and> m_tmo_data (msg w' n) = m_tmo_data (msg w n)
         \<and> (n \<noteq> m \<longrightarrow> m_peer (msg w' n) = m_peer (msg w n)))"
proof -
  let ?mark = "\<lambda>pm w. upd_msg m (\<lambda>s. s\<lparr>m_peer := Some pm\<rparr>) (upd_msg pm (\<lambda>s. s\<lparr>m_peer := Some m\<rparr>) (upd_msg pm (\<lambda>s. s\<lparr>m_done := True\<rparr>) w))"
  obtain w1 x w2 k w3 cc w4 p s sz where w1: "server_ok c w = Some w1" and x: "q_first (c_omsg_q (conn w1 c)) = Some x"
    and s': "call_dequeue_outq c x w1 = Some w2" "call_pre_coalesce X k m (?mark x w2) = Some w3"
    "wake_client X cc w3 = Some w4" "rsp_forward_stats p s m sz w4 = Some w'"
    using assms(1) unfolding rsp_forward_def Let_def
    by (elim some_elims) (rule that, assumption+)
  have f1: "w_conns w1 = w_conns w" "w_msgs w1 = w_msgs w"
    using server_ok_frame [OF w1] by simp_all
  have "x = pm" using x f1 assms(2) by (simp add: q_first_def)
  note s = s' [unfolded this]
  have 2: "c_omsg_q (conn w2 c) = q" "\<And>d. d \<noteq> c \<Longrightarrow> c_omsg_q (conn w2 d) = c_omsg_q (conn w d)" "\<And>d. c_imsg_q (conn w2 d) = c_imsg_q (conn w d)"
    "m_tmo_data (msg w2 pm) = None" "\<And>n. n \<noteq> pm \<Longrightarrow> msg w2 n = msg w n"
    using req_server_dequeue_omsgq_links [of c pm w1 w2 q] s(1) f1 assms(2,5) by (simp_all add: call_dequeue_outq_def)
  have "keeps_links (?mark pm w2) w3"
    using s(2) assms(3) by (auto simp: call_pre_coalesce_def gf_simps coalesce_keeps_links_def)
  moreover have "keeps_links w3 w4" using wake_client_links [OF s(3) assms(3)] .
  moreover have "keeps_links w4 w'" using s(4) by (auto simp: rsp_forward_stats_def gf_simps intro: keeps_links_frame)
  ultimately have k: "keeps_links (?mark pm w2) w'" using keeps_links_trans by blast
  then have c: "c_omsg_q (conn w' d) = c_omsg_q (conn w2 d)" "c_imsg_q (conn w' d) = c_imsg_q (conn w2 d)" for d
    by (simp_all add: keeps_links_def)
  from k have m: "m_peer (msg w' n) = m_peer (msg (?mark pm w2) n)" "m_done (msg w' n) = m_done (msg (?mark pm w2) n)"
    "m_tmo_data (msg w' n) = m_tmo_data (msg (?mark pm w2) n)" for n
    unfolding keeps_links_def by blast+
  show ?thesis unfolding c m using 2 assms(4) by simp
qed

definition forward_w :: world where
  "forward_w = w0\<lparr>w_conns := (\<lambda>n. if n = 0 then server_handlers (sample_conn\<lparr>c_owner := Some (OServer 0 0), c_connected := True, c_omsg_q := [4, 5]\<rparr>)
       else client_handlers (sample_conn\<lparr>c_client := True, c_owner := Some (OPool 0), c_omsg_q := [3, 4, 5]\<rparr>)),
     w_msgs := (\<lambda>n. sample_msg\<lparr>m_request := (n < 6), m_owner := Some 1, m_pre_coalesce := Some 0\<rparr>)\<rparr>"

lemma forward_w_runs: "\<exists>w'. rsp_forward sample_ext 0 9 forward_w = Some w'"
  by (simp add: forward_w_def rsp_forward_def server_ok_def conn_server_def q_first_def call_dequeue_outq_def server_handlers_def
      client_handlers_def req_server_dequeue_omsgq_def msg_tmo_delete_def q_remove_def Let_def upd_msg_def upd_conn_def
      call_pre_coalesce_def sample_ext_def wake_client_def req_done_def rsp_forward_stats_def sample_conn_def sample_msg_def
      sample_pool_def sample_server_def is_server_conn_def is_client_conn_def ASSERT_def stats_server_to_metric_def)

lemma rsp_forward_pairs_head_witness:
  "\<exists>w'. rsp_forward sample_ext 0 9 forward_w = Some w' \<and> c_omsg_q (conn w' 0) = [5] \<and> m_peer (msg w' 4) = Some 9 \<and> m_done (msg w' 4)"
proof -
  obtain w' where w': "rsp_forward sample_ext 0 9 forward_w = Some w'" using forward_w_runs by blast
  have "c_omsg_q (conn forward_w 0) = [4, 5]" "c_dequeue_outq (conn forward_w 0) = Some H_req_server_dequeue_omsgq"
    by (simp_all add: forward_w_def server_handlers_def)
  with rsp_forward_pairs_head [OF w' this(1) _ _ this(2)] w' show ?thesis
    by (simp add: coalesce_keeps_links_def sample_ext_def)
qed

end
