(* ===== verification/Ejection.thy ===== *)
theory Ejection
  imports Core Effects
begin

text \<open>
  Ejecting a failing server: the points of every distribution are those of live servers
  (\<open>gf_ketama.c\<close>, \<open>gf_modula.c\<close>, \<open>gf_random.c\<close>), so a server ejected by \<open>server_failure\<close>
  (\<open>gf_server.c\<close>) is sent no key.
\<close>

subsection \<open>Keys go to live servers only\<close>

lemma live_servers_live:
  assumes "(i, s) \<in> set (live_servers auto now (map (revive auto now) ss))"
  shows "i < length ss \<and> is_live auto now (ss ! i)"
  using assms by (auto simp: live_servers_def in_set_enumerate_eq is_live_def revive_def split: if_splits)

lemma index_unat: "length ss < 2 ^ 32 \<Longrightarrow> i < length ss \<Longrightarrow> unat (word_of_nat i :: u32) = i"
  by (simp add: unat_of_nat take_bit_nat_eq_self)

definition live_index :: "bool \<Rightarrow> int \<Rightarrow> server list \<Rightarrow> u32 \<Rightarrow> bool" where
  "live_index auto now ss i \<longleftrightarrow> unat i < length ss \<and> is_live auto now (ss ! unat i)"

lemma modula_live_live: "e \<in> set (modula_live auto now ss) \<Longrightarrow> length ss < 2 ^ 32 \<Longrightarrow> live_index auto now ss (k_index e)"
  by (auto simp: modula_live_def modula_points_def live_index_def index_unat dest!: live_servers_live)

lemma random_live_live: "e \<in> set (random_live auto now ss) \<Longrightarrow> length ss < 2 ^ 32 \<Longrightarrow> live_index auto now ss (k_index e)"
  by (auto simp: random_live_def random_points_def live_index_def index_unat dest!: live_servers_live)

lemma ketama_live_live: "e \<in> set (ketama_live auto now ss) \<Longrightarrow> length ss < 2 ^ 32 \<Longrightarrow> live_index auto now ss (k_index e)"
  by (auto simp: ketama_live_def ketama_points_def ketama_server_points_def Let_def live_index_def index_unat dest!: live_servers_live)


text \<open>Whatever the distribution, a rebuild only leaves points of live servers.\<close>

lemma rebuilt_points_live:
  assumes "\<not> w_panic w" "pool_fit (pool w p)"
    and "server_pool_run p w = Some (GF_OK, w')" "p_nlive_server (pool w' p) \<noteq> 0"
  shows "continuum_ok (pool w' p) \<and> length (p_server (pool w' p)) = length (p_server (pool w p)) \<and>
    (\<forall>e\<in>set (take (unat (p_ncontinuum (pool w' p))) (the (p_continuum (pool w' p)))).
       live_index (p_auto_eject_hosts (pool w p)) (fst (gf_usec_now w)) (p_server (pool w p)) (k_index e))"
proof -
  have len: "length (p_server (pool w p)) < 2 ^ 32" using assms(2) by (simp add: pool_fit_def)
  show ?thesis
  proof (cases "p_dist_type (pool w p)")
    case DIST_KETAMA
    then have "ketama_update p w = Some (GF_OK, w')" using assms(1,3) by (simp add: server_pool_run_def ASSERT_no_panic)
    with DIST_KETAMA ketama_update_run [of w p] pool_fit_ketama [OF assms(2)] assms len show ?thesis
      by (auto simp: pool_fit_def points_per_unit_def Let_def intro: ketama_live_live)
  next
    case DIST_MODULA
    then have "modula_update p w = Some (GF_OK, w')" using assms(1,3) by (simp add: server_pool_run_def ASSERT_no_panic)
    with DIST_MODULA modula_update_run [of w p] assms len show ?thesis
      by (auto simp: pool_fit_def points_per_unit_def Let_def intro: modula_live_live)
  next
    case DIST_RANDOM
    then have "random_update p w = Some (GF_OK, w')" using assms(1,3) by (simp add: server_pool_run_def ASSERT_no_panic)
    with DIST_RANDOM random_update_run [of w p] assms len show ?thesis
      by (auto simp: pool_fit_def points_per_unit_def Let_def intro: random_live_live)
  qed
qed

lemma nth_in_take: "i < n \<Longrightarrow> n \<le> length c \<Longrightarrow> c ! i \<in> set (take n c)"
  by (auto simp: in_set_conv_nth)

lemma point_index_take: "i < n \<Longrightarrow> n \<le> length c \<Longrightarrow> point_index c i = Some x \<Longrightarrow> \<exists>e\<in>set (take n c). x = k_index e"
  by (auto simp: point_index_def nth_in_take split: if_splits)

lemma server_pool_idx_point:
  assumes "continuum_ok sp" "length (p_server sp) \<noteq> 1" "server_pool_idx sp m key keylen v = Some (i, v')"
  shows "\<exists>e\<in>set (take (unat (p_ncontinuum sp)) (the (p_continuum sp))). i = k_index e"
proof -
  obtain c where c: "p_continuum sp = Some c" "0 < unat (p_ncontinuum sp)" "unat (p_ncontinuum sp) \<le> length c"
    using assms(1) by (auto simp: continuum_ok_def split: option.splits)
  have k: "\<exists>e\<in>set (take (unat (p_ncontinuum sp)) c). x = k_index e" if "ketama_dispatch c (p_ncontinuum sp) h = Some x" for h x
    using ketama.picks_point [OF c(2,3), of h] that c(3) by (auto simp: nth_in_take)
  have u: "\<exists>e\<in>set (take (unat (p_ncontinuum sp)) c). x = k_index e" if "modula_dispatch c (p_ncontinuum sp) h = Some x" for h x
    using modula.picks_point [OF c(2,3), of h] that c(3) by (auto simp: nth_in_take)
  have r: "\<exists>e\<in>set (take (unat (p_ncontinuum sp)) c). x = k_index e" if rd: "random_dispatch c (p_ncontinuum sp) v = Some (x, w')" for v w' x
  proof -
    obtain n where "point_index c (n mod unat (p_ncontinuum sp)) = Some x"
      using rd by (auto simp: random_dispatch_def gf_simps split_def Let_def split: if_splits)
    then show ?thesis using c(2,3) by (intro point_index_take [of "n mod unat (p_ncontinuum sp)"]) simp_all
  qed
  obtain key' keylen' where t: "tagged_key (p_hash_tag sp) m key keylen = (key', keylen')" by fastforce
  show ?thesis using assms(2,3) c(1) t k u r
    by (cases "p_dist_type sp") (auto simp: server_pool_idx_def Let_def gf_simps)
qed

subsection \<open>Ejection\<close>

text \<open>The state \<open>server_failure\<close> rebuilds the distribution in, once a server reaches its limit.\<close>

definition eject :: "nat \<Rightarrow> nat \<Rightarrow> world \<Rightarrow> world" where
  "eject p s w =
     (let w = upd_server p s (\<lambda>sv. sv\<lparr>s_failure_count := s_failure_count sv + 1\<rparr>) w; (now, w) = gf_usec_now w;
          w = stats_pool_to_metric p P_server_ejects (\<lambda>n. n + 1) (stats_server_to_metric p s S_server_ejected_at (\<lambda>_. now) w)
      in upd_server p s (\<lambda>sv. sv\<lparr>s_failure_count := 0, s_next_retry := now + p_server_retry_timeout (pool w p)\<rparr>) w)"

lemma gf_usec_now_cong: "w_os w' = w_os w \<Longrightarrow> w_tick w' = w_tick w \<Longrightarrow> fst (gf_usec_now w') = fst (gf_usec_now w)"
  by (simp add: gf_usec_now_def sys_def split_def Let_def)

lemma w_tick_usec [simp]: "w_tick (snd (gf_usec_now w)) = Suc (w_tick w)"
  by (simp add: gf_usec_now_def sys_def split_def Let_def)

lemma eject_simps:
  assumes "s < length (p_server (pool w p))"
  shows "pool (eject p s w) p = (pool w p)\<lparr>p_server := (p_server (pool w p))[s := (server w p s)\<lparr>s_failure_count := 0,
      s_next_retry := fst (gf_usec_now w) + p_server_retry_timeout (pool w p)\<rparr>]\<rparr>"
    and "w_panic (eject p s w) = w_panic w" "w_os (eject p s w) = w_os w" "w_tick (eject p s w) = Suc (w_tick w)"
proof -
  have t: "fst (gf_usec_now (upd_server p s f w)) = fst (gf_usec_now w)" for f by (rule gf_usec_now_cong) simp_all
  show "pool (eject p s w) p = (pool w p)\<lparr>p_server := (p_server (pool w p))[s := (server w p s)\<lparr>s_failure_count := 0,
      s_next_retry := fst (gf_usec_now w) + p_server_retry_timeout (pool w p)\<rparr>]\<rparr>"
    using assms by (simp add: eject_def Let_def split_def t pool_upd_server)
qed (simp_all add: eject_def Let_def split_def)

lemma server_failure_eject:
  assumes "p_auto_eject_hosts (pool w p)" "s < length (p_server (pool w p))" "0 \<le> fst (gf_usec_now w)"
    and "p_server_failure_limit (pool w p) \<le> s_failure_count (server w p s) + 1"
  shows "server_failure p s w = map_option snd (server_pool_run p (eject p s w))"
proof -
  have t: "fst (gf_usec_now (upd_server p s f w)) = fst (gf_usec_now w)" for f by (rule gf_usec_now_cong) simp_all
  show ?thesis using assms
    by (simp add: server_failure_def eject_def Let_def split_def t pool_upd_server not_less)
      (cases "server_pool_run p (eject p s w)"; simp add: eject_def Let_def split_def t pool_upd_server)
qed


text \<open>
  C4: a server whose failures reach the limit is ejected: \<open>server_failure\<close> marks it and
  rebuilds the distribution, and as long as that distribution is in use no key is sent to the
  ejected server, with the ketama, the modula and the random distribution alike, while at
  least one server is live.
\<close>

theorem ejected_server_unused:
  assumes "\<not> w_panic w" "p_auto_eject_hosts (pool w p)" "s < length (p_server (pool w p))" "length (p_server (pool w p)) \<noteq> 1"
    and "p_server_failure_limit (pool w p) \<le> s_failure_count (server w p s) + 1"
    and "0 \<le> fst (gf_usec_now w)" "fst (gf_usec_now (eject p s w)) < fst (gf_usec_now w) + p_server_retry_timeout (pool w p)"
    and "pool_fit (pool (eject p s w) p)"
    and "server_pool_run p (eject p s w) = Some (GF_OK, w')" "p_nlive_server (pool w' p) \<noteq> 0"
  shows "server_failure p s w = Some w' \<and>
    (\<forall>m key keylen v i v'. server_pool_idx (pool w' p) m key keylen v = Some (i, v') \<longrightarrow>
       unat i < length (p_server (pool w p)) \<and> unat i \<noteq> s)"
proof -
  have np: "\<not> w_panic (eject p s w)" by (simp add: eject_simps [OF assms(3)] assms(1))
  note live = rebuilt_points_live [OF np assms(8-10)]
  have dead: "\<not> live_index (p_auto_eject_hosts (pool (eject p s w) p)) (fst (gf_usec_now (eject p s w))) (p_server (pool (eject p s w) p)) i"
    if "unat i = s" for i :: u32
    using assms(2,3,7) that by (simp add: live_index_def is_live_def eject_simps [OF assms(3)])
  have "unat i < length (p_server (pool w p)) \<and> unat i \<noteq> s" if "server_pool_idx (pool w' p) m key keylen v = Some (i, v')" for m key keylen v i v'
  proof -
    have "length (p_server (pool w' p)) \<noteq> 1" using live assms(4) by (simp add: eject_simps [OF assms(3)])
    with live that obtain e where "e \<in> set (take (unat (p_ncontinuum (pool w' p))) (the (p_continuum (pool w' p))))" "i = k_index e"
      using server_pool_idx_point by blast
    with live have "live_index (p_auto_eject_hosts (pool (eject p s w) p)) (fst (gf_usec_now (eject p s w))) (p_server (pool (eject p s w) p)) i"
      by blast
    with dead [of i] show ?thesis by (auto simp: live_index_def eject_simps [OF assms(3)])
  qed
  with server_failure_eject [OF assms(2,3,6,5)] assms(9) show ?thesis by auto
qed

definition eject_w :: world where
  "eject_w = w0\<lparr>w_pools := (\<lambda>_. sample_pool\<lparr>p_server_failure_limit := 1\<rparr>)\<rparr>"

lemma ejected_server_unused_witness:
  "\<exists>w'. server_failure 0 0 eject_w = Some w' \<and>
    (\<forall>m key keylen v i v'. server_pool_idx (pool w' 0) m key keylen v = Some (i, v') \<longrightarrow> unat i < 2 \<and> unat i \<noteq> 0)"
proof -
  have l: "0 < length (p_server (pool eject_w 0))" "length (p_server (pool eject_w 0)) = 2" by (simp_all add: eject_w_def sample_pool_def)
  have t0: "fst (gf_usec_now eject_w) = 10000000"
    by (simp add: eject_w_def gf_usec_now_def sys_def sample_res_def split_def Let_def)
  have p: "pool (eject 0 0 eject_w) 0 = sample_pool\<lparr>p_server_failure_limit := 1,
      p_server := [(sample_server 0 1)\<lparr>s_next_retry := 12000000\<rparr>, sample_server 1 2]\<rparr>"
    using l by (simp add: eject_simps t0) (simp add: eject_w_def sample_pool_def sample_server_def)
  have t: "fst (gf_usec_now eject_w) = 10000000" "fst (gf_usec_now (eject 0 0 eject_w)) = 10000000"
    using l t0 by (simp_all add: gf_usec_now_def sys_def split_def Let_def eject_simps) (simp_all add: eject_w_def sample_res_def)
  have fit: "pool_fit (pool (eject 0 0 eject_w) 0)"
    unfolding p by (simp add: pool_fit_def sample_pool_def sample_server_def points_per_unit_def capacity_ok_def)
  have np: "\<not> w_panic (eject 0 0 eject_w)" using l by (simp add: eject_simps) (simp add: eject_w_def)
  have "\<exists>w'. server_pool_run 0 (eject 0 0 eject_w) = Some (GF_OK, w') \<and> p_nlive_server (pool w' 0) \<noteq> 0"
  proof -
    have os: "w_os (eject 0 0 eject_w) = (\<lambda>_. sample_res 1 [120])" using l by (simp add: eject_simps) (simp add: eject_w_def)
    show ?thesis using np p os
      by (simp add: server_pool_run_def modula_update_def gf_usec_now_def sys_def sample_res_def Let_def split_def
        sample_pool_def sample_server_def grow_continuum_def realloc_continuum_def gf_alloc_def upd_pool_def
        grow_to_def live_servers_def modula_points_def MODULA_CONTINUUM_ADDITION_def MODULA_POINTS_PER_SERVER_def
        ASSERT_def put_points_fits)
  qed
  moreover have "\<not> w_panic eject_w" "p_auto_eject_hosts (pool eject_w 0)" "p_server_failure_limit (pool eject_w 0) \<le> s_failure_count (server eject_w 0 0) + 1"
    "p_server_retry_timeout (pool eject_w 0) = 2000000" by (simp_all add: eject_w_def sample_pool_def sample_server_def)
  ultimately show ?thesis
    using ejected_server_unused [of eject_w 0 0] l t fit by auto
qed

end
