(* ===== verification/Timeouts.thy ===== *)
theory Timeouts
  imports Core Effects
begin

section \<open>Request timeouts\<close>

text \<open>
  The expiry loop of the event loop over the tree of timeouts: what the close handlers do to
  the tree, that the loop ends and where, and what happens to the other requests of a
  connection that is closed for an overdue one.
\<close>

subsection \<open>What closing does to the tree\<close>

definition tmo_view :: "world \<Rightarrow> (int \<times> nat) list \<times> (nat \<Rightarrow> nat option \<times> int)" where
  "tmo_view w = (w_tmo w, \<lambda>n. (m_tmo_data (msg w n), m_tmo_key (msg w n)))"

definition tmo_bound :: "nat \<Rightarrow> world \<Rightarrow> bool" where
  "tmo_bound n w \<longleftrightarrow> tmo_inv w \<and> length (w_tmo w) \<le> n"

lemma tmo_inv_view: "tmo_view w' = tmo_view w \<Longrightarrow> tmo_inv w' = tmo_inv w"
proof -
  assume "tmo_view w' = tmo_view w"
  then have t: "w_tmo w' = w_tmo w" and "(\<lambda>n. (m_tmo_data (msg w' n), m_tmo_key (msg w' n))) = (\<lambda>n. (m_tmo_data (msg w n), m_tmo_key (msg w n)))"
    by (simp_all add: tmo_view_def)
  then have "m_tmo_data (msg w' n) = m_tmo_data (msg w n)" "m_tmo_key (msg w' n) = m_tmo_key (msg w n)" for n
    by (auto dest: fun_cong [of _ _ n])
  with t show ?thesis by (simp add: tmo_inv_def)
qed

lemma tmo_bound_view: "tmo_view w' = tmo_view w \<Longrightarrow> tmo_bound n w' = tmo_bound n w"
proof -
  assume v: "tmo_view w' = tmo_view w"
  then have "w_tmo w' = w_tmo w" by (simp only: tmo_view_def prod.inject)
  with tmo_inv_view [OF v] show ?thesis unfolding tmo_bound_def by simp
qed

lemma tmo_view_same: "w_tmo w' = w_tmo w \<Longrightarrow> w_msgs w' = w_msgs w \<Longrightarrow> tmo_view w' = tmo_view w"
  by (simp add: tmo_view_def)

lemma tmo_view_upd_msg [simp]:
  "(\<And>s. m_tmo_data (f s) = m_tmo_data s) \<Longrightarrow> (\<And>s. m_tmo_key (f s) = m_tmo_key s) \<Longrightarrow> tmo_view (upd_msg m f w) = tmo_view w"
  by (auto simp: tmo_view_def)

lemma tmo_view_simps [simp]:
  "tmo_view (upd_conn c g w) = tmo_view w" "tmo_view (upd_mbuf b h w) = tmo_view w"
  "tmo_view (upd_pool p k w) = tmo_view w" "tmo_view (upd_server p s l w) = tmo_view w"
  "tmo_view (snd (sys op w)) = tmo_view w" "tmo_view (snd (gf_usec_now w)) = tmo_view w" "tmo_view (snd (gf_msec_now w)) = tmo_view w"
  "tmo_view (snd (gf_alloc w)) = tmo_view w"
  "tmo_view (snd (sys_close sd w)) = tmo_view w" "tmo_view (snd (gf_get_soerror sd w)) = tmo_view w"
  "tmo_view (stats_pool_to_metric p i u w) = tmo_view w" "tmo_view (stats_server_to_metric p s j u w) = tmo_view w"
  by (simp_all add: tmo_view_def)


named_theorems tmo_rules \<open>steps that keep the timeout tree within its bound\<close>

lemma tmo_bound_upd_msg [simp]:
  "(\<And>s. m_tmo_data (f s) = m_tmo_data s) \<Longrightarrow> (\<And>s. m_tmo_key (f s) = m_tmo_key s) \<Longrightarrow> tmo_bound n (upd_msg m f w) = tmo_bound n w"
  by (rule tmo_bound_view) simp

lemma tmo_bound_simps [simp]:
  "tmo_bound n (upd_conn c g w) = tmo_bound n w" "tmo_bound n (upd_mbuf b h w) = tmo_bound n w"
  "tmo_bound n (upd_pool p k w) = tmo_bound n w" "tmo_bound n (upd_server p s l w) = tmo_bound n w"
  "tmo_bound n (snd (sys op w)) = tmo_bound n w" "tmo_bound n (snd (gf_usec_now w)) = tmo_bound n w"
  "tmo_bound n (snd (gf_msec_now w)) = tmo_bound n w"
  "tmo_bound n (snd (sys_close sd w)) = tmo_bound n w" "tmo_bound n (snd (gf_get_soerror sd w)) = tmo_bound n w"
  "tmo_bound n (stats_pool_to_metric p i u w) = tmo_bound n w" "tmo_bound n (stats_server_to_metric p s j u w) = tmo_bound n w"
  by (rule tmo_bound_view, simp)+

lemma tmo_view_fields [simp]:
  "tmo_view (w\<lparr>w_nfree_msgq := a\<rparr>) = tmo_view w" "tmo_view (w\<lparr>w_free_msgq := q\<rparr>) = tmo_view w"
  "tmo_view (w\<lparr>w_nfree_mbufq := a\<rparr>) = tmo_view w" "tmo_view (w\<lparr>w_free_mbufq := q\<rparr>) = tmo_view w"
  "tmo_view (w\<lparr>w_nfree_connq := a\<rparr>) = tmo_view w" "tmo_view (w\<lparr>w_free_connq := q\<rparr>) = tmo_view w"
  "tmo_view (w\<lparr>w_ncurr_conn := a\<rparr>) = tmo_view w" "tmo_view (w\<lparr>w_ncurr_cconn := a\<rparr>) = tmo_view w"
  "tmo_view (w\<lparr>w_errno := e\<rparr>) = tmo_view w" "tmo_view (w\<lparr>w_timeout := e\<rparr>) = tmo_view w"
  by (simp_all add: tmo_view_def)

lemma tmo_bound_fields [simp]:
  "tmo_bound n (w\<lparr>w_nfree_msgq := a\<rparr>) = tmo_bound n w" "tmo_bound n (w\<lparr>w_free_msgq := q\<rparr>) = tmo_bound n w"
  "tmo_bound n (w\<lparr>w_nfree_mbufq := a\<rparr>) = tmo_bound n w" "tmo_bound n (w\<lparr>w_free_mbufq := q\<rparr>) = tmo_bound n w"
  "tmo_bound n (w\<lparr>w_nfree_connq := a\<rparr>) = tmo_bound n w" "tmo_bound n (w\<lparr>w_free_connq := q\<rparr>) = tmo_bound n w"
  "tmo_bound n (w\<lparr>w_ncurr_conn := a\<rparr>) = tmo_bound n w" "tmo_bound n (w\<lparr>w_ncurr_cconn := a\<rparr>) = tmo_bound n w"
  "tmo_bound n (w\<lparr>w_errno := e\<rparr>) = tmo_bound n w" "tmo_bound n (w\<lparr>w_timeout := e\<rparr>) = tmo_bound n w"
  by (rule tmo_bound_view, simp)+

lemma tmo_bound_pair [tmo_rules]:
  "sys op w = (r, w') \<Longrightarrow> tmo_bound n w \<Longrightarrow> tmo_bound n w'"
  "gf_usec_now w = (t, w') \<Longrightarrow> tmo_bound n w \<Longrightarrow> tmo_bound n w'"
  "gf_msec_now w = (t, w') \<Longrightarrow> tmo_bound n w \<Longrightarrow> tmo_bound n w'"
  "sys_close sd w = (st, w') \<Longrightarrow> tmo_bound n w \<Longrightarrow> tmo_bound n w'"
  "gf_get_soerror sd w = (st, w') \<Longrightarrow> tmo_bound n w \<Longrightarrow> tmo_bound n w'"
  using tmo_bound_simps by (metis snd_conv)+

lemma tmo_bound_frame: "w_tmo w' = w_tmo w \<Longrightarrow> w_msgs w' = w_msgs w \<Longrightarrow> tmo_bound n w \<Longrightarrow> tmo_bound n w'"
  using tmo_bound_view tmo_view_same by blast

lemma tmo_bound_delete [tmo_rules]: "tmo_bound n w \<Longrightarrow> tmo_bound n (msg_tmo_delete m w)"
  by (auto simp: tmo_bound_def tmo_inv_delete) (auto simp: msg_tmo_delete_def Let_def intro: order_trans [OF length_filter_le])

lemma tmo_bound_event [tmo_rules]:
  "event_add_out c w = Some (st, w') \<Longrightarrow> tmo_bound n w \<Longrightarrow> tmo_bound n w'"
  "event_del_conn c w = Some (st, w') \<Longrightarrow> tmo_bound n w \<Longrightarrow> tmo_bound n w'"
  by (auto simp: event_add_out_def event_del_conn_def gf_simps epoll_ctl_def split_def Let_def split: if_splits)

lemma tmo_bound_mbuf_put [tmo_rules]: "mbuf_put b w = Some w' \<Longrightarrow> tmo_bound n w \<Longrightarrow> tmo_bound n w'"
  by (auto simp: mbuf_put_def gf_simps)

lemma tmo_bound_put_mbufs [tmo_rules]: "put_mbufs bs m w = Some w' \<Longrightarrow> tmo_bound n w \<Longrightarrow> tmo_bound n w'"
  by (induction bs arbitrary: w) (auto simp: gf_simps dest: tmo_bound_mbuf_put)

lemma tmo_bound_msg_put [tmo_rules]: "msg_put m w = Some w' \<Longrightarrow> tmo_bound n w \<Longrightarrow> tmo_bound n w'"
  by (auto simp: msg_put_def gf_simps Let_def dest: tmo_rules)

lemma tmo_bound_rsp_put [tmo_rules]: "rsp_put m w = Some w' \<Longrightarrow> tmo_bound n w \<Longrightarrow> tmo_bound n w'"
  by (auto simp: rsp_put_def gf_simps dest: tmo_rules)

lemma tmo_bound_req_log [tmo_rules]: "req_log m w = Some w' \<Longrightarrow> tmo_bound n w \<Longrightarrow> tmo_bound n w'"
  by (auto simp: req_log_def gf_simps Let_def split: if_splits)

lemma tmo_bound_drop_peer [tmo_rules]: "drop_peer m w = Some w' \<Longrightarrow> tmo_bound n w \<Longrightarrow> tmo_bound n w'"
  by (auto simp: drop_peer_def gf_simps Let_def split: option.splits dest!: tmo_bound_rsp_put)

lemma tmo_bound_req_put [tmo_rules]: "req_put m w = Some w' \<Longrightarrow> tmo_bound n w \<Longrightarrow> tmo_bound n w'"
  by (auto simp: req_put_def gf_simps Let_def intro: tmo_bound_delete dest!: tmo_bound_req_log tmo_bound_drop_peer tmo_bound_msg_put)

lemma tmo_bound_marks [simp]: "tmo_bound n (mark_fdone ms w) = tmo_bound n w" "tmo_bound n (mark_ferror ms w) = tmo_bound n w"
  unfolding mark_fdone_def mark_ferror_def by (induction ms arbitrary: w) simp_all

text \<open>The coalescing of a protocol works on the messages and arms or disarms no timeout.\<close>

definition coalesce_keeps_timeouts :: "ext \<Rightarrow> bool" where
  "coalesce_keeps_timeouts X \<longleftrightarrow> (\<forall>k m w w'. x_post_coalesce X k m w = Some w' \<longrightarrow> tmo_view w' = tmo_view w)"

lemma tmo_bound_coalesce [tmo_rules]:
  "call_post_coalesce X f m w = Some w' \<Longrightarrow> coalesce_keeps_timeouts X \<Longrightarrow> tmo_bound n w \<Longrightarrow> tmo_bound n w'"
  using tmo_bound_view [of w' w] by (auto simp: call_post_coalesce_def gf_simps coalesce_keeps_timeouts_def)

lemma tmo_bound_req_done [tmo_rules]:
  assumes "req_done X c m w = Some (d, w')" "coalesce_keeps_timeouts X" "tmo_bound n w"
  shows "tmo_bound n w'"
proof -
  have "post (\<lambda>(d, w'). tmo_bound n w') (req_done X c m w)"
    unfolding req_done_def using assms(2,3) by (intro post_intros) (auto dest: tmo_bound_coalesce)
  from postD [OF this assms(1)] show ?thesis by simp
qed

lemma tmo_bound_dequeue [tmo_rules]:
  "call_dequeue_inq c m w = Some w' \<Longrightarrow> tmo_bound n w \<Longrightarrow> tmo_bound n w'"
  "call_dequeue_outq c m w = Some w' \<Longrightarrow> tmo_bound n w \<Longrightarrow> tmo_bound n w'"
  by (auto simp: call_dequeue_inq_def call_dequeue_outq_def req_server_dequeue_imsgq_def req_client_dequeue_omsgq_def
      req_server_dequeue_omsgq_def gf_simps Let_def stats_server_decr_def stats_server_decr_by_def tmo_bound_delete
      split: option.splits handler.splits if_splits)

lemma tmo_bound_unref [tmo_rules]: "call_unref c w = Some w' \<Longrightarrow> tmo_bound n w \<Longrightarrow> tmo_bound n w'"
  by (auto simp: call_unref_def client_unref_def server_unref_def proxy_unref_def gf_simps Let_def
      split: option.splits handler.splits owner.splits)

lemma tmo_bound_conn_put [tmo_rules]: "conn_put c w = Some w' \<Longrightarrow> tmo_bound n w \<Longrightarrow> tmo_bound n w'"
  by (auto simp: conn_put_def gf_simps Let_def split: if_splits)

lemma tmo_bound_server_failure [tmo_rules]: "server_failure p s w = Some w' \<Longrightarrow> tmo_bound n w \<Longrightarrow> tmo_bound n w'"
proof -
  assume s: "server_failure p s w = Some w'" and b: "tmo_bound n w"
  have run: "server_pool_run q v = Some (st, v') \<Longrightarrow> tmo_bound n v \<Longrightarrow> tmo_bound n v'" for q v st v'
    by (drule server_pool_run_only, drule only_pools_fields) (auto intro: tmo_bound_frame)
  have "post (tmo_bound n) (server_failure p s w)"
    unfolding server_failure_def using b by (intro post_intros) (auto dest!: run dest: tmo_bound_pair)
  from postD [OF this s] show ?thesis .
qed

lemma tmo_bound_close_with_error [tmo_rules]:
  assumes "close_with_error X c m w = Some w'" "coalesce_keeps_timeouts X" "tmo_bound n w"
  shows "tmo_bound n w'"
proof -
  have "post (tmo_bound n) (close_with_error X c m w)"
    unfolding close_with_error_def using assms(2,3)
    by (intro post_intros) (auto dest!: tmo_bound_req_done tmo_bound_event split: option.splits)
  from postD [OF this assms(1)] show ?thesis .
qed

lemma tmo_bound_close_loops [tmo_rules]:
  "client_close_omsgs ms c w = Some w' \<Longrightarrow> tmo_bound n w \<Longrightarrow> tmo_bound n w'"
  "server_close_imsgs ms X c w = Some w' \<Longrightarrow> coalesce_keeps_timeouts X \<Longrightarrow> tmo_bound n w \<Longrightarrow> tmo_bound n w'"
  "server_close_omsgs ms X c w = Some w' \<Longrightarrow> coalesce_keeps_timeouts X \<Longrightarrow> tmo_bound n w \<Longrightarrow> tmo_bound n w'"
proof -
  show "client_close_omsgs ms c w = Some w' \<Longrightarrow> tmo_bound n w \<Longrightarrow> tmo_bound n w'"
    by (induction ms arbitrary: w) (auto simp: gf_simps Let_def dest!: tmo_bound_dequeue tmo_bound_req_put split: if_splits)
  show "server_close_imsgs ms X c w = Some w' \<Longrightarrow> coalesce_keeps_timeouts X \<Longrightarrow> tmo_bound n w \<Longrightarrow> tmo_bound n w'"
    by (induction ms arbitrary: w) (auto simp: gf_simps dest!: tmo_bound_dequeue tmo_bound_req_put tmo_bound_close_with_error split: if_splits)
  show "server_close_omsgs ms X c w = Some w' \<Longrightarrow> coalesce_keeps_timeouts X \<Longrightarrow> tmo_bound n w \<Longrightarrow> tmo_bound n w'"
    by (induction ms arbitrary: w) (auto simp: gf_simps dest!: tmo_bound_dequeue tmo_bound_req_put tmo_bound_close_with_error split: if_splits)
qed

lemma tmo_bound_close_stats [tmo_rules]:
  "client_close_stats p err eof w = Some w' \<Longrightarrow> tmo_bound n w \<Longrightarrow> tmo_bound n w'"
  "server_close_stats p s err eof con w = Some w' \<Longrightarrow> tmo_bound n w \<Longrightarrow> tmo_bound n w'"
  by (auto simp: client_close_stats_def server_close_stats_def gf_simps split: if_splits)

lemma tmo_bound_core_close:
  assumes "core_close X c w = Some w'" "coalesce_keeps_timeouts X" "tmo_bound n w"
  shows "tmo_bound n w'"
proof -
  have p: "post (tmo_bound n) (proxy_close c v)" if "tmo_bound n v" for v
    unfolding proxy_close_def using that by (intro post_intros) (auto simp del: ASSERT_Some intro!: postI dest!: tmo_bound_unref tmo_bound_pair tmo_bound_conn_put)
  have cl: "post (tmo_bound n) (client_close c v)" if "tmo_bound n v" for v
    unfolding client_close_def using that
    by (intro post_intros) (auto simp: gf_simps Let_def simp del: ASSERT_Some split: if_splits option.splits
        intro!: postI dest!: tmo_bound_unref tmo_bound_pair tmo_bound_conn_put tmo_bound_close_loops tmo_bound_req_put tmo_bound_close_stats)
  have sv: "post (tmo_bound n) (server_close X c v)" if "tmo_bound n v" for v
    unfolding server_close_def using that assms(2)
    by (intro post_intros) (auto simp: gf_simps Let_def simp del: ASSERT_Some split: if_splits option.splits
        intro!: postI dest!: tmo_bound_unref tmo_bound_pair tmo_bound_conn_put tmo_bound_close_loops tmo_bound_rsp_put tmo_bound_server_failure tmo_bound_close_stats)
  have "post (tmo_bound n) (core_close X c w)"
    unfolding core_close_def call_close_def using assms(3)
    by (intro post_intros) (auto simp del: ASSERT_Some dest!: tmo_bound_event split: handler.splits intro: p cl sv post_intros)
  from postD [OF this assms(1)] show ?thesis .
qed

lemma tmo_min_armed:
  assumes "tmo_bound n w" "msg_tmo_min w = Some m"
  shows "m_tmo_data (msg w m) \<noteq> None"
  using msg_tmo_min_least [of w] assms by (simp add: tmo_bound_def)

lemma msg_tmo_min_delete:
  assumes "tmo_bound n w" "msg_tmo_min w = Some m"
  shows "0 < n \<and> tmo_bound (n - 1) (msg_tmo_delete m w)"
proof -
  obtain k xs where t: "w_tmo w = (k, m) # xs" using assms(2) by (auto simp: msg_tmo_min_def split: list.splits)
  have "m_tmo_data (msg w m) \<noteq> None" using assms by (rule tmo_min_armed)
  with t have "length (w_tmo (msg_tmo_delete m w)) \<le> length xs" by (simp add: msg_tmo_delete_def Let_def)
  with assms(1) t show ?thesis by (auto simp: tmo_bound_def tmo_inv_delete)
qed

text \<open>One iteration of the loop that goes on.\<close>

definition tmo_live :: "nat \<Rightarrow> world \<Rightarrow> bool" where
  "tmo_live m w \<longleftrightarrow> msg_tmo_min w = Some m \<and> \<not> m_error (msg w m) \<and> \<not> m_done (msg w m)"

definition tmo_expired :: "nat \<Rightarrow> world \<Rightarrow> bool" where
  "tmo_expired m w \<longleftrightarrow> tmo_live m w \<and> m_tmo_key (msg w m) \<le> fst (gf_msec_now w)"

definition expire_conn :: "ext \<Rightarrow> nat \<Rightarrow> nat \<Rightarrow> world \<Rightarrow> world option" where
  "expire_conn X m c w = core_close X c (upd_conn c (\<lambda>s. s\<lparr>c_err := ETIMEDOUT\<rparr>) (msg_tmo_delete m (snd (gf_msec_now w))))"

inductive timeout_step :: "ext \<Rightarrow> world \<Rightarrow> world \<Rightarrow> bool" for X where
  skip: "msg_tmo_min w = Some m \<Longrightarrow> \<not> tmo_live m w \<Longrightarrow> timeout_step X w (msg_tmo_delete m w)"
| expire: "tmo_expired m w \<Longrightarrow> m_tmo_data (msg w m) = Some c \<Longrightarrow> expire_conn X m c w = Some w' \<Longrightarrow> timeout_step X w w'"

text \<open>How the loop ends: nothing armed, or the earliest deadline is in the future.\<close>

definition timeout_ends :: "world \<Rightarrow> world \<Rightarrow> bool" where
  "timeout_ends v w' \<longleftrightarrow> (case msg_tmo_min v of
     None \<Rightarrow> w' = v\<lparr>w_timeout := w_max_timeout v\<rparr>
   | Some m \<Rightarrow> tmo_live m v \<and> fst (gf_msec_now v) < m_tmo_key (msg v m) \<and>
       w' = (snd (gf_msec_now v))\<lparr>w_timeout := min (tmo_delta (m_tmo_key (msg v m)) (fst (gf_msec_now v))) (w_max_timeout v)\<rparr>)"

definition timeout_faults :: "ext \<Rightarrow> world \<Rightarrow> bool" where
  "timeout_faults X v \<longleftrightarrow> (\<exists>m c. tmo_expired m v \<and> m_tmo_data (msg v m) = Some c \<and> expire_conn X m c v = None)"

lemma core_timeout_Suc:
  assumes "msg_tmo_min w = Some m" "m_tmo_data (msg w m) = Some c"
  shows "core_timeout (Suc k) X w =
     (if \<not> tmo_live m w then core_timeout k X (msg_tmo_delete m w)
      else if \<not> tmo_expired m w
      then Some ((snd (gf_msec_now w))\<lparr>w_timeout := min (tmo_delta (m_tmo_key (msg w m)) (fst (gf_msec_now w))) (w_max_timeout w)\<rparr>)
      else Option.bind (expire_conn X m c w) (core_timeout k X))"
  using assms by (simp add: tmo_live_def tmo_expired_def expire_conn_def split_def Let_def not_le)

lemma tmo_bound_expire:
  assumes "tmo_bound n w" "msg_tmo_min w = Some m" "expire_conn X m c w = Some w'" "coalesce_keeps_timeouts X"
  shows "0 < n \<and> tmo_bound (n - 1) w'"
proof -
  have "tmo_bound n (snd (gf_msec_now w))" "msg_tmo_min (snd (gf_msec_now w)) = Some m" using assms(1,2) by (simp_all add: msg_tmo_min_def)
  from msg_tmo_min_delete [OF this] tmo_bound_core_close [OF assms(3)[unfolded expire_conn_def] assms(4)] show ?thesis by simp
qed

lemma core_timeout_run:
  assumes "tmo_bound n w" "coalesce_keeps_timeouts X" "n < fuel"
  shows "\<exists>v. (timeout_step X)\<^sup>*\<^sup>* w v \<and> (case core_timeout fuel X w of Some w' \<Rightarrow> timeout_ends v w' | None \<Rightarrow> timeout_faults X v)"
  using assms(1,3)
proof (induction n arbitrary: w fuel rule: less_induct)
  case (less n)
  obtain k where k: "fuel = Suc k" using less.prems(2) by (cases fuel) auto
  show ?case
  proof (cases "msg_tmo_min w")
    case None
    then show ?thesis by (intro exI [of _ w]) (auto simp: k timeout_ends_def)
  next
    case (Some m)
    with tmo_min_armed [OF less.prems(1)] obtain c where c: "m_tmo_data (msg w m) = Some c" by auto
    note unf = core_timeout_Suc [OF Some c, of k X]
    consider (skip) "\<not> tmo_live m w" | (wait) "tmo_live m w" "\<not> tmo_expired m w"
      | (fault) "tmo_expired m w" "expire_conn X m c w = None" | (close) w1 where "tmo_expired m w" "expire_conn X m c w = Some w1"
      by (cases "expire_conn X m c w") auto
    then show ?thesis
    proof cases
      case skip
      note d = msg_tmo_min_delete [OF less.prems(1) Some]
      obtain v where "(timeout_step X)\<^sup>*\<^sup>* (msg_tmo_delete m w) v"
          "case core_timeout k X (msg_tmo_delete m w) of Some w' \<Rightarrow> timeout_ends v w' | None \<Rightarrow> timeout_faults X v"
        using less.IH [of "n - 1" "msg_tmo_delete m w" k] conjunct1 [OF d] conjunct2 [OF d] less.prems(2) k by force
      with skip unf timeout_step.skip [OF Some skip, of X] show ?thesis
        unfolding k by (intro exI [of _ v]) (auto intro: converse_rtranclp_into_rtranclp)
    next
      case wait
      with unf Some show ?thesis unfolding k
        by (intro exI [of _ w]) (auto simp: timeout_ends_def tmo_expired_def)
    next
      case fault
      with unf c show ?thesis unfolding k
        by (intro exI [of _ w]) (auto simp: timeout_faults_def tmo_expired_def)
    next
      case close
      note d = tmo_bound_expire [OF less.prems(1) Some close(2) assms(2)]
      obtain v where "(timeout_step X)\<^sup>*\<^sup>* w1 v"
          "case core_timeout k X w1 of Some w' \<Rightarrow> timeout_ends v w' | None \<Rightarrow> timeout_faults X v"
        using less.IH [of "n - 1" w1 k] conjunct1 [OF d] conjunct2 [OF d] less.prems(2) k by force
      with close unf timeout_step.expire [OF close(1) c close(2)] show ?thesis
        unfolding k by (intro exI [of _ v]) (auto simp: tmo_expired_def intro: converse_rtranclp_into_rtranclp)
    qed
  qed
qed

text \<open>
  C14: the expiry loop of the event loop terminates: with fuel above the
  number of armed requests it never runs out, whatever the clock and the kernel return.
  After some iterations, each of which drops a finished request or closes the connection of
  an overdue one, either nothing is armed and the poll timeout is the maximum, or the
  earliest deadline is in the future and the poll timeout is the time to it, capped at the
  maximum; the only other outcome is that closing the connection of an overdue request
  faults.
\<close>

theorem core_timeout_returns:
  assumes "tmo_inv w" "length (w_tmo w) < fuel" "coalesce_keeps_timeouts X"
  shows "\<exists>v. (timeout_step X)\<^sup>*\<^sup>* w v \<and> (case core_timeout fuel X w of Some w' \<Rightarrow> timeout_ends v w' | None \<Rightarrow> timeout_faults X v)"
  using core_timeout_run [of "length (w_tmo w)" w X fuel] assms by (simp add: tmo_bound_def)

lemma only_pools_frames:
  "only_pools w w' \<Longrightarrow> w_msgs w' = w_msgs w" "only_pools w w' \<Longrightarrow> w_conns w' = w_conns w" "only_pools w w' \<Longrightarrow> w_tmo w' = w_tmo w"
  "only_pools w w' \<Longrightarrow> w_panic w' = w_panic w"
  by (auto dest: only_pools_fields)

lemma server_failure_frame:
  assumes "server_failure p s w = Some w'"
  shows "w_msgs w' = w_msgs w \<and> w_tmo w' = w_tmo w \<and> w_conns w' = w_conns w \<and> w_panic w' = w_panic w"
proof -
  have u: "gf_usec_now v = (t, v') \<Longrightarrow> w_msgs v' = w_msgs v \<and> w_tmo v' = w_tmo v \<and> w_conns v' = w_conns v \<and> w_panic v' = w_panic v" for v t v'
    using only_pools_fields [OF only_pools_step(2), of v] by auto
  have "post (\<lambda>w'. w_msgs w' = w_msgs w \<and> w_tmo w' = w_tmo w \<and> w_conns w' = w_conns w \<and> w_panic w' = w_panic w) (server_failure p s w)"
    unfolding server_failure_def
    by (intro post_intros) (auto dest!: u server_pool_run_only only_pools_fields)
  from postD [OF this assms] show ?thesis .
qed

lemma server_close_stats_frame:
  "server_close_stats p s err eof con w = Some w' \<Longrightarrow> w_msgs w' = w_msgs w \<and> w_tmo w' = w_tmo w \<and> w_conns w' = w_conns w \<and> w_panic w' = w_panic w"
  by (auto simp: server_close_stats_def gf_simps split: if_splits)

text \<open>The descriptors closed so far, in order; rebuilding the distribution closes none.\<close>

fun closed_fd :: "sysop \<Rightarrow> int list" where
  "closed_fd (Sys_close fd) = [fd]"
| "closed_fd _ = []"

definition closes :: "world \<Rightarrow> int list" where
  "closes w = concat (map (closed_fd \<circ> fst) (w_trace w))"

lemma closes_trace: "w_trace w' = w_trace w \<Longrightarrow> closes w' = closes w"
  by (simp add: closes_def)

lemma closes_sys: "sys op w = (r, w') \<Longrightarrow> closes w' = closes w @ closed_fd op"
  by (auto simp: closes_def sys_def Let_def)

lemma closes_upd [simp]:
  "closes (upd_pool p f w) = closes w" "closes (upd_server p s g w) = closes w" "closes (upd_conn c h w) = closes w"
  "closes (upd_msg m k w) = closes w"
  by (simp_all add: closes_def upd_pool_def upd_server_def upd_conn_def upd_msg_def)

lemma closes_time:
  "gf_usec_now w = (t, w') \<Longrightarrow> closes w' = closes w" "gf_msec_now w = (t, w') \<Longrightarrow> closes w' = closes w"
  by (auto simp: gf_usec_now_def gf_msec_now_def split_def Let_def sys_def closes_def split: if_splits)

lemma closes_grow: "grow_continuum p u a b w = (st, w') \<Longrightarrow> closes w' = closes w"
  by (auto simp: grow_continuum_def realloc_continuum_def gf_alloc_def split_def Let_def sys_def closes_def upd_pool_def split: if_splits)

lemma closes_random: "closes (snd (sys Sys_srandom (snd (sys Sys_time w)))) = closes w"
  by (simp add: closes_def sys_def Let_def)

lemma server_pool_run_closes: "server_pool_run p w = Some (st, w') \<Longrightarrow> closes w' = closes w"
proof -
  have m: "post (\<lambda>(st, w'). closes w' = closes w) (modula_update p w)"
    unfolding modula_update_def by (intro post_intros) (auto dest!: closes_time closes_grow)
  have r: "post (\<lambda>(st, w'). closes w' = closes w) (random_update p w)"
    unfolding random_update_def by (intro post_intros) (auto dest!: closes_time closes_grow simp: closes_random)
  have k: "post (\<lambda>(st, w'). closes w' = closes w) (ketama_update p w)"
    unfolding ketama_update_def by (intro post_intros) (auto dest!: closes_time closes_grow)
  show "server_pool_run p w = Some (st, w') \<Longrightarrow> closes w' = closes w"
    by (auto simp: server_pool_run_def gf_simps split: dist_type.splits dest: postD [OF m] postD [OF r] postD [OF k])
qed

lemma closes_metric [simp]:
  "closes (stats_pool_to_metric p f k w) = closes w" "closes (stats_server_to_metric p s g k w) = closes w"
  by (simp_all add: closes_def stats_pool_to_metric_def stats_server_to_metric_def Let_def)

lemma closes_stats:
  "server_close_stats p s err eof con w = Some w' \<Longrightarrow> closes w' = closes w"
  by (auto simp: server_close_stats_def gf_simps split: if_splits)

lemma server_failure_closes:
  assumes "server_failure p s w = Some w'"
  shows "closes w' = closes w"
proof -
  have "post (\<lambda>w'. closes w' = closes w) (server_failure p s w)"
    unfolding server_failure_def by (intro post_intros) (auto dest!: closes_time server_pool_run_closes)
  from postD [OF this assms] show ?thesis .
qed

lemma server_close_open:
  assumes "server_close X c w = Some w'" "0 < c_sd (conn w c)"
  shows "w_msgs w' = w_msgs w \<and> w_tmo w' = w_tmo w \<and> conn w' c = (conn w c)\<lparr>c_connected := False, c_owner := None\<rparr>
    \<and> closes w' = closes w"
proof -
  obtain p s w1 w2 w3 where s: "server_close_stats p s (c_err (conn w c)) (c_eof (conn w c)) (c_connected (conn w c)) w = Some w1"
    "server_failure p s (upd_conn c (\<lambda>x. x\<lparr>c_connected := False\<rparr>) w1) = Some w2" "call_unref c w2 = Some w3" "conn_put c w3 = Some w'"
  proof -
    from assms(1) obtain a b v where cs: "conn_server c w = Some (a, b)"
      and v: "server_close_stats a b (c_err (conn w c)) (c_eof (conn w c)) (c_connected (conn w c)) w = Some v"
      by (auto simp: server_close_def gf_simps)
    have "c_sd (conn v c) = c_sd (conn w c)" using server_close_stats_frame [OF v] by simp
    with assms v cs that show thesis by (simp add: server_close_def gf_simps Let_def) blast
  qed
  have 1: "w_msgs w1 = w_msgs w \<and> w_tmo w1 = w_tmo w \<and> w_conns w1 = w_conns w \<and> closes w1 = closes w"
    using server_close_stats_frame [OF s(1)] closes_stats [OF s(1)] by simp
  have 2: "w_msgs w2 = w_msgs w \<and> w_tmo w2 = w_tmo w \<and> conn w2 c = (conn w c)\<lparr>c_connected := False\<rparr> \<and> closes w2 = closes w"
    using server_failure_frame [OF s(2)] server_failure_closes [OF s(2)] 1 by auto
  have 3: "w_msgs w3 = w_msgs w2 \<and> w_tmo w3 = w_tmo w2 \<and> conn w3 c = (conn w2 c)\<lparr>c_owner := None\<rparr> \<and> w_trace w3 = w_trace w2"
    using s(3) by (auto simp: call_unref_def client_unref_def server_unref_def proxy_unref_def gf_simps Let_def
      split: option.splits handler.splits owner.splits)
  have 4: "w_msgs w' = w_msgs w3 \<and> w_tmo w' = w_tmo w3 \<and> conn w' c = conn w3 c \<and> w_trace w' = w_trace w3"
    using s(4) by (auto simp: conn_put_def gf_simps Let_def)
  from 1 2 3 4 show ?thesis by (simp add: closes_def)
qed

subsection \<open>Expiry on an open server connection\<close>

text \<open>A server connection that is open and carries the error of an expired request.\<close>

definition server_conn_open :: "nat \<Rightarrow> world \<Rightarrow> bool" where
  "server_conn_open c w \<longleftrightarrow> 0 < c_sd (conn w c) \<and> c_close (conn w c) = Some H_server_close"

lemma expire_conn_open:
  assumes "expire_conn X m c w = Some w'" "server_conn_open c w"
  shows "msg w' n = msg (msg_tmo_delete m w) n \<and> w_tmo w' = w_tmo (msg_tmo_delete m w)
    \<and> c_close (conn w' c) = Some H_server_close \<and> c_owner (conn w' c) = None
    \<and> c_sd (conn w' c) = c_sd (conn w c) \<and> closes w' = closes w"
proof -
  let ?v = "upd_conn c (\<lambda>s. s\<lparr>c_err := ETIMEDOUT\<rparr>) (msg_tmo_delete m (snd (gf_msec_now w)))"
  obtain st w1 where e: "event_del_conn c ?v = Some (st, w1)" and s: "server_close X c w1 = Some w'"
  proof -
    from assms obtain st w1 where e: "event_del_conn c ?v = Some (st, w1)" and s: "call_close X c w1 = Some w'"
      by (auto simp: expire_conn_def core_close_def gf_simps)
    have "c_close (conn w1 c) = Some H_server_close"
      using e assms(2) by (auto simp: event_del_conn_def gf_simps epoll_ctl_def split_def Let_def server_conn_open_def msg_tmo_delete_def split: if_splits)
    with e s that show thesis by (simp add: call_close_def)
  qed
  have 1: "w_msgs w1 = w_msgs (msg_tmo_delete m w) \<and> w_tmo w1 = w_tmo (msg_tmo_delete m w) \<and> c_sd (conn w1 c) = c_sd (conn w c)
      \<and> c_close (conn w1 c) = Some H_server_close"
    using e assms(2) by (auto simp: event_del_conn_def gf_simps epoll_ctl_def split_def Let_def server_conn_open_def msg_tmo_delete_def upd_msg_def split: if_splits)
  have "closes ?v = closes w"
    using closes_time(2) [of w] by (cases "gf_msec_now w") (auto simp: msg_tmo_delete_def Let_def intro: trans [OF closes_trace])
  moreover have "closes w1 = closes ?v"
    using e by (auto simp: event_del_conn_def gf_simps epoll_ctl_def split_def Let_def closes_sys [OF prod.collapse [symmetric]] split: if_splits)
  ultimately show ?thesis using server_close_open [OF s] 1 assms(2) by (simp add: server_conn_open_def)
qed

text \<open>
  C38: \<open>server_close\<close> takes its early return when the descriptor is
  open (\<open>conn->sd > 0\<close>), where the code means the closed one.  When a request on an open
  server connection expires and its close has a result (the assertion of \<open>conn_put\<close> that the
  descriptor is gone fails, and does not abort in this build), no descriptor is closed: the socket
  stays in the connection that goes back to the pool of free ones.  No message
  changes besides the disarming of that request: the other requests queued on the connection
  get no error and stay armed with the connection as their data, though it has no owner any
  more.  If the next of them is overdue too, the expiry loop follows the NULL owner and has
  no result, whatever its fuel.
\<close>

theorem second_expiry_faults:
  assumes "tmo_inv w" "w_tmo w = (k1, m1) # (k2, m2) # rest"
    and "m_tmo_data (msg w m1) = Some c" "m_tmo_data (msg w m2) = Some c" "server_conn_open c w"
    and "\<not> m_error (msg w m2)" "\<not> m_done (msg w m2)"
    and "expire_conn X m1 c w = Some w1" "k2 \<le> fst (gf_msec_now w1)"
  shows "closes w1 = closes w \<and> c_sd (conn w1 c) = c_sd (conn w c) \<and> c_owner (conn w1 c) = None
    \<and> w_msgs w1 = w_msgs (msg_tmo_delete m1 w) \<and> msg_tmo_min w1 = Some m2 \<and> core_timeout fuel X w1 = None"
proof -
  have ne: "m2 \<noteq> m1" and key: "m_tmo_key (msg w m2) = k2"
    using assms(1,2) by (auto simp: tmo_inv_def)
  note e = expire_conn_open [OF assms(8,5)]
  have w1: "w_msgs w1 = w_msgs (msg_tmo_delete m1 w)" using e by auto
  have min: "msg_tmo_min w1 = Some m2"
    using e assms(2,3) ne by (simp add: msg_tmo_min_def msg_tmo_delete_def Let_def)
  have m2: "msg w1 m2 = msg w m2" using e ne by (simp add: msg_tmo_delete_def Let_def)
  have ex: "tmo_expired m2 w1" using min m2 assms(6,7,9) key by (simp add: tmo_expired_def tmo_live_def)
  have f: "expire_conn X m2 c w1 = None"
  proof (rule ccontr)
    assume "expire_conn X m2 c w1 \<noteq> None"
    then obtain w2 where "expire_conn X m2 c w1 = Some w2" by auto
    then obtain st v where v: "event_del_conn c (upd_conn c (\<lambda>s. s\<lparr>c_err := ETIMEDOUT\<rparr>) (msg_tmo_delete m2 (snd (gf_msec_now w1)))) = Some (st, v)"
      "call_close X c v = Some w2" by (auto simp: expire_conn_def core_close_def gf_simps)
    then have "c_close (conn v c) = Some H_server_close" "c_owner (conn v c) = None"
      using e by (auto simp: event_del_conn_def gf_simps epoll_ctl_def split_def Let_def msg_tmo_delete_def split: if_splits)
    with v(2) show False by (auto simp: call_close_def server_close_def conn_server_def gf_simps)
  qed
  have "core_timeout fuel X w1 = None"
  proof (cases fuel)
    case (Suc k)
    then show ?thesis using core_timeout_Suc [OF min, of c k X] m2 assms(4) ex f by (auto simp: tmo_expired_def)
  qed simp
  with w1 min e show ?thesis by simp
qed

text \<open>Two requests wait for the response of the open connection 0; both are overdue.\<close>

definition expire_w :: world where
  "expire_w = w0\<lparr>w_tmo := [(5, 0), (6, 1)],
     w_msgs := (\<lambda>n. if n < 2 then sample_msg\<lparr>m_request := True, m_tmo_key := 5 + int n, m_tmo_data := Some 0\<rparr> else sample_msg),
     w_conns := (\<lambda>_. server_handlers (sample_conn\<lparr>c_owner := Some (OServer 0 0), c_omsg_q := [0, 1]\<rparr>)),
     w_pools := (\<lambda>_. sample_pool\<lparr>p_server := [(sample_server 0 1)\<lparr>s_ns_conn_q := 1, s_conn_q := [0]\<rparr>]\<rparr>)\<rparr>"

lemma expire_w_inv: "tmo_inv expire_w"
  by (auto simp: tmo_inv_def expire_w_def sample_msg_def less_2_cases_iff)

lemma core_timeout_returns_witness:
  "\<exists>v. (timeout_step sample_ext)\<^sup>*\<^sup>* expire_w v \<and>
     (case core_timeout 3 sample_ext expire_w of Some w' \<Rightarrow> timeout_ends v w' | None \<Rightarrow> timeout_faults sample_ext v)"
  by (rule core_timeout_returns [OF expire_w_inv]) (auto simp: expire_w_def coalesce_keeps_timeouts_def sample_ext_def)

lemma expire_w_close:
  "\<exists>w1. expire_conn sample_ext 0 0 expire_w = Some w1 \<and> fst (gf_msec_now w1) = 10000"
  by (simp add: expire_w_def expire_conn_def core_close_def event_del_conn_def epoll_ctl_def call_close_def server_close_def
      conn_server_def server_close_stats_def server_failure_def call_unref_def server_unref_def conn_put_def q_remove_def
      gf_msec_now_def gf_usec_now_def sys_def sample_res_def msg_tmo_delete_def upd_msg_def upd_conn_def upd_server_def upd_pool_def
      server_handlers_def sample_conn_def sample_msg_def sample_pool_def sample_server_def ASSERT_def Let_def
      stats_server_to_metric_def)

lemma second_expiry_faults_witness:
  "\<exists>w1. expire_conn sample_ext 0 0 expire_w = Some w1 \<and> closes w1 = closes expire_w \<and> c_sd (conn w1 0) = c_sd (conn expire_w 0)
     \<and> core_timeout 100 sample_ext w1 = None"
proof -
  obtain w1 where w1: "expire_conn sample_ext 0 0 expire_w = Some w1" "fst (gf_msec_now w1) = 10000"
    using expire_w_close by blast
  have "closes w1 = closes expire_w \<and> c_sd (conn w1 0) = c_sd (conn expire_w 0) \<and> core_timeout 100 sample_ext w1 = None"
    using second_expiry_faults [OF expire_w_inv, of 5 0 6 1 "[]" 0 sample_ext w1 100] w1
    by (simp add: expire_w_def sample_msg_def sample_conn_def server_handlers_def server_conn_open_def)
  with w1 show ?thesis by blast
qed

end
