(* ===== verification/Lifecycle.thy ===== *)
theory Lifecycle
  imports Core Effects
begin

section \<open>The life of a connection\<close>

text \<open>
  From the pool through its owner to the close handlers: which connections a server has, how
  many clients are admitted and what a closed connection leaves behind.
\<close>

subsection \<open>Closing\<close>

lemma client_unref_owner: "client_unref c w = Some w' \<Longrightarrow> c_owner (conn w' c) = None"
  by (auto simp: client_unref_def q_remove_def Let_def gf_simps split: option.splits owner.splits if_splits)

lemma server_unref_owner: "server_unref c w = Some w' \<Longrightarrow> c_owner (conn w' c) = None"
  by (auto simp: server_unref_def q_remove_def Let_def gf_simps split: option.splits owner.splits if_splits)

lemma proxy_unref_owner: "proxy_unref c w = Some w' \<Longrightarrow> c_owner (conn w' c) = None"
  by (auto simp: proxy_unref_def Let_def gf_simps split: option.splits owner.splits)

lemma call_unref_owner: "call_unref c w = Some w' \<Longrightarrow> c_owner (conn w' c) = None"
  by (auto simp: call_unref_def split: option.splits handler.splits
      dest: client_unref_owner server_unref_owner proxy_unref_owner)

lemma conn_put_conns: "conn_put c w = Some w' \<Longrightarrow> w_conns w' = w_conns w"
  by (auto simp: conn_put_def Let_def gf_simps)

lemma client_close_owner: "client_close c w = Some w' \<Longrightarrow> c_owner (conn w' c) = None"
  unfolding client_close_def
  by (auto simp: gf_simps Let_def split_def split: if_splits dest!: call_unref_owner conn_put_conns)

lemma proxy_close_owner: "proxy_close c w = Some w' \<Longrightarrow> c_owner (conn w' c) = None"
  unfolding proxy_close_def
  by (auto simp: gf_simps Let_def split_def split: if_splits dest!: call_unref_owner conn_put_conns)

lemma server_close_owner: "server_close X c w = Some w' \<Longrightarrow> c_owner (conn w' c) = None"
  unfolding server_close_def
  by (auto simp: gf_simps Let_def split_def split: if_splits dest!: call_unref_owner conn_put_conns)

lemma call_close_owner: "call_close X c w = Some w' \<Longrightarrow> c_owner (conn w' c) = None"
  by (auto simp: call_close_def split: option.splits handler.splits
      dest: client_close_owner server_close_owner proxy_close_owner)

text \<open>
  once \<open>core_close\<close> returns, for a client, a server or a listening
  connection and on every path of their close handlers, the connection has no owner, and
  every event for it that \<open>epoll_wait\<close> reported in the same batch is dropped without
  changing the state.
\<close>

theorem closed_conn_ignored:
  assumes "core_close X c w = Some w'"
  shows "c_owner (conn w' c) = None \<and> event_dispatch (core_core fuel X) (map (\<lambda>ev. (c, ev)) evs) w' = Some w'"
proof -
  have "c_owner (conn w' c) = None" using assms call_close_owner by (auto simp: core_close_def gf_simps)
  then show ?thesis by (induction evs) (simp_all add: core_core_def)
qed

definition close_w :: world where
  "close_w = w0\<lparr>w_conns := (\<lambda>_. client_handlers (sample_conn\<lparr>c_owner := Some (OPool 0), c_client := True\<rparr>)),
     w_pools := (\<lambda>_. sample_pool\<lparr>p_nc_conn_q := 1, p_c_conn_q := [3]\<rparr>)\<rparr>"

lemma closed_conn_ignored_witness:
  "\<exists>w'. core_close sample_ext 3 close_w = Some w' \<and>
     event_dispatch (core_core 9 sample_ext) (map (\<lambda>ev. (3, ev)) [0x1, 0x8]) w' = Some w'"
proof -
  have "\<exists>w'. core_close sample_ext 3 close_w = Some w'"
    by (simp add: close_w_def core_close_def event_del_conn_def epoll_ctl_def call_close_def client_close_def conn_pool_def
        client_close_stats_def call_unref_def client_unref_def conn_put_def q_remove_def sys_def sample_res_def sys_close_def
        upd_conn_def upd_pool_def client_handlers_def sample_conn_def sample_pool_def ASSERT_def Let_def stats_pool_to_metric_def split_def)
  with closed_conn_ignored show ?thesis by blast
qed

subsection \<open>The connections of a server\<close>

definition addr_usable :: "server \<Rightarrow> bool" where
  "addr_usable sv \<longleftrightarrow> (s_addrstr sv \<noteq> [] \<and> hd (s_addrstr sv) = 47) \<or> gf_valid_port (uint (s_port sv))"

text \<open>
  The queue of a server holds distinct connections in use that it owns, no more than the pool
  allows, and the counter is its length.
\<close>

definition server_conns_ok :: "nat \<Rightarrow> nat \<Rightarrow> world \<Rightarrow> bool" where
  "server_conns_ok p s w \<longleftrightarrow> s < length (p_server (pool w p)) \<and> addr_usable (server w p s)
     \<and> distinct (s_conn_q (server w p s)) \<and> set (s_conn_q (server w p s)) \<subseteq> live_conns w
     \<and> (\<forall>c\<in>set (s_conn_q (server w p s)). c_owner (conn w c) = Some (OServer p s) \<and> is_server_conn (conn w c))
     \<and> s_ns_conn_q (server w p s) = word_of_nat (length (s_conn_q (server w p s)))
     \<and> length (s_conn_q (server w p s)) \<le> unat (p_server_connections (pool w p))"

lemma ns_conn_q_unat:
  assumes "server_conns_ok p s w"
  shows "unat (s_ns_conn_q (server w p s)) = length (s_conn_q (server w p s))"
proof -
  have "unat (p_server_connections (pool w p)) < 2 ^ LENGTH(32)" by (rule unsigned_less)
  then have "length (s_conn_q (server w p s)) < 2 ^ 32" using assms by (simp add: server_conns_ok_def)
  with assms show ?thesis by (simp add: server_conns_ok_def unat_of_nat take_bit_nat_eq_self)
qed

lemma gf_resolve_total: "addr_usable sv \<Longrightarrow> \<exists>st si w'. gf_resolve (s_addrstr sv) (uint (s_port sv)) si0 w = Some (st, si, w')
    \<and> w_conns w' = w_conns w \<and> w_pools w' = w_pools w \<and> w_free_connq w' = w_free_connq w \<and> w_nconn w' = w_nconn w
    \<and> w_nfree_connq w' = w_nfree_connq w \<and> w_ncurr_conn w' = w_ncurr_conn w \<and> w_ncurr_cconn w' = w_ncurr_cconn w"
  by (auto simp: gf_resolve_def addr_usable_def gf_resolve_inet_def split_def Let_def gf_resolve_unix_def)

lemma server_ref_run:
  assumes "is_server_conn (conn w c)" "c_owner (conn w c) = None" "s < length (p_server (pool w p))" "addr_usable (server w p s)"
  shows "\<exists>w'. server_ref c p s w = Some w'
    \<and> s_conn_q (server w' p s) = s_conn_q (server w p s) @ [c] \<and> s_ns_conn_q (server w' p s) = s_ns_conn_q (server w p s) + 1
    \<and> s < length (p_server (pool w' p)) \<and> addr_usable (server w' p s) \<and> p_server_connections (pool w' p) = p_server_connections (pool w p)
    \<and> c_owner (conn w' c) = Some (OServer p s) \<and> c_client (conn w' c) = c_client (conn w c) \<and> c_proxy (conn w' c) = c_proxy (conn w c)
    \<and> (\<forall>d. d \<noteq> c \<longrightarrow> conn w' d = conn w d)
    \<and> w_free_connq w' = w_free_connq w \<and> w_nconn w' = w_nconn w
    \<and> w_nfree_connq w' = w_nfree_connq w \<and> w_ncurr_conn w' = w_ncurr_conn w \<and> w_ncurr_cconn w' = w_ncurr_cconn w"
proof -
  obtain st si v where r: "gf_resolve (s_addrstr (server w p s)) (uint (s_port (server w p s))) (s_info (server w p s)) w = Some (st, si, v)"
    "w_conns v = w_conns w" "w_pools v = w_pools w" "w_free_connq v = w_free_connq w" "w_nconn v = w_nconn w"
    "w_nfree_connq v = w_nfree_connq w" "w_ncurr_conn v = w_ncurr_conn w" "w_ncurr_cconn v = w_ncurr_cconn w"
    using gf_resolve_total [OF assms(4), of "s_info (server w p s)" w] by blast
  show ?thesis
  proof (cases "st = GF_OK")
    case True
    with assms r show ?thesis
      by (simp add: server_ref_def server_resolve_def is_server_conn_def Let_def pool_upd_server addr_usable_def)
  next
    case False
    with assms r show ?thesis
      by (simp add: server_ref_def server_resolve_def is_server_conn_def Let_def pool_upd_server addr_usable_def)
  qed
qed


lemma server_conn_rotate:
  assumes "server_conns_ok p s w" "length (s_conn_q (server w p s)) = unat (p_server_connections (pool w p))"
    and "0 < p_server_connections (pool w p)"
  shows "\<exists>w'. server_conn p s w = Some (Some (hd (s_conn_q (server w p s))), w') \<and> server_conns_ok p s w'
    \<and> s_conn_q (server w' p s) = rotate1 (s_conn_q (server w p s)) \<and> w_conns w' = w_conns w
    \<and> w_free_connq w' = w_free_connq w \<and> w_nconn w' = w_nconn w \<and> conns_inv w' = conns_inv w
    \<and> p_server_connections (pool w' p) = p_server_connections (pool w p)"
proof -
  have n: "s_ns_conn_q (server w p s) = p_server_connections (pool w p)"
    using ns_conn_q_unat [OF assms(1)] assms(2) by (simp add: word_unat_eq_iff)
  obtain c q where q: "s_conn_q (server w p s) = c # q" using assms(2,3) by (cases "s_conn_q (server w p s)") (auto simp: unsigned_eq_0_iff)
  let ?w = "upd_server p s (\<lambda>sv. sv\<lparr>s_conn_q := s_conn_q sv @ [c]\<rparr>) (upd_server p s (\<lambda>sv. sv\<lparr>s_conn_q := q\<rparr>) w)"
  have eq: "server_conn p s w = Some (Some c, ?w)" using assms(1) n q by (simp add: server_conn_def server_conns_ok_def)
  have s: "s < length (p_server (pool w p))" using assms(1) by (simp add: server_conns_ok_def)
  have "server_conns_ok p s ?w"
    using assms(1) s q by (auto simp: server_conns_ok_def pool_upd_server addr_usable_def live_conns_def)
  with eq q s show ?thesis by (simp add: pool_upd_server conns_inv_def live_conns_def)
qed

lemma server_conn_open_new:
  assumes "server_conns_ok p s w" "length (s_conn_q (server w p s)) < unat (p_server_connections (pool w p))"
    and "conns_inv w" "w_nconn w < 2 ^ 32" "server_conn p s w = r"
  obtains (nomem) "r = Some (None, snd (gf_alloc w))" "w_free_connq w = []"
    | (got) w' where "r = Some (Some (conn_next w), w')" "server_conns_ok p s w'" "conns_inv w'"
        "s_conn_q (server w' p s) = s_conn_q (server w p s) @ [conn_next w]" "conn_next w \<notin> live_conns w"
        "live_conns w' = insert (conn_next w) (live_conns w)" "\<And>d. d \<noteq> conn_next w \<Longrightarrow> conn w' d = conn w d"
        "w_nconn w' \<le> Suc (w_nconn w)" "p_server_connections (pool w' p) = p_server_connections (pool w p)"
proof -
  have lt: "s_ns_conn_q (server w p s) < p_server_connections (pool w p)"
    using ns_conn_q_unat [OF assms(1)] assms(2) by (simp add: word_less_nat_alt)
  then have eq: "server_conn p s w = conn_get (OServer p s) False (p_redis (pool w p)) w" by (simp add: server_conn_def)
  from assms(3,4) show thesis
  proof (cases rule: conn_take_cases)
    case nomem
    with that(1) eq assms(5) show ?thesis by (simp add: conn_get_def)
  next
    case got
    let ?c = "conn_next w"
    let ?v = "conn_setup ?c (conn_popped w)"
    let ?u = "upd_conn ?c server_handlers (upd_conn ?c (\<lambda>s. s\<lparr>c_redis := p_redis (pool w p), c_client := False\<rparr>) ?v)"
    note live = conn_popped_live [OF assms(3)]
    have inv: "conns_inv ?v" "live_conns ?v = insert ?c (live_conns w)" using conn_setup_inv [OF assms(3)] live by simp_all
    have pools: "w_pools ?u = w_pools w" by (simp add: conn_setup_def conn_popped_def)
    have conns: "conn ?u d = conn w d" if "d \<noteq> ?c" for d using that by (simp add: conn_popped_def)
    have g: "conn_get (OServer p s) False (p_redis (pool w p)) w = map_option (\<lambda>w. (Some ?c, w)) (server_ref ?c p s ?u)"
      using got by (simp add: conn_get_def Let_def call_ref_def server_handlers_def conn_reset_def)
        (cases "server_ref ?c p s ?u"; simp add: server_handlers_def)
    have new: "is_server_conn (conn ?u ?c)" "c_owner (conn ?u ?c) = None"
      by (simp_all add: is_server_conn_def server_handlers_def conn_reset_def)
    have "s < length (p_server (pool ?u p))" "addr_usable (server ?u p s)" using assms(1) pools by (simp_all add: server_conns_ok_def)
    from server_ref_run [OF new this] obtain w' where r: "server_ref ?c p s ?u = Some w'"
      "s_conn_q (server w' p s) = s_conn_q (server ?u p s) @ [?c]" "s_ns_conn_q (server w' p s) = s_ns_conn_q (server ?u p s) + 1"
      "s < length (p_server (pool w' p))" "addr_usable (server w' p s)" "p_server_connections (pool w' p) = p_server_connections (pool ?u p)"
      "c_owner (conn w' ?c) = Some (OServer p s)" "c_client (conn w' ?c) = c_client (conn ?u ?c)" "c_proxy (conn w' ?c) = c_proxy (conn ?u ?c)"
      "\<forall>d. d \<noteq> ?c \<longrightarrow> conn w' d = conn ?u d"
      "w_free_connq w' = w_free_connq ?u" "w_nconn w' = w_nconn ?u"
      "w_nfree_connq w' = w_nfree_connq ?u" "w_ncurr_conn w' = w_ncurr_conn ?u" "w_ncurr_cconn w' = w_ncurr_cconn ?u"
      by blast
    have lv: "live_conns w' = insert ?c (live_conns w)" using r inv(2) by (simp add: live_conns_def)
    have cl: "c_client (conn w' d) = c_client (conn ?v d)" for d
      using r by (cases "d = ?c") (simp_all add: server_handlers_def conn_reset_def)
    have ne: "?c \<notin> set (s_conn_q (server w p s))" using assms(1) live(1) by (auto simp: server_conns_ok_def)
    have "conns_inv w'" using inv r lv cl by (simp add: conns_inv_def)
    moreover have "server_conns_ok p s w'"
    proof -
      have "c_owner (conn w' d) = Some (OServer p s) \<and> is_server_conn (conn w' d)" if "d \<in> set (s_conn_q (server w p s))" for d
      proof -
        have "d \<noteq> ?c" using that ne by auto
        then have "conn w' d = conn w d" using r(10) conns by simp
        with that assms(1) show ?thesis by (simp add: server_conns_ok_def)
      qed
      moreover have "is_server_conn (conn w' ?c)" using r(8,9) new(1) by (simp add: is_server_conn_def)
      ultimately show ?thesis using assms(1,2) r(2-7) pools lv ne by (auto simp: server_conns_ok_def)
    qed
    moreover have "w_nconn w' \<le> Suc (w_nconn w)" using r by (simp add: conn_popped_def)
    ultimately show ?thesis using that(2) r g eq assms(5) lv live(1) conns pools by simp
  qed
qed


text \<open>
  The operations on the connections of one server: picking one, and what the close handler
  does with one of them: unbinding it and returning it to the pool.
\<close>

datatype conn_op = Pick | Drop nat

primrec conn_ops_run :: "nat \<Rightarrow> nat \<Rightarrow> conn_op list \<Rightarrow> world \<Rightarrow> world option" where
  "conn_ops_run p s [] w = Some w"
| "conn_ops_run p s (x # xs) w = do {
     w \<leftarrow> (case x of
         Pick \<Rightarrow> do { (r, w) \<leftarrow> server_conn p s w; Some w }
       | Drop c \<Rightarrow>
           if c \<in> set (s_conn_q (server w p s))
           then do { w \<leftarrow> server_unref c w; conn_put c (upd_conn c (\<lambda>x. x\<lparr>c_sd := - 1\<rparr>) w) }
           else Some w);
     conn_ops_run p s xs w }"

lemma server_conn_keeps:
  assumes "server_conns_ok p s w" "conns_inv w" "w_nconn w < 2 ^ 32" "0 < p_server_connections (pool w p)"
  shows "\<exists>r w'. server_conn p s w = Some (r, w') \<and> server_conns_ok p s w' \<and> conns_inv w'
    \<and> w_nconn w' \<le> Suc (w_nconn w) \<and> p_server_connections (pool w' p) = p_server_connections (pool w p)"
proof (cases "length (s_conn_q (server w p s)) = unat (p_server_connections (pool w p))")
  case True
  with server_conn_rotate [OF assms(1) True assms(4)] assms(2) show ?thesis by auto
next
  case False
  then have lt: "length (s_conn_q (server w p s)) < unat (p_server_connections (pool w p))"
    using assms(1) by (simp add: server_conns_ok_def)
  from assms(1) lt assms(2,3) refl show ?thesis
  proof (cases rule: server_conn_open_new)
    case nomem
    have "server_conns_ok p s (snd (gf_alloc w))" "conns_inv (snd (gf_alloc w))"
      using assms(1,2) by (simp_all add: server_conns_ok_def conns_inv_def live_conns_def)
    with nomem show ?thesis by simp
  next
    case (got w')
    then show ?thesis by blast
  qed
qed

lemma server_drop_keeps:
  assumes "server_conns_ok p s w" "conns_inv w" "c \<in> set (s_conn_q (server w p s))"
  shows "\<exists>w1 w'. server_unref c w = Some w1 \<and> conn_put c (upd_conn c (\<lambda>x. x\<lparr>c_sd := - 1\<rparr>) w1) = Some w'
    \<and> server_conns_ok p s w' \<and> conns_inv w' \<and> w_nconn w' = w_nconn w \<and> p_server_connections (pool w' p) = p_server_connections (pool w p)
    \<and> s_conn_q (server w' p s) = remove1 c (s_conn_q (server w p s))"
proof -
  let ?q = "s_conn_q (server w p s)"
  let ?w1 = "upd_server p s (\<lambda>sv. sv\<lparr>s_ns_conn_q := s_ns_conn_q sv - 1, s_conn_q := remove1 c ?q\<rparr>) (upd_conn c (\<lambda>x. x\<lparr>c_owner := None\<rparr>) w)"
  let ?w2 = "upd_conn c (\<lambda>x. x\<lparr>c_sd := - 1\<rparr>) ?w1"
  have ok: "s < length (p_server (pool w p))" "c_owner (conn w c) = Some (OServer p s)" "is_server_conn (conn w c)" "c \<in> live_conns w"
    "distinct ?q" using assms(1,3) by (auto simp: server_conns_ok_def)
  have "0 < length ?q" using assms(3) by (cases ?q) auto
  then have pos: "0 < s_ns_conn_q (server w p s)" using ns_conn_q_unat [OF assms(1)] by (simp add: word_less_nat_alt)
  have u: "server_unref c w = Some ?w1" using ok assms(3) pos
    by (simp add: server_unref_def is_server_conn_def q_remove_def)
  have lv: "live_conns ?w2 = live_conns w" by (simp add: live_conns_def)
  have cl: "c_client (conn ?w2 d) = c_client (conn w d)" for d by simp
  have "conns_inv ?w2" using assms(2) cl lv by (simp add: conns_inv_def)
  then obtain w' where p: "conn_put c ?w2 = Some w'" "live_conns w' = live_conns w - {c}" "conns_inv w'" "w_nconn w' = w_nconn w"
    "w_conns w' = w_conns ?w2" using conn_put_inv [of ?w2 c] ok(4) lv by auto
  have pools: "w_pools w' = w_pools ?w2" using p(1) by (auto simp: conn_put_def gf_simps Let_def)
  have len: "length (remove1 c ?q) = length ?q - 1" using assms(3) by (simp add: length_remove1)
  have w1: "s_ns_conn_q (server w p s) - 1 = word_of_nat (length (remove1 c ?q))"
  proof -
    obtain n where "length ?q = Suc n" using \<open>0 < length ?q\<close> by (cases "length ?q") auto
    with assms(1) len show ?thesis by (simp add: server_conns_ok_def)
  qed
  have "length (remove1 c ?q) \<le> unat (p_server_connections (pool w p))"
    using assms(1) len by (auto simp: server_conns_ok_def intro: order_trans [OF diff_le_self])
  moreover have "addr_usable (server w p s)" "\<forall>c\<in>set ?q. c_owner (conn w c) = Some (OServer p s) \<and> is_server_conn (conn w c)" "set ?q \<subseteq> live_conns w"
    using assms(1) by (simp_all add: server_conns_ok_def)
  ultimately have "server_conns_ok p s w'"
    using ok p(2,5) pools w1 by (auto simp: server_conns_ok_def pool_upd_server addr_usable_def is_server_conn_def)
  with u p pools ok(1) show ?thesis by (auto simp: pool_upd_server)
qed


text \<open>
  C3: in every sequence of picks of a connection to a server and of
  closes of its connections, with any allocation or name resolution failing, no assertion
  fails and the queue of the server holds distinct connections that are in use and owned by
  the server, never more than \<open>server_connections\<close>, its counter is its length, and the
  counters of the connection pool stay exact.
\<close>

theorem server_conns_bounded:
  assumes "server_conns_ok p s w" "conns_inv w" "w_nconn w + length ops < 2 ^ 32" "0 < p_server_connections (pool w p)"
  shows "\<exists>w'. conn_ops_run p s ops w = Some w' \<and> server_conns_ok p s w' \<and> conns_inv w'
    \<and> length (s_conn_q (server w' p s)) \<le> unat (p_server_connections (pool w p))"
  using assms
proof (induction ops arbitrary: w)
  case Nil
  then show ?case by (simp add: server_conns_ok_def)
next
  case (Cons x ops)
  show ?case
  proof (cases x)
    case Pick
    from Cons.prems obtain r w1 where "server_conn p s w = Some (r, w1)" "server_conns_ok p s w1" "conns_inv w1"
      "w_nconn w1 \<le> Suc (w_nconn w)" "p_server_connections (pool w1 p) = p_server_connections (pool w p)"
      using server_conn_keeps [of p s w] by auto
    with Cons.IH [of w1] Cons.prems(3,4) Pick show ?thesis by auto
  next
    case (Drop c)
    with Cons server_drop_keeps [OF Cons.prems(1,2), of c] show ?thesis
      by (cases "c \<in> set (s_conn_q (server w p s))") (fastforce simp: Drop)+
  qed
qed

primrec picks :: "nat \<Rightarrow> nat \<Rightarrow> nat \<Rightarrow> world \<Rightarrow> (nat list \<times> world) option" where
  "picks 0 p s w = Some ([], w)"
| "picks (Suc k) p s w = do {
     (r, w) \<leftarrow> server_conn p s w;
     c \<leftarrow> r;
     (cs, w) \<leftarrow> picks k p s w;
     Some (c # cs, w) }"

lemma nth_rotate1: "n < length xs \<Longrightarrow> rotate1 xs ! n = xs ! (Suc n mod length xs)"
  by (cases xs) (auto simp: nth_append mod_Suc)

text \<open>
  once a server has all the connections it is allowed, successive
  calls of \<open>server_conn\<close> return them in turn, the least recently used first, and open none.
\<close>

theorem server_conn_round_robin:
  assumes "server_conns_ok p s w" "length (s_conn_q (server w p s)) = unat (p_server_connections (pool w p))"
    and "0 < p_server_connections (pool w p)"
  shows "\<exists>w'. picks k p s w = Some (map (\<lambda>i. s_conn_q (server w p s) ! (i mod length (s_conn_q (server w p s)))) [0..<k], w')
    \<and> w_conns w' = w_conns w"
  using assms
proof (induction k arbitrary: w)
  case (Suc k)
  let ?q = "s_conn_q (server w p s)"
  have ne: "?q \<noteq> []" using Suc.prems(2,3) by (auto simp: unsigned_eq_0_iff)
  obtain w1 where w1: "server_conn p s w = Some (Some (hd ?q), w1)" "server_conns_ok p s w1" "s_conn_q (server w1 p s) = rotate1 ?q"
    "w_conns w1 = w_conns w" "p_server_connections (pool w1 p) = p_server_connections (pool w p)"
    using server_conn_rotate [OF Suc.prems] by blast
  then obtain w' where w': "picks k p s w1 = Some (map (\<lambda>i. rotate1 ?q ! (i mod length ?q)) [0..<k], w')" "w_conns w' = w_conns w1"
    using Suc.IH [of w1] Suc.prems(2,3) by auto
  have "rotate1 ?q ! (i mod length ?q) = ?q ! (Suc i mod length ?q)" for i
    using ne by (simp add: nth_rotate1 mod_Suc_eq)
  then have "hd ?q # map (\<lambda>i. rotate1 ?q ! (i mod length ?q)) [0..<k] = map (\<lambda>i. ?q ! (i mod length ?q)) [0..<Suc k]"
    using ne by (simp add: upt_conv_Cons hd_conv_nth o_def map_Suc_upt [symmetric] del: upt_Suc map_Suc_upt)
  with w1 w' show ?case by simp
qed simp


definition pick_w :: world where
  "pick_w = w0\<lparr>w_nconn := 2, w_ncurr_conn := 2,
     w_conns := (\<lambda>_. server_handlers (sample_conn\<lparr>c_owner := Some (OServer 0 0)\<rparr>)),
     w_pools := (\<lambda>_. sample_pool\<lparr>p_server_connections := 2, p_server := [(sample_server 0 1)\<lparr>s_ns_conn_q := 2, s_conn_q := [0, 1]\<rparr>]\<rparr>)\<rparr>"

lemma pick_w_ok: "server_conns_ok 0 0 pick_w" "conns_inv pick_w" "w_nconn pick_w = 2" "p_server_connections (pool pick_w 0) = 2"
  by (auto simp: pick_w_def server_conns_ok_def conns_inv_def live_conns_def addr_usable_def w0_def sample_world_def
      sample_pool_def sample_server_def sample_conn_def server_handlers_def is_server_conn_def)

lemma server_conns_bounded_witness:
  "\<exists>w'. conn_ops_run 0 0 [Pick, Drop 1, Pick, Pick] pick_w = Some w' \<and> server_conns_ok 0 0 w' \<and> conns_inv w'
    \<and> length (s_conn_q (server w' 0 0)) \<le> 2"
  using server_conns_bounded [OF pick_w_ok(1,2), of "[Pick, Drop 1, Pick, Pick]"] by (simp add: pick_w_ok)

lemma server_conn_round_robin_witness: "\<exists>w'. picks 3 0 0 pick_w = Some ([0, 1, 0], w') \<and> w_conns w' = w_conns pick_w"
proof -
  have q: "s_conn_q (server pick_w 0 0) = [0, 1]" by (simp add: pick_w_def)
  then show ?thesis using server_conn_round_robin [OF pick_w_ok(1), of 3] by (simp add: pick_w_ok upt_rec)
qed

subsection \<open>The limit on client connections\<close>

definition client_count :: "world \<Rightarrow> u32 \<times> u32" where
  "client_count w = (w_ncurr_cconn w, w_max_ncconn w)"

lemma client_count_simps [simp]:
  "client_count (upd_conn c g w) = client_count w" "client_count (upd_mbuf b h w) = client_count w" "client_count (upd_msg m f w) = client_count w"
  "client_count (upd_pool p k w) = client_count w" "client_count (upd_server p s l w) = client_count w"
  "client_count (snd (sys op w)) = client_count w" "client_count (snd (gf_usec_now w)) = client_count w" "client_count (snd (gf_alloc w)) = client_count w"
  "client_count (snd (sys_close sd w)) = client_count w" "client_count (snd (gf_set_nonblocking sd w)) = client_count w"
  "client_count (snd (gf_set_tcpkeepalive sd w)) = client_count w" "client_count (snd (gf_set_tcpnodelay sd w)) = client_count w"
  by (simp_all add: client_count_def gf_set_tcpkeepalive_def gf_set_tcpnodelay_def)

lemma client_count_stats [simp]:
  "client_count (stats_pool_to_metric p i u w) = client_count w" "client_count (stats_server_to_metric p s j u w) = client_count w"
  by (simp_all add: client_count_def stats_pool_to_metric_def stats_server_to_metric_def Let_def)

lemma client_count_pair:
  "sys op w = (r, w') \<Longrightarrow> client_count w' = client_count w"
  "sys_close sd w = (st, w') \<Longrightarrow> client_count w' = client_count w"
  "gf_set_nonblocking sd w = (st, w') \<Longrightarrow> client_count w' = client_count w"
  "gf_alloc w = (ok, w') \<Longrightarrow> client_count w' = client_count w"
  using client_count_simps by (metis snd_conv)+

lemma accept_loop_count: "accept_loop k c w = Some (r, w') \<Longrightarrow> client_count w' = client_count w"
  by (induction k arbitrary: w) (auto simp: split_def Let_def split: if_splits)

lemma event_add_conn_count: "event_add_conn c w = Some (st, w') \<Longrightarrow> client_count w' = client_count w"
  by (auto simp: event_add_conn_def gf_simps epoll_ctl_def split_def Let_def split: if_splits)

lemma conn_take_count: "conn_take w = Some (r, w') \<Longrightarrow> client_count w' = client_count w \<and> (\<forall>c. r = Some c \<longrightarrow> conn w' c = conn_reset (conn w c))"
  by (auto simp: conn_take_def gf_simps split_def Let_def client_count_def conn_setup_def split: list.splits if_splits)

lemma client_ref_frame:
  assumes "client_ref c p w = Some w'"
  shows "client_count w' = client_count w \<and> c_client (conn w' c) = c_client (conn w c) \<and> c_omsg_q (conn w' c) = c_omsg_q (conn w c)
    \<and> c_rmsg (conn w' c) = c_rmsg (conn w c) \<and> c_close (conn w' c) = c_close (conn w c) \<and> c_unref (conn w' c) = c_unref (conn w c)"
  using assms by (simp add: client_ref_def gf_simps Let_def) (elim conjE, hypsubst, simp)

definition new_client :: "nat \<Rightarrow> world \<Rightarrow> bool" where
  "new_client c w \<longleftrightarrow> c_client (conn w c) \<and> c_omsg_q (conn w c) = [] \<and> c_rmsg (conn w c) = None
     \<and> c_close (conn w c) = Some H_client_close \<and> c_unref (conn w c) = Some H_client_unref"

lemma conn_get_client_count:
  assumes "conn_get (OPool p) True redis w = Some (r, w')"
  shows "case r of None \<Rightarrow> client_count w' = client_count w
    | Some c \<Rightarrow> client_count w' = (w_ncurr_cconn w + 1, w_max_ncconn w) \<and> new_client c w'"
proof -
  obtain r1 w1 where t: "conn_take w = Some (r1, w1)" using assms by (auto simp: conn_get_def gf_simps)
  show ?thesis
  proof (cases r1)
    case None
    with assms t conn_take_count [OF t] show ?thesis by (simp add: conn_get_def)
  next
    case (Some c)
    let ?u = "upd_conn c client_handlers (upd_conn c (\<lambda>s. s\<lparr>c_redis := redis, c_client := True\<rparr>) w1)"
    have r: "r = Some c" "client_ref c p (?u\<lparr>w_ncurr_cconn := w_ncurr_cconn w1 + 1\<rparr>) = Some w'"
      using assms t Some by (auto simp: conn_get_def gf_simps Let_def call_ref_def client_handlers_def)
    from client_ref_frame [OF r(2)] conn_take_count [OF t] Some r(1) show ?thesis
      by (simp add: client_count_def new_client_def client_handlers_def conn_reset_def)
  qed
qed

lemma client_close_count:
  assumes "client_close c w = Some w'" "new_client c w"
  shows "client_count w' = (w_ncurr_cconn w - 1, w_max_ncconn w)"
proof -
  have u: "call_unref c v = Some v' \<Longrightarrow> client_count v' = client_count v \<and> c_client (conn v' c) = c_client (conn v c)" for v v'
    by (auto simp: call_unref_def client_unref_def server_unref_def proxy_unref_def gf_simps Let_def
        split: option.splits handler.splits owner.splits)
  have p: "conn_put c v = Some v' \<Longrightarrow> c_client (conn v c) \<Longrightarrow> client_count v' = (w_ncurr_cconn v - 1, w_max_ncconn v)" for v v'
    by (auto simp: conn_put_def gf_simps Let_def client_count_def)
  obtain a w1 where a: "conn_pool c w = Some a" and s: "client_close_stats a (c_err (conn w c)) (c_eof (conn w c)) w = Some w1"
    using assms(1) by (auto simp: client_close_def gf_simps)
  have s': "w_conns w1 = w_conns w" "client_count w1 = client_count w"
    using s by (auto simp: client_close_stats_def gf_simps split: if_splits)
  consider (unopened) v where "call_unref c w1 = Some v" "conn_put c v = Some w'"
    | (opened) v where "call_unref c w1 = Some v"
        "conn_put c (upd_conn c (\<lambda>s. s\<lparr>c_sd := - 1\<rparr>) (snd (sys_close (c_sd (conn v c)) v))) = Some w'"
    using assms a s s' by (cases "c_sd (conn w c) < 0") (auto simp: client_close_def gf_simps Let_def split_def new_client_def)
  then show ?thesis
  proof cases
    case unopened
    with u [OF unopened(1)] p [OF unopened(2)] s' assms(2) show ?thesis by (simp add: new_client_def client_count_def)
  next
    case opened
    with u [OF opened(1)] p [OF opened(2)] s' assms(2) show ?thesis by (simp add: new_client_def client_count_def)
  qed
qed

text \<open>The state after a client connection was taken: one more than \<open>n\<close>.\<close>

definition admitted :: "u32 \<Rightarrow> u32 \<Rightarrow> nat \<Rightarrow> world \<Rightarrow> bool" where
  "admitted n mx c w \<longleftrightarrow> client_count w = (n + 1, mx) \<and> new_client c w"

lemma admitted_conns: "w_conns w' = w_conns w \<Longrightarrow> client_count w' = client_count w \<Longrightarrow> admitted n mx c w' = admitted n mx c w"
  by (simp add: admitted_def new_client_def)

lemma admitted_simps [simp]:
  "admitted n mx c (upd_conn d (\<lambda>s. s\<lparr>c_sd := sd\<rparr>) w) = admitted n mx c w"
  "admitted n mx c (stats_pool_to_metric p i u w) = admitted n mx c w"
  "admitted n mx c (snd (gf_set_tcpkeepalive sd w)) = admitted n mx c w"
  "admitted n mx c (snd (gf_set_tcpnodelay sd w)) = admitted n mx c w"
  by (simp_all add: admitted_def new_client_def gf_set_tcpkeepalive_def gf_set_tcpnodelay_def client_count_def
      stats_pool_to_metric_def Let_def)

lemma admitted_step:
  "gf_set_nonblocking sd w = (s, w') \<Longrightarrow> admitted n mx c w' = admitted n mx c w"
  "event_add_conn d w = Some (st, w') \<Longrightarrow> admitted n mx c w' = admitted n mx c w"
  "call_close X c w = Some w' \<Longrightarrow> admitted n mx c w \<Longrightarrow> client_count w' = (n, mx)"
proof -
  show "gf_set_nonblocking sd w = (s, w') \<Longrightarrow> admitted n mx c w' = admitted n mx c w"
    using gf_set_nonblocking_frame(17) [of sd w] client_count_simps(10) [of sd w] by (auto simp: admitted_def new_client_def)
  show "event_add_conn d w = Some (st, w') \<Longrightarrow> admitted n mx c w' = admitted n mx c w"
    by (auto simp: event_add_conn_def gf_simps epoll_ctl_def split_def Let_def admitted_def new_client_def split: if_splits)
  show "call_close X c w = Some w' \<Longrightarrow> admitted n mx c w \<Longrightarrow> client_count w' = (n, mx)"
    using client_close_count [of c w w'] by (auto simp: call_close_def admitted_def new_client_def client_count_def)
qed

lemma admitted_next:
  "gf_set_nonblocking sd w = (s, w') \<Longrightarrow> admitted n mx c w \<Longrightarrow> admitted n mx c w'"
  "event_add_conn d w = Some (st, w') \<Longrightarrow> admitted n mx c w \<Longrightarrow> admitted n mx c w'"
  "(if b then snd (gf_set_tcpkeepalive sd w) else w) = w' \<Longrightarrow> admitted n mx c w \<Longrightarrow> admitted n mx c w'"
  "(if b then snd (gf_set_tcpnodelay sd w) else w) = w' \<Longrightarrow> admitted n mx c w \<Longrightarrow> admitted n mx c w'"
  "upd_conn d (\<lambda>s. s\<lparr>c_sd := sd\<rparr>) w = w' \<Longrightarrow> admitted n mx c w \<Longrightarrow> admitted n mx c w'"
  "stats_pool_to_metric p i u w = w' \<Longrightarrow> admitted n mx c w \<Longrightarrow> admitted n mx c w'"
  by (auto simp: admitted_step)

lemma conn_get_admitted:
  assumes "conn_get (OPool p) True redis w = Some (r, w')"
  shows "case r of None \<Rightarrow> client_count w' = client_count w | Some c \<Rightarrow> admitted (w_ncurr_cconn w) (w_max_ncconn w) c w'"
  using conn_get_client_count [OF assms] by (simp add: admitted_def split: option.splits)

text \<open>
  accepting on a listening connection, with any results of the kernel,
  keeps the number of client connections at most the limit: below the limit the count grows
  by at most one, and when a step after the admission fails it is what it was; at the limit
  the count does not change.
\<close>

theorem client_limit_kept:
  assumes "proxy_accept fuel X c w = Some (st, w')" "w_ncurr_cconn w \<le> w_max_ncconn w"
  shows "w_ncurr_cconn w' \<le> w_max_ncconn w' \<and> w_max_ncconn w' = w_max_ncconn w
    \<and> (w_ncurr_cconn w = w_max_ncconn w \<longrightarrow> w_ncurr_cconn w' = w_ncurr_cconn w)
    \<and> (w_ncurr_cconn w' = w_ncurr_cconn w \<or> w_ncurr_cconn w' = w_ncurr_cconn w + 1)"
proof -
  let ?Q = "\<lambda>(st :: int, w'). client_count w' = client_count w
     \<or> w_ncurr_cconn w < w_max_ncconn w \<and> client_count w' = (w_ncurr_cconn w + 1, w_max_ncconn w)"
  have count: "client_count v = client_count w \<and> admitted (w_ncurr_cconn w) (w_max_ncconn w) d v'"
    if "accept_loop fuel c w = Some (r, v)" "conn_get (OPool q) True b v = Some (Some d, v')" for r v q b d v'
    using accept_loop_count [OF that(1)] conn_get_admitted [OF that(2)] by (simp add: client_count_def)
  have "post ?Q (proxy_accept fuel X c w)"
    unfolding proxy_accept_def
    apply (intro post_intros)
    apply (simp_all add: conn_ncurr_cconn_def del: ASSERT_Some)
    apply (drule accept_loop_count, simp; fail)
    apply (drule accept_loop_count, simp; fail)
    apply (frule accept_loop_count, drule conn_get_admitted, simp add: client_count_def; fail)
    subgoal premises p
      using admitted_step(3) [OF p(18) admitted_next(1) [OF p(15) admitted_next(6) [OF p(14) admitted_next(5) [OF p(12) conjunct2 [OF count [OF p(5,9)]]]]]]
      by (simp add: client_count_def)
    subgoal premises p
      using admitted_step(3) [OF p(23) admitted_next(2) [OF p(20) admitted_next(4) [OF p(19) admitted_next(3) [OF p(18)
          admitted_next(1) [OF p(15) admitted_next(6) [OF p(14) admitted_next(5) [OF p(12) conjunct2 [OF count [OF p(5,9)]]]]]]]]]
      by (simp add: client_count_def)
    subgoal premises p
      using count [OF p(5,9)] admitted_next(2) [OF p(20) admitted_next(4) [OF p(19) admitted_next(3) [OF p(18)
          admitted_next(1) [OF p(15) admitted_next(6) [OF p(14) admitted_next(5) [OF p(12) conjunct2 [OF count [OF p(5,9)]]]]]]]] p(8)
      by (simp add: admitted_def client_count_def)
    done
  from postD [OF this assms(1)] assms(2) show ?thesis
    by (auto simp: client_count_def dest: inc_le)
qed


definition accept_w :: world where
  "accept_w = w0\<lparr>w_ncurr_cconn := 7, w_max_ncconn := 7,
     w_conns := (\<lambda>_. proxy_handlers (sample_conn\<lparr>c_owner := Some (OPool 0), c_proxy := True\<rparr>))\<rparr>"

lemma client_limit_kept_witness:
  "\<exists>st w'. proxy_accept 1 sample_ext 3 accept_w = Some (st, w') \<and> w_ncurr_cconn w' = 7"
proof -
  obtain st w' where a: "proxy_accept 1 sample_ext 3 accept_w = Some (st, w')"
    by (auto simp: accept_w_def proxy_accept_def conn_pool_def sample_conn_def proxy_handlers_def sys_def sample_res_def Let_def
        conn_ncurr_cconn_def ASSERT_def)
  have w: "w_ncurr_cconn accept_w = 7" "w_max_ncconn accept_w = 7" by (simp_all add: accept_w_def)
  from client_limit_kept [OF a] a w show ?thesis by auto
qed

lemma sub_sub_uint: "uint (a - b - 32 :: u32) = (uint a - uint b - 32) mod 2 ^ 32"
  by (simp add: uint_word_ariths mod_simps)

lemma sub_sub_unat:
  fixes a b :: u32
  shows "unat b + 32 \<le> unat a \<Longrightarrow> unat (a - b - 32) + unat b + 32 = unat a"
    and "unat a < unat b + 32 \<Longrightarrow> unat b + 32 \<le> 2 ^ 32 \<Longrightarrow> unat (a - b - 32) + unat b + 32 = 2 ^ 32 + unat a"
proof -
  have lt: "uint a < 2 ^ 32" "uint b < 2 ^ 32" "0 \<le> uint a" "0 \<le> uint b" using uint_lt2p [of a] uint_lt2p [of b] by simp_all
  have n: "int (unat x) = uint x" for x :: u32 by simp
  show "unat (a - b - 32) + unat b + 32 = unat a" if "unat b + 32 \<le> unat a"
  proof -
    have "uint b + 32 \<le> uint a" using that n [of a] n [of b] by linarith
    with lt have "uint (a - b - 32) = uint a - uint b - 32" unfolding sub_sub_uint by (intro mod_pos_pos_trivial) linarith+
    then show ?thesis using n [of "a - b - 32"] n [of a] n [of b] by linarith
  qed
  show "unat (a - b - 32) + unat b + 32 = 2 ^ 32 + unat a" if "unat a < unat b + 32" "unat b + 32 \<le> 2 ^ 32"
  proof -
    have "int (unat b + 32) \<le> int (2 ^ 32)" using that(2) by (simp only: of_nat_le_iff)
    then have "uint b + 32 \<le> 2 ^ 32" by simp
    then have 1: "uint a - uint b - 32 < 0" "0 \<le> uint a - uint b - 32 + 2 ^ 32" using that(1) n [of a] n [of b] lt by linarith+
    have "uint (a - b - 32) = (uint a - uint b - 32 + 2 ^ 32) mod 2 ^ 32" unfolding sub_sub_uint by (metis mod_add_self2)
    also have "\<dots> = uint a - uint b - 32 + 2 ^ 32" using 1 by (intro mod_pos_pos_trivial) linarith+
    finally have "int (unat (a - b - 32) + unat b + 32) = int (2 ^ 32 + unat a)" by simp
    then show ?thesis by (simp only: of_nat_eq_iff)
  qed
qed

text \<open>
  with \<open>n\<close> descriptors allowed to the process, \<open>core_calc_connections\<close>
  leaves to clients what the server connections and the reserved descriptors do not take,
  when those fit.  When they do not fit, the unsigned subtraction wraps and the limit is near
  2^32, so that no client is ever refused.
\<close>

theorem client_limit_fits:
  assumes "core_calc_connections w = (GF_OK, w')" "unat (w_max_nfd w') = n"
  shows "if unat (w_max_nsconn w) + 32 \<le> n
    then unat (w_max_ncconn w') + unat (w_max_nsconn w) + 32 = n
    else unat (w_max_nsconn w) + 32 \<le> 2 ^ 32 \<longrightarrow> unat (w_max_ncconn w') + unat (w_max_nsconn w) + 32 = 2 ^ 32 + n"
proof -
  have "w_max_ncconn w' = w_max_nfd w' - w_max_nsconn w - 32"
    using assms(1) by (auto simp: core_calc_connections_def split_def Let_def split: if_splits)
  with assms(2) sub_sub_unat(1) [of "w_max_nsconn w" "w_max_nfd w'"] sub_sub_unat(2) [of "w_max_nfd w'" "w_max_nsconn w"] show ?thesis by auto
qed

lemma client_limit_fits_witness:
  "unat (w_max_ncconn (snd (core_calc_connections (w0\<lparr>w_max_nsconn := 3\<rparr>)))) + 3 + 32 = 2 ^ 32 + 10"
proof -
  let ?w = "w0\<lparr>w_max_nsconn := 3\<rparr>"
  have "core_calc_connections ?w = (0, snd (core_calc_connections ?w))" "unat (w_max_nfd (snd (core_calc_connections ?w))) = 10"
    by (simp_all add: core_calc_connections_def sys_def sample_res_def Let_def split_def)
  from client_limit_fits [OF this] show ?thesis by simp
qed

end
