(* ===== verification/Ownership.thy ===== *)
theory Ownership
  imports Lifecycle
begin

section \<open>Every connection and its owner\<close>


























end
