(* ===== verification/Strings.thy ===== *)
theory Strings
  imports Sample
begin

section \<open>Strings and numbers in text (\<open>gf_string.h\<close>, \<open>gf_string.c\<close>, \<open>gf_util.c\<close>)\<close>

text \<open>
  A \<open>struct string\<close> is a length and a pointer to the bytes; the pointer is given as the bytes
  of the object from it to its end, so a load or a store past the end has no result.  A text
  of the C library (a format, an argument of \<open>%s\<close>) is the list of its bytes before the NUL.
  The limited printf of \<open>gf_string.c\<close> is modelled completely: signal handlers use it.
\<close>

record gstring =
  gs_len :: u32
  gs_data :: "u8 list option"

definition gs_bytes :: "gstring \<Rightarrow> u8 list" where
  "gs_bytes s = (case gs_data s of None \<Rightarrow> [] | Some d \<Rightarrow> take (unat (gs_len s)) d)"

text \<open>\<open>string("...")\<close>: a literal.\<close>

definition string_lit :: "u8 list \<Rightarrow> gstring" where
  "string_lit bs = \<lparr>gs_len = word_of_nat (length bs), gs_data = Some (bs @ [0])\<rparr>"

definition string_init :: gstring where
  "string_init = \<lparr>gs_len = 0, gs_data = None\<rparr>"

definition string_ok :: "gstring \<Rightarrow> bool" where
  "string_ok s \<longleftrightarrow> gs_len s = 0 \<and> gs_data s = None \<or> gs_len s \<noteq> 0 \<and> gs_data s \<noteq> None"

definition string_deinit :: "gstring \<Rightarrow> world \<Rightarrow> gstring option" where
  "string_deinit s w = do {
     ASSERT (string_ok s) w;
     if gs_data s \<noteq> None then Some string_init else Some s }"

definition string_empty :: "gstring \<Rightarrow> world \<Rightarrow> bool option" where
  "string_empty s w = do { ASSERT (string_ok s) w; Some (gs_len s = 0) }"

text \<open>
  \<open>strndup\<close> reads up to \<open>n\<close> bytes or a NUL, and allocates what it read and a NUL.
\<close>

fun strn_bytes :: "u8 list \<Rightarrow> nat \<Rightarrow> u8 list option" where
  "strn_bytes bs 0 = Some []"
| "strn_bytes [] (Suc n) = None"
| "strn_bytes (b # bs) (Suc n) = (if b = 0 then Some [] else do { r \<leftarrow> strn_bytes bs n; Some (b # r) })"

definition strndup :: "u8 list \<Rightarrow> nat \<Rightarrow> world \<Rightarrow> (u8 list option \<times> world) option" where
  "strndup src n w = do {
     bs \<leftarrow> strn_bytes src n;
     let (ok, w) = gf_alloc w;
     Some (if ok then Some (bs @ [0]) else None, w) }"

text \<open>
  \<open>strndup\<close> gets \<open>srclen+1\<close> (a \<open>uint32_t\<close>), and the NUL is then stored at \<open>data[len]\<close>.
\<close>

definition string_store :: "gstring \<Rightarrow> u8 list \<Rightarrow> u32 \<Rightarrow> world \<Rightarrow> (int \<times> gstring \<times> world) option" where
  "string_store dst src len w = do {
     (d, w) \<leftarrow> strndup src (unat (len + 1)) w;
     case d of None \<Rightarrow> Some (GF_ENOMEM, dst\<lparr>gs_data := None\<rparr>, w)
     | Some buf \<Rightarrow>
         if unat len < length buf then Some (GF_OK, \<lparr>gs_len = len, gs_data = Some (buf[unat len := 0])\<rparr>, w)
         else None }"

definition string_copy :: "gstring \<Rightarrow> u8 list \<Rightarrow> u32 \<Rightarrow> world \<Rightarrow> (int \<times> gstring \<times> world) option" where
  "string_copy dst src srclen w = do {
     ASSERT (gs_len dst = 0 \<and> gs_data dst = None) w;
     ASSERT (srclen \<noteq> 0) w;
     string_store dst src srclen w }"

definition string_duplicate :: "gstring \<Rightarrow> gstring \<Rightarrow> world \<Rightarrow> (int \<times> gstring \<times> world) option" where
  "string_duplicate dst src w = do {
     ASSERT (gs_len dst = 0 \<and> gs_data dst = None) w;
     ASSERT (gs_len src \<noteq> 0 \<and> gs_data src \<noteq> None) w;
     d \<leftarrow> gs_data src;
     string_store dst d (gs_len src) w }"

text \<open>\<open>strncmp\<close>: the sign of its result.\<close>

fun gf_strncmp :: "u8 list \<Rightarrow> u8 list \<Rightarrow> nat \<Rightarrow> int" where
  "gf_strncmp (a # as) (b # bs) (Suc n) =
     (if a < b then - 1 else if b < a then 1 else if a = 0 then 0 else gf_strncmp as bs n)"
| "gf_strncmp as bs n = 0"

definition string_compare :: "gstring \<Rightarrow> gstring \<Rightarrow> int" where
  "string_compare s1 s2 =
     (if gs_len s1 \<noteq> gs_len s2 then (if gs_len s2 < gs_len s1 then 1 else - 1)
      else gf_strncmp (gs_bytes s1) (gs_bytes s2) (unat (gs_len s1)))"

text \<open>The two searches; pointers are offsets in the bytes.\<close>

function gf_strchr :: "u8 list \<Rightarrow> nat \<Rightarrow> nat \<Rightarrow> u8 \<Rightarrow> nat option" where
  "gf_strchr bs p fin c = (if p < fin then (if bs ! p = c then Some p else gf_strchr bs (p + 1) fin c) else None)"
  by pat_completeness auto
termination by (relation "measure (\<lambda>(bs, p, fin, c). fin - p)") auto

function gf_strrchr :: "u8 list \<Rightarrow> int \<Rightarrow> int \<Rightarrow> u8 \<Rightarrow> int option" where
  "gf_strrchr bs p start c = (if start \<le> p then (if bs ! nat p = c then Some p else gf_strrchr bs (p - 1) start c) else None)"
  by pat_completeness auto
termination by (relation "measure (\<lambda>(bs, p, start, c). nat (p - start + 1))") auto

declare gf_strchr.simps [simp del] gf_strrchr.simps [simp del]

subsection \<open>Numbers to text\<close>

definition hex :: "u8 list" where
  "hex = [48, 49, 50, 51, 52, 53, 54, 55, 56, 57, 97, 98, 99, 100, 101, 102]"

text \<open>
  \<open>*buf-- = c\<close> in \<open>char buff[22]\<close>: the bytes from \<open>buf + 1\<close> to the end of \<open>buff\<close> grow
  downwards; below its start there is nothing to store to.
\<close>

definition push_char :: "u8 \<Rightarrow> u8 list \<Rightarrow> u8 list option" where
  "push_char c buf = (if length buf < 22 then Some (c # buf) else None)"

text \<open>The digit loop of \<open>_safe_utoa\<close> and \<open>_safe_itoa\<close>.\<close>

function digit_loop :: "nat \<Rightarrow> nat \<Rightarrow> u8 list \<Rightarrow> u8 list option" where
  "digit_loop base val buf =
     (if base < 2 then None
      else do {
        buf \<leftarrow> push_char (hex ! (val mod base)) buf;
        if val div base \<noteq> 0 then digit_loop base (val div base) buf else Some buf })"
  by pat_completeness auto
termination
proof (relation "measure (\<lambda>(base, val, buf). val)")
  fix base val :: nat and buf a :: "u8 list"
  assume "\<not> base < 2" "val div base \<noteq> 0"
  then show "((base, val div base, a), base, val, buf) \<in> measure (\<lambda>(base, val, buf). val)"
    by (cases val) (simp_all add: div_less_dividend)
qed auto

declare digit_loop.simps [simp del]

definition safe_utoa :: "nat \<Rightarrow> u64 \<Rightarrow> u8 list option" where
  "safe_utoa base val = do { buf \<leftarrow> push_char 0 []; digit_loop base (unat val) buf }"

text \<open>The switch that complements a digit.\<close>

definition flip_hex :: "u8 \<Rightarrow> u8" where
  "flip_hex c =
     (if c = 48 then 102 else if c = 49 then 101 else if c = 50 then 100 else if c = 51 then 99
      else if c = 52 then 98 else if c = 53 then 97 else if c = 54 then 57 else if c = 55 then 56
      else if c = 56 then 55 else if c = 57 then 54 else if c = 97 then 53 else if c = 98 then 52
      else if c = 99 then 51 else if c = 100 then 50 else if c = 101 then 49 else if c = 102 then 48 else c)"

text \<open>
  \<open>_safe_itoa\<close>: negating \<open>INT64_MIN\<close> is undefined.  For a negative number in base 16 the 16
  places below \<open>buf\<close> are filled with zeros, the digits of \<open>-val - 1\<close> overwrite the lowest
  of them, and all 16 are complemented.
\<close>

definition safe_itoa :: "nat \<Rightarrow> int \<Rightarrow> u8 list option" where
  "safe_itoa base val = do {
     buf \<leftarrow> push_char 0 [];
     if val < 0 then
       (if val = - (2 ^ 63) then None
        else if base = 16 then do {
          buf \<leftarrow> digit_loop base (nat (- val - 1)) buf;
          let ds = butlast buf;
          Some (map flip_hex (replicate (16 - length ds) 48 @ ds) @ [0]) }
        else do {
          buf \<leftarrow> digit_loop base (nat (- val)) buf;
          if base = 10 then push_char 45 buf else Some buf })
     else digit_loop base (nat val) buf }"

subsection \<open>Text to numbers\<close>

text \<open>\<open>_gf_atoi\<close> on the \<open>n\<close> bytes at \<open>line\<close>; overflow of the \<open>int\<close> is undefined.\<close>

fun gf_atoi_loop :: "u8 list \<Rightarrow> nat \<Rightarrow> int \<Rightarrow> int option" where
  "gf_atoi_loop line 0 value = Some (if value < 0 then - 1 else value)"
| "gf_atoi_loop [] (Suc n) value = None"
| "gf_atoi_loop (c # line) (Suc n) value =
     (if c < 48 \<or> 57 < c then Some (- 1)
      else let value = value * 10 + (uint c - 48)
           in if 2 ^ 31 \<le> value then None else gf_atoi_loop line n value)"

definition gf_atoi :: "u8 list \<Rightarrow> nat \<Rightarrow> int option" where
  "gf_atoi line n = (if n = 0 then Some (- 1) else gf_atoi_loop line n 0)"

subsection \<open>The limited printf\<close>

text \<open>The arguments: 32 and 64 bit integers and texts; \<open>None\<close> is a NULL text.\<close>

datatype va_arg = V32 u32 | V64 u64 | VStr "u8 list option"

text \<open>\<open>_safe_check_longlong\<close>: \<open>long\<close> has 64 bits, so \<open>l\<close> and \<open>ll\<close> mean the same.\<close>

definition safe_check_longlong :: "u8 list \<Rightarrow> u8 list \<times> bool" where
  "safe_check_longlong fmt =
     (case fmt of [] \<Rightarrow> (fmt, False)
      | c # rest \<Rightarrow>
          if c = 108 then (case rest of [] \<Rightarrow> (rest, True) | d # rest' \<Rightarrow> if d \<noteq> 108 then (rest, True) else (rest', True))
          else (fmt, False))"

text \<open>The text of an integer conversion \<open>c\<close>, before the NUL.\<close>

definition safe_number :: "u8 \<Rightarrow> bool \<Rightarrow> va_arg list \<Rightarrow> (u8 list \<times> va_arg list) option" where
  "safe_number c have_longlong ap = (
     let have_longlong = (if c = 112 then True else have_longlong);
         base = (if c = 120 \<or> c = 112 then 16 else 10)
     in case ap of
          V32 v # ap \<Rightarrow>
            if have_longlong then None
            else if c = 117 then do { s \<leftarrow> safe_utoa base (ucast v); Some (butlast s, ap) }
            else do {
              s \<leftarrow> safe_itoa base (sint v);
              Some (butlast (if c = 120 \<and> sint v < 0 then drop 8 s else s), ap) }
        | V64 v # ap \<Rightarrow>
            if \<not> have_longlong then None
            else if c = 117 then do { s \<leftarrow> safe_utoa base v; Some (butlast s, ap) }
            else do { s \<leftarrow> safe_itoa base (sint v); Some (butlast s, ap) }
        | _ \<Rightarrow> None)"

definition safe_text :: "va_arg list \<Rightarrow> (u8 list \<times> va_arg list) option" where
  "safe_text ap = (case ap of VStr s # ap \<Rightarrow>
       Some (case s of None \<Rightarrow> [40, 110, 117, 108, 108, 41] | Some s \<Rightarrow> s, ap) | _ \<Rightarrow> None)"

text \<open>
  \<open>_safe_vsnprintf\<close>: \<open>out\<close> is what was written from \<open>start\<close> to \<open>to\<close>, and \<open>room\<close> is
  \<open>end - start\<close>.  A conversion after which the format is over makes the loop step past its NUL.
\<close>

function safe_format :: "nat \<Rightarrow> u8 list \<Rightarrow> va_arg list \<Rightarrow> u8 list \<Rightarrow> u8 list option" where
  "safe_format room fmt ap out =
     (case fmt of [] \<Rightarrow> Some out
      | c # rest \<Rightarrow>
          if c \<noteq> 37 then (if length out = room then Some out else safe_format room rest ap (out @ [c]))
          else (case safe_check_longlong rest of
              ([], ll) \<Rightarrow> None
            | (d # rest', ll) \<Rightarrow>
                if d = 100 \<or> d = 105 \<or> d = 117 \<or> d = 120 \<or> d = 112 then
                  (case safe_number d ll ap of None \<Rightarrow> None
                   | Some (s, ap) \<Rightarrow> safe_format room rest' ap (out @ take (room - length out) s))
                else if d = 115 then
                  (case safe_text ap of None \<Rightarrow> None
                   | Some (s, ap) \<Rightarrow> safe_format room rest' ap (out @ take (room - length out) s))
                else safe_format room rest' ap out))"
  by pat_completeness auto
termination
  by (relation "measure (\<lambda>(room, fmt, ap, out). length fmt)")
    (auto simp: safe_check_longlong_def split: list.splits if_splits)

declare safe_format.simps [simp del]

definition safe_vsnprintf :: "nat \<Rightarrow> u8 list \<Rightarrow> va_arg list \<Rightarrow> (u8 list \<times> nat) option" where
  "safe_vsnprintf n fmt ap =
     (if n = 0 then None
      else do { out \<leftarrow> safe_format (n - 1) fmt ap []; Some (out @ [0], length out) })"

subsection \<open>The standard printf\<close>

text \<open>
  \<open>vsnprintf\<close> of the C library formats a text, or fails; \<open>_gf_vscnprintf\<close> reports the number
  of bytes stored.  The result is the bytes stored (with the NUL) and the number.
\<close>

definition gf_vscnprintf :: "nat \<Rightarrow> u8 list option \<Rightarrow> u8 list \<times> int" where
  "gf_vscnprintf size_n text =
     (let n = (case text of None \<Rightarrow> - 1 | Some t \<Rightarrow> int (length t));
          stored = (case text of None \<Rightarrow> [] | Some t \<Rightarrow> if size_n = 0 then [] else take (size_n - 1) t @ [0])
      in (stored, if n \<le> 0 then 0 else if n < int size_n then n else int size_n - 1))"

subsection \<open>Copies\<close>

lemma strn_bytes_take:
  "n \<le> length bs \<Longrightarrow> strn_bytes bs n = Some (takeWhile (\<lambda>b. b \<noteq> 0) (take n bs))"
  by (induction bs n rule: strn_bytes.induct) auto

lemma takeWhile_shorter: "x \<in> set xs \<Longrightarrow> \<not> P x \<Longrightarrow> length (takeWhile P xs) < length xs"
  by (induction xs) auto

lemma string_copy_cases:
  assumes "gs_len dst = 0" "gs_data dst = None" "0 < n" "n < length src" "n < 2 ^ 32 - 1"
  shows "string_copy dst src (word_of_nat n) w =
    (if \<not> fst (gf_alloc w) then Some (GF_ENOMEM, dst, snd (gf_alloc w))
     else if 0 \<in> set (take n src) then None
     else Some (GF_OK, \<lparr>gs_len = word_of_nat n, gs_data = Some (take n src @ 0 # (if src ! n = 0 then [] else [0]))\<rparr>, snd (gf_alloc w)))"
proof -
  have n: "unat (word_of_nat n :: u32) = n" "unat (word_of_nat n + 1 :: u32) = Suc n" "(word_of_nat n :: u32) \<noteq> 0"
    using assms(3,5) by (simp_all add: unat_of_nat take_bit_nat_eq_self unat_word_ariths(1) flip: unat_eq_zero)
  have dst: "dst\<lparr>gs_data := None\<rparr> = dst" using assms(2) by simp
  let ?t = "takeWhile (\<lambda>b. b \<noteq> 0) (take (Suc n) src)"
  have s: "strn_bytes src (Suc n) = Some ?t" using assms(4) by (intro strn_bytes_take) simp
  show ?thesis
  proof (cases "0 \<in> set (take n src)")
    case True
    have "?t = takeWhile (\<lambda>b. b \<noteq> 0) (take n src)"
      using True assms(4) by (simp add: take_Suc_conv_app_nth takeWhile_append1)
    moreover have "length (takeWhile (\<lambda>b. b \<noteq> 0) (take n src)) < n"
      using takeWhile_shorter [of 0 "take n src" "\<lambda>b. b \<noteq> 0"] True by simp
    ultimately show ?thesis using True assms(1,2) n s dst
      by (simp add: string_copy_def string_store_def strndup_def split_def Let_def)
  next
    case False
    have "?t = take n src @ takeWhile (\<lambda>b. b \<noteq> 0) [src ! n]"
      unfolding take_Suc_conv_app_nth [OF assms(4)] by (rule takeWhile_append2) (use False in auto)
    then show ?thesis using False assms(1,2,4) n s dst
      by (simp add: string_copy_def string_store_def strndup_def split_def Let_def list_update_append)
  qed
qed

lemma string_copy_bytes:
  assumes "gs_len dst = 0" "gs_data dst = None" "bs \<noteq> []" "0 \<notin> set bs" "rest \<noteq> []" "length bs < 2 ^ 32 - 1" "fst (gf_alloc w)"
  shows "\<exists>s. string_copy dst (bs @ rest) (word_of_nat (length bs)) w = Some (GF_OK, s, snd (gf_alloc w)) \<and> gs_bytes s = bs
    \<and> gs_len s = word_of_nat (length bs) \<and> gs_data s \<noteq> None"
proof -
  have "unat (word_of_nat (length bs) :: u32) = length bs" using assms(6) by (simp add: unat_of_nat take_bit_nat_eq_self)
  then show ?thesis using string_copy_cases [OF assms(1,2), of "length bs" "bs @ rest" w] assms(3-7) by (simp add: gs_bytes_def)
qed

text \<open>
  \<open>string_copy\<close> of \<open>n\<close> bytes, with one more readable byte behind
  them, stores exactly those bytes and a NUL, or reports no memory and stores nothing; but when a
  NUL lies among the bytes, \<open>strndup\<close> allocates only up to it and the store of the final NUL
  is outside the allocation.
\<close>

theorem string_copy_outcome:
  assumes "gs_len dst = 0" "gs_data dst = None" "0 < n" "n < length src" "n < 2 ^ 32 - 1"
  shows "string_copy dst src (word_of_nat n) w =
    (if \<not> fst (gf_alloc w) then Some (GF_ENOMEM, dst, snd (gf_alloc w))
     else if 0 \<in> set (take n src) then None
     else Some (GF_OK, \<lparr>gs_len = word_of_nat n, gs_data = Some (take n src @ 0 # (if src ! n = 0 then [] else [0]))\<rparr>, snd (gf_alloc w)))"
  by (rule string_copy_cases [OF assms])

lemma string_copy_outcome_witness:
  "string_copy string_init [97, 0, 98, 99, 0] 4 w0 = None
    \<and> (\<exists>w'. string_copy string_init [97, 98, 99, 0] 3 w0 = Some (GF_OK, \<lparr>gs_len = 3, gs_data = Some [97, 98, 99, 0]\<rparr>, w'))"
proof -
  have ok: "fst (gf_alloc w0)" by (simp add: gf_alloc_def sys_def sample_res_def Let_def)
  show ?thesis
    using string_copy_outcome [of string_init 4 "[97, 0, 98, 99, 0]" w0] string_copy_outcome [of string_init 3 "[97, 98, 99, 0]" w0] ok
    by (simp add: string_init_def)
qed

subsection \<open>Numbers\<close>

fun digits :: "nat \<Rightarrow> nat \<Rightarrow> nat list" where
  "digits b v = (if b < 2 \<or> v < b then [v] else digits b (v div b) @ [v mod b])"

declare digits.simps [simp del]

lemma digit_loop_digits:
  assumes "2 \<le> b"
  shows "digit_loop b v buf = (if length (digits b v) + length buf \<le> 22 then Some (map ((!) hex) (digits b v) @ buf) else None)"
  using assms
proof (induction b v buf rule: digit_loop.induct)
  case (1 b v buf)
  show ?case
  proof (cases "v div b = 0")
    case True
    then have "v < b" using 1 by (simp add: div_eq_0_iff)
    then show ?thesis using 1 by (simp add: digit_loop.simps [of b v] digits.simps [of b v] push_char_def)
  next
    case False
    then have v: "\<not> v < b" by (auto simp: div_eq_0_iff)
    have d: "digits b v = digits b (v div b) @ [v mod b]" using v 1 by (simp add: digits.simps [of b v])
    show ?thesis
    proof (cases "length buf < 22")
      case True
      then show ?thesis using 1(1) [of "hex ! (v mod b) # buf"] False 1(2)
        by (simp add: digit_loop.simps [of b v] d push_char_def)
    next
      case full: False
      then show ?thesis using False 1(2) by (simp add: digit_loop.simps [of b v] d push_char_def)
    qed
  qed
qed

lemma digits_length: "2 \<le> b \<Longrightarrow> v < b ^ Suc k \<Longrightarrow> length (digits b v) \<le> Suc k"
proof (induction k arbitrary: v)
  case 0
  then show ?case by (simp add: digits.simps [of b v])
next
  case (Suc k)
  have "v div b < b ^ Suc k" using Suc.prems by (simp add: less_mult_imp_div_less mult.commute)
  with Suc show ?case by (subst digits.simps) simp
qed

lemma digits_below: "2 \<le> b \<Longrightarrow> d \<in> set (digits b v) \<Longrightarrow> d < b"
proof (induction b v rule: digits.induct)
  case (1 b v)
  then show ?case unfolding digits.simps [of b v] by (auto split: if_splits)
qed

definition of_digits :: "nat \<Rightarrow> nat list \<Rightarrow> nat" where
  "of_digits b = foldl (\<lambda>v d. v * b + d) 0"

lemma of_digits_digits: "2 \<le> b \<Longrightarrow> of_digits b (digits b v) = v"
  by (induction b v rule: digits.induct) (subst digits.simps, simp add: of_digits_def)

lemma length_10: "v < 10 ^ 20 \<Longrightarrow> length (digits 10 v) \<le> 20"
  using digits_length [of 10 v 19] by simp

lemma length_16: "v < 16 ^ 16 \<Longrightarrow> length (digits 16 v) \<le> 16"
  using digits_length [of 16 v 15] by simp

text \<open>What a reader makes of the text: the digit a character stands for, the number.\<close>

definition digit_of :: "u8 \<Rightarrow> nat" where
  "digit_of c = (if c < 58 then unat c - 48 else unat c - 87)"

definition read_number :: "nat \<Rightarrow> u8 list \<Rightarrow> int" where
  "read_number b s = (case s of [] \<Rightarrow> 0
     | c # ds \<Rightarrow> if c = 45 then - int (of_digits b (map digit_of ds)) else int (of_digits b (map digit_of s)))"

lemma hex_table:
  "list_all (\<lambda>d. digit_of (hex ! d) = d \<and> digit_of (flip_hex (hex ! d)) = 15 - d \<and> hex ! d \<noteq> 45 \<and> flip_hex (hex ! d) \<noteq> 45) [0..<16]"
  by code_simp

lemma hex_digit:
  assumes "d < 16"
  shows "digit_of (hex ! d) = d" "digit_of (flip_hex (hex ! d)) = 15 - d" "hex ! d \<noteq> 45" "flip_hex (hex ! d) \<noteq> 45"
  using hex_table assms by (auto simp: list_all_iff)

lemma hex_0: "hex ! 0 = 48"
  by (simp add: hex_def)

lemma map_digit_of: "\<forall>d\<in>set ds. d < 16 \<Longrightarrow> map digit_of (map ((!) hex) ds) = ds"
  by (induction ds) (auto simp: hex_digit)

lemma digits_ne: "digits b v \<noteq> []"
  by (subst digits.simps) simp

lemma read_digits: "2 \<le> b \<Longrightarrow> b \<le> 16 \<Longrightarrow> read_number b (map ((!) hex) (digits b v)) = int v"
proof -
  assume b: "2 \<le> b" "b \<le> 16"
  obtain d ds where d: "digits b v = d # ds" using digits_ne by (cases "digits b v") auto
  have lt: "\<forall>x\<in>set (digits b v). x < 16" using digits_below [OF b(1)] b(2) by (meson less_le_trans)
  with d have "hex ! d \<noteq> 45" by (simp add: hex_digit)
  with map_digit_of [OF lt] of_digits_digits [OF b(1), of v] d show ?thesis by (simp add: read_number_def)
qed

text \<open>Complementing 16 digits is complementing the 64 bit number.\<close>

lemma of_digits_append: "of_digits b (xs @ ys) = of_digits b xs * b ^ length ys + of_digits b ys"
proof (induction ys rule: rev_induct)
  case (snoc y ys)
  then show ?case by (simp add: of_digits_def algebra_simps)
qed (simp add: of_digits_def)

lemma of_digits_zeros [simp]: "of_digits b (replicate n 0) = 0"
  by (induction n) (simp_all add: of_digits_def)

lemma of_digits_flip:
  "\<forall>d\<in>set ds. d < b \<Longrightarrow> 0 < b \<Longrightarrow> of_digits b (map (\<lambda>d. b - 1 - d) ds) + of_digits b ds = b ^ length ds - 1"
proof (induction ds rule: rev_induct)
  case (snoc d ds)
  have "of_digits b (map (\<lambda>d. b - 1 - d) (ds @ [d])) + of_digits b (ds @ [d])
    = (of_digits b (map (\<lambda>d. b - 1 - d) ds) + of_digits b ds) * b + ((b - 1 - d) + d)"
    by (simp add: of_digits_def algebra_simps)
  also have "\<dots> = (b ^ length ds - 1) * b + (b - 1)" using snoc by simp
  also have "\<dots> = b ^ length (ds @ [d]) - 1"
  proof -
    have "1 \<le> b ^ length ds" using snoc.prems(2) by simp
    then obtain k where "b ^ length ds = Suc k" by (metis Suc_le_D One_nat_def)
    then show ?thesis using snoc.prems(2) by (simp add: algebra_simps)
  qed
  finally show ?case .
qed (simp add: of_digits_def)

lemma itoa_10:
  assumes "- (2 ^ 63) < v" "v < 2 ^ 63"
  shows "\<exists>s. safe_itoa 10 v = Some (s @ [0]) \<and> read_number 10 s = v"
proof -
  have len: "length (digits 10 n) \<le> 20" if "n < 2 ^ 63" for n :: nat
    using that by (intro length_10) simp
  show ?thesis
  proof (cases "v < 0")
    case True
    then have "length (digits 10 (nat (- v))) \<le> 20" using assms by (intro len) (simp add: nat_less_iff)
    moreover have "read_number 10 (45 # map ((!) hex) (digits 10 (nat (- v)))) = v"
      using True map_digit_of [of "digits 10 (nat (- v))"] digits_below [of 10] of_digits_digits [of 10]
      by (force simp: read_number_def intro: less_trans [of _ 10])
    ultimately show ?thesis using True assms by (simp add: safe_itoa_def push_char_def digit_loop_digits)
  next
    case False
    then have "length (digits 10 (nat v)) \<le> 20" using assms by (intro len) (simp add: nat_less_iff)
    with False show ?thesis by (simp add: safe_itoa_def push_char_def digit_loop_digits read_digits)
  qed
qed

lemma wrap_negative:
  fixes v :: int
  assumes "v < 0" "- (2 ^ 63) < v"
  shows "v mod 2 ^ 64 = 2 ^ 64 + v"
  using mod_add_self1 [of "2 ^ 64" v] mod_pos_pos_trivial [of "2 ^ 64 + v" "2 ^ 64"] assms by simp

lemma flip_value: "a + nat (- v - 1) = 16 ^ 16 - 1 \<Longrightarrow> v < 0 \<Longrightarrow> int a = 2 ^ 64 + v"
  by simp

lemma itoa_16:
  assumes "- (2 ^ 63) < v" "v < 2 ^ 63"
  shows "\<exists>s. safe_itoa 16 v = Some (s @ [0]) \<and> read_number 16 s = v mod 2 ^ 64"
proof -
  have len: "length (digits 16 n) \<le> 16" if "n < 2 ^ 63" for n :: nat
    using that by (intro length_16) simp
  show ?thesis
  proof (cases "v < 0")
    case True
    let ?n = "nat (- v - 1)" and ?ds = "digits 16 (nat (- v - 1))"
    have l: "length ?ds \<le> 16" using True assms by (intro len) (simp add: nat_less_iff)
    have lt: "\<forall>d\<in>set ?ds. d < 16" using digits_below [of 16] by simp
    let ?ps = "replicate (16 - length ?ds) 0 @ ?ds"
    have ps: "replicate (16 - length ?ds) 48 @ map ((!) hex) ?ds = map ((!) hex) ?ps" by (simp add: hex_def)
    have plt: "\<forall>d\<in>set ?ps. d < 16" using lt by auto
    let ?s = "map flip_hex (map ((!) hex) ?ps)"
    have m: "map digit_of ?s = map (\<lambda>d. 16 - 1 - d) ?ps" using plt by (simp add: hex_digit)
    have "of_digits 16 (map (\<lambda>d. 16 - 1 - d) ?ps) + of_digits 16 ?ps = 16 ^ 16 - 1"
      using of_digits_flip [OF plt] l by simp
    moreover have "of_digits 16 ?ps = ?n" by (simp add: of_digits_append of_digits_digits)
    ultimately have "of_digits 16 (map digit_of ?s) + ?n = 16 ^ 16 - 1" unfolding m by (simp only:)
    from flip_value [OF this True] have "int (of_digits 16 (map digit_of ?s)) = 2 ^ 64 + v" .
    moreover have "v mod 2 ^ 64 = 2 ^ 64 + v" using True assms(1) by (rule wrap_negative)
    moreover have "read_number 16 ?s = int (of_digits 16 (map digit_of ?s))"
      using plt by (cases ?ps) (auto simp: read_number_def hex_digit)
    ultimately have "read_number 16 ?s = v mod 2 ^ 64" by simp
    moreover have "safe_itoa 16 v = Some (?s @ [0])"
      using True assms l by (simp add: safe_itoa_def push_char_def digit_loop_digits butlast_append hex_0)
    ultimately show ?thesis by blast
  next
    case False
    then have "length (digits 16 (nat v)) \<le> 16" using assms by (intro len) (simp add: nat_less_iff)
    with False assms show ?thesis by (simp add: safe_itoa_def push_char_def digit_loop_digits read_digits)
  qed
qed

text \<open>
  for every \<open>int64_t\<close> but the least one, \<open>_safe_itoa\<close> fits its 22
  bytes, its decimal text reads back as the number, and its hexadecimal text as the 64 bit pattern
  of the number (the text of a negative number is its two's complement); negating the least one
  is undefined, so it has no text.
\<close>

theorem itoa_reads_back:
  assumes "- (2 ^ 63) \<le> v" "v < 2 ^ 63"
  shows "if v = - (2 ^ 63) then safe_itoa 10 v = None \<and> safe_itoa 16 v = None
    else \<exists>s h. safe_itoa 10 v = Some (s @ [0]) \<and> read_number 10 s = v
      \<and> safe_itoa 16 v = Some (h @ [0]) \<and> read_number 16 h = v mod 2 ^ 64"
proof (cases "v = - (2 ^ 63)")
  case True
  then show ?thesis by (simp add: safe_itoa_def push_char_def)
next
  case False
  with itoa_10 [of v] itoa_16 [of v] assms show ?thesis by fastforce
qed

lemma itoa_reads_back_witness:
  "\<exists>s h. safe_itoa 10 (- 255) = Some (s @ [0]) \<and> read_number 10 s = - 255
     \<and> safe_itoa 16 (- 255) = Some (h @ [0]) \<and> read_number 16 h = 2 ^ 64 - 255"
  using itoa_reads_back [of "- 255"] by simp

text \<open>The reader of the configuration.\<close>

lemma of_digits_Cons: "of_digits b (d # ds) = d * b ^ length ds + of_digits b ds"
  using of_digits_append [of b "[d]" ds] by (simp add: of_digits_def)

lemma hex_decimal: "d < 10 \<Longrightarrow> \<not> hex ! d < 48 \<and> \<not> 57 < hex ! d \<and> uint (hex ! d) - 48 = int d"
proof -
  have "list_all (\<lambda>d. \<not> hex ! d < 48 \<and> \<not> 57 < hex ! d \<and> uint (hex ! d) - 48 = int d) [0..<10]" by code_simp
  then show "d < 10 \<Longrightarrow> ?thesis" by (auto simp: list_all_iff)
qed

lemma gf_atoi_digits:
  assumes "\<forall>d\<in>set ds. d < 10" "0 \<le> v"
  shows "gf_atoi_loop (map ((!) hex) ds @ rest) (length ds) v =
    (if ds \<noteq> [] \<and> 2 ^ 31 \<le> v * 10 ^ length ds + int (of_digits 10 ds) then None
     else Some (v * 10 ^ length ds + int (of_digits 10 ds)))"
  using assms
proof (induction ds arbitrary: v)
  case (Cons d ds)
  let ?v = "v * 10 + int d"
  have h: "\<not> hex ! d < 48" "\<not> 57 < hex ! d" "uint (hex ! d) - 48 = int d" using Cons.prems hex_decimal [of d] by auto
  have e: "v * 10 ^ length (d # ds) + int (of_digits 10 (d # ds)) = ?v * 10 ^ length ds + int (of_digits 10 ds)"
    by (simp add: of_digits_Cons algebra_simps)
  have step: "gf_atoi_loop (map ((!) hex) (d # ds) @ rest) (length (d # ds)) v =
      (if 2 ^ 31 \<le> ?v then None else gf_atoi_loop (map ((!) hex) ds @ rest) (length ds) ?v)"
    using h by simp
  show ?case
  proof (cases "2 ^ 31 \<le> ?v")
    case True
    have "?v * 1 \<le> ?v * 10 ^ length ds" using Cons.prems(2) by (intro mult_left_mono) simp_all
    then have "2 ^ 31 \<le> ?v * 10 ^ length ds + int (of_digits 10 ds)"
      using order_trans [OF True, of "?v * 10 ^ length ds"] by (intro add_increasing2) simp_all
    with True show ?thesis unfolding step e by simp
  next
    case False
    then show ?thesis unfolding step e using Cons.IH [of ?v] Cons.prems by (cases ds) simp_all
  qed
qed (simp add: of_digits_def)

lemma gf_atoi_decimal:
  "gf_atoi (map ((!) hex) (digits 10 m) @ rest) (length (map ((!) hex) (digits 10 m))) = (if m < 2 ^ 31 then Some (int m) else None)"
  using gf_atoi_digits [of "digits 10 m" 0 rest] digits_below [of 10 _ m] digits_ne [of 10 m] of_digits_digits [of 10 m]
  by (auto simp: gf_atoi_def)

text \<open>
  \<open>_gf_atoi\<close> reads back every number \<open>_safe_utoa\<close> prints in base
  10 up to \<open>INT_MAX\<close>, whatever bytes follow; a larger number overflows its \<open>int\<close>
  before the test for a negative value.
\<close>

theorem atoi_reads_utoa:
  fixes n :: u64
  shows "\<exists>s. safe_utoa 10 n = Some (s @ [0]) \<and> s \<noteq> []
    \<and> gf_atoi (s @ rest) (length s) = (if unat n < 2 ^ 31 then Some (int (unat n)) else None)"
proof -
  let ?ds = "digits 10 (unat n)"
  have "unat n < 10 ^ 20" by (rule less_trans [OF unsigned_less]) simp
  then have "length ?ds \<le> 20" by (rule length_10)
  then have "safe_utoa 10 n = Some (map ((!) hex) ?ds @ [0])" by (simp add: safe_utoa_def push_char_def digit_loop_digits)
  moreover have "map ((!) hex) ?ds \<noteq> []" by (simp add: digits_ne)
  ultimately show ?thesis using gf_atoi_decimal by blast
qed

subsection \<open>Formatting into a bounded buffer\<close>

text \<open>The text of a format without a bound.\<close>

function format_text :: "u8 list \<Rightarrow> va_arg list \<Rightarrow> u8 list option" where
  "format_text fmt ap =
     (case fmt of [] \<Rightarrow> Some []
      | c # rest \<Rightarrow>
          if c \<noteq> 37 then map_option ((#) c) (format_text rest ap)
          else (case safe_check_longlong rest of
              ([], ll) \<Rightarrow> None
            | (d # rest', ll) \<Rightarrow>
                if d = 100 \<or> d = 105 \<or> d = 117 \<or> d = 120 \<or> d = 112 then
                  (case safe_number d ll ap of None \<Rightarrow> None
                   | Some (s, ap) \<Rightarrow> map_option ((@) s) (format_text rest' ap))
                else if d = 115 then
                  (case safe_text ap of None \<Rightarrow> None
                   | Some (s, ap) \<Rightarrow> map_option ((@) s) (format_text rest' ap))
                else format_text rest' ap))"
  by pat_completeness auto
termination
  by (relation "measure (\<lambda>(fmt, ap). length fmt)")
    (auto simp: safe_check_longlong_def split: list.splits if_splits)

declare format_text.simps [simp del]

lemma take_room: "take r (out @ take (r - length out) s) = take r (out @ s)"
  by (cases "length out \<le> r") simp_all

lemma safe_format_text:
  "format_text fmt ap = Some t \<Longrightarrow> length out \<le> room \<Longrightarrow> safe_format room fmt ap out = Some (take room (out @ t))"
proof (induction fmt ap arbitrary: out t rule: format_text.induct)
  case (1 fmt ap)
  show ?case
  proof (cases fmt)
    case Nil
    with 1(5,6) show ?thesis by (simp add: format_text.simps [of "[]"] safe_format.simps [of room "[]"])
  next
    case (Cons c rest)
    show ?thesis
    proof (cases "c = 37")
      case False
      with Cons 1(5) obtain u where u: "format_text rest ap = Some u" "t = c # u"
        by (auto simp: format_text.simps [of "c # rest"])
      show ?thesis
      proof (cases "length out = room")
        case True
        with Cons False show ?thesis by (simp add: safe_format.simps [of room "c # rest"])
      next
        case less: False
        with 1(1) [OF Cons False u(1), of "out @ [c]"] 1(6) Cons False u show ?thesis
          by (simp add: safe_format.simps [of room "c # rest"])
      qed
    next
      case True
      obtain ds ll where cl: "safe_check_longlong rest = (ds, ll)" by fastforce
      obtain d rest' where ds: "ds = d # rest'"
        using 1(5) Cons True cl by (cases ds) (auto simp: format_text.simps [of "37 # rest"])
      note cl = cl [unfolded ds]
      have shorter: "length (out @ take (room - length out) s) \<le> room" for s using 1(6) by simp
      show ?thesis
      proof (cases "d = 100 \<or> d = 105 \<or> d = 117 \<or> d = 120 \<or> d = 112")
        case num: True
        then obtain s ap' u where s: "safe_number d ll ap = Some (s, ap')" "format_text rest' ap' = Some u" "t = s @ u"
          using 1(5) Cons True cl by (auto simp: format_text.simps [of "37 # rest"] split: option.splits prod.splits)
        have "safe_format room fmt ap out = safe_format room rest' ap' (out @ take (room - length out) s)"
          using Cons True cl num s(1) by (simp add: safe_format.simps [of room "37 # rest"])
        also have "\<dots> = Some (take room ((out @ take (room - length out) s) @ u))"
          using Cons True cl num s shorter by (intro 1(2)) auto
        finally show ?thesis using 1(6) s(3) by (simp add: min_def)
      next
        case num: False
        show ?thesis
        proof (cases "d = 115")
          case str: True
          then obtain s ap' u where s: "safe_text ap = Some (s, ap')" "format_text rest' ap' = Some u" "t = s @ u"
            using 1(5) Cons True cl num by (auto simp: format_text.simps [of "37 # rest"] split: option.splits prod.splits)
          have "safe_format room fmt ap out = safe_format room rest' ap' (out @ take (room - length out) s)"
            using Cons True cl str s(1) by (simp add: safe_format.simps [of room "37 # rest"])
          also have "\<dots> = Some (take room ((out @ take (room - length out) s) @ u))"
            using Cons True cl num str s shorter by (intro 1(3)) auto
          finally show ?thesis using 1(6) s(3) by (simp add: min_def)
        next
          case False
          with 1(5) Cons True cl num have u: "format_text rest' ap = Some t" by (auto simp: format_text.simps [of "37 # rest"])
          have "safe_format room fmt ap out = safe_format room rest' ap out"
            using Cons True cl num False by (simp add: safe_format.simps [of room "37 # rest"])
          also have "\<dots> = Some (take room (out @ t))"
            using Cons True cl num False u 1(6) by (intro 1(4)) auto
          finally show ?thesis .
        qed
      qed
    qed
  qed
qed

text \<open>
  C21: whatever the format and its arguments, \<open>_safe_vsnprintf\<close>
  with a buffer of \<open>n\<close> bytes stores the first \<open>n - 1\<close> bytes of the formatted text and a
  NUL, never more, and returns the number of bytes stored before the NUL.  (The comment in
  \<open>gf_string.h\<close> says that the number returned counts the NUL: it does not.)
\<close>

theorem safe_vsnprintf_truncates:
  assumes "format_text fmt ap = Some t" "0 < n"
  shows "safe_vsnprintf n fmt ap = Some (take (n - 1) t @ [0], min (n - 1) (length t))"
  using assms safe_format_text [OF assms(1), of "[]" "n - 1"] by (simp add: safe_vsnprintf_def min.commute)

lemma safe_vsnprintf_truncates_witness:
  "safe_vsnprintf 6 [37, 100, 45, 37, 115] [V32 (- 42), VStr (Some [97, 98, 99])] = Some ([45, 52, 50, 45, 97, 0], 5)"
proof -
  have "format_text [37, 100, 45, 37, 115] [V32 (- 42), VStr (Some [97, 98, 99])] = Some [45, 52, 50, 45, 97, 98, 99]"
    by code_simp
  from safe_vsnprintf_truncates [OF this, of 6] show ?thesis by simp
qed

end
