(* ===== verification/Arrays.thy ===== *)
theory Arrays
  imports Sample
begin

section \<open>Growing arrays (\<open>gf_array.h\<close>, \<open>gf_array.c\<close>)\<close>

text \<open>
  The elements are a block of \<open>nalloc\<close> slots; a pointer to an element is the index of its
  slot.  A slot that was never stored to holds what the allocator left there, an argument of
  the functions that allocate.  A load or a store at a slot that does not exist has no result.
\<close>

record 'a array =
  ar_nelem :: u32
  ar_elem :: "'a list option"
  ar_size :: u64
  ar_nalloc :: u32

definition array_null :: "'a array" where
  "array_null = \<lparr>ar_nelem = 0, ar_elem = None, ar_size = 0, ar_nalloc = 0\<rparr>"

definition array_set :: "'a list option \<Rightarrow> u64 \<Rightarrow> u32 \<Rightarrow> 'a array" where
  "array_set elem size_e nalloc = \<lparr>ar_nelem = 0, ar_elem = elem, ar_size = size_e, ar_nalloc = nalloc\<rparr>"

definition array_n :: "'a array \<Rightarrow> u32" where
  "array_n a = ar_nelem a"

definition array_init :: "'a \<Rightarrow> 'a array \<Rightarrow> u32 \<Rightarrow> u64 \<Rightarrow> world \<Rightarrow> (int \<times> 'a array \<times> world) option" where
  "array_init junk a n size_e w = do {
     ASSERT (n \<noteq> 0 \<and> size_e \<noteq> 0) w;
     let (ok, w) = gf_alloc w;
     if \<not> ok then Some (GF_ENOMEM, a\<lparr>ar_elem := None\<rparr>, w)
     else Some (GF_OK, array_set (Some (replicate (unat n) junk)) size_e n, w) }"

definition array_create :: "'a \<Rightarrow> u32 \<Rightarrow> u64 \<Rightarrow> world \<Rightarrow> ('a array option \<times> world) option" where
  "array_create junk n size_e w = do {
     ASSERT (n \<noteq> 0 \<and> size_e \<noteq> 0) w;
     let (ok, w) = gf_alloc w;
     if \<not> ok then Some (None, w)
     else do {
       let (ok, w) = gf_alloc w;
       if \<not> ok then Some (None, w)
       else Some (Some (array_set (Some (replicate (unat n) junk)) size_e n), w) } }"

definition array_deinit :: "'a array \<Rightarrow> world \<Rightarrow> unit option" where
  "array_deinit a w = ASSERT (ar_nelem a = 0) w"

text \<open>The pointers are given by their distance in bytes from \<open>a->elem\<close>.\<close>

definition array_idx :: "'a array \<Rightarrow> nat \<Rightarrow> world \<Rightarrow> u32 option" where
  "array_idx a d w = do {
     let off = (word_of_nat d :: u32);
     ASSERT (off mod ucast (ar_size a) = 0) w;
     if ucast (ar_size a) = (0 :: u32) then None else Some (off div ucast (ar_size a)) }"

definition array_push :: "'a \<Rightarrow> 'a array \<Rightarrow> world \<Rightarrow> nat option \<times> 'a array \<times> world" where
  "array_push junk a w =
     (if ar_nelem a = ar_nalloc a
      then (let (ok, w) = gf_alloc w
            in if \<not> ok then (None, a, w)
               else (let old = (case ar_elem a of None \<Rightarrow> [] | Some xs \<Rightarrow> xs);
                         a = a\<lparr>ar_elem := Some (old @ replicate (2 * unat (ar_nalloc a) - length old) junk),
                               ar_nalloc := ar_nalloc a * 2\<rparr>
                     in (Some (unat (ar_nelem a)), a\<lparr>ar_nelem := ar_nelem a + 1\<rparr>, w)))
      else (Some (unat (ar_nelem a)), a\<lparr>ar_nelem := ar_nelem a + 1\<rparr>, w))"

definition array_pop :: "'a array \<Rightarrow> world \<Rightarrow> (nat \<times> 'a array) option" where
  "array_pop a w = do {
     ASSERT (ar_nelem a \<noteq> 0) w;
     let n = ar_nelem a - 1;
     Some (unat n, a\<lparr>ar_nelem := n\<rparr>) }"

definition array_get :: "'a array \<Rightarrow> u32 \<Rightarrow> world \<Rightarrow> nat option" where
  "array_get a idx w = do {
     ASSERT (ar_nelem a \<noteq> 0) w;
     ASSERT (idx < ar_nelem a) w;
     Some (unat idx) }"

definition array_top :: "'a array \<Rightarrow> world \<Rightarrow> nat option" where
  "array_top a w = do {
     ASSERT (ar_nelem a \<noteq> 0) w;
     array_get a (ar_nelem a - 1) w }"

definition array_swap :: "'a array \<Rightarrow> 'a array \<Rightarrow> 'a array \<times> 'a array" where
  "array_swap a b = (b, a)"

text \<open>Loads and stores through the pointer to an element.\<close>

definition ar_load :: "'a array \<Rightarrow> nat \<Rightarrow> 'a option" where
  "ar_load a i = (case ar_elem a of None \<Rightarrow> None | Some xs \<Rightarrow> if i < length xs then Some (xs ! i) else None)"

definition ar_store :: "'a array \<Rightarrow> nat \<Rightarrow> 'a \<Rightarrow> 'a array option" where
  "ar_store a i x = (case ar_elem a of None \<Rightarrow> None
     | Some xs \<Rightarrow> if i < length xs then Some (a\<lparr>ar_elem := Some (xs[i := x])\<rparr>) else None)"

text \<open>
  \<open>qsort\<close>: the elements in the order of the comparison; equal ones keep their order, as the
  merge sort of the C library leaves them.
\<close>

fun insert_cmp :: "('a \<Rightarrow> 'a \<Rightarrow> int) \<Rightarrow> 'a \<Rightarrow> 'a list \<Rightarrow> 'a list" where
  "insert_cmp cmp x [] = [x]"
| "insert_cmp cmp x (y # ys) = (if cmp x y \<le> 0 then x # y # ys else y # insert_cmp cmp x ys)"

definition qsort :: "('a \<Rightarrow> 'a \<Rightarrow> int) \<Rightarrow> 'a list \<Rightarrow> 'a list" where
  "qsort cmp xs = foldr (insert_cmp cmp) xs []"

definition array_sort :: "('a \<Rightarrow> 'a \<Rightarrow> int) \<Rightarrow> 'a array \<Rightarrow> world \<Rightarrow> 'a array option" where
  "array_sort cmp a w = do {
     ASSERT (ar_nelem a \<noteq> 0) w;
     xs \<leftarrow> ar_elem a;
     let n = unat (ar_nelem a);
     Some (a\<lparr>ar_elem := Some (qsort cmp (take n xs) @ drop n xs)\<rparr>) }"

text \<open>The loop of \<open>array_each\<close>: the elements from \<open>i\<close> on, \<open>k\<close> of them left.\<close>

primrec each_loop :: "nat \<Rightarrow> (nat \<Rightarrow> 's \<Rightarrow> (int \<times> 's) option) \<Rightarrow> nat \<Rightarrow> 's \<Rightarrow> (int \<times> 's) option" where
  "each_loop 0 f i s = Some (GF_OK, s)"
| "each_loop (Suc k) f i s = do {
     (status, s) \<leftarrow> f i s;
     if status \<noteq> GF_OK then Some (status, s) else each_loop k f (Suc i) s }"

definition array_each :: "'a array \<Rightarrow> (nat \<Rightarrow> 's \<Rightarrow> (int \<times> 's) option) \<Rightarrow> 's \<Rightarrow> world \<Rightarrow> (int \<times> 's) option" where
  "array_each a f s w = do {
     ASSERT (array_n a \<noteq> 0) w;
     each_loop (unat (array_n a)) f 0 s }"

subsection \<open>Stacks\<close>

text \<open>What a client relies on that only pushes and pops: the elements as a list.\<close>

locale stack =
  fixes ok :: "'a array \<Rightarrow> bool" and items :: "'a array \<Rightarrow> 'a list"
  assumes push_items: "ok a \<Longrightarrow> length (items a) < 2 ^ 31 - 1 \<Longrightarrow> array_push junk a w = (Some i, a', w') \<Longrightarrow>
      ar_store a' i x = Some b \<Longrightarrow> ok b \<and> items b = items a @ [x]"
    and push_slot: "ok a \<Longrightarrow> length (items a) < 2 ^ 31 - 1 \<Longrightarrow> array_push junk a w = (Some i, a', w') \<Longrightarrow>
      i = length (items a) \<and> (\<exists>b. ar_store a' i x = Some b)"
    and push_full: "array_push junk a w = (None, a', w') \<Longrightarrow> a' = a"
    and pop_items: "ok a \<Longrightarrow> items a \<noteq> [] \<Longrightarrow> \<exists>b. array_pop a w = Some (length (items a) - 1, b) \<and> ok b \<and> items b = butlast (items a)"
    and load_items: "ok a \<Longrightarrow> i < length (items a) \<Longrightarrow> ar_load a i = Some (items a ! i)"
begin

lemma push_pop:
  assumes "ok a" "length (items a) < 2 ^ 31 - 1" "array_push junk a w = (Some i, a', w')" "ar_store a' i x = Some b"
  shows "ar_load b i = Some x \<and> (\<exists>c. array_pop b v = Some (i, c) \<and> ok c \<and> items c = items a)"
proof -
  have b: "ok b" "items b = items a @ [x]" and i: "i = length (items a)"
    using push_items [OF assms] push_slot [OF assms(1-3)] by auto
  then show ?thesis using pop_items [of b v] load_items [of b i] by auto
qed

end

definition array_ok :: "'a array \<Rightarrow> bool" where
  "array_ok a \<longleftrightarrow> (\<exists>xs. ar_elem a = Some xs \<and> length xs = unat (ar_nalloc a)) \<and> ar_nelem a \<le> ar_nalloc a \<and> ar_nalloc a \<noteq> 0"

definition array_items :: "'a array \<Rightarrow> 'a list" where
  "array_items a = (case ar_elem a of None \<Rightarrow> [] | Some xs \<Rightarrow> take (unat (ar_nelem a)) xs)"

lemma array_ok_length: "array_ok a \<Longrightarrow> length (array_items a) = unat (ar_nelem a)"
  by (auto simp: array_ok_def array_items_def word_le_nat_alt)

lemma unat_Suc: "unat x < 2 ^ 32 - 1 \<Longrightarrow> unat (x + 1 :: u32) = Suc (unat x)"
  by (simp add: unat_word_ariths(1))

lemma unat_double: "unat x < 2 ^ 31 \<Longrightarrow> unat (x * 2 :: u32) = 2 * unat x"
  by (simp add: unat_word_ariths(2))

lemma array_push_grow:
  assumes "array_ok a" "length (array_items a) < 2 ^ 31 - 1" "array_push junk a w = (Some i, a', w')"
  shows "i = length (array_items a) \<and> (\<exists>ys. ar_elem a' = Some (array_items a @ ys) \<and> ys \<noteq> []
     \<and> length (array_items a) + length ys = unat (ar_nalloc a')) \<and> ar_nelem a' = ar_nelem a + 1"
proof -
  obtain xs where xs: "ar_elem a = Some xs" "length xs = unat (ar_nalloc a)" and le: "unat (ar_nelem a) \<le> unat (ar_nalloc a)" "0 < unat (ar_nalloc a)"
    using assms(1) by (auto simp: array_ok_def word_le_nat_alt unat_gt_0)
  have n: "unat (ar_nelem a) < 2 ^ 31 - 1" using assms(1,2) by (simp add: array_ok_length)
  have it: "array_items a = take (unat (ar_nelem a)) xs" "length (array_items a) = unat (ar_nelem a)" using xs le by (simp_all add: array_items_def)
  show ?thesis
  proof (cases "ar_nelem a = ar_nalloc a")
    case True
    with n have "unat (ar_nalloc a * 2) = 2 * unat (ar_nalloc a)" by (intro unat_double) simp
    with assms(3) True xs le it show ?thesis
      by (auto simp: array_push_def split_def Let_def split: if_splits)
  next
    case False
    then have "unat (ar_nelem a) < unat (ar_nalloc a)" using le by (simp add: le_less word_unat_eq_iff)
    with assms(3) False xs it show ?thesis
      by (auto simp: array_push_def intro!: exI [of _ "drop (unat (ar_nelem a)) xs"])
  qed
qed

lemma array_push_items:
  assumes "array_ok a" "length (array_items a) < 2 ^ 31 - 1" "array_push junk a w = (Some i, a', w')" "ar_store a' i x = Some b"
  shows "array_ok b \<and> array_items b = array_items a @ [x]"
proof -
  obtain ys where ys: "ar_elem a' = Some (array_items a @ ys)" "ys \<noteq> []" "length (array_items a) + length ys = unat (ar_nalloc a')"
    "i = length (array_items a)" "ar_nelem a' = ar_nelem a + 1" using array_push_grow [OF assms(1-3)] by blast
  have n: "unat (ar_nelem a + 1) = Suc (length (array_items a))"
    using assms(1,2) by (simp add: array_ok_length unat_Suc)
  have len: "length (array_items a) < unat (ar_nalloc a')" using ys(2,3) by (simp flip: ys(3))
  have b: "b = a'\<lparr>ar_elem := Some ((array_items a @ ys)[i := x])\<rparr>" using assms(4) ys len by (simp add: ar_store_def)
  have "array_items b = array_items a @ [x]" using ys n unfolding b by (cases ys) (simp_all add: array_items_def)
  moreover have "array_ok b" using ys n unfolding b
    by (cases ys) (auto simp: array_ok_def word_le_nat_alt simp flip: unat_gt_0)
  ultimately show ?thesis by simp
qed

lemma array_push_slot:
  assumes "array_ok a" "length (array_items a) < 2 ^ 31 - 1" "array_push junk a w = (Some i, a', w')"
  shows "i = length (array_items a) \<and> (\<exists>b. ar_store a' i x = Some b)"
  using array_push_grow [OF assms] by (auto simp: ar_store_def simp flip: length_greater_0_conv)

lemma array_pop_items:
  assumes "array_ok a" "array_items a \<noteq> []"
  shows "\<exists>b. array_pop a w = Some (length (array_items a) - 1, b) \<and> array_ok b \<and> array_items b = butlast (array_items a)"
proof -
  have ne: "0 < unat (ar_nelem a)" using assms by (simp add: array_ok_length flip: length_greater_0_conv)
  then have n: "unat (ar_nelem a - 1) = unat (ar_nelem a) - 1" "ar_nelem a \<noteq> 0" by (auto simp: unat_minus_one unat_gt_0)
  with assms(1) ne have "array_ok (a\<lparr>ar_nelem := ar_nelem a - 1\<rparr>)" by (auto simp: array_ok_def word_le_nat_alt)
  moreover have "array_items (a\<lparr>ar_nelem := ar_nelem a - 1\<rparr>) = butlast (array_items a)"
    using assms(1) n ne by (auto simp: array_items_def array_ok_def word_le_nat_alt butlast_take)
  ultimately show ?thesis using n assms(1) by (simp add: array_pop_def array_ok_length ASSERT_def)
qed

lemma array_load_items: "array_ok a \<Longrightarrow> i < length (array_items a) \<Longrightarrow> ar_load a i = Some (array_items a ! i)"
  by (auto simp: array_ok_def array_items_def ar_load_def)

lemma array_push_full: "array_push junk a w = (None, a', w') \<Longrightarrow> a' = a"
  by (auto simp: array_push_def split_def Let_def split: if_splits)

interpretation arr: stack array_ok array_items
  by unfold_locales (blast intro: array_push_items array_push_slot array_push_full array_pop_items array_load_items
      dest: array_push_items array_push_slot)+

lemma array_idx_exact:
  assumes "ar_size b = s" "unat s * i < 2 ^ 32" "0 < s" "s < 2 ^ 32" "unat (word_of_nat i :: u32) = i"
  shows "array_idx b (unat s * i) w = Some (word_of_nat i)"
proof -
  let ?s = "ucast s :: u32" and ?off = "word_of_nat (unat s * i) :: u32"
  have lt: "unat s < 2 ^ 32" using assms(4) by (simp add: word_less_nat_alt)
  then have s: "unat ?s = unat s" by (simp add: unsigned_ucast_eq take_bit_nat_eq_self)
  have off: "unat ?off = unat s * i" unfolding unat_of_nat using assms(2) by simp
  have pos: "0 < unat s" using assms(3) by (simp add: word_less_nat_alt)
  then have nz: "?s \<noteq> 0" using s by (metis unat_0 less_irrefl)
  have "?off mod ?s = 0" using s off by (simp add: word_unat_eq_iff unat_mod)
  moreover have "?off div ?s = word_of_nat i" using s off pos assms(5) by (simp add: word_unat_eq_iff unat_div)
  ultimately show ?thesis using nz assms(1) by (simp add: array_idx_def Let_def)
qed

text \<open>
  a push into an array that is full doubles the allocation, otherwise uses
  the next slot; either way the elements are the old ones followed by the new one, the pointer
  returned is the one \<open>array_get\<close> and \<open>array_top\<close> give for the new element,
  \<open>array_idx\<close> maps it back to its number as long as the block is smaller than 4 GB, and a
  pop returns it and restores the array; when memory runs out nothing changes.
\<close>

theorem array_push_pop:
  assumes "array_ok a" "length (array_items a) < 2 ^ 31 - 1"
  shows "case array_push junk a w of
      (None, a', w') \<Rightarrow> a' = a \<and> ar_nelem a = ar_nalloc a
    | (Some i, a', w') \<Rightarrow> \<exists>b. ar_store a' i x = Some b \<and> array_ok b \<and> array_items b = array_items a @ [x]
        \<and> array_get b (word_of_nat i) w' = Some i \<and> array_top b w' = Some i
        \<and> (unat (ar_size a) * i < 2 ^ 32 \<longrightarrow> 0 < ar_size a \<longrightarrow> ar_size a < 2 ^ 32 \<longrightarrow> array_idx b (unat (ar_size a) * i) w' = Some (word_of_nat i))
        \<and> (\<exists>c. array_pop b w' = Some (i, c) \<and> array_items c = array_items a)"
proof -
  obtain r a' w' where p: "array_push junk a w = (r, a', w')" by (cases "array_push junk a w")
  show ?thesis
  proof (cases r)
    case None
    with p arr.push_full [of junk a w a' w'] show ?thesis by (auto simp: array_push_def split: if_splits)
  next
    case (Some i)
    note p = p [unfolded Some]
    obtain b where b: "ar_store a' i x = Some b" "array_ok b" "array_items b = array_items a @ [x]" "i = length (array_items a)"
      using arr.push_slot [OF assms p] arr.push_items [OF assms p] by blast
    have n: "unat (ar_nelem b) = Suc i" using array_ok_length [OF b(2)] b(3,4) by simp
    have i: "unat (word_of_nat i :: u32) = i" using assms(2) b(4) by (simp add: unat_of_nat take_bit_nat_eq_self)
    have m: "ar_nelem b - 1 = word_of_nat i" "(word_of_nat i :: u32) < ar_nelem b" "ar_nelem b \<noteq> 0"
      using n i by (auto simp: word_unat_eq_iff unat_minus_one word_less_nat_alt)
    have "ar_size b = ar_size a" using p b(1) by (auto simp: array_push_def ar_store_def split_def Let_def split: if_splits option.splits)
    then have ix: "array_idx b (unat (ar_size a) * i) w' = Some (word_of_nat i)"
      if "unat (ar_size a) * i < 2 ^ 32" "0 < ar_size a" "ar_size a < 2 ^ 32" using that i by (intro array_idx_exact) auto
    show ?thesis unfolding p using b m i ix arr.push_pop [OF assms p b(1), of w']
      by (auto simp: array_get_def array_top_def)
  qed
qed

lemma array_push_pop_witness:
  "case array_push (0::nat) (array_set (Some [7, 0]) 8 2) w0 of
      (None, a', w') \<Rightarrow> False
    | (Some i, a', w') \<Rightarrow> \<exists>b. ar_store a' i 5 = Some b \<and> array_items b = [5] \<and> array_top b w' = Some i"
  using array_push_pop [where a = "array_set (Some [7, 0::nat]) 8 2" and junk = 0 and w = w0 and x = 5]
  by (auto simp: array_ok_def array_items_def array_set_def array_push_def)

end
