(* ===== verification/Conf.thy ===== *)
theory Conf
  imports Net Strings Arrays
begin

section \<open>The configuration: its data and directives (\<open>gf_conf.h\<close>, \<open>gf_conf.c\<close>)\<close>

text \<open>
  The records the parser fills, one pool per key at the root of the file, and the functions the
  table \<open>conf_commands\<close> calls for a directive.  The integer fields of a pool are one function
  on the offsets the table holds.  A \<open>const char *\<close> result is \<open>None\<close> for \<open>CONF_OK\<close> and
  the text of the error otherwise.
\<close>

abbreviation (input) CONF_ROOT_DEPTH :: u32 where "CONF_ROOT_DEPTH \<equiv> 1"
abbreviation (input) CONF_MAX_DEPTH :: u32 where "CONF_MAX_DEPTH \<equiv> 2"
abbreviation (input) CONF_UNSET_NUM :: int where "CONF_UNSET_NUM \<equiv> - 1"
abbreviation (input) CONF_DEFAULT_KETAMA_PORT :: int where "CONF_DEFAULT_KETAMA_PORT \<equiv> 11211"

subsection \<open>Data\<close>

record conf_listen =
  cl_pname :: gstring
  cl_name :: gstring
  cl_port :: int
  cl_perm :: nat
  cl_info :: sockinfo
  cl_valid :: bool

record conf_server =
  cs_pname :: gstring
  cs_name :: gstring
  cs_addrstr :: gstring
  cs_port :: int
  cs_weight :: int
  cs_info :: sockinfo
  cs_valid :: bool

datatype num_field =
    N_timeout | N_backlog | N_client_connections | N_tcpkeepalive | N_redis | N_redis_db | N_preconnect
  | N_auto_eject_hosts | N_server_connections | N_server_retry_timeout | N_server_failure_limit | N_reuseport

record conf_pool =
  cp_name :: gstring
  cp_listen :: conf_listen
  cp_hash :: "hash_type option"
  cp_hash_tag :: gstring
  cp_distribution :: "dist_type option"
  cp_num :: "num_field \<Rightarrow> int"
  cp_redis_auth :: gstring
  cp_server :: "conf_server array"
  cp_valid :: bool

text \<open>
  The file as the yaml library reports it: the \<open>n\<close>-th token, event or document of a pass, or
  an error (\<open>None\<close>); and what fresh memory for a server or a pool holds.
\<close>

datatype yaml_token =
    YAML_NO_TOKEN | YAML_STREAM_START_TOKEN | YAML_STREAM_END_TOKEN | YAML_VERSION_DIRECTIVE_TOKEN
  | YAML_TAG_DIRECTIVE_TOKEN | YAML_DOCUMENT_START_TOKEN | YAML_DOCUMENT_END_TOKEN
  | YAML_BLOCK_SEQUENCE_START_TOKEN | YAML_BLOCK_MAPPING_START_TOKEN | YAML_BLOCK_END_TOKEN
  | YAML_FLOW_SEQUENCE_START_TOKEN | YAML_FLOW_SEQUENCE_END_TOKEN | YAML_FLOW_MAPPING_START_TOKEN
  | YAML_FLOW_MAPPING_END_TOKEN | YAML_BLOCK_ENTRY_TOKEN | YAML_FLOW_ENTRY_TOKEN | YAML_KEY_TOKEN
  | YAML_VALUE_TOKEN | YAML_ALIAS_TOKEN | YAML_ANCHOR_TOKEN | YAML_TAG_TOKEN | YAML_SCALAR_TOKEN

datatype yaml_event =
    YAML_NO_EVENT | YAML_STREAM_START_EVENT | YAML_STREAM_END_EVENT | YAML_DOCUMENT_START_EVENT
  | YAML_DOCUMENT_END_EVENT | YAML_ALIAS_EVENT | YAML_SCALAR_EVENT "u8 list" | YAML_SEQUENCE_START_EVENT
  | YAML_SEQUENCE_END_EVENT | YAML_MAPPING_START_EVENT | YAML_MAPPING_END_EVENT

record yaml =
  y_token :: "nat \<Rightarrow> yaml_token option"
  y_event :: "nat \<Rightarrow> yaml_event option"
  y_document :: "nat \<Rightarrow> bool option"
  y_string :: gstring
  y_server :: conf_server
  y_pool :: conf_pool

record conf =
  cf_arg :: "gstring array"
  cf_pool :: "conf_pool array"
  cf_depth :: u32
  cf_pos :: nat
  cf_event :: yaml_event
  cf_token :: yaml_token
  cf_seq :: bool
  cf_valid_parser :: bool
  cf_valid_event :: bool
  cf_valid_token :: bool
  cf_sound :: bool
  cf_parsed :: bool
  cf_valid :: bool

text \<open>\<open>memset(&info, 0, sizeof(info))\<close>.\<close>

definition zero_info :: sockinfo where
  "zero_info = \<lparr>si_family = 0, si_addrlen = 0, si_addr = replicate 112 0\<rparr>"

subsection \<open>Servers and pools\<close>

definition conf_server_init :: conf_server where
  "conf_server_init = \<lparr>cs_pname = string_init, cs_name = string_init, cs_addrstr = string_init, cs_port = 0,
     cs_weight = 1, cs_info = zero_info, cs_valid = False\<rparr>"

definition conf_server_deinit :: "conf_server \<Rightarrow> world \<Rightarrow> conf_server option" where
  "conf_server_deinit cs w = do {
     a \<leftarrow> string_deinit (cs_pname cs) w;
     b \<leftarrow> string_deinit (cs_name cs) w;
     c \<leftarrow> string_deinit (cs_addrstr cs) w;
     Some (cs\<lparr>cs_pname := a, cs_name := b, cs_addrstr := c, cs_valid := False\<rparr>) }"

text \<open>All fields but the permissions of the socket are set; those keep what memory held.\<close>

definition conf_pool_unset :: "conf_pool \<Rightarrow> conf_pool" where
  "conf_pool_unset cp = cp\<lparr>cp_name := string_init,
     cp_listen := (cp_listen cp)\<lparr>cl_pname := string_init, cl_name := string_init, cl_port := 0, cl_info := zero_info, cl_valid := False\<rparr>,
     cp_redis_auth := string_init, cp_hash := None, cp_hash_tag := string_init, cp_distribution := None,
     cp_num := (\<lambda>_. CONF_UNSET_NUM), cp_server := array_null, cp_valid := False\<rparr>"

abbreviation (input) sizeof_conf_server :: u64 where "sizeof_conf_server \<equiv> 184"
abbreviation (input) sizeof_conf_pool :: u64 where "sizeof_conf_pool \<equiv> 312"
abbreviation (input) sizeof_string :: u64 where "sizeof_string \<equiv> 16"

definition conf_pool_init :: "yaml \<Rightarrow> conf_pool \<Rightarrow> gstring \<Rightarrow> world \<Rightarrow> (int \<times> conf_pool \<times> world) option" where
  "conf_pool_init Y cp name w = do {
     let cp = conf_pool_unset cp;
     (status, s, w) \<leftarrow> string_duplicate (cp_name cp) name w;
     let cp = cp\<lparr>cp_name := s\<rparr>;
     if status \<noteq> GF_OK then Some (status, cp, w)
     else do {
       (status, a, w) \<leftarrow> array_init (y_server Y) (cp_server cp) 8 sizeof_conf_server w;
       let cp = cp\<lparr>cp_server := a\<rparr>;
       if status \<noteq> GF_OK then do {
         s \<leftarrow> string_deinit (cp_name cp) w;
         Some (status, cp\<lparr>cp_name := s\<rparr>, w) }
       else Some (GF_OK, cp, w) } }"

text \<open>The loop that frees the servers of a pool, last first.\<close>

primrec deinit_servers :: "nat \<Rightarrow> conf_server array \<Rightarrow> world \<Rightarrow> conf_server array option" where
  "deinit_servers 0 a w = Some a"
| "deinit_servers (Suc n) a w = do {
     (i, a) \<leftarrow> array_pop a w;
     cs \<leftarrow> ar_load a i;
     cs \<leftarrow> conf_server_deinit cs w;
     a \<leftarrow> ar_store a i cs;
     deinit_servers n a w }"

definition conf_pool_deinit :: "conf_pool \<Rightarrow> world \<Rightarrow> conf_pool option" where
  "conf_pool_deinit cp w = do {
     a \<leftarrow> string_deinit (cp_name cp) w;
     b \<leftarrow> string_deinit (cl_pname (cp_listen cp)) w;
     c \<leftarrow> string_deinit (cl_name (cp_listen cp)) w;
     d \<leftarrow> (if 0 < gs_len (cp_redis_auth cp) then string_deinit (cp_redis_auth cp) w else Some (cp_redis_auth cp));
     servers \<leftarrow> deinit_servers (unat (array_n (cp_server cp))) (cp_server cp) w;
     array_deinit servers w;
     Some (cp\<lparr>cp_name := a, cp_listen := (cp_listen cp)\<lparr>cl_pname := b, cl_name := c\<rparr>, cp_redis_auth := d, cp_server := servers\<rparr>) }"

subsection \<open>Directives\<close>

text \<open>The innermost value on the stack of scalars.\<close>

definition arg_top :: "conf \<Rightarrow> world \<Rightarrow> gstring option" where
  "arg_top cf w = do { i \<leftarrow> array_top (cf_arg cf) w; ar_load (cf_arg cf) i }"

definition conf_set_string :: "conf \<Rightarrow> conf_pool \<Rightarrow> world \<Rightarrow> (string option \<times> conf_pool \<times> world) option" where
  "conf_set_string cf cp w =
     (if gs_data (cp_redis_auth cp) \<noteq> None then Some (Some ''is a duplicate'', cp, w)
      else do {
        value \<leftarrow> arg_top cf w;
        (status, s, w) \<leftarrow> string_duplicate (cp_redis_auth cp) value w;
        let cp = cp\<lparr>cp_redis_auth := s\<rparr>;
        Some (if status \<noteq> GF_OK then Some ''has an invalid value'' else None, cp, w) })"

text \<open>
  \<open>strtol(perm, NULL, 8)\<close>: blanks, a sign, octal digits up to the first other byte.  Out of
  range it sets \<open>errno\<close> and gives the nearest \<open>long\<close>.
\<close>

fun octal_digits :: "u8 list \<Rightarrow> int \<Rightarrow> int" where
  "octal_digits [] v = v"
| "octal_digits (c # cs) v = (if 48 \<le> c \<and> c \<le> 55 then octal_digits cs (v * 8 + (uint c - 48)) else v)"

definition strtol8 :: "u8 list \<Rightarrow> int \<times> bool" where
  "strtol8 s =
     (let s = dropWhile (\<lambda>c. c = 32 \<or> 9 \<le> c \<and> c \<le> 13) s;
          v = (case s of [] \<Rightarrow> 0
               | c # cs \<Rightarrow> if c = 45 then - octal_digits cs 0 else if c = 43 then octal_digits cs 0 else octal_digits s 0)
      in if 2 ^ 63 \<le> v then (2 ^ 63 - 1, True) else if v < - (2 ^ 63) then (- (2 ^ 63), True) else (v, False))"

text \<open>
  The tail of \<open>conf_set_listen\<close>: the name is \<open>namelen\<close> bytes at the start of the value.
\<close>

definition listen_finish ::
  "u8 list \<Rightarrow> u32 \<Rightarrow> conf_pool \<Rightarrow> world \<Rightarrow> (string option \<times> conf_pool \<times> world) option" where
  "listen_finish name namelen cp w = do {
     (status, s, w) \<leftarrow> string_copy (cl_name (cp_listen cp)) name namelen w;
     let cp = cp\<lparr>cp_listen := (cp_listen cp)\<lparr>cl_name := s\<rparr>\<rparr>;
     if status \<noteq> GF_OK then Some (Some ''has an invalid value'', cp, w)
     else do {
       (status, si, w) \<leftarrow> gf_resolve (gs_bytes s) (cl_port (cp_listen cp)) (cl_info (cp_listen cp)) w;
       let cp = cp\<lparr>cp_listen := (cp_listen cp)\<lparr>cl_info := si\<rparr>\<rparr>;
       if status \<noteq> GF_OK then Some (Some ''has an invalid value'', cp, w)
       else Some (None, cp\<lparr>cp_listen := (cp_listen cp)\<lparr>cl_valid := True\<rparr>\<rparr>, w) } }"

definition conf_set_listen :: "conf \<Rightarrow> conf_pool \<Rightarrow> world \<Rightarrow> (string option \<times> conf_pool \<times> world) option" where
  "conf_set_listen cf cp w =
     (if cl_valid (cp_listen cp) then Some (Some ''is a duplicate'', cp, w)
      else do {
        value \<leftarrow> arg_top cf w;
        (status, s, w) \<leftarrow> string_duplicate (cl_pname (cp_listen cp)) value w;
        let cp = cp\<lparr>cp_listen := (cp_listen cp)\<lparr>cl_pname := s\<rparr>\<rparr>;
        if status \<noteq> GF_OK then Some (Some ''has an invalid value'', cp, w)
        else do {
          d \<leftarrow> gs_data value;
          let p = int (unat (gs_len value)) - 1;
          if hd d = 47 then
            (case gf_strrchr d p 0 32 of
               None \<Rightarrow> listen_finish d (gs_len value) (cp\<lparr>cp_listen := (cp_listen cp)\<lparr>cl_perm := 0\<rparr>\<rparr>) w
             | Some q \<Rightarrow> (
                 let (v, range) = strtol8 (takeWhile (\<lambda>c. c \<noteq> 0) (drop (nat (q + 1)) d));
                     perm = unat (word_of_int v :: u32);
                     cp = cp\<lparr>cp_listen := (cp_listen cp)\<lparr>cl_perm := perm\<rparr>\<rparr>;
                     w = w\<lparr>w_errno := (if range then 34 else 0)\<rparr>
                 in if range \<or> 0x1ff < perm then
                      Some (Some ''has an invalid file permission in \"socket_path permission\" format string'', cp, w)
                    else listen_finish d (word_of_int (q - 1 - 0 + 1)) cp w))
          else
            (case gf_strrchr d p 0 58 of
               None \<Rightarrow> Some (Some ''has an invalid \"hostname:port\" format string'', cp, w)
             | Some q \<Rightarrow> do {
                 port \<leftarrow> gf_atoi (drop (nat (q + 1)) d) (unat (word_of_int (p - (q + 1) + 1) :: u32));
                 let cp = cp\<lparr>cp_listen := (cp_listen cp)\<lparr>cl_port := port\<rparr>\<rparr>;
                 if port < 0 \<or> \<not> gf_valid_port port then
                   Some (Some ''has an invalid port in \"hostname:port\" format string'', cp, w)
                 else listen_finish d (word_of_int (q - 1 - 0 + 1)) cp w }) } })"

text \<open>
  The parts \<open>conf_add_server\<close> finds: offset and length of the name, the weight and the port.
  The loop runs to \<open>sizeof(delim)\<close>, the size of a pointer; \<open>delim\<close> has 4 bytes.
\<close>

record server_parts =
  sp_name :: "(int \<times> u32) option"
  sp_weight :: "(int \<times> u32) option"
  sp_port :: "(int \<times> u32) option"

definition set_part :: "nat \<Rightarrow> int \<times> u32 \<Rightarrow> server_parts \<Rightarrow> server_parts" where
  "set_part k part st = (if k = 0 then st\<lparr>sp_name := Some part\<rparr> else if k = 1 then st\<lparr>sp_weight := Some part\<rparr>
     else if k = 2 then st\<lparr>sp_port := Some part\<rparr> else st)"

function server_scan :: "u8 list \<Rightarrow> nat \<Rightarrow> int \<Rightarrow> server_parts \<Rightarrow> world \<Rightarrow> (nat \<times> int \<times> server_parts) option" where
  "server_scan d k p st w =
     (if 8 \<le> k then Some (k, p, st)
      else if 4 \<le> k then None
      else (case gf_strrchr d p 0 ([32, 58, 58, 0] ! k) of
          None \<Rightarrow> if k = 0 then server_scan d (k + 1) p st w else Some (k, p, st)
        | Some q \<Rightarrow> do {
            ASSERT (k < 3) w;
            server_scan d (k + 1) (q - 1) (set_part k (q + 1, word_of_int (p - (q + 1) + 1)) st) w }))"
  by pat_completeness auto
termination by (relation "measure (\<lambda>(d, k, p, st, w). 8 - k)") auto

declare server_scan.simps [simp del]

text \<open>\<open>gf_atoi\<close> of a part; a part that was not found is a NULL pointer with length 0.\<close>

definition part_atoi :: "u8 list \<Rightarrow> (int \<times> u32) option \<Rightarrow> int option" where
  "part_atoi d part = (case part of None \<Rightarrow> Some (- 1) | Some (off, n) \<Rightarrow> gf_atoi (drop (nat off) d) (unat n))"

text \<open>
  The fields of the new server, once the value is split.  The server is a slot of the array
  from the start, so what an early return leaves in it stays.
\<close>

definition server_fields ::
  "gstring \<Rightarrow> u8 list \<Rightarrow> int \<Rightarrow> server_parts \<Rightarrow> conf_server \<Rightarrow> world \<Rightarrow> (string option \<times> conf_server \<times> world) option" where
  "server_fields value d p st cs w = do {
     let addrlen = (word_of_int (p - 0 + 1) :: u32);
     weight \<leftarrow> part_atoi d (sp_weight st);
     let cs = cs\<lparr>cs_weight := weight\<rparr>;
     if weight < 0 then Some (Some ''has an invalid weight in \"hostname:port:weight [name]\" format string'', cs, w)
     else if weight = 0 then Some (Some ''has a zero weight in \"hostname:port:weight [name]\" format string'', cs, w)
     else do {
       port \<leftarrow> (if hd d \<noteq> 47 then part_atoi d (sp_port st) else Some (cs_port cs));
       let cs = cs\<lparr>cs_port := port\<rparr>;
       if hd d \<noteq> 47 \<and> (port < 0 \<or> \<not> gf_valid_port port) then
         Some (Some ''has an invalid port in \"hostname:port:weight [name]\" format string'', cs, w)
       else do {
         let portlen = (case sp_port st of None \<Rightarrow> 0 | Some (_, n) \<Rightarrow> n);
         let (off, namelen) = (case sp_name st of Some part \<Rightarrow> part
             | None \<Rightarrow> (0, if port = CONF_DEFAULT_KETAMA_PORT then addrlen else addrlen + 1 + portlen));
         (status, s, w) \<leftarrow> string_copy (cs_name cs) (drop (nat off) d) namelen w;
         let cs = cs\<lparr>cs_name := s\<rparr>;
         if status \<noteq> GF_OK then Some (Some ''has an invalid value'', cs, w)
         else do {
           (status, s, w) \<leftarrow> string_copy (cs_addrstr cs) d addrlen w;
           let cs = cs\<lparr>cs_addrstr := s\<rparr>;
           if status \<noteq> GF_OK then Some (Some ''has an invalid value'', cs, w)
           else Some (None, cs\<lparr>cs_valid := True\<rparr>, w) } } } }"

definition conf_add_server :: "yaml \<Rightarrow> conf \<Rightarrow> conf_pool \<Rightarrow> world \<Rightarrow> (string option \<times> conf_pool \<times> world) option" where
  "conf_add_server Y cf cp w = do {
     let (slot, a, w) = array_push (y_server Y) (cp_server cp) w;
     case slot of None \<Rightarrow> Some (Some ''has an invalid value'', cp\<lparr>cp_server := a\<rparr>, w)
     | Some i \<Rightarrow> do {
         a \<leftarrow> ar_store a i conf_server_init;
         let cp = cp\<lparr>cp_server := a\<rparr>;
         value \<leftarrow> arg_top cf w;
         d \<leftarrow> gs_data value;
         let delimlen = (if hd d = 47 then 2 else 3);
         (k, p, st) \<leftarrow> server_scan d 0 (int (unat (gs_len value)) - 1) \<lparr>sp_name = None, sp_weight = None, sp_port = None\<rparr> w;
         if k \<noteq> delimlen then
           Some (Some ''has an invalid \"hostname:port:weight [name]\"or \"/path/unix_socket:weight [name]\" format string'', cp, w)
         else do {
           let namelen = (case sp_name st of None \<Rightarrow> 0 | Some (_, n) \<Rightarrow> n);
           let pnamelen = (if 0 < namelen then gs_len value - (namelen + 1) else gs_len value);
           (status, s, w) \<leftarrow> string_copy (cs_pname conf_server_init) d pnamelen w;
           let cs = conf_server_init\<lparr>cs_pname := s\<rparr>;
           if status \<noteq> GF_OK then do {
             a \<leftarrow> ar_store a i cs;
             (_, a) \<leftarrow> array_pop a w;
             Some (Some ''has an invalid value'', cp\<lparr>cp_server := a\<rparr>, w) }
           else do {
             (rv, cs, w) \<leftarrow> server_fields value d p st cs w;
             a \<leftarrow> ar_store a i cs;
             Some (rv, cp\<lparr>cp_server := a\<rparr>, w) } } } }"

definition conf_set_num :: "num_field \<Rightarrow> conf \<Rightarrow> conf_pool \<Rightarrow> world \<Rightarrow> (string option \<times> conf_pool \<times> world) option" where
  "conf_set_num f cf cp w =
     (if cp_num cp f \<noteq> CONF_UNSET_NUM then Some (Some ''is a duplicate'', cp, w)
      else do {
        value \<leftarrow> arg_top cf w;
        d \<leftarrow> gs_data value;
        num \<leftarrow> gf_atoi d (unat (gs_len value));
        if num < 0 then Some (Some ''is not a number'', cp, w)
        else Some (None, cp\<lparr>cp_num := (cp_num cp)(f := num)\<rparr>, w) })"

definition conf_set_bool :: "num_field \<Rightarrow> conf \<Rightarrow> conf_pool \<Rightarrow> world \<Rightarrow> (string option \<times> conf_pool \<times> world) option" where
  "conf_set_bool f cf cp w =
     (if cp_num cp f \<noteq> CONF_UNSET_NUM then Some (Some ''is a duplicate'', cp, w)
      else do {
        value \<leftarrow> arg_top cf w;
        if string_compare value (string_lit (bytes_of_string ''true'')) = 0 then Some (None, cp\<lparr>cp_num := (cp_num cp)(f := 1)\<rparr>, w)
        else if string_compare value (string_lit (bytes_of_string ''false'')) = 0 then Some (None, cp\<lparr>cp_num := (cp_num cp)(f := 0)\<rparr>, w)
        else Some (Some ''is not \"true\" or \"false\"'', cp, w) })"

text \<open>The two tables of names, in the order of the types they stand for.\<close>

definition hash_strings :: "(gstring \<times> hash_type) list" where
  "hash_strings = map (\<lambda>(s, t). (string_lit (bytes_of_string s), t))
     [(''one_at_a_time'', HASH_ONE_AT_A_TIME), (''md5'', HASH_MD5), (''crc16'', HASH_CRC16), (''crc32'', HASH_CRC32),
      (''crc32a'', HASH_CRC32A), (''fnv1_64'', HASH_FNV1_64), (''fnv1a_64'', HASH_FNV1A_64), (''fnv1_32'', HASH_FNV1_32),
      (''fnv1a_32'', HASH_FNV1A_32), (''hsieh'', HASH_HSIEH), (''murmur'', HASH_MURMUR), (''jenkins'', HASH_JENKINS)]"

definition dist_strings :: "(gstring \<times> dist_type) list" where
  "dist_strings = map (\<lambda>(s, t). (string_lit (bytes_of_string s), t))
     [(''ketama'', DIST_KETAMA), (''modula'', DIST_MODULA), (''random'', DIST_RANDOM)]"

fun find_name :: "gstring \<Rightarrow> (gstring \<times> 'a) list \<Rightarrow> 'a option" where
  "find_name value [] = None"
| "find_name value ((s, t) # tab) = (if string_compare value s \<noteq> 0 then find_name value tab else Some t)"

definition conf_set_hash :: "conf \<Rightarrow> conf_pool \<Rightarrow> world \<Rightarrow> (string option \<times> conf_pool \<times> world) option" where
  "conf_set_hash cf cp w =
     (if cp_hash cp \<noteq> None then Some (Some ''is a duplicate'', cp, w)
      else do {
        value \<leftarrow> arg_top cf w;
        case find_name value hash_strings of
          Some t \<Rightarrow> Some (None, cp\<lparr>cp_hash := Some t\<rparr>, w)
        | None \<Rightarrow> Some (Some ''is not a valid hash'', cp, w) })"

definition conf_set_distribution :: "conf \<Rightarrow> conf_pool \<Rightarrow> world \<Rightarrow> (string option \<times> conf_pool \<times> world) option" where
  "conf_set_distribution cf cp w =
     (if cp_distribution cp \<noteq> None then Some (Some ''is a duplicate'', cp, w)
      else do {
        value \<leftarrow> arg_top cf w;
        case find_name value dist_strings of
          Some t \<Rightarrow> Some (None, cp\<lparr>cp_distribution := Some t\<rparr>, w)
        | None \<Rightarrow> Some (Some ''is not a valid distribution'', cp, w) })"

definition conf_set_hashtag :: "conf \<Rightarrow> conf_pool \<Rightarrow> world \<Rightarrow> (string option \<times> conf_pool \<times> world) option" where
  "conf_set_hashtag cf cp w =
     (if gs_data (cp_hash_tag cp) \<noteq> None then Some (Some ''is a duplicate'', cp, w)
      else do {
        value \<leftarrow> arg_top cf w;
        if gs_len value \<noteq> 2 then Some (Some ''is not a valid hash tag string with two characters'', cp, w)
        else do {
          (status, s, w) \<leftarrow> string_duplicate (cp_hash_tag cp) value w;
          let cp = cp\<lparr>cp_hash_tag := s\<rparr>;
          Some (if status \<noteq> GF_OK then Some ''has an invalid value'' else None, cp, w) } })"

datatype command =
    C_set_listen | C_set_hash | C_set_hashtag | C_set_distribution | C_set_string | C_add_server
  | C_set_num num_field | C_set_bool num_field

definition conf_commands :: "(gstring \<times> command) list" where
  "conf_commands = map (\<lambda>(s, c). (string_lit (bytes_of_string s), c))
     [(''listen'', C_set_listen), (''hash'', C_set_hash), (''hash_tag'', C_set_hashtag), (''distribution'', C_set_distribution),
      (''timeout'', C_set_num N_timeout), (''backlog'', C_set_num N_backlog),
      (''client_connections'', C_set_num N_client_connections), (''redis'', C_set_bool N_redis),
      (''tcpkeepalive'', C_set_bool N_tcpkeepalive), (''reuseport'', C_set_bool N_reuseport), (''redis_auth'', C_set_string),
      (''redis_db'', C_set_num N_redis_db), (''preconnect'', C_set_bool N_preconnect),
      (''auto_eject_hosts'', C_set_bool N_auto_eject_hosts), (''server_connections'', C_set_num N_server_connections),
      (''server_retry_timeout'', C_set_num N_server_retry_timeout), (''server_failure_limit'', C_set_num N_server_failure_limit),
      (''servers'', C_add_server)]"

definition cmd_set :: "command \<Rightarrow> yaml \<Rightarrow> conf \<Rightarrow> conf_pool \<Rightarrow> world \<Rightarrow> (string option \<times> conf_pool \<times> world) option" where
  "cmd_set cmd Y = (case cmd of C_set_listen \<Rightarrow> conf_set_listen | C_set_hash \<Rightarrow> conf_set_hash
     | C_set_hashtag \<Rightarrow> conf_set_hashtag | C_set_distribution \<Rightarrow> conf_set_distribution | C_set_string \<Rightarrow> conf_set_string
     | C_add_server \<Rightarrow> conf_add_server Y | C_set_num f \<Rightarrow> conf_set_num f | C_set_bool f \<Rightarrow> conf_set_bool f)"

end
