(* ===== verification/Conf_File.thy ===== *)
theory Conf_File
  imports Conf
begin

section \<open>Reading a configuration file (\<open>gf_conf.c\<close>)\<close>

text \<open>
  The passes over the file: \<open>conf_pre_validate\<close> looks at its documents, tokens and
  structure, \<open>conf_parse\<close> builds the pools with a stack of scalars, \<open>conf_post_validate\<close>
  fills in defaults and rejects duplicates.  What the yaml library reports in a pass is the
  parameter \<open>yaml\<close>; a pass starts at its first token or event again.
\<close>

definition sys_call :: "string \<Rightarrow> world \<Rightarrow> sysres \<times> world" where
  "sys_call name w = sys (Sys_call name) w"

subsection \<open>The yaml parser\<close>

definition conf_yaml_init :: "conf \<Rightarrow> world \<Rightarrow> (int \<times> conf \<times> world) option" where
  "conf_yaml_init cf w = do {
     ASSERT (\<not> cf_valid_parser cf) w;
     let (r, w) = sys_call ''fseek'' w;
     if r_ret r < 0 then Some (GF_ERROR, cf, w)
     else do {
       let (r, w) = sys_call ''yaml_parser_initialize'' w;
       if r_ret r = 0 then Some (GF_ERROR, cf, w)
       else Some (GF_OK, cf\<lparr>cf_pos := 0, cf_valid_parser := True\<rparr>, w) } }"

definition conf_yaml_deinit :: "conf \<Rightarrow> conf" where
  "conf_yaml_deinit cf = (if cf_valid_parser cf then cf\<lparr>cf_valid_parser := False\<rparr> else cf)"

definition conf_token_next :: "yaml \<Rightarrow> conf \<Rightarrow> world \<Rightarrow> (int \<times> conf) option" where
  "conf_token_next Y cf w = do {
     ASSERT (cf_valid_parser cf \<and> \<not> cf_valid_token cf) w;
     case y_token Y (cf_pos cf) of
       None \<Rightarrow> Some (GF_ERROR, cf)
     | Some t \<Rightarrow> Some (GF_OK, cf\<lparr>cf_token := t, cf_pos := Suc (cf_pos cf), cf_valid_token := True\<rparr>) }"

definition conf_token_done :: "conf \<Rightarrow> world \<Rightarrow> conf option" where
  "conf_token_done cf w = do {
     ASSERT (cf_valid_parser cf) w;
     Some (if cf_valid_token cf then cf\<lparr>cf_valid_token := False\<rparr> else cf) }"

definition conf_event_next :: "yaml \<Rightarrow> conf \<Rightarrow> world \<Rightarrow> (int \<times> conf) option" where
  "conf_event_next Y cf w = do {
     ASSERT (cf_valid_parser cf \<and> \<not> cf_valid_event cf) w;
     case y_event Y (cf_pos cf) of
       None \<Rightarrow> Some (GF_ERROR, cf)
     | Some e \<Rightarrow> Some (GF_OK, cf\<lparr>cf_event := e, cf_pos := Suc (cf_pos cf), cf_valid_event := True\<rparr>) }"

definition conf_event_done :: "conf \<Rightarrow> conf" where
  "conf_event_done cf = (if cf_valid_event cf then cf\<lparr>cf_valid_event := False\<rparr> else cf)"

subsection \<open>The stack of scalars\<close>

text \<open>The value of a scalar is followed by a NUL the library adds.\<close>

definition conf_push_scalar :: "yaml \<Rightarrow> u8 list \<Rightarrow> conf \<Rightarrow> world \<Rightarrow> (int \<times> conf \<times> world) option" where
  "conf_push_scalar Y scalar cf w =
     (let scalar_len = (word_of_nat (length scalar) :: u32)
      in if scalar_len = 0 then Some (GF_ERROR, cf, w)
         else (case array_push (y_string Y) (cf_arg cf) w of
             (None, a, w) \<Rightarrow> Some (GF_ENOMEM, cf\<lparr>cf_arg := a\<rparr>, w)
           | (Some i, a, w) \<Rightarrow> do {
               a \<leftarrow> ar_store a i string_init;
               (status, s, w) \<leftarrow> string_copy string_init (scalar @ [0]) scalar_len w;
               a \<leftarrow> ar_store a i s;
               if status \<noteq> GF_OK then do { (_, a) \<leftarrow> array_pop a w; Some (status, cf\<lparr>cf_arg := a\<rparr>, w) }
               else Some (GF_OK, cf\<lparr>cf_arg := a\<rparr>, w) }))"

definition conf_pop_scalar :: "conf \<Rightarrow> world \<Rightarrow> conf option" where
  "conf_pop_scalar cf w = do {
     (i, a) \<leftarrow> array_pop (cf_arg cf) w;
     value \<leftarrow> ar_load a i;
     value \<leftarrow> string_deinit value w;
     a \<leftarrow> ar_store a i value;
     Some (cf\<lparr>cf_arg := a\<rparr>) }"

definition conf_handler :: "yaml \<Rightarrow> conf \<Rightarrow> nat option \<Rightarrow> world \<Rightarrow> (int \<times> conf \<times> world) option" where
  "conf_handler Y cf data w =
     (if array_n (cf_arg cf) = 1 then do {
        value \<leftarrow> arg_top cf w;
        i \<leftarrow> data;
        cp \<leftarrow> ar_load (cf_pool cf) i;
        (status, cp, w) \<leftarrow> conf_pool_init Y cp value w;
        pools \<leftarrow> ar_store (cf_pool cf) i cp;
        Some (status, cf\<lparr>cf_pool := pools\<rparr>, w) }
      else do {
        let narg = array_n (cf_arg cf);
        vi \<leftarrow> array_get (cf_arg cf) (narg - 1) w;
        ki \<leftarrow> array_get (cf_arg cf) (narg - 2) w;
        key \<leftarrow> ar_load (cf_arg cf) ki;
        case find_name key conf_commands of
          None \<Rightarrow> Some (GF_ERROR, cf, w)
        | Some cmd \<Rightarrow> do {
            i \<leftarrow> data;
            cp \<leftarrow> ar_load (cf_pool cf) i;
            (rv, cp, w) \<leftarrow> cmd_set cmd Y cf cp w;
            pools \<leftarrow> ar_store (cf_pool cf) i cp;
            Some (if rv \<noteq> None then GF_ERROR else GF_OK, cf\<lparr>cf_pool := pools\<rparr>, w) } })"

subsection \<open>Parsing\<close>

text \<open>
  The loops over events end when the library reports the end or an error; \<open>fuel\<close> bounds the
  events read.  An event the switch does not know goes to \<open>NOT_REACHED\<close>.
\<close>

primrec begin_loop :: "nat \<Rightarrow> yaml \<Rightarrow> conf \<Rightarrow> world \<Rightarrow> (int \<times> conf \<times> world) option" where
  "begin_loop 0 Y cf w = None"
| "begin_loop (Suc k) Y cf w = do {
     (status, cf) \<leftarrow> conf_event_next Y cf w;
     if status \<noteq> GF_OK then Some (status, cf, w)
     else (case cf_event cf of
         YAML_STREAM_START_EVENT \<Rightarrow> begin_loop k Y (conf_event_done cf) w
       | YAML_DOCUMENT_START_EVENT \<Rightarrow> begin_loop k Y (conf_event_done cf) w
       | YAML_MAPPING_START_EVENT \<Rightarrow> do {
           ASSERT (cf_depth cf < CONF_MAX_DEPTH) w;
           Some (GF_OK, conf_event_done (cf\<lparr>cf_depth := cf_depth cf + 1\<rparr>), w) }
       | _ \<Rightarrow> do { ASSERT False w; begin_loop k Y (conf_event_done cf) w }) }"

definition conf_begin_parse :: "nat \<Rightarrow> yaml \<Rightarrow> conf \<Rightarrow> world \<Rightarrow> (int \<times> conf \<times> world) option" where
  "conf_begin_parse fuel Y cf w = do {
     ASSERT (cf_sound cf \<and> \<not> cf_parsed cf) w;
     ASSERT (cf_depth cf = 0) w;
     (status, cf, w) \<leftarrow> conf_yaml_init cf w;
     if status \<noteq> GF_OK then Some (status, cf, w) else begin_loop fuel Y cf w }"

primrec end_loop :: "nat \<Rightarrow> yaml \<Rightarrow> conf \<Rightarrow> world \<Rightarrow> (int \<times> conf) option" where
  "end_loop 0 Y cf w = None"
| "end_loop (Suc k) Y cf w = do {
     (status, cf) \<leftarrow> conf_event_next Y cf w;
     if status \<noteq> GF_OK then Some (status, cf)
     else (case cf_event cf of
         YAML_STREAM_END_EVENT \<Rightarrow> Some (GF_OK, conf_yaml_deinit (conf_event_done cf))
       | YAML_DOCUMENT_END_EVENT \<Rightarrow> end_loop k Y (conf_event_done cf) w
       | _ \<Rightarrow> do { ASSERT False w; end_loop k Y (conf_event_done cf) w }) }"

definition conf_end_parse :: "nat \<Rightarrow> yaml \<Rightarrow> conf \<Rightarrow> world \<Rightarrow> (int \<times> conf) option" where
  "conf_end_parse fuel Y cf w = do {
     ASSERT (cf_sound cf \<and> \<not> cf_parsed cf) w;
     ASSERT (cf_depth cf = 0) w;
     end_loop fuel Y cf w }"

text \<open>
  The switch of \<open>conf_parse_core\<close> on one event: the status, \<open>done\<close>, \<open>leaf\<close> and
  \<open>new_pool\<close>, and \<open>data\<close>.
\<close>

record parse_step =
  ps_status :: int
  ps_done :: bool
  ps_leaf :: bool
  ps_new_pool :: bool
  ps_data :: "nat option"

definition no_step :: "nat option \<Rightarrow> parse_step" where
  "no_step data = \<lparr>ps_status = GF_OK, ps_done = False, ps_leaf = False, ps_new_pool = False, ps_data = data\<rparr>"

definition conf_parse_event :: "yaml \<Rightarrow> conf \<Rightarrow> nat option \<Rightarrow> world \<Rightarrow> (parse_step \<times> conf \<times> world) option" where
  "conf_parse_event Y cf data w = (case cf_event cf of
     YAML_MAPPING_END_EVENT \<Rightarrow>
       (let cf = cf\<lparr>cf_depth := cf_depth cf - 1\<rparr>
        in if cf_depth cf = 1 then do { cf \<leftarrow> conf_pop_scalar cf w; Some (no_step data, cf, w) }
           else Some ((no_step data)\<lparr>ps_done := cf_depth cf = 0\<rparr>, cf, w))
   | YAML_MAPPING_START_EVENT \<Rightarrow> Some (no_step data, cf\<lparr>cf_depth := cf_depth cf + 1\<rparr>, w)
   | YAML_SEQUENCE_START_EVENT \<Rightarrow> Some (no_step data, cf\<lparr>cf_seq := True\<rparr>, w)
   | YAML_SEQUENCE_END_EVENT \<Rightarrow> do { cf \<leftarrow> conf_pop_scalar cf w; Some (no_step data, cf\<lparr>cf_seq := False\<rparr>, w) }
   | YAML_SCALAR_EVENT scalar \<Rightarrow> do {
       (status, cf, w) \<leftarrow> conf_push_scalar Y scalar cf w;
       if status \<noteq> GF_OK then Some ((no_step data)\<lparr>ps_status := status\<rparr>, cf, w)
       else if cf_seq cf then do {
         ASSERT (cf_depth cf = CONF_MAX_DEPTH) w;
         Some ((no_step data)\<lparr>ps_leaf := True\<rparr>, cf, w) }
       else if cf_depth cf = CONF_ROOT_DEPTH then
         (case array_push (y_pool Y) (cf_pool cf) w of
            (None, pools, w) \<Rightarrow> Some ((no_step None)\<lparr>ps_status := GF_ENOMEM\<rparr>, cf\<lparr>cf_pool := pools\<rparr>, w)
          | (Some i, pools, w) \<Rightarrow> Some ((no_step (Some i))\<lparr>ps_new_pool := True\<rparr>, cf\<lparr>cf_pool := pools\<rparr>, w))
       else if array_n (cf_arg cf) = cf_depth cf + 1 then do {
         ASSERT (cf_depth cf = CONF_MAX_DEPTH) w;
         Some ((no_step data)\<lparr>ps_leaf := True\<rparr>, cf, w) }
       else Some (no_step data, cf, w) }
   | _ \<Rightarrow> do { ASSERT False w; Some (no_step data, cf, w) })"

text \<open>What follows the switch for a leaf or a new pool.\<close>

definition conf_parse_action :: "yaml \<Rightarrow> parse_step \<Rightarrow> conf \<Rightarrow> world \<Rightarrow> (int \<times> conf \<times> world) option" where
  "conf_parse_action Y s cf w =
     (if ps_leaf s \<or> ps_new_pool s then do {
        (status, cf, w) \<leftarrow> conf_handler Y cf (ps_data s) w;
        cf \<leftarrow> (if ps_leaf s then do {
               cf \<leftarrow> conf_pop_scalar cf w;
               if \<not> cf_seq cf then conf_pop_scalar cf w else Some cf }
             else Some cf);
        Some (status, cf, w) }
      else Some (GF_OK, cf, w))"

primrec conf_parse_core :: "nat \<Rightarrow> yaml \<Rightarrow> conf \<Rightarrow> nat option \<Rightarrow> world \<Rightarrow> (int \<times> conf \<times> world) option" where
  "conf_parse_core 0 Y cf data w = None"
| "conf_parse_core (Suc k) Y cf data w = do {
     ASSERT (cf_sound cf) w;
     (status, cf) \<leftarrow> conf_event_next Y cf w;
     if status \<noteq> GF_OK then Some (status, cf, w)
     else do {
       (s, cf, w) \<leftarrow> conf_parse_event Y cf data w;
       let cf = conf_event_done cf;
       if ps_status s \<noteq> GF_OK then Some (ps_status s, cf, w)
       else if ps_done s then Some (GF_OK, cf, w)
       else do {
         (status, cf, w) \<leftarrow> conf_parse_action Y s cf w;
         if status \<noteq> GF_OK then Some (status, cf, w)
         else conf_parse_core k Y cf (ps_data s) w } } }"

definition conf_parse :: "nat \<Rightarrow> yaml \<Rightarrow> conf \<Rightarrow> world \<Rightarrow> (int \<times> conf \<times> world) option" where
  "conf_parse fuel Y cf w = do {
     ASSERT (cf_sound cf \<and> \<not> cf_parsed cf) w;
     ASSERT (array_n (cf_arg cf) = 0) w;
     (status, cf, w) \<leftarrow> conf_begin_parse fuel Y cf w;
     if status \<noteq> GF_OK then Some (status, cf, w)
     else do {
       (status, cf, w) \<leftarrow> conf_parse_core fuel Y cf None w;
       if status \<noteq> GF_OK then Some (status, cf, w)
       else do {
         (status, cf) \<leftarrow> conf_end_parse fuel Y cf w;
         if status \<noteq> GF_OK then Some (status, cf, w)
         else Some (GF_OK, cf\<lparr>cf_parsed := True\<rparr>, w) } } }"

end
