(* ===== verification/Conf_Check.thy ===== *)
theory Conf_Check
  imports Conf_File
begin

section \<open>Checking a configuration (\<open>gf_conf.c\<close>)\<close>

text \<open>
  The passes before the parse (documents, tokens, structure), the checks after it, and
  \<open>conf_create\<close>, which runs them all.
\<close>

subsection \<open>Before the parse\<close>

primrec document_loop :: "nat \<Rightarrow> yaml \<Rightarrow> nat \<Rightarrow> u32 \<Rightarrow> u32 option option" where
  "document_loop 0 Y i count = None"
| "document_loop (Suc k) Y i count = (case y_document Y i of
     None \<Rightarrow> Some None
   | Some False \<Rightarrow> Some (Some count)
   | Some True \<Rightarrow> document_loop k Y (Suc i) (count + 1))"

definition conf_validate_document :: "nat \<Rightarrow> yaml \<Rightarrow> conf \<Rightarrow> world \<Rightarrow> (int \<times> conf \<times> world) option" where
  "conf_validate_document fuel Y cf w = do {
     (status, cf, w) \<leftarrow> conf_yaml_init cf w;
     if status \<noteq> GF_OK then Some (status, cf, w)
     else do {
       count \<leftarrow> document_loop fuel Y 0 0;
       let cf = conf_yaml_deinit cf;
       case count of None \<Rightarrow> Some (GF_ERROR, cf, w)
       | Some n \<Rightarrow> Some (if n \<noteq> 1 then GF_ERROR else GF_OK, cf, w) } }"

text \<open>The switch over the tokens: a token that is not block style is an error.\<close>

definition token_allowed :: "yaml_token \<Rightarrow> bool" where
  "token_allowed t = (case t of
     YAML_BLOCK_SEQUENCE_START_TOKEN \<Rightarrow> True | YAML_BLOCK_MAPPING_START_TOKEN \<Rightarrow> True | YAML_BLOCK_END_TOKEN \<Rightarrow> True
   | YAML_BLOCK_ENTRY_TOKEN \<Rightarrow> True | YAML_KEY_TOKEN \<Rightarrow> True | YAML_VALUE_TOKEN \<Rightarrow> True | YAML_SCALAR_TOKEN \<Rightarrow> True
   | YAML_STREAM_START_TOKEN \<Rightarrow> True | YAML_STREAM_END_TOKEN \<Rightarrow> True | _ \<Rightarrow> False)"

primrec token_loop :: "nat \<Rightarrow> yaml \<Rightarrow> conf \<Rightarrow> world \<Rightarrow> (int \<times> conf) option" where
  "token_loop 0 Y cf w = None"
| "token_loop (Suc k) Y cf w = do {
     (status, cf) \<leftarrow> conf_token_next Y cf w;
     if status \<noteq> GF_OK then Some (status, cf)
     else do {
       let t = cf_token cf;
       cf \<leftarrow> conf_token_done cf w;
       if \<not> token_allowed t then Some (GF_ERROR, conf_yaml_deinit cf)
       else if t = YAML_STREAM_END_TOKEN then Some (GF_OK, conf_yaml_deinit cf)
       else token_loop k Y cf w } }"

definition conf_validate_tokens :: "nat \<Rightarrow> yaml \<Rightarrow> conf \<Rightarrow> world \<Rightarrow> (int \<times> conf \<times> world) option" where
  "conf_validate_tokens fuel Y cf w = do {
     (status, cf, w) \<leftarrow> conf_yaml_init cf w;
     if status \<noteq> GF_OK then Some (status, cf, w)
     else do { (status, cf) \<leftarrow> token_loop fuel Y cf w; Some (status, cf, w) } }"

text \<open>
  The local variables of \<open>conf_validate_structure\<close>; \<open>count\<close> has three slots, and a load or
  store at another index has no result.
\<close>

record structure_state =
  v_depth :: int
  v_count :: "nat list"
  v_seq :: bool
  v_done :: bool
  v_error :: bool

definition count_at :: "structure_state \<Rightarrow> nat option" where
  "count_at v = (if 0 \<le> v_depth v \<and> nat (v_depth v) < length (v_count v) then Some (v_count v ! nat (v_depth v)) else None)"

definition set_count :: "nat \<Rightarrow> structure_state \<Rightarrow> structure_state option" where
  "set_count n v = (if 0 \<le> v_depth v \<and> nat (v_depth v) < length (v_count v)
     then Some (v\<lparr>v_count := (v_count v)[nat (v_depth v) := n]\<rparr>) else None)"

definition structure_step :: "yaml_event \<Rightarrow> structure_state \<Rightarrow> world \<Rightarrow> structure_state option" where
  "structure_step e v w = (case e of
     YAML_STREAM_START_EVENT \<Rightarrow> Some v
   | YAML_DOCUMENT_START_EVENT \<Rightarrow> Some v
   | YAML_DOCUMENT_END_EVENT \<Rightarrow> Some v
   | YAML_STREAM_END_EVENT \<Rightarrow> Some (v\<lparr>v_done := True\<rparr>)
   | YAML_MAPPING_START_EVENT \<Rightarrow> do {
       bad \<leftarrow> (if v_depth v = 1 then do { n \<leftarrow> count_at v; Some (n \<noteq> 1) } else Some False);
       let v = (if bad \<or> 2 \<le> v_depth v then v\<lparr>v_error := True\<rparr> else v);
       Some (v\<lparr>v_depth := v_depth v + 1\<rparr>) }
   | YAML_MAPPING_END_EVENT \<Rightarrow>
       (let v = (if v_depth v = 2 then (if v_seq v then v\<lparr>v_seq := False\<rparr> else v\<lparr>v_error := True\<rparr>) else v)
        in set_count 0 (v\<lparr>v_depth := v_depth v - 1\<rparr>))
   | YAML_SEQUENCE_START_EVENT \<Rightarrow> do {
       bad \<leftarrow> (if v_seq v then Some True else if v_depth v \<noteq> 2 then Some True
               else do { n \<leftarrow> count_at v; Some (n \<noteq> 1) });
       Some ((if bad then v\<lparr>v_error := True\<rparr> else v)\<lparr>v_seq := True\<rparr>) }
   | YAML_SEQUENCE_END_EVENT \<Rightarrow> do { ASSERT (v_depth v = 2) w; set_count 0 v }
   | YAML_SCALAR_EVENT _ \<Rightarrow>
       do {
         n \<leftarrow> count_at v;
         let v = (if v_depth v = 0 then v\<lparr>v_error := True\<rparr> else if v_depth v = 1 \<and> n \<noteq> 0 then v\<lparr>v_error := True\<rparr> else v);
         set_count (if v_depth v = 2 \<and> n = 2 then 1 else n + 1) v }
   | _ \<Rightarrow> do { ASSERT False w; Some v })"

primrec structure_loop :: "nat \<Rightarrow> yaml \<Rightarrow> conf \<Rightarrow> structure_state \<Rightarrow> world \<Rightarrow> (int \<times> conf) option" where
  "structure_loop 0 Y cf v w = None"
| "structure_loop (Suc k) Y cf v w = do {
     (status, cf) \<leftarrow> conf_event_next Y cf w;
     if status \<noteq> GF_OK then Some (status, cf)
     else do {
       v \<leftarrow> structure_step (cf_event cf) v w;
       let cf = conf_event_done cf;
       if \<not> v_done v \<and> \<not> v_error v then structure_loop k Y cf v w
       else Some (if v_error v then GF_ERROR else GF_OK, conf_yaml_deinit cf) } }"

definition structure_init :: structure_state where
  "structure_init = \<lparr>v_depth = 0, v_count = [0, 0, 0], v_seq = False, v_done = False, v_error = False\<rparr>"

definition conf_validate_structure :: "nat \<Rightarrow> yaml \<Rightarrow> conf \<Rightarrow> world \<Rightarrow> (int \<times> conf \<times> world) option" where
  "conf_validate_structure fuel Y cf w = do {
     (status, cf, w) \<leftarrow> conf_yaml_init cf w;
     if status \<noteq> GF_OK then Some (status, cf, w)
     else do { (status, cf) \<leftarrow> structure_loop fuel Y cf structure_init w; Some (status, cf, w) } }"

definition conf_pre_validate :: "nat \<Rightarrow> yaml \<Rightarrow> conf \<Rightarrow> world \<Rightarrow> (int \<times> conf \<times> world) option" where
  "conf_pre_validate fuel Y cf w = do {
     (status, cf, w) \<leftarrow> conf_validate_document fuel Y cf w;
     if status \<noteq> GF_OK then Some (status, cf, w)
     else do {
       (status, cf, w) \<leftarrow> conf_validate_tokens fuel Y cf w;
       if status \<noteq> GF_OK then Some (status, cf, w)
       else do {
         (status, cf, w) \<leftarrow> conf_validate_structure fuel Y cf w;
         if status \<noteq> GF_OK then Some (status, cf, w)
         else Some (GF_OK, cf\<lparr>cf_sound := True\<rparr>, w) } } }"

subsection \<open>After the parse\<close>

definition conf_server_name_cmp :: "conf_server \<Rightarrow> conf_server \<Rightarrow> int" where
  "conf_server_name_cmp s1 s2 = string_compare (cs_name s1) (cs_name s2)"

definition conf_pool_name_cmp :: "conf_pool \<Rightarrow> conf_pool \<Rightarrow> int" where
  "conf_pool_name_cmp p1 p2 = string_compare (cp_name p1) (cp_name p2)"

definition conf_pool_listen_cmp :: "conf_pool \<Rightarrow> conf_pool \<Rightarrow> int" where
  "conf_pool_listen_cmp p1 p2 = string_compare (cl_pname (cp_listen p1)) (cl_pname (cp_listen p2))"

text \<open>The loop over neighbours: no two may compare equal.\<close>

fun no_equal_neighbours :: "('a \<Rightarrow> 'a \<Rightarrow> int) \<Rightarrow> 'a list \<Rightarrow> bool" where
  "no_equal_neighbours cmp (x # y # zs) = (if cmp x y = 0 then False else no_equal_neighbours cmp (y # zs))"
| "no_equal_neighbours cmp xs = True"

text \<open>The elements in use.\<close>

definition array_used :: "'a array \<Rightarrow> 'a list option" where
  "array_used a = (case ar_elem a of None \<Rightarrow> if ar_nelem a = 0 then Some [] else None
     | Some xs \<Rightarrow> if unat (ar_nelem a) \<le> length xs then Some (take (unat (ar_nelem a)) xs) else None)"

definition conf_validate_server :: "conf_pool \<Rightarrow> world \<Rightarrow> (int \<times> conf_pool) option" where
  "conf_validate_server cp w =
     (if array_n (cp_server cp) = 0 then Some (GF_ERROR, cp)
      else do {
        a \<leftarrow> array_sort conf_server_name_cmp (cp_server cp) w;
        xs \<leftarrow> array_used a;
        Some (if no_equal_neighbours conf_server_name_cmp xs then GF_OK else GF_ERROR, cp\<lparr>cp_server := a\<rparr>) })"

definition num_default :: "num_field \<Rightarrow> int" where
  "num_default f = (case f of N_timeout \<Rightarrow> - 1 | N_backlog \<Rightarrow> 512 | N_client_connections \<Rightarrow> 0 | N_tcpkeepalive \<Rightarrow> 0
     | N_redis \<Rightarrow> 0 | N_redis_db \<Rightarrow> 0 | N_preconnect \<Rightarrow> 0 | N_auto_eject_hosts \<Rightarrow> 0 | N_server_connections \<Rightarrow> 1
     | N_server_retry_timeout \<Rightarrow> 30 * 1000 | N_server_failure_limit \<Rightarrow> 2 | N_reuseport \<Rightarrow> 0)"

definition set_default :: "num_field \<Rightarrow> conf_pool \<Rightarrow> conf_pool" where
  "set_default f cp = (if cp_num cp f = CONF_UNSET_NUM then cp\<lparr>cp_num := (cp_num cp)(f := num_default f)\<rparr> else cp)"

definition conf_validate_pool :: "conf_pool \<Rightarrow> world \<Rightarrow> (int \<times> conf_pool) option" where
  "conf_validate_pool cp w = do {
     ASSERT (\<not> cp_valid cp) w;
     empty \<leftarrow> string_empty (cp_name cp) w;
     ASSERT (\<not> empty) w;
     if \<not> cl_valid (cp_listen cp) then Some (GF_ERROR, cp)
     else do {
       let cp = (if cp_distribution cp = None then cp\<lparr>cp_distribution := Some DIST_KETAMA\<rparr> else cp);
       let cp = (if cp_hash cp = None then cp\<lparr>cp_hash := Some HASH_FNV1A_64\<rparr> else cp);
       let cp = set_default N_backlog (set_default N_timeout cp);
       let cp = cp\<lparr>cp_num := (cp_num cp)(N_client_connections := num_default N_client_connections)\<rparr>;
       let cp = set_default N_redis cp;
       let cp = set_default N_reuseport (set_default N_tcpkeepalive cp);
       let cp = set_default N_preconnect (set_default N_redis_db cp);
       let cp = set_default N_auto_eject_hosts cp;
       if cp_num cp N_server_connections \<noteq> CONF_UNSET_NUM \<and> cp_num cp N_server_connections = 0 then Some (GF_ERROR, cp)
       else do {
         let cp = set_default N_server_connections cp;
         let cp = set_default N_server_failure_limit (set_default N_server_retry_timeout cp);
         if cp_num cp N_redis = 0 \<and> 0 < gs_len (cp_redis_auth cp) then Some (GF_ERROR, cp)
         else do {
           (status, cp) \<leftarrow> conf_validate_server cp w;
           if status \<noteq> GF_OK then Some (status, cp)
           else Some (GF_OK, cp\<lparr>cp_valid := True\<rparr>) } } } }"

text \<open>The loop over the pools, \<open>k\<close> of them left from number \<open>i\<close> on.\<close>

primrec validate_pools :: "nat \<Rightarrow> nat \<Rightarrow> conf_pool array \<Rightarrow> world \<Rightarrow> (int \<times> conf_pool array) option" where
  "validate_pools 0 i a w = Some (GF_OK, a)"
| "validate_pools (Suc k) i a w = do {
     j \<leftarrow> array_get a (word_of_nat i) w;
     cp \<leftarrow> ar_load a j;
     (status, cp) \<leftarrow> conf_validate_pool cp w;
     a \<leftarrow> ar_store a j cp;
     if status \<noteq> GF_OK then Some (status, a) else validate_pools k (Suc i) a w }"

definition conf_post_validate :: "conf \<Rightarrow> world \<Rightarrow> (int \<times> conf) option" where
  "conf_post_validate cf w = do {
     ASSERT (cf_sound cf \<and> cf_parsed cf) w;
     ASSERT (\<not> cf_valid cf) w;
     if array_n (cf_pool cf) = 0 then Some (GF_ERROR, cf)
     else do {
       (status, a) \<leftarrow> validate_pools (unat (array_n (cf_pool cf))) 0 (cf_pool cf) w;
       if status \<noteq> GF_OK then Some (status, cf\<lparr>cf_pool := a\<rparr>)
       else do {
         a \<leftarrow> array_sort conf_pool_listen_cmp a w;
         xs \<leftarrow> array_used a;
         if \<not> no_equal_neighbours conf_pool_listen_cmp xs then Some (GF_ERROR, cf\<lparr>cf_pool := a\<rparr>)
         else do {
           a \<leftarrow> array_sort conf_pool_name_cmp a w;
           xs \<leftarrow> array_used a;
           Some (if no_equal_neighbours conf_pool_name_cmp xs then GF_OK else GF_ERROR, cf\<lparr>cf_pool := a\<rparr>) } } } }"

subsection \<open>Creating and destroying\<close>

definition conf_open :: "yaml \<Rightarrow> world \<Rightarrow> (conf option \<times> world) option" where
  "conf_open Y w = do {
     let (r, w) = sys_call ''fopen'' w;
     if r_ret r = 0 then Some (None, w)
     else do {
       let (ok, w) = gf_alloc w;
       if \<not> ok then Some (None, snd (sys_call ''fclose'' w))
       else do {
         (status, arg, w) \<leftarrow> array_init (y_string Y) array_null 3 sizeof_string w;
         if status \<noteq> GF_OK then Some (None, snd (sys_call ''fclose'' w))
         else do {
           (status, pool, w) \<leftarrow> array_init (y_pool Y) array_null 8 sizeof_conf_pool w;
           if status \<noteq> GF_OK then do { array_deinit arg w; Some (None, snd (sys_call ''fclose'' w)) }
           else Some (Some \<lparr>cf_arg = arg, cf_pool = pool, cf_depth = 0, cf_pos = 0, cf_event = YAML_NO_EVENT,
                  cf_token = YAML_NO_TOKEN, cf_seq = False, cf_valid_parser = False, cf_valid_event = False,
                  cf_valid_token = False, cf_sound = False, cf_parsed = False, cf_valid = False\<rparr>, w) } } } }"

primrec pop_scalars :: "nat \<Rightarrow> conf \<Rightarrow> world \<Rightarrow> conf option" where
  "pop_scalars 0 cf w = Some cf"
| "pop_scalars (Suc n) cf w = do { cf \<leftarrow> conf_pop_scalar cf w; pop_scalars n cf w }"

primrec deinit_pools :: "nat \<Rightarrow> conf_pool array \<Rightarrow> world \<Rightarrow> conf_pool array option" where
  "deinit_pools 0 a w = Some a"
| "deinit_pools (Suc n) a w = do {
     (i, a) \<leftarrow> array_pop a w;
     cp \<leftarrow> ar_load a i;
     cp \<leftarrow> conf_pool_deinit cp w;
     a \<leftarrow> ar_store a i cp;
     deinit_pools n a w }"

definition conf_destroy :: "conf \<Rightarrow> world \<Rightarrow> unit option" where
  "conf_destroy cf w = do {
     cf \<leftarrow> pop_scalars (unat (array_n (cf_arg cf))) cf w;
     array_deinit (cf_arg cf) w;
     pools \<leftarrow> deinit_pools (unat (array_n (cf_pool cf))) (cf_pool cf) w;
     array_deinit pools w }"

text \<open>The checks and the parse, one after the other, as long as they succeed.\<close>

definition conf_read :: "nat \<Rightarrow> yaml \<Rightarrow> conf \<Rightarrow> world \<Rightarrow> (int \<times> conf \<times> world) option" where
  "conf_read fuel Y cf w = do {
     (status, cf, w) \<leftarrow> conf_pre_validate fuel Y cf w;
     if status \<noteq> GF_OK then Some (status, cf, w)
     else do {
       (status, cf, w) \<leftarrow> conf_parse fuel Y cf w;
       if status \<noteq> GF_OK then Some (status, cf, w)
       else do { (status, cf) \<leftarrow> conf_post_validate cf w; Some (status, cf, w) } } }"

definition conf_create :: "nat \<Rightarrow> yaml \<Rightarrow> world \<Rightarrow> (conf option \<times> world) option" where
  "conf_create fuel Y w = do {
     (cf, w) \<leftarrow> conf_open Y w;
     case cf of None \<Rightarrow> Some (None, w)
     | Some cf \<Rightarrow> do {
         (status, cf, w) \<leftarrow> conf_read fuel Y cf w;
         let w = snd (sys_call ''fclose'' w);
         if status = GF_OK then Some (Some cf, w)
         else do { conf_destroy cf w; Some (None, w) } } }"

end
