(* ===== verification/Conf_Structure.thy ===== *)
theory Conf_Structure
  imports Conf_Check
begin

section \<open>What the structure check accepts\<close>

text \<open>
  The events of a yaml stream are those of a tree (the grammar of the library's events; aliases
  are refused by the token check before).  The event driven check of \<open>gf_conf.c\<close> accepts
  exactly the trees of the shape its comment draws.
\<close>

datatype yaml_node = Y_scalar "u8 list" | Y_seq "yaml_node list" | Y_map "(yaml_node \<times> yaml_node) list"

fun node_events :: "yaml_node \<Rightarrow> yaml_event list" where
  "node_events (Y_scalar s) = [YAML_SCALAR_EVENT s]"
| "node_events (Y_seq ns) = YAML_SEQUENCE_START_EVENT # concat (map node_events ns) @ [YAML_SEQUENCE_END_EVENT]"
| "node_events (Y_map kvs) =
     YAML_MAPPING_START_EVENT # concat (map (\<lambda>(k, v). node_events k @ node_events v) kvs) @ [YAML_MAPPING_END_EVENT]"

definition stream_events :: "yaml_node \<Rightarrow> yaml_event list" where
  "stream_events root = [YAML_STREAM_START_EVENT, YAML_DOCUMENT_START_EVENT] @ node_events root
     @ [YAML_DOCUMENT_END_EVENT, YAML_STREAM_END_EVENT]"

definition reads :: "yaml \<Rightarrow> yaml_event list \<Rightarrow> bool" where
  "reads Y es \<longleftrightarrow> (\<forall>i. y_event Y i = (if i < length es then Some (es ! i) else None))"

text \<open>The shape: pools, each a mapping of directives to values and one sequence.\<close>

fun is_scalar :: "yaml_node \<Rightarrow> bool" where
  "is_scalar (Y_scalar s) = True" | "is_scalar _ = False"

fun scalar_seq :: "yaml_node \<Rightarrow> bool" where
  "scalar_seq (Y_seq ns) = list_all is_scalar ns" | "scalar_seq _ = False"

definition is_pool :: "yaml_node \<times> yaml_node \<Rightarrow> bool" where
  "is_pool p = (case p of (k, Y_map kvs) \<Rightarrow> is_scalar k
       \<and> list_all (\<lambda>(k, v). is_scalar k \<and> (is_scalar v \<or> scalar_seq v)) kvs
       \<and> length (filter (\<lambda>(k, v). scalar_seq v) kvs) = 1
     | _ \<Rightarrow> False)"

definition conf_shape :: "yaml_node \<Rightarrow> bool" where
  "conf_shape root = (case root of Y_map pools \<Rightarrow> list_all is_pool pools | _ \<Rightarrow> False)"

subsection \<open>Steps\<close>

fun structure_steps :: "yaml_event list \<Rightarrow> structure_state \<Rightarrow> world \<Rightarrow> structure_state option" where
  "structure_steps [] v w = Some v"
| "structure_steps (e # es) v w = do {
     v \<leftarrow> structure_step e v w;
     if v_done v \<or> v_error v then Some v else structure_steps es v w }"

lemma steps_append:
  assumes "structure_steps xs v w = Some u"
  shows "structure_steps (xs @ ys) v w = (if xs \<noteq> [] \<and> (v_done u \<or> v_error u) then Some u else structure_steps ys u w)"
  using assms
proof (induction xs arbitrary: v)
  case (Cons e xs)
  then obtain x where x: "structure_step e v w = Some x" by (cases "structure_step e v w") auto
  show ?case
  proof (cases "v_done x \<or> v_error x")
    case True
    with Cons.prems x show ?thesis by auto
  next
    case False
    with Cons.prems x have "structure_steps xs x w = Some u" by simp
    from Cons.IH [OF this] False x this show ?thesis by (cases xs) auto
  qed
qed simp

text \<open>A state inside the tree, at depth \<open>d\<close>.\<close>

definition at :: "int \<Rightarrow> nat \<Rightarrow> nat \<Rightarrow> nat \<Rightarrow> bool \<Rightarrow> structure_state" where
  "at d a b c s = \<lparr>v_depth = d, v_count = [a, b, c], v_seq = s, v_done = False, v_error = False\<rparr>"

lemma at_flags [simp]: "\<not> v_done (at d a b c s)" "\<not> v_error (at d a b c s)"
  by (simp_all add: at_def)

lemmas step_simps = structure_step_def at_def count_at_def set_count_def ASSERT_def

definition fails :: "structure_state option \<Rightarrow> bool" where
  "fails r \<longleftrightarrow> (\<exists>u. r = Some u \<and> v_error u)"

lemma fails_append: "xs \<noteq> [] \<Longrightarrow> fails (structure_steps xs v w) \<Longrightarrow> fails (structure_steps (xs @ ys) v w)"
  by (auto simp: fails_def steps_append)

lemma steps_at: "structure_steps xs v w = Some (at d a b c s) \<Longrightarrow> structure_steps (xs @ ys) v w = structure_steps ys (at d a b c s) w"
  by (simp add: steps_append)

lemma node_events_ne: "node_events n \<noteq> []"
  by (cases n) auto

text \<open>The elements of the sequence.\<close>

lemma seq_elements:
  assumes "c \<le> 2"
  shows "if list_all is_scalar ns
    then \<exists>c' \<le> 2. structure_steps (concat (map node_events ns)) (at 2 a b c True) w = Some (at 2 a b c' True)
    else fails (structure_steps (concat (map node_events ns) @ ys) (at 2 a b c True) w)"
  using assms
proof (induction ns arbitrary: c)
  case Nil
  then show ?case by auto
next
  case (Cons n ns)
  show ?case
  proof (cases n)
    case (Y_scalar s)
    let ?c = "if c = 2 then 1 else c + 1"
    have st: "structure_step (YAML_SCALAR_EVENT s) (at 2 a b c True) w = Some (at 2 a b ?c True)"
      using Cons.prems by (simp add: step_simps)
    have "?c \<le> 2" using Cons.prems by auto
    from Cons.IH [OF this] show ?thesis using Y_scalar st by simp
  next
    case (Y_seq xs)
    then show ?thesis by (simp add: step_simps fails_def)
  next
    case (Y_map kvs)
    then show ?thesis by (simp add: step_simps fails_def)
  qed
qed

text \<open>The directives of a pool.\<close>

fun entries_ok :: "bool \<Rightarrow> (yaml_node \<times> yaml_node) list \<Rightarrow> bool" where
  "entries_ok s [] = True"
| "entries_ok s ((k, v) # kvs) =
     (is_scalar k \<and> (is_scalar v \<and> entries_ok s kvs \<or> \<not> s \<and> scalar_seq v \<and> entries_ok True kvs))"

fun has_seq :: "(yaml_node \<times> yaml_node) list \<Rightarrow> bool" where
  "has_seq [] = False"
| "has_seq ((k, v) # kvs) = (scalar_seq v \<or> has_seq kvs)"

abbreviation entry_events :: "(yaml_node \<times> yaml_node) list \<Rightarrow> yaml_event list" where
  "entry_events kvs \<equiv> concat (map (\<lambda>(k, v). node_events k @ node_events v) kvs)"

lemma entries_steps:
  assumes "c = 0 \<or> c = 2"
  shows "if entries_ok s kvs
    then \<exists>c'. (c' = 0 \<or> c' = 2) \<and> structure_steps (entry_events kvs) (at 2 a b c s) w = Some (at 2 a b c' (s \<or> has_seq kvs))
    else fails (structure_steps (entry_events kvs @ ys) (at 2 a b c s) w)"
  using assms
proof (induction kvs arbitrary: c s)
  case Nil
  then show ?case by auto
next
  case (Cons kv kvs)
  obtain k v where kv: "kv = (k, v)" by fastforce
  show ?case
  proof (cases k)
    case (Y_scalar t)
    have key: "structure_step (YAML_SCALAR_EVENT t) (at 2 a b c s) w = Some (at 2 a b 1 s)"
      using Cons.prems by (auto simp: step_simps)
    show ?thesis
    proof (cases v)
      case (Y_scalar u)
      have "structure_step (YAML_SCALAR_EVENT u) (at 2 a b 1 s) w = Some (at 2 a b 2 s)" by (simp add: step_simps)
      with key Cons.IH [of 2 s] show ?thesis using kv \<open>k = Y_scalar t\<close> Y_scalar by simp
    next
      case (Y_seq ns)
      show ?thesis
      proof (cases s)
        case True
        then have "fails (structure_steps (node_events v @ zs) (at 2 a b 1 s) w)" for zs
          using Y_seq by (simp add: step_simps fails_def)
        with key show ?thesis using kv \<open>k = Y_scalar t\<close> True Y_seq by simp
      next
        case False
        have start: "structure_step YAML_SEQUENCE_START_EVENT (at 2 a b 1 s) w = Some (at 2 a b 1 True)"
          using False by (simp add: step_simps)
        show ?thesis
        proof (cases "list_all is_scalar ns")
          case True
          from seq_elements [where c = 1 and ns = ns and a = a and b = b and w = w] True obtain c' where
            el: "structure_steps (concat (map node_events ns)) (at 2 a b 1 True) w = Some (at 2 a b c' True)" by auto
          have stop: "structure_step YAML_SEQUENCE_END_EVENT (at 2 a b c' True) w = Some (at 2 a b 0 True)"
            by (simp add: step_simps)
          have "structure_steps (entry_events (kv # kvs) @ zs) (at 2 a b c s) w
              = structure_steps (entry_events kvs @ zs) (at 2 a b 0 True) w" for zs
            using key start stop kv \<open>k = Y_scalar t\<close> Y_seq
            by (simp add: steps_at [OF el [simplified]])
          from this [of "[]"] this [of ys] Cons.IH [of 0 True] True show ?thesis
            using kv \<open>k = Y_scalar t\<close> Y_seq False by (simp del: structure_steps.simps(2) split: if_splits)
        next
          case bad: False
          have "fails (structure_steps (concat (map node_events ns) @ zs) (at 2 a b 1 True) w)" for zs
            using seq_elements [where c = 1 and ns = ns and ys = zs and a = a and b = b and w = w] bad by simp
          with key start show ?thesis using kv \<open>k = Y_scalar t\<close> Y_seq bad by simp
        qed
      qed
    next
      case (Y_map xs)
      then have "fails (structure_steps (node_events v @ zs) (at 2 a b 1 s) w)" for zs by (simp add: step_simps fails_def)
      with key show ?thesis using kv \<open>k = Y_scalar t\<close> Y_map by simp
    qed
  next
    case (Y_seq ns)
    then show ?thesis using kv Cons.prems by (auto simp: step_simps fails_def)
  next
    case (Y_map xs)
    then show ?thesis using kv by (simp add: step_simps fails_def)
  qed
qed

text \<open>The pools.\<close>

lemma is_pool_entries: "is_pool (k, v) \<longleftrightarrow> is_scalar k \<and> (\<exists>kvs. v = Y_map kvs \<and> entries_ok False kvs \<and> has_seq kvs)"
proof -
  have "entries_ok True kvs \<longleftrightarrow> list_all (\<lambda>(k, v). is_scalar k \<and> (is_scalar v \<or> scalar_seq v)) kvs
      \<and> length (filter (\<lambda>(k, v). scalar_seq v) kvs) = 0" for kvs
  proof (induction kvs)
    case (Cons kv kvs)
    then show ?case by (cases kv; cases "snd kv") auto
  qed simp
  then have "(entries_ok False kvs \<and> has_seq kvs) \<longleftrightarrow> list_all (\<lambda>(k, v). is_scalar k \<and> (is_scalar v \<or> scalar_seq v)) kvs
      \<and> length (filter (\<lambda>(k, v). scalar_seq v) kvs) = 1" for kvs
  proof (induction kvs)
    case (Cons kv kvs)
    then show ?case by (cases kv; cases "snd kv") auto
  qed simp
  then show ?thesis by (cases v) (auto simp: is_pool_def)
qed

lemma pools_steps:
  assumes "c = 0 \<or> c = 2"
  shows "if list_all is_pool pools
    then \<exists>c'. (c' = 0 \<or> c' = 2) \<and> structure_steps (entry_events pools) (at 1 a 0 c False) w = Some (at 1 a 0 c' False)
    else fails (structure_steps (entry_events pools @ ys) (at 1 a 0 c False) w)"
  using assms
proof (induction pools arbitrary: c)
  case Nil
  then show ?case by auto
next
  case (Cons kv pools)
  obtain k v where kv: "kv = (k, v)" by fastforce
  show ?case
  proof (cases k)
    case (Y_scalar t)
    have key: "structure_step (YAML_SCALAR_EVENT t) (at 1 a 0 c False) w = Some (at 1 a 1 c False)" by (simp add: step_simps)
    show ?thesis
    proof (cases v)
      case (Y_scalar u)
      then show ?thesis using kv \<open>k = Y_scalar t\<close> key by (simp add: is_pool_def) (simp add: step_simps fails_def)
    next
      case (Y_seq ns)
      then show ?thesis using kv \<open>k = Y_scalar t\<close> key by (simp add: is_pool_def) (simp add: step_simps fails_def)
    next
      case (Y_map kvs)
      have start: "structure_step YAML_MAPPING_START_EVENT (at 1 a 1 c False) w = Some (at 2 a 1 c False)" by (simp add: step_simps)
      show ?thesis
      proof (cases "entries_ok False kvs")
        case True
        with entries_steps [OF Cons.prems, where s = False and kvs = kvs and a = a and b = 1 and w = w] obtain c' where c': "c' = 0 \<or> c' = 2"
          and el: "structure_steps (entry_events kvs) (at 2 a 1 c False) w = Some (at 2 a 1 c' (has_seq kvs))" by auto
        have upto: "structure_steps (entry_events (kv # pools) @ zs) (at 1 a 0 c False) w
            = structure_steps (YAML_MAPPING_END_EVENT # entry_events pools @ zs) (at 2 a 1 c' (has_seq kvs)) w" for zs
          using key start kv \<open>k = Y_scalar t\<close> Y_map by (simp add: steps_at [OF el [simplified]])
        show ?thesis
        proof (cases "has_seq kvs")
          case has: True
          have stop: "structure_step YAML_MAPPING_END_EVENT (at 2 a 1 c' True) w = Some (at 1 a 0 c' False)" by (simp add: step_simps)
          have "is_pool kv" using True has kv \<open>k = Y_scalar t\<close> Y_map by (simp add: is_pool_entries)
          have "structure_steps (entry_events (kv # pools) @ zs) (at 1 a 0 c False) w
              = structure_steps (entry_events pools @ zs) (at 1 a 0 c' False) w" for zs
            unfolding upto using stop has by simp
          from this [of "[]"] this [of ys] \<open>is_pool kv\<close> Cons.IH [OF c'] show ?thesis
            by (simp del: structure_steps.simps(2) split: if_splits)
        next
          case False
          have "\<not> is_pool kv" using False kv \<open>k = Y_scalar t\<close> Y_map by (simp add: is_pool_entries)
          moreover have "fails (structure_steps (YAML_MAPPING_END_EVENT # zs) (at 2 a 1 c' False) w)" for zs
            by (simp add: step_simps fails_def)
          ultimately show ?thesis using upto [of ys] False by simp
        qed
      next
        case False
        have "\<not> is_pool kv" using False kv \<open>k = Y_scalar t\<close> Y_map by (simp add: is_pool_entries)
        moreover have "fails (structure_steps (entry_events kvs @ zs) (at 2 a 1 c False) w)" for zs
          using entries_steps [OF Cons.prems, where s = False and kvs = kvs and ys = zs and a = a and b = 1 and w = w] False by simp
        ultimately show ?thesis using key start kv \<open>k = Y_scalar t\<close> Y_map by simp
      qed
    qed
  next
    case (Y_seq ns)
    then show ?thesis using kv by (simp add: is_pool_entries) (simp add: step_simps fails_def)
  next
    case (Y_map xs)
    then show ?thesis using kv by (simp add: is_pool_entries) (simp add: step_simps fails_def)
  qed
qed

lemma root_steps:
  "if conf_shape root
   then \<exists>u. structure_steps (stream_events root) structure_init w = Some u \<and> v_done u \<and> \<not> v_error u
   else fails (structure_steps (stream_events root) structure_init w)"
proof -
  have init: "structure_init = at 0 0 0 0 False" by (simp add: structure_init_def at_def)
  have front: "structure_steps (stream_events root) structure_init w
      = structure_steps (node_events root @ [YAML_DOCUMENT_END_EVENT, YAML_STREAM_END_EVENT]) (at 0 0 0 0 False) w"
    unfolding init stream_events_def by (simp add: structure_step_def)
  show ?thesis
  proof (cases root)
    case (Y_scalar s)
    then show ?thesis unfolding front by (simp add: conf_shape_def) (simp add: step_simps fails_def)
  next
    case (Y_seq ns)
    then show ?thesis unfolding front by (simp add: conf_shape_def) (simp add: step_simps fails_def)
  next
    case (Y_map pools)
    have start: "structure_step YAML_MAPPING_START_EVENT (at 0 0 0 0 False) w = Some (at 1 0 0 0 False)" by (simp add: step_simps)
    show ?thesis
    proof (cases "list_all is_pool pools")
      case True
      with pools_steps [where c = 0 and pools = pools and a = 0 and w = w] obtain c' where
        el: "structure_steps (entry_events pools) (at 1 0 0 0 False) w = Some (at 1 0 0 c' False)" by auto
      have "structure_steps [YAML_MAPPING_END_EVENT, YAML_DOCUMENT_END_EVENT, YAML_STREAM_END_EVENT] (at 1 0 0 c' False) w
          = Some ((at 0 0 0 c' False)\<lparr>v_done := True\<rparr>)"
        by (simp add: step_simps)
      with start True show ?thesis unfolding front
        using Y_map by (simp add: conf_shape_def steps_at [OF el [simplified]])
    next
      case False
      have "fails (structure_steps (entry_events pools @ zs) (at 1 0 0 0 False) w)" for zs
        using pools_steps [where c = 0 and pools = pools and ys = zs and a = 0 and w = w] False by simp
      with start False show ?thesis unfolding front using Y_map by (simp add: conf_shape_def)
    qed
  qed
qed

subsection \<open>The loop\<close>

lemma structure_loop_steps:
  assumes "reads Y es" "drop (cf_pos cf) es = rest" "length rest < k" "cf_valid_parser cf" "\<not> cf_valid_event cf"
    and "structure_steps rest v w = Some u" "v_done u \<or> v_error u" "\<not> v_done v" "\<not> v_error v"
  shows "\<exists>cf'. structure_loop k Y cf v w = Some (if v_error u then GF_ERROR else GF_OK, cf') \<and> \<not> cf_valid_parser cf' \<and> \<not> cf_valid_event cf'
    \<and> cf' = cf\<lparr>cf_event := cf_event cf', cf_pos := cf_pos cf', cf_valid_parser := False\<rparr>"
  using assms(2-)
proof (induction k arbitrary: cf v rest)
  case (Suc k)
  show ?case
  proof (cases rest)
    case Nil
    with Suc.prems show ?thesis by auto
  next
    case (Cons e es')
    have lt: "cf_pos cf < length es" "es ! cf_pos cf = e" "drop (Suc (cf_pos cf)) es = es'"
      using Suc.prems(1) Cons
      by (metis drop_all linorder_not_less list.discI, metis hd_drop_conv_nth list.sel(1) drop_all linorder_not_less list.discI, metis drop_Suc tl_drop list.sel(3))
    have ev: "conf_event_next Y cf w = Some (GF_OK, cf\<lparr>cf_event := e, cf_pos := Suc (cf_pos cf), cf_valid_event := True\<rparr>)"
      using assms(1) lt Suc.prems(3,4) by (simp add: conf_event_next_def reads_def)
    obtain x where x: "structure_step e v w = Some x" using Suc.prems(5) Cons by (cases "structure_step e v w") auto
    let ?cf = "cf\<lparr>cf_event := e, cf_pos := Suc (cf_pos cf)\<rparr>"
    have dn: "conf_event_done (cf\<lparr>cf_event := e, cf_pos := Suc (cf_pos cf), cf_valid_event := True\<rparr>) = ?cf"
      using Suc.prems(4) by (simp add: conf_event_done_def)
    show ?thesis
    proof (cases "v_done x \<or> v_error x")
      case True
      then show ?thesis using ev x dn Suc.prems Cons by (auto simp: conf_yaml_deinit_def)
    next
      case False
      have "structure_loop (Suc k) Y cf v w = structure_loop k Y ?cf x w" using ev x dn False by simp
      moreover have "\<exists>cf'. structure_loop k Y ?cf x w = Some (if v_error u then GF_ERROR else GF_OK, cf') \<and> \<not> cf_valid_parser cf'
          \<and> \<not> cf_valid_event cf' \<and> cf' = ?cf\<lparr>cf_event := cf_event cf', cf_pos := cf_pos cf', cf_valid_parser := False\<rparr>"
        using Suc.prems False x Cons lt by (intro Suc.IH [of ?cf es']) auto
      ultimately show ?thesis by auto
    qed
  qed
qed simp

text \<open>
  C12: on the events of a document, \<open>conf_validate_structure\<close> always
  comes to an end without running outside its counters, and accepts exactly the trees of the
  shape its comment draws: a mapping from pool names to mappings, in which every key is a scalar,
  one value is a sequence of scalars and every other value is a scalar.
\<close>

theorem structure_check_exact:
  assumes "reads Y (stream_events root)" "\<not> cf_valid_parser cf" "\<not> cf_valid_event cf" "length (stream_events root) < fuel"
    and "conf_yaml_init cf w = Some (GF_OK, cf1, w1)"
  shows "\<exists>cf'. conf_validate_structure fuel Y cf w = Some (if conf_shape root then GF_OK else GF_ERROR, cf', w1)
    \<and> cf' = cf\<lparr>cf_event := cf_event cf', cf_pos := cf_pos cf'\<rparr>"
proof -
  have cf1: "cf1 = cf\<lparr>cf_pos := 0, cf_valid_parser := True\<rparr>"
    using assms(5) by (auto simp: conf_yaml_init_def gf_simps split_def Let_def split: if_splits)
  obtain u where u: "structure_steps (stream_events root) structure_init w1 = Some u" "v_done u \<or> v_error u"
    "v_error u \<longleftrightarrow> \<not> conf_shape root"
    using root_steps [of root w1] by (cases "conf_shape root") (auto simp: fails_def)
  have "\<exists>cf'. structure_loop fuel Y cf1 structure_init w1 = Some (if v_error u then GF_ERROR else GF_OK, cf') \<and> \<not> cf_valid_parser cf'
      \<and> \<not> cf_valid_event cf' \<and> cf' = cf1\<lparr>cf_event := cf_event cf', cf_pos := cf_pos cf', cf_valid_parser := False\<rparr>"
    using assms(3,4) u by (intro structure_loop_steps [OF assms(1)]) (simp_all add: cf1 structure_init_def)
  then obtain cf' where l: "structure_loop fuel Y cf1 structure_init w1 = Some (if v_error u then GF_ERROR else GF_OK, cf')"
    "cf' = cf1\<lparr>cf_event := cf_event cf', cf_pos := cf_pos cf', cf_valid_parser := False\<rparr>" by blast
  have "cf' = cf\<lparr>cf_event := cf_event cf', cf_pos := cf_pos cf'\<rparr>" by (subst l(2)) (simp add: cf1 assms(2))
  with l(1) u(3) assms(5) show ?thesis by (auto simp: conf_validate_structure_def)
qed

subsection \<open>A concrete file\<close>

definition sample_conf_pool :: conf_pool where
  "sample_conf_pool = \<lparr>cp_name = string_init,
     cp_listen = \<lparr>cl_pname = string_init, cl_name = string_init, cl_port = 0, cl_perm = 0, cl_info = zero_info, cl_valid = False\<rparr>,
     cp_hash = None, cp_hash_tag = string_init, cp_distribution = None, cp_num = (\<lambda>_. CONF_UNSET_NUM), cp_redis_auth = string_init,
     cp_server = array_null, cp_valid = False\<rparr>"

definition sample_conf :: conf where
  "sample_conf = \<lparr>cf_arg = array_set (Some (replicate 3 string_init)) sizeof_string 3,
     cf_pool = array_set (Some (replicate 8 sample_conf_pool)) sizeof_conf_pool 8, cf_depth = 0, cf_pos = 0,
     cf_event = YAML_NO_EVENT, cf_token = YAML_NO_TOKEN, cf_seq = False, cf_valid_parser = False, cf_valid_event = False,
     cf_valid_token = False, cf_sound = False, cf_parsed = False, cf_valid = False\<rparr>"

definition sample_yaml :: "yaml_node \<Rightarrow> yaml" where
  "sample_yaml root = \<lparr>y_token = (\<lambda>_. Some YAML_STREAM_END_TOKEN),
     y_event = (\<lambda>i. if i < length (stream_events root) then Some (stream_events root ! i) else None),
     y_document = (\<lambda>i. Some (i = 0)), y_string = string_init, y_server = conf_server_init, y_pool = sample_conf_pool\<rparr>"

text \<open>A pool \<open>p\<close> with \<open>timeout: 400\<close> and the server \<open>h:22:1\<close>.\<close>

definition sample_pools :: "(yaml_node \<times> yaml_node) list" where
  "sample_pools = [(Y_scalar [112], Y_map [(Y_scalar [116, 105, 109, 101, 111, 117, 116], Y_scalar [52, 48, 48]),
     (Y_scalar [115, 101, 114, 118, 101, 114, 115], Y_seq [Y_scalar [104, 58, 50, 50, 58, 49]])])]"

lemma sample_reads: "reads (sample_yaml root) (stream_events root)"
  by (simp add: reads_def sample_yaml_def)

lemma sample_shape: "conf_shape (Y_map sample_pools)"
  by (simp add: conf_shape_def sample_pools_def is_pool_def)

lemma sample_length: "length (stream_events (Y_map sample_pools)) = 15"
  by (simp add: stream_events_def sample_pools_def)

lemma sample_init:
  "\<exists>cf1 w1. conf_yaml_init (sample_conf\<lparr>cf_sound := b\<rparr>) w0 = Some (GF_OK, cf1, w1)"
  by (simp add: conf_yaml_init_def sample_conf_def sys_call_def sys_def sample_res_def Let_def)

lemma structure_check_exact_witness:
  "(\<exists>cf w. conf_validate_structure 20 (sample_yaml (Y_map sample_pools)) (sample_conf\<lparr>cf_sound := False\<rparr>) w0 = Some (GF_OK, cf, w))
   \<and> (\<exists>cf w. conf_validate_structure 20 (sample_yaml (Y_seq [])) (sample_conf\<lparr>cf_sound := False\<rparr>) w0 = Some (GF_ERROR, cf, w))"
proof -
  obtain cf1 w1 where i: "conf_yaml_init (sample_conf\<lparr>cf_sound := False\<rparr>) w0 = Some (GF_OK, cf1, w1)" using sample_init by blast
  let ?cf = "sample_conf\<lparr>cf_sound := False\<rparr>"
  have cf: "\<not> cf_valid_parser ?cf" "\<not> cf_valid_event ?cf" by (simp_all add: sample_conf_def)
  obtain a where "conf_validate_structure 20 (sample_yaml (Y_map sample_pools)) ?cf w0 = Some (GF_OK, a, w1)"
    using structure_check_exact [OF sample_reads cf _ i, of "Y_map sample_pools" 20] sample_shape sample_length by fastforce
  moreover obtain b where "conf_validate_structure 20 (sample_yaml (Y_seq [])) ?cf w0 = Some (GF_ERROR, b, w1)"
    using structure_check_exact [OF sample_reads cf _ i, of "Y_seq []" 20] by (fastforce simp: conf_shape_def stream_events_def)
  ultimately show ?thesis by blast
qed

end
