(* ===== verification/Conf_Parse.thy ===== *)
theory Conf_Parse
  imports Conf_Structure
begin

section \<open>The parser is a walk over the tree\<close>

text \<open>
  \<open>conf_parse_core\<close> recognises pools, directives and elements by its depth, the sequence
  flag and the number of scalars on the stack.  On a document the structure check accepts it
  does what a walk over the tree does, with the same calls in the same order.
\<close>

subsection \<open>The walk\<close>

fun scalar_of :: "yaml_node \<Rightarrow> u8 list" where
  "scalar_of (Y_scalar s) = s" | "scalar_of _ = []"

definition walk_element :: "yaml \<Rightarrow> nat option \<Rightarrow> u8 list \<Rightarrow> conf \<Rightarrow> world \<Rightarrow> (int \<times> conf \<times> world) option" where
  "walk_element Y data s cf w = do {
     (st, cf, w) \<leftarrow> conf_push_scalar Y s cf w;
     if st \<noteq> GF_OK then Some (st, cf, w)
     else do {
       (st, cf, w) \<leftarrow> conf_handler Y cf data w;
       cf \<leftarrow> conf_pop_scalar cf w;
       Some (st, cf, w) } }"

primrec walk_elements :: "yaml \<Rightarrow> nat option \<Rightarrow> yaml_node list \<Rightarrow> conf \<Rightarrow> world \<Rightarrow> (int \<times> conf \<times> world) option" where
  "walk_elements Y data [] cf w = Some (GF_OK, cf, w)"
| "walk_elements Y data (n # ns) cf w = do {
     (st, cf, w) \<leftarrow> walk_element Y data (scalar_of n) cf w;
     if st \<noteq> GF_OK then Some (st, cf, w) else walk_elements Y data ns cf w }"

definition walk_value :: "yaml \<Rightarrow> nat option \<Rightarrow> u8 list \<Rightarrow> conf \<Rightarrow> world \<Rightarrow> (int \<times> conf \<times> world) option" where
  "walk_value Y data s cf w = do {
     (st, cf, w) \<leftarrow> conf_push_scalar Y s cf w;
     if st \<noteq> GF_OK then Some (st, cf, w)
     else do {
       (st, cf, w) \<leftarrow> conf_handler Y cf data w;
       cf \<leftarrow> conf_pop_scalar cf w;
       cf \<leftarrow> conf_pop_scalar cf w;
       Some (st, cf, w) } }"

definition walk_directive :: "yaml \<Rightarrow> nat option \<Rightarrow> yaml_node \<times> yaml_node \<Rightarrow> conf \<Rightarrow> world \<Rightarrow> (int \<times> conf \<times> world) option" where
  "walk_directive Y data kv cf w = do {
     (st, cf, w) \<leftarrow> conf_push_scalar Y (scalar_of (fst kv)) cf w;
     if st \<noteq> GF_OK then Some (st, cf, w)
     else (case snd kv of
         Y_seq ns \<Rightarrow> do {
           (st, cf, w) \<leftarrow> walk_elements Y data ns cf w;
           if st \<noteq> GF_OK then Some (st, cf, w)
           else do { cf \<leftarrow> conf_pop_scalar cf w; Some (GF_OK, cf, w) } }
       | v \<Rightarrow> walk_value Y data (scalar_of v) cf w) }"

primrec walk_directives :: "yaml \<Rightarrow> nat option \<Rightarrow> (yaml_node \<times> yaml_node) list \<Rightarrow> conf \<Rightarrow> world \<Rightarrow> (int \<times> conf \<times> world) option" where
  "walk_directives Y data [] cf w = Some (GF_OK, cf, w)"
| "walk_directives Y data (kv # kvs) cf w = do {
     (st, cf, w) \<leftarrow> walk_directive Y data kv cf w;
     if st \<noteq> GF_OK then Some (st, cf, w) else walk_directives Y data kvs cf w }"

definition walk_pool :: "yaml \<Rightarrow> yaml_node \<times> yaml_node \<Rightarrow> conf \<Rightarrow> world \<Rightarrow> (int \<times> nat option \<times> conf \<times> world) option" where
  "walk_pool Y p cf w = do {
     (st, cf, w) \<leftarrow> conf_push_scalar Y (scalar_of (fst p)) cf w;
     if st \<noteq> GF_OK then Some (st, None, cf, w)
     else (case array_push (y_pool Y) (cf_pool cf) w of
         (None, pools, w) \<Rightarrow> Some (GF_ENOMEM, None, cf\<lparr>cf_pool := pools\<rparr>, w)
       | (Some i, pools, w) \<Rightarrow> do {
           (st, cf, w) \<leftarrow> conf_handler Y (cf\<lparr>cf_pool := pools\<rparr>) (Some i) w;
           if st \<noteq> GF_OK then Some (st, Some i, cf, w)
           else do {
             (st, cf, w) \<leftarrow> walk_directives Y (Some i) (case snd p of Y_map kvs \<Rightarrow> kvs | _ \<Rightarrow> []) cf w;
             if st \<noteq> GF_OK then Some (st, Some i, cf, w)
             else do { cf \<leftarrow> conf_pop_scalar cf w; Some (GF_OK, Some i, cf, w) } } }) }"

primrec walk_pools :: "yaml \<Rightarrow> (yaml_node \<times> yaml_node) list \<Rightarrow> conf \<Rightarrow> world \<Rightarrow> (int \<times> conf \<times> world) option" where
  "walk_pools Y [] cf w = Some (GF_OK, cf, w)"
| "walk_pools Y (p # ps) cf w = do {
     (st, data, cf, w) \<leftarrow> walk_pool Y p cf w;
     if st \<noteq> GF_OK then Some (st, cf, w) else walk_pools Y ps cf w }"

subsection \<open>The fields of the parser\<close>

text \<open>The stack and the pools of \<open>cf\<close>, with a parser that has read \<open>i\<close> events.\<close>

definition par :: "u32 \<Rightarrow> bool \<Rightarrow> nat \<Rightarrow> yaml_event \<Rightarrow> conf \<Rightarrow> conf" where
  "par d q i e cf = cf\<lparr>cf_depth := d, cf_seq := q, cf_pos := i, cf_event := e, cf_valid_event := False,
     cf_valid_parser := True, cf_sound := True, cf_parsed := False\<rparr>"

definition par3 :: "u32 \<Rightarrow> bool \<Rightarrow> nat \<Rightarrow> yaml_event \<Rightarrow> bool \<Rightarrow> conf \<Rightarrow> conf" where
  "par3 d q i e ve cf = (par d q i e cf)\<lparr>cf_valid_event := ve\<rparr>"

lemma par_simps [simp]:
  "cf_arg (par3 d q i e ve cf) = cf_arg cf" "cf_pool (par3 d q i e ve cf) = cf_pool cf" "cf_depth (par3 d q i e ve cf) = d"
  "cf_seq (par3 d q i e ve cf) = q" "cf_pos (par3 d q i e ve cf) = i" "cf_event (par3 d q i e ve cf) = e"
  "cf_valid_event (par3 d q i e ve cf) = ve" "cf_valid_parser (par3 d q i e ve cf)" "cf_sound (par3 d q i e ve cf)"
  "(par3 d q i e ve cf)\<lparr>cf_arg := a\<rparr> = par3 d q i e ve (cf\<lparr>cf_arg := a\<rparr>)"
  "(par3 d q i e ve cf)\<lparr>cf_pool := b\<rparr> = par3 d q i e ve (cf\<lparr>cf_pool := b\<rparr>)"
  "(par3 d q i e ve cf)\<lparr>cf_depth := d'\<rparr> = par3 d' q i e ve cf"
  "(par3 d q i e ve cf)\<lparr>cf_seq := q'\<rparr> = par3 d q' i e ve cf"
  "(par3 d q i e ve cf)\<lparr>cf_event := e', cf_pos := i', cf_valid_event := ve'\<rparr> = par3 d q i' e' ve' cf"
  "conf_event_done (par3 d q i e ve cf) = par3 d q i e False cf"
  by (simp_all add: par3_def par_def conf_event_done_def)

lemma map_bind [simp]: "map_option f (Option.bind m g) = Option.bind m (\<lambda>x. map_option f (g x))"
  by (cases m) auto

lemma map_if: "map_option f (if b then m else n) = (if b then map_option f m else map_option f n)"
  by simp

lemma map_case: "map_option f (case x of None \<Rightarrow> m | Some y \<Rightarrow> g y) = (case x of None \<Rightarrow> map_option f m | Some y \<Rightarrow> map_option f (g y))"
  by (cases x) simp_all

lemma push_par: "conf_push_scalar Y s (par3 d q i e ve cf) w = map_option (\<lambda>(st, cf, w). (st, par3 d q i e ve cf, w)) (conf_push_scalar Y s cf w)"
  by (simp add: conf_push_scalar_def Let_def split_def map_if split: option.split cong: if_cong)

lemma pop_par: "conf_pop_scalar (par3 d q i e ve cf) w = map_option (par3 d q i e ve) (conf_pop_scalar cf w)"
  by (simp add: conf_pop_scalar_def split_def)

lemma arg_par [simp]: "arg_top (par3 d q i e ve cf) w = arg_top cf w"
  by (simp add: arg_top_def)

lemma cmd_par: "cmd_set cmd Y (par3 d q i e ve cf) cp w = cmd_set cmd Y cf cp w"
  by (cases cmd; simp only: cmd_set_def command.case; unfold conf_set_listen_def conf_set_hash_def conf_set_hashtag_def
      conf_set_distribution_def conf_set_string_def conf_add_server_def conf_set_num_def conf_set_bool_def arg_par; rule refl)

lemma handler_par: "conf_handler Y (par3 d q i e ve cf) data w = map_option (\<lambda>(st, cf, w). (st, par3 d q i e ve cf, w)) (conf_handler Y cf data w)"
  by (simp add: conf_handler_def Let_def split_def map_if map_case cmd_par cong: if_cong option.case_cong)

text \<open>The number of scalars on the stack.\<close>

lemma ar_store_n: "ar_store a i x = Some b \<Longrightarrow> ar_nelem b = ar_nelem a"
  by (auto simp: ar_store_def split: option.splits if_splits)

lemma array_push_n: "array_push junk a w = (Some i, b, w') \<Longrightarrow> ar_nelem b = ar_nelem a + 1"
  by (auto simp: array_push_def split_def Let_def split: if_splits)

lemma push_n:
  assumes "conf_push_scalar Y s cf w = Some (GF_OK, cf', w')"
  shows "array_n (cf_arg cf') = array_n (cf_arg cf) + 1"
proof -
  have "post (\<lambda>(st, cf', w'). st = GF_OK \<longrightarrow> array_n (cf_arg cf') = array_n (cf_arg cf) + 1) (conf_push_scalar Y s cf w)"
    unfolding conf_push_scalar_def by (intro post_intros) (auto simp: array_n_def dest!: ar_store_n array_push_n)
  from postD [OF this assms] show ?thesis by simp
qed

lemma pop_n:
  assumes "conf_pop_scalar cf w = Some cf'"
  shows "array_n (cf_arg cf') = array_n (cf_arg cf) - 1"
proof -
  have "post (\<lambda>cf'. array_n (cf_arg cf') = array_n (cf_arg cf) - 1) (conf_pop_scalar cf w)"
    unfolding conf_pop_scalar_def by (intro post_intros) (auto simp: array_n_def array_pop_def gf_simps Let_def dest!: ar_store_n)
  from postD [OF this assms] show ?thesis .
qed

lemma handler_arg:
  assumes "conf_handler Y cf data w = Some (st, cf', w')"
  shows "cf_arg cf' = cf_arg cf"
proof -
  have "post (\<lambda>(st, cf', w'). cf_arg cf' = cf_arg cf) (conf_handler Y cf data w)"
    unfolding conf_handler_def by (intro post_intros) auto
  from postD [OF this assms] show ?thesis by simp
qed

subsection \<open>Reading one event\<close>

definition settle :: "int \<times> conf \<times> world \<Rightarrow> int \<times> conf \<times> world" where
  "settle r = (case r of (st, cf, w) \<Rightarrow> (st, if st = GF_OK then cf\<lparr>cf_event := YAML_NO_EVENT\<rparr>
     else par 0 False 0 YAML_NO_EVENT cf, w))"

definition core :: "nat \<Rightarrow> yaml \<Rightarrow> u32 \<Rightarrow> bool \<Rightarrow> nat \<Rightarrow> nat option \<Rightarrow> conf \<Rightarrow> world \<Rightarrow> (int \<times> conf \<times> world) option" where
  "core k Y d q i data cf w = map_option settle (conf_parse_core k Y (par d q i YAML_NO_EVENT cf) data w)"

lemma par_par3: "par d q i e cf = par3 d q i e False cf"
  by (simp add: par3_def par_def)

lemma par3_par [simp]: "par d q i e (par3 d' q' i' e' ve cf) = par d q i e cf" "par d q i e (par d' q' i' e' cf) = par d q i e cf"
  "par3 d q i e ve (par3 d' q' i' e' ve' cf) = par3 d q i e ve cf"
  by (simp_all add: par3_def par_def)

lemma core_event:
  assumes "y_event Y i = Some e"
  shows "map_option settle (conf_parse_core (Suc k) Y (par d q i e0 cf) data w)
    = map_option settle (do {
        (s, cf, w) \<leftarrow> conf_parse_event Y (par3 d q (Suc i) e True cf) data w;
        let cf = conf_event_done cf;
        if ps_status s \<noteq> GF_OK then Some (ps_status s, cf, w)
        else if ps_done s then Some (GF_OK, cf, w)
        else do {
          (status, cf, w) \<leftarrow> conf_parse_action Y s cf w;
          if status \<noteq> GF_OK then Some (status, cf, w)
          else conf_parse_core k Y cf (ps_data s) w } })"
  using assms by (simp add: par_par3 conf_event_next_def)

lemma core_any: "map_option settle (conf_parse_core k Y (par3 d q i e False cf) data w) = core k Y d q i data cf w"
proof (cases k)
  case (Suc j)
  show ?thesis
  proof (cases "y_event Y i")
    case None
    then show ?thesis unfolding Suc core_def by (simp add: par_par3 conf_event_next_def settle_def)
  next
    case (Some x)
    show ?thesis unfolding Suc core_def core_event [OF Some] core_event [OF Some, unfolded par_par3] ..
  qed
qed (simp add: core_def)

lemma settle_error: "st \<noteq> GF_OK \<Longrightarrow> settle (st, par3 d q i e ve cf, w) = settle (st, cf, w)"
  by (simp add: settle_def)

lemma settle_ok: "settle (0, par3 d q i e False cf, w) = (0, par d q i YAML_NO_EVENT cf, w)"
  by (simp add: settle_def par3_def par_def)

lemma core_step:
  assumes "y_event Y i = Some e"
  shows "core (Suc k) Y d q i data cf w = do {
      (s, cf, w) \<leftarrow> conf_parse_event Y (par3 d q (Suc i) e True cf) data w;
      let cf = conf_event_done cf;
      if ps_status s \<noteq> GF_OK then Some (settle (ps_status s, cf, w))
      else if ps_done s then Some (settle (GF_OK, cf, w))
      else do {
        (status, cf, w) \<leftarrow> conf_parse_action Y s cf w;
        if status \<noteq> GF_OK then Some (settle (status, cf, w))
        else map_option settle (conf_parse_core k Y cf (ps_data s) w) } }"
  unfolding core_def core_event [OF assms] by (simp add: Let_def split_def map_if cong: if_cong)

lemmas core_simps = core_step conf_parse_event_def conf_parse_action_def no_step_def push_par pop_par handler_par
  map_if core_any settle_error split_def Let_def

lemma ASSERT_bind [simp]: "b \<Longrightarrow> Option.bind (ASSERT b w) f = f ()"
  by simp

text \<open>The case analysis over the results of the calls.\<close>

lemma bind_map [simp]: "Option.bind (map_option f m) g = Option.bind m (\<lambda>x. g (f x))"
  by (cases m) simp_all

lemma bind_eqI: "(\<And>x. m = Some x \<Longrightarrow> f x = g x) \<Longrightarrow> Option.bind m f = Option.bind m g"
  by (cases m) simp_all

lemma bind_if: "Option.bind (if b then m else n) f = (if b then Option.bind m f else Option.bind n f)"
  by simp

lemma bind_assoc: "Option.bind (Option.bind m f) g = Option.bind m (\<lambda>x. Option.bind (f x) g)"
  by (cases m) simp_all

lemma core_element:
  assumes "y_event Y i = Some (YAML_SCALAR_EVENT s)"
  shows "core (Suc k) Y 2 True i data cf w = do {
      (st, cf, w) \<leftarrow> walk_element Y data s cf w;
      if st \<noteq> GF_OK then Some (settle (st, cf, w)) else core k Y 2 True (Suc i) data cf w }"
  unfolding core_step [OF assms] conf_parse_event_def walk_element_def
  by (simp add: push_par split_def bind_assoc, intro bind_eqI)
    (auto simp: no_step_def conf_parse_action_def handler_par pop_par split_def bind_assoc core_any settle_error intro!: bind_eqI)

lemmas core_calls = no_step_def conf_parse_action_def handler_par pop_par push_par split_def bind_assoc core_any settle_error

lemma core_value:
  assumes "y_event Y i = Some (YAML_SCALAR_EVENT s)" "array_n (cf_arg cf) = 2"
  shows "core (Suc k) Y 2 False i data cf w = do {
      (st, cf, w) \<leftarrow> walk_value Y data s cf w;
      if st \<noteq> GF_OK then Some (settle (st, cf, w)) else core k Y 2 False (Suc i) data cf w }"
proof -
  have n: "array_n (cf_arg cf') = 3" if "conf_push_scalar Y s cf w = Some (GF_OK, cf', w')" for cf' w'
    using push_n [OF that] assms(2) by simp
  show ?thesis
    unfolding core_step [OF assms(1)] conf_parse_event_def walk_value_def
    by (simp add: push_par split_def bind_assoc, intro bind_eqI) (auto simp: core_calls dest!: n intro!: bind_eqI)
qed

lemma core_key:
  assumes "y_event Y i = Some (YAML_SCALAR_EVENT s)" "array_n (cf_arg cf) = 1"
  shows "core (Suc k) Y 2 False i data cf w = do {
      (st, cf, w) \<leftarrow> conf_push_scalar Y s cf w;
      if st \<noteq> GF_OK then Some (settle (st, cf, w)) else core k Y 2 False (Suc i) data cf w }"
proof -
  have n: "array_n (cf_arg cf') = 2" if "conf_push_scalar Y s cf w = Some (GF_OK, cf', w')" for cf' w'
    using push_n [OF that] assms(2) by simp
  show ?thesis
    unfolding core_step [OF assms(1)] conf_parse_event_def
    by (simp add: push_par split_def bind_assoc, intro bind_eqI) (auto simp: core_calls dest!: n intro!: bind_eqI)
qed

lemma core_pool:
  assumes "y_event Y i = Some (YAML_SCALAR_EVENT s)"
  shows "core (Suc k) Y 1 False i data cf w = do {
      (st, cf, w) \<leftarrow> conf_push_scalar Y s cf w;
      if st \<noteq> GF_OK then Some (settle (st, cf, w))
      else (case array_push (y_pool Y) (cf_pool cf) w of
          (None, pools, w) \<Rightarrow> Some (settle (GF_ENOMEM, cf\<lparr>cf_pool := pools\<rparr>, w))
        | (Some j, pools, w) \<Rightarrow> do {
            (st, cf, w) \<leftarrow> conf_handler Y (cf\<lparr>cf_pool := pools\<rparr>) (Some j) w;
            if st \<noteq> GF_OK then Some (settle (st, cf, w)) else core k Y 1 False (Suc i) (Some j) cf w }) }"
  unfolding core_step [OF assms] conf_parse_event_def
  by (simp add: push_par split_def bind_assoc, intro bind_eqI) (auto simp: core_calls intro!: bind_eqI split: option.split)

lemma core_marks:
  "y_event Y i = Some YAML_SEQUENCE_START_EVENT \<Longrightarrow> core (Suc k) Y 2 q i data cf w = core k Y 2 True (Suc i) data cf w"
  "y_event Y i = Some YAML_SEQUENCE_END_EVENT \<Longrightarrow> core (Suc k) Y 2 q i data cf w =
     do { cf \<leftarrow> conf_pop_scalar cf w; core k Y 2 False (Suc i) data cf w }"
  "y_event Y i = Some YAML_MAPPING_START_EVENT \<Longrightarrow> core (Suc k) Y 1 q i data cf w = core k Y 2 q (Suc i) data cf w"
  "y_event Y i = Some YAML_MAPPING_END_EVENT \<Longrightarrow> core (Suc k) Y 2 q i data cf w =
     do { cf \<leftarrow> conf_pop_scalar cf w; core k Y 1 q (Suc i) data cf w }"
  "y_event Y i = Some YAML_MAPPING_END_EVENT \<Longrightarrow> core (Suc k) Y 1 q i data cf w = Some (GF_OK, par 0 q (Suc i) YAML_NO_EVENT cf, w)"
  by (simp_all add: core_step conf_parse_event_def core_calls settle_ok)

subsection \<open>Reading the tree\<close>

definition events_at :: "yaml \<Rightarrow> nat \<Rightarrow> yaml_event list \<Rightarrow> bool" where
  "events_at Y i es \<longleftrightarrow> (\<forall>j < length es. y_event Y (i + j) = Some (es ! j))"

lemma events_at_simps [simp]:
  "events_at Y i []"
  "events_at Y i (e # es) \<longleftrightarrow> y_event Y i = Some e \<and> events_at Y (Suc i) es"
  "events_at Y i (xs @ ys) \<longleftrightarrow> events_at Y i xs \<and> events_at Y (i + length xs) ys"
proof -
  show c: "events_at Y i (e # es) \<longleftrightarrow> y_event Y i = Some e \<and> events_at Y (Suc i) es" for i e es
    by (auto simp: events_at_def less_Suc_eq_0_disj)
  show n: "events_at Y i []" for i by (simp add: events_at_def)
  show "events_at Y i (xs @ ys) \<longleftrightarrow> events_at Y i xs \<and> events_at Y (i + length xs) ys"
    by (induction xs arbitrary: i) (simp_all add: c n)
qed

lemma core_elements:
  assumes "events_at Y i (concat (map node_events ns))" "list_all is_scalar ns"
  shows "core (length ns + k) Y 2 True i data cf w = do {
      (st, cf, w) \<leftarrow> walk_elements Y data ns cf w;
      if st \<noteq> GF_OK then Some (settle (st, cf, w)) else core k Y 2 True (i + length ns) data cf w }"
  using assms
proof (induction ns arbitrary: i cf w)
  case (Cons n ns)
  then obtain s where n: "n = Y_scalar s" by (cases n) auto
  with Cons.prems have e: "y_event Y i = Some (YAML_SCALAR_EVENT s)" and r: "events_at Y (Suc i) (concat (map node_events ns))" by simp_all
  from Cons.prems n have "list_all is_scalar ns" by simp
  note IH = Cons.IH [OF r this]
  have "core (length (n # ns) + k) Y 2 True i data cf w = core (Suc (length ns + k)) Y 2 True i data cf w" by simp
  then show ?case unfolding core_element [OF e] by (simp add: n split_def bind_assoc bind_if) (auto simp: IH split_def intro!: bind_eqI)
qed simp

lemma walk_element_n:
  assumes "walk_element Y data s cf w = Some (GF_OK, cf', w')"
  shows "array_n (cf_arg cf') = array_n (cf_arg cf)"
proof -
  have "post (\<lambda>(st, cf', w'). st = GF_OK \<longrightarrow> array_n (cf_arg cf') = array_n (cf_arg cf)) (walk_element Y data s cf w)"
    unfolding walk_element_def by (intro post_intros) (simp_all, metis push_n handler_arg pop_n add_diff_cancel_right')
  from postD [OF this assms] show ?thesis by simp
qed

lemma walk_elements_n:
  assumes "walk_elements Y data ns cf w = Some (GF_OK, cf', w')"
  shows "array_n (cf_arg cf') = array_n (cf_arg cf)"
  using assms
proof (induction ns arbitrary: cf w)
  case (Cons n ns)
  then obtain cf1 w1 where e: "walk_element Y data (scalar_of n) cf w = Some (GF_OK, cf1, w1)" and r: "walk_elements Y data ns cf1 w1 = Some (GF_OK, cf', w')"
    by (auto simp: gf_simps split: if_splits)
  with Cons.IH [OF r] walk_element_n [OF e] show ?case by simp
qed simp

lemma walk_value_n:
  assumes "walk_value Y data s cf w = Some (GF_OK, cf', w')"
  shows "array_n (cf_arg cf') = array_n (cf_arg cf) - 1"
proof -
  have "post (\<lambda>(st, cf', w'). st = GF_OK \<longrightarrow> array_n (cf_arg cf') = array_n (cf_arg cf) - 1) (walk_value Y data s cf w)"
    unfolding walk_value_def by (intro post_intros) (simp_all, auto dest!: push_n handler_arg pop_n)
  from postD [OF this assms] show ?thesis by simp
qed

lemma walk_directive_n:
  assumes "walk_directive Y data kv cf w = Some (GF_OK, cf', w')"
  shows "array_n (cf_arg cf') = array_n (cf_arg cf)"
proof -
  obtain cf1 w1 where p: "conf_push_scalar Y (scalar_of (fst kv)) cf w = Some (GF_OK, cf1, w1)"
    using assms by (cases "conf_push_scalar Y (scalar_of (fst kv)) cf w") (auto simp: walk_directive_def split: if_splits)
  note n = push_n [OF p]
  show ?thesis
  proof (cases "\<exists>ns. snd kv = Y_seq ns")
    case True
    then obtain ns where "snd kv = Y_seq ns" by blast
    with assms p obtain cf2 w2 where e: "walk_elements Y data ns cf1 w1 = Some (GF_OK, cf2, w2)" and q: "conf_pop_scalar cf2 w2 = Some cf'"
      by (cases "walk_elements Y data ns cf1 w1") (auto simp: walk_directive_def gf_simps split: if_splits)
    show ?thesis using n walk_elements_n [OF e] pop_n [OF q] by simp
  next
    case False
    then have "walk_value Y data (scalar_of (snd kv)) cf1 w1 = Some (GF_OK, cf', w')"
      using assms p by (cases "snd kv") (auto simp: walk_directive_def)
    from walk_value_n [OF this] n show ?thesis by simp
  qed
qed

lemma node_events_length [simp]: "is_scalar n \<Longrightarrow> length (node_events n) = Suc 0" "is_scalar n \<Longrightarrow> node_events n = [YAML_SCALAR_EVENT (scalar_of n)]"
  by (cases n, auto)+

lemma scalar_events_length: "list_all is_scalar ns \<Longrightarrow> length (concat (map node_events ns)) = length ns"
  by (induction ns) auto

lemma core_directive:
  assumes "events_at Y i (node_events k @ node_events v)" "is_scalar k" "is_scalar v \<or> scalar_seq v" "array_n (cf_arg cf) = 1"
  shows "core (length (node_events k @ node_events v) + m) Y 2 False i data cf w = do {
      (st, cf, w) \<leftarrow> walk_directive Y data (k, v) cf w;
      if st \<noteq> GF_OK then Some (settle (st, cf, w)) else core m Y 2 False (i + length (node_events k @ node_events v)) data cf w }"
proof -
  have e: "y_event Y i = Some (YAML_SCALAR_EVENT (scalar_of k))" and r: "events_at Y (Suc i) (node_events v)" using assms(1,2) by simp_all
  let ?L = "length (node_events v)"
  have key: "core (length (node_events k @ node_events v) + m) Y 2 False i data cf w = do {
      (st, cf, w) \<leftarrow> conf_push_scalar Y (scalar_of k) cf w;
      if st \<noteq> GF_OK then Some (settle (st, cf, w)) else core (?L + m) Y 2 False (Suc i) data cf w }"
    using core_key [OF e assms(4), of "?L + m"] assms(2) by simp
  have n: "array_n (cf_arg cf') = 2" if "conf_push_scalar Y (scalar_of k) cf w = Some (GF_OK, cf', w')" for cf' w'
    using push_n [OF that] assms(4) by simp
  show ?thesis
  proof (cases v)
    case (Y_scalar s)
    with r have v: "y_event Y (Suc i) = Some (YAML_SCALAR_EVENT s)" by simp
    have val: "core (Suc m) Y 2 False (Suc i) data cf' w' = do {
        (st, cf, w) \<leftarrow> walk_value Y data s cf' w';
        if st \<noteq> GF_OK then Some (settle (st, cf, w)) else core m Y 2 False (Suc (Suc i)) data cf w }"
      if "conf_push_scalar Y (scalar_of k) cf w = Some (GF_OK, cf', w')" for cf' w' using core_value [OF v n [OF that]] .
    show ?thesis unfolding key walk_directive_def using assms(2) Y_scalar
      by (auto simp: split_def bind_assoc val intro!: bind_eqI)
  next
    case (Y_seq ns)
    then have sc: "list_all is_scalar ns" using assms(3) by simp
    from r Y_seq have m1: "y_event Y (Suc i) = Some YAML_SEQUENCE_START_EVENT" and el: "events_at Y (Suc (Suc i)) (concat (map node_events ns))"
      and m2: "y_event Y (Suc (Suc i) + length ns) = Some YAML_SEQUENCE_END_EVENT"
      by (simp_all add: scalar_events_length [OF sc])
    have val: "core (?L + m) Y 2 False (Suc i) data cf' w' = do {
        (st, cf, w) \<leftarrow> walk_elements Y data ns cf' w';
        if st \<noteq> GF_OK then Some (settle (st, cf, w))
        else do { cf \<leftarrow> conf_pop_scalar cf w; core m Y 2 False (Suc (Suc (Suc i) + length ns)) data cf w } }" for cf' w'
    proof -
      have "core (?L + m) Y 2 False (Suc i) data cf' w' = core (Suc (length ns + Suc m)) Y 2 False (Suc i) data cf' w'"
        by (simp add: Y_seq scalar_events_length [OF sc])
      also have "\<dots> = core (length ns + Suc m) Y 2 True (Suc (Suc i)) data cf' w'" by (rule core_marks(1) [OF m1])
      finally show ?thesis unfolding core_elements [OF el sc] core_marks(2) [OF m2] by simp
    qed
    show ?thesis unfolding key val walk_directive_def using assms(2) Y_seq scalar_events_length [OF sc]
      by (auto simp: split_def bind_assoc bind_if intro!: bind_eqI)
  next
    case (Y_map kvs)
    with assms(3) show ?thesis by simp
  qed
qed

lemma core_directives:
  assumes "events_at Y i (entry_events kvs)" "list_all (\<lambda>(k, v). is_scalar k \<and> (is_scalar v \<or> scalar_seq v)) kvs" "array_n (cf_arg cf) = 1"
  shows "core (length (entry_events kvs) + m) Y 2 False i data cf w = do {
      (st, cf, w) \<leftarrow> walk_directives Y data kvs cf w;
      if st \<noteq> GF_OK then Some (settle (st, cf, w)) else core m Y 2 False (i + length (entry_events kvs)) data cf w }"
  using assms
proof (induction kvs arbitrary: i cf w)
  case (Cons kv kvs)
  obtain k v where kv: "kv = (k, v)" by fastforce
  let ?e = "node_events k @ node_events v"
  have ev: "events_at Y i ?e" "events_at Y (i + length ?e) (entry_events kvs)" and sc: "is_scalar k" "is_scalar v \<or> scalar_seq v"
    and rest: "list_all (\<lambda>(k, v). is_scalar k \<and> (is_scalar v \<or> scalar_seq v)) kvs"
    using Cons.prems(1,2) kv by (simp_all add: add.assoc del: node_events_length)
  have IH: "core (length (entry_events kvs) + m) Y 2 False (i + length ?e) data cf' w' = do {
      (st, cf, w) \<leftarrow> walk_directives Y data kvs cf' w';
      if st \<noteq> GF_OK then Some (settle (st, cf, w)) else core m Y 2 False (i + length ?e + length (entry_events kvs)) data cf w }"
    if "walk_directive Y data kv cf w = Some (GF_OK, cf', w')" for cf' w'
    using Cons.IH [OF ev(2) rest] walk_directive_n [OF that] Cons.prems(3) by simp
  have "core (length (entry_events (kv # kvs)) + m) Y 2 False i data cf w = core (length ?e + (length (entry_events kvs) + m)) Y 2 False i data cf w"
    using kv by (simp add: add.assoc del: node_events_length)
  also have "\<dots> = do {
      (st, cf, w) \<leftarrow> walk_directive Y data kv cf w;
      if st \<noteq> GF_OK then Some (settle (st, cf, w)) else core (length (entry_events kvs) + m) Y 2 False (i + length ?e) data cf w }"
    unfolding kv by (rule core_directive [OF ev(1) sc Cons.prems(3)])
  also have "\<dots> = do {
      (st, cf, w) \<leftarrow> walk_directives Y data (kv # kvs) cf w;
      if st \<noteq> GF_OK then Some (settle (st, cf, w)) else core m Y 2 False (i + length (entry_events (kv # kvs))) data cf w }"
    using IH kv by (auto simp: split_def bind_assoc bind_if add.assoc simp del: node_events_length intro!: bind_eqI)
  finally show ?case .
qed simp

lemma walk_directives_n:
  assumes "walk_directives Y data kvs cf w = Some (GF_OK, cf', w')"
  shows "array_n (cf_arg cf') = array_n (cf_arg cf)"
  using assms
proof (induction kvs arbitrary: cf w)
  case (Cons kv kvs)
  then obtain cf1 w1 where e: "walk_directive Y data kv cf w = Some (GF_OK, cf1, w1)" and r: "walk_directives Y data kvs cf1 w1 = Some (GF_OK, cf', w')"
    by (cases "walk_directive Y data kv cf w") (auto split: if_splits)
  with Cons.IH [OF r] walk_directive_n [OF e] show ?case by simp
qed simp

text \<open>The number \<open>data\<close> of the last pool.\<close>

lemma core_one_pool:
  assumes "events_at Y i (node_events k @ node_events (Y_map kvs))" "is_pool (k, Y_map kvs)" "array_n (cf_arg cf) = 0"
  shows "core (length (node_events k @ node_events (Y_map kvs)) + m) Y 1 False i data cf w = do {
      (st, data, cf, w) \<leftarrow> walk_pool Y (k, Y_map kvs) cf w;
      if st \<noteq> GF_OK then Some (settle (st, cf, w)) else core m Y 1 False (i + length (node_events k @ node_events (Y_map kvs))) data cf w }"
proof -
  define L where "L = length (entry_events kvs)"
  have sc: "is_scalar k" and kvs: "list_all (\<lambda>(k, v). is_scalar k \<and> (is_scalar v \<or> scalar_seq v)) kvs"
    using assms(2) by (simp_all add: is_pool_def)
  have e: "y_event Y i = Some (YAML_SCALAR_EVENT (scalar_of k))" and m1: "y_event Y (Suc i) = Some YAML_MAPPING_START_EVENT"
    and el: "events_at Y (Suc (Suc i)) (entry_events kvs)" and m2: "y_event Y (Suc (Suc i) + L) = Some YAML_MAPPING_END_EVENT"
    using assms(1) sc unfolding L_def by simp_all
  have tot: "length (node_events k @ node_events (Y_map kvs)) = Suc (Suc (Suc L))" using sc unfolding L_def by simp
  have one: "array_n (cf_arg cf') = 1" if "conf_push_scalar Y (scalar_of k) cf w = Some (GF_OK, cf', w')" for cf' w'
    using push_n [OF that] assms(3) by simp
  have rest: "core (Suc (Suc (L + m))) Y 1 False (Suc i) data cf' w' = do {
      (st, cf, w) \<leftarrow> walk_directives Y data kvs cf' w';
      if st \<noteq> GF_OK then Some (settle (st, cf, w))
      else do { cf \<leftarrow> conf_pop_scalar cf w; core m Y 1 False (Suc (Suc (Suc i) + L)) data cf w } }"
    if "array_n (cf_arg cf') = 1" for data cf' w'
    using core_directives [OF el kvs that, of "Suc m"] unfolding core_marks(3) [OF m1] L_def [symmetric] core_marks(4) [OF m2] by simp
  show ?thesis unfolding tot walk_pool_def using core_pool [OF e, of "Suc (Suc (L + m))"]
    by (auto simp: split_def bind_assoc bind_if rest handler_arg dest!: one intro!: bind_eqI split: option.split)
qed

lemma walk_pool_n:
  assumes "walk_pool Y p cf w = Some (GF_OK, data, cf', w')"
  shows "array_n (cf_arg cf') = array_n (cf_arg cf)"
proof -
  have "post (\<lambda>(st, data, cf', w'). st = GF_OK \<longrightarrow> array_n (cf_arg cf') = array_n (cf_arg cf)) (walk_pool Y p cf w)"
    unfolding walk_pool_def
    by (intro post_intros) (simp_all, auto dest!: push_n handler_arg walk_directives_n pop_n)
  from postD [OF this assms] show ?thesis by simp
qed

lemma core_pools:
  assumes "events_at Y i (entry_events pools)" "list_all is_pool pools" "array_n (cf_arg cf) = 0"
    and "y_event Y (i + length (entry_events pools)) = Some YAML_MAPPING_END_EVENT"
  shows "core (length (entry_events pools) + Suc m) Y 1 False i data cf w = do {
      (st, cf, w) \<leftarrow> walk_pools Y pools cf w;
      Some (if st \<noteq> GF_OK then settle (st, cf, w) else (GF_OK, par 0 False (Suc (i + length (entry_events pools))) YAML_NO_EVENT cf, w)) }"
  using assms
proof (induction pools arbitrary: i data cf w)
  case Nil
  then show ?case using core_marks(5) [of Y i m False data cf w] by simp
next
  case (Cons kv pools)
  obtain k kvs where kv: "kv = (k, Y_map kvs)" using Cons.prems(2) by (cases kv; cases "snd kv") (auto simp: is_pool_def)
  let ?e = "node_events k @ node_events (Y_map kvs)"
  have es: "entry_events (kv # pools) = ?e @ entry_events pools" using kv by simp
  have ev: "events_at Y i ?e" "events_at Y (i + length ?e) (entry_events pools)" and p: "is_pool (k, Y_map kvs)" "list_all is_pool pools"
    using Cons.prems(1,2) kv unfolding es by (simp_all add: add.assoc del: node_events.simps)
  have last: "y_event Y (i + length ?e + length (entry_events pools)) = Some YAML_MAPPING_END_EVENT"
    using Cons.prems(4) unfolding es by (simp add: add.assoc del: node_events.simps)
  have IH: "core (length (entry_events pools) + Suc m) Y 1 False (i + length ?e) data' cf' w' = do {
      (st, cf, w) \<leftarrow> walk_pools Y pools cf' w';
      Some (if st \<noteq> GF_OK then settle (st, cf, w)
        else (GF_OK, par 0 False (Suc (i + length ?e + length (entry_events pools))) YAML_NO_EVENT cf, w)) }"
    if "walk_pool Y kv cf w = Some (GF_OK, data', cf', w')" for data' cf' w'
    using Cons.IH [OF ev(2) p(2) _ last] walk_pool_n [OF that] Cons.prems(3) by simp
  have len: "length (entry_events (kv # pools)) = length ?e + length (entry_events pools)" unfolding es by simp
  show ?case unfolding len add.assoc core_one_pool [OF ev(1) p(1) Cons.prems(3)] using IH
    by (auto simp: kv split_def bind_assoc bind_if add.assoc simp del: node_events.simps intro!: bind_eqI)
qed

text \<open>Before and after the root mapping.\<close>

lemma begin_parse:
  assumes "y_event Y 0 = Some YAML_STREAM_START_EVENT" "y_event Y 1 = Some YAML_DOCUMENT_START_EVENT" "y_event Y 2 = Some YAML_MAPPING_START_EVENT"
    and "cf_sound cf" "\<not> cf_parsed cf" "cf_depth cf = 0" "\<not> cf_valid_event cf" "\<not> cf_seq cf" "3 \<le> fuel"
    and "conf_yaml_init cf w = Some (GF_OK, cf1, w1)"
  shows "conf_begin_parse fuel Y cf w = Some (GF_OK, par 1 False 3 YAML_MAPPING_START_EVENT cf, w1)"
proof -
  obtain k where k: "fuel = Suc (Suc (Suc k))" using le_Suc_ex [OF assms(9)] by (auto simp: numeral_3_eq_3)
  have cf1: "cf1 = cf\<lparr>cf_pos := 0, cf_valid_parser := True\<rparr>"
    using assms(10) by (auto simp: conf_yaml_init_def gf_simps split_def Let_def split: if_splits)
  let ?at = "\<lambda>i e. cf\<lparr>cf_valid_parser := True, cf_event := e, cf_pos := i, cf_valid_event := False\<rparr>"
  have 1: "begin_loop (Suc j) Y cf1 w1 = begin_loop j Y (?at 1 YAML_STREAM_START_EVENT) w1" for j
    using assms(1,7) by (simp add: cf1 conf_event_next_def conf_event_done_def)
  have 2: "begin_loop (Suc j) Y (?at 1 e) w1 = begin_loop j Y (?at 2 YAML_DOCUMENT_START_EVENT) w1" for j e
    using assms(2) by (simp add: conf_event_next_def conf_event_done_def numeral_2_eq_2)
  have 3: "begin_loop (Suc j) Y (?at 2 e) w1 = Some (GF_OK, (?at 3 YAML_MAPPING_START_EVENT)\<lparr>cf_depth := 1\<rparr>, w1)" for j e
    using assms(3,6) by (simp add: conf_event_next_def conf_event_done_def)
  have "(?at 3 e)\<lparr>cf_depth := 1\<rparr> = par 1 False 3 e cf" for e
    by (rule conf.equality) (use assms(4,5,8) in \<open>simp_all add: par_def\<close>)
  then have "begin_loop (Suc (Suc (Suc k))) Y cf1 w1 = Some (GF_OK, par 1 False 3 YAML_MAPPING_START_EVENT cf, w1)"
    unfolding 1 2 3 by simp
  then show ?thesis using assms(4-6,10) unfolding conf_begin_parse_def k by (simp del: begin_loop.simps)
qed

lemma end_parse:
  assumes "y_event Y i = Some YAML_DOCUMENT_END_EVENT" "y_event Y (Suc i) = Some YAML_STREAM_END_EVENT" "2 \<le> fuel"
  shows "\<exists>cf'. conf_end_parse fuel Y (par 0 False i e cf) w = Some (GF_OK, cf') \<and> cf_arg cf' = cf_arg cf \<and> cf_pool cf' = cf_pool cf \<and> cf_sound cf'"
proof -
  obtain k where k: "fuel = Suc (Suc k)" using le_Suc_ex [OF assms(3)] by (auto simp: numeral_2_eq_2)
  show ?thesis using assms
    by (simp add: conf_end_parse_def k par_def conf_event_next_def conf_event_done_def conf_yaml_deinit_def)
qed

text \<open>What a caller sees of a result: the status, the stack, the pools and the world.\<close>

definition outcome :: "int \<times> conf \<times> world \<Rightarrow> int \<times> gstring array \<times> conf_pool array \<times> world" where
  "outcome r = (case r of (st, cf, w) \<Rightarrow> (st, cf_arg cf, cf_pool cf, w))"

lemma conf_parse_walked:
  assumes "reads Y (stream_events (Y_map pools))" "conf_shape (Y_map pools)" "length (stream_events (Y_map pools)) \<le> fuel"
    and "cf_sound cf" "\<not> cf_parsed cf" "cf_depth cf = 0" "\<not> cf_valid_event cf" "\<not> cf_seq cf" "array_n (cf_arg cf) = 0"
    and "conf_yaml_init cf w = Some (GF_OK, cf1, w1)"
  shows "map_option outcome (conf_parse fuel Y cf w) = map_option outcome (walk_pools Y pools cf w1)"
proof -
  define L where "L = length (entry_events pools)"
  have "events_at Y 0 (stream_events (Y_map pools))" using assms(1) by (simp add: events_at_def reads_def)
  then have ev: "y_event Y 0 = Some YAML_STREAM_START_EVENT" "y_event Y 1 = Some YAML_DOCUMENT_START_EVENT" "y_event Y 2 = Some YAML_MAPPING_START_EVENT"
    "events_at Y 3 (entry_events pools)" "y_event Y (3 + L) = Some YAML_MAPPING_END_EVENT"
    "y_event Y (Suc (3 + L)) = Some YAML_DOCUMENT_END_EVENT" "y_event Y (Suc (Suc (3 + L))) = Some YAML_STREAM_END_EVENT"
    by (simp_all add: stream_events_def L_def numeral_2_eq_2 numeral_3_eq_3)
  have fuel: "L + 6 \<le> fuel" using assms(3) by (simp add: stream_events_def L_def)
  then obtain m where m: "fuel = L + Suc m" using le_Suc_ex [of "L + 1" fuel] by auto
  have b: "conf_begin_parse fuel Y cf w = Some (GF_OK, par 1 False 3 YAML_MAPPING_START_EVENT cf, w1)"
    using ev fuel assms(4-8,10) by (intro begin_parse) simp_all
  have p: "list_all is_pool pools" using assms(2) by (simp add: conf_shape_def)
  have c: "map_option settle (conf_parse_core fuel Y (par 1 False 3 e cf) None w1) = do {
      (st, cf, w) \<leftarrow> walk_pools Y pools cf w1;
      Some (if st \<noteq> GF_OK then settle (st, cf, w) else (GF_OK, par 0 False (Suc (3 + L)) YAML_NO_EVENT cf, w)) }" for e
    unfolding core_any [folded par_par3] m
    using core_pools [OF ev(4) p assms(9), of m None w1] ev(5) unfolding L_def [symmetric] by simp
  show ?thesis
  proof (cases "walk_pools Y pools cf w1")
    case None
    with c [of YAML_MAPPING_START_EVENT] show ?thesis using assms(4,5,9) b by (simp add: conf_parse_def)
  next
    case (Some r)
    obtain st cf' w' where r: "r = (st, cf', w')" by (cases r)
    obtain cf2 where k: "conf_parse_core fuel Y (par 1 False 3 YAML_MAPPING_START_EVENT cf) None w1 = Some (st, cf2, w')"
      and cf2: "settle (st, cf2, w') = (if st \<noteq> GF_OK then settle (st, cf', w') else (GF_OK, par 0 False (Suc (3 + L)) YAML_NO_EVENT cf', w'))"
      using c [of YAML_MAPPING_START_EVENT] Some r
      by (cases "conf_parse_core fuel Y (par 1 False 3 YAML_MAPPING_START_EVENT cf) None w1") (auto simp: settle_def split: if_splits prod.splits)
    show ?thesis
    proof (cases "st = GF_OK")
      case False
      with cf2 have "cf_arg cf2 = cf_arg cf'" "cf_pool cf2 = cf_pool cf'"
        by (auto simp: settle_def dest: arg_cong [of _ _ cf_arg] arg_cong [of _ _ cf_pool] simp: par_par3)
      with False k Some r b show ?thesis using assms(4,5,9) by (simp add: conf_parse_def outcome_def)
    next
      case True
      with cf2 have u: "cf2\<lparr>cf_event := YAML_NO_EVENT\<rparr> = par 0 False (Suc (3 + L)) YAML_NO_EVENT cf'" by (simp add: settle_def)
      have "cf2 = (cf2\<lparr>cf_event := YAML_NO_EVENT\<rparr>)\<lparr>cf_event := cf_event cf2\<rparr>" by simp
      also have "\<dots> = par 0 False (Suc (3 + L)) (cf_event cf2) cf'" unfolding u by (simp add: par_def)
      finally have e: "cf2 = par 0 False (Suc (3 + L)) (cf_event cf2) cf'" .
      obtain cf3 where "conf_end_parse fuel Y cf2 w' = Some (GF_OK, cf3)" "cf_arg cf3 = cf_arg cf'" "cf_pool cf3 = cf_pool cf'"
        using end_parse [OF ev(6,7), of fuel "cf_event cf2" cf' w'] fuel e by auto
      with True k Some r b show ?thesis using assms(4,5,9) by (simp add: conf_parse_def outcome_def)
    qed
  qed
qed

text \<open>
  C10: on a document of the shape the structure check accepts, the event
  driven \<open>conf_parse\<close> does exactly what a walk over the tree does: it pushes the name of a
  pool and makes the pool, hands each directive with its value and each element of the sequence
  to \<open>conf_handler\<close> once, in the order of the file, with its key and value on the stack, and
  takes them off again; it stops at the first error with the same result, and otherwise leaves
  the stack as it was.
\<close>

theorem conf_parse_walks:
  assumes "reads Y (stream_events (Y_map pools))" "conf_shape (Y_map pools)" "length (stream_events (Y_map pools)) \<le> fuel"
    and "cf_sound cf" "\<not> cf_parsed cf" "cf_depth cf = 0" "\<not> cf_valid_event cf" "\<not> cf_seq cf" "array_n (cf_arg cf) = 0"
    and "conf_yaml_init cf w = Some (GF_OK, cf1, w1)"
  shows "map_option outcome (conf_parse fuel Y cf w) = map_option outcome (walk_pools Y pools cf w1)"
  by (rule conf_parse_walked [OF assms])

lemma conf_parse_walks_witness:
  "\<exists>cf1 w1. conf_yaml_init (sample_conf\<lparr>cf_sound := True\<rparr>) w0 = Some (GF_OK, cf1, w1)
    \<and> map_option outcome (conf_parse 20 (sample_yaml (Y_map sample_pools)) (sample_conf\<lparr>cf_sound := True\<rparr>) w0)
      = map_option outcome (walk_pools (sample_yaml (Y_map sample_pools)) sample_pools (sample_conf\<lparr>cf_sound := True\<rparr>) w1)"
proof -
  obtain cf1 w1 where i: "conf_yaml_init (sample_conf\<lparr>cf_sound := True\<rparr>) w0 = Some (GF_OK, cf1, w1)" using sample_init by blast
  have "map_option outcome (conf_parse 20 (sample_yaml (Y_map sample_pools)) (sample_conf\<lparr>cf_sound := True\<rparr>) w0)
      = map_option outcome (walk_pools (sample_yaml (Y_map sample_pools)) sample_pools (sample_conf\<lparr>cf_sound := True\<rparr>) w1)"
    by (rule conf_parse_walks [OF sample_reads sample_shape _ _ _ _ _ _ _ i])
      (simp_all add: sample_length, simp_all add: sample_conf_def array_n_def array_set_def)
  with i show ?thesis by blast
qed

end
