(* ===== verification/Conf_Names.thy ===== *)
theory Conf_Names
  imports Conf_Check "HOL-Library.Multiset"
begin

section \<open>Sorting by name and looking for duplicates\<close>

text \<open>
  The checks for duplicates sort an array with a comparison function and compare neighbours.
  What such a function promises \<open>qsort\<close> is the interface \<open>comparator\<close>; on what it holds,
  no two neighbours compare equal exactly when no two elements do.
\<close>

subsection \<open>Sorting\<close>

lemma mset_insert_cmp [simp]: "mset (insert_cmp cmp x ys) = add_mset x (mset ys)"
  by (induction ys) auto

lemma mset_qsort [simp]: "mset (qsort cmp xs) = mset xs"
  by (induction xs) (auto simp: qsort_def)

lemma set_insert_cmp [simp]: "set (insert_cmp cmp x ys) = insert x (set ys)"
  by (induction ys) auto

lemma set_qsort [simp]: "set (qsort cmp xs) = set xs"
  by (metis mset_qsort mset_eq_setD)

lemma length_qsort [simp]: "length (qsort cmp xs) = length xs"
  by (metis mset_qsort size_mset)

text \<open>Sorting keeps what holds of every two elements, whatever their order.\<close>

lemma pairs_insert_cmp:
  "\<forall>y\<in>set ys. R x y = R y x \<Longrightarrow> sorted_wrt R (insert_cmp cmp x ys) \<longleftrightarrow> (\<forall>y\<in>set ys. R x y) \<and> sorted_wrt R ys"
  by (induction ys) auto

lemma pairs_qsort:
  "\<forall>x\<in>set xs. \<forall>y\<in>set xs. R x y = R y x \<Longrightarrow> sorted_wrt R (qsort cmp xs) = sorted_wrt R xs"
proof (induction xs)
  case (Cons x xs)
  have "qsort cmp (x # xs) = insert_cmp cmp x (qsort cmp xs)" by (simp add: qsort_def)
  moreover have "sorted_wrt R (insert_cmp cmp x (qsort cmp xs)) \<longleftrightarrow> (\<forall>y\<in>set (qsort cmp xs). R x y) \<and> sorted_wrt R (qsort cmp xs)"
    by (rule pairs_insert_cmp) (metis Cons.prems list.set_intros set_qsort)
  moreover have "sorted_wrt R (qsort cmp xs) = sorted_wrt R xs"
    by (rule Cons.IH) (metis Cons.prems list.set_intros(2))
  ultimately show ?case by simp
qed (simp add: qsort_def)

lemma sorted_wrt_both: "sorted_wrt (\<lambda>a b. P a b \<and> Q a b) xs \<longleftrightarrow> sorted_wrt P xs \<and> sorted_wrt Q xs"
  by (induction xs) auto

subsection \<open>Comparison functions\<close>

locale comparator =
  fixes ok :: "'a \<Rightarrow> bool" and cmp :: "'a \<Rightarrow> 'a \<Rightarrow> int"
  assumes swapped: "ok x \<Longrightarrow> ok y \<Longrightarrow> cmp y x = - cmp x y"
    and le_trans: "ok x \<Longrightarrow> ok y \<Longrightarrow> ok z \<Longrightarrow> cmp x y \<le> 0 \<Longrightarrow> cmp y z \<le> 0 \<Longrightarrow> cmp x z \<le> 0"
begin

lemma less_le_trans:
  assumes "ok x" "ok y" "ok z" "cmp x y < 0" "cmp y z \<le> 0"
  shows "cmp x z < 0"
proof (rule ccontr)
  assume "\<not> cmp x z < 0"
  then have "cmp z x \<le> 0" using swapped [of x z] assms by simp
  with le_trans [of y z x] have "cmp y x \<le> 0" using assms by simp
  then show False using swapped [of x y] assms by simp
qed

lemma sorted_insert_cmp:
  assumes "ok x" "\<forall>y\<in>set ys. ok y" "sorted_wrt (\<lambda>a b. cmp a b \<le> 0) ys"
  shows "sorted_wrt (\<lambda>a b. cmp a b \<le> 0) (insert_cmp cmp x ys)"
  using assms
proof (induction ys)
  case Nil
  then show ?case by simp
next
  case (Cons y ys)
  have y: "cmp y x \<le> 0" if "\<not> cmp x y \<le> 0" using swapped [of x y] Cons.prems that by simp
  show ?case using Cons y le_trans [of x y] by auto
qed

lemma sorted_qsort: "\<forall>x\<in>set xs. ok x \<Longrightarrow> sorted_wrt (\<lambda>a b. cmp a b \<le> 0) (qsort cmp xs)"
proof (induction xs)
  case (Cons x xs)
  then have "\<forall>y\<in>set (qsort cmp xs). ok y" by simp
  with Cons show ?case by (simp add: qsort_def sorted_insert_cmp)
qed (simp add: qsort_def)

lemma neighbours:
  assumes "\<forall>x\<in>set xs. ok x" "sorted_wrt (\<lambda>a b. cmp a b \<le> 0) xs"
  shows "no_equal_neighbours cmp xs \<longleftrightarrow> sorted_wrt (\<lambda>a b. cmp a b < 0) xs"
  using assms
proof (induction xs)
  case (Cons x xs)
  show ?case
  proof (cases xs)
    case (Cons y zs)
    have "cmp x y \<noteq> 0 \<longleftrightarrow> cmp x y < 0" using Cons.prems \<open>xs = y # zs\<close> by auto
    moreover have "cmp x z < 0" if "cmp x y < 0" "z \<in> set zs" for z
      using less_le_trans [of x y z] that Cons.prems \<open>xs = y # zs\<close> by auto
    ultimately show ?thesis using Cons.IH Cons.prems \<open>xs = y # zs\<close> by auto
  qed simp
qed simp

text \<open>The check of \<open>conf_validate_server\<close>: sort, then compare neighbours.\<close>

lemma no_duplicates:
  assumes "\<forall>x\<in>set xs. ok x"
  shows "no_equal_neighbours cmp (qsort cmp xs) \<longleftrightarrow> sorted_wrt (\<lambda>a b. cmp a b \<noteq> 0) xs"
proof -
  let ?ys = "qsort cmp xs"
  have sym: "\<forall>x\<in>set xs. \<forall>y\<in>set xs. (cmp x y \<noteq> 0) = (cmp y x \<noteq> 0)"
  proof (intro ballI)
    fix x y assume "x \<in> set xs" "y \<in> set xs"
    then show "(cmp x y \<noteq> 0) = (cmp y x \<noteq> 0)" using swapped [of x y] assms by auto
  qed
  have lt: "(\<lambda>a b. cmp a b < 0) = (\<lambda>a b. cmp a b \<le> 0 \<and> cmp a b \<noteq> 0)" by (intro ext) auto
  have "no_equal_neighbours cmp ?ys \<longleftrightarrow> sorted_wrt (\<lambda>a b. cmp a b < 0) ?ys"
    using assms sorted_qsort [OF assms] by (intro neighbours) auto
  also have "\<dots> \<longleftrightarrow> sorted_wrt (\<lambda>a b. cmp a b \<noteq> 0) ?ys"
    unfolding lt sorted_wrt_both using sorted_qsort [OF assms] by simp
  also have "\<dots> \<longleftrightarrow> sorted_wrt (\<lambda>a b. cmp a b \<noteq> 0) xs" by (rule pairs_qsort [OF sym])
  finally show ?thesis .
qed

end

subsection \<open>Strings\<close>

text \<open>A string whose length is the number of bytes it points to.\<close>

definition string_whole :: "gstring \<Rightarrow> bool" where
  "string_whole s \<longleftrightarrow> length (gs_bytes s) = unat (gs_len s)"

lemma strncmp_swapped: "gf_strncmp bs as n = - gf_strncmp as bs n"
  by (induction as bs n rule: gf_strncmp.induct) auto

lemma strncmp_range: "gf_strncmp as bs n \<in> {- 1, 0, 1}"
  by (induction as bs n rule: gf_strncmp.induct) auto

lemma strncmp_trans:
  assumes "length as = n" "length bs = n" "length cs = n" "gf_strncmp as bs n \<le> 0" "gf_strncmp bs cs n \<le> 0"
  shows "gf_strncmp as cs n \<le> 0"
  using assms
proof (induction n arbitrary: as bs cs)
  case (Suc n)
  then obtain a as' b bs' c cs' where [simp]: "as = a # as'" "bs = b # bs'" "cs = c # cs'"
    by (metis length_Suc_conv)
  show ?case using Suc.prems Suc.IH [of as' bs' cs'] by (auto split: if_splits)
qed simp

text \<open>Equal strings are those that agree up to the first NUL.\<close>

lemma strncmp_eq:
  assumes "length as = n" "length bs = n"
  shows "gf_strncmp as bs n = 0 \<longleftrightarrow> takeWhile (\<lambda>b. b \<noteq> 0) as = takeWhile (\<lambda>b. b \<noteq> 0) bs"
  using assms
proof (induction n arbitrary: as bs)
  case (Suc n)
  then obtain a as' b bs' where [simp]: "as = a # as'" "bs = b # bs'" by (metis length_Suc_conv)
  show ?case using Suc.prems Suc.IH [of as' bs'] by auto
qed simp

lemma string_compare_swapped: "string_compare y x = - string_compare x y"
  using strncmp_swapped [of "gs_bytes y" "gs_bytes x"] by (auto simp: string_compare_def)

lemma string_compare_trans:
  assumes "string_whole x" "string_whole y" "string_whole z" "string_compare x y \<le> 0" "string_compare y z \<le> 0"
  shows "string_compare x z \<le> 0"
  using assms strncmp_trans [of "gs_bytes x" "unat (gs_len z)" "gs_bytes y" "gs_bytes z"]
  by (auto simp: string_compare_def string_whole_def split: if_splits)

lemma string_compare_eq:
  assumes "string_whole x" "string_whole y" "0 \<notin> set (gs_bytes x)" "0 \<notin> set (gs_bytes y)"
  shows "string_compare x y = 0 \<longleftrightarrow> gs_bytes x = gs_bytes y"
proof -
  have tw: "takeWhile (\<lambda>b. b \<noteq> 0) xs = xs" if "0 \<notin> set xs" for xs :: "u8 list" using that by (induction xs) auto
  have len: "gs_len x = gs_len y" if "gs_bytes x = gs_bytes y" using assms(1,2) that by (simp add: string_whole_def word_unat_eq_iff)
  have "gf_strncmp (gs_bytes x) (gs_bytes y) (unat (gs_len x)) = 0 \<longleftrightarrow> gs_bytes x = gs_bytes y" if "gs_len x = gs_len y"
    using strncmp_eq [of "gs_bytes x" "unat (gs_len x)" "gs_bytes y"] assms that unfolding tw [OF assms(3)] tw [OF assms(4)]
    by (simp add: string_whole_def)
  then show ?thesis using len by (auto simp: string_compare_def)
qed

subsection \<open>The three comparisons\<close>

definition server_named :: "conf_server \<Rightarrow> bool" where
  "server_named s \<longleftrightarrow> string_whole (cs_name s)"

definition pool_named :: "conf_pool \<Rightarrow> bool" where
  "pool_named p \<longleftrightarrow> string_whole (cp_name p)"

definition pool_listens :: "conf_pool \<Rightarrow> bool" where
  "pool_listens p \<longleftrightarrow> string_whole (cl_pname (cp_listen p))"

interpretation server_name: comparator server_named conf_server_name_cmp
  by unfold_locales (unfold conf_server_name_cmp_def server_named_def, rule string_compare_swapped, erule (4) string_compare_trans)

interpretation pool_name: comparator pool_named conf_pool_name_cmp
  by unfold_locales (unfold conf_pool_name_cmp_def pool_named_def, rule string_compare_swapped, erule (4) string_compare_trans)

interpretation pool_listen: comparator pool_listens conf_pool_listen_cmp
  by unfold_locales (unfold conf_pool_listen_cmp_def pool_listens_def, rule string_compare_swapped, erule (4) string_compare_trans)

end
