(* ===== verification/Conf_Valid.thy ===== *)
theory Conf_Valid
  imports Conf_Names Conf_Structure
begin

section \<open>What a checked configuration is\<close>

text \<open>
  \<open>conf_post_validate\<close> accepts exactly the configurations that can be run: every pool listens
  somewhere and has servers with different names, and no two pools share a name or an address.
  What it leaves has every directive set.
\<close>

subsection \<open>Arrays that are sorted and read\<close>

lemma array_sort_items:
  assumes "array_ok a" "array_items a \<noteq> []"
  shows "\<exists>b. array_sort cmp a w = Some b \<and> array_ok b \<and> array_items b = qsort cmp (array_items a) \<and> ar_nelem b = ar_nelem a"
proof -
  obtain xs where xs: "ar_elem a = Some xs" "length xs = unat (ar_nalloc a)" "ar_nelem a \<le> ar_nalloc a" "ar_nalloc a \<noteq> 0"
    using assms(1) by (auto simp: array_ok_def)
  have n: "ar_nelem a \<noteq> 0" using assms(2) xs by (auto simp: array_items_def)
  have le: "unat (ar_nelem a) \<le> length xs" using xs by (simp add: word_le_nat_alt)
  let ?b = "a\<lparr>ar_elem := Some (qsort cmp (take (unat (ar_nelem a)) xs) @ drop (unat (ar_nelem a)) xs)\<rparr>"
  have "array_sort cmp a w = Some ?b" using n xs by (simp add: array_sort_def Let_def)
  moreover have "array_ok ?b" using xs le by (simp add: array_ok_def)
  moreover have "array_items ?b = qsort cmp (array_items a)" using xs le by (simp add: array_items_def)
  ultimately show ?thesis by auto
qed

lemma array_used_items: "array_ok a \<Longrightarrow> array_used a = Some (array_items a)"
  by (auto simp: array_ok_def array_used_def array_items_def word_le_nat_alt)

lemma array_n_items: "array_ok a \<Longrightarrow> array_n a = 0 \<longleftrightarrow> array_items a = []"
  using array_ok_length [of a] by (auto simp: array_n_def unat_eq_zero)

subsection \<open>Pools\<close>

definition pool_acceptable :: "conf_pool \<Rightarrow> bool" where
  "pool_acceptable cp \<longleftrightarrow> cl_valid (cp_listen cp) \<and> cp_num cp N_server_connections \<noteq> 0
     \<and> (cp_num cp N_redis \<in> {0, CONF_UNSET_NUM} \<longrightarrow> gs_len (cp_redis_auth cp) = 0)
     \<and> array_items (cp_server cp) \<noteq> []
     \<and> sorted_wrt (\<lambda>a b. conf_server_name_cmp a b \<noteq> 0) (array_items (cp_server cp))"

text \<open>The pool with its defaults; the limit on client connections cannot be set.\<close>

definition pool_defaults :: "conf_pool \<Rightarrow> conf_pool" where
  "pool_defaults cp = cp\<lparr>
     cp_distribution := Some (case cp_distribution cp of None \<Rightarrow> DIST_KETAMA | Some d \<Rightarrow> d),
     cp_hash := Some (case cp_hash cp of None \<Rightarrow> HASH_FNV1A_64 | Some h \<Rightarrow> h),
     cp_num := (\<lambda>f. if f = N_client_connections then 0
        else if cp_num cp f = CONF_UNSET_NUM then num_default f else cp_num cp f)\<rparr>"

text \<open>What the directives leave: a server that was read is valid, and its numbers are in range.\<close>

definition server_parsed :: "conf_server \<Rightarrow> bool" where
  "server_parsed s \<longleftrightarrow> cs_valid s \<and> server_named s \<and> 1 \<le> cs_weight s \<and> cs_weight s < 2 ^ 31 \<and> 0 \<le> cs_port s \<and> cs_port s \<le> 65535"

definition pool_parsed :: "conf_pool \<Rightarrow> bool" where
  "pool_parsed cp \<longleftrightarrow> \<not> cp_valid cp \<and> pool_named cp \<and> pool_listens cp \<and> gs_len (cp_name cp) \<noteq> 0 \<and> gs_data (cp_name cp) \<noteq> None
     \<and> array_ok (cp_server cp) \<and> (\<forall>s\<in>set (array_items (cp_server cp)). server_parsed s)
     \<and> (\<forall>f. CONF_UNSET_NUM \<le> cp_num cp f \<and> cp_num cp f < 2 ^ 31)"

lemma conf_validate_server_exact:
  assumes "array_ok (cp_server cp)" "\<forall>s\<in>set (array_items (cp_server cp)). server_named s"
  shows "\<exists>st cp'. conf_validate_server cp w = Some (st, cp')
    \<and> (st = GF_OK \<longleftrightarrow> array_items (cp_server cp) \<noteq> [] \<and> sorted_wrt (\<lambda>a b. conf_server_name_cmp a b \<noteq> 0) (array_items (cp_server cp)))
    \<and> st \<in> {GF_OK, GF_ERROR}
    \<and> (st = GF_OK \<longrightarrow> (\<exists>a. cp' = cp\<lparr>cp_server := a\<rparr> \<and> array_ok a \<and> array_items a = qsort conf_server_name_cmp (array_items (cp_server cp))))"
proof (cases "array_items (cp_server cp) = []")
  case True
  then show ?thesis using assms(1) by (simp add: conf_validate_server_def array_n_items)
next
  case False
  obtain b where b: "array_sort conf_server_name_cmp (cp_server cp) w = Some b" "array_ok b"
    "array_items b = qsort conf_server_name_cmp (array_items (cp_server cp))"
    using array_sort_items [OF assms(1) False] by blast
  then show ?thesis using False assms(1) server_name.no_duplicates [OF assms(2)]
    by (auto simp: conf_validate_server_def array_n_items array_used_items)
qed

text \<open>The defaults one after the other are the defaults at once.\<close>

definition num_set :: "num_field \<Rightarrow> (num_field \<Rightarrow> int) \<Rightarrow> num_field \<Rightarrow> int" where
  "num_set f n = (\<lambda>g. if g = f \<and> n f = CONF_UNSET_NUM then num_default f else n g)"

lemma set_default_eq: "set_default f cp = cp\<lparr>cp_num := num_set f (cp_num cp)\<rparr>"
proof (cases "cp_num cp f = CONF_UNSET_NUM")
  case True
  then have "num_set f (cp_num cp) = (cp_num cp)(f := num_default f)" by (intro ext) (simp add: num_set_def)
  with True show ?thesis by (simp add: set_default_def)
next
  case False
  then have "num_set f (cp_num cp) = cp_num cp" by (intro ext) (simp add: num_set_def)
  with False show ?thesis by (simp add: set_default_def)
qed

lemma num_set_same: "num_set f n f = (if n f = CONF_UNSET_NUM then num_default f else n f)"
  by (simp add: num_set_def)

lemma num_set_other: "g \<noteq> f \<Longrightarrow> num_set f n g = n g"
  by (simp add: num_set_def)

definition pool_unchecked :: "conf_pool \<Rightarrow> conf_pool" where
  "pool_unchecked cp =
     (let cp = (if cp_distribution cp = None then cp\<lparr>cp_distribution := Some DIST_KETAMA\<rparr> else cp);
          cp = (if cp_hash cp = None then cp\<lparr>cp_hash := Some HASH_FNV1A_64\<rparr> else cp);
          cp = set_default N_backlog (set_default N_timeout cp);
          cp = cp\<lparr>cp_num := (cp_num cp)(N_client_connections := num_default N_client_connections)\<rparr>;
          cp = set_default N_redis cp;
          cp = set_default N_reuseport (set_default N_tcpkeepalive cp);
          cp = set_default N_preconnect (set_default N_redis_db cp)
      in set_default N_auto_eject_hosts cp)"

lemma pool_unchecked_eq:
  "pool_unchecked cp = cp\<lparr>cp_distribution := cp_distribution (pool_defaults cp), cp_hash := cp_hash (pool_defaults cp),
     cp_num := num_set N_auto_eject_hosts (num_set N_preconnect (num_set N_redis_db (num_set N_reuseport (num_set N_tcpkeepalive
       (num_set N_redis ((num_set N_backlog (num_set N_timeout (cp_num cp)))(N_client_connections := 0)))))))\<rparr>"
  by (cases "cp_hash cp"; cases "cp_distribution cp")
    (simp_all add: pool_unchecked_def pool_defaults_def set_default_eq num_default_def Let_def)

lemma pool_unchecked_fields:
  "cp_num (pool_unchecked cp) N_server_connections = cp_num cp N_server_connections"
  "cp_redis_auth (pool_unchecked cp) = cp_redis_auth cp" "cp_server (pool_unchecked cp) = cp_server cp"
  "cp_listen (pool_unchecked cp) = cp_listen cp" "cp_name (pool_unchecked cp) = cp_name cp"
  by (simp_all add: pool_unchecked_eq num_set_other)

lemma pool_unchecked_defaults:
  "set_default N_server_failure_limit (set_default N_server_retry_timeout (set_default N_server_connections (pool_unchecked cp)))
    = pool_defaults cp"
proof -
  let ?sd = "\<lambda>cp. set_default N_server_failure_limit (set_default N_server_retry_timeout (set_default N_server_connections (pool_unchecked cp)))"
  have "cp_num (?sd cp) f = cp_num (pool_defaults cp) f" for f
    unfolding pool_unchecked_eq set_default_eq
    by (cases f) (simp_all add: num_set_same num_set_other num_default_def pool_defaults_def)
  then have "cp_num (?sd cp) = cp_num (pool_defaults cp)" by (rule ext)
  then show ?thesis
    unfolding pool_unchecked_eq set_default_eq by (intro conf_pool.equality) (simp_all add: pool_defaults_def)
qed

lemma pool_defaults_fields [simp]:
  "cp_redis_auth (pool_defaults cp) = cp_redis_auth cp" "cp_server (pool_defaults cp) = cp_server cp"
  "cp_listen (pool_defaults cp) = cp_listen cp" "cp_name (pool_defaults cp) = cp_name cp"
  by (simp_all add: pool_defaults_def)

lemma conf_validate_pool_exact:
  assumes "pool_parsed cp"
  shows "\<exists>st cp'. conf_validate_pool cp w = Some (st, cp') \<and> (st = GF_OK \<longleftrightarrow> pool_acceptable cp) \<and> st \<in> {GF_OK, GF_ERROR}
    \<and> (st = GF_OK \<longrightarrow> (\<exists>a. cp' = (pool_defaults cp)\<lparr>cp_server := a, cp_valid := True\<rparr> \<and> array_ok a
        \<and> array_items a = qsort conf_server_name_cmp (array_items (cp_server cp))))"
proof -
  let ?u = "pool_unchecked cp" and ?d = "pool_defaults cp"
  have e: "conf_validate_pool cp w = (if \<not> cl_valid (cp_listen cp) then Some (GF_ERROR, cp)
     else if cp_num ?u N_server_connections \<noteq> CONF_UNSET_NUM \<and> cp_num ?u N_server_connections = 0 then Some (GF_ERROR, ?u)
     else if cp_num ?d N_redis = 0 \<and> 0 < gs_len (cp_redis_auth ?d) then Some (GF_ERROR, ?d)
     else do { (status, cp) \<leftarrow> conf_validate_server ?d w;
        if status \<noteq> GF_OK then Some (status, cp) else Some (GF_OK, cp\<lparr>cp_valid := True\<rparr>) })"
    using assms unfolding pool_unchecked_defaults [symmetric] pool_unchecked_def
    by (simp add: conf_validate_pool_def Let_def pool_parsed_def string_empty_def string_ok_def)
  obtain st cp' where s: "conf_validate_server ?d w = Some (st, cp')"
    "st = GF_OK \<longleftrightarrow> array_items (cp_server cp) \<noteq> [] \<and> sorted_wrt (\<lambda>a b. conf_server_name_cmp a b \<noteq> 0) (array_items (cp_server cp))"
    "st \<in> {GF_OK, GF_ERROR}"
    "st = GF_OK \<Longrightarrow> \<exists>a. cp' = ?d\<lparr>cp_server := a\<rparr> \<and> array_ok a \<and> array_items a = qsort conf_server_name_cmp (array_items (cp_server cp))"
    using conf_validate_server_exact [of ?d w] assms by (auto simp: pool_parsed_def server_parsed_def)
  have r: "cp_num ?d N_redis = 0 \<longleftrightarrow> cp_num cp N_redis \<in> {0, CONF_UNSET_NUM}" by (simp add: pool_defaults_def num_default_def)
  have g: "0 < gs_len (cp_redis_auth cp) \<longleftrightarrow> gs_len (cp_redis_auth cp) \<noteq> 0" by (simp add: word_gt_0)
  show ?thesis unfolding e s(1) using s(2-4) r
    by (auto simp: pool_unchecked_fields pool_acceptable_def g)
qed

subsection \<open>All pools\<close>

definition checked_from :: "conf_pool \<Rightarrow> conf_pool \<Rightarrow> bool" where
  "checked_from cp cp' \<longleftrightarrow> (\<exists>a. cp' = (pool_defaults cp)\<lparr>cp_server := a, cp_valid := True\<rparr> \<and> array_ok a
     \<and> array_items a = qsort conf_server_name_cmp (array_items (cp_server cp)))"

lemma array_store_items:
  assumes "array_ok a" "i < length (array_items a)"
  shows "\<exists>b. ar_store a i x = Some b \<and> array_ok b \<and> array_items b = (array_items a)[i := x]"
proof -
  obtain xs where xs: "ar_elem a = Some xs" "length xs = unat (ar_nalloc a)" "unat (ar_nelem a) \<le> length xs" "ar_nalloc a \<noteq> 0"
    "ar_nelem a \<le> ar_nalloc a"
    using assms(1) by (auto simp: array_ok_def word_le_nat_alt)
  then have "i < length xs" "i < unat (ar_nelem a)" using assms(2) by (simp_all add: array_items_def)
  then show ?thesis using xs by (auto simp: ar_store_def array_ok_def array_items_def take_update_swap)
qed

lemma array_get_nth:
  assumes "array_ok a" "i < length (array_items a)"
  shows "array_get a (word_of_nat i) w = Some i"
proof -
  have n: "i < unat (ar_nelem a)" using assms array_ok_length [of a] by simp
  then have u: "unat (word_of_nat i :: u32) = i"
    using less_trans [OF n unsigned_less] by (simp add: unat_of_nat take_bit_nat_eq_self)
  then have "(word_of_nat i :: u32) < ar_nelem a" using n by (simp add: word_less_nat_alt)
  moreover from this have "ar_nelem a \<noteq> 0" by auto
  ultimately show ?thesis using u by (simp add: array_get_def)
qed

lemma validate_pools_exact:
  assumes "array_ok a" "length (array_items a) = i + k" "\<forall>cp\<in>set (drop i (array_items a)). pool_parsed cp"
  shows "\<exists>st b. validate_pools k i a w = Some (st, b) \<and> (st = GF_OK \<longleftrightarrow> (\<forall>cp\<in>set (drop i (array_items a)). pool_acceptable cp))
    \<and> st \<in> {GF_OK, GF_ERROR}
    \<and> (st = GF_OK \<longrightarrow> array_ok b \<and> (\<exists>ys. array_items b = take i (array_items a) @ ys \<and> list_all2 checked_from (drop i (array_items a)) ys))"
  using assms
proof (induction k arbitrary: i a)
  case 0
  then show ?case by auto
next
  case (Suc k)
  have i: "i < length (array_items a)" using Suc.prems(2) by simp
  let ?cp = "array_items a ! i"
  have d: "drop i (array_items a) = ?cp # drop (Suc i) (array_items a)" by (rule Cons_nth_drop_Suc [OF i, symmetric])
  obtain st cp' where v: "conf_validate_pool ?cp w = Some (st, cp')" "st = GF_OK \<longleftrightarrow> pool_acceptable ?cp" "st \<in> {GF_OK, GF_ERROR}"
    "st = GF_OK \<Longrightarrow> checked_from ?cp cp'"
    using conf_validate_pool_exact [of ?cp w] Suc.prems(3) d by (auto simp: checked_from_def)
  obtain b where b: "ar_store a i cp' = Some b" "array_ok b" "array_items b = (array_items a)[i := cp']"
    using array_store_items [OF Suc.prems(1) i] by blast
  have e: "validate_pools (Suc k) i a w = (if st \<noteq> GF_OK then Some (st, b) else validate_pools k (Suc i) b w)"
    using array_get_nth [OF Suc.prems(1) i] array_load_items [OF Suc.prems(1) i] v(1) b(1) by simp
  show ?case
  proof (cases "st = GF_OK")
    case False
    then show ?thesis using e v d by auto
  next
    case True
    have dr: "drop (Suc i) (array_items b) = drop (Suc i) (array_items a)" using b(3) by simp
    have tk: "take (Suc i) (array_items b) = take i (array_items a) @ [cp']" using b(3) i by (simp add: take_Suc_conv_app_nth)
    obtain st' c where c: "validate_pools k (Suc i) b w = Some (st', c)"
      "st' = GF_OK \<longleftrightarrow> (\<forall>cp\<in>set (drop (Suc i) (array_items a)). pool_acceptable cp)" "st' \<in> {GF_OK, GF_ERROR}"
      "st' = GF_OK \<Longrightarrow> array_ok c \<and> (\<exists>ys. array_items c = take i (array_items a) @ cp' # ys \<and> list_all2 checked_from (drop (Suc i) (array_items a)) ys)"
      using Suc.IH [OF b(2), of "Suc i"] Suc.prems b(3) dr tk d by auto
    have "list_all2 checked_from (drop i (array_items a)) (cp' # ys) \<longleftrightarrow> list_all2 checked_from (drop (Suc i) (array_items a)) ys" for ys
      using v(4) [OF True] d by simp
    then show ?thesis using e True c v(2) d by auto
  qed
qed

text \<open>The checks only change directives that were not set, so names and addresses stay.\<close>

lemma checked_from_names:
  assumes "list_all2 checked_from xs ys"
  shows "map cp_name ys = map cp_name xs" "map cp_listen ys = map cp_listen xs"
  using assms by (induction rule: list_all2_induct) (auto simp: checked_from_def)

lemma checked_from_pairs:
  assumes "list_all2 checked_from xs ys"
  shows "sorted_wrt (\<lambda>a b. conf_pool_name_cmp a b \<noteq> 0) ys = sorted_wrt (\<lambda>a b. conf_pool_name_cmp a b \<noteq> 0) xs"
    and "sorted_wrt (\<lambda>a b. conf_pool_listen_cmp a b \<noteq> 0) ys = sorted_wrt (\<lambda>a b. conf_pool_listen_cmp a b \<noteq> 0) xs"
proof -
  have "sorted_wrt (\<lambda>a b. conf_pool_name_cmp a b \<noteq> 0) zs = sorted_wrt (\<lambda>s t. string_compare s t \<noteq> 0) (map cp_name zs)"
    "sorted_wrt (\<lambda>a b. conf_pool_listen_cmp a b \<noteq> 0) zs
      = sorted_wrt (\<lambda>l k. string_compare (cl_pname l) (cl_pname k) \<noteq> 0) (map cp_listen zs)" for zs
    by (simp_all add: sorted_wrt_map conf_pool_name_cmp_def conf_pool_listen_cmp_def)
  then show "sorted_wrt (\<lambda>a b. conf_pool_name_cmp a b \<noteq> 0) ys = sorted_wrt (\<lambda>a b. conf_pool_name_cmp a b \<noteq> 0) xs"
    "sorted_wrt (\<lambda>a b. conf_pool_listen_cmp a b \<noteq> 0) ys = sorted_wrt (\<lambda>a b. conf_pool_listen_cmp a b \<noteq> 0) xs"
    using checked_from_names [OF assms] by simp_all
qed

lemma names_ok:
  assumes "map cp_name ys = map cp_name xs" "map cp_listen ys = map cp_listen xs" "\<forall>cp\<in>set xs. pool_parsed cp"
  shows "\<forall>cp\<in>set ys. pool_named cp" "\<forall>cp\<in>set ys. pool_listens cp"
proof -
  have e: "cp_name ` set ys = cp_name ` set xs" "cp_listen ` set ys = cp_listen ` set xs"
    using assms(1,2) by (metis list.set_map)+
  have "\<forall>s\<in>cp_name ` set xs. string_whole s" "\<forall>l\<in>cp_listen ` set xs. string_whole (cl_pname l)"
    using assms(3) by (simp_all add: pool_parsed_def pool_named_def pool_listens_def)
  then show "\<forall>cp\<in>set ys. pool_named cp" "\<forall>cp\<in>set ys. pool_listens cp"
    unfolding e [symmetric] by (simp_all add: pool_named_def pool_listens_def)
qed

definition conf_acceptable :: "conf \<Rightarrow> bool" where
  "conf_acceptable cf \<longleftrightarrow> (let pools = array_items (cf_pool cf) in
     pools \<noteq> [] \<and> (\<forall>cp\<in>set pools. pool_acceptable cp)
     \<and> sorted_wrt (\<lambda>a b. conf_pool_listen_cmp a b \<noteq> 0) pools
     \<and> sorted_wrt (\<lambda>a b. conf_pool_name_cmp a b \<noteq> 0) pools)"

text \<open>What the parser leaves.\<close>

definition conf_ready :: "conf \<Rightarrow> bool" where
  "conf_ready cf \<longleftrightarrow> cf_sound cf \<and> cf_parsed cf \<and> \<not> cf_valid cf \<and> array_ok (cf_pool cf)
     \<and> (\<forall>cp\<in>set (array_items (cf_pool cf)). pool_parsed cp)"

lemma post_validate_exact:
  assumes "conf_ready cf"
  shows "\<exists>st a. conf_post_validate cf w = Some (st, cf\<lparr>cf_pool := a\<rparr>) \<and> (st = GF_OK \<longleftrightarrow> conf_acceptable cf) \<and> st \<in> {GF_OK, GF_ERROR}
    \<and> (st = GF_OK \<longrightarrow> array_ok a \<and> (\<exists>ys. list_all2 checked_from (array_items (cf_pool cf)) ys \<and> mset (array_items a) = mset ys)
        \<and> sorted_wrt (\<lambda>a b. conf_pool_name_cmp a b < 0) (array_items a))"
proof (cases "array_items (cf_pool cf) = []")
  case True
  then show ?thesis using assms
    by (intro exI [of _ GF_ERROR] exI [of _ "cf_pool cf"]) (simp add: conf_post_validate_def conf_ready_def array_n_items conf_acceptable_def)
next
  case False
  let ?xs = "array_items (cf_pool cf)"
  have r: "array_ok (cf_pool cf)" "\<forall>cp\<in>set ?xs. pool_parsed cp" "cf_sound cf" "cf_parsed cf" "\<not> cf_valid cf"
    using assms by (auto simp: conf_ready_def)
  have n: "unat (array_n (cf_pool cf)) = length ?xs" "array_n (cf_pool cf) \<noteq> 0"
    using r(1) False array_ok_length [OF r(1)] array_n_items [OF r(1)] by (simp_all add: array_n_def)
  obtain st a where v: "validate_pools (length ?xs) 0 (cf_pool cf) w = Some (st, a)"
    "st = GF_OK \<longleftrightarrow> (\<forall>cp\<in>set ?xs. pool_acceptable cp)" "st \<in> {GF_OK, GF_ERROR}"
    "st = GF_OK \<Longrightarrow> array_ok a \<and> list_all2 checked_from ?xs (array_items a)"
    using validate_pools_exact [OF r(1), of 0 "length ?xs" w] r(2) by auto
  show ?thesis
  proof (cases "st = GF_OK")
    case False
    then have "\<not> conf_acceptable cf" using v(2) by (auto simp: conf_acceptable_def Let_def)
    then show ?thesis using v(1,3) n r False by (intro exI [of _ st] exI [of _ a]) (simp add: conf_post_validate_def)
  next
    case True
    note ya = conjunct1 [OF v(4) [OF True]] and yl = conjunct2 [OF v(4) [OF True]]
    let ?ys = "array_items a"
    have "?ys \<noteq> []" using yl False by auto
    then obtain b where b: "array_sort conf_pool_listen_cmp a w = Some b" "array_ok b" "array_items b = qsort conf_pool_listen_cmp ?ys"
      using array_sort_items [OF ya] by blast
    have "array_items b \<noteq> []" using b(3) \<open>?ys \<noteq> []\<close> by (metis length_0_conv length_qsort)
    then obtain c where c: "array_sort conf_pool_name_cmp b w = Some c" "array_ok c" "array_items c = qsort conf_pool_name_cmp (array_items b)"
      using array_sort_items [OF b(2)] by blast
    note names = names_ok [OF checked_from_names [OF yl] r(2)]
    have l: "no_equal_neighbours conf_pool_listen_cmp (array_items b) \<longleftrightarrow> sorted_wrt (\<lambda>a b. conf_pool_listen_cmp a b \<noteq> 0) ?xs"
      unfolding b(3) pool_listen.no_duplicates [OF names(2)] by (rule checked_from_pairs(2) [OF yl])
    have nb: "\<forall>cp\<in>set (array_items b). pool_named cp" using names(1) b(3) by simp
    have sym: "\<forall>x\<in>set ?ys. \<forall>y\<in>set ?ys. (conf_pool_name_cmp x y \<noteq> 0) = (conf_pool_name_cmp y x \<noteq> 0)"
      by (intro ballI) (metis conf_pool_name_cmp_def string_compare_swapped neg_equal_0_iff_equal)
    have m: "no_equal_neighbours conf_pool_name_cmp (array_items c) \<longleftrightarrow> sorted_wrt (\<lambda>a b. conf_pool_name_cmp a b \<noteq> 0) ?xs"
      using pool_name.no_duplicates [OF nb] pairs_qsort [OF sym, of conf_pool_listen_cmp] checked_from_pairs(1) [OF yl] b(3) c(3) by simp
    have srt: "sorted_wrt (\<lambda>a b. conf_pool_name_cmp a b < 0) (array_items c)" if "no_equal_neighbours conf_pool_name_cmp (array_items c)"
      using that pool_name.neighbours [of "array_items c"] pool_name.sorted_qsort [OF nb] nb c(3) by simp
    have "conf_acceptable cf \<longleftrightarrow> no_equal_neighbours conf_pool_listen_cmp (array_items b) \<and> no_equal_neighbours conf_pool_name_cmp (array_items c)"
      using v(2) True False l m by (simp add: conf_acceptable_def Let_def)
    moreover have "mset (array_items c) = mset ?ys" using b(3) c(3) by simp
    ultimately show ?thesis using v(1) True n r b(1,2) c(1,2) yl srt
      by (auto simp: conf_post_validate_def array_used_items)
  qed
qed

text \<open>
  C8: after a parse, \<open>conf_post_validate\<close> returns, and it succeeds
  exactly when there is a pool, every pool has a valid listen address, at least one server, no two
  servers of one name, a limit of server connections other than 0 and a password only with redis,
  and no two pools have the same listen address or the same name.  Then the pools are those
  parsed, each with its directives completed by the defaults and its servers sorted by name, in
  strictly increasing order of their names.
\<close>

theorem conf_post_validate_exact:
  assumes "conf_ready cf"
  shows "\<exists>st a. conf_post_validate cf w = Some (st, cf\<lparr>cf_pool := a\<rparr>) \<and> (st = GF_OK \<longleftrightarrow> conf_acceptable cf) \<and> st \<in> {GF_OK, GF_ERROR}
    \<and> (st = GF_OK \<longrightarrow> array_ok a \<and> (\<exists>ys. list_all2 checked_from (array_items (cf_pool cf)) ys \<and> mset (array_items a) = mset ys)
        \<and> sorted_wrt (\<lambda>a b. conf_pool_name_cmp a b < 0) (array_items a))"
  by (rule post_validate_exact [OF assms])

text \<open>A parsed file: the pool \<open>p\<close> with the servers \<open>b\<close> and \<open>a\<close> and nothing else set.\<close>

definition sample_string :: "u8 list \<Rightarrow> gstring" where
  "sample_string bs = \<lparr>gs_len = word_of_nat (length bs), gs_data = Some (bs @ [0])\<rparr>"

definition sample_conf_server :: "u8 list \<Rightarrow> conf_server" where
  "sample_conf_server name = conf_server_init\<lparr>cs_pname := sample_string name, cs_name := sample_string name, cs_addrstr := sample_string name,
     cs_port := 11211, cs_valid := True\<rparr>"

definition sample_parsed_pool :: conf_pool where
  "sample_parsed_pool = sample_conf_pool\<lparr>cp_name := sample_string [112],
     cp_listen := (cp_listen sample_conf_pool)\<lparr>cl_pname := sample_string [104], cl_name := sample_string [104], cl_port := 22121, cl_valid := True\<rparr>,
     cp_server := \<lparr>ar_nelem = 2, ar_elem = Some [sample_conf_server [98], sample_conf_server [97]], ar_size = sizeof_conf_server, ar_nalloc = 2\<rparr>\<rparr>"

definition sample_parsed :: conf where
  "sample_parsed = sample_conf\<lparr>cf_sound := True, cf_parsed := True,
     cf_pool := \<lparr>ar_nelem = 1, ar_elem = Some [sample_parsed_pool], ar_size = sizeof_conf_pool, ar_nalloc = 1\<rparr>\<rparr>"

lemma sample_parsed_items:
  "array_items (cf_pool sample_parsed) = [sample_parsed_pool]"
  "array_items (cp_server sample_parsed_pool) = [sample_conf_server [98], sample_conf_server [97]]"
  by (simp_all add: sample_parsed_def sample_parsed_pool_def array_items_def)

lemma sample_parsed_ready: "conf_ready sample_parsed"
  unfolding conf_ready_def sample_parsed_items
  by (simp add: sample_parsed_def sample_conf_def array_ok_def pool_parsed_def sample_parsed_items,
      simp add: sample_parsed_pool_def sample_conf_pool_def sample_conf_server_def pool_named_def pool_listens_def server_parsed_def server_named_def
        conf_server_init_def
        string_whole_def sample_string_def gs_bytes_def array_ok_def)

lemma sample_parsed_acceptable: "conf_acceptable sample_parsed"
  unfolding conf_acceptable_def Let_def sample_parsed_items
  by (simp add: pool_acceptable_def sample_parsed_items,
      simp add: sample_parsed_pool_def sample_conf_pool_def sample_conf_server_def conf_server_name_cmp_def
        string_compare_def sample_string_def gs_bytes_def string_init_def)

lemma conf_post_validate_exact_witness:
  "\<exists>a. conf_post_validate sample_parsed w0 = Some (GF_OK, sample_parsed\<lparr>cf_pool := a\<rparr>) \<and> length (array_items a) = 1"
proof -
  obtain st a ys where a: "conf_post_validate sample_parsed w0 = Some (st, sample_parsed\<lparr>cf_pool := a\<rparr>)" "st = GF_OK"
    "list_all2 checked_from [sample_parsed_pool] ys" "mset (array_items a) = mset ys"
    using conf_post_validate_exact [OF sample_parsed_ready, of w0] sample_parsed_acceptable unfolding sample_parsed_items by blast
  then show ?thesis by (metis list_all2_lengthD length_Cons list.size(3) size_mset One_nat_def)
qed

subsection \<open>Complete pools\<close>

text \<open>Every directive has a value the program can run with.\<close>

definition pool_complete :: "conf_pool \<Rightarrow> bool" where
  "pool_complete cp \<longleftrightarrow> cp_valid cp \<and> cl_valid (cp_listen cp) \<and> cp_hash cp \<noteq> None \<and> cp_distribution cp \<noteq> None
     \<and> (\<forall>f. (f \<noteq> N_timeout \<longrightarrow> 0 \<le> cp_num cp f) \<and> cp_num cp f < 2 ^ 31) \<and> - 1 \<le> cp_num cp N_timeout
     \<and> 1 \<le> cp_num cp N_server_connections
     \<and> (\<forall>s\<in>set (array_items (cp_server cp)). server_parsed s)
     \<and> array_ok (cp_server cp) \<and> array_items (cp_server cp) \<noteq> []
     \<and> sorted_wrt (\<lambda>a b. conf_server_name_cmp a b < 0) (array_items (cp_server cp))"

lemma checked_complete:
  assumes "pool_parsed cp" "pool_acceptable cp" "checked_from cp cp'"
  shows "pool_complete cp'"
proof -
  obtain a where a: "cp' = (pool_defaults cp)\<lparr>cp_server := a, cp_valid := True\<rparr>" "array_ok a"
    "array_items a = qsort conf_server_name_cmp (array_items (cp_server cp))"
    using assms(3) by (auto simp: checked_from_def)
  have named: "\<forall>s\<in>set (array_items (cp_server cp)). server_named s" using assms(1) by (simp add: pool_parsed_def server_parsed_def)
  have ps: "\<forall>s\<in>set (array_items a). server_parsed s" using assms(1) a(3) by (simp add: pool_parsed_def)
  have ns: "\<forall>s\<in>set (array_items a). server_named s" using named a(3) by simp
  have "no_equal_neighbours conf_server_name_cmp (array_items a)"
    unfolding a(3) server_name.no_duplicates [OF named] using assms(2) by (simp add: pool_acceptable_def)
  then have srt: "sorted_wrt (\<lambda>a b. conf_server_name_cmp a b < 0) (array_items a)"
    using server_name.neighbours [OF ns] server_name.sorted_qsort [OF named] a(3) by simp
  have ge: "0 \<le> cp_num cp f" if "cp_num cp f \<noteq> - 1" for f
  proof -
    have "- 1 \<le> cp_num cp f" using assms(1) unfolding pool_parsed_def by blast
    with that show ?thesis by linarith
  qed
  have d: "0 \<le> num_default f" if "f \<noteq> N_timeout" for f using that by (cases f) (simp_all add: num_default_def)
  have num: "0 \<le> cp_num cp' f" if "f \<noteq> N_timeout" for f using ge d [OF that] a(1) by (simp add: pool_defaults_def)
  have "cp_num cp f < 2 ^ 31" for f using assms(1) unfolding pool_parsed_def by blast
  moreover have "num_default f < 2 ^ 31" for f by (cases f) (simp_all add: num_default_def)
  ultimately have up: "cp_num cp' f < 2 ^ 31" for f using a(1) by (simp add: pool_defaults_def)
  have t: "- 1 \<le> cp_num cp' N_timeout" using ge [of N_timeout] a(1) by (fastforce simp: pool_defaults_def num_default_def)
  have "cp_num cp' N_server_connections \<noteq> 0" using assms(2) a(1) by (simp add: pool_acceptable_def pool_defaults_def num_default_def)
  then have c: "1 \<le> cp_num cp' N_server_connections" using num [of N_server_connections] by simp
  have "array_items a \<noteq> []" using a(3) assms(2) by (metis length_0_conv length_qsort pool_acceptable_def)
  then show ?thesis using a(1,2) srt num up t c ps assms(2) by (simp add: pool_complete_def pool_acceptable_def, simp add: pool_defaults_def)
qed

lemma accepted_complete:
  assumes "conf_ready cf" "conf_post_validate cf w = Some (GF_OK, cf')"
  shows "array_ok (cf_pool cf')" "array_items (cf_pool cf') \<noteq> []" "\<forall>cp\<in>set (array_items (cf_pool cf')). pool_complete cp"
proof -
  let ?xs = "array_items (cf_pool cf)"
  obtain a ys where a: "cf' = cf\<lparr>cf_pool := a\<rparr>" "conf_acceptable cf" "array_ok a" "list_all2 checked_from ?xs ys" "mset (array_items a) = mset ys"
    using post_validate_exact [OF assms(1), of w] assms(2) by auto
  have p: "\<forall>cp\<in>set ?xs. pool_parsed cp \<and> pool_acceptable cp" using assms(1) a(2) by (auto simp: conf_ready_def conf_acceptable_def Let_def)
  have "\<forall>cp\<in>set ys. pool_complete cp" using a(4) p
    by (induction rule: list_all2_induct) (auto intro: checked_complete)
  moreover have "set (array_items a) = set ys" using a(5) by (rule mset_eq_setD)
  moreover have "ys \<noteq> []" using a(2,4) by (auto simp: conf_acceptable_def Let_def)
  ultimately show "array_ok (cf_pool cf')" "array_items (cf_pool cf') \<noteq> []" "\<forall>cp\<in>set (array_items (cf_pool cf')). pool_complete cp"
    using a(1,3) by auto
qed

end
