(* ===== verification/Conf_Server.thy ===== *)
theory Conf_Server
  imports Conf_Parse
begin

section \<open>Reading a server\<close>

text \<open>
  \<open>conf_add_server\<close> splits a value from its end.  What it reads is what was written, for
  every server that can be written as \<open>host:port:weight [name]\<close>.
\<close>

subsection \<open>Searching backwards\<close>

lemma strrchr_found:
  assumes "c \<notin> set ys"
  shows "gf_strrchr (xs @ c # ys @ rest) (int (length xs + length ys)) 0 c = Some (int (length xs))"
  using assms
proof (induction ys arbitrary: rest rule: rev_induct)
  case Nil
  then show ?case by (subst gf_strrchr.simps) (simp add: nth_append)
next
  case (snoc y ys)
  have n: "(xs @ c # (ys @ [y]) @ rest) ! nat (int (length xs + length (ys @ [y]))) = y"
    unfolding nat_int using nth_append_length [of "xs @ c # ys" y rest] by simp
  have "gf_strrchr (xs @ c # (ys @ [y]) @ rest) (int (length xs + length (ys @ [y]))) 0 c
      = gf_strrchr (xs @ c # ys @ (y # rest)) (int (length xs + length ys)) 0 c"
    by (subst gf_strrchr.simps) (use snoc.prems n in auto)
  also have "\<dots> = Some (int (length xs))" using snoc by simp
  finally show ?case .
qed

lemma strrchr_none:
  assumes "c \<notin> set ys"
  shows "gf_strrchr (ys @ rest) (int (length ys) - 1) 0 c = None"
  using assms
proof (induction ys arbitrary: rest rule: rev_induct)
  case Nil
  then show ?case by (subst gf_strrchr.simps) simp
next
  case (snoc y ys)
  have "gf_strrchr ((ys @ [y]) @ rest) (int (length (ys @ [y])) - 1) 0 c = gf_strrchr (ys @ (y # rest)) (int (length ys) - 1) 0 c"
    by (subst gf_strrchr.simps) (use snoc.prems in \<open>auto simp: nth_append\<close>)
  also have "\<dots> = None" using snoc by simp
  finally show ?case .
qed

subsection \<open>The parts\<close>

definition dec :: "nat \<Rightarrow> u8 list" where
  "dec n = map ((!) hex) (digits 10 n)"

lemma dec_bytes: "b \<in> set (dec n) \<Longrightarrow> 48 \<le> b \<and> b \<le> 57"
  using digits_below [of 10 _ n] hex_decimal by (auto simp: dec_def not_less)

lemma dec_not [simp]: "58 \<notin> set (dec n)" "32 \<notin> set (dec n)" "0 \<notin> set (dec n)" "47 \<notin> set (dec n)"
  using dec_bytes [of 58 n] dec_bytes [of 32 n] dec_bytes [of 0 n] dec_bytes [of 47 n] by auto

lemma dec_ne [simp]: "dec n \<noteq> []"
  by (simp add: dec_def digits_ne)

lemma atoi_dec: "n < 2 ^ 31 \<Longrightarrow> gf_atoi (dec n @ rest) (length (dec n)) = Some (int n)"
  unfolding dec_def by (simp only: gf_atoi_decimal if_True)

definition server_text :: "u8 list \<Rightarrow> nat \<Rightarrow> nat \<Rightarrow> u8 list option \<Rightarrow> u8 list" where
  "server_text host port weight name = host @ 58 # dec port @ 58 # dec weight @ (case name of None \<Rightarrow> [] | Some n \<Rightarrow> 32 # n)"

abbreviation no_parts :: server_parts where
  "no_parts \<equiv> \<lparr>sp_name = None, sp_weight = None, sp_port = None\<rparr>"

abbreviation part :: "nat \<Rightarrow> nat \<Rightarrow> (int \<times> u32) option" where
  "part off n \<equiv> Some (int off, word_of_nat n)"

lemma scan_step:
  assumes "d = xs @ [32, 58, 58, 0] ! k # ys @ rest" "p = int (length xs + length ys)" "k < 3" "[32, 58, 58, 0] ! k \<notin> set ys"
  shows "server_scan d k p st w = server_scan d (k + 1) (int (length xs) - 1)
     (set_part k (int (Suc (length xs)), word_of_nat (length ys)) st) w"
proof -
  have "gf_strrchr d p 0 ([32, 58, 58, 0] ! k) = Some (int (length xs))"
    unfolding assms(1,2) by (rule strrchr_found [OF assms(4)])
  then show ?thesis using assms(2,3) by (subst server_scan.simps) (simp add: algebra_simps)
qed

lemma scan_stop:
  assumes "d = ys @ rest" "p = int (length ys) - 1" "[32, 58, 58, 0] ! k \<notin> set ys" "k < 4"
  shows "server_scan d k p st w = (if k = 0 then server_scan d 1 p st w else Some (k, p, st))"
proof -
  have "gf_strrchr d p 0 ([32, 58, 58, 0] ! k) = None"
    unfolding assms(1,2) by (rule strrchr_none [OF assms(3)])
  then show ?thesis using assms(4) by (subst server_scan.simps) simp
qed

lemma server_scan_text:
  fixes host :: "u8 list"
  assumes "0 \<notin> set host" "case name of None \<Rightarrow> 32 \<notin> set host | Some n \<Rightarrow> 32 \<notin> set n"
  shows "server_scan (server_text host port weight name @ [0]) 0 (int (length (server_text host port weight name)) - 1) no_parts w
    = Some (3, int (length host) - 1,
        \<lparr>sp_name = (case name of None \<Rightarrow> None | Some n \<Rightarrow> part (length host + length (dec port) + length (dec weight) + 3) (length n)),
         sp_weight = part (length host + length (dec port) + 2) (length (dec weight)),
         sp_port = part (length host + 1) (length (dec port))\<rparr>)"
proof -
  define hpw where "hpw = host @ 58 # dec port @ 58 # dec weight"
  define tl where "tl = (case name of None \<Rightarrow> [] | Some n \<Rightarrow> 32 # n) @ [0]"
  have d: "server_text host port weight name @ [0] = hpw @ tl" by (simp add: server_text_def hpw_def tl_def)
  let ?sn = "case name of None \<Rightarrow> None | Some n \<Rightarrow> part (length hpw + 1) (length n)"
  have 0: "server_scan (hpw @ tl) 0 (int (length (server_text host port weight name)) - 1) no_parts w
      = server_scan (hpw @ tl) 1 (int (length hpw) - 1) \<lparr>sp_name = ?sn, sp_weight = None, sp_port = None\<rparr> w"
  proof (cases name)
    case None
    have "32 \<notin> set hpw" using assms(2) None by (simp add: hpw_def)
    then show ?thesis using scan_stop [of "hpw @ tl" hpw tl _ 0] None by (simp add: server_text_def hpw_def)
  next
    case (Some n)
    have "server_scan (hpw @ tl) 0 (int (length hpw + length n)) no_parts w
        = server_scan (hpw @ tl) (0 + 1) (int (length hpw) - 1) (set_part 0 (int (Suc (length hpw)), word_of_nat (length n)) no_parts) w"
      using assms(2) Some by (intro scan_step [where rest = "[0]"]) (simp_all add: tl_def)
    then show ?thesis using Some by (simp add: server_text_def hpw_def set_part_def algebra_simps)
  qed
  have 1: "server_scan (hpw @ tl) 1 (int (length hpw) - 1) st w
      = server_scan (hpw @ tl) 2 (int (length (host @ 58 # dec port)) - 1) (set_part 1 (int (Suc (length (host @ 58 # dec port))), word_of_nat (length (dec weight))) st) w" for st
    using scan_step [of "hpw @ tl" "host @ 58 # dec port" 1 "dec weight" tl "int (length hpw) - 1" st w]
    by (simp add: hpw_def numeral_2_eq_2 algebra_simps)
  have 2: "server_scan (hpw @ tl) 2 (int (length (host @ 58 # dec port)) - 1) st w
      = server_scan (hpw @ tl) 3 (int (length host) - 1) (set_part 2 (int (Suc (length host)), word_of_nat (length (dec port))) st) w" for st
    using scan_step [of "hpw @ tl" host 2 "dec port" "58 # dec weight @ tl" "int (length (host @ 58 # dec port)) - 1" st w]
    by (simp add: hpw_def numeral_3_eq_3 algebra_simps)
  have 3: "server_scan (hpw @ tl) 3 (int (length host) - 1) st w = Some (3, int (length host) - 1, st)" for st
    using scan_stop [of "hpw @ tl" host "58 # dec port @ 58 # dec weight @ tl" "int (length host) - 1" 3 st w] assms(1)
    by (simp add: hpw_def)
  show ?thesis unfolding d 0 1 2 3
    by (auto simp: set_part_def hpw_def algebra_simps split: option.splits)
qed

subsection \<open>The server\<close>

text \<open>Memory never runs out.\<close>

definition alloc_ok :: "world \<Rightarrow> bool" where
  "alloc_ok w \<longleftrightarrow> (\<forall>t. r_ret (w_os w t) \<noteq> 0)"

lemma alloc_ok_simps [simp]: "alloc_ok w \<Longrightarrow> fst (gf_alloc w)" "alloc_ok (snd (gf_alloc w)) = alloc_ok w"
  by (simp_all add: alloc_ok_def gf_alloc_def split_def Let_def sys_def)

lemma array_push_alloc:
  assumes "array_push junk a w = (r, b, w')"
  shows "w_os w' = w_os w" "alloc_ok w \<Longrightarrow> r \<noteq> None" "w_panic w' = w_panic w"
  using assms by (auto simp: array_push_def split_def Let_def gf_alloc_def sys_def alloc_ok_def split: if_splits)

lemma part_atoi_dec:
  assumes "d = xs @ dec n @ rest" "n < 2 ^ 31"
  shows "part_atoi d (part (length xs) (length (dec n))) = Some (int n)"
proof -
  have "length (dec n) \<le> 10" unfolding dec_def using assms(2) digits_length [of 10 n 9] by simp
  then have "unat (word_of_nat (length (dec n)) :: u32) = length (dec n)" by (simp add: unat_of_nat take_bit_nat_eq_self)
  then show ?thesis using assms by (simp add: part_atoi_def atoi_dec)
qed

lemma string_copy_part:
  assumes "d = xs @ bs @ rest" "o' = length xs" "bs \<noteq> []" "0 \<notin> set bs" "rest \<noteq> []" "length bs < 2 ^ 32 - 1" "alloc_ok w"
  obtains s where "string_copy string_init (drop o' d) (word_of_nat (length bs)) w = Some (GF_OK, s, snd (gf_alloc w))" "gs_bytes s = bs"
    "gs_len s = word_of_nat (length bs)"
  using string_copy_bytes [of string_init bs rest w] assms by (auto simp: string_init_def alloc_ok_def)

lemma server_fields_text:
  fixes host :: "u8 list" and port weight :: nat
  defines "off \<equiv> length host + length (dec port) + length (dec weight) + 3"
  assumes host: "host \<noteq> []" "hd host \<noteq> 47" "0 \<notin> set host" and port: "1 \<le> port" "port \<le> 65535" and weight: "1 \<le> weight" "weight < 2 ^ 31"
    and name: "case name of None \<Rightarrow> True | Some n \<Rightarrow> n \<noteq> [] \<and> 0 \<notin> set n" and len: "length (server_text host port weight name) < 2 ^ 32 - 2"
    and alloc: "alloc_ok w" and cs: "cs_name cs = string_init" "cs_addrstr cs = string_init"
  shows "\<exists>cs' w'. server_fields value (server_text host port weight name @ [0]) (int (length host) - 1)
      \<lparr>sp_name = (case name of None \<Rightarrow> None | Some n \<Rightarrow> part off (length n)),
       sp_weight = part (length host + length (dec port) + 2) (length (dec weight)), sp_port = part (length host + 1) (length (dec port))\<rparr> cs w
      = Some (None, cs', w')
    \<and> cs_pname cs' = cs_pname cs \<and> gs_bytes (cs_addrstr cs') = host \<and> cs_port cs' = int port \<and> cs_weight cs' = int weight \<and> cs_valid cs'
    \<and> gs_bytes (cs_name cs') = (case name of Some n \<Rightarrow> n | None \<Rightarrow> if port = 11211 then host else host @ 58 # dec port)"
proof -
  let ?t = "server_text host port weight name" and ?tl = "(case name of None \<Rightarrow> [] | Some n \<Rightarrow> 32 # n) @ [0]"
  let ?d = "?t @ [0]"
  have d1: "?d = host @ 58 # dec port @ 58 # dec weight @ ?tl" by (simp add: server_text_def)
  have hd: "hd ?d \<noteq> 47" using host(1,2) by (simp add: d1)
  have dw: "?d = (host @ 58 # dec port @ [58]) @ dec weight @ ?tl" by (simp add: d1)
  have wt: "part_atoi ?d (part (length host + length (dec port) + 2) (length (dec weight))) = Some (int weight)"
    using part_atoi_dec [OF dw weight(2)] by (simp add: ac_simps)
  have dp: "?d = (host @ [58]) @ dec port @ (58 # dec weight @ ?tl)" by (simp add: d1)
  have pt: "part_atoi ?d (part (length host + 1) (length (dec port))) = Some (int port)"
    using part_atoi_dec [OF dp] port(2) by simp
  let ?addrlen = "word_of_int (int (length host) - 1 - 0 + 1) :: u32"
  have al: "?addrlen = word_of_nat (length host)" by simp
  let ?nm = "case name of Some n \<Rightarrow> n | None \<Rightarrow> if port = 11211 then host else host @ 58 # dec port"
  let ?part = "case (case name of None \<Rightarrow> None | Some n \<Rightarrow> part off (length n)) of Some p \<Rightarrow> p
     | None \<Rightarrow> (0, if int port = CONF_DEFAULT_KETAMA_PORT then ?addrlen else ?addrlen + 1 + word_of_nat (length (dec port)))"
  have lens: "length host < 2 ^ 32 - 1" "length ?nm < 2 ^ 32 - 1" using len by (auto simp: server_text_def split: option.splits)
  have nm: "\<exists>o' xs rest. ?part = (int o', word_of_nat (length ?nm)) \<and> ?d = xs @ ?nm @ rest \<and> o' = length xs \<and> rest \<noteq> [] \<and> ?nm \<noteq> [] \<and> 0 \<notin> set ?nm"
  proof (cases name)
    case None
    then show ?thesis using host port(2)
      by (intro exI [of _ 0] exI [of _ "[]"]
          exI [of _ "if port = 11211 then 58 # dec port @ 58 # dec weight @ [0] else 58 # dec weight @ [0]"]) (auto simp: server_text_def)
  next
    case (Some n)
    then show ?thesis using name
      by (intro exI [of _ off] exI [of _ "host @ 58 # dec port @ 58 # dec weight @ [32]"] exI [of _ "[0]"]) (auto simp: server_text_def off_def)
  qed
  then obtain o' xs rest where nm': "?part = (int o', word_of_nat (length ?nm))" "?d = xs @ ?nm @ rest" "o' = length xs" "rest \<noteq> []" "?nm \<noteq> []" "0 \<notin> set ?nm"
    by blast
  obtain s1 where s1: "string_copy string_init (drop o' ?d) (word_of_nat (length ?nm)) w = Some (GF_OK, s1, snd (gf_alloc w))" "gs_bytes s1 = ?nm"
    using string_copy_part [OF nm'(2,3,5,6,4) lens(2) alloc] by blast
  have da: "?d = [] @ host @ (58 # dec port @ 58 # dec weight @ ?tl)" by (simp add: d1)
  have "alloc_ok (snd (gf_alloc w))" using alloc by simp
  then obtain s2 where s2: "string_copy string_init ?d (word_of_nat (length host)) (snd (gf_alloc w)) = Some (GF_OK, s2, snd (gf_alloc (snd (gf_alloc w))))"
    "gs_bytes s2 = host"
    using string_copy_part [OF da, of 0 "snd (gf_alloc w)"] host(1,3) lens(1) by auto
  have f: "off = length host + length (dec port) + length (dec weight) + 3" by (simp add: off_def)
  show ?thesis
  proof (cases name)
    case None
    have o: "o' = 0" using nm'(1) None by auto
    have sz: "word_of_nat (length host) + 1 + word_of_nat (length (dec port)) = (word_of_nat (length (host @ 58 # dec port)) :: u32)" by simp
    show ?thesis
    proof (cases "port = 11211")
      case True
      with s1 None o show ?thesis using wt pt hd weight port cs s2
        by (simp add: server_fields_def Let_def gf_valid_port_def)
    next
      case False
      with s1 None o have "string_copy string_init ?d (word_of_nat (length host) + 1 + word_of_nat (length (dec port))) w = Some (GF_OK, s1, snd (gf_alloc w))"
        "gs_bytes s1 = host @ 58 # dec port" unfolding sz by simp_all
      with False None show ?thesis using wt pt hd weight port cs s2
        by (simp add: server_fields_def Let_def gf_valid_port_def)
    qed
  next
    case (Some n)
    have "o' = off" using nm'(1) Some by simp
    with s1 Some show ?thesis using wt pt hd weight port cs s2
      by (simp add: server_fields_def Let_def gf_valid_port_def)
  qed
qed

text \<open>A text that \<open>conf_add_server\<close> can take apart again.\<close>

definition server_text_ok :: "u8 list \<Rightarrow> nat \<Rightarrow> nat \<Rightarrow> u8 list option \<Rightarrow> bool" where
  "server_text_ok host port weight name \<longleftrightarrow> host \<noteq> [] \<and> hd host \<noteq> 47 \<and> 0 \<notin> set host
     \<and> 1 \<le> port \<and> port \<le> 65535 \<and> 1 \<le> weight \<and> weight < 2 ^ 31
     \<and> (case name of None \<Rightarrow> 32 \<notin> set host | Some n \<Rightarrow> n \<noteq> [] \<and> 0 \<notin> set n \<and> 32 \<notin> set n)
     \<and> length (server_text host port weight name) < 2 ^ 32 - 2"

text \<open>The line of a server: its text, and the value on the stack of scalars that holds it.\<close>

definition text_value :: "u8 list \<Rightarrow> gstring" where
  "text_value t = \<lparr>gs_len = word_of_nat (length t), gs_data = Some (t @ [0])\<rparr>"

lemma unat_length: "length xs < 2 ^ 32 \<Longrightarrow> unat (word_of_nat (length xs) :: u32) = length xs"
  by (simp add: unat_of_nat take_bit_nat_eq_self)

lemma uint_length: "length xs < 2 ^ 32 \<Longrightarrow> uint (word_of_nat (length xs) :: u32) = int (length xs)"
  using unat_length [of xs] by (metis of_nat_unat)

text \<open>\<open>pnamelen\<close>: the value without the name and the blank in front of it.\<close>

lemma pname_length:
  assumes "server_text_ok host port weight name"
  shows "(let namelen = (case (case name of None \<Rightarrow> None | Some n \<Rightarrow> part off (length n)) of None \<Rightarrow> 0 | Some (_, n) \<Rightarrow> n) in
      if 0 < namelen then word_of_nat (length (server_text host port weight name)) - (namelen + 1)
      else word_of_nat (length (server_text host port weight name)))
    = (word_of_nat (length (server_text host port weight None)) :: u32)"
proof (cases name)
  case None
  then show ?thesis by simp
next
  case (Some n)
  have l: "length n < 2 ^ 32" "n \<noteq> []" using assms Some by (auto simp: server_text_ok_def server_text_def)
  then have "unat (word_of_nat (length n) :: u32) \<noteq> 0" by (simp add: unat_length)
  then have nz: "0 < (word_of_nat (length n) :: u32)" by (metis unat_0 word_gt_0)
  have "length (server_text host port weight name) = length (server_text host port weight None) + (length n + 1)"
    using Some by (simp add: server_text_def)
  then show ?thesis using nz Some by (simp add: of_nat_add)
qed

lemma server_text_prefix:
  "\<exists>rest. server_text host port weight name @ [0] = server_text host port weight None @ rest \<and> rest \<noteq> []"
  by (auto simp: server_text_def split: option.splits)

lemma add_server_text:
  assumes ok: "server_text_ok host port weight name" and alloc: "alloc_ok w"
    and arr: "array_ok (cp_server cp)" "length (array_items (cp_server cp)) < 2 ^ 31 - 1"
    and top: "\<And>v. w_panic v = w_panic w \<Longrightarrow> arg_top cf v = Some (text_value (server_text host port weight name))"
  shows "\<exists>cs a w'. conf_add_server Y cf cp w = Some (None, cp\<lparr>cp_server := a\<rparr>, w')
    \<and> array_ok a \<and> array_items a = array_items (cp_server cp) @ [cs]
    \<and> gs_bytes (cs_pname cs) = server_text host port weight None
    \<and> gs_bytes (cs_name cs) = (case name of Some n \<Rightarrow> n | None \<Rightarrow> if port = 11211 then host else host @ 58 # dec port)
    \<and> gs_bytes (cs_addrstr cs) = host \<and> cs_port cs = int port \<and> cs_weight cs = int weight \<and> cs_valid cs"
proof -
  let ?t = "server_text host port weight name"
  let ?pn = "server_text host port weight None"
  obtain r a1 w1 where push: "array_push (y_server Y) (cp_server cp) w = (r, a1, w1)" by (cases "array_push (y_server Y) (cp_server cp) w")
  obtain i where r: "r = Some i" using array_push_alloc(2) [OF push alloc] by (cases r) simp_all
  note push = push [unfolded r]
  have w1: "alloc_ok w1" using alloc array_push_alloc(1) [OF push] by (simp add: alloc_ok_def)
  have st: "\<exists>b. ar_store a1 i x = Some b \<and> array_ok b \<and> array_items b = array_items (cp_server cp) @ [x]" for x
  proof -
    obtain b where b: "ar_store a1 i x = Some b" using array_push_slot [OF arr push, where x = x] by (elim conjE exE)
    with array_push_items [OF arr push b] show ?thesis by (intro exI [of _ b]) simp
  qed
  obtain a2 where a2: "ar_store a1 i conf_server_init = Some a2" using st by blast
  have again: "ar_store a2 i x = ar_store a1 i x" for x
    using a2 by (auto simp: ar_store_def split: option.splits if_splits)
  have len: "length ?t < 2 ^ 32" "length ?pn < 2 ^ 32 - 1" "length ?t \<noteq> 0"
    using ok by (auto simp: server_text_ok_def server_text_def split: option.splits)
  have tp: "arg_top cf w1 = Some (text_value ?t)" using top [of w1] array_push_alloc(3) [OF push] by simp
  have hd: "hd (?t @ [0]) \<noteq> 47" using ok by (auto simp: server_text_ok_def server_text_def hd_append)
  obtain rest where pre: "?t @ [0] = [] @ ?pn @ rest" "rest \<noteq> []" using server_text_prefix [of host port weight name] by auto
  have pn: "?pn \<noteq> []" "0 \<notin> set ?pn" using ok by (auto simp: server_text_ok_def server_text_def)
  obtain s where s: "string_copy string_init (?t @ [0]) (word_of_nat (length ?pn)) w1 = Some (GF_OK, s, snd (gf_alloc w1))" "gs_bytes s = ?pn"
    using string_copy_part [OF pre(1) _ pn pre(2) len(2) w1, of 0] by auto
  let ?off = "length host + length (dec port) + length (dec weight) + 3"
  let ?st = "\<lparr>sp_name = (case name of None \<Rightarrow> None | Some n \<Rightarrow> part ?off (length n)),
       sp_weight = part (length host + length (dec port) + 2) (length (dec weight)), sp_port = part (length host + 1) (length (dec port))\<rparr>"
  have scan: "server_scan (?t @ [0]) 0 (int (length ?t) - 1) no_parts w1 = Some (3, int (length host) - 1, ?st)"
    using ok by (intro server_scan_text) (auto simp: server_text_ok_def split: option.splits)
  have w2: "alloc_ok (snd (gf_alloc w1))" using w1 by simp
  have okD: "host \<noteq> []" "hd host \<noteq> 47" "0 \<notin> set host" "1 \<le> port" "port \<le> 65535" "1 \<le> weight" "weight < 2 ^ 31"
    "case name of None \<Rightarrow> True | Some n \<Rightarrow> n \<noteq> [] \<and> 0 \<notin> set n" "length ?t < 2 ^ 32 - 2"
    using ok by (auto simp: server_text_ok_def split: option.splits)
  obtain cs w' where f: "server_fields (text_value ?t) (?t @ [0]) (int (length host) - 1) ?st (conf_server_init\<lparr>cs_pname := s\<rparr>) (snd (gf_alloc w1)) = Some (None, cs, w')"
    "cs_pname cs = s" "gs_bytes (cs_addrstr cs) = host" "cs_port cs = int port" "cs_weight cs = int weight" "cs_valid cs"
    "gs_bytes (cs_name cs) = (case name of Some n \<Rightarrow> n | None \<Rightarrow> if port = 11211 then host else host @ 58 # dec port)"
    using server_fields_text [OF okD w2, of "conf_server_init\<lparr>cs_pname := s\<rparr>" "text_value ?t"] by (auto simp: conf_server_init_def)
  obtain a3 where a3: "ar_store a1 i cs = Some a3" "array_ok a3" "array_items a3 = array_items (cp_server cp) @ [cs]" using st by blast
  have "conf_add_server Y cf cp w = Some (None, cp\<lparr>cp_server := a3\<rparr>, w')"
    unfolding conf_add_server_def push using a2 tp hd scan s(1) f(1) again a3(1) pname_length [OF ok, of ?off] len
    by (simp add: text_value_def uint_length Let_def conf_server_init_def split: if_split_asm)
  then show ?thesis using a3 f s(2) by blast
qed

text \<open>
  C13: as long as memory does not run out, the line
  \<open>host:port:weight [name]\<close> of a server is read back as what it was written from: the array of
  the pool has one server more, valid, with the host as its address, the port and the weight as
  numbers, \<open>host:port:weight\<close> as its \<open>pname\<close>, and as its name the one given, else
  \<open>host:port\<close>, else (for port 11211) the host alone.  The host may contain colons, and blanks
  when a name follows it.
\<close>

theorem conf_server_parses:
  assumes "server_text_ok host port weight name" "alloc_ok w"
    and "array_ok (cp_server cp)" "length (array_items (cp_server cp)) < 2 ^ 31 - 1"
    and "\<And>v. w_panic v = w_panic w \<Longrightarrow> arg_top cf v = Some (text_value (server_text host port weight name))"
  shows "\<exists>cs a w'. conf_add_server Y cf cp w = Some (None, cp\<lparr>cp_server := a\<rparr>, w')
    \<and> array_ok a \<and> array_items a = array_items (cp_server cp) @ [cs]
    \<and> gs_bytes (cs_pname cs) = server_text host port weight None
    \<and> gs_bytes (cs_name cs) = (case name of Some n \<Rightarrow> n | None \<Rightarrow> if port = 11211 then host else host @ 58 # dec port)
    \<and> gs_bytes (cs_addrstr cs) = host \<and> cs_port cs = int port \<and> cs_weight cs = int weight \<and> cs_valid cs"
  using add_server_text [OF assms] .

text \<open>The line \<open>h:22:1 s\<close>.\<close>

lemma conf_server_parses_witness:
  "\<exists>cs a w'. conf_add_server (sample_yaml (Y_seq []))
       (sample_conf\<lparr>cf_arg := \<lparr>ar_nelem = 1, ar_elem = Some [text_value (server_text [104] 22 1 (Some [115]))], ar_size = 16, ar_nalloc = 1\<rparr>\<rparr>)
       (sample_conf_pool\<lparr>cp_server := array_set (Some [conf_server_init]) sizeof_conf_server 1\<rparr>) w0
     = Some (None, sample_conf_pool\<lparr>cp_server := a\<rparr>, w')
     \<and> array_items a = [cs] \<and> gs_bytes (cs_name cs) = [115] \<and> gs_bytes (cs_addrstr cs) = [104] \<and> cs_port cs = 22 \<and> cs_weight cs = 1"
proof -
  let ?cf = "sample_conf\<lparr>cf_arg := \<lparr>ar_nelem = 1, ar_elem = Some [text_value (server_text [104] 22 1 (Some [115]))], ar_size = 16, ar_nalloc = 1\<rparr>\<rparr>"
  let ?cp = "sample_conf_pool\<lparr>cp_server := array_set (Some [conf_server_init]) sizeof_conf_server 1\<rparr>"
  have d: "dec 22 = [50, 50]" "dec 1 = [49]" by (simp_all add: dec_def hex_def digits.simps)
  have ok: "server_text_ok [104] 22 1 (Some [115])" by (simp add: server_text_ok_def server_text_def d [simplified])
  have top: "arg_top ?cf v = Some (text_value (server_text [104] 22 1 (Some [115])))" for v
    by (simp add: arg_top_def array_top_def array_get_def ar_load_def)
  have al: "alloc_ok w0" by (simp add: alloc_ok_def sample_res_def)
  have ar: "array_ok (cp_server ?cp)" "array_items (cp_server ?cp) = []" by (simp_all add: array_ok_def array_items_def array_set_def)
  show ?thesis
    using conf_server_parses [OF ok al ar(1), of ?cf "sample_yaml (Y_seq [])"] ar(2) top by (auto simp del: gs_bytes_def)
qed

end
