(* ===== verification/Conf_Ready.thy ===== *)
theory Conf_Ready
  imports Conf_Parse Conf_Valid Conf_Server
begin

section \<open>A parse leaves a configuration that can be checked\<close>

text \<open>
  Every directive that succeeds keeps the pool well formed, so after a parse that succeeds the
  checks that follow have what they rely on (\<open>conf_ready\<close>).
\<close>

subsection \<open>Strings and numbers\<close>

lemma string_store_whole:
  "string_store dst src n w = Some (GF_OK, s, w') \<Longrightarrow> gs_len s = n \<and> string_whole s \<and> gs_data s \<noteq> None"
  by (auto simp: string_store_def gf_simps string_whole_def gs_bytes_def split: option.splits if_splits)

lemma string_copy_whole:
  "string_copy dst src n w = Some (GF_OK, s, w') \<Longrightarrow> gs_len s = n \<and> string_whole s \<and> gs_data s \<noteq> None"
  by (auto simp: string_copy_def dest: string_store_whole elim!: some_elims)

lemma string_duplicate_whole:
  "string_duplicate dst src w = Some (GF_OK, s, w') \<Longrightarrow> gs_len s = gs_len src \<and> string_whole s \<and> gs_data s \<noteq> None"
  by (auto simp: string_duplicate_def dest: string_store_whole elim!: some_elims)

lemma string_whole_init [simp]: "string_whole string_init"
  by (simp add: string_whole_def gs_bytes_def string_init_def)

lemma gf_atoi_loop_range: "gf_atoi_loop line n v = Some r \<Longrightarrow> v < 2 ^ 31 \<Longrightarrow> - 1 \<le> r \<and> r < 2 ^ 31"
  by (induction line n v rule: gf_atoi_loop.induct) (auto simp: Let_def split: if_splits)

lemma gf_atoi_range: "gf_atoi line n = Some r \<Longrightarrow> - 1 \<le> r \<and> r < 2 ^ 31"
  by (auto simp: gf_atoi_def dest: gf_atoi_loop_range split: if_splits)

lemma part_atoi_range: "part_atoi d p = Some r \<Longrightarrow> - 1 \<le> r \<and> r < 2 ^ 31"
  by (auto simp: part_atoi_def dest: gf_atoi_range split: option.splits)

subsection \<open>Directives\<close>

lemma server_fields_parsed:
  assumes "0 \<le> cs_port cs" "cs_port cs \<le> 65535"
  shows "post (\<lambda>(rv, cs', w'). rv = None \<longrightarrow> server_parsed cs') (server_fields value d p st cs w)"
  unfolding server_fields_def
  by (intro post_intros) (use assms in \<open>auto simp: server_parsed_def server_named_def gf_valid_port_def
      dest!: part_atoi_range string_copy_whole split: if_splits\<close>)

text \<open>A pool with at most \<open>n\<close> servers.\<close>

definition pool_within :: "nat \<Rightarrow> conf_pool \<Rightarrow> bool" where
  "pool_within n cp \<longleftrightarrow> pool_parsed cp \<and> length (array_items (cp_server cp)) \<le> n"

lemma pool_within_mono: "pool_within m cp \<Longrightarrow> m \<le> n \<Longrightarrow> pool_within n cp"
  by (simp add: pool_within_def)

lemma pool_within_upd:
  "pool_within n cp \<Longrightarrow> - 1 \<le> v \<Longrightarrow> v < 2 ^ 31 \<Longrightarrow> pool_within n (cp\<lparr>cp_num := (cp_num cp)(f := v)\<rparr>)"
  "pool_within n cp \<Longrightarrow> pool_within n (cp\<lparr>cp_hash := h\<rparr>)" "pool_within n cp \<Longrightarrow> pool_within n (cp\<lparr>cp_distribution := d\<rparr>)"
  "pool_within n cp \<Longrightarrow> pool_within n (cp\<lparr>cp_hash_tag := s\<rparr>)" "pool_within n cp \<Longrightarrow> pool_within n (cp\<lparr>cp_redis_auth := s\<rparr>)"
  "pool_within n cp \<Longrightarrow> string_whole (cl_pname l) \<Longrightarrow> pool_within n (cp\<lparr>cp_listen := l\<rparr>)"
  by (simp_all add: pool_within_def pool_parsed_def pool_named_def pool_listens_def)

lemma pool_within_listen: "pool_within n cp \<Longrightarrow> string_whole (cl_pname (cp_listen cp))"
  by (simp add: pool_within_def pool_parsed_def pool_listens_def)

lemma conf_set_num_within: "pool_within n cp \<Longrightarrow> post (\<lambda>(rv, cp', w'). rv = None \<longrightarrow> pool_within n cp') (conf_set_num f cf cp w)"
  unfolding conf_set_num_def by (intro post_intros) (auto dest!: gf_atoi_range intro: pool_within_upd)

lemma conf_set_bool_within: "pool_within n cp \<Longrightarrow> post (\<lambda>(rv, cp', w'). rv = None \<longrightarrow> pool_within n cp') (conf_set_bool f cf cp w)"
  unfolding conf_set_bool_def by (intro post_intros) (auto intro: pool_within_upd)

lemma conf_set_hash_within: "pool_within n cp \<Longrightarrow> post (\<lambda>(rv, cp', w'). rv = None \<longrightarrow> pool_within n cp') (conf_set_hash cf cp w)"
  unfolding conf_set_hash_def by (intro post_intros) (auto intro: pool_within_upd)

lemma conf_set_distribution_within:
  "pool_within n cp \<Longrightarrow> post (\<lambda>(rv, cp', w'). rv = None \<longrightarrow> pool_within n cp') (conf_set_distribution cf cp w)"
  unfolding conf_set_distribution_def by (intro post_intros) (auto intro: pool_within_upd)

lemma conf_set_hashtag_within: "pool_within n cp \<Longrightarrow> post (\<lambda>(rv, cp', w'). rv = None \<longrightarrow> pool_within n cp') (conf_set_hashtag cf cp w)"
  unfolding conf_set_hashtag_def by (intro post_intros) (auto intro: pool_within_upd)

lemma conf_set_string_within: "pool_within n cp \<Longrightarrow> post (\<lambda>(rv, cp', w'). rv = None \<longrightarrow> pool_within n cp') (conf_set_string cf cp w)"
  unfolding conf_set_string_def by (intro post_intros) (auto intro: pool_within_upd)

lemma listen_finish_within: "pool_within n cp \<Longrightarrow> post (\<lambda>(rv, cp', w'). rv = None \<longrightarrow> pool_within n cp') (listen_finish name k cp w)"
  unfolding listen_finish_def by (intro post_intros) (auto intro!: pool_within_upd dest: pool_within_listen)

lemma conf_set_listen_within: "pool_within n cp \<Longrightarrow> post (\<lambda>(rv, cp', w'). rv = None \<longrightarrow> pool_within n cp') (conf_set_listen cf cp w)"
  unfolding conf_set_listen_def
  by (intro post_intros listen_finish_within) (auto intro!: pool_within_upd dest!: string_duplicate_whole)

lemma conf_add_server_within:
  assumes "pool_within n cp" "n < 2 ^ 31 - 1"
  shows "post (\<lambda>(rv, cp', w'). rv = None \<longrightarrow> pool_within (Suc n) cp') (conf_add_server Y cf cp w)"
proof (rule postI)
  fix r assume r: "conf_add_server Y cf cp w = Some r"
  obtain rv cp' w' where [simp]: "r = (rv, cp', w')" by (cases r)
  have ok: "array_ok (cp_server cp)" "length (array_items (cp_server cp)) < 2 ^ 31 - 1" using assms by (auto simp: pool_within_def pool_parsed_def)
  {
    assume "rv = None"
    then obtain i a v where push: "array_push (y_server Y) (cp_server cp) w = (Some i, a, v)"
      using r by (cases "array_push (y_server Y) (cp_server cp) w") (auto simp: conf_add_server_def split: option.splits)
    obtain b cs c where b: "ar_store a i conf_server_init = Some b" "ar_store b i cs = Some c" "cp' = cp\<lparr>cp_server := c\<rparr>" "server_parsed cs"
      using r \<open>rv = None\<close> unfolding conf_add_server_def push
      by (auto simp: Let_def elim!: some_elims split: if_splits dest!: postD [OF server_fields_parsed, rotated 2]) (auto simp: conf_server_init_def)
    have again: "ar_store a i cs = Some c" using b(1,2) by (auto simp: ar_store_def split: option.splits if_splits)
    have "array_ok c \<and> array_items c = array_items (cp_server cp) @ [cs]" by (rule array_push_items [OF ok push again])
    then have "pool_within (Suc n) cp'" using assms(1) b(3,4) by (auto simp: pool_within_def pool_parsed_def pool_named_def pool_listens_def)
  }
  then show "(case r of (rv, cp', w') \<Rightarrow> rv = None \<longrightarrow> pool_within (Suc n) cp')" by simp
qed

lemma cmd_set_within:
  assumes "pool_within n cp" "n < 2 ^ 31 - 1"
  shows "post (\<lambda>(rv, cp', w'). rv = None \<longrightarrow> pool_within (Suc n) cp') (cmd_set cmd Y cf cp w)"
proof -
  have up: "post (\<lambda>(rv, cp', w'). rv = None \<longrightarrow> pool_within n cp') m \<Longrightarrow> post (\<lambda>(rv, cp', w'). rv = None \<longrightarrow> pool_within (Suc n) cp') m"
    for m :: "(string option \<times> conf_pool \<times> world) option"
    unfolding post_def by (auto intro: pool_within_mono)
  show ?thesis
    using assms by (cases cmd) (simp_all add: cmd_set_def up conf_set_num_within conf_set_bool_within conf_set_hash_within conf_set_distribution_within
      conf_set_hashtag_within conf_set_string_within conf_set_listen_within conf_add_server_within)
qed

lemma conf_pool_init_within:
  assumes "gs_len name \<noteq> 0" "conf_pool_init Y cp name w = Some (GF_OK, cp', w')"
  shows "pool_within 0 cp'"
proof -
  obtain s v a where s: "string_duplicate string_init name w = Some (GF_OK, s, v)"
    and a: "array_init (y_server Y) array_null 8 sizeof_conf_server v = Some (GF_OK, a, w')"
    and cp': "cp' = (conf_pool_unset cp)\<lparr>cp_name := s, cp_server := a\<rparr>"
    using assms(2) by (auto simp: conf_pool_init_def conf_pool_unset_def Let_def elim!: some_elims split: if_splits)
  have "array_ok a \<and> array_items a = []"
    using a by (auto simp: array_init_def Let_def split_def array_ok_def array_set_def array_items_def elim!: some_elims split: if_splits)
  then show ?thesis using string_duplicate_whole [OF s] assms(1) unfolding cp'
    by (simp add: pool_within_def pool_parsed_def pool_named_def pool_listens_def conf_pool_unset_def)
qed

subsection \<open>The stack and the pools\<close>

definition arg_ok :: "gstring \<Rightarrow> bool" where
  "arg_ok s \<longleftrightarrow> string_whole s \<and> gs_len s \<noteq> 0 \<and> gs_data s \<noteq> None"

text \<open>\<open>k\<close> scalars on the stack and \<open>m\<close> pools with at most \<open>n\<close> servers each.\<close>

definition building :: "nat \<Rightarrow> nat \<Rightarrow> nat \<Rightarrow> conf \<Rightarrow> bool" where
  "building k m n cf \<longleftrightarrow> array_ok (cf_arg cf) \<and> length (array_items (cf_arg cf)) = k \<and> (\<forall>s\<in>set (array_items (cf_arg cf)). arg_ok s)
     \<and> array_ok (cf_pool cf) \<and> length (array_items (cf_pool cf)) = m \<and> (\<forall>cp\<in>set (array_items (cf_pool cf)). pool_within n cp)"

lemma building_mono: "building k m n cf \<Longrightarrow> n \<le> n' \<Longrightarrow> building k m n' cf"
  by (auto simp: building_def intro: pool_within_mono)

lemma ar_store_twice: "ar_store a i x = Some b \<Longrightarrow> ar_store b i y = ar_store a i y"
  by (auto simp: ar_store_def split: option.splits if_splits)

lemma push_building:
  assumes "building k m n cf" "k < 2 ^ 31 - 1" "conf_push_scalar Y s cf w = Some (GF_OK, cf', w')"
  shows "building (Suc k) m n cf'"
proof -
  obtain i a v where push: "array_push (y_string Y) (cf_arg cf) w = (Some i, a, v)"
    using assms(3) by (cases "array_push (y_string Y) (cf_arg cf) w") (auto simp: conf_push_scalar_def Let_def split: if_splits option.splits)
  obtain b x u c where b: "ar_store a i string_init = Some b" "string_copy string_init (s @ [0]) (word_of_nat (length s)) v = Some (GF_OK, x, u)"
    "ar_store b i x = Some c" "cf' = cf\<lparr>cf_arg := c\<rparr>" "(word_of_nat (length s) :: u32) \<noteq> 0"
    using assms(3) unfolding conf_push_scalar_def push by (auto simp: Let_def elim!: some_elims split: if_splits)
  have ok: "array_ok (cf_arg cf)" "length (array_items (cf_arg cf)) < 2 ^ 31 - 1" using assms(1,2) by (simp_all add: building_def)
  have "array_ok c \<and> array_items c = array_items (cf_arg cf) @ [x]"
    by (rule array_push_items [OF ok push b(3) [unfolded ar_store_twice [OF b(1)]]])
  then show ?thesis using assms(1) string_copy_whole [OF b(2)] b(4,5) by (auto simp: building_def arg_ok_def)
qed

lemma pop_building:
  assumes "building (Suc k) m n cf" "conf_pop_scalar cf w = Some cf'"
  shows "building k m n cf'"
proof -
  have "array_items (cf_arg cf) \<noteq> []" "array_ok (cf_arg cf)" using assms(1) by (auto simp: building_def)
  from array_pop_items [OF this(2,1), of w] obtain a where a: "array_pop (cf_arg cf) w = Some (k, a)" "array_ok a" "array_items a = butlast (array_items (cf_arg cf))"
    using assms(1) by (auto simp: building_def)
  obtain v c where c: "ar_store a k v = Some c" "cf' = cf\<lparr>cf_arg := c\<rparr>"
    using assms(2) a(1) by (auto simp: conf_pop_scalar_def elim!: some_elims)
  have l: "length (array_items a) = k" using a(3) assms(1) by (simp add: building_def)
  then have n: "unat (ar_nelem a) = k" using array_ok_length [OF a(2)] by simp
  have "array_ok c \<and> array_items c = array_items a"
    using c(1) a(2) n by (auto simp: ar_store_def array_ok_def array_items_def split: option.splits if_splits)
  then show ?thesis using assms(1) a(3) l c(2) by (auto simp: building_def dest: in_set_butlastD)
qed

lemma handler_building:
  assumes "building k m n cf" "2 \<le> k" "i < m" "n < 2 ^ 31 - 1" "conf_handler Y cf (Some i) w = Some (GF_OK, cf', w')"
  shows "building k m (Suc n) cf'"
proof -
  let ?cp = "array_items (cf_pool cf) ! i"
  have k: "array_n (cf_arg cf) \<noteq> 1" using assms(1,2) array_ok_length [of "cf_arg cf"] by (auto simp: building_def array_n_def)
  have cp: "ar_load (cf_pool cf) i = Some ?cp" "pool_within n ?cp" using assms(1,3) by (auto simp: building_def array_load_items)
  obtain cmd cp' u pools where c: "cmd_set cmd Y cf ?cp w = Some (None, cp', u)" "ar_store (cf_pool cf) i cp' = Some pools" "cf' = cf\<lparr>cf_pool := pools\<rparr>"
    using assms(5) k cp(1) by (auto simp: conf_handler_def Let_def elim!: some_elims split: if_splits option.splits)
  have w: "pool_within (Suc n) cp'" using postD [OF cmd_set_within [OF cp(2) assms(4)] c(1)] by simp
  have "array_ok pools \<and> array_items pools = (array_items (cf_pool cf))[i := cp']"
    using array_store_items [of "cf_pool cf" i cp'] assms(1,3) c(2) by (auto simp: building_def)
  then show ?thesis using assms(1) w c(3)
    by (auto simp: building_def dest!: set_update_subset_insert [THEN subsetD] intro: pool_within_mono)
qed

lemma new_pool_building:
  assumes "building 1 m n cf" "m < 2 ^ 31 - 1" "array_push (y_pool Y) (cf_pool cf) w = (Some i, pools, v)"
    and "conf_handler Y (cf\<lparr>cf_pool := pools\<rparr>) (Some i) v = Some (GF_OK, cf', w')"
  shows "building 1 (Suc m) n cf' \<and> i = m"
proof -
  have n: "ar_nelem (cf_arg cf) = 1" using assms(1) array_ok_length [of "cf_arg cf"] by (simp add: building_def word_unat_eq_iff)
  have i0: "array_items (cf_arg cf) = [array_items (cf_arg cf) ! 0]" using assms(1) by (cases "array_items (cf_arg cf)") (auto simp: building_def)
  have "ar_load (cf_arg cf) 0 = Some (array_items (cf_arg cf) ! 0)" using assms(1) by (intro array_load_items) (auto simp: building_def)
  then have top: "arg_top (cf\<lparr>cf_pool := pools\<rparr>) v = Some (array_items (cf_arg cf) ! 0)"
    using n by (simp add: arg_top_def array_top_def array_get_def)
  obtain cp cp' u b where c: "conf_pool_init Y cp (array_items (cf_arg cf) ! 0) v = Some (GF_OK, cp', u)" "ar_store pools i cp' = Some b" "cf' = cf\<lparr>cf_pool := b\<rparr>"
    using assms(4) n top by (auto simp: conf_handler_def array_n_def elim!: some_elims)
  have "arg_ok (array_items (cf_arg cf) ! 0)" using assms(1) by (simp add: building_def)
  then have "pool_within n cp'" using conf_pool_init_within [OF _ c(1)] by (auto simp: arg_ok_def intro: pool_within_mono)
  moreover have ok: "array_ok (cf_pool cf)" "length (array_items (cf_pool cf)) < 2 ^ 31 - 1" using assms(1,2) by (simp_all add: building_def)
  moreover have "array_ok b \<and> array_items b = array_items (cf_pool cf) @ [cp']" by (rule array_push_items [OF ok assms(3) c(2)])
  moreover have "i = m" using array_push_slot [OF ok assms(3)] assms(1) by (simp add: building_def)
  ultimately show ?thesis using assms(1) c(3) by (auto simp: building_def)
qed

subsection \<open>The walk\<close>

text \<open>A step that succeeds makes at most one more server.\<close>

lemma walk_element_building:
  assumes "building k m n cf" "1 \<le> k" "k < 2 ^ 31 - 1" "i < m" "n < 2 ^ 31 - 1" "walk_element Y (Some i) s cf w = Some (GF_OK, cf', w')"
  shows "building k m (Suc n) cf'"
proof -
  obtain a u b v where "conf_push_scalar Y s cf w = Some (GF_OK, a, u)" "conf_handler Y a (Some i) u = Some (GF_OK, b, v)" "conf_pop_scalar b v = Some cf'"
    using assms(6) by (auto simp: walk_element_def elim!: some_elims split: if_splits)
  then show ?thesis using push_building [OF assms(1,3)] handler_building [of "Suc k" m n a i] pop_building [of k m "Suc n" b] assms(2,4,5) by auto
qed

lemma walk_elements_building:
  assumes "building k m n cf" "1 \<le> k" "k < 2 ^ 31 - 1" "i < m" "n + length ns < 2 ^ 31" "walk_elements Y (Some i) ns cf w = Some (GF_OK, cf', w')"
  shows "building k m (n + length ns) cf'"
  using assms
proof (induction ns arbitrary: n cf w)
  case (Cons x ns)
  obtain a u where "walk_element Y (Some i) (scalar_of x) cf w = Some (GF_OK, a, u)" "walk_elements Y (Some i) ns a u = Some (GF_OK, cf', w')"
    using Cons.prems(6) by (auto elim!: some_elims split: if_splits)
  then show ?case using walk_element_building [OF Cons.prems(1-4)] Cons.IH [of "Suc n" a u] Cons.prems by auto
qed simp

definition value_size :: "yaml_node \<Rightarrow> nat" where
  "value_size v = (case v of Y_seq ns \<Rightarrow> length ns | _ \<Rightarrow> 1)"

lemma walk_directive_building:
  assumes "building k m n cf" "1 \<le> k" "k < 2 ^ 31 - 2" "i < m" "n + value_size (snd kv) < 2 ^ 31"
    and "walk_directive Y (Some i) kv cf w = Some (GF_OK, cf', w')"
  shows "building k m (n + value_size (snd kv)) cf'"
proof -
  obtain a u where a: "conf_push_scalar Y (scalar_of (fst kv)) cf w = Some (GF_OK, a, u)"
    using assms(6) by (auto simp: walk_directive_def elim!: some_elims split: if_splits)
  have ba: "building (Suc k) m n a" using push_building [OF assms(1) _ a] assms(3) by simp
  show ?thesis
  proof (cases "\<exists>ns. snd kv = Y_seq ns")
    case True
    then obtain ns where ns: "snd kv = Y_seq ns" by blast
    obtain b v where b: "walk_elements Y (Some i) ns a u = Some (GF_OK, b, v)" "conf_pop_scalar b v = Some cf'"
      using assms(6) a ns by (auto simp: walk_directive_def elim!: some_elims split: if_splits)
    have "building (Suc k) m (n + length ns) b"
      by (rule walk_elements_building [OF ba _ _ assms(4) _ b(1)]) (use assms(3,5) ns in \<open>simp_all add: value_size_def\<close>)
    from pop_building [OF this b(2)] ns show ?thesis by (simp add: value_size_def)
  next
    case False
    then have "walk_value Y (Some i) (scalar_of (snd kv)) a u = Some (GF_OK, cf', w')" "value_size (snd kv) = 1"
      using assms(6) a by (cases "snd kv"; simp add: walk_directive_def value_size_def)+
    then obtain b v c d e where b: "conf_push_scalar Y (scalar_of (snd kv)) a u = Some (GF_OK, b, v)" "conf_handler Y b (Some i) v = Some (GF_OK, c, d)"
      "conf_pop_scalar c d = Some e" "conf_pop_scalar e d = Some cf'"
      by (auto simp: walk_value_def elim!: some_elims split: if_splits)
    have "building (Suc (Suc k)) m n b" using push_building [OF ba _ b(1)] assms(3) by simp
    then have "building (Suc (Suc k)) m (Suc n) c" using handler_building [OF _ _ assms(4) _ b(2)] assms(5) \<open>value_size (snd kv) = 1\<close> by simp
    from pop_building [OF pop_building [OF this b(3)] b(4)] \<open>value_size (snd kv) = 1\<close> show ?thesis by simp
  qed
qed

definition pool_size :: "(yaml_node \<times> yaml_node) list \<Rightarrow> nat" where
  "pool_size kvs = sum_list (map (\<lambda>kv. value_size (snd kv)) kvs)"

lemma walk_directives_building:
  assumes "building k m n cf" "1 \<le> k" "k < 2 ^ 31 - 2" "i < m" "n + pool_size kvs < 2 ^ 31" "walk_directives Y (Some i) kvs cf w = Some (GF_OK, cf', w')"
  shows "building k m (n + pool_size kvs) cf'"
  using assms
proof (induction kvs arbitrary: n cf w)
  case Nil
  then show ?case by (simp add: pool_size_def)
next
  case (Cons kv kvs)
  obtain a u where a: "walk_directive Y (Some i) kv cf w = Some (GF_OK, a, u)" "walk_directives Y (Some i) kvs a u = Some (GF_OK, cf', w')"
    using Cons.prems(6) by (auto elim!: some_elims split: if_splits)
  have z: "pool_size (kv # kvs) = value_size (snd kv) + pool_size kvs" by (simp add: pool_size_def)
  have "building k m (n + value_size (snd kv)) a"
    by (rule walk_directive_building [OF Cons.prems(1-4) _ a(1)]) (use Cons.prems(5) z in simp)
  from Cons.IH [OF this Cons.prems(2-4) _ a(2)] Cons.prems(5) z show ?case by (simp add: ac_simps)
qed

definition entries_of :: "yaml_node \<Rightarrow> (yaml_node \<times> yaml_node) list" where
  "entries_of v = (case v of Y_map kvs \<Rightarrow> kvs | _ \<Rightarrow> [])"

text \<open>The most values one pool of the file has.\<close>

definition file_size :: "(yaml_node \<times> yaml_node) list \<Rightarrow> nat" where
  "file_size ps = sum_list (map (\<lambda>p. Suc (pool_size (entries_of (snd p)))) ps)"

lemma walk_pools_building:
  assumes "building 0 m n cf" "m + n + length ps + file_size ps < 2 ^ 31 - 1" "walk_pools Y ps cf w = Some (GF_OK, cf', w')"
  shows "building 0 (m + length ps) (n + file_size ps) cf'"
  using assms
proof (induction ps arbitrary: m n cf w)
  case Nil
  then show ?case by (simp add: file_size_def)
next
  case (Cons p ps)
  let ?kvs = "entries_of (snd p)"
  have z: "file_size (p # ps) = Suc (pool_size ?kvs) + file_size ps" by (simp add: file_size_def)
  obtain d a u where a: "walk_pool Y p cf w = Some (GF_OK, d, a, u)" "walk_pools Y ps a u = Some (GF_OK, cf', w')"
    using Cons.prems(3) by (auto elim!: some_elims split: if_splits)
  obtain b v where b: "conf_push_scalar Y (scalar_of (fst p)) cf w = Some (GF_OK, b, v)"
    using a(1) by (auto simp: walk_pool_def elim!: some_elims split: if_splits)
  obtain i pools x where push: "array_push (y_pool Y) (cf_pool b) v = (Some i, pools, x)"
    using a(1) b by (cases "array_push (y_pool Y) (cf_pool b) v") (auto simp: walk_pool_def split: option.splits)
  obtain c y e z' where c: "conf_handler Y (b\<lparr>cf_pool := pools\<rparr>) (Some i) x = Some (GF_OK, c, y)"
    "walk_directives Y (Some i) ?kvs c y = Some (GF_OK, e, z')" "conf_pop_scalar e z' = Some a"
    using a(1) b push by (auto simp: walk_pool_def entries_of_def elim!: some_elims split: if_splits)
  have "building 1 m n b" using push_building [OF Cons.prems(1) _ b] by simp
  then have bc: "building 1 (Suc m) n c" "i = m" using new_pool_building [OF _ _ push c(1)] Cons.prems(2) z by simp_all
  have "building 1 (Suc m) (n + pool_size ?kvs) e"
    by (rule walk_directives_building [OF bc(1) _ _ _ _ c(2)]) (use Cons.prems(2) z bc(2) in simp_all)
  then have "building 0 (Suc m) (n + pool_size ?kvs) a" using pop_building [OF _ c(3)] by simp
  then have "building 0 (Suc m) (n + Suc (pool_size ?kvs)) a" by (rule building_mono) simp
  from Cons.IH [OF this _ a(2)] Cons.prems(2) z show ?case by (simp add: ac_simps)
qed

subsection \<open>A parse\<close>

text \<open>The flags the parse does not touch.\<close>

definition flags :: "conf \<Rightarrow> bool \<times> bool" where
  "flags cf = (cf_sound cf, cf_valid cf)"

lemma flags_upd [simp]:
  "flags (cf\<lparr>cf_arg := a\<rparr>) = flags cf" "flags (cf\<lparr>cf_pool := b\<rparr>) = flags cf" "flags (cf\<lparr>cf_depth := d\<rparr>) = flags cf"
  "flags (cf\<lparr>cf_seq := s\<rparr>) = flags cf" "flags (cf\<lparr>cf_parsed := s\<rparr>) = flags cf"
  "flags (conf_event_done cf) = flags cf" "flags (conf_yaml_deinit cf) = flags cf"
  by (simp_all add: flags_def conf_event_done_def conf_yaml_deinit_def)

lemma flags_steps:
  "post (\<lambda>(st, cf', w'). flags cf' = flags cf) (conf_yaml_init cf w)"
  "post (\<lambda>(st, cf'). flags cf' = flags cf) (conf_event_next Y cf w)"
  "post (\<lambda>cf'. flags cf' = flags cf) (conf_pop_scalar cf w)"
  unfolding conf_yaml_init_def conf_event_next_def conf_pop_scalar_def
  by (auto simp: flags_def split: option.splits intro!: post_intros)

lemma flags_push: "post (\<lambda>(st, cf', w'). flags cf' = flags cf) (conf_push_scalar Y s cf w)"
  unfolding conf_push_scalar_def by (intro post_intros) auto

lemma flags_handler: "post (\<lambda>(st, cf', w'). flags cf' = flags cf) (conf_handler Y cf d w)"
  unfolding conf_handler_def by (intro post_intros) auto

lemmas flags_dest = flags_steps [THEN postD] flags_push [THEN postD] flags_handler [THEN postD]

lemma flags_event: "post (\<lambda>(s, cf', w'). flags cf' = flags cf) (conf_parse_event Y cf d w)"
proof (rule postI)
  fix r assume r: "conf_parse_event Y cf d w = Some r"
  then show "case r of (s, cf', w') \<Rightarrow> flags cf' = flags cf"
    by (cases "cf_event cf") (fastforce simp: conf_parse_event_def Let_def elim!: some_elims dest!: flags_dest
        split: if_splits option.splits prod.splits)+
qed

lemma flags_action: "post (\<lambda>(st, cf', w'). flags cf' = flags cf) (conf_parse_action Y s cf w)"
  unfolding conf_parse_action_def
  by (intro post_intros) (auto dest!: flags_dest split: if_splits elim!: some_elims)

lemma flags_core: "post (\<lambda>(st, cf', w'). flags cf' = flags cf) (conf_parse_core k Y cf d w)"
proof (induction k arbitrary: cf d w)
  case 0
  then show ?case by (simp add: post_def)
next
  case (Suc k)
  show ?case
    unfolding conf_parse_core.simps
    by (intro post_intros)
      (auto dest!: flags_dest flags_event [THEN postD] flags_action [THEN postD] Suc [THEN postD] simp: post_def)
qed

lemma flags_loops:
  "begin_loop k Y cf w = Some (st, cf', w') \<Longrightarrow> flags cf' = flags cf" "end_loop k Y cf w = Some (st', cf'') \<Longrightarrow> flags cf'' = flags cf"
proof -
  show "begin_loop k Y cf w = Some (st, cf', w') \<Longrightarrow> flags cf' = flags cf"
  proof (induction k arbitrary: cf)
    case (Suc k)
    from Suc.prems show ?case
      by (auto elim!: some_elims dest!: flags_dest split: if_splits yaml_event.splits dest!: Suc.IH)
  qed simp
  show "end_loop k Y cf w = Some (st', cf'') \<Longrightarrow> flags cf'' = flags cf"
  proof (induction k arbitrary: cf)
    case (Suc k)
    from Suc.prems show ?case
      by (auto elim!: some_elims dest!: flags_dest split: if_splits yaml_event.splits dest!: Suc.IH)
  qed simp
qed

lemma parse_flags:
  assumes "conf_parse fuel Y cf w = Some (GF_OK, cf', w')"
  shows "cf_sound cf' = cf_sound cf \<and> cf_valid cf' = cf_valid cf \<and> cf_parsed cf'"
proof -
  obtain a u b v c where a: "conf_begin_parse fuel Y cf w = Some (GF_OK, a, u)" and b: "conf_parse_core fuel Y a None u = Some (GF_OK, b, v)"
    and c: "conf_end_parse fuel Y b v = Some (GF_OK, c)" and cf': "cf' = c\<lparr>cf_parsed := True\<rparr>"
    using assms by (auto simp: conf_parse_def elim!: some_elims split: if_splits)
  have "flags a = flags cf" using a by (auto simp: conf_begin_parse_def elim!: some_elims split: if_splits dest!: flags_dest flags_loops(1))
  moreover have "flags b = flags a" using postD [OF flags_core b] by simp
  moreover have "flags c = flags b" using c by (auto simp: conf_end_parse_def elim!: some_elims dest!: flags_loops(2))
  ultimately show ?thesis using cf' by (simp add: flags_def)
qed

text \<open>
  C11: when the parse of a file of the checked structure succeeds, what it
  leaves is what the checks after it rely on: one pool for every key at the root, each with a
  name, at least no invalid server (every server has a name, a weight of at least 1 and a port in
  range) and only numbers the directives accept, and an empty stack.
\<close>

theorem parse_leaves_ready:
  assumes "reads Y (stream_events (Y_map ps))" "conf_shape (Y_map ps)" "length (stream_events (Y_map ps)) \<le> fuel"
    and "cf_sound cf" "\<not> cf_parsed cf" "\<not> cf_valid cf" "cf_depth cf = 0" "\<not> cf_valid_event cf" "\<not> cf_seq cf"
    and "building 0 0 0 cf" "length ps + file_size ps < 2 ^ 31 - 1"
    and "conf_yaml_init cf w = Some (GF_OK, cf1, w1)" "conf_parse fuel Y cf w = Some (GF_OK, cf', w')"
  shows "conf_ready cf' \<and> length (array_items (cf_pool cf')) = length ps \<and> array_items (cf_arg cf') = []"
proof -
  have n: "array_n (cf_arg cf) = 0" using assms(10) array_ok_length [of "cf_arg cf"] by (auto simp: building_def array_n_def word_unat_eq_iff)
  have "map_option outcome (walk_pools Y ps cf w1) = Some (outcome (GF_OK, cf', w'))"
    using conf_parse_walked [OF assms(1-5,7-9) n assms(12)] assms(13) by simp
  then obtain c where c: "walk_pools Y ps cf w1 = Some (GF_OK, c, w')" "cf_arg c = cf_arg cf'" "cf_pool c = cf_pool cf'"
    by (auto simp: outcome_def split: prod.splits)
  from walk_pools_building [OF assms(10) _ c(1)] assms(11) have "building 0 (length ps) (file_size ps) cf'"
    using c(2,3) by (simp add: building_def)
  then show ?thesis using parse_flags [OF assms(13)] assms(4,6)
    by (auto simp: building_def conf_ready_def pool_within_def)
qed

lemma sample_parses:
  "map_option fst (conf_parse 20 (sample_yaml (Y_map sample_pools)) (sample_conf\<lparr>cf_sound := True\<rparr>) w0) = Some GF_OK"
  by code_simp

lemma parse_leaves_ready_witness:
  "\<exists>cf' w'. conf_parse 20 (sample_yaml (Y_map sample_pools)) (sample_conf\<lparr>cf_sound := True\<rparr>) w0 = Some (GF_OK, cf', w')
    \<and> conf_ready cf' \<and> length (array_items (cf_pool cf')) = 1"
proof -
  let ?cf = "sample_conf\<lparr>cf_sound := True\<rparr>"
  obtain cf' w' where p: "conf_parse 20 (sample_yaml (Y_map sample_pools)) ?cf w0 = Some (GF_OK, cf', w')"
    using sample_parses by auto
  obtain cf1 w1 where i: "conf_yaml_init ?cf w0 = Some (GF_OK, cf1, w1)" using sample_init by blast
  have b: "building 0 0 0 ?cf" by (simp add: building_def sample_conf_def array_ok_def array_set_def array_items_def)
  have z: "length sample_pools + file_size sample_pools < 2 ^ 31 - 1"
    by (simp add: file_size_def pool_size_def entries_of_def value_size_def sample_pools_def)
  have "conf_ready cf' \<and> length (array_items (cf_pool cf')) = length sample_pools \<and> array_items (cf_arg cf') = []"
    by (rule parse_leaves_ready [OF sample_reads sample_shape _ _ _ _ _ _ _ b z i p])
      (simp_all add: sample_length, simp_all add: sample_conf_def)
  with p show ?thesis by (auto simp: sample_pools_def)
qed

end
