(* ===== verification/Conf_Pools.thy ===== *)
theory Conf_Pools
  imports Conf_Valid Server
begin

section \<open>From a configuration to pools and servers (\<open>gf_conf.c\<close>, \<open>gf_server.c\<close>)\<close>

text \<open>
  \<open>server_pool_init\<close> transforms every pool of the configuration, counts the server connections
  and builds the distributions.  The arrays it allocates have exactly the room they need, so
  \<open>array_push\<close> appends; a server and a pool are known by their number, which is also what the
  pointers \<open>owner\<close> and \<open>ctx\<close> say, so setting those changes nothing here.
\<close>

abbreviation (input) sizeof_server :: u64 where "sizeof_server \<equiv> 232"
abbreviation (input) sizeof_server_pool :: u64 where "sizeof_server_pool \<equiv> 368"

text \<open>\<open>array_idx\<close> of the element number \<open>i\<close> of an array of elements of one size.\<close>

definition elem_idx :: "u64 \<Rightarrow> nat \<Rightarrow> world \<Rightarrow> u32 option" where
  "elem_idx size_e i w = array_idx (array_set (None :: unit list option) size_e 0) (unat size_e * i) w"

subsection \<open>Servers\<close>

definition conf_server_each_transform :: "nat \<Rightarrow> conf_server \<Rightarrow> world \<Rightarrow> (int \<times> world) option" where
  "conf_server_each_transform p cs w = do {
     ASSERT (cs_valid cs) w;
     idx \<leftarrow> elem_idx sizeof_server (length (p_server (pool w p))) w;
     let s = \<lparr>s_idx = idx, s_pname = gs_bytes (cs_pname cs), s_name = gs_bytes (cs_name cs),
        s_addrstr = gs_bytes (cs_addrstr cs), s_port = word_of_int (cs_port cs), s_weight = word_of_int (cs_weight cs),
        s_info = cs_info cs, s_ns_conn_q = 0, s_conn_q = [], s_next_retry = 0, s_failure_count = 0\<rparr>;
     Some (GF_OK, upd_pool p (\<lambda>sp. sp\<lparr>p_server := p_server sp @ [s]\<rparr>) w) }"

definition server_each_set_owner :: "nat \<Rightarrow> nat \<Rightarrow> world \<Rightarrow> (int \<times> world) option" where
  "server_each_set_owner p s w = Some (GF_OK, w)"

primrec pop_servers :: "nat \<Rightarrow> nat \<Rightarrow> world \<Rightarrow> world option" where
  "pop_servers 0 p w = Some w"
| "pop_servers (Suc k) p w = do {
     let s = last (p_server (pool w p));
     let w = upd_pool p (\<lambda>sp. sp\<lparr>p_server := butlast (p_server sp)\<rparr>) w;
     ASSERT (s_conn_q s = [] \<and> s_ns_conn_q s = 0) w;
     pop_servers k p w }"

definition server_deinit :: "nat \<Rightarrow> world \<Rightarrow> world option" where
  "server_deinit p w = do {
     w \<leftarrow> pop_servers (length (p_server (pool w p))) p w;
     ASSERT (p_server (pool w p) = []) w;
     Some w }"

definition server_init :: "nat \<Rightarrow> conf_server array \<Rightarrow> world \<Rightarrow> (int \<times> world) option" where
  "server_init p a w = do {
     let nserver = array_n a;
     ASSERT (nserver \<noteq> 0) w;
     ASSERT (p_server (pool w p) = []) w;
     let (ok, w) = gf_alloc w;
     if \<not> ok then Some (GF_ENOMEM, w)
     else do {
       (status, w) \<leftarrow> Arrays.array_each a (\<lambda>i w. do { cs \<leftarrow> ar_load a i; conf_server_each_transform p cs w }) w w;
       if status \<noteq> GF_OK then do { w \<leftarrow> server_deinit p w; Some (status, w) }
       else do {
         ASSERT (length (p_server (pool w p)) = unat nserver) w;
         (status, w) \<leftarrow> server_each p (server_each_set_owner p) w;
         if status \<noteq> GF_OK then do { w \<leftarrow> server_deinit p w; Some (status, w) }
         else Some (GF_OK, w) } } }"

subsection \<open>Pools\<close>

text \<open>\<open>cp->hash\<close> indexes the table of hashers; a hash that was never set is not an index.\<close>

definition pool_of :: "u32 \<Rightarrow> hash_type \<Rightarrow> dist_type \<Rightarrow> conf_pool \<Rightarrow> server_pool" where
  "pool_of idx hash dtype cp = \<lparr>p_idx = idx, p_p_conn = None, p_nc_conn_q = 0, p_c_conn_q = [], p_server = [],
     p_ncontinuum = 0, p_nserver_continuum = 0, p_continuum = None, p_nlive_server = 0, p_next_rebuild = 0,
     p_name = gs_bytes (cp_name cp), p_addrstr = gs_bytes (cl_pname (cp_listen cp)), p_port = word_of_int (cl_port (cp_listen cp)),
     p_info = cl_info (cp_listen cp), p_perm = cl_perm (cp_listen cp), p_dist_type = dtype, p_key_hash_type = hash,
     p_hash_tag = gs_bytes (cp_hash_tag cp), p_timeout = cp_num cp N_timeout, p_backlog = cp_num cp N_backlog,
     p_redis_db = cp_num cp N_redis_db, p_client_connections = word_of_int (cp_num cp N_client_connections),
     p_server_connections = word_of_int (cp_num cp N_server_connections),
     p_server_retry_timeout = cp_num cp N_server_retry_timeout * 1000,
     p_server_failure_limit = word_of_int (cp_num cp N_server_failure_limit), p_redis_auth = gs_bytes (cp_redis_auth cp),
     p_require_auth = (0 < gs_len (cp_redis_auth cp)), p_auto_eject_hosts = (cp_num cp N_auto_eject_hosts \<noteq> 0),
     p_preconnect = (cp_num cp N_preconnect \<noteq> 0), p_redis = (cp_num cp N_redis \<noteq> 0),
     p_tcpkeepalive = (cp_num cp N_tcpkeepalive \<noteq> 0), p_reuseport = (cp_num cp N_reuseport \<noteq> 0)\<rparr>"

definition conf_pool_each_transform :: "conf_pool \<Rightarrow> world \<Rightarrow> (int \<times> world) option" where
  "conf_pool_each_transform cp w = do {
     ASSERT (cp_valid cp) w;
     let p = w_npool w;
     idx \<leftarrow> elem_idx sizeof_server_pool p w;
     hash \<leftarrow> cp_hash cp;
     dtype \<leftarrow> cp_distribution cp;
     let w = w\<lparr>w_npool := Suc p, w_pools := (w_pools w)(p := pool_of idx hash dtype cp)\<rparr>;
     (status, w) \<leftarrow> server_init p (cp_server cp) w;
     if status \<noteq> GF_OK then Some (status, w) else Some (GF_OK, w) }"

definition server_pool_each_set_owner :: "nat \<Rightarrow> world \<Rightarrow> (int \<times> world) option" where
  "server_pool_each_set_owner p w = Some (GF_OK, w)"

primrec pop_pools :: "nat \<Rightarrow> world \<Rightarrow> world option" where
  "pop_pools 0 w = Some w"
| "pop_pools (Suc k) w = do {
     let w = w\<lparr>w_npool := w_npool w - 1\<rparr>;
     let p = w_npool w;
     ASSERT (p_p_conn (pool w p) = None) w;
     ASSERT (p_c_conn_q (pool w p) = [] \<and> p_nc_conn_q (pool w p) = 0) w;
     let w = (if p_continuum (pool w p) \<noteq> None
          then upd_pool p (\<lambda>sp. sp\<lparr>p_ncontinuum := 0, p_nserver_continuum := 0, p_nlive_server := 0\<rparr>) w else w);
     w \<leftarrow> server_deinit p w;
     pop_pools k w }"

definition server_pool_deinit :: "world \<Rightarrow> world option" where
  "server_pool_deinit w = do {
     w \<leftarrow> pop_pools (w_npool w) w;
     ASSERT (w_npool w = 0) w;
     Some w }"

definition server_pool_init :: "conf_pool array \<Rightarrow> world \<Rightarrow> (int \<times> world) option" where
  "server_pool_init a w = do {
     let npool = array_n a;
     ASSERT (npool \<noteq> 0) w;
     ASSERT (w_npool w = 0) w;
     let (ok, w) = gf_alloc w;
     if \<not> ok then Some (GF_ENOMEM, w)
     else do {
       (status, w) \<leftarrow> Arrays.array_each a (\<lambda>i w. do { cp \<leftarrow> ar_load a i; conf_pool_each_transform cp w }) w w;
       if status \<noteq> GF_OK then do { w \<leftarrow> server_pool_deinit w; Some (status, w) }
       else do {
         ASSERT (w_npool w = unat npool) w;
         (status, w) \<leftarrow> pool_each server_pool_each_set_owner w;
         if status \<noteq> GF_OK then do { w \<leftarrow> server_pool_deinit w; Some (status, w) }
         else do {
           let w = w\<lparr>w_max_nsconn := 0\<rparr>;
           (status, w) \<leftarrow> pool_each server_pool_each_calc_connections w;
           if status \<noteq> GF_OK then do { w \<leftarrow> server_pool_deinit w; Some (status, w) }
           else do {
             (status, w) \<leftarrow> pool_each (server_pool_each_run) w;
             if status \<noteq> GF_OK then do { w \<leftarrow> server_pool_deinit w; Some (status, w) }
             else Some (GF_OK, w) } } } } }"

end
