(* ===== verification/Conf_Run.thy ===== *)
theory Conf_Run
  imports Conf_Pools Effects
begin

section \<open>A checked configuration gives pools that route\<close>

text \<open>
  The chain from the file to the running proxy: \<open>conf_post_validate\<close> accepts a configuration,
  \<open>server_pool_init\<close> makes its pools and builds the distributions, and every key then has a
  server.
\<close>

subsection \<open>What a rebuild leaves of a pool\<close>

text \<open>A pool without what the distribution keeps in it.\<close>

definition pool_static :: "server_pool \<Rightarrow> server_pool" where
  "pool_static sp = sp\<lparr>p_server := map (\<lambda>s. s\<lparr>s_next_retry := 0\<rparr>) (p_server sp), p_continuum := None, p_ncontinuum := 0,
     p_nserver_continuum := 0, p_nlive_server := 0, p_next_rebuild := 0\<rparr>"

definition rebuilt :: "nat \<Rightarrow> world \<Rightarrow> world \<Rightarrow> bool" where
  "rebuilt p w w' \<longleftrightarrow> only_pools w w' \<and> (\<forall>q. q \<noteq> p \<longrightarrow> pool w' q = pool w q) \<and> pool_static (pool w' p) = pool_static (pool w p)"

lemma rebuilt_refl [simp]: "rebuilt p w w"
  by (simp add: rebuilt_def)

lemma rebuilt_trans: "rebuilt p u v \<Longrightarrow> rebuilt p v w \<Longrightarrow> rebuilt p u w"
  by (auto simp: rebuilt_def intro: only_pools_trans)

lemma rebuilt_sys:
  "sys op w = (r, w') \<Longrightarrow> rebuilt p u w \<Longrightarrow> rebuilt p u w'" "gf_usec_now w = (t, w') \<Longrightarrow> rebuilt p u w \<Longrightarrow> rebuilt p u w'"
  "rebuilt p u w \<Longrightarrow> rebuilt p u (snd (sys op w))"
proof -
  have s: "rebuilt p v (snd (sys op v))" "rebuilt p v (snd (gf_usec_now v))" for v op
    by (simp_all add: rebuilt_def)
  show "sys op w = (r, w') \<Longrightarrow> rebuilt p u w \<Longrightarrow> rebuilt p u w'" "gf_usec_now w = (t, w') \<Longrightarrow> rebuilt p u w \<Longrightarrow> rebuilt p u w'"
    "rebuilt p u w \<Longrightarrow> rebuilt p u (snd (sys op w))"
    using s(1) [of w op] s(2) [of w] by (auto intro: rebuilt_trans)
qed

lemma rebuilt_upd:
  "rebuilt p u w \<Longrightarrow> pool_static (f (pool w p)) = pool_static (pool w p) \<Longrightarrow> rebuilt p u (upd_pool p f w)"
  by (auto simp: rebuilt_def upd_pool_def intro: only_pools_next(1) [unfolded upd_pool_def])

lemma rebuilt_grow:
  assumes "grow_continuum p a b c w = (st, w')" "rebuilt p u w"
  shows "rebuilt p u w'"
proof -
  have "rebuilt p w (snd (gf_alloc w))" by (simp add: rebuilt_def)
  with assms have al: "rebuilt p u (snd (gf_alloc w))" by (blast intro: rebuilt_trans)
  show ?thesis using assms rebuilt_upd [OF al]
    by (auto simp: grow_continuum_def realloc_continuum_def split_def Let_def pool_static_def al split: if_splits)
qed

lemma live_scan_static:
  "live_scan auto now ss a b c = (ss', r) \<Longrightarrow> map (\<lambda>s. s\<lparr>s_next_retry := 0\<rparr>) ss' = map (\<lambda>s. s\<lparr>s_next_retry := 0\<rparr>) ss"
  by (induction ss arbitrary: a b c ss' r) (auto simp: Let_def split: if_splits prod.splits)

lemma rebuilt_scan:
  assumes "live_scan auto now (p_server (pool w p)) a b c = (ss, r)" "rebuilt p u w"
  shows "rebuilt p u (upd_pool p (\<lambda>sp. sp\<lparr>p_server := ss, p_next_rebuild := x, p_nlive_server := y\<rparr>) w)"
  using assms live_scan_static [OF assms(1)] by (intro rebuilt_upd) (simp_all add: pool_static_def)

lemma rebuilt_points:
  "rebuilt p u w \<Longrightarrow> rebuilt p u (upd_pool p (\<lambda>sp. sp\<lparr>p_continuum := c, p_ncontinuum := n\<rparr>) w)"
  by (rule rebuilt_upd) (simp_all add: pool_static_def)

lemmas rebuilt_rules = rebuilt_refl rebuilt_sys rebuilt_grow rebuilt_scan rebuilt_points

lemma modula_update_rebuilt: "post (\<lambda>(st, w'). rebuilt p w w') (modula_update p w)"
  unfolding modula_update_def
  by (intro post_intros) (auto 2 8 intro: rebuilt_rules)

lemma random_update_rebuilt: "post (\<lambda>(st, w'). rebuilt p w w') (random_update p w)"
  unfolding random_update_def
  by (intro post_intros) (auto 2 8 intro: rebuilt_rules)

lemma ketama_update_rebuilt: "post (\<lambda>(st, w'). rebuilt p w w') (ketama_update p w)"
  unfolding ketama_update_def
  by (intro post_intros) (auto 2 8 intro: rebuilt_rules)

lemma server_pool_run_rebuilt: "server_pool_run p w = Some (st, w') \<Longrightarrow> rebuilt p w w'"
  by (auto simp: server_pool_run_def gf_simps split: dist_type.splits
      dest: postD [OF modula_update_rebuilt] postD [OF random_update_rebuilt] postD [OF ketama_update_rebuilt])

subsection \<open>The pools of a configuration\<close>

definition server_of :: "nat \<Rightarrow> conf_server \<Rightarrow> server" where
  "server_of i cs = \<lparr>s_idx = word_of_nat i, s_pname = gs_bytes (cs_pname cs), s_name = gs_bytes (cs_name cs),
     s_addrstr = gs_bytes (cs_addrstr cs), s_port = word_of_int (cs_port cs), s_weight = word_of_int (cs_weight cs),
     s_info = cs_info cs, s_ns_conn_q = 0, s_conn_q = [], s_next_retry = 0, s_failure_count = 0\<rparr>"

definition servers_of :: "conf_server list \<Rightarrow> server list" where
  "servers_of css = map (\<lambda>(i, cs). server_of i cs) (enumerate 0 css)"

definition ready_pool :: "nat \<Rightarrow> conf_pool \<Rightarrow> server_pool" where
  "ready_pool p cp = (pool_of (word_of_nat p) (the (cp_hash cp)) (the (cp_distribution cp)) cp)
     \<lparr>p_server := servers_of (array_items (cp_server cp))\<rparr>"

lemma elem_idx_exact:
  assumes "unat s * i < 2 ^ 32" "0 < s" "s < 2 ^ 32"
  shows "elem_idx s i w = Some (word_of_nat i)"
proof -
  have "1 \<le> unat s" using assms(2) by (simp add: word_less_nat_alt)
  then have "i \<le> unat s * i" by simp
  then have "i < 2 ^ 32" using assms(1) by (rule le_less_trans)
  then show ?thesis using assms by (simp add: elem_idx_def array_idx_exact array_set_def unat_of_nat take_bit_nat_eq_self)
qed

lemma transform_servers:
  assumes "array_ok a" "length (array_items a) = i + k" "\<forall>cs\<in>set (array_items a). cs_valid cs" "232 * (i + k) < 2 ^ 32"
    and "p_server (pool w p) = servers_of (take i (array_items a))"
  shows "\<exists>w'. each_loop k (\<lambda>i w. do { cs \<leftarrow> ar_load a i; conf_server_each_transform p cs w }) i w = Some (GF_OK, w')
    \<and> w' = upd_pool p (\<lambda>sp. sp\<lparr>p_server := servers_of (array_items a)\<rparr>) w"
  using assms
proof (induction k arbitrary: i w)
  case 0
  then have "upd_pool p (\<lambda>sp. sp\<lparr>p_server := servers_of (array_items a)\<rparr>) w = w"
    by (simp add: upd_pool_def fun_upd_idem)
  then show ?case by simp
next
  case (Suc k)
  let ?cs = "array_items a ! i"
  have i: "i < length (array_items a)" using Suc.prems(2) by simp
  have len: "length (servers_of (take i (array_items a))) = i" using i by (simp add: servers_of_def)
  have snoc: "servers_of (take (Suc i) (array_items a)) = servers_of (take i (array_items a)) @ [server_of i ?cs]"
    using i by (simp add: servers_of_def take_Suc_conv_app_nth enumerate_append_eq)
  have idx: "elem_idx 232 i w = Some (word_of_nat i)" using Suc.prems(4) by (intro elem_idx_exact) simp_all
  let ?w = "upd_pool p (\<lambda>sp. sp\<lparr>p_server := servers_of (take (Suc i) (array_items a))\<rparr>) w"
  have "conf_server_each_transform p ?cs w = Some (GF_OK, upd_pool p (\<lambda>sp. sp\<lparr>p_server := p_server sp @ [server_of i ?cs]\<rparr>) w)"
    using idx Suc.prems(3,5) i len by (simp add: conf_server_each_transform_def server_of_def)
  also have "upd_pool p (\<lambda>sp. sp\<lparr>p_server := p_server sp @ [server_of i ?cs]\<rparr>) w = ?w"
    using snoc Suc.prems(5) by (simp add: upd_pool_def)
  finally have t: "conf_server_each_transform p ?cs w = Some (GF_OK, ?w)" .
  have "p_server (pool ?w p) = servers_of (take (Suc i) (array_items a))" by (simp add: upd_pool_def)
  from Suc.IH [OF Suc.prems(1) _ Suc.prems(3) _ this] Suc.prems(2,4) t array_load_items [OF Suc.prems(1) i]
  show ?case by (simp add: upd_pool_def)
qed

text \<open>Memory does not run out and failed assertions do not abort.\<close>

definition runs :: "world \<Rightarrow> bool" where
  "runs w \<longleftrightarrow> (\<forall>t. r_ret (w_os w t) \<noteq> 0) \<and> \<not> w_panic w"

lemma runs_simps [simp]:
  "runs w \<Longrightarrow> fst (gf_alloc w)" "runs (snd (gf_alloc w)) = runs w" "runs (upd_pool p f w) = runs w"
  "runs w \<Longrightarrow> ASSERT b w = Some ()" "runs (w\<lparr>w_npool := n\<rparr>) = runs w" "runs (w\<lparr>w_npool := n, w_pools := ps\<rparr>) = runs w"
  "runs (w\<lparr>w_max_nsconn := m\<rparr>) = runs w" "runs (w\<lparr>w_pools := ps\<rparr>) = runs w"
  by (simp_all add: runs_def gf_alloc_def sys_def split_def Let_def upd_pool_def ASSERT_def)

lemma gf_alloc_pools [simp]: "w_pools (snd (gf_alloc w)) = w_pools w" "w_npool (snd (gf_alloc w)) = w_npool w"
  by (simp_all add: gf_alloc_def sys_def split_def Let_def)

lemma each_ok: "(\<And>x w. x \<in> set xs \<Longrightarrow> f x w = Some (GF_OK, w)) \<Longrightarrow> Server.array_each xs f w = Some (GF_OK, w)"
  by (induction xs) simp_all

definition servers_fit :: "conf_pool \<Rightarrow> bool" where
  "servers_fit cp \<longleftrightarrow> 232 * length (array_items (cp_server cp)) < 2 ^ 32"

lemma server_init_run:
  assumes "runs w" "array_ok a" "array_items a \<noteq> []" "\<forall>cs\<in>set (array_items a). cs_valid cs" "232 * length (array_items a) < 2 ^ 32"
    and "p_server (pool w p) = []"
  shows "server_init p a w = Some (GF_OK, upd_pool p (\<lambda>sp. sp\<lparr>p_server := servers_of (array_items a)\<rparr>) (snd (gf_alloc w)))"
proof -
  let ?w = "snd (gf_alloc w)" and ?n = "length (array_items a)"
  let ?u = "upd_pool p (\<lambda>sp. sp\<lparr>p_server := servers_of (array_items a)\<rparr>) ?w"
  have n: "unat (array_n a) = ?n" using array_ok_length [OF assms(2)] by (simp add: array_n_def)
  have "each_loop ?n (\<lambda>i w. do { cs \<leftarrow> ar_load a i; conf_server_each_transform p cs w }) 0 ?w = Some (GF_OK, ?u)"
    using transform_servers [OF assms(2) _ assms(4), of 0 ?n ?w p] assms(5,6) by (simp add: servers_of_def)
  then have "Arrays.array_each a (\<lambda>i w. do { cs \<leftarrow> ar_load a i; conf_server_each_transform p cs w }) ?w ?w = Some (GF_OK, ?u)"
    using assms(1) n by (simp add: Arrays.array_each_def)
  moreover have "server_each p (server_each_set_owner p) ?u = Some (GF_OK, ?u)"
    using assms(1) by (simp add: server_each_def each_ok server_each_set_owner_def)
  moreover obtain v where "gf_alloc w = (True, v)" "snd (gf_alloc w) = v" using runs_simps(1) [OF assms(1)] by (cases "gf_alloc w") auto
  moreover have "runs v" using runs_simps(2) [of w] assms(1) \<open>snd (gf_alloc w) = v\<close> by simp
  ultimately show ?thesis using assms(1,6) by (simp add: server_init_def)
qed

lemma pool_transform_run:
  assumes "runs w" "pool_complete cp" "servers_fit cp" "368 * w_npool w < 2 ^ 32"
  shows "\<exists>w'. conf_pool_each_transform cp w = Some (GF_OK, w') \<and> runs w' \<and> w_npool w' = Suc (w_npool w)
    \<and> w_pools w' = (w_pools w)(w_npool w := ready_pool (w_npool w) cp)"
proof -
  obtain h d where h: "cp_hash cp = Some h" "cp_distribution cp = Some d" using assms(2) by (auto simp: pool_complete_def)
  let ?w = "w\<lparr>w_npool := Suc (w_npool w), w_pools := (w_pools w)(w_npool w := pool_of (word_of_nat (w_npool w)) h d cp)\<rparr>"
  have i: "elem_idx 368 (w_npool w) w = Some (word_of_nat (w_npool w))" using assms(4) by (intro elem_idx_exact) simp_all
  have c: "\<forall>cs\<in>set (array_items (cp_server cp)). cs_valid cs" using assms(2) by (simp add: pool_complete_def server_parsed_def)
  have "server_init (w_npool w) (cp_server cp) ?w
      = Some (GF_OK, upd_pool (w_npool w) (\<lambda>sp. sp\<lparr>p_server := servers_of (array_items (cp_server cp))\<rparr>) (snd (gf_alloc ?w)))"
    using assms(1-3) c by (intro server_init_run) (simp_all add: pool_complete_def servers_fit_def pool_of_def)
  then have "conf_pool_each_transform cp w
      = Some (GF_OK, upd_pool (w_npool w) (\<lambda>sp. sp\<lparr>p_server := servers_of (array_items (cp_server cp))\<rparr>) (snd (gf_alloc ?w)))"
    using assms(1,2) h i by (simp add: conf_pool_each_transform_def Let_def)
  moreover have "w_pools (upd_pool (w_npool w) (\<lambda>sp. sp\<lparr>p_server := servers_of (array_items (cp_server cp))\<rparr>) (snd (gf_alloc ?w)))
      = (w_pools w)(w_npool w := ready_pool (w_npool w) cp)" using h by (simp add: upd_pool_def ready_pool_def)
  ultimately show ?thesis using assms(1) by (simp add: upd_pool_def)
qed

lemma transform_pools:
  assumes "array_ok a" "length (array_items a) = i + k" "\<forall>cp\<in>set (array_items a). pool_complete cp \<and> servers_fit cp" "368 * (i + k) < 2 ^ 32"
    and "runs w" "w_npool w = i" "\<forall>j<i. pool w j = ready_pool j (array_items a ! j)"
  shows "\<exists>w'. each_loop k (\<lambda>i w. do { cp \<leftarrow> ar_load a i; conf_pool_each_transform cp w }) i w = Some (GF_OK, w')
    \<and> runs w' \<and> w_npool w' = i + k \<and> (\<forall>j<i + k. pool w' j = ready_pool j (array_items a ! j))"
  using assms
proof (induction k arbitrary: i w)
  case (Suc k)
  have i: "i < length (array_items a)" using Suc.prems(2) by simp
  then have cp: "pool_complete (array_items a ! i) \<and> servers_fit (array_items a ! i)" using Suc.prems(3) by simp
  obtain v where v: "conf_pool_each_transform (array_items a ! i) w = Some (GF_OK, v)" "runs v" "w_npool v = Suc i"
    "w_pools v = (w_pools w)(i := ready_pool i (array_items a ! i))"
    using pool_transform_run [OF Suc.prems(5), of "array_items a ! i"] cp Suc.prems(4,6) by auto
  have "\<forall>j<Suc i. pool v j = ready_pool j (array_items a ! j)" using v(4) Suc.prems(7) by (auto simp: less_Suc_eq)
  from Suc.IH [OF Suc.prems(1) _ Suc.prems(3) _ v(2,3) this] Suc.prems(2,4) v(1) array_load_items [OF Suc.prems(1) i]
  show ?case by auto
qed simp

subsection \<open>Building the distributions\<close>

text \<open>
  What a checked pool must satisfy besides: the arrays and continuums fit their 32 bit sizes,
  and a ketama pool is small enough for the rounding of the shares to add no point.
\<close>

definition pool_fits :: "conf_pool \<Rightarrow> bool" where
  "pool_fits cp \<longleftrightarrow> 232 * (length (array_items (cp_server cp)) + 10) < 2 ^ 32
     \<and> sum_list (map (nat \<circ> cs_weight) (array_items (cp_server cp))) + 10 < 2 ^ 32
     \<and> (cp_distribution cp = Some DIST_KETAMA \<longrightarrow> length (array_items (cp_server cp)) \<le> 2 ^ 15)"

lemma map_enumerate: "map (\<lambda>(i, x). f x) (enumerate n xs) = map f xs"
  by (induction xs arbitrary: n) auto

lemma servers_of_map:
  assumes "\<And>i cs. f (server_of i cs) = g cs"
  shows "map f (servers_of css) = map g css"
  using assms by (simp add: servers_of_def o_def split_def flip: map_enumerate [of g 0 css])

lemma length_servers_of [simp]: "length (servers_of css) = length css"
  by (simp add: servers_of_def)

lemma set_servers_of: "s \<in> set (servers_of css) \<Longrightarrow> \<exists>i. \<exists>cs\<in>set css. s = server_of i cs"
  by (auto simp: servers_of_def in_set_enumerate_eq) (metis nth_mem)

lemma unat_weight: "0 \<le> v \<Longrightarrow> v < 2 ^ 31 \<Longrightarrow> unat (word_of_int v :: u32) = nat v"
  by (simp add: unsigned_of_int take_bit_int_eq_self)

lemma ready_pool_fit:
  assumes "pool_complete cp" "pool_fits cp"
  shows "pool_fit (ready_pool p cp)"
proof -
  let ?css = "array_items (cp_server cp)" and ?sp = "ready_pool p cp"
  have ss: "p_server ?sp = servers_of ?css" by (simp add: ready_pool_def)
  have wt: "1 \<le> cs_weight cs \<and> cs_weight cs < 2 ^ 31" if "cs \<in> set ?css" for cs
    using assms(1) that by (simp add: pool_complete_def server_parsed_def)
  have pos: "\<forall>s\<in>set (p_server ?sp). 0 < s_weight s"
  proof
    fix s assume "s \<in> set (p_server ?sp)"
    then obtain cs where cs: "cs \<in> set ?css" "s_weight s = word_of_int (cs_weight cs)"
      unfolding ss by (auto dest!: set_servers_of simp: server_of_def)
    then have "unat (s_weight s) = nat (cs_weight cs)" using wt [OF cs(1)] by (simp add: unat_weight)
    then show "0 < s_weight s" using wt [OF cs(1)] by (simp add: word_less_nat_alt)
  qed
  have ws: "map s_weight (p_server ?sp) = map (\<lambda>cs. word_of_int (cs_weight cs)) ?css"
    unfolding ss by (rule servers_of_map) (simp add: server_of_def)
  have "map (unat \<circ> s_weight) (p_server ?sp) = map (unat \<circ> (\<lambda>cs. word_of_int (cs_weight cs) :: u32)) ?css"
    using arg_cong [OF ws, of "map unat"] by simp
  also have "\<dots> = map (nat \<circ> cs_weight) ?css" using wt by (intro map_cong) (fastforce simp: unat_weight)+
  finally have sum: "map (unat \<circ> s_weight) (p_server ?sp) = map (nat \<circ> cs_weight) ?css" .
  have live: "filter (is_live auto now) (p_server ?sp) = (if \<not> auto \<or> 0 \<le> now then p_server ?sp else [])" for auto
    unfolding ss by (auto simp: is_live_def server_of_def filter_empty_conv dest!: set_servers_of intro!: filter_True)
  have "length ?css \<noteq> 0" using assms(1) by (simp add: pool_complete_def)
  moreover have "p_dist_type ?sp = the (cp_distribution cp)" by (simp add: ready_pool_def pool_of_def)
  moreover have "cp_distribution cp \<noteq> None" using assms(1) by (simp add: pool_complete_def)
  ultimately show ?thesis using pos ws sum assms(2) live unfolding pool_fit_def pool_fits_def Let_def
    by (auto simp: ss ready_pool_def pool_of_def capacity_ok_def)
qed

lemma only_pools_runs: "only_pools w w' \<Longrightarrow> runs w' = runs w \<and> w_npool w' = w_npool w \<and> w_max_nsconn w' = w_max_nsconn w"
  by (auto simp: only_pools_def runs_def)

text \<open>The pools \<open>ps\<close> are as the configuration made them.\<close>

definition built_pool :: "world \<Rightarrow> nat \<Rightarrow> bool" where
  "built_pool w p \<longleftrightarrow> (\<exists>cp. pool_complete cp \<and> pool_fits cp \<and> pool w p = ready_pool p cp)"

definition routed_pool :: "world \<Rightarrow> world \<Rightarrow> nat \<Rightarrow> bool" where
  "routed_pool w w' p \<longleftrightarrow> pool_static (pool w' p) = pool_static (pool w p) \<and> length (p_server (pool w' p)) = length (p_server (pool w p))
     \<and> (p_nlive_server (pool w' p) \<noteq> 0 \<longrightarrow> continuum_ok (pool w' p))"

lemma run_one_pool:
  assumes "runs w" "built_pool w p"
  shows "\<exists>st w'. server_pool_run p w = Some (st, w') \<and> runs w' \<and> only_pools w w' \<and> (\<forall>q. q \<noteq> p \<longrightarrow> pool w' q = pool w q)
    \<and> (st = GF_OK \<longrightarrow> routed_pool w w' p)"
proof -
  obtain cp where cp: "pool_complete cp" "pool_fits cp" "pool w p = ready_pool p cp" using assms(2) by (auto simp: built_pool_def)
  have "\<not> w_panic w" using assms(1) by (simp add: runs_def)
  from server_pool_run_total [OF this, of p] ready_pool_fit [OF cp(1,2)] cp(3)
  obtain st w' where r: "server_pool_run p w = Some (st, w')" "length (p_server (pool w' p)) = length (p_server (pool w p))"
    "st = GF_OK \<and> p_nlive_server (pool w' p) \<noteq> 0 \<longrightarrow> continuum_ok (pool w' p)"
    by auto
  with server_pool_run_rebuilt [OF r(1)] only_pools_runs [of w w'] assms(1) show ?thesis
    by (auto simp: rebuilt_def routed_pool_def)
qed

lemma run_pools:
  assumes "distinct ps" "runs w" "\<forall>p\<in>set ps. built_pool w p"
  shows "\<exists>st w'. Server.array_each ps (server_pool_each_run) w = Some (st, w') \<and> runs w' \<and> only_pools w w'
    \<and> (\<forall>q. q \<notin> set ps \<longrightarrow> pool w' q = pool w q) \<and> (st = GF_OK \<longrightarrow> (\<forall>p\<in>set ps. routed_pool w w' p))"
  using assms
proof (induction ps arbitrary: w)
  case (Cons p ps)
  obtain st v where v: "server_pool_run p w = Some (st, v)" "runs v" "only_pools w v" "\<forall>q. q \<noteq> p \<longrightarrow> pool v q = pool w q"
    "st = GF_OK \<longrightarrow> routed_pool w v p"
    using run_one_pool [OF Cons.prems(2), of p] Cons.prems(3) by auto
  show ?case
  proof (cases "st = GF_OK")
    case False
    with v show ?thesis by (auto simp: server_pool_each_run_def)
  next
    case True
    have "\<forall>q\<in>set ps. built_pool v q" using v(4) Cons.prems(1,3) by (auto simp: built_pool_def)
    then obtain st' u where u: "Server.array_each ps (server_pool_each_run) v = Some (st', u)" "runs u" "only_pools v u"
      "\<forall>q. q \<notin> set ps \<longrightarrow> pool u q = pool v q" "st' = GF_OK \<longrightarrow> (\<forall>p\<in>set ps. routed_pool v u p)"
      using Cons.IH [OF _ v(2)] Cons.prems(1) by auto
    have "routed_pool w u q" if "st' = GF_OK" "q \<in> set (p # ps)" for q
    proof (cases "q = p")
      case True
      with u(4) v(5) \<open>st = GF_OK\<close> Cons.prems(1) show ?thesis by (simp add: routed_pool_def)
    next
      case False
      with that u(5) v(4) show ?thesis by (simp add: routed_pool_def)
    qed
    moreover have "only_pools w u" using v(3) u(3) by (rule only_pools_trans)
    moreover have "\<forall>q. q \<notin> set (p # ps) \<longrightarrow> pool u q = pool w q" using u(4) v(4) by simp
    moreover have "server_pool_each_run p w = Some (GF_OK, v)" using v(1) True by (simp add: server_pool_each_run_def)
    ultimately show ?thesis using u(1,2) by (intro exI [of _ st'] exI [of _ u]) auto
  qed
qed simp

lemma pop_servers_total: "runs w \<Longrightarrow> \<exists>w'. pop_servers k p w = Some w' \<and> runs w'"
  by (induction k arbitrary: w) (simp_all add: Let_def)

lemma server_deinit_total: "runs w \<Longrightarrow> \<exists>w'. server_deinit p w = Some w' \<and> runs w'"
  using pop_servers_total [of w "length (p_server (pool w p))" p] by (auto simp: server_deinit_def)

lemma pop_pools_total: "runs w \<Longrightarrow> \<exists>w'. pop_pools k w = Some w' \<and> runs w'"
proof (induction k arbitrary: w)
  case (Suc k)
  let ?w = "w\<lparr>w_npool := w_npool w - 1\<rparr>" and ?p = "w_npool w - 1"
  define u where "u = (if p_continuum (pool ?w ?p) \<noteq> None
      then upd_pool ?p (\<lambda>sp. sp\<lparr>p_ncontinuum := 0, p_nserver_continuum := 0, p_nlive_server := 0\<rparr>) ?w else ?w)"
  have "runs u" using Suc.prems by (simp add: u_def)
  then obtain v where v: "server_deinit ?p u = Some v" "runs v" using server_deinit_total by blast
  have "runs ?w" using Suc.prems by simp
  then have "pop_pools (Suc k) w = do { w \<leftarrow> server_deinit ?p u; pop_pools k w }" by (simp add: Let_def u_def del: One_nat_def)
  then have "pop_pools (Suc k) w = pop_pools k v" using v(1) by simp
  then show ?case using Suc.IH [OF v(2)] by simp
qed simp

lemma server_pool_deinit_total: "runs w \<Longrightarrow> \<exists>w'. server_pool_deinit w = Some w'"
  using pop_pools_total [of w "w_npool w"] by (auto simp: server_pool_deinit_def)

definition pool_conns :: "server_pool \<Rightarrow> u32" where
  "pool_conns sp = p_server_connections sp * word_of_nat (length (p_server sp)) + 1"

lemma calc_run:
  "Server.array_each ps server_pool_each_calc_connections w
    = Some (GF_OK, w\<lparr>w_max_nsconn := w_max_nsconn w + sum_list (map (\<lambda>p. pool_conns (pool w p)) ps)\<rparr>)"
  by (induction ps arbitrary: w) (simp_all add: server_pool_each_calc_connections_def pool_conns_def Let_def ac_simps)

subsection \<open>From the file to the keys\<close>

lemma static_fields:
  assumes "pool_static sp = pool_static (ready_pool p cp)" "pool_complete cp"
  shows "p_name sp = gs_bytes (cp_name cp)" "map s_name (p_server sp) = map (\<lambda>cs. gs_bytes (cs_name cs)) (array_items (cp_server cp))"
    "map s_idx (p_server sp) = map word_of_nat [0..<length (array_items (cp_server cp))]" "unat (p_server_connections sp) = nat (cp_num cp N_server_connections)"
    "p_dist_type sp = the (cp_distribution cp)" "length (p_server sp) = length (array_items (cp_server cp))"
proof -
  have f: "p_name sp = p_name (ready_pool p cp)" "p_server_connections sp = p_server_connections (ready_pool p cp)" "p_dist_type sp = p_dist_type (ready_pool p cp)"
    using assms(1) [THEN arg_cong, of p_name] assms(1) [THEN arg_cong, of p_server_connections] assms(1) [THEN arg_cong, of p_dist_type]
    by (simp_all add: pool_static_def)
  have ss: "map (\<lambda>s. s\<lparr>s_next_retry := 0\<rparr>) (p_server sp) = map (\<lambda>s. s\<lparr>s_next_retry := 0\<rparr>) (servers_of (array_items (cp_server cp)))"
    using assms(1) [THEN arg_cong, of p_server] by (simp add: pool_static_def ready_pool_def)
  from ss [THEN arg_cong, of "map s_name"] ss [THEN arg_cong, of "map s_idx"] ss [THEN arg_cong, of length]
  have "map s_name (p_server sp) = map s_name (servers_of (array_items (cp_server cp)))"
    "map s_idx (p_server sp) = map s_idx (servers_of (array_items (cp_server cp)))"
    and len: "length (p_server sp) = length (array_items (cp_server cp))"
    by (simp_all add: o_def)
  moreover have "map s_name (servers_of css) = map (\<lambda>cs. gs_bytes (cs_name cs)) css" for css
    by (rule servers_of_map) (simp add: server_of_def)
  moreover have "map s_idx (servers_of css) = map word_of_nat [0..<length css]" for css
    by (rule nth_equalityI) (simp_all add: servers_of_def server_of_def nth_enumerate_eq split_def)
  ultimately show "map s_name (p_server sp) = map (\<lambda>cs. gs_bytes (cs_name cs)) (array_items (cp_server cp))"
    "map s_idx (p_server sp) = map word_of_nat [0..<length (array_items (cp_server cp))]"
    "length (p_server sp) = length (array_items (cp_server cp))"
    by simp_all
  show "p_name sp = gs_bytes (cp_name cp)" "p_dist_type sp = the (cp_distribution cp)" using f by (simp_all add: ready_pool_def pool_of_def)
  have "0 \<le> cp_num cp N_server_connections" "cp_num cp N_server_connections < 2 ^ 31" using assms(2) by (auto simp: pool_complete_def)
  then show "unat (p_server_connections sp) = nat (cp_num cp N_server_connections)" using f by (simp add: ready_pool_def pool_of_def unat_weight)
qed

text \<open>Every key, whatever its bytes, is given a server of the pool.\<close>

definition keys_routed :: "server_pool \<Rightarrow> bool" where
  "keys_routed sp \<longleftrightarrow> (\<forall>m key keylen w. \<exists>idx w'. server_pool_idx sp m key keylen w = Some (idx, w') \<and> unat idx < length (p_server sp))"

text \<open>The pool number \<open>p\<close> is the one the configuration describes.\<close>

definition pool_runs :: "conf_pool \<Rightarrow> server_pool \<Rightarrow> bool" where
  "pool_runs cp sp \<longleftrightarrow> p_name sp = gs_bytes (cp_name cp)
     \<and> map s_name (p_server sp) = map (\<lambda>cs. gs_bytes (cs_name cs)) (array_items (cp_server cp))
     \<and> map s_idx (p_server sp) = map word_of_nat [0..<length (array_items (cp_server cp))]
     \<and> p_dist_type sp = the (cp_distribution cp)
     \<and> unat (p_server_connections sp) = nat (cp_num cp N_server_connections) \<and> 1 \<le> cp_num cp N_server_connections
     \<and> (p_nlive_server sp \<noteq> 0 \<longrightarrow> keys_routed sp)"

lemma routed_pool_runs:
  assumes "routed_pool u w p" "pool u p = ready_pool q cp" "pool_complete cp"
  shows "pool_runs cp (pool w p)"
proof -
  have st: "pool_static (pool w p) = pool_static (ready_pool q cp)" using assms(1,2) by (simp add: routed_pool_def)
  note f = static_fields [OF st assms(3)]
  have "p_server (pool w p) \<noteq> []" using f(6) assms(3) by (auto simp: pool_complete_def)
  then have "keys_routed (pool w p)" if "p_nlive_server (pool w p) \<noteq> 0"
    using server_pool_idx_bound [of "pool w p"] assms(1) that by (simp add: routed_pool_def keys_routed_def)
  then show ?thesis using f assms(3) by (simp add: pool_runs_def pool_complete_def)
qed

text \<open>
  C7: when \<open>conf_post_validate\<close> has accepted a configuration, memory
  does not run out, the weights of every pool add up to less than 2^32 - 10, its servers fit 32 bit sizes
  (and are at most 2^15 with ketama), so do the pools, and failed assertions do not abort, \<open>server_pool_init\<close> returns, and if it succeeds there is one pool for every
  pool of the file, in its order, with the name, the servers, numbered from 0, the distribution and the
  connection limit of the file; a pool with a live server then routes every key of any length to one of
  its servers; and the limit of server connections is the sum over the pools of their servers times the
  limit of each, with one listening socket for each pool.
\<close>

theorem configured_keys_route:
  assumes "conf_ready cf" "conf_post_validate cf v = Some (GF_OK, cf')" "runs w" "w_npool w = 0"
    and "\<forall>cp\<in>set (array_items (cf_pool cf')). pool_fits cp" "368 * length (array_items (cf_pool cf')) < 2 ^ 32"
  shows "\<exists>st w'. server_pool_init (cf_pool cf') w = Some (st, w') \<and> (st = GF_OK \<longrightarrow>
    w_npool w' = length (array_items (cf_pool cf'))
    \<and> (\<forall>p<w_npool w'. pool_runs (array_items (cf_pool cf') ! p) (pool w' p))
    \<and> w_max_nsconn w' = (\<Sum>cp\<leftarrow>array_items (cf_pool cf'). word_of_int (cp_num cp N_server_connections) * word_of_nat (length (array_items (cp_server cp))) + 1))"
proof -
  let ?a = "cf_pool cf'" and ?xs = "array_items (cf_pool cf')" and ?n = "length (array_items (cf_pool cf'))"
  note a = accepted_complete [OF assms(1,2)]
  have sf: "\<forall>cp\<in>set ?xs. pool_complete cp \<and> servers_fit cp" using a(3) assms(5) by (auto simp: pool_fits_def servers_fit_def)
  have n: "unat (array_n ?a) = ?n" using array_ok_length [OF a(1)] by (simp add: array_n_def)
  obtain v1 where al: "gf_alloc w = (True, v1)" using runs_simps(1) [OF assms(3)] by (cases "gf_alloc w") auto
  have v1: "runs v1" "w_npool v1 = 0" using runs_simps(2) [of w] gf_alloc_pools(2) [of w] assms(3,4) al by simp_all
  obtain v2 where v2: "Arrays.array_each ?a (\<lambda>i w. do { cp \<leftarrow> ar_load ?a i; conf_pool_each_transform cp w }) v1 v1 = Some (GF_OK, v2)"
    "runs v2" "w_npool v2 = ?n" "\<forall>j<?n. pool v2 j = ready_pool j (?xs ! j)"
    using transform_pools [OF a(1) _ sf _ v1(1), of 0 ?n] assms(6) v1(1,2) n by (auto simp: Arrays.array_each_def)
  define v3 where "v3 = v2\<lparr>w_max_nsconn := sum_list (map (\<lambda>p. pool_conns (pool v2 p)) [0..<?n])\<rparr>"
  have v3: "runs v3" "w_npool v3 = ?n" "\<forall>p\<in>set [0..<?n]. built_pool v3 p" "\<forall>j<?n. pool v3 j = ready_pool j (?xs ! j)"
    using v2(2-4) a(3) assms(5) by (auto simp: v3_def built_pool_def intro!: exI [of _ "?xs ! p" for p])
  have calc: "pool_each server_pool_each_calc_connections (v2\<lparr>w_max_nsconn := 0\<rparr>) = Some (GF_OK, v3)"
    using v2(2,3) calc_run [of "[0..<?n]" "v2\<lparr>w_max_nsconn := 0\<rparr>"] by (simp add: pool_each_def v3_def)
  have own: "pool_each server_pool_each_set_owner v2 = Some (GF_OK, v2)"
    using v2(2) by (simp add: pool_each_def each_ok server_pool_each_set_owner_def)
  obtain st u where run: "Server.array_each [0..<?n] (server_pool_each_run) v3 = Some (st, u)" "runs u" "only_pools v3 u"
    "st = GF_OK \<longrightarrow> (\<forall>p\<in>set [0..<?n]. routed_pool v3 u p)" using run_pools [OF distinct_upt v3(1,3)] by blast
  have each: "pool_each (server_pool_each_run) v3 = Some (st, u)" using v3(1,2) run(1) by (simp add: pool_each_def)
  have e: "server_pool_init ?a w = (if st \<noteq> GF_OK then do { w \<leftarrow> server_pool_deinit u; Some (st, w) } else Some (GF_OK, u))"
    using assms(3,4) v1 v2(1-3) own calc each al n by (simp add: server_pool_init_def)
  show ?thesis
  proof (cases "st = GF_OK")
    case False
    obtain u' where "server_pool_deinit u = Some u'" using server_pool_deinit_total [OF run(2)] by blast
    with e False show ?thesis by simp
  next
    case True
    have "w_npool u = ?n" "w_max_nsconn u = w_max_nsconn v3" using only_pools_runs [OF run(3)] v3(2) by simp_all
    moreover have "pool_runs (?xs ! p) (pool u p)" if "p < ?n" for p
      using run(4) True that v3(4) a(3) by (intro routed_pool_runs [of v3 u p p]) simp_all
    moreover have "map (\<lambda>p. pool_conns (pool v2 p)) [0..<?n]
        = map (\<lambda>cp. word_of_int (cp_num cp N_server_connections) * word_of_nat (length (array_items (cp_server cp))) + 1) ?xs"
      using v2(4) by (intro nth_equalityI) (simp_all add: pool_conns_def ready_pool_def pool_of_def)
    then have "w_max_nsconn v3 = (\<Sum>cp\<leftarrow>?xs. word_of_int (cp_num cp N_server_connections) * word_of_nat (length (array_items (cp_server cp))) + 1)"
      by (simp add: v3_def)
    ultimately show ?thesis using e True by simp
  qed
qed

lemma sample_accepted:
  "\<exists>cf' cp. conf_post_validate sample_parsed w0 = Some (GF_OK, cf') \<and> array_items (cf_pool cf') = [cp] \<and> pool_fits cp"
proof -
  obtain st a ys where a: "conf_post_validate sample_parsed w0 = Some (st, sample_parsed\<lparr>cf_pool := a\<rparr>)" "st = GF_OK"
    "list_all2 checked_from [sample_parsed_pool] ys" "mset (array_items a) = mset ys"
    using post_validate_exact [OF sample_parsed_ready, of w0] sample_parsed_acceptable unfolding sample_parsed_items by blast
  then obtain cp where cp: "array_items a = [cp]" "checked_from sample_parsed_pool cp" by (auto simp: list_all2_Cons1)
  then have s: "mset (array_items (cp_server cp)) = mset [sample_conf_server [98], sample_conf_server [97]]"
    unfolding checked_from_def sample_parsed_items by auto
  have "cs_weight (sample_conf_server n) = 1" for n by (simp add: sample_conf_server_def conf_server_init_def)
  moreover have "set (array_items (cp_server cp)) = set [sample_conf_server [98], sample_conf_server [97]]" by (rule mset_eq_setD [OF s])
  ultimately have all: "cs \<in> set (array_items (cp_server cp)) \<Longrightarrow> cs_weight cs = 1" for cs by auto
  have len: "length (array_items (cp_server cp)) = 2" using s [THEN arg_cong, of size] by simp
  then obtain x y where xy: "array_items (cp_server cp) = [x, y]" by (auto simp: numeral_2_eq_2 length_Suc_conv)
  have "pool_fits cp" using all unfolding pool_fits_def xy by simp
  with a(1,2) cp(1) show ?thesis by auto
qed

lemma configured_keys_route_witness:
  "\<exists>cf' cp st w'. conf_post_validate sample_parsed w0 = Some (GF_OK, cf') \<and> array_items (cf_pool cf') = [cp]
    \<and> server_pool_init (cf_pool cf') (w0\<lparr>w_npool := 0\<rparr>) = Some (st, w') \<and> (st = GF_OK \<longrightarrow> w_npool w' = 1 \<and> pool_runs cp (pool w' 0))"
proof -
  obtain cf' cp where c: "conf_post_validate sample_parsed w0 = Some (GF_OK, cf')" "array_items (cf_pool cf') = [cp]" "pool_fits cp"
    using sample_accepted by blast
  have "runs (w0\<lparr>w_npool := 0\<rparr>)" by (simp add: runs_def sample_res_def)
  from configured_keys_route [OF sample_parsed_ready c(1) this] c(2,3)
  obtain st w' where "server_pool_init (cf_pool cf') (w0\<lparr>w_npool := 0\<rparr>) = Some (st, w')"
    "st = GF_OK \<longrightarrow> w_npool w' = 1 \<and> pool_runs cp (pool w' 0)" by fastforce
  with c show ?thesis by blast
qed

end
