(* ===== verification/Rbtree.thy ===== *)
theory Rbtree
  imports Prelude
begin

section \<open>The red-black tree (\<open>gf_rbtree.h\<close>, \<open>gf_rbtree.c\<close>)\<close>

text \<open>
  Nodes live at addresses; the links of a node are addresses or NULL and loading a field
  through NULL has no result.  The sentinel is a node of its own that stands for every empty
  subtree; its parent field is scratch space of the deletion.  The record of a tree carries
  the memory of the nodes beside the two pointers of \<open>struct rbtree\<close>.  A loop that does not
  end has no result; the theories that follow show that the loops end.
\<close>

subsection \<open>Nodes and trees\<close>

record rbnode =
  n_left :: "nat option"
  n_right :: "nat option"
  n_parent :: "nat option"
  n_key :: int
  n_data :: "nat option"
  n_color :: u8

record rbtree =
  rb_node :: "nat \<Rightarrow> rbnode"
  rb_root :: nat
  rb_sentinel :: nat

definition upd_node :: "nat \<Rightarrow> (rbnode \<Rightarrow> rbnode) \<Rightarrow> rbtree \<Rightarrow> rbtree" where
  "upd_node x f s = s\<lparr>rb_node := (rb_node s)(x := f (rb_node s x))\<rparr>"

definition set_left :: "nat \<Rightarrow> nat option \<Rightarrow> rbtree \<Rightarrow> rbtree" where
  "set_left x p = upd_node x (\<lambda>n. n\<lparr>n_left := p\<rparr>)"

definition set_right :: "nat \<Rightarrow> nat option \<Rightarrow> rbtree \<Rightarrow> rbtree" where
  "set_right x p = upd_node x (\<lambda>n. n\<lparr>n_right := p\<rparr>)"

definition set_parent :: "nat \<Rightarrow> nat option \<Rightarrow> rbtree \<Rightarrow> rbtree" where
  "set_parent x p = upd_node x (\<lambda>n. n\<lparr>n_parent := p\<rparr>)"

definition rbtree_red :: "nat \<Rightarrow> rbtree \<Rightarrow> rbtree" where
  "rbtree_red x = upd_node x (\<lambda>n. n\<lparr>n_color := 1\<rparr>)"

definition rbtree_black :: "nat \<Rightarrow> rbtree \<Rightarrow> rbtree" where
  "rbtree_black x = upd_node x (\<lambda>n. n\<lparr>n_color := 0\<rparr>)"

definition rbtree_is_red :: "nat \<Rightarrow> rbtree \<Rightarrow> bool" where
  "rbtree_is_red x s \<longleftrightarrow> n_color (rb_node s x) \<noteq> 0"

definition rbtree_is_black :: "nat \<Rightarrow> rbtree \<Rightarrow> bool" where
  "rbtree_is_black x s \<longleftrightarrow> \<not> rbtree_is_red x s"

definition rbtree_copy_color :: "nat \<Rightarrow> nat \<Rightarrow> rbtree \<Rightarrow> rbtree" where
  "rbtree_copy_color x y s = upd_node x (\<lambda>n. n\<lparr>n_color := n_color (rb_node s y)\<rparr>) s"

definition rbtree_node_init :: "nat \<Rightarrow> rbtree \<Rightarrow> rbtree" where
  "rbtree_node_init x = upd_node x (\<lambda>n. n\<lparr>n_left := None, n_right := None, n_parent := None, n_key := 0, n_data := None\<rparr>)"

definition rbtree_init :: "nat \<Rightarrow> rbtree \<Rightarrow> rbtree" where
  "rbtree_init x s = (rbtree_black x (rbtree_node_init x s))\<lparr>rb_root := x, rb_sentinel := x\<rparr>"

subsection \<open>The minimum\<close>

partial_function (option) rbtree_node_min :: "nat \<Rightarrow> rbtree \<Rightarrow> nat option" where
  "rbtree_node_min x s =
     (if n_left (rb_node s x) \<noteq> Some (rb_sentinel s)
      then do { y \<leftarrow> n_left (rb_node s x); rbtree_node_min y s }
      else Some x)"

text \<open>The inner \<open>None\<close> is the NULL of an empty tree.\<close>

definition rbtree_min :: "rbtree \<Rightarrow> nat option option" where
  "rbtree_min s =
     (if rb_root s = rb_sentinel s then Some None
      else map_option Some (rbtree_node_min (rb_root s) s))"

subsection \<open>Rotations\<close>

definition rbtree_left_rotate :: "nat \<Rightarrow> rbtree \<Rightarrow> rbtree option" where
  "rbtree_left_rotate x s = do {
     temp \<leftarrow> n_right (rb_node s x);
     let s = set_right x (n_left (rb_node s temp)) s;
     s \<leftarrow> (if n_left (rb_node s temp) \<noteq> Some (rb_sentinel s)
          then do { b \<leftarrow> n_left (rb_node s temp); Some (set_parent b (Some x) s) }
          else Some s);
     let s = set_parent temp (n_parent (rb_node s x)) s;
     s \<leftarrow> (if x = rb_root s then Some (s\<lparr>rb_root := temp\<rparr>)
          else do {
            p \<leftarrow> n_parent (rb_node s x);
            Some (if n_left (rb_node s p) = Some x then set_left p (Some temp) s
                  else set_right p (Some temp) s) });
     let s = set_left temp (Some x) s;
     Some (set_parent x (Some temp) s) }"

definition rbtree_right_rotate :: "nat \<Rightarrow> rbtree \<Rightarrow> rbtree option" where
  "rbtree_right_rotate x s = do {
     temp \<leftarrow> n_left (rb_node s x);
     let s = set_left x (n_right (rb_node s temp)) s;
     s \<leftarrow> (if n_right (rb_node s temp) \<noteq> Some (rb_sentinel s)
          then do { b \<leftarrow> n_right (rb_node s temp); Some (set_parent b (Some x) s) }
          else Some s);
     let s = set_parent temp (n_parent (rb_node s x)) s;
     s \<leftarrow> (if x = rb_root s then Some (s\<lparr>rb_root := temp\<rparr>)
          else do {
            p \<leftarrow> n_parent (rb_node s x);
            Some (if n_right (rb_node s p) = Some x then set_right p (Some temp) s
                  else set_left p (Some temp) s) });
     let s = set_right temp (Some x) s;
     Some (set_parent x (Some temp) s) }"

subsection \<open>Insertion\<close>

text \<open>The node under which the new node goes, and whether to its left.\<close>

partial_function (option) insert_spot :: "int \<Rightarrow> nat \<Rightarrow> rbtree \<Rightarrow> (nat \<times> bool) option" where
  "insert_spot key temp s =
     (let left = key < n_key (rb_node s temp);
          p = (if left then n_left (rb_node s temp) else n_right (rb_node s temp))
      in if p = Some (rb_sentinel s) then Some (temp, left)
         else do { temp \<leftarrow> p; insert_spot key temp s })"

text \<open>The two branches of the loop that restores the balance.\<close>

definition insert_left :: "nat \<Rightarrow> rbtree \<Rightarrow> (nat \<times> rbtree) option" where
  "insert_left x s = do {
     p \<leftarrow> n_parent (rb_node s x);
     g \<leftarrow> n_parent (rb_node s p);
     temp \<leftarrow> n_right (rb_node s g);
     if rbtree_is_red temp s then Some (g, rbtree_red g (rbtree_black temp (rbtree_black p s)))
     else do {
       (x, s) \<leftarrow> (if n_right (rb_node s p) = Some x
                  then do { s \<leftarrow> rbtree_left_rotate p s; Some (p, s) }
                  else Some (x, s));
       p \<leftarrow> n_parent (rb_node s x);
       let s = rbtree_black p s;
       g \<leftarrow> n_parent (rb_node s p);
       let s = rbtree_red g s;
       s \<leftarrow> rbtree_right_rotate g s;
       Some (x, s) } }"

definition insert_right :: "nat \<Rightarrow> rbtree \<Rightarrow> (nat \<times> rbtree) option" where
  "insert_right x s = do {
     p \<leftarrow> n_parent (rb_node s x);
     g \<leftarrow> n_parent (rb_node s p);
     temp \<leftarrow> n_left (rb_node s g);
     if rbtree_is_red temp s then Some (g, rbtree_red g (rbtree_black temp (rbtree_black p s)))
     else do {
       (x, s) \<leftarrow> (if n_left (rb_node s p) = Some x
                  then do { s \<leftarrow> rbtree_right_rotate p s; Some (p, s) }
                  else Some (x, s));
       p \<leftarrow> n_parent (rb_node s x);
       let s = rbtree_black p s;
       g \<leftarrow> n_parent (rb_node s p);
       let s = rbtree_red g s;
       s \<leftarrow> rbtree_left_rotate g s;
       Some (x, s) } }"

partial_function (option) insert_balance :: "nat \<Rightarrow> rbtree \<Rightarrow> rbtree option" where
  "insert_balance x s =
     (if x = rb_root s then Some s
      else do {
        p \<leftarrow> n_parent (rb_node s x);
        if rbtree_is_red p s then do {
          g \<leftarrow> n_parent (rb_node s p);
          (x, s) \<leftarrow> (if n_left (rb_node s g) = Some p then insert_left x s else insert_right x s);
          insert_balance x s }
        else Some s })"

definition rbtree_insert :: "nat \<Rightarrow> rbtree \<Rightarrow> rbtree option" where
  "rbtree_insert x s =
     (let z = rb_sentinel s
      in if rb_root s = z then
           Some ((rbtree_black x (set_right x (Some z) (set_left x (Some z) (set_parent x None s))))\<lparr>rb_root := x\<rparr>)
         else do {
           (temp, left) \<leftarrow> insert_spot (n_key (rb_node s x)) (rb_root s) s;
           let s = (if left then set_left temp (Some x) s else set_right temp (Some x) s);
           let s = set_parent x (Some temp) s;
           let s = set_left x (Some z) s;
           let s = set_right x (Some z) s;
           let s = rbtree_red x s;
           s \<leftarrow> insert_balance x s;
           Some (rbtree_black (rb_root s) s) })"

subsection \<open>Deletion\<close>

text \<open>The two branches of the fixup loop; the result is the next \<open>temp\<close>.\<close>

definition delete_left :: "nat \<Rightarrow> rbtree \<Rightarrow> (nat \<times> rbtree) option" where
  "delete_left temp s = do {
     p \<leftarrow> n_parent (rb_node s temp);
     w \<leftarrow> n_right (rb_node s p);
     (w, s) \<leftarrow> (if rbtree_is_red w s then do {
          let s = rbtree_black w s;
          let s = rbtree_red p s;
          s \<leftarrow> rbtree_left_rotate p s;
          p \<leftarrow> n_parent (rb_node s temp);
          w \<leftarrow> n_right (rb_node s p);
          Some (w, s) }
        else Some (w, s));
     wl \<leftarrow> n_left (rb_node s w);
     wr \<leftarrow> n_right (rb_node s w);
     if rbtree_is_black wl s \<and> rbtree_is_black wr s then do {
       let s = rbtree_red w s;
       p \<leftarrow> n_parent (rb_node s temp);
       Some (p, s) }
     else do {
       (w, s) \<leftarrow> (if rbtree_is_black wr s then do {
            let s = rbtree_black wl s;
            let s = rbtree_red w s;
            s \<leftarrow> rbtree_right_rotate w s;
            p \<leftarrow> n_parent (rb_node s temp);
            w \<leftarrow> n_right (rb_node s p);
            Some (w, s) }
          else Some (w, s));
       p \<leftarrow> n_parent (rb_node s temp);
       let s = rbtree_copy_color w p s;
       let s = rbtree_black p s;
       wr \<leftarrow> n_right (rb_node s w);
       let s = rbtree_black wr s;
       s \<leftarrow> rbtree_left_rotate p s;
       Some (rb_root s, s) } }"

definition delete_right :: "nat \<Rightarrow> rbtree \<Rightarrow> (nat \<times> rbtree) option" where
  "delete_right temp s = do {
     p \<leftarrow> n_parent (rb_node s temp);
     w \<leftarrow> n_left (rb_node s p);
     (w, s) \<leftarrow> (if rbtree_is_red w s then do {
          let s = rbtree_black w s;
          let s = rbtree_red p s;
          s \<leftarrow> rbtree_right_rotate p s;
          p \<leftarrow> n_parent (rb_node s temp);
          w \<leftarrow> n_left (rb_node s p);
          Some (w, s) }
        else Some (w, s));
     wl \<leftarrow> n_left (rb_node s w);
     wr \<leftarrow> n_right (rb_node s w);
     if rbtree_is_black wl s \<and> rbtree_is_black wr s then do {
       let s = rbtree_red w s;
       p \<leftarrow> n_parent (rb_node s temp);
       Some (p, s) }
     else do {
       (w, s) \<leftarrow> (if rbtree_is_black wl s then do {
            let s = rbtree_black wr s;
            let s = rbtree_red w s;
            s \<leftarrow> rbtree_left_rotate w s;
            p \<leftarrow> n_parent (rb_node s temp);
            w \<leftarrow> n_left (rb_node s p);
            Some (w, s) }
          else Some (w, s));
       p \<leftarrow> n_parent (rb_node s temp);
       let s = rbtree_copy_color w p s;
       let s = rbtree_black p s;
       wl \<leftarrow> n_left (rb_node s w);
       let s = rbtree_black wl s;
       s \<leftarrow> rbtree_right_rotate p s;
       Some (rb_root s, s) } }"

partial_function (option) delete_fixup :: "nat \<Rightarrow> rbtree \<Rightarrow> (nat \<times> rbtree) option" where
  "delete_fixup temp s =
     (if temp \<noteq> rb_root s \<and> rbtree_is_black temp s then do {
        p \<leftarrow> n_parent (rb_node s temp);
        (temp, s) \<leftarrow> (if n_left (rb_node s p) = Some temp then delete_left temp s else delete_right temp s);
        delete_fixup temp s }
      else Some (temp, s))"

text \<open>\<open>subst\<close> and \<open>temp\<close>: the node that leaves its place and the one that takes it.\<close>

definition delete_subst :: "nat \<Rightarrow> rbtree \<Rightarrow> (nat \<times> nat) option" where
  "delete_subst x s =
     (let z = rb_sentinel s
      in if n_left (rb_node s x) = Some z then do { temp \<leftarrow> n_right (rb_node s x); Some (x, temp) }
         else if n_right (rb_node s x) = Some z then do { temp \<leftarrow> n_left (rb_node s x); Some (x, temp) }
         else do {
           r \<leftarrow> n_right (rb_node s x);
           subst \<leftarrow> rbtree_node_min r s;
           temp \<leftarrow> n_right (rb_node s subst);
           Some (subst, temp) })"

text \<open>\<open>subst\<close> takes the place of \<open>x\<close>.\<close>

definition delete_replace :: "nat \<Rightarrow> nat \<Rightarrow> nat \<Rightarrow> rbtree \<Rightarrow> rbtree option" where
  "delete_replace x subst temp s = do {
     p \<leftarrow> n_parent (rb_node s subst);
     let s = (if p = x then set_parent temp (Some subst) s else set_parent temp (Some p) s);
     let s = set_left subst (n_left (rb_node s x)) s;
     let s = set_right subst (n_right (rb_node s x)) s;
     let s = set_parent subst (n_parent (rb_node s x)) s;
     let s = rbtree_copy_color subst x s;
     s \<leftarrow> (if x = rb_root s then Some (s\<lparr>rb_root := subst\<rparr>)
          else do {
            q \<leftarrow> n_parent (rb_node s x);
            Some (if n_left (rb_node s q) = Some x then set_left q (Some subst) s
                  else set_right q (Some subst) s) });
     s \<leftarrow> (if n_left (rb_node s subst) \<noteq> Some (rb_sentinel s)
          then do { l \<leftarrow> n_left (rb_node s subst); Some (set_parent l (Some subst) s) } else Some s);
     if n_right (rb_node s subst) \<noteq> Some (rb_sentinel s)
     then do { r \<leftarrow> n_right (rb_node s subst); Some (set_parent r (Some subst) s) } else Some s }"

definition rbtree_delete :: "nat \<Rightarrow> rbtree \<Rightarrow> rbtree option" where
  "rbtree_delete x s = do {
     (subst, temp) \<leftarrow> delete_subst x s;
     if subst = rb_root s then
       Some (rbtree_node_init x (rbtree_black temp (s\<lparr>rb_root := temp\<rparr>)))
     else do {
       let red = rbtree_is_red subst s;
       p \<leftarrow> n_parent (rb_node s subst);
       let s = (if n_left (rb_node s p) = Some subst then set_left p (Some temp) s
                else set_right p (Some temp) s);
       s \<leftarrow> (if subst = x then Some (set_parent temp (n_parent (rb_node s subst)) s)
            else delete_replace x subst temp s);
       let s = rbtree_node_init x s;
       if red then Some s
       else do {
         (temp, s) \<leftarrow> delete_fixup temp s;
         Some (rbtree_black temp s) } } }"

end
