(* ===== verification/Rbtree_Shape.thy ===== *)
theory Rbtree_Shape
  imports Rbtree "HOL-Library.Tree" "HOL-Library.Multiset"
begin

section \<open>The shape of the red-black tree\<close>

text \<open>
  The linked nodes represent a binary tree of addresses.  A place in it is a subtree and the
  path up from it, a list of frames: whether the path comes from the left, the node, and its
  other subtree.  A rotation is a local change at a place.  The two mirrored routines are
  instances of one with the side as a parameter.
\<close>

lemma rb_simps [simp]:
  "rb_node (set_left x p s) = (rb_node s)(x := (rb_node s x)\<lparr>n_left := p\<rparr>)"
  "rb_node (set_right x p s) = (rb_node s)(x := (rb_node s x)\<lparr>n_right := p\<rparr>)"
  "rb_node (set_parent x p s) = (rb_node s)(x := (rb_node s x)\<lparr>n_parent := p\<rparr>)"
  "rb_node (rbtree_red x s) = (rb_node s)(x := (rb_node s x)\<lparr>n_color := 1\<rparr>)"
  "rb_node (rbtree_black x s) = (rb_node s)(x := (rb_node s x)\<lparr>n_color := 0\<rparr>)"
  "rb_node (rbtree_copy_color x y s) = (rb_node s)(x := (rb_node s x)\<lparr>n_color := n_color (rb_node s y)\<rparr>)"
  "rb_root (set_left x p s) = rb_root s" "rb_root (set_right x p s) = rb_root s" "rb_root (set_parent x p s) = rb_root s"
  "rb_root (rbtree_red x s) = rb_root s" "rb_root (rbtree_black x s) = rb_root s" "rb_root (rbtree_copy_color x y s) = rb_root s"
  "rb_sentinel (set_left x p s) = rb_sentinel s" "rb_sentinel (set_right x p s) = rb_sentinel s"
  "rb_sentinel (set_parent x p s) = rb_sentinel s" "rb_sentinel (rbtree_red x s) = rb_sentinel s"
  "rb_sentinel (rbtree_black x s) = rb_sentinel s" "rb_sentinel (rbtree_copy_color x y s) = rb_sentinel s"
  by (simp_all add: set_left_def set_right_def set_parent_def rbtree_red_def rbtree_black_def rbtree_copy_color_def upd_node_def)

subsection \<open>Sides\<close>

text \<open>\<open>True\<close> is the left side.\<close>

definition side :: "bool \<Rightarrow> rbnode \<Rightarrow> nat option" where
  "side d n = (if d then n_left n else n_right n)"

definition set_side :: "bool \<Rightarrow> nat \<Rightarrow> nat option \<Rightarrow> rbtree \<Rightarrow> rbtree" where
  "set_side d = (if d then set_left else set_right)"

definition put_side :: "bool \<Rightarrow> nat option \<Rightarrow> rbnode \<Rightarrow> rbnode" where
  "put_side d p n = (if d then n\<lparr>n_left := p\<rparr> else n\<lparr>n_right := p\<rparr>)"

lemma side_simps [simp]:
  "side d (n\<lparr>n_parent := p\<rparr>) = side d n" "side d (n\<lparr>n_color := c\<rparr>) = side d n" "side d (put_side d p n) = p"
  "side (\<not> d) (put_side d p n) = side (\<not> d) n" "side d (put_side (\<not> d) p n) = side d n"
  "n_parent (put_side d p n) = n_parent n" "n_key (put_side d p n) = n_key n" "n_data (put_side d p n) = n_data n"
  "n_color (put_side d p n) = n_color n"
  by (simp_all add: side_def put_side_def)

lemma set_side_simps [simp]:
  "rb_node (set_side d x p s) = (rb_node s)(x := put_side d p (rb_node s x))"
  "rb_root (set_side d x p s) = rb_root s" "rb_sentinel (set_side d x p s) = rb_sentinel s"
  by (simp_all add: set_side_def put_side_def)

text \<open>The rotation that moves \<open>x\<close> down to the side \<open>d\<close>.\<close>

definition rotate :: "bool \<Rightarrow> nat \<Rightarrow> rbtree \<Rightarrow> rbtree option" where
  "rotate d x s = do {
     temp \<leftarrow> side (\<not> d) (rb_node s x);
     let s = set_side (\<not> d) x (side d (rb_node s temp)) s;
     s \<leftarrow> (if side d (rb_node s temp) \<noteq> Some (rb_sentinel s)
          then do { b \<leftarrow> side d (rb_node s temp); Some (set_parent b (Some x) s) }
          else Some s);
     let s = set_parent temp (n_parent (rb_node s x)) s;
     s \<leftarrow> (if x = rb_root s then Some (s\<lparr>rb_root := temp\<rparr>)
          else do {
            p \<leftarrow> n_parent (rb_node s x);
            Some (if side d (rb_node s p) = Some x then set_side d p (Some temp) s
                  else set_side (\<not> d) p (Some temp) s) });
     let s = set_side d temp (Some x) s;
     Some (set_parent x (Some temp) s) }"

lemma rotate_eq: "rbtree_left_rotate = rotate True" "rbtree_right_rotate = rotate False"
  by (unfold rbtree_left_rotate_def rbtree_right_rotate_def rotate_def side_def set_side_def if_True if_False not_True_eq_False not_False_eq_True) (rule refl)+

subsection \<open>Subtrees and paths\<close>

fun root_at :: "nat \<Rightarrow> nat tree \<Rightarrow> nat" where
  "root_at z Leaf = z"
| "root_at z (Node l a r) = a"

definition under :: "nat \<Rightarrow> (nat \<Rightarrow> rbnode) \<Rightarrow> nat \<Rightarrow> nat tree \<Rightarrow> bool" where
  "under z H a T \<longleftrightarrow> (T \<noteq> Leaf \<longrightarrow> n_parent (H (root_at z T)) = Some a)"

fun links :: "nat \<Rightarrow> (nat \<Rightarrow> rbnode) \<Rightarrow> nat tree \<Rightarrow> bool" where
  "links z H Leaf \<longleftrightarrow> True"
| "links z H (Node l a r) \<longleftrightarrow> n_left (H a) = Some (root_at z l) \<and> n_right (H a) = Some (root_at z r)
     \<and> under z H a l \<and> under z H a r \<and> links z H l \<and> links z H r"

type_synonym path = "(bool \<times> nat \<times> nat tree) list"

definition nodeb :: "bool \<Rightarrow> nat tree \<Rightarrow> nat \<Rightarrow> nat tree \<Rightarrow> nat tree" where
  "nodeb d T a U = (if d then Node T a U else Node U a T)"

fun plug :: "nat tree \<Rightarrow> path \<Rightarrow> nat tree" where
  "plug T [] = T"
| "plug T ((d, a, U) # ps) = plug (nodeb d T a U) ps"

fun path_nodes :: "path \<Rightarrow> nat list" where
  "path_nodes [] = []"
| "path_nodes ((d, a, U) # ps) = a # inorder U @ path_nodes ps"

definition over :: "(nat \<Rightarrow> rbnode) \<Rightarrow> path \<Rightarrow> nat \<Rightarrow> bool" where
  "over H ps a \<longleftrightarrow> (ps \<noteq> [] \<longrightarrow> n_parent (H a) = Some (fst (snd (hd ps))))"

fun clinks :: "nat \<Rightarrow> (nat \<Rightarrow> rbnode) \<Rightarrow> nat \<Rightarrow> path \<Rightarrow> nat \<Rightarrow> bool" where
  "clinks z H r [] h \<longleftrightarrow> r = h"
| "clinks z H r ((d, a, U) # ps) h \<longleftrightarrow> side d (H a) = Some h \<and> side (\<not> d) (H a) = Some (root_at z U)
     \<and> under z H a U \<and> links z H U \<and> over H ps a \<and> clinks z H r ps a"

text \<open>The tree holds \<open>T\<close> at the end of the path \<open>ps\<close>.\<close>

definition focus :: "rbtree \<Rightarrow> nat tree \<Rightarrow> path \<Rightarrow> bool" where
  "focus s T ps \<longleftrightarrow> links (rb_sentinel s) (rb_node s) T
     \<and> clinks (rb_sentinel s) (rb_node s) (rb_root s) ps (root_at (rb_sentinel s) T)
     \<and> (T \<noteq> Leaf \<longrightarrow> over (rb_node s) ps (root_at (rb_sentinel s) T))
     \<and> distinct (rb_sentinel s # inorder T @ path_nodes ps)"

lemma nodeb_simps [simp]:
  "root_at z (nodeb d T a U) = a" "nodeb d T a U \<noteq> Leaf" "Leaf \<noteq> nodeb d T a U"
  "set_tree (nodeb d T a U) = insert a (set_tree T \<union> set_tree U)"
  "set (inorder (nodeb d T a U)) = insert a (set_tree T \<union> set_tree U)"
  "links z H (nodeb d T a U) \<longleftrightarrow> side d (H a) = Some (root_at z T) \<and> side (\<not> d) (H a) = Some (root_at z U)
     \<and> under z H a T \<and> under z H a U \<and> links z H T \<and> links z H U"
  by (auto simp: nodeb_def side_def)

lemma mset_nodeb: "mset (inorder (nodeb d T a U)) = add_mset a (mset (inorder T) + mset (inorder U))"
  by (simp add: nodeb_def)

lemma distinct_mset: "mset xs = mset ys \<Longrightarrow> distinct xs = distinct ys"
  by (rule mset_eq_imp_distinct_iff)

lemma distinct_nodeb [simp]: "distinct (inorder (nodeb d T a U)) \<longleftrightarrow> distinct (a # inorder T @ inorder U)"
  by (rule distinct_mset) (simp add: mset_nodeb)

lemma distinct_focus: "distinct (z # inorder (nodeb d T a U) @ path_nodes ps) = distinct (z # inorder T @ path_nodes ((d, a, U) # ps))"
  by (rule distinct_mset) (simp add: mset_nodeb)

lemma focus_Cons: "focus s T ((d, a, U) # ps) = focus s (nodeb d T a U) ps"
  unfolding focus_def distinct_focus by (auto simp: over_def under_def)

lemma focus_plug: "focus s T ps = focus s (plug T ps) []"
proof (induction ps arbitrary: T)
  case (Cons f ps)
  obtain d a U where "f = (d, a, U)" by (cases f) auto
  then show ?case using Cons.IH by (simp add: focus_Cons)
qed simp

lemma mset_plug: "mset (inorder (plug T ps)) = mset (inorder T) + mset (path_nodes ps)"
  by (induction T ps rule: plug.induct) (simp_all add: mset_nodeb)

lemma nodeb_cases:
  assumes "T \<noteq> Leaf"
  obtains L a R where "T = nodeb d L a R"
  using assms by (cases T; cases d) (auto simp: nodeb_def)

subsection \<open>Frame rules\<close>

lemma links_cong:
  assumes "\<And>x. x \<in> set_tree T \<Longrightarrow> n_left (H' x) = n_left (H x) \<and> n_right (H' x) = n_right (H x) \<and> n_parent (H' x) = n_parent (H x)"
  shows "links z H' T = links z H T"
  using assms
proof (induction T)
  case (Node l a r)
  have "under z H' a t = under z H a t" if "t = l \<or> t = r" for t
    using Node.prems that by (cases t) (auto simp: under_def)
  then show ?case using Node by simp
qed simp

lemma links_fresh [simp]: "x \<notin> set_tree T \<Longrightarrow> links z (H(x := n)) T = links z H T"
  by (rule links_cong) auto

lemma links_color [simp]: "links z (H(x := (H x)\<lparr>n_color := c\<rparr>)) T = links z H T"
  by (rule links_cong) auto

lemma under_fresh [simp]: "x \<notin> set_tree T \<Longrightarrow> under z (H(x := n)) a T = under z H a T"
  by (cases T) (auto simp: under_def)

lemma under_side [simp]: "under z (H(x := put_side d p (H x))) a T = under z H a T"
  by (cases T) (auto simp: under_def)

lemma under_color [simp]: "under z (H(x := (H x)\<lparr>n_color := c\<rparr>)) a T = under z H a T"
  by (cases T) (auto simp: under_def)

lemma links_parent [simp]:
  assumes "distinct (inorder T)" "z \<notin> set_tree T" "root_at z T = x"
  shows "links z (H(x := (H x)\<lparr>n_parent := p\<rparr>)) T = links z H T"
proof (cases T)
  case (Node l a r)
  then have "a \<notin> set_tree l" "a \<notin> set_tree r" "x = a" using assms by auto
  with Node show ?thesis by simp
qed simp

lemma over_fresh [simp]: "x \<noteq> a \<Longrightarrow> over (H(x := n)) ps a = over H ps a"
  by (simp add: over_def)

lemma over_color [simp]: "over (H(x := (H x)\<lparr>n_color := c\<rparr>)) ps a = over H ps a"
  by (simp add: over_def)

lemma over_side [simp]: "over (H(x := put_side d p (H x))) ps a = over H ps a"
  by (simp add: over_def)

lemma over_Nil [simp]: "over H [] a"
  by (simp add: over_def)

lemma over_Cons [simp]: "over H ((d, b, U) # ps) a \<longleftrightarrow> n_parent (H a) = Some b"
  by (simp add: over_def)

lemma under_Leaf [simp]: "under z H a Leaf"
  by (simp add: under_def)

lemma clinks_cong:
  assumes "\<And>x. x \<in> set (path_nodes ps) \<Longrightarrow> n_left (H' x) = n_left (H x) \<and> n_right (H' x) = n_right (H x) \<and> n_parent (H' x) = n_parent (H x)"
  shows "clinks z H' r ps h = clinks z H r ps h"
  using assms
proof (induction ps arbitrary: h)
  case (Cons f ps)
  obtain d a U where f: "f = (d, a, U)" by (cases f) auto
  have "links z H' U = links z H U" using Cons.prems f by (intro links_cong) auto
  moreover have "under z H' a U = under z H a U" using Cons.prems f by (cases U) (auto simp: under_def)
  moreover have "over H' ps a = over H ps a" "side d (H' a) = side d (H a)" "side (\<not> d) (H' a) = side (\<not> d) (H a)"
    using Cons.prems f by (auto simp: over_def side_def)
  ultimately show ?case using Cons.IH [of a] Cons.prems f by simp
qed simp

lemma clinks_fresh [simp]: "x \<notin> set (path_nodes ps) \<Longrightarrow> clinks z (H(x := n)) r ps h = clinks z H r ps h"
  by (rule clinks_cong) auto

lemma clinks_color [simp]: "clinks z (H(x := (H x)\<lparr>n_color := c\<rparr>)) r ps h = clinks z H r ps h"
  by (rule clinks_cong) auto

lemma focus_color [simp]:
  "focus (rbtree_red x s) T ps = focus s T ps" "focus (rbtree_black x s) T ps = focus s T ps"
  "focus (rbtree_copy_color x y s) T ps = focus s T ps"
  by (simp_all add: focus_def)

subsection \<open>Rotations\<close>

text \<open>What a rotation leaves as it was.\<close>

definition kept :: "rbtree \<Rightarrow> rbtree \<Rightarrow> bool" where
  "kept s s' \<longleftrightarrow> rb_sentinel s' = rb_sentinel s \<and> rb_node s' (rb_sentinel s) = rb_node s (rb_sentinel s)
     \<and> (\<forall>x. n_key (rb_node s' x) = n_key (rb_node s x) \<and> n_data (rb_node s' x) = n_data (rb_node s x)
          \<and> n_color (rb_node s' x) = n_color (rb_node s x))"

text \<open>The link from the node above, or from the tree itself.\<close>

definition relink :: "path \<Rightarrow> nat \<Rightarrow> rbtree \<Rightarrow> rbtree" where
  "relink ps y s = (case ps of [] \<Rightarrow> s\<lparr>rb_root := y\<rparr> | (e, g, V) # _ \<Rightarrow> set_side e g (Some y) s)"

definition rotated :: "bool \<Rightarrow> nat \<Rightarrow> nat \<Rightarrow> nat tree \<Rightarrow> path \<Rightarrow> rbtree \<Rightarrow> rbtree" where
  "rotated d x y B ps s =
     (let s1 = set_side (\<not> d) x (Some (root_at (rb_sentinel s) B)) s;
          s2 = (if B = Leaf then s1 else set_parent (root_at (rb_sentinel s) B) (Some x) s1);
          s3 = set_parent y (n_parent (rb_node s x)) s2;
          s4 = relink ps y s3
      in set_parent x (Some y) (set_side d y (Some x) s4))"

lemma relink_simps [simp]:
  "rb_sentinel (relink ps y s) = rb_sentinel s"
  "x \<notin> set (path_nodes ps) \<Longrightarrow> rb_node (relink ps y s) x = rb_node s x"
  "n_key (rb_node (relink ps y s) x) = n_key (rb_node s x)" "n_data (rb_node (relink ps y s) x) = n_data (rb_node s x)"
  "n_color (rb_node (relink ps y s) x) = n_color (rb_node s x)" "n_parent (rb_node (relink ps y s) x) = n_parent (rb_node s x)"
  by (auto simp: relink_def split: list.splits)

lemma links_relink [simp]: "set_tree T \<inter> set (path_nodes ps) = {} \<Longrightarrow> links z (rb_node (relink ps y s)) T = links z (rb_node s) T"
  by (rule links_cong) (simp add: disjoint_iff)

lemma under_relink [simp]: "under z (rb_node (relink ps y s)) a T = under z (rb_node s) a T"
  by (simp add: under_def)

lemma over_relink [simp]: "over (rb_node (relink ps y s)) qs a = over (rb_node s) qs a"
  by (simp add: over_def)

lemma clinks_relink:
  assumes "clinks z (rb_node s) (rb_root s) ps x" "distinct (path_nodes ps)"
  shows "clinks z (rb_node (relink ps y s)) (rb_root (relink ps y s)) ps y"
proof (cases ps)
  case (Cons f qs)
  then show ?thesis using assms by (cases f) (auto simp: relink_def)
qed (use assms in \<open>simp add: relink_def\<close>)

lemma root_at_in: "T \<noteq> Leaf \<Longrightarrow> root_at z T \<in> set_tree T"
  by (cases T) auto

lemma root_at_eq [simp]: "z \<notin> set_tree T \<Longrightarrow> root_at z T = z \<longleftrightarrow> T = Leaf"
  by (cases T) auto

lemma root_at_out: "x \<noteq> z \<Longrightarrow> x \<notin> set_tree T \<Longrightarrow> root_at z T \<noteq> x"
  by (cases T) auto

lemma clinks_root: "clinks z H r ps h \<Longrightarrow> ps \<noteq> [] \<Longrightarrow> r \<in> set (path_nodes ps)"
proof (induction ps arbitrary: h)
  case (Cons f ps)
  then show ?case by (cases f; cases ps) auto
qed simp

lemma relink_code:
  assumes "clinks z H (rb_root s) ps x" "over H ps x" "x \<notin> set (path_nodes ps)" "distinct (z # path_nodes ps)" "x \<noteq> z"
    and "\<forall>g\<in>set (path_nodes ps). rb_node s g = H g" "n_parent (rb_node s x) = n_parent (H x)"
  shows "(if x = rb_root s then Some (s\<lparr>rb_root := y\<rparr>)
          else do { p \<leftarrow> n_parent (rb_node s x);
            Some (if side d (rb_node s p) = Some x then set_side d p (Some y) s else set_side (\<not> d) p (Some y) s) })
     = Some (relink ps y s)"
proof (cases ps)
  case (Cons f qs)
  obtain e g V where f: "f = (e, g, V)" by (cases f) auto
  have "rb_node s g = H g" "n_parent (rb_node s x) = Some g" "side e (H g) = Some x" "side (\<not> e) (H g) = Some (root_at z V)"
    using assms Cons f by (auto simp: over_def)
  moreover have "root_at z V \<noteq> x" using assms Cons f by (intro root_at_out) auto
  moreover have "x \<noteq> rb_root s" using clinks_root [OF assms(1)] assms(3) Cons by auto
  ultimately show ?thesis using Cons f by (cases e; cases d) (simp_all add: relink_def)
qed (use assms in \<open>simp add: relink_def\<close>)

lemma rotate_ok:
  assumes "focus s (nodeb d A x (nodeb d B y C)) ps"
  obtains s' where "rotate d x s = Some s'" "focus s' (nodeb d (nodeb d A x B) y C) ps" "kept s s'"
proof -
  define z H where "z = rb_sentinel s" and "H = rb_node s"
  have l: "side d (H x) = Some (root_at z A)" "side (\<not> d) (H x) = Some y" "side d (H y) = Some (root_at z B)"
      "side (\<not> d) (H y) = Some (root_at z C)" "under z H x A" "under z H y B" "under z H y C" "n_parent (H y) = Some x"
      "links z H A" "links z H B" "links z H C" "over H ps x" "clinks z H (rb_root s) ps x"
    and dist: "distinct (z # x # y # inorder A @ inorder B @ inorder C @ path_nodes ps)"
    using assms by (auto simp: focus_def under_def z_def H_def)
  have ne: "x \<noteq> y" "x \<noteq> z" "y \<noteq> z" "x \<notin> set_tree A" "x \<notin> set_tree B" "x \<notin> set_tree C" "y \<notin> set_tree A" "y \<notin> set_tree B" "y \<notin> set_tree C"
    "z \<notin> set_tree A" "z \<notin> set_tree B" "z \<notin> set_tree C" "x \<notin> set (path_nodes ps)" "y \<notin> set (path_nodes ps)" "z \<notin> set (path_nodes ps)"
    "set_tree A \<inter> set (path_nodes ps) = {}" "set_tree B \<inter> set (path_nodes ps) = {}" "set_tree C \<inter> set (path_nodes ps) = {}"
    "distinct (inorder A)" "distinct (inorder B)" "distinct (inorder C)" "distinct (path_nodes ps)"
    using dist by auto
  define b where "b = root_at z B"
  have b: "B \<noteq> Leaf \<Longrightarrow> b \<notin> set_tree A" "B \<noteq> Leaf \<Longrightarrow> b \<notin> set_tree C" "b \<noteq> x" "b \<noteq> y" "b \<notin> set (path_nodes ps)" "b = z \<longleftrightarrow> B = Leaf"
    unfolding b_def using dist root_at_in [of B z] root_at_out [of x z B] root_at_out [of y z B] by (cases B; auto)+
  define s1 where "s1 = set_side (\<not> d) x (Some b) s"
  define s2 where "s2 = (if B = Leaf then s1 else set_parent b (Some x) s1)"
  define s3 where "s3 = set_parent y (n_parent (H x)) s2"
  define s4 where "s4 = relink ps y s3"
  define s5 where "s5 = set_parent x (Some y) (set_side d y (Some x) s4)"
  have z: "rb_sentinel s1 = z" "rb_sentinel s2 = z" "rb_sentinel s3 = z" "rb_sentinel s4 = z" "rb_sentinel s5 = z"
    by (simp_all add: s1_def s2_def s3_def s4_def s5_def z_def)
  have H: "rb_node s5 = (rb_node s4)(y := (put_side d (Some x) (rb_node s4 y)), x := (rb_node s4 x)\<lparr>n_parent := Some y\<rparr>)"
    "rb_node s3 y = (H y)\<lparr>n_parent := n_parent (H x)\<rparr>" "rb_node s3 x = put_side (\<not> d) (Some b) (H x)"
    "B \<noteq> Leaf \<Longrightarrow> rb_node s3 b = (H b)\<lparr>n_parent := Some x\<rparr>"
    "\<And>u. u \<noteq> x \<Longrightarrow> u \<noteq> y \<Longrightarrow> B = Leaf \<or> u \<noteq> b \<Longrightarrow> rb_node s3 u = H u"
    using ne b by (auto simp: s1_def s2_def s3_def s5_def H_def)
  have 4: "rb_node s4 u = rb_node s3 u" if "u \<notin> set (path_nodes ps)" for u using that by (simp add: s4_def)
  have x: "rb_node s5 x = (put_side (\<not> d) (Some b) (H x))\<lparr>n_parent := Some y\<rparr>" using ne by (simp add: H 4)
  have y: "rb_node s5 y = put_side d (Some x) ((H y)\<lparr>n_parent := n_parent (H x)\<rparr>)" using ne by (simp add: H 4)
  have "b \<noteq> x" "b \<noteq> y" "b \<notin> set (path_nodes ps)" using b by auto
  then have bb: "rb_node s5 b = (if B = Leaf then H b else (H b)\<lparr>n_parent := Some x\<rparr>)" by (simp add: H 4)
  have u: "rb_node s5 u = H u" if "u \<noteq> x" "u \<noteq> y" "B = Leaf \<or> u \<noteq> b" "u \<notin> set (path_nodes ps)" for u
    using that by (simp add: H 4)
  have same: "n_key (rb_node s5 u) = n_key (H u) \<and> n_data (rb_node s5 u) = n_data (H u) \<and> n_color (rb_node s5 u) = n_color (H u)" for u
    by (simp add: s5_def s4_def s3_def s2_def s1_def H_def)
  have "rb_node s5 z = H z" using ne b by (intro u) auto
  with same have "kept s s5" unfolding kept_def z_def [symmetric] H_def [symmetric] by (simp add: z)
  have links: "links z (rb_node s5) T = links z H T" "under z (rb_node s5) a T = under z H a T"
    if "x \<notin> set_tree T" "y \<notin> set_tree T" "B \<noteq> Leaf \<Longrightarrow> b \<notin> set_tree T" "set_tree T \<inter> set (path_nodes ps) = {}" for T a
  proof -
    have 1: "rb_node s5 v = H v" if "v \<in> set_tree T" for v
      using that \<open>x \<notin> set_tree T\<close> \<open>y \<notin> set_tree T\<close> \<open>B \<noteq> Leaf \<Longrightarrow> b \<notin> set_tree T\<close> \<open>set_tree T \<inter> set (path_nodes ps) = {}\<close>
      by (intro u) auto
    then show "links z (rb_node s5) T = links z H T" by (intro links_cong) auto
    show "under z (rb_node s5) a T = under z H a T" using 1 root_at_in [of T z] by (auto simp: under_def)
  qed
  have "links z (rb_node s5) B"
  proof -
    have "links z (rb_node s5) B = links z (H(b := (H b)\<lparr>n_parent := Some x\<rparr>)) B"
    proof (rule links_cong)
      fix v assume v: "v \<in> set_tree B"
      then have "v = b \<or> rb_node s5 v = H v" using ne by (cases "v = b") (auto intro!: u)
      moreover have "B \<noteq> Leaf" using v by auto
      ultimately show "n_left (rb_node s5 v) = n_left ((H(b := (H b)\<lparr>n_parent := Some x\<rparr>)) v) \<and>
         n_right (rb_node s5 v) = n_right ((H(b := (H b)\<lparr>n_parent := Some x\<rparr>)) v) \<and>
         n_parent (rb_node s5 v) = n_parent ((H(b := (H b)\<lparr>n_parent := Some x\<rparr>)) v)"
        using bb by auto
    qed
    also have "\<dots> = links z H B" using ne by (intro links_parent) (auto simp: b_def)
    finally show ?thesis using l by simp
  qed
  moreover have "under z (rb_node s5) x B" using bb by (auto simp: under_def b_def)
  moreover have "links z (rb_node s5) A" "links z (rb_node s5) C" "under z (rb_node s5) x A" "under z (rb_node s5) y C"
    using l ne b by (auto simp: links)
  moreover have "clinks z (rb_node s5) (rb_root s5) ps y"
  proof -
    have "clinks z (rb_node s3) (rb_root s3) ps x"
      using l(13) ne b by (simp add: s3_def s2_def s1_def H_def)
    then have "clinks z (rb_node s4) (rb_root s4) ps y" unfolding s4_def using ne by (intro clinks_relink) auto
    then show ?thesis using ne by (simp add: s5_def)
  qed
  moreover have "over (rb_node s5) ps y" using l(12) by (simp add: over_def y)
  moreover have "distinct (z # inorder (nodeb d (nodeb d A x B) y C) @ path_nodes ps)" using dist
    by auto
  ultimately have "focus s5 (nodeb d (nodeb d A x B) y C) ps"
    using l x y unfolding focus_def z by (auto simp: under_def b_def)
  moreover have "rotate d x s = Some s5"
  proof -
    have 1: "side d (rb_node s1 y) = Some b" "rb_node s1 x = put_side (\<not> d) (Some b) (H x)" "n_parent (rb_node s2 x) = n_parent (H x)"
      using ne l b by (simp_all add: s1_def s2_def H_def b_def)
    have "(if x = rb_root s3 then Some (s3\<lparr>rb_root := y\<rparr>)
          else do { p \<leftarrow> n_parent (rb_node s3 x);
            Some (if side d (rb_node s3 p) = Some x then set_side d p (Some y) s3 else set_side (\<not> d) p (Some y) s3) })
     = Some s4"
      unfolding s4_def
    proof (rule relink_code)
      show "clinks z H (rb_root s3) ps x" using l by (simp add: s3_def s2_def s1_def)
      show "\<forall>g\<in>set (path_nodes ps). rb_node s3 g = H g" using ne b by (auto intro!: H(5))
      show "n_parent (rb_node s3 x) = n_parent (H x)" by (simp add: H)
    qed (use l ne in auto)
    note 4 = this
    have 5: "set_side (\<not> d) x (side d (H y)) s = s1" using l by (simp add: b_def s1_def)
    have 6: "(if side d (rb_node s1 y) \<noteq> Some (rb_sentinel s1)
          then do { b \<leftarrow> side d (rb_node s1 y); Some (set_parent b (Some x) s1) } else Some s1) = Some s2"
      using 1 b by (simp add: z s2_def)
    have 7: "set_parent y (n_parent (rb_node s2 x)) s2 = s3" using 1 by (simp add: s3_def)
    show ?thesis
      by (simp only: rotate_def H_def [symmetric] l(2) Option.bind.simps Let_def 5 6 7 4 s5_def)
  qed
  ultimately show thesis using that \<open>kept s s5\<close> by blast
qed

fun before :: "path \<Rightarrow> nat list" where
  "before [] = []"
| "before ((d, a, U) # ps) = before ps @ (if d then [] else inorder U @ [a])"

fun after :: "path \<Rightarrow> nat list" where
  "after [] = []"
| "after ((d, a, U) # ps) = (if d then a # inorder U else []) @ after ps"

lemma inorder_plug: "inorder (plug T ps) = before ps @ inorder T @ after ps"
  by (induction T ps rule: plug.induct) (simp_all add: nodeb_def)

subsection \<open>Colours\<close>

definition red :: "rbtree \<Rightarrow> nat \<Rightarrow> bool" where
  "red s x = rbtree_is_red x s"

lemma red_simps [simp]:
  "red (rbtree_red x s) = (red s)(x := True)" "red (rbtree_black x s) = (red s)(x := False)"
  "red (rbtree_copy_color x y s) = (red s)(x := red s y)"
  "red (set_left x p s) = red s" "red (set_right x p s) = red s" "red (set_parent x p s) = red s" "red (set_side d x p s) = red s"
  by (auto simp: fun_eq_iff red_def rbtree_is_red_def)

lemma kept_red: "kept s s' \<Longrightarrow> red s' = red s"
  by (auto simp: kept_def red_def rbtree_is_red_def)

fun red_top :: "(nat \<Rightarrow> bool) \<Rightarrow> nat tree \<Rightarrow> bool" where
  "red_top c Leaf = False"
| "red_top c (Node l a r) = c a"

text \<open>\<open>n\<close> is the number of black nodes on every way down.\<close>

fun rbt :: "(nat \<Rightarrow> bool) \<Rightarrow> nat tree \<Rightarrow> nat \<Rightarrow> bool" where
  "rbt c Leaf n \<longleftrightarrow> n = 0"
| "rbt c (Node l a r) n \<longleftrightarrow> (if c a then \<not> red_top c l \<and> \<not> red_top c r \<and> rbt c l n \<and> rbt c r n
     else (\<exists>m. n = Suc m \<and> rbt c l m \<and> rbt c r m))"

text \<open>The path accepts a subtree with \<open>n\<close> black nodes on every way down, red at its top or not.\<close>

fun rbp :: "(nat \<Rightarrow> bool) \<Rightarrow> path \<Rightarrow> nat \<Rightarrow> bool \<Rightarrow> bool" where
  "rbp c [] n rd \<longleftrightarrow> \<not> rd"
| "rbp c ((d, a, U) # ps) n rd \<longleftrightarrow> rbt c U n \<and> (if c a then \<not> rd \<and> \<not> red_top c U \<and> rbp c ps n True else rbp c ps (Suc n) False)"

lemma red_top_nodeb [simp]: "red_top c (nodeb d T a U) = c a"
  by (simp add: nodeb_def)

lemma rbt_nodeb [simp]:
  "rbt c (nodeb d T a U) n \<longleftrightarrow> (if c a then \<not> red_top c T \<and> \<not> red_top c U \<and> rbt c T n \<and> rbt c U n
     else (\<exists>m. n = Suc m \<and> rbt c T m \<and> rbt c U m))"
  by (auto simp: nodeb_def)

lemma red_top_cong: "(\<And>x. x \<in> set_tree T \<Longrightarrow> c' x = c x) \<Longrightarrow> red_top c' T = red_top c T"
  by (cases T) auto

lemma rbt_cong: "(\<And>x. x \<in> set_tree T \<Longrightarrow> c' x = c x) \<Longrightarrow> rbt c' T n = rbt c T n"
proof (induction T arbitrary: n)
  case (Node l a r)
  then have "red_top c' l = red_top c l" "red_top c' r = red_top c r" by (auto intro!: red_top_cong)
  with Node show ?case by simp
qed simp

lemma red_top_fresh [simp]: "x \<notin> set_tree T \<Longrightarrow> red_top (c(x := b)) T = red_top c T"
  by (rule red_top_cong) auto

lemma rbt_fresh [simp]: "x \<notin> set_tree T \<Longrightarrow> rbt (c(x := b)) T n = rbt c T n"
  by (rule rbt_cong) auto

lemma rbp_cong: "(\<And>x. x \<in> set (path_nodes ps) \<Longrightarrow> c' x = c x) \<Longrightarrow> rbp c' ps n rd = rbp c ps n rd"
proof (induction ps arbitrary: n rd)
  case (Cons f ps)
  obtain d a U where f: "f = (d, a, U)" by (cases f) auto
  then have "rbt c' U = rbt c U" "red_top c' U = red_top c U" using Cons.prems by (auto intro!: ext rbt_cong red_top_cong)
  with f Cons show ?case by simp
qed simp

lemma rbp_fresh [simp]: "x \<notin> set (path_nodes ps) \<Longrightarrow> rbp (c(x := b)) ps n rd = rbp c ps n rd"
  by (rule rbp_cong) auto

lemma rbp_black: "rbp c ps n rd \<Longrightarrow> rbp c ps n False"
  by (cases "(c, ps, n, rd)" rule: rbp.cases) auto

text \<open>A node with one side stripped of a black level.\<close>

lemma rbt_black_nodeb:
  assumes "rbt c T n" "\<not> red_top c T" "0 < n"
  obtains P w Q where "T = nodeb d P w Q" "\<not> c w" "rbt c P (n - 1)" "rbt c Q (n - 1)"
proof -
  have "T \<noteq> Leaf" using assms by auto
  then obtain P w Q where "T = nodeb d P w Q" by (rule nodeb_cases [of T d])
  then show ?thesis using assms that [of P w Q] by auto
qed

lemma rbt_red_nodeb:
  assumes "rbt c T n" "red_top c T"
  obtains P w Q where "T = nodeb d P w Q" "c w" "rbt c P n" "rbt c Q n" "\<not> red_top c P" "\<not> red_top c Q"
proof -
  have "T \<noteq> Leaf" using assms by auto
  then obtain P w Q where "T = nodeb d P w Q" by (rule nodeb_cases [of T d])
  then show ?thesis using assms that [of P w Q] by auto
qed

definition rb_ok :: "(nat \<Rightarrow> bool) \<Rightarrow> nat tree \<Rightarrow> bool" where
  "rb_ok c T \<longleftrightarrow> (\<exists>n. rbt c T n) \<and> \<not> red_top c T"

lemma rb_ok_plug: "rb_ok c (plug T ps) \<longleftrightarrow> (\<exists>n. rbt c T n \<and> rbp c ps n (red_top c T))"
proof (induction T ps rule: plug.induct)
  case (2 T d a U ps)
  then show ?case by auto
qed (auto simp: rb_ok_def)

subsection \<open>Places in a linked tree\<close>

lemma nodeb_not: "nodeb (\<not> d) T a U = nodeb d U a T"
  by (simp add: nodeb_def)

lemma focus_up:
  assumes "focus s T ((d, a, U) # ps)"
  shows "side d (rb_node s a) = Some (root_at (rb_sentinel s) T)" "side (\<not> d) (rb_node s a) = Some (root_at (rb_sentinel s) U)"
    and "T \<noteq> Leaf \<Longrightarrow> n_parent (rb_node s (root_at (rb_sentinel s) T)) = Some a"
    and "root_at (rb_sentinel s) T \<noteq> rb_root s"
    and "T \<noteq> Leaf \<Longrightarrow> n_left (rb_node s a) = Some (root_at (rb_sentinel s) T) \<longleftrightarrow> d"
    and "over (rb_node s) ps a"
proof -
  let ?z = "rb_sentinel s"
  have f: "clinks ?z (rb_node s) (rb_root s) ((d, a, U) # ps) (root_at ?z T)" "distinct (?z # inorder T @ path_nodes ((d, a, U) # ps))"
    "T \<noteq> Leaf \<longrightarrow> over (rb_node s) ((d, a, U) # ps) (root_at ?z T)" using assms by (auto simp: focus_def)
  have "rb_root s \<in> set (path_nodes ((d, a, U) # ps))" using clinks_root [OF f(1)] by blast
  moreover have "root_at ?z T \<notin> set (path_nodes ((d, a, U) # ps))" using f(2) root_at_in [of T ?z] by (cases T) auto
  ultimately show "root_at ?z T \<noteq> rb_root s" by metis
  show "side d (rb_node s a) = Some (root_at ?z T)" "side (\<not> d) (rb_node s a) = Some (root_at ?z U)" "over (rb_node s) ps a"
    using f(1) by auto
  have "T \<noteq> Leaf \<Longrightarrow> root_at ?z U \<noteq> root_at ?z T"
    using f(2) root_at_in [of T ?z] by (intro root_at_out [of "root_at ?z T" ?z U]) fastforce+
  then show "T \<noteq> Leaf \<Longrightarrow> n_left (rb_node s a) = Some (root_at ?z T) \<longleftrightarrow> d"
    using f(1) by (cases d) (auto simp: side_def)
  show "T \<noteq> Leaf \<Longrightarrow> n_parent (rb_node s (root_at ?z T)) = Some a" using f(3) by (simp add: over_def)
qed

lemma focus_root: "focus s T [] \<Longrightarrow> rb_root s = root_at (rb_sentinel s) T"
  by (simp add: focus_def)

text \<open>What a routine that moves nodes and changes colours leaves as it was.\<close>

definition same_data :: "rbtree \<Rightarrow> rbtree \<Rightarrow> bool" where
  "same_data s s' \<longleftrightarrow> rb_sentinel s' = rb_sentinel s \<and> \<not> red s' (rb_sentinel s)
     \<and> (\<forall>x. n_key (rb_node s' x) = n_key (rb_node s x) \<and> n_data (rb_node s' x) = n_data (rb_node s x))"

lemma same_data_trans: "same_data s t \<Longrightarrow> same_data t u \<Longrightarrow> same_data s u"
  by (simp add: same_data_def)

lemma kept_same: "kept s s' \<Longrightarrow> \<not> red s (rb_sentinel s) \<Longrightarrow> same_data s s'"
  by (simp add: kept_def same_data_def red_def rbtree_is_red_def)

definition good :: "rbtree \<Rightarrow> nat tree \<Rightarrow> bool" where
  "good s T \<longleftrightarrow> focus s T [] \<and> rb_ok (red s) T \<and> \<not> red s (rb_sentinel s)"

end
