(* ===== verification/Rbtree_Insert.thy ===== *)
theory Rbtree_Insert
  imports Rbtree_Shape
begin

section \<open>Insertion into the red-black tree and its minimum\<close>

text \<open>
  \<open>rbtree_insert\<close> puts a node after the nodes with a key up to its own and before the others,
  keeps the colours in order and always returns; \<open>rbtree_min\<close> is the first node.
\<close>

subsection \<open>Restoring the balance\<close>

definition insert_side :: "bool \<Rightarrow> nat \<Rightarrow> rbtree \<Rightarrow> (nat \<times> rbtree) option" where
  "insert_side d x s = do {
     p \<leftarrow> n_parent (rb_node s x);
     g \<leftarrow> n_parent (rb_node s p);
     temp \<leftarrow> side (\<not> d) (rb_node s g);
     if rbtree_is_red temp s then Some (g, rbtree_red g (rbtree_black temp (rbtree_black p s)))
     else do {
       (x, s) \<leftarrow> (if side (\<not> d) (rb_node s p) = Some x
                  then do { s \<leftarrow> rotate d p s; Some (p, s) }
                  else Some (x, s));
       p \<leftarrow> n_parent (rb_node s x);
       let s = rbtree_black p s;
       g \<leftarrow> n_parent (rb_node s p);
       let s = rbtree_red g s;
       s \<leftarrow> rotate (\<not> d) g s;
       Some (x, s) } }"

lemma insert_side_eq: "insert_left = insert_side True" "insert_right = insert_side False"
  by (unfold insert_left_def insert_right_def insert_side_def rotate_eq side_def if_True if_False not_True_eq_False not_False_eq_True) (rule refl)+

lemma red_top_at: "T \<noteq> Leaf \<Longrightarrow> red_top c T = c (root_at z T)"
  by (cases T) auto

lemma red_top_eq: "\<not> c z \<Longrightarrow> red_top c T = c (root_at z T)"
  by (cases T) auto

text \<open>A node that is out of order only with its parent.\<close>

definition heir :: "rbtree \<Rightarrow> nat tree \<Rightarrow> path \<Rightarrow> nat \<Rightarrow> bool" where
  "heir s T ps n \<longleftrightarrow> focus s T ps \<and> T \<noteq> Leaf \<and> red_top (red s) T \<and> rbt (red s) T n \<and> rbp (red s) ps n False \<and> \<not> red s (rb_sentinel s)"

lemma focus_distinct: "focus s T ps \<Longrightarrow> distinct (rb_sentinel s # inorder T @ path_nodes ps)"
  by (simp add: focus_def)

lemma rbt_blacken:
  assumes "rbt c T n" "red_top c T" "distinct (inorder T)" "x = root_at z T"
  shows "rbt (c(x := False)) T (Suc n)"
proof -
  obtain l a r where "T = Node l a r" using assms(2) by (cases T) auto
  then show ?thesis using assms by auto
qed

lemma rbt_paint_black:
  assumes "rbt c T n" "\<not> red_top c T" "distinct (inorder T)" "x = root_at z T" "z \<notin> set_tree T"
  shows "rbt (c(x := False)) T n"
  using assms by (cases T) auto

lemma insert_recolour:
  assumes "heir s T ((d, a, U) # (e, g, V) # qs) n" "red s a" "red_top (red s) V"
  shows "\<exists>s'. insert_side e (root_at (rb_sentinel s) T) s = Some (g, s') \<and> same_data s s'
      \<and> heir s' (nodeb e (nodeb d T a U) g V) qs (Suc n)"
proof -
  let ?z = "rb_sentinel s" and ?x = "root_at (rb_sentinel s) T"
  have f: "focus s T ((d, a, U) # (e, g, V) # qs)" "T \<noteq> Leaf" using assms by (auto simp: heir_def)
  then have g: "focus s (nodeb d T a U) ((e, g, V) # qs)" by (simp add: focus_Cons)
  note up = focus_up [OF f(1)] focus_up [OF g]
  have V: "V \<noteq> Leaf" "red s (root_at ?z V)" using assms(3) by (auto simp: red_top_at) (cases V; simp)+
  let ?s = "rbtree_red g (rbtree_black (root_at ?z V) (rbtree_black a s))"
  have "insert_side e ?x s = Some (g, ?s)" using up V f(2) by (simp add: insert_side_def red_def)
  moreover have "same_data s ?s"
    using assms(1) focus_distinct [OF f(1)] by (auto simp: same_data_def heir_def)
  moreover have "heir ?s (nodeb e (nodeb d T a U) g V) qs (Suc n)"
  proof -
    let ?c = "red s" and ?v = "root_at ?z V"
    have c: "rbt ?c T n" "rbt ?c U n" "\<not> red_top ?c U" "rbt ?c V n" "\<not> ?c g" "rbp ?c qs (Suc n) False" "\<not> ?c ?z"
      using assms by (auto simp: heir_def split: if_splits)
    have dist: "distinct (?z # inorder T @ a # inorder U @ g # inorder V @ path_nodes qs)" using focus_distinct [OF f(1)] by auto
    have v: "?v \<notin> set_tree T" "?v \<notin> set_tree U" "?v \<notin> set (path_nodes qs)" "?v \<noteq> g" "?v \<noteq> a" "?v \<noteq> ?z"
      using dist root_at_in [OF V(1), of ?z] by auto
    have "rbt (?c(a := False)) V n" "red_top (?c(a := False)) V" using c dist assms(3) by auto
    then have "rbt (?c(a := False, ?v := False)) V (Suc n)" using dist by (intro rbt_blacken) auto
    then have "rbt (red ?s) V (Suc n)" using dist by simp
    moreover have "\<not> red_top (red ?s) V" using dist v by (simp add: red_top_at [OF V(1), of _ ?z])
    moreover have "rbt (red ?s) T n" "rbt (red ?s) U n" "rbp (red ?s) qs (Suc n) False" using c v dist by auto
    moreover have "red ?s g" "\<not> red ?s a" "\<not> red ?s ?z" using dist v c by auto
    moreover have "focus ?s (nodeb e (nodeb d T a U) g V) qs" using f by (simp add: focus_Cons)
    ultimately show ?thesis by (simp add: heir_def)
  qed
  ultimately show ?thesis by blast
qed

text \<open>The last rotation: the black grandparent goes down.\<close>

lemma insert_lift:
  assumes "focus s (nodeb e (nodeb e T a U) g V) qs" "T \<noteq> Leaf" "red s a" "\<not> red s g" "red_top (red s) T" "\<not> red_top (red s) U" "\<not> red_top (red s) V"
    "rbt (red s) T n" "rbt (red s) U n" "rbt (red s) V n" "rbp (red s) qs (Suc n) False" "\<not> red s (rb_sentinel s)"
  shows "\<exists>s'. rotate (\<not> e) g (rbtree_red g (rbtree_black a s)) = Some s' \<and> same_data s s'
     \<and> heir s' T ((e, a, nodeb e U g V) # qs) n \<and> \<not> red s' a"
proof -
  let ?s = "rbtree_red g (rbtree_black a s)"
  have eq: "nodeb e (nodeb e T a U) g V = nodeb (\<not> e) V g (nodeb (\<not> e) U a T)" by (simp add: nodeb_not)
  have "focus ?s (nodeb (\<not> e) V g (nodeb (\<not> e) U a T)) qs" using assms(1) unfolding eq by simp
  then obtain s' where s': "rotate (\<not> e) g ?s = Some s'" "focus s' (nodeb (\<not> e) (nodeb (\<not> e) V g U) a T) qs" "kept ?s s'"
    by (rule rotate_ok)
  have f: "focus s' T ((e, a, nodeb e U g V) # qs)" using s'(2) by (simp add: focus_Cons nodeb_not)
  have dist: "distinct (rb_sentinel s # inorder T @ a # inorder U @ g # inorder V @ path_nodes qs)"
    using focus_distinct [OF assms(1)] by auto
  have "heir s' T ((e, a, nodeb e U g V) # qs) n"
    using f dist assms unfolding heir_def kept_red [OF s'(3)] by (auto simp: kept_def s'(3) [unfolded kept_def])
  moreover have "same_data s s'" using s'(3) dist assms(12) by (auto simp: same_data_def kept_def red_def rbtree_is_red_def)
  moreover have "\<not> red s' a" using dist by (simp add: kept_red [OF s'(3)])
  ultimately show ?thesis using s'(1) by blast
qed

lemma insert_rotations:
  assumes "heir s T ((d, a, U) # (e, g, V) # qs) n" "red s a" "\<not> red_top (red s) V"
  shows "\<exists>s' P m Q. insert_side e (root_at (rb_sentinel s) T) s = Some (root_at (rb_sentinel s) P, s') \<and> same_data s s' \<and> \<not> red s' m
      \<and> heir s' P ((e, m, Q) # qs) n \<and> inorder (nodeb e P m Q) = inorder (nodeb e (nodeb d T a U) g V)"
proof -
  let ?z = "rb_sentinel s" and ?x = "root_at (rb_sentinel s) T" and ?c = "red s"
  have f: "focus s T ((d, a, U) # (e, g, V) # qs)" "T \<noteq> Leaf" using assms by (auto simp: heir_def)
  then have g: "focus s (nodeb d T a U) ((e, g, V) # qs)" by (simp add: focus_Cons)
  note up = focus_up [OF f(1)] focus_up [OF g]
  have c: "rbt ?c T n" "red_top ?c T" "rbt ?c U n" "\<not> red_top ?c U" "rbt ?c V n" "\<not> ?c g" "rbp ?c qs (Suc n) False" "\<not> ?c ?z"
    using assms by (auto simp: heir_def split: if_splits)
  have v: "\<not> rbtree_is_red (root_at ?z V) s" using assms(3) c(8) by (simp add: red_top_eq [of ?c ?z] red_def)
  have dist: "distinct (?z # inorder T @ a # inorder U @ g # inorder V @ path_nodes qs)" using focus_distinct [OF f(1)] by auto
  show ?thesis
  proof (cases "d = e")
    case True
    then have outer: "side (\<not> e) (rb_node s a) \<noteq> Some ?x"
      using up f(2) dist root_at_out [of ?x ?z U] root_at_in [of T ?z] by fastforce
    have "focus s (nodeb e (nodeb e T a U) g V) qs" using g True by (simp add: focus_Cons)
    then obtain s' where s': "rotate (\<not> e) g (rbtree_red g (rbtree_black a s)) = Some s'" "same_data s s'"
      "heir s' T ((e, a, nodeb e U g V) # qs) n" "\<not> red s' a"
      using insert_lift [OF _ f(2) assms(2) c(6) c(2) c(4) assms(3) c(1,3,5,7,8)] by blast
    have "insert_side e ?x s = Some (?x, s')"
      using up f(2) v outer s'(1) True by (simp add: insert_side_def Let_def)
    moreover have "inorder (nodeb e T a (nodeb e U g V)) = inorder (nodeb e (nodeb d T a U) g V)" using True by (simp add: nodeb_def)
    ultimately show ?thesis using s' by blast
  next
    case False
    then have d: "d = (\<not> e)" by auto
    obtain B x C where T: "T = nodeb e B x C" "?c x" "rbt ?c B n" "rbt ?c C n" "\<not> red_top ?c B" "\<not> red_top ?c C"
      using rbt_red_nodeb [OF c(1,2), of e] by blast
    have "focus s (nodeb e U a (nodeb e B x C)) ((e, g, V) # qs)" using g d T by (simp add: nodeb_not)
    then obtain t where t: "rotate e a s = Some t" "focus t (nodeb e (nodeb e U a B) x C) ((e, g, V) # qs)" "kept s t" by (rule rotate_ok)
    have tz: "rb_sentinel t = ?z" "red t = ?c" using t(3) kept_red [OF t(3)] by (auto simp: kept_def)
    have ft: "focus t (nodeb e (nodeb e U a B) x C) ((e, g, V) # qs)" "focus t (nodeb e U a B) ((e, x, C) # (e, g, V) # qs)"
      using t(2) by (simp_all add: focus_Cons)
    note upt = focus_up [OF ft(1)] focus_up [OF ft(2)]
    have "focus t (nodeb e (nodeb e (nodeb e U a B) x C) g V) qs" using t(2) by (simp add: focus_Cons)
    then obtain s' where s': "rotate (\<not> e) g (rbtree_red g (rbtree_black x t)) = Some s'" "same_data t s'"
      "heir s' (nodeb e U a B) ((e, x, nodeb e C g V) # qs) n" "\<not> red s' x"
      using insert_lift [of t e "nodeb e U a B" x C g V qs n] T c assms(2,3) unfolding tz by auto
    have "insert_side e ?x s = Some (a, s')"
      using up f(2) v t(1) upt s'(1) unfolding d by (simp add: insert_side_def Let_def)
    moreover have "inorder (nodeb e (nodeb e U a B) x (nodeb e C g V)) = inorder (nodeb e (nodeb d T a U) g V)"
      using d T by (simp add: nodeb_def)
    moreover have "same_data s s'" using s'(2) kept_same [OF t(3)] c(8) same_data_trans by blast
    moreover have "a = root_at ?z (nodeb e U a B)" by simp
    ultimately show ?thesis using s' by metis
  qed
qed

text \<open>The end of the loop.\<close>

lemma insert_balance_end:
  assumes "heir s T ps n" "ps = [] \<or> \<not> red s (fst (snd (hd ps)))"
  shows "insert_balance (root_at (rb_sentinel s) T) s = Some s" "good (rbtree_black (rb_root s) s) (plug T ps)" "same_data s (rbtree_black (rb_root s) s)"
proof -
  have h: "focus s T ps" "T \<noteq> Leaf" "red_top (red s) T" "rbt (red s) T n" "rbp (red s) ps n False" "\<not> red s (rb_sentinel s)"
    using assms(1) by (auto simp: heir_def)
  have f: "focus s (plug T ps) []" using h(1) focus_plug by blast
  show "same_data s (rbtree_black (rb_root s) s)" using h by (simp add: same_data_def)
  show "insert_balance (root_at (rb_sentinel s) T) s = Some s"
  proof (cases ps)
    case Nil
    then have "root_at (rb_sentinel s) T = rb_root s" using h(1) focus_root by fastforce
    then show ?thesis by (simp add: insert_balance.simps)
  next
    case (Cons fr qs)
    obtain d a U where fr: "fr = (d, a, U)" by (cases fr) auto
    note up = focus_up [of s T d a U qs]
    show ?thesis using up h(1,2) assms(2) Cons fr by (simp add: insert_balance.simps red_def)
  qed
  have "rb_ok (red (rbtree_black (rb_root s) s)) (plug T ps)"
  proof (cases ps)
    case Nil
    then have "rb_root s = root_at (rb_sentinel s) T" using h(1) focus_root by fastforce
    moreover obtain l a r where "T = Node l a r" using h(2) by (cases T) auto
    ultimately show ?thesis using Nil h focus_distinct [OF h(1)] by (auto simp: rb_ok_def)
  next
    case (Cons fr qs)
    then have "rbp (red s) ps n True" using h(5) assms(2) by (cases fr) auto
    then have ok: "rb_ok (red s) (plug T ps)" using h by (auto simp: rb_ok_plug)
    moreover have "(red s)(rb_root s := False) = red s"
    proof -
      have "\<not> red s (rb_root s)" using ok f focus_root [OF f] by (simp add: rb_ok_def red_top_eq [of "red s" "rb_sentinel s"] h(6))
      then show ?thesis by (simp add: fun_eq_iff)
    qed
    ultimately show ?thesis by simp
  qed
  then show "good (rbtree_black (rb_root s) s) (plug T ps)" using f h(6) by (simp add: good_def)
qed

lemma insert_balance_ok:
  assumes "heir s T ps n"
  shows "\<exists>s' T'. do { s \<leftarrow> insert_balance (root_at (rb_sentinel s) T) s; Some (rbtree_black (rb_root s) s) } = Some s'
      \<and> same_data s s' \<and> good s' T' \<and> inorder T' = inorder (plug T ps)"
  using assms
proof (induction "length ps" arbitrary: s T ps n rule: less_induct)
  case less
  let ?x = "root_at (rb_sentinel s) T"
  show ?case
  proof (cases "ps = [] \<or> \<not> red s (fst (snd (hd ps)))")
    case True
    show ?thesis using insert_balance_end [OF less.prems True] by auto
  next
    case False
    then obtain d a U ps' where ps: "ps = (d, a, U) # ps'" and a: "red s a" by (cases ps) auto
    have "rbp (red s) ps' n True" using less.prems ps a by (simp add: heir_def)
    then obtain e g V qs where ps': "ps' = (e, g, V) # qs" by (cases ps') auto
    have f: "focus s T ((d, a, U) # (e, g, V) # qs)" "T \<noteq> Leaf" using less.prems by (simp_all add: heir_def ps ps')
    then have g: "focus s (nodeb d T a U) ((e, g, V) # qs)" by (simp add: focus_Cons)
    have step: "insert_balance ?x s = do { (x, s) \<leftarrow> insert_side e ?x s; insert_balance x s }"
      using focus_up [OF f(1)] focus_up [OF g] f(2) a
      by (subst insert_balance.simps) (cases e; simp add: red_def insert_side_eq)
    have h: "heir s T ((d, a, U) # (e, g, V) # qs) n" using less.prems by (simp add: ps ps')
    show ?thesis
    proof (cases "red_top (red s) V")
      case True
      then obtain s' where s': "insert_side e ?x s = Some (g, s')" "same_data s s'" "heir s' (nodeb e (nodeb d T a U) g V) qs (Suc n)"
        using insert_recolour [OF h a] by blast
      have "rb_sentinel s' = rb_sentinel s" using s'(2) by (simp add: same_data_def)
      then show ?thesis
        using less.hyps [OF _ s'(3)] s'(1,2) same_data_trans [OF s'(2)] unfolding step by (fastforce simp: ps ps')
    next
      case False
      then obtain s' P m Q where s': "insert_side e ?x s = Some (root_at (rb_sentinel s) P, s')" "same_data s s'" "\<not> red s' m"
        "heir s' P ((e, m, Q) # qs) n" "inorder (nodeb e P m Q) = inorder (nodeb e (nodeb d T a U) g V)"
        using insert_rotations [OF h a] by blast
      have "rb_sentinel s' = rb_sentinel s" using s'(2) by (simp add: same_data_def)
      moreover have "inorder (plug P ((e, m, Q) # qs)) = inorder (plug T ps)"
        using s'(5) by (simp add: ps ps' inorder_plug)
      ultimately show ?thesis
        using insert_balance_end [OF s'(4)] s'(1,2,3) same_data_trans [OF s'(2)] unfolding step
        by (intro exI [of _ "rbtree_black (rb_root s') s'"] exI [of _ "plug P ((e, m, Q) # qs)"]) simp
    qed
  qed
qed

lemma tmo_ins_split:
  assumes "\<forall>e\<in>set xs. fst e \<le> k" "\<forall>e\<in>set ys. k < fst e"
  shows "tmo_ins k m (xs @ ys) = xs @ (k, m) # ys"
  using assms by (induction xs) (simp_all split: list.splits, cases ys, auto)
subsection \<open>The tree as the list of its nodes\<close>

definition view :: "rbtree \<Rightarrow> nat list \<Rightarrow> (int \<times> nat) list" where
  "view s xs = map (\<lambda>x. (n_key (rb_node s x), x)) xs"

lemma view_simps [simp]:
  "view s [] = []" "view s (x # xs) = (n_key (rb_node s x), x) # view s xs" "view s (xs @ ys) = view s xs @ view s ys"
  "snd ` set (view s xs) = set xs" "map snd (view s xs) = xs"
  by (auto simp: view_def image_iff comp_def)

text \<open>The tree is sound and holds these keys and nodes, in this order.\<close>

definition rb_repr :: "rbtree \<Rightarrow> (int \<times> nat) list \<Rightarrow> bool" where
  "rb_repr s q \<longleftrightarrow> (\<exists>T. good s T \<and> view s (inorder T) = q) \<and> sorted (map fst q)"

lemma node_min_links:
  assumes "links (rb_sentinel s) (rb_node s) (Node l a r)" "rb_sentinel s \<notin> set_tree (Node l a r)"
  shows "rbtree_node_min a s = Some (hd (inorder (Node l a r)))"
  using assms
proof (induction l arbitrary: a r)
  case Leaf
  then show ?case by (simp add: rbtree_node_min.simps)
next
  case (Node ll b lr)
  have "rbtree_node_min a s = rbtree_node_min b s" using Node.prems by (subst rbtree_node_min.simps) simp
  also have "\<dots> = Some (hd (inorder (Node ll b lr)))" using Node.prems by (intro Node.IH(1)) auto
  finally show ?case by (simp add: hd_append)
qed

lemma rbtree_min_repr:
  assumes "rb_repr s q"
  shows "rbtree_min s = Some (case q of [] \<Rightarrow> None | e # _ \<Rightarrow> Some (snd e))"
proof -
  obtain T where T: "focus s T []" "view s (inorder T) = q" using assms by (auto simp: rb_repr_def good_def)
  show ?thesis
  proof (cases T)
    case Leaf
    then show ?thesis using T focus_root [OF T(1)] by (simp add: rbtree_min_def)
  next
    case (Node l a r)
    have "inorder T \<noteq> []" by (simp add: Node)
    then have "q \<noteq> [] \<and> snd (hd q) = hd (inorder T)" using T(2) by (cases "inorder T") auto
    moreover have "rbtree_node_min a s = Some (hd (inorder T))" using T(1) unfolding Node by (intro node_min_links) (auto simp: focus_def)
    moreover have "a \<noteq> rb_sentinel s" using T(1) by (auto simp: focus_def Node)
    ultimately show ?thesis using focus_root [OF T(1)] by (cases q) (auto simp: rbtree_min_def Node)
  qed
qed

subsection \<open>Insertion\<close>

text \<open>The search ends at the empty place between the keys up to \<open>k\<close> and the greater ones.\<close>

definition splits :: "rbtree \<Rightarrow> int \<Rightarrow> path \<Rightarrow> bool" where
  "splits s k ps \<longleftrightarrow> (\<forall>y\<in>set (before ps). n_key (rb_node s y) \<le> k) \<and> (\<forall>y\<in>set (after ps). k < n_key (rb_node s y))"

lemma insert_spot_ok:
  assumes "focus s (Node l a r) ps" "sorted (map (\<lambda>y. n_key (rb_node s y)) (inorder (Node l a r)))" "splits s k ps"
  shows "\<exists>left b U qs. insert_spot k a s = Some (b, left) \<and> focus s Leaf ((left, b, U) # qs)
    \<and> plug Leaf ((left, b, U) # qs) = plug (Node l a r) ps \<and> splits s k ((left, b, U) # qs)"
  using assms
proof (induction "Node l a r" arbitrary: l a r ps)
  case (Node l a r)
  show ?case
  proof (cases "k < n_key (rb_node s a)")
    case True
    have n: "nodeb True l a r = Node l a r" by (simp add: nodeb_def)
    have f: "focus s l ((True, a, r) # ps)" using Node.prems(1) by (simp add: focus_Cons n)
    have sp: "splits s k ((True, a, r) # ps)" using Node.prems(2,3) True by (fastforce simp: splits_def sorted_append)
    show ?thesis
    proof (cases l)
      case Leaf
      have "n_left (rb_node s a) = Some (rb_sentinel s)" using Node.prems(1) by (simp add: focus_def Leaf)
      then have "insert_spot k a s = Some (a, True)" using True by (simp add: insert_spot.simps)
      then show ?thesis using f sp n Leaf by (metis plug.simps(2))
    next
      case (Node ll b lr)
      have "n_left (rb_node s a) = Some b" "b \<noteq> rb_sentinel s" using Node.prems(1) by (auto simp: focus_def Node)
      then have "insert_spot k a s = insert_spot k b s" using True by (subst insert_spot.simps) simp
      then show ?thesis using Node.hyps(1) [OF Node f [unfolded Node] _ sp] Node.prems(2) n Node by (simp add: sorted_append)
    qed
  next
    case False
    have n: "nodeb False r a l = Node l a r" by (simp add: nodeb_def)
    have f: "focus s r ((False, a, l) # ps)" using Node.prems(1) by (simp add: focus_Cons n)
    have sp: "splits s k ((False, a, l) # ps)" using Node.prems(2,3) False by (fastforce simp: splits_def sorted_append)
    show ?thesis
    proof (cases r)
      case Leaf
      have "n_right (rb_node s a) = Some (rb_sentinel s)" using Node.prems(1) by (simp add: focus_def Leaf)
      then have "insert_spot k a s = Some (a, False)" using False by (simp add: insert_spot.simps)
      then show ?thesis using f sp n Leaf by (metis plug.simps(2))
    next
      case (Node rl b rr)
      have "n_right (rb_node s a) = Some b" "b \<noteq> rb_sentinel s" using Node.prems(1) by (auto simp: focus_def Node)
      then have "insert_spot k a s = insert_spot k b s" using False by (subst insert_spot.simps) simp
      then show ?thesis using Node.hyps(2) [OF Node f [unfolded Node] _ sp] Node.prems(2) n Node by (simp add: sorted_append)
    qed
  qed
qed

lemma focus_insert:
  assumes "focus s Leaf ((d, b, U) # ps)" "x \<noteq> rb_sentinel s" "x \<notin> set (path_nodes ((d, b, U) # ps))"
  defines "s' \<equiv> rbtree_red x (set_right x (Some (rb_sentinel s)) (set_left x (Some (rb_sentinel s)) (set_parent x (Some b) (set_side d b (Some x) s))))"
  shows "focus s' (Node Leaf x Leaf) ((d, b, U) # ps)"
  using assms by (simp add: focus_def)

lemma rbtree_insert_repr:
  assumes "rb_repr s q" "x \<noteq> rb_sentinel s" "x \<notin> snd ` set q"
  shows "\<exists>s'. rbtree_insert x s = Some s' \<and> rb_repr s' (tmo_ins (n_key (rb_node s x)) x q) \<and> same_data s s'"
proof -
  let ?k = "n_key (rb_node s x)" and ?z = "rb_sentinel s"
  obtain T where T: "good s T" "view s (inorder T) = q" "sorted (map fst q)" using assms(1) by (auto simp: rb_repr_def)
  have x: "x \<notin> set_tree T" using T(2) assms(3) by (metis set_inorder view_simps(4))
  show ?thesis
  proof (cases T)
    case Leaf
    then have "rb_root s = ?z" using T(1) focus_root by (fastforce simp: good_def)
    let ?s = "(rbtree_black x (set_right x (Some ?z) (set_left x (Some ?z) (set_parent x None s))))\<lparr>rb_root := x\<rparr>"
    have "rbtree_insert x s = Some ?s" using \<open>rb_root s = ?z\<close> by (simp add: rbtree_insert_def Let_def)
    moreover have "good ?s (Node Leaf x Leaf)" "same_data s ?s"
      using T(1) assms(2) by (auto simp: good_def focus_def under_def rb_ok_def red_def rbtree_is_red_def same_data_def)
    moreover have "q = []" using Leaf T(2) by simp
    ultimately show ?thesis by (intro exI [of _ ?s] conjI) (auto simp: rb_repr_def intro!: exI [of _ "Node Leaf x Leaf"])
  next
    case (Node l a r)
    have f: "focus s (Node l a r) []" using T(1) by (simp add: good_def Node)
    have "sorted (map (\<lambda>y. n_key (rb_node s y)) (inorder (Node l a r)))"
      using T(2,3) by (simp add: view_def comp_def Node [symmetric] flip: T(2))
    then obtain d b U ps where sp: "insert_spot ?k a s = Some (b, d)" "focus s Leaf ((d, b, U) # ps)"
      "plug Leaf ((d, b, U) # ps) = T" "splits s ?k ((d, b, U) # ps)"
      using insert_spot_ok [OF f] Node by (fastforce simp: splits_def)
    have nodes: "set_tree T = set (path_nodes ((d, b, U) # ps))"
      using mset_plug [of Leaf "(d, b, U) # ps"] unfolding sp(3) by (metis add_0 inorder.simps(1) mset.simps(1) set_inorder set_mset_mset)
    define s1 where "s1 = rbtree_red x (set_right x (Some ?z) (set_left x (Some ?z) (set_parent x (Some b) (set_side d b (Some x) s))))"
    have f1: "focus s1 (Node Leaf x Leaf) ((d, b, U) # ps)" unfolding s1_def using sp(2) assms(2) x nodes by (intro focus_insert) auto
    have s1: "rb_sentinel s1 = ?z" "red s1 = (red s)(x := True)" "n_key (rb_node s1 y) = n_key (rb_node s y)" "n_data (rb_node s1 y) = n_data (rb_node s y)" for y
      by (simp_all add: s1_def)
    have "rb_ok (red s) (plug Leaf ((d, b, U) # ps))" using T(1) sp(3) by (simp add: good_def)
    then have "rbp (red s) ((d, b, U) # ps) 0 False" by (simp only: rb_ok_plug) simp
    then have h: "heir s1 (Node Leaf x Leaf) ((d, b, U) # ps) 0"
      using f1 x nodes T(1) assms(2) unfolding heir_def s1 by (simp add: good_def)
    obtain s' T' where s': "do { s \<leftarrow> insert_balance x s1; Some (rbtree_black (rb_root s) s) } = Some s'"
      "same_data s1 s'" "good s' T'" "inorder T' = inorder (plug (Node Leaf x Leaf) ((d, b, U) # ps))"
      using insert_balance_ok [OF h] by auto
    have "rb_root s \<noteq> ?z" using f by (auto simp: focus_def)
    then have "rbtree_insert x s = do { s \<leftarrow> insert_balance x s1; Some (rbtree_black (rb_root s) s) }"
      using sp(1) focus_root [OF f] by (cases d) (simp_all add: rbtree_insert_def Let_def s1_def set_side_def)
    then have "rbtree_insert x s = Some s'" using s'(1) by simp
    moreover have same: "same_data s s'" using s'(2) by (simp add: same_data_def s1)
    moreover have "view s' (inorder T') = tmo_ins ?k x q"
    proof -
      have v: "view s' ys = view s ys" for ys using same by (simp add: view_def same_data_def)
      have "q = view s (before ((d, b, U) # ps)) @ view s (after ((d, b, U) # ps))"
        using T(2) sp(3) inorder_plug [of Leaf "(d, b, U) # ps"] by (metis append_Nil inorder.simps(1) view_simps(3))
      then have "tmo_ins ?k x q = view s (before ((d, b, U) # ps)) @ (?k, x) # view s (after ((d, b, U) # ps))"
        using sp(4) by (simp only:) (intro tmo_ins_split; auto simp: splits_def view_def)
      also have "\<dots> = view s' (inorder T')" unfolding s'(4) inorder_plug v by simp
      finally show ?thesis by simp
    qed
    ultimately show ?thesis using s'(3) sorted_tmo_ins [OF T(3)] unfolding rb_repr_def by blast
  qed
qed

end
