(* ===== verification/Rbtree_Delete.thy ===== *)
theory Rbtree_Delete
  imports Rbtree_Insert
begin

section \<open>Deletion from the red-black tree\<close>

text \<open>
  \<open>rbtree_delete\<close> takes out exactly its node, keeps the colours in order and always returns.
  A node with two subtrees is replaced by the minimum of the right one; the fixup loop moves a
  missing black node up until a red node takes it or a rotation supplies it.
\<close>

subsection \<open>The fixup loop\<close>

definition delete_rest :: "bool \<Rightarrow> nat \<Rightarrow> nat \<Rightarrow> rbtree \<Rightarrow> (nat \<times> rbtree) option" where
  "delete_rest d temp w s = do {
     wl \<leftarrow> n_left (rb_node s w);
     wr \<leftarrow> n_right (rb_node s w);
     if rbtree_is_black wl s \<and> rbtree_is_black wr s then do {
       let s = rbtree_red w s;
       p \<leftarrow> n_parent (rb_node s temp);
       Some (p, s) }
     else do {
       (w, s) \<leftarrow> (if rbtree_is_black (if d then wr else wl) s then do {
            let s = rbtree_black (if d then wl else wr) s;
            let s = rbtree_red w s;
            s \<leftarrow> rotate (\<not> d) w s;
            p \<leftarrow> n_parent (rb_node s temp);
            w \<leftarrow> side (\<not> d) (rb_node s p);
            Some (w, s) }
          else Some (w, s));
       p \<leftarrow> n_parent (rb_node s temp);
       let s = rbtree_copy_color w p s;
       let s = rbtree_black p s;
       far \<leftarrow> side (\<not> d) (rb_node s w);
       let s = rbtree_black far s;
       s \<leftarrow> rotate d p s;
       Some (rb_root s, s) } }"

definition delete_side :: "bool \<Rightarrow> nat \<Rightarrow> rbtree \<Rightarrow> (nat \<times> rbtree) option" where
  "delete_side d temp s = do {
     p \<leftarrow> n_parent (rb_node s temp);
     w \<leftarrow> side (\<not> d) (rb_node s p);
     (w, s) \<leftarrow> (if rbtree_is_red w s then do {
          let s = rbtree_black w s;
          let s = rbtree_red p s;
          s \<leftarrow> rotate d p s;
          p \<leftarrow> n_parent (rb_node s temp);
          w \<leftarrow> side (\<not> d) (rb_node s p);
          Some (w, s) }
        else Some (w, s));
     delete_rest d temp w s }"

lemma delete_side_eq: "delete_left = delete_side True" "delete_right = delete_side False"
  by (unfold delete_left_def delete_right_def delete_side_def delete_rest_def rotate_eq side_def if_True if_False not_True_eq_False not_False_eq_True) (rule refl)+

text \<open>
  The subtree \<open>X\<close> lacks one black node: repainting its top would mend it, or one more
  black node is needed on every way down.
\<close>

definition lacking :: "rbtree \<Rightarrow> nat tree \<Rightarrow> path \<Rightarrow> nat \<Rightarrow> bool" where
  "lacking s X ps n \<longleftrightarrow> focus s X ps \<and> over (rb_node s) ps (root_at (rb_sentinel s) X) \<and> \<not> red s (rb_sentinel s)
     \<and> rbp (red s) ps (Suc n) False
     \<and> (if red_top (red s) X then rbt ((red s)(root_at (rb_sentinel s) X := False)) X (Suc n) else rbt (red s) X n)"

lemma lacking_end:
  assumes "lacking s X ps n" "ps = [] \<or> red_top (red s) X"
  shows "delete_fixup (root_at (rb_sentinel s) X) s = Some (root_at (rb_sentinel s) X, s)"
    "good (rbtree_black (root_at (rb_sentinel s) X) s) (plug X ps)" "same_data s (rbtree_black (root_at (rb_sentinel s) X) s)"
proof -
  let ?x = "root_at (rb_sentinel s) X"
  have h: "focus s X ps" "\<not> red s (rb_sentinel s)" "rbp (red s) ps (Suc n) False"
     "if red_top (red s) X then rbt ((red s)(?x := False)) X (Suc n) else rbt (red s) X n"
    using assms(1) by (auto simp: lacking_def)
  note dist = focus_distinct [OF h(1)]
  have x: "?x \<notin> set (path_nodes ps)" using dist root_at_in [of X "rb_sentinel s"] by (cases X) auto
  have r: "red_top (red s) X = red s ?x" using h(2) by (rule red_top_eq)
  have "ps = [] \<Longrightarrow> ?x = rb_root s" using h(1) focus_root by fastforce
  then show "delete_fixup ?x s = Some (?x, s)" using assms(2) r by (subst delete_fixup.simps) (auto simp: rbtree_is_black_def red_def)
  show "same_data s (rbtree_black ?x s)" using h by (simp add: same_data_def)
  have "rb_ok (red (rbtree_black ?x s)) (plug X ps)"
  proof (cases "red s ?x")
    case True
    then have "rbt ((red s)(?x := False)) X (Suc n)" "rbp ((red s)(?x := False)) ps (Suc n) False" using h r x by auto
    moreover have "\<not> red_top ((red s)(?x := False)) X" by (cases X) auto
    ultimately show ?thesis by (auto simp: rb_ok_plug)
  next
    case False
    then have "(red s)(?x := False) = red s" by (simp add: fun_eq_iff)
    moreover have "ps = []" using False r assms(2) by auto
    ultimately show ?thesis using h r False by (auto simp: rb_ok_def)
  qed
  moreover have "focus s (plug X ps) []" using h(1) focus_plug by blast
  ultimately show "good (rbtree_black ?x s) (plug X ps)" using h(2) by (simp add: good_def)
qed

lemma lackingI:
  assumes "focus s' X ((d, a, V) # qs)" "rb_node s' (rb_sentinel s') = rb_node t (rb_sentinel s')"
     "X = Leaf \<Longrightarrow> n_parent (rb_node t (rb_sentinel s')) = Some a" "\<not> red s' (rb_sentinel s')" "\<not> red_top (red s') X" "rbt (red s') X n"
    "rbp (red s') ((d, a, V) # qs) (Suc n) False"
  shows "lacking s' X ((d, a, V) # qs) n"
  using assms focus_up(3) [OF assms(1)] by (cases "X = Leaf") (auto simp: lacking_def)

text \<open>A black sibling without a red child.\<close>

lemma rest_repaint:
  assumes l: "lacking s X ((d, a, nodeb d P w Q) # qs) n" and "\<not> red_top (red s) X" "\<not> red s w" "\<not> red_top (red s) P" "\<not> red_top (red s) Q"
  shows "\<exists>s' m. delete_rest d (root_at (rb_sentinel s) X) w s = Some (a, s') \<and> same_data s s'
     \<and> lacking s' (nodeb d X a (nodeb d P w Q)) qs m \<and> (red s a \<longrightarrow> red s' a)"
proof -
  let ?z = "rb_sentinel s" and ?c = "red s" and ?s = "rbtree_red w s"
  have h: "focus s X ((d, a, nodeb d P w Q) # qs)" "n_parent (rb_node s (root_at ?z X)) = Some a" "\<not> ?c ?z" "rbt ?c X n"
    "rbp ?c ((d, a, nodeb d P w Q) # qs) (Suc n) False" using l assms(2) by (auto simp: lacking_def)
  have dist: "distinct (?z # inorder X @ a # w # inorder P @ inorder Q @ path_nodes qs)" using focus_distinct [OF h(1)] by auto
  have U: "rbt ?c P n" "rbt ?c Q n" using h(5) assms(3) by auto
  have up: "focus s (nodeb d X a (nodeb d P w Q)) qs" using h(1) by (simp add: focus_Cons)
  have "links ?z (rb_node s) (nodeb d P w Q)" using h(1) by (simp add: focus_def)
  then have w: "side d (rb_node s w) = Some (root_at ?z P)" "side (\<not> d) (rb_node s w) = Some (root_at ?z Q)" by simp_all
  have blk: "rbtree_is_black (root_at ?z P) s" "rbtree_is_black (root_at ?z Q) s"
    using assms(4,5) red_top_eq [of ?c ?z P] red_top_eq [of ?c ?z Q] h(3) by (simp_all add: rbtree_is_black_def red_def)
  have "w \<noteq> root_at ?z X" using dist root_at_out [of w ?z X] by auto
  then have "delete_rest d (root_at ?z X) w s = Some (a, ?s)"
    using w blk h(2) by (cases d) (simp_all add: delete_rest_def side_def Let_def)
  moreover have "same_data s ?s" using h(3) dist by (auto simp: same_data_def)
  moreover have "lacking ?s (nodeb d X a (nodeb d P w Q)) qs (if ?c a then n else Suc n)"
    using up h(3,4,5) dist U assms(2-5) focus_up(6) [OF h(1)] by (auto simp: lacking_def intro: rbp_black [of _ _ _ True])
  moreover have "red s a \<longrightarrow> red ?s a" by simp
  ultimately show ?thesis by blast
qed

text \<open>A red child far from \<open>X\<close>: its sibling goes up and the tree is mended.\<close>

lemma rest_lift:
  assumes f: "focus s X ((d, a, nodeb d P w Q) # qs)" and "\<not> red s (rb_sentinel s)" "\<not> red_top (red s) X" "\<not> red s w" "red_top (red s) Q"
    "rbt (red s) X n" "rbt (red s) P n" "rbt (red s) Q n" "if red s a then rbp (red s) qs (Suc n) True else rbp (red s) qs (Suc (Suc n)) False"
  defines "s1 \<equiv> rbtree_black (root_at (rb_sentinel s) Q) (rbtree_black a (rbtree_copy_color w a s))"
  shows "\<exists>s'. rotate d a s1 = Some s' \<and> same_data s s'
     \<and> good s' (plug (nodeb d (nodeb d X a P) w Q) qs)"
proof -
  let ?z = "rb_sentinel s" and ?c = "red s" and ?q = "root_at (rb_sentinel s) Q"
  have dist: "distinct (?z # inorder X @ a # w # inorder P @ inorder Q @ path_nodes qs)" using focus_distinct [OF f] by auto
  have Q: "Q \<noteq> Leaf" using assms(5) by auto
  have q: "?q \<in> set_tree Q" by (rule root_at_in [OF Q])
  then have q': "?q \<noteq> a" "?q \<noteq> w" "?q \<noteq> ?z" "?q \<notin> set_tree X" "?q \<notin> set_tree P" "?q \<notin> set (path_nodes qs)" using dist by auto
  have "focus s1 (nodeb d X a (nodeb d P w Q)) qs" unfolding s1_def using f by (simp add: focus_Cons)
  then obtain s' where s': "rotate d a s1 = Some s'" "focus s' (nodeb d (nodeb d X a P) w Q) qs" "kept s1 s'" by (rule rotate_ok)
  have c: "red s' = ?c(w := ?c a, a := False, ?q := False)" using kept_red [OF s'(3)] by (simp add: s1_def)
  have z: "rb_sentinel s' = ?z" using s'(3) by (simp add: kept_def s1_def)
  have "rbt (?c(w := ?c a, a := False)) Q n" "red_top (?c(w := ?c a, a := False)) Q" using dist assms(5,8) by auto
  then have "rbt (red s') Q (Suc n)" unfolding c using dist by (intro rbt_blacken) auto
  moreover have "\<not> red_top (red s') Q" using q' by (simp add: c red_top_at [OF Q, of _ ?z])
  moreover have "rbt (red s') X n" "rbt (red s') P n" using q' dist assms(6,7) by (simp_all add: c)
  moreover have "red s' w = ?c a" "\<not> red s' a" "\<not> red s' ?z" using q' dist assms(2) by (auto simp: c)
  moreover have "rbp (red s') qs k b = rbp ?c qs k b" for k b using q' dist by (simp add: c)
  ultimately have "rb_ok (red s') (plug (nodeb d (nodeb d X a P) w Q) qs)"
    using assms(9) unfolding rb_ok_plug by (auto split: if_splits)
  moreover have "focus s' (plug (nodeb d (nodeb d X a P) w Q) qs) []" using s'(2) focus_plug by blast
  moreover have "same_data s s'" using s'(3) \<open>\<not> red s' ?z\<close> by (simp add: same_data_def kept_def s1_def)
  ultimately show ?thesis using s'(1) \<open>\<not> red s' ?z\<close> z by (auto simp: good_def)
qed

lemma focus_sibling: "focus s T ((d, a, U) # ps) = focus s U ((\<not> d, a, T) # ps)"
  by (simp add: focus_Cons nodeb_not)

lemma rest_rotations:
  assumes l: "lacking s X ((d, a, nodeb d P w Q) # qs) n" and "\<not> red_top (red s) X" "\<not> red s w" "red_top (red s) P \<or> red_top (red s) Q"
  shows "\<exists>s' T'. delete_rest d (root_at (rb_sentinel s) X) w s = Some (rb_root s', s') \<and> same_data s s'
     \<and> good s' T' \<and> inorder T' = inorder (plug X ((d, a, nodeb d P w Q) # qs))"
proof -
  let ?z = "rb_sentinel s" and ?c = "red s" and ?x = "root_at (rb_sentinel s) X"
  have h: "focus s X ((d, a, nodeb d P w Q) # qs)" "n_parent (rb_node s ?x) = Some a" "\<not> ?c ?z" "rbt ?c X n"
    "rbp ?c ((d, a, nodeb d P w Q) # qs) (Suc n) False" using l assms(2) by (auto simp: lacking_def)
  have dist: "distinct (?z # inorder X @ a # w # inorder P @ inorder Q @ path_nodes qs)" using focus_distinct [OF h(1)] by auto
  have U: "rbt ?c P n" "rbt ?c Q n" "if ?c a then rbp ?c qs (Suc n) True else rbp ?c qs (Suc (Suc n)) False"
    using h(5) assms(3) by (auto split: if_splits)
  have "links ?z (rb_node s) (nodeb d P w Q)" using h(1) by (simp add: focus_def)
  then have w: "side d (rb_node s w) = Some (root_at ?z P)" "side (\<not> d) (rb_node s w) = Some (root_at ?z Q)" by simp_all
  have blk: "rbtree_is_black (root_at ?z P) s = (\<not> red_top ?c P)" "rbtree_is_black (root_at ?z Q) s = (\<not> red_top ?c Q)"
    using red_top_eq [of ?c ?z P] red_top_eq [of ?c ?z Q] h(3) by (simp_all add: rbtree_is_black_def red_def)
  show ?thesis
  proof (cases "red_top ?c Q")
    case True
    obtain s' where s': "rotate d a (rbtree_black (root_at ?z Q) (rbtree_black a (rbtree_copy_color w a s))) = Some s'" "same_data s s'"
      "good s' (plug (nodeb d (nodeb d X a P) w Q) qs)"
      using rest_lift [OF h(1,3) assms(2,3) True h(4) U] by blast
    have "w \<noteq> a" using dist by auto
    then have "delete_rest d ?x w s = Some (rb_root s', s')"
      using w blk True h(2) s'(1) by (cases d) (simp_all add: delete_rest_def side_def Let_def)
    moreover have "inorder (plug (nodeb d (nodeb d X a P) w Q) qs) = inorder (plug X ((d, a, nodeb d P w Q) # qs))"
      by (simp add: inorder_plug) (simp add: nodeb_def)
    ultimately show ?thesis using s' by blast
  next
    case False
    then obtain P1 p P2 where P: "P = nodeb d P1 p P2" "?c p" "rbt ?c P1 n" "rbt ?c P2 n" "\<not> red_top ?c P1" "\<not> red_top ?c P2"
      using rbt_red_nodeb [of ?c P n d] assms(4) U(1) by blast
    let ?t = "rbtree_red w (rbtree_black p s)"
    have "nodeb d P w Q = nodeb (\<not> d) Q w (nodeb (\<not> d) P2 p P1)" by (simp add: P nodeb_not)
    then have "focus ?t (nodeb (\<not> d) Q w (nodeb (\<not> d) P2 p P1)) ((\<not> d, a, X) # qs)" 
      using h(1) focus_sibling [of s X d a "nodeb d P w Q" qs] by simp
    then obtain t where t: "rotate (\<not> d) w ?t = Some t" "focus t (nodeb (\<not> d) (nodeb (\<not> d) Q w P2) p P1) ((\<not> d, a, X) # qs)" "kept ?t t"
      by (rule rotate_ok)
    have ft: "focus t X ((d, a, nodeb d P1 p (nodeb d P2 w Q)) # qs)" 
      using t(2) unfolding focus_sibling [of t X] by (simp add: nodeb_not)
    have tz: "rb_sentinel t = ?z" "red t = ?c(p := False, w := True)" using kept_red [OF t(3)] t(3) by (auto simp: kept_def)
    have "rb_node t ?z = rb_node s ?z" using t(3) dist by (auto simp: kept_def P)
    then have px: "n_parent (rb_node t ?x) = Some a" using focus_up(3) [OF ft] h(2) tz by (cases "X = Leaf") auto
    have up: "side (\<not> d) (rb_node t a) = Some p" using focus_up(2) [OF ft] by simp
    have "links ?z (rb_node t) (nodeb d P1 p (nodeb d P2 w Q))" using ft by (simp add: focus_def tz)
    then have pw: "side (\<not> d) (rb_node t p) = Some w" by simp
    have dp: "distinct (?z # inorder X @ a # w # p # inorder P1 @ inorder P2 @ inorder Q @ path_nodes qs)" using dist by (auto simp: P)
    have tc: "\<not> red t ?z" "\<not> red_top (red t) X" "\<not> red t p" "red_top (red t) (nodeb d P2 w Q)" "rbt (red t) X n" "rbt (red t) P1 n"
      "rbt (red t) (nodeb d P2 w Q) n" "red t a = ?c a" "rbp (red t) qs k b = rbp ?c qs k b" for k b
      using dp h(3,4) assms(2) P U False unfolding tz by auto
    then obtain s' where s': "rotate d a (rbtree_black w (rbtree_black a (rbtree_copy_color p a t))) = Some s'" "same_data t s'"
      "good s' (plug (nodeb d (nodeb d X a P1) p (nodeb d P2 w Q)) qs)"
      using rest_lift [OF ft, of n] U(3) unfolding tz by auto
    have "p \<noteq> a" "w \<noteq> a" "w \<noteq> p" using dp by auto
    then have "delete_rest d ?x w s = Some (rb_root s', s')"
      using w blk False P t(1) px up pw s'(1) by (cases d) (simp_all add: delete_rest_def side_def Let_def)
    moreover have "inorder (plug (nodeb d (nodeb d X a P1) p (nodeb d P2 w Q)) qs) = inorder (plug X ((d, a, nodeb d P w Q) # qs))"
      by (simp add: inorder_plug P) (simp add: nodeb_def)
    moreover have "same_data s s'" using s'(2) t(3) tz by (auto simp: same_data_def kept_def)
    ultimately show ?thesis using s'(3) by blast
  qed
qed

text \<open>A black sibling.\<close>

lemma delete_rest_ok:
  assumes l: "lacking s X ((d, a, nodeb d P w Q) # qs) n" and "\<not> red_top (red s) X" "\<not> red s w"
  shows "\<exists>y s'. delete_rest d (root_at (rb_sentinel s) X) w s = Some (y, s') \<and> same_data s s'
     \<and> ((\<exists>m. y = a \<and> lacking s' (nodeb d X a (nodeb d P w Q)) qs m \<and> (red s a \<longrightarrow> red s' a))
        \<or> y = rb_root s' \<and> (\<exists>T'. good s' T' \<and> inorder T' = inorder (plug X ((d, a, nodeb d P w Q) # qs))))"
proof (cases "red_top (red s) P \<or> red_top (red s) Q")
  case True
  then show ?thesis using rest_rotations [OF assms] by blast
next
  case False
  then show ?thesis using rest_repaint [OF assms] by blast
qed

text \<open>A red sibling: after a rotation the sibling is black and the parent red.\<close>

lemma red_sibling:
  assumes l: "lacking s X ((d, a, nodeb d V w W) # qs) n" and "\<not> red_top (red s) X" "red s w"
  shows "\<exists>s'. rotate d a (rbtree_red a (rbtree_black w s)) = Some s' \<and> same_data s s' \<and> red s' a \<and> \<not> red_top (red s') X
     \<and> \<not> red_top (red s') V \<and> rbt (red s') V (Suc n) \<and> lacking s' X ((d, a, V) # (d, w, W) # qs) n"
proof -
  let ?z = "rb_sentinel s" and ?c = "red s" and ?t = "rbtree_red a (rbtree_black w s)"
  have h: "focus s X ((d, a, nodeb d V w W) # qs)" "n_parent (rb_node s (root_at ?z X)) = Some a" "\<not> ?c ?z" "rbt ?c X n"
    "rbp ?c ((d, a, nodeb d V w W) # qs) (Suc n) False" using l assms(2) by (auto simp: lacking_def)
  have dist: "distinct (?z # inorder X @ a # w # inorder V @ inorder W @ path_nodes qs)" using focus_distinct [OF h(1)] by auto
  have U: "rbt ?c V (Suc n)" "rbt ?c W (Suc n)" "\<not> red_top ?c V" "\<not> red_top ?c W" "\<not> ?c a" "rbp ?c qs (Suc (Suc n)) False"
    using h(5) assms(3) by (auto split: if_splits)
  have "focus ?t (nodeb d X a (nodeb d V w W)) qs" using h(1) by (simp add: focus_Cons)
  then obtain s' where s': "rotate d a ?t = Some s'" "focus s' (nodeb d (nodeb d X a V) w W) qs" "kept ?t s'" by (rule rotate_ok)
  have f: "focus s' X ((d, a, V) # (d, w, W) # qs)" using s'(2) by (simp add: focus_Cons)
  have z: "rb_sentinel s' = ?z" "red s' = ?c(w := False, a := True)" using kept_red [OF s'(3)] s'(3) by (auto simp: kept_def)
  have "rb_node s' ?z = rb_node s ?z" using s'(3) dist by (auto simp: kept_def)
  then have "n_parent (rb_node s' (root_at ?z X)) = Some a" using focus_up(3) [OF f] h(2) z by (cases "X = Leaf") auto
  moreover have "same_data s s'" using s'(3) h(3) dist unfolding same_data_def z by (auto simp: kept_def)
  moreover have "rbt (red s') V (Suc n)" "\<not> red_top (red s') V" "\<not> red_top (red s') X" "red s' a"
    using U dist assms(2) by (auto simp: z)
  ultimately show ?thesis using s'(1) f U h(3,4) dist assms(2) unfolding lacking_def by (auto simp: z)
qed

lemma delete_side_ok:
  assumes l: "lacking s X ((d, a, U) # qs) n" and "\<not> red_top (red s) X"
  shows "\<exists>y s'. delete_side d (root_at (rb_sentinel s) X) s = Some (y, s') \<and> same_data s s'
     \<and> ((\<exists>Y ps m. y = root_at (rb_sentinel s) Y \<and> lacking s' Y ps m \<and> (red_top (red s') Y \<or> length ps < length ((d, a, U) # qs))
            \<and> inorder (plug Y ps) = inorder (plug X ((d, a, U) # qs)))
        \<or> y = rb_root s' \<and> (\<exists>T'. good s' T' \<and> inorder T' = inorder (plug X ((d, a, U) # qs))))"
proof -
  let ?z = "rb_sentinel s" and ?c = "red s" and ?x = "root_at (rb_sentinel s) X"
  have h: "focus s X ((d, a, U) # qs)" "n_parent (rb_node s ?x) = Some a" "\<not> ?c ?z"
    "rbt ?c U (Suc n)" using l assms(2) by (auto simp: lacking_def)
  have side: "side (\<not> d) (rb_node s a) = Some (root_at ?z U)" using focus_up(2) [OF h(1)] by simp
  show ?thesis
  proof (cases "red_top ?c U")
    case True
    then obtain V w W where U: "U = nodeb d V w W" "?c w" using rbt_red_nodeb [OF h(4) True, of d] by metis
    obtain s1 where s1: "rotate d a (rbtree_red a (rbtree_black w s)) = Some s1" "same_data s s1" "red s1 a" "\<not> red_top (red s1) X"
      "\<not> red_top (red s1) V" "rbt (red s1) V (Suc n)" "lacking s1 X ((d, a, V) # (d, w, W) # qs) n"
      using red_sibling [OF l [unfolded U] assms(2) U(2)] by blast
    have z: "rb_sentinel s1 = ?z" using s1(2) by (simp add: same_data_def)
    obtain V1 v V2 where V: "V = nodeb d V1 v V2" "\<not> red s1 v" using rbt_black_nodeb [OF s1(6,5), of d] by blast
    have f1: "focus s1 X ((d, a, V) # (d, w, W) # qs)" "n_parent (rb_node s1 ?x) = Some a" using s1(7) by (auto simp: lacking_def z)
    have "side (\<not> d) (rb_node s1 a) = Some v" using focus_up(2) [OF f1(1)] by (simp add: V z)
    then have eq: "delete_side d ?x s = delete_rest d ?x v s1"
      using h(2) side U s1(1) f1(2) by (simp add: delete_side_def red_def Let_def)
    obtain y s' where s': "delete_rest d ?x v s1 = Some (y, s')" "same_data s1 s'"
      "(\<exists>m. y = a \<and> lacking s' (nodeb d X a V) ((d, w, W) # qs) m \<and> red s' a)
        \<or> y = rb_root s' \<and> (\<exists>T'. good s' T' \<and> inorder T' = inorder (plug X ((d, a, V) # (d, w, W) # qs)))"
      using delete_rest_ok [OF s1(7) [unfolded V] s1(4) V(2)] s1(3) unfolding z V by blast
    have io: "inorder (plug X ((d, a, V) # (d, w, W) # qs)) = inorder (plug X ((d, a, U) # qs))"
      by (simp add: inorder_plug U) (simp add: nodeb_def)
    then have "inorder (plug (nodeb d X a V) ((d, w, W) # qs)) = inorder (plug X ((d, a, U) # qs))" by simp
    moreover have "red_top (red s') (nodeb d X a V) = red s' a" "root_at ?z (nodeb d X a V) = a" by simp_all
    ultimately show ?thesis using s' same_data_trans [OF s1(2) s'(2)] io unfolding eq by metis
  next
    case False
    then obtain P w Q where U: "U = nodeb d P w Q" "\<not> ?c w" using rbt_black_nodeb [OF h(4) False, of d] by blast
    have eq: "delete_side d ?x s = delete_rest d ?x w s"
      using h(2) side U by (simp add: delete_side_def red_def)
    obtain y s' where s': "delete_rest d ?x w s = Some (y, s')" "same_data s s'"
      "(\<exists>m. y = a \<and> lacking s' (nodeb d X a U) qs m) \<or> y = rb_root s' \<and> (\<exists>T'. good s' T' \<and> inorder T' = inorder (plug X ((d, a, U) # qs)))"
      using delete_rest_ok [OF l [unfolded U] assms(2) U(2)] unfolding U by blast
    have "inorder (plug (nodeb d X a U) qs) = inorder (plug X ((d, a, U) # qs))" "length qs < length ((d, a, U) # qs)" "root_at ?z (nodeb d X a U) = a"
      by simp_all
    then show ?thesis using s' unfolding eq by metis
  qed
qed

lemma good_end:
  assumes "good s T"
  shows "delete_fixup (rb_root s) s = Some (rb_root s, s)" "good (rbtree_black (rb_root s) s) T" "same_data s (rbtree_black (rb_root s) s)"
proof -
  have "\<not> red s (rb_root s)" using assms focus_root [of s T] red_top_eq [of "red s" "rb_sentinel s" T] by (auto simp: good_def rb_ok_def)
  then have "(red s)(rb_root s := False) = red s" by (simp add: fun_eq_iff)
  then show "good (rbtree_black (rb_root s) s) T" "same_data s (rbtree_black (rb_root s) s)"
    using assms by (simp_all add: good_def same_data_def)
qed (simp add: delete_fixup.simps)

lemma delete_fixup_ok:
  assumes "lacking s X ps n"
  shows "\<exists>s' T'. do { (temp, s) \<leftarrow> delete_fixup (root_at (rb_sentinel s) X) s; Some (rbtree_black temp s) } = Some s'
     \<and> same_data s s' \<and> good s' T' \<and> inorder T' = inorder (plug X ps)"
  using assms
proof (induction "length ps" arbitrary: s X ps n rule: less_induct)
  case less
  let ?z = "rb_sentinel s" and ?x = "root_at (rb_sentinel s) X"
  show ?case
  proof (cases "ps = [] \<or> red_top (red s) X")
    case True
    show ?thesis using lacking_end [OF less.prems True] by auto
  next
    case False
    then obtain d a U qs where ps: "ps = (d, a, U) # qs" by (cases ps) auto
    note l = less.prems [unfolded ps]
    have h: "focus s X ((d, a, U) # qs)" "n_parent (rb_node s ?x) = Some a" "\<not> red s ?z" "rbt (red s) U (Suc n)"
      using l False by (auto simp: lacking_def)
    have up: "side d (rb_node s a) = Some ?x" "side (\<not> d) (rb_node s a) = Some (root_at ?z U)" "?x \<noteq> rb_root s"
      using focus_up(1,2,4) [OF h(1)] by auto
    have "U \<noteq> Leaf" using h(4) by auto
    then have "root_at ?z U \<noteq> ?x" using focus_distinct [OF h(1)] root_at_in [of U ?z]
      by (cases "X = Leaf") (fastforce dest: root_at_in [of X ?z])+
    then have "n_left (rb_node s a) = Some ?x \<longleftrightarrow> d" using up by (cases d) (auto simp: side_def)
    moreover have "rbtree_is_black ?x s" using False red_top_eq [of "red s" ?z X] h(3) by (simp add: rbtree_is_black_def red_def)
    ultimately have step: "delete_fixup ?x s = do { (temp, s) \<leftarrow> delete_side d ?x s; delete_fixup temp s }"
      using up h(2) by (subst delete_fixup.simps) (cases d; simp add: delete_side_eq)
    obtain y s1 where s1: "delete_side d ?x s = Some (y, s1)" "same_data s s1"
      "(\<exists>Y ps' m. y = root_at ?z Y \<and> lacking s1 Y ps' m \<and> (red_top (red s1) Y \<or> length ps' < length ps) \<and> inorder (plug Y ps') = inorder (plug X ps))
        \<or> y = rb_root s1 \<and> (\<exists>T'. good s1 T' \<and> inorder T' = inorder (plug X ps))"
      using delete_side_ok [OF l] False unfolding ps by blast
    have z: "rb_sentinel s1 = ?z" using s1(2) by (simp add: same_data_def)
    have "\<exists>s' T'. do { (temp, s) \<leftarrow> delete_fixup y s1; Some (rbtree_black temp s) } = Some s' \<and> same_data s1 s' \<and> good s' T' \<and> inorder T' = inorder (plug X ps)"
      using s1(3)
    proof (elim disjE exE conjE)
      fix Y ps' m assume y: "y = root_at ?z Y" "lacking s1 Y ps' m" "red_top (red s1) Y" "inorder (plug Y ps') = inorder (plug X ps)"
      show ?thesis using lacking_end [OF y(2)] y(1,3,4) z by auto
    next
      fix Y ps' m assume y: "y = root_at ?z Y" "lacking s1 Y ps' m" "length ps' < length ps" "inorder (plug Y ps') = inorder (plug X ps)"
      show ?thesis using less.hyps [OF y(3,2)] y(1,4) z by simp
    next
      fix T' assume y: "y = rb_root s1" "good s1 T'" "inorder T' = inorder (plug X ps)"
      show ?thesis using good_end [OF y(2)] y(1,3) by auto
    qed
    then show ?thesis using s1(1,2) same_data_trans [OF s1(2)] unfolding step by auto
  qed
qed

subsection \<open>Taking a node out\<close>

lemma init_simps [simp]:
  "rb_node (rbtree_node_init x s) = (rb_node s)(x := (rb_node s x)\<lparr>n_left := None, n_right := None, n_parent := None, n_key := 0, n_data := None\<rparr>)"
  "rb_root (rbtree_node_init x s) = rb_root s" "rb_sentinel (rbtree_node_init x s) = rb_sentinel s" "red (rbtree_node_init x s) = red s"
  by (auto simp: rbtree_node_init_def upd_node_def red_def rbtree_is_red_def fun_eq_iff)

lemma focus_init: "x \<notin> set_tree T \<Longrightarrow> x \<notin> set (path_nodes ps) \<Longrightarrow> x \<noteq> rb_sentinel s \<Longrightarrow> focus (rbtree_node_init x s) T ps = focus s T ps"
  unfolding focus_def by (cases T) auto

lemma plug_append: "plug T (ps @ qs) = plug (plug T ps) qs"
  by (induction T ps rule: plug.induct) auto

lemma focus_append: "focus s T (ps @ qs) = focus s (plug T ps) qs"
  by (induction T ps rule: plug.induct) (auto simp: focus_Cons)

lemma path_nodes_append [simp]: "path_nodes (ps @ qs) = path_nodes ps @ path_nodes qs"
  by (induction ps rule: path_nodes.induct) auto

lemma place_of:
  assumes "x \<in> set_tree T"
  shows "\<exists>l r ps. T = plug (Node l x r) ps"
  using assms
proof (induction T)
  case (Node l a r)
  have eq: "plug t [(True, a, r)] = Node t a r" "plug t [(False, a, l)] = Node l a t" for t by (simp_all add: nodeb_def)
  consider "x = a" | "x \<in> set_tree l" | "x \<in> set_tree r" using Node.prems by auto
  then show ?case
  proof cases
    case 1
    then have "Node l a r = plug (Node l x r) []" by simp
    then show ?thesis by blast
  next
    case 2
    then obtain l' r' ps where "l = plug (Node l' x r') ps" using Node.IH(1) by blast
    then have "Node l a r = plug (Node l' x r') (ps @ [(True, a, r)])" by (simp only: plug_append eq)
    then show ?thesis by blast
  next
    case 3
    then obtain l' r' ps where "r = plug (Node l' x r') ps" using Node.IH(2) by blast
    then have "Node l a r = plug (Node l' x r') (ps @ [(False, a, l)])" by (simp only: plug_append eq)
    then show ?thesis by blast
  qed
qed simp

text \<open>A node with at most one subtree, below another node.\<close>

lemma focus_unlink:
  assumes f: "focus s (Node l x r) ((d, a, U) # ps)" and "l = Leaf \<and> X = r \<or> r = Leaf \<and> X = l"
  defines "s' \<equiv> set_parent (root_at (rb_sentinel s) X) (Some a) (set_side d a (Some (root_at (rb_sentinel s) X)) s)"
  shows "focus s' X ((d, a, U) # ps)" "over (rb_node s') ((d, a, U) # ps) (root_at (rb_sentinel s) X)" "red s' = red s"
    "rb_sentinel s' = rb_sentinel s"
proof -
  let ?z = "rb_sentinel s" and ?t = "root_at (rb_sentinel s) X"
  note dist = focus_distinct [OF f]
  have d: "distinct (?z # x # inorder X @ a # inorder U @ path_nodes ps)" using dist assms(2) by auto
  have t: "?t \<noteq> a" "?t \<notin> set_tree U" "?t \<notin> set (path_nodes ps)" using d root_at_in [of X ?z] by (cases "X = Leaf"; auto)+
  have X: "links ?z (rb_node s) X" "clinks ?z (rb_node s) (rb_root s) ((d, a, U) # ps) x" using f assms(2) by (auto simp: focus_def)
  show z: "rb_sentinel s' = ?z" "red s' = red s" by (simp_all add: s'_def)
  show "over (rb_node s') ((d, a, U) # ps) ?t" using t by (simp add: s'_def)
  moreover have "links ?z (rb_node s') X"
    using links_parent [of X ?z ?t "(rb_node s)(a := put_side d (Some ?t) (rb_node s a))" "Some a"] X(1) d t by (simp add: s'_def)
  moreover have "clinks ?z (rb_node s') (rb_root s') ((d, a, U) # ps) ?t" using X(2) d t by (simp add: s'_def)
  ultimately show "focus s' X ((d, a, U) # ps)" using d unfolding focus_def z by auto
qed

lemma unlink_code:
  assumes "focus s T ((d, a, U) # ps)" "T \<noteq> Leaf"
  shows "(if n_left (rb_node s a) = Some (root_at (rb_sentinel s) T) then set_left a y s else set_right a y s) = set_side d a y s"
  using focus_up(5) [OF assms] by (cases d) (simp_all add: set_side_def)

text \<open>The colour of the node that left decides whether the path lacks a black one.\<close>

definition finish :: "bool \<Rightarrow> nat \<Rightarrow> rbtree \<Rightarrow> rbtree option" where
  "finish rd temp s = (if rd then Some s else do { (temp, s) \<leftarrow> delete_fixup temp s; Some (rbtree_black temp s) })"

lemma finish_ok:
  assumes f: "focus s X ps" "over (rb_node s) ps (root_at (rb_sentinel s) X)" "\<not> red s (rb_sentinel s)"
    and "rbt (red s) X n" "if rd then \<not> red_top (red s) X \<and> rbp (red s) ps n True else rbp (red s) ps (Suc n) False"
  shows "\<exists>s' T'. finish rd (root_at (rb_sentinel s) X) s = Some s' \<and> same_data s s' \<and> good s' T' \<and> inorder T' = inorder (plug X ps)"
proof (cases rd)
  case True
  then have "rbp (red s) ps n False" using assms(5) by (auto intro: rbp_black [of _ _ _ True])
  then have "rb_ok (red s) (plug X ps)" using True assms(4,5) by (auto simp: rb_ok_plug)
  then have "good s (plug X ps)" using f(1,3) focus_plug [of s X ps] by (simp add: good_def)
  then show ?thesis using True f(3) by (auto simp: finish_def same_data_def)
next
  case False
  have "distinct (inorder X)" using focus_distinct [OF f(1)] by auto
  then have "lacking s X ps n" using assms False rbt_blacken [of "red s" X n _ "rb_sentinel s"] by (auto simp: lacking_def)
  from delete_fixup_ok [OF this] show ?thesis using False by (simp add: finish_def)
qed

text \<open>What deleting \<open>x\<close> leaves as it was; the node itself is initialised.\<close>

definition other_data :: "nat \<Rightarrow> rbtree \<Rightarrow> rbtree \<Rightarrow> bool" where
  "other_data x s s' \<longleftrightarrow> rb_sentinel s' = rb_sentinel s \<and> n_data (rb_node s' x) = None
     \<and> (\<forall>y. y \<noteq> x \<longrightarrow> n_key (rb_node s' y) = n_key (rb_node s y) \<and> n_data (rb_node s' y) = n_data (rb_node s y))"

lemma delete_single:
  assumes g: "good s (plug (Node l x r) ps)" and X: "l = Leaf \<and> X = r \<or> l \<noteq> Leaf \<and> r = Leaf \<and> X = l"
  shows "\<exists>s' T'. rbtree_delete x s = Some s' \<and> other_data x s s' \<and> good s' T' \<and> inorder T' = inorder (plug X ps)"
proof -
  let ?z = "rb_sentinel s" and ?t = "root_at (rb_sentinel s) X" and ?c = "red s"
  have f: "focus s (Node l x r) ps" "\<not> ?c ?z" "rb_ok ?c (plug (Node l x r) ps)" using g focus_plug [of s "Node l x r" ps] by (auto simp: good_def)
  note dist = focus_distinct [OF f(1)]
  have lk: "n_left (rb_node s x) = Some (root_at ?z l)" "n_right (rb_node s x) = Some (root_at ?z r)" "links ?z (rb_node s) X"
    "clinks ?z (rb_node s) (rb_root s) ps x" "over (rb_node s) ps x" using f(1) X by (auto simp: focus_def)
  have ne: "x \<notin> set_tree X" "x \<noteq> ?z" "x \<notin> set (path_nodes ps)" "?z \<notin> set_tree X" "distinct (inorder X)" using dist X by auto
  have "root_at ?z l \<noteq> ?z" if "l \<noteq> Leaf" using that dist by (subst root_at_eq) auto
  then have sub: "delete_subst x s = Some (x, ?t)" using lk X by (auto simp: delete_subst_def Let_def)
  obtain n where n: "rbt ?c (Node l x r) n" "rbp ?c ps n (?c x)" using f(3) by (auto simp: rb_ok_plug)
  have tx: "?t \<noteq> x" using ne root_at_in [of X ?z] by (cases "X = Leaf") auto
  show ?thesis
  proof (cases ps)
    case Nil
    then have root: "rb_root s = x" using lk(4) by simp
    define s1 where "s1 = rbtree_node_init x (rbtree_black ?t (s\<lparr>rb_root := ?t\<rparr>))"
    have "rbtree_delete x s = Some s1" using sub root by (simp add: rbtree_delete_def s1_def)
    moreover have "other_data x s s1" by (auto simp: other_data_def s1_def)
    moreover have "good s1 X"
    proof -
      have r1: "red s1 = ?c(?t := False)" "rb_sentinel s1 = ?z" by (auto simp: s1_def red_def rbtree_is_red_def fun_eq_iff)
      have "rbt ?c X (n - 1)" using n Nil X by auto
      then have "\<exists>m. rbt (red s1) X m" using rbt_blacken [of ?c X] rbt_paint_black [of ?c X] ne unfolding r1 by blast
      moreover have "\<not> red_top (red s1) X" unfolding r1 by (cases X) auto
      moreover have "focus s1 X []" using lk(3) ne tx by (simp add: focus_def s1_def)
      ultimately show ?thesis using f(2) by (auto simp: good_def rb_ok_def r1)
    qed
    ultimately show ?thesis using Nil by auto
  next
    case (Cons fr qs)
    obtain d a U where ps: "ps = (d, a, U) # qs" using Cons by (cases fr) auto
    have X': "l = Leaf \<and> X = r \<or> r = Leaf \<and> X = l" using X by auto
    define s1 where "s1 = set_parent ?t (Some a) (set_side d a (Some ?t) s)"
    note un = focus_unlink [OF f(1) [unfolded ps] X', folded s1_def]
    define s2 where "s2 = rbtree_node_init x s1"
    have f2: "focus s2 X ps" unfolding s2_def ps using un(1,4) ne ps by (subst focus_init) auto
    have o2: "over (rb_node s2) ps ?t" unfolding s2_def ps using un(2) tx by (simp add: ps)
    have r2: "red s2 = ?c" "rb_sentinel s2 = ?z" using un(3,4) by (simp_all add: s2_def)
    have up: "x \<noteq> rb_root s" "n_parent (rb_node s x) = Some a" using focus_up(3,4) [OF f(1) [unfolded ps]] by auto
    have "x \<noteq> a" using ne ps by auto
    then have code: "rbtree_delete x s = finish (?c x) ?t s2"
      using sub up unlink_code [OF f(1) [unfolded ps], of "Some ?t"]
      by (simp add: rbtree_delete_def finish_def s2_def s1_def Let_def red_def)
    have "rbt ?c X (if ?c x then n else n - 1)" "?c x \<Longrightarrow> \<not> red_top ?c X" "\<not> ?c x \<Longrightarrow> 0 < n" using n X by (auto split: if_splits)
    then have "\<exists>s' T'. finish (?c x) ?t s2 = Some s' \<and> same_data s2 s' \<and> good s' T' \<and> inorder T' = inorder (plug X ps)"
      using finish_ok [OF f2, of "if ?c x then n else n - 1" "?c x"] o2 f(2) n(2) unfolding r2 by (cases "?c x") auto
    moreover have "other_data x s s2" unfolding s2_def s1_def by (simp add: other_data_def)
    ultimately show ?thesis unfolding code by (auto simp: same_data_def other_data_def)
  qed
qed

subsection \<open>A node with two subtrees\<close>

text \<open>The place of \<open>x\<close>, whatever the parents of its subtrees are said to be.\<close>

definition placed :: "rbtree \<Rightarrow> nat tree \<Rightarrow> nat \<Rightarrow> nat tree \<Rightarrow> path \<Rightarrow> bool" where
  "placed s l x r ps \<longleftrightarrow> n_left (rb_node s x) = Some (root_at (rb_sentinel s) l) \<and> n_right (rb_node s x) = Some (root_at (rb_sentinel s) r)
     \<and> links (rb_sentinel s) (rb_node s) l \<and> links (rb_sentinel s) (rb_node s) r \<and> over (rb_node s) ps x
     \<and> clinks (rb_sentinel s) (rb_node s) (rb_root s) ps x \<and> distinct (rb_sentinel s # inorder l @ x # inorder r @ path_nodes ps)"

lemma placed_focus: "focus s (Node l x r) ps \<Longrightarrow> placed s l x r ps"
  by (auto simp: placed_def focus_def)

lemma placed_parent:
  assumes "placed s l x r ps"
  shows "placed (set_parent (root_at (rb_sentinel s) r) p s) l x r ps"
proof -
  let ?z = "rb_sentinel s" and ?t = "root_at (rb_sentinel s) r"
  have "distinct (?z # inorder l @ x # inorder r @ path_nodes ps)" using assms by (auto simp: placed_def)
  then have "?t \<noteq> x" "?t \<notin> set_tree l" "?t \<notin> set (path_nodes ps)" using root_at_in [of r ?z] by (cases "r = Leaf"; auto)+
  then show ?thesis using assms by (simp add: placed_def)
qed

definition replaced :: "nat tree \<Rightarrow> nat \<Rightarrow> nat tree \<Rightarrow> path \<Rightarrow> nat \<Rightarrow> rbtree \<Rightarrow> rbtree" where
  "replaced l x r ps y s =
     (let z = rb_sentinel s;
          s1 = rbtree_copy_color y x (set_parent y (n_parent (rb_node s x)) (set_right y (Some (root_at z r)) (set_left y (Some (root_at z l)) s)));
          s2 = relink ps y s1;
          s3 = (if l = Leaf then s2 else set_parent (root_at z l) (Some y) s2)
      in if r = Leaf then s3 else set_parent (root_at z r) (Some y) s3)"

lemma replaced_red: "red (replaced l x r ps y s) = (red s)(y := red s x)" "rb_sentinel (replaced l x r ps y s) = rb_sentinel s"
  "n_key (rb_node (replaced l x r ps y s) u) = n_key (rb_node s u)" "n_data (rb_node (replaced l x r ps y s) u) = n_data (rb_node s u)"
  by (auto simp: replaced_def Let_def fun_eq_iff red_def rbtree_is_red_def)

lemma replaced_focus:
  assumes p: "placed s l x r ps" and "y \<noteq> rb_sentinel s" "y \<noteq> x" "y \<notin> set_tree l" "y \<notin> set_tree r" "y \<notin> set (path_nodes ps)"
  shows "focus (replaced l x r ps y s) (Node l y r) ps" "rb_node (replaced l x r ps y s) (rb_sentinel s) = rb_node s (rb_sentinel s)"
proof -
  define z H s' where "z = rb_sentinel s" and "H = rb_node s" and "s' = replaced l x r ps y s"
  have d: "distinct (z # x # y # inorder l @ inorder r @ path_nodes ps)" using assms by (auto simp: placed_def z_def)
  have lk: "links z H l" "links z H r" "over H ps x" "clinks z H (rb_root s) ps x" using p by (auto simp: placed_def z_def H_def)
  have tl: "root_at z l \<noteq> y" "root_at z l \<noteq> x" "root_at z l \<notin> set_tree r" "root_at z l \<notin> set (path_nodes ps)"
    using d root_at_in [of l z] by (cases "l = Leaf"; auto)+
  have tr: "root_at z r \<noteq> y" "root_at z r \<noteq> x" "root_at z r \<notin> set_tree l" "root_at z r \<notin> set (path_nodes ps)"
    using d root_at_in [of r z] by (cases "r = Leaf"; auto)+
  have z: "rb_sentinel s' = z" by (simp add: s'_def replaced_red z_def)
  define s1 where "s1 = rbtree_copy_color y x (set_parent y (n_parent (rb_node s x)) (set_right y (Some (root_at z r)) (set_left y (Some (root_at z l)) s)))"
  have s1: "rb_node s1 u = H u" if "u \<noteq> y" for u using that by (simp add: s1_def H_def)
  have y1: "n_left (rb_node s1 y) = Some (root_at z l)" "n_right (rb_node s1 y) = Some (root_at z r)" "n_parent (rb_node s1 y) = n_parent (H x)"
    by (simp_all add: s1_def H_def)
  define s2 where "s2 = relink ps y s1"
  have s2: "rb_node s2 u = rb_node s1 u" if "u \<notin> set (path_nodes ps)" for u using that by (simp add: s2_def)
  have s': "s' = (if r = Leaf then id else set_parent (root_at z r) (Some y)) ((if l = Leaf then id else set_parent (root_at z l) (Some y)) s2)"
    by (simp add: s'_def replaced_def Let_def s1_def s2_def z_def)
  have u: "rb_node s' u = rb_node s2 u" if "l = Leaf \<or> u \<noteq> root_at z l" "r = Leaf \<or> u \<noteq> root_at z r" for u
    using that by (auto simp: s')
  have z2: "rb_node s2 z = H z" using d by (simp add: s2 s1)
  show "rb_node (replaced l x r ps y s) (rb_sentinel s) = rb_node s (rb_sentinel s)"
  proof -
    have "root_at z l = z \<longleftrightarrow> l = Leaf" "root_at z r = z \<longleftrightarrow> r = Leaf" using d by auto
    then have "rb_node s' z = H z" using u [of z] z2 by metis
    then show ?thesis by (simp add: s'_def z_def H_def)
  qed
  have yn: "rb_node s' y = rb_node s1 y" using d tl tr by (simp add: u s2)
  have sub: "links z (rb_node s') T \<and> under z (rb_node s') y T" if T: "T = l \<or> T = r" for T
  proof -
    have dT: "distinct (inorder T)" "z \<notin> set_tree T" "links z H T" using T d lk by auto
    have same: "rb_node s' v = H v" if "v \<in> set_tree T" "v \<noteq> root_at z T" for v
    proof -
      have "v \<notin> set (path_nodes ps)" "v \<noteq> y" using that(1) T d by auto
      then have "rb_node s2 v = H v" by (simp add: s2 s1)
      moreover have "rb_node s' v = rb_node s2 v" using that T tl tr by (intro u) auto
      ultimately show ?thesis by simp
    qed
    have top: "T \<noteq> Leaf \<Longrightarrow> rb_node s' (root_at z T) = (H (root_at z T))\<lparr>n_parent := Some y\<rparr>"
      using T tl tr d root_at_in [of T z] by (auto simp: s' s2 s1)
    have "links z (rb_node s') T = links z (H(root_at z T := (H (root_at z T))\<lparr>n_parent := Some y\<rparr>)) T"
      using same top by (cases "T = Leaf") (auto intro!: links_cong)
    also have "\<dots> = links z H T" using dT by (intro links_parent) auto
    finally show ?thesis using dT(3) top by (auto simp: under_def)
  qed
  have "clinks z (rb_node s1) (rb_root s1) ps x" using lk(4) assms(6) by (simp add: s1_def H_def)
  then have "clinks z (rb_node s2) (rb_root s2) ps y" unfolding s2_def using d by (intro clinks_relink) auto
  then have "clinks z (rb_node s') (rb_root s') ps y" using tl tr by (simp add: s')
  moreover have "over (rb_node s') ps y" using lk(3) y1(3) by (simp add: over_def yn)
  ultimately show "focus (replaced l x r ps y s) (Node l y r) ps"
    using sub d y1 unfolding s'_def [symmetric] focus_def z by (auto simp: yn)
qed

lemma replace_code:
  assumes p: "placed (set_parent t (Some (if a = x then y else a)) s) l x r ps" and "y \<noteq> rb_sentinel s" "y \<noteq> x" "y \<notin> set (path_nodes ps)"
    "n_parent (rb_node s y) = Some a"
  shows "delete_replace x y t s = Some (replaced l x r ps y (set_parent t (Some (if a = x then y else a)) s))"
proof -
  define s0 where "s0 = set_parent t (Some (if a = x then y else a)) s"
  let ?z = "rb_sentinel s"
  have z: "rb_sentinel s0 = ?z" by (simp add: s0_def)
  have lk: "n_left (rb_node s0 x) = Some (root_at ?z l)" "n_right (rb_node s0 x) = Some (root_at ?z r)" "over (rb_node s0) ps x"
    "clinks ?z (rb_node s0) (rb_root s0) ps x" "distinct (?z # inorder l @ x # inorder r @ path_nodes ps)"
    using p by (auto simp: placed_def s0_def)
  define s1 where "s1 = rbtree_copy_color y x (set_parent y (n_parent (rb_node s0 x)) (set_right y (Some (root_at ?z r)) (set_left y (Some (root_at ?z l)) s0)))"
  have s1: "rb_node s1 u = rb_node s0 u" if "u \<noteq> y" for u using that by (simp add: s1_def)
  have "(if x = rb_root s1 then Some (s1\<lparr>rb_root := y\<rparr>)
          else do { q \<leftarrow> n_parent (rb_node s1 x);
            Some (if side True (rb_node s1 q) = Some x then set_side True q (Some y) s1 else set_side (\<not> True) q (Some y) s1) })
     = Some (relink ps y s1)"
    using lk assms(3,4) by (intro relink_code [of ?z "rb_node s0"]) (auto simp: s1 s1_def)
  note rel = this [unfolded side_def set_side_def if_True not_True_eq_False if_False]
  define s2 where "s2 = relink ps y s1"
  have y2: "n_left (rb_node s2 y) = Some (root_at ?z l)" "n_right (rb_node s2 y) = Some (root_at ?z r)" "rb_sentinel s2 = ?z"
    using assms(4) by (simp_all add: s2_def s1_def z)
  have nl: "root_at ?z l = ?z \<longleftrightarrow> l = Leaf" "root_at ?z r = ?z \<longleftrightarrow> r = Leaf" using lk(5) by auto
  define s3 where "s3 = (if l = Leaf then s2 else set_parent (root_at ?z l) (Some y) s2)"
  have y3: "n_right (rb_node s3 y) = Some (root_at ?z r)" "rb_sentinel s3 = ?z" using y2 by (auto simp: s3_def)
  have e0: "(if a = x then set_parent t (Some y) s else set_parent t (Some a) s) = s0" by (simp add: s0_def)
  have e1: "rbtree_copy_color y x (set_parent y (n_parent (rb_node (set_right y (n_right (rb_node (set_left y (n_left (rb_node s0 x)) s0) x)) (set_left y (n_left (rb_node s0 x)) s0)) x))
     (set_right y (n_right (rb_node (set_left y (n_left (rb_node s0 x)) s0) x)) (set_left y (n_left (rb_node s0 x)) s0))) = s1"
    using assms(3) lk(1,2) by (simp add: s1_def)
  have e3: "(if n_left (rb_node s2 y) \<noteq> Some (rb_sentinel s2)
          then do { l \<leftarrow> n_left (rb_node s2 y); Some (set_parent l (Some y) s2) } else Some s2) = Some s3"
    using y2 nl by (simp add: s3_def)
  have e4: "(if n_right (rb_node s3 y) \<noteq> Some (rb_sentinel s3)
     then do { r \<leftarrow> n_right (rb_node s3 y); Some (set_parent r (Some y) s3) } else Some s3)
    = Some (if r = Leaf then s3 else set_parent (root_at ?z r) (Some y) s3)"
    using y3 nl by simp
  have "delete_replace x y t s = Some (if r = Leaf then s3 else set_parent (root_at ?z r) (Some y) s3)"
    by (simp only: delete_replace_def assms(5) Option.bind.simps Let_def e0 e1 rel s2_def [symmetric] e3 e4)
  then show ?thesis unfolding s0_def [symmetric] replaced_def z Let_def s1_def [symmetric] s2_def [symmetric] s3_def [symmetric] .
qed

lemma rbp_replace:
  assumes "c' y = c x" "\<And>v. v \<in> set (path_nodes qs) \<union> set_tree l \<union> set (path_nodes ps) \<Longrightarrow> c' v = c v"
  shows "rbp c' (qs @ (e, y, l) # ps) n rd = rbp c (qs @ (e, x, l) # ps) n rd"
  using assms
proof (induction qs arbitrary: n rd)
  case Nil
  then have "rbt c' l = rbt c l" "red_top c' l = red_top c l" by (auto intro!: ext rbt_cong red_top_cong)
  moreover have "rbp c' ps k b = rbp c ps k b" for k b using Nil by (intro rbp_cong) auto
  ultimately show ?case using Nil by simp
next
  case (Cons f qs)
  obtain d a U where f: "f = (d, a, U)" by (cases f) auto
  then have "rbt c' U = rbt c U" "red_top c' U = red_top c U" "c' a = c a"
    using Cons.prems by (auto intro!: ext rbt_cong red_top_cong)
  with f Cons show ?case by simp
qed

lemma before_append: "before (ps @ qs) = before qs @ before ps"
  by (induction ps rule: before.induct) auto

lemma after_append: "after (ps @ qs) = after ps @ after qs"
  by (induction ps rule: after.induct) auto

text \<open>The minimum of a tree and the way to it.\<close>

lemma min_place: "\<exists>y ry qs. Node l a r = plug (Node Leaf y ry) qs \<and> before qs = [] \<and> hd (inorder (Node l a r)) = y"
proof (induction l arbitrary: a r)
  case Leaf
  show ?case by (intro exI [of _ a] exI [of _ r] exI [of _ "[]"]) simp
next
  case (Node ll b lr)
  obtain y ry qs where IH: "Node ll b lr = plug (Node Leaf y ry) qs" "before qs = []" "hd (inorder (Node ll b lr)) = y"
    using Node.IH(1) by blast
  have "Node (Node ll b lr) a r = plug (Node ll b lr) [(True, a, r)]" by (simp add: nodeb_def)
  then have "Node (Node ll b lr) a r = plug (Node Leaf y ry) (qs @ [(True, a, r)])" by (simp only: plug_append IH(1))
  moreover have "before (qs @ [(True, a, r)]) = []" using IH(2) by (simp add: before_append)
  moreover have "hd (inorder (Node (Node ll b lr) a r)) = y" using IH(3) by (auto simp: hd_append)
  ultimately show ?case by blast
qed

lemma delete_double:
  assumes g: "good s (plug (Node l x r) ps)" and "l \<noteq> Leaf" "r \<noteq> Leaf"
  shows "\<exists>s' T'. rbtree_delete x s = Some s' \<and> other_data x s s' \<and> good s' T' \<and> inorder T' = before ps @ inorder l @ inorder r @ after ps"
proof -
  obtain y ry qs where r: "r = plug (Node Leaf y ry) qs" "before qs = []" "hd (inorder r) = y"
    using min_place assms(3) by (metis tree.exhaust)
  let ?z = "rb_sentinel s" and ?c = "red s" and ?P = "qs @ (False, x, l) # ps" and ?P' = "qs @ (False, y, l) # ps" and ?t = "root_at (rb_sentinel s) ry"
  have eq: "plug (Node Leaf y ry) ?P = plug (Node l x r) ps" by (simp add: plug_append r(1) [symmetric] nodeb_def)
  have f: "focus s (Node l x r) ps" "\<not> ?c ?z" "focus s (Node Leaf y ry) ?P" "rb_ok ?c (plug (Node Leaf y ry) ?P)"
    using g focus_plug [of s "Node l x r" ps] focus_plug [of s "Node Leaf y ry" ?P] unfolding eq by (auto simp: good_def)
  have d: "distinct (?z # x # y # inorder ry @ path_nodes qs @ inorder l @ path_nodes ps)" using focus_distinct [OF f(3)] by auto
  obtain n where n: "rbt ?c (Node Leaf y ry) n" "rbp ?c ?P n (?c y)" using f(4) by (auto simp: rb_ok_plug)
  have lk: "n_left (rb_node s x) = Some (root_at ?z l)" "n_right (rb_node s x) = Some (root_at ?z r)" using f(1) by (auto simp: focus_def)
  have "root_at ?z l \<noteq> ?z" "root_at ?z r \<noteq> ?z" using assms(2,3) focus_distinct [OF f(1)] by auto
  moreover have "rbtree_node_min (root_at ?z r) s = Some y"
  proof -
    obtain rl b rr where rb: "r = Node rl b rr" using assms(3) by (cases r) auto
    have "rbtree_node_min b s = Some (hd (inorder (Node rl b rr)))"
      using f(1) unfolding rb by (intro node_min_links) (auto simp: focus_def)
    then show ?thesis using r(3) by (simp add: rb)
  qed
  moreover have "n_right (rb_node s y) = Some ?t" using f(3) by (simp add: focus_def)
  ultimately have sub: "delete_subst x s = Some (y, ?t)" using lk by (simp add: delete_subst_def Let_def)
  obtain e a U P1 where P: "?P = (e, a, U) # P1" by (cases ?P) auto
  have ax: "a = x \<longleftrightarrow> qs = []" using P d by (cases qs) auto
  have up: "y \<noteq> rb_root s" "n_parent (rb_node s y) = Some a" using focus_up(3,4) [OF f(3) [unfolded P]] by auto
  define s1 where "s1 = set_side e a (Some ?t) s"
  define s2 where "s2 = set_parent ?t (Some (if a = x then y else a)) s1"
  have "focus (set_parent ?t (Some a) s1) ry ?P"
    unfolding P s1_def by (rule focus_unlink(1) [OF f(3) [unfolded P]]) simp
  then have un: "focus (set_parent ?t (Some a) s1) (Node l x (plug ry qs)) ps"
    by (simp add: focus_append focus_Cons nodeb_def)
  have z: "rb_sentinel s1 = ?z" "rb_sentinel s2 = ?z" "red s1 = ?c" "red s2 = ?c" by (simp_all add: s1_def s2_def)
  have pl: "placed s2 l x (plug ry qs) ps"
  proof (cases "qs = []")
    case True
    then have "placed (set_parent ?t (Some a) s1) l x ry ps" using placed_focus [OF un] by simp
    from placed_parent [OF this, of "Some y"] have "placed (set_parent ?t (Some y) (set_parent ?t (Some a) s1)) l x ry ps" by (simp add: z)
    moreover have "set_parent ?t (Some y) (set_parent ?t (Some a) s1) = s2" using True ax by (simp add: s2_def set_parent_def upd_node_def)
    ultimately show ?thesis using True by simp
  next
    case False
    then show ?thesis using placed_focus [OF un] ax by (simp add: s2_def)
  qed
  define s3 where "s3 = replaced l x (plug ry qs) ps y s2"
  have "set_tree (plug ry qs) = set_tree ry \<union> set (path_nodes qs)"
    using mset_plug [of ry qs] by (metis set_inorder set_mset_mset set_mset_union)
  then have y: "y \<noteq> ?z" "y \<noteq> x" "y \<notin> set_tree l" "y \<notin> set_tree (plug ry qs)" "y \<notin> set (path_nodes ps)" using d by auto
  have "n_parent (rb_node s1 y) = Some a" using up by (auto simp: s1_def)
  then have rep: "delete_replace x y ?t s1 = Some s3"
    unfolding s3_def s2_def using pl y by (intro replace_code) (simp_all add: z s2_def)
  have f3: "focus s3 (Node l y (plug ry qs)) ps" "rb_node s3 ?z = rb_node s2 ?z" "red s3 = ?c(y := ?c x)" "rb_sentinel s3 = ?z"
    unfolding s3_def using replaced_focus [OF pl] y by (simp_all add: z replaced_red)
  define s4 where "s4 = rbtree_node_init x s3"
  have "focus s3 ry ?P'" using f3(1) by (simp add: focus_append focus_Cons nodeb_def)
  then have f4: "focus s4 ry ?P'" unfolding s4_def using d f3(4) by (subst focus_init) auto
  have c4: "red s4 = ?c(y := ?c x)" "rb_sentinel s4 = ?z" using f3 by (simp_all add: s4_def)
  have o4: "over (rb_node s4) ?P' ?t"
  proof (cases "ry = Leaf")
    case True
    have "rb_node s4 ?z = rb_node s2 ?z" using d f3(2) by (simp add: s4_def)
    then have "n_parent (rb_node s4 ?z) = Some (if a = x then y else a)" using True by (simp add: s2_def)
    moreover have "fst (snd (hd ?P')) = (if a = x then y else a)" using ax P by (cases qs) auto
    ultimately show ?thesis using True by (simp add: over_def)
  next
    case False
    then show ?thesis using f4 by (simp add: focus_def c4)
  qed
  have nx: "n_parent (rb_node s1 y) = Some a" using up by (auto simp: s1_def)
  have code: "rbtree_delete x s = finish (?c y) ?t s4"
    using sub up y(2) rep unlink_code [OF f(3) [unfolded P], of "Some ?t"]
    by (simp add: rbtree_delete_def finish_def s4_def s1_def [symmetric] Let_def red_def [symmetric])
  have fresh: "rbt (red s4) ry m = rbt ?c ry m" "red_top (red s4) ry = red_top ?c ry" for m using d by (auto simp: c4)
  have path: "rbp (red s4) ?P' m b = rbp ?c ?P m b" for m b unfolding c4 using d by (intro rbp_replace) auto
  have nz: "\<not> red s4 ?z" using y(1) f(2) by (simp add: c4)
  have "rbt ?c ry (if ?c y then n else n - 1)" "?c y \<Longrightarrow> \<not> red_top ?c ry" "\<not> ?c y \<Longrightarrow> 0 < n" using n by (auto split: if_splits)
  then obtain s' T' where s': "finish (?c y) ?t s4 = Some s'" "same_data s4 s'" "good s' T'" "inorder T' = inorder (plug ry ?P')"
    using finish_ok [OF f4, of "if ?c y then n else n - 1" "?c y", unfolded fresh path c4(2)] o4 nz n(2) by (cases "?c y") auto
  have "inorder T' = before ps @ inorder l @ inorder r @ after ps"
    unfolding s'(4) r(1) inorder_plug before_append after_append r(2) by simp
  moreover have "other_data x s s4" unfolding s4_def by (simp add: other_data_def s3_def replaced_red s2_def s1_def)
  then have "other_data x s s'" using s'(2) by (simp add: same_data_def other_data_def)
  ultimately show ?thesis using s'(1,3) unfolding code by blast
qed

subsection \<open>Deletion\<close>

lemma view_other: "other_data x s s' \<Longrightarrow> x \<notin> set xs \<Longrightarrow> view s' xs = view s xs"
  by (auto simp: view_def other_data_def)

lemma filter_view: "filter (\<lambda>e. snd e \<noteq> x) (view s xs) = view s (filter (\<lambda>y. y \<noteq> x) xs)"
  by (simp add: view_def filter_map comp_def)

lemma filter_out [simp]: "x \<notin> set xs \<Longrightarrow> filter (\<lambda>y. y \<noteq> x) xs = xs"
  by (induction xs) auto

lemma sorted_filter_fst: "sorted (map fst q) \<Longrightarrow> sorted (map fst (filter P q))"
  by (induction q) auto

lemma rbtree_delete_repr:
  assumes "rb_repr s q" "x \<in> snd ` set q"
  shows "\<exists>s'. rbtree_delete x s = Some s' \<and> rb_repr s' (filter (\<lambda>e. snd e \<noteq> x) q) \<and> other_data x s s'"
proof -
  obtain T where T: "good s T" "view s (inorder T) = q" "sorted (map fst q)" using assms(1) by (auto simp: rb_repr_def)
  have "x \<in> set_tree T" using T(2) assms(2) by (metis set_inorder view_simps(4))
  then obtain l r ps where p: "T = plug (Node l x r) ps" using place_of by blast
  have g: "good s (plug (Node l x r) ps)" using T(1) p by simp
  have "\<exists>s' T'. rbtree_delete x s = Some s' \<and> other_data x s s' \<and> good s' T' \<and> inorder T' = before ps @ inorder l @ inorder r @ after ps"
  proof (cases "l \<noteq> Leaf \<and> r \<noteq> Leaf")
    case True
    then show ?thesis using delete_double [OF g] by blast
  next
    case False
    then have X: "l = Leaf \<and> (if l = Leaf then r else l) = r \<or> l \<noteq> Leaf \<and> r = Leaf \<and> (if l = Leaf then r else l) = l" by auto
    from delete_single [OF g X] show ?thesis using False by (auto simp: inorder_plug split: if_splits)
  qed
  then obtain s' T' where s': "rbtree_delete x s = Some s'" "other_data x s s'" "good s' T'" "inorder T' = before ps @ inorder l @ inorder r @ after ps"
    by blast
  have f: "focus s (plug (Node l x r) ps) []" using g by (simp add: good_def)
  then have "distinct (inorder T)" using focus_distinct [OF f] by (simp add: p)
  then have "distinct (before ps @ inorder l @ x # inorder r @ after ps)" by (simp add: p inorder_plug)
  then have x: "x \<notin> set (inorder T')" "filter (\<lambda>y. y \<noteq> x) (inorder T) = inorder T'"
    unfolding s'(4) p inorder_plug by auto
  have "view s' (inorder T') = filter (\<lambda>e. snd e \<noteq> x) q"
    using view_other [OF s'(2) x(1)] x(2) T(2) filter_view [of x s "inorder T"] by simp
  then show ?thesis using s' sorted_filter_fst [OF T(3)] unfolding rb_repr_def by blast
qed

lemma rbtree_init_repr: "rb_repr (rbtree_init z s) []"
  unfolding rb_repr_def by (auto intro!: exI [of _ Leaf] simp: good_def focus_def rb_ok_def rbtree_init_def red_def rbtree_is_red_def)

subsection \<open>The tree is balanced\<close>

lemma rbt_height: "rbt c T n \<Longrightarrow> height T \<le> 2 * n + (if red_top c T then 1 else 0)"
proof (induction T arbitrary: n)
  case (Node l a r)
  show ?case
  proof (cases "c a")
    case True
    then show ?thesis using Node.prems Node.IH(1) [of n] Node.IH(2) [of n] by simp
  next
    case False
    then obtain m where m: "n = Suc m" "rbt c l m" "rbt c r m" using Node.prems by auto
    then show ?thesis using False Node.IH(1) [of m] Node.IH(2) [of m] by (auto split: if_splits)
  qed
qed simp

lemma rbt_size: "rbt c T n \<Longrightarrow> 2 ^ n \<le> size1 T"
proof (induction T arbitrary: n)
  case (Node l a r)
  show ?case
  proof (cases "c a")
    case True
    then show ?thesis using Node.prems Node.IH(1) [of n] by simp
  next
    case False
    then obtain m where m: "n = Suc m" "rbt c l m" "rbt c r m" using Node.prems by auto
    then show ?thesis using Node.IH(1) [OF m(2)] Node.IH(2) [OF m(3)] by simp
  qed
qed simp

text \<open>A way down from \<open>x\<close>, following the links to the left or to the right.\<close>

primrec rb_walk :: "bool list \<Rightarrow> nat \<Rightarrow> rbtree \<Rightarrow> nat option" where
  "rb_walk [] x s = Some x"
| "rb_walk (d # ds) x s = (if x = rb_sentinel s then None else do { y \<leftarrow> (if d then n_left (rb_node s x) else n_right (rb_node s x)); rb_walk ds y s })"

lemma rb_walk_height:
  assumes "links (rb_sentinel s) (rb_node s) T" "rb_sentinel s \<notin> set_tree T" "rb_walk ds (root_at (rb_sentinel s) T) s = Some y" "y \<noteq> rb_sentinel s"
  shows "length ds < height T"
  using assms
proof (induction ds arbitrary: T)
  case Nil
  then show ?case by (cases T) auto
next
  case (Cons d ds)
  obtain l a r where T: "T = Node l a r" using Cons.prems by (cases T) auto
  then show ?case using Cons.prems Cons.IH [of l] Cons.IH [of r] by (cases d) auto
qed

lemma rb_repr_balanced:
  assumes "rb_repr s q" "rb_walk ds (rb_root s) s = Some y" "y \<noteq> rb_sentinel s"
  shows "2 ^ (length ds + 1) \<le> (length q + 1) ^ 2"
proof -
  obtain T where T: "good s T" "view s (inorder T) = q" using assms(1) by (auto simp: rb_repr_def)
  obtain n where n: "rbt (red s) T n" "\<not> red_top (red s) T" using T(1) by (auto simp: good_def rb_ok_def)
  have f: "focus s T []" using T(1) by (simp add: good_def)
  then have "length ds < height T" using assms(2,3) by (intro rb_walk_height [of s T ds y]) (auto simp: focus_def)
  then have "length ds + 1 \<le> 2 * n" using rbt_height [OF n(1)] n(2) by simp
  then have "(2::nat) ^ (length ds + 1) \<le> 2 ^ (2 * n)" by (intro power_increasing) auto
  also have "\<dots> = (2 ^ n) ^ 2" by (simp add: power_mult mult.commute)
  also have "\<dots> \<le> (size1 T) ^ 2" by (intro power_mono rbt_size [OF n(1)]) simp
  also have "size1 T = length q + 1" using T(2) by (simp add: size1_size flip: T(2)) (simp add: view_def)
  finally show ?thesis .
qed

end
