(* ===== verification/Timeout_Tree.thy ===== *)
theory Timeout_Tree
  imports Message Rbtree_Delete
begin

section \<open>The timeouts of requests in the red-black tree\<close>

text \<open>
  The contract of a queue ordered by keys, which the list of timeouts in the model of
  \<open>gf_message.c\<close> and the red-black tree of \<open>gf_rbtree.c\<close> both keep, and the simulation of the
  operations on timeouts by those of the tree.
\<close>

subsection \<open>Queues ordered by key\<close>

datatype queue_op = Q_insert nat int | Q_delete nat

text \<open>The list a run of operations leaves, and the runs that insert what is absent and delete what is present.\<close>

fun list_run :: "queue_op list \<Rightarrow> (int \<times> nat) list \<Rightarrow> (int \<times> nat) list" where
  "list_run [] q = q"
| "list_run (Q_insert x k # ops) q = list_run ops (tmo_ins k x q)"
| "list_run (Q_delete x # ops) q = list_run ops (filter (\<lambda>e. snd e \<noteq> x) q)"

fun legal :: "(nat \<Rightarrow> bool) \<Rightarrow> queue_op list \<Rightarrow> (int \<times> nat) list \<Rightarrow> bool" where
  "legal out [] q \<longleftrightarrow> True"
| "legal out (Q_insert x k # ops) q \<longleftrightarrow> \<not> out x \<and> x \<notin> snd ` set q \<and> legal out ops (tmo_ins k x q)"
| "legal out (Q_delete x # ops) q \<longleftrightarrow> x \<in> snd ` set q \<and> legal out ops (filter (\<lambda>e. snd e \<noteq> x) q)"

fun queue_run :: "(nat \<Rightarrow> int \<Rightarrow> 's \<Rightarrow> 's option) \<Rightarrow> (nat \<Rightarrow> 's \<Rightarrow> 's option) \<Rightarrow> queue_op list \<Rightarrow> 's \<Rightarrow> 's option" where
  "queue_run ins del [] s = Some s"
| "queue_run ins del (Q_insert x k # ops) s = do { s \<leftarrow> ins x k s; queue_run ins del ops s }"
| "queue_run ins del (Q_delete x # ops) s = do { s \<leftarrow> del x s; queue_run ins del ops s }"

definition first_of :: "(int \<times> nat) list \<Rightarrow> nat option" where
  "first_of q = (case q of [] \<Rightarrow> None | e # _ \<Rightarrow> Some (snd e))"

locale key_queue =
  fixes repr :: "'s \<Rightarrow> (int \<times> nat) list \<Rightarrow> bool"
    and ins :: "nat \<Rightarrow> int \<Rightarrow> 's \<Rightarrow> 's option"
    and del :: "nat \<Rightarrow> 's \<Rightarrow> 's option"
    and least :: "'s \<Rightarrow> nat option option"
    and out :: "'s \<Rightarrow> nat \<Rightarrow> bool"
  assumes sorted_repr: "repr s q \<Longrightarrow> sorted (map fst q)"
    and ins_repr: "repr s q \<Longrightarrow> \<not> out s x \<Longrightarrow> x \<notin> snd ` set q \<Longrightarrow> \<exists>s'. ins x k s = Some s' \<and> repr s' (tmo_ins k x q) \<and> out s' = out s"
    and del_repr: "repr s q \<Longrightarrow> x \<in> snd ` set q \<Longrightarrow> \<exists>s'. del x s = Some s' \<and> repr s' (filter (\<lambda>e. snd e \<noteq> x) q) \<and> out s' = out s"
    and least_repr: "repr s q \<Longrightarrow> least s = Some (first_of q)"
begin

lemma run_repr:
  assumes "repr s q" "legal (out s) ops q"
  shows "\<exists>s'. queue_run ins del ops s = Some s' \<and> repr s' (list_run ops q)"
  using assms
proof (induction ops arbitrary: s q)
  case (Cons op ops)
  show ?case
  proof (cases op)
    case (Q_insert x k)
    then obtain s' where "ins x k s = Some s'" "repr s' (tmo_ins k x q)" "out s' = out s"
      using Cons.prems ins_repr by fastforce
    then show ?thesis using Cons.IH [of s' "tmo_ins k x q"] Cons.prems(2) Q_insert by auto
  next
    case (Q_delete x)
    then obtain s' where "del x s = Some s'" "repr s' (filter (\<lambda>e. snd e \<noteq> x) q)" "out s' = out s"
      using Cons.prems del_repr by fastforce
    then show ?thesis using Cons.IH [of s' "filter (\<lambda>e. snd e \<noteq> x) q"] Cons.prems(2) Q_delete by auto
  qed
qed auto

lemma run_least:
  assumes "repr s q" "legal (out s) ops q"
  shows "\<exists>s'. queue_run ins del ops s = Some s' \<and> repr s' (list_run ops q) \<and> sorted (map fst (list_run ops q))
    \<and> least s' = Some (first_of (list_run ops q))"
  using run_repr [OF assms] sorted_repr least_repr by blast

end

text \<open>The key and the datum of a node are stored before it is inserted.\<close>

definition tree_insert :: "nat option \<Rightarrow> nat \<Rightarrow> int \<Rightarrow> rbtree \<Rightarrow> rbtree option" where
  "tree_insert c x k s = rbtree_insert x (upd_node x (\<lambda>n. n\<lparr>n_key := k, n_data := c\<rparr>) s)"

lemma focus_key: "focus (upd_node x (\<lambda>n. n\<lparr>n_key := k, n_data := c\<rparr>) s) T ps = focus s T ps"
proof -
  have "links z (rb_node (upd_node x (\<lambda>n. n\<lparr>n_key := k, n_data := c\<rparr>) s)) T = links z (rb_node s) T" for z T
    by (rule links_cong) (simp add: upd_node_def)
  moreover have "clinks z (rb_node (upd_node x (\<lambda>n. n\<lparr>n_key := k, n_data := c\<rparr>) s)) r ps h = clinks z (rb_node s) r ps h" for z r h
    by (rule clinks_cong) (simp add: upd_node_def)
  moreover have "rb_sentinel (upd_node x (\<lambda>n. n\<lparr>n_key := k, n_data := c\<rparr>) s) = rb_sentinel s"
    "rb_root (upd_node x (\<lambda>n. n\<lparr>n_key := k, n_data := c\<rparr>) s) = rb_root s"
    "over (rb_node (upd_node x (\<lambda>n. n\<lparr>n_key := k, n_data := c\<rparr>) s)) ps a = over (rb_node s) ps a" for a
    by (simp_all add: upd_node_def over_def)
  ultimately show ?thesis by (simp add: focus_def)
qed

lemma repr_key:
  assumes "rb_repr s q" "x \<notin> snd ` set q"
  shows "rb_repr (upd_node x (\<lambda>n. n\<lparr>n_key := k, n_data := c\<rparr>) s) q"
proof -
  let ?s = "upd_node x (\<lambda>n. n\<lparr>n_key := k, n_data := c\<rparr>) s"
  obtain T where T: "good s T" "view s (inorder T) = q" "sorted (map fst q)" using assms(1) by (auto simp: rb_repr_def)
  have "red ?s = red s" "rb_sentinel ?s = rb_sentinel s" by (auto simp: red_def rbtree_is_red_def upd_node_def fun_eq_iff)
  then have "good ?s T" using T(1) by (simp add: good_def focus_key)
  moreover have "x \<notin> set (inorder T)" using T(2) assms(2) by (metis view_simps(4))
  then have "view ?s (inorder T) = q" using T(2) by (auto simp: view_def upd_node_def)
  ultimately show ?thesis using T(3) by (auto simp: rb_repr_def)
qed

lemma tree_insert_repr:
  assumes "rb_repr s q" "x \<noteq> rb_sentinel s" "x \<notin> snd ` set q"
  shows "\<exists>s'. tree_insert c x k s = Some s' \<and> rb_repr s' (tmo_ins k x q) \<and> rb_sentinel s' = rb_sentinel s
    \<and> n_data (rb_node s' x) = c \<and> (\<forall>y. y \<noteq> x \<longrightarrow> n_data (rb_node s' y) = n_data (rb_node s y))"
proof -
  let ?s = "upd_node x (\<lambda>n. n\<lparr>n_key := k, n_data := c\<rparr>) s"
  have "rb_repr ?s q" "x \<noteq> rb_sentinel ?s" using repr_key [OF assms(1,3)] assms(2) by (simp_all add: upd_node_def)
  from rbtree_insert_repr [OF this assms(3)] show ?thesis
    unfolding tree_insert_def same_data_def by (auto simp: upd_node_def)
qed

interpretation rbq: key_queue rb_repr "tree_insert c" rbtree_delete rbtree_min "\<lambda>s x. x = rb_sentinel s" for c
proof (unfold_locales, goal_cases)
  case (2 s q x k)
  then show ?case using tree_insert_repr [of s q x c k] by auto
next
  case (3 s q x)
  then show ?case using rbtree_delete_repr [of s q x] by (auto simp: other_data_def)
next
  case (4 s q)
  then show ?case using rbtree_min_repr [of s q] by (simp add: first_of_def)
qed (simp add: rb_repr_def)

interpretation lq: key_queue "\<lambda>s q. s = q \<and> sorted (map fst q)" "\<lambda>x k s. Some (tmo_ins k x s)"
  "\<lambda>x s. Some (filter (\<lambda>e. snd e \<noteq> x) s)" "\<lambda>s. Some (first_of s)" "\<lambda>s x. False"
  by unfold_locales (auto simp: sorted_tmo_ins sorted_map_filter)

text \<open>
  C5: through every sequence of insertions of absent nodes and deletions
  of present ones, starting from \<open>rbtree_init\<close>, each operation of the red-black tree returns;
  the nodes the links then hold, from left to right, are the list in which every node was
  inserted after the keys not greater than its own, and \<open>rbtree_min\<close> is the first of them,
  NULL when there is none.  No walk down the tree is longer than twice the logarithm of the
  number of nodes.
\<close>

theorem rbtree_is_ordered_queue:
  assumes "legal (\<lambda>x. x = z) ops []"
  shows "\<exists>s'. queue_run (tree_insert c) rbtree_delete ops (rbtree_init z s) = Some s'
    \<and> rb_repr s' (list_run ops []) \<and> sorted (map fst (list_run ops []))
    \<and> rbtree_min s' = Some (first_of (list_run ops []))
    \<and> (\<forall>ds y. rb_walk ds (rb_root s') s' = Some y \<longrightarrow> y \<noteq> rb_sentinel s' \<longrightarrow> 2 ^ (length ds + 1) \<le> (length (list_run ops []) + 1) ^ 2)"
proof -
  have "rb_sentinel (rbtree_init z s) = z" by (simp add: rbtree_init_def)
  then show ?thesis
    using rbq.run_least [OF rbtree_init_repr [of z s], of ops c] assms rb_repr_balanced by fastforce
qed

lemma rbtree_is_ordered_queue_witness:
  "\<exists>s'. queue_run (tree_insert None) rbtree_delete [Q_insert 1 5, Q_insert 2 3, Q_insert 3 5, Q_delete 1, Q_insert 4 1]
      (rbtree_init 0 \<lparr>rb_node = (\<lambda>_. \<lparr>n_left = None, n_right = None, n_parent = None, n_key = 0, n_data = None, n_color = 0\<rparr>),
         rb_root = 0, rb_sentinel = 0\<rparr>) = Some s'
    \<and> rb_repr s' [(1, 4), (3, 2), (5, 3)] \<and> rbtree_min s' = Some (Some 4)"
  using rbtree_is_ordered_queue [of 0 "[Q_insert 1 5, Q_insert 2 3, Q_insert 3 5, Q_delete 1, Q_insert 4 1]" None
      "\<lparr>rb_node = (\<lambda>_. \<lparr>n_left = None, n_right = None, n_parent = None, n_key = 0, n_data = None, n_color = 0\<rparr>),
         rb_root = 0, rb_sentinel = 0\<rparr>"]
  by (auto simp: first_of_def)

subsection \<open>The operations on timeouts\<close>

text \<open>
  \<open>msg_tmo_min\<close>, \<open>msg_tmo_insert\<close> after its tests and \<open>msg_tmo_delete\<close> as the code has
  them, on the tree whose nodes lie in the messages.
\<close>

definition tree_tmo_insert :: "nat \<Rightarrow> nat \<Rightarrow> int \<Rightarrow> rbtree \<Rightarrow> rbtree option" where
  "tree_tmo_insert m c k s = tree_insert (Some c) m k s"

definition tree_tmo_delete :: "nat \<Rightarrow> rbtree \<Rightarrow> rbtree option" where
  "tree_tmo_delete m s = (if n_data (rb_node s m) = None then Some s else rbtree_delete m s)"

definition tmo_tree :: "rbtree \<Rightarrow> world \<Rightarrow> bool" where
  "tmo_tree s w \<longleftrightarrow> rb_repr s (w_tmo w) \<and> tmo_inv w \<and> m_tmo_data (msg w (rb_sentinel s)) = None
     \<and> (\<forall>m. n_data (rb_node s m) = m_tmo_data (msg w m))"

lemma tree_min_msg: "tmo_tree s w \<Longrightarrow> rbtree_min s = Some (msg_tmo_min w)"
  using rbtree_min_repr by (auto simp: tmo_tree_def msg_tmo_min_def)

lemma tree_delete_msg:
  assumes "tmo_tree s w"
  shows "\<exists>s'. tree_tmo_delete m s = Some s' \<and> tmo_tree s' (msg_tmo_delete m w)"
proof (cases "m_tmo_data (msg w m) = None")
  case True
  then show ?thesis using assms by (auto simp: tmo_tree_def tree_tmo_delete_def msg_tmo_delete_def)
next
  case False
  then have "(m_tmo_key (msg w m), m) \<in> set (w_tmo w)" using assms by (simp add: tmo_tree_def tmo_inv_def)
  then have "m \<in> snd ` set (w_tmo w)" by force
  then obtain s' where s': "rbtree_delete m s = Some s'" "rb_repr s' (filter (\<lambda>e. snd e \<noteq> m) (w_tmo w))" "other_data m s s'"
    using rbtree_delete_repr [of s "w_tmo w" m] assms unfolding tmo_tree_def by blast
  have "tmo_inv (msg_tmo_delete m w)" using assms by (intro tmo_inv_delete) (simp add: tmo_tree_def)
  moreover have "w_tmo (msg_tmo_delete m w) = filter (\<lambda>e. snd e \<noteq> m) (w_tmo w)" using False by (auto simp: msg_tmo_delete_def Let_def gf_simps)
  moreover have "m_tmo_data (msg (msg_tmo_delete m w) y) = (if y = m then None else m_tmo_data (msg w y))" for y
    using False by (auto simp: msg_tmo_delete_def Let_def gf_simps)
  ultimately show ?thesis using s' assms False by (auto simp: tmo_tree_def tree_tmo_delete_def other_data_def)
qed

lemma tree_insert_msg:
  assumes "tmo_tree s w" "msg_tmo_insert m c w = Some w'" "m_tmo_data (msg w m) = None" "m \<noteq> rb_sentinel s"
  shows "w' = w \<or> (\<exists>s'. tree_tmo_insert m c (m_tmo_key (msg w' m)) s = Some s' \<and> tmo_tree s' w')"
proof (cases "w' = w")
  case False
  then obtain k where w': "w' = tmo_armed k m c (snd (gf_msec_now w))" using msg_tmo_insert_cases [OF assms(2)] by blast
  have "m \<notin> snd ` set (w_tmo w)" using assms(1,3) by (auto simp: tmo_tree_def tmo_inv_def)
  then obtain s' where s': "tree_insert (Some c) m k s = Some s'" "rb_repr s' (tmo_ins k m (w_tmo w))" "rb_sentinel s' = rb_sentinel s"
    "n_data (rb_node s' m) = Some c" "\<forall>y. y \<noteq> m \<longrightarrow> n_data (rb_node s' y) = n_data (rb_node s y)"
    using tree_insert_repr [of s "w_tmo w" m "Some c" k] assms by (auto simp: tmo_tree_def)
  have "tmo_inv w'" using tmo_inv_insert [OF _ assms(3,2)] assms(1) by (simp add: tmo_tree_def)
  moreover have "w_tmo w' = tmo_ins k m (w_tmo w)" "m_tmo_key (msg w' m) = k"
    "m_tmo_data (msg w' y) = (if y = m then Some c else m_tmo_data (msg w y))" for y
    by (simp_all add: w' tmo_armed_def)
  ultimately show ?thesis using s' assms(1,4) by (auto simp: tmo_tree_def tree_tmo_insert_def)
qed simp

text \<open>
  C6: the list of timeouts the rest of the model works with is what the tree of
  the code holds.  When the tree holds the timeouts of a state, \<open>msg_tmo_min\<close> is the message
  around the minimum of the tree; arming the timeout of a request either does nothing, when
  timeouts are off, or inserts its node with the new key, and disarming one deletes its node
  unless it was deleted before; in each case the tree holds the timeouts of the new state.
\<close>

theorem timeouts_in_tree:
  assumes "tmo_tree s w"
  shows "rbtree_min s = Some (msg_tmo_min w)
    \<and> (\<exists>s'. tree_tmo_delete m s = Some s' \<and> tmo_tree s' (msg_tmo_delete m w))
    \<and> (msg_tmo_insert m c w = Some w' \<longrightarrow> m_tmo_data (msg w m) = None \<longrightarrow> m \<noteq> rb_sentinel s \<longrightarrow>
        w' = w \<or> (\<exists>s'. tree_tmo_insert m c (m_tmo_key (msg w' m)) s = Some s' \<and> tmo_tree s' w'))"
  using tree_min_msg [OF assms] tree_delete_msg [OF assms] tree_insert_msg [OF assms] by blast

lemma timeouts_in_tree_witness:
  "\<exists>s1 w1. msg_tmo_insert 3 0 tmo_w = Some w1 \<and> tree_tmo_insert 3 0 (m_tmo_key (msg w1 3)) (rbtree_init 0
      \<lparr>rb_node = (\<lambda>_. \<lparr>n_left = None, n_right = None, n_parent = None, n_key = 0, n_data = None, n_color = 0\<rparr>), rb_root = 0, rb_sentinel = 0\<rparr>) = Some s1
    \<and> tmo_tree s1 w1"
proof -
  let ?s = "rbtree_init 0 \<lparr>rb_node = (\<lambda>_. \<lparr>n_left = None, n_right = None, n_parent = None, n_key = 0, n_data = None, n_color = 0\<rparr>),
    rb_root = 0, rb_sentinel = 0\<rparr>"
  have "tmo_inv tmo_w" "w_tmo tmo_w = []" "m_tmo_data (msg tmo_w m) = None" for m
    by (simp_all add: tmo_inv_def tmo_w_def w0_def sample_world_def sample_msg_def)
  moreover have "n_data (rb_node ?s m) = None" "rb_sentinel ?s = 0" for m by (simp_all add: rbtree_init_def)
  ultimately have s: "tmo_tree ?s tmo_w" using rbtree_init_repr [of 0] by (simp add: tmo_tree_def)
  obtain w1 where w1: "msg_tmo_insert 3 0 tmo_w = Some w1" "w_tmo w1 \<noteq> []"
    by (simp add: tmo_w_def msg_tmo_insert_eq server_timeout_def sample_msg_def sample_conn_def sample_pool_def
        tmo_armed_def gf_msec_now_def gf_usec_now_def sys_def sample_res_def Let_def w0_def sample_world_def)
  moreover have "w1 \<noteq> tmo_w" using w1(2) \<open>w_tmo tmo_w = []\<close> by auto
  ultimately show ?thesis using timeouts_in_tree [OF s, of 3 0 w1] \<open>rb_sentinel ?s = 0\<close> \<open>\<And>m. m_tmo_data (msg tmo_w m) = None\<close> by auto
qed

end
