(* ===== verification/Logger.thy ===== *)
theory Logger
  imports Strings
begin

section \<open>The log (\<open>gf_log.c\<close>) and the signals (\<open>gf_signal.c\<close>)\<close>

text \<open>
  The logger is a static record of its own; its operations pass it along with the state.  The
  handlers of the other theories leave their log calls out: the lemmas show that a call changes
  nothing they read.  The text of a call is what \<open>vsnprintf\<close> makes of its format (\<open>None\<close> when it
  fails); the safe variants format with \<open>gf_string.c\<close>.
\<close>

record logger =
  l_name :: "u8 list option"
  l_level :: int
  l_fd :: int
  l_nerror :: int

type_synonym log_state = "logger \<times> world"

abbreviation (input) LOG_EMERG :: int where "LOG_EMERG \<equiv> 0"
abbreviation (input) LOG_PVERB :: int where "LOG_PVERB \<equiv> 11"
abbreviation (input) LOG_MAX_LEN :: nat where "LOG_MAX_LEN \<equiv> 256"
abbreviation (input) STDERR_FILENO :: int where "STDERR_FILENO \<equiv> 2"

subsection \<open>Text\<close>

text \<open>\<open>len += gf_vscnprintf(buf + len, size - len, ...)\<close>: the bytes of \<open>buf\<close> before \<open>len\<close>.\<close>

definition add_text :: "nat \<Rightarrow> u8 list option \<Rightarrow> u8 list \<Rightarrow> u8 list" where
  "add_text buf_size text out =
     (let (stored, n) = gf_vscnprintf (buf_size - length out) text in out @ take (nat n) stored)"

text \<open>A field padded on the left, and hexadecimal digits as \<open>%x\<close> prints them.\<close>

definition pad :: "nat \<Rightarrow> u8 \<Rightarrow> u8 list \<Rightarrow> u8 list" where
  "pad n c s = replicate (n - length s) c @ s"

fun hexadecimal :: "nat \<Rightarrow> u8 list" where
  "hexadecimal n = (if n < 16 then [hex ! n] else hexadecimal (n div 16) @ [hex ! (n mod 16)])"

declare hexadecimal.simps [simp del]

subsection \<open>Writing\<close>

text \<open>\<open>n = gf_write(fd, buf, len); if (n < 0) l->nerror++;\<close>\<close>

definition log_write :: "int \<Rightarrow> u8 list \<Rightarrow> log_state \<Rightarrow> log_state" where
  "log_write fd bs = (\<lambda>(l, w).
     let (r, w) = sys (Sys_write fd bs) w
     in (if r_ret r < 0 then l\<lparr>l_nerror := l_nerror l + 1\<rparr> else l, w))"

text \<open>\<open>errno = errno_save\<close>\<close>

definition keep_errno :: "(log_state \<Rightarrow> log_state) \<Rightarrow> log_state \<Rightarrow> log_state" where
  "keep_errno f s = (let (l, w) = f s in (l, w\<lparr>w_errno := w_errno (snd s)\<rparr>))"

definition log_loggable :: "int \<Rightarrow> logger \<Rightarrow> bool" where
  "log_loggable level l \<longleftrightarrow> \<not> l_level l < level"

text \<open>
  \<open>_log\<close>.  \<open>debug\<close> is the macro \<open>GF_DEBUG_LOG\<close>; \<open>localtime_r\<close> may return NULL, which
  \<open>strftime\<close> dereferences; the letter of a level outside of the table is a read out of bounds.
  A call with \<open>panic\<close> ends the process.
\<close>

definition log_letters :: "u8 list" where
  "log_letters = bytes_of_string ''.-*#@!IDVWGP'' @ [0]"

definition log_message :: "bool \<Rightarrow> u8 list \<Rightarrow> int \<Rightarrow> u8 list option \<Rightarrow> u8 list" where
  "log_message debug file line text =
     (let buf = (if debug then add_text LOG_MAX_LEN (Some (file @ [58] @ decimal_int line @ [32])) [] else [])
      in add_text LOG_MAX_LEN text buf @ [0])"

definition log_output :: "int \<Rightarrow> u8 list \<Rightarrow> u8 \<Rightarrow> u8 list \<Rightarrow> u8 list" where
  "log_output pid time c buf =
     [27] @ bytes_of_string ''[90m['' @ decimal_int pid @ bytes_of_string '']:'' @ cstr time @ [32, c, 32, 27] @ bytes_of_string ''[0m'' @ cstr buf @ [10]"

definition log_time :: "world \<Rightarrow> (u8 list \<times> world) option" where
  "log_time w = do {
     let (now, w) = sys Sys_time w;
     let (lt, w) = sys (Sys_call ''localtime_r'') w;
     let (tv, w) = sys Sys_gettimeofday w;
     if r_ret lt = 0 then None
     else do {
       let (off, w) = sys (Sys_call ''strftime'') w;
       let ms = decimal_int (r_val2 tv div 1000);
       Some (add_text 64 (Some (pad 3 48 ms)) (take (nat (r_ret off)) (r_data off)), w) } }"

definition log_call :: "bool \<Rightarrow> u8 list \<Rightarrow> int \<Rightarrow> bool \<Rightarrow> u8 list option \<Rightarrow> log_state \<Rightarrow> log_state option" where
  "log_call debug file line panic text = (\<lambda>(l, w).
     if l_fd l < 0 then Some (l, w)
     else do {
       (time, w1) \<leftarrow> log_time w;
       let buf = log_message debug file line text;
       let (pid, w1) = sys (Sys_call ''getpid'') w1;
       if l_level l < 0 \<or> int (length log_letters) \<le> l_level l then None
       else do {
         let (l, w1) = log_write (l_fd l) (log_output (r_ret pid) time (log_letters ! nat (l_level l)) buf) (l, w1);
         if panic then None else Some (l, w1\<lparr>w_errno := w_errno w\<rparr>) } })"

definition log_stderr :: "u8 list option \<Rightarrow> log_state \<Rightarrow> log_state" where
  "log_stderr text = keep_errno (log_write STDERR_FILENO (add_text (4 * LOG_MAX_LEN) text [] @ [10]))"

text \<open>The line of the safe variants: the marker, then the message, each cut to the room left.\<close>

definition safe_line :: "u8 list \<Rightarrow> va_arg list \<Rightarrow> u8 list option" where
  "safe_line fmt ap = do {
     (stored, n) \<leftarrow> safe_vsnprintf LOG_MAX_LEN (bytes_of_string ''[.......................] '') [];
     let buf = take n stored;
     (stored, n) \<leftarrow> safe_vsnprintf (LOG_MAX_LEN - length buf) fmt ap;
     Some (buf @ take n stored @ [10]) }"

definition log_safe :: "u8 list \<Rightarrow> va_arg list \<Rightarrow> log_state \<Rightarrow> log_state option" where
  "log_safe fmt ap s =
     (if l_fd (fst s) < 0 then Some s
      else do { line \<leftarrow> safe_line fmt ap; Some (keep_errno (log_write (l_fd (fst s)) line) s) })"

definition log_stderr_safe :: "u8 list \<Rightarrow> va_arg list \<Rightarrow> log_state \<Rightarrow> log_state option" where
  "log_stderr_safe fmt ap s = do { line \<leftarrow> safe_line fmt ap; Some (keep_errno (log_write STDERR_FILENO line) s) }"

subsection \<open>The hexadecimal dump\<close>

abbreviation (input) HEXDUMP_SIZE :: nat where "HEXDUMP_SIZE \<equiv> 8 * LOG_MAX_LEN"

definition isprint :: "u8 \<Rightarrow> bool" where
  "isprint c \<longleftrightarrow> 32 \<le> c \<and> c < 127"

definition hex_gap :: "nat \<Rightarrow> u8 list" where
  "hex_gap i = (if i = 7 then [32, 32] else [32])"

text \<open>One turn of the loop, on the bytes left.\<close>

definition hexdump_turn :: "nat \<Rightarrow> u8 list \<Rightarrow> u8 list \<Rightarrow> u8 list" where
  "hexdump_turn off data buf =
     (let put = (\<lambda>text. add_text HEXDUMP_SIZE (Some text));
          n = min 16 (length data);
          buf = put (pad 8 48 (hexadecimal off) @ [32, 32]) buf;
          buf = foldl (\<lambda>buf i. put (pad 2 48 (hexadecimal (unat (data ! i))) @ hex_gap i) buf) buf [0..<n];
          buf = foldl (\<lambda>buf i. put ([32, 32] @ hex_gap i) buf) buf [n..<16];
          buf = put [32, 32, 124] buf;
          buf = foldl (\<lambda>buf i. put [if isprint (data ! i) then data ! i else 46] buf) buf [0..<n]
      in put [124, 10] buf)"

function hexdump_loop :: "nat \<Rightarrow> u8 list \<Rightarrow> u8 list \<Rightarrow> u8 list" where
  "hexdump_loop off data buf =
     (if data \<noteq> [] \<and> length buf < HEXDUMP_SIZE - 1 then hexdump_loop (off + 16) (drop 16 data) (hexdump_turn off data buf) else buf)"
  by pat_completeness auto
termination by (relation "measure (\<lambda>(off, data, buf). length data)") auto

declare hexdump_loop.simps [simp del]

definition log_hexdump :: "u8 list \<Rightarrow> log_state \<Rightarrow> log_state" where
  "log_hexdump data s =
     (if l_fd (fst s) < 0 then s
      else keep_errno (\<lambda>s.
        let buf = hexdump_loop 0 data [];
            s = log_write (l_fd (fst s)) buf s
        in if HEXDUMP_SIZE - 1 \<le> length buf then log_write (l_fd (fst s)) [10] s else s) s)"

subsection \<open>The state of the logger\<close>

definition clamp_level :: "int \<Rightarrow> int" where
  "clamp_level level = max LOG_EMERG (min level LOG_PVERB)"

text \<open>The text of the message about a file that cannot be opened is not used by anything.\<close>

definition log_init :: "int \<Rightarrow> u8 list option \<Rightarrow> u8 list option \<Rightarrow> log_state \<Rightarrow> int \<times> log_state" where
  "log_init level filename failure = (\<lambda>(l, w).
     let l = l\<lparr>l_level := clamp_level level, l_name := filename\<rparr>
     in case filename of
          None \<Rightarrow> (0, l\<lparr>l_fd := STDERR_FILENO\<rparr>, w)
        | Some f \<Rightarrow>
            if f = [] then (0, l\<lparr>l_fd := STDERR_FILENO\<rparr>, w)
            else let (r, w) = sys (Sys_open f) w; l = l\<lparr>l_fd := r_ret r\<rparr>
                 in if r_ret r < 0 then (- 1, log_stderr failure (l, w)) else (0, l, w))"

definition log_deinit :: "log_state \<Rightarrow> log_state" where
  "log_deinit = (\<lambda>(l, w).
     if l_fd l < 0 \<or> l_fd l = STDERR_FILENO then (l, w) else (l, snd (sys (Sys_close (l_fd l)) w)))"

text \<open>\<open>strerror\<close> is the parameter of the state.\<close>

definition log_reopen :: "ext \<Rightarrow> log_state \<Rightarrow> log_state option" where
  "log_reopen X = (\<lambda>(l, w).
     if l_fd l = STDERR_FILENO then Some (l, w)
     else do {
       let (r, w) = sys (Sys_close (l_fd l)) w;
       name \<leftarrow> l_name l;
       let (r, w) = sys (Sys_open name) w;
       let l = l\<lparr>l_fd := r_ret r\<rparr>;
       if r_ret r < 0
       then log_stderr_safe (bytes_of_string ''reopening log file '' @ [39, 37, 115, 39] @ bytes_of_string '' failed, ignored: %s'')
              [VStr (Some name), VStr (Some (x_strerror X (w_errno w)))] (l, w)
       else Some (l, w) })"

definition log_level_up :: "log_state \<Rightarrow> log_state option" where
  "log_level_up = (\<lambda>(l, w).
     if l_level l < LOG_PVERB then do {
       let l = l\<lparr>l_level := l_level l + 1\<rparr>;
       log_safe (bytes_of_string ''up log level to %d'') [V32 (word_of_int (l_level l))] (l, w) }
     else Some (l, w))"

definition log_level_down :: "log_state \<Rightarrow> log_state option" where
  "log_level_down = (\<lambda>(l, w).
     if LOG_EMERG < l_level l then do {
       let l = l\<lparr>l_level := l_level l - 1\<rparr>;
       log_safe (bytes_of_string ''down log level to %d'') [V32 (word_of_int (l_level l))] (l, w) }
     else Some (l, w))"

definition log_level_set :: "bool \<Rightarrow> int \<Rightarrow> log_state \<Rightarrow> log_state option" where
  "log_level_set debug level = (\<lambda>(l, w). do {
     let l = l\<lparr>l_level := clamp_level level\<rparr>;
     log_call debug (bytes_of_string ''gf_log.c'') 104 False (Some (bytes_of_string ''set log level to '' @ decimal_int (l_level l))) (l, w) })"

definition gf_stacktrace_fd :: "int \<Rightarrow> world \<Rightarrow> world" where
  "gf_stacktrace_fd fd w =
     (let (r, w) = sys (Sys_call ''backtrace'') w in snd (sys (Sys_call ''backtrace_symbols_fd'') w))"

definition log_stacktrace :: "log_state \<Rightarrow> log_state" where
  "log_stacktrace = (\<lambda>(l, w). if l_fd l < 0 then (l, w) else (l, gf_stacktrace_fd (l_fd l) w))"

subsection \<open>Signals\<close>

abbreviation (input) SIGHUP :: int where "SIGHUP \<equiv> 1"
abbreviation (input) SIGINT :: int where "SIGINT \<equiv> 2"
abbreviation (input) SIGUSR1 :: int where "SIGUSR1 \<equiv> 10"
abbreviation (input) SIGSEGV :: int where "SIGSEGV \<equiv> 11"
abbreviation (input) SIGUSR2 :: int where "SIGUSR2 \<equiv> 12"
abbreviation (input) SIGPIPE :: int where "SIGPIPE \<equiv> 13"
abbreviation (input) SIGTTIN :: int where "SIGTTIN \<equiv> 21"
abbreviation (input) SIGTTOU :: int where "SIGTTOU \<equiv> 22"

text \<open>The table: number, name, whether the action is reset, and whether the handler is \<open>signal_handler\<close>.\<close>

definition signals :: "(int \<times> u8 list \<times> bool \<times> bool) list" where
  "signals =
     [(SIGUSR1, bytes_of_string ''SIGUSR1'', False, True), (SIGUSR2, bytes_of_string ''SIGUSR2'', False, True),
      (SIGTTIN, bytes_of_string ''SIGTTIN'', False, True), (SIGTTOU, bytes_of_string ''SIGTTOU'', False, True),
      (SIGHUP, bytes_of_string ''SIGHUP'', False, True), (SIGINT, bytes_of_string ''SIGINT'', False, True),
      (SIGSEGV, bytes_of_string ''SIGSEGV'', True, True), (SIGPIPE, bytes_of_string ''SIGPIPE'', False, False)]"

primrec install_signals :: "(int \<times> u8 list \<times> bool \<times> bool) list \<Rightarrow> world \<Rightarrow> int \<times> world" where
  "install_signals [] w = (GF_OK, w)"
| "install_signals (sig # sigs) w =
     (let (r, w) = sys (Sys_sigaction (fst sig) (snd (snd (snd sig)))) w
      in if r_ret r < 0 then (GF_ERROR, w) else install_signals sigs w)"

definition signal_init :: "world \<Rightarrow> int \<times> world" where
  "signal_init = install_signals signals"

definition signal_deinit :: "world \<Rightarrow> world" where
  "signal_deinit w = w"

text \<open>
  How the handler ends.  The fault raised again inside of the handler is blocked until it
  returns, and its action has been reset.
\<close>

datatype handler_end = Sig_returns | Sig_exits int | Sig_kills int

definition signal_handler :: "ext \<Rightarrow> int \<Rightarrow> log_state \<Rightarrow> (handler_end \<times> log_state) option" where
  "signal_handler X signo s = do {
     let sig = find (\<lambda>sig. fst sig = signo) signals;
     ASSERT (sig \<noteq> None) (snd s);
     ASSERT (signo \<in> {SIGUSR1, SIGUSR2, SIGTTIN, SIGTTOU, SIGHUP, SIGINT, SIGSEGV}) (snd s);
     let s = (if signo = SIGSEGV then log_stacktrace s else s);
     let actionstr = bytes_of_string
       (if signo = SIGTTIN then '', up logging level'' else if signo = SIGTTOU then '', down logging level''
        else if signo = SIGHUP then '', reopening log file'' else if signo = SIGINT then '', exiting''
        else if signo = SIGSEGV then '', core dumping'' else []);
     s \<leftarrow> log_safe (bytes_of_string ''signal %d (%s) received%s'')
           [V32 (word_of_int signo), VStr (map_option (\<lambda>sig. fst (snd sig)) sig), VStr (Some actionstr)] s;
     s \<leftarrow> (if signo = SIGTTIN then log_level_up s else if signo = SIGTTOU then log_level_down s
           else if signo = SIGHUP then log_reopen X s else Some s);
     Some (if signo = SIGINT then Sig_exits 1 else if signo = SIGSEGV then Sig_kills SIGSEGV else Sig_returns, s) }"

subsection \<open>A log call is not seen by the handlers\<close>

text \<open>Two states that differ in the trace, in the results the kernel has left and in \<open>errno\<close>.\<close>

definition errno_apart :: "world \<Rightarrow> world \<Rightarrow> bool" where
  "errno_apart w w' \<longleftrightarrow>
     (\<exists>tr e. w' = w\<lparr>w_tick := w_tick w + length tr, w_trace := w_trace w @ tr, w_errno := e\<rparr>)"

definition same_state :: "world \<Rightarrow> world \<Rightarrow> bool" where
  "same_state w w' \<longleftrightarrow> errno_apart w w' \<and> w_errno w' = w_errno w"

lemma errno_apart_refl [simp]: "errno_apart w w"
  unfolding errno_apart_def by (intro exI [of _ "[]"] exI [of _ "w_errno w"]) simp

lemma errno_apart_trans: "errno_apart w1 w2 \<Longrightarrow> errno_apart w2 w3 \<Longrightarrow> errno_apart w1 w3"
proof -
  assume "errno_apart w1 w2" "errno_apart w2 w3"
  then obtain tr e tr' e' where "w2 = w1\<lparr>w_tick := w_tick w1 + length tr, w_trace := w_trace w1 @ tr, w_errno := e\<rparr>"
    "w3 = w2\<lparr>w_tick := w_tick w2 + length tr', w_trace := w_trace w2 @ tr', w_errno := e'\<rparr>"
    unfolding errno_apart_def by (elim exE)
  then show ?thesis unfolding errno_apart_def by (intro exI [of _ "tr @ tr'"] exI [of _ e']) simp
qed

lemma same_state_refl [simp]: "same_state w w" by (simp add: same_state_def)

lemma same_state_trans: "same_state w1 w2 \<Longrightarrow> same_state w2 w3 \<Longrightarrow> same_state w1 w3"
  unfolding same_state_def by (auto intro: errno_apart_trans)

lemma sys_apart: "errno_apart w (snd (sys op w))"
  unfolding errno_apart_def by (intro exI [of _ "[(op, fst (sys op w))]"] exI [of _ "w_errno (snd (sys op w))"]) (simp add: sys_def Let_def)

lemma sys_apartI: "sys op w = (r, w') \<Longrightarrow> errno_apart w0' w \<Longrightarrow> errno_apart w0' w'"
  using sys_apart [of w op] errno_apart_trans by auto

lemma restore_errno: "errno_apart w w' \<Longrightarrow> same_state w (w'\<lparr>w_errno := w_errno w\<rparr>)"
proof -
  assume "errno_apart w w'"
  then obtain tr e where "w' = w\<lparr>w_tick := w_tick w + length tr, w_trace := w_trace w @ tr, w_errno := e\<rparr>"
    unfolding errno_apart_def by (elim exE)
  then show ?thesis unfolding same_state_def errno_apart_def by (intro conjI exI [of _ tr] exI [of _ "w_errno w"]) simp_all
qed

text \<open>A write of the logger changes only its count of errors.\<close>

definition log_kept :: "logger \<Rightarrow> logger \<Rightarrow> bool" where
  "log_kept l l' \<longleftrightarrow> l_level l' = l_level l \<and> l_fd l' = l_fd l \<and> l_name l' = l_name l \<and> l_nerror l \<le> l_nerror l'"

lemma log_kept_refl [simp]: "log_kept l l" by (simp add: log_kept_def)

lemma log_kept_trans: "log_kept l1 l2 \<Longrightarrow> log_kept l2 l3 \<Longrightarrow> log_kept l1 l3"
  by (auto simp: log_kept_def)

lemma log_write_kept: "log_write fd bs (l, w) = (l', w') \<Longrightarrow> log_kept l l' \<and> errno_apart w w'"
  by (auto simp: log_write_def Let_def log_kept_def split: prod.splits if_splits intro: sys_apartI)

lemma log_write_snd: "errno_apart (snd s) (snd (log_write fd bs s))" "log_kept (fst s) (fst (log_write fd bs s))"
  using log_write_kept [of fd bs "fst s" "snd s" "fst (log_write fd bs s)" "snd (log_write fd bs s)"] by auto

lemma keep_errno_kept:
  assumes "errno_apart (snd s) (snd (f s))" "log_kept (fst s) (fst (f s))"
  shows "log_kept (fst s) (fst (keep_errno f s)) \<and> same_state (snd s) (snd (keep_errno f s))"
  using assms restore_errno by (auto simp: keep_errno_def Let_def split_def)

lemma log_write_keeps:
  "log_kept (fst s) (fst (keep_errno (log_write fd bs) s))" "same_state (snd s) (snd (keep_errno (log_write fd bs) s))"
  using keep_errno_kept [where f = "log_write fd bs", OF log_write_snd] by auto

lemma log_time_apart: "log_time w = Some (t, w') \<Longrightarrow> errno_apart w w'"
  by (auto simp: log_time_def gf_simps Let_def split: prod.splits if_splits elim!: sys_apartI)

lemma log_call_kept:
  assumes "log_call debug file line panic text s = Some s'"
  shows "log_kept (fst s) (fst s') \<and> same_state (snd s) (snd s')"
proof (cases "l_fd (fst s) < 0")
  case False
  obtain l w where s: "s = (l, w)" by fastforce
  from assms False obtain time w1 where 1: "log_time w = Some (time, w1)"
    by (cases "log_time w") (auto simp: log_call_def s)
  obtain r w2 where 2: "sys (Sys_call ''getpid'') w1 = (r, w2)" by fastforce
  let ?bs = "log_output (r_ret r) time (log_letters ! nat (l_level l)) (log_message debug file line text)"
  obtain l3 w3 where 3: "log_write (l_fd l) ?bs (l, w2) = (l3, w3)" by fastforce
  from assms False have s': "s' = (l3, w3\<lparr>w_errno := w_errno w\<rparr>)"
    by (auto simp: log_call_def s 1 2 3 Let_def split: if_splits)
  from log_time_apart [OF 1] log_write_kept [OF 3] have "errno_apart w w3" "log_kept l l3"
    using sys_apartI [OF 2] errno_apart_trans by blast+
  then show ?thesis by (simp add: s s' restore_errno)
qed (use assms in \<open>cases s, auto simp: log_call_def\<close>)

subsection \<open>Sequences of log calls\<close>

datatype log_request = Log_call bool "u8 list" int "u8 list option" | Log_stderr "u8 list option" | Log_safe "u8 list" "va_arg list" | Log_hexdump "u8 list"

definition log_request :: "log_request \<Rightarrow> log_state \<Rightarrow> log_state option" where
  "log_request rq = (case rq of Log_call debug file line text \<Rightarrow> log_call debug file line False text
     | Log_stderr text \<Rightarrow> (\<lambda>s. Some (log_stderr text s)) | Log_safe fmt ap \<Rightarrow> log_safe fmt ap
     | Log_hexdump data \<Rightarrow> (\<lambda>s. Some (log_hexdump data s)))"

primrec log_requests :: "log_request list \<Rightarrow> log_state \<Rightarrow> log_state option" where
  "log_requests [] s = Some s"
| "log_requests (rq # rqs) s = do { s \<leftarrow> log_request rq s; log_requests rqs s }"

lemma log_hexdump_kept: "log_kept (fst s) (fst (log_hexdump data s)) \<and> same_state (snd s) (snd (log_hexdump data s))"
proof -
  let ?f = "\<lambda>s. let buf = hexdump_loop 0 data []; s = log_write (l_fd (fst s)) buf s
     in if HEXDUMP_SIZE - 1 \<le> length buf then log_write (l_fd (fst s)) [10] s else s"
  have "errno_apart (snd s) (snd (?f s))" "log_kept (fst s) (fst (?f s))"
    using log_write_snd errno_apart_trans log_kept_trans by (simp_all add: Let_def) blast+
  from keep_errno_kept [where f = ?f, OF this] show ?thesis by (simp add: log_hexdump_def)
qed

lemma log_request_kept: "log_request rq s = Some s' \<Longrightarrow> log_kept (fst s) (fst s') \<and> same_state (snd s) (snd s')"
  by (cases rq) (auto simp: log_request_def log_stderr_def log_safe_def gf_simps log_write_keeps log_hexdump_kept
    dest: log_call_kept split: if_splits)

text \<open>
  C24: whatever the kernel answers, any sequence of log calls leaves every
  field of the state as it was, \<open>errno\<close> too, apart from the system calls it makes, and of the
  logger changes the count of failed writes only.  The handlers of the other theories, which test
  \<open>errno\<close> after logging, can therefore be read without their log calls.
\<close>

theorem log_calls_transparent:
  assumes "log_requests rqs (l, w) = Some (l', w')"
  shows "\<exists>tr n. w' = w\<lparr>w_tick := w_tick w + length tr, w_trace := w_trace w @ tr\<rparr> \<and> l' = l\<lparr>l_nerror := l_nerror l + int n\<rparr>"
proof -
  have "log_requests rqs s = Some s' \<Longrightarrow> log_kept (fst s) (fst s') \<and> same_state (snd s) (snd s')" for s s'
  proof (induction rqs arbitrary: s)
    case (Cons rq rqs)
    then obtain s1 where "log_request rq s = Some s1" "log_requests rqs s1 = Some s'" by (auto simp: gf_simps)
    with log_request_kept [of rq s s1] Cons.IH [of s1] show ?case by (blast intro: log_kept_trans same_state_trans)
  qed simp
  from this [OF assms] obtain tr e where kept: "log_kept l l'" "w_errno w' = w_errno w"
    and w': "w' = w\<lparr>w_tick := w_tick w + length tr, w_trace := w_trace w @ tr, w_errno := e\<rparr>"
    by (auto simp: same_state_def errno_apart_def)
  from w' kept(2) have "w' = w\<lparr>w_tick := w_tick w + length tr, w_trace := w_trace w @ tr\<rparr>" by simp
  moreover have "l' = l\<lparr>l_nerror := l_nerror l + int (nat (l_nerror l' - l_nerror l))\<rparr>"
    using kept(1) by (cases l, cases l') (simp add: log_kept_def)
  ultimately show ?thesis by blast
qed

definition log_w :: log_state where
  "log_w = (\<lparr>l_name = None, l_level = 5, l_fd = 2, l_nerror = 0\<rparr>,
     w0\<lparr>w_errno := 11, w_os := (\<lambda>i. if i = 5 then sample_res (- 1) [] else sample_res 1 [])\<rparr>)"

definition log_w' :: log_state where
  "log_w' = the (log_requests [Log_call False [] 0 (Some [97, 98]), Log_stderr (Some [99])] log_w)"

lemma log_calls_transparent_witness:
  "w_errno (snd log_w') = 11 \<and> w_conns (snd log_w') = w_conns (snd log_w)"
proof -
  obtain l' w' where 1: "log_requests [Log_call False [] 0 (Some [97, 98]), Log_stderr (Some [99])] (fst log_w, snd log_w) = Some (l', w')"
      "log_w' = (l', w')"
    by (simp add: log_w'_def log_w_def log_request_def log_call_def log_stderr_def log_time_def sys_def Let_def split_def sample_res_def
        log_letters_def bytes_of_string_def log_write_def keep_errno_def)
  from log_calls_transparent [OF 1(1)] show ?thesis by (auto simp: 1(2)) (simp add: log_w_def)
qed

subsection \<open>The dump as a text\<close>

lemma add_text_take:
  assumes "length out < n"
  shows "add_text n (Some text) out = take (n - 1) (out @ text)"
proof (cases "length text < n - length out")
  case False
  have "nat (int (n - length out) - 1) = n - Suc (length out)" using assms by (simp add: of_nat_diff nat_diff_distrib)
  with False assms show ?thesis by (auto simp: add_text_def gf_vscnprintf_def Let_def)
qed (use assms in \<open>auto simp: add_text_def gf_vscnprintf_def Let_def\<close>)

lemma add_text_length: "length out < n \<Longrightarrow> length (add_text n (Some text) out) < n"
  by (simp add: add_text_take)

lemma foldl_add_text:
  "length out < n \<Longrightarrow> foldl (\<lambda>out i. add_text n (Some (f i)) out) out is = take (n - 1) (out @ concat (map f is))"
proof (induction "is" arbitrary: out)
  case (Cons i "is")
  have "foldl (\<lambda>out i. add_text n (Some (f i)) out) out (i # is) = take (n - 1) (add_text n (Some (f i)) out @ concat (map f is))"
    using Cons.IH [OF add_text_length [OF Cons.prems]] by simp
  also have "\<dots> = take (n - 1) (out @ concat (map f (i # is)))"
    using Cons.prems by (simp add: add_text_take min_def) 
  finally show ?case .
qed simp

text \<open>The canonical dump, without a bound.\<close>

definition hexdump_line :: "nat \<Rightarrow> u8 list \<Rightarrow> u8 list" where
  "hexdump_line off bs =
     pad 8 48 (hexadecimal off) @ [32, 32]
     @ concat (map (\<lambda>i. (if i < length bs then pad 2 48 (hexadecimal (unat (bs ! i))) else [32, 32]) @ hex_gap i) [0..<16])
     @ [32, 32, 124] @ map (\<lambda>c. if isprint c then c else 46) bs @ [124, 10]"

function hexdump :: "nat \<Rightarrow> u8 list \<Rightarrow> u8 list" where
  "hexdump off data = (if data = [] then [] else hexdump_line off (take 16 data) @ hexdump (off + 16) (drop 16 data))"
  by pat_completeness auto
termination by (relation "measure (\<lambda>(off, data). length data)") auto

declare hexdump.simps [simp del]

lemma take_take_append [simp]: "take k (take k xs @ ys) = take k (xs @ ys)"
  by (cases "length xs \<le> k") (auto simp: min_def)

lemma hexdump_turn_take:
  assumes "length buf < HEXDUMP_SIZE"
  shows "hexdump_turn off data buf = take (HEXDUMP_SIZE - 1) (buf @ hexdump_line off (take 16 data))"
proof -
  let ?n = "min 16 (length data)" and ?bs = "take 16 data"
  have split: "[0..<16] = [0..<?n] @ [?n..<16]" by (metis min.cobounded1 upt_add_eq_append le_add_diff_inverse zero_le)
  have cells: "concat (map (\<lambda>i. (if i < length ?bs then pad 2 48 (hexadecimal (unat (?bs ! i))) else [32, 32]) @ hex_gap i) [0..<16])
      = concat (map (\<lambda>i. pad 2 48 (hexadecimal (unat (data ! i))) @ hex_gap i) [0..<?n]) @ concat (map (\<lambda>i. [32, 32] @ hex_gap i) [?n..<16])"
    unfolding split map_append concat_append by (intro arg_cong2 [of _ _ _ _ append] arg_cong [of _ _ concat] map_cong) auto
  have chars: "map (\<lambda>i. if isprint (data ! i) then data ! i else 46) [0..<?n] = map (\<lambda>c. if isprint c then c else 46) ?bs"
    by (rule nth_equalityI) auto
  show ?thesis
    unfolding hexdump_turn_def Let_def hexdump_line_def cells
    using assms by (simp del: take_append add: add_text_take foldl_add_text chars min_less_iff_disj)
qed

lemma hexdump_loop_take:
  "length buf < HEXDUMP_SIZE \<Longrightarrow> hexdump_loop off data buf = take (HEXDUMP_SIZE - 1) (buf @ hexdump off data)"
proof (induction off data buf rule: hexdump_loop.induct)
  case (1 off data buf)
  show ?case
  proof (cases "data \<noteq> [] \<and> length buf < HEXDUMP_SIZE - 1")
    case True
    have len: "length (hexdump_turn off data buf) < HEXDUMP_SIZE"
      using 1(2) by (simp del: take_append length_append add: hexdump_turn_take min_less_iff_disj)
    have "hexdump_loop off data buf = hexdump_loop (off + 16) (drop 16 data) (hexdump_turn off data buf)"
      using True by (simp add: hexdump_loop.simps [of off])
    also have "\<dots> = take (HEXDUMP_SIZE - 1) (hexdump_turn off data buf @ hexdump (off + 16) (drop 16 data))"
      using True len by (intro 1(1)) simp_all
    finally show ?thesis using True 1(2) by (simp del: take_append add: hexdump_turn_take hexdump.simps [of off data])
  next
    case False
    then show ?thesis using 1(2) by (auto simp: hexdump_loop.simps [of off data] hexdump.simps [of off "[]"])
  qed
qed

text \<open>
  C25: for any data the dump is written in one call, as exactly the canonical dump
  (offset, sixteen cells in hexadecimal with a gap after the eighth, the printable characters)
  cut to the 2047 bytes of its buffer; when it was cut or just filled the buffer, a newline
  follows in a second call.
\<close>

theorem hexdump_writes:
  assumes "0 \<le> l_fd l"
  shows "map fst (w_trace (snd (log_hexdump data (l, w)))) = map fst (w_trace w) @
     (if length (hexdump 0 data) < 2047 then [Sys_write (l_fd l) (hexdump 0 data)]
      else [Sys_write (l_fd l) (take 2047 (hexdump 0 data)), Sys_write (l_fd l) [10]])"
  using assms by (auto simp: log_hexdump_def hexdump_loop_take keep_errno_def log_write_def sys_def Let_def split_def)

lemma hexdump_writes_witness:
  "map fst (w_trace (snd (log_hexdump [104, 105, 10] log_w))) = [Sys_write 2 (hexdump 0 [104, 105, 10])] \<and> length (hexdump 0 [104, 105, 10]) = 67"
proof -
  have "length (hexdump 0 [104, 105, 10]) = 67"
    by (simp add: hexdump.simps hexdump_line_def pad_def hexadecimal.simps hex_def hex_gap_def upt_rec [of _ 16] isprint_def)
  then show ?thesis using hexdump_writes [of "fst log_w" "[104, 105, 10]" "snd log_w"] by (simp add: log_w_def)
qed

subsection \<open>The level\<close>

text \<open>What happens to the logger while the program runs: log calls, levels set and signals.\<close>

datatype log_event = Log_request log_request | Set_level bool int | Signalled int

definition log_event :: "ext \<Rightarrow> log_event \<Rightarrow> log_state \<Rightarrow> log_state option" where
  "log_event X ev s = (case ev of Log_request rq \<Rightarrow> log_request rq s | Set_level debug level \<Rightarrow> log_level_set debug level s
     | Signalled signo \<Rightarrow> map_option snd (signal_handler X signo s))"

primrec log_events :: "ext \<Rightarrow> log_event list \<Rightarrow> log_state \<Rightarrow> log_state option" where
  "log_events X [] s = Some s"
| "log_events X (ev # evs) s = do { s \<leftarrow> log_event X ev s; log_events X evs s }"

definition level_ok :: "log_state \<Rightarrow> bool" where
  "level_ok s \<longleftrightarrow> LOG_EMERG \<le> l_level (fst s) \<and> l_level (fst s) \<le> LOG_PVERB"

lemma level_ok_kept: "log_kept (fst s) (fst s') \<Longrightarrow> level_ok s' = level_ok s"
  by (simp add: level_ok_def log_kept_def)

lemma log_safe_kept: "log_safe fmt ap s = Some s' \<Longrightarrow> log_kept (fst s) (fst s')"
  using log_request_kept [of "Log_safe fmt ap"] by (simp add: log_request_def)

lemma log_stderr_safe_kept: "log_stderr_safe fmt ap s = Some s' \<Longrightarrow> log_kept (fst s) (fst s')"
  by (auto simp: log_stderr_safe_def gf_simps log_write_keeps)

lemma log_level_up_ok: "log_level_up s = Some s' \<Longrightarrow> level_ok s \<Longrightarrow> level_ok s'"
  by (auto simp: log_level_up_def level_ok_def log_kept_def split: if_splits prod.splits dest!: log_safe_kept)

lemma log_level_down_ok: "log_level_down s = Some s' \<Longrightarrow> level_ok s \<Longrightarrow> level_ok s'"
  by (auto simp: log_level_down_def level_ok_def log_kept_def split: if_splits prod.splits dest!: log_safe_kept)

lemma log_level_set_ok: "log_level_set debug level s = Some s' \<Longrightarrow> level_ok s'"
  by (auto simp: log_level_set_def level_ok_def log_kept_def clamp_level_def Let_def split: prod.splits dest!: log_call_kept)

lemma log_reopen_ok: "log_reopen X s = Some s' \<Longrightarrow> level_ok s \<Longrightarrow> level_ok s'"
  by (cases s) (auto simp: log_reopen_def level_ok_def log_kept_def gf_simps Let_def split_def split: if_splits dest!: log_stderr_safe_kept)

lemma log_stacktrace_ok: "level_ok (log_stacktrace s) = level_ok s"
  by (simp add: log_stacktrace_def level_ok_def split: prod.splits)

lemma signal_handler_ok:
  assumes "signal_handler X signo s = Some (e, s')" "level_ok s"
  shows "level_ok s'"
proof -
  define s0 where "s0 = (if signo = SIGSEGV then log_stacktrace s else s)"
  have "level_ok s0" using assms(2) by (simp add: s0_def log_stacktrace_ok)
  from assms(1) obtain fmt ap s1 where 1: "log_safe fmt ap s0 = Some s1"
    and 2: "(if signo = SIGTTIN then log_level_up s1 else if signo = SIGTTOU then log_level_down s1
           else if signo = SIGHUP then log_reopen X s1 else Some s1) = Some s'"
    unfolding signal_handler_def Let_def s0_def [symmetric] by (elim bind_SomeE) simp
  from level_ok_kept [OF log_safe_kept [OF 1]] \<open>level_ok s0\<close> have "level_ok s1" by simp
  with 2 show ?thesis by (auto split: if_splits dest: log_level_up_ok log_level_down_ok log_reopen_ok)
qed

lemma log_event_ok: "log_event X ev s = Some s' \<Longrightarrow> level_ok s \<Longrightarrow> level_ok s'"
  by (cases ev) (auto simp: log_event_def dest: log_request_kept level_ok_kept log_level_set_ok signal_handler_ok)

lemma log_events_ok: "log_events X evs s = Some s' \<Longrightarrow> level_ok s \<Longrightarrow> level_ok s'"
  by (induction evs arbitrary: s) (auto simp: gf_simps dest: log_event_ok)

lemma log_init_ok: "level_ok (snd (log_init level name failure s))"
proof -
  have "level_ok (l\<lparr>l_level := clamp_level level, l_name := n, l_fd := fd\<rparr>, w)" for l n fd w
    by (simp add: level_ok_def clamp_level_def)
  moreover have "level_ok (log_stderr t s) = level_ok s" for t s
    by (simp add: log_stderr_def level_ok_kept log_write_keeps)
  ultimately show ?thesis by (auto simp: log_init_def Let_def split: prod.splits option.splits)
qed

lemma log_call_returns:
  assumes "level_ok s" "log_time (snd s) \<noteq> None"
  shows "log_call debug file line False text s \<noteq> None"
  using assms by (cases s) (auto simp: log_call_def level_ok_def log_letters_def bytes_of_string_def Let_def split_def)

text \<open>
  whatever level is given on the command line or set later, and through any
  sequence of log calls and signals, the ones that raise and lower the level and the one that
  reopens the file included, the level stays between 0 and 11; so the letter of the level, an
  unchecked index into a table of twelve, is always inside of it and a log call returns.
\<close>

theorem logger_always_logs:
  assumes "log_init level name failure s = (st, s1)" "log_events X evs s1 = Some s2" "log_time (snd s2) \<noteq> None"
  shows "LOG_EMERG \<le> l_level (fst s2) \<and> l_level (fst s2) \<le> LOG_PVERB \<and> log_call debug file line False text s2 \<noteq> None"
proof -
  have "level_ok s2" using log_init_ok [of level name failure s] log_events_ok [OF assms(2)] assms(1) by simp
  with log_call_returns [OF this assms(3)] show ?thesis by (simp add: level_ok_def)
qed

definition log_signals :: "log_event list" where
  "log_signals = [Signalled SIGTTIN, Signalled SIGUSR1, Set_level False 99, Signalled SIGTTOU]"

lemma log_signals_run:
  "case log_events sample_ext log_signals (snd (log_init 99 None None log_w)) of None \<Rightarrow> False
   | Some s \<Rightarrow> l_level (fst s) = 10 \<and> (case log_time (snd s) of None \<Rightarrow> False | Some _ \<Rightarrow> True)"
  by code_simp

lemma logger_always_logs_witness:
  "\<exists>s. log_events sample_ext log_signals (snd (log_init 99 None None log_w)) = Some s \<and> l_level (fst s) \<le> LOG_PVERB
     \<and> log_call False [] 0 False (Some [97]) s \<noteq> None"
proof -
  have 1: "log_init 99 None None log_w = (0, snd (log_init 99 None None log_w))" by (simp add: log_init_def log_w_def)
  from log_signals_run obtain s where 2: "log_events sample_ext log_signals (snd (log_init 99 None None log_w)) = Some s" "log_time (snd s) \<noteq> None"
    by (auto split: option.splits)
  from logger_always_logs [OF 1 2] 2 show ?thesis by blast
qed

subsection \<open>The safe lines\<close>

text \<open>A line of the safe variants is the marker and the message, cut to 255 bytes, and a newline.\<close>

lemma safe_line_text:
  assumes "format_text fmt ap = Some t"
  shows "safe_line fmt ap = Some (take 255 (bytes_of_string ''[.......................] '' @ t) @ [10])"
proof -
  have "safe_vsnprintf LOG_MAX_LEN (bytes_of_string ''[.......................] '') []
      = Some (bytes_of_string ''[.......................] '' @ [0], 26)" by code_simp
  moreover have "length (bytes_of_string ''[.......................] '') = 26" by (simp add: bytes_of_string_def)
  ultimately show ?thesis using safe_format_text [OF assms, of "[]" 229]
    by (simp add: safe_line_def safe_vsnprintf_def)
qed

end
