(* ===== verification/Startup.thy ===== *)
theory Startup
  imports Conf_Run Stats_Arrays Core Logger
begin

section \<open>Start and stop (\<open>gf_core.c\<close>, \<open>gfw.c\<close>)\<close>

text \<open>
  The context, made from the configuration stage by stage and released in the reverse order, the
  options of the command line, daemon mode, the pid file and \<open>main\<close>.  What \<open>getopt_long\<close> returns
  for the command line is a parameter.  As elsewhere, calls that only log are left out.
\<close>

subsection \<open>The context\<close>

text \<open>The pools and the event base are part of the state; the context has the configuration and the statistics.\<close>

record context_rec =
  x_cf :: conf
  x_stats :: stats_ctx

record instance_rec =
  i_log_level :: int
  i_log_filename :: "u8 list option"
  i_conf_filename :: "u8 list"
  i_stats_port :: u16
  i_stats_interval :: int
  i_stats_addr :: "u8 list"
  i_hostname :: "u8 list"
  i_mbuf_chunk_size :: nat
  i_pid :: int
  i_pid_filename :: "u8 list option"
  i_pidfile :: bool

abbreviation (input) EVENT_SIZE :: int where "EVENT_SIZE \<equiv> 1024"

text \<open>The ways out of a creation that fails, each a suffix of the one before.\<close>

definition undo_conf :: "conf \<Rightarrow> world \<Rightarrow> (context_rec option \<times> world) option" where
  "undo_conf cf w = do { conf_destroy cf w; Some (None, w) }"

definition undo_pools :: "conf \<Rightarrow> world \<Rightarrow> (context_rec option \<times> world) option" where
  "undo_pools cf w = do { w \<leftarrow> server_pool_deinit w; undo_conf cf w }"

definition undo_stats :: "context_rec \<Rightarrow> world \<Rightarrow> (context_rec option \<times> world) option" where
  "undo_stats x w = do { w \<leftarrow> stats_destroy (x_stats x) w; undo_pools (x_cf x) w }"

definition undo_servers :: "nat \<Rightarrow> ext \<Rightarrow> context_rec \<Rightarrow> world \<Rightarrow> (context_rec option \<times> world) option" where
  "undo_servers fuel X x w = do {
     w \<leftarrow> server_pool_disconnect fuel X w;
     w \<leftarrow> event_base_destroy w;
     undo_stats x w }"

definition core_ctx_create ::
  "nat \<Rightarrow> ext \<Rightarrow> yaml \<Rightarrow> u8 list \<Rightarrow> instance_rec \<Rightarrow> world \<Rightarrow> (context_rec option \<times> world) option" where
  "core_ctx_create fuel X Y version nci w = do {
     let (ok, w) = gf_alloc w;
     if \<not> ok then Some (None, w)
     else do {
       let w = w\<lparr>w_ep := 0, w_npool := 0, w_max_timeout := i_stats_interval nci, w_timeout := i_stats_interval nci,
                 w_max_nfd := 0, w_max_ncconn := 0, w_max_nsconn := 0\<rparr>;
       (cf, w) \<leftarrow> conf_create fuel Y w;
       case cf of None \<Rightarrow> Some (None, w)
       | Some cf \<Rightarrow> do {
           (status, w) \<leftarrow> server_pool_init (cf_pool cf) w;
           if status \<noteq> GF_OK then undo_conf cf w
           else do {
             let (status, w) = core_calc_connections w;
             if status \<noteq> GF_OK then undo_pools cf w
             else do {
               (st, w) \<leftarrow> stats_create (uint (i_stats_port nci)) (i_stats_addr nci) (i_stats_interval nci) (i_hostname nci) version w;
               case st of None \<Rightarrow> undo_pools cf w
               | Some st \<Rightarrow> do {
                   let x = \<lparr>x_cf = cf, x_stats = st\<rparr>;
                   let w = w\<lparr>w_stats := stats_of st\<rparr>;
                   (ok, w) \<leftarrow> event_base_create EVENT_SIZE w;
                   if \<not> ok then undo_stats x w
                   else do {
                     (status, w) \<leftarrow> server_pool_preconnect X w;
                     if status \<noteq> GF_OK then undo_servers fuel X x w
                     else do {
                       (status, w) \<leftarrow> proxy_init X w;
                       if status \<noteq> GF_OK then undo_servers fuel X x w
                       else Some (Some x, w) } } } } } } } }"

definition core_ctx_destroy :: "nat \<Rightarrow> ext \<Rightarrow> context_rec \<Rightarrow> world \<Rightarrow> world option" where
  "core_ctx_destroy fuel X x w = do {
     w \<leftarrow> proxy_deinit X w;
     w \<leftarrow> server_pool_disconnect fuel X w;
     w \<leftarrow> event_base_destroy w;
     w \<leftarrow> stats_destroy (x_stats x) w;
     w \<leftarrow> server_pool_deinit w;
     conf_destroy (x_cf x) w;
     Some w }"

definition core_start ::
  "nat \<Rightarrow> ext \<Rightarrow> yaml \<Rightarrow> u8 list \<Rightarrow> instance_rec \<Rightarrow> world \<Rightarrow> (context_rec option \<times> world) option" where
  "core_start fuel X Y version nci w = do {
     let w = conn_init (msg_init (mbuf_init (i_mbuf_chunk_size nci) w));
     (x, w) \<leftarrow> core_ctx_create fuel X Y version nci w;
     case x of Some x \<Rightarrow> Some (Some x, w)
     | None \<Rightarrow> do { w \<leftarrow> conn_deinit w; w \<leftarrow> msg_deinit w; w \<leftarrow> mbuf_deinit w; Some (None, w) } }"

definition core_stop :: "nat \<Rightarrow> ext \<Rightarrow> context_rec \<Rightarrow> world \<Rightarrow> world option" where
  "core_stop fuel X x w = do { w \<leftarrow> conn_deinit w; w \<leftarrow> msg_deinit w; w \<leftarrow> mbuf_deinit w; core_ctx_destroy fuel X x w }"

subsection \<open>Options\<close>

abbreviation (input) MBUF_MIN_SIZE :: int where "MBUF_MIN_SIZE \<equiv> 512"
abbreviation (input) MBUF_MAX_SIZE :: int where "MBUF_MAX_SIZE \<equiv> 16777216"

record program =
  pr_show_help :: bool
  pr_show_version :: bool
  pr_test_conf :: bool
  pr_daemonize :: bool
  pr_describe_stats :: bool
  pr_nci :: instance_rec

text \<open>What \<open>getopt_long\<close> returns each time: the option, or \<open>Opt_bad\<close> for \<open>'?'\<close>, and its argument.\<close>

datatype opt = Opt_h | Opt_V | Opt_t | Opt_d | Opt_D | Opt_v "u8 list" | Opt_o "u8 list" | Opt_c "u8 list" | Opt_s "u8 list"
  | Opt_i "u8 list" | Opt_a "u8 list" | Opt_p "u8 list" | Opt_m "u8 list" | Opt_bad

definition gf_set_default_options :: "world \<Rightarrow> instance_rec \<times> world" where
  "gf_set_default_options w =
     (let (r, w) = sys (Sys_call ''gethostname'') w
      in (\<lparr>i_log_level = 5, i_log_filename = None, i_conf_filename = bytes_of_string ''conf/nutcracker.yml'', i_stats_port = 22222,
           i_stats_interval = 30000, i_stats_addr = bytes_of_string ''0.0.0.0'',
           i_hostname = (if r_ret r < 0 then bytes_of_string ''unknown'' else cstr (take 255 (r_data r))),
           i_mbuf_chunk_size = 16384, i_pid = - 1, i_pid_filename = None, i_pidfile = False\<rparr>, w))"

text \<open>One turn of the loop; the result is the status, and the loop goes on when it is \<open>GF_OK\<close>.\<close>

definition gf_get_option :: "opt \<Rightarrow> program \<Rightarrow> (int \<times> program) option" where
  "gf_get_option opt pr =
     (let set = (\<lambda>f. Some (GF_OK, pr\<lparr>pr_nci := f (pr_nci pr)\<rparr>)); refuse = Some (GF_ERROR, pr)
      in case opt of
           Opt_h \<Rightarrow> Some (GF_OK, pr\<lparr>pr_show_version := True, pr_show_help := True\<rparr>)
         | Opt_V \<Rightarrow> Some (GF_OK, pr\<lparr>pr_show_version := True\<rparr>)
         | Opt_t \<Rightarrow> Some (GF_OK, pr\<lparr>pr_test_conf := True\<rparr>)
         | Opt_d \<Rightarrow> Some (GF_OK, pr\<lparr>pr_daemonize := True\<rparr>)
         | Opt_D \<Rightarrow> Some (GF_OK, pr\<lparr>pr_describe_stats := True, pr_show_version := True\<rparr>)
         | Opt_v arg \<Rightarrow> do { value \<leftarrow> gf_atoi arg (length arg);
             if value < 0 then refuse else set (\<lambda>i. i\<lparr>i_log_level := value\<rparr>) }
         | Opt_o arg \<Rightarrow> set (\<lambda>i. i\<lparr>i_log_filename := Some arg\<rparr>)
         | Opt_c arg \<Rightarrow> set (\<lambda>i. i\<lparr>i_conf_filename := arg\<rparr>)
         | Opt_s arg \<Rightarrow> do { value \<leftarrow> gf_atoi arg (length arg);
             if value < 0 then refuse else if \<not> gf_valid_port value then refuse
             else set (\<lambda>i. i\<lparr>i_stats_port := word_of_int value\<rparr>) }
         | Opt_i arg \<Rightarrow> do { value \<leftarrow> gf_atoi arg (length arg);
             if value < 0 then refuse else set (\<lambda>i. i\<lparr>i_stats_interval := value\<rparr>) }
         | Opt_a arg \<Rightarrow> set (\<lambda>i. i\<lparr>i_stats_addr := arg\<rparr>)
         | Opt_p arg \<Rightarrow> set (\<lambda>i. i\<lparr>i_pid_filename := Some arg\<rparr>)
         | Opt_m arg \<Rightarrow> do { value \<leftarrow> gf_atoi arg (length arg);
             if value \<le> 0 then refuse else if value < MBUF_MIN_SIZE \<or> MBUF_MAX_SIZE < value then refuse
             else set (\<lambda>i. i\<lparr>i_mbuf_chunk_size := nat value\<rparr>) }
         | Opt_bad \<Rightarrow> refuse)"

primrec gf_get_options :: "opt list \<Rightarrow> program \<Rightarrow> (int \<times> program) option" where
  "gf_get_options [] pr = Some (GF_OK, pr)"
| "gf_get_options (opt # opts) pr = do {
     (status, pr) \<leftarrow> gf_get_option opt pr;
     if status \<noteq> GF_OK then Some (status, pr) else gf_get_options opts pr }"

subsection \<open>Daemon mode and the pid file\<close>

text \<open>A function that may end the process.\<close>

datatype 'a proc = Exit int | Return 'a

text \<open>Each call of a list must not fail, up to the first that does.\<close>

primrec all_calls :: "(sysop \<times> sysop option) list \<Rightarrow> world \<Rightarrow> int \<times> world" where
  "all_calls [] w = (GF_OK, w)"
| "all_calls (c # cs) w =
     (let (r, w) = sys (fst c) w
      in if r_ret r < 0 then (GF_ERROR, case snd c of None \<Rightarrow> w | Some undo \<Rightarrow> snd (sys undo w)) else all_calls cs w)"

text \<open>The standard descriptors are made copies of \<open>/dev/null\<close>, which is closed when a copy fails.\<close>

definition null_files :: "world \<Rightarrow> int \<times> world" where
  "null_files w =
     (let (r, w) = sys (Sys_open (bytes_of_string ''/dev/null'')) w; fd = r_ret r
      in if fd < 0 then (GF_ERROR, w)
         else all_calls (map (\<lambda>n. (Sys_dup2 fd n, Some (Sys_close fd))) [0, 1, 2] @ (if 2 < fd then [(Sys_close fd, None)] else [])) w)"

text \<open>A first \<open>fork\<close> that fails is not told from one that made the child.\<close>

definition gf_daemonize :: "int \<Rightarrow> world \<Rightarrow> int proc \<times> world" where
  "gf_daemonize dump_core w =
     (let (r, w) = sys (Sys_call ''fork'') w
      in if r_ret r \<noteq> - 1 \<and> r_ret r \<noteq> 0 then (Exit 0, w)
         else (let (status, w) = all_calls [(Sys_call ''setsid'', None), (Sys_call ''signal'', None)] w
               in if status \<noteq> GF_OK then (Return GF_ERROR, w)
                  else (let (r, w) = sys (Sys_call ''fork'') w
                        in if r_ret r = - 1 then (Return GF_ERROR, w)
                           else if r_ret r \<noteq> 0 then (Exit 0, w)
                           else (let (status, w) = (if dump_core = 0 then all_calls [(Sys_call ''chdir'', None)] w else (GF_OK, w))
                                 in if status \<noteq> GF_OK then (Return GF_ERROR, w)
                                    else (let (r, w) = sys (Sys_call ''umask'') w; (status, w) = null_files w
                                          in (Return status, w))))))"

definition gf_create_pidfile :: "instance_rec \<Rightarrow> world \<Rightarrow> (int \<times> instance_rec \<times> world) option" where
  "gf_create_pidfile nci w = do {
     name \<leftarrow> i_pid_filename nci;
     let (r, w) = sys (Sys_open name) w;
     let fd = r_ret r;
     if fd < 0 then Some (GF_ERROR, nci, w)
     else do {
       let nci = nci\<lparr>i_pidfile := True\<rparr>;
       let (n, w) = sys (Sys_write fd (take 20 (decimal_int (i_pid nci)))) w;
       if r_ret n < 0 then Some (GF_ERROR, nci, w)
       else Some (GF_OK, nci, snd (sys (Sys_close fd) w)) } }"

definition gf_remove_pidfile :: "instance_rec \<Rightarrow> world \<Rightarrow> world option" where
  "gf_remove_pidfile nci w = do { name \<leftarrow> i_pid_filename nci; Some (snd (sys (Sys_unlink name) w)) }"

subsection \<open>The program\<close>

text \<open>\<open>gf_test_conf\<close>: whether the file is accepted.\<close>

definition gf_test_conf :: "nat \<Rightarrow> yaml \<Rightarrow> world \<Rightarrow> (bool \<times> world) option" where
  "gf_test_conf fuel Y w = do {
     (cf, w) \<leftarrow> conf_create fuel Y w;
     case cf of None \<Rightarrow> Some (False, w)
     | Some cf \<Rightarrow> do { conf_destroy cf w; Some (True, w) } }"

text \<open>The logger, the instance and the state.\<close>

type_synonym run_state = "logger \<times> instance_rec \<times> world"

definition gf_pre_run :: "u8 list option \<Rightarrow> program \<Rightarrow> logger \<times> world \<Rightarrow> (int proc \<times> run_state) option" where
  "gf_pre_run failure pr = (\<lambda>(l, w). do {
     let nci = pr_nci pr;
     let (status, l, w) = log_init (i_log_level nci) (i_log_filename nci) failure (l, w);
     if status \<noteq> GF_OK then Some (Return status, l, nci, w)
     else do {
       let (p, w) = (if pr_daemonize pr then gf_daemonize 1 w else (Return GF_OK, w));
       if p \<noteq> Return GF_OK then Some (p, l, nci, w)
       else do {
         let (r, w) = sys (Sys_call ''getpid'') w;
         let nci = nci\<lparr>i_pid := r_ret r\<rparr>;
         let (status, w) = signal_init w;
         if status \<noteq> GF_OK then Some (Return status, l, nci, w)
         else if i_pid_filename nci \<noteq> None then do {
           (status, nci, w) \<leftarrow> gf_create_pidfile nci w;
           Some (Return status, l, nci, w) }
         else Some (Return GF_OK, l, nci, w) } } })"

definition gf_post_run :: "run_state \<Rightarrow> (logger \<times> world) option" where
  "gf_post_run = (\<lambda>(l, nci, w). do {
     w \<leftarrow> (if i_pidfile nci then gf_remove_pidfile nci w else Some w);
     Some (log_deinit (l, signal_deinit w)) })"

text \<open>\<open>run, rabbit run\<close>: the fuel bounds the turns, and with none left there is no result.\<close>

primrec gf_loop :: "nat \<Rightarrow> nat \<Rightarrow> ext \<Rightarrow> world \<Rightarrow> world option" where
  "gf_loop 0 fuel X w = None"
| "gf_loop (Suc k) fuel X w = do {
     (status, w) \<leftarrow> core_loop fuel X w;
     if status \<noteq> GF_OK then Some w else gf_loop k fuel X w }"

definition gf_run :: "nat \<Rightarrow> nat \<Rightarrow> ext \<Rightarrow> yaml \<Rightarrow> u8 list \<Rightarrow> instance_rec \<Rightarrow> world \<Rightarrow> world option" where
  "gf_run k fuel X Y version nci w = do {
     (x, w) \<leftarrow> core_start fuel X Y version nci w;
     case x of None \<Rightarrow> Some w
     | Some x \<Rightarrow> do { w \<leftarrow> gf_loop k fuel X w; core_stop fuel X x w } }"

text \<open>The exit code, the instance at the end and the state.\<close>

definition gf_main ::
  "nat \<Rightarrow> nat \<Rightarrow> ext \<Rightarrow> yaml \<Rightarrow> u8 list \<Rightarrow> u8 list option \<Rightarrow> opt list \<Rightarrow> logger \<times> world \<Rightarrow> (int \<times> run_state) option" where
  "gf_main k fuel X Y version failure opts = (\<lambda>(l, w). do {
     let (nci, w) = gf_set_default_options w;
     (status, pr) \<leftarrow> gf_get_options opts \<lparr>pr_show_help = False, pr_show_version = False, pr_test_conf = False,
         pr_daemonize = False, pr_describe_stats = False, pr_nci = nci\<rparr>;
     if status \<noteq> GF_OK then Some (1, l, pr_nci pr, w)
     else if pr_show_version pr then Some (0, l, pr_nci pr, w)
     else if pr_test_conf pr then do {
       (ok, w) \<leftarrow> gf_test_conf fuel Y w;
       Some (if ok then 0 else 1, l, pr_nci pr, w) }
     else do {
       (p, l, nci, w) \<leftarrow> gf_pre_run failure pr (l, w);
       case p of Exit code \<Rightarrow> Some (code, l, nci, w)
       | Return status \<Rightarrow> do {
           w \<leftarrow> (if status \<noteq> GF_OK then Some w else gf_run k fuel X Y version nci w);
           (l, w) \<leftarrow> gf_post_run (l, nci, w);
           Some (1, l, nci, w) } } })"

subsection \<open>Accepted options\<close>

definition instance_ok :: "instance_rec \<Rightarrow> bool" where
  "instance_ok i \<longleftrightarrow> 0 \<le> i_log_level i \<and> i_stats_port i \<noteq> 0 \<and> 0 \<le> i_stats_interval i
     \<and> MBUF_MIN_SIZE \<le> int (i_mbuf_chunk_size i) \<and> int (i_mbuf_chunk_size i) \<le> MBUF_MAX_SIZE
     \<and> length (i_hostname i) \<le> 255 \<and> 0 \<notin> set (i_hostname i)"

lemma valid_port_word: "gf_valid_port v \<Longrightarrow> uint (word_of_int v :: u16) = v \<and> (word_of_int v :: u16) \<noteq> 0"
proof -
  assume "gf_valid_port v"
  then have "1 \<le> v" "v \<le> 65535" by (auto simp: gf_valid_port_def split: if_splits)
  then have "uint (word_of_int v :: u16) = v" by (simp add: uint_word_of_int)
  with \<open>1 \<le> v\<close> show ?thesis by auto
qed

lemma get_option_ok: "gf_get_option opt pr = Some (GF_OK, pr') \<Longrightarrow> instance_ok (pr_nci pr) \<Longrightarrow> instance_ok (pr_nci pr')"
  by (cases opt) (auto simp: gf_get_option_def instance_ok_def Let_def gf_simps dest: valid_port_word split: if_splits)

lemma get_options_ok: "gf_get_options opts pr = Some (GF_OK, pr') \<Longrightarrow> instance_ok (pr_nci pr) \<Longrightarrow> instance_ok (pr_nci pr')"
  by (induction opts arbitrary: pr) (auto simp: gf_simps dest: get_option_ok split: if_splits)

lemma takeWhile_no_stop: "0 \<notin> set (takeWhile (\<lambda>b. b \<noteq> (0::u8)) bs)"
  using set_takeWhileD by fastforce

lemma default_options_ok: "instance_ok (fst (gf_set_default_options w))"
proof -
  have "length (cstr (take 255 bs)) \<le> 255" for bs using length_cstr [of "take 255 bs"] by simp
  then show ?thesis
    by (auto simp: gf_set_default_options_def instance_ok_def Let_def cstr_def takeWhile_no_stop bytes_of_string_def split: prod.splits)
qed

text \<open>The options the program accepts: \<open>atoi\<close> reads decimal digits only.\<close>

definition number_in :: "int \<Rightarrow> int \<Rightarrow> u8 list \<Rightarrow> bool" where
  "number_in lo hi arg \<longleftrightarrow> (\<exists>v. gf_atoi arg (length arg) = Some v \<and> lo \<le> v \<and> v \<le> hi)"

fun opt_ok :: "opt \<Rightarrow> bool" where
  "opt_ok (Opt_v arg) = number_in 0 (2 ^ 31 - 1) arg"
| "opt_ok (Opt_i arg) = number_in 0 (2 ^ 31 - 1) arg"
| "opt_ok (Opt_s arg) = number_in 1 65535 arg"
| "opt_ok (Opt_m arg) = number_in MBUF_MIN_SIZE MBUF_MAX_SIZE arg"
| "opt_ok Opt_bad = False"
| "opt_ok _ = True"

lemma gf_atoi_int: "gf_atoi line n = Some v \<Longrightarrow> v < 2 ^ 31"
proof -
  have "gf_atoi_loop line n acc = Some v \<Longrightarrow> acc < 2 ^ 31 \<Longrightarrow> v < 2 ^ 31" for line n acc
    by (induction line n acc rule: gf_atoi_loop.induct) (auto simp: Let_def split: if_splits)
  then show "gf_atoi line n = Some v \<Longrightarrow> v < 2 ^ 31" by (auto simp: gf_atoi_def split: if_splits)
qed

lemma number_in_iff: "number_in lo hi arg = (case gf_atoi arg (length arg) of None \<Rightarrow> False | Some v \<Rightarrow> lo \<le> v \<and> v \<le> hi)"
  by (auto simp: number_in_def split: option.splits)

lemma get_option_accepts: "(\<exists>pr'. gf_get_option opt pr = Some (GF_OK, pr')) \<longleftrightarrow> opt_ok opt"
  by (cases opt) (auto simp: gf_get_option_def Let_def number_in_iff gf_valid_port_def dest: gf_atoi_int split: option.splits)

lemma get_options_accept: "(\<exists>pr'. gf_get_options opts pr = Some (GF_OK, pr')) \<longleftrightarrow> (\<forall>opt\<in>set opts. opt_ok opt)"
proof (induction opts arbitrary: pr)
  case (Cons opt opts)
  show ?case
  proof (cases "opt_ok opt")
    case True
    then obtain pr1 where "gf_get_option opt pr = Some (GF_OK, pr1)" using get_option_accepts by blast
    with Cons.IH [of pr1] True show ?thesis by simp
  next
    case False
    then have "gf_get_option opt pr \<noteq> Some (GF_OK, pr1)" for pr1 using get_option_accepts by blast
    with False show ?thesis by (auto simp: gf_simps split: if_splits)
  qed
qed simp

text \<open>
  C23: a command line is accepted exactly when each option is known and each number
  is a decimal one in the range of its option.  Then, whatever the options, their order and
  repetitions, the instance the program starts with has a level and an interval that are not
  negative, a port between 1 and 65535, a chunk size between 512 bytes and 16 MiB and a host name
  with its NUL inside its array; and every mbuf of that chunk size has room for data before its
  header.
\<close>

theorem options_exact:
  assumes "pr_nci pr = fst (gf_set_default_options w)"
  shows "((\<exists>pr'. gf_get_options opts pr = Some (GF_OK, pr')) \<longleftrightarrow> (\<forall>opt\<in>set opts. opt_ok opt))
    \<and> (\<forall>pr'. gf_get_options opts pr = Some (GF_OK, pr') \<longrightarrow>
      0 \<le> i_log_level (pr_nci pr') \<and> 0 \<le> i_stats_interval (pr_nci pr') \<and> 1 \<le> uint (i_stats_port (pr_nci pr'))
      \<and> 512 \<le> i_mbuf_chunk_size (pr_nci pr') \<and> i_mbuf_chunk_size (pr_nci pr') \<le> 16777216
      \<and> length (i_hostname (pr_nci pr')) < 256
      \<and> 464 \<le> w_mbuf_offset (mbuf_init (i_mbuf_chunk_size (pr_nci pr')) w))"
proof (intro conjI [OF get_options_accept] allI impI)
  fix pr' assume "gf_get_options opts pr = Some (GF_OK, pr')"
  from get_options_ok [OF this] default_options_ok [of w] assms have ok: "instance_ok (pr_nci pr')" by simp
  then have "0 < i_stats_port (pr_nci pr')" by (simp add: instance_ok_def word_neq_0_conv)
  then have "1 \<le> uint (i_stats_port (pr_nci pr'))" by (simp add: word_less_def)
  with ok show "0 \<le> i_log_level (pr_nci pr') \<and> 0 \<le> i_stats_interval (pr_nci pr') \<and> 1 \<le> uint (i_stats_port (pr_nci pr'))
      \<and> 512 \<le> i_mbuf_chunk_size (pr_nci pr') \<and> i_mbuf_chunk_size (pr_nci pr') \<le> 16777216
      \<and> length (i_hostname (pr_nci pr')) < 256
      \<and> 464 \<le> w_mbuf_offset (mbuf_init (i_mbuf_chunk_size (pr_nci pr')) w)"
    unfolding instance_ok_def mbuf_init_def by auto
qed

definition opts_pr :: program where
  "opts_pr = \<lparr>pr_show_help = False, pr_show_version = False, pr_test_conf = False, pr_daemonize = False, pr_describe_stats = False,
     pr_nci = fst (gf_set_default_options w0)\<rparr>"

lemma options_exact_witness:
  "(\<exists>pr'. gf_get_options [Opt_m [49, 48, 50, 52], Opt_d] opts_pr = Some (GF_OK, pr') \<and> 512 \<le> i_mbuf_chunk_size (pr_nci pr'))
   \<and> \<not> (\<exists>pr'. gf_get_options [Opt_s [48]] opts_pr = Some (GF_OK, pr'))"
proof -
  have i: "pr_nci opts_pr = fst (gf_set_default_options w0)" by (simp add: opts_pr_def)
  have "opt_ok (Opt_m [49, 48, 50, 52])" "\<not> opt_ok (Opt_s [48])" by (simp_all add: number_in_iff gf_atoi_def)
  then show ?thesis using options_exact [OF i, of "[Opt_m [49, 48, 50, 52], Opt_d]"] options_exact [OF i, of "[Opt_s [48]]"]
    by (simp del: gf_get_options.simps opt_ok.simps(3,4)) blast
qed

end
