(* ===== verification/Start_Unwind.thy ===== *)
theory Start_Unwind
  imports Startup
begin

section \<open>A start that fails is undone\<close>

subsection \<open>Reading a configuration only makes system calls\<close>

named_theorems apart \<open>computations that only make system calls\<close>

lemma sys_apart2 [apart]: "sys op w = (r, w') \<Longrightarrow> errno_apart u w \<Longrightarrow> errno_apart u w'"
  by (rule sys_apartI)

lemma snd_sys_apart [apart]: "errno_apart u w \<Longrightarrow> errno_apart u (snd (sys op w))"
  using sys_apart errno_apart_trans by blast

lemma set_errno_apart [apart]: "errno_apart u w \<Longrightarrow> errno_apart u (w\<lparr>w_errno := e\<rparr>)"
proof -
  have "errno_apart w (w\<lparr>w_errno := e\<rparr>)" unfolding errno_apart_def by (intro exI [of _ "[]"] exI [of _ e]) simp
  then show "errno_apart u w \<Longrightarrow> errno_apart u (w\<lparr>w_errno := e\<rparr>)" by (rule errno_apart_trans [rotated])
qed

lemma gf_alloc_apart [apart]: "gf_alloc w = (ok, w') \<Longrightarrow> errno_apart u w \<Longrightarrow> errno_apart u w'"
  by (auto simp: gf_alloc_def Let_def split: prod.splits if_splits intro: apart)

lemma sys_call_apart [apart]:
  "sys_call name w = (r, w') \<Longrightarrow> errno_apart u w \<Longrightarrow> errno_apart u w'" "errno_apart u w \<Longrightarrow> errno_apart u (snd (sys_call name w))"
  by (auto simp: sys_call_def intro: apart)

lemma strndup_apart [apart]: "strndup src n w = Some (d, w') \<Longrightarrow> errno_apart u w \<Longrightarrow> errno_apart u w'"
  by (cases "gf_alloc w") (auto simp: strndup_def gf_simps intro: apart)

lemma string_store_apart [apart]: "string_store dst src len w = Some (st, s, w') \<Longrightarrow> errno_apart u w \<Longrightarrow> errno_apart u w'"
  by (auto simp: string_store_def gf_simps split: option.splits if_splits intro: apart)

lemma string_copy_apart [apart]: "string_copy dst src n w = Some (st, s, w') \<Longrightarrow> errno_apart u w \<Longrightarrow> errno_apart u w'"
  by (auto simp: string_copy_def gf_simps intro: apart)

lemma string_duplicate_apart [apart]: "string_duplicate dst src w = Some (st, s, w') \<Longrightarrow> errno_apart u w \<Longrightarrow> errno_apart u w'"
  by (auto simp: string_duplicate_def gf_simps intro: apart)

lemma array_init_apart [apart]: "array_init junk a n k w = Some (st, b, w') \<Longrightarrow> errno_apart u w \<Longrightarrow> errno_apart u w'"
  by (auto simp: array_init_def gf_simps split: prod.splits if_splits intro: apart)

lemma array_push_apart [apart]: "array_push junk a w = (i, b, w') \<Longrightarrow> errno_apart u w \<Longrightarrow> errno_apart u w'"
  by (auto simp: array_push_def Let_def split: prod.splits if_splits intro: apart)

lemma gf_resolve_apart [apart]: "gf_resolve name port si w = Some (st, si', w') \<Longrightarrow> errno_apart u w \<Longrightarrow> errno_apart u w'"
  by (auto simp: gf_resolve_def gf_resolve_inet_def gf_resolve_unix_def gf_simps Let_def split: prod.splits if_splits intro: apart)

lemma conf_pool_init_apart [apart]: "conf_pool_init Y cp name w = Some (st, cp', w') \<Longrightarrow> errno_apart u w \<Longrightarrow> errno_apart u w'"
  by (auto simp: conf_pool_init_def gf_simps Let_def split: if_splits intro: apart)

lemma conf_set_string_apart [apart]: "conf_set_string cf cp w = Some (st, cp', w') \<Longrightarrow> errno_apart u w \<Longrightarrow> errno_apart u w'"
  by (auto simp: conf_set_string_def gf_simps Let_def split: if_splits intro: apart)

lemma listen_finish_apart [apart]: "listen_finish name n cp w = Some (st, cp', w') \<Longrightarrow> errno_apart u w \<Longrightarrow> errno_apart u w'"
  by (auto simp: listen_finish_def gf_simps Let_def split: if_splits intro: apart)

lemma listen_finish_post: "errno_apart u w \<Longrightarrow> post (\<lambda>(st, cp', w'). errno_apart u w') (listen_finish name n cp w)"
  by (rule postI) (auto intro: apart)

lemma conf_set_listen_post: "errno_apart u w \<Longrightarrow> post (\<lambda>(st, cp', w'). errno_apart u w') (conf_set_listen cf cp w)"
  unfolding conf_set_listen_def by (intro post_intros) (auto intro: apart listen_finish_post)

lemma conf_set_listen_apart [apart]: "conf_set_listen cf cp w = Some (st, cp', w') \<Longrightarrow> errno_apart u w \<Longrightarrow> errno_apart u w'"
  using postD [OF conf_set_listen_post] by fastforce

lemma server_fields_apart [apart]: "server_fields v d p st0 cs w = Some (st, cs', w') \<Longrightarrow> errno_apart u w \<Longrightarrow> errno_apart u w'"
  by (auto simp: server_fields_def gf_simps Let_def split: if_splits prod.splits option.splits intro: apart)

lemma conf_add_server_post: "errno_apart u w \<Longrightarrow> post (\<lambda>(st, cp', w'). errno_apart u w') (conf_add_server Y cf cp w)"
  unfolding conf_add_server_def by (intro post_intros) (auto 2 8 intro: apart)

lemma conf_add_server_apart [apart]: "conf_add_server Y cf cp w = Some (st, cp', w') \<Longrightarrow> errno_apart u w \<Longrightarrow> errno_apart u w'"
  using postD [OF conf_add_server_post] by fastforce

lemma conf_set_num_apart [apart]: "conf_set_num f cf cp w = Some (st, cp', w') \<Longrightarrow> errno_apart u w \<Longrightarrow> errno_apart u w'"
  by (auto simp: conf_set_num_def gf_simps Let_def split: if_splits prod.splits option.splits intro: apart)

lemma conf_set_bool_apart [apart]: "conf_set_bool f cf cp w = Some (st, cp', w') \<Longrightarrow> errno_apart u w \<Longrightarrow> errno_apart u w'"
  by (auto simp: conf_set_bool_def gf_simps Let_def split: if_splits prod.splits option.splits intro: apart)

lemma conf_set_hash_apart [apart]: "conf_set_hash cf cp w = Some (st, cp', w') \<Longrightarrow> errno_apart u w \<Longrightarrow> errno_apart u w'"
  by (auto simp: conf_set_hash_def gf_simps Let_def split: if_splits prod.splits option.splits intro: apart)

lemma conf_set_distribution_apart [apart]: "conf_set_distribution cf cp w = Some (st, cp', w') \<Longrightarrow> errno_apart u w \<Longrightarrow> errno_apart u w'"
  by (auto simp: conf_set_distribution_def gf_simps Let_def split: if_splits prod.splits option.splits intro: apart)

lemma conf_set_hashtag_apart [apart]: "conf_set_hashtag cf cp w = Some (st, cp', w') \<Longrightarrow> errno_apart u w \<Longrightarrow> errno_apart u w'"
  by (auto simp: conf_set_hashtag_def gf_simps Let_def split: if_splits prod.splits option.splits intro: apart)

lemma cmd_set_apart [apart]: "cmd_set cmd Y cf cp w = Some (st, cp', w') \<Longrightarrow> errno_apart u w \<Longrightarrow> errno_apart u w'"
  by (cases cmd) (auto simp: cmd_set_def intro: apart)

lemma conf_yaml_init_apart [apart]: "conf_yaml_init cf w = Some (st, cf', w') \<Longrightarrow> errno_apart u w \<Longrightarrow> errno_apart u w'"
  by (auto simp: conf_yaml_init_def gf_simps Let_def split: if_splits prod.splits option.splits intro: apart)

lemma conf_push_scalar_apart [apart]: "conf_push_scalar Y sc cf w = Some (st, cf', w') \<Longrightarrow> errno_apart u w \<Longrightarrow> errno_apart u w'"
  by (auto simp: conf_push_scalar_def gf_simps Let_def split: if_splits prod.splits option.splits intro: apart)

lemma conf_handler_apart [apart]: "conf_handler Y cf d w = Some (st, cf', w') \<Longrightarrow> errno_apart u w \<Longrightarrow> errno_apart u w'"
  by (auto simp: conf_handler_def gf_simps Let_def split: if_splits prod.splits option.splits intro: apart)

lemma begin_loop_apart [apart]: "begin_loop k Y cf w = Some (st, cf', w') \<Longrightarrow> errno_apart u w \<Longrightarrow> errno_apart u w'"
proof (induction k arbitrary: cf w)
  case (Suc k)
  from Suc.prems show ?case by (auto simp: gf_simps Let_def split: if_splits yaml_event.splits intro: apart Suc.IH)
qed simp

lemma conf_begin_parse_apart [apart]: "conf_begin_parse fuel Y cf w = Some (st, cf', w') \<Longrightarrow> errno_apart u w \<Longrightarrow> errno_apart u w'"
  by (auto simp: conf_begin_parse_def gf_simps Let_def split: if_splits intro: apart)

lemma conf_parse_event_apart [apart]: "conf_parse_event Y cf data w = Some (s, cf', w') \<Longrightarrow> errno_apart u w \<Longrightarrow> errno_apart u w'"
  by (auto simp: conf_parse_event_def gf_simps Let_def split: if_splits yaml_event.splits prod.splits option.splits intro: apart)

lemma conf_parse_action_apart [apart]: "conf_parse_action Y s cf w = Some (st, cf', w') \<Longrightarrow> errno_apart u w \<Longrightarrow> errno_apart u w'"
  by (auto simp: conf_parse_action_def gf_simps Let_def split: if_splits intro: apart)

lemma conf_parse_core_apart [apart]: "conf_parse_core k Y cf data w = Some (st, cf', w') \<Longrightarrow> errno_apart u w \<Longrightarrow> errno_apart u w'"
proof (induction k arbitrary: cf data w)
  case (Suc k)
  from Suc.prems show ?case by (auto simp: gf_simps Let_def split: if_splits intro: apart Suc.IH)
qed simp

lemma conf_parse_apart [apart]: "conf_parse fuel Y cf w = Some (st, cf', w') \<Longrightarrow> errno_apart u w \<Longrightarrow> errno_apart u w'"
  by (auto simp: conf_parse_def gf_simps Let_def split: if_splits intro: apart)

lemma conf_validate_document_apart [apart]: "conf_validate_document fuel Y cf w = Some (st, cf', w') \<Longrightarrow> errno_apart u w \<Longrightarrow> errno_apart u w'"
  by (auto simp: conf_validate_document_def gf_simps Let_def split: if_splits option.splits intro: apart)

lemma conf_validate_tokens_apart [apart]: "conf_validate_tokens fuel Y cf w = Some (st, cf', w') \<Longrightarrow> errno_apart u w \<Longrightarrow> errno_apart u w'"
  by (auto simp: conf_validate_tokens_def gf_simps Let_def split: if_splits intro: apart)

lemma conf_validate_structure_apart [apart]: "conf_validate_structure fuel Y cf w = Some (st, cf', w') \<Longrightarrow> errno_apart u w \<Longrightarrow> errno_apart u w'"
  by (auto simp: conf_validate_structure_def gf_simps Let_def split: if_splits intro: apart)

lemma conf_pre_validate_post: "errno_apart u w \<Longrightarrow> post (\<lambda>(st, cf', w'). errno_apart u w') (conf_pre_validate fuel Y cf w)"
  unfolding conf_pre_validate_def by (intro post_intros) (auto 2 8 intro: apart)

lemma conf_pre_validate_apart [apart]: "conf_pre_validate fuel Y cf w = Some (st, cf', w') \<Longrightarrow> errno_apart u w \<Longrightarrow> errno_apart u w'"
  using postD [OF conf_pre_validate_post] by fastforce

lemma conf_read_apart [apart]: "conf_read fuel Y cf w = Some (st, cf', w') \<Longrightarrow> errno_apart u w \<Longrightarrow> errno_apart u w'"
  by (auto simp: conf_read_def gf_simps Let_def split: if_splits intro: apart)

lemma conf_open_post: "errno_apart u w \<Longrightarrow> post (\<lambda>(cf, w'). errno_apart u w') (conf_open Y w)"
  unfolding conf_open_def by (intro post_intros) (auto 2 8 intro: apart)

lemma conf_open_apart [apart]: "conf_open Y w = Some (cf, w') \<Longrightarrow> errno_apart u w \<Longrightarrow> errno_apart u w'"
  using postD [OF conf_open_post] by fastforce

lemma conf_create_post: "errno_apart u w \<Longrightarrow> post (\<lambda>(cf, w'). errno_apart u w') (conf_create fuel Y w)"
  unfolding conf_create_def by (intro post_intros) (auto 2 8 intro: apart)

lemma conf_create_apart [apart]: "conf_create fuel Y w = Some (cf, w') \<Longrightarrow> errno_apart u w \<Longrightarrow> errno_apart u w'"
  using postD [OF conf_create_post] by fastforce

subsection \<open>Creating the statistics\<close>

lemma setsockopt_apart [apart]: "setsockopt sd opt v w = (r, w') \<Longrightarrow> errno_apart u w \<Longrightarrow> errno_apart u w'"
  by (auto simp: setsockopt_def Let_def split: prod.splits intro: apart)

lemma reuse_apart [apart]:
  "gf_set_reuseaddr sd w = (r, w') \<Longrightarrow> errno_apart u w \<Longrightarrow> errno_apart u w'"
  "gf_set_reuseport sd w = (r, w') \<Longrightarrow> errno_apart u w \<Longrightarrow> errno_apart u w'"
  by (auto simp: gf_set_reuseaddr_def gf_set_reuseport_def intro: apart)

lemma array_alloc_apart [apart]: "array_alloc n w = Some (st, w') \<Longrightarrow> errno_apart u w \<Longrightarrow> errno_apart u w'"
  by (cases "gf_alloc w") (auto simp: array_alloc_def gf_simps intro: apart)

lemma stats_metric_init_apart [apart]:
  "stats_pool_metric_init w = Some (st, ms, w') \<Longrightarrow> errno_apart u w \<Longrightarrow> errno_apart u w'"
  "stats_server_metric_init w = Some (st, ms, w') \<Longrightarrow> errno_apart u w \<Longrightarrow> errno_apart u w'"
  by (auto simp: stats_pool_metric_init_def stats_server_metric_init_def gf_simps split: if_splits intro: array_alloc_apart)

lemma stats_server_init_apart [apart]: "stats_server_init s w = Some (st, sts, w') \<Longrightarrow> errno_apart u w \<Longrightarrow> errno_apart u w'"
  by (auto simp: stats_server_init_def gf_simps intro: apart)

lemma server_map_loop_apart [apart]: "server_map_loop ss w = Some (st, sts, w') \<Longrightarrow> errno_apart u w \<Longrightarrow> errno_apart u w'"
proof (induction ss arbitrary: w st sts)
  case (Cons s ss)
  from Cons.prems show ?case by (auto simp: gf_simps split: if_splits intro: apart Cons.IH)
qed simp

lemma stats_server_map_apart [apart]: "stats_server_map ss w = Some (st, sts, w') \<Longrightarrow> errno_apart u w \<Longrightarrow> errno_apart u w'"
  by (auto simp: stats_server_map_def gf_simps split: if_splits intro: apart)

lemma stats_pool_init_apart [apart]: "stats_pool_init sp w = Some (st, stp, w') \<Longrightarrow> errno_apart u w \<Longrightarrow> errno_apart u w'"
  by (auto simp: stats_pool_init_def gf_simps Let_def split: if_splits intro: apart)

lemma pool_map_loop_apart [apart]: "pool_map_loop sps w = Some (st, ps, w') \<Longrightarrow> errno_apart u w \<Longrightarrow> errno_apart u w'"
proof (induction sps arbitrary: w st ps)
  case (Cons sp sps)
  from Cons.prems show ?case by (auto simp: gf_simps split: if_splits intro: apart Cons.IH)
qed simp

lemma stats_pool_map_apart [apart]: "stats_pool_map sps w = Some (st, ps, w') \<Longrightarrow> errno_apart u w \<Longrightarrow> errno_apart u w'"
  by (auto simp: stats_pool_map_def gf_simps split: if_splits intro: apart)

lemma stats_create_buf_apart [apart]: "stats_create_buf st w = Some (r, st', w') \<Longrightarrow> errno_apart u w \<Longrightarrow> errno_apart u w'"
  by (cases "gf_alloc w") (auto simp: stats_create_buf_def gf_simps Let_def split: if_splits intro: apart)

definition apart_step :: "world \<Rightarrow> ('a \<times> world \<Rightarrow> (int \<times> 'a \<times> world) option) \<Rightarrow> bool" where
  "apart_step u g \<longleftrightarrow> (\<forall>a r b. g a = Some (r, b) \<longrightarrow> errno_apart u (snd a) \<longrightarrow> errno_apart u (snd b))"

lemma and_then_apart: "apart_step u f \<Longrightarrow> apart_step u g \<Longrightarrow> apart_step u (and_then f g)"
  unfolding apart_step_def and_then_def by (auto simp: gf_simps split: if_splits)

lemma map_copy_apart: "apart_step u (map_copy sps put)"
  unfolding apart_step_def by (auto simp: map_copy_def gf_simps intro: stats_pool_map_apart)

lemma create_buf_apart: "apart_step u (\<lambda>(st, w). stats_create_buf st w)"
  unfolding apart_step_def by (auto intro: stats_create_buf_apart)

lemma stats_map_apart [apart]: "stats_map st w = Some (r, st', w') \<Longrightarrow> errno_apart u w \<Longrightarrow> errno_apart u w'"
  using and_then_apart [OF map_copy_apart and_then_apart [OF map_copy_apart and_then_apart [OF map_copy_apart create_buf_apart]]]
  unfolding stats_map_def Let_def apart_step_def by fastforce

lemma stats_listen_apart [apart]: "stats_listen st w = Some (r, st', w') \<Longrightarrow> errno_apart u w \<Longrightarrow> errno_apart u w'"
proof -
  have "errno_apart u w \<Longrightarrow> post (\<lambda>(r, st', w'). errno_apart u w') (stats_listen st w)"
    unfolding stats_listen_def by (intro post_intros) (auto 2 8 intro: apart)
  then show "stats_listen st w = Some (r, st', w') \<Longrightarrow> errno_apart u w \<Longrightarrow> errno_apart u w'" by (auto dest: postD)
qed

lemma stats_start_aggregator_apart [apart]: "stats_start_aggregator st w = Some (r, st', w') \<Longrightarrow> errno_apart u w \<Longrightarrow> errno_apart u w'"
  by (auto simp: stats_start_aggregator_def gf_simps Let_def split: if_splits prod.splits intro: apart)

lemma stats_destroy_apart [apart]: "stats_destroy st w = Some w' \<Longrightarrow> errno_apart u w \<Longrightarrow> errno_apart u w'"
  by (auto simp: stats_destroy_def stats_stop_aggregator_def gf_simps Let_def intro: apart)

lemma stats_create_apart [apart]: "stats_create port ip interval source version w = Some (st, w') \<Longrightarrow> errno_apart u w \<Longrightarrow> errno_apart u w'"
proof -
  have "errno_apart u w \<Longrightarrow> post (\<lambda>(st, w'). errno_apart u w') (stats_create port ip interval source version w)"
    unfolding stats_create_def by (intro post_intros) (auto 2 8 split: if_splits intro: apart)
  then show "stats_create port ip interval source version w = Some (st, w') \<Longrightarrow> errno_apart u w \<Longrightarrow> errno_apart u w'" by (auto dest: postD)
qed

lemma apart_fields: "errno_apart w w' \<Longrightarrow> w_ep w' = w_ep w \<and> w_npool w' = w_npool w"
  by (auto simp: errno_apart_def)

subsection \<open>The pools leave the event base alone\<close>

lemma each_loop_keeps:
  assumes "\<And>i s st s'. f i s = Some (st, s') \<Longrightarrow> P s \<Longrightarrow> P s'"
  shows "each_loop k f i s = Some (st, s') \<Longrightarrow> P s \<Longrightarrow> P s'"
  by (induction k arbitrary: i s) (auto simp: gf_simps split: if_splits dest: assms)

lemma list_each_keeps:
  assumes "\<And>x w st w'. f x w = Some (st, w') \<Longrightarrow> P w \<Longrightarrow> P w'"
  shows "array_each xs f w = Some (st, w') \<Longrightarrow> P w \<Longrightarrow> P w'"
  by (induction xs arbitrary: w) (auto simp: gf_simps split: if_splits dest: assms)

lemma pop_servers_ep: "pop_servers k p w = Some w' \<Longrightarrow> w_ep w' = w_ep w \<and> w_npool w' = w_npool w"
proof (induction k arbitrary: w)
  case (Suc k)
  then show ?case by (fastforce simp: gf_simps Let_def)
qed simp

lemma server_deinit_ep: "server_deinit p w = Some w' \<Longrightarrow> w_ep w' = w_ep w \<and> w_npool w' = w_npool w"
  by (auto simp: server_deinit_def gf_simps dest: pop_servers_ep)

lemma pop_pools_ep: "pop_pools k w = Some w' \<Longrightarrow> w_ep w' = w_ep w \<and> w_npool w' = w_npool w - k"
proof (induction k arbitrary: w)
  case (Suc k)
  then show ?case by (fastforce simp: gf_simps Let_def dest: server_deinit_ep)
qed simp

lemma server_pool_deinit_ep: "server_pool_deinit w = Some w' \<Longrightarrow> w_ep w' = w_ep w \<and> w_npool w' = 0"
  by (auto simp: server_pool_deinit_def gf_simps dest: pop_pools_ep)

text \<open>Rules about the event base of the result of a computation.\<close>

definition ep_is :: "int \<Rightarrow> world \<Rightarrow> bool" where "ep_is e w \<longleftrightarrow> w_ep w = e"

lemma ep_is_apart: "errno_apart w w' \<Longrightarrow> ep_is e w \<Longrightarrow> ep_is e w'"
  by (simp add: ep_is_def apart_fields)

lemma ep_is_alloc: "gf_alloc w = (ok, w') \<Longrightarrow> ep_is e w \<Longrightarrow> ep_is e w'"
  by (erule ep_is_apart [OF gf_alloc_apart [OF _ errno_apart_refl]])

lemma ep_is_deinit:
  "server_deinit p w = Some w' \<Longrightarrow> ep_is e w \<Longrightarrow> ep_is e w'" "server_pool_deinit w = Some w' \<Longrightarrow> ep_is e w \<Longrightarrow> ep_is e w'"
  by (simp_all add: ep_is_def server_deinit_ep server_pool_deinit_ep)

lemma ep_is_server: "conf_server_each_transform p cs w = Some (st, w') \<Longrightarrow> ep_is e w \<Longrightarrow> ep_is e w'"
  by (auto simp: conf_server_each_transform_def gf_simps ep_is_def)

lemma ep_is_each_server:
  "Arrays.array_each a (\<lambda>i w. do { cs \<leftarrow> ar_load a i; conf_server_each_transform p cs w }) w v = Some (st, w') \<Longrightarrow> ep_is e w \<Longrightarrow> ep_is e w'"
  unfolding Arrays.array_each_def
  by (erule bind_SomeE) (erule each_loop_keeps [rotated], auto simp: gf_simps intro: ep_is_server)

lemma ep_is_each_owner:
  "server_each p (server_each_set_owner p) w = Some (st, w') \<Longrightarrow> ep_is e w \<Longrightarrow> ep_is e w'"
  unfolding server_each_def by (erule bind_SomeE) (erule list_each_keeps [rotated], auto simp: server_each_set_owner_def)

lemma ep_is_server_init: "server_init p a w = Some (st, w') \<Longrightarrow> ep_is e w \<Longrightarrow> ep_is e w'"
proof -
  have "ep_is e w \<Longrightarrow> post (\<lambda>(st, w'). ep_is e w') (server_init p a w)"
    unfolding server_init_def
    by (intro post_intros) (auto 2 8 intro: ep_is_alloc ep_is_deinit ep_is_each_server ep_is_each_owner)
  then show "server_init p a w = Some (st, w') \<Longrightarrow> ep_is e w \<Longrightarrow> ep_is e w'" by (auto dest: postD)
qed

lemma ep_is_pool: "conf_pool_each_transform cp w = Some (st, w') \<Longrightarrow> ep_is e w \<Longrightarrow> ep_is e w'"
proof -
  assume p: "conf_pool_each_transform cp w = Some (st, w')" "ep_is e w"
  then obtain ps n st1 where "server_init (w_npool w) (cp_server cp) (w\<lparr>w_npool := n, w_pools := ps\<rparr>) = Some (st1, w')"
    unfolding conf_pool_each_transform_def Let_def by (elim some_elims) (auto split: if_splits)
  then show "ep_is e w'" by (rule ep_is_server_init) (use p in \<open>simp add: ep_is_def\<close>)
qed

lemma ep_is_each_pool:
  "Arrays.array_each a (\<lambda>i w. do { cp \<leftarrow> ar_load a i; conf_pool_each_transform cp w }) w v = Some (st, w') \<Longrightarrow> ep_is e w \<Longrightarrow> ep_is e w'"
  unfolding Arrays.array_each_def
  by (erule bind_SomeE) (erule each_loop_keeps [rotated], auto simp: gf_simps intro: ep_is_pool)

lemma ep_is_pool_each:
  "pool_each server_pool_each_set_owner w = Some (st, w') \<Longrightarrow> ep_is e w \<Longrightarrow> ep_is e w'"
  "pool_each server_pool_each_calc_connections w = Some (st, w') \<Longrightarrow> ep_is e w \<Longrightarrow> ep_is e w'"
  "pool_each server_pool_each_run w = Some (st, w') \<Longrightarrow> ep_is e w \<Longrightarrow> ep_is e w'"
  unfolding pool_each_def
  by (erule bind_SomeE, erule list_each_keeps [rotated],
      auto simp: server_pool_each_set_owner_def server_pool_each_calc_connections_def server_pool_each_run_def ep_is_def Let_def
        dest!: server_pool_run_only only_pools_fields)+

lemma ep_is_pool_init: "server_pool_init a w = Some (st, w') \<Longrightarrow> ep_is e w \<Longrightarrow> ep_is e w'"
proof -
  have ns: "ep_is e (v\<lparr>w_max_nsconn := n\<rparr>) = ep_is e v" for v n by (simp add: ep_is_def)
  have "ep_is e w \<Longrightarrow> post (\<lambda>(st, w'). ep_is e w') (server_pool_init a w)"
    unfolding server_pool_init_def
    by (intro post_intros) (auto 2 10 simp: ns intro: ep_is_alloc ep_is_deinit ep_is_each_pool ep_is_pool_each(1)
        ep_is_pool_each(2) [OF _ iffD2 [OF ns]] ep_is_pool_each(3))
  then show "server_pool_init a w = Some (st, w') \<Longrightarrow> ep_is e w \<Longrightarrow> ep_is e w'" by (auto dest: postD)
qed

subsection \<open>The undoing\<close>

text \<open>No pool is left, and no event base is open.\<close>

definition undone :: "world \<Rightarrow> bool" where
  "undone w \<longleftrightarrow> w_npool w = 0 \<and> w_ep w \<le> 0"

lemma undo_conf_result: "undo_conf cf w = Some (x, w') \<Longrightarrow> x = None \<and> w' = w"
  by (auto simp: undo_conf_def gf_simps)

lemma undo_pools_undone: "undo_pools cf w = Some (x, w') \<Longrightarrow> w_ep w \<le> 0 \<Longrightarrow> undone w'"
  by (auto simp: undo_pools_def gf_simps undone_def dest!: undo_conf_result server_pool_deinit_ep)

lemma undo_stats_undone: "undo_stats x w = Some (r, w') \<Longrightarrow> w_ep w \<le> 0 \<Longrightarrow> undone w'"
  using stats_destroy_apart [OF _ errno_apart_refl] by (fastforce simp: undo_stats_def gf_simps dest: apart_fields undo_pools_undone)

lemma undo_servers_undone: "undo_servers fuel X x w = Some (r, w') \<Longrightarrow> undone w'"
  unfolding undo_servers_def event_base_destroy_def Let_def by (elim some_elims) (auto dest: undo_stats_undone)

lemma undo_posts:
  "w_ep w \<le> 0 \<Longrightarrow> w_npool w = 0 \<Longrightarrow> post (\<lambda>(x, w'). x = None \<longrightarrow> undone w') (undo_conf cf w)"
  "w_ep w \<le> 0 \<Longrightarrow> post (\<lambda>(x, w'). x = None \<longrightarrow> undone w') (undo_pools cf w)"
  "w_ep w \<le> 0 \<Longrightarrow> post (\<lambda>(x, w'). x = None \<longrightarrow> undone w') (undo_stats x w)"
  "post (\<lambda>(x, w'). x = None \<longrightarrow> undone w') (undo_servers fuel X x w)"
  by (auto simp: post_def undone_def dest: undo_conf_result undo_pools_undone [unfolded undone_def] undo_stats_undone [unfolded undone_def]
      undo_servers_undone [unfolded undone_def])

lemma event_base_create_ep:
  "event_base_create n w = Some (False, w') \<Longrightarrow> w_ep w' = w_ep w"
proof -
  assume "event_base_create n w = Some (False, w')"
  then have "w_ep w' = w_ep w"
    by (auto simp: event_base_create_def gf_simps Let_def split: if_splits prod.splits
        dest!: apart_fields [OF gf_alloc_apart [OF _ errno_apart_refl]] apart_fields [OF sys_apartI [OF _ errno_apart_refl]])
  then show "w_ep w' = w_ep w" .
qed

lemma core_calc_ep: "core_calc_connections w = (st, w') \<Longrightarrow> w_ep w' = w_ep w"
  by (auto simp: core_calc_connections_def Let_def sys_def split: if_splits prod.splits)

text \<open>A state in which the event base is not there yet.\<close>

lemma server_pool_init_fails:
  assumes "server_pool_init a w = Some (st, w')" "st \<noteq> GF_OK" "w_npool w = 0"
  shows "w_npool w' = 0"
proof -
  have "post (\<lambda>(st, w'). st \<noteq> GF_OK \<longrightarrow> w_npool w' = 0) (server_pool_init a w)"
    unfolding server_pool_init_def
    by (intro post_intros) (use assms(3) in \<open>auto dest: server_pool_deinit_ep apart_fields [OF gf_alloc_apart [OF _ errno_apart_refl]] split: if_splits\<close>)
  with assms show ?thesis by (auto dest: postD)
qed

lemma core_ctx_create_undone:
  assumes "core_ctx_create fuel X Y version nci w = Some (None, w')" "undone w"
  shows "undone w'"
proof -
  note alloc = apart_fields [OF gf_alloc_apart [OF _ errno_apart_refl]]
  note conf = apart_fields [OF conf_create_apart [OF _ errno_apart_refl]]
  have pools: "server_pool_init a w = Some (st, w') \<Longrightarrow> w_ep w' = w_ep w \<and> (st \<noteq> GF_OK \<longrightarrow> w_npool w = 0 \<longrightarrow> w_npool w' = 0)" for a w st w'
    using ep_is_pool_init [of a w st w' "w_ep w"] server_pool_init_fails [of a w st w'] by (simp add: ep_is_def)
  note stats = apart_fields [OF stats_create_apart [OF _ errno_apart_refl]]
  have "post (\<lambda>(x, w'). x = None \<longrightarrow> undone w') (core_ctx_create fuel X Y version nci w)"
    unfolding core_ctx_create_def
  proof (intro post_intros, goal_cases)
    case 1
    then show ?case using assms(2) by (auto simp: undone_def dest: alloc)
  next
    case 2
    then show ?case by (auto simp: undone_def dest!: conf)
  next
    case 3
    then show ?case by (intro undo_posts) (auto dest!: conf pools)
  next
    case 4
    then show ?case by (intro undo_posts) (auto dest!: conf pools core_calc_ep)
  next
    case 5
    then show ?case by (intro undo_posts) (auto dest!: conf pools core_calc_ep stats)
  next
    case 6
    then show ?case by (intro undo_posts) (auto dest!: conf pools core_calc_ep stats event_base_create_ep)
  next
    case 9
    then show ?case by simp
  qed (intro undo_posts)+
  with assms show ?thesis by (auto dest: postD)
qed

lemma deinit_loops:
  "conn_deinit_loop q w = Some w' \<Longrightarrow> w_npool w' = w_npool w \<and> w_ep w' = w_ep w"
  "msg_deinit_loop q w = Some w' \<Longrightarrow> w_npool w' = w_npool w \<and> w_ep w' = w_ep w"
  "mbuf_deinit_loop q w = Some w' \<Longrightarrow> w_npool w' = w_npool w \<and> w_ep w' = w_ep w"
  by (induction q arbitrary: w; fastforce simp: gf_simps msg_free_def mbuf_free_def Let_def)+

text \<open>
  C22: whatever fails while the program starts, memory, the configuration file, an
  address, a descriptor limit, the statistics port, the event base, a connection to a server or a
  listening socket, the start reports it and leaves nothing behind: every pool that was made has
  been released and no event base is open.
\<close>

theorem start_unwinds:
  assumes "core_start fuel X Y version nci w = Some (None, w')" "w_npool w = 0" "w_ep w \<le> 0"
  shows "w_npool w' = 0 \<and> w_ep w' \<le> 0"
proof -
  have "undone (conn_init (msg_init (mbuf_init n w)))" for n
    using assms(2,3) by (simp add: undone_def conn_init_def msg_init_def mbuf_init_def)
  then have "undone w1" if "core_ctx_create fuel X Y version nci (conn_init (msg_init (mbuf_init n w))) = Some (None, w1)" for n w1
    using core_ctx_create_undone [OF that] by simp
  with assms(1) show ?thesis
    by (auto simp: core_start_def conn_deinit_def msg_deinit_def mbuf_deinit_def gf_simps undone_def
        split: option.splits dest!: deinit_loops)
qed

text \<open>The configuration file cannot be opened.\<close>

definition start_w :: world where
  "start_w = w0\<lparr>w_npool := 0, w_ep := - 1, w_os := (\<lambda>i. sample_res (if i = 0 then 1 else 0) [])\<rparr>"

lemma start_unwinds_witness:
  "\<forall>Y. \<exists>w'. core_start 9 sample_ext Y [] (fst (gf_set_default_options w0)) start_w = Some (None, w') \<and> w_npool w' = 0 \<and> w_ep w' \<le> 0"
proof
  fix Y
  obtain w' where 1: "core_start 9 sample_ext Y [] (fst (gf_set_default_options w0)) start_w = Some (None, w')"
    by (simp add: core_start_def core_ctx_create_def conf_create_def conf_open_def sys_call_def gf_alloc_def sys_def start_w_def sample_res_def
        conn_init_def msg_init_def mbuf_init_def conn_deinit_def msg_deinit_def mbuf_deinit_def ASSERT_def Let_def)
  show "\<exists>w'. core_start 9 sample_ext Y [] (fst (gf_set_default_options w0)) start_w = Some (None, w') \<and> w_npool w' = 0 \<and> w_ep w' \<le> 0"
    using start_unwinds [OF 1] 1 by (simp add: start_w_def)
qed

end
