(* ===== verification/Spec2Isabelle.thy ===== *)
theory Spec2Isabelle
  imports Dispatch Queue Stats_Json Stats_Arrays Stats_Kept Event_Kqueue Event_Port Message_Runs Sending Responses Ejection Timeouts Ownership Conf_Ready
    Conf_Run Timeout_Tree Logger Start_Unwind
begin

text \<open>
  \<^bold>\<open>gfwproxy\<close> is a single threaded proxy between clients and pools of servers, derived from a
  proxy for key/value protocols.  \<open>gf_conf.c\<close> reads a file of pools; \<open>gf_server.c\<close> makes the
  pools and servers of it; \<open>gf_proxy.c\<close> listens and accepts clients; \<open>gf_core.c\<close> waits for
  events and calls the handlers of the connection they belong to.  A request received from a
  client (\<open>gf_message.c\<close>, \<open>gf_request.c\<close>) is sent to the server its key maps to
  (\<open>gf_server.c\<close>, \<open>hashkit/\<close>), waits there for its response (\<open>gf_response.c\<close>) and in the
  queue of its client for its turn; a request whose server is late is found in a red-black tree
  of deadlines (\<open>gf_rbtree.c\<close>); a server that fails too often is ejected and the distribution
  of keys rebuilt.  Every source file named here and below lies in \<open>src/src\<close>.

  \<^bold>\<open>The model.\<close>  Pure functions are functions.  The handlers of the event loop share one state,
  the record \<open>world\<close> (theory \<open>World\<close>): messages, connections and mbufs under their addresses,
  pools and servers under their indices, the free lists, the counters, the list of request
  timeouts, and the trace of system calls, whose results an oracle gives.  A handler is a
  function from a state to an optional result and state; \<open>None\<close> stands for every behaviour
  that C does not define or that ends the process: a load through NULL, an access outside an
  allocation, a read of what was never stored, an overflow of a signed integer, an assertion that
  fails in a build that panics.  \<open>ASSERT\<close> does nothing in the other builds (\<open>w_panic\<close>).  An
  allocation may fail at any time: the oracle says so.  Error codes are the integers of
  \<open>gf_core.h\<close>.  Unsigned integers are words of their width.  Handlers that the code calls through
  the fields of a connection are values of a datatype, dispatched by the \<open>call_\<close> functions; a
  field that is NULL or holds a handler of another type has no result.

  \<^bold>\<open>Parameters.\<close>  The protocol callbacks of messages and connections (parser, fragment, reply,
  coalesce and the others) are defined in no file of the repository; they are the record \<open>ext\<close>,
  and so is \<open>strerror\<close>.  Where a property needs to know that they leave the queues, links or
  timeouts alone, it says so as a hypothesis (\<open>coalesce_keeps_links\<close>,
  \<open>coalesce_keeps_marks\<close>, \<open>coalesce_keeps_timeouts\<close>).  The yaml library is the record \<open>yaml\<close>: the tokens, documents
  and events it yields for the file; what \<open>getopt_long\<close> makes of a command line is a list of options.

  \<^bold>\<open>Theories\<close>, each opening with what it holds:
  \<^item> \<open>Prelude\<close>: widths, status codes, the collections \<open>gf_simps\<close> and \<open>gf_len\<close>, the calculus
    \<open>post\<close> for what every result of a handler satisfies, insertion by key.
  \<^item> \<open>Hash_Crc\<close>, \<open>Hash_Mix\<close>, \<open>Hash_Md5\<close> (\<open>hashkit/\<close>): the key hashers against bitwise and
    one-shot references; \<open>Floats\<close> and \<open>Ketama_Share\<close> (\<open>hashkit/gf_ketama.c\<close>): the rounding of
    \<open>float\<close> and \<open>double\<close> and the share of the points each server gets by its weight; with at
    most \<open>2^15\<close> servers and a total weight below \<open>2^32\<close> the shares fit the continuum;
    \<open>Dispatch\<close> (\<open>hashkit/gf_ketama.c\<close>, \<open>gf_modula.c\<close>, \<open>gf_random.c\<close>, the key mapping of
    \<open>gf_server.c\<close>): building and searching a continuum.  Interfaces \<open>key_hasher\<close> and
    \<open>distribution\<close>.
  \<^item> \<open>Queue\<close> (\<open>gf_queue.h\<close>): the TAILQ and STAILQ macros on their links implement lists
    (interface \<open>fifo\<close>), which is what the rest of the model uses for queues; \<open>Rbtree\<close>,
    \<open>Rbtree_Shape\<close>, \<open>Rbtree_Insert\<close>, \<open>Rbtree_Delete\<close> (\<open>gf_rbtree.c\<close>): the nodes and links of the
    red-black tree implement a list ordered by key (interface \<open>key_queue\<close> in
    \<open>Timeout_Tree\<close>), which is what the rest of the model uses for the timeouts.
  \<^item> \<open>World\<close>, \<open>Sample\<close>, \<open>Frames\<close>, \<open>Effects\<close>: the state, a sample of it for witnesses, and the
    rules for looking up after an update.
  \<^item> \<open>Object_Pool\<close>: the interface \<open>object_pool\<close> of the free lists of \<open>Mbuf\<close> (\<open>gf_mbuf.c\<close>),
    \<open>Message\<close> (\<open>gf_message.c\<close>) and \<open>Connection\<close> (\<open>gf_connection.c\<close>): no object is held twice.
  \<^item> \<open>Event_Backend\<close>: the interface \<open>event_backend\<close> of the three ways of waiting for the kernel, of which a
    build has one: \<open>Event\<close> (\<open>event/gf_epoll.c\<close>), the one the handlers call,
    \<open>Event_Kqueue\<close> (\<open>event/gf_kqueue.c\<close>) and \<open>Event_Port\<close> (\<open>event/gf_evport.c\<close>): the flags of a connection
    agree with what the kernel watches.
  \<^item> \<open>Stats\<close> (\<open>gf_stats.c\<close>): the counters as functions of a pool, a server and a metric, their updates, the swap
    and the aggregation; \<open>Stats_Report\<close>: the arrays of the code, their creation, the buffer of the report and the
    loop of the aggregator; \<open>Stats_Arrays\<close>: the arrays refine the functions; \<open>Stats_Kept\<close>: no update is lost;
    \<open>Stats_Json\<close>: the report fits its buffer and reads back.
  \<^item> \<open>Net\<close> and \<open>Transfers\<close> (\<open>gf_util.c\<close>): socket options, addresses, blocking transfers;
    \<open>Owners\<close> (\<open>gf_client.c\<close>, \<open>gf_server.c\<close>, \<open>gf_proxy.c\<close>), \<open>Request_Queue\<close> and \<open>Request\<close>
    (\<open>gf_request.c\<close>), \<open>Response\<close> (\<open>gf_response.c\<close>), \<open>Closing\<close> (the close handlers and the
    ejection of servers), \<open>Server\<close> (\<open>gf_server.c\<close>), \<open>Message_IO\<close> (the receive and send chains of
    \<open>gf_message.c\<close>), \<open>Proxy\<close> (\<open>gf_proxy.c\<close>), \<open>Core\<close> (\<open>gf_core.c\<close>): the handlers, in the order
    the code calls them.
  \<^item> \<open>Sending\<close>, \<open>Responses\<close>, \<open>Ejection\<close>, \<open>Timeouts\<close>, \<open>Lifecycle\<close>: what the handlers
    achieve together: requests sent in order and in full, responses paired and delivered in
    order, ejected servers left alone, deadlines served, connections bounded; \<open>Message_Runs\<close> and \<open>Ownership\<close>: runs
    of the operations on messages, with their contents and mbufs, and on connections of every kind, with
    their owners and counters.
  \<^item> \<open>Strings\<close> (\<open>gf_string.c\<close>, \<open>gf_util.c\<close>) and \<open>Arrays\<close> (\<open>gf_array.c\<close>, interface \<open>stack\<close>); \<open>Logger\<close>
    (\<open>gf_log.c\<close>, \<open>gf_signal.c\<close>): the lines of the log, the hexadecimal dump and the signal handlers.
  \<^item> \<open>Conf\<close>, \<open>Conf_File\<close>, \<open>Conf_Check\<close> (\<open>gf_conf.c\<close>): directives, parser and checks;
    \<open>Conf_Structure\<close> and \<open>Conf_Parse\<close>: the event driven passes are walks over the tree of the
    file; \<open>Conf_Server\<close>: the line of a server is read back as it was written; \<open>Conf_Ready\<close>: what
    a successful parse leaves; \<open>Conf_Names\<close> (interface \<open>comparator\<close>) and \<open>Conf_Valid\<close>: the checks accept
    exactly the configurations that can be run; \<open>Conf_Pools\<close> and \<open>Conf_Run\<close> (\<open>gf_server.c\<close>):
    the pools made of them and the servers their keys reach.
  \<^item> \<open>Startup\<close> (\<open>gfw.c\<close>, the creation of the context in \<open>gf_core.c\<close>): options, daemon, pid file, start, run and end;
    \<open>Start_Unwind\<close>: a start that fails releases what it made.

  \<^bold>\<open>Loops and bounds.\<close>  A loop over a list or an index is structural or has a measure.  The loops
  that wait for the kernel (a retry after EINTR, receiving while there is data, accepting, the
  event loop) have fuel, because the kernel may keep them busy for ever; the properties about
  them give the fuel that is enough or hold for every fuel.  The timeout loop needs one unit for
  each armed request and one more, which \<open>core_timeout_returns\<close> proves.  The loops of the
  red-black tree are partial functions, proved to return on every tree the operations build.
  The free lists count in 32 bits; their properties hold below that many objects.

  \<^bold>\<open>Not modelled\<close>, and why: functions that only build a text for the log or the terminal (\<open>msg_dump\<close>,
  \<open>conf_dump\<close>, the names of addresses, \<open>gf_stacktrace\<close>, the usage); the queue macros nothing uses (SLIST, LIST,
  CIRCLEQ and SWAP); the interleaving of the aggregator with the proxy inside one operation of the statistics, which
  are steps here.  The assertions that a link field is NULL are not repeated outside \<open>Queue\<close>.  The counters of the
  statistics are \<open>int64_t\<close> in the code and unbounded in \<open>Stats\<close>.
\<close>

end
